(* ===== verification/Lwip_Prelude.thy ===== *)
theory Lwip_Prelude
  imports Main "HOL-Library.Word" "HOL-Library.Monad_Syntax"
begin

text \<open>
  Shared vocabulary of the development: the C integer types of \<^verbatim>\<open>arch.h\<close> as words, the
  error codes of \<^verbatim>\<open>err.h\<close>, the outcome type of a C function that may abort, and the
  generic lemmas on words, lists and the option monad that the component theories use.

  A C function that can abort (a failing \<^verbatim>\<open>LWIP_ASSERT\<close> calls \<^verbatim>\<open>abort()\<close>) or that
  dereferences a pointer is modelled with a result of type \<open>'a option\<close>: \<open>None\<close> is the
  abort or the invalid access, so a theorem that concludes \<open>f x = Some y\<close> includes that
  no assertion fires and no invalid pointer is followed.
\<close>

unbundle bit_operations_syntax

type_synonym u8 = "8 word"
type_synonym u16 = "16 word"
type_synonym u32 = "32 word"

datatype err_t =
    ERR_OK | ERR_MEM | ERR_BUF | ERR_TIMEOUT | ERR_RTE | ERR_INPROGRESS | ERR_VAL
  | ERR_WOULDBLOCK | ERR_USE | ERR_ALREADY | ERR_ISCONN | ERR_CONN | ERR_IF | ERR_ABRT
  | ERR_RST | ERR_CLSD | ERR_ARG

definition lwip_assert :: "bool \<Rightarrow> unit option" where
  "lwip_assert b = (if b then Some () else None)"

text \<open>The bytes of a C string: everything before the terminating NUL.\<close>

definition c_string :: "u8 list \<Rightarrow> u8 list" where
  "c_string buf = takeWhile (\<lambda>c. c \<noteq> 0) buf"

text \<open>
  \<open>unat_simps\<close> collects the facts that turn word arithmetic into arithmetic on \<open>nat\<close>.
\<close>

named_theorems unat_simps "word arithmetic read through unat"

lemmas [unat_simps] = unat_word_ariths unat_of_nat word_less_nat_alt word_le_nat_alt

lemma lwip_assert_bind [simp]:
  "lwip_assert b \<bind> f = (if b then f () else None)"
  by (simp add: lwip_assert_def)

lemma lwip_assert_Some [simp]: "lwip_assert b = Some u \<longleftrightarrow> b"
  by (simp add: lwip_assert_def)

lemma lwip_assert_None [simp]: "lwip_assert b = None \<longleftrightarrow> \<not> b"
  by (simp add: lwip_assert_def)

subsection \<open>Words\<close>

lemma unat_u8_less [simp]: "unat (x :: u8) < 256"
  using unsigned_less [of x, where 'a = nat] by simp

lemma unat_u16_less [simp]: "unat (x :: u16) < 65536"
  using unsigned_less [of x, where 'a = nat] by simp

lemma unat_u32_less [simp]: "unat (x :: u32) < 4294967296"
  using unsigned_less [of x, where 'a = nat] by simp

lemma unat_u16_le [simp]: "unat (x :: u16) \<le> 65535"
  using unat_u16_less [of x] by linarith

lemma unat_u32_le [simp]: "unat (x :: u32) \<le> 4294967295"
  using unat_u32_less [of x] by linarith

lemma unat_add_no_wrap:
  "unat (a :: 'a::len word) + unat b < 2 ^ LENGTH('a) \<Longrightarrow> unat (a + b) = unat a + unat b"
  by (simp add: unat_word_ariths)

lemma unat_sub_no_wrap:
  "unat (b :: 'a::len word) \<le> unat a \<Longrightarrow> unat (a - b) = unat a - unat b"
  by (simp add: unat_sub word_le_nat_alt)

lemma unat_of_nat_u16 [simp]: "n < 65536 \<Longrightarrow> unat (word_of_nat n :: u16) = n"
  by (simp add: unat_of_nat)

lemma unat_of_nat_u8 [simp]: "n < 256 \<Longrightarrow> unat (word_of_nat n :: u8) = n"
  by (simp add: unat_of_nat)

lemma unat_of_nat_u32 [simp]: "n < 4294967296 \<Longrightarrow> unat (word_of_nat n :: u32) = n"
  by (simp add: unat_of_nat)

lemma unat_numeral_u16: "unat (0xFFFF :: u16) = 65535"
  by simp

lemma minus_one_word_255: "(- 1 :: u8) = 255"
  by simp

lemma unat_eq_zero_word [simp]: "unat (x :: 'a::len word) = 0 \<longleftrightarrow> x = 0"
  by (simp add: unat_eq_0)

lemma unat_div_less [simp]: "m \<noteq> 0 \<Longrightarrow> 1 < unat k \<Longrightarrow> unat (m div k) < unat (m :: 'a::len word)"
  by (simp add: unat_div word_gt_0 flip: unat_gt_0)

lemma unat_drop_bit_1_less [simp]:
  assumes "m \<noteq> 0"
  shows "unat (drop_bit (Suc 0) m) < unat (m :: 'a::len word)"
proof -
  have "0 < unat m" using assms by (simp add: unat_gt_0)
  then show ?thesis unfolding unat_drop_bit_eq by (simp add: drop_bit_eq_div)
qed

lemma and_push_bit_one_eq_0: "x AND push_bit k 1 = 0 \<longleftrightarrow> \<not> bit (x :: 'a::len word) k"
  by (simp add: and_exp_eq_0_iff_not_bit push_bit_eq_mult)

lemma push_bit_one_neq_0: "k < LENGTH('a) \<Longrightarrow> push_bit k 1 \<noteq> (0 :: 'a::len word)"
  by (simp add: push_bit_eq_mult)

lemma drop_bit_push_bit_one:
  "k < LENGTH('a) \<Longrightarrow>
   drop_bit (Suc 0) (push_bit k 1 :: 'a::len word) = (if k = 0 then 0 else push_bit (k - 1) 1)"
  by (intro bit_word_eqI) (auto simp: bit_simps)

text \<open>A property of all bytes is checked byte by byte.\<close>

lemma all_u8: "(\<forall>c :: u8. P c) \<longleftrightarrow> list_all (\<lambda>n. P (word_of_nat n)) [0..<256]"
proof
  assume "list_all (\<lambda>n. P (word_of_nat n)) [0..<256]"
  then have *: "P (word_of_nat n)" if "n < 256" for n
    using that by (auto simp: list_all_iff)
  show "\<forall>c. P c"
  proof
    fix c :: u8
    show "P c" using * [of "unat c"] by simp
  qed
qed (auto simp: list_all_iff)

subsection \<open>Lists\<close>

lemma c_string_terminated [simp]: "0 \<notin> set s \<Longrightarrow> c_string (s @ 0 # r) = s"
  by (induction s) (auto simp: c_string_def)

lemma c_string_Nil [simp]: "c_string (0 # r) = []"
  by (simp add: c_string_def)

lemma list_update_append_hd [simp]: "(xs @ y # ys)[length xs := z] = xs @ z # ys"
  by (induction xs) auto

lemma find_append_eq:
  "find P (xs @ ys) = (case find P xs of Some x \<Rightarrow> Some x | None \<Rightarrow> find P ys)"
  by (induction xs) auto

subsection \<open>Linked lists\<close>

text \<open>\<open>lchain nx p as\<close>: following the links \<open>nx\<close> from the pointer \<open>p\<close> visits the addresses
  \<open>as\<close> and ends in the null pointer, which is 0.\<close>

fun lchain :: "(nat \<Rightarrow> nat) \<Rightarrow> nat \<Rightarrow> nat list \<Rightarrow> bool" where
  "lchain nx p [] \<longleftrightarrow> p = 0"
| "lchain nx p (a # as) \<longleftrightarrow> p = a \<and> a \<noteq> 0 \<and> lchain nx (nx a) as"

lemma lchain_null [simp]: "lchain nx 0 as \<longleftrightarrow> as = []"
  by (cases as) auto

lemma lchain_nonnull:
  "p \<noteq> 0 \<Longrightarrow> lchain nx p as \<longleftrightarrow> (\<exists>as'. as = p # as' \<and> lchain nx (nx p) as')"
  by (cases as) auto

lemma lchain_functional: "lchain nx p as \<Longrightarrow> lchain nx p as' \<Longrightarrow> as = as'"
proof (induction as arbitrary: p as')
  case Nil
  then show ?case by simp
next
  case (Cons a as)
  then show ?case by (cases as') auto
qed

lemma lchain_update [simp]: "a \<notin> set as \<Longrightarrow> lchain (nx(a := b)) p as \<longleftrightarrow> lchain nx p as"
  by (induction as arbitrary: p) auto

lemma lchain_update_if [simp]:
  "a \<notin> set as \<Longrightarrow> lchain (\<lambda>x. if x = a then b else nx x) p as \<longleftrightarrow> lchain nx p as"
  by (induction as arbitrary: p) auto

lemma lchain_distinct: "lchain nx p as \<Longrightarrow> distinct as"
proof (induction as arbitrary: p)
  case (Cons a as)
  have "a \<notin> set as"
  proof
    assume "a \<in> set as"
    then obtain xs ys where as: "as = xs @ a # ys" by (meson split_list)
    have seg: "lchain nx a (a # ys)" if "lchain nx q (xs @ a # ys)" for q
      using that by (induction xs arbitrary: q) auto
    have "lchain nx a (a # ys)" by (rule seg) (use Cons.prems as in auto)
    then have "a # ys = a # as" using Cons.prems lchain_functional [of nx a "a # ys" "a # as"] by simp
    then show False using as by simp
  qed
  with Cons show ?case by auto
qed simp

lemma lchain_cong: "(\<And>a. a \<in> set as \<Longrightarrow> nx' a = nx a) \<Longrightarrow> lchain nx' p as = lchain nx p as"
  by (induction as arbitrary: p) auto

lemma lchain_nonzero: "lchain nx p as \<Longrightarrow> a \<in> set as \<Longrightarrow> a \<noteq> 0"
  by (induction as arbitrary: p) auto

lemma lchain_unlink:
  assumes "lchain nx q (xs @ r # ys)" "\<And>a. a \<in> set xs \<union> set ys \<Longrightarrow> xs = [] \<or> a \<noteq> last xs \<Longrightarrow> nx' a = nx a"
    "xs \<noteq> [] \<Longrightarrow> nx' (last xs) = nx r"
  shows "lchain nx' (if xs = [] then nx r else q) (xs @ ys)"
  using assms
proof (induction xs arbitrary: q)
  case Nil
  then show ?case using lchain_cong [of ys nx' nx] by simp
next
  case (Cons x xs)
  have d: "distinct (x # xs @ r # ys)" using lchain_distinct [OF Cons.prems(1)] by simp
  show ?case
  proof (cases "xs = []")
    case True
    have "\<And>a. a \<in> set ys \<Longrightarrow> nx' a = nx a" using Cons.prems(2) True d by auto
    then show ?thesis using Cons.prems True lchain_cong [of ys nx' nx] by simp
  next
    case False
    then have "x \<noteq> last xs" using d by auto
    then have nx: "nx' x = nx x" using Cons.prems(2) False by auto
    have "lchain nx' (if xs = [] then nx r else nx x) (xs @ ys)"
      using Cons.prems False by (intro Cons.IH) auto
    then show ?thesis using Cons.prems(1) False nx by simp
  qed
qed

end
