(* ===== verification/Lwip_Def.thy ===== *)
theory Lwip_Def
  imports Lwip_Prelude
begin

text \<open>
  \<^verbatim>\<open>src/lwip/def.c\<close> and the macros of \<^verbatim>\<open>def.h\<close> and \<^verbatim>\<open>arch.h\<close> it rests on: byte order,
  case-insensitive string comparison and search, decimal printing, constant-time
  comparison. A pointer into a buffer is the list of the bytes from that address to the
  end of the buffer; reading \<open>*p\<close> off the end is \<open>None\<close>.
\<close>

section \<open>Byte order\<close>

definition PP_HTONS :: "u16 \<Rightarrow> u16" where
  "PP_HTONS x = push_bit 8 (x AND 0x00ff) OR drop_bit 8 (x AND 0xff00)"

definition PP_HTONL :: "u32 \<Rightarrow> u32" where
  "PP_HTONL x = push_bit 24 (x AND 0x000000ff) OR push_bit 8 (x AND 0x0000ff00)
     OR drop_bit 8 (x AND 0x00ff0000) OR drop_bit 24 (x AND 0xff000000)"

definition lwip_htons :: "u16 \<Rightarrow> u16" where
  "lwip_htons n = PP_HTONS n"

definition lwip_htonl :: "u32 \<Rightarrow> u32" where
  "lwip_htonl n = PP_HTONL n"

definition LWIP_MAKEU32 :: "u8 \<Rightarrow> u8 \<Rightarrow> u8 \<Rightarrow> u8 \<Rightarrow> u32" where
  "LWIP_MAKEU32 a b c d = push_bit 24 (ucast a) OR push_bit 16 (ucast b)
     OR push_bit 8 (ucast c) OR ucast d"

section \<open>Character classes (arch.h)\<close>

definition lwip_in_range :: "u8 \<Rightarrow> u8 \<Rightarrow> u8 \<Rightarrow> bool" where
  "lwip_in_range c lo up \<longleftrightarrow> c \<ge> lo \<and> c \<le> up"

definition lwip_isdigit :: "u8 \<Rightarrow> bool" where
  "lwip_isdigit c \<longleftrightarrow> lwip_in_range c 48 57"

definition lwip_isxdigit :: "u8 \<Rightarrow> bool" where
  "lwip_isxdigit c \<longleftrightarrow> lwip_isdigit c \<or> lwip_in_range c 97 102 \<or> lwip_in_range c 65 70"

definition lwip_islower :: "u8 \<Rightarrow> bool" where
  "lwip_islower c \<longleftrightarrow> lwip_in_range c 97 122"

definition lwip_isspace :: "u8 \<Rightarrow> bool" where
  "lwip_isspace c \<longleftrightarrow> c = 32 \<or> c = 12 \<or> c = 10 \<or> c = 13 \<or> c = 9 \<or> c = 11"

definition lwip_isupper :: "u8 \<Rightarrow> bool" where
  "lwip_isupper c \<longleftrightarrow> lwip_in_range c 65 90"

definition lwip_tolower :: "u8 \<Rightarrow> u8" where
  "lwip_tolower c = (if lwip_isupper c then c - 65 + 97 else c)"

section \<open>Library functions used by def.c\<close>

text \<open>\<^verbatim>\<open>strlen\<close> and \<^verbatim>\<open>strncmp\<close>; the latter only up to being zero, which is all the
  source tests.\<close>

fun strlen :: "u8 list \<Rightarrow> nat option" where
  "strlen [] = None"
| "strlen (c # s) = (if c = 0 then Some 0 else map_option Suc (strlen s))"

fun strncmp :: "u8 list \<Rightarrow> u8 list \<Rightarrow> nat \<Rightarrow> int option" where
  "strncmp s t 0 = Some 0"
| "strncmp (c # s) (d # t) (Suc n) =
     (if c \<noteq> d then Some (uint c - uint d) else if c = 0 then Some 0 else strncmp s t n)"
| "strncmp _ _ (Suc n) = None"

section \<open>String comparison and search\<close>

text \<open>The body of the \<^verbatim>\<open>do\<close> loop of \<^verbatim>\<open>lwip_stricmp\<close> and \<^verbatim>\<open>lwip_strnicmp\<close>: whether the
  two characters make the function return 1.\<close>

definition chars_differ :: "u8 \<Rightarrow> u8 \<Rightarrow> bool" where
  "chars_differ c1 c2 \<longleftrightarrow>
     (if c1 \<noteq> c2 then
        (let c1_upc = c1 OR 0x20 in
         if c1_upc \<ge> 97 \<and> c1_upc \<le> 122 then
           (let c2_upc = c2 OR 0x20 in c1_upc \<noteq> c2_upc)
         else True)
      else False)"

fun lwip_stricmp :: "u8 list \<Rightarrow> u8 list \<Rightarrow> int option" where
  "lwip_stricmp (c1 # s1) (c2 # s2) =
     (if chars_differ c1 c2 then Some 1
      else if c1 \<noteq> 0 then lwip_stricmp s1 s2 else Some 0)"
| "lwip_stricmp _ _ = None"

fun lwip_strnicmp :: "u8 list \<Rightarrow> u8 list \<Rightarrow> u32 \<Rightarrow> int option" where
  "lwip_strnicmp (c1 # s1) (c2 # s2) len =
     (if chars_differ c1 c2 then Some 1
      else (let len = len - 1 in
            if len \<noteq> 0 \<and> c1 \<noteq> 0 then lwip_strnicmp s1 s2 len else Some 0))"
| "lwip_strnicmp _ _ len = None"

text \<open>The \<^verbatim>\<open>for\<close> loops: \<open>i\<close> is \<^verbatim>\<open>p - buffer\<close>. The result is the offset of the match,
  \<open>Some None\<close> is \<^verbatim>\<open>NULL\<close>.\<close>

fun strnstr_loop :: "u8 list \<Rightarrow> nat \<Rightarrow> u8 list \<Rightarrow> nat \<Rightarrow> nat \<Rightarrow> nat option option" where
  "strnstr_loop [] i token tokenlen n = None"
| "strnstr_loop (c # s) i token tokenlen n =
     (if c \<noteq> 0 \<and> i + tokenlen \<le> n then
        (case token of
           [] \<Rightarrow> None
         | t # _ \<Rightarrow>
             if c = t then
               do { r \<leftarrow> strncmp (c # s) token tokenlen;
                    if r = 0 then Some (Some i) else strnstr_loop s (Suc i) token tokenlen n }
             else strnstr_loop s (Suc i) token tokenlen n)
      else Some None)"

definition lwip_strnstr :: "u8 list \<Rightarrow> u8 list \<Rightarrow> nat \<Rightarrow> nat option option" where
  "lwip_strnstr buffer token n =
     do { tokenlen \<leftarrow> strlen token;
          if tokenlen = 0 then Some (Some 0) else strnstr_loop buffer 0 token tokenlen n }"

fun strnistr_loop :: "u8 list \<Rightarrow> nat \<Rightarrow> u8 list \<Rightarrow> nat \<Rightarrow> nat \<Rightarrow> nat option option" where
  "strnistr_loop [] i token tokenlen n = None"
| "strnistr_loop (c # s) i token tokenlen n =
     (if c \<noteq> 0 \<and> i + tokenlen \<le> n then
        do { r \<leftarrow> lwip_strnicmp (c # s) token (of_nat tokenlen);
             if r = 0 then Some (Some i) else strnistr_loop s (Suc i) token tokenlen n }
      else Some None)"

definition lwip_strnistr :: "u8 list \<Rightarrow> u8 list \<Rightarrow> nat \<Rightarrow> nat option option" where
  "lwip_strnistr buffer token n =
     do { tokenlen \<leftarrow> strlen token;
          if tokenlen = 0 then Some (Some 0) else strnistr_loop buffer 0 token tokenlen n }"

section \<open>Decimal printing\<close>

text \<open>\<^verbatim>\<open>lwip_itoa\<close> on the output buffer \<open>buf\<close> of \<^verbatim>\<open>bufsize\<close> bytes; \<open>res\<close> and \<open>tmp\<close> are
  offsets into it.\<close>

fun itoa_loop :: "nat \<Rightarrow> nat \<Rightarrow> nat \<Rightarrow> u8 list \<Rightarrow> nat \<times> nat \<times> u8 list" where
  "itoa_loop n tmp res buf =
     (if n \<noteq> 0 \<and> tmp > res then
        (let val = 48 + word_of_nat (n mod 10); tmp = tmp - 1
         in itoa_loop (n div 10) tmp res (buf[tmp := val]))
      else (n, tmp, buf))"

declare itoa_loop.simps [simp del]

definition memmove_buf :: "u8 list \<Rightarrow> nat \<Rightarrow> nat \<Rightarrow> nat \<Rightarrow> u8 list" where
  "memmove_buf buf dst src len =
     take dst buf @ take len (drop src buf) @ drop (dst + len) buf"

text \<open>What follows the loop: the buffer is too small, nothing was added, or the digits are
  moved to the front (the sign is not moved).\<close>

definition itoa_finish :: "nat \<Rightarrow> nat \<times> nat \<times> u8 list \<Rightarrow> u8 list" where
  "itoa_finish res = (\<lambda>(n, tmp, buf).
     if n \<noteq> 0 then buf[0 := 0]
     else if buf ! tmp = 0 then buf[res := 48, res + 1 := 0]
     else memmove_buf buf res tmp (length buf - tmp))"

definition lwip_itoa :: "u8 list \<Rightarrow> int \<Rightarrow> u8 list" where
  "lwip_itoa buf number =
     (let bufsize = length buf; tmp = bufsize - 1; n = nat \<bar>number\<bar> in
      if bufsize < 2 then (if bufsize = 1 then buf[0 := 0] else buf)
      else
        (let (res, buf) = (if number < 0 then (1, buf[0 := 45]) else (0, buf));
             buf = buf[tmp := 0]
         in itoa_finish res (itoa_loop n tmp res buf)))"

section \<open>Constant-time comparison\<close>

text \<open>The loop over \<^verbatim>\<open>i\<close>; the C function reads \<open>len\<close> bytes of both arrays.\<close>

fun memcmp_consttime_loop :: "u8 list \<Rightarrow> u8 list \<Rightarrow> nat \<Rightarrow> u8 \<Rightarrow> u8 option" where
  "memcmp_consttime_loop a1 a2 0 ret = Some ret"
| "memcmp_consttime_loop (x # a1) (y # a2) (Suc len) ret =
     memcmp_consttime_loop a1 a2 len (ret OR (x XOR y))"
| "memcmp_consttime_loop _ _ (Suc len) ret = None"

definition lwip_memcmp_consttime :: "u8 list \<Rightarrow> u8 list \<Rightarrow> nat \<Rightarrow> int option" where
  "lwip_memcmp_consttime s1 s2 len = map_option uint (memcmp_consttime_loop s1 s2 len 0)"

section \<open>Correctness\<close>

text \<open>Specification: decimal notation, most significant digit first.\<close>

fun dec_digits :: "nat \<Rightarrow> u8 list" where
  "dec_digits n = (if n < 10 then [] else dec_digits (n div 10)) @ [48 + word_of_nat (n mod 10)]"

declare dec_digits.simps [simp del]

definition dec_string :: "int \<Rightarrow> u8 list" where
  "dec_string z = (if z < 0 then [45] else []) @ dec_digits (nat \<bar>z\<bar>)"

lemma u16_masks: "(0x00ff :: u16) = mask 8" "(0xff00 :: u16) = push_bit 8 (mask 8)"
  by (simp_all add: mask_eq_exp_minus_1 push_bit_eq_mult)

lemma u32_masks:
  "(0xff :: u32) = mask 8" "(0xff00 :: u32) = push_bit 8 (mask 8)"
  "(0xff0000 :: u32) = push_bit 16 (mask 8)" "(0xff000000 :: u32) = push_bit 24 (mask 8)"
  by (simp_all add: mask_eq_exp_minus_1 push_bit_eq_mult)

lemma bit_PP_HTONS:
  "bit (PP_HTONS x) n \<longleftrightarrow> (if n < 8 then bit x (n + 8) else n < 16 \<and> bit x (n - 8))"
  unfolding PP_HTONS_def u16_masks by (auto simp: bit_simps add.commute)

lemma bit_PP_HTONL:
  "bit (PP_HTONL x) n \<longleftrightarrow>
     (if n < 8 then bit x (n + 24) else if n < 16 then bit x (n + 8)
      else if n < 24 then bit x (n - 8) else n < 32 \<and> bit x (n - 24))"
  unfolding PP_HTONL_def u32_masks by (auto simp: bit_simps add.commute)

lemma lwip_htons_involutive [simp]: "lwip_htons (lwip_htons x) = x"
  unfolding lwip_htons_def by (rule bit_word_eqI) (auto simp: bit_PP_HTONS)

lemma lwip_htonl_involutive [simp]: "lwip_htonl (lwip_htonl x) = x"
  unfolding lwip_htonl_def by (rule bit_word_eqI) (auto simp: bit_PP_HTONL)

lemma PP_HTONS_plus: "PP_HTONS x = push_bit 8 (take_bit 8 x) + drop_bit 8 x"
proof -
  have "push_bit 8 (take_bit 8 x) + drop_bit 8 x = push_bit 8 (take_bit 8 x) OR drop_bit 8 x"
    by (rule disjunctive_add) (auto simp: bit_simps dest: bit_imp_le_length)
  also have "\<dots> = PP_HTONS x"
    by (rule bit_word_eqI) (auto simp: bit_PP_HTONS bit_simps add.commute dest: bit_imp_le_length)
  finally show ?thesis by simp
qed

lemma unat_lwip_htons: "unat (lwip_htons x) = unat x mod 256 * 256 + unat x div 256"
proof -
  have hi: "unat (push_bit 8 (take_bit 8 x)) = unat x mod 256 * 256"
    by (simp add: push_bit_eq_mult unat_word_ariths unsigned_take_bit_eq take_bit_eq_mod)
  have lo: "unat (drop_bit 8 x) = unat x div 256"
    by (simp add: drop_bit_eq_div unat_div)
  have "unat x div 256 < 256" "unat x mod 256 < 256"
    using unat_u16_less [of x] by (simp_all add: less_mult_imp_div_less)
  then have "unat x mod 256 * 256 + unat x div 256 < 65536" by linarith
  then show ?thesis
    by (simp add: lwip_htons_def PP_HTONS_plus unat_word_ariths hi lo)
qed

lemma alpha_cases:
  "\<forall>c :: u8. if c OR 0x20 \<ge> 97 \<and> c OR 0x20 \<le> 122 then lwip_tolower c = c OR 0x20
             else lwip_tolower c = c \<and> \<not> (c \<ge> 97 \<and> c \<le> 122)"
  unfolding all_u8 by code_simp

lemma tolower_zero: "\<forall>c :: u8. lwip_tolower c = 0 \<longleftrightarrow> c = 0"
  unfolding all_u8 by code_simp

lemma tolower_eq_zero [simp]:
  "lwip_tolower 0 = 0" "lwip_tolower c = 0 \<longleftrightarrow> c = 0" "0 = lwip_tolower c \<longleftrightarrow> c = 0"
  using tolower_zero [rule_format, of c] tolower_zero [rule_format, of 0] by auto

lemma chars_differ_tolower: "chars_differ c1 c2 \<longleftrightarrow> lwip_tolower c1 \<noteq> lwip_tolower c2"
proof (cases "c1 OR 0x20 \<ge> 97 \<and> c1 OR 0x20 \<le> 122")
  case True
  then have 1: "lwip_tolower c1 = c1 OR 0x20"
    using alpha_cases [rule_format, of c1] by simp
  show ?thesis
    using True 1 alpha_cases [rule_format, of c2]
    by (cases "c1 = c2"; cases "c2 OR 0x20 \<ge> 97 \<and> c2 OR 0x20 \<le> 122")
       (simp_all add: chars_differ_def Let_def, metis)
next
  case False
  then have 1: "lwip_tolower c1 = c1" "\<not> (c1 \<ge> 97 \<and> c1 \<le> 122)"
    using alpha_cases [rule_format, of c1] by simp_all
  show ?thesis
    using False 1 alpha_cases [rule_format, of c2]
    by (cases "c1 = c2"; cases "c2 OR 0x20 \<ge> 97 \<and> c2 OR 0x20 \<le> 122")
       (simp_all add: chars_differ_def Let_def, blast, blast)
qed

lemma stricmp_tolower:
  assumes "0 \<notin> set s" "0 \<notin> set t"
  shows "lwip_stricmp (s @ 0 # r) (t @ 0 # r') =
     Some (if map lwip_tolower s = map lwip_tolower t then 0 else 1)"
  using assms
proof (induction s arbitrary: t)
  case Nil
  then show ?case by (cases t) (auto simp: chars_differ_tolower)
next
  case (Cons c s)
  then show ?case by (cases t) (auto simp: chars_differ_tolower)
qed

lemma word_of_nat_zero_iff_u32: "k < 2 ^ 32 \<Longrightarrow> (word_of_nat k :: u32) = 0 \<longleftrightarrow> k = 0"
  by (auto simp: word_of_nat_eq_0_iff dest: dvd_imp_le)

lemma strnicmp_tolower:
  assumes "0 \<notin> set s" "0 \<notin> set t" "0 < k" "k < 2 ^ 32"
  shows "lwip_strnicmp (s @ 0 # r) (t @ 0 # r') (word_of_nat k) =
     Some (if map lwip_tolower (take k s) = map lwip_tolower (take k t) then 0 else 1)"
  using assms
proof (induction s arbitrary: t k)
  case Nil
  then obtain k' where "k = Suc k'" by (cases k) auto
  with Nil show ?case by (cases t) (auto simp: chars_differ_tolower)
next
  case (Cons c s)
  then obtain k' where k: "k = Suc k'" by (cases k) auto
  have nz: "(word_of_nat k' :: u32) = 0 \<longleftrightarrow> k' = 0"
    using Cons.prems k by (intro word_of_nat_zero_iff_u32) simp
  show ?case
  proof (cases t)
    case t: (Cons d t')
    with Cons.prems k have "0 < k' \<Longrightarrow> lwip_strnicmp (s @ 0 # r) (t' @ 0 # r') (word_of_nat k') =
      Some (if map lwip_tolower (take k' s) = map lwip_tolower (take k' t') then 0 else 1)"
      by (intro Cons.IH) auto
    with t k nz Cons.prems show ?thesis by (auto simp: chars_differ_tolower Let_def)
  qed (use Cons.prems k in \<open>simp add: chars_differ_tolower\<close>)
qed

lemma strlen_terminated: "0 \<notin> set s \<Longrightarrow> strlen (s @ 0 # r) = Some (length s)"
  by (induction s) auto

lemma strncmp_take:
  assumes "0 \<notin> set s" "0 \<notin> set t" "k \<le> length t"
  shows "\<exists>d. strncmp (s @ 0 # r) (t @ 0 # r') k = Some d \<and> (d = 0 \<longleftrightarrow> take k s = take k t)"
  using assms
proof (induction s arbitrary: t k)
  case Nil
  then show ?case by (cases t; cases k) (auto simp: uint_0_iff)
next
  case (Cons c s)
  then show ?case by (cases t; cases k) (auto simp: word_uint_eq_iff)
qed

lemma find_drop_Cons:
  "find (\<lambda>j. Q j (drop (j - i) (c # s))) [i..<i + length (c # s)] =
     (if Q i (c # s) then Some i
      else find (\<lambda>j. Q j (drop (j - Suc i) s)) [Suc i..<Suc i + length s])"
proof -
  have "find (\<lambda>j. Q j (drop (j - i) (c # s))) [Suc i..<Suc i + length s] =
        find (\<lambda>j. Q j (drop (j - Suc i) s)) [Suc i..<Suc i + length s]"
  proof (rule find_cong [OF refl])
    fix j assume "j \<in> set [Suc i..<Suc i + length s]"
    then have "j - i = Suc (j - Suc i)" by auto
    then show "Q j (drop (j - i) (c # s)) = Q j (drop (j - Suc i) s)" by simp
  qed
  moreover have "[i..<i + length (c # s)] = i # [Suc i..<Suc i + length s]"
    by (simp add: upt_rec del: upt_Suc)
  ultimately show ?thesis by simp
qed

lemma find_beyond:
  "\<not> i + k \<le> n \<Longrightarrow> find (\<lambda>j. j + k \<le> n \<and> Q j) [i..<m] = None"
  by (auto simp: find_None_iff)

lemma strnstr_loop_find:
  assumes "0 \<notin> set s" "0 \<notin> set t" "t \<noteq> []"
  shows "strnstr_loop (s @ 0 # r) i (t @ 0 # r') (length t) n =
     Some (find (\<lambda>j. j + length t \<le> n \<and> take (length t) (drop (j - i) s) = t) [i..<i + length s])"
  using assms
proof (induction s arbitrary: i)
  case Nil
  then show ?case by simp
next
  case (Cons c s)
  obtain x t' where t: "t = x # t'" using Cons.prems by (cases t) auto
  obtain d where d: "strncmp (c # s @ 0 # r) (t @ 0 # r') (length t) = Some d"
      and d0: "d = 0 \<longleftrightarrow> take (length t) (c # s) = t"
    using strncmp_take [of "c # s" t "length t" r r'] Cons.prems by auto
  show ?case
    unfolding find_drop_Cons [where Q = "\<lambda>j v. j + length t \<le> n \<and> take (length t) v = t"]
    using Cons.IH [of "Suc i"] Cons.prems d d0 t
      find_beyond [of "Suc i" "length t" n "\<lambda>j. take (length t) (drop (j - Suc i) s) = t" "Suc i + length s"]
    by (auto simp del: upt_Suc)
qed

lemma strnistr_loop_find:
  assumes "0 \<notin> set s" "0 \<notin> set t" "t \<noteq> []" "length t < 2 ^ 32"
  shows "strnistr_loop (s @ 0 # r) i (t @ 0 # r') (length t) n =
     Some (find (\<lambda>j. j + length t \<le> n \<and>
             map lwip_tolower (take (length t) (drop (j - i) s)) = map lwip_tolower t) [i..<i + length s])"
  using assms
proof (induction s arbitrary: i)
  case Nil
  then show ?case by simp
next
  case (Cons c s)
  have cmp: "lwip_strnicmp (c # s @ 0 # r) (t @ 0 # r') (word_of_nat (length t)) =
     Some (if map lwip_tolower (take (length t) (c # s)) = map lwip_tolower t then 0 else 1)"
    using strnicmp_tolower [of "c # s" t "length t" r r'] Cons.prems by simp
  show ?case
    unfolding find_drop_Cons [where Q = "\<lambda>j v. j + length t \<le> n \<and> map lwip_tolower (take (length t) v) = map lwip_tolower t"]
    using Cons.IH [of "Suc i"] Cons.prems cmp
      find_beyond [of "Suc i" "length t" n "\<lambda>j. map lwip_tolower (take (length t) (drop (j - Suc i) s)) = map lwip_tolower t" "Suc i + length s"]
    by (auto simp del: upt_Suc lwip_strnicmp.simps)
qed

lemma itoa_loop_fits:
  "n \<noteq> 0 \<Longrightarrow> length (dec_digits n) \<le> tmp - res \<Longrightarrow> tmp \<le> length buf \<Longrightarrow>
   itoa_loop n tmp res buf =
     (0, tmp - length (dec_digits n),
      take (tmp - length (dec_digits n)) buf @ dec_digits n @ drop tmp buf)"
proof (induction n tmp res buf rule: itoa_loop.induct)
  case (1 n tmp res buf)
  let ?c = "48 + word_of_nat (n mod 10) :: u8"
  have tr: "tmp > res" using 1 by (subst (asm) dec_digits.simps) auto
  show ?case
  proof (cases "n < 10")
    case True
    then have "dec_digits n = [?c]" by (subst dec_digits.simps) simp
    moreover have "buf[tmp - 1 := ?c] = take (tmp - 1) buf @ ?c # drop tmp buf"
      using tr 1 by (simp add: upd_conv_take_nth_drop)
    ultimately show ?thesis using tr True 1
      by (simp add: itoa_loop.simps [of n] itoa_loop.simps [of 0] Let_def)
  next
    case False
    then have dd: "dec_digits n = dec_digits (n div 10) @ [?c]" by (subst dec_digits.simps) simp
    have upd: "drop (tmp - 1) (buf[tmp - 1 := ?c]) = ?c # drop tmp buf"
      using tr 1 by (simp add: upd_conv_take_nth_drop)
    have "itoa_loop (n div 10) (tmp - 1) res (buf[tmp - 1 := ?c]) =
      (0, tmp - 1 - length (dec_digits (n div 10)),
       take (tmp - 1 - length (dec_digits (n div 10))) (buf[tmp - 1 := ?c]) @
       dec_digits (n div 10) @ drop (tmp - 1) (buf[tmp - 1 := ?c]))"
      using 1 tr False dd by (intro "1.IH") auto
    then show ?thesis using tr False 1 dd
      using upd by (simp add: itoa_loop.simps [of n] Let_def)
  qed
qed

lemma itoa_loop_too_long:
  "res \<le> tmp \<Longrightarrow> tmp - res < length (dec_digits n) \<Longrightarrow> n \<noteq> 0 \<Longrightarrow> \<exists>m t b. itoa_loop n tmp res buf = (m, t, b) \<and> m \<noteq> 0 \<and> length b = length buf"
proof (induction n tmp res buf rule: itoa_loop.induct)
  case (1 n tmp res buf)
  show ?case
  proof (cases "tmp > res")
    case True
    then have "\<not> n < 10" using 1 by (subst (asm) dec_digits.simps) (auto split: if_splits)
    then have dd: "dec_digits n = dec_digits (n div 10) @ [48 + word_of_nat (n mod 10)]"
      by (subst dec_digits.simps) simp
    show ?thesis using "1.IH" [OF _ refl refl] True 1 dd \<open>\<not> n < 10\<close>
      by (subst itoa_loop.simps) (auto simp: Let_def)
  qed (use 1 in \<open>simp add: itoa_loop.simps [of n]\<close>)
qed

lemma dec_digits_not_zero [simp]: "0 \<notin> set (dec_digits n)"
proof (induction n rule: dec_digits.induct)
  case (1 n)
  have "(48 + word_of_nat (n mod 10) :: u8) \<noteq> 0"
  proof
    assume "(48 + word_of_nat (n mod 10) :: u8) = 0"
    then have "unat (48 + word_of_nat (n mod 10) :: u8) = 0" by simp
    moreover have "n mod 10 < 10" by simp
    ultimately show False by (simp add: unat_word_ariths unat_of_nat)
  qed
  with 1 show ?case by (subst dec_digits.simps) auto
qed

lemma dec_digits_length_pos [simp]: "0 < length (dec_digits n)" "dec_digits n \<noteq> []"
  by (subst dec_digits.simps; simp)+

lemma memmove_buf_front:
  assumes "dst \<le> length p"
  shows "memmove_buf (p @ d @ [0]) dst (length p) (Suc (length d)) =
     take dst p @ d @ 0 # drop (dst + Suc (length d)) (p @ d @ [0])"
  using assms by (simp add: memmove_buf_def)

lemma itoa_finish_fits:
  fixes n res :: nat and b :: "u8 list"
  assumes n: "n \<noteq> 0" and fits: "length (dec_digits n) + res < length b"
    and last: "drop (length b - 1) b = [0]" and sgn: "0 \<notin> set (take res b)"
  shows "c_string (itoa_finish res (itoa_loop n (length b - 1) res b)) = take res b @ dec_digits n"
proof -
  define t where "t = length b - 1 - length (dec_digits n)"
  have t: "res \<le> t" "t \<le> length b" "length b - t = Suc (length (dec_digits n))"
    using fits by (auto simp: t_def)
  let ?b = "take t b @ dec_digits n @ [0]"
  have lp: "itoa_loop n (length b - 1) res b = (0, t, ?b)"
    using itoa_loop_fits [OF n, of "length b - 1" res b] fits last by (simp add: t_def)
  have lt: "length (take t b) = t" "take res (take t b) = take res b" using t by simp_all
  have len: "length ?b - t = Suc (length (dec_digits n))" using t by simp
  have "hd (dec_digits n) \<noteq> 0"
    by (metis dec_digits_length_pos(2) dec_digits_not_zero list.set_sel(1))
  then have hd: "?b ! t \<noteq> 0"
    using t by (simp add: nth_append hd_conv_nth)
  have "itoa_finish res (0, t, ?b) = memmove_buf ?b res t (Suc (length (dec_digits n)))"
    using hd len by (simp add: itoa_finish_def)
  also have "\<dots> = (take res b @ dec_digits n) @ 0 # drop (res + Suc (length (dec_digits n))) ?b"
    using memmove_buf_front [of res "take t b" "dec_digits n"] t lt by simp
  finally have "itoa_finish res (itoa_loop n (length b - 1) res b) =
      (take res b @ dec_digits n) @ 0 # drop (res + Suc (length (dec_digits n))) ?b"
    unfolding lp .
  then show ?thesis
    using sgn c_string_terminated [of "take res b @ dec_digits n"] by (metis Un_iff dec_digits_not_zero set_append)
qed

lemma itoa_finish_too_long:
  assumes "n \<noteq> 0" "length b \<le> length (dec_digits n) + res" "res < length b"
  shows "c_string (itoa_finish res (itoa_loop n (length b - 1) res b)) = []"
proof -
  obtain m u c where "itoa_loop n (length b - 1) res b = (m, u, c)" "m \<noteq> 0" "length c = length b"
    using itoa_loop_too_long [of res "length b - 1" n b] assms by force
  with assms show ?thesis by (cases c) (auto simp: itoa_finish_def)
qed

lemma itoa_finish_zero:
  assumes "2 \<le> length b" "b ! (length b - 1) = 0"
  shows "c_string (itoa_finish 0 (itoa_loop 0 (length b - 1) 0 b)) = [48]"
  using assms by (cases b; cases "tl b") (auto simp: itoa_finish_def itoa_loop.simps [of 0] c_string_def)

lemma c_string_lwip_itoa:
  assumes "0 < length buf"
  shows "c_string (lwip_itoa buf number) =
     (if length (dec_string number) < length buf then dec_string number else [])"
proof (cases "length buf = 1")
  case True
  then show ?thesis by (cases buf) (auto simp: lwip_itoa_def dec_string_def)
next
  case False
  define res where "res = (if number < 0 then 1 else 0 :: nat)"
  define b where "b = (if number < 0 then buf[0 := 45] else buf)[length buf - 1 := 0]"
  have l2: "2 \<le> length buf" "length b = length buf" using assms False by (linarith, simp add: b_def)
  have sgn: "take res b = (if number < 0 then [45] else [])"
    using l2 by (cases buf; cases "tl buf") (auto simp: res_def b_def)
  have lst: "drop (length b - 1) b = [0]" "b ! (length b - 1) = 0"
    using l2 by (auto intro!: nth_equalityI simp: b_def)
  have eq: "lwip_itoa buf number = itoa_finish res (itoa_loop (nat \<bar>number\<bar>) (length b - 1) res b)"
    using l2 by (cases "number < 0") (simp_all add: lwip_itoa_def Let_def res_def b_def)
  show ?thesis
  proof (cases "number = 0")
    case True
    then show ?thesis
      using eq itoa_finish_zero [of b] lst l2
      by (simp add: res_def dec_string_def dec_digits.simps [of 0])
  next
    case False
    then show ?thesis
      using eq sgn lst l2 itoa_finish_fits [of "nat \<bar>number\<bar>" res b]
        itoa_finish_too_long [of "nat \<bar>number\<bar>" b res]
      by (force simp: res_def dec_string_def)
  qed
qed

lemma xor_eq_zero_imp_eq: "(x :: 'a::len word) XOR y = 0 \<Longrightarrow> x = y"
  by (metis xor.assoc xor.left_neutral xor.right_neutral xor_self_eq)

lemma memcmp_consttime_loop_zero:
  "len \<le> length a1 \<Longrightarrow> len \<le> length a2 \<Longrightarrow>
   \<exists>r. memcmp_consttime_loop a1 a2 len ret = Some r \<and>
       (r = 0 \<longleftrightarrow> ret = 0 \<and> take len a1 = take len a2)"
proof (induction a1 a2 len ret rule: memcmp_consttime_loop.induct)
  case (2 x a1 y a2 len ret)
  then show ?case by (auto simp: or_eq_0_iff dest: xor_eq_zero_imp_eq)
qed auto

text \<open>A length of 0 wraps around: the comparison then runs to the end of the strings.\<close>

lemma strnicmp_len_zero:
  assumes "0 \<notin> set s" "0 \<notin> set t" "length s < 2 ^ 32 - 1" "length t < 2 ^ 32 - 1"
  shows "lwip_strnicmp (s @ 0 # r) (t @ 0 # r') 0 = lwip_stricmp (s @ 0 # r) (t @ 0 # r')"
proof (cases "s = [] \<or> t = []")
  case True
  then show ?thesis using assms
    by (cases s; cases t) (auto simp: chars_differ_tolower)
next
  case False
  then obtain c s' d t' where st: "s = c # s'" "t = d # t'" by (cases s; cases t) auto
  have m1: "(- 1 :: u32) = 4294967295" by simp
  have "lwip_strnicmp (s' @ 0 # r) (t' @ 0 # r') (word_of_nat (2 ^ 32 - 1)) =
        lwip_stricmp (s' @ 0 # r) (t' @ 0 # r')"
    using strnicmp_tolower [of s' t' "2 ^ 32 - 1" r r'] assms st by (simp add: stricmp_tolower)
  then show ?thesis using st assms by (simp add: Let_def m1)
qed

lemma lwip_strnstr_find:
  assumes "0 \<notin> set s" "0 \<notin> set t" "t \<noteq> []"
  shows "lwip_strnstr (s @ 0 # r) (t @ 0 # r') n =
     Some (find (\<lambda>i. i + length t \<le> n \<and> take (length t) (drop i s) = t) [0..<length s])"
  using assms strnstr_loop_find [of s t r 0 r' n]
  by (simp add: lwip_strnstr_def strlen_terminated)

lemma lwip_strnistr_find:
  assumes "0 \<notin> set s" "0 \<notin> set t" "t \<noteq> []" "length t < 2 ^ 32"
  shows "lwip_strnistr (s @ 0 # r) (t @ 0 # r') n =
     Some (find (\<lambda>i. i + length t \<le> n \<and>
             map lwip_tolower (take (length t) (drop i s)) = map lwip_tolower t) [0..<length s])"
  using assms strnistr_loop_find [of s t r 0 r' n]
  by (simp add: lwip_strnistr_def strlen_terminated)

section \<open>Properties\<close>

text \<open>\<^verbatim>\<open>lwip_stricmp\<close> never reads past the terminators of its two strings, returns 0 exactly
  when they agree after folding upper to lower case, and 1 otherwise; the bit trick
  \<^verbatim>\<open>c | 0x20\<close> confuses no two characters.\<close>

lemma stricmp_case_insensitive:
  assumes "0 \<notin> set s" "0 \<notin> set t"
  shows "lwip_stricmp (s @ 0 # r) (t @ 0 # r') =
     Some (if map lwip_tolower s = map lwip_tolower t then 0 else 1)"
  by (rule stricmp_tolower [OF assms])

text \<open>\<^verbatim>\<open>lwip_strnistr\<close> returns the first offset at which the token occurs in the string up to
  case, among the offsets at which the token still ends within \<^verbatim>\<open>n\<close> bytes, and \<^verbatim>\<open>NULL\<close> when there
  is none; it never reads past the terminators.\<close>

lemma strnistr_first_match:
  assumes "0 \<notin> set s" "0 \<notin> set t" "t \<noteq> []" "length t < 2 ^ 32"
  shows "lwip_strnistr (s @ 0 # r) (t @ 0 # r') n =
     Some (find (\<lambda>i. i + length t \<le> n \<and>
             map lwip_tolower (take (length t) (drop i s)) = map lwip_tolower t) [0..<length s])"
  by (rule lwip_strnistr_find [OF assms])

text \<open>whatever a non-empty buffer holds, after \<^verbatim>\<open>lwip_itoa\<close> it holds the decimal notation of
  the number as a C string when that and its terminator fit, and the empty string
  otherwise.\<close>

lemma itoa_prints_decimal:
  assumes "0 < length buf"
  shows "c_string (lwip_itoa buf number) =
     (if length (dec_string number) < length buf then dec_string number else [])"
  by (rule c_string_lwip_itoa [OF assms])

text \<open>on arrays of at least \<^verbatim>\<open>len\<close> bytes \<^verbatim>\<open>lwip_memcmp_consttime\<close> returns, and returns 0
  exactly when the first \<^verbatim>\<open>len\<close> bytes agree.\<close>

lemma memcmp_consttime_zero_iff:
  assumes "len \<le> length s1" "len \<le> length s2"
  shows "\<exists>r. lwip_memcmp_consttime s1 s2 len = Some r \<and> (r = 0 \<longleftrightarrow> take len s1 = take len s2)"
  using memcmp_consttime_loop_zero [OF assms, of 0]
  by (auto simp: lwip_memcmp_consttime_def uint_0_iff)

end
