(* ===== verification/Ip4_Addr.thy ===== *)
theory Ip4_Addr
  imports Lwip_Def
begin

text \<open>
  \<^verbatim>\<open>src/lwip/ipv4/ip4_addr.c\<close> and the address macros of \<^verbatim>\<open>ip4_addr.h\<close>. An address is the
  \<^typ>\<open>u32\<close> of \<^verbatim>\<open>struct ip4_addr\<close>, in network byte order on a little-endian host: the
  first byte of the dotted notation is the least significant byte of the word. Also the
  part of \<^verbatim>\<open>struct netif\<close> (\<^verbatim>\<open>netif.h\<close>) that the IPv4 code reads.
\<close>

section \<open>The network interface\<close>

record netif =
  ip_addr :: u32
  netmask :: u32
  gw :: u32
  mtu :: u16
  hwaddr :: "u8 list"
  hwaddr_len :: u8
  netif_flags :: u8
  netif_num :: u8

abbreviation (input) NETIF_FLAG_UP :: u8 where "NETIF_FLAG_UP \<equiv> 0x01"
abbreviation (input) NETIF_FLAG_BROADCAST :: u8 where "NETIF_FLAG_BROADCAST \<equiv> 0x02"
abbreviation (input) NETIF_FLAG_LINK_UP :: u8 where "NETIF_FLAG_LINK_UP \<equiv> 0x04"
abbreviation (input) NETIF_FLAG_ETHARP :: u8 where "NETIF_FLAG_ETHARP \<equiv> 0x08"

section \<open>Address classes\<close>

abbreviation (input) IPADDR_ANY :: u32 where "IPADDR_ANY \<equiv> 0"
abbreviation (input) IPADDR_NONE :: u32 where "IPADDR_NONE \<equiv> 0xffffffff"
abbreviation (input) IPADDR_BROADCAST :: u32 where "IPADDR_BROADCAST \<equiv> 0xffffffff"

definition ip4_addr_net_eq :: "u32 \<Rightarrow> u32 \<Rightarrow> u32 \<Rightarrow> bool" where
  "ip4_addr_net_eq addr1 addr2 nm \<longleftrightarrow> addr1 AND nm = addr2 AND nm"

definition ip4_addr_isany :: "u32 \<Rightarrow> bool" where
  "ip4_addr_isany addr \<longleftrightarrow> addr = IPADDR_ANY"

definition ip4_addr_ismulticast :: "u32 \<Rightarrow> bool" where
  "ip4_addr_ismulticast addr \<longleftrightarrow> addr AND PP_HTONL 0xf0000000 = PP_HTONL 0xe0000000"

definition ip4_addr_islinklocal :: "u32 \<Rightarrow> bool" where
  "ip4_addr_islinklocal addr \<longleftrightarrow> addr AND PP_HTONL 0xffff0000 = PP_HTONL 0xa9fe0000"

definition ip4_addr_get_byte :: "u32 \<Rightarrow> nat \<Rightarrow> u8" where
  "ip4_addr_get_byte addr idx = ucast (drop_bit (8 * idx) addr)"

definition ip4_addr_isbroadcast_u32 :: "u32 \<Rightarrow> netif \<Rightarrow> bool" where
  "ip4_addr_isbroadcast_u32 addr nif =
     (if NOT addr = IPADDR_ANY \<or> addr = IPADDR_ANY then True
      else if netif_flags nif AND NETIF_FLAG_BROADCAST = 0 then False
      else if addr = ip_addr nif then False
      else if ip4_addr_net_eq addr (ip_addr nif) (netmask nif)
              \<and> addr AND NOT (netmask nif) = IPADDR_BROADCAST AND NOT (netmask nif) then True
      else False)"

section \<open>Netmasks\<close>

text \<open>The two \<^verbatim>\<open>for\<close> loops over the single-bit \<^verbatim>\<open>mask\<close>.\<close>

function first_zero_loop :: "u32 \<Rightarrow> u32 \<Rightarrow> u32" where
  "first_zero_loop nm m =
     (if m \<noteq> 0 then if nm AND m = 0 then m else first_zero_loop nm (drop_bit 1 m) else m)"
  by pat_completeness auto
termination
  by (relation "measure (\<lambda>(nm, m). unat m)") auto

function no_one_loop :: "u32 \<Rightarrow> u32 \<Rightarrow> bool" where
  "no_one_loop nm m =
     (if m \<noteq> 0 then if nm AND m \<noteq> 0 then False else no_one_loop nm (drop_bit 1 m) else True)"
  by pat_completeness auto
termination
  by (relation "measure (\<lambda>(nm, m). unat m)") auto

declare first_zero_loop.simps [simp del] no_one_loop.simps [simp del]

definition ip4_addr_netmask_valid :: "u32 \<Rightarrow> bool" where
  "ip4_addr_netmask_valid nmask =
     (let nm_hostorder = lwip_htonl nmask
      in no_one_loop nm_hostorder (first_zero_loop nm_hostorder (push_bit 31 1)))"

section \<open>Parsing\<close>

text \<open>The loop that collects the digits of one number: the remaining string starts with
  the current character \<^verbatim>\<open>c\<close>.\<close>

fun aton_digits :: "u32 \<Rightarrow> u32 \<Rightarrow> u8 list \<Rightarrow> (u32 \<times> u8 list) option" where
  "aton_digits val base [] = None"
| "aton_digits val base (c # cp) =
     (if lwip_isdigit c then
        if base = 8 \<and> word_of_int (uint c - 48) \<ge> (8 :: u32) then Some (val, c # cp)
        else aton_digits (val * base + word_of_int (uint c - 48)) base cp
      else if base = 16 \<and> lwip_isxdigit c then
        aton_digits (push_bit 4 val OR word_of_int (uint c + 10 - (if lwip_islower c then 97 else 65)))
          base cp
      else Some (val, c # cp))"

text \<open>One number with its base prefix; \<open>Some None\<close> is \<^verbatim>\<open>return 0\<close>.\<close>

definition aton_number :: "u8 list \<Rightarrow> (u32 \<times> u8 list) option option" where
  "aton_number cp =
     (case cp of
        [] \<Rightarrow> None
      | c # cp' \<Rightarrow>
          if \<not> lwip_isdigit c then Some None
          else if c = 48 then
            (case cp' of
               [] \<Rightarrow> None
             | c' # cp'' \<Rightarrow>
                 if c' = 120 \<or> c' = 88 then map_option Some (aton_digits 0 16 cp'')
                 else map_option Some (aton_digits 0 8 cp'))
          else map_option Some (aton_digits 0 10 cp))"

text \<open>The outer loop: \<open>parts\<close> holds \<^verbatim>\<open>parts[0 .. pp)\<close>.\<close>

function aton_parts :: "u32 list \<Rightarrow> u8 list \<Rightarrow> (u32 list \<times> u32 \<times> u8 list) option option" where
  "aton_parts parts cp =
     (case aton_number cp of
        None \<Rightarrow> None
      | Some None \<Rightarrow> Some None
      | Some (Some (val, cp)) \<Rightarrow>
          (case cp of
             [] \<Rightarrow> None
           | c # cp' \<Rightarrow>
               if c = 46 then
                 if length parts \<ge> 3 then Some None else aton_parts (parts @ [val]) cp'
               else Some (Some (parts, val, cp))))"
  by pat_completeness auto
termination
  by (relation "measure (\<lambda>(parts, cp). 4 - length parts)") auto

declare aton_parts.simps [simp del]

definition aton_concoct :: "u32 list \<Rightarrow> u32 \<Rightarrow> u32 option" where
  "aton_concoct parts val =
     (case parts of
        [] \<Rightarrow> Some val
      | [p0] \<Rightarrow>
          if val > 0xffffff then None else if p0 > 0xff then None
          else Some (val OR push_bit 24 p0)
      | [p0, p1] \<Rightarrow>
          if val > 0xffff then None else if p0 > 0xff \<or> p1 > 0xff then None
          else Some (val OR (push_bit 24 p0 OR push_bit 16 p1))
      | [p0, p1, p2] \<Rightarrow>
          if val > 0xff then None else if p0 > 0xff \<or> p1 > 0xff \<or> p2 > 0xff then None
          else Some (val OR (push_bit 24 p0 OR push_bit 16 p1 OR push_bit 8 p2))
      | _ \<Rightarrow> None)"

definition ip4addr_aton :: "u8 list \<Rightarrow> u32 option option" where
  "ip4addr_aton cp =
     (case aton_parts [] cp of
        None \<Rightarrow> None
      | Some None \<Rightarrow> Some None
      | Some (Some (parts, val, rest)) \<Rightarrow>
          (case rest of
             [] \<Rightarrow> None
           | c # _ \<Rightarrow>
               if c \<noteq> 0 \<and> \<not> lwip_isspace c then Some None
               else Some (map_option lwip_htonl (aton_concoct parts val))))"

definition ipaddr_addr :: "u8 list \<Rightarrow> u32 option" where
  "ipaddr_addr cp = map_option (\<lambda>r. case r of Some val \<Rightarrow> val | None \<Rightarrow> IPADDR_NONE) (ip4addr_aton cp)"

section \<open>Printing\<close>

text \<open>\<^verbatim>\<open>do { rem = *ap % 10; *ap /= 10; inv[i++] = '0' + rem; } while (*ap)\<close>: the array
  \<^verbatim>\<open>inv[0 .. i)\<close>.\<close>

function inv_digits :: "u8 \<Rightarrow> u8 list" where
  "inv_digits ap = (48 + ap mod 10) # (if ap div 10 \<noteq> 0 then inv_digits (ap div 10) else [])"
  by pat_completeness auto
termination
  by (relation "measure unat") (auto intro!: unat_div_less)

declare inv_digits.simps [simp del]

text \<open>Writing one character at \<^verbatim>\<open>rp\<close>, which is \<^verbatim>\<open>buf + len\<close>; \<open>Inl\<close> is \<^verbatim>\<open>return NULL\<close> with the
  buffer as it is then.\<close>

definition ntoa_put :: "u8 \<Rightarrow> nat \<times> u8 list \<Rightarrow> u8 list + nat \<times> u8 list" where
  "ntoa_put c = (\<lambda>(len, buf). if len \<ge> length buf then Inl buf else Inr (len + 1, buf[len := c]))"

fun ntoa_puts :: "u8 list \<Rightarrow> nat \<times> u8 list \<Rightarrow> u8 list + nat \<times> u8 list" where
  "ntoa_puts [] st = Inr st"
| "ntoa_puts (c # cs) st =
     (case ntoa_put c st of Inl buf \<Rightarrow> Inl buf | Inr st \<Rightarrow> ntoa_puts cs st)"

text \<open>The \<^verbatim>\<open>for\<close> loop over the bytes \<^verbatim>\<open>ap[0 .. 4)\<close> of the address: \<^verbatim>\<open>while (i--)\<close> writes
  \<^verbatim>\<open>inv\<close> backwards, then a dot.\<close>

fun ntoa_bytes :: "u8 list \<Rightarrow> nat \<times> u8 list \<Rightarrow> u8 list + nat \<times> u8 list" where
  "ntoa_bytes [] st = Inr st"
| "ntoa_bytes (b # ap) st =
     (case ntoa_puts (rev (inv_digits b)) st of
        Inl buf \<Rightarrow> Inl buf
      | Inr st \<Rightarrow>
          (case ntoa_put 46 st of Inl buf \<Rightarrow> Inl buf | Inr st \<Rightarrow> ntoa_bytes ap st))"

definition addr_bytes :: "u32 \<Rightarrow> u8 list" where
  "addr_bytes addr = map (ip4_addr_get_byte addr) [0, 1, 2, 3]"

definition ip4addr_ntoa_r :: "u32 \<Rightarrow> u8 list \<Rightarrow> bool \<times> u8 list" where
  "ip4addr_ntoa_r addr buf =
     (case ntoa_bytes (addr_bytes addr) (0, buf) of
        Inl buf \<Rightarrow> (False, buf)
      | Inr (len, buf) \<Rightarrow> (True, buf[len - 1 := 0]))"

definition ip4addr_ntoa :: "u32 \<Rightarrow> u8 list \<Rightarrow> bool \<times> u8 list" where
  "ip4addr_ntoa addr str = ip4addr_ntoa_r addr (take 16 str)"

section \<open>Correctness\<close>

lemma no_one_loop_exp: "k < 32 \<Longrightarrow> no_one_loop nm (push_bit k 1) \<longleftrightarrow> (\<forall>i \<le> k. \<not> bit nm i)"
proof (induction k)
  case 0
  have "no_one_loop nm (push_bit 0 1) \<longleftrightarrow> \<not> bit nm 0"
    unfolding no_one_loop.simps [of nm "push_bit 0 1"] and_push_bit_one_eq_0
    using drop_bit_push_bit_one [of 0, where 'a = 32]
    by (simp add: no_one_loop.simps [of nm 0])
  then show ?case by simp
next
  case (Suc k)
  show ?case
    unfolding no_one_loop.simps [of nm "push_bit (Suc k) 1"] and_push_bit_one_eq_0
    using Suc drop_bit_push_bit_one [of "Suc k", where 'a = 32] push_bit_one_neq_0 [of "Suc k", where 'a = 32]
    by (auto simp: le_Suc_eq)
qed

lemma netmask_loops:
  "k < 32 \<Longrightarrow> no_one_loop nm (first_zero_loop nm (push_bit k 1)) \<longleftrightarrow>
     (\<forall>i j. i < j \<and> j \<le> k \<and> bit nm i \<longrightarrow> bit nm j)"
proof (induction k)
  case 0
  have "first_zero_loop nm (push_bit 0 1) = (if bit nm 0 then 0 else push_bit 0 1)"
    unfolding first_zero_loop.simps [of nm "push_bit 0 1"] and_push_bit_one_eq_0
    using drop_bit_push_bit_one [of 0, where 'a = 32]
    by (simp add: first_zero_loop.simps [of nm 0])
  moreover have "no_one_loop nm 0" by (simp add: no_one_loop.simps [of nm 0])
  ultimately show ?case using no_one_loop_exp [of 0 nm] by (cases "bit nm 0") simp_all
next
  case (Suc k)
  have fz: "first_zero_loop nm (push_bit (Suc k) 1) =
      (if bit nm (Suc k) then first_zero_loop nm (push_bit k 1) else push_bit (Suc k) 1)"
    unfolding first_zero_loop.simps [of nm "push_bit (Suc k) 1"] and_push_bit_one_eq_0
    using Suc.prems drop_bit_push_bit_one [of "Suc k", where 'a = 32] push_bit_one_neq_0 [of "Suc k", where 'a = 32]
    by simp
  show ?case
  proof (cases "bit nm (Suc k)")
    case True
    then have "(\<forall>i j. i < j \<and> j \<le> Suc k \<and> bit nm i \<longrightarrow> bit nm j) \<longleftrightarrow>
        (\<forall>i j. i < j \<and> j \<le> k \<and> bit nm i \<longrightarrow> bit nm j)"
      by (auto simp: le_Suc_eq)
    with True fz Suc show ?thesis by simp
  next
    case False
    then have "(\<forall>i j. i < j \<and> j \<le> Suc k \<and> bit nm i \<longrightarrow> bit nm j) \<longleftrightarrow> (\<forall>i \<le> Suc k. \<not> bit nm i)"
      by (metis le_less less_imp_le order.trans)
    with False fz Suc.prems no_one_loop_exp [of "Suc k" nm] show ?thesis by simp
  qed
qed

lemma ones_then_zeros:
  "(\<forall>i j. i < j \<and> j \<le> 31 \<and> bit x i \<longrightarrow> bit x j) \<longleftrightarrow> (\<exists>n \<le> 32. x = NOT (mask n))" for x :: u32
proof
  assume up: "\<forall>i j. i < j \<and> j \<le> 31 \<and> bit x i \<longrightarrow> bit x j"
  show "\<exists>n \<le> 32. x = NOT (mask n)"
  proof (cases "x = 0")
    case True
    have "(0 :: u32) = NOT (mask 32)" by (rule bit_word_eqI) (simp add: bit_simps)
    with True show ?thesis by blast
  next
    case False
    define n where "n = (LEAST i. bit x i)"
    obtain i where "bit x i" using False by (auto simp: bit_eq_iff)
    then have n: "bit x n" "\<And>i. i < n \<Longrightarrow> \<not> bit x i"
      unfolding n_def by (rule LeastI, metis not_less_Least)
    then have "n < 32" using bit_imp_le_length [of x n] by simp
    moreover have "x = NOT (mask n)"
    proof (rule bit_word_eqI)
      fix i assume "i < LENGTH(32)"
      then show "bit x i = bit (NOT (mask n) :: u32) i"
        using n up [rule_format, of n i] by (cases i n rule: linorder_cases) (auto simp: bit_simps)
    qed
    ultimately show ?thesis by (intro exI [of _ n]) simp
  qed
qed (auto simp: bit_simps)

lemma netmask_valid_prefix:
  "ip4_addr_netmask_valid nmask \<longleftrightarrow> (\<exists>n \<le> 32. lwip_htonl nmask = NOT (mask n))"
  unfolding ip4_addr_netmask_valid_def Let_def
  using netmask_loops [of 31 "lwip_htonl nmask"] ones_then_zeros [of "lwip_htonl nmask"] by simp

lemma isdigit_iff: "lwip_isdigit c \<longleftrightarrow> 48 \<le> c \<and> c \<le> 57"
  by (simp add: lwip_isdigit_def lwip_in_range_def)

text \<open>The value of a string of decimal digits, as the loop accumulates it.\<close>

definition digits_value :: "u8 list \<Rightarrow> u32" where
  "digits_value ds = foldl (\<lambda>v c. v * 10 + word_of_int (uint c - 48)) 0 ds"

lemma aton_digits_decimal:
  assumes "list_all lwip_isdigit ds" "\<not> lwip_isdigit c"
  shows "aton_digits v 10 (ds @ c # rest) =
     Some (foldl (\<lambda>v c. v * 10 + word_of_int (uint c - 48)) v ds, c # rest)"
  using assms by (induction ds arbitrary: v) auto

lemma aton_number_decimal:
  assumes "list_all lwip_isdigit ds" "ds \<noteq> []" "hd ds \<noteq> 48" "\<not> lwip_isdigit c"
  shows "aton_number (ds @ c # rest) = Some (Some (digits_value ds, c # rest))"
  using assms aton_digits_decimal [of ds c 0 rest]
  by (cases ds) (auto simp: aton_number_def digits_value_def)

lemma aton_number_zero:
  assumes "c \<noteq> 120" "c \<noteq> 88" "\<not> lwip_isdigit c"
  shows "aton_number (48 # c # rest) = Some (Some (0, c # rest))"
  using assms isdigit_iff [of 48] by (auto simp: aton_number_def)

lemma unat_digit: "unat (48 + b mod 10 :: u8) = 48 + unat b mod 10"
proof -
  have "unat b mod 10 < 10" by simp
  then show ?thesis by (simp add: unat_word_ariths unat_mod)
qed

lemma inv_digits_isdigit: "list_all lwip_isdigit (inv_digits b)"
proof (induction b rule: inv_digits.induct)
  case (1 b)
  have "unat b mod 10 \<le> 9" by simp
  then have "lwip_isdigit (48 + b mod 10)"
    by (simp add: isdigit_iff word_le_nat_alt unat_digit)
  with 1 show ?case by (subst inv_digits.simps) simp
qed

lemma inv_digits_neq_Nil [simp]: "inv_digits b \<noteq> []"
  by (subst inv_digits.simps) simp

lemma length_inv_digits: "unat b < 10 ^ Suc k \<Longrightarrow> length (inv_digits b) \<le> Suc k"
proof (induction k arbitrary: b)
  case 0
  then have "b div 10 = 0" by (simp add: word_unat_eq_iff unat_div)
  then show ?case by (subst inv_digits.simps) simp
next
  case (Suc k)
  then have "unat (b div 10) < 10 ^ Suc k" by (simp add: unat_div less_mult_imp_div_less)
  then have "length (inv_digits (b div 10)) \<le> Suc k" by (rule Suc.IH)
  then show ?case by (subst inv_digits.simps) simp
qed

lemma inv_digits_zero: "inv_digits 0 = [48]"
  by (subst inv_digits.simps) simp

lemma last_inv_digits: "b \<noteq> 0 \<Longrightarrow> last (inv_digits b) \<noteq> 48"
proof (induction b rule: inv_digits.induct)
  case (1 b)
  show ?case
  proof (cases "b div 10 = 0")
    case True
    then have "unat b div 10 = 0" by (simp add: word_unat_eq_iff unat_div)
    then have "unat (48 + b mod 10) \<noteq> unat (48 :: u8)"
      using \<open>b \<noteq> 0\<close> by (simp add: unat_digit)
    then have "48 + b mod 10 \<noteq> 48" by metis
    then show ?thesis using True by (subst inv_digits.simps) simp
  qed (use 1 in \<open>subst inv_digits.simps, simp\<close>)
qed

lemma digits_value_snoc:
  "digits_value (ds @ [c]) = digits_value ds * 10 + word_of_int (uint c - 48)"
  by (simp add: digits_value_def)

lemma digit_char_value: "word_of_int (uint (48 + b mod 10 :: u8) - 48) = (word_of_nat (unat b mod 10) :: u32)"
proof -
  have "uint (48 + b mod 10) = int (unat (48 + b mod 10))" by simp
  also have "\<dots> = 48 + int (unat b mod 10)" by (simp only: unat_digit of_nat_add of_nat_numeral)
  finally show ?thesis by (simp only: add_diff_cancel_left' of_int_of_nat_eq)
qed

lemma word_of_nat_div_mod:
  "word_of_nat (n div 10) * 10 + word_of_nat (n mod 10) = (word_of_nat n :: u32)"
proof -
  have "word_of_nat (n div 10 * 10 + n mod 10) = (word_of_nat n :: u32)" by simp
  then show ?thesis by (simp only: of_nat_add of_nat_mult of_nat_numeral)
qed

lemma digits_value_inv_digits: "digits_value (rev (inv_digits b)) = word_of_nat (unat b)"
proof (induction b rule: inv_digits.induct)
  case (1 b)
  show ?case
  proof (cases "b div 10 = 0")
    case True
    then have "unat b div 10 = 0" by (simp add: word_unat_eq_iff unat_div)
    then have "unat b mod 10 = unat b" by (simp add: div_eq_0_iff)
    then show ?thesis using True digit_char_value [of b]
      by (subst inv_digits.simps) (simp only: rev.simps append_Nil digits_value_def foldl_Cons foldl_Nil simp_thms if_False mult_zero_left add_0)
  next
    case False
    have "unat (b div 10) = unat b div 10" by (simp add: unat_div)
    then show ?thesis using False "1.IH" [OF False] digit_char_value [of b] word_of_nat_div_mod [of "unat b"]
      by (subst inv_digits.simps) (simp only: if_True rev.simps digits_value_snoc simp_thms)
  qed
qed

lemma aton_number_byte:
  assumes "c = 46 \<or> c = 0"
  shows "aton_number (rev (inv_digits b) @ c # rest) = Some (Some (word_of_nat (unat b), c # rest))"
proof (cases "b = 0")
  case True
  then show ?thesis using aton_number_zero [of c rest] assms
    by (auto simp: inv_digits_zero isdigit_iff)
next
  case False
  then show ?thesis
    using aton_number_decimal [of "rev (inv_digits b)" c rest] assms inv_digits_isdigit [of b]
      digits_value_inv_digits [of b] last_inv_digits [of b]
    by (auto simp: isdigit_iff hd_rev)
qed

definition dotted :: "u8 list \<Rightarrow> u8 list" where
  "dotted bs = butlast (concat (map (\<lambda>b. rev (inv_digits b) @ [46]) bs))"

lemma ntoa_puts_fits:
  "len + length cs \<le> length buf \<Longrightarrow>
   ntoa_puts cs (len, buf) = Inr (len + length cs, take len buf @ cs @ drop (len + length cs) buf)"
proof (induction cs arbitrary: len buf)
  case (Cons c cs)
  then have *: "ntoa_puts cs (Suc len, buf[len := c]) = Inr (Suc len + length cs,
     take (Suc len) (buf[len := c]) @ cs @ drop (Suc len + length cs) (buf[len := c]))"
    by (intro Cons.IH) simp
  have "take (Suc len) (buf[len := c]) = take len buf @ [c]"
    using Cons.prems by (simp add: take_Suc_conv_app_nth)
  with * Cons.prems show ?case by (simp add: ntoa_put_def)
qed simp

lemma ntoa_puts_too_long:
  "len \<le> length buf \<Longrightarrow> length buf < len + length cs \<Longrightarrow> \<exists>b. ntoa_puts cs (len, buf) = Inl b"
proof (induction cs arbitrary: len buf)
  case (Cons c cs)
  show ?case
  proof (cases "len < length buf")
    case True
    then show ?thesis using Cons.IH [of "Suc len" "buf[len := c]"] Cons.prems
      by (simp add: ntoa_put_def)
  qed (simp add: ntoa_put_def)
qed simp

lemma ntoa_puts_append:
  "ntoa_puts (cs @ ds) st = (case ntoa_puts cs st of Inl b \<Rightarrow> Inl b | Inr st \<Rightarrow> ntoa_puts ds st)"
  by (induction cs arbitrary: st) (auto split: sum.splits)

lemma ntoa_bytes_puts:
  "ntoa_bytes bs st = ntoa_puts (concat (map (\<lambda>b. rev (inv_digits b) @ [46]) bs)) st"
  by (induction bs arbitrary: st) (auto simp: ntoa_puts_append split: sum.splits)

lemma concat_dotted: "bs \<noteq> [] \<Longrightarrow> concat (map (\<lambda>b. rev (inv_digits b) @ [46]) bs) = dotted bs @ [46]"
  unfolding dotted_def by (cases bs rule: rev_cases) (auto simp: butlast_append)

lemma ntoa_r_result:
  "ip4addr_ntoa_r addr buf = (True, buf') \<longleftrightarrow>
     length (dotted (addr_bytes addr)) < length buf \<and>
     buf' = dotted (addr_bytes addr) @ 0 # drop (Suc (length (dotted (addr_bytes addr)))) buf"
proof -
  let ?d = "dotted (addr_bytes addr)"
  have b: "ntoa_bytes (addr_bytes addr) (0, buf) = ntoa_puts (?d @ [46]) (0, buf)"
    unfolding ntoa_bytes_puts by (subst concat_dotted) (simp_all add: addr_bytes_def)
  show ?thesis
  proof (cases "length ?d < length buf")
    case True
    then show ?thesis
      using b ntoa_puts_fits [of 0 "?d @ [46]" buf] by (auto simp: ip4addr_ntoa_r_def)
  next
    case False
    then show ?thesis
      using b ntoa_puts_too_long [of 0 buf "?d @ [46]"] by (auto simp: ip4addr_ntoa_r_def)
  qed
qed

lemma dotted4: "dotted [b0, b1, b2, b3] = rev (inv_digits b0) @ 46 # rev (inv_digits b1) @ 46 #
    rev (inv_digits b2) @ 46 # rev (inv_digits b3)"
  using concat_dotted [of "[b0, b1, b2, b3]"] by simp

lemma aton_parts_dotted:
  "aton_parts [] (dotted [b0, b1, b2, b3] @ 0 # rest) =
     Some (Some ([word_of_nat (unat b0), word_of_nat (unat b1), word_of_nat (unat b2)],
       word_of_nat (unat b3), 0 # rest))"
  by (simp add: dotted4 aton_parts.simps aton_number_byte)

lemma byte_not_big: "\<not> (ucast (b :: u8) :: u32) > 0xff"
proof -
  have "unat b \<le> 255" "unat b < 4294967296" using unat_u8_less [of b] by linarith+
  then show ?thesis by (simp add: word_less_nat_alt unsigned_ucast_eq take_bit_eq_mod not_less)
qed

lemma bytes_reassemble:
  "lwip_htonl (ucast (ip4_addr_get_byte addr 3) OR
     (push_bit 24 (ucast (ip4_addr_get_byte addr 0)) OR push_bit 16 (ucast (ip4_addr_get_byte addr 1))
      OR push_bit 8 (ucast (ip4_addr_get_byte addr 2)))) = addr"
  unfolding lwip_htonl_def
  by (rule bit_word_eqI) (auto simp: bit_PP_HTONL ip4_addr_get_byte_def bit_simps)

lemma aton_ntoa:
  "ip4addr_aton (dotted (addr_bytes addr) @ 0 # rest) = Some (Some addr)"
  using bytes_reassemble [of addr]
  by (simp add: ip4addr_aton_def addr_bytes_def aton_parts_dotted aton_concoct_def byte_not_big)

lemma length_dotted: "length (dotted (addr_bytes addr)) \<le> 15"
proof -
  have "length (inv_digits b) \<le> 3" for b using length_inv_digits [of b 2] unat_u8_less [of b] by simp
  then have "length (inv_digits (ip4_addr_get_byte addr i)) \<le> 3" for i by blast
  from this [of 0] this [of 1] this [of 2] this [of 3] show ?thesis
    by (simp add: addr_bytes_def dotted4)
qed

text \<open>The value of a decimal digit string as a number.\<close>

definition dec_value :: "u8 list \<Rightarrow> nat" where
  "dec_value ds = foldl (\<lambda>v c. v * 10 + (unat c - 48)) 0 ds"

lemma digits_value_dec_value:
  "list_all lwip_isdigit ds \<Longrightarrow> digits_value ds = word_of_nat (dec_value ds)"
proof (induction ds rule: rev_induct)
  case Nil
  then show ?case by (simp add: digits_value_def dec_value_def)
next
  case (snoc c ds)
  then have "48 \<le> unat c" by (simp add: isdigit_iff word_le_nat_alt)
  then have "uint c - 48 = int (unat c - 48)" by simp
  with snoc show ?case by (simp add: digits_value_snoc dec_value_def)
qed

lemma aton_decimal_number:
  assumes "list_all lwip_isdigit ds" "ds \<noteq> []" "hd ds \<noteq> 48"
  shows "ip4addr_aton (ds @ 0 # rest) = Some (Some (lwip_htonl (word_of_nat (dec_value ds))))"
proof -
  have "aton_parts [] (ds @ 0 # rest) = Some (Some ([], word_of_nat (dec_value ds), 0 # rest))"
    using aton_number_decimal [of ds 0 rest] assms
    by (subst aton_parts.simps) (simp add: digits_value_dec_value isdigit_iff)
  then show ?thesis by (simp add: ip4addr_aton_def aton_concoct_def)
qed

lemma length_ntoa_puts:
  "(case ntoa_puts cs (len, buf) of Inl b \<Rightarrow> length b | Inr (l, b) \<Rightarrow> length b) = length buf"
  by (induction cs arbitrary: len buf) (auto simp: ntoa_put_def)

lemma length_ntoa_r: "length (snd (ip4addr_ntoa_r addr buf)) = length buf"
  using length_ntoa_puts [of "concat (map (\<lambda>b. rev (inv_digits b) @ [46]) (addr_bytes addr))" 0 buf]
  by (auto simp: ip4addr_ntoa_r_def ntoa_bytes_puts split: sum.splits prod.splits)

section \<open>Properties\<close>

text \<open>C30: \<^verbatim>\<open>ip4_addr_netmask_valid\<close> accepts exactly the 33 network prefixes: in host order, some
  number of ones followed by zeros only.\<close>

theorem netmask_valid_iff_prefix:
  "ip4_addr_netmask_valid nmask \<longleftrightarrow> (\<exists>n \<le> 32. lwip_htonl nmask = NOT (mask n))"
  by (rule netmask_valid_prefix)

text \<open>C29: printing an address with \<^verbatim>\<open>ip4addr_ntoa_r\<close> into any buffer of the 16 bytes of
  \<^verbatim>\<open>IP4ADDR_STRLEN_MAX\<close> or more succeeds, keeps the buffer's size, and \<^verbatim>\<open>ip4addr_aton\<close> reads
  the same address back from the buffer, whatever follows the terminator.\<close>

theorem aton_reads_ntoa:
  assumes "16 \<le> length buf"
  shows "\<exists>buf'. ip4addr_ntoa_r addr buf = (True, buf') \<and> length buf' = length buf \<and>
     ip4addr_aton buf' = Some (Some addr)"
proof (intro exI conjI)
  let ?d = "dotted (addr_bytes addr)"
  show "ip4addr_ntoa_r addr buf = (True, ?d @ 0 # drop (Suc (length ?d)) buf)"
    using length_dotted [of addr] assms by (simp add: ntoa_r_result)
qed (use length_dotted [of addr] assms aton_ntoa [of addr] in simp_all)

theorem aton_reads_ntoa_witness:
  "\<exists>buf'. ip4addr_ntoa_r 0x0100a8c0 (replicate 20 7) = (True, buf') \<and>
     length buf' = length (replicate 20 (7 :: u8)) \<and> ip4addr_aton buf' = Some (Some 0x0100a8c0)"
  by (rule aton_reads_ntoa) simp

text \<open>\<^verbatim>\<open>ip4addr_ntoa_r\<close> on a buffer that is too short for the dotted notation and its terminator
  returns \<^verbatim>\<open>NULL\<close>, having written only inside the buffer.\<close>

lemma ntoa_r_short_buffer:
  assumes "length buf \<le> length (dotted (addr_bytes addr))"
  shows "\<exists>buf'. ip4addr_ntoa_r addr buf = (False, buf') \<and> length buf' = length buf"
proof (cases "ip4addr_ntoa_r addr buf")
  case (Pair ok buf')
  then show ?thesis
    using ntoa_r_result [of addr buf buf'] length_ntoa_r [of addr buf] assms by (cases ok) auto
qed

text \<open>a single decimal number is accepted whatever its size and is reduced modulo \<open>2\<^sup>3\<^sup>2\<close>, so that
  \<^verbatim>\<open>"4294967297"\<close> parses as 0.0.0.1: the parser has no overflow check.\<close>

lemma aton_number_wraps:
  assumes "list_all lwip_isdigit ds" "ds \<noteq> []" "hd ds \<noteq> 48"
  shows "ip4addr_aton (ds @ 0 # rest) = Some (Some (lwip_htonl (word_of_nat (dec_value ds))))"
  by (rule aton_decimal_number [OF assms])

end
