(* ===== verification/Memp.thy ===== *)
theory Memp
  imports Lwip_Prelude
begin

text \<open>
  \<^verbatim>\<open>src/lwip/memp.c\<close>: the fixed-size memory pools, in the configuration of
  \<^verbatim>\<open>lwipopts.h\<close> (\<^verbatim>\<open>MEMP_MEM_MALLOC\<close> 0, \<^verbatim>\<open>MEMP_OVERFLOW_CHECK\<close> 0, so \<^verbatim>\<open>MEMP_SIZE\<close> is 0), and
  the optional \<^verbatim>\<open>memp_sanity\<close>. A pool is a descriptor together with the words its free
  elements hold: \<open>link p a\<close> is \<^verbatim>\<open>((struct memp *)a)->next\<close>. The free list is a linked list in
  that store. The interface the pool offers its clients is the locale \<open>object_pool\<close>.
\<close>

section \<open>Pools\<close>

datatype memp_t =
    MEMP_RAW_PCB | MEMP_UDP_PCB | MEMP_TCP_PCB | MEMP_TCP_PCB_LISTEN | MEMP_TCP_SEG
  | MEMP_REASSDATA | MEMP_FRAG_PBUF | MEMP_IGMP_GROUP | MEMP_SYS_TIMEOUT | MEMP_PBUF
  | MEMP_PBUF_POOL

record memp_desc =
  desc_size :: u16
  desc_num :: u16
  desc_base :: nat
  tab :: nat
  link :: "nat \<Rightarrow> nat"

definition LWIP_MEM_ALIGN :: "nat \<Rightarrow> nat" where
  "LWIP_MEM_ALIGN addr = (addr + 3) div 4 * 4"

text \<open>Floyd's cycle test: \<open>t\<close> the slow pointer, \<open>h\<close> the fast one. On a malformed store it need
  not be given a bound: it returns on every finite list and on every cycle.\<close>

partial_function (option) memp_sanity_loop :: "(nat \<Rightarrow> nat) \<Rightarrow> nat \<Rightarrow> nat \<Rightarrow> bool option" where
  "memp_sanity_loop nx t h =
     (if t \<noteq> 0 \<and> h \<noteq> 0 then
        if t = h then Some False
        else memp_sanity_loop nx (nx t) (if nx h \<noteq> 0 then nx (nx h) else 0)
      else Some True)"

definition memp_sanity :: "memp_desc \<Rightarrow> bool option" where
  "memp_sanity desc =
     (let t = tab desc in if t \<noteq> 0 then memp_sanity_loop (link desc) t (link desc t) else Some True)"

fun memp_init_loop :: "nat \<Rightarrow> nat \<Rightarrow> memp_desc \<Rightarrow> memp_desc" where
  "memp_init_loop 0 memp desc = desc"
| "memp_init_loop (Suc n) memp desc =
     memp_init_loop n (memp + unat (desc_size desc))
       (desc\<lparr>link := (link desc)(memp := tab desc), tab := memp\<rparr>)"

definition memp_init_pool :: "memp_desc \<Rightarrow> memp_desc" where
  "memp_init_pool desc =
     memp_init_loop (unat (desc_num desc)) (LWIP_MEM_ALIGN (desc_base desc)) (desc\<lparr>tab := 0\<rparr>)"

definition memp_init :: "(memp_t \<Rightarrow> memp_desc) \<Rightarrow> memp_t \<Rightarrow> memp_desc" where
  "memp_init pools = (\<lambda>type. memp_init_pool (pools type))"

text \<open>The address is 0 for \<^verbatim>\<open>NULL\<close>.\<close>

definition do_memp_malloc_pool :: "memp_desc \<Rightarrow> (nat \<times> memp_desc) option" where
  "do_memp_malloc_pool desc =
     (let memp = tab desc in
      if memp \<noteq> 0 then
        (let desc = desc\<lparr>tab := link desc memp\<rparr>
         in do { lwip_assert (memp mod 4 = 0); Some (memp, desc) })
      else Some (0, desc))"

definition memp_malloc :: "(memp_t \<Rightarrow> memp_desc) \<Rightarrow> memp_t \<Rightarrow> (nat \<times> (memp_t \<Rightarrow> memp_desc)) option" where
  "memp_malloc pools type =
     do { (memp, desc) \<leftarrow> do_memp_malloc_pool (pools type); Some (memp, pools(type := desc)) }"

definition do_memp_free_pool :: "memp_desc \<Rightarrow> nat \<Rightarrow> memp_desc option" where
  "do_memp_free_pool desc mem =
     do { lwip_assert (mem mod 4 = 0);
          Some (desc\<lparr>link := (link desc)(mem := tab desc), tab := mem\<rparr>) }"

definition memp_free :: "(memp_t \<Rightarrow> memp_desc) \<Rightarrow> memp_t \<Rightarrow> nat \<Rightarrow> (memp_t \<Rightarrow> memp_desc) option" where
  "memp_free pools type mem =
     (if mem = 0 then Some pools
      else do { desc \<leftarrow> do_memp_free_pool (pools type) mem; Some (pools(type := desc)) })"

section \<open>The free list\<close>

text \<open>The elements the descriptor's memory is divided into; a descriptor as
  \<^verbatim>\<open>LWIP_MEMPOOL_DECLARE\<close> makes it has an aligned, non-zero element size and a base.\<close>

definition pool_elems :: "memp_desc \<Rightarrow> nat set" where
  "pool_elems desc = (\<lambda>i. LWIP_MEM_ALIGN (desc_base desc) + i * unat (desc_size desc)) ` {..<unat (desc_num desc)}"

definition desc_ok :: "memp_desc \<Rightarrow> bool" where
  "desc_ok desc \<longleftrightarrow> 0 < desc_base desc \<and> desc_size desc \<noteq> 0 \<and> unat (desc_size desc) mod 4 = 0"

definition free_list :: "memp_desc \<Rightarrow> nat list \<Rightarrow> bool" where
  "free_list desc as \<longleftrightarrow> lchain (link desc) (tab desc) as \<and> set as \<subseteq> pool_elems desc"

definition pool_avail :: "memp_desc \<Rightarrow> nat set" where
  "pool_avail desc = {a. \<exists>as. free_list desc as \<and> a \<in> set as}"

definition pool_inv :: "memp_desc \<Rightarrow> bool" where
  "pool_inv desc \<longleftrightarrow> desc_ok desc \<and> (\<exists>as. free_list desc as)"

lemma free_list_avail: "free_list desc as \<Longrightarrow> pool_avail desc = set as"
  by (auto simp: pool_avail_def free_list_def dest: lchain_functional)

lemma pool_elems_upd [simp]:
  "pool_elems (desc\<lparr>tab := t\<rparr>) = pool_elems desc" "pool_elems (desc\<lparr>link := l\<rparr>) = pool_elems desc"
  "desc_ok (desc\<lparr>tab := t\<rparr>) = desc_ok desc" "desc_ok (desc\<lparr>link := l\<rparr>) = desc_ok desc"
  by (simp_all add: pool_elems_def desc_ok_def)

lemma finite_pool_elems [simp]: "finite (pool_elems desc)"
  by (simp add: pool_elems_def)

lemma pool_avail_subset: "pool_avail desc \<subseteq> pool_elems desc"
  by (auto simp: pool_avail_def free_list_def)

lemma align_aligned [simp]: "LWIP_MEM_ALIGN a mod 4 = 0"
  by (simp add: LWIP_MEM_ALIGN_def)

lemma align_pos: "0 < a \<Longrightarrow> 0 < LWIP_MEM_ALIGN a"
  by (simp add: LWIP_MEM_ALIGN_def)

lemma pool_elems_aligned:
  assumes "desc_ok desc" "a \<in> pool_elems desc"
  shows "a mod 4 = 0" "a \<noteq> 0"
proof -
  obtain i where a: "a = LWIP_MEM_ALIGN (desc_base desc) + i * unat (desc_size desc)"
    using assms by (auto simp: pool_elems_def)
  have "4 dvd LWIP_MEM_ALIGN (desc_base desc)" "4 dvd unat (desc_size desc)"
    using assms by (auto simp: desc_ok_def mod_0_imp_dvd)
  then show "a mod 4 = 0" unfolding a by (auto simp: mod_eq_0_iff_dvd)
  show "a \<noteq> 0" using align_pos [of "desc_base desc"] assms by (simp add: a desc_ok_def)
qed

lemma card_pool_elems: "desc_ok desc \<Longrightarrow> card (pool_elems desc) = unat (desc_num desc)"
  unfolding pool_elems_def by (subst card_image) (auto simp: inj_on_def desc_ok_def)

lemma pool_elems_apart:
  assumes "a \<in> pool_elems desc" "b \<in> pool_elems desc" "a \<noteq> b"
  shows "a + unat (desc_size desc) \<le> b \<or> b + unat (desc_size desc) \<le> a"
proof -
  let ?s = "unat (desc_size desc)"
  obtain i j where ij: "a = LWIP_MEM_ALIGN (desc_base desc) + i * ?s" "b = LWIP_MEM_ALIGN (desc_base desc) + j * ?s"
    using assms by (auto simp: pool_elems_def)
  then have "i < j \<or> j < i" using assms(3) by (metis linorder_neqE_nat)
  then have "Suc i * ?s \<le> j * ?s \<or> Suc j * ?s \<le> i * ?s" by (meson Suc_leI mult_le_mono1)
  then show ?thesis using ij by auto
qed

lemma malloc_pool_empty:
  "pool_inv desc \<Longrightarrow> pool_avail desc = {} \<Longrightarrow> do_memp_malloc_pool desc = Some (0, desc)"
  by (auto simp: pool_inv_def free_list_avail do_memp_malloc_pool_def free_list_def)

lemma malloc_pool_nonempty:
  assumes "pool_inv desc" "pool_avail desc \<noteq> {}"
  shows "\<exists>a desc'. do_memp_malloc_pool desc = Some (a, desc') \<and> a \<in> pool_avail desc \<and> pool_inv desc' \<and>
     pool_avail desc' = pool_avail desc - {a} \<and> pool_elems desc' = pool_elems desc"
proof -
  obtain as where as: "desc_ok desc" "free_list desc as" using assms by (auto simp: pool_inv_def)
  with assms have ne: "as \<noteq> []" by (auto simp: free_list_avail)
  then obtain a as' where a: "as = a # as'" by (cases as) auto
  have al: "a mod 4 = 0" "a \<noteq> 0" "tab desc = a"
    using as a pool_elems_aligned [of desc a] by (auto simp: free_list_def)
  have f: "free_list (desc\<lparr>tab := link desc a\<rparr>) as'" "a \<notin> set as'"
    using as a lchain_distinct [of "link desc" "tab desc" as] by (auto simp: free_list_def)
  then show ?thesis
    using as a al free_list_avail [OF f(1)] free_list_avail [OF as(2)]
    by (auto simp: do_memp_malloc_pool_def pool_inv_def)
qed

lemma free_pool_unavail:
  assumes "pool_inv desc" "a \<in> pool_elems desc" "a \<notin> pool_avail desc"
  shows "\<exists>desc'. do_memp_free_pool desc a = Some desc' \<and> pool_inv desc' \<and>
     pool_avail desc' = insert a (pool_avail desc) \<and> pool_elems desc' = pool_elems desc"
proof -
  obtain as where as: "desc_ok desc" "free_list desc as" using assms by (auto simp: pool_inv_def)
  let ?d = "desc\<lparr>link := (link desc)(a := tab desc), tab := a\<rparr>"
  have al: "a mod 4 = 0" "a \<noteq> 0" using pool_elems_aligned as assms by auto
  have "a \<notin> set as" using assms as by (simp add: free_list_avail)
  then have f: "free_list ?d (a # as)"
    using as assms al by (auto simp: free_list_def)
  then show ?thesis
    using as al free_list_avail [OF f] free_list_avail [OF as(2)]
    by (auto simp: do_memp_free_pool_def pool_inv_def)
qed

text \<open>\<^verbatim>\<open>memp_init_pool\<close> links every element of the pool.\<close>

lemma init_loop_chain:
  assumes "lchain (link desc) (tab desc) as" "\<forall>a \<in> set as. a < memp" "0 < memp" "desc_size desc \<noteq> 0"
  shows "\<exists>as'. lchain (link (memp_init_loop n memp desc)) (tab (memp_init_loop n memp desc)) as' \<and>
    set as' = set as \<union> (\<lambda>i. memp + i * unat (desc_size desc)) ` {..<n}"
  using assms
proof (induction n arbitrary: memp desc as)
  case (Suc n)
  let ?d = "desc\<lparr>link := (link desc)(memp := tab desc), tab := memp\<rparr>"
  let ?m = "memp + unat (desc_size desc)"
  have "0 < unat (desc_size desc)" using Suc.prems by (simp add: unat_gt_0)
  then have "\<exists>as'. lchain (link (memp_init_loop n ?m ?d)) (tab (memp_init_loop n ?m ?d)) as' \<and>
    set as' = set (memp # as) \<union> (\<lambda>i. ?m + i * unat (desc_size ?d)) ` {..<n}"
    using Suc.prems by (intro Suc.IH) (auto simp: less_imp_neq)
  moreover have "{..<Suc n} = insert 0 (Suc ` {..<n})" by (rule lessThan_Suc_eq_insert_0)
  ultimately show ?case by (simp add: image_image ac_simps insert_commute)
qed auto

lemma init_loop_desc [simp]:
  "desc_size (memp_init_loop n memp desc) = desc_size desc"
  "desc_num (memp_init_loop n memp desc) = desc_num desc"
  "desc_base (memp_init_loop n memp desc) = desc_base desc"
  by (induction n memp desc rule: memp_init_loop.induct) simp_all

lemma memp_init_pool_all:
  assumes "desc_ok desc"
  shows "pool_inv (memp_init_pool desc)" "pool_avail (memp_init_pool desc) = pool_elems desc"
    "pool_elems (memp_init_pool desc) = pool_elems desc"
proof -
  have el: "pool_elems (memp_init_pool desc) = pool_elems desc" "desc_ok (memp_init_pool desc)"
    using assms by (simp_all add: memp_init_pool_def pool_elems_def desc_ok_def)
  have "0 < LWIP_MEM_ALIGN (desc_base desc)" using assms by (simp add: desc_ok_def align_pos)
  then obtain as where as: "lchain (link (memp_init_pool desc)) (tab (memp_init_pool desc)) as"
      "set as = pool_elems desc"
    using init_loop_chain [of "desc\<lparr>tab := 0\<rparr>" "[]" "LWIP_MEM_ALIGN (desc_base desc)" "unat (desc_num desc)"] assms
    by (auto simp: memp_init_pool_def pool_elems_def desc_ok_def)
  then have f: "free_list (memp_init_pool desc) as" by (simp add: free_list_def el)
  show "pool_inv (memp_init_pool desc)" using f el by (auto simp: pool_inv_def)
  show "pool_avail (memp_init_pool desc) = pool_elems desc" using free_list_avail [OF f] as by simp
  show "pool_elems (memp_init_pool desc) = pool_elems desc" by (rule el)
qed

section \<open>The cycle test\<close>

lemma sanity_loop_acyclic:
  "lchain nx t (xs @ ys) \<Longrightarrow> xs \<noteq> [] \<Longrightarrow> lchain nx h ys \<Longrightarrow> memp_sanity_loop nx t h = Some True"
proof (induction "length (xs @ ys)" arbitrary: xs ys t h rule: less_induct)
  case less
  obtain xs' where xs: "xs = t # xs'" using less.prems by (cases xs) auto
  show ?case
  proof (cases ys)
    case Nil
    then show ?thesis using less.prems by (subst memp_sanity_loop.simps) simp
  next
    case ys: (Cons h' zs)
    have h: "h' = h" "t \<noteq> 0" "h \<noteq> 0" using less.prems ys xs by auto
    have "t \<noteq> h" using lchain_distinct [OF less.prems(1)] xs ys h by auto
    moreover have "memp_sanity_loop nx (nx t) (if nx h \<noteq> 0 then nx (nx h) else 0) = Some True"
    proof (rule less.hyps [where xs = "xs' @ take 2 ys" and ys = "drop 2 ys"])
      show "lchain nx (nx t) ((xs' @ take 2 ys) @ drop 2 ys)" using less.prems xs by simp
      show "lchain nx (if nx h \<noteq> 0 then nx (nx h) else 0) (drop 2 ys)"
        using less.prems ys by (cases zs) auto
    qed (use xs ys in auto)
    ultimately show ?thesis using h by (subst memp_sanity_loop.simps) simp
  qed
qed

lemma sanity_acyclic: "lchain (link desc) (tab desc) as \<Longrightarrow> memp_sanity desc = Some True"
  using sanity_loop_acyclic [of "link desc" "tab desc" "[hd as]" "tl as" "link desc (tab desc)"]
  by (cases as) (auto simp: memp_sanity_def Let_def)

lemma eventually_periodic:
  fixes f :: "'a \<Rightarrow> 'a"
  assumes "(f ^^ i) x = (f ^^ (i + l)) x" "i \<le> m"
  shows "(f ^^ (m + c * l)) x = (f ^^ m) x"
proof (induction c)
  case (Suc c)
  have *: "(f ^^ (n + l)) x = (f ^^ n) x" if n: "i \<le> n" for n
  proof -
    obtain d where "n = d + i" using n by (metis add.commute le_Suc_ex)
    then have "(f ^^ (n + l)) x = (f ^^ d) ((f ^^ (i + l)) x)" by (simp add: funpow_add add.assoc)
    then show ?thesis using assms(1) \<open>n = d + i\<close> by (simp add: funpow_add)
  qed
  have "(f ^^ (m + Suc c * l)) x = (f ^^ (m + c * l + l)) x" by (simp add: ac_simps)
  also have "\<dots> = (f ^^ (m + c * l)) x" by (rule *) (use assms in simp)
  finally show ?case using Suc by simp
qed simp

lemma never_null_meets:
  fixes f :: "'a \<Rightarrow> 'a"
  assumes "finite (range (\<lambda>n. (f ^^ n) x))"
  shows "\<exists>k. (f ^^ k) x = (f ^^ (2 * k + 1)) x"
proof -
  have "\<not> inj (\<lambda>n. (f ^^ n) x)" using assms finite_imageD by fastforce
  then obtain i j where "i \<noteq> j" "(f ^^ i) x = (f ^^ j) x" by (auto simp: inj_def)
  then obtain i l where il: "(f ^^ i) x = (f ^^ (i + l)) x" "0 < l"
    by (metis less_imp_add_positive linorder_neqE_nat)
  define k where "k = (i + 1) * l - 1"
  have "(i + 1) * 1 \<le> (i + 1) * l" by (rule mult_le_mono2) (use il in simp)
  then have k: "k + 1 = (i + 1) * l" "i \<le> k" by (simp_all add: k_def)
  have "2 * k + 1 = k + (i + 1) * l" using k by simp
  then show ?thesis using eventually_periodic [OF il(1) k(2), of "i + 1"] by metis
qed

lemma sanity_loop_meets:
  assumes "\<And>n. (nx ^^ n) x \<noteq> 0" "(nx ^^ k) x = (nx ^^ (2 * k + 1)) x" "n \<le> k"
  shows "memp_sanity_loop nx ((nx ^^ n) x) ((nx ^^ (2 * n + 1)) x) = Some False"
  using assms(3)
proof (induction n rule: inc_induct)
  case base
  show ?case using assms(1) [of k] assms(2) by (subst memp_sanity_loop.simps) simp
next
  case (step n)
  have "nx ((nx ^^ n) x) = (nx ^^ Suc n) x" "nx (nx ((nx ^^ (2 * n + 1)) x)) = (nx ^^ (2 * Suc n + 1)) x"
    by (simp_all add: funpow_swap1)
  then show ?case
    using step assms(1) [of n] assms(1) [of "2 * n + 1"] assms(1) [of "2 * n + 2"]
    by (subst memp_sanity_loop.simps) simp
qed

lemma chain_or_never_null:
  "(\<exists>as. lchain nx p as) \<or> (\<forall>n. (nx ^^ n) p \<noteq> 0)"
proof (rule disjCI)
  assume "\<not> (\<forall>n. (nx ^^ n) p \<noteq> 0)"
  then obtain n where "(nx ^^ n) p = 0" by auto
  then show "\<exists>as. lchain nx p as"
  proof (induction n arbitrary: p)
    case (Suc n)
    then obtain as where "lchain nx (nx p) as" by (auto simp: funpow_swap1)
    then show ?case by (cases "p = 0") (auto simp: lchain_nonnull)
  qed auto
qed

lemma lchain_reaches_null: "lchain nx p as \<Longrightarrow> \<exists>n. (nx ^^ n) p = 0"
proof (induction as arbitrary: p)
  case (Cons a as)
  then obtain n where "(nx ^^ n) (nx p) = 0" by auto
  then show ?case by (intro exI [of _ "Suc n"]) (simp add: funpow_swap1)
qed (auto intro: exI [of _ 0])

lemma sanity_decides_acyclic:
  assumes "finite (range (\<lambda>n. (link desc ^^ n) (tab desc)))"
  shows "memp_sanity desc = Some (\<exists>as. lchain (link desc) (tab desc) as)"
proof (cases "\<exists>as. lchain (link desc) (tab desc) as")
  case True
  then show ?thesis using sanity_acyclic by auto
next
  case False
  then have nn: "\<And>n. (link desc ^^ n) (tab desc) \<noteq> 0" using chain_or_never_null by metis
  obtain k where "(link desc ^^ k) (tab desc) = (link desc ^^ (2 * k + 1)) (tab desc)"
    using never_null_meets [OF assms] by auto
  from sanity_loop_meets [OF nn this, of 0] nn [of 0] False
  show ?thesis by (simp add: memp_sanity_def Let_def)
qed

section \<open>The pool interface\<close>

text \<open>What the clients of a pool rely on: \<open>avail\<close> is the set of elements that can be handed
  out, \<open>elems\<close> all elements.\<close>

locale object_pool =
  fixes inv :: "'s \<Rightarrow> bool" and avail elems :: "'s \<Rightarrow> nat set"
    and alloc :: "'s \<Rightarrow> (nat \<times> 's) option" and release :: "'s \<Rightarrow> nat \<Rightarrow> 's option"
  assumes avail_elems: "inv s \<Longrightarrow> avail s \<subseteq> elems s"
    and elems_nonnull: "inv s \<Longrightarrow> 0 \<notin> elems s"
    and elems_finite: "inv s \<Longrightarrow> finite (elems s)"
    and alloc_empty: "inv s \<Longrightarrow> avail s = {} \<Longrightarrow> alloc s = Some (0, s)"
    and alloc_nonempty: "inv s \<Longrightarrow> avail s \<noteq> {} \<Longrightarrow>
      \<exists>a s'. alloc s = Some (a, s') \<and> a \<in> avail s \<and> inv s' \<and> avail s' = avail s - {a} \<and> elems s' = elems s"
    and release_used: "inv s \<Longrightarrow> a \<in> elems s \<Longrightarrow> a \<notin> avail s \<Longrightarrow>
      \<exists>s'. release s a = Some s' \<and> inv s' \<and> avail s' = insert a (avail s) \<and> elems s' = elems s"
begin

text \<open>\<open>used\<close> is what a client holds: every element is free or held, never both.\<close>

definition holds :: "'s \<Rightarrow> nat set \<Rightarrow> bool" where
  "holds s used \<longleftrightarrow> inv s \<and> used \<union> avail s = elems s \<and> used \<inter> avail s = {}"

lemma alloc_cases:
  assumes "holds s used"
  obtains (full) "alloc s = Some (0, s)" "used = elems s"
  | (got) a s' where "alloc s = Some (a, s')" "a \<noteq> 0" "a \<notin> used" "a \<in> elems s"
      "holds s' (insert a used)" "elems s' = elems s"
proof (cases "avail s = {}")
  case True
  then show ?thesis using alloc_empty [of s] full assms by (auto simp: holds_def)
next
  case False
  then obtain a s' where a: "alloc s = Some (a, s')" "a \<in> avail s" "inv s'"
      "avail s' = avail s - {a}" "elems s' = elems s"
    using alloc_nonempty [of s] assms by (auto simp: holds_def)
  moreover have "holds s' (insert a used)" using assms a by (auto simp: holds_def)
  moreover have "a \<noteq> 0" "a \<notin> used" "a \<in> elems s"
    using elems_nonnull [of s] avail_elems [of s] assms a by (auto simp: holds_def)
  ultimately show ?thesis using got by metis
qed

lemma alloc_succeeds:
  assumes "holds s used" "card used < card (elems s)"
  obtains a s' where "alloc s = Some (a, s')" "a \<noteq> 0" "a \<notin> used" "a \<in> elems s"
      "holds s' (insert a used)" "elems s' = elems s"
  using assms(1)
proof (cases rule: alloc_cases)
  case full
  then show ?thesis using assms by simp
next
  case (got a s')
  then show ?thesis by (rule that)
qed

lemma release_holds:
  assumes "holds s used" "a \<in> used"
  shows "\<exists>s'. release s a = Some s' \<and> holds s' (used - {a}) \<and> elems s' = elems s"
proof -
  have "a \<in> elems s" "a \<notin> avail s" using assms by (auto simp: holds_def)
  then obtain s' where "release s a = Some s'" "inv s'" "avail s' = insert a (avail s)" "elems s' = elems s"
    using release_used [of s a] assms by (auto simp: holds_def)
  then show ?thesis using assms by (auto simp: holds_def)
qed

lemma alloc_release:
  assumes "inv s" "alloc s = Some (a, s')" "a \<noteq> 0"
  shows "\<exists>s''. release s' a = Some s'' \<and> avail s'' = avail s \<and> inv s''"
proof (cases "avail s = {}")
  case True
  then show ?thesis using alloc_empty assms by auto
next
  case False
  then have *: "a \<in> avail s" "inv s'" "avail s' = avail s - {a}" "elems s' = elems s"
    using alloc_nonempty [of s] assms by auto
  then have "a \<in> elems s'" "a \<notin> avail s'" using avail_elems [of s] assms by auto
  with * show ?thesis using release_used [of s' a] by (auto simp: insert_absorb)
qed

end

interpretation pool: object_pool pool_inv pool_avail pool_elems do_memp_malloc_pool do_memp_free_pool
proof (unfold_locales, goal_cases)
  case (1 s)
  show ?case by (rule pool_avail_subset)
next
  case (2 s)
  then show ?case using pool_elems_aligned by (auto simp: pool_inv_def)
next
  case (3 s)
  show ?case by simp
next
  case (4 s)
  then show ?case by (rule malloc_pool_empty)
next
  case (5 s)
  then show ?case by (rule malloc_pool_nonempty)
next
  case (6 s a)
  then show ?case by (rule free_pool_unavail)
qed

section \<open>Properties\<close>

definition example_desc :: memp_desc where
  "example_desc = \<lparr>desc_size = 8, desc_num = 2, desc_base = 1021, tab = 0, link = \<lambda>_. 0\<rparr>"

lemma example_desc_held: "pool.holds (memp_init_pool example_desc) {}"
proof -
  have "desc_ok example_desc" by (simp add: desc_ok_def example_desc_def)
  then show ?thesis using memp_init_pool_all [of example_desc] by (simp add: pool.holds_def)
qed

text \<open>C22: a pool whose elements are each either free or held hands out, as long as not all are
  held, an aligned element that nobody holds, without touching the other pools, and \<^verbatim>\<open>NULL\<close>
  otherwise; giving an element back makes exactly that one available again.\<close>

theorem memp_malloc_exclusive:
  assumes "pool.holds (pools type) used"
  shows "\<exists>a pools'. memp_malloc pools type = Some (a, pools') \<and>
     (if used = pool_elems (pools type) then a = 0 \<and> pools' = pools
      else a \<in> pool_elems (pools type) - used \<and> a mod 4 = 0 \<and>
        pool.holds (pools' type) (insert a used) \<and> (\<forall>other. other \<noteq> type \<longrightarrow> pools' other = pools other) \<and>
        (\<exists>pools''. memp_free pools' type a = Some pools'' \<and> pool.holds (pools'' type) used))"
  using assms
proof (cases rule: pool.alloc_cases)
  case full
  then show ?thesis by (simp add: memp_malloc_def)
next
  case (got a desc)
  have "a mod 4 = 0" using assms got pool_elems_aligned by (auto simp: pool.holds_def pool_inv_def)
  moreover obtain desc' where "do_memp_free_pool desc a = Some desc'" "pool.holds desc' used"
    using pool.release_holds [OF got(5), of a] got(3) by auto
  ultimately show ?thesis using got by (auto simp: memp_malloc_def memp_free_def)
qed

theorem memp_malloc_exclusive_witness:
  "\<exists>a pools'. memp_malloc (\<lambda>_. memp_init_pool example_desc) MEMP_PBUF = Some (a, pools') \<and>
     (if {} = pool_elems (memp_init_pool example_desc) then a = 0 \<and> pools' = (\<lambda>_. memp_init_pool example_desc)
      else a \<in> pool_elems (memp_init_pool example_desc) - {} \<and> a mod 4 = 0 \<and>
        pool.holds (pools' MEMP_PBUF) (insert a {}) \<and>
        (\<forall>other. other \<noteq> MEMP_PBUF \<longrightarrow> pools' other = memp_init_pool example_desc) \<and>
        (\<exists>pools''. memp_free pools' MEMP_PBUF a = Some pools'' \<and> pool.holds (pools'' MEMP_PBUF) {}))"
  by (rule memp_malloc_exclusive [of "\<lambda>_. memp_init_pool example_desc"]) (rule example_desc_held)

text \<open>\<^verbatim>\<open>memp_init_pool\<close> makes all \<^verbatim>\<open>num\<close> elements of a properly declared pool available, none
  of them null and all aligned.\<close>

lemma memp_init_pool_complete:
  assumes "desc_ok desc"
  shows "pool.holds (memp_init_pool desc) {} \<and> pool_avail (memp_init_pool desc) = pool_elems desc \<and>
     card (pool_elems desc) = unat (desc_num desc)"
  using memp_init_pool_all [OF assms] card_pool_elems [OF assms] by (simp add: pool.holds_def)

text \<open>the cycle test \<^verbatim>\<open>memp_sanity\<close> returns on every store in which only finitely many
  addresses can be reached, and returns 1 exactly when the free list ends in \<^verbatim>\<open>NULL\<close>.\<close>

lemma memp_sanity_decides:
  assumes "finite (range (\<lambda>n. (link desc ^^ n) (tab desc)))"
  shows "memp_sanity desc = Some (\<exists>as. lchain (link desc) (tab desc) as)"
  by (rule sanity_decides_acyclic [OF assms])

end
