(* ===== verification/Timeouts.thy ===== *)
theory Timeouts
  imports Memp
begin

text \<open>
  \<^verbatim>\<open>src/lwip/timeouts.c\<close>: the list of pending one-shot timeouts, the cyclic timers of the stack
  and the TCP timer, on a 32-bit millisecond clock that wraps around. The list
  \<^verbatim>\<open>next_timeout\<close> is kept as the list of its elements with their addresses; the elements come
  from the pool \<^verbatim>\<open>MEMP_SYS_TIMEOUT\<close> of \<open>Memp\<close>. The functions the timers call are a parameter
  (\<open>handlers\<close>); \<open>sys_now\<close> is the value the clock returns, which only handlers change.
\<close>

section \<open>State\<close>

text \<open>The functions of the table \<^verbatim>\<open>lwip_cyclic_timers\<close>, and the function pointers a timeout holds.
  The argument of \<^verbatim>\<open>lwip_cyclic_timer\<close> is an index into that table.\<close>

datatype lwip_cyclic_timer_handler =
    Tcp_tmr | Ip_reass_tmr | Etharp_tmr | Dhcp_coarse_tmr | Dhcp_fine_tmr | Acd_tmr | Igmp_tmr | Dns_tmr

datatype sys_timeout_handler =
    Null_handler | Cyclic_timer | Tcpip_tcp_timer | App_handler nat

record sys_timeo =
  timeo_addr :: nat
  timeo_time :: u32
  timeo_h :: sys_timeout_handler
  timeo_arg :: nat

record 'w timeouts =
  next_timeout :: "sys_timeo list"
  current_timeout_due_time :: u32
  tcpip_tcp_timer_active :: bool
  timeout_pools :: "memp_t \<Rightarrow> memp_desc"
  sys_now :: u32
  world :: 'w

record 'w handlers =
  app_handler :: "nat \<Rightarrow> nat \<Rightarrow> 'w timeouts \<Rightarrow> 'w timeouts option"
  cyclic_handler :: "lwip_cyclic_timer_handler \<Rightarrow> 'w timeouts \<Rightarrow> 'w timeouts option"
  tcp_pcbs :: "'w \<Rightarrow> bool"
  check_free_ooseq :: "'w \<Rightarrow> 'w"

definition lwip_cyclic_timers :: "(u32 \<times> lwip_cyclic_timer_handler) list" where
  "lwip_cyclic_timers =
     [(250, Tcp_tmr), (1000, Ip_reass_tmr), (1000, Etharp_tmr), (60000, Dhcp_coarse_tmr),
      (500, Dhcp_fine_tmr), (100, Acd_tmr), (100, Igmp_tmr), (1000, Dns_tmr)]"

abbreviation (input) LWIP_MAX_TIMEOUT :: u32 where "LWIP_MAX_TIMEOUT \<equiv> 0x7fffffff"

definition TIME_LESS_THAN :: "u32 \<Rightarrow> u32 \<Rightarrow> bool" where
  "TIME_LESS_THAN t compare_to \<longleftrightarrow> t - compare_to > LWIP_MAX_TIMEOUT"

section \<open>Operations\<close>

text \<open>The \<^verbatim>\<open>for\<close> loop of \<^verbatim>\<open>sys_timeout_abs\<close>, from the element \<open>t\<close>.\<close>

fun timeout_insert_after :: "sys_timeo \<Rightarrow> sys_timeo list \<Rightarrow> sys_timeo list" where
  "timeout_insert_after timeout [] = []"
| "timeout_insert_after timeout (t # rest) =
     (case rest of
        [] \<Rightarrow> [t, timeout]
      | n # _ \<Rightarrow>
          if TIME_LESS_THAN (timeo_time timeout) (timeo_time n) then t # timeout # rest
          else t # timeout_insert_after timeout rest)"

definition sys_timeout_abs ::
    "u32 \<Rightarrow> sys_timeout_handler \<Rightarrow> nat \<Rightarrow> 'w timeouts \<Rightarrow> 'w timeouts option" where
  "sys_timeout_abs abs_time handler arg s =
     do { (addr, pools) \<leftarrow> memp_malloc (timeout_pools s) MEMP_SYS_TIMEOUT;
          lwip_assert (addr \<noteq> 0);
          let timeout = \<lparr>timeo_addr = addr, timeo_time = abs_time, timeo_h = handler, timeo_arg = arg\<rparr>;
              s = s\<lparr>timeout_pools := pools\<rparr>
          in case next_timeout s of
               [] \<Rightarrow> Some (s\<lparr>next_timeout := [timeout]\<rparr>)
             | t # ts \<Rightarrow>
                 if TIME_LESS_THAN (timeo_time timeout) (timeo_time t)
                 then Some (s\<lparr>next_timeout := timeout # t # ts\<rparr>)
                 else Some (s\<lparr>next_timeout := timeout_insert_after timeout (t # ts)\<rparr>) }"

definition sys_timeout ::
    "u32 \<Rightarrow> sys_timeout_handler \<Rightarrow> nat \<Rightarrow> 'w timeouts \<Rightarrow> 'w timeouts option" where
  "sys_timeout msecs handler arg s =
     do { lwip_assert (msecs \<le> 0xffffffff div 4);
          sys_timeout_abs (sys_now s + msecs) handler arg s }"

definition tcpip_tcp_timer :: "'w handlers \<Rightarrow> 'w timeouts \<Rightarrow> 'w timeouts option" where
  "tcpip_tcp_timer hs s =
     do { s \<leftarrow> cyclic_handler hs Tcp_tmr s;
          if tcp_pcbs hs (world s) then sys_timeout 250 Tcpip_tcp_timer 0 s
          else Some (s\<lparr>tcpip_tcp_timer_active := False\<rparr>) }"

definition tcp_timer_needed :: "'w handlers \<Rightarrow> 'w timeouts \<Rightarrow> 'w timeouts option" where
  "tcp_timer_needed hs s =
     (if \<not> tcpip_tcp_timer_active s \<and> tcp_pcbs hs (world s)
      then sys_timeout 250 Tcpip_tcp_timer 0 (s\<lparr>tcpip_tcp_timer_active := True\<rparr>)
      else Some s)"

definition lwip_cyclic_timer :: "'w handlers \<Rightarrow> nat \<Rightarrow> 'w timeouts \<Rightarrow> 'w timeouts option" where
  "lwip_cyclic_timer hs arg s =
     (if arg < length lwip_cyclic_timers then
        let (interval_ms, handler) = lwip_cyclic_timers ! arg
        in do { s \<leftarrow> cyclic_handler hs handler s;
                let now = sys_now s;
                    next_timeout_time = current_timeout_due_time s + interval_ms
                in if TIME_LESS_THAN next_timeout_time now
                   then sys_timeout_abs (now + interval_ms) Cyclic_timer arg s
                   else sys_timeout_abs next_timeout_time Cyclic_timer arg s }
      else None)"

text \<open>The loop of \<^verbatim>\<open>sys_timeouts_init\<close> over the table indices that remain.\<close>

fun timeouts_init_loop :: "nat list \<Rightarrow> 'w timeouts \<Rightarrow> 'w timeouts option" where
  "timeouts_init_loop [] s = Some s"
| "timeouts_init_loop (i # is) s =
     do { s \<leftarrow> sys_timeout (fst (lwip_cyclic_timers ! i)) Cyclic_timer i s; timeouts_init_loop is s }"

definition sys_timeouts_init :: "'w timeouts \<Rightarrow> 'w timeouts option" where
  "sys_timeouts_init s = timeouts_init_loop [1..<length lwip_cyclic_timers] s"

text \<open>The loop of \<^verbatim>\<open>sys_untimeout\<close>; \<open>None\<close> when no element matches.\<close>

fun untimeout_loop ::
    "sys_timeout_handler \<Rightarrow> nat \<Rightarrow> sys_timeo list \<Rightarrow> (sys_timeo \<times> sys_timeo list) option" where
  "untimeout_loop handler arg [] = None"
| "untimeout_loop handler arg (t # ts) =
     (if timeo_h t = handler \<and> timeo_arg t = arg then Some (t, ts)
      else map_option (\<lambda>(m, rest). (m, t # rest)) (untimeout_loop handler arg ts))"

definition sys_untimeout ::
    "sys_timeout_handler \<Rightarrow> nat \<Rightarrow> 'w timeouts \<Rightarrow> 'w timeouts option" where
  "sys_untimeout handler arg s =
     (case untimeout_loop handler arg (next_timeout s) of
        None \<Rightarrow> Some s
      | Some (t, rest) \<Rightarrow>
          do { pools \<leftarrow> memp_free (timeout_pools s) MEMP_SYS_TIMEOUT (timeo_addr t);
               Some (s\<lparr>next_timeout := rest, timeout_pools := pools\<rparr>) })"

text \<open>Calling the function pointer of an expired timeout.\<close>

definition call_handler ::
    "'w handlers \<Rightarrow> sys_timeout_handler \<Rightarrow> nat \<Rightarrow> 'w timeouts \<Rightarrow> 'w timeouts option" where
  "call_handler hs handler arg s =
     (case handler of
        Null_handler \<Rightarrow> Some s
      | Cyclic_timer \<Rightarrow> lwip_cyclic_timer hs arg s
      | Tcpip_tcp_timer \<Rightarrow> tcpip_tcp_timer hs s
      | App_handler f \<Rightarrow> app_handler hs f arg s)"

text \<open>One iteration for an expired timeout: everything after the unlinking test.\<close>

definition expire_timeout ::
    "'w handlers \<Rightarrow> sys_timeo \<Rightarrow> sys_timeo list \<Rightarrow> 'w timeouts \<Rightarrow> 'w timeouts option" where
  "expire_timeout hs t ts s =
     do { pools \<leftarrow> memp_free (timeout_pools s) MEMP_SYS_TIMEOUT (timeo_addr t);
          call_handler hs (timeo_h t) (timeo_arg t)
            (s\<lparr>next_timeout := ts, current_timeout_due_time := timeo_time t, timeout_pools := pools\<rparr>) }"

text \<open>A handler may re-arm itself, so the loop need not end: not returning is \<open>None\<close>.\<close>

partial_function (option) check_timeouts_loop ::
    "'w handlers \<Rightarrow> u32 \<Rightarrow> 'w timeouts \<Rightarrow> (u32 \<times> 'w timeouts) option" where
  "check_timeouts_loop hs now s =
     (let s = s\<lparr>world := check_free_ooseq hs (world s)\<rparr>
      in case next_timeout s of
           [] \<Rightarrow> Some (0xffffffff, s)
         | t # ts \<Rightarrow>
             if TIME_LESS_THAN now (timeo_time t)
             then (let ret = timeo_time t - now
                   in do { lwip_assert (ret \<le> LWIP_MAX_TIMEOUT); Some (ret, s) })
             else do { s \<leftarrow> expire_timeout hs t ts s; check_timeouts_loop hs now s })"

definition sys_check_timeouts :: "'w handlers \<Rightarrow> 'w timeouts \<Rightarrow> (u32 \<times> 'w timeouts) option" where
  "sys_check_timeouts hs s = check_timeouts_loop hs (sys_now s) s"

definition sys_restart_timeouts :: "'w timeouts \<Rightarrow> 'w timeouts" where
  "sys_restart_timeouts s =
     (case next_timeout s of
        [] \<Rightarrow> s
      | t # _ \<Rightarrow>
          let now = sys_now s; base = timeo_time t
          in s\<lparr>next_timeout := map (\<lambda>t. t\<lparr>timeo_time := (timeo_time t - base) + now\<rparr>) (next_timeout s)\<rparr>)"

definition sys_timeouts_sleeptime :: "'w timeouts \<Rightarrow> u32 option" where
  "sys_timeouts_sleeptime s =
     (case next_timeout s of
        [] \<Rightarrow> Some 0xffffffff
      | t # _ \<Rightarrow>
          let now = sys_now s
          in if TIME_LESS_THAN (timeo_time t) now then Some 0
             else (let ret = timeo_time t - now
                   in do { lwip_assert (ret \<le> LWIP_MAX_TIMEOUT); Some ret }))"

section \<open>Time order on a wrapping clock\<close>

text \<open>Relative to a base time \<open>b\<close> that is at most \<open>2\<^sup>3\<^sup>1\<close> ms before every time in use, the
  wrapping comparison is the comparison of the distances from \<open>b\<close>.\<close>

definition due :: "u32 \<Rightarrow> sys_timeo \<Rightarrow> nat" where
  "due b t = unat (timeo_time t - b)"

definition in_window :: "u32 \<Rightarrow> sys_timeo list \<Rightarrow> bool" where
  "in_window b ts \<longleftrightarrow> sorted (map (due b) ts) \<and> (\<forall>t \<in> set ts. due b t < 2 ^ 31)"

definition insert_due :: "u32 \<Rightarrow> sys_timeo \<Rightarrow> sys_timeo list \<Rightarrow> sys_timeo list" where
  "insert_due b x ts =
     takeWhile (\<lambda>t. due b t \<le> due b x) ts @ x # dropWhile (\<lambda>t. due b t \<le> due b x) ts"

lemma unat_u32_diff:
  "unat (a - c :: u32) = (if unat c \<le> unat a then unat a - unat c else 2 ^ 32 + unat a - unat c)"
proof (cases "unat c \<le> unat a")
  case False
  then have "unat (a - c) = 2 ^ 32 + unat a - unat c"
    using unat_sub_if' [of a c] by (simp add: word_le_nat_alt)
  with False show ?thesis by simp
qed (simp add: unat_sub_no_wrap)

lemma TIME_LESS_THAN_window:
  assumes "unat (a - b) < 2 ^ 31" "unat (c - b) < 2 ^ 31"
  shows "TIME_LESS_THAN a c \<longleftrightarrow> unat (a - b) < unat (c - b)"
proof -
  have "a - c = (a - b) - (c - b)" by simp
  then have "unat (a - c) = unat ((a - b) - (c - b))" by simp
  then show ?thesis
    using assms unat_u32_less [of "a - b"] unat_u32_less [of "c - b"]
    unfolding TIME_LESS_THAN_def word_less_nat_alt unat_u32_diff [of "a - b" "c - b"] by auto
qed

lemma TIME_LESS_THAN_due:
  assumes "in_window b ts" "t \<in> set ts" "due b x < 2 ^ 31"
  shows "TIME_LESS_THAN (timeo_time x) (timeo_time t) \<longleftrightarrow> due b x < due b t"
  using assms TIME_LESS_THAN_window [of "timeo_time x" b "timeo_time t"]
  by (simp add: in_window_def due_def)

lemma timeout_insert_after_due:
  assumes "in_window b (t # ts)" "due b x < 2 ^ 31" "due b t \<le> due b x"
  shows "timeout_insert_after x (t # ts) = insert_due b x (t # ts)"
  using assms
proof (induction ts arbitrary: t)
  case (Cons n ts)
  have w: "in_window b (n # ts)" using Cons.prems by (simp add: in_window_def)
  then show ?case
    using Cons.IH [OF w] Cons.prems TIME_LESS_THAN_due [OF w, of n x]
    by (auto simp: insert_due_def not_less)
qed (simp add: insert_due_def)

lemma set_insert_due: "set (insert_due b x ts) = insert x (set ts)"
proof -
  have "set (takeWhile P ts) \<union> set (dropWhile P ts) = set ts" for P
    by (metis set_append takeWhile_dropWhile_id)
  then show ?thesis by (auto simp: insert_due_def)
qed

lemma length_insert_due [simp]: "length (insert_due b x ts) = Suc (length ts)"
proof -
  have "length (takeWhile P ts) + length (dropWhile P ts) = length ts" for P
    by (metis length_append takeWhile_dropWhile_id)
  then show ?thesis by (simp add: insert_due_def)
qed

lemma sorted_insert_due:
  "sorted (map (due b) ts) \<Longrightarrow> sorted (map (due b) (insert_due b x ts))"
proof (induction ts)
  case (Cons t ts)
  have "sorted (map (due b) (insert_due b x ts))" using Cons by simp
  moreover have "\<forall>u \<in> set (insert_due b x ts). due b t \<le> due b x \<longrightarrow> due b t \<le> due b u"
    using Cons.prems by (auto simp: set_insert_due)
  ultimately show ?case using Cons.prems by (auto simp: insert_due_def split: if_splits)
qed (simp add: insert_due_def)

lemma in_window_insert_due:
  "in_window b ts \<Longrightarrow> due b x < 2 ^ 31 \<Longrightarrow> in_window b (insert_due b x ts)"
  by (simp add: in_window_def sorted_insert_due set_insert_due)

section \<open>Invariant\<close>

text \<open>Every list element is a distinct, allocated element of the pool; the elements of the pool
  that are not in the list are free; the list is sorted; the clock is within \<open>2\<^sup>3\<^sup>0\<close> ms of
  the base.\<close>

definition timeout_addrs :: "'w timeouts \<Rightarrow> nat list" where
  "timeout_addrs s = map timeo_addr (next_timeout s)"

definition cyclic_arg_ok :: "sys_timeout_handler \<Rightarrow> nat \<Rightarrow> bool" where
  "cyclic_arg_ok h arg \<longleftrightarrow> (h = Cyclic_timer \<longrightarrow> arg < length lwip_cyclic_timers)"

definition timeouts_inv :: "u32 \<Rightarrow> 'w timeouts \<Rightarrow> bool" where
  "timeouts_inv b s \<longleftrightarrow>
     (\<forall>t \<in> set (next_timeout s). cyclic_arg_ok (timeo_h t) (timeo_arg t)) \<and>
     in_window b (next_timeout s) \<and> unat (sys_now s - b) < 2 ^ 30 \<and> distinct (timeout_addrs s) \<and>
     pool.holds (timeout_pools s MEMP_SYS_TIMEOUT) (set (timeout_addrs s))"

definition timeout_capacity :: "'w timeouts \<Rightarrow> nat" where
  "timeout_capacity s = card (pool_elems (timeout_pools s MEMP_SYS_TIMEOUT))"

lemma sys_timeout_abs_insert:
  assumes inv: "timeouts_inv b s" and t: "unat (abs_time - b) < 2 ^ 31"
    and room: "length (next_timeout s) < timeout_capacity s"
  shows "\<exists>a p. a \<noteq> 0 \<and> a \<notin> set (timeout_addrs s) \<and>
     sys_timeout_abs abs_time h arg s =
       Some (s\<lparr>next_timeout := insert_due b \<lparr>timeo_addr = a, timeo_time = abs_time, timeo_h = h, timeo_arg = arg\<rparr> (next_timeout s),
               timeout_pools := (timeout_pools s)(MEMP_SYS_TIMEOUT := p)\<rparr>) \<and>
     pool.holds p (insert a (set (timeout_addrs s))) \<and>
     pool_elems p = pool_elems (timeout_pools s MEMP_SYS_TIMEOUT)"
proof -
  let ?d = "timeout_pools s MEMP_SYS_TIMEOUT"
  have h: "pool.holds ?d (set (timeout_addrs s))" and w: "in_window b (next_timeout s)"
    using inv by (auto simp: timeouts_inv_def)
  have "card (set (timeout_addrs s)) < card (pool_elems ?d)"
    using room card_length [of "timeout_addrs s"]
    by (simp add: timeout_capacity_def timeout_addrs_def)
  then obtain a p where ap: "do_memp_malloc_pool ?d = Some (a, p)" "a \<noteq> 0" "a \<notin> set (timeout_addrs s)"
      "pool.holds p (insert a (set (timeout_addrs s)))" "pool_elems p = pool_elems ?d"
    using pool.alloc_succeeds [OF h] by metis
  define x where "x = \<lparr>timeo_addr = a, timeo_time = abs_time, timeo_h = h, timeo_arg = arg\<rparr>"
  have dx: "due b x < 2 ^ 31" using t by (simp add: x_def due_def)
  have ins: "insert_due b x (next_timeout s) = (case next_timeout s of [] \<Rightarrow> [x] | t # ts \<Rightarrow>
      if TIME_LESS_THAN abs_time (timeo_time t) then x # t # ts else timeout_insert_after x (t # ts))"
  proof (cases "next_timeout s")
    case Nil
    then show ?thesis by (simp add: insert_due_def)
  next
    case (Cons t ts)
    have "TIME_LESS_THAN abs_time (timeo_time t) \<longleftrightarrow> due b x < due b t"
      using TIME_LESS_THAN_due [OF w _ dx, of t] Cons by (simp add: x_def)
    then show ?thesis using Cons w dx timeout_insert_after_due [of b t ts x]
      by (auto simp: insert_due_def)
  qed
  have "sys_timeout_abs abs_time h arg s = Some (s\<lparr>next_timeout := insert_due b x (next_timeout s),
      timeout_pools := (timeout_pools s)(MEMP_SYS_TIMEOUT := p)\<rparr>)"
    unfolding ins using ap
    by (auto simp: sys_timeout_abs_def memp_malloc_def x_def Let_def split: list.splits)
  then show ?thesis using ap unfolding x_def by blast
qed

text \<open>\<open>scheduled b t h arg s s'\<close>: \<open>s'\<close> is \<open>s\<close> with one timeout more, behind those due no later.\<close>

definition scheduled ::
    "u32 \<Rightarrow> u32 \<Rightarrow> sys_timeout_handler \<Rightarrow> nat \<Rightarrow> 'w timeouts \<Rightarrow> 'w timeouts \<Rightarrow> bool" where
  "scheduled b t h arg s s' \<longleftrightarrow>
     (\<exists>a. a \<notin> set (timeout_addrs s) \<and>
        next_timeout s' = insert_due b \<lparr>timeo_addr = a, timeo_time = t, timeo_h = h, timeo_arg = arg\<rparr> (next_timeout s)) \<and>
     current_timeout_due_time s' = current_timeout_due_time s \<and>
     tcpip_tcp_timer_active s' = tcpip_tcp_timer_active s \<and>
     sys_now s' = sys_now s \<and> world s' = world s \<and> timeout_capacity s' = timeout_capacity s \<and>
     (\<forall>type. type \<noteq> MEMP_SYS_TIMEOUT \<longrightarrow> timeout_pools s' type = timeout_pools s type)"

lemma distinct_map_insert_due:
  "distinct (map f (insert_due b x ts)) \<longleftrightarrow> f x \<notin> f ` set ts \<and> distinct (map f ts)"
proof -
  have "distinct (map f (xs @ x # ys)) \<longleftrightarrow> f x \<notin> f ` set (xs @ ys) \<and> distinct (map f (xs @ ys))" for xs ys
    by auto
  then show ?thesis unfolding insert_due_def by (simp only: takeWhile_dropWhile_id)
qed

lemma sys_timeout_abs_scheduled:
  assumes "timeouts_inv b s" "unat (abs_time - b) < 2 ^ 31" "length (next_timeout s) < timeout_capacity s"
    and "cyclic_arg_ok h arg"
  shows "\<exists>s'. sys_timeout_abs abs_time h arg s = Some s' \<and> timeouts_inv b s' \<and>
     scheduled b abs_time h arg s s'"
proof -
  obtain a p where *: "a \<noteq> 0" "a \<notin> set (timeout_addrs s)"
      "sys_timeout_abs abs_time h arg s =
       Some (s\<lparr>next_timeout := insert_due b \<lparr>timeo_addr = a, timeo_time = abs_time, timeo_h = h, timeo_arg = arg\<rparr> (next_timeout s),
               timeout_pools := (timeout_pools s)(MEMP_SYS_TIMEOUT := p)\<rparr>)"
      "pool.holds p (insert a (set (timeout_addrs s)))"
      "pool_elems p = pool_elems (timeout_pools s MEMP_SYS_TIMEOUT)"
    using sys_timeout_abs_insert [OF assms(1-3), of h arg] by blast
  let ?s = "s\<lparr>next_timeout := insert_due b \<lparr>timeo_addr = a, timeo_time = abs_time, timeo_h = h, timeo_arg = arg\<rparr> (next_timeout s),
               timeout_pools := (timeout_pools s)(MEMP_SYS_TIMEOUT := p)\<rparr>"
  have "set (timeout_addrs ?s) = insert a (set (timeout_addrs s))"
    by (simp add: timeout_addrs_def set_insert_due)
  moreover have "distinct (timeout_addrs ?s)"
    using * assms by (simp add: timeout_addrs_def distinct_map_insert_due timeouts_inv_def)
  ultimately have "timeouts_inv b ?s"
    using * assms by (simp add: timeouts_inv_def in_window_insert_due due_def set_insert_due)
  moreover have "scheduled b abs_time h arg s ?s"
    using * by (auto simp: scheduled_def timeout_capacity_def)
  ultimately show ?thesis using * by blast
qed

lemma unat_clock_plus:
  assumes "unat (now - b :: u32) < 2 ^ 30" "unat m \<le> 2 ^ 30"
  shows "unat (now + m - b) = unat (now - b) + unat m"
proof -
  have "now + m - b = (now - b) + m" by simp
  then show ?thesis using assms unat_add_no_wrap [of "now - b" m] by (simp only:) simp
qed

lemma sys_timeout_scheduled:
  assumes "timeouts_inv b s" "msecs \<le> 0x3fffffff" "length (next_timeout s) < timeout_capacity s"
    and "cyclic_arg_ok h arg"
  shows "\<exists>s'. sys_timeout msecs h arg s = Some s' \<and> timeouts_inv b s' \<and>
     scheduled b (sys_now s + msecs) h arg s s'"
proof -
  have "unat msecs \<le> unat (0x3fffffff :: u32)" using assms(2) by (simp only: word_le_nat_alt)
  then have "unat msecs < 2 ^ 30" by simp
  then have "unat (sys_now s + msecs - b) < 2 ^ 31"
    using assms unat_clock_plus [of "sys_now s" b msecs] by (simp add: timeouts_inv_def)
  moreover have "sys_timeout msecs h arg s = sys_timeout_abs (sys_now s + msecs) h arg s"
    using assms(2) by (simp add: sys_timeout_def)
  ultimately show ?thesis using sys_timeout_abs_scheduled [OF assms(1) _ assms(3,4)] by metis
qed

lemma sys_timeout_abs_full:
  assumes "timeouts_inv b s" "timeout_capacity s \<le> length (next_timeout s)"
  shows "sys_timeout_abs abs_time h arg s = None"
proof -
  let ?d = "timeout_pools s MEMP_SYS_TIMEOUT"
  have h: "pool.holds ?d (set (timeout_addrs s))" using assms by (simp add: timeouts_inv_def)
  have "card (set (timeout_addrs s)) = length (next_timeout s)"
    using assms distinct_card [of "timeout_addrs s"] by (simp add: timeouts_inv_def timeout_addrs_def)
  moreover have "pool_inv ?d" "set (timeout_addrs s) \<subseteq> pool_elems ?d" using h by (auto simp: pool.holds_def)
  ultimately have "set (timeout_addrs s) = pool_elems ?d"
    using assms by (intro card_seteq) (auto simp: timeout_capacity_def)
  then have "pool_avail ?d = {}" using h by (auto simp: pool.holds_def)
  then have "do_memp_malloc_pool ?d = Some (0, ?d)"
    using \<open>pool_inv ?d\<close> by (intro malloc_pool_empty)
  then show ?thesis by (simp add: sys_timeout_abs_def memp_malloc_def)
qed

subsection \<open>Removing a timeout\<close>

lemma memp_free_addr:
  assumes "timeouts_inv b s" "t \<in> set (next_timeout s)"
  shows "\<exists>p. memp_free (timeout_pools s) MEMP_SYS_TIMEOUT (timeo_addr t) =
       Some ((timeout_pools s)(MEMP_SYS_TIMEOUT := p)) \<and>
     pool.holds p (set (timeout_addrs s) - {timeo_addr t}) \<and>
     pool_elems p = pool_elems (timeout_pools s MEMP_SYS_TIMEOUT)"
proof -
  let ?d = "timeout_pools s MEMP_SYS_TIMEOUT"
  have h: "pool.holds ?d (set (timeout_addrs s))" using assms by (simp add: timeouts_inv_def)
  have a: "timeo_addr t \<in> set (timeout_addrs s)" using assms by (simp add: timeout_addrs_def)
  then have "timeo_addr t \<noteq> 0"
    using h pool.elems_nonnull [of ?d] by (auto simp: pool.holds_def)
  then show ?thesis
    using pool.release_holds [OF h a] by (auto simp: memp_free_def)
qed

text \<open>Taking the list element \<open>t\<close> out and freeing it keeps the invariant.\<close>

lemma timeouts_inv_remove:
  assumes inv: "timeouts_inv b s" and ts: "next_timeout s = xs @ t # ys"
    and p: "pool.holds p (set (timeout_addrs s) - {timeo_addr t})"
  shows "timeouts_inv b (s\<lparr>next_timeout := xs @ ys, current_timeout_due_time := c,
            timeout_pools := (timeout_pools s)(MEMP_SYS_TIMEOUT := p)\<rparr>)"
proof -
  have d: "distinct (map timeo_addr (xs @ t # ys))"
    using inv ts by (simp add: timeouts_inv_def timeout_addrs_def)
  then have "set (map timeo_addr (xs @ t # ys)) - {timeo_addr t} = set (map timeo_addr (xs @ ys))"
    by auto
  then have "pool.holds p (set (map timeo_addr (xs @ ys)))"
    using p ts by (simp add: timeout_addrs_def)
  moreover have "in_window b (xs @ ys)"
    using inv ts by (auto simp: timeouts_inv_def in_window_def sorted_append)
  ultimately show ?thesis using inv d ts by (simp add: timeouts_inv_def timeout_addrs_def)
qed

lemma untimeout_loop_found:
  "\<forall>u \<in> set xs. \<not> (timeo_h u = h \<and> timeo_arg u = arg) \<Longrightarrow> timeo_h t = h \<Longrightarrow> timeo_arg t = arg \<Longrightarrow>
   untimeout_loop h arg (xs @ t # ys) = Some (t, xs @ ys)"
  by (induction xs) auto

lemma untimeout_loop_absent:
  "\<forall>u \<in> set ts. \<not> (timeo_h u = h \<and> timeo_arg u = arg) \<Longrightarrow> untimeout_loop h arg ts = None"
  by (induction ts) auto

lemma sys_untimeout_removes:
  assumes inv: "timeouts_inv b s" and ts: "next_timeout s = xs @ t # ys"
    and t: "timeo_h t = h" "timeo_arg t = arg" and "\<forall>u \<in> set xs. \<not> (timeo_h u = h \<and> timeo_arg u = arg)"
  shows "\<exists>s'. sys_untimeout h arg s = Some s' \<and> timeouts_inv b s' \<and> next_timeout s' = xs @ ys \<and>
     timeout_capacity s' = timeout_capacity s"
proof -
  have "untimeout_loop h arg (next_timeout s) = Some (t, xs @ ys)"
    using assms untimeout_loop_found [of xs h arg t ys] by simp
  moreover obtain p where p: "memp_free (timeout_pools s) MEMP_SYS_TIMEOUT (timeo_addr t) =
       Some ((timeout_pools s)(MEMP_SYS_TIMEOUT := p))"
      "pool.holds p (set (timeout_addrs s) - {timeo_addr t})"
      "pool_elems p = pool_elems (timeout_pools s MEMP_SYS_TIMEOUT)"
    using memp_free_addr [OF inv, of t] ts by auto
  ultimately show ?thesis
    using timeouts_inv_remove [OF inv ts p(2), of "current_timeout_due_time s"]
    by (simp add: sys_untimeout_def timeout_capacity_def)
qed

lemma sys_untimeout_absent:
  "\<forall>u \<in> set (next_timeout s). \<not> (timeo_h u = h \<and> timeo_arg u = arg) \<Longrightarrow> sys_untimeout h arg s = Some s"
  by (simp add: sys_untimeout_def untimeout_loop_absent)

section \<open>Expiry\<close>

text \<open>How late the expired timeouts are at time \<open>now\<close>, in ms plus one each: the measure of the
  loop of \<^verbatim>\<open>sys_check_timeouts\<close>. It is the lateness and not the number of expired timeouts that
  decreases, since a cyclic timer can come due again within the same call.\<close>

definition lateness :: "u32 \<Rightarrow> u32 \<Rightarrow> sys_timeo list \<Rightarrow> nat" where
  "lateness b now ts = sum_list (map (\<lambda>t. Suc (unat (now - b)) - due b t) ts)"

lemma lateness_insert_due [simp]:
  "lateness b now (insert_due b x ts) = Suc (unat (now - b)) - due b x + lateness b now ts"
proof -
  let ?f = "\<lambda>t. Suc (unat (now - b)) - due b t" and ?P = "\<lambda>t. due b t \<le> due b x"
  have "sum_list (map ?f (takeWhile ?P ts)) + sum_list (map ?f (dropWhile ?P ts)) = sum_list (map ?f ts)"
    by (metis map_append sum_list_append takeWhile_dropWhile_id)
  then show ?thesis by (simp add: lateness_def insert_due_def)
qed

text \<open>What is assumed of the code the timers call: on a state that keeps the invariant it
  returns such a state, does not turn the clock back, arms no timeout that has expired
  already at \<open>now\<close>, and the handlers of the cyclic table leave a free pool element and the
  static variable \<^verbatim>\<open>current_timeout_due_time\<close> alone.\<close>

definition tame_step :: "u32 \<Rightarrow> u32 \<Rightarrow> 'w timeouts \<Rightarrow> 'w timeouts \<Rightarrow> bool" where
  "tame_step b now s s' \<longleftrightarrow>
     timeouts_inv b s' \<and> unat (now - b) \<le> unat (sys_now s' - b) \<and>
     lateness b now (next_timeout s') \<le> lateness b now (next_timeout s)"

definition tame_handlers :: "'w handlers \<Rightarrow> u32 \<Rightarrow> u32 \<Rightarrow> bool" where
  "tame_handlers hs b now \<longleftrightarrow>
     (\<forall>s. timeouts_inv b s \<and> unat (now - b) \<le> unat (sys_now s - b) \<longrightarrow>
       (\<forall>f arg. \<exists>s'. app_handler hs f arg s = Some s' \<and> tame_step b now s s') \<and>
       (\<forall>c. length (next_timeout s) < timeout_capacity s \<longrightarrow>
          (\<exists>s'. cyclic_handler hs c s = Some s' \<and> tame_step b now s s' \<and>
             length (next_timeout s') < timeout_capacity s' \<and>
             current_timeout_due_time s' = current_timeout_due_time s)))"

lemma cyclic_intervals:
  "arg < length lwip_cyclic_timers \<Longrightarrow> lwip_cyclic_timers ! arg = (i, h) \<Longrightarrow> 0 < i \<and> unat i \<le> 60000"
proof -
  have "list_all (\<lambda>(i, h). 0 < i \<and> unat i \<le> 60000) lwip_cyclic_timers"
    by (simp add: lwip_cyclic_timers_def)
  then show "arg < length lwip_cyclic_timers \<Longrightarrow> lwip_cyclic_timers ! arg = (i, h) \<Longrightarrow> ?thesis"
    by (auto simp: list_all_length)
qed

lemma unat_now_less: "TIME_LESS_THAN t now \<longleftrightarrow> unat (t - b) < unat (now - b)"
  if "unat (now - b) < 2 ^ 31" "unat (t - b) < 2 ^ 31" for t now b
  using TIME_LESS_THAN_window [OF that(2) that(1)] .

text \<open>A cyclic timer re-arms itself strictly less late than the timeout that called it.\<close>

lemma lwip_cyclic_timer_tame:
  assumes tame: "tame_handlers hs b now" and inv: "timeouts_inv b s"
    and clock: "unat (now - b) \<le> unat (sys_now s - b)"
    and room: "length (next_timeout s) < timeout_capacity s" and arg: "arg < length lwip_cyclic_timers"
    and d: "unat (current_timeout_due_time s - b) \<le> unat (now - b)"
  shows "\<exists>s'. lwip_cyclic_timer hs arg s = Some s' \<and> timeouts_inv b s' \<and>
     unat (now - b) \<le> unat (sys_now s' - b) \<and>
     lateness b now (next_timeout s') <
       Suc (unat (now - b)) - unat (current_timeout_due_time s - b) + lateness b now (next_timeout s)"
proof -
  obtain i h where ih: "lwip_cyclic_timers ! arg = (i, h)" by fastforce
  have i: "0 < unat i" "unat i \<le> 60000" using cyclic_intervals [OF arg ih] by (auto simp: unat_gt_0)
  obtain s1 where s1: "cyclic_handler hs h s = Some s1" "timeouts_inv b s1"
      "unat (now - b) \<le> unat (sys_now s1 - b)"
      "lateness b now (next_timeout s1) \<le> lateness b now (next_timeout s)"
      "length (next_timeout s1) < timeout_capacity s1"
      "current_timeout_due_time s1 = current_timeout_due_time s"
    using tame inv clock room unfolding tame_handlers_def tame_step_def by metis
  define D where "D = current_timeout_due_time s"
  have now1: "unat (sys_now s1 - b) < 2 ^ 30" using s1 by (simp add: timeouts_inv_def)
  then have k: "unat (now - b) < 2 ^ 30" using s1 by linarith
  have Di: "unat (D + i - b) = unat (D - b) + unat i"
    using unat_clock_plus [of D b i] d k i by (simp add: D_def)
  have Ni: "unat (sys_now s1 + i - b) = unat (sys_now s1 - b) + unat i"
    using unat_clock_plus [of "sys_now s1" b i] now1 i by simp
  define T where "T = (if TIME_LESS_THAN (D + i) (sys_now s1) then sys_now s1 + i else D + i)"
  have late: "TIME_LESS_THAN (D + i) (sys_now s1) \<longleftrightarrow> unat (D - b) + unat i < unat (sys_now s1 - b)"
    using unat_now_less [of "sys_now s1" b "D + i"] Di now1 d k i D_def by simp
  have T: "unat (T - b) < 2 ^ 31" "unat (now - b) \<le> unat (T - b)" "unat (D - b) < unat (T - b)"
    using late Di Ni now1 i d k s1(3) by (auto simp: T_def D_def)
  obtain s2 where s2: "sys_timeout_abs T Cyclic_timer arg s1 = Some s2" "timeouts_inv b s2"
      "scheduled b T Cyclic_timer arg s1 s2"
    using sys_timeout_abs_scheduled [OF s1(2) T(1) s1(5), of Cyclic_timer arg] arg
    by (auto simp: cyclic_arg_ok_def)
  have "lwip_cyclic_timer hs arg s = Some s2"
    using s1 s2 ih arg by (auto simp: lwip_cyclic_timer_def T_def D_def Let_def)
  moreover have "sys_now s2 = sys_now s1" "lateness b now (next_timeout s2) =
      Suc (unat (now - b)) - unat (T - b) + lateness b now (next_timeout s1)"
    using s2(3) by (auto simp: scheduled_def due_def)
  ultimately show ?thesis using s1 s2 T d by (auto simp: D_def)
qed

lemma tcpip_tcp_timer_tame:
  assumes tame: "tame_handlers hs b now" and inv: "timeouts_inv b s"
    and clock: "unat (now - b) \<le> unat (sys_now s - b)"
    and room: "length (next_timeout s) < timeout_capacity s"
  shows "\<exists>s'. tcpip_tcp_timer hs s = Some s' \<and> tame_step b now s s'"
proof -
  obtain s1 where s1: "cyclic_handler hs Tcp_tmr s = Some s1" "tame_step b now s s1"
      "length (next_timeout s1) < timeout_capacity s1"
    using tame inv clock room unfolding tame_handlers_def by metis
  show ?thesis
  proof (cases "tcp_pcbs hs (world s1)")
    case True
    have inv1: "timeouts_inv b s1" "unat (sys_now s1 - b) < 2 ^ 30" "unat (now - b) \<le> unat (sys_now s1 - b)"
      using s1 by (auto simp: tame_step_def timeouts_inv_def)
    obtain s2 where s2: "sys_timeout 250 Tcpip_tcp_timer 0 s1 = Some s2" "timeouts_inv b s2"
        "scheduled b (sys_now s1 + 250) Tcpip_tcp_timer 0 s1 s2"
      using sys_timeout_scheduled [OF inv1(1) _ s1(3), of 250 Tcpip_tcp_timer 0]
      by (auto simp: cyclic_arg_ok_def)
    have "unat (sys_now s1 + 250 - b) = unat (sys_now s1 - b) + 250"
      using unat_clock_plus [of "sys_now s1" b 250] inv1 by simp
    then show ?thesis using True s1 s2 inv1
      by (auto simp: tcpip_tcp_timer_def tame_step_def scheduled_def due_def)
  next
    case False
    then show ?thesis using s1
      by (auto simp: tcpip_tcp_timer_def tame_step_def timeouts_inv_def timeout_addrs_def)
  qed
qed

lemma expire_timeout_tame:
  assumes tame: "tame_handlers hs b now" and inv: "timeouts_inv b s"
    and clock: "unat (now - b) \<le> unat (sys_now s - b)"
    and ts: "next_timeout s = t # ts" and exp: "due b t \<le> unat (now - b)"
  shows "\<exists>s'. expire_timeout hs t ts s = Some s' \<and> timeouts_inv b s' \<and>
     unat (now - b) \<le> unat (sys_now s' - b) \<and>
     lateness b now (next_timeout s') < lateness b now (next_timeout s)"
proof -
  obtain p where p: "memp_free (timeout_pools s) MEMP_SYS_TIMEOUT (timeo_addr t) =
       Some ((timeout_pools s)(MEMP_SYS_TIMEOUT := p))"
      "pool.holds p (set (timeout_addrs s) - {timeo_addr t})"
      "pool_elems p = pool_elems (timeout_pools s MEMP_SYS_TIMEOUT)"
    using memp_free_addr [OF inv, of t] ts by auto
  define s1 where "s1 = s\<lparr>next_timeout := ts, current_timeout_due_time := timeo_time t,
      timeout_pools := (timeout_pools s)(MEMP_SYS_TIMEOUT := p)\<rparr>"
  have inv1: "timeouts_inv b s1"
    using timeouts_inv_remove [OF inv, of "[]" t ts p "timeo_time t"] ts p by (simp add: s1_def)
  have clock1: "unat (now - b) \<le> unat (sys_now s1 - b)" using clock by (simp add: s1_def)
  have h: "pool.holds (timeout_pools s MEMP_SYS_TIMEOUT) (set (timeout_addrs s))" and d: "distinct (timeout_addrs s)"
    using inv by (auto simp: timeouts_inv_def)
  have "length (timeout_addrs s) \<le> timeout_capacity s"
    unfolding distinct_card [OF d, symmetric] timeout_capacity_def
    using h by (intro card_mono) (auto simp: pool.holds_def)
  then have room: "length (next_timeout s1) < timeout_capacity s1"
    using ts p by (simp add: s1_def timeout_capacity_def timeout_addrs_def)
  have late: "lateness b now (next_timeout s) = Suc (unat (now - b)) - due b t + lateness b now (next_timeout s1)"
    by (simp add: ts s1_def lateness_def)
  have step: "expire_timeout hs t ts s = call_handler hs (timeo_h t) (timeo_arg t) s1"
    using p by (simp add: expire_timeout_def s1_def)
  show ?thesis
  proof (cases "timeo_h t")
    case Null_handler
    then show ?thesis using step inv1 clock1 late exp by (simp add: call_handler_def)
  next
    case Cyclic_timer
    then have "timeo_arg t < length lwip_cyclic_timers"
      using inv ts by (auto simp: timeouts_inv_def cyclic_arg_ok_def)
    then show ?thesis
      using lwip_cyclic_timer_tame [OF tame inv1 clock1 room, of "timeo_arg t"] exp step late Cyclic_timer
      by (simp add: call_handler_def due_def s1_def)
  next
    case Tcpip_tcp_timer
    then show ?thesis
      using tcpip_tcp_timer_tame [OF tame inv1 clock1 room] exp step late
      by (auto simp: call_handler_def tame_step_def)
  next
    case (App_handler f)
    have "\<exists>s'. app_handler hs f (timeo_arg t) s1 = Some s' \<and> tame_step b now s1 s'"
      using tame inv1 clock1 unfolding tame_handlers_def by blast
    then show ?thesis using exp step late App_handler by (auto simp: call_handler_def tame_step_def)
  qed
qed

lemma timeouts_inv_world [simp]: "timeouts_inv b (s\<lparr>world := w\<rparr>) = timeouts_inv b s"
  by (simp add: timeouts_inv_def timeout_addrs_def)

lemma sleeptime_ok:
  assumes "unat (now - b) < 2 ^ 30" "unat (t - b) < 2 ^ 31" "TIME_LESS_THAN now t"
  shows "t - now \<le> LWIP_MAX_TIMEOUT" "unat (t - now) = unat (t - b) - unat (now - b)"
proof -
  have lt: "unat (now - b) < unat (t - b)"
    using assms TIME_LESS_THAN_window [of now b t] by simp
  have "t - now = (t - b) - (now - b)" by simp
  then have u: "unat (t - now) = unat ((t - b) - (now - b))" by simp
  show "unat (t - now) = unat (t - b) - unat (now - b)"
    unfolding u by (rule unat_sub_no_wrap) (use lt in simp)
  then show "t - now \<le> LWIP_MAX_TIMEOUT"
    using assms by (simp add: word_le_nat_alt)
qed

lemma check_timeouts_loop_ok:
  assumes tame: "tame_handlers hs b now" and "timeouts_inv b s" "unat (now - b) \<le> unat (sys_now s - b)"
  shows "\<exists>ret s'. check_timeouts_loop hs now s = Some (ret, s') \<and> timeouts_inv b s' \<and>
     (\<forall>t \<in> set (next_timeout s'). unat (now - b) < due b t) \<and>
     ret = (case next_timeout s' of [] \<Rightarrow> 0xffffffff | t # _ \<Rightarrow> timeo_time t - now)"
  using assms(2-)
proof (induction "lateness b now (next_timeout s)" arbitrary: s rule: less_induct)
  case less
  define s1 where "s1 = s\<lparr>world := check_free_ooseq hs (world s)\<rparr>"
  have inv: "timeouts_inv b s1" and clock: "unat (now - b) \<le> unat (sys_now s1 - b)"
    and nt: "next_timeout s1 = next_timeout s"
    using less.prems by (simp_all add: s1_def)
  show ?case
  proof (cases "next_timeout s")
    case Nil
    then show ?thesis using inv nt
      by (subst check_timeouts_loop.simps) (simp add: s1_def [symmetric] Let_def)
  next
    case (Cons t ts)
    have now: "unat (now - b) < 2 ^ 30" and t: "due b t < 2 ^ 31" and srt: "sorted (map (due b) (t # ts))"
      using less.prems Cons by (auto simp: timeouts_inv_def in_window_def)
    have exp: "TIME_LESS_THAN now (timeo_time t) \<longleftrightarrow> unat (now - b) < due b t"
      using TIME_LESS_THAN_window [of now b "timeo_time t"] now t by (simp add: due_def)
    show ?thesis
    proof (cases "TIME_LESS_THAN now (timeo_time t)")
      case True
      have "timeo_time t - now \<le> LWIP_MAX_TIMEOUT"
        using sleeptime_ok(1) [OF now _ True] t by (simp add: due_def)
      moreover have "\<forall>u \<in> set (t # ts). unat (now - b) < due b u" using True exp srt by auto
      ultimately show ?thesis using True inv nt Cons
        by (subst check_timeouts_loop.simps) (simp add: s1_def [symmetric] Let_def)
    next
      case False
      then obtain s2 where s2: "expire_timeout hs t ts s1 = Some s2" "timeouts_inv b s2"
          "unat (now - b) \<le> unat (sys_now s2 - b)"
          "lateness b now (next_timeout s2) < lateness b now (next_timeout s1)"
        using expire_timeout_tame [OF tame inv clock] nt Cons exp by auto
      then show ?thesis using less.hyps [OF _ s2(2,3)] nt False Cons
        by (subst check_timeouts_loop.simps) (simp add: s1_def [symmetric] Let_def)
    qed
  qed
qed

subsection \<open>The order of the calls\<close>

text \<open>The effect of running handlers that only touch the rest of the system, with the check for
  out-of-sequence buffers before every iteration.\<close>

definition run_apps :: "'w handlers \<Rightarrow> (nat \<Rightarrow> nat \<Rightarrow> 'w \<Rightarrow> 'w) \<Rightarrow> sys_timeo list \<Rightarrow> 'w \<Rightarrow> 'w" where
  "run_apps hs eff ts w =
     foldl (\<lambda>w t. case timeo_h t of App_handler f \<Rightarrow> check_free_ooseq hs (eff f (timeo_arg t) w) | _ \<Rightarrow> w)
       (check_free_ooseq hs w) ts"

definition app_timeout :: "sys_timeo \<Rightarrow> bool" where
  "app_timeout t \<longleftrightarrow> (\<exists>f. timeo_h t = App_handler f)"

lemma check_timeouts_loop_order:
  assumes eff: "\<And>f arg s. app_handler hs f arg s = Some (s\<lparr>world := eff f arg (world s)\<rparr>)"
    and now: "unat (now - b) < 2 ^ 30" and "timeouts_inv b s" "next_timeout s = xs @ ys"
    and "\<forall>t \<in> set xs. due b t \<le> unat (now - b) \<and> app_timeout t" "\<forall>t \<in> set ys. unat (now - b) < due b t"
  shows "\<exists>ret s'. check_timeouts_loop hs now s = Some (ret, s') \<and> timeouts_inv b s' \<and>
     next_timeout s' = ys \<and> world s' = run_apps hs eff xs (world s) \<and>
     ret = (case ys of [] \<Rightarrow> 0xffffffff | t # _ \<Rightarrow> timeo_time t - now)"
  using assms(3-)
proof (induction xs arbitrary: s)
  case Nil
  define s1 where "s1 = s\<lparr>world := check_free_ooseq hs (world s)\<rparr>"
  have inv: "timeouts_inv b s1" "next_timeout s1 = ys" using Nil by (simp_all add: s1_def)
  show ?case
  proof (cases ys)
    case Nil
    then show ?thesis using inv
      by (subst check_timeouts_loop.simps) (simp add: s1_def [symmetric] Let_def, simp add: s1_def run_apps_def)
  next
    case (Cons t ts)
    then have "due b t < 2 ^ 31" "unat (now - b) < due b t"
      using inv Nil.prems by (auto simp: timeouts_inv_def in_window_def)
    then have t: "TIME_LESS_THAN now (timeo_time t)" "timeo_time t - now \<le> LWIP_MAX_TIMEOUT"
      using TIME_LESS_THAN_window [of now b "timeo_time t"] sleeptime_ok(1) [of now b "timeo_time t"] now
      by (auto simp: due_def)
    then show ?thesis using inv Cons
      by (subst check_timeouts_loop.simps) (simp add: s1_def [symmetric] Let_def, simp add: s1_def run_apps_def)
  qed
next
  case (Cons t xs)
  define s1 where "s1 = s\<lparr>world := check_free_ooseq hs (world s)\<rparr>"
  have inv: "timeouts_inv b s1" "next_timeout s1 = [] @ t # (xs @ ys)" using Cons.prems by (simp_all add: s1_def)
  obtain f where f: "timeo_h t = App_handler f" using Cons.prems by (auto simp: app_timeout_def)
  have "due b t < 2 ^ 31" "due b t \<le> unat (now - b)"
    using inv Cons.prems by (auto simp: timeouts_inv_def in_window_def)
  then have exp: "\<not> TIME_LESS_THAN now (timeo_time t)"
    using TIME_LESS_THAN_window [of now b "timeo_time t"] now by (simp add: due_def)
  obtain p where p: "memp_free (timeout_pools s1) MEMP_SYS_TIMEOUT (timeo_addr t) =
       Some ((timeout_pools s1)(MEMP_SYS_TIMEOUT := p))"
      "pool.holds p (set (timeout_addrs s1) - {timeo_addr t})"
    using memp_free_addr [OF inv(1), of t] inv(2) by auto
  define s2 where "s2 = s1\<lparr>next_timeout := xs @ ys, current_timeout_due_time := timeo_time t,
      timeout_pools := (timeout_pools s1)(MEMP_SYS_TIMEOUT := p)\<rparr>"
  define s3 where "s3 = s2\<lparr>world := eff f (timeo_arg t) (world s1)\<rparr>"
  have "timeouts_inv b s3"
    using timeouts_inv_remove [OF inv p(2), of "timeo_time t"] by (simp add: s3_def s2_def)
  moreover have "next_timeout s3 = xs @ ys" by (simp add: s3_def s2_def)
  ultimately obtain ret s' where IH: "check_timeouts_loop hs now s3 = Some (ret, s')" "timeouts_inv b s'"
      "next_timeout s' = ys" "world s' = run_apps hs eff xs (world s3)"
      "ret = (case ys of [] \<Rightarrow> 0xffffffff | t # _ \<Rightarrow> timeo_time t - now)"
    using Cons.IH [of s3] Cons.prems by auto
  have "expire_timeout hs t (xs @ ys) s1 = Some s3"
    using p f by (simp add: expire_timeout_def call_handler_def eff s3_def s2_def)
  then have "check_timeouts_loop hs now s = Some (ret, s')"
    using exp inv IH(1) by (subst check_timeouts_loop.simps) (simp add: s1_def [symmetric] Let_def)
  moreover have "run_apps hs eff xs (world s3) = run_apps hs eff (t # xs) (world s)"
    using f by (simp add: run_apps_def s3_def s1_def)
  ultimately show ?case using IH by simp
qed

subsection \<open>A timeout re-armed with no delay\<close>

text \<open>If the handler arms itself again with a delay of 0 ms while the clock stands still, the
  loop does not return: it is not limited to the timeouts that had expired when it started.\<close>

lemma zero_delay_step:
  assumes "timeouts_inv b s" "timeo_time t = sys_now s" "timeo_h t = App_handler f" "next_timeout s = [t]"
    and rearm: "\<And>f arg s. app_handler hs f arg s = sys_timeout 0 (App_handler f) arg s"
    and ooseq: "\<And>w. check_free_ooseq hs w = w"
  shows "\<exists>s' t'. expire_timeout hs t [] s = Some s' \<and> timeouts_inv b s' \<and> sys_now s' = sys_now s \<and>
     next_timeout s' = [t'] \<and> timeo_time t' = sys_now s \<and> timeo_h t' = App_handler f"
proof -
  obtain p where p: "memp_free (timeout_pools s) MEMP_SYS_TIMEOUT (timeo_addr t) =
       Some ((timeout_pools s)(MEMP_SYS_TIMEOUT := p))"
      "pool.holds p (set (timeout_addrs s) - {timeo_addr t})"
      "pool_elems p = pool_elems (timeout_pools s MEMP_SYS_TIMEOUT)"
    using memp_free_addr [OF assms(1), of t] assms(4) by auto
  define s1 where "s1 = s\<lparr>next_timeout := [], current_timeout_due_time := timeo_time t,
      timeout_pools := (timeout_pools s)(MEMP_SYS_TIMEOUT := p)\<rparr>"
  have inv1: "timeouts_inv b s1"
    using timeouts_inv_remove [OF assms(1), of "[]" t "[]" p "timeo_time t"] assms p by (simp add: s1_def)
  have "timeo_addr t \<in> pool_elems (timeout_pools s MEMP_SYS_TIMEOUT)"
    using assms by (auto simp: timeouts_inv_def pool.holds_def timeout_addrs_def)
  then have "length (next_timeout s1) < timeout_capacity s1"
    using p by (auto simp: s1_def timeout_capacity_def card_gt_0_iff)
  then obtain s' where "sys_timeout 0 (App_handler f) (timeo_arg t) s1 = Some s'" "timeouts_inv b s'"
      "scheduled b (sys_now s1 + 0) (App_handler f) (timeo_arg t) s1 s'"
    using sys_timeout_scheduled [OF inv1, of 0 "App_handler f" "timeo_arg t"]
    by (auto simp: cyclic_arg_ok_def)
  then show ?thesis using p assms(3)
    by (auto simp: expire_timeout_def call_handler_def rearm s1_def scheduled_def insert_due_def)
qed

lemma zero_delay_never_returns:
  assumes ret: "check_timeouts_loop hs now s = Some r"
    and rearm: "\<And>f arg s. app_handler hs f arg s = sys_timeout 0 (App_handler f) arg s"
    and ooseq: "\<And>w. check_free_ooseq hs w = w"
  shows "\<not> (timeouts_inv b s \<and> sys_now s = now \<and>
     (\<exists>t f. next_timeout s = [t] \<and> timeo_time t = now \<and> timeo_h t = App_handler f))"
proof -
  let ?stuck = "\<lambda>now s. timeouts_inv b s \<and> sys_now s = now \<and>
     (\<exists>t f. next_timeout s = [t] \<and> timeo_time t = now \<and> timeo_h t = App_handler f)"
  have "hs' = hs \<longrightarrow> \<not> ?stuck now' s'" if "check_timeouts_loop hs' now' s' = Some r'" for hs' now' s' r'
  proof (rule check_timeouts_loop.raw_induct [where P = "\<lambda>hs' now s r. hs' = hs \<longrightarrow> \<not> ?stuck now s", OF _ that],
      intro impI notI, elim conjE exE)
    fix loop hs' now s r t f
    assume IH: "\<And>hs' now s r. loop hs' now s = Some r \<Longrightarrow> hs' = hs \<longrightarrow> \<not> ?stuck now s"
      and body: "(let s = s\<lparr>world := check_free_ooseq hs' (world s)\<rparr>
         in case next_timeout s of [] \<Rightarrow> Some (0xffffffff, s)
            | t # ts \<Rightarrow> if TIME_LESS_THAN now (timeo_time t)
                then (let ret = timeo_time t - now in do { lwip_assert (ret \<le> LWIP_MAX_TIMEOUT); Some (ret, s) })
                else do { s \<leftarrow> expire_timeout hs' t ts s; loop hs' now s }) = Some r"
      and hs: "hs' = hs" and st: "timeouts_inv b s" "sys_now s = now" "next_timeout s = [t]"
        "timeo_time t = now" "timeo_h t = App_handler f"
    obtain s' t' where s': "expire_timeout hs t [] s = Some s'" "timeouts_inv b s'" "sys_now s' = sys_now s"
        "next_timeout s' = [t']" "timeo_time t' = sys_now s" "timeo_h t' = App_handler f"
      using zero_delay_step [OF st(1) _ st(5) st(3)] rearm ooseq st by metis
    have "\<not> TIME_LESS_THAN now now" by (simp add: TIME_LESS_THAN_def)
    then have "loop hs now s' = Some r" using body st s' ooseq hs by (simp add: Let_def)
    then show False using IH s' st by auto
  qed
  then show ?thesis using ret by blast
qed

section \<open>A concrete system\<close>

text \<open>The state after \<^verbatim>\<open>memp_init\<close>, and handlers that only record their calls.\<close>

lemma timeouts_inv_initial:
  assumes "desc_ok (pools MEMP_SYS_TIMEOUT)" "next_timeout s = []" "timeout_pools s = memp_init pools"
    "unat (sys_now s - b) < 2 ^ 30"
  shows "timeouts_inv b s" "timeout_capacity s = unat (desc_num (pools MEMP_SYS_TIMEOUT))"
  using assms memp_init_pool_all [of "pools MEMP_SYS_TIMEOUT"]
  by (simp_all add: timeouts_inv_def in_window_def timeout_addrs_def memp_init_def pool.holds_def
      timeout_capacity_def card_pool_elems)

definition example_pools :: "memp_t \<Rightarrow> memp_desc" where
  "example_pools type = \<lparr>desc_size = 16, desc_num = 17, desc_base = 4096, tab = 0, link = \<lambda>_. 0\<rparr>"

definition example_timeouts :: "u32 \<Rightarrow> (nat \<times> nat) list timeouts" where
  "example_timeouts now =
     \<lparr>next_timeout = [], current_timeout_due_time = 0, tcpip_tcp_timer_active = False,
      timeout_pools = memp_init example_pools, sys_now = now, world = []\<rparr>"

definition logging_handlers :: "(nat \<times> nat) list handlers" where
  "logging_handlers =
     \<lparr>app_handler = \<lambda>f arg s. Some (s\<lparr>world := world s @ [(f, arg)]\<rparr>),
      cyclic_handler = \<lambda>c s. Some s, tcp_pcbs = \<lambda>w. False, check_free_ooseq = \<lambda>w. w\<rparr>"

definition rearming_handlers :: "(nat \<times> nat) list handlers" where
  "rearming_handlers =
     logging_handlers\<lparr>app_handler := \<lambda>f arg s. sys_timeout 0 (App_handler f) arg s\<rparr>"

lemma example_pools_ok [simp]: "desc_ok (example_pools type)"
  by (simp add: example_pools_def desc_ok_def)

lemma example_timeouts_inv [simp]:
  "timeouts_inv now (example_timeouts now)" "timeout_capacity (example_timeouts now) = 17"
  using timeouts_inv_initial [of example_pools "example_timeouts now" now]
  by (simp_all add: example_timeouts_def, simp add: example_pools_def)

text \<open>One application timeout, due at once.\<close>

definition example_armed :: "(nat \<times> nat) list timeouts" where
  "example_armed = the (sys_timeout 0 (App_handler 3) 7 (example_timeouts 5))"

definition example_timeo :: sys_timeo where
  "example_timeo = hd (next_timeout example_armed)"

lemma example_armed:
  "timeouts_inv 5 example_armed" "sys_now example_armed = 5"
  "timeo_time example_timeo = 5"
  "timeo_h example_timeo = App_handler 3"
  "timeo_arg example_timeo = 7"
  "next_timeout example_armed = [example_timeo]"
proof -
  have "next_timeout (example_timeouts 5) = []" "sys_now (example_timeouts 5) = 5"
    by (simp_all add: example_timeouts_def)
  then obtain s' where s': "sys_timeout 0 (App_handler 3) 7 (example_timeouts 5) = Some s'" "timeouts_inv 5 s'"
      "scheduled 5 5 (App_handler 3) 7 (example_timeouts 5) s'"
    using sys_timeout_scheduled [of 5 "example_timeouts 5" 0 "App_handler 3" 7]
    by (auto simp: cyclic_arg_ok_def)
  then have "example_armed = s'" by (simp add: example_armed_def)
  with s' show "timeouts_inv 5 example_armed" "sys_now example_armed = 5"
      "timeo_time example_timeo = 5"
      "timeo_h example_timeo = App_handler 3"
      "timeo_arg example_timeo = 7"
      "next_timeout example_armed = [example_timeo]"
    by (auto simp: scheduled_def example_timeouts_def insert_due_def example_timeo_def)
qed

lemma logging_handlers_tame: "tame_handlers logging_handlers b now"
  by (simp add: tame_handlers_def tame_step_def logging_handlers_def timeout_capacity_def)

section \<open>Properties\<close>

text \<open>C17: \<^verbatim>\<open>sys_timeout\<close> keeps the invariant and, when the pool has a free element, puts the new
  timeout behind every timeout due at the same time or earlier and before every later one, changing nothing
  else, although the clock wraps around; when the pool is exhausted its assertion fires.\<close>

theorem sys_timeout_keeps_order:
  assumes "timeouts_inv b s" "msecs \<le> 0x3fffffff" "cyclic_arg_ok h arg"
  shows "if length (next_timeout s) < timeout_capacity s
     then \<exists>s'. sys_timeout msecs h arg s = Some s' \<and> timeouts_inv b s' \<and>
            scheduled b (sys_now s + msecs) h arg s s'
     else sys_timeout msecs h arg s = None"
  using sys_timeout_scheduled [OF assms(1,2) _ assms(3)] sys_timeout_abs_full [OF assms(1)]
  by (auto simp: sys_timeout_def)

theorem sys_timeout_keeps_order_witness:
  "if length (next_timeout (example_timeouts 0xfffffff0)) < timeout_capacity (example_timeouts 0xfffffff0)
   then \<exists>s'. sys_timeout 100 (App_handler 1) 2 (example_timeouts 0xfffffff0) = Some s' \<and>
          timeouts_inv 0xfffffff0 s' \<and>
          scheduled 0xfffffff0 (sys_now (example_timeouts 0xfffffff0) + 100) (App_handler 1) 2
            (example_timeouts 0xfffffff0) s'
   else sys_timeout 100 (App_handler 1) 2 (example_timeouts 0xfffffff0) = None"
  by (rule sys_timeout_keeps_order) (simp_all add: cyclic_arg_ok_def)

text \<open>\<^verbatim>\<open>sys_untimeout\<close> removes the first timeout with the given handler and argument, and only
  that one, and returns its element to the pool.\<close>

lemma sys_untimeout_first_match:
  assumes "timeouts_inv b s" "next_timeout s = xs @ t # ys" "timeo_h t = h" "timeo_arg t = arg"
    "\<forall>u \<in> set xs. \<not> (timeo_h u = h \<and> timeo_arg u = arg)"
  shows "\<exists>s'. sys_untimeout h arg s = Some s' \<and> timeouts_inv b s' \<and> next_timeout s' = xs @ ys \<and>
     timeout_capacity s' = timeout_capacity s"
  by (rule sys_untimeout_removes [OF assms])



text \<open>C28: application handlers that leave the timeout list alone are called once each, for exactly
  the timeouts that have expired, in the order of the list, and the others stay pending.\<close>

theorem sys_check_timeouts_order:
  assumes "\<And>f arg s. app_handler hs f arg s = Some (s\<lparr>world := eff f arg (world s)\<rparr>)"
    and "timeouts_inv b s" "next_timeout s = xs @ ys"
    and "\<forall>t \<in> set xs. due b t \<le> unat (sys_now s - b) \<and> app_timeout t"
    and "\<forall>t \<in> set ys. unat (sys_now s - b) < due b t"
  shows "\<exists>ret s'. sys_check_timeouts hs s = Some (ret, s') \<and> timeouts_inv b s' \<and>
     next_timeout s' = ys \<and> world s' = run_apps hs eff xs (world s) \<and>
     ret = (case ys of [] \<Rightarrow> 0xffffffff | t # _ \<Rightarrow> timeo_time t - sys_now s)"
  unfolding sys_check_timeouts_def
  by (rule check_timeouts_loop_order [OF assms(1) _ assms(2-)])
     (use assms(2) in \<open>simp add: timeouts_inv_def\<close>)

theorem sys_check_timeouts_order_witness:
  "\<exists>ret s'. sys_check_timeouts logging_handlers example_armed = Some (ret, s') \<and> timeouts_inv 5 s' \<and>
     next_timeout s' = [] \<and>
     world s' = run_apps logging_handlers (\<lambda>f arg w. w @ [(f, arg)]) [example_timeo]
       (world example_armed) \<and>
     ret = (case ([] :: sys_timeo list) of [] \<Rightarrow> 0xffffffff | t # _ \<Rightarrow> timeo_time t - sys_now example_armed)"
  by (rule sys_check_timeouts_order)
     (simp_all add: example_armed due_def app_timeout_def, simp add: logging_handlers_def)

text \<open>a handler that arms itself again with a delay of 0 ms keeps \<^verbatim>\<open>sys_check_timeouts\<close> from
  returning as long as the clock does not advance, although its comment says that only the
  timers expired at the start of the function are processed.\<close>

lemma sys_check_timeouts_zero_delay:
  assumes "\<And>f arg s. app_handler hs f arg s = sys_timeout 0 (App_handler f) arg s"
    and "\<And>w. check_free_ooseq hs w = w"
    and "timeouts_inv b s" "next_timeout s = [t]" "timeo_time t = sys_now s" "timeo_h t = App_handler f"
  shows "sys_check_timeouts hs s = None"
  unfolding sys_check_timeouts_def
  using zero_delay_never_returns [of hs "sys_now s" s _ b, OF _ assms(1,2)] assms(3-)
  by (cases "check_timeouts_loop hs (sys_now s) s") auto

end
