(* ===== verification/Pbuf.thy ===== *)
theory Pbuf
  imports Memp Lwip_Def
begin

text \<open>
  \<^verbatim>\<open>src/lwip/pbuf.c\<close>, and \<^verbatim>\<open>mem_malloc\<close>, \<^verbatim>\<open>mem_free\<close> and \<^verbatim>\<open>mem_trim\<close> of \<^verbatim>\<open>mem.c\<close> for
  \<^verbatim>\<open>MEM_LIBC_MALLOC\<close> 1: the data model and every operation. The heap holds the
  live \<^verbatim>\<open>struct pbuf\<close>s by address, the bytes of memory, the blocks of the C library's
  allocator and the memory pools. Following a pointer to a \<^verbatim>\<open>struct pbuf\<close> that is not live is
  \<open>None\<close>, as a failing assertion is. The C library's \<^verbatim>\<open>malloc\<close> and the
  \<^verbatim>\<open>custom_free_function\<close> of custom buffers are parameters (\<open>pbuf_env\<close>). A loop along
  \<^verbatim>\<open>next\<close> pointers need not end on an arbitrary heap, so it is a partial function.
  The theories \<open>Pbuf_Read\<close>, \<open>Pbuf_Write\<close> and \<open>Pbuf_Own\<close> prove what the operations do.
\<close>

section \<open>Data\<close>

datatype pbuf_layer = PBUF_TRANSPORT | PBUF_IP | PBUF_LINK | PBUF_RAW_TX | PBUF_RAW

fun pbuf_layer_val :: "pbuf_layer \<Rightarrow> u16" where
  "pbuf_layer_val PBUF_TRANSPORT = 54"
| "pbuf_layer_val PBUF_IP = 34"
| "pbuf_layer_val PBUF_LINK = 14"
| "pbuf_layer_val PBUF_RAW_TX = 0"
| "pbuf_layer_val PBUF_RAW = 0"

datatype pbuf_type = PBUF_RAM | PBUF_ROM | PBUF_REF | PBUF_POOL

fun pbuf_type_val :: "pbuf_type \<Rightarrow> u16" where
  "pbuf_type_val PBUF_RAM = 0x0280"
| "pbuf_type_val PBUF_ROM = 0x0001"
| "pbuf_type_val PBUF_REF = 0x0041"
| "pbuf_type_val PBUF_POOL = 0x0182"

abbreviation (input) PBUF_TYPE_FLAG_STRUCT_DATA_CONTIGUOUS :: u8
  where "PBUF_TYPE_FLAG_STRUCT_DATA_CONTIGUOUS \<equiv> 0x80"
abbreviation (input) PBUF_TYPE_ALLOC_SRC_MASK :: u8 where "PBUF_TYPE_ALLOC_SRC_MASK \<equiv> 0x0f"
abbreviation (input) PBUF_FLAG_IS_CUSTOM :: u8 where "PBUF_FLAG_IS_CUSTOM \<equiv> 0x02"
abbreviation (input) PBUF_FLAG_LLBCAST :: u8 where "PBUF_FLAG_LLBCAST \<equiv> 0x08"
abbreviation (input) PBUF_FLAG_LLMCAST :: u8 where "PBUF_FLAG_LLMCAST \<equiv> 0x10"

record pbuf =
  pb_next :: nat
  payload :: nat
  tot_len :: u16
  len :: u16
  type_internal :: u8
  pb_flags :: u8
  pb_ref :: u8
  if_idx :: u8

record heap =
  pbufs :: "nat \<rightharpoonup> pbuf"
  bytes :: "nat \<Rightarrow> u8"
  heap_blocks :: "nat \<rightharpoonup> nat"
  pools :: "memp_t \<Rightarrow> memp_desc"
  pbuf_free_ooseq_pending :: bool

record pbuf_env =
  libc_malloc :: "heap \<Rightarrow> nat \<Rightarrow> nat"
  custom_free_function :: "nat \<Rightarrow> (heap \<Rightarrow> heap option) option"

abbreviation (input) SIZEOF_STRUCT_PBUF :: nat where "SIZEOF_STRUCT_PBUF \<equiv> 16"
abbreviation (input) PBUF_POOL_BUFSIZE_ALIGNED :: nat where "PBUF_POOL_BUFSIZE_ALIGNED \<equiv> 1516"

definition pbuf_get_allocsrc :: "pbuf \<Rightarrow> u8" where
  "pbuf_get_allocsrc b = type_internal b AND PBUF_TYPE_ALLOC_SRC_MASK"

text \<open>Writing the fields of a live \<^verbatim>\<open>struct pbuf\<close>, and \<^verbatim>\<open>memcpy\<close> within memory.\<close>

definition upd_pbuf :: "nat \<Rightarrow> (pbuf \<Rightarrow> pbuf) \<Rightarrow> heap \<Rightarrow> heap option" where
  "upd_pbuf p f h =
     (case pbufs h p of None \<Rightarrow> None | Some b \<Rightarrow> Some (h\<lparr>pbufs := (pbufs h)(p \<mapsto> f b)\<rparr>))"

definition memcpy :: "nat \<Rightarrow> nat \<Rightarrow> nat \<Rightarrow> heap \<Rightarrow> heap" where
  "memcpy dst src n h =
     h\<lparr>bytes := (\<lambda>x. if dst \<le> x \<and> x < dst + n then bytes h (src + (x - dst)) else bytes h x)\<rparr>"

section \<open>Memory (mem.c)\<close>

definition mem_malloc :: "pbuf_env \<Rightarrow> nat \<Rightarrow> heap \<Rightarrow> (nat \<times> heap) option" where
  "mem_malloc e sz h =
     (let ret = libc_malloc e h sz in
      if ret = 0 then Some (0, h)
      else do { lwip_assert (LWIP_MEM_ALIGN ret = ret);
                Some (ret, h\<lparr>heap_blocks := (heap_blocks h)(ret \<mapsto> sz)\<rparr>) })"

definition mem_free :: "nat \<Rightarrow> heap \<Rightarrow> heap option" where
  "mem_free rmem h =
     do { lwip_assert (rmem \<noteq> 0);
          lwip_assert (rmem = LWIP_MEM_ALIGN rmem);
          lwip_assert (rmem \<in> dom (heap_blocks h));
          Some (h\<lparr>heap_blocks := (heap_blocks h)(rmem := None)\<rparr>) }"

definition mem_trim :: "nat \<Rightarrow> nat \<Rightarrow> nat" where
  "mem_trim mem sz = mem"

section \<open>Reference counting and deallocation\<close>

definition pbuf_pool_is_empty :: "heap \<Rightarrow> heap" where
  "pbuf_pool_is_empty h = h\<lparr>pbuf_free_ooseq_pending := True\<rparr>"

text \<open>The deallocation of one \<^verbatim>\<open>struct pbuf\<close> whose reference count has become 0.\<close>

definition pbuf_dealloc :: "pbuf_env \<Rightarrow> nat \<Rightarrow> pbuf \<Rightarrow> heap \<Rightarrow> heap option" where
  "pbuf_dealloc e p b h =
     (let alloc_src = pbuf_get_allocsrc b in
      if pb_flags b AND PBUF_FLAG_IS_CUSTOM \<noteq> 0 then
        (case custom_free_function e p of None \<Rightarrow> None | Some f \<Rightarrow> f h)
      else
        do { h \<leftarrow>
               (if alloc_src = 0x02 then
                  do { ps \<leftarrow> memp_free (pools h) MEMP_PBUF_POOL p; Some (h\<lparr>pools := ps\<rparr>) }
                else if alloc_src = 0x01 then
                  do { ps \<leftarrow> memp_free (pools h) MEMP_PBUF p; Some (h\<lparr>pools := ps\<rparr>) }
                else if alloc_src = 0x00 then mem_free p h
                else None);
             Some (h\<lparr>pbufs := (pbufs h)(p := None)\<rparr>) })"

partial_function (option) pbuf_free_loop :: "pbuf_env \<Rightarrow> nat \<Rightarrow> u8 \<Rightarrow> heap \<Rightarrow> (u8 \<times> heap) option" where
  "pbuf_free_loop e p count h =
     (if p = 0 then Some (count, h)
      else do { b \<leftarrow> pbufs h p;
                lwip_assert (pb_ref b > 0);
                let b = b\<lparr>pb_ref := pb_ref b - 1\<rparr>; h = h\<lparr>pbufs := (pbufs h)(p \<mapsto> b)\<rparr>
                in if pb_ref b = 0 then
                     do { h \<leftarrow> pbuf_dealloc e p b h; pbuf_free_loop e (pb_next b) (count + 1) h }
                   else Some (count, h) })"

definition pbuf_free :: "pbuf_env \<Rightarrow> nat \<Rightarrow> heap \<Rightarrow> (u8 \<times> heap) option" where
  "pbuf_free e p h = do { lwip_assert (p \<noteq> 0); pbuf_free_loop e p 0 h }"

definition pbuf_ref :: "nat \<Rightarrow> heap \<Rightarrow> heap option" where
  "pbuf_ref p h =
     (if p \<noteq> 0 then
        do { b \<leftarrow> pbufs h p;
             let b = b\<lparr>pb_ref := pb_ref b + 1\<rparr>
             in do { lwip_assert (pb_ref b > 0); Some (h\<lparr>pbufs := (pbufs h)(p \<mapsto> b)\<rparr>) } }
      else Some h)"

partial_function (option) pbuf_clen_loop :: "heap \<Rightarrow> nat \<Rightarrow> u16 \<Rightarrow> u16 option" where
  "pbuf_clen_loop h p n =
     (if p \<noteq> 0 then do { b \<leftarrow> pbufs h p; pbuf_clen_loop h (pb_next b) (n + 1) } else Some n)"

definition pbuf_clen :: "heap \<Rightarrow> nat \<Rightarrow> u16 option" where
  "pbuf_clen h p = pbuf_clen_loop h p 0"

section \<open>Allocation\<close>

definition pbuf_init_alloced_pbuf ::
    "nat \<Rightarrow> nat \<Rightarrow> u16 \<Rightarrow> u16 \<Rightarrow> pbuf_type \<Rightarrow> u8 \<Rightarrow> heap \<Rightarrow> heap" where
  "pbuf_init_alloced_pbuf p pl tlen l type fl h =
     h\<lparr>pbufs := (pbufs h)(p \<mapsto>
         \<lparr>pb_next = 0, payload = pl, tot_len = tlen, len = l, type_internal = ucast (pbuf_type_val type),
          pb_flags = fl, pb_ref = 1, if_idx = 0\<rparr>)\<rparr>"

definition pbuf_alloc_reference :: "nat \<Rightarrow> u16 \<Rightarrow> pbuf_type \<Rightarrow> heap \<Rightarrow> (nat \<times> heap) option" where
  "pbuf_alloc_reference pl n type h =
     do { lwip_assert (type = PBUF_REF \<or> type = PBUF_ROM);
          (p, ps) \<leftarrow> memp_malloc (pools h) MEMP_PBUF;
          let h = h\<lparr>pools := ps\<rparr>
          in if p = 0 then Some (0, h)
             else Some (p, pbuf_init_alloced_pbuf p pl n n type 0 h) }"

text \<open>The \<^verbatim>\<open>do\<close> loop of the \<^verbatim>\<open>PBUF_POOL\<close> case; \<open>lst\<close> is the last buffer so far, 0 with \<open>p\<close>.\<close>

partial_function (option) pbuf_alloc_pool_loop ::
    "pbuf_env \<Rightarrow> nat \<Rightarrow> nat \<Rightarrow> u16 \<Rightarrow> u16 \<Rightarrow> heap \<Rightarrow> (nat \<times> heap) option" where
  "pbuf_alloc_pool_loop e p lst rem_len offset h =
     do { (q, ps) \<leftarrow> memp_malloc (pools h) MEMP_PBUF_POOL;
          let h = h\<lparr>pools := ps\<rparr>
          in if q = 0 then
               (let h = pbuf_pool_is_empty h
                in if p \<noteq> 0 then do { (_, h) \<leftarrow> pbuf_free e p h; Some (0, h) } else Some (0, h))
             else
               (let room = (word_of_nat (PBUF_POOL_BUFSIZE_ALIGNED - LWIP_MEM_ALIGN (unat offset)) :: u16);
                    qlen = (if rem_len < room then rem_len else room);
                    pl = LWIP_MEM_ALIGN (q + SIZEOF_STRUCT_PBUF + unat offset);
                    h = pbuf_init_alloced_pbuf q pl rem_len qlen PBUF_POOL 0 h
                in do { lwip_assert (pl mod 4 = 0);
                        lwip_assert (PBUF_POOL_BUFSIZE_ALIGNED - LWIP_MEM_ALIGN (unat offset) > 0);
                        h \<leftarrow> (if p = 0 then Some h else upd_pbuf lst (\<lambda>b. b\<lparr>pb_next := q\<rparr>) h);
                        let p = (if p = 0 then q else p); rem_len = rem_len - qlen
                        in if rem_len > 0 then pbuf_alloc_pool_loop e p q rem_len 0 h
                           else Some (p, h) }) }"

text \<open>\<^verbatim>\<open>mem_size_t\<close> is the 32-bit \<^verbatim>\<open>size_t\<close>.\<close>

definition pbuf_alloc :: "pbuf_env \<Rightarrow> pbuf_layer \<Rightarrow> u16 \<Rightarrow> pbuf_type \<Rightarrow> heap \<Rightarrow> (nat \<times> heap) option" where
  "pbuf_alloc e layer n type h =
     (let offset = pbuf_layer_val layer in
      case type of
        PBUF_REF \<Rightarrow> pbuf_alloc_reference 0 n type h
      | PBUF_ROM \<Rightarrow> pbuf_alloc_reference 0 n type h
      | PBUF_POOL \<Rightarrow> pbuf_alloc_pool_loop e 0 0 n offset h
      | PBUF_RAM \<Rightarrow>
          (let payload_len = (LWIP_MEM_ALIGN (unat offset) + LWIP_MEM_ALIGN (unat n)) mod 2 ^ 32;
               alloc_len = (LWIP_MEM_ALIGN SIZEOF_STRUCT_PBUF + payload_len) mod 2 ^ 32
           in if payload_len < LWIP_MEM_ALIGN (unat n) \<or> alloc_len < LWIP_MEM_ALIGN (unat n)
              then Some (0, h)
              else do { (p, h) \<leftarrow> mem_malloc e alloc_len h;
                        if p = 0 then Some (0, h)
                        else (let pl = LWIP_MEM_ALIGN (p + SIZEOF_STRUCT_PBUF + unat offset)
                              in do { lwip_assert (pl mod 4 = 0);
                                      Some (p, pbuf_init_alloced_pbuf p pl n n type 0 h) }) }))"

definition pbuf_alloced_custom ::
    "pbuf_layer \<Rightarrow> u16 \<Rightarrow> pbuf_type \<Rightarrow> nat \<Rightarrow> nat \<Rightarrow> u16 \<Rightarrow> heap \<Rightarrow> nat \<times> heap" where
  "pbuf_alloced_custom l n type p payload_mem payload_mem_len h =
     (let offset = unat (pbuf_layer_val l) in
      if LWIP_MEM_ALIGN offset + unat n > unat payload_mem_len then (0, h)
      else (let pl = (if payload_mem \<noteq> 0 then payload_mem + LWIP_MEM_ALIGN offset else 0)
            in (p, pbuf_init_alloced_pbuf p pl n n type PBUF_FLAG_IS_CUSTOM h)))"

section \<open>Shrinking and headers\<close>

text \<open>The \<^verbatim>\<open>while\<close> loop of \<^verbatim>\<open>pbuf_realloc\<close> over the buffers that stay.\<close>

partial_function (option) pbuf_realloc_loop ::
    "nat \<Rightarrow> u16 \<Rightarrow> u16 \<Rightarrow> heap \<Rightarrow> (nat \<times> u16 \<times> heap) option" where
  "pbuf_realloc_loop q rem_len shrink h =
     do { b \<leftarrow> pbufs h q;
          if rem_len > len b then
            do { h \<leftarrow> upd_pbuf q (\<lambda>b. b\<lparr>tot_len := tot_len b - shrink\<rparr>) h;
                 lwip_assert (pb_next b \<noteq> 0);
                 pbuf_realloc_loop (pb_next b) (rem_len - len b) shrink h }
          else Some (q, rem_len, h) }"

definition pbuf_realloc :: "pbuf_env \<Rightarrow> nat \<Rightarrow> u16 \<Rightarrow> heap \<Rightarrow> heap option" where
  "pbuf_realloc e p new_len h =
     do { lwip_assert (p \<noteq> 0);
          b \<leftarrow> pbufs h p;
          if new_len \<ge> tot_len b then Some h
          else
            do { (q, rem_len, h) \<leftarrow> pbuf_realloc_loop p new_len (tot_len b - new_len) h;
                 qb \<leftarrow> pbufs h q;
                 (if pbuf_get_allocsrc qb = 0 \<and> rem_len \<noteq> len qb \<and> pb_flags qb AND PBUF_FLAG_IS_CUSTOM = 0 then
                    (let r = mem_trim q (payload qb - q + unat rem_len)
                     in do { lwip_assert (r \<noteq> 0); lwip_assert (r = q) })
                  else Some ());
                 h \<leftarrow> upd_pbuf q (\<lambda>b. b\<lparr>len := rem_len, tot_len := rem_len\<rparr>) h;
                 h \<leftarrow> (if pb_next qb \<noteq> 0 then do { (_, h) \<leftarrow> pbuf_free e (pb_next qb) h; Some h } else Some h);
                 upd_pbuf q (\<lambda>b. b\<lparr>pb_next := 0\<rparr>) h } }"

text \<open>The header functions return whether they fail (the C functions return non-zero). Pointers do
  not wrap around.\<close>

definition pbuf_add_header_impl :: "nat \<Rightarrow> nat \<Rightarrow> bool \<Rightarrow> heap \<Rightarrow> (bool \<times> heap) option" where
  "pbuf_add_header_impl p header_size_increment force h =
     do { lwip_assert (p \<noteq> 0);
          if header_size_increment > 0xFFFF then Some (True, h)
          else if header_size_increment = 0 then Some (False, h)
          else
            do { b \<leftarrow> pbufs h p;
                 let increment_magnitude = (word_of_nat header_size_increment :: u16);
                     pl = payload b - header_size_increment;
                     ok = h\<lparr>pbufs := (pbufs h)(p \<mapsto>
                       b\<lparr>payload := pl, len := len b + increment_magnitude,
                         tot_len := tot_len b + increment_magnitude\<rparr>)\<rparr>
                 in if increment_magnitude + tot_len b < increment_magnitude then Some (True, h)
                    else if type_internal b AND PBUF_TYPE_FLAG_STRUCT_DATA_CONTIGUOUS \<noteq> 0 then
                      (if pl < p + SIZEOF_STRUCT_PBUF then Some (True, h) else Some (False, ok))
                    else if force then Some (False, ok)
                    else Some (True, h) } }"

definition pbuf_add_header :: "nat \<Rightarrow> nat \<Rightarrow> heap \<Rightarrow> (bool \<times> heap) option" where
  "pbuf_add_header p header_size_increment h = pbuf_add_header_impl p header_size_increment False h"

definition pbuf_add_header_force :: "nat \<Rightarrow> nat \<Rightarrow> heap \<Rightarrow> (bool \<times> heap) option" where
  "pbuf_add_header_force p header_size_increment h = pbuf_add_header_impl p header_size_increment True h"

definition pbuf_remove_header :: "nat \<Rightarrow> nat \<Rightarrow> heap \<Rightarrow> (bool \<times> heap) option" where
  "pbuf_remove_header p header_size_decrement h =
     do { lwip_assert (p \<noteq> 0);
          if header_size_decrement > 0xFFFF then Some (True, h)
          else if header_size_decrement = 0 then Some (False, h)
          else
            do { b \<leftarrow> pbufs h p;
                 let increment_magnitude = (word_of_nat header_size_decrement :: u16)
                 in if \<not> increment_magnitude \<le> len b then Some (True, h)
                    else Some (False, h\<lparr>pbufs := (pbufs h)(p \<mapsto>
                       b\<lparr>payload := payload b + header_size_decrement, len := len b - increment_magnitude,
                         tot_len := tot_len b - increment_magnitude\<rparr>)\<rparr>) } }"

definition pbuf_header_impl :: "nat \<Rightarrow> int \<Rightarrow> bool \<Rightarrow> heap \<Rightarrow> (bool \<times> heap) option" where
  "pbuf_header_impl p header_size_increment force h =
     (if header_size_increment < 0 then pbuf_remove_header p (nat (- header_size_increment)) h
      else pbuf_add_header_impl p (nat header_size_increment) force h)"

definition pbuf_header :: "nat \<Rightarrow> int \<Rightarrow> heap \<Rightarrow> (bool \<times> heap) option" where
  "pbuf_header p header_size_increment h = pbuf_header_impl p header_size_increment False h"

definition pbuf_header_force :: "nat \<Rightarrow> int \<Rightarrow> heap \<Rightarrow> (bool \<times> heap) option" where
  "pbuf_header_force p header_size_increment h = pbuf_header_impl p header_size_increment True h"

partial_function (option) pbuf_free_header_loop ::
    "pbuf_env \<Rightarrow> nat \<Rightarrow> u16 \<Rightarrow> heap \<Rightarrow> (nat \<times> heap) option" where
  "pbuf_free_header_loop e p free_left h =
     (if free_left \<noteq> 0 \<and> p \<noteq> 0 then
        do { b \<leftarrow> pbufs h p;
             if free_left \<ge> len b then
               do { h \<leftarrow> upd_pbuf p (\<lambda>b. b\<lparr>pb_next := 0\<rparr>) h;
                    (_, h) \<leftarrow> pbuf_free e p h;
                    pbuf_free_header_loop e (pb_next b) (free_left - len b) h }
             else
               do { (_, h) \<leftarrow> pbuf_remove_header p (unat free_left) h;
                    pbuf_free_header_loop e p 0 h } }
      else Some (p, h))"

definition pbuf_free_header :: "pbuf_env \<Rightarrow> nat \<Rightarrow> u16 \<Rightarrow> heap \<Rightarrow> (nat \<times> heap) option" where
  "pbuf_free_header e q sz h = pbuf_free_header_loop e q sz h"

section \<open>Chaining\<close>

text \<open>The \<^verbatim>\<open>for\<close> loop of \<^verbatim>\<open>pbuf_cat\<close>: \<^verbatim>\<open>t->tot_len\<close> is read in every iteration.\<close>

partial_function (option) pbuf_cat_loop :: "nat \<Rightarrow> nat \<Rightarrow> heap \<Rightarrow> (nat \<times> heap) option" where
  "pbuf_cat_loop p t h =
     do { b \<leftarrow> pbufs h p;
          if pb_next b \<noteq> 0 then
            do { tb \<leftarrow> pbufs h t;
                 h \<leftarrow> upd_pbuf p (\<lambda>b. b\<lparr>tot_len := tot_len b + tot_len tb\<rparr>) h;
                 pbuf_cat_loop (pb_next b) t h }
          else Some (p, h) }"

definition pbuf_cat :: "nat \<Rightarrow> nat \<Rightarrow> heap \<Rightarrow> heap option" where
  "pbuf_cat head t h =
     (if \<not> (head \<noteq> 0 \<and> t \<noteq> 0) then Some h
      else
        do { lwip_assert (head \<noteq> t);
             (p, h) \<leftarrow> pbuf_cat_loop head t h;
             b \<leftarrow> pbufs h p;
             lwip_assert (tot_len b = len b);
             lwip_assert (pb_next b = 0);
             tb \<leftarrow> pbufs h t;
             upd_pbuf p (\<lambda>b. b\<lparr>tot_len := tot_len b + tot_len tb, pb_next := t\<rparr>) h })"

definition pbuf_chain :: "nat \<Rightarrow> nat \<Rightarrow> heap \<Rightarrow> heap option" where
  "pbuf_chain head t h = do { h \<leftarrow> pbuf_cat head t h; pbuf_ref t h }"

definition pbuf_dechain :: "pbuf_env \<Rightarrow> nat \<Rightarrow> heap \<Rightarrow> (nat \<times> heap) option" where
  "pbuf_dechain e p h =
     do { b \<leftarrow> pbufs h p;
          (tail_gone, h) \<leftarrow>
            (let q = pb_next b in
             if q \<noteq> 0 then
               do { qb \<leftarrow> pbufs h q;
                    lwip_assert (int (unat (tot_len qb)) = int (unat (tot_len b)) - int (unat (len b)));
                    h \<leftarrow> upd_pbuf q (\<lambda>qb. qb\<lparr>tot_len := tot_len b - len b\<rparr>) h;
                    h \<leftarrow> upd_pbuf p (\<lambda>b. b\<lparr>pb_next := 0, tot_len := len b\<rparr>) h;
                    pbuf_free e q h }
             else Some (1, h));
          b' \<leftarrow> pbufs h p;
          lwip_assert (tot_len b' = len b');
          Some (if tail_gone > 0 then 0 else pb_next b, h) }"

section \<open>Reading\<close>

partial_function (option) pbuf_skip_const :: "heap \<Rightarrow> nat \<Rightarrow> u16 \<Rightarrow> (nat \<times> u16) option" where
  "pbuf_skip_const h q offset_left =
     (if q \<noteq> 0 then
        do { b \<leftarrow> pbufs h q;
             if len b \<le> offset_left then pbuf_skip_const h (pb_next b) (offset_left - len b)
             else Some (q, offset_left) }
      else Some (q, offset_left))"

definition pbuf_skip :: "heap \<Rightarrow> nat \<Rightarrow> u16 \<Rightarrow> (nat \<times> u16) option" where
  "pbuf_skip h q in_offset = pbuf_skip_const h q in_offset"

partial_function (option) pbuf_copy_partial_loop ::
    "nat \<Rightarrow> nat \<Rightarrow> u16 \<Rightarrow> u16 \<Rightarrow> u16 \<Rightarrow> u16 \<Rightarrow> heap \<Rightarrow> (u16 \<times> heap) option" where
  "pbuf_copy_partial_loop p dataptr n offset left copied_total h =
     (if n \<noteq> 0 \<and> p \<noteq> 0 then
        do { b \<leftarrow> pbufs h p;
             if offset \<noteq> 0 \<and> offset \<ge> len b then
               pbuf_copy_partial_loop (pb_next b) dataptr n (offset - len b) left copied_total h
             else
               (let buf_copy_len = len b - offset;
                    buf_copy_len = (if buf_copy_len > n then n else buf_copy_len);
                    h = memcpy (dataptr + unat left) (payload b + unat offset) (unat buf_copy_len) h
                in pbuf_copy_partial_loop (pb_next b) dataptr (n - buf_copy_len) 0
                     (left + buf_copy_len) (copied_total + buf_copy_len) h) }
      else Some (copied_total, h))"

definition pbuf_copy_partial :: "nat \<Rightarrow> nat \<Rightarrow> u16 \<Rightarrow> u16 \<Rightarrow> heap \<Rightarrow> (u16 \<times> heap) option" where
  "pbuf_copy_partial buf dataptr n offset h =
     (if buf = 0 then Some (0, h)
      else if dataptr = 0 then Some (0, h)
      else pbuf_copy_partial_loop buf dataptr n offset 0 0 h)"

definition pbuf_get_contiguous :: "nat \<Rightarrow> nat \<Rightarrow> nat \<Rightarrow> u16 \<Rightarrow> u16 \<Rightarrow> heap \<Rightarrow> (nat \<times> heap) option" where
  "pbuf_get_contiguous p buffer bufsize n offset h =
     (if p = 0 then Some (0, h)
      else if \<not> (buffer = 0 \<or> bufsize \<ge> unat n) then Some (0, h)
      else
        do { (q, out_offset) \<leftarrow> pbuf_skip_const h p offset;
             if q \<noteq> 0 then
               do { b \<leftarrow> pbufs h q;
                    if unat (len b) \<ge> unat out_offset + unat n then Some (payload b + unat out_offset, h)
                    else if buffer = 0 then Some (0, h)
                    else do { (c, h) \<leftarrow> pbuf_copy_partial q buffer n out_offset h;
                              if c \<noteq> n then Some (0, h) else Some (buffer, h) } }
             else Some (0, h) })"

definition pbuf_try_get_at :: "heap \<Rightarrow> nat \<Rightarrow> u16 \<Rightarrow> int option" where
  "pbuf_try_get_at h p offset =
     do { (q, q_idx) \<leftarrow> pbuf_skip_const h p offset;
          if q \<noteq> 0 then
            do { b \<leftarrow> pbufs h q;
                 Some (if len b > q_idx then uint (bytes h (payload b + unat q_idx)) else - 1) }
          else Some (- 1) }"

definition pbuf_get_at :: "heap \<Rightarrow> nat \<Rightarrow> u16 \<Rightarrow> u8 option" where
  "pbuf_get_at h p offset =
     do { ret \<leftarrow> pbuf_try_get_at h p offset; Some (if ret \<ge> 0 then word_of_int ret else 0) }"

text \<open>The \<^verbatim>\<open>for\<close> loop of \<^verbatim>\<open>pbuf_memcmp\<close>; \<open>i\<close> stays below \<open>n\<close>, a 16-bit value.\<close>

function pbuf_memcmp_loop :: "heap \<Rightarrow> nat \<Rightarrow> u16 \<Rightarrow> nat \<Rightarrow> nat \<Rightarrow> nat \<Rightarrow> u16 option" where
  "pbuf_memcmp_loop h q start s2 n i =
     (if i < n then
        (case pbuf_get_at h q (start + word_of_nat i) of
           None \<Rightarrow> None
         | Some a \<Rightarrow>
             if a \<noteq> bytes h (s2 + i) then Some (word_of_nat (min (i + 1) 0xFFFF))
             else pbuf_memcmp_loop h q start s2 n (i + 1))
      else Some 0)"
  by pat_completeness auto
termination
  by (relation "measure (\<lambda>(h, q, start, s2, n, i). n - i)") auto

declare pbuf_memcmp_loop.simps [simp del]

definition pbuf_memcmp :: "heap \<Rightarrow> nat \<Rightarrow> u16 \<Rightarrow> nat \<Rightarrow> u16 \<Rightarrow> u16 option" where
  "pbuf_memcmp h p offset s2 n =
     do { b \<leftarrow> pbufs h p;
          if unat (tot_len b) < unat offset + unat n then Some 0xffff
          else do { (q, start) \<leftarrow> pbuf_skip_const h p offset;
                    pbuf_memcmp_loop h q start s2 (unat n) 0 } }"

partial_function (option) pbuf_memfind_loop ::
    "heap \<Rightarrow> nat \<Rightarrow> nat \<Rightarrow> u16 \<Rightarrow> u16 \<Rightarrow> u16 \<Rightarrow> u16 option" where
  "pbuf_memfind_loop h p mem mem_len max_cmp_start i =
     (if i \<le> max_cmp_start then
        do { plus \<leftarrow> pbuf_memcmp h p i mem mem_len;
             if plus = 0 then Some i else pbuf_memfind_loop h p mem mem_len max_cmp_start (i + 1) }
      else Some 0xFFFF)"

definition pbuf_memfind :: "heap \<Rightarrow> nat \<Rightarrow> nat \<Rightarrow> u16 \<Rightarrow> u16 \<Rightarrow> u16 option" where
  "pbuf_memfind h p mem mem_len start_offset =
     do { b \<leftarrow> pbufs h p;
          let max_cmp_start = tot_len b - mem_len
          in if unat (tot_len b) \<ge> unat mem_len + unat start_offset
             then pbuf_memfind_loop h p mem mem_len max_cmp_start start_offset
             else Some 0xFFFF }"

partial_function (option) strlen_mem :: "heap \<Rightarrow> nat \<Rightarrow> nat \<Rightarrow> nat option" where
  "strlen_mem h s n = (if bytes h (s + n) = 0 then Some n else strlen_mem h s (n + 1))"

definition pbuf_strstr :: "heap \<Rightarrow> nat \<Rightarrow> nat \<Rightarrow> u16 option" where
  "pbuf_strstr h p substr =
     (if substr = 0 \<or> bytes h substr = 0 then Some 0xFFFF
      else
        do { b \<leftarrow> pbufs h p;
             if tot_len b = 0xFFFF then Some 0xFFFF
             else do { substr_len \<leftarrow> strlen_mem h substr 0;
                       if substr_len \<ge> 0xFFFF then Some 0xFFFF
                       else pbuf_memfind h p substr (word_of_nat substr_len) 0 } })"

section \<open>Writing\<close>

definition pbuf_put_at :: "nat \<Rightarrow> u16 \<Rightarrow> u8 \<Rightarrow> heap \<Rightarrow> heap option" where
  "pbuf_put_at p offset data h =
     do { (q, q_idx) \<leftarrow> pbuf_skip h p offset;
          if q \<noteq> 0 then
            do { b \<leftarrow> pbufs h q;
                 Some (if len b > q_idx then h\<lparr>bytes := (bytes h)(payload b + unat q_idx := data)\<rparr> else h) }
          else Some h }"

partial_function (option) pbuf_take_loop :: "nat \<Rightarrow> nat \<Rightarrow> nat \<Rightarrow> nat \<Rightarrow> heap \<Rightarrow> (nat \<times> nat \<times> heap) option" where
  "pbuf_take_loop p dataptr total_copy_len copied_total h =
     (if total_copy_len \<noteq> 0 then
        do { lwip_assert (p \<noteq> 0);
             b \<leftarrow> pbufs h p;
             let buf_copy_len = (if total_copy_len > unat (len b) then unat (len b) else total_copy_len);
                 h = memcpy (payload b) (dataptr + copied_total) buf_copy_len h
             in pbuf_take_loop (pb_next b) dataptr (total_copy_len - buf_copy_len)
                  (copied_total + buf_copy_len) h }
      else Some (total_copy_len, copied_total, h))"

definition pbuf_take :: "nat \<Rightarrow> nat \<Rightarrow> u16 \<Rightarrow> heap \<Rightarrow> (err_t \<times> heap) option" where
  "pbuf_take buf dataptr n h =
     (if buf = 0 then Some (ERR_ARG, h)
      else if dataptr = 0 then Some (ERR_ARG, h)
      else
        do { b \<leftarrow> pbufs h buf;
             if \<not> tot_len b \<ge> n then Some (ERR_MEM, h)
             else do { (total_copy_len, copied_total, h) \<leftarrow> pbuf_take_loop buf dataptr (unat n) 0 h;
                       lwip_assert (total_copy_len = 0 \<and> copied_total = unat n);
                       Some (ERR_OK, h) } })"

definition pbuf_take_at :: "nat \<Rightarrow> nat \<Rightarrow> u16 \<Rightarrow> u16 \<Rightarrow> heap \<Rightarrow> (err_t \<times> heap) option" where
  "pbuf_take_at buf dataptr n offset h =
     do { (q, target_offset) \<leftarrow> pbuf_skip h buf offset;
          if q \<noteq> 0 then
            do { b \<leftarrow> pbufs h q;
                 if unat (tot_len b) \<ge> unat target_offset + unat n then
                   do { lwip_assert (target_offset < len b);
                        let first_copy_len = min (unat (len b) - unat target_offset) (unat n);
                            h = memcpy (payload b + unat target_offset) dataptr first_copy_len h;
                            remaining_len = n - word_of_nat first_copy_len
                        in if remaining_len > 0
                           then pbuf_take (pb_next b) (dataptr + first_copy_len) remaining_len h
                           else Some (ERR_OK, h) }
                 else Some (ERR_MEM, h) }
          else Some (ERR_MEM, h) }"

text \<open>The \<^verbatim>\<open>do\<close> loop of \<^verbatim>\<open>pbuf_copy_partial_pbuf\<close>. Offsets and \<^verbatim>\<open>len\<close> are \<^verbatim>\<open>size_t\<close>, so that
  a subtraction can wrap around. First the number of bytes an iteration copies.\<close>

definition copy_chunk :: "u16 \<Rightarrow> u16 \<Rightarrow> u16 \<Rightarrow> u32 \<Rightarrow> u32 \<Rightarrow> u32" where
  "copy_chunk to_len from_len copy_len offset_to offset_from =
     (let to_left = ucast to_len - offset_to; from_left = ucast from_len - offset_from;
          l = (if to_left \<ge> from_left then from_left else to_left)
      in if ucast copy_len < l then ucast copy_len else l)"

text \<open>The test for a packet queue, at the end of an iteration.\<close>

definition not_a_queue :: "heap \<Rightarrow> nat \<Rightarrow> bool option" where
  "not_a_queue h p =
     (if p \<noteq> 0 then do { b \<leftarrow> pbufs h p; Some (len b = tot_len b \<longrightarrow> pb_next b = 0) } else Some True)"

partial_function (option) pbuf_copy_pbuf_loop ::
    "nat \<Rightarrow> nat \<Rightarrow> u16 \<Rightarrow> u32 \<Rightarrow> u32 \<Rightarrow> heap \<Rightarrow> (err_t \<times> heap) option" where
  "pbuf_copy_pbuf_loop p_to p_from copy_len offset_to offset_from h =
     do { tb \<leftarrow> pbufs h p_to;
          fb \<leftarrow> pbufs h p_from;
          let l = copy_chunk (len tb) (len fb) copy_len offset_to offset_from;
              h = memcpy (payload tb + unat offset_to) (payload fb + unat offset_from) (unat l) h;
              offset_to = offset_to + l; offset_from = offset_from + l;
              copy_len = copy_len - ucast l
          in do { lwip_assert (offset_to \<le> ucast (len tb));
                  lwip_assert (offset_from \<le> ucast (len fb));
                  let (p_from, offset_from) =
                        (if offset_from \<ge> ucast (len fb) then (pb_next fb, 0) else (p_from, offset_from))
                  in if \<not> (p_from \<noteq> 0 \<or> copy_len = 0) then Some (ERR_ARG, h)
                  else let (p_to, offset_to) =
                        (if offset_to = ucast (len tb) then (pb_next tb, 0) else (p_to, offset_to))
                  in if \<not> (p_to \<noteq> 0 \<or> copy_len = 0) then Some (ERR_ARG, h)
                  else do { from_ok \<leftarrow> not_a_queue h p_from;
                            if \<not> from_ok then Some (ERR_VAL, h)
                            else do { to_ok \<leftarrow> not_a_queue h p_to;
                                      if \<not> to_ok then Some (ERR_VAL, h)
                                      else if copy_len \<noteq> 0
                                      then pbuf_copy_pbuf_loop p_to p_from copy_len offset_to offset_from h
                                      else Some (ERR_OK, h) } } } }"

definition pbuf_copy_partial_pbuf :: "nat \<Rightarrow> nat \<Rightarrow> u16 \<Rightarrow> u16 \<Rightarrow> heap \<Rightarrow> (err_t \<times> heap) option" where
  "pbuf_copy_partial_pbuf p_to p_from copy_len offset h =
     (if p_from = 0 then Some (ERR_ARG, h)
      else
        do { fb \<leftarrow> pbufs h p_from;
             if \<not> tot_len fb \<ge> copy_len then Some (ERR_ARG, h)
             else if p_to = 0 then Some (ERR_ARG, h)
             else
               do { tb \<leftarrow> pbufs h p_to;
                    if \<not> unat (tot_len tb) \<ge> unat offset + unat copy_len then Some (ERR_ARG, h)
                    else pbuf_copy_pbuf_loop p_to p_from copy_len (ucast offset) 0 h } })"

definition pbuf_copy :: "nat \<Rightarrow> nat \<Rightarrow> heap \<Rightarrow> (err_t \<times> heap) option" where
  "pbuf_copy p_to p_from h =
     (if p_from = 0 then Some (ERR_ARG, h)
      else do { fb \<leftarrow> pbufs h p_from; pbuf_copy_partial_pbuf p_to p_from (tot_len fb) 0 h })"

definition pbuf_clone :: "pbuf_env \<Rightarrow> pbuf_layer \<Rightarrow> pbuf_type \<Rightarrow> nat \<Rightarrow> heap \<Rightarrow> (nat \<times> heap) option" where
  "pbuf_clone e layer type p h =
     do { b \<leftarrow> pbufs h p;
          (q, h) \<leftarrow> pbuf_alloc e layer (tot_len b) type h;
          if q = 0 then Some (0, h)
          else do { (err, h) \<leftarrow> pbuf_copy q p h; lwip_assert (err = ERR_OK); Some (q, h) } }"

definition pbuf_coalesce :: "pbuf_env \<Rightarrow> nat \<Rightarrow> pbuf_layer \<Rightarrow> heap \<Rightarrow> (nat \<times> heap) option" where
  "pbuf_coalesce e p layer h =
     do { b \<leftarrow> pbufs h p;
          if pb_next b = 0 then Some (p, h)
          else
            do { (q, h) \<leftarrow> pbuf_clone e layer PBUF_RAM p h;
                 if q = 0 then Some (p, h)
                 else do { (_, h) \<leftarrow> pbuf_free e p h; Some (q, h) } } }"

end
