(* ===== verification/Pbuf_Read.thy ===== *)
theory Pbuf_Read
  imports Pbuf
begin

text \<open>
  A packet as a value: the chain of addresses, the bytes of its payloads in order and the
  \<^verbatim>\<open>tot_len\<close> invariant of \<^verbatim>\<open>struct pbuf\<close>; and the functions of \<^verbatim>\<open>pbuf.c\<close> that only read a packet,
  each shown to compute the corresponding function on the list of bytes.
\<close>

section \<open>Packets\<close>

fun pchain :: "heap \<Rightarrow> nat \<Rightarrow> nat list \<Rightarrow> bool" where
  "pchain h p [] \<longleftrightarrow> p = 0"
| "pchain h p (a # as) \<longleftrightarrow> p = a \<and> a \<noteq> 0 \<and> (\<exists>b. pbufs h a = Some b \<and> pchain h (pb_next b) as)"

definition plen :: "heap \<Rightarrow> nat \<Rightarrow> nat" where
  "plen h a = unat (len (the (pbufs h a)))"

definition rd :: "heap \<Rightarrow> nat \<Rightarrow> nat \<Rightarrow> u8 list" where
  "rd h a n = map (bytes h) [a..<a + n]"

definition pbytes :: "heap \<Rightarrow> nat \<Rightarrow> u8 list" where
  "pbytes h a = rd h (payload (the (pbufs h a))) (plen h a)"

definition pdata :: "heap \<Rightarrow> nat list \<Rightarrow> u8 list" where
  "pdata h as = concat (map (pbytes h) as)"

fun totals_ok :: "heap \<Rightarrow> nat list \<Rightarrow> bool" where
  "totals_ok h [] \<longleftrightarrow> True"
| "totals_ok h (a # as) \<longleftrightarrow>
     unat (tot_len (the (pbufs h a))) = length (pdata h (a # as)) \<and> totals_ok h as"

definition packet :: "heap \<Rightarrow> nat \<Rightarrow> nat list \<Rightarrow> bool" where
  "packet h p as \<longleftrightarrow> pchain h p as \<and> as \<noteq> [] \<and> totals_ok h as"

definition payload_region :: "heap \<Rightarrow> nat \<Rightarrow> nat set" where
  "payload_region h a = {payload (the (pbufs h a))..<payload (the (pbufs h a)) + plen h a}"

definition packet_region :: "heap \<Rightarrow> nat list \<Rightarrow> nat set" where
  "packet_region h as = (\<Union>a \<in> set as. payload_region h a)"

text \<open>Overwriting memory from an address on with a list of bytes.\<close>

definition write_bytes :: "nat \<Rightarrow> u8 list \<Rightarrow> heap \<Rightarrow> heap" where
  "write_bytes a xs h =
     h\<lparr>bytes := (\<lambda>x. if a \<le> x \<and> x < a + length xs then xs ! (x - a) else bytes h x)\<rparr>"

lemma length_rd [simp]: "length (rd h a n) = n"
  by (simp add: rd_def)

lemma rd_nth [simp]: "i < n \<Longrightarrow> rd h a n ! i = bytes h (a + i)"
  by (simp add: rd_def)

lemma rd_0 [simp]: "rd h a 0 = []"
  by (simp add: rd_def)

lemma take_rd: "take k (rd h a n) = rd h a (min k n)"
  by (rule nth_equalityI) auto

lemma drop_rd: "drop k (rd h a n) = rd h (a + k) (n - k)"
  by (rule nth_equalityI) (auto simp: add.assoc)

lemma length_pbytes [simp]: "length (pbytes h a) = plen h a"
  by (simp add: pbytes_def)

lemma plen_less [simp]: "plen h a < 65536"
  by (simp add: plen_def)

lemma plen_Some: "pbufs h a = Some b \<Longrightarrow> plen h a = unat (len b)"
  by (simp add: plen_def)

lemma pdata_Nil [simp]: "pdata h [] = []"
  by (simp add: pdata_def)

lemma pdata_Cons [simp]: "pdata h (a # as) = pbytes h a @ pdata h as"
  by (simp add: pdata_def)

lemma pdata_append [simp]: "pdata h (as @ bs) = pdata h as @ pdata h bs"
  by (simp add: pdata_def)

lemma bytes_upd_cong: "(\<And>x. f x = g x) \<Longrightarrow> h\<lparr>bytes := f\<rparr> = h\<lparr>bytes := g\<rparr>"
  by (simp add: ext)

lemma memcpy_write: "memcpy dst src n h = write_bytes dst (rd h src n) h"
  unfolding memcpy_def write_bytes_def by (rule bytes_upd_cong) (auto simp: rd_def)

lemma write_bytes_Nil [simp]: "write_bytes a [] h = h"
proof -
  have "h\<lparr>bytes := (\<lambda>x. if a \<le> x \<and> x < a + length [] then [] ! (x - a) else bytes h x)\<rparr> = h\<lparr>bytes := bytes h\<rparr>"
    by (rule bytes_upd_cong) auto
  then show ?thesis by (simp add: write_bytes_def)
qed

lemma write_bytes_append:
  "write_bytes (a + length xs) ys (write_bytes a xs h) = write_bytes a (xs @ ys) h"
proof -
  have "h\<lparr>bytes := (\<lambda>x. if a + length xs \<le> x \<and> x < a + length xs + length ys then ys ! (x - (a + length xs))
             else if a \<le> x \<and> x < a + length xs then xs ! (x - a) else bytes h x)\<rparr> =
        h\<lparr>bytes := (\<lambda>x. if a \<le> x \<and> x < a + length (xs @ ys) then (xs @ ys) ! (x - a) else bytes h x)\<rparr>"
    by (rule bytes_upd_cong) (auto simp: nth_append)
  moreover have "bytes (write_bytes a xs h) = (\<lambda>x. if a \<le> x \<and> x < a + length xs then xs ! (x - a) else bytes h x)"
    by (simp add: write_bytes_def)
  moreover have "(write_bytes a xs h)\<lparr>bytes := f\<rparr> = h\<lparr>bytes := f\<rparr>" for f
    by (simp add: write_bytes_def)
  ultimately show ?thesis by (simp only: write_bytes_def [of "a + length xs"] write_bytes_def [of a "xs @ ys"])
qed

lemma write_bytes_simps [simp]:
  "pbufs (write_bytes a xs h) = pbufs h" "pools (write_bytes a xs h) = pools h"
  "heap_blocks (write_bytes a xs h) = heap_blocks h"
  "pbuf_free_ooseq_pending (write_bytes a xs h) = pbuf_free_ooseq_pending h"
  "plen (write_bytes a xs h) = plen h" "payload_region (write_bytes a xs h) = payload_region h"
  "packet_region (write_bytes a xs h) = packet_region h"
  by (simp_all add: write_bytes_def plen_def payload_region_def packet_region_def fun_eq_iff)

lemma bytes_write:
  "bytes (write_bytes a xs h) x = (if a \<le> x \<and> x < a + length xs then xs ! (x - a) else bytes h x)"
  by (simp add: write_bytes_def)

lemma bytes_write_outside: "x \<notin> {a..<a + length xs} \<Longrightarrow> bytes (write_bytes a xs h) x = bytes h x"
  by (auto simp: write_bytes_def)

lemma rd_write_same: "rd (write_bytes a xs h) a (length xs) = xs"
  by (rule nth_equalityI) (auto simp: write_bytes_def)

lemma rd_write_outside:
  "{b..<b + n} \<inter> {a..<a + length xs} = {} \<Longrightarrow> rd (write_bytes a xs h) b n = rd h b n"
  by (rule nth_equalityI) (auto intro!: bytes_write_outside)

lemma pbytes_write_outside:
  "payload_region h b \<inter> {a..<a + length xs} = {} \<Longrightarrow> pbytes (write_bytes a xs h) b = pbytes h b"
  by (simp add: pbytes_def payload_region_def rd_write_outside)

lemma pdata_write_outside:
  "packet_region h as \<inter> {a..<a + length xs} = {} \<Longrightarrow> pdata (write_bytes a xs h) as = pdata h as"
  unfolding pdata_def packet_region_def
  by (intro arg_cong [where f = concat] map_cong refl pbytes_write_outside) blast

lemma pchain_write [simp]: "pchain (write_bytes a xs h) p as = pchain h p as"
  by (induction as arbitrary: p) simp_all

lemma pchain_null [simp]: "pchain h 0 as \<longleftrightarrow> as = []"
  by (cases as) auto

lemma pchain_nonnull:
  "p \<noteq> 0 \<Longrightarrow> pchain h p as \<Longrightarrow>
   \<exists>b as'. pbufs h p = Some b \<and> as = p # as' \<and> pchain h (pb_next b) as'"
  by (cases as) auto

lemma packet_head:
  assumes "packet h p as"
  obtains b as' where "pbufs h p = Some b" "as = p # as'" "pchain h (pb_next b) as'" "p \<noteq> 0"
    "unat (tot_len b) = length (pdata h as)" "totals_ok h as'"
proof (cases as)
  case Nil
  then show ?thesis using assms by (simp add: packet_def)
next
  case (Cons a as')
  then obtain b where "a = p" "p \<noteq> 0" "pbufs h p = Some b" "pchain h (pb_next b) as'"
      "unat (tot_len (the (pbufs h p))) = length (pdata h as)" "totals_ok h as'"
    using assms by (auto simp: packet_def)
  then show ?thesis using that [of b as'] Cons by simp
qed

lemma packet_tail:
  "packet h p (a # as) \<Longrightarrow> as \<noteq> [] \<Longrightarrow> packet h (pb_next (the (pbufs h a))) as"
  by (auto simp: packet_def)

lemma length_pdata_packet: "packet h p as \<Longrightarrow> length (pdata h as) < 65536"
  by (metis packet_head unat_u16_less)

lemma pchain_last: "pchain h p (as @ [a]) \<Longrightarrow> \<exists>b. pbufs h a = Some b \<and> pb_next b = 0"
  by (induction as arbitrary: p) auto

lemma pchain_functional: "pchain h p as \<Longrightarrow> pchain h p as' \<Longrightarrow> as = as'"
proof (induction as arbitrary: p as')
  case Nil
  then show ?case by simp
next
  case (Cons a as)
  then show ?case by (cases as') auto
qed

lemma pchain_append:
  "pchain h p (as @ bs) \<Longrightarrow> \<exists>q. pchain h q bs"
  by (induction as arbitrary: p) auto

lemma pchain_distinct: "pchain h p as \<Longrightarrow> distinct as"
proof (induction as arbitrary: p)
  case (Cons a as)
  have "a \<notin> set as"
  proof
    assume "a \<in> set as"
    then obtain xs ys where as: "as = xs @ a # ys" by (meson split_list)
    then have "pchain h p ((a # xs) @ a # ys)" using Cons.prems by simp
    then obtain q where q: "pchain h q (a # ys)" using pchain_append by blast
    have "pchain h q (a # as)" using q Cons.prems by simp
    then have "a # ys = a # as" using q pchain_functional by blast
    then show False using as by simp
  qed
  with Cons show ?case by auto
qed simp

section \<open>Counting and skipping\<close>

lemma pbuf_clen_loop_chain:
  "pchain h p as \<Longrightarrow> pbuf_clen_loop h p n = Some (n + word_of_nat (length as))"
proof (induction as arbitrary: p n)
  case Nil
  then show ?case by (subst pbuf_clen_loop.simps) simp
next
  case (Cons a as)
  then show ?case by (subst pbuf_clen_loop.simps) (auto simp: algebra_simps)
qed

lemma pbuf_skip_const_chain:
  assumes "pchain h q as"
  obtains pre as' q' off' where "pbuf_skip_const h q off = Some (q', off')" "as = pre @ as'"
    "pchain h q' as'" "unat off = length (pdata h pre) + unat off'"
    "as' \<noteq> [] \<Longrightarrow> unat off' < plen h q'"
proof -
  have "\<exists>pre as' q' off'. pbuf_skip_const h q off = Some (q', off') \<and> as = pre @ as' \<and>
    pchain h q' as' \<and> unat off = length (pdata h pre) + unat off' \<and> (as' \<noteq> [] \<longrightarrow> unat off' < plen h q')"
    using assms
  proof (induction as arbitrary: q off)
    case Nil
    then show ?case by (subst pbuf_skip_const.simps) simp
  next
    case (Cons a as)
    then obtain b where b: "q = a" "a \<noteq> 0" "pbufs h a = Some b" "pchain h (pb_next b) as" by auto
    show ?case
    proof (cases "len b \<le> off")
      case True
      obtain pre as' q' off' where IH: "pbuf_skip_const h (pb_next b) (off - len b) = Some (q', off')" "as = pre @ as'"
        "pchain h q' as'" "unat (off - len b) = length (pdata h pre) + unat off'" "as' \<noteq> [] \<longrightarrow> unat off' < plen h q'"
        using Cons.IH [OF b(4), of "off - len b"] by blast
      have "unat off = length (pdata h (a # pre)) + unat off'"
        using IH(4) True b by (simp add: plen_Some unat_sub_no_wrap word_le_nat_alt)
      moreover have "pbuf_skip_const h q off = Some (q', off')"
        using b True IH(1) by (subst pbuf_skip_const.simps) simp
      moreover have "a # as = (a # pre) @ as'" using IH(2) by simp
      ultimately show ?thesis using IH(3,5) by blast
    next
      case False
      then have "pbuf_skip_const h q off = Some (a, off)" using b by (subst pbuf_skip_const.simps) simp
      moreover have "unat off < plen h a" using b False by (simp add: plen_Some word_less_nat_alt not_le)
      moreover have "unat off = length (pdata h []) + unat off" "a # as = [] @ a # as" by simp_all
      ultimately show ?thesis using Cons.prems b(1) by blast
    qed
  qed
  then show thesis using that by blast
qed

lemma pbuf_try_get_at_chain:
  assumes "pchain h p as"
  shows "pbuf_try_get_at h p off =
     Some (if unat off < length (pdata h as) then uint (pdata h as ! unat off) else - 1)"
proof -
  obtain pre as' q' off' where s: "pbuf_skip_const h p off = Some (q', off')" "as = pre @ as'"
      "pchain h q' as'" "unat off = length (pdata h pre) + unat off'" and lt: "as' \<noteq> [] \<Longrightarrow> unat off' < plen h q'"
    using pbuf_skip_const_chain [OF assms] by metis
  show ?thesis
  proof (cases as')
    case Nil
    then show ?thesis using s by (simp add: pbuf_try_get_at_def)
  next
    case (Cons a as'')
    obtain b where b: "pbufs h q' = Some b" "a = q'" "q' \<noteq> 0"
      using s(3) unfolding Cons pchain.simps by blast
    have lt: "unat off' < plen h q'" using lt Cons by simp
    then have "off' < len b" using b(1) by (simp add: plen_Some word_less_nat_alt)
    moreover have "unat off < length (pdata h as)"
      using s(2,4) lt Cons b(2) by simp
    moreover have "pdata h as ! unat off = pbytes h q' ! unat off'"
      using s(2,4) lt Cons b(2) by (simp add: nth_append)
    then have "pdata h as ! unat off = bytes h (payload b + unat off')"
      using lt b(1) by (simp add: pbytes_def)
    ultimately show ?thesis using s(1) b by (simp add: pbuf_try_get_at_def)
  qed
qed

lemma pbuf_get_at_chain:
  assumes "pchain h p as"
  shows "pbuf_get_at h p off = Some (if unat off < length (pdata h as) then pdata h as ! unat off else 0)"
  using pbuf_try_get_at_chain [OF assms] by (simp add: pbuf_get_at_def)

section \<open>Comparing and searching\<close>

lemma pbuf_memcmp_loop_equal:
  assumes "pchain h q as" "unat start + n \<le> length (pdata h as)" "length (pdata h as) < 65536"
  shows "\<exists>r. pbuf_memcmp_loop h q start s2 n i = Some r \<and>
     (r = 0 \<longleftrightarrow> (\<forall>j. i \<le> j \<and> j < n \<longrightarrow> pdata h as ! (unat start + j) = bytes h (s2 + j)))"
proof (induction "n - i" arbitrary: i)
  case 0
  then show ?case by (subst pbuf_memcmp_loop.simps) auto
next
  case (Suc k)
  then have i: "i < n" by simp
  have st: "unat (start + word_of_nat i) = unat start + i"
    using i assms by (subst unat_add_no_wrap) simp_all
  have get: "pbuf_get_at h q (start + word_of_nat i) = Some (pdata h as ! (unat start + i))"
    using pbuf_get_at_chain [OF assms(1), of "start + word_of_nat i"] st i assms by simp
  show ?case
  proof (cases "pdata h as ! (unat start + i) = bytes h (s2 + i)")
    case True
    obtain r where r: "pbuf_memcmp_loop h q start s2 n (Suc i) = Some r"
        "r = 0 \<longleftrightarrow> (\<forall>j. Suc i \<le> j \<and> j < n \<longrightarrow> pdata h as ! (unat start + j) = bytes h (s2 + j))"
      using Suc.hyps(1) [of "Suc i"] Suc.hyps(2) by fastforce
    have "pbuf_memcmp_loop h q start s2 n i = Some r"
      using i get True r(1) by (subst pbuf_memcmp_loop.simps) simp
    moreover have "(\<forall>j. i \<le> j \<and> j < n \<longrightarrow> pdata h as ! (unat start + j) = bytes h (s2 + j)) \<longleftrightarrow>
        (\<forall>j. Suc i \<le> j \<and> j < n \<longrightarrow> pdata h as ! (unat start + j) = bytes h (s2 + j))"
      using True by (metis Suc_leD Suc_leI le_neq_implies_less)
    ultimately show ?thesis using r(2) by blast
  next
    case False
    have "pbuf_memcmp_loop h q start s2 n i = Some (word_of_nat (min (Suc i) 0xFFFF))"
      using i get False by (subst pbuf_memcmp_loop.simps) simp
    moreover have "unat (word_of_nat (min (Suc i) 0xFFFF) :: u16) = min (Suc i) 0xFFFF"
      by (rule unat_of_nat_u16) simp
    then have "word_of_nat (min (Suc i) 0xFFFF) \<noteq> (0 :: u16)"
      by (metis min_0R min.commute nat.distinct(1) unat_0 min_def zero_neq_numeral)
    ultimately show ?thesis using False i by auto
  qed
qed

text \<open>Whether a byte list contains another at an offset.\<close>

definition occurs_at :: "u8 list \<Rightarrow> nat \<Rightarrow> u8 list \<Rightarrow> bool" where
  "occurs_at xs i ys \<longleftrightarrow> i + length ys \<le> length xs \<and> take (length ys) (drop i xs) = ys"

lemma pbuf_memcmp_packet:
  assumes "packet h p as"
  shows "\<exists>r. pbuf_memcmp h p off s2 n = Some r \<and>
     (r = 0 \<longleftrightarrow> occurs_at (pdata h as) (unat off) (rd h s2 (unat n)))"
proof -
  obtain b as0 where b: "pbufs h p = Some b" "unat (tot_len b) = length (pdata h as)"
    using assms by (rule packet_head)
  have ch: "pchain h p as" using assms by (simp add: packet_def)
  show ?thesis
  proof (cases "length (pdata h as) < unat off + unat n")
    case True
    then show ?thesis using b by (simp add: pbuf_memcmp_def occurs_at_def)
  next
    case False
    obtain pre as' q' off' where s: "pbuf_skip_const h p off = Some (q', off')" "as = pre @ as'"
        "pchain h q' as'" "unat off = length (pdata h pre) + unat off'"
      using pbuf_skip_const_chain [OF ch] by metis
    have len: "length (pdata h as) = length (pdata h pre) + length (pdata h as')" "length (pdata h as) < 65536"
      using s(2) length_pdata_packet [OF assms] by simp_all
    obtain r where r: "pbuf_memcmp_loop h q' off' s2 (unat n) 0 = Some r"
        "r = 0 \<longleftrightarrow> (\<forall>j. 0 \<le> j \<and> j < unat n \<longrightarrow> pdata h as' ! (unat off' + j) = bytes h (s2 + j))"
      using pbuf_memcmp_loop_equal [OF s(3), of off' "unat n" s2 0] False s(4) len by auto
    have "pdata h as ! (unat off + j) = pdata h as' ! (unat off' + j)" for j
      using s(2,4) by (simp add: nth_append)
    then have "(\<forall>j<unat n. pdata h as' ! (unat off' + j) = bytes h (s2 + j)) \<longleftrightarrow>
        take (unat n) (drop (unat off) (pdata h as)) = rd h s2 (unat n)"
      using False by (auto simp: list_eq_iff_nth_eq)
    then show ?thesis using r s(1) b False by (simp add: pbuf_memcmp_def occurs_at_def)
  qed
qed

lemma occurs_at_empty: "occurs_at xs i [] \<longleftrightarrow> i \<le> length xs"
  by (simp add: occurs_at_def)

lemma pbuf_memfind_loop_first:
  assumes "packet h p as" "unat mem_len \<le> length (pdata h as)" "0 < unat mem_len"
  shows "pbuf_memfind_loop h p mem mem_len (word_of_nat (length (pdata h as) - unat mem_len)) i =
     Some (case find (\<lambda>j. occurs_at (pdata h as) j (rd h mem (unat mem_len)))
                  [unat i..<Suc (length (pdata h as) - unat mem_len)] of
             Some j \<Rightarrow> word_of_nat j | None \<Rightarrow> 0xFFFF)"
proof -
  let ?m = "length (pdata h as) - unat mem_len" and ?P = "\<lambda>j. occurs_at (pdata h as) j (rd h mem (unat mem_len))"
  have m: "?m < 65535" using length_pdata_packet [OF assms(1)] assms(3) by linarith
  show ?thesis
  proof (induction "Suc ?m - unat i" arbitrary: i)
    case 0
    then show ?case using m by (subst pbuf_memfind_loop.simps) (simp add: word_le_nat_alt)
  next
    case (Suc k)
    then have i: "unat i \<le> ?m" by simp
    have i1: "unat (i + 1) = Suc (unat i)" using i m by (subst unat_add_no_wrap) simp_all
    obtain r where r: "pbuf_memcmp h p i mem mem_len = Some r" "r = 0 \<longleftrightarrow> ?P (unat i)"
      using pbuf_memcmp_packet [OF assms(1)] by blast
    have up: "[unat i..<Suc ?m] = unat i # [Suc (unat i)..<Suc ?m]" using i by (simp add: upt_conv_Cons)
    have IH: "pbuf_memfind_loop h p mem mem_len (word_of_nat ?m) (i + 1) =
        Some (case find ?P [unat (i + 1)..<Suc ?m] of Some j \<Rightarrow> word_of_nat j | None \<Rightarrow> 0xFFFF)"
      using Suc i1 by (intro Suc.hyps) simp
    show ?case
      using r i m IH i1 unfolding up
      by (subst pbuf_memfind_loop.simps) (simp add: word_le_nat_alt del: upt_Suc)
  qed
qed

lemma pbuf_memfind_first:
  assumes "packet h p as" "0 < unat mem_len"
  shows "pbuf_memfind h p mem mem_len start =
     Some (case find (\<lambda>j. occurs_at (pdata h as) j (rd h mem (unat mem_len)))
                  [unat start..<length (pdata h as)] of
             Some j \<Rightarrow> word_of_nat j | None \<Rightarrow> 0xFFFF)"
proof -
  let ?P = "\<lambda>j. occurs_at (pdata h as) j (rd h mem (unat mem_len))"
  obtain b where b: "pbufs h p = Some b" "unat (tot_len b) = length (pdata h as)"
    using assms(1) by (rule packet_head)
  show ?thesis
  proof (cases "unat mem_len + unat start \<le> length (pdata h as)")
    case True
    define m where "m = length (pdata h as) - unat mem_len"
    have "tot_len b - mem_len = word_of_nat m"
      using b True unfolding m_def by (simp add: word_unat_eq_iff unat_sub_no_wrap length_pdata_packet [OF assms(1)])
    moreover have "find ?P [Suc m..<length (pdata h as)] = None"
      using True by (auto simp: find_None_iff occurs_at_def m_def)
    moreover have "unat start \<le> Suc m" "Suc m + (length (pdata h as) - Suc m) = length (pdata h as)"
      using True assms(2) by (auto simp: m_def)
    then have "[unat start..<length (pdata h as)] = [unat start..<Suc m] @ [Suc m..<length (pdata h as)]"
      by (metis upt_add_eq_append)
    then have "find ?P [unat start..<length (pdata h as)] =
        (case find ?P [unat start..<Suc m] of Some j \<Rightarrow> Some j | None \<Rightarrow> find ?P [Suc m..<length (pdata h as)])"
      by (simp add: find_append_eq del: upt_Suc)
    ultimately show ?thesis
      using b True assms pbuf_memfind_loop_first [OF assms(1), of mem_len mem start]
      by (simp add: pbuf_memfind_def Let_def m_def [symmetric] del: upt_Suc split: option.splits)
  next
    case False
    then have "find ?P [unat start..<length (pdata h as)] = None"
      by (auto simp: find_None_iff occurs_at_def)
    then show ?thesis using b False by (simp add: pbuf_memfind_def Let_def)
  qed
qed

lemma strlen_mem_c_string:
  assumes "\<forall>j < k. bytes h (s + j) \<noteq> 0" "bytes h (s + k) = 0" "i \<le> k"
  shows "strlen_mem h s i = Some k"
  using assms(3)
proof (induction i rule: inc_induct)
  case base
  then show ?case using assms by (subst strlen_mem.simps) simp
next
  case (step i)
  then show ?case using assms by (subst strlen_mem.simps) simp
qed

lemma pbuf_strstr_first:
  assumes "packet h p as" "length (pdata h as) < 65535" "substr \<noteq> 0"
    "\<forall>j < k. bytes h (substr + j) \<noteq> 0" "bytes h (substr + k) = 0" "0 < k" "k < 65535"
  shows "pbuf_strstr h p substr =
     Some (case find (\<lambda>j. occurs_at (pdata h as) j (rd h substr k)) [0..<length (pdata h as)] of
             Some j \<Rightarrow> word_of_nat j | None \<Rightarrow> 0xFFFF)"
proof -
  obtain b where b: "pbufs h p = Some b" "unat (tot_len b) = length (pdata h as)"
    using assms(1) by (rule packet_head)
  have "bytes h substr \<noteq> 0" using assms(4,6) by (metis add_0_right)
  moreover have "tot_len b \<noteq> 0xFFFF" using b assms(2) by (metis less_irrefl unat_numeral_u16)
  moreover have "strlen_mem h substr 0 = Some k" by (rule strlen_mem_c_string) (use assms in auto)
  ultimately show ?thesis
    using assms b pbuf_memfind_first [OF assms(1), of "word_of_nat k" substr 0]
    by (simp add: pbuf_strstr_def)
qed

section \<open>Copying out\<close>

lemma packet_region_Cons: "packet_region h (a # as) = payload_region h a \<union> packet_region h as"
  by (simp add: packet_region_def)

lemma packet_region_append: "packet_region h (as @ bs) = packet_region h as \<union> packet_region h bs"
  by (simp add: packet_region_def)

lemma take_drop_pbytes:
  "take k (drop off (pbytes h a)) = rd h (payload (the (pbufs h a)) + off) (min k (plen h a - off))"
  by (simp add: pbytes_def drop_rd take_rd)

lemma pbuf_copy_partial_loop_data:
  assumes "pchain h p as" "unat left + unat n < 65536"
    "packet_region h as \<inter> {dst + unat left..<dst + unat left + unat n} = {}"
  shows "pbuf_copy_partial_loop p dst n off left tot h =
     (let xs = take (unat n) (drop (unat off) (pdata h as))
      in Some (tot + word_of_nat (length xs), write_bytes (dst + unat left) xs h))"
  using assms
proof (induction as arbitrary: p n off left tot h)
  case Nil
  then show ?case by (subst pbuf_copy_partial_loop.simps) (simp add: Let_def)
next
  case (Cons a as)
  then obtain b where b: "p = a" "a \<noteq> 0" "pbufs h a = Some b" "pchain h (pb_next b) as" by auto
  have la: "plen h a = unat (len b)" "payload (the (pbufs h a)) = payload b" using b by (simp_all add: plen_Some)
  show ?case
  proof (cases "n = 0")
    case True
    then show ?thesis by (subst pbuf_copy_partial_loop.simps) (simp add: Let_def)
  next
    case n: False
    show ?thesis
    proof (cases "off \<noteq> 0 \<and> off \<ge> len b")
      case True
      then have "unat (len b) \<le> unat off" by (simp add: word_le_nat_alt)
      then have "drop (unat off) (pdata h (a # as)) = drop (unat (off - len b)) (pdata h as)"
        using la by (simp add: unat_sub_no_wrap)
      moreover have "pbuf_copy_partial_loop (pb_next b) dst n (off - len b) left tot h =
         (let xs = take (unat n) (drop (unat (off - len b)) (pdata h as))
          in Some (tot + word_of_nat (length xs), write_bytes (dst + unat left) xs h))"
        using Cons.prems b(4) by (intro Cons.IH) (auto simp: packet_region_Cons)
      ultimately show ?thesis using b n True
        by (subst pbuf_copy_partial_loop.simps) simp
    next
      case False
      have off: "unat off \<le> unat (len b)" using False by (auto simp: not_le word_less_nat_alt)
      define k where "k = (if len b - off > n then n else len b - off)"
      have lo: "unat (len b - off) = unat (len b) - unat off" using off by (rule unat_sub_no_wrap)
      have k: "unat k = min (unat n) (unat (len b) - unat off)"
        using lo by (auto simp: k_def word_less_nat_alt)
      define ys where "ys = rd h (payload b + unat off) (unat k)"
      define h1 where "h1 = write_bytes (dst + unat left) ys h"
      have kn: "unat k \<le> unat n" "unat (n - k) = unat n - unat k" "unat (left + k) = unat left + unat k"
        using k Cons.prems(2) by (simp, simp add: unat_sub_no_wrap, subst unat_add_no_wrap, simp_all)
      have data1: "pdata h1 as = pdata h as"
      proof -
        have "{dst + unat left..<dst + unat left + length ys} \<subseteq> {dst + unat left..<dst + unat left + unat n}"
          using kn(1) by (auto simp: ys_def)
        then have "packet_region h as \<inter> {dst + unat left..<dst + unat left + length ys} = {}"
          using Cons.prems(3) by (auto simp: packet_region_Cons)
        then show ?thesis unfolding h1_def by (rule pdata_write_outside)
      qed
      have IH: "pbuf_copy_partial_loop (pb_next b) dst (n - k) 0 (left + k) (tot + k) h1 =
         (let xs = take (unat (n - k)) (drop (unat (0 :: u16)) (pdata h1 as))
          in Some (tot + k + word_of_nat (length xs), write_bytes (dst + unat (left + k)) xs h1))"
        using Cons.prems b(4) kn by (intro Cons.IH) (auto simp: h1_def packet_region_Cons)
      let ?zs = "take (unat n - unat k) (pdata h as)"
      have xs: "take (unat n) (drop (unat off) (pdata h (a # as))) = ys @ ?zs"
      proof (cases "unat n \<le> unat (len b) - unat off")
        case True
        then show ?thesis using k la by (simp add: ys_def take_drop_pbytes)
      next
        case False
        then show ?thesis using k la off by (simp add: ys_def take_drop_pbytes pbytes_def drop_rd)
      qed
      have "write_bytes (dst + unat (left + k)) ?zs h1 = write_bytes (dst + unat left) (ys @ ?zs) h"
        using write_bytes_append [of "dst + unat left" ys ?zs h] kn(3) by (simp add: h1_def ys_def add.assoc)
      moreover have "tot + k + word_of_nat (length ?zs) = tot + word_of_nat (length (ys @ ?zs))"
        by (simp add: ys_def)
      ultimately have "pbuf_copy_partial_loop (pb_next b) dst (n - k) 0 (left + k) (tot + k) h1 =
          Some (tot + word_of_nat (length (ys @ ?zs)), write_bytes (dst + unat left) (ys @ ?zs) h)"
        using IH kn(2) data1 by (simp add: Let_def)
      moreover have "pbuf_copy_partial_loop p dst n off left tot h =
          pbuf_copy_partial_loop (pb_next b) dst (n - k) 0 (left + k) (tot + k) h1"
        using b n False
        by (subst pbuf_copy_partial_loop.simps)
           (simp add: k_def [symmetric] memcpy_write ys_def [symmetric] h1_def [symmetric] Let_def, blast)
      ultimately show ?thesis unfolding xs Let_def by simp
    qed
  qed
qed

lemma pbuf_copy_partial_data:
  assumes "pchain h p as" "dst \<noteq> 0" "packet_region h as \<inter> {dst..<dst + unat n} = {}"
  shows "pbuf_copy_partial p dst n off h =
     (let xs = take (unat n) (drop (unat off) (pdata h as))
      in Some (word_of_nat (length xs), write_bytes dst xs h))"
proof (cases "p = 0")
  case True
  then show ?thesis using assms by (simp add: pbuf_copy_partial_def Let_def)
next
  case False
  then show ?thesis
    using assms pbuf_copy_partial_loop_data [OF assms(1), of 0 n dst off 0]
    by (simp add: pbuf_copy_partial_def)
qed

lemma pbuf_get_contiguous_data:
  assumes "pchain h p as" "buffer \<noteq> 0" "unat n \<le> bufsize"
    "packet_region h as \<inter> {buffer..<buffer + unat n} = {}"
    "unat off + unat n \<le> length (pdata h as)" "unat off < length (pdata h as)"
    "\<forall>a \<in> set as. payload (the (pbufs h a)) \<noteq> 0"
  shows "\<exists>r h'. pbuf_get_contiguous p buffer bufsize n off h = Some (r, h') \<and> r \<noteq> 0 \<and>
     rd h' r (unat n) = take (unat n) (drop (unat off) (pdata h as)) \<and>
     (h' = h \<or> (\<exists>xs. length xs = unat n \<and> h' = write_bytes buffer xs h))"
proof -
  obtain pre as' q' off' where s: "pbuf_skip_const h p off = Some (q', off')" "as = pre @ as'"
      "pchain h q' as'" "unat off = length (pdata h pre) + unat off'" and lt: "as' \<noteq> [] \<Longrightarrow> unat off' < plen h q'"
    using pbuf_skip_const_chain [OF assms(1)] by metis
  have p: "p \<noteq> 0" using assms(1,6) by (cases as) auto
  have ne: "as' \<noteq> []" using s(2,4) assms(6) by auto
  then obtain as'' b where b: "as' = q' # as''" "pbufs h q' = Some b" "q' \<noteq> 0"
    using s(3) by (cases as') auto
  have data: "take (unat n) (drop (unat off) (pdata h as)) = take (unat n) (drop (unat off') (pdata h as'))"
    using s(2,4) by simp
  show ?thesis
  proof (cases "unat off' + unat n \<le> unat (len b)")
    case True
    then have "take (unat n) (drop (unat off') (pdata h as')) = rd h (payload b + unat off') (unat n)"
      using b by (simp add: take_drop_pbytes plen_Some)
    moreover have "payload b \<noteq> 0" using assms(7) s(2) b by auto
    moreover have "pbuf_get_contiguous p buffer bufsize n off h = Some (payload b + unat off', h)"
      using True p assms(2,3) s(1) b by (simp add: pbuf_get_contiguous_def)
    ultimately show ?thesis using data by auto
  next
    case False
    define xs where "xs = take (unat n) (drop (unat off') (pdata h as'))"
    have "packet_region h as' \<inter> {buffer..<buffer + unat n} = {}"
      using assms(4) s(2) by (auto simp: packet_region_append)
    then have "pbuf_copy_partial q' buffer n off' h = Some (word_of_nat (length xs), write_bytes buffer xs h)"
      using pbuf_copy_partial_data [OF s(3) assms(2)] by (simp add: xs_def Let_def)
    moreover have len: "length xs = unat n" using assms(5) s(2,4) by (simp add: xs_def)
    ultimately have "pbuf_get_contiguous p buffer bufsize n off h = Some (buffer, write_bytes buffer xs h)"
      using False p assms(2,3) s(1) b by (simp add: pbuf_get_contiguous_def)
    moreover have "rd (write_bytes buffer xs h) buffer (unat n) = xs"
      using rd_write_same [of buffer xs h] len by simp
    ultimately show ?thesis using assms(2) data len by (auto simp: xs_def [symmetric])
  qed
qed

end
