(* ===== verification/Pbuf_Write.thy ===== *)
theory Pbuf_Write
  imports Pbuf_Read
begin

text \<open>
  The functions of \<^verbatim>\<open>pbuf.c\<close> that write into the payloads of a packet: each changes the list of
  bytes of the packet as the corresponding list function does, and no byte of memory outside
  the packet's payloads.
\<close>

section \<open>Overwriting part of a list\<close>

definition overwrite :: "'a list \<Rightarrow> nat \<Rightarrow> 'a list \<Rightarrow> 'a list" where
  "overwrite xs k ys = take k xs @ ys @ drop (k + length ys) xs"

lemma overwrite_Nil [simp]: "overwrite xs k [] = xs"
  by (simp add: overwrite_def)

lemma length_overwrite [simp]: "k + length ys \<le> length xs \<Longrightarrow> length (overwrite xs k ys) = length xs"
  by (simp add: overwrite_def)

lemma overwrite_append2: "overwrite (xs @ ys) (length xs + k) zs = xs @ overwrite ys k zs"
  by (simp add: overwrite_def)

lemma overwrite_append1:
  "k + length zs \<le> length xs \<Longrightarrow> overwrite (xs @ ys) k zs = overwrite xs k zs @ ys"
  by (simp add: overwrite_def)

lemma overwrite_overwrite:
  assumes "k + length ys \<le> length xs"
  shows "overwrite (overwrite xs k ys) (k + length ys) zs = overwrite xs k (ys @ zs)"
  using assms by (cases ys) (auto simp: overwrite_def min_def ac_simps)

section \<open>What a write changes\<close>

definition disjoint_payloads :: "heap \<Rightarrow> nat list \<Rightarrow> bool" where
  "disjoint_payloads h as \<longleftrightarrow>
     (\<forall>a \<in> set as. \<forall>b \<in> set as. a \<noteq> b \<longrightarrow> payload_region h a \<inter> payload_region h b = {})"

text \<open>\<open>writes_only R h h'\<close>: \<open>h'\<close> is \<open>h\<close> up to the bytes at the addresses in \<open>R\<close>.\<close>

definition writes_only :: "nat set \<Rightarrow> heap \<Rightarrow> heap \<Rightarrow> bool" where
  "writes_only R h h' \<longleftrightarrow>
     pbufs h' = pbufs h \<and> heap_blocks h' = heap_blocks h \<and> pools h' = pools h \<and>
     pbuf_free_ooseq_pending h' = pbuf_free_ooseq_pending h \<and>
     (\<forall>x. x \<notin> R \<longrightarrow> bytes h' x = bytes h x)"

lemma writes_only_refl [simp]: "writes_only R h h"
  by (simp add: writes_only_def)

lemma writes_only_trans: "writes_only R h h1 \<Longrightarrow> writes_only R h1 h2 \<Longrightarrow> writes_only R h h2"
  by (simp add: writes_only_def)

lemma writes_only_mono: "writes_only R h h' \<Longrightarrow> R \<subseteq> S \<Longrightarrow> writes_only S h h'"
  by (auto simp: writes_only_def)

lemma writes_only_write: "{a..<a + length xs} \<subseteq> R \<Longrightarrow> writes_only R h (write_bytes a xs h)"
  by (auto simp: writes_only_def intro!: bytes_write_outside)

lemma writes_only_simps:
  assumes "writes_only R h h'"
  shows "pbufs h' = pbufs h" "plen h' = plen h" "payload_region h' = payload_region h"
    "packet_region h' = packet_region h" "pchain h' = pchain h" "pools h' = pools h"
    "heap_blocks h' = heap_blocks h"
proof -
  show p: "pbufs h' = pbufs h" and "pools h' = pools h" and "heap_blocks h' = heap_blocks h"
    using assms by (simp_all add: writes_only_def)
  show l: "plen h' = plen h" by (simp add: plen_def fun_eq_iff p)
  then show r: "payload_region h' = payload_region h" by (simp add: payload_region_def fun_eq_iff p)
  then show "packet_region h' = packet_region h" by (simp add: packet_region_def fun_eq_iff)
  have "pchain h' q as = pchain h q as" for q as by (induction as arbitrary: q) (simp_all add: p)
  then show "pchain h' = pchain h" by (simp add: fun_eq_iff)
qed

lemma writes_only_rd: "writes_only R h h' \<Longrightarrow> {a..<a + n} \<inter> R = {} \<Longrightarrow> rd h' a n = rd h a n"
  by (rule nth_equalityI) (auto simp: writes_only_def disjoint_iff)

lemma writes_only_pbytes:
  "writes_only R h h' \<Longrightarrow> payload_region h a \<inter> R = {} \<Longrightarrow> pbytes h' a = pbytes h a"
  by (simp add: pbytes_def writes_only_rd payload_region_def writes_only_simps)

lemma writes_only_pdata:
  "writes_only R h h' \<Longrightarrow> packet_region h as \<inter> R = {} \<Longrightarrow> pdata h' as = pdata h as"
  unfolding pdata_def packet_region_def
  by (intro arg_cong [where f = concat] map_cong refl writes_only_pbytes) auto

lemma length_pdata_cong: "plen h' = plen h \<Longrightarrow> length (pdata h' as) = length (pdata h as)"
  by (induction as) simp_all

lemma writes_only_totals: "writes_only R h h' \<Longrightarrow> totals_ok h' as = totals_ok h as"
  by (induction as) (simp_all add: length_pdata_cong [OF writes_only_simps(2)] writes_only_simps del: pdata_Cons)

lemma writes_only_packet: "writes_only R h h' \<Longrightarrow> packet h' p as = packet h p as"
  by (simp add: packet_def writes_only_totals writes_only_simps)

lemma disjoint_payloads_Cons:
  "disjoint_payloads h (a # as) \<Longrightarrow> a \<notin> set as \<Longrightarrow>
   disjoint_payloads h as \<and> payload_region h a \<inter> packet_region h as = {}"
  by (auto simp: disjoint_payloads_def packet_region_def)

lemma disjoint_payloads_subset: "set bs \<subseteq> set as \<Longrightarrow> disjoint_payloads h as \<Longrightarrow> disjoint_payloads h bs"
  unfolding disjoint_payloads_def by blast

lemma disjoint_payloads_append:
  assumes "disjoint_payloads h (as @ bs)" "distinct (as @ bs)"
  shows "packet_region h as \<inter> packet_region h bs = {}"
proof (rule equals0I)
  fix x assume "x \<in> packet_region h as \<inter> packet_region h bs"
  then obtain a b where ab: "a \<in> set as" "b \<in> set bs" "x \<in> payload_region h a" "x \<in> payload_region h b"
    by (auto simp: packet_region_def)
  then have "a \<noteq> b" using assms(2) by auto
  then have "payload_region h a \<inter> payload_region h b = {}"
    using assms(1) ab by (auto simp: disjoint_payloads_def)
  then show False using ab by blast
qed

lemma packet_head_fresh: "packet h q (q # as) \<Longrightarrow> q \<notin> set as"
  using pchain_distinct [of h q "q # as"] by (simp add: packet_def)

lemma writes_only_disjoint: "writes_only R h h' \<Longrightarrow> disjoint_payloads h' as = disjoint_payloads h as"
  by (simp add: disjoint_payloads_def writes_only_simps)

text \<open>A write into one buffer of a packet.\<close>

lemma pbytes_write_inside:
  assumes "k + length xs \<le> plen h a"
  shows "pbytes (write_bytes (payload (the (pbufs h a)) + k) xs h) a = overwrite (pbytes h a) k xs"
  using assms
  by (intro nth_equalityI) (auto simp: pbytes_def overwrite_def nth_append bytes_write)

lemma pdata_write_head:
  assumes "k + length xs \<le> plen h a" "payload_region h a \<inter> packet_region h as = {}"
  shows "pdata (write_bytes (payload (the (pbufs h a)) + k) xs h) (a # as) =
     overwrite (pdata h (a # as)) k xs"
proof -
  have "{payload (the (pbufs h a)) + k..<payload (the (pbufs h a)) + k + length xs} \<subseteq> payload_region h a"
    using assms(1) by (auto simp: payload_region_def)
  then have "packet_region h as \<inter> {payload (the (pbufs h a)) + k..<payload (the (pbufs h a)) + k + length xs} = {}"
    using assms(2) by blast
  then show ?thesis using assms(1)
    by (simp add: pdata_write_outside pbytes_write_inside overwrite_append1)
qed

lemma region_inside: "k + n \<le> plen h a \<Longrightarrow>
    {payload (the (pbufs h a)) + k..<payload (the (pbufs h a)) + k + n} \<subseteq> payload_region h a"
  by (auto simp: payload_region_def)

section \<open>Filling a packet\<close>

lemma pbuf_take_loop_data:
  assumes "pchain h p as" "disjoint_payloads h as" "n \<le> length (pdata h as)"
    "packet_region h as \<inter> {src + c..<src + c + n} = {}"
  shows "\<exists>h'. pbuf_take_loop p src n c h = Some (0, c + n, h') \<and>
     pdata h' as = overwrite (pdata h as) 0 (rd h (src + c) n) \<and> writes_only (packet_region h as) h h'"
  using assms
proof (induction as arbitrary: p n c h)
  case Nil
  then show ?case by (subst pbuf_take_loop.simps) simp
next
  case (Cons a as)
  then obtain b where b: "p = a" "a \<noteq> 0" "pbufs h a = Some b" "pchain h (pb_next b) as" by auto
  have la: "plen h a = unat (len b)" "payload (the (pbufs h a)) = payload b" using b by (simp_all add: plen_Some)
  have "a \<notin> set as" using pchain_distinct [OF Cons.prems(1)] by simp
  then have dj: "disjoint_payloads h as" "payload_region h a \<inter> packet_region h as = {}"
    using disjoint_payloads_Cons [OF Cons.prems(2)] by auto
  show ?case
  proof (cases "n = 0")
    case True
    then show ?thesis by (subst pbuf_take_loop.simps) (simp add: overwrite_def)
  next
    case False
    define k where "k = (if n > unat (len b) then unat (len b) else n)"
    define h1 where "h1 = write_bytes (payload b) (rd h (src + c) k) h"
    have k: "k \<le> n" "k \<le> plen h a" by (auto simp: k_def la)
    have w1: "writes_only (payload_region h a) h h1"
      unfolding h1_def using region_inside [of 0 k h a] k la by (intro writes_only_write) simp
    have d1: "pdata h1 (a # as) = overwrite (pdata h (a # as)) 0 (rd h (src + c) k)"
      unfolding h1_def using pdata_write_head [of 0 "rd h (src + c) k" h a as] k dj(2) la by simp
    have src1: "rd h1 (src + c + k) (n - k) = rd h (src + c + k) (n - k)"
      using w1 Cons.prems(4) k(1) by (intro writes_only_rd) (auto simp: packet_region_Cons disjoint_iff)
    have "\<exists>h'. pbuf_take_loop (pb_next b) src (n - k) (c + k) h1 = Some (0, c + k + (n - k), h') \<and>
       pdata h' as = overwrite (pdata h1 as) 0 (rd h1 (src + (c + k)) (n - k)) \<and>
       writes_only (packet_region h1 as) h1 h'"
    proof (rule Cons.IH)
      show "pchain h1 (pb_next b) as" using b w1 by (simp add: writes_only_simps)
      show "disjoint_payloads h1 as" using dj w1 by (simp add: writes_only_disjoint)
      have "length (pdata h1 as) = length (pdata h as)"
        using w1 by (intro length_pdata_cong) (simp add: writes_only_simps)
      then show "n - k \<le> length (pdata h1 as)" using Cons.prems(3) la by (auto simp: k_def)
      have "{src + (c + k)..<src + (c + k) + (n - k)} \<subseteq> {src + c..<src + c + n}" using k by auto
      then show "packet_region h1 as \<inter> {src + (c + k)..<src + (c + k) + (n - k)} = {}"
        using Cons.prems(4) w1 by (auto simp: writes_only_simps packet_region_Cons)
    qed
    then obtain h' where h': "pbuf_take_loop (pb_next b) src (n - k) (c + k) h1 = Some (0, c + n, h')"
        "pdata h' as = overwrite (pdata h1 as) 0 (rd h (src + c + k) (n - k))"
        "writes_only (packet_region h as) h1 h'"
      using k(1) w1 src1 by (auto simp: writes_only_simps add.assoc)
    have head: "pbytes h' a = pbytes h1 a"
      using h'(3) dj(2) w1 by (intro writes_only_pbytes) (auto simp: writes_only_simps)
    have xs: "rd h (src + c) k @ rd h (src + c + k) (n - k) = rd h (src + c) n"
      using k(1) by (intro nth_equalityI) (auto simp: nth_append add.assoc)
    have "pdata h' (a # as) = overwrite (pdata h (a # as)) 0 (rd h (src + c) n)"
    proof (cases "n \<le> unat (len b)")
      case True
      then have "k = n" by (simp add: k_def)
      then show ?thesis using h'(2) head d1 by simp
    next
      case False
      then have "k = plen h1 a" using la w1 by (simp add: k_def writes_only_simps)
      then have "pdata h' (a # as) = overwrite (pdata h1 (a # as)) k (rd h (src + c + k) (n - k))"
        using h'(2) head overwrite_append2 [of "pbytes h1 a" "pdata h1 as" 0] by simp
      also have "\<dots> = overwrite (pdata h (a # as)) 0 (rd h (src + c) k @ rd h (src + c + k) (n - k))"
        unfolding d1 using overwrite_overwrite [of 0 "rd h (src + c) k" "pdata h (a # as)"] k(2) by simp
      finally show ?thesis unfolding xs .
    qed
    moreover have "writes_only (packet_region h (a # as)) h h'"
      using writes_only_mono [OF w1] writes_only_mono [OF h'(3)] writes_only_trans
      by (metis packet_region_Cons sup_ge1 sup_ge2)
    moreover have "pbuf_take_loop p src n c h = Some (0, c + n, h')"
      using b False h'(1)
      by (subst pbuf_take_loop.simps) (simp add: k_def [symmetric] memcpy_write h1_def [symmetric] Let_def)
    ultimately show ?thesis by blast
  qed
qed

lemma pbuf_take_data:
  assumes "packet h p as" "disjoint_payloads h as" "src \<noteq> 0"
    "packet_region h as \<inter> {src..<src + unat n} = {}"
  shows "if unat n \<le> length (pdata h as)
     then \<exists>h'. pbuf_take p src n h = Some (ERR_OK, h') \<and>
            pdata h' as = overwrite (pdata h as) 0 (rd h src (unat n)) \<and>
            writes_only (packet_region h as) h h'
     else pbuf_take p src n h = Some (ERR_MEM, h)"
proof -
  obtain b where b: "pbufs h p = Some b" "unat (tot_len b) = length (pdata h as)" "p \<noteq> 0"
    using assms(1) by (rule packet_head)
  have n: "tot_len b \<ge> n \<longleftrightarrow> unat n \<le> length (pdata h as)" using b by (simp add: word_le_nat_alt)
  show ?thesis
  proof (cases "unat n \<le> length (pdata h as)")
    case True
    obtain h' where "pbuf_take_loop p src (unat n) 0 h = Some (0, 0 + unat n, h')"
        "pdata h' as = overwrite (pdata h as) 0 (rd h (src + 0) (unat n))" "writes_only (packet_region h as) h h'"
      using pbuf_take_loop_data [of h p as "unat n" src 0] assms True by (auto simp: packet_def)
    then show ?thesis using True b n assms(3) by (auto simp: pbuf_take_def)
  next
    case False
    then show ?thesis using b n assms(3) by (simp add: pbuf_take_def)
  qed
qed

text \<open>The buffer that \<^verbatim>\<open>pbuf_skip\<close> finds, in a packet with disjoint payloads.\<close>

lemma skip_packet:
  assumes "packet h p as" "disjoint_payloads h as"
  obtains (found) pre q as' off' b where "pbuf_skip h p off = Some (q, off')" "as = pre @ q # as'"
      "q \<noteq> 0" "pbufs h q = Some b" "pchain h (pb_next b) as'" "packet h q (q # as')"
      "unat off = length (pdata h pre) + unat off'" "unat off' < plen h q"
      "disjoint_payloads h (q # as')" "packet_region h pre \<inter> packet_region h (q # as') = {}"
  | (beyond) off' where "pbuf_skip h p off = Some (0, off')" "length (pdata h as) \<le> unat off"
proof -
  have ch: "pchain h p as" using assms by (simp add: packet_def)
  obtain pre as0 q off' where s: "pbuf_skip_const h p off = Some (q, off')" "as = pre @ as0"
      "pchain h q as0" "unat off = length (pdata h pre) + unat off'" and lt: "as0 \<noteq> [] \<Longrightarrow> unat off' < plen h q"
    using pbuf_skip_const_chain [OF ch] by metis
  show thesis
  proof (cases as0)
    case Nil
    then show thesis using beyond [of off'] s by (simp add: pbuf_skip_def)
  next
    case (Cons a as')
    then have a: "a = q" "q \<noteq> 0" using s(3) by auto
    obtain b where b: "pbufs h q = Some b" "pchain h (pb_next b) as'" using s(3) Cons by auto
    have "totals_ok h (pre @ as0) \<Longrightarrow> totals_ok h as0" by (induction pre) auto
    then have pk: "packet h q (q # as')" using assms(1) s(2,3) Cons a by (simp add: packet_def)
    have "distinct as" using ch by (rule pchain_distinct)
    then have "packet_region h pre \<inter> packet_region h (q # as') = {}"
      using disjoint_payloads_append [of h pre "q # as'"] assms(2) s(2) Cons a by simp
    moreover have "disjoint_payloads h (q # as')" using assms(2) s(2) Cons a by (auto simp: disjoint_payloads_def)
    ultimately show thesis using found [of q off' pre as' b] s lt Cons a b pk by (simp add: pbuf_skip_def)
  qed
qed

lemma writes_suffix:
  assumes "as = pre @ bs" "writes_only (packet_region h bs) h h'" "packet_region h pre \<inter> packet_region h bs = {}"
    "pdata h' bs = overwrite (pdata h bs) k xs"
  shows "pdata h' as = overwrite (pdata h as) (length (pdata h pre) + k) xs"
  using assms writes_only_pdata [OF assms(2,3)] by (simp add: overwrite_append2)

lemma pbuf_put_at_data:
  assumes "packet h p as" "disjoint_payloads h as"
  shows "\<exists>h'. pbuf_put_at p off x h = Some h' \<and> writes_only (packet_region h as) h h' \<and>
     pdata h' as = (if unat off < length (pdata h as) then (pdata h as)[unat off := x] else pdata h as)"
  using assms
proof (cases rule: skip_packet [of h p as off])
  case (found pre q as' off' b)
  let ?h = "write_bytes (payload b + unat off') [x] h"
  have pl: "payload (the (pbufs h q)) = payload b" using found(4) by simp
  have q: "h\<lparr>bytes := (bytes h)(payload b + unat off' := x)\<rparr> = ?h"
    unfolding write_bytes_def by (rule bytes_upd_cong) auto
  have "off' < len b" using found(4,8) by (simp add: plen_Some word_less_nat_alt)
  then have "pbuf_put_at p off x h = Some ?h"
    using found(1,3,4) q by (simp add: pbuf_put_at_def)
  moreover have "{payload b + unat off'..<payload b + unat off' + length [x]} \<subseteq> packet_region h (q # as')"
    using region_inside [of "unat off'" 1 h q] found(8) pl by (auto simp: packet_region_Cons)
  then have w: "writes_only (packet_region h (q # as')) h ?h" by (rule writes_only_write)
  moreover have "q \<notin> set as'" using found(6) by (rule packet_head_fresh)
  then have "payload_region h q \<inter> packet_region h as' = {}"
    using disjoint_payloads_Cons [OF found(9)] by blast
  then have "pdata ?h (q # as') = overwrite (pdata h (q # as')) (unat off') [x]"
    using pdata_write_head [of "unat off'" "[x]" h q as'] found(8) pl by simp
  then have "pdata ?h as = overwrite (pdata h as) (unat off) [x]"
    using writes_suffix [OF found(2) w found(10)] found(7) by simp
  moreover have lt: "unat off < length (pdata h as)" using found(2,7,8) by simp
  moreover have "overwrite (pdata h as) (unat off) [x] = (pdata h as)[unat off := x]"
    using lt by (simp add: overwrite_def upd_conv_take_nth_drop)
  ultimately show ?thesis
    using writes_only_mono [OF w, of "packet_region h as"] found(2) by (auto simp: packet_region_append)
next
  case (beyond off')
  then show ?thesis by (simp add: pbuf_put_at_def)
qed

lemma pbuf_take_at_data:
  assumes "packet h p as" "disjoint_payloads h as" "src \<noteq> 0"
    "packet_region h as \<inter> {src..<src + unat n} = {}"
  shows "if unat off < length (pdata h as) \<and> unat off + unat n \<le> length (pdata h as)
     then \<exists>h'. pbuf_take_at p src n off h = Some (ERR_OK, h') \<and>
            pdata h' as = overwrite (pdata h as) (unat off) (rd h src (unat n)) \<and>
            writes_only (packet_region h as) h h'
     else pbuf_take_at p src n off h = Some (ERR_MEM, h)"
  using assms(1,2)
proof (cases rule: skip_packet [of h p as off])
  case (beyond off')
  then show ?thesis by (simp add: pbuf_take_at_def)
next
  case (found pre q as' off' b)
  let ?r = "packet_region h (q # as')"
  have tl: "unat (tot_len b) = length (pdata h (q # as'))" using found(4,6) by (auto simp: packet_def)
  have lt: "off' < len b" using found(4,8) by (simp add: plen_Some word_less_nat_alt)
  have pl: "payload (the (pbufs h q)) = payload b" "plen h q = unat (len b)"
    using found(4) by (simp_all add: plen_Some)
  have qn: "q \<notin> set as'" using found(6) by (rule packet_head_fresh)
  have dj: "disjoint_payloads h as'" "payload_region h q \<inter> packet_region h as' = {}"
    using disjoint_payloads_Cons [OF found(9) qn] by auto
  have le: "unat off < length (pdata h as)" using found(2,7,8) by simp
  have tot: "unat off' + unat n \<le> unat (tot_len b) \<longleftrightarrow> unat off + unat n \<le> length (pdata h as)"
    using found(2,7) tl by simp
  show ?thesis
  proof (cases "unat off + unat n \<le> length (pdata h as)")
    case False
    then show ?thesis using found(1,3,4) tot by (simp add: pbuf_take_at_def)
  next
    case True
    define k where "k = min (unat (len b) - unat off') (unat n)"
    define h1 where "h1 = write_bytes (payload b + unat off') (rd h src k) h"
    have k: "k \<le> unat n" "unat off' + k \<le> plen h q" using found(8) pl by (auto simp: k_def)
    have w1: "writes_only (payload_region h q) h h1"
      unfolding h1_def using region_inside [OF k(2)] pl by (intro writes_only_write) simp
    have d1: "pdata h1 (q # as') = overwrite (pdata h (q # as')) (unat off') (rd h src k)"
      unfolding h1_def using pdata_write_head [of "unat off'" "rd h src k" h q as'] k(2) dj(2) pl by simp
    have rem: "unat (n - word_of_nat k) = unat n - k"
    proof -
      have "k < 65536" using k(1) unat_u16_less [of n] by linarith
      then show ?thesis using k(1) by (simp add: unat_sub_no_wrap)
    qed
    have step: "pbuf_take_at p src n off h =
        (if n - word_of_nat k > 0 then pbuf_take (pb_next b) (src + k) (n - word_of_nat k) h1 else Some (ERR_OK, h1))"
      using found(1,3,4) lt tot True
      by (simp add: pbuf_take_at_def k_def [symmetric] memcpy_write h1_def [symmetric] Let_def)
    have "\<exists>h'. pbuf_take_at p src n off h = Some (ERR_OK, h') \<and>
        pdata h' (q # as') = overwrite (pdata h (q # as')) (unat off') (rd h src (unat n)) \<and>
        writes_only (packet_region h (q # as')) h h'"
    proof (cases "unat n - k = 0")
      case True
      then have ku: "k = unat n" using k(1) by linarith
      then have "n - word_of_nat k = 0" by simp
      then show ?thesis using ku step d1 writes_only_mono [OF w1, of ?r] by (simp add: packet_region_Cons)
    next
      case False
      then have k2: "unat off' + k = plen h q" using pl k by (auto simp: k_def)
      have ne: "as' \<noteq> []" using True found(2,7) k2 k(1) False by auto
      have pk': "packet h1 (pb_next b) as'"
        using packet_tail [OF found(6) ne] found(4) w1 by (simp add: writes_only_packet)
      have sub: "{src + k..<src + k + (unat n - k)} \<subseteq> {src..<src + unat n}" using k(1) by auto
      have regs: "payload_region h q \<subseteq> packet_region h as" "packet_region h as' \<subseteq> packet_region h as"
        using found(2) by (auto simp: packet_region_append packet_region_Cons)
      have reg: "packet_region h1 as' \<inter> {src + k..<src + k + (unat n - k)} = {}"
        unfolding writes_only_simps [OF w1] using assms(4) sub regs(2) by blast
      have fits: "unat n - k \<le> length (pdata h1 as')"
        using True found(2,7) k2 length_pdata_cong [of h1 h as'] w1 by (simp add: writes_only_simps)
      have srck: "rd h1 (src + k) (unat n - k) = rd h (src + k) (unat n - k)"
        by (rule writes_only_rd [OF w1]) (use assms(4) sub regs(1) in blast)
      have "writes_only (packet_region h1 as') h1 h1" "disjoint_payloads h1 as'" "src + k \<noteq> 0"
        using dj(1) w1 assms(3) by (simp_all add: writes_only_disjoint)
      then obtain h' where h': "pbuf_take (pb_next b) (src + k) (n - word_of_nat k) h1 = Some (ERR_OK, h')"
          "pdata h' as' = overwrite (pdata h1 as') 0 (rd h (src + k) (unat n - k))"
          "writes_only (packet_region h as') h1 h'"
        using pbuf_take_data [OF pk', of "src + k" "n - word_of_nat k"] rem reg fits srck w1
        by (auto simp: writes_only_simps)
      have head: "pbytes h' q = pbytes h1 q"
        using h'(3) dj(2) w1 by (intro writes_only_pbytes) (auto simp: writes_only_simps)
      have "pdata h' (q # as') = overwrite (pdata h1 (q # as')) (unat off' + k) (rd h (src + k) (unat n - k))"
        using h'(2) head k2 overwrite_append2 [of "pbytes h1 q" "pdata h1 as'" 0] w1
        by (simp add: writes_only_simps)
      also have "\<dots> = overwrite (pdata h (q # as')) (unat off') (rd h src k @ rd h (src + k) (unat n - k))"
        unfolding d1 using overwrite_overwrite [of "unat off'" "rd h src k" "pdata h (q # as')"] k(2) by simp
      also have "rd h src k @ rd h (src + k) (unat n - k) = rd h src (unat n)"
        using k(1) by (intro nth_equalityI) (auto simp: nth_append)
      finally have "pdata h' (q # as') = overwrite (pdata h (q # as')) (unat off') (rd h src (unat n))" .
      moreover have "writes_only ?r h h'"
        using writes_only_mono [OF w1] writes_only_mono [OF h'(3)] writes_only_trans
        by (metis packet_region_Cons sup_ge1 sup_ge2)
      moreover have "n - word_of_nat k > 0" using False rem by (simp add: word_less_nat_alt)
      ultimately show ?thesis using step h'(1) by simp
    qed
    then obtain h' where h': "pbuf_take_at p src n off h = Some (ERR_OK, h')"
        "pdata h' (q # as') = overwrite (pdata h (q # as')) (unat off') (rd h src (unat n))"
        "writes_only ?r h h'"
      by blast
    have "pdata h' as = overwrite (pdata h as) (unat off) (rd h src (unat n))"
      using writes_suffix [OF found(2) h'(3) found(10) h'(2)] found(7) by simp
    moreover have "writes_only (packet_region h as) h h'"
      using writes_only_mono [OF h'(3)] found(2) by (simp add: packet_region_append)
    ultimately show ?thesis using h'(1) le True by auto
  qed
qed

section \<open>Copying between packets\<close>

text \<open>The function takes a buffer with \<^verbatim>\<open>len == tot_len\<close> and a successor for the end of a packet in
  a queue, so a packet with several buffers must not end in an empty one.\<close>

definition no_empty_tail :: "heap \<Rightarrow> nat list \<Rightarrow> bool" where
  "no_empty_tail h as \<longleftrightarrow> length as \<le> 1 \<or> 0 < plen h (last as)"

lemma no_empty_tail_tl: "no_empty_tail h (a # as) \<Longrightarrow> no_empty_tail h as"
  by (cases as) (auto simp: no_empty_tail_def)

lemma last_le_pdata: "as \<noteq> [] \<Longrightarrow> plen h (last as) \<le> length (pdata h as)"
  by (induction as) (auto split: if_splits)

lemma not_a_queue_ok:
  assumes "pchain h p as" "totals_ok h as" "no_empty_tail h as"
  shows "not_a_queue h p = Some True"
proof (cases as)
  case Nil
  then show ?thesis using assms by (simp add: not_a_queue_def)
next
  case (Cons a as')
  then obtain b where b: "p = a" "a \<noteq> 0" "pbufs h a = Some b" "pchain h (pb_next b) as'" using assms by auto
  have "len b = tot_len b \<Longrightarrow> as' = []"
  proof (rule ccontr)
    assume eq: "len b = tot_len b" and ne: "as' \<noteq> []"
    then have "length (pdata h as') = 0" using assms(2) Cons b(3) by (simp add: plen_Some)
    then show False using last_le_pdata [OF ne, of h] assms(3) Cons ne by (auto simp: no_empty_tail_def)
  qed
  then show ?thesis using b by (auto simp: not_a_queue_def)
qed

lemma totals_ok_tl: "totals_ok h (a # as) \<Longrightarrow> totals_ok h as"
  by simp

lemma u32_of_u16: "unat (ucast (x :: u16) :: u32) = unat x"
proof -
  have "unat x < 4294967296" using unat_u16_less [of x] by linarith
  then show ?thesis by (simp add: unsigned_ucast_eq take_bit_eq_mod)
qed

lemma u16_of_u32: "unat (x :: u32) < 65536 \<Longrightarrow> unat (ucast x :: u16) = unat x"
  by (simp add: unsigned_ucast_eq take_bit_eq_mod)

lemma copy_chunk_min:
  assumes "unat ot \<le> unat tlen" "unat off \<le> unat flen"
  shows "unat (copy_chunk tlen flen n ot off) = min (unat n) (min (unat tlen - unat ot) (unat flen - unat off))"
proof -
  have "unat (ucast tlen - ot) = unat tlen - unat ot" "unat (ucast flen - off) = unat flen - unat off"
    using assms by (simp_all add: unat_sub_no_wrap u32_of_u16)
  then show ?thesis
    by (auto simp: copy_chunk_def Let_def word_le_nat_alt word_less_nat_alt u32_of_u16)
qed

text \<open>Where the position \<open>k\<close> in the first buffer of \<open>as\<close> is, once it has reached the end of that
  buffer.\<close>

definition advance :: "heap \<Rightarrow> nat list \<Rightarrow> nat \<Rightarrow> nat list \<times> nat" where
  "advance h as k = (if k = plen h (hd as) then (tl as, 0) else (as, k))"

lemma advance_chain:
  assumes "pchain h p (a # as)" "pbufs h a = Some b" "k \<le> plen h a" "advance h (a # as) k = (as2, k2)"
    "totals_ok h (a # as)" "no_empty_tail h (a # as)" "disjoint_payloads h (a # as)"
  shows "pchain h (if k = unat (len b) then pb_next b else a) as2"
    "k2 = (if k = unat (len b) then 0 else k)"
    "drop k2 (pdata h as2) = drop k (pdata h (a # as))"
    "as2 \<noteq> [] \<Longrightarrow> k2 \<le> plen h (hd as2)" "totals_ok h as2" "no_empty_tail h as2"
    "disjoint_payloads h as2" "packet_region h as2 \<subseteq> packet_region h (a # as)"
    "k = plen h a \<Longrightarrow> as2 = as" "k \<noteq> plen h a \<Longrightarrow> as2 = a # as"
proof -
  have b: "plen h a = unat (len b)" using assms(2) by (rule plen_Some)
  show "pchain h (if k = unat (len b) then pb_next b else a) as2"
    "k2 = (if k = unat (len b) then 0 else k)"
    "drop k2 (pdata h as2) = drop k (pdata h (a # as))"
    "as2 \<noteq> [] \<Longrightarrow> k2 \<le> plen h (hd as2)" "totals_ok h as2"
    "packet_region h as2 \<subseteq> packet_region h (a # as)"
    "k = plen h a \<Longrightarrow> as2 = as" and as2: "k \<noteq> plen h a \<Longrightarrow> as2 = a # as"
    using assms b by (auto simp: advance_def packet_region_def split: if_splits)
  have "set as2 \<subseteq> set (a # as)" using assms(4) by (auto simp: advance_def split: if_splits)
  then show "disjoint_payloads h as2" using assms(7) by (rule disjoint_payloads_subset)
  show "no_empty_tail h as2"
    using assms no_empty_tail_tl [of h a as] by (auto simp: advance_def split: if_splits)
qed

lemma pbuf_copy_pbuf_step:
  assumes t: "pbufs h t = Some tb" and f: "pbufs h f = Some fb" "t \<noteq> 0" "f \<noteq> 0"
    and ot: "unat ot \<le> unat (len tb)" and off: "unat off \<le> unat (len fb)"
    and l: "l = copy_chunk (len tb) (len fb) n ot off"
  shows "pbuf_copy_pbuf_loop t f n ot off h =
     (let h1 = write_bytes (payload tb + unat ot) (rd h (payload fb + unat off) (unat l)) h;
          (f', off') = (if off + l = ucast (len fb) then (pb_next fb, 0) else (f, off + l));
          (t', ot') = (if ot + l = ucast (len tb) then (pb_next tb, 0) else (t, ot + l));
          n' = n - ucast l
      in if \<not> (f' \<noteq> 0 \<or> n' = 0) then Some (ERR_ARG, h1)
         else if \<not> (t' \<noteq> 0 \<or> n' = 0) then Some (ERR_ARG, h1)
         else do { from_ok \<leftarrow> not_a_queue h1 f';
                   if \<not> from_ok then Some (ERR_VAL, h1)
                   else do { to_ok \<leftarrow> not_a_queue h1 t';
                             if \<not> to_ok then Some (ERR_VAL, h1)
                             else if n' \<noteq> 0 then pbuf_copy_pbuf_loop t' f' n' ot' off' h1
                             else Some (ERR_OK, h1) } })"
proof -
  have ul: "unat l \<le> unat (len tb) - unat ot" "unat l \<le> unat (len fb) - unat off"
    using copy_chunk_min [OF ot off] l by simp_all
  have "unat ot + unat l < 4294967296" "unat off + unat l < 4294967296"
    using ul ot off unat_u16_less [of "len tb"] unat_u16_less [of "len fb"] by linarith+
  then have s: "unat (ot + l) = unat ot + unat l" "unat (off + l) = unat off + unat l"
    by (simp_all add: unat_add_no_wrap)
  have le: "ot + l \<le> ucast (len tb)" "off + l \<le> ucast (len fb)"
    using s ul ot off by (simp_all add: word_le_nat_alt u32_of_u16)
  have ge: "off + l \<ge> ucast (len fb) \<longleftrightarrow> off + l = ucast (len fb)"
    using le(2) by auto
  show ?thesis
    using t f le ge unfolding l
    by (subst pbuf_copy_pbuf_loop.simps) (simp add: Let_def memcpy_write)
qed

text \<open>A packet position from which \<open>n\<close> more bytes can be read or written.\<close>

definition copy_pos :: "heap \<Rightarrow> nat \<Rightarrow> nat list \<Rightarrow> nat \<Rightarrow> nat \<Rightarrow> bool" where
  "copy_pos h p as k n \<longleftrightarrow>
     pchain h p as \<and> as \<noteq> [] \<and> totals_ok h as \<and> no_empty_tail h as \<and> disjoint_payloads h as \<and>
     k \<le> plen h (hd as) \<and> n + k \<le> length (pdata h as)"

lemma copy_pos_head:
  assumes "copy_pos h p as k n"
  obtains b as' where "as = p # as'" "p \<noteq> 0" "pbufs h p = Some b" "k \<le> unat (len b)"
    "plen h p = unat (len b)"
  using assms by (cases as) (auto simp: copy_pos_def plen_Some)

lemma copy_pos_advance:
  assumes pos: "copy_pos h p (p # as) k (n + l)" and b: "pbufs h p = Some b" and l: "k + l \<le> unat (len b)"
    and adv: "advance h (p # as) (k + l) = (as2, k2)" and w: "writes_only R h h1"
  shows "not_a_queue h1 (if k + l = unat (len b) then pb_next b else p) = Some True"
    "n \<noteq> 0 \<Longrightarrow> copy_pos h1 (if k + l = unat (len b) then pb_next b else p) as2 k2 n"
proof -
  let ?q = "if k + l = unat (len b) then pb_next b else p"
  note a = advance_chain [of h p p as b "k + l" as2 k2]
  have pre: "pchain h p (p # as)" "totals_ok h (p # as)" "no_empty_tail h (p # as)" "disjoint_payloads h (p # as)"
      "k + l \<le> plen h p" "n + (k + l) \<le> length (pdata h (p # as))"
    using pos l b by (simp_all add: copy_pos_def plen_Some del: pdata_Cons)
  have c: "pchain h ?q as2" "drop k2 (pdata h as2) = drop (k + l) (pdata h (p # as))"
      "as2 \<noteq> [] \<Longrightarrow> k2 \<le> plen h (hd as2)" "totals_ok h as2" "no_empty_tail h as2" "disjoint_payloads h as2"
    using a(1,3,4,5,6,7) [OF pre(1) b pre(5) adv pre(2,3,4)] by auto
  have net: "no_empty_tail h1 as2 = no_empty_tail h as2" using w by (simp add: no_empty_tail_def writes_only_simps)
  show "not_a_queue h1 ?q = Some True"
    by (rule not_a_queue_ok [where as = as2])
       (use c net w in \<open>simp_all add: writes_only_simps writes_only_totals [OF w]\<close>)
  assume n: "n \<noteq> 0"
  have "n \<le> length (drop (k + l) (pdata h (p # as)))" using pre(6) by simp
  then have len: "n \<le> length (pdata h as2) - k2" unfolding c(2) [symmetric] by simp
  then have "as2 \<noteq> []" using n by auto
  then show "copy_pos h1 ?q as2 k2 n"
    using c len n net w
    by (simp add: copy_pos_def writes_only_simps writes_only_totals [OF w] writes_only_disjoint [OF w]
        length_pdata_cong [OF writes_only_simps(2) [OF w]])
qed

lemma overwrite_advance:
  assumes "advance h (p # as) k = (as2, k2)" "k \<le> plen h p" "plen h' = plen h"
    and rest: "pdata h' as2 = overwrite (pdata h as2) k2 zs" and head: "as2 = as \<Longrightarrow> pbytes h' p = pbytes h p"
  shows "pdata h' (p # as) = overwrite (pdata h (p # as)) k zs"
proof (cases "k = plen h p")
  case True
  then have "as2 = as" "k2 = 0" using assms(1) by (auto simp: advance_def)
  then show ?thesis using rest head True overwrite_append2 [of "pbytes h p" "pdata h as" 0] by simp
next
  case False
  then show ?thesis using assms by (auto simp: advance_def)
qed

lemma pbuf_copy_pbuf_loop_data:
  assumes "copy_pos h p_to ts (unat ot) (unat n)" "copy_pos h p_from fs (unat off) (unat n)"
    "packet_region h ts \<inter> packet_region h fs = {}"
  shows "\<exists>h'. pbuf_copy_pbuf_loop p_to p_from n ot off h = Some (ERR_OK, h') \<and>
     pdata h' ts = overwrite (pdata h ts) (unat ot) (take (unat n) (drop (unat off) (pdata h fs))) \<and>
     writes_only (packet_region h ts) h h'"
  using assms
proof (induction "length ts + length fs" arbitrary: p_to ts p_from fs ot off n h rule: less_induct)
  case less
  obtain tb ts' where t: "ts = p_to # ts'" "p_to \<noteq> 0" "pbufs h p_to = Some tb" "unat ot \<le> unat (len tb)"
      "plen h p_to = unat (len tb)" using less.prems(1) by (rule copy_pos_head)
  obtain fb fs' where f: "fs = p_from # fs'" "p_from \<noteq> 0" "pbufs h p_from = Some fb" "unat off \<le> unat (len fb)"
      "plen h p_from = unat (len fb)" using less.prems(2) by (rule copy_pos_head)
  define l where "l = copy_chunk (len tb) (len fb) n ot off"
  have ul: "unat l = min (unat n) (min (unat (len tb) - unat ot) (unat (len fb) - unat off))"
    unfolding l_def by (rule copy_chunk_min [OF t(4) f(4)])
  have l16: "unat l < 65536" using ul unat_u16_less [of n] by linarith
  define n' where "n' = n - ucast l"
  have n': "unat n' = unat n - unat l" unfolding n'_def using ul l16 by (simp add: unat_sub_no_wrap u16_of_u32)
  have nl: "unat n = unat n' + unat l" using n' ul by simp
  have sums: "unat ot + unat l \<le> unat (len tb)" "unat off + unat l \<le> unat (len fb)" using ul t(4) f(4) by simp_all
  have "unat ot + unat l < 4294967296" "unat off + unat l < 4294967296"
    using sums unat_u16_less [of "len tb"] unat_u16_less [of "len fb"] by linarith+
  then have uo: "unat (ot + l) = unat ot + unat l" "unat (off + l) = unat off + unat l"
    by (simp_all add: unat_add_no_wrap)
  define xs where "xs = rd h (payload fb + unat off) (unat l)"
  define h1 where "h1 = write_bytes (payload tb + unat ot) xs h"
  obtain ts2 ot2 where at: "advance h ts (unat ot + unat l) = (ts2, ot2)" by fastforce
  obtain fs2 off2 where af: "advance h fs (unat off + unat l) = (fs2, off2)" by fastforce
  define t2 where "t2 = (if unat ot + unat l = unat (len tb) then pb_next tb else p_to)"
  define f2 where "f2 = (if unat off + unat l = unat (len fb) then pb_next fb else p_from)"
  have eqs: "ot + l = ucast (len tb) \<longleftrightarrow> unat ot + unat l = unat (len tb)"
      "off + l = ucast (len fb) \<longleftrightarrow> unat off + unat l = unat (len fb)"
    using uo by (metis u32_of_u16 word_unat_eq_iff)+
  have w1: "writes_only (payload_region h p_to) h h1"
    unfolding h1_def xs_def using region_inside [of "unat ot" "unat l" h p_to] sums(1) t
    by (intro writes_only_write) simp
  have djt: "payload_region h p_to \<inter> packet_region h ts' = {}"
    using less.prems(1) t(1) disjoint_payloads_Cons [of h p_to ts'] pchain_distinct [of h p_to ts]
    by (simp add: copy_pos_def)
  have d1: "pdata h1 ts = overwrite (pdata h ts) (unat ot) xs"
    unfolding h1_def t(1) using pdata_write_head [of "unat ot" xs h p_to ts'] sums(1) t djt by (simp add: xs_def)
  have xs: "xs = take (unat l) (drop (unat off) (pdata h fs))"
    using take_drop_pbytes [of "unat l" "unat off" h p_from] f sums(2) by (simp add: xs_def)
  have posT: "copy_pos h p_to (p_to # ts') (unat ot) (unat n' + unat l)"
    and posF: "copy_pos h p_from (p_from # fs') (unat off) (unat n' + unat l)"
    using less.prems(1,2) t(1) f(1) nl by simp_all
  note qT = copy_pos_advance [OF posT t(3) sums(1) at [unfolded t(1)] w1, folded t2_def]
  note qF = copy_pos_advance [OF posF f(3) sums(2) af [unfolded f(1)] w1, folded f2_def]
  have w2: "word_of_nat ot2 = (if unat ot + unat l = unat (len tb) then 0 else ot + l)"
      "word_of_nat off2 = (if unat off + unat l = unat (len fb) then 0 else off + l)"
    using at af t(1,5) f(1,5) by (auto simp: advance_def split: if_splits)
  have nz: "n' \<noteq> 0 \<Longrightarrow> t2 \<noteq> 0" "n' \<noteq> 0 \<Longrightarrow> f2 \<noteq> 0"
    using qT(2) qF(2) by (auto elim: copy_pos_head)
  have step: "pbuf_copy_pbuf_loop p_to p_from n ot off h =
      (if n' \<noteq> 0 then pbuf_copy_pbuf_loop t2 f2 n' (word_of_nat ot2) (word_of_nat off2) h1 else Some (ERR_OK, h1))"
  proof -
    have "(if off + l = ucast (len fb) then (pb_next fb, 0) else (p_from, off + l)) = (f2, word_of_nat off2)"
      "(if ot + l = ucast (len tb) then (pb_next tb, 0) else (p_to, ot + l)) = (t2, word_of_nat ot2)"
      unfolding w2 eqs f2_def t2_def by simp_all
    then show ?thesis
      unfolding pbuf_copy_pbuf_step [OF t(3) f(3) t(2) f(2) t(4) f(4) l_def]
      using qT(1) qF(1) nz
      by (cases "n' = 0") (simp_all add: n'_def [symmetric] xs_def [symmetric] h1_def [symmetric] Let_def)
  qed
  have sub: "packet_region h ts2 \<subseteq> packet_region h ts" "packet_region h fs2 \<subseteq> packet_region h fs"
    using at af t(1) f(1) by (auto simp: advance_def packet_region_Cons split: if_splits)
  have tin: "payload_region h p_to \<subseteq> packet_region h ts" using t(1) by (simp add: packet_region_Cons)
  have fs1: "pdata h1 fs2 = pdata h fs2"
    by (rule writes_only_pdata [OF w1]) (use sub(2) tin less.prems(3) in blast)
  show ?case
  proof (cases "n' = 0")
    case True
    then have "unat l = unat n" using nl by simp
    then show ?thesis using True step d1 xs writes_only_mono [OF w1] t(1)
      by (simp add: packet_region_Cons)
  next
    case False
    let ?zs = "take (unat n') (drop (unat off + unat l) (pdata h fs))"
    have u2: "unat (word_of_nat ot2 :: u32) = ot2" "unat (word_of_nat off2 :: u32) = off2"
      using at af uo t(1) f(1) unfolding w2 by (auto simp: advance_def t(5) f(5) split: if_splits)
    have "unat n \<noteq> unat l" using False nl by auto
    then have "unat ot + unat l = unat (len tb) \<or> unat off + unat l = unat (len fb)" using ul sums by linarith
    then have dec: "length ts2 + length fs2 < length ts + length fs"
      using at af t f by (auto simp: advance_def split: if_splits)
    have "\<exists>h'. pbuf_copy_pbuf_loop t2 f2 n' (word_of_nat ot2) (word_of_nat off2) h1 = Some (ERR_OK, h') \<and>
        pdata h' ts2 = overwrite (pdata h1 ts2) (unat (word_of_nat ot2 :: u32))
          (take (unat n') (drop (unat (word_of_nat off2 :: u32)) (pdata h1 fs2))) \<and>
        writes_only (packet_region h1 ts2) h1 h'"
      by (rule less.hyps [OF dec])
         (use qT(2) qF(2) False u2 sub less.prems(3) in \<open>auto simp: writes_only_simps [OF w1]\<close>)
    then obtain h' where h': "pbuf_copy_pbuf_loop t2 f2 n' (word_of_nat ot2) (word_of_nat off2) h1 = Some (ERR_OK, h')"
        "pdata h' ts2 = overwrite (pdata h1 ts2) ot2 (take (unat n') (drop off2 (pdata h fs2)))"
        "writes_only (packet_region h ts2) h1 h'"
      using u2 fs1 by (auto simp: writes_only_simps [OF w1])
    have "drop off2 (pdata h fs2) = drop (unat off + unat l) (pdata h fs)"
      using af f(1,5) by (auto simp: advance_def split: if_splits)
    then have rest: "pdata h' ts2 = overwrite (pdata h1 ts2) ot2 ?zs" using h'(2) by simp
    have pl: "plen h1 = plen h" using w1 by (rule writes_only_simps)
    have "pdata h' (p_to # ts') = overwrite (pdata h1 (p_to # ts')) (unat ot + unat l) ?zs"
    proof (rule overwrite_advance [OF _ _ _ rest])
      show "advance h1 (p_to # ts') (unat ot + unat l) = (ts2, ot2)" using at t(1) pl by (simp add: advance_def)
      show "unat ot + unat l \<le> plen h1 p_to" using sums(1) t(5) pl by simp
      show "plen h' = plen h1" using h'(3) by (rule writes_only_simps)
      show "ts2 = ts' \<Longrightarrow> pbytes h' p_to = pbytes h1 p_to"
        using h'(3) djt by (intro writes_only_pbytes) (simp_all add: writes_only_simps [OF w1])
    qed
    then have "pdata h' ts = overwrite (pdata h ts) (unat ot) (xs @ ?zs)"
      using d1 t(1) overwrite_overwrite [of "unat ot" xs "pdata h ts" ?zs] sums(1) t(5) by (simp add: xs_def)
    moreover have "xs @ ?zs = take (unat n) (drop (unat off) (pdata h fs))"
      unfolding xs nl add.commute [of "unat n'"] take_add drop_drop by (simp add: add.commute)
    moreover have "writes_only (packet_region h ts) h h'"
      using writes_only_mono [OF w1 tin] writes_only_mono [OF h'(3) sub(1)] by (rule writes_only_trans)
    ultimately show ?thesis using step False h'(1) by simp
  qed
qed

lemma pbuf_copy_partial_pbuf_data:
  assumes "packet h p_to ts" "packet h p_from fs" "no_empty_tail h ts" "no_empty_tail h fs"
    "disjoint_payloads h ts" "disjoint_payloads h fs" "packet_region h ts \<inter> packet_region h fs = {}"
    "unat off \<le> plen h p_to"
  shows "if unat n \<le> length (pdata h fs) \<and> unat off + unat n \<le> length (pdata h ts)
     then \<exists>h'. pbuf_copy_partial_pbuf p_to p_from n off h = Some (ERR_OK, h') \<and>
            pdata h' ts = overwrite (pdata h ts) (unat off) (take (unat n) (pdata h fs)) \<and>
            writes_only (packet_region h ts) h h'
     else pbuf_copy_partial_pbuf p_to p_from n off h = Some (ERR_ARG, h)"
proof -
  obtain tb ts' where t: "pbufs h p_to = Some tb" "p_to \<noteq> 0" "unat (tot_len tb) = length (pdata h ts)" "ts = p_to # ts'"
    using assms(1) by (rule packet_head)
  obtain fb fs' where f: "pbufs h p_from = Some fb" "p_from \<noteq> 0" "unat (tot_len fb) = length (pdata h fs)" "fs = p_from # fs'"
    using assms(2) by (rule packet_head)
  show ?thesis
  proof (cases "unat n \<le> length (pdata h fs) \<and> unat off + unat n \<le> length (pdata h ts)")
    case True
    have "copy_pos h p_to ts (unat (ucast off :: u32)) (unat n)" "copy_pos h p_from fs (unat (0 :: u32)) (unat n)"
      using assms True t(4) f(4) by (simp_all add: copy_pos_def packet_def u32_of_u16 add.commute)
    from pbuf_copy_pbuf_loop_data [OF this assms(7)] show ?thesis
      using True t f by (auto simp: pbuf_copy_partial_pbuf_def u32_of_u16 word_le_nat_alt)
  next
    case False
    then show ?thesis using t f by (auto simp: pbuf_copy_partial_pbuf_def word_le_nat_alt)
  qed
qed

text \<open>With an offset beyond the first buffer of the target, \<^verbatim>\<open>p_to->len - offset_to\<close> wraps around: the
  function copies past the end of the first buffer and then runs into its assertion, even though
  the target packet is big enough.\<close>

lemma pbuf_copy_partial_pbuf_offset_wraps:
  assumes "packet h p_to ts" "packet h p_from fs"
    "unat n \<le> length (pdata h fs)" "unat off + unat n \<le> length (pdata h ts)" "plen h p_to < unat off"
  shows "pbuf_copy_partial_pbuf p_to p_from n off h = None"
proof -
  obtain tb ts' where t: "pbufs h p_to = Some tb" "p_to \<noteq> 0" "unat (tot_len tb) = length (pdata h ts)"
    using assms(1) by (rule packet_head)
  obtain fb fs' where f: "pbufs h p_from = Some fb" "p_from \<noteq> 0" "unat (tot_len fb) = length (pdata h fs)"
    using assms(2) by (rule packet_head)
  define l where "l = copy_chunk (len tb) (len fb) n (ucast off) 0"
  have "l \<le> ucast n" by (auto simp: l_def copy_chunk_def Let_def not_less)
  then have "unat l \<le> unat n" by (simp add: word_le_nat_alt u32_of_u16)
  then have "unat (ucast off :: u32) + unat l < 4294967296"
    unfolding u32_of_u16 using unat_u16_less [of n] unat_u16_less [of off] by linarith
  then have "unat (ucast off + l) = unat off + unat l" by (simp add: unat_add_no_wrap u32_of_u16)
  moreover have "unat (len tb) < unat off" using assms(5) t(1) by (simp add: plen_Some)
  ultimately have "\<not> ucast off + l \<le> ucast (len tb)" by (simp add: word_le_nat_alt u32_of_u16)
  then have "pbuf_copy_pbuf_loop p_to p_from n (ucast off) 0 h = None"
    using t f by (subst pbuf_copy_pbuf_loop.simps) (simp add: Let_def l_def [symmetric])
  then show ?thesis using t f assms(3,4) by (simp add: pbuf_copy_partial_pbuf_def word_le_nat_alt)
qed

lemma pbuf_copy_data:
  assumes "packet h p_to ts" "packet h p_from fs" "no_empty_tail h ts" "no_empty_tail h fs"
    "disjoint_payloads h ts" "disjoint_payloads h fs" "packet_region h ts \<inter> packet_region h fs = {}"
    "length (pdata h fs) \<le> length (pdata h ts)"
  shows "\<exists>h'. pbuf_copy p_to p_from h = Some (ERR_OK, h') \<and>
     pdata h' ts = overwrite (pdata h ts) 0 (pdata h fs) \<and> writes_only (packet_region h ts) h h'"
proof -
  obtain fb where f: "pbufs h p_from = Some fb" "p_from \<noteq> 0" "unat (tot_len fb) = length (pdata h fs)"
    using assms(2) by (rule packet_head)
  then show ?thesis
    using pbuf_copy_partial_pbuf_data [OF assms(1-7), of 0 "tot_len fb"] assms(8) by (simp add: pbuf_copy_def)
qed

end
