(* ===== verification/Pbuf_Own.thy ===== *)
theory Pbuf_Own
  imports Pbuf_Write
begin

text \<open>
  Ownership of the memory behind packet buffers. The heap invariant says where every live
  \<^verbatim>\<open>struct pbuf\<close> comes from (a pool element or a block of the C library's heap, exactly one
  buffer per element), that its payload lies inside that memory behind the structure, and that
  the pieces of memory do not overlap. Reference counting, deallocation and allocation keep it.
\<close>

section \<open>The heap invariant\<close>

datatype pbuf_owner = Own_custom | Own_pool | Own_memp | Own_heap | Own_none

definition pbuf_owner :: "pbuf \<Rightarrow> pbuf_owner" where
  "pbuf_owner b =
     (if pb_flags b AND PBUF_FLAG_IS_CUSTOM \<noteq> 0 then Own_custom
      else if pbuf_get_allocsrc b = 0x02 then Own_pool
      else if pbuf_get_allocsrc b = 0x01 then Own_memp
      else if pbuf_get_allocsrc b = 0x00 then Own_heap
      else Own_none)"

definition live :: "heap \<Rightarrow> pbuf_owner \<Rightarrow> nat set" where
  "live h k = {a. \<exists>b. pbufs h a = Some b \<and> pbuf_owner b = k}"

abbreviation (input) pool_pbuf_size :: nat where
  "pool_pbuf_size \<equiv> SIZEOF_STRUCT_PBUF + PBUF_POOL_BUFSIZE_ALIGNED"

text \<open>The end of the memory that holds the structure and its payload, for the two kinds of buffer
  that have both in one piece.\<close>

definition block_size :: "heap \<Rightarrow> nat \<Rightarrow> pbuf \<Rightarrow> nat" where
  "block_size h a b = (if pbuf_owner b = Own_pool then pool_pbuf_size else the (heap_blocks h a))"

definition layout_ok :: "heap \<Rightarrow> nat \<Rightarrow> pbuf \<Rightarrow> bool" where
  "layout_ok h a b \<longleftrightarrow>
     (pbuf_owner b = Own_pool \<or> pbuf_owner b = Own_heap \<longrightarrow>
        a + SIZEOF_STRUCT_PBUF \<le> payload b \<and> payload b + unat (len b) \<le> a + block_size h a b)"

definition pool_memory :: "memp_desc \<Rightarrow> nat set" where
  "pool_memory desc = (\<Union>a \<in> pool_elems desc. {a..<a + unat (desc_size desc)})"

definition blocks_ok :: "heap \<Rightarrow> bool" where
  "blocks_ok h \<longleftrightarrow>
     (\<forall>a n. heap_blocks h a = Some n \<longrightarrow>
        a \<noteq> 0 \<and> a mod 4 = 0 \<and> {a..<a + n} \<inter> pool_memory (pools h MEMP_PBUF_POOL) = {}) \<and>
     (\<forall>a n b m. heap_blocks h a = Some n \<and> heap_blocks h b = Some m \<and> a \<noteq> b \<longrightarrow>
        {a..<a + n} \<inter> {b..<b + m} = {})"

text \<open>At an address of a pool there is no buffer but one of that pool.\<close>

definition home_ok :: "heap \<Rightarrow> nat \<Rightarrow> pbuf \<Rightarrow> bool" where
  "home_ok h a b \<longleftrightarrow>
     (a \<in> pool_elems (pools h MEMP_PBUF_POOL) \<longrightarrow> pbuf_owner b = Own_pool) \<and>
     (a \<in> pool_elems (pools h MEMP_PBUF) \<longrightarrow> pbuf_owner b = Own_memp)"

definition heap_inv :: "heap \<Rightarrow> bool" where
  "heap_inv h \<longleftrightarrow>
     pool.holds (pools h MEMP_PBUF_POOL) (live h Own_pool) \<and>
     pool.holds (pools h MEMP_PBUF) (live h Own_memp) \<and>
     unat (desc_size (pools h MEMP_PBUF_POOL)) = pool_pbuf_size \<and>
     pool_elems (pools h MEMP_PBUF_POOL) \<inter> pool_elems (pools h MEMP_PBUF) = {} \<and>
     live h Own_heap \<subseteq> dom (heap_blocks h) \<and> live h Own_none = {} \<and> pbufs h 0 = None \<and>
     blocks_ok h \<and> (\<forall>a b. pbufs h a = Some b \<longrightarrow> layout_ok h a b \<and> home_ok h a b)"

text \<open>What the code relies on of \<^verbatim>\<open>malloc\<close>: the block is aligned and overlaps neither an
  allocated block nor the pool memory.\<close>

definition malloc_ok :: "pbuf_env \<Rightarrow> bool" where
  "malloc_ok e \<longleftrightarrow>
     (\<forall>h n. blocks_ok h \<and> libc_malloc e h n \<noteq> 0 \<longrightarrow>
        libc_malloc e h n mod 4 = 0 \<and> libc_malloc e h n \<notin> dom (heap_blocks h) \<and>
        pbufs h (libc_malloc e h n) = None \<and>
        libc_malloc e h n \<notin> pool_elems (pools h MEMP_PBUF_POOL) \<union> pool_elems (pools h MEMP_PBUF) \<and>
        {libc_malloc e h n..<libc_malloc e h n + n} \<inter> pool_memory (pools h MEMP_PBUF_POOL) = {} \<and>
        (\<forall>b m. heap_blocks h b = Some m \<longrightarrow>
           {libc_malloc e h n..<libc_malloc e h n + n} \<inter> {b..<b + m} = {}))"

text \<open>What it relies on of the \<^verbatim>\<open>custom_free_function\<close> of a custom buffer: it exists, takes the
  buffer back, and touches no other buffer, pool or block.\<close>

definition custom_free_ok :: "pbuf_env \<Rightarrow> bool" where
  "custom_free_ok e \<longleftrightarrow>
     (\<forall>p h b. pbufs h p = Some b \<and> pbuf_owner b = Own_custom \<longrightarrow>
        (\<exists>f. custom_free_function e p = Some f \<and> f h = Some (h\<lparr>pbufs := (pbufs h)(p := None)\<rparr>)))"

lemma owned_disjoint:
  assumes inv: "heap_inv h" and a: "pbufs h a = Some x" "pbuf_owner x = Own_pool \<or> pbuf_owner x = Own_heap"
    and b: "pbufs h b = Some y" "pbuf_owner y = Own_pool \<or> pbuf_owner y = Own_heap" and "a \<noteq> b"
  shows "payload_region h a \<inter> payload_region h b = {}"
proof -
  have sub: "payload_region h c \<subseteq> {c..<c + block_size h c z}"
    if "pbufs h c = Some z" "pbuf_owner z = Own_pool \<or> pbuf_owner z = Own_heap" for c z
  proof -
    have "layout_ok h c z" using inv that(1) by (auto simp: heap_inv_def)
    then show ?thesis using that by (auto simp: layout_ok_def payload_region_def plen_Some)
  qed
  have hb: "heap_blocks h c = Some (block_size h c z)"
    if "pbufs h c = Some z" "pbuf_owner z = Own_heap" for c z
    using inv that by (auto simp: heap_inv_def live_def block_size_def)
  have pe: "c \<in> pool_elems (pools h MEMP_PBUF_POOL)" "{c..<c + block_size h c z} \<subseteq> pool_memory (pools h MEMP_PBUF_POOL)"
    if "pbufs h c = Some z" "pbuf_owner z = Own_pool" for c z
    using inv that by (auto simp: heap_inv_def live_def block_size_def pool.holds_def pool_memory_def)
  have "{a..<a + block_size h a x} \<inter> {b..<b + block_size h b y} = {}"
  proof (cases "pbuf_owner x = Own_pool \<and> pbuf_owner y = Own_pool")
    case True
    then have "a \<in> pool_elems (pools h MEMP_PBUF_POOL)" "b \<in> pool_elems (pools h MEMP_PBUF_POOL)"
      using pe a b by auto
    then show ?thesis
      using pool_elems_apart [of a "pools h MEMP_PBUF_POOL" b] inv \<open>a \<noteq> b\<close> True
      by (auto simp: heap_inv_def block_size_def)
  next
    case False
    then show ?thesis
      using a b hb [of a x] hb [of b y] pe(2) [of a x] pe(2) [of b y] inv \<open>a \<noteq> b\<close>
      unfolding heap_inv_def blocks_ok_def by blast
  qed
  then show ?thesis using sub [OF a] sub [OF b] by blast
qed

lemma owned_chain_disjoint:
  assumes "heap_inv h"
    "\<forall>a \<in> set as. \<exists>b. pbufs h a = Some b \<and> (pbuf_owner b = Own_pool \<or> pbuf_owner b = Own_heap)"
  shows "disjoint_payloads h as"
  unfolding disjoint_payloads_def using assms owned_disjoint by meson

section \<open>Changing one buffer\<close>

lemma live_update:
  "live (h\<lparr>pbufs := (pbufs h)(a \<mapsto> b)\<rparr>) k =
     (if pbuf_owner b = k then insert a (live h k) else live h k - {a})"
  by (auto simp: live_def)

lemma live_remove: "live (h\<lparr>pbufs := (pbufs h)(a := None)\<rparr>) k = live h k - {a}"
  by (auto simp: live_def)

lemma layout_ok_cong:
  "heap_blocks h' = heap_blocks h \<Longrightarrow> layout_ok h' a b = layout_ok h a b"
  by (simp add: layout_ok_def block_size_def)

lemma blocks_ok_cong:
  "heap_blocks h' = heap_blocks h \<Longrightarrow> pools h' MEMP_PBUF_POOL = pools h MEMP_PBUF_POOL \<Longrightarrow>
   blocks_ok h' = blocks_ok h"
  by (simp add: blocks_ok_def)

lemma live_cong: "pbufs h' = pbufs h \<Longrightarrow> live h' k = live h k"
  by (simp add: live_def)

lemma heap_inv_same_owner:
  assumes inv: "heap_inv h" and a: "pbufs h a = Some b" and b': "pbuf_owner b' = pbuf_owner b"
    and l: "layout_ok h a b'"
  shows "heap_inv (h\<lparr>pbufs := (pbufs h)(a \<mapsto> b')\<rparr>)"
proof -
  let ?h = "h\<lparr>pbufs := (pbufs h)(a \<mapsto> b')\<rparr>"
  have lv: "live ?h k = live h k" for k using a b' by (auto simp: live_def)
  have "blocks_ok ?h = blocks_ok h" by (rule blocks_ok_cong) simp_all
  moreover have "layout_ok ?h c d = layout_ok h c d" for c d by (rule layout_ok_cong) simp
  moreover have "home_ok ?h c d = home_ok h c d" "home_ok h a b' = home_ok h a b" for c d
    using b' by (simp_all add: home_ok_def)
  moreover have "a \<noteq> 0"
  proof
    assume "a = 0"
    then show False using inv a by (simp add: heap_inv_def)
  qed
  ultimately show ?thesis using inv l a by (auto simp: heap_inv_def lv)
qed

text \<open>Updates of the link, the total length, the reference count or the flags' other bits.\<close>

lemma owner_upd [simp]:
  "pbuf_owner (b\<lparr>pb_next := n\<rparr>) = pbuf_owner b" "pbuf_owner (b\<lparr>tot_len := t\<rparr>) = pbuf_owner b"
  "pbuf_owner (b\<lparr>pb_ref := r\<rparr>) = pbuf_owner b" "pbuf_owner (b\<lparr>len := l\<rparr>) = pbuf_owner b"
  "pbuf_owner (b\<lparr>payload := p\<rparr>) = pbuf_owner b" "pbuf_owner (b\<lparr>if_idx := i\<rparr>) = pbuf_owner b"
  by (simp_all add: pbuf_owner_def pbuf_get_allocsrc_def)

lemma layout_upd [simp]:
  "layout_ok h a (b\<lparr>pb_next := n\<rparr>) = layout_ok h a b" "layout_ok h a (b\<lparr>tot_len := t\<rparr>) = layout_ok h a b"
  "layout_ok h a (b\<lparr>pb_ref := r\<rparr>) = layout_ok h a b" "layout_ok h a (b\<lparr>if_idx := i\<rparr>) = layout_ok h a b"
  by (simp_all add: layout_ok_def block_size_def)

lemma heap_inv_layout: "heap_inv h \<Longrightarrow> pbufs h a = Some b \<Longrightarrow> layout_ok h a b"
  by (simp add: heap_inv_def)

lemma heap_inv_ooseq [simp]: "heap_inv (h\<lparr>pbuf_free_ooseq_pending := f\<rparr>) = heap_inv h"
  by (simp add: heap_inv_def live_def blocks_ok_def layout_ok_def block_size_def home_ok_def)

lemma heap_inv_writes: "writes_only R h h' \<Longrightarrow> heap_inv h' = heap_inv h"
  unfolding writes_only_def heap_inv_def live_def blocks_ok_def layout_ok_def block_size_def home_ok_def by simp

section \<open>Deallocation\<close>

lemma pool_size_kept:
  "do_memp_free_pool desc a = Some desc' \<Longrightarrow> desc_size desc' = desc_size desc \<and> pool_elems desc' = pool_elems desc"
  "do_memp_malloc_pool desc = Some (a, desc'') \<Longrightarrow> desc_size desc'' = desc_size desc \<and> pool_elems desc'' = pool_elems desc"
  by (auto simp: do_memp_free_pool_def do_memp_malloc_pool_def Let_def split: if_splits)

lemma memp_free_holds:
  assumes "pool.holds (ps type) used" "p \<in> used"
  shows "\<exists>d. memp_free ps type p = Some (ps(type := d)) \<and> pool.holds d (used - {p}) \<and>
     desc_size d = desc_size (ps type) \<and> pool_elems d = pool_elems (ps type)"
proof -
  have "p \<noteq> 0" using assms pool.elems_nonnull [of "ps type"] by (auto simp: pool.holds_def)
  then show ?thesis
    using pool.release_holds [OF assms] pool_size_kept(1) by (fastforce simp: memp_free_def)
qed

lemma pool_memory_cong:
  "desc_size d = desc_size d' \<Longrightarrow> pool_elems d = pool_elems d' \<Longrightarrow> pool_memory d = pool_memory d'"
  by (simp add: pool_memory_def)

lemma heap_inv_remove:
  assumes inv: "heap_inv h" and pb: "pbufs h' = (pbufs h)(p := None)"
    and holds: "pool.holds (pools h' MEMP_PBUF_POOL) (live h Own_pool - {p})"
      "pool.holds (pools h' MEMP_PBUF) (live h Own_memp - {p})"
    and desc: "desc_size (pools h' MEMP_PBUF_POOL) = desc_size (pools h MEMP_PBUF_POOL)"
      "pool_elems (pools h' MEMP_PBUF_POOL) = pool_elems (pools h MEMP_PBUF_POOL)"
      "pool_elems (pools h' MEMP_PBUF) = pool_elems (pools h MEMP_PBUF)"
    and hb: "heap_blocks h' = heap_blocks h \<or> heap_blocks h' = (heap_blocks h)(p := None)"
  shows "heap_inv h'"
proof -
  have lv: "live h' k = live h k - {p}" for k using pb by (auto simp: live_def)
  have sub: "heap_blocks h' a = Some n \<Longrightarrow> heap_blocks h a = Some n" for a n
    using hb by (auto split: if_splits)
  have "blocks_ok h'"
    using inv sub unfolding heap_inv_def blocks_ok_def pool_memory_cong [OF desc(1,2)] by metis
  moreover have "layout_ok h' a b \<and> home_ok h' a b" if "pbufs h' a = Some b" for a b
  proof -
    have "a \<noteq> p" "layout_ok h a b" "home_ok h a b"
      using that pb inv by (auto simp: heap_inv_def split: if_splits)
    moreover then have "heap_blocks h' a = heap_blocks h a" using hb by auto
    ultimately show ?thesis using desc by (simp add: layout_ok_def block_size_def home_ok_def)
  qed
  moreover have "live h Own_heap - {p} \<subseteq> dom (heap_blocks h')"
  proof -
    have "live h Own_heap \<subseteq> dom (heap_blocks h)" using inv by (simp add: heap_inv_def)
    then show ?thesis using hb by (auto split: if_splits)
  qed
  ultimately show ?thesis using inv holds desc pb by (simp add: heap_inv_def lv)
qed

lemma pbuf_dealloc_frees:
  assumes inv: "heap_inv h" and p: "pbufs h p = Some b" and e: "custom_free_ok e"
  shows "\<exists>h'. pbuf_dealloc e p b h = Some h' \<and> heap_inv h' \<and> pbufs h' = (pbufs h)(p := None) \<and>
     bytes h' = bytes h"
proof -
  have holds: "pool.holds (pools h MEMP_PBUF_POOL) (live h Own_pool)" "pool.holds (pools h MEMP_PBUF) (live h Own_memp)"
    using inv by (simp_all add: heap_inv_def)
  have other: "live h k - {p} = live h k" if "k \<noteq> pbuf_owner b" for k using p that by (auto simp: live_def)
  have mine: "p \<in> live h (pbuf_owner b)" using p by (auto simp: live_def)
  have custom: "pb_flags b AND PBUF_FLAG_IS_CUSTOM \<noteq> 0 \<longleftrightarrow> pbuf_owner b = Own_custom"
    by (simp add: pbuf_owner_def)
  show ?thesis
  proof (cases "pbuf_owner b")
    case Own_custom
    obtain f where f: "custom_free_function e p = Some f" "f h = Some (h\<lparr>pbufs := (pbufs h)(p := None)\<rparr>)"
      using e p Own_custom unfolding custom_free_ok_def by blast
    have "heap_inv (h\<lparr>pbufs := (pbufs h)(p := None)\<rparr>)"
      by (rule heap_inv_remove [OF inv, where p = p]) (use holds other Own_custom in simp_all)
    then show ?thesis using f custom Own_custom by (simp add: pbuf_dealloc_def)
  next
    case Own_pool
    then have c: "pbuf_get_allocsrc b = 2" by (auto simp: pbuf_owner_def split: if_splits)
    obtain d where d: "memp_free (pools h) MEMP_PBUF_POOL p = Some ((pools h)(MEMP_PBUF_POOL := d))"
        "pool.holds d (live h Own_pool - {p})" "desc_size d = desc_size (pools h MEMP_PBUF_POOL)"
        "pool_elems d = pool_elems (pools h MEMP_PBUF_POOL)"
      using memp_free_holds [of "pools h" MEMP_PBUF_POOL "live h Own_pool" p, OF holds(1)] mine Own_pool by auto
    have "heap_inv (h\<lparr>pools := (pools h)(MEMP_PBUF_POOL := d), pbufs := (pbufs h)(p := None)\<rparr>)"
      by (rule heap_inv_remove [OF inv, where p = p]) (use d holds other Own_pool in simp_all)
    then show ?thesis using d c custom Own_pool by (simp add: pbuf_dealloc_def)
  next
    case Own_memp
    then have c: "pbuf_get_allocsrc b = 1" by (auto simp: pbuf_owner_def split: if_splits)
    obtain d where d: "memp_free (pools h) MEMP_PBUF p = Some ((pools h)(MEMP_PBUF := d))"
        "pool.holds d (live h Own_memp - {p})" "pool_elems d = pool_elems (pools h MEMP_PBUF)"
      using memp_free_holds [of "pools h" MEMP_PBUF "live h Own_memp" p, OF holds(2)] mine Own_memp by auto
    have "heap_inv (h\<lparr>pools := (pools h)(MEMP_PBUF := d), pbufs := (pbufs h)(p := None)\<rparr>)"
      by (rule heap_inv_remove [OF inv, where p = p]) (use d holds other Own_memp in simp_all)
    then show ?thesis using d c custom Own_memp by (simp add: pbuf_dealloc_def)
  next
    case Own_heap
    then have c: "pbuf_get_allocsrc b = 0" by (auto simp: pbuf_owner_def split: if_splits)
    have p': "p \<in> dom (heap_blocks h)" using inv mine Own_heap by (auto simp: heap_inv_def)
    then have "p \<noteq> 0" "p mod 4 = 0" using inv by (auto simp: heap_inv_def blocks_ok_def)
    then have "mem_free p h = Some (h\<lparr>heap_blocks := (heap_blocks h)(p := None)\<rparr>)"
      using p' by (auto simp: mem_free_def LWIP_MEM_ALIGN_def)
    moreover have "heap_inv (h\<lparr>heap_blocks := (heap_blocks h)(p := None), pbufs := (pbufs h)(p := None)\<rparr>)"
      by (rule heap_inv_remove [OF inv, where p = p]) (use holds other Own_heap in simp_all)
    ultimately show ?thesis using c custom Own_heap by (simp add: pbuf_dealloc_def)
  next
    case Own_none
    then show ?thesis using inv mine by (simp add: heap_inv_def)
  qed
qed

text \<open>What \<^verbatim>\<open>pbuf_free\<close> does to the buffers of a chain: those at its head that nobody else
  refers to go, and the first one that has another reference loses one.\<close>

definition freed_prefix :: "(nat \<rightharpoonup> pbuf) \<Rightarrow> nat list \<Rightarrow> nat list" where
  "freed_prefix m as = takeWhile (\<lambda>a. pb_ref (the (m a)) = 1) as"

definition release_refs :: "(nat \<rightharpoonup> pbuf) \<Rightarrow> nat list \<Rightarrow> (nat \<rightharpoonup> pbuf)" where
  "release_refs m as =
     (\<lambda>a. if a \<in> set (freed_prefix m as) then None
          else if length (freed_prefix m as) < length as \<and> a = as ! length (freed_prefix m as)
          then map_option (\<lambda>b. b\<lparr>pb_ref := pb_ref b - 1\<rparr>) (m a)
          else m a)"

lemma release_refs_Nil [simp]: "release_refs m [] = m"
  by (simp add: release_refs_def freed_prefix_def fun_eq_iff)

lemma freed_prefix_cong:
  "(\<And>a. a \<in> set as \<Longrightarrow> m a = m' a) \<Longrightarrow> freed_prefix m as = freed_prefix m' as"
  unfolding freed_prefix_def by (rule takeWhile_cong) auto

lemma release_refs_Cons:
  assumes "m a = Some b" "a \<notin> set as"
  shows "release_refs m (a # as) =
     (if pb_ref b = 1 then release_refs (m(a := None)) as else m(a \<mapsto> b\<lparr>pb_ref := pb_ref b - 1\<rparr>))"
proof (cases "pb_ref b = 1")
  case True
  have pre: "freed_prefix (m(a := None)) as = freed_prefix m as"
    using assms(2) by (intro freed_prefix_cong) auto
  have "freed_prefix m (a # as) = a # freed_prefix m as" using assms(1) True by (simp add: freed_prefix_def)
  moreover have "length (freed_prefix m as) < length as \<Longrightarrow> as ! length (freed_prefix m as) \<in> set as" by simp
  ultimately show ?thesis using True assms(2) unfolding release_refs_def pre by (auto simp: fun_eq_iff)
next
  case False
  then show ?thesis using assms by (simp add: release_refs_def freed_prefix_def fun_eq_iff)
qed

lemma pchain_cong:
  "(\<And>a. a \<in> set as \<Longrightarrow> map_option pb_next (pbufs h' a) = map_option pb_next (pbufs h a)) \<Longrightarrow>
   pchain h' p as = pchain h p as"
proof (induction as arbitrary: p)
  case (Cons a as)
  have "map_option pb_next (pbufs h' a) = map_option pb_next (pbufs h a)" by (rule Cons.prems) simp
  moreover have "pchain h' q as = pchain h q as" for q using Cons by simp
  ultimately show ?case by (cases "pbufs h' a"; cases "pbufs h a") auto
qed simp

lemma pbuf_free_loop_chain:
  assumes "pchain h p as" "heap_inv h" "\<forall>a \<in> set as. 0 < pb_ref (the (pbufs h a))" "custom_free_ok e"
  shows "\<exists>h'. pbuf_free_loop e p c h = Some (c + word_of_nat (length (freed_prefix (pbufs h) as)), h') \<and>
     heap_inv h' \<and> bytes h' = bytes h \<and> pbufs h' = release_refs (pbufs h) as"
  using assms(1-3)
proof (induction as arbitrary: p c h)
  case Nil
  then show ?case by (subst pbuf_free_loop.simps) (simp add: freed_prefix_def)
next
  case (Cons a as)
  then obtain b where b: "p = a" "a \<noteq> 0" "pbufs h a = Some b" "pchain h (pb_next b) as" by auto
  have na: "a \<notin> set as" using pchain_distinct [OF Cons.prems(1)] by simp
  have ref: "0 < pb_ref b" using Cons.prems(3) b by simp
  let ?b = "b\<lparr>pb_ref := pb_ref b - 1\<rparr>" and ?h = "h\<lparr>pbufs := (pbufs h)(a \<mapsto> b\<lparr>pb_ref := pb_ref b - 1\<rparr>)\<rparr>"
  have inv: "heap_inv ?h"
    using Cons.prems(2) b(3) heap_inv_layout by (intro heap_inv_same_owner [where b = b]) auto
  show ?case
  proof (cases "pb_ref b = 1")
    case False
    then have "pb_ref b - 1 \<noteq> 0" by simp
    then have "pbuf_free_loop e p c h = Some (c, ?h)" using b ref by (subst pbuf_free_loop.simps) simp
    then show ?thesis using inv False release_refs_Cons [of "pbufs h" a b as] b(3) na
      by (simp add: freed_prefix_def fun_upd_def)
  next
    case True
    obtain h1 where h1: "pbuf_dealloc e a ?b ?h = Some h1" "heap_inv h1" "pbufs h1 = (pbufs h)(a := None)"
        "bytes h1 = bytes h"
      using pbuf_dealloc_frees [OF inv _ assms(4), of a ?b] by auto
    have "pchain h1 (pb_next b) as" using b(4) na h1(3) by (subst pchain_cong [of _ h1 h]) auto
    moreover have "\<forall>x \<in> set as. 0 < pb_ref (the (pbufs h1 x))" using Cons.prems(3) na h1(3) by auto
    ultimately obtain h' where h': "pbuf_free_loop e (pb_next b) (c + 1) h1 =
          Some (c + 1 + word_of_nat (length (freed_prefix (pbufs h1) as)), h')"
        "heap_inv h'" "bytes h' = bytes h1" "pbufs h' = release_refs (pbufs h1) as"
      using Cons.IH [OF _ h1(2), of "pb_next b" "c + 1"] by blast
    have "freed_prefix (pbufs h1) as = freed_prefix (pbufs h) as"
      by (rule freed_prefix_cong) (use na h1(3) in auto)
    then have "freed_prefix (pbufs h) (a # as) = a # freed_prefix (pbufs h1) as"
      using True b(3) by (simp add: freed_prefix_def)
    moreover have "pbuf_free_loop e p c h = pbuf_free_loop e (pb_next b) (c + 1) h1"
      using b ref True h1(1) by (subst pbuf_free_loop.simps) simp
    ultimately show ?thesis using h' h1 True release_refs_Cons [of "pbufs h" a b as] b(3) na
      by (simp add: algebra_simps)
  qed
qed

lemma pbuf_free_chain:
  assumes "pchain h p as" "as \<noteq> []" "heap_inv h" "\<forall>a \<in> set as. 0 < pb_ref (the (pbufs h a))" "custom_free_ok e"
  shows "\<exists>h'. pbuf_free e p h = Some (word_of_nat (length (freed_prefix (pbufs h) as)), h') \<and>
     heap_inv h' \<and> bytes h' = bytes h \<and> pbufs h' = release_refs (pbufs h) as"
proof -
  have "p \<noteq> 0" using assms(1,2) by (cases as) auto
  then show ?thesis using pbuf_free_loop_chain [OF assms(1,3,4,5), of 0] by (simp add: pbuf_free_def)
qed

lemma release_refs_all:
  assumes "\<forall>a \<in> set as. pb_ref (the (m a)) = 1"
  shows "freed_prefix m as = as" "release_refs m as = (\<lambda>a. if a \<in> set as then None else m a)"
proof -
  show "freed_prefix m as = as" using assms by (simp add: freed_prefix_def takeWhile_eq_all_conv)
  then show "release_refs m as = (\<lambda>a. if a \<in> set as then None else m a)"
    by (simp add: release_refs_def fun_eq_iff)
qed

lemma pbuf_ref_incr:
  assumes "heap_inv h" "pbufs h p = Some b" "pb_ref b \<noteq> 255"
  shows "\<exists>h'. pbuf_ref p h = Some h' \<and> heap_inv h' \<and> h' = h\<lparr>pbufs := (pbufs h)(p \<mapsto> b\<lparr>pb_ref := pb_ref b + 1\<rparr>)\<rparr>"
proof -
  have "p \<noteq> 0"
  proof
    assume "p = 0"
    then show False using assms(1,2) by (simp add: heap_inv_def)
  qed
  moreover have "pb_ref b + 1 \<noteq> 0" using assms(3) by (metis add.right_neutral add_diff_cancel_right' diff_0 minus_one_word_255)
  then have "0 < pb_ref b + 1" by (simp add: word_gt_0)
  moreover have "heap_inv (h\<lparr>pbufs := (pbufs h)(p \<mapsto> b\<lparr>pb_ref := pb_ref b + 1\<rparr>)\<rparr>)"
    using assms heap_inv_layout by (intro heap_inv_same_owner [where b = b]) auto
  ultimately show ?thesis using assms(2) by (simp add: pbuf_ref_def Let_def)
qed

section \<open>Allocation\<close>

lemma heap_inv_add:
  assumes inv: "heap_inv h" and p: "pbufs h p = None" "p \<noteq> 0" and pb: "pbufs h' = (pbufs h)(p \<mapsto> b)"
    and holds: "pool.holds (pools h' MEMP_PBUF_POOL) (if pbuf_owner b = Own_pool then insert p (live h Own_pool) else live h Own_pool)"
      "pool.holds (pools h' MEMP_PBUF) (if pbuf_owner b = Own_memp then insert p (live h Own_memp) else live h Own_memp)"
    and desc: "desc_size (pools h' MEMP_PBUF_POOL) = desc_size (pools h MEMP_PBUF_POOL)"
      "pool_elems (pools h' MEMP_PBUF_POOL) = pool_elems (pools h MEMP_PBUF_POOL)"
      "pool_elems (pools h' MEMP_PBUF) = pool_elems (pools h MEMP_PBUF)"
    and hb: "blocks_ok h'" "\<And>a. a \<noteq> p \<Longrightarrow> heap_blocks h' a = heap_blocks h a"
      "heap_blocks h p \<noteq> None \<Longrightarrow> heap_blocks h' p \<noteq> None"
    and b: "pbuf_owner b = Own_heap \<Longrightarrow> p \<in> dom (heap_blocks h')" "pbuf_owner b \<noteq> Own_none"
      "layout_ok h' p b" "home_ok h' p b"
  shows "heap_inv h'"
proof -
  have lv: "live h' k = (if pbuf_owner b = k then insert p (live h k) else live h k)" for k
    using pb p(1) by (auto simp: live_def)
  have "layout_ok h' a c \<and> home_ok h' a c" if "pbufs h' a = Some c" for a c
  proof (cases "a = p")
    case True
    then show ?thesis using that b pb by simp
  next
    case False
    then have "layout_ok h a c" "home_ok h a c" using that inv pb by (auto simp: heap_inv_def)
    then show ?thesis using hb(2) [OF False] desc by (simp add: layout_ok_def block_size_def home_ok_def)
  qed
  moreover have "live h' Own_heap \<subseteq> dom (heap_blocks h')"
  proof
    fix a assume "a \<in> live h' Own_heap"
    then have "a = p \<and> pbuf_owner b = Own_heap \<or> a \<in> live h Own_heap \<and> a \<noteq> p"
      using p(1) pb by (auto simp: live_def split: if_splits)
    moreover have "a \<in> live h Own_heap \<Longrightarrow> a \<in> dom (heap_blocks h)" using inv by (auto simp: heap_inv_def)
    ultimately show "a \<in> dom (heap_blocks h')" using b(1) hb(2) [of a] by (auto simp: dom_def)
  qed
  ultimately show ?thesis using inv holds desc hb(1) b(2) p pb by (simp add: heap_inv_def lv)
qed

lemma memp_malloc_free:
  assumes "pool.holds (ps type) used" "used \<noteq> pool_elems (ps type)"
  shows "\<exists>a d. memp_malloc ps type = Some (a, ps(type := d)) \<and> a \<noteq> 0 \<and> a \<notin> used \<and> pool.holds d (insert a used) \<and>
     pool_elems d = pool_elems (ps type)"
  using assms(1)
proof (cases rule: pool.alloc_cases)
  case full
  then show ?thesis using assms by simp
next
  case (got a d)
  then show ?thesis by (auto simp: memp_malloc_def)
qed

lemma memp_malloc_holds:
  assumes "pool.holds (ps type) used"
  shows "memp_malloc ps type = Some (0, ps) \<or>
     (\<exists>a d. memp_malloc ps type = Some (a, ps(type := d)) \<and> a \<noteq> 0 \<and> a \<in> pool_elems (ps type) - used \<and>
        a mod 4 = 0 \<and> pool.holds d (insert a used) \<and> desc_size d = desc_size (ps type) \<and>
        pool_elems d = pool_elems (ps type))"
  using assms
proof (cases rule: pool.alloc_cases)
  case full
  then show ?thesis by (simp add: memp_malloc_def)
next
  case (got a d)
  have "a mod 4 = 0" using assms got(4) pool_elems_aligned by (auto simp: pool.holds_def pool_inv_def)
  then show ?thesis using got pool_size_kept(2) [OF got(1)] by (auto simp: memp_malloc_def)
qed

lemma owner_of_type:
  "pbuf_owner \<lparr>pb_next = 0, payload = pl, tot_len = t, len = l, type_internal = ucast (pbuf_type_val type),
     pb_flags = 0, pb_ref = 1, if_idx = 0\<rparr> =
   (case type of PBUF_POOL \<Rightarrow> Own_pool | PBUF_RAM \<Rightarrow> Own_heap | _ \<Rightarrow> Own_memp)"
  by (cases type) (simp_all add: pbuf_owner_def pbuf_get_allocsrc_def)

lemma pbuf_alloc_reference_spec:
  assumes inv: "heap_inv h" and type: "type = PBUF_REF \<or> type = PBUF_ROM"
  shows "\<exists>r h'. pbuf_alloc_reference pl n type h = Some (r, h') \<and> heap_inv h' \<and> bytes h' = bytes h \<and>
     (if r = 0 then h' = h
      else pbufs h r = None \<and>
        (\<exists>b. pbufs h' = (pbufs h)(r \<mapsto> b) \<and> payload b = pl \<and> len b = n \<and> tot_len b = n \<and> pb_ref b = 1 \<and> pb_next b = 0))"
proof -
  have holds: "pool.holds (pools h MEMP_PBUF) (live h Own_memp)" "pool.holds (pools h MEMP_PBUF_POOL) (live h Own_pool)"
    using inv by (simp_all add: heap_inv_def)
  consider "memp_malloc (pools h) MEMP_PBUF = Some (0, pools h)" |
    a d where "memp_malloc (pools h) MEMP_PBUF = Some (a, (pools h)(MEMP_PBUF := d))" "a \<noteq> 0"
      "a \<in> pool_elems (pools h MEMP_PBUF) - live h Own_memp" "pool.holds d (insert a (live h Own_memp))"
      "pool_elems d = pool_elems (pools h MEMP_PBUF)"
    using memp_malloc_holds [of "pools h" MEMP_PBUF, OF holds(1)] by blast
  then show ?thesis
  proof cases
    case 1
    then show ?thesis using type inv by (auto simp: pbuf_alloc_reference_def)
  next
    case (2 a d)
    have fresh: "pbufs h a = None"
    proof (cases "pbufs h a")
      case (Some b)
      then have "home_ok h a b" using inv by (simp add: heap_inv_def)
      then show ?thesis using 2(3) Some by (auto simp: home_ok_def live_def)
    qed simp
    let ?h = "pbuf_init_alloced_pbuf a pl n n type 0 (h\<lparr>pools := (pools h)(MEMP_PBUF := d)\<rparr>)"
    have own: "(case type of PBUF_POOL \<Rightarrow> Own_pool | PBUF_RAM \<Rightarrow> Own_heap | _ \<Rightarrow> Own_memp) = Own_memp"
      using type by auto
    have notpool: "a \<notin> pool_elems (pools h MEMP_PBUF_POOL)" using 2(3) inv by (auto simp: heap_inv_def)
    have "heap_inv ?h"
      by (rule heap_inv_add [OF inv fresh 2(2)])
         (use 2 holds inv own notpool in \<open>auto simp: pbuf_init_alloced_pbuf_def owner_of_type layout_ok_def home_ok_def
            heap_inv_def blocks_ok_def\<close>)
    then show ?thesis using 2 type fresh
      by (auto simp: pbuf_alloc_reference_def pbuf_init_alloced_pbuf_def)
  qed
qed

text \<open>Two heaps with the same view of a buffer's payload, and the linking of two chains.\<close>

definition same_payload :: "heap \<Rightarrow> heap \<Rightarrow> nat \<Rightarrow> bool" where
  "same_payload h h' a \<longleftrightarrow>
     (\<exists>b b'. pbufs h a = Some b \<and> pbufs h' a = Some b' \<and> payload b' = payload b \<and> len b' = len b)"

lemma same_payload_plen: "same_payload h h' a \<Longrightarrow> plen h' a = plen h a"
  by (auto simp: same_payload_def plen_Some)

lemma pdata_cong:
  assumes "bytes h' = bytes h" "\<forall>a \<in> set as. same_payload h h' a"
  shows "pdata h' as = pdata h as"
  using assms
proof (induction as)
  case (Cons a as)
  then obtain b b' where "pbufs h a = Some b" "pbufs h' a = Some b'" "payload b' = payload b" "len b' = len b"
    by (auto simp: same_payload_def)
  then have "pbytes h' a = pbytes h a" using assms(1) by (simp add: pbytes_def rd_def plen_Some)
  then show ?case using Cons by simp
qed simp

lemma packet_region_cong: "\<forall>a \<in> set as. same_payload h h' a \<Longrightarrow> packet_region h' as = packet_region h as"
  unfolding packet_region_def payload_region_def same_payload_def plen_def by (intro SUP_cong refl) force

lemma pchain_join:
  assumes "pchain h p as" "as \<noteq> []" "pchain h' t bs"
    "\<forall>a \<in> set as. \<exists>x x'. pbufs h a = Some x \<and> pbufs h' a = Some x' \<and>
       pb_next x' = (if a = last as then t else pb_next x)"
  shows "pchain h' p (as @ bs)"
  using assms
proof (induction as arbitrary: p)
  case (Cons a as)
  obtain x x' where x: "pbufs h a = Some x" "pbufs h' a = Some x'" "pb_next x' = (if a = last (a # as) then t else pb_next x)"
    using Cons.prems(4) by auto
  have a: "p = a" "a \<noteq> 0" "pchain h (pb_next x) as" using Cons.prems(1) x(1) by auto
  show ?case
  proof (cases "as = []")
    case True
    then show ?thesis using a x Cons.prems(3) by simp
  next
    case False
    have "a \<notin> set as" using pchain_distinct [OF Cons.prems(1)] by simp
    then have "a \<noteq> last (a # as)" using False by (metis last.simps last_in_set)
    moreover have "pchain h' (pb_next x) (as @ bs)"
      using Cons.IH [OF a(3) False Cons.prems(3)] Cons.prems(4) False by simp
    ultimately show ?thesis using a x by simp
  qed
qed simp

fun totals_plus :: "heap \<Rightarrow> nat list \<Rightarrow> nat \<Rightarrow> bool" where
  "totals_plus h [] r \<longleftrightarrow> True"
| "totals_plus h (a # as) r \<longleftrightarrow>
     unat (tot_len (the (pbufs h a))) = length (pdata h (a # as)) + r \<and> totals_plus h as r"

lemma totals_plus_0: "totals_plus h as 0 = totals_ok h as"
  by (induction as) auto

lemma totals_plus_append:
  "totals_plus h (as @ bs) r \<longleftrightarrow> totals_plus h as (length (pdata h bs) + r) \<and> totals_plus h bs r"
  by (induction as) auto

lemma totals_plus_cong:
  assumes "bytes h' = bytes h" "\<forall>a \<in> set as. same_payload h h' a"
    "\<forall>a \<in> set as. tot_len (the (pbufs h' a)) = tot_len (the (pbufs h a))"
  shows "totals_plus h' as r = totals_plus h as r"
  using assms(2,3)
proof (induction as)
  case (Cons a as)
  then have "pdata h' (a # as) = pdata h (a # as)" using pdata_cong [OF assms(1)] by blast
  then show ?case using Cons by simp
qed simp

section \<open>Fresh packets\<close>

text \<open>\<open>fresh_packet m h r as n\<close>: \<open>r\<close> is a packet of \<open>n\<close> bytes of new buffers, each referenced once;
  the other buffers are those of \<open>m\<close>.\<close>

definition fresh_packet :: "(nat \<rightharpoonup> pbuf) \<Rightarrow> heap \<Rightarrow> nat \<Rightarrow> nat list \<Rightarrow> nat \<Rightarrow> bool" where
  "fresh_packet m h r as n \<longleftrightarrow>
     packet h r as \<and> length (pdata h as) = n \<and> no_empty_tail h as \<and>
     set as \<inter> dom m = {} \<and> (\<forall>a. a \<notin> set as \<longrightarrow> pbufs h a = m a) \<and>
     (\<forall>a \<in> set as. \<exists>b. pbufs h a = Some b \<and> pb_ref b = 1 \<and>
        (pbuf_owner b = Own_pool \<or> pbuf_owner b = Own_heap))"

lemma align_bounds: "n \<le> LWIP_MEM_ALIGN n" "LWIP_MEM_ALIGN n < n + 4"
  unfolding LWIP_MEM_ALIGN_def by presburger+

lemma align_add: "p mod 4 = 0 \<Longrightarrow> LWIP_MEM_ALIGN (p + n) = p + LWIP_MEM_ALIGN n"
  unfolding LWIP_MEM_ALIGN_def by presburger

lemma layer_small: "unat (pbuf_layer_val l) \<le> 54"
  by (cases l) simp_all

lemma align_dvd: "4 dvd LWIP_MEM_ALIGN n"
  by (simp add: LWIP_MEM_ALIGN_def)

lemma blocks_ok_malloc:
  assumes "blocks_ok h" "malloc_ok e" "libc_malloc e h n = p" "p \<noteq> 0"
  shows "blocks_ok (h\<lparr>heap_blocks := (heap_blocks h)(p \<mapsto> n), pbufs := x\<rparr>)"
proof -
  have m: "p mod 4 = 0" "{p..<p + n} \<inter> pool_memory (pools h MEMP_PBUF_POOL) = {}"
      "\<And>b m. heap_blocks h b = Some m \<Longrightarrow> {p..<p + n} \<inter> {b..<b + m} = {}"
    using assms(2) [unfolded malloc_ok_def, rule_format, of h n] assms(1,4) unfolding assms(3) by auto
  show ?thesis
    using assms(1,4) m(1,2) m(3) unfolding blocks_ok_def
    by (auto split: if_splits)
qed

lemma pbuf_alloc_ram_spec:
  assumes inv: "heap_inv h" and m: "malloc_ok e"
  shows "\<exists>r h'. pbuf_alloc e layer n PBUF_RAM h = Some (r, h') \<and> heap_inv h' \<and> bytes h' = bytes h \<and>
     (if r = 0 then h' = h else fresh_packet (pbufs h) h' r [r] (unat n))"
proof -
  let ?off = "unat (pbuf_layer_val layer)"
  define pll where "pll = LWIP_MEM_ALIGN ?off + LWIP_MEM_ALIGN (unat n)"
  have off: "LWIP_MEM_ALIGN ?off < 58" using align_bounds(2) [of ?off] layer_small [of layer] by linarith
  have nn: "LWIP_MEM_ALIGN (unat n) < 65540" using align_bounds(2) [of "unat n"] unat_u16_less [of n] by linarith
  have small: "pll < 2 ^ 32" "LWIP_MEM_ALIGN 16 + pll < 2 ^ 32" "LWIP_MEM_ALIGN 16 = 16"
    using off nn by (simp_all add: pll_def LWIP_MEM_ALIGN_def [of 16])
  define p where "p = libc_malloc e h (16 + pll)"
  have alloc: "pbuf_alloc e layer n PBUF_RAM h =
      do { (p, h) \<leftarrow> mem_malloc e (16 + pll) h;
           if p = 0 then Some (0, h)
           else (let pl = LWIP_MEM_ALIGN (p + 16 + ?off)
                 in do { lwip_assert (pl mod 4 = 0);
                         Some (p, pbuf_init_alloced_pbuf p pl n n PBUF_RAM 0 h) }) }"
    using small by (simp add: pbuf_alloc_def Let_def pll_def [symmetric]) (simp add: pll_def)
  show ?thesis
  proof (cases "p = 0")
    case True
    then show ?thesis using inv unfolding alloc by (simp add: mem_malloc_def p_def [symmetric])
  next
    case False
    have bo: "blocks_ok h" using inv by (simp add: heap_inv_def)
    have mp: "p mod 4 = 0" "pbufs h p = None" "p \<notin> dom (heap_blocks h)"
        "p \<notin> pool_elems (pools h MEMP_PBUF_POOL)" "p \<notin> pool_elems (pools h MEMP_PBUF)"
      using m bo False unfolding malloc_ok_def p_def by blast+
    define pl where "pl = LWIP_MEM_ALIGN (p + 16 + ?off)"
    have pl: "pl = p + 16 + LWIP_MEM_ALIGN ?off" "pl mod 4 = 0"
      using align_add [of "p + 16" ?off] mp(1) by (simp_all add: pl_def, presburger)
    define b where "b = \<lparr>pb_next = 0, payload = pl, tot_len = n, len = n,
        type_internal = ucast (pbuf_type_val PBUF_RAM), pb_flags = 0, pb_ref = 1, if_idx = 0\<rparr>"
    define h' where "h' = h\<lparr>heap_blocks := (heap_blocks h)(p \<mapsto> 16 + pll), pbufs := (pbufs h)(p \<mapsto> b)\<rparr>"
    have own: "pbuf_owner b = Own_heap" unfolding b_def owner_of_type by simp
    have run: "pbuf_alloc e layer n PBUF_RAM h = Some (p, h')"
      unfolding alloc using False mp(1) pl(2)
      by (simp add: mem_malloc_def p_def [symmetric] pl_def [symmetric] pbuf_init_alloced_pbuf_def b_def h'_def
          LWIP_MEM_ALIGN_def [of p] Let_def, presburger)
    have "blocks_ok h'" unfolding h'_def by (rule blocks_ok_malloc [OF bo m p_def [symmetric] False])
    moreover have "block_size h' p b = 16 + pll" by (simp add: block_size_def own h'_def)
    then have "layout_ok h' p b"
      using pl(1) align_bounds(1) [of "unat n"] by (simp add: layout_ok_def own, simp add: b_def pll_def)
    moreover have "home_ok h' p b" using mp by (simp add: home_ok_def h'_def)
    ultimately have "heap_inv h'"
      using inv own mp
      by (intro heap_inv_add [OF inv mp(2) False, of h' b]) (simp_all add: h'_def heap_inv_def)
    moreover have "fresh_packet (pbufs h) h' p [p] (unat n)"
      using False mp own
      by (auto simp: fresh_packet_def packet_def h'_def plen_def no_empty_tail_def b_def)
    ultimately show ?thesis using run False by (simp add: h'_def)
  qed
qed

text \<open>The state of the loop that allocates from the pool: the chain \<open>as\<close> so far, and \<open>rem\<close> bytes
  still to come.\<close>

definition pool_partial :: "(nat \<rightharpoonup> pbuf) \<Rightarrow> heap \<Rightarrow> nat \<Rightarrow> nat \<Rightarrow> nat list \<Rightarrow> nat \<Rightarrow> bool" where
  "pool_partial m h p lst as rem \<longleftrightarrow>
     heap_inv h \<and> pchain h p as \<and> (as \<noteq> [] \<longrightarrow> lst = last as \<and> 0 < plen h lst \<and> 0 < rem) \<and>
     set as \<inter> dom m = {} \<and> (\<forall>a. a \<notin> set as \<longrightarrow> pbufs h a = m a) \<and> totals_plus h as rem \<and>
     (\<forall>a \<in> set as. \<exists>b. pbufs h a = Some b \<and> pb_ref b = 1 \<and> pbuf_owner b = Own_pool)"

lemma pool_partial_free:
  assumes "pool_partial m h p lst as rem" "as \<noteq> []" "custom_free_ok e"
  shows "\<exists>c h'. pbuf_free e p h = Some (c, h') \<and> heap_inv h' \<and> bytes h' = bytes h \<and> pbufs h' = m"
proof -
  have a: "pchain h p as" "heap_inv h" "\<forall>a \<in> set as. pb_ref (the (pbufs h a)) = 1"
      "\<forall>a. a \<notin> set as \<longrightarrow> pbufs h a = m a" "set as \<inter> dom m = {}"
    using assms(1) unfolding pool_partial_def by auto
  obtain h' where h': "pbuf_free e p h = Some (word_of_nat (length (freed_prefix (pbufs h) as)), h')"
      "heap_inv h'" "bytes h' = bytes h" "pbufs h' = release_refs (pbufs h) as"
    using pbuf_free_chain [OF a(1) assms(2) a(2) _ assms(3)] a(3) by auto
  have "release_refs (pbufs h) as = m"
    unfolding release_refs_all(2) [OF a(3)] using a(4,5) by (auto simp: fun_eq_iff disjoint_iff domIff)
  then show ?thesis using h' by auto
qed

text \<open>One more buffer from the pool.\<close>

lemma heap_inv_add_pool:
  assumes inv: "heap_inv h" and q: "memp_malloc (pools h) MEMP_PBUF_POOL = Some (q, ps)" "q \<noteq> 0"
    and off: "unat off \<le> 54" and l: "unat l + LWIP_MEM_ALIGN (unat off) \<le> PBUF_POOL_BUFSIZE_ALIGNED"
    and h1_def: "h1 = pbuf_init_alloced_pbuf q (LWIP_MEM_ALIGN (q + 16 + unat off)) t l PBUF_POOL 0 (h\<lparr>pools := ps\<rparr>)"
  shows "heap_inv h1" "pbufs h q = None" "q mod 4 = 0"
    "\<exists>b. pbufs h1 = (pbufs h)(q \<mapsto> b) \<and> pb_next b = 0 \<and> len b = l \<and> tot_len b = t \<and> pb_ref b = 1 \<and> pbuf_owner b = Own_pool"
    "bytes h1 = bytes h"
proof -
  have holds: "pool.holds (pools h MEMP_PBUF_POOL) (live h Own_pool)" "pool.holds (pools h MEMP_PBUF) (live h Own_memp)"
    using inv by (simp_all add: heap_inv_def)
  obtain d where d: "ps = (pools h)(MEMP_PBUF_POOL := d)" "q \<in> pool_elems (pools h MEMP_PBUF_POOL) - live h Own_pool"
      "q mod 4 = 0" "pool.holds d (insert q (live h Own_pool))" "desc_size d = desc_size (pools h MEMP_PBUF_POOL)"
      "pool_elems d = pool_elems (pools h MEMP_PBUF_POOL)"
    using memp_malloc_holds [of "pools h" MEMP_PBUF_POOL, OF holds(1)] q by auto
  show fresh: "pbufs h q = None"
  proof (cases "pbufs h q")
    case (Some b)
    then have "home_ok h q b" using inv by (simp add: heap_inv_def)
    then show ?thesis using d(2) Some by (auto simp: home_ok_def live_def)
  qed simp
  define b where "b = \<lparr>pb_next = 0, payload = LWIP_MEM_ALIGN (q + 16 + unat off), tot_len = t, len = l,
      type_internal = ucast (pbuf_type_val PBUF_POOL), pb_flags = 0, pb_ref = 1, if_idx = 0\<rparr>"
  have own: "pbuf_owner b = Own_pool" unfolding b_def owner_of_type by simp
  have h1: "pbufs h1 = (pbufs h)(q \<mapsto> b)" "pools h1 = ps" "heap_blocks h1 = heap_blocks h" "bytes h1 = bytes h"
    by (simp_all add: h1_def pbuf_init_alloced_pbuf_def b_def)
  have "(q + 16) mod 4 = 0" using d(3) by presburger
  then have "payload b = q + 16 + LWIP_MEM_ALIGN (unat off)" unfolding b_def by (simp add: align_add)
  then have lay: "layout_ok h1 q b" using l own by (simp add: layout_ok_def block_size_def, simp add: b_def)
  have "blocks_ok h1"
    using inv pool_memory_cong [OF d(5,6)] h1 d(1) by (simp add: heap_inv_def blocks_ok_def)
  moreover have "home_ok h1 q b"
    using d inv own h1(2) by (auto simp: home_ok_def heap_inv_def)
  ultimately show "heap_inv h1"
    using d holds own h1 lay by (intro heap_inv_add [OF inv fresh q(2), of h1 b]) simp_all
  show "q mod 4 = 0" by (rule d(3))
  show "\<exists>b. pbufs h1 = (pbufs h)(q \<mapsto> b) \<and> pb_next b = 0 \<and> len b = l \<and> tot_len b = t \<and> pb_ref b = 1 \<and> pbuf_owner b = Own_pool"
    using h1(1) own by (auto simp: b_def)
  show "bytes h1 = bytes h" by (rule h1(4))
qed

lemma pool_partial_snoc:
  assumes part: "pool_partial m h p lst as rem" and q: "pbufs h q = None" "q \<noteq> 0"
    and h2: "heap_inv h2" "bytes h2 = bytes h" "pbufs h2 q = Some b"
    and b: "pb_next b = 0" "unat (tot_len b) = rem" "pb_ref b = 1" "pbuf_owner b = Own_pool"
      "unat (len b) \<le> rem"
    and old: "\<And>a. a \<noteq> q \<Longrightarrow> as = [] \<or> a \<noteq> last as \<Longrightarrow> pbufs h2 a = pbufs h a"
      "as \<noteq> [] \<Longrightarrow> pbufs h2 lst = map_option (\<lambda>c. c\<lparr>pb_next := q\<rparr>) (pbufs h lst)"
  shows "pchain h2 (if as = [] then q else p) (as @ [q])" "totals_plus h2 (as @ [q]) (rem - unat (len b))"
    "set (as @ [q]) \<inter> dom m = {}" "\<forall>a. a \<notin> set (as @ [q]) \<longrightarrow> pbufs h2 a = m a"
    "\<forall>a \<in> set (as @ [q]). \<exists>b. pbufs h2 a = Some b \<and> pb_ref b = 1 \<and> pbuf_owner b = Own_pool"
    "length (pdata h2 (as @ [q])) = length (pdata h as) + unat (len b)" "plen h2 q = unat (len b)"
proof -
  have pa: "pchain h p as" "as \<noteq> [] \<Longrightarrow> lst = last as" "set as \<inter> dom m = {}" "\<forall>a. a \<notin> set as \<longrightarrow> pbufs h a = m a"
      "totals_plus h as rem" "\<forall>a \<in> set as. \<exists>b. pbufs h a = Some b \<and> pb_ref b = 1 \<and> pbuf_owner b = Own_pool"
    using part unfolding pool_partial_def by auto
  have qn: "q \<notin> set as" using pa(6) q(1) by auto
  have same: "\<exists>x x'. pbufs h a = Some x \<and> pbufs h2 a = Some x' \<and> pb_next x' = (if a = last as then q else pb_next x) \<and>
      payload x' = payload x \<and> len x' = len x \<and> tot_len x' = tot_len x \<and> pb_ref x' = 1 \<and> pbuf_owner x' = Own_pool"
    if "a \<in> set as" for a
  proof -
    obtain x where x: "pbufs h a = Some x" "pb_ref x = 1" "pbuf_owner x = Own_pool" using pa(6) \<open>a \<in> set as\<close> by blast
    have "a \<noteq> q" "as \<noteq> []" using that qn by auto
    then show ?thesis using x old(1) [of a] old(2) pa(2) by (cases "a = last as") auto
  qed
  have sp: "\<forall>a \<in> set as. same_payload h h2 a" using same by (fastforce simp: same_payload_def)
  have tl: "\<forall>a \<in> set as. tot_len (the (pbufs h2 a)) = tot_len (the (pbufs h a))" using same by fastforce
  have pd: "pdata h2 as = pdata h as" by (rule pdata_cong [OF h2(2) sp])
  show lq: "plen h2 q = unat (len b)" using h2(3) by (rule plen_Some)
  show "length (pdata h2 (as @ [q])) = length (pdata h as) + unat (len b)" using pd lq by simp
  have q1: "pchain h2 q [q]" using h2(3) b(1) q(2) by simp
  show "pchain h2 (if as = [] then q else p) (as @ [q])"
  proof (cases "as = []")
    case False
    have "\<forall>a \<in> set as. \<exists>x x'. pbufs h a = Some x \<and> pbufs h2 a = Some x' \<and>
        pb_next x' = (if a = last as then q else pb_next x)"
      using same by blast
    from pchain_join [OF pa(1) False q1 this] show ?thesis using False by simp
  qed (use q1 in simp)
  have "totals_plus h2 as rem" using totals_plus_cong [OF h2(2) sp tl] pa(5) by simp
  moreover have "length (pdata h2 [q]) + (rem - unat (len b)) = rem" using lq b(5) by simp
  ultimately show "totals_plus h2 (as @ [q]) (rem - unat (len b))"
    using h2(3) b(2,5) lq by (simp add: totals_plus_append)
  show "set (as @ [q]) \<inter> dom m = {}" using pa(3,4) qn q(1) by auto
  show "\<forall>a. a \<notin> set (as @ [q]) \<longrightarrow> pbufs h2 a = m a"
  proof (intro allI impI)
    fix a assume a: "a \<notin> set (as @ [q])"
    then have "as = [] \<or> a \<noteq> last as" by auto
    then show "pbufs h2 a = m a" using old(1) [of a] a pa(4) by auto
  qed
  show "\<forall>a \<in> set (as @ [q]). \<exists>b. pbufs h2 a = Some b \<and> pb_ref b = 1 \<and> pbuf_owner b = Own_pool"
    using same h2(3) b(3,4) by fastforce
qed

lemma pbuf_alloc_pool_loop_spec:
  assumes e: "custom_free_ok e" and part: "pool_partial m h p lst as (unat rem)" and off: "unat off \<le> 54"
  shows "\<exists>r h'. pbuf_alloc_pool_loop e p lst rem off h = Some (r, h') \<and> heap_inv h' \<and> bytes h' = bytes h \<and>
     (if r = 0 then pbufs h' = m
      else \<exists>as'. fresh_packet m h' r as' (length (pdata h as) + unat rem))"
  using part off
proof (induction "unat rem" arbitrary: p lst as rem off h rule: less_induct)
  case less
  note part = less.prems(1)
  have inv: "heap_inv h" and ch: "pchain h p as" using part by (simp_all add: pool_partial_def)
  have p0: "p = 0 \<longleftrightarrow> as = []" using ch by (cases as) auto
  have "\<exists>q ps. memp_malloc (pools h) MEMP_PBUF_POOL = Some (q, ps) \<and> (q = 0 \<longrightarrow> ps = pools h)"
    using memp_malloc_holds [of "pools h" MEMP_PBUF_POOL "live h Own_pool"] inv by (auto simp: heap_inv_def)
  then obtain q ps where q: "memp_malloc (pools h) MEMP_PBUF_POOL = Some (q, ps)" "q = 0 \<Longrightarrow> ps = pools h" by blast
  show ?case
  proof (cases "q = 0")
    case True
    let ?h = "pbuf_pool_is_empty (h\<lparr>pools := ps\<rparr>)"
    have hq: "?h = h\<lparr>pbuf_free_ooseq_pending := True\<rparr>" using q(2) True by (simp add: pbuf_pool_is_empty_def)
    show ?thesis
    proof (cases "as = []")
      case as: True
      then have "pbufs h = m" using part by (auto simp: pool_partial_def fun_eq_iff)
      then show ?thesis using as p0 True q inv hq by (subst pbuf_alloc_pool_loop.simps) simp
    next
      case as: False
      have "pchain ?h p as = pchain h p as" unfolding hq by (rule pchain_cong) simp
      moreover have "totals_plus ?h as (unat rem) = totals_plus h as (unat rem)" "plen ?h = plen h"
        unfolding hq using part
        by (intro totals_plus_cong, auto simp: same_payload_def pool_partial_def plen_def fun_eq_iff)
      ultimately have "pool_partial m ?h p lst as (unat rem)" using part hq by (auto simp: pool_partial_def)
      then obtain c h' where "pbuf_free e p ?h = Some (c, h')" "heap_inv h'" "bytes h' = bytes ?h" "pbufs h' = m"
        using pool_partial_free [OF _ as e] by blast
      then show ?thesis using as p0 True q hq by (subst pbuf_alloc_pool_loop.simps) simp
    qed
  next
    case False
    define room where "room = (word_of_nat (1516 - LWIP_MEM_ALIGN (unat off)) :: u16)"
    have al: "LWIP_MEM_ALIGN (unat off) < 58" using align_bounds(2) [of "unat off"] less.prems(2) by linarith
    have room: "unat room = 1516 - LWIP_MEM_ALIGN (unat off)" by (simp add: room_def)
    define qlen where "qlen = (if rem < room then rem else room)"
    have ql: "unat qlen = min (unat rem) (unat room)" by (auto simp: qlen_def word_less_nat_alt)
    define h1 where "h1 = pbuf_init_alloced_pbuf q (LWIP_MEM_ALIGN (q + 16 + unat off)) rem qlen PBUF_POOL 0 (h\<lparr>pools := ps\<rparr>)"
    have fits: "unat qlen + LWIP_MEM_ALIGN (unat off) \<le> 1516" using ql room al by simp
    note add = heap_inv_add_pool [OF inv q(1) False less.prems(2) fits h1_def]
    obtain b where b: "pbufs h1 = (pbufs h)(q \<mapsto> b)" "pb_next b = 0" "len b = qlen" "tot_len b = rem" "pb_ref b = 1"
        "pbuf_owner b = Own_pool" using add(4) by blast
    have lst: "as \<noteq> [] \<Longrightarrow> lst = last as \<and> (\<exists>c. pbufs h lst = Some c) \<and> lst \<noteq> q"
      using part add(2) by (metis last_in_set option.distinct(1) pool_partial_def)
    define h2 where "h2 = (if as = [] then h1 else
        h1\<lparr>pbufs := (pbufs h1)(lst \<mapsto> (the (pbufs h lst))\<lparr>pb_next := q\<rparr>)\<rparr>)"
    have link: "(if p = 0 then Some h1 else upd_pbuf lst (\<lambda>b. b\<lparr>pb_next := q\<rparr>) h1) = Some h2"
      using lst b(1) p0 by (auto simp: h2_def upd_pbuf_def)
    have h2i: "heap_inv h2"
    proof (cases "as = []")
      case as: False
      then obtain c where c: "pbufs h lst = Some c" "lst \<noteq> q" using lst by blast
      have c1: "pbufs h1 lst = Some c" using b(1) c by simp
      have "heap_inv (h1\<lparr>pbufs := (pbufs h1)(lst \<mapsto> c\<lparr>pb_next := q\<rparr>)\<rparr>)"
        by (rule heap_inv_same_owner [OF add(1) c1]) (use heap_inv_layout [OF add(1) c1] in simp_all)
      then show ?thesis using as c(1) by (simp add: h2_def)
    qed (use add(1) in \<open>simp add: h2_def\<close>)
    have h2b: "bytes h2 = bytes h" using add(5) by (simp add: h2_def)
    have h2q: "pbufs h2 q = Some b" using b(1) lst by (auto simp: h2_def)
    have lb: "unat (len b) \<le> unat rem" using ql b(3) by simp
    have tb: "unat (tot_len b) = unat rem" using b(4) by simp
    have old1: "a \<noteq> q \<Longrightarrow> as = [] \<or> a \<noteq> last as \<Longrightarrow> pbufs h2 a = pbufs h a" for a
      using b(1) lst by (auto simp: h2_def)
    have old2: "as \<noteq> [] \<Longrightarrow> pbufs h2 lst = map_option (\<lambda>c. c\<lparr>pb_next := q\<rparr>) (pbufs h lst)"
      using lst by (auto simp: h2_def)
    note snoc = pool_partial_snoc [OF part add(2) False h2i h2b h2q b(2) tb b(5) b(6) lb old1 old2, unfolded b(3)]
    note h2 = h2i h2b
    define p' where "p' = (if p = 0 then q else p)"
    have p': "p' = (if as = [] then q else p)" "p' \<noteq> 0" using p0 False by (auto simp: p'_def)
    have sub: "unat (rem - qlen) = unat rem - unat qlen" using ql by (intro unat_sub_no_wrap) simp
    have "LWIP_MEM_ALIGN (q + 16 + unat off) mod 4 = 0" by simp
    then have step: "pbuf_alloc_pool_loop e p lst rem off h =
        (if rem - qlen > 0 then pbuf_alloc_pool_loop e p' q (rem - qlen) 0 h2 else Some (p', h2))"
      using q(1) False al link
      by (subst pbuf_alloc_pool_loop.simps, cases "p = 0")
         (simp_all add: room_def [symmetric] qlen_def [symmetric] h1_def [symmetric] p'_def Let_def)
    show ?thesis
    proof (cases "rem - qlen > 0")
      case True
      then have pos: "0 < unat rem - unat qlen" using sub by (metis unat_gt_0 word_gt_0)
      then have qpos: "0 < unat qlen" "unat (rem - qlen) < unat rem" using ql room al sub by auto
      have "pool_partial m h2 p' q (as @ [q]) (unat (rem - qlen))"
        using h2(1) snoc p'(1) pos qpos sub by (simp add: pool_partial_def del: pdata_append)
      from less.hyps [OF qpos(2) this, of 0] obtain r h' where
        r: "pbuf_alloc_pool_loop e p' q (rem - qlen) 0 h2 = Some (r, h')" "heap_inv h'" "bytes h' = bytes h2"
          "if r = 0 then pbufs h' = m else \<exists>as'. fresh_packet m h' r as' (length (pdata h2 (as @ [q])) + unat (rem - qlen))"
        by auto
      have tl: "length (pdata h2 (as @ [q])) + unat (rem - qlen) = length (pdata h as) + unat rem"
        using snoc(6) sub ql by simp
      show ?thesis using step True r(1-3) r(4) [unfolded tl] h2(2) by simp
    next
      case nr: False
      then have eq: "unat rem = unat qlen" using sub ql by (metis diff_is_0_eq le_antisym min.cobounded1 unat_0 word_gt_0)
      have "no_empty_tail h2 (as @ [q])"
        using eq part snoc(7) by (cases "as = []") (auto simp: no_empty_tail_def pool_partial_def)
      moreover have "packet h2 p' (as @ [q])"
        using snoc(1,2) p'(1) eq by (simp add: packet_def totals_plus_0)
      ultimately have "fresh_packet m h2 p' (as @ [q]) (length (pdata h as) + unat rem)"
        using snoc(3-6) eq unfolding fresh_packet_def by fastforce
      then show ?thesis using step nr h2 p'(2) by auto
    qed
  qed
qed

lemma pbuf_alloc_pool_spec:
  assumes "heap_inv h" "custom_free_ok e"
  shows "\<exists>r h'. pbuf_alloc e layer n PBUF_POOL h = Some (r, h') \<and> heap_inv h' \<and> bytes h' = bytes h \<and>
     (if r = 0 then pbufs h' = pbufs h else \<exists>as. fresh_packet (pbufs h) h' r as (unat n))"
proof -
  have "pool_partial (pbufs h) h 0 0 [] (unat n)" using assms(1) by (simp add: pool_partial_def)
  from pbuf_alloc_pool_loop_spec [OF assms(2) this layer_small [of layer]]
  show ?thesis unfolding pdata_Nil list.size add_0 by (simp add: pbuf_alloc_def split del: if_split)
qed

end
