(* ===== verification/Pbuf_Chain.thy ===== *)
theory Pbuf_Chain
  imports Pbuf_Own
begin

text \<open>
  The functions of \<^verbatim>\<open>pbuf.c\<close> that change the shape of a packet: \<^verbatim>\<open>pbuf_cat\<close>, \<^verbatim>\<open>pbuf_chain\<close>,
  \<^verbatim>\<open>pbuf_dechain\<close>, \<^verbatim>\<open>pbuf_realloc\<close>, the header functions, \<^verbatim>\<open>pbuf_free_header\<close>, \<^verbatim>\<open>pbuf_clone\<close> and
  \<^verbatim>\<open>pbuf_coalesce\<close>, each as a function on the bytes of the packet; the ownership invariant of
  \<open>Pbuf_Own\<close> is kept by each of them. The properties of \<^verbatim>\<open>pbuf.c\<close> stand at the end, with the small
  heap on which their witnesses run.
\<close>

section \<open>Changing the totals of several buffers\<close>

definition map_tot :: "nat set \<Rightarrow> (u16 \<Rightarrow> u16) \<Rightarrow> (nat \<rightharpoonup> pbuf) \<Rightarrow> nat \<rightharpoonup> pbuf" where
  "map_tot S f m = (\<lambda>a. if a \<in> S then map_option (\<lambda>b. b\<lparr>tot_len := f (tot_len b)\<rparr>) (m a) else m a)"

lemma map_tot_empty [simp]: "map_tot {} f m = m"
  by (simp add: map_tot_def)

lemma map_tot_insert:
  "m a = Some b \<Longrightarrow> a \<notin> S \<Longrightarrow> map_tot S f (m(a \<mapsto> b\<lparr>tot_len := f (tot_len b)\<rparr>)) = map_tot (insert a S) f m"
  by (auto simp: map_tot_def fun_eq_iff)

lemma heap_inv_pbufs_cong:
  assumes inv: "heap_inv h"
    and f: "\<And>a. map_option (\<lambda>b. (pbuf_owner b, payload b, len b)) (m a) =
                map_option (\<lambda>b. (pbuf_owner b, payload b, len b)) (pbufs h a)"
  shows "heap_inv (h\<lparr>pbufs := m\<rparr>)"
proof -
  have ex: "\<exists>b. pbufs h a = Some b \<and> pbuf_owner b = pbuf_owner c \<and> payload b = payload c \<and> len b = len c"
    if "m a = Some c" for a c using f [of a] that by (cases "pbufs h a") auto
  have ex': "\<exists>c. m a = Some c \<and> pbuf_owner b = pbuf_owner c" if "pbufs h a = Some b" for a b
    using f [of a] that by (cases "m a") auto
  have lv: "live (h\<lparr>pbufs := m\<rparr>) k = live h k" for k
    using ex ex' by (fastforce simp: live_def)
  have n0: "m 0 = None" using ex [of 0] inv by (cases "m 0") (auto simp: heap_inv_def)
  have lo: "layout_ok (h\<lparr>pbufs := m\<rparr>) a c \<and> home_ok (h\<lparr>pbufs := m\<rparr>) a c" if c: "m a = Some c" for a c
  proof -
    obtain b where b: "pbufs h a = Some b" "pbuf_owner b = pbuf_owner c" "payload b = payload c" "len b = len c"
      using ex [OF c] by blast
    then have "layout_ok h a b \<and> home_ok h a b" using inv by (simp add: heap_inv_def)
    then show ?thesis using b by (simp add: layout_ok_def home_ok_def block_size_def)
  qed
  have bl: "blocks_ok (h\<lparr>pbufs := m\<rparr>) = blocks_ok h" by (rule blocks_ok_cong) simp_all
  show ?thesis using inv n0 lo bl unfolding heap_inv_def lv by simp
qed

lemma map_tot_shape:
  "map_option (\<lambda>b. (pbuf_owner b, payload b, len b)) (map_tot S f m a) =
   map_option (\<lambda>b. (pbuf_owner b, payload b, len b)) (m a)"
  by (auto simp: map_tot_def option.map_comp comp_def)

section \<open>Concatenation\<close>

lemma pbuf_cat_loop_chain:
  assumes "pchain h p as" "as \<noteq> []" "t \<notin> set as" "pbufs h t = Some tb"
  shows "pbuf_cat_loop p t h =
     Some (last as, h\<lparr>pbufs := map_tot (set (butlast as)) (\<lambda>n. n + tot_len tb) (pbufs h)\<rparr>)"
  using assms
proof (induction as arbitrary: p h)
  case (Cons a as)
  obtain b where b: "p = a" "a \<noteq> 0" "pbufs h a = Some b" "pchain h (pb_next b) as" using Cons.prems(1) by auto
  have nin: "a \<notin> set as" using pchain_distinct [OF Cons.prems(1)] by simp
  show ?case
  proof (cases "as = []")
    case True
    then show ?thesis using b by (subst pbuf_cat_loop.simps) simp
  next
    case False
    define h1 where "h1 = h\<lparr>pbufs := (pbufs h)(a \<mapsto> b\<lparr>tot_len := tot_len b + tot_len tb\<rparr>)\<rparr>"
    have nz: "pb_next b \<noteq> 0" using b(4) False by (cases as) auto
    have "pchain h1 (pb_next b) as = pchain h (pb_next b) as"
      by (rule pchain_cong) (use nin in \<open>auto simp: h1_def\<close>)
    then have IH: "pbuf_cat_loop (pb_next b) t h1 =
        Some (last as, h1\<lparr>pbufs := map_tot (set (butlast as)) (\<lambda>n. n + tot_len tb) (pbufs h1)\<rparr>)"
      using Cons.prems(3,4) b(4) False by (intro Cons.IH) (auto simp: h1_def)
    have "a \<notin> set (butlast as)" using nin by (meson in_set_butlastD)
    then have "map_tot (set (butlast as)) (\<lambda>n. n + tot_len tb) (pbufs h1) =
        map_tot (set (butlast (a # as))) (\<lambda>n. n + tot_len tb) (pbufs h)"
      using False b(3) map_tot_insert [of "pbufs h" a b "set (butlast as)" "\<lambda>n. n + tot_len tb"] by (simp add: h1_def)
    then show ?thesis using IH b Cons.prems(4) False nz
      by (subst pbuf_cat_loop.simps) (simp add: upd_pbuf_def h1_def)
  qed
qed simp

lemma totals_ok_last: "totals_ok h as \<Longrightarrow> as \<noteq> [] \<Longrightarrow> pbufs h (last as) = Some b \<Longrightarrow> tot_len b = len b"
proof (induction as)
  case (Cons a as)
  then show ?case by (cases as) (auto simp: plen_Some intro: unsigned_word_eqI)
qed simp

lemma pchain_live: "pchain h p as \<Longrightarrow> a \<in> set as \<Longrightarrow> \<exists>b. pbufs h a = Some b"
  by (induction as arbitrary: p) auto

lemma pchain_last_next: "pchain h p as \<Longrightarrow> as \<noteq> [] \<Longrightarrow> \<exists>b. pbufs h (last as) = Some b \<and> pb_next b = 0"
  by (metis append_butlast_last_id pchain_last)

text \<open>What \<^verbatim>\<open>pbuf_cat\<close> does to the buffers.\<close>

definition joined :: "(nat \<rightharpoonup> pbuf) \<Rightarrow> nat list \<Rightarrow> nat \<Rightarrow> u16 \<Rightarrow> nat \<rightharpoonup> pbuf" where
  "joined m as t n =
     (\<lambda>a. if a \<in> set as
          then map_option (\<lambda>b. b\<lparr>tot_len := tot_len b + n, pb_next := (if a = last as then t else pb_next b)\<rparr>) (m a)
          else m a)"

lemma packet_first: "packet h p as \<Longrightarrow> p \<in> set as \<and> p \<noteq> 0"
  by (cases as) (auto simp: packet_def)

lemma packet_tot_len: "packet h p as \<Longrightarrow> pbufs h p = Some b \<Longrightarrow> unat (tot_len b) = length (pdata h as)"
  by (cases as) (auto simp: packet_def)

lemma pbuf_cat_run:
  assumes p: "packet h p as" and t: "packet h t bs" and dis: "set as \<inter> set bs = {}"
  shows "\<exists>tb. pbufs h t = Some tb \<and> unat (tot_len tb) = length (pdata h bs) \<and>
     pbuf_cat p t h = Some (h\<lparr>pbufs := joined (pbufs h) as t (tot_len tb)\<rparr>)"
proof -
  obtain tb bs' where tb: "pbufs h t = Some tb" "bs = t # bs'" "t \<noteq> 0" "unat (tot_len tb) = length (pdata h bs)"
    using t by (rule packet_head)
  have pb: "p \<noteq> 0" "p \<noteq> t" using packet_first [OF p] dis tb(2) by auto
  have ch: "pchain h p as" "as \<noteq> []" "totals_ok h as" using p by (auto simp: packet_def)
  have tn: "t \<notin> set as" using dis tb(2) by auto
  obtain b where b: "pbufs h (last as) = Some b" "pb_next b = 0" using pchain_last_next [OF ch(1,2)] by blast
  have bl: "tot_len b = len b" using totals_ok_last [OF ch(3,2) b(1)] .
  have dst: "distinct as" using pchain_distinct [OF ch(1)] .
  have nl: "last as \<notin> set (butlast as)"
    using dst ch(2) by (metis append_butlast_last_id distinct_append not_distinct_conv_prefix)
  define m where "m = map_tot (set (butlast as)) (\<lambda>n. n + tot_len tb) (pbufs h)"
  have ml: "m (last as) = Some b" "m t = Some tb"
    using b(1) nl tb(1) tn by (auto simp: m_def map_tot_def dest: in_set_butlastD)
  have set_as: "set as = insert (last as) (set (butlast as))"
    using ch(2) by (metis append_butlast_last_id list.set(2) rotate1.simps(2) set_rotate1)
  have mj: "m(last as \<mapsto> b\<lparr>tot_len := tot_len b + tot_len tb, pb_next := t\<rparr>) = joined (pbufs h) as t (tot_len tb)"
    unfolding joined_def m_def map_tot_def fun_eq_iff using b(1) nl by (auto simp: set_as)
  have run: "pbuf_cat_loop p t h = Some (last as, h\<lparr>pbufs := m\<rparr>)"
    unfolding m_def by (rule pbuf_cat_loop_chain) (use ch tn tb in auto)
  have "pbuf_cat p t h = Some (h\<lparr>pbufs := joined (pbufs h) as t (tot_len tb)\<rparr>)"
    using run ml bl [symmetric] b(2) tb(1,3) pb unfolding pbuf_cat_def
    by (simp add: upd_pbuf_def mj)
  then show ?thesis using tb by blast
qed

lemma joined_shape:
  "map_option (\<lambda>b. (pbuf_owner b, payload b, len b)) (joined m as t n a) =
   map_option (\<lambda>b. (pbuf_owner b, payload b, len b)) (m a)"
  by (auto simp: joined_def option.map_comp comp_def)

lemma packet_joined:
  assumes p: "packet h p as" and t: "packet h t bs" and dis: "set as \<inter> set bs = {}"
    and tb: "pbufs h t = Some tb" and fit: "length (pdata h as) + length (pdata h bs) < 65536"
    and h': "h' = h\<lparr>pbufs := joined (pbufs h) as t (tot_len tb)\<rparr>"
  shows "packet h' p (as @ bs)" "pdata h' (as @ bs) = pdata h as @ pdata h bs"
proof -
  have len_tb: "unat (tot_len tb) = length (pdata h bs)" using packet_tot_len [OF t tb] .
  have lv: "\<exists>b. pbufs h a = Some b" if "a \<in> set as \<union> set bs" for a
    using that pchain_live p t unfolding packet_def by blast
  have same: "\<forall>a \<in> set (as @ bs). same_payload h h' a"
  proof
    fix a assume "a \<in> set (as @ bs)"
    then obtain b where "pbufs h a = Some b" using lv [of a] by auto
    then show "same_payload h h' a" by (simp add: same_payload_def h' joined_def)
  qed
  have pd: "pdata h' cs = pdata h cs" if "set cs \<subseteq> set (as @ bs)" for cs
    by (rule pdata_cong) (use same that in \<open>auto simp: h'\<close>)
  then show "pdata h' (as @ bs) = pdata h as @ pdata h bs" by (simp add: pd)
  have "pchain h' t bs = pchain h t bs"
    by (rule pchain_cong) (use dis in \<open>auto simp: h' joined_def\<close>)
  moreover have "\<forall>a \<in> set as. \<exists>x x'. pbufs h a = Some x \<and> pbufs h' a = Some x' \<and>
       pb_next x' = (if a = last as then t else pb_next x)"
  proof
    fix a assume a: "a \<in> set as"
    then obtain b where "pbufs h a = Some b" using lv [of a] by auto
    then show "\<exists>x x'. pbufs h a = Some x \<and> pbufs h' a = Some x' \<and> pb_next x' = (if a = last as then t else pb_next x)"
      using a by (simp add: h' joined_def)
  qed
  ultimately have chain: "pchain h' p (as @ bs)"
    using p t by (intro pchain_join [of h]) (simp_all add: packet_def)
  have tbs: "totals_plus h' bs 0 = totals_plus h bs 0"
    by (rule totals_plus_cong) (use same dis in \<open>auto simp: h' joined_def\<close>)
  have "totals_plus h' cs (length (pdata h bs))" if "totals_ok h cs" "set cs \<subseteq> set as" "length (pdata h cs) \<le> length (pdata h as)" for cs
    using that
  proof (induction cs)
    case (Cons a cs)
    obtain b where b: "pbufs h a = Some b" using lv [of a] Cons.prems(2) by auto
    have tl: "unat (tot_len b) = length (pdata h (a # cs))" using Cons.prems(1) b by simp
    then have "unat (tot_len b + tot_len tb) = length (pdata h (a # cs)) + length (pdata h bs)"
      using fit Cons.prems(3) len_tb by (subst unat_add_no_wrap) simp_all
    moreover have "pbufs h' a = Some (b\<lparr>tot_len := tot_len b + tot_len tb, pb_next := (if a = last as then t else pb_next b)\<rparr>)"
      using b Cons.prems(2) by (simp add: h' joined_def)
    moreover have "pdata h' (a # cs) = pdata h (a # cs)" using Cons.prems(2) by (intro pd) auto
    moreover have "totals_plus h' cs (length (pdata h bs))" using Cons by auto
    ultimately show ?case by (simp del: pdata_Cons)
  qed simp
  from this [of as] have "totals_plus h' as (length (pdata h bs))" using p by (simp add: packet_def)
  moreover have "totals_plus h' bs 0" using t tbs by (simp add: totals_plus_0 packet_def)
  ultimately have "totals_ok h' (as @ bs)"
    unfolding totals_plus_0 [symmetric] totals_plus_append by (simp add: pd)
  then show "packet h' p (as @ bs)" using chain p by (simp add: packet_def)
qed

lemma pbuf_cat_packet:
  assumes "packet h p as" "packet h t bs" "set as \<inter> set bs = {}"
    "length (pdata h as) + length (pdata h bs) < 65536" "heap_inv h"
  shows "\<exists>h'. pbuf_cat p t h = Some h' \<and> packet h' p (as @ bs) \<and> pdata h' (as @ bs) = pdata h as @ pdata h bs \<and>
     heap_inv h' \<and> (\<forall>a. a \<notin> set as \<longrightarrow> pbufs h' a = pbufs h a)"
proof -
  obtain tb where tb: "pbufs h t = Some tb" "pbuf_cat p t h = Some (h\<lparr>pbufs := joined (pbufs h) as t (tot_len tb)\<rparr>)"
    using pbuf_cat_run [OF assms(1-3)] by blast
  show ?thesis
    using tb(2) packet_joined [OF assms(1-3) tb(1) assms(4) refl] heap_inv_pbufs_cong [OF assms(5), of "joined (pbufs h) as t (tot_len tb)"]
    by (simp add: joined_shape) (simp add: joined_def)
qed

section \<open>Headers\<close>

lemma heap_inv_upd:
  assumes "heap_inv h" "pbufs h a = Some b" "pbuf_owner b' = pbuf_owner b"
    "payload b' + unat (len b') = payload b + unat (len b)"
    "pbuf_owner b = Own_pool \<or> pbuf_owner b = Own_heap \<Longrightarrow> a + SIZEOF_STRUCT_PBUF \<le> payload b'"
  shows "heap_inv (h\<lparr>pbufs := (pbufs h)(a \<mapsto> b')\<rparr>)"
  using assms heap_inv_layout [OF assms(1,2)]
  by (intro heap_inv_same_owner [OF assms(1,2)]) (auto simp: layout_ok_def block_size_def)

lemma packet_Cons_iff:
  "packet h p (p # as) \<longleftrightarrow>
     p \<noteq> 0 \<and> (\<exists>b. pbufs h p = Some b \<and> pchain h (pb_next b) as \<and> unat (tot_len b) = unat (len b) + length (pdata h as) \<and>
       totals_ok h as)"
  by (auto simp: packet_def plen_Some)

text \<open>Replacing the first buffer of a packet.\<close>

lemma packet_upd_first:
  assumes p: "packet h p (p # as)" and h': "h' = h\<lparr>pbufs := (pbufs h)(p \<mapsto> b')\<rparr>" and b: "pbufs h p = Some b"
    and b': "pb_next b' = pb_next b" "unat (tot_len b') = unat (len b') + length (pdata h as)"
  shows "packet h' p (p # as)" "pdata h' (p # as) = rd h (payload b') (unat (len b')) @ pdata h as"
proof -
  have nin: "p \<notin> set as" using packet_head_fresh [OF p] .
  have lv: "\<exists>c. pbufs h a = Some c" if "a \<in> set as" for a
    using p that pchain_live [of h p "p # as"] by (auto simp: packet_def)
  have same: "\<forall>a \<in> set as. same_payload h h' a"
    using lv nin by (force simp: same_payload_def h')
  have pd: "pdata h' as = pdata h as" by (rule pdata_cong) (use same in \<open>auto simp: h'\<close>)
  have ch: "pchain h' q as = pchain h q as" for q by (rule pchain_cong) (use nin in \<open>auto simp: h'\<close>)
  have tt: "totals_ok h' as = totals_ok h as"
    unfolding totals_plus_0 [symmetric] by (rule totals_plus_cong) (use same nin in \<open>auto simp: h'\<close>)
  show "packet h' p (p # as)"
    using p b b' unfolding packet_Cons_iff ch tt pd by (simp add: h')
  show "pdata h' (p # as) = rd h (payload b') (unat (len b')) @ pdata h as"
    by (simp add: pd) (simp add: pbytes_def h' plen_def rd_def)
qed

lemma pbuf_remove_header_packet:
  assumes p: "packet h p (p # as)" and inv: "heap_inv h"
  shows "if n \<le> plen h p
     then \<exists>h'. pbuf_remove_header p n h = Some (False, h') \<and> packet h' p (p # as) \<and>
            pdata h' (p # as) = drop n (pdata h (p # as)) \<and> heap_inv h' \<and>
            (\<forall>a. a \<noteq> p \<longrightarrow> pbufs h' a = pbufs h a) \<and> bytes h' = bytes h
     else pbuf_remove_header p n h = Some (True, h)"
proof (cases "n \<le> plen h p")
  case le: True
  obtain b where b: "pbufs h p = Some b" "p \<noteq> 0" "unat (tot_len b) = unat (len b) + length (pdata h as)"
    using p unfolding packet_Cons_iff by blast
  have n1: "n \<le> unat (len b)" using le b(1) by (simp add: plen_Some)
  have n: "n \<le> unat (len b)" "n < 65536" using n1 unat_u16_less [of "len b"] by linarith+
  show ?thesis
  proof (cases "n = 0")
    case True
    then show ?thesis using b(2) p inv by (simp add: pbuf_remove_header_def)
  next
    case False
    define b' where "b' = b\<lparr>payload := payload b + n, len := len b - word_of_nat n, tot_len := tot_len b - word_of_nat n\<rparr>"
    define h' where "h' = h\<lparr>pbufs := (pbufs h)(p \<mapsto> b')\<rparr>"
    have l: "unat (len b') = unat (len b) - n" "unat (tot_len b') = unat (len b') + length (pdata h as)"
      using n b(3) by (simp_all add: b'_def unat_sub_no_wrap)
    have "pbuf_remove_header p n h = Some (False, h')"
      using b n False by (simp add: pbuf_remove_header_def Let_def word_le_nat_alt h'_def b'_def)
    moreover have "packet h' p (p # as)" "pdata h' (p # as) = rd h (payload b') (unat (len b')) @ pdata h as"
      using packet_upd_first [OF p h'_def b(1)] l(2) by (simp_all add: b'_def)
    moreover have "rd h (payload b') (unat (len b')) @ pdata h as = drop n (pdata h (p # as))"
      using n b(1) l(1) by (simp add: pbytes_def plen_Some drop_rd b'_def)
    moreover have "heap_inv h'" unfolding h'_def
      using l n(1) heap_inv_layout [OF inv b(1)]
      by (intro heap_inv_upd [OF inv b(1)]) (auto simp: b'_def layout_ok_def)
    ultimately show ?thesis using le by (simp add: h'_def)
  qed
next
  case False
  obtain b where b: "pbufs h p = Some b" "p \<noteq> 0" using p unfolding packet_Cons_iff by blast
  then show ?thesis using False by (auto simp: pbuf_remove_header_def Let_def word_le_nat_alt plen_Some)
qed

lemma u16_add_overflows: "(a :: u16) + b < a \<longleftrightarrow> \<not> unat a + unat b < 65536"
proof (cases "unat a + unat b < 65536")
  case True
  then have "unat (a + b) = unat a + unat b" by (intro unat_add_no_wrap) simp
  then show ?thesis using True by (simp add: word_less_nat_alt)
next
  case False
  moreover have "unat a + unat b - 65536 < 65536" using unat_u16_less [of a] unat_u16_less [of b] by linarith
  ultimately have "(unat a + unat b) mod 65536 = unat a + unat b - 65536" by (simp add: le_mod_geq)
  then have "unat (a + b) = unat a + unat b - 65536" by (simp add: unat_word_ariths)
  then show ?thesis using False unat_u16_less [of b] by (simp add: word_less_nat_alt del: unat_u16_less)
qed

lemma pbuf_add_header_packet:
  assumes p: "packet h p (p # as)" and b: "pbufs h p = Some b"
    and flag: "type_internal b AND PBUF_TYPE_FLAG_STRUCT_DATA_CONTIGUOUS \<noteq> 0" and inv: "heap_inv h"
  shows "if length (pdata h (p # as)) + n < 65536 \<and> (n = 0 \<or> p + SIZEOF_STRUCT_PBUF + n \<le> payload b)
     then \<exists>h'. pbuf_add_header p n h = Some (False, h') \<and> packet h' p (p # as) \<and>
            pdata h' (p # as) = rd h (payload b - n) n @ pdata h (p # as) \<and> heap_inv h' \<and>
            (\<forall>a. a \<noteq> p \<longrightarrow> pbufs h' a = pbufs h a) \<and> bytes h' = bytes h
     else pbuf_add_header p n h = Some (True, h)"
proof -
  have pz: "p \<noteq> 0" and tl: "unat (tot_len b) = unat (len b) + length (pdata h as)"
    using p b unfolding packet_Cons_iff by auto
  have tot: "unat (tot_len b) = length (pdata h (p # as))" using tl b by (simp add: plen_Some)
  have wrap: "(word_of_nat n + tot_len b < word_of_nat n) \<longleftrightarrow> \<not> unat (tot_len b) + n < 65536" if "n < 65536"
    using that u16_add_overflows [of "word_of_nat n" "tot_len b"] by (simp add: add.commute)
  show ?thesis
  proof (cases "length (pdata h (p # as)) + n < 65536 \<and> (n = 0 \<or> p + SIZEOF_STRUCT_PBUF + n \<le> payload b)")
    case fit: True
    show ?thesis
    proof (cases "n = 0")
      case True
      then show ?thesis using pz p inv length_pdata_packet [OF p] by (simp add: pbuf_add_header_def pbuf_add_header_impl_def)
    next
      case False
      have n: "n < 65536" "unat (tot_len b) + n < 65536" "p + 16 + n \<le> payload b" using fit tot False by simp_all
      have nl: "unat (len b) + n < 65536" using n(2) tl by simp
      define b' where "b' = b\<lparr>payload := payload b - n, len := len b + word_of_nat n, tot_len := tot_len b + word_of_nat n\<rparr>"
      define h' where "h' = h\<lparr>pbufs := (pbufs h)(p \<mapsto> b')\<rparr>"
      have l: "unat (len b') = n + unat (len b)" "unat (tot_len b') = unat (len b') + length (pdata h as)"
        using n nl tl by (simp_all add: b'_def unat_add_no_wrap)
      have pl: "\<not> payload b - n < p + 16" using n(3) by linarith
      have "pbuf_add_header p n h = Some (False, h')"
        using b pz n False flag pl wrap
        by (simp add: pbuf_add_header_def pbuf_add_header_impl_def Let_def h'_def b'_def)
      moreover have "packet h' p (p # as)" "pdata h' (p # as) = rd h (payload b') (unat (len b')) @ pdata h as"
        using packet_upd_first [OF p h'_def b] l(2) by (simp_all add: b'_def)
      moreover have "rd h (payload b') (unat (len b')) = rd h (payload b - n) n @ pbytes h p"
        unfolding l(1) using n(3) b
        by (intro nth_equalityI) (auto simp: pbytes_def plen_Some nth_append b'_def)
      moreover have "heap_inv h'" unfolding h'_def
        using l(1) n(3) by (intro heap_inv_upd [OF inv b]) (simp_all add: b'_def)
      ultimately show ?thesis unfolding if_P [OF fit] by (intro exI [of _ h']) (simp add: h'_def)
    qed
  next
    case no: False
    have "pbuf_add_header p n h = Some (True, h)"
    proof (cases "n < 65536 \<and> n \<noteq> 0 \<and> unat (tot_len b) + n < 65536")
      case True
      then have "payload b - n < p + 16" using no tot by auto
      then show ?thesis using True b pz flag wrap
        by (simp add: pbuf_add_header_def pbuf_add_header_impl_def Let_def)
    next
      case False
      then have "65536 \<le> n \<or> (n \<noteq> 0 \<and> n < 65536 \<and> \<not> unat (tot_len b) + n < 65536)"
        using no tot unat_u16_less [of "tot_len b"] by auto
      then show ?thesis using b pz wrap
        by (auto simp: pbuf_add_header_def pbuf_add_header_impl_def Let_def)
    qed
    then show ?thesis using no by (simp del: pdata_Cons)
  qed
qed

text \<open>Hiding a header and revealing it again gives back the heap.\<close>

lemma pbuf_header_undo:
  assumes "packet h p (p # as)" "pbufs h p = Some b" "heap_inv h"
    "type_internal b AND PBUF_TYPE_FLAG_STRUCT_DATA_CONTIGUOUS \<noteq> 0" "p + SIZEOF_STRUCT_PBUF \<le> payload b"
    "n \<le> plen h p"
  shows "\<exists>h'. pbuf_remove_header p n h = Some (False, h') \<and> pbuf_add_header p n h' = Some (False, h)"
proof (cases "n = 0")
  case True
  then show ?thesis using packet_first [OF assms(1)]
    by (simp add: pbuf_remove_header_def pbuf_add_header_def pbuf_add_header_impl_def)
next
  case False
  have pz: "p \<noteq> 0" and tl: "unat (len b) \<le> unat (tot_len b)" using assms(1,2) unfolding packet_Cons_iff by auto
  have n1: "n \<le> unat (len b)" using assms(2,6) by (simp add: plen_Some)
  have n: "n \<le> unat (len b)" "n < 65536" using n1 unat_u16_less [of "len b"] by linarith+
  define b' where "b' = b\<lparr>payload := payload b + n, len := len b - word_of_nat n, tot_len := tot_len b - word_of_nat n\<rparr>"
  have "pbuf_remove_header p n h = Some (False, h\<lparr>pbufs := (pbufs h)(p \<mapsto> b')\<rparr>)"
    using assms(2) pz n False by (simp add: pbuf_remove_header_def Let_def word_le_nat_alt b'_def)
  moreover have "(pbufs h)(p \<mapsto> b) = pbufs h" using assms(2) by auto
  moreover have "\<not> tot_len b < word_of_nat n" using n tl by (simp add: word_less_nat_alt)
  ultimately show ?thesis
    using pz n False assms(4,5)
    by (simp add: pbuf_add_header_def pbuf_add_header_impl_def Let_def b'_def)
qed

section \<open>Shrinking\<close>

lemma pbuf_realloc_loop_chain:
  assumes "pchain h p as" "unat n \<le> length (pdata h as)" "as \<noteq> []"
  shows "\<exists>pre q post r. pbuf_realloc_loop p n k h = Some (q, r, h\<lparr>pbufs := map_tot (set pre) (\<lambda>t. t - k) (pbufs h)\<rparr>) \<and>
     as = pre @ q # post \<and> unat r \<le> plen h q \<and> unat n = length (pdata h pre) + unat r"
  using assms
proof (induction as arbitrary: p n h)
  case (Cons a as)
  obtain b where b: "p = a" "a \<noteq> 0" "pbufs h a = Some b" "pchain h (pb_next b) as" using Cons.prems(1) by auto
  have nin: "a \<notin> set as" using pchain_distinct [OF Cons.prems(1)] by simp
  show ?case
  proof (cases "n > len b")
    case False
    then have "pbuf_realloc_loop p n k h = Some (a, n, h)" using b by (subst pbuf_realloc_loop.simps) simp
    moreover have "unat n \<le> plen h a" using False b by (simp add: plen_Some word_less_nat_alt)
    ultimately show ?thesis by (intro exI [of _ "[]"] exI [of _ a] exI [of _ as] exI [of _ n]) simp
  next
    case True
    then have nl: "plen h a < unat n" using b by (simp add: plen_Some word_less_nat_alt)
    then have ne: "as \<noteq> []" using Cons.prems(2) by auto
    define h1 where "h1 = h\<lparr>pbufs := (pbufs h)(a \<mapsto> b\<lparr>tot_len := tot_len b - k\<rparr>)\<rparr>"
    have pl: "plen h1 = plen h" using b(3) by (auto simp: h1_def plen_def fun_eq_iff)
    have sub: "unat (n - len b) = unat n - plen h a" using nl b(3) by (simp add: plen_Some unat_sub_no_wrap)
    have "pchain h1 (pb_next b) as = pchain h (pb_next b) as"
      by (rule pchain_cong) (use nin in \<open>auto simp: h1_def\<close>)
    then obtain pre q post r where IH: "pbuf_realloc_loop (pb_next b) (n - len b) k h1 =
          Some (q, r, h1\<lparr>pbufs := map_tot (set pre) (\<lambda>t. t - k) (pbufs h1)\<rparr>)"
        "as = pre @ q # post" "unat r \<le> plen h1 q" "unat (n - len b) = length (pdata h1 pre) + unat r"
      using Cons.IH [of h1 "pb_next b" "n - len b"] b(4) ne Cons.prems(2) sub length_pdata_cong [OF pl] by fastforce
    have "pbuf_realloc_loop p n k h = pbuf_realloc_loop (pb_next b) (n - len b) k h1"
      using True b ne by (cases as; subst pbuf_realloc_loop.simps) (auto simp: upd_pbuf_def h1_def)
    moreover have "map_tot (set pre) (\<lambda>t. t - k) (pbufs h1) = map_tot (set (a # pre)) (\<lambda>t. t - k) (pbufs h)"
      using map_tot_insert [of "pbufs h" a b "set pre" "\<lambda>t. t - k"] b(3) nin IH(2) by (simp add: h1_def)
    ultimately have "pbuf_realloc_loop p n k h = Some (q, r, h\<lparr>pbufs := map_tot (set (a # pre)) (\<lambda>t. t - k) (pbufs h)\<rparr>)"
      using IH(1) by (simp add: h1_def)
    moreover have "unat n = length (pdata h (a # pre)) + unat r"
      using IH(4) sub nl length_pdata_cong [OF pl, of pre] by simp
    ultimately show ?thesis using IH(2,3) pl
      by (intro exI [of _ "a # pre"] exI [of _ q] exI [of _ post] exI [of _ r]) simp
  qed
qed simp

text \<open>The packet that is left: totals reduced, the last buffer shortened and unlinked.\<close>

lemma packet_shortened:
  assumes p: "packet h p (pre @ q # post)" and qb: "pbufs h q = Some qb" and r: "unat r \<le> unat (len qb)"
    and n: "unat n = length (pdata h pre) + unat r"
    and tot: "unat tot = length (pdata h (pre @ q # post))"
    and old: "\<And>a b. a \<in> set pre \<Longrightarrow> pbufs h a = Some b \<Longrightarrow> pbufs h' a = Some (b\<lparr>tot_len := tot_len b - (tot - n)\<rparr>)"
    and last': "pbufs h' q = Some (qb\<lparr>len := r, tot_len := r, pb_next := 0\<rparr>)" and bytes: "bytes h' = bytes h"
  shows "packet h' p (pre @ [q])" "pdata h' (pre @ [q]) = take (unat n) (pdata h (pre @ q # post))"
proof -
  have q: "pdata h' [q] = take (unat r) (pbytes h q)" "plen h' q = unat r"
    using last' qb r bytes by (simp_all add: pbytes_def plen_Some rd_def take_map)
  have ch: "pchain h p (pre @ q # post)" using p by (simp add: packet_def)
  have lv: "\<exists>b. pbufs h a = Some b" if "a \<in> set pre" for a using pchain_live [OF ch] that by auto
  have same: "\<forall>a \<in> set pre. same_payload h h' a" using lv old by (fastforce simp: same_payload_def)
  have pd: "pdata h' cs = pdata h cs" if "set cs \<subseteq> set pre" for cs
    using same that bytes by (intro pdata_cong) auto
  show "pdata h' (pre @ [q]) = take (unat n) (pdata h (pre @ q # post))"
    using q qb r n pd [of pre] by (simp add: plen_Some)
  have sub: "unat (tot - n) = unat tot - unat n" using n tot r qb by (intro unat_sub_no_wrap) (simp add: plen_Some)
  have rest: "unat tot - unat n + unat r = length (pdata h (q # post))" using n tot r qb by (simp add: plen_Some)
  have "totals_ok h (cs @ q # post) \<Longrightarrow> set cs \<subseteq> set pre \<Longrightarrow> totals_ok h' (cs @ [q])" for cs
  proof (induction cs)
    case Nil
    then show ?case using last' q(2) by simp
  next
    case (Cons a cs)
    obtain b where b: "pbufs h a = Some b" using lv [of a] Cons.prems(2) by auto
    have tb: "unat (tot_len b) = length (pdata h (a # cs)) + length (pdata h (q # post))" using Cons.prems(1) b by simp
    have "unat (tot_len b - (tot - n)) = unat (tot_len b) - unat (tot - n)"
      using tb sub rest by (intro unat_sub_no_wrap) linarith
    then have "unat (tot_len b - (tot - n)) = length (pdata h (a # cs)) + unat r" using tb sub rest by linarith
    moreover have "length (pdata h' (a # cs)) = length (pdata h (a # cs))" using Cons.prems(2) by (subst pd) auto
    ultimately show ?case using Cons old [OF _ b] q(2) by simp
  qed
  moreover have "pchain h' c (cs @ [q])" if "pchain h c (cs @ q # post)" "set cs \<subseteq> set pre" "q \<noteq> 0" for c cs
    using that by (induction cs arbitrary: c) (use last' old in auto)
  moreover have "q \<noteq> 0" using pchain_append [OF ch] by auto
  ultimately show "packet h' p (pre @ [q])" using p by (auto simp: packet_def)
qed

lemma release_refs_other: "a \<notin> set as \<Longrightarrow> release_refs m as a = m a"
  unfolding release_refs_def freed_prefix_def
  by (auto simp: Let_def dest: set_takeWhileD)

lemma pbuf_realloc_packet:
  assumes p: "packet h p as" and inv: "heap_inv h" and refs: "\<forall>a \<in> set as. 0 < pb_ref (the (pbufs h a))"
    and e: "custom_free_ok e"
  shows "\<exists>h' keep rest. pbuf_realloc e p n h = Some h' \<and> as = keep @ rest \<and> packet h' p keep \<and>
     pdata h' keep = take (unat n) (pdata h as) \<and> heap_inv h' \<and> bytes h' = bytes h \<and>
     (\<forall>a. a \<notin> set keep \<longrightarrow> pbufs h' a = release_refs (pbufs h) rest a)"
proof -
  obtain b where b: "pbufs h p = Some b" "p \<noteq> 0" "unat (tot_len b) = length (pdata h as)"
    using p by (rule packet_head)
  have ch: "pchain h p as" "as \<noteq> []" using p by (auto simp: packet_def)
  show ?thesis
  proof (cases "n \<ge> tot_len b")
    case True
    then have "unat n \<ge> length (pdata h as)" using b by (simp add: word_le_nat_alt)
    then show ?thesis using True p inv b
      by (intro exI [of _ h] exI [of _ as] exI [of _ "[]"]) (simp add: pbuf_realloc_def release_refs_other)
  next
    case False
    then have le: "unat n \<le> length (pdata h as)" using b by (simp add: word_le_nat_alt)
    define k where "k = tot_len b - n"
    obtain pre q post r where run: "pbuf_realloc_loop p n k h = Some (q, r, h\<lparr>pbufs := map_tot (set pre) (\<lambda>t. t - k) (pbufs h)\<rparr>)"
        and as: "as = pre @ q # post" and r: "unat r \<le> plen h q" and n: "unat n = length (pdata h pre) + unat r"
      using pbuf_realloc_loop_chain [OF ch(1) le ch(2)] by blast
    have dist: "distinct as" using pchain_distinct [OF ch(1)] .
    obtain qb where qb: "pbufs h q = Some qb" "pchain h (pb_next qb) post"
    proof -
      obtain c where "pchain h c (q # post)" using pchain_append ch(1) as by blast
      then show ?thesis using that by auto
    qed
    define m1 where "m1 = map_tot (set pre) (\<lambda>t. t - k) (pbufs h)"
    define h2 where "h2 = h\<lparr>pbufs := m1(q \<mapsto> qb\<lparr>len := r, tot_len := r\<rparr>)\<rparr>"
    have m1q: "m1 q = Some qb" using dist as qb by (simp add: m1_def map_tot_def)
    have inv1: "heap_inv (h\<lparr>pbufs := m1\<rparr>)" using heap_inv_pbufs_cong [OF inv] map_tot_shape unfolding m1_def by blast
    have inv2: "heap_inv h2"
      using heap_inv_same_owner [OF inv1, of q qb "qb\<lparr>len := r, tot_len := r\<rparr>"] m1q r qb heap_inv_layout [OF inv1, of q qb]
      by (auto simp: h2_def layout_ok_def block_size_def plen_Some)
    have post2: "pbufs h2 a = pbufs h a" if "a \<notin> set pre" "a \<noteq> q" for a
      using that by (simp add: h2_def m1_def map_tot_def)
    have pdis: "a \<notin> set pre" "a \<noteq> q" if "a \<in> set post" for a using that dist as by auto
    obtain h3 where h3: "(if pb_next qb \<noteq> 0 then do { (_, h) \<leftarrow> pbuf_free e (pb_next qb) h2; Some h } else Some h2) = Some h3"
        "heap_inv h3" "bytes h3 = bytes h" "pbufs h3 = release_refs (pbufs h2) post"
    proof (cases "post = []")
      case True
      then show ?thesis using that [of h2] qb(2) inv2 by (simp add: h2_def release_refs_other fun_eq_iff)
    next
      case ne: False
      have "pchain h2 (pb_next qb) post = pchain h (pb_next qb) post"
        by (rule pchain_cong) (use post2 pdis in auto)
      moreover have "\<forall>a \<in> set post. 0 < pb_ref (the (pbufs h2 a))" using refs as post2 pdis by auto
      moreover have "pb_next qb \<noteq> 0" using qb(2) ne by (cases post) auto
      ultimately show ?thesis using pbuf_free_chain [of h2 "pb_next qb" post e] qb(2) ne inv2 e that
        by (force simp: h2_def)
    qed
    have h3q: "pbufs h3 q = Some (qb\<lparr>len := r, tot_len := r\<rparr>)"
      using h3(4) release_refs_other [of q post "pbufs h2"] dist as by (auto simp: h2_def)
    define h' where "h' = h3\<lparr>pbufs := (pbufs h3)(q \<mapsto> qb\<lparr>len := r, tot_len := r, pb_next := 0\<rparr>)\<rparr>"
    have qz: "q \<noteq> 0" using inv qb(1) by (auto simp: heap_inv_def)
    have fin: "pbuf_realloc e p n h = Some h'"
      using run b False m1q h3(1) h3q qz
      by (simp add: pbuf_realloc_def k_def [symmetric] m1_def [symmetric] upd_pbuf_def mem_trim_def h2_def [symmetric] h'_def)
    have pre': "pbufs h' a = Some (c\<lparr>tot_len := tot_len c - k\<rparr>)" if "a \<in> set pre" "pbufs h a = Some c" for a c
    proof -
      have "a \<notin> set post" "a \<noteq> q" using that(1) dist as by auto
      then show ?thesis using that h3(4) by (simp add: release_refs_other h'_def h2_def m1_def map_tot_def)
    qed
    have sh: "packet h' p (pre @ [q])" "pdata h' (pre @ [q]) = take (unat n) (pdata h as)"
      using packet_shortened [of h p pre q post qb r n "tot_len b" h'] p qb r n b as h3(3) pre'
      by (auto simp: plen_Some k_def h'_def)
    have "heap_inv h'" unfolding h'_def
      using heap_inv_layout [OF h3(2) h3q] by (intro heap_inv_same_owner [OF h3(2) h3q]) (simp_all add: layout_ok_def block_size_def)
    moreover have "pbufs h' a = release_refs (pbufs h) post a" if "a \<notin> set (pre @ [q])" for a
    proof -
      have "release_refs (pbufs h2) post a = release_refs (pbufs h) post a"
        using that post2 pdis by (cases "a \<in> set post") (auto simp: release_refs_other release_refs_def freed_prefix_def cong: takeWhile_cong)
      then show ?thesis using that h3(4) by (simp add: h'_def)
    qed
    ultimately show ?thesis using fin sh h3(3) as
      by (intro exI [of _ h'] exI [of _ "pre @ [q]"] exI [of _ post]) (simp add: h'_def)
  qed
qed

section \<open>Dropping bytes from the front\<close>

definition exclusive :: "heap \<Rightarrow> nat list \<Rightarrow> bool" where
  "exclusive h as \<longleftrightarrow> (\<forall>a \<in> set as. \<exists>b. pbufs h a = Some b \<and> pb_ref b = 1)"

lemma exclusive_Cons [simp]:
  "exclusive h (a # as) \<longleftrightarrow> (\<exists>b. pbufs h a = Some b \<and> pb_ref b = 1) \<and> exclusive h as"
  by (simp add: exclusive_def)

lemma exclusive_Nil [simp]: "exclusive h []"
  by (simp add: exclusive_def)

lemma exclusive_append [simp]: "exclusive h (as @ bs) \<longleftrightarrow> exclusive h as \<and> exclusive h bs"
  by (auto simp: exclusive_def)

lemma exclusive_refs: "exclusive h as \<Longrightarrow> \<forall>a \<in> set as. pb_ref (the (pbufs h a)) = 1"
  by (auto simp: exclusive_def)

lemma pbuf_free_exclusive:
  assumes "pchain h p as" "as \<noteq> []" "heap_inv h" "exclusive h as" "custom_free_ok e"
  shows "\<exists>c h'. pbuf_free e p h = Some (c, h') \<and> heap_inv h' \<and> bytes h' = bytes h \<and>
     pbufs h' = (\<lambda>a. if a \<in> set as then None else pbufs h a)"
  using pbuf_free_chain [OF assms(1-3) _ assms(5)] release_refs_all [OF exclusive_refs [OF assms(4)]]
    exclusive_refs [OF assms(4)] by auto

text \<open>A packet does not depend on the other buffers.\<close>

lemma packet_frame:
  assumes "\<forall>a \<in> set as. pbufs h' a = pbufs h a" "bytes h' = bytes h"
  shows "packet h' p as = packet h p as" "pdata h' as = pdata h as" "totals_ok h' as = totals_ok h as"
    "pchain h' p as = pchain h p as" "exclusive h' as = exclusive h as"
proof -
  have pb: "pbytes h' a = pbytes h a" if "a \<in> set as" for a
    using assms that by (simp add: pbytes_def rd_def plen_def)
  have pd: "pdata h' cs = pdata h cs" if "set cs \<subseteq> set as" for cs
    unfolding pdata_def using that pb by (intro arg_cong [where f = concat] map_cong refl) auto
  show "pdata h' as = pdata h as" by (rule pd) simp
  have tt: "totals_ok h' cs = totals_ok h cs" if "set cs \<subseteq> set as" for cs
    using that
  proof (induction cs)
    case (Cons a cs)
    then show ?case using pd [of "a # cs"] assms(1) by (auto simp del: pdata_Cons)
  qed simp
  show "totals_ok h' as = totals_ok h as" by (rule tt) simp
  show ch: "pchain h' p as = pchain h p as" by (rule pchain_cong) (use assms(1) in simp)
  show "packet h' p as = packet h p as" by (simp add: packet_def ch tt)
  show "exclusive h' as = exclusive h as" using assms(1) by (simp add: exclusive_def)
qed

lemma pbuf_free_header_loop_done: "pbuf_free_header_loop e p 0 h = Some (p, h)"
  by (subst pbuf_free_header_loop.simps) simp

lemma pbuf_free_header_packet:
  assumes "pchain h p as" "totals_ok h as" "heap_inv h" "exclusive h as" "custom_free_ok e"
  shows "\<exists>q h' gone rest. pbuf_free_header_loop e p n h = Some (q, h') \<and> as = gone @ rest \<and>
     pchain h' q rest \<and> totals_ok h' rest \<and> exclusive h' rest \<and> pdata h' rest = drop (unat n) (pdata h as) \<and> heap_inv h' \<and>
     bytes h' = bytes h \<and> (\<forall>a. a \<notin> set rest \<longrightarrow> pbufs h' a = (if a \<in> set gone then None else pbufs h a))"
  using assms(1-4)
proof (induction as arbitrary: p n h)
  case Nil
  then show ?case by (subst pbuf_free_header_loop.simps) simp
next
  case (Cons a as)
  obtain b where b: "p = a" "a \<noteq> 0" "pbufs h a = Some b" "pchain h (pb_next b) as" "pb_ref b = 1"
    using Cons.prems(1,4) by auto
  have nin: "a \<notin> set as" using pchain_distinct [OF Cons.prems(1)] by simp
  have pk: "packet h a (a # as)" using Cons.prems(1,2) b(1) by (simp add: packet_def)
  consider (none) "n = 0" | (all) "n \<noteq> 0" "len b \<le> n" | (part) "n \<noteq> 0" "n < len b" by fastforce
  then show ?case
  proof cases
    case none
    then show ?thesis using Cons.prems
      by (intro exI [of _ p] exI [of _ h] exI [of _ "[]"] exI [of _ "a # as"]) (simp add: pbuf_free_header_loop_done)
  next
    case all
    define h1 where "h1 = h\<lparr>pbufs := (pbufs h)(a \<mapsto> b\<lparr>pb_next := 0\<rparr>)\<rparr>"
    have inv1: "heap_inv h1" unfolding h1_def
      using heap_inv_layout [OF Cons.prems(3) b(3)] by (intro heap_inv_same_owner [OF Cons.prems(3) b(3)]) simp_all
    obtain c h2 where h2: "pbuf_free e a h1 = Some (c, h2)" "heap_inv h2" "bytes h2 = bytes h1"
        "pbufs h2 = (\<lambda>x. if x \<in> set [a] then None else pbufs h1 x)"
      using pbuf_free_exclusive [of h1 a "[a]" e] inv1 b assms(5) by (auto simp: h1_def)
    have same: "\<forall>x \<in> set as. pbufs h2 x = pbufs h x" "bytes h2 = bytes h" using h2(3,4) nin by (auto simp: h1_def)
    note fr = packet_frame [OF same]
    obtain q h' gone rest where IH: "pbuf_free_header_loop e (pb_next b) (n - len b) h2 = Some (q, h')" "as = gone @ rest"
        "pchain h' q rest" "totals_ok h' rest" "exclusive h' rest" "pdata h' rest = drop (unat (n - len b)) (pdata h2 as)"
        "heap_inv h'" "bytes h' = bytes h2" "\<forall>a. a \<notin> set rest \<longrightarrow> pbufs h' a = (if a \<in> set gone then None else pbufs h2 a)"
      using Cons.IH [of h2 "pb_next b" "n - len b"] b(4) Cons.prems(2,4) h2(2) fr(3,4,5) by (auto simp del: pdata_append)
    have "pbuf_free_header_loop e p n h = Some (q, h')"
      using all b IH(1) h2(1) by (subst pbuf_free_header_loop.simps) (simp add: upd_pbuf_def h1_def)
    moreover have "pdata h' rest = drop (unat n) (pdata h (a # as))"
      using IH(6) all b(3) fr(2) by (simp add: unat_sub_no_wrap word_le_nat_alt plen_Some)
    moreover have "pbufs h2 x = (if x = a then None else pbufs h x)" for x using h2(4) by (simp add: h1_def)
    ultimately show ?thesis using IH(2-5,7-9) same(2)
      by (intro exI [of _ q] exI [of _ h'] exI [of _ "a # gone"] exI [of _ rest]) auto
  next
    case part
    then have "unat n \<le> plen h a" using b(3) by (simp add: plen_Some word_less_nat_alt)
    then obtain h' where h': "pbuf_remove_header a (unat n) h = Some (False, h')" "packet h' a (a # as)"
        "pdata h' (a # as) = drop (unat n) (pdata h (a # as))" "heap_inv h'" "\<forall>x. x \<noteq> a \<longrightarrow> pbufs h' x = pbufs h x"
        "bytes h' = bytes h"
      using pbuf_remove_header_packet [OF pk Cons.prems(3), of "unat n"] by (auto split: if_splits)
    have "exclusive h' (a # as)"
    proof -
      have "exclusive h' as" using Cons.prems(4) h'(5) nin unfolding exclusive_def by (metis list.set_intros(2))
      moreover have "\<exists>c. pbufs h' a = Some c \<and> pb_ref c = 1"
        using h'(1) b part
        by (auto simp: pbuf_remove_header_def Let_def split: if_splits)
      ultimately show ?thesis by simp
    qed
    moreover have "pbuf_free_header_loop e p n h = Some (a, h')"
      using part(1) part(2) [unfolded linorder_not_le [symmetric]] b h'(1) by (subst pbuf_free_header_loop.simps) (simp add: pbuf_free_header_loop_done)
    ultimately show ?thesis using h' b(1) unfolding packet_def
      by (intro exI [of _ a] exI [of _ h'] exI [of _ "[]"] exI [of _ "a # as"]) (simp del: pdata_Cons exclusive_Cons totals_ok.simps pchain.simps)
  qed
qed

section \<open>Linking and unlinking with a reference\<close>

lemma pbuf_dechain_undoes_chain:
  assumes p: "packet h p [p]" and t: "packet h t bs" "p \<notin> set bs" and inv: "heap_inv h" "custom_free_ok e"
    and tb: "pbufs h t = Some tb" "pb_ref tb \<noteq> 255" "0 < pb_ref tb"
    and fit: "length (pdata h [p]) + length (pdata h bs) < 65536"
  shows "\<exists>h1. pbuf_chain p t h = Some h1 \<and> packet h1 p (p # bs) \<and> pdata h1 (p # bs) = pdata h [p] @ pdata h bs \<and>
     heap_inv h1 \<and> pbuf_dechain e p h1 = Some (t, h)"
proof -
  obtain bs' where bs: "bs = t # bs'" "t \<noteq> 0" using t(1) by (rule packet_head)
  obtain pb where pb: "pbufs h p = Some pb" "p \<noteq> 0" "pb_next pb = 0" "tot_len pb = len pb"
    using p unfolding packet_Cons_iff by (auto intro: unsigned_word_eqI)
  have ne: "p \<noteq> t" using t(2) bs(1) by auto
  define h0 where "h0 = h\<lparr>pbufs := joined (pbufs h) [p] t (tot_len tb)\<rparr>"
  have dis: "set [p] \<inter> set bs = {}" using t(2) by simp
  have cat: "pbuf_cat p t h = Some h0"
    using pbuf_cat_run [OF p t(1) dis] tb(1) by (auto simp: h0_def)
  note j = packet_joined [OF p t(1) dis tb(1) fit h0_def]
  have inv0: "heap_inv h0" unfolding h0_def by (rule heap_inv_pbufs_cong [OF inv(1)]) (rule joined_shape)
  have m0: "pbufs h0 = (pbufs h)(p \<mapsto> pb\<lparr>tot_len := len pb + tot_len tb, pb_next := t\<rparr>)"
    using pb by (auto simp: h0_def joined_def fun_eq_iff)
  have t0: "pbufs h0 t = Some tb" using m0 ne tb(1) by simp
  define h1 where "h1 = h0\<lparr>pbufs := (pbufs h0)(t \<mapsto> tb\<lparr>pb_ref := pb_ref tb + 1\<rparr>)\<rparr>"
  have ref: "pbuf_ref t h0 = Some h1" "heap_inv h1"
    using pbuf_ref_incr [OF inv0 t0 tb(2)] by (auto simp: h1_def)
  have sp: "\<forall>a \<in> set (p # bs). same_payload h0 h1 a"
  proof
    fix a assume "a \<in> set (p # bs)"
    then obtain b where "pbufs h0 a = Some b" using j(1) pchain_live [of h0 p "p # bs" a] by (auto simp: packet_def)
    then show "same_payload h0 h1 a" using t0 by (auto simp: same_payload_def h1_def)
  qed
  have pd: "pdata h1 (p # bs) = pdata h0 (p # bs)" by (rule pdata_cong [OF _ sp]) (simp add: h1_def)
  have "pchain h1 p (p # bs) = pchain h0 p (p # bs)" by (rule pchain_cong) (use t0 in \<open>auto simp: h1_def\<close>)
  moreover have "totals_plus h1 (p # bs) 0 = totals_plus h0 (p # bs) 0"
    by (rule totals_plus_cong [OF _ sp]) (use t0 in \<open>auto simp: h1_def\<close>)
  ultimately have pk: "packet h1 p (p # bs)" using j(1) by (simp add: packet_def totals_plus_0)
  have sum: "unat (len pb + tot_len tb) = unat (len pb) + unat (tot_len tb)"
    using fit pb(1) packet_tot_len [OF t(1) tb(1)] by (intro unat_add_no_wrap) (simp add: plen_Some)
  have r1: "pb_ref tb + 1 - 1 = pb_ref tb" "pb_ref tb \<noteq> 0" "0 < pb_ref tb + 1"
    using tb(2,3) by (auto simp: word_neq_0_conv [symmetric]) (metis add.right_neutral add_diff_cancel_right' diff_0 minus_one_word_255)
  have restored: "(pbufs h)(t \<mapsto> tb, p \<mapsto> pb) = pbufs h" "pb\<lparr>pb_next := 0, tot_len := len pb\<rparr> = pb"
    using pb tb(1) by auto
  have h1_eq: "h1 = h\<lparr>pbufs := (pbufs h)(p \<mapsto> pb\<lparr>tot_len := len pb + tot_len tb, pb_next := t\<rparr>,
      t \<mapsto> tb\<lparr>pb_ref := pb_ref tb + 1\<rparr>)\<rparr>" using m0 by (simp add: h1_def h0_def)
  have "pbuf_dechain e p h1 =
      Some (t, h\<lparr>pbufs := (pbufs h)(t \<mapsto> tb, p \<mapsto> pb\<lparr>pb_next := 0, tot_len := len pb\<rparr>)\<rparr>)"
    using pb tb(1) ne bs(2) sum r1
    by (simp add: pbuf_dechain_def h1_eq upd_pbuf_def pbuf_free_def pbuf_free_loop.simps [of _ t] fun_upd_twist)
  then have "pbuf_dechain e p h1 = Some (t, h)" unfolding restored by simp
  moreover have "pbuf_chain p t h = Some h1" using cat ref(1) by (simp add: pbuf_chain_def)
  ultimately show ?thesis using pk ref(2) pd j(2) by simp
qed

section \<open>Copies\<close>

definition owned :: "heap \<Rightarrow> nat list \<Rightarrow> bool" where
  "owned h as \<longleftrightarrow>
     (\<forall>a \<in> set as. \<exists>b. pbufs h a = Some b \<and> (pbuf_owner b = Own_pool \<or> pbuf_owner b = Own_heap))"

lemma pbuf_alloc_spec:
  assumes "heap_inv h" "malloc_ok e" "custom_free_ok e" "type = PBUF_RAM \<or> type = PBUF_POOL"
  shows "\<exists>r h'. pbuf_alloc e layer n type h = Some (r, h') \<and> heap_inv h' \<and> bytes h' = bytes h \<and>
     (if r = 0 then pbufs h' = pbufs h else \<exists>as. fresh_packet (pbufs h) h' r as (unat n) \<and> (type = PBUF_RAM \<longrightarrow> as = [r]))"
  using assms(4)
proof
  assume type: "type = PBUF_RAM"
  obtain r h' where r: "pbuf_alloc e layer n PBUF_RAM h = Some (r, h')" "heap_inv h'" "bytes h' = bytes h"
      "if r = 0 then h' = h else fresh_packet (pbufs h) h' r [r] (unat n)"
    using pbuf_alloc_ram_spec [OF assms(1,2)] by blast
  then show ?thesis using type by (cases "r = 0") auto
next
  assume "type = PBUF_POOL"
  then show ?thesis using pbuf_alloc_pool_spec [OF assms(1,3), of layer n] by (simp cong: if_cong split del: if_split)
qed

lemma pbuf_clone_packet:
  assumes p: "packet h p fs" "no_empty_tail h fs" "owned h fs" and inv: "heap_inv h"
    and e: "malloc_ok e" "custom_free_ok e" and type: "type = PBUF_RAM \<or> type = PBUF_POOL"
  shows "\<exists>q h'. pbuf_clone e layer type p h = Some (q, h') \<and> heap_inv h' \<and>
     (if q = 0 then pbufs h' = pbufs h \<and> bytes h' = bytes h
      else \<exists>as. fresh_packet (pbufs h) h' q as (length (pdata h fs)) \<and> (type = PBUF_RAM \<longrightarrow> as = [q]) \<and>
             pdata h' as = pdata h fs \<and> pdata h' fs = pdata h fs)"
proof -
  obtain b where b: "pbufs h p = Some b" "unat (tot_len b) = length (pdata h fs)" using p(1) by (rule packet_head)
  obtain q h1 where al: "pbuf_alloc e layer (tot_len b) type h = Some (q, h1)" "heap_inv h1" "bytes h1 = bytes h"
      "if q = 0 then pbufs h1 = pbufs h
       else \<exists>as. fresh_packet (pbufs h) h1 q as (length (pdata h fs)) \<and> (type = PBUF_RAM \<longrightarrow> as = [q])"
    using pbuf_alloc_spec [OF inv e type, of layer "tot_len b", unfolded b(2)] by blast
  show ?thesis
  proof (cases "q = 0")
    case True
    then show ?thesis using al b by (simp add: pbuf_clone_def)
  next
    case False
    then obtain as where f: "fresh_packet (pbufs h) h1 q as (length (pdata h fs))" "type = PBUF_RAM \<longrightarrow> as = [q]"
      using al(4) by auto
    have pk: "packet h1 q as" "length (pdata h1 as) = length (pdata h fs)" "no_empty_tail h1 as"
        "set as \<inter> dom (pbufs h) = {}" "\<forall>a. a \<notin> set as \<longrightarrow> pbufs h1 a = pbufs h a" "owned h1 as"
      using f(1) unfolding fresh_packet_def owned_def by auto
    have lv: "\<exists>b. pbufs h a = Some b" if "a \<in> set fs" for a using pchain_live p(1) that by (auto simp: packet_def)
    have dis: "set as \<inter> set fs = {}" using pk(4) lv by fastforce
    have same: "\<forall>a \<in> set fs. pbufs h1 a = pbufs h a" using pk(5) dis by auto
    note fr = packet_frame [OF same al(3)]
    have ow: "owned h1 (as @ fs)" using pk(6) p(3) same by (auto simp: owned_def)
    then have dj: "disjoint_payloads h1 (as @ fs)" using owned_chain_disjoint [OF al(2)] by (simp add: owned_def)
    have dst: "distinct (as @ fs)" using pchain_distinct pk(1) p(1) dis by (auto simp: packet_def)
    have net: "no_empty_tail h1 fs"
      using p(2) same p(1) by (auto simp: no_empty_tail_def plen_def packet_def)
    obtain h2 where h2: "pbuf_copy q p h1 = Some (ERR_OK, h2)" "pdata h2 as = overwrite (pdata h1 as) 0 (pdata h1 fs)"
        "writes_only (packet_region h1 as) h1 h2"
      using pbuf_copy_data [OF pk(1) _ pk(3) net _ _ disjoint_payloads_append [OF dj dst], of p]
        p(1) fr(1,2) pk(2) disjoint_payloads_subset [OF _ dj, of as] disjoint_payloads_subset [OF _ dj, of fs]
      by auto
    have cl: "pbuf_clone e layer type p h = Some (q, h2)" using b(1) al(1) False h2(1) by (simp add: pbuf_clone_def)
    have inv2: "heap_inv h2" using heap_inv_writes [OF h2(3)] al(2) by simp
    have dat: "pdata h2 as = pdata h fs" using h2(2) fr(2) pk(2) by (simp add: overwrite_def)
    have fs2: "pdata h2 fs = pdata h fs"
      using writes_only_pdata [OF h2(3), of fs] disjoint_payloads_append [OF dj dst] fr(2) by auto
    have "pbufs h2 = pbufs h1" using writes_only_simps(1) [OF h2(3)] .
    moreover have "packet h2 q as" using writes_only_packet [OF h2(3)] pk(1) by simp
    moreover have "no_empty_tail h2 as" using pk(3) writes_only_simps(2) [OF h2(3)] by (simp add: no_empty_tail_def)
    ultimately have "fresh_packet (pbufs h) h2 q as (length (pdata h fs))"
      using f(1) dat unfolding fresh_packet_def by simp
    then show ?thesis using cl inv2 False dat fs2 f(2) by auto
  qed
qed

lemma pbuf_coalesce_packet:
  assumes p: "packet h p fs" "no_empty_tail h fs" "owned h fs" "exclusive h fs" and inv: "heap_inv h"
    and e: "malloc_ok e" "custom_free_ok e"
  shows "\<exists>q h' as. pbuf_coalesce e p layer h = Some (q, h') \<and> heap_inv h' \<and> packet h' q as \<and> pdata h' as = pdata h fs \<and>
     (if q = p then as = fs \<and> pbufs h' = pbufs h
      else as = [q] \<and> (\<forall>a \<in> set fs. pbufs h' a = None) \<and> (\<forall>a. a \<notin> set (q # fs) \<longrightarrow> pbufs h' a = pbufs h a))"
proof -
  obtain b fs' where b: "pbufs h p = Some b" "fs = p # fs'" "pchain h (pb_next b) fs'" "p \<noteq> 0" using p(1) by (rule packet_head)
  show ?thesis
  proof (cases "pb_next b = 0")
    case True
    then show ?thesis using b p inv
      by (intro exI [of _ p] exI [of _ h] exI [of _ fs]) (simp add: pbuf_coalesce_def)
  next
    case nx: False
    obtain q h1 where cl: "pbuf_clone e layer PBUF_RAM p h = Some (q, h1)" "heap_inv h1"
        "if q = 0 then pbufs h1 = pbufs h \<and> bytes h1 = bytes h
         else \<exists>as. fresh_packet (pbufs h) h1 q as (length (pdata h fs)) \<and> (PBUF_RAM = PBUF_RAM \<longrightarrow> as = [q]) \<and> pdata h1 as = pdata h fs \<and> pdata h1 fs = pdata h fs"
      using pbuf_clone_packet [OF p(1-3) inv e, of PBUF_RAM layer] by blast
    show ?thesis
    proof (cases "q = 0")
      case True
      then have "\<forall>a \<in> set fs. pbufs h1 a = pbufs h a" "bytes h1 = bytes h" using cl(3) by auto
      note fr = packet_frame [OF this]
      have "pbuf_coalesce e p layer h = Some (p, h1)" using b nx cl True by (simp add: pbuf_coalesce_def)
      then show ?thesis using True p(1) fr cl by (intro exI [of _ p] exI [of _ h1] exI [of _ fs]) simp
    next
      case False
      then have f: "packet h1 q [q]" "q \<notin> dom (pbufs h)" "\<forall>a. a \<noteq> q \<longrightarrow> pbufs h1 a = pbufs h a" "pdata h1 [q] = pdata h fs"
        using cl(3) by (auto simp: fresh_packet_def)
      have qn: "q \<notin> set fs" using f(2) pchain_live [of h p fs q] p(1) by (auto simp: packet_def)
      have same: "a \<in> set fs \<Longrightarrow> pbufs h1 a = pbufs h a" for a using f(3) qn by auto
      have "pchain h1 p fs" "exclusive h1 fs"
        using p(1,4) same pchain_cong [of fs h1 h p] by (auto simp: packet_def exclusive_def)
      then obtain c h2 where h2: "pbuf_free e p h1 = Some (c, h2)" "heap_inv h2" "bytes h2 = bytes h1"
          "pbufs h2 = (\<lambda>a. if a \<in> set fs then None else pbufs h1 a)"
        using pbuf_free_exclusive [of h1 p fs e] cl(2) e(2) b(2) by auto
      have "\<forall>a \<in> set [q]. pbufs h2 a = pbufs h1 a" using h2(4) qn by simp
      note fr = packet_frame [OF this h2(3)]
      have "pbuf_coalesce e p layer h = Some (q, h2)" using b nx cl(1) False h2(1) by (simp add: pbuf_coalesce_def)
      then show ?thesis using f fr h2 b(2) qn
        by (intro exI [of _ q] exI [of _ h2] exI [of _ "[q]"]) auto
    qed
  qed
qed

end
