(* ===== verification/Pbuf_Props.thy ===== *)
theory Pbuf_Props
  imports Pbuf_Chain
begin

text \<open>
  The properties of \<^verbatim>\<open>pbuf.c\<close>, and the small heap on which their witnesses run. The interface that
  the protocol layers use to hide and reveal headers is the locale \<open>header_stack\<close>: it is interpreted on
  \<^verbatim>\<open>pbuf_remove_header\<close> and \<^verbatim>\<open>pbuf_add_header\<close>.
\<close>

section \<open>Headers of several layers\<close>

locale header_stack =
  fixes ok :: "'h \<Rightarrow> bool" and room :: "'h \<Rightarrow> nat" and content :: "'h \<Rightarrow> u8 list"
    and pop :: "nat \<Rightarrow> 'h \<Rightarrow> 'h option" and push :: "nat \<Rightarrow> 'h \<Rightarrow> 'h option"
  assumes pop_ok: "ok h \<Longrightarrow> n \<le> room h \<Longrightarrow>
      \<exists>h'. pop n h = Some h' \<and> ok h' \<and> room h' = room h - n \<and> content h' = drop n (content h) \<and> push n h' = Some h"
    and pop_short: "ok h \<Longrightarrow> room h < n \<Longrightarrow> pop n h = None"
begin

fun pops :: "nat list \<Rightarrow> 'h \<Rightarrow> 'h option" where
  "pops [] h = Some h"
| "pops (n # ns) h = Option.bind (pop n h) (pops ns)"

fun pushes :: "nat list \<Rightarrow> 'h \<Rightarrow> 'h option" where
  "pushes [] h = Some h"
| "pushes (n # ns) h = Option.bind (push n h) (pushes ns)"

lemma pushes_snoc: "pushes (ns @ [n]) h = Option.bind (pushes ns h) (push n)"
proof (induction ns arbitrary: h)
  case Nil
  then show ?case by (cases "push n h") auto
next
  case (Cons m ns)
  then show ?case by (cases "push m h") auto
qed

lemma pops_ok:
  "ok h \<Longrightarrow> sum_list ns \<le> room h \<Longrightarrow>
   \<exists>h'. pops ns h = Some h' \<and> ok h' \<and> content h' = drop (sum_list ns) (content h) \<and> pushes (rev ns) h' = Some h"
proof (induction ns arbitrary: h)
  case (Cons n ns)
  obtain h1 where h1: "pop n h = Some h1" "ok h1" "room h1 = room h - n" "content h1 = drop n (content h)" "push n h1 = Some h"
    using pop_ok [of h n] Cons.prems by auto
  have le: "sum_list ns \<le> room h1" using Cons.prems(2) h1(3) by simp
  obtain h' where "pops ns h1 = Some h'" "ok h'" "content h' = drop (sum_list ns) (content h1)" "pushes (rev ns) h' = Some h1"
    using Cons.IH [OF h1(2)] le by blast
  then show ?case using h1 by (simp add: pushes_snoc add.commute)
qed simp

lemma pops_short: "ok h \<Longrightarrow> room h < sum_list ns \<Longrightarrow> pops ns h = None"
proof (induction ns arbitrary: h)
  case (Cons n ns)
  show ?case
  proof (cases "n \<le> room h")
    case True
    then obtain h1 where "pop n h = Some h1" "ok h1" "room h1 = room h - n" using pop_ok [OF Cons.prems(1)] by blast
    then show ?thesis using Cons True by simp
  qed (use pop_short [OF Cons.prems(1)] in simp)
qed simp

end

text \<open>The instance: a packet whose first buffer holds its structure and data in one piece. The functions
  return non-zero on failure.\<close>

definition on_success :: "(bool \<times> heap) option \<Rightarrow> heap option" where
  "on_success r = (case r of Some (False, h) \<Rightarrow> Some h | _ \<Rightarrow> None)"

definition contiguous_packet :: "nat \<Rightarrow> nat list \<Rightarrow> heap \<Rightarrow> bool" where
  "contiguous_packet p as h \<longleftrightarrow>
     packet h p (p # as) \<and> heap_inv h \<and>
     (\<exists>b. pbufs h p = Some b \<and> type_internal b AND PBUF_TYPE_FLAG_STRUCT_DATA_CONTIGUOUS \<noteq> 0 \<and>
        p + SIZEOF_STRUCT_PBUF \<le> payload b)"

definition remove_headers :: "nat \<Rightarrow> nat list \<Rightarrow> heap \<Rightarrow> heap option" where
  "remove_headers p ns h =
     foldl (\<lambda>r n. Option.bind r (\<lambda>h. on_success (pbuf_remove_header p n h))) (Some h) ns"

definition add_headers :: "nat \<Rightarrow> nat list \<Rightarrow> heap \<Rightarrow> heap option" where
  "add_headers p ns h =
     foldl (\<lambda>r n. Option.bind r (\<lambda>h. on_success (pbuf_add_header p n h))) (Some h) ns"

lemma contiguous_pop:
  assumes c: "contiguous_packet p as h" and n: "n \<le> plen h p"
  shows "\<exists>h'. on_success (pbuf_remove_header p n h) = Some h' \<and> contiguous_packet p as h' \<and> plen h' p = plen h p - n \<and>
     pdata h' (p # as) = drop n (pdata h (p # as)) \<and> on_success (pbuf_add_header p n h') = Some h"
proof -
  obtain b where b: "packet h p (p # as)" "heap_inv h" "pbufs h p = Some b"
      "type_internal b AND PBUF_TYPE_FLAG_STRUCT_DATA_CONTIGUOUS \<noteq> 0" "p + SIZEOF_STRUCT_PBUF \<le> payload b"
    using c by (auto simp: contiguous_packet_def)
  obtain h' where h': "pbuf_remove_header p n h = Some (False, h')" "packet h' p (p # as)" "heap_inv h'"
      "pdata h' (p # as) = drop n (pdata h (p # as))"
    using pbuf_remove_header_packet [OF b(1,2), of n] n by (auto split: if_splits)
  have "pbuf_add_header p n h' = Some (False, h)"
    using pbuf_header_undo [OF b(1,3,2,4,5) n] h'(1) by auto
  moreover have "\<exists>b'. pbufs h' p = Some b' \<and> type_internal b' = type_internal b \<and> payload b \<le> payload b' \<and>
      len b' = len b - word_of_nat n"
    using h'(1) b(3) by (auto simp: pbuf_remove_header_def Let_def split: if_splits)
  moreover have "unat (len b - word_of_nat n) = unat (len b) - n"
    using n b(3) order_le_less_trans [OF n plen_less] by (subst unat_sub_no_wrap) (auto simp: plen_Some)
  ultimately show ?thesis using h' b by (auto simp: contiguous_packet_def on_success_def plen_Some)
qed

interpretation headers: header_stack "contiguous_packet p as" "\<lambda>h. plen h p" "\<lambda>h. pdata h (p # as)"
    "\<lambda>n h. on_success (pbuf_remove_header p n h)" "\<lambda>n h. on_success (pbuf_add_header p n h)" for p as
proof (unfold_locales, goal_cases)
  case (1 h n)
  then show ?case by (rule contiguous_pop)
next
  case (2 h n)
  then show ?case using pbuf_remove_header_packet [of h p as n] by (simp add: contiguous_packet_def on_success_def)
qed

lemma remove_headers_pops: "remove_headers p ns h = headers.pops p ns h"
proof -
  have none: "foldl (\<lambda>r n. Option.bind r (\<lambda>h. on_success (pbuf_remove_header p n h))) None ms = None" for ms
    by (induction ms) auto
  have "foldl (\<lambda>r n. Option.bind r (\<lambda>h. on_success (pbuf_remove_header p n h))) (Some h) ns = headers.pops p ns h"
  proof (induction ns arbitrary: h)
    case (Cons n ns)
    then show ?case using none by (cases "on_success (pbuf_remove_header p n h)") auto
  qed simp
  then show ?thesis by (simp add: remove_headers_def)
qed

lemma add_headers_pushes: "add_headers p ns h = headers.pushes p ns h"
proof -
  have none: "foldl (\<lambda>r n. Option.bind r (\<lambda>h. on_success (pbuf_add_header p n h))) None ms = None" for ms
    by (induction ms) auto
  have "foldl (\<lambda>r n. Option.bind r (\<lambda>h. on_success (pbuf_add_header p n h))) (Some h) ns = headers.pushes p ns h"
  proof (induction ns arbitrary: h)
    case (Cons n ns)
    then show ?case using none by (cases "on_success (pbuf_add_header p n h)") auto
  qed simp
  then show ?thesis by (simp add: add_headers_def)
qed

section \<open>An example heap\<close>

text \<open>The packet ``abc'', ``de'' in two buffers of the C library's heap, a buffer of four bytes, and the
  string ``cd'' at address 400; the pools are those \<^verbatim>\<open>memp_init\<close> sets up, with two elements each.\<close>

definition example_pools :: "memp_t \<Rightarrow> memp_desc" where
  "example_pools = (\<lambda>type. memp_init_pool
     (if type = MEMP_PBUF_POOL then \<lparr>desc_size = 1532, desc_num = 2, desc_base = 10000, tab = 0, link = \<lambda>_. 0\<rparr>
      else \<lparr>desc_size = 16, desc_num = 2, desc_base = 20000, tab = 0, link = \<lambda>_. 0\<rparr>))"

definition example_pbuf :: "nat \<Rightarrow> nat \<Rightarrow> u16 \<Rightarrow> u16 \<Rightarrow> pbuf" where
  "example_pbuf nxt pl t l =
     \<lparr>pb_next = nxt, payload = pl, tot_len = t, len = l, type_internal = 0x80, pb_flags = 0, pb_ref = 1, if_idx = 0\<rparr>"

definition example_heap :: heap where
  "example_heap =
     \<lparr>pbufs = [96 \<mapsto> example_pbuf 160 128 5 3, 160 \<mapsto> example_pbuf 0 192 2 2, 224 \<mapsto> example_pbuf 0 256 4 4],
      bytes = (\<lambda>_. 0)(128 := 97, 129 := 98, 130 := 99, 192 := 100, 193 := 101, 400 := 99, 401 := 100),
      heap_blocks = [96 \<mapsto> 64, 160 \<mapsto> 64, 224 \<mapsto> 64], pools = example_pools, pbuf_free_ooseq_pending = False\<rparr>"

definition malloc_fits :: "heap \<Rightarrow> nat \<Rightarrow> nat \<Rightarrow> bool" where
  "malloc_fits h n a \<longleftrightarrow>
     a \<notin> dom (heap_blocks h) \<and> pbufs h a = None \<and>
     a \<notin> pool_elems (pools h MEMP_PBUF_POOL) \<union> pool_elems (pools h MEMP_PBUF) \<and>
     {a..<a + n} \<inter> pool_memory (pools h MEMP_PBUF_POOL) = {} \<and>
     (\<forall>b m. heap_blocks h b = Some m \<longrightarrow> {a..<a + n} \<inter> {b..<b + m} = {})"

definition example_env :: pbuf_env where
  "example_env =
     \<lparr>libc_malloc = (\<lambda>h n. if malloc_fits h n 40000 then 40000 else 0),
      custom_free_function = (\<lambda>p. Some (\<lambda>h. Some (h\<lparr>pbufs := (pbufs h)(p := None)\<rparr>)))\<rparr>"

lemma example_env_ok: "malloc_ok example_env" "custom_free_ok example_env"
  by (simp_all add: malloc_ok_def custom_free_ok_def example_env_def malloc_fits_def)

lemma example_pools_elems:
  "pool_elems (example_pools MEMP_PBUF_POOL) = {10000, 11532}" "pool_elems (example_pools MEMP_PBUF) = {20000, 20016}"
  "desc_size (example_pools MEMP_PBUF_POOL) = 1532"
  "pool.holds (example_pools MEMP_PBUF_POOL) {}" "pool.holds (example_pools MEMP_PBUF) {}"
proof -
  define d1 where "d1 = \<lparr>desc_size = 1532, desc_num = 2, desc_base = 10000, tab = 0, link = \<lambda>_. 0 :: nat\<rparr>"
  define d2 where "d2 = \<lparr>desc_size = 16, desc_num = 2, desc_base = 20000, tab = 0, link = \<lambda>_. 0 :: nat\<rparr>"
  have d: "desc_ok d1" "desc_ok d2" "example_pools MEMP_PBUF_POOL = memp_init_pool d1" "example_pools MEMP_PBUF = memp_init_pool d2"
    by (simp_all add: desc_ok_def d1_def d2_def example_pools_def)
  note init = memp_init_pool_all [OF d(1)] memp_init_pool_all [OF d(2)]
  show "pool_elems (example_pools MEMP_PBUF_POOL) = {10000, 11532}" "pool_elems (example_pools MEMP_PBUF) = {20000, 20016}"
    unfolding d(3,4) init
    by (simp_all add: d1_def d2_def pool_elems_def LWIP_MEM_ALIGN_def lessThan_nat_numeral lessThan_Suc insert_commute)
  show "desc_size (example_pools MEMP_PBUF_POOL) = 1532"
    by (simp add: d(3) memp_init_pool_def d1_def numeral_2_eq_2)
  show "pool.holds (example_pools MEMP_PBUF_POOL) {}" "pool.holds (example_pools MEMP_PBUF) {}"
    unfolding d(3,4) pool.holds_def using init by simp_all
qed

lemma example_pbuf_fields [simp]:
  "pb_next (example_pbuf nxt pl t l) = nxt" "payload (example_pbuf nxt pl t l) = pl"
  "tot_len (example_pbuf nxt pl t l) = t" "len (example_pbuf nxt pl t l) = l" "pb_ref (example_pbuf nxt pl t l) = 1"
  "type_internal (example_pbuf nxt pl t l) = 0x80" "pbuf_owner (example_pbuf nxt pl t l) = Own_heap"
  by (simp_all add: example_pbuf_def pbuf_owner_def pbuf_get_allocsrc_def)

lemma example_heap_inv: "heap_inv example_heap"
proof -
  have lv: "live example_heap k = (if k = Own_heap then {96, 160, 224} else {})" for k
    by (auto simp: live_def example_heap_def split: if_splits)
  have pm: "pool_memory (example_pools MEMP_PBUF_POOL) = {10000..<11532} \<union> {11532..<13064}"
    by (simp add: pool_memory_def example_pools_elems)
  have bl: "blocks_ok example_heap"
    unfolding blocks_ok_def by (auto simp: example_heap_def pm split: if_splits)
  have lay: "layout_ok example_heap a b \<and> home_ok example_heap a b" if "pbufs example_heap a = Some b" for a b
    using that by (auto simp: layout_ok_def home_ok_def block_size_def example_heap_def example_pools_elems split: if_splits)
  have "pools example_heap = example_pools" "pbufs example_heap 0 = None" "live example_heap Own_heap \<subseteq> dom (heap_blocks example_heap)"
    unfolding lv by (auto simp: example_heap_def)
  then show ?thesis using bl lay unfolding heap_inv_def lv by (simp add: example_pools_elems)
qed

lemma example_packets:
  "packet example_heap 96 [96, 160]" "packet example_heap 224 [224]"
  "pdata example_heap [96, 160] = [97, 98, 99, 100, 101]" "pdata example_heap [224] = [0, 0, 0, 0]"
  "packet_region example_heap [96, 160] = {128..<131} \<union> {192..<194}" "packet_region example_heap [224] = {256..<260}"
  by (simp_all add: packet_def example_heap_def plen_def pbytes_def rd_def upt_rec packet_region_def payload_region_def)

lemma example_bytes [simp]:
  "plen example_heap 96 = 3" "plen example_heap 160 = 2" "plen example_heap 224 = 4"
  "pbytes example_heap 96 = [97, 98, 99]" "pbytes example_heap 160 = [100, 101]" "pbytes example_heap 224 = [0, 0, 0, 0]"
  "rd example_heap 400 2 = [99, 100]" "rd example_heap 400 3 = [99, 100, 0]"
  by (simp_all add: example_heap_def plen_def pbytes_def rd_def upt_rec)

lemma example_owned: "owned example_heap [96, 160]" "exclusive example_heap [96, 160]" "exclusive example_heap [224]"
  "no_empty_tail example_heap [96, 160]" "owned example_heap [224]" "owned example_heap [96, 160, 224]"
  by (simp_all add: owned_def exclusive_def example_heap_def no_empty_tail_def plen_def)

lemma example_disjoint: "disjoint_payloads example_heap [96, 160]"
  using owned_chain_disjoint [OF example_heap_inv] example_owned(1) by (simp add: owned_def)

section \<open>Properties\<close>

text \<open>C13: \<^verbatim>\<open>pbuf_alloc\<close> for \<^verbatim>\<open>PBUF_RAM\<close> and \<^verbatim>\<open>PBUF_POOL\<close> returns, keeps the ownership invariant, writes no
  payload byte and either fails without leaving a buffer behind (a partly built chain is freed again) or
  returns a packet of exactly the requested length made of buffers that were not in use, each with one
  reference; every other buffer is unchanged.\<close>

theorem pbuf_alloc_fresh:
  assumes "heap_inv h" "malloc_ok e" "custom_free_ok e" "type = PBUF_RAM \<or> type = PBUF_POOL"
  shows "\<exists>r h'. pbuf_alloc e layer n type h = Some (r, h') \<and> heap_inv h' \<and> bytes h' = bytes h \<and>
     (if r = 0 then pbufs h' = pbufs h
      else \<exists>as. fresh_packet (pbufs h) h' r as (unat n) \<and> (type = PBUF_RAM \<longrightarrow> as = [r]))"
  by (rule pbuf_alloc_spec [OF assms])

theorem pbuf_alloc_fresh_witness:
  "\<exists>r h'. pbuf_alloc example_env PBUF_IP 2000 PBUF_POOL example_heap = Some (r, h') \<and> heap_inv h' \<and>
     bytes h' = bytes example_heap \<and>
     (if r = 0 then pbufs h' = pbufs example_heap
      else \<exists>as. fresh_packet (pbufs example_heap) h' r as (unat (2000 :: u16)) \<and> (PBUF_POOL = PBUF_RAM \<longrightarrow> as = [r]))"
  by (rule pbuf_alloc_fresh) (simp_all add: example_heap_inv example_env_ok)



text \<open>C23: \<^verbatim>\<open>pbuf_copy_partial\<close> copies to a buffer outside the packet the bytes of the packet from the offset on,
  at most \<^verbatim>\<open>len\<close> of them and as many as there are, across the buffers of the chain; it returns their number
  and changes nothing else.\<close>

theorem pbuf_copy_partial_reads:
  assumes "packet h p as" "dst \<noteq> 0" "packet_region h as \<inter> {dst..<dst + unat n} = {}"
  shows "pbuf_copy_partial p dst n off h =
     (let xs = take (unat n) (drop (unat off) (pdata h as))
      in Some (word_of_nat (length xs), write_bytes dst xs h))"
  using pbuf_copy_partial_data assms by (simp add: packet_def)

theorem pbuf_copy_partial_reads_witness:
  "pbuf_copy_partial 96 500 3 1 example_heap = Some (3, write_bytes 500 [98, 99, 100] example_heap)"
  using pbuf_copy_partial_reads [OF example_packets(1), of 500 3 1]
  by (simp add: example_packets(5) Let_def Int_Un_distrib2)

text \<open>C24: \<^verbatim>\<open>pbuf_memfind\<close> returns the first position at or after the start offset where the bytes sought occur
  in the packet, buffer boundaries notwithstanding, and \<^verbatim>\<open>0xFFFF\<close> if there is none.\<close>

theorem pbuf_memfind_finds_first:
  assumes "packet h p as" "0 < unat mem_len"
  shows "pbuf_memfind h p mem mem_len start =
     Some (case find (\<lambda>j. occurs_at (pdata h as) j (rd h mem (unat mem_len)))
                  [unat start..<length (pdata h as)] of
             Some j \<Rightarrow> word_of_nat j | None \<Rightarrow> 0xFFFF)"
  by (rule pbuf_memfind_first [OF assms])

theorem pbuf_memfind_finds_first_witness: "pbuf_memfind example_heap 96 400 2 0 = Some 2"
proof -
  have "[0..<5] = [0, 1, 2, 3, 4 :: nat]" by (simp add: upt_rec)
  then show ?thesis using pbuf_memfind_finds_first [OF example_packets(1), of 2 400 0]
    by (simp add: occurs_at_def)
qed

text \<open>C25: \<^verbatim>\<open>pbuf_take_at\<close> overwrites the bytes of the packet from the offset on with the given ones, across
  buffer boundaries and touching nothing else, if the offset lies within the packet and the bytes fit; otherwise
  it returns \<^verbatim>\<open>ERR_MEM\<close> and changes nothing.\<close>

theorem pbuf_take_at_overwrites:
  assumes "packet h p as" "disjoint_payloads h as" "src \<noteq> 0" "packet_region h as \<inter> {src..<src + unat n} = {}"
  shows "if unat off < length (pdata h as) \<and> unat off + unat n \<le> length (pdata h as)
     then \<exists>h'. pbuf_take_at p src n off h = Some (ERR_OK, h') \<and>
            pdata h' as = overwrite (pdata h as) (unat off) (rd h src (unat n)) \<and>
            writes_only (packet_region h as) h h'
     else pbuf_take_at p src n off h = Some (ERR_MEM, h)"
  by (rule pbuf_take_at_data [OF assms])

theorem pbuf_take_at_overwrites_witness:
  "\<exists>h'. pbuf_take_at 96 400 3 1 example_heap = Some (ERR_OK, h') \<and> pdata h' [96, 160] = [97, 99, 100, 0, 101]"
  using pbuf_take_at_overwrites [OF example_packets(1) example_disjoint, of 400 3 1]
  by (auto simp: example_packets(5) overwrite_def Int_Un_distrib2)

text \<open>\<^verbatim>\<open>pbuf_get_at\<close> after \<^verbatim>\<open>pbuf_put_at\<close>: the byte written is read back at its offset, every other offset
  reads as before, and an offset beyond the packet neither writes nor reads anything but 0.\<close>

lemma pbuf_get_at_put_at:
  assumes "packet h p as" "disjoint_payloads h as"
  shows "\<exists>h'. pbuf_put_at p off x h = Some h' \<and> writes_only (packet_region h as) h h' \<and>
     pbuf_get_at h' p i =
       (if unat i \<ge> length (pdata h as) then Some 0 else if i = off then Some x else pbuf_get_at h p i)"
proof -
  obtain h' where h': "pbuf_put_at p off x h = Some h'" "writes_only (packet_region h as) h h'"
      "pdata h' as = (if unat off < length (pdata h as) then (pdata h as)[unat off := x] else pdata h as)"
    using pbuf_put_at_data [OF assms] by blast
  have "pchain h p as" "pchain h' p as" using assms(1) writes_only_packet [OF h'(2)] by (auto simp: packet_def)
  then have "pbuf_get_at h' p i = (if unat i \<ge> length (pdata h as) then Some 0 else if i = off then Some x else pbuf_get_at h p i)"
    by (auto simp: pbuf_get_at_chain h'(3) nth_list_update word_unat_eq_iff [of i off])
  then show ?thesis using h' by blast
qed

text \<open>\<^verbatim>\<open>pbuf_cat\<close> joins two packets: the bytes of the tail follow those of the head, every \<^verbatim>\<open>tot_len\<close> of the
  result is the number of bytes from its buffer on, and only buffers of the head change.\<close>

lemma pbuf_cat_appends:
  assumes "packet h p as" "packet h t bs" "set as \<inter> set bs = {}"
    "length (pdata h as) + length (pdata h bs) < 65536" "heap_inv h"
  shows "\<exists>h'. pbuf_cat p t h = Some h' \<and> packet h' p (as @ bs) \<and> pdata h' (as @ bs) = pdata h as @ pdata h bs \<and>
     heap_inv h' \<and> (\<forall>a. a \<notin> set as \<longrightarrow> pbufs h' a = pbufs h a)"
  by (rule pbuf_cat_packet [OF assms])

text \<open>\<^verbatim>\<open>pbuf_realloc\<close> truncates a packet to the new length (and leaves a shorter one alone): the buffers
  that are kept form a packet with exactly the first bytes, the rest is released like by \<^verbatim>\<open>pbuf_free\<close>, and the
  ownership invariant holds.\<close>

lemma pbuf_realloc_truncates:
  assumes "packet h p as" "heap_inv h" "\<forall>a \<in> set as. 0 < pb_ref (the (pbufs h a))" "custom_free_ok e"
  shows "\<exists>h' keep rest. pbuf_realloc e p n h = Some h' \<and> as = keep @ rest \<and> packet h' p keep \<and>
     pdata h' keep = take (unat n) (pdata h as) \<and> heap_inv h' \<and> bytes h' = bytes h \<and>
     (\<forall>a. a \<notin> set keep \<longrightarrow> pbufs h' a = release_refs (pbufs h) rest a)"
  by (rule pbuf_realloc_packet [OF assms])

text \<open>taking the headers of several layers off a packet with \<^verbatim>\<open>pbuf_remove_header\<close> drops exactly their
  bytes, putting them back with \<^verbatim>\<open>pbuf_add_header\<close> in the opposite order gives back the heap, and the headers
  come off only if the first buffer holds them all.\<close>

lemma pbuf_headers_of_layers:
  assumes "contiguous_packet p as h"
  shows "if sum_list ns \<le> plen h p
     then \<exists>h'. remove_headers p ns h = Some h' \<and> contiguous_packet p as h' \<and>
            pdata h' (p # as) = drop (sum_list ns) (pdata h (p # as)) \<and> add_headers p (rev ns) h' = Some h
     else remove_headers p ns h = None"
  using headers.pops_ok [OF assms, of ns] headers.pops_short [OF assms, of ns]
  by (simp add: remove_headers_pops add_headers_pushes)

text \<open>\<^verbatim>\<open>pbuf_free_header\<close> drops the given number of bytes from the front of a packet without other references:
  the buffers that become empty are freed, the next one is shortened, and what is left is a packet with the
  remaining bytes (or the null pointer).\<close>

lemma pbuf_free_header_drops:
  assumes "packet h p as" "heap_inv h" "exclusive h as" "custom_free_ok e"
  shows "\<exists>q h' gone rest. pbuf_free_header e p n h = Some (q, h') \<and> as = gone @ rest \<and>
     (if rest = [] then q = 0 else packet h' q rest) \<and> pdata h' rest = drop (unat n) (pdata h as) \<and> heap_inv h' \<and>
     (\<forall>a. a \<notin> set rest \<longrightarrow> pbufs h' a = (if a \<in> set gone then None else pbufs h a))"
proof -
  obtain q h' gone rest where r: "pbuf_free_header_loop e p n h = Some (q, h')" "as = gone @ rest" "pchain h' q rest"
      "totals_ok h' rest" "pdata h' rest = drop (unat n) (pdata h as)" "heap_inv h'"
      "\<forall>a. a \<notin> set rest \<longrightarrow> pbufs h' a = (if a \<in> set gone then None else pbufs h a)"
    using pbuf_free_header_packet [of h p as e n] assms unfolding packet_def by blast
  then have "if rest = [] then q = 0 else packet h' q rest" by (cases "rest = []") (simp_all add: packet_def)
  then show ?thesis using r(1,2,5-7) unfolding pbuf_free_header_def by blast
qed

text \<open>\<^verbatim>\<open>pbuf_dechain\<close> undoes \<^verbatim>\<open>pbuf_chain\<close>: chaining a buffer in front of a packet gives the joined packet,
  which holds a reference to its tail, and dechaining it returns the tail and gives back the heap.\<close>

lemma pbuf_dechain_chain:
  assumes "packet h p [p]" "packet h t bs" "p \<notin> set bs" "heap_inv h" "custom_free_ok e"
    "pbufs h t = Some tb" "pb_ref tb \<noteq> 255" "0 < pb_ref tb" "length (pdata h [p]) + length (pdata h bs) < 65536"
  shows "\<exists>h1. pbuf_chain p t h = Some h1 \<and> packet h1 p (p # bs) \<and> pdata h1 (p # bs) = pdata h [p] @ pdata h bs \<and>
     heap_inv h1 \<and> pbuf_dechain e p h1 = Some (t, h)"
  by (rule pbuf_dechain_undoes_chain [OF assms])



text \<open>\<^verbatim>\<open>pbuf_copy_partial_pbuf\<close> does not walk to the buffer that the offset falls into: with an offset
  beyond the first buffer of the target, although the bytes fit into the packet, the remaining length wraps around
  and the assertion on the offset fires.\<close>

lemma pbuf_copy_offset_beyond_first:
  assumes "packet h p_to ts" "packet h p_from fs"
    "unat n \<le> length (pdata h fs)" "unat off + unat n \<le> length (pdata h ts)" "plen h p_to < unat off"
  shows "pbuf_copy_partial_pbuf p_to p_from n off h = None"
  by (rule pbuf_copy_partial_pbuf_offset_wraps [OF assms])

end
