(* ===== verification/Inet_Chksum.thy ===== *)
theory Inet_Chksum
  imports Pbuf_Props Ip4_Addr
begin

text \<open>
  \<^verbatim>\<open>src/lwip/inet_chksum.c\<close>: the three implementations of \<^verbatim>\<open>lwip_standard_chksum\<close> (the
  configuration selects the second), the checksum over a chain of buffers, and the IPv4 pseudo header
  checksums of TCP and UDP. The processor is little endian. The reference is the ones' complement sum
  of RFC 1071: \<open>wsum\<close> adds the 16-bit words of a list of bytes and \<open>ones_norm\<close> brings the sum into 16 bits;
  \<open>ones_eq\<close> is equality of ones' complement numbers.
\<close>

section \<open>The code\<close>

definition SWAP_BYTES_IN_WORD :: "u32 \<Rightarrow> u32" where
  "SWAP_BYTES_IN_WORD w = push_bit 8 (w AND 0xff) OR drop_bit 8 (w AND 0xff00)"

definition FOLD_U32T :: "u32 \<Rightarrow> u32" where
  "FOLD_U32T u = drop_bit 16 u + (u AND 0x0000ffff)"

text \<open>The 16-bit and 32-bit loads of a little-endian processor.\<close>

definition load16 :: "(nat \<Rightarrow> u8) \<Rightarrow> nat \<Rightarrow> u16" where
  "load16 m a = word_of_nat (unat (m a) + 256 * unat (m (a + 1)))"

definition load32 :: "(nat \<Rightarrow> u8) \<Rightarrow> nat \<Rightarrow> u32" where
  "load32 m a = word_of_nat (unat (load16 m a) + 65536 * unat (load16 m (a + 2)))"

subsection \<open>Version 1\<close>

fun chksum1_loop :: "(nat \<Rightarrow> u8) \<Rightarrow> nat \<Rightarrow> nat \<Rightarrow> u32 \<Rightarrow> nat \<times> nat \<times> u32" where
  "chksum1_loop m octetptr n acc =
     (if n > 1 then
        (let src = (push_bit 8 (ucast (m octetptr)) OR ucast (m (octetptr + 1)) :: u16)
         in chksum1_loop m (octetptr + 2) (n - 2) (acc + ucast src))
      else (octetptr, n, acc))"

declare chksum1_loop.simps [simp del]

definition lwip_standard_chksum1 :: "(nat \<Rightarrow> u8) \<Rightarrow> nat \<Rightarrow> nat \<Rightarrow> u16" where
  "lwip_standard_chksum1 m dataptr n =
     (let (octetptr, n, acc) = chksum1_loop m dataptr n 0;
          acc = (if n > 0 then acc + ucast (push_bit 8 (ucast (m octetptr)) :: u16) else acc);
          acc = drop_bit 16 acc + (acc AND 0x0000ffff);
          acc = (if acc AND 0xffff0000 \<noteq> 0 then drop_bit 16 acc + (acc AND 0x0000ffff) else acc)
      in lwip_htons (ucast acc))"

subsection \<open>Version 2\<close>

fun chksum2_loop :: "(nat \<Rightarrow> u8) \<Rightarrow> nat \<Rightarrow> nat \<Rightarrow> u32 \<Rightarrow> nat \<times> nat \<times> u32" where
  "chksum2_loop m ps n sm =
     (if n > 1 then chksum2_loop m (ps + 2) (n - 2) (sm + ucast (load16 m ps)) else (ps, n, sm))"

declare chksum2_loop.simps [simp del]

text \<open>\<open>t1\<close> and \<open>t0\<close> are the bytes of \<^verbatim>\<open>t\<close>.\<close>

definition lwip_standard_chksum :: "(nat \<Rightarrow> u8) \<Rightarrow> nat \<Rightarrow> nat \<Rightarrow> u16" where
  "lwip_standard_chksum m dataptr n =
     (let pb = dataptr;
          is_odd = (pb mod 2 = 1);
          (t1, pb, n) = (if is_odd \<and> n > 0 then (m pb, pb + 1, n - 1) else (0, pb, n));
          (ps, n, sm) = chksum2_loop m pb n 0;
          t0 = (if n > 0 then m ps else 0);
          sm = sm + ucast (word_of_nat (unat t0 + 256 * unat t1) :: u16);
          sm = FOLD_U32T sm;
          sm = FOLD_U32T sm;
          sm = (if is_odd then SWAP_BYTES_IN_WORD sm else sm)
      in ucast sm)"

subsection \<open>Version 3\<close>

text \<open>Addition with the carry added back.\<close>

definition add_carry :: "u32 \<Rightarrow> u32 \<Rightarrow> u32" where
  "add_carry sm x = (let tmp = sm + x in if tmp < sm then tmp + 1 else tmp)"

fun chksum3_loop :: "(nat \<Rightarrow> u8) \<Rightarrow> nat \<Rightarrow> nat \<Rightarrow> u32 \<Rightarrow> nat \<times> nat \<times> u32" where
  "chksum3_loop m pl n sm =
     (if n > 7 then
        chksum3_loop m (pl + 8) (n - 8) (add_carry (add_carry sm (load32 m pl)) (load32 m (pl + 4)))
      else (pl, n, sm))"

declare chksum3_loop.simps [simp del]

definition lwip_standard_chksum3 :: "(nat \<Rightarrow> u8) \<Rightarrow> nat \<Rightarrow> nat \<Rightarrow> u16" where
  "lwip_standard_chksum3 m dataptr n =
     (let pb = dataptr;
          is_odd = (pb mod 2 = 1);
          (t1, pb, n) = (if is_odd \<and> n > 0 then (m pb, pb + 1, n - 1) else (0, pb, n));
          (ps, n, sm) = (if pb mod 4 \<noteq> 0 \<and> n > 1 then (pb + 2, n - 2, ucast (load16 m pb)) else (pb, n, 0));
          (pl, n, sm) = chksum3_loop m ps n sm;
          sm = FOLD_U32T sm;
          (ps, n, sm) = chksum2_loop m pl n sm;
          t0 = (if n > 0 then m ps else 0);
          sm = sm + ucast (word_of_nat (unat t0 + 256 * unat t1) :: u16);
          sm = FOLD_U32T sm;
          sm = FOLD_U32T sm;
          sm = (if is_odd then SWAP_BYTES_IN_WORD sm else sm)
      in ucast sm)"

subsection \<open>Checksums over memory and over chains\<close>

definition inet_chksum :: "(nat \<Rightarrow> u8) \<Rightarrow> nat \<Rightarrow> u16 \<Rightarrow> u16" where
  "inet_chksum m dataptr n = NOT (lwip_standard_chksum m dataptr (unat n))"

text \<open>One iteration of the loops over a chain: \<open>n\<close> bytes of the buffer are summed, and the accumulator is
  swapped when the length \<open>l\<close> of the buffer is odd.\<close>

definition chain_step :: "(nat \<Rightarrow> u8) \<Rightarrow> nat \<Rightarrow> u16 \<Rightarrow> u16 \<Rightarrow> u32 \<times> bool \<Rightarrow> u32 \<times> bool" where
  "chain_step m pl n l = (\<lambda>(acc, swapped).
     (let acc = acc + ucast (lwip_standard_chksum m pl (unat n));
          acc = FOLD_U32T acc
      in if l mod 2 \<noteq> 0 then (SWAP_BYTES_IN_WORD acc, \<not> swapped) else (acc, swapped)))"

partial_function (option) chksum_chain_loop :: "heap \<Rightarrow> nat \<Rightarrow> u32 \<times> bool \<Rightarrow> (u32 \<times> bool) option" where
  "chksum_chain_loop h q st =
     (if q \<noteq> 0 then
        do { b \<leftarrow> pbufs h q;
             chksum_chain_loop h (pb_next b) (chain_step (bytes h) (payload b) (len b) (len b) st) }
      else Some st)"

definition inet_chksum_pbuf :: "heap \<Rightarrow> nat \<Rightarrow> u16 option" where
  "inet_chksum_pbuf h p =
     do { (acc, swapped) \<leftarrow> chksum_chain_loop h p (0, False);
          let acc = (if swapped then SWAP_BYTES_IN_WORD acc else acc)
          in Some (ucast (NOT (acc AND 0xffff))) }"

text \<open>The end of the pseudo header checksums: protocol and length are added in network byte order.\<close>

definition pseudo_finish :: "u8 \<Rightarrow> u16 \<Rightarrow> u32 \<times> bool \<Rightarrow> u16" where
  "pseudo_finish proto proto_len = (\<lambda>(acc, swapped).
     (let acc = (if swapped then SWAP_BYTES_IN_WORD acc else acc);
          acc = acc + ucast (lwip_htons (ucast proto));
          acc = acc + ucast (lwip_htons proto_len);
          acc = FOLD_U32T acc;
          acc = FOLD_U32T acc
      in ucast (NOT (acc AND 0xffff))))"

definition inet_cksum_pseudo_base :: "heap \<Rightarrow> nat \<Rightarrow> u8 \<Rightarrow> u16 \<Rightarrow> u32 \<Rightarrow> u16 option" where
  "inet_cksum_pseudo_base h p proto proto_len acc =
     do { st \<leftarrow> chksum_chain_loop h p (acc, False); Some (pseudo_finish proto proto_len st) }"

text \<open>The sum of the two addresses, which are in network byte order.\<close>

definition pseudo_addresses :: "u32 \<Rightarrow> u32 \<Rightarrow> u32" where
  "pseudo_addresses src dest =
     (let acc = src AND 0xffff;
          acc = acc + (drop_bit 16 src AND 0xffff);
          acc = acc + (dest AND 0xffff);
          acc = acc + (drop_bit 16 dest AND 0xffff);
          acc = FOLD_U32T acc
      in FOLD_U32T acc)"

definition inet_chksum_pseudo :: "heap \<Rightarrow> nat \<Rightarrow> u8 \<Rightarrow> u16 \<Rightarrow> u32 \<Rightarrow> u32 \<Rightarrow> u16 option" where
  "inet_chksum_pseudo h p proto proto_len src dest =
     inet_cksum_pseudo_base h p proto proto_len (pseudo_addresses src dest)"

definition ip_chksum_pseudo :: "heap \<Rightarrow> nat \<Rightarrow> u8 \<Rightarrow> u16 \<Rightarrow> u32 \<Rightarrow> u32 \<Rightarrow> u16 option" where
  "ip_chksum_pseudo h p proto proto_len src dest = inet_chksum_pseudo h p proto proto_len src dest"

partial_function (option) chksum_partial_loop ::
    "heap \<Rightarrow> nat \<Rightarrow> u16 \<Rightarrow> u32 \<times> bool \<Rightarrow> (u32 \<times> bool) option" where
  "chksum_partial_loop h q chksum_len st =
     (if q \<noteq> 0 \<and> chksum_len > 0 then
        do { b \<leftarrow> pbufs h q;
             let chklen = (if len b > chksum_len then chksum_len else len b);
                 chksum_left = chksum_len - chklen
             in do { lwip_assert (chksum_left < 0x7fff);
                     chksum_partial_loop h (pb_next b) chksum_left
                       (chain_step (bytes h) (payload b) chklen (len b) st) } }
      else Some st)"

definition inet_cksum_pseudo_partial_base :: "heap \<Rightarrow> nat \<Rightarrow> u8 \<Rightarrow> u16 \<Rightarrow> u16 \<Rightarrow> u32 \<Rightarrow> u16 option" where
  "inet_cksum_pseudo_partial_base h p proto proto_len chksum_len acc =
     do { st \<leftarrow> chksum_partial_loop h p chksum_len (acc, False); Some (pseudo_finish proto proto_len st) }"

definition inet_chksum_pseudo_partial :: "heap \<Rightarrow> nat \<Rightarrow> u8 \<Rightarrow> u16 \<Rightarrow> u16 \<Rightarrow> u32 \<Rightarrow> u32 \<Rightarrow> u16 option" where
  "inet_chksum_pseudo_partial h p proto proto_len chksum_len src dest =
     inet_cksum_pseudo_partial_base h p proto proto_len chksum_len (pseudo_addresses src dest)"

definition ip_chksum_pseudo_partial :: "heap \<Rightarrow> nat \<Rightarrow> u8 \<Rightarrow> u16 \<Rightarrow> u16 \<Rightarrow> u32 \<Rightarrow> u32 \<Rightarrow> u16 option" where
  "ip_chksum_pseudo_partial h p proto proto_len chksum_len src dest =
     inet_chksum_pseudo_partial h p proto proto_len chksum_len src dest"

definition lwip_chksum_copy :: "nat \<Rightarrow> nat \<Rightarrow> u16 \<Rightarrow> heap \<Rightarrow> u16 \<times> heap" where
  "lwip_chksum_copy dst src n h =
     (let h = memcpy dst src (unat n) h in (lwip_standard_chksum (bytes h) dst (unat n), h))"

section \<open>Ones' complement numbers\<close>

definition ones_eq :: "nat \<Rightarrow> nat \<Rightarrow> bool" where
  "ones_eq a b \<longleftrightarrow> a mod 65535 = b mod 65535 \<and> (a = 0 \<longleftrightarrow> b = 0)"

definition ones_norm :: "nat \<Rightarrow> nat" where
  "ones_norm n = (if n = 0 then 0 else (n - 1) mod 65535 + 1)"

fun wsum :: "u8 list \<Rightarrow> nat" where
  "wsum [] = 0"
| "wsum [a] = unat a"
| "wsum (a # b # xs) = unat a + 256 * unat b + wsum xs"

text \<open>The bytes as one little-endian number.\<close>

fun le_val :: "u8 list \<Rightarrow> nat" where
  "le_val [] = 0"
| "le_val (a # xs) = unat a + 256 * le_val xs"

lemma ones_eqI: "a mod 65535 = b mod 65535 \<Longrightarrow> 0 < a \<Longrightarrow> 0 < b \<Longrightarrow> ones_eq a b"
  by (simp add: ones_eq_def)

lemma ones_eq_refl [simp]: "ones_eq a a"
  by (simp add: ones_eq_def)

lemma ones_eq_sym: "ones_eq a b \<Longrightarrow> ones_eq b a"
  by (simp add: ones_eq_def)

lemma ones_eq_trans [trans]: "ones_eq a b \<Longrightarrow> ones_eq b c \<Longrightarrow> ones_eq a c"
  by (simp add: ones_eq_def)

lemma ones_eq_add: "ones_eq a b \<Longrightarrow> ones_eq c d \<Longrightarrow> ones_eq (a + c) (b + d)"
  unfolding ones_eq_def by (metis add_is_0 mod_add_cong)

lemma ones_eq_mult: "ones_eq a b \<Longrightarrow> ones_eq (k * a) (k * b)"
  unfolding ones_eq_def by (metis mod_mult_cong mult_is_0)

lemma ones_eq_shift: "ones_eq (65536 * a) a"
proof -
  have "65536 * a = a + 65535 * a" by simp
  then have "65536 * a mod 65535 = a mod 65535" by (metis mod_mult_self1 mult.commute)
  then show ?thesis by (simp add: ones_eq_def)
qed

lemma ones_eq_fold: "ones_eq (n div 65536 + n mod 65536) n"
proof -
  have "ones_eq (n div 65536 + n mod 65536) (65536 * (n div 65536) + n mod 65536)"
    by (intro ones_eq_add ones_eq_refl ones_eq_sym [OF ones_eq_shift])
  then show ?thesis by simp
qed

lemma ones_eq_unique: "ones_eq a b \<Longrightarrow> a < 65536 \<Longrightarrow> b < 65536 \<Longrightarrow> a = b"
  unfolding ones_eq_def by (cases "a = 65535"; cases "b = 65535") auto

lemma ones_norm_eq: "ones_eq (ones_norm n) n"
proof (cases "n = 0")
  case False
  then have "((n - 1) mod 65535 + 1) mod 65535 = n mod 65535" by (simp add: mod_Suc_eq)
  then show ?thesis using False by (simp add: ones_eq_def ones_norm_def)
qed (simp add: ones_norm_def)

lemma ones_norm_less: "ones_norm n < 65536"
  using mod_less_divisor [of 65535 "n - 1"] by (simp add: ones_norm_def)

lemma ones_norm_cong:
  assumes "ones_eq a b"
  shows "ones_norm a = ones_norm b"
proof (rule ones_eq_unique [OF _ ones_norm_less ones_norm_less])
  have "ones_eq (ones_norm a) b" using ones_norm_eq assms by (rule ones_eq_trans)
  then show "ones_eq (ones_norm a) (ones_norm b)" using ones_eq_sym [OF ones_norm_eq] by (rule ones_eq_trans)
qed

lemma ones_norm_unique: "ones_eq r n \<Longrightarrow> r < 65536 \<Longrightarrow> r = ones_norm n"
  by (rule ones_eq_unique [OF ones_eq_trans [OF _ ones_eq_sym [OF ones_norm_eq]] _ ones_norm_less])

lemma wsum_le_val: "ones_eq (wsum xs) (le_val xs)"
proof (induction xs rule: wsum.induct)
  case (3 a b xs)
  have "ones_eq (wsum xs) (65536 * le_val xs)" using 3 ones_eq_shift ones_eq_sym ones_eq_trans by blast
  then have "ones_eq (unat a + 256 * unat b + wsum xs) (unat a + 256 * unat b + 65536 * le_val xs)"
    by (intro ones_eq_add ones_eq_refl)
  then show ?case by (simp add: add.assoc)
qed simp_all

lemma le_val_append: "le_val (xs @ ys) = le_val xs + 256 ^ length xs * le_val ys"
  by (induction xs) simp_all

lemma wsum_append_even: "even (length xs) \<Longrightarrow> wsum (xs @ ys) = wsum xs + wsum ys"
  by (induction xs rule: wsum.induct) auto

lemma wsum_bound: "wsum xs \<le> 65535 * ((length xs + 1) div 2)"
proof (induction xs rule: wsum.induct)
  case (2 a)
  have "unat a \<le> 65535" using unat_u8_less [of a] by linarith
  then show ?case by simp
next
  case (3 a b xs)
  have "unat a + 256 * unat b \<le> 65535" using unat_u8_less [of a] unat_u8_less [of b] by linarith
  then show ?case using 3 by simp
qed simp

section \<open>Words read as numbers\<close>

lemma unat_and_mask: "unat (w AND mask n) = unat (w :: 'a::len word) mod 2 ^ n"
  by (metis take_bit_eq_mask unsigned_take_bit_eq take_bit_eq_mod)

lemma unat_and_mask16: "unat (w AND 0xffff :: u32) = unat w mod 65536"
  using unat_and_mask [of w 16] by (simp add: mask_eq_exp_minus_1)

lemma unat_and_mask8: "unat (w AND 0xff :: u32) = unat w mod 256"
  using unat_and_mask [of w 8] by (simp add: mask_eq_exp_minus_1)

lemma unat_drop_bit: "unat (drop_bit n w) = unat (w :: 'a::len word) div 2 ^ n"
  unfolding unat_drop_bit_eq by (simp add: drop_bit_eq_div)

lemma unat_drop16: "unat (drop_bit 16 w :: u32) = unat w div 65536"
  using unat_drop_bit [of 16 w] by simp

lemma unat_fold: "unat (FOLD_U32T w) = unat w div 65536 + unat w mod 65536"
proof -
  have "unat w div 65536 < 65536" using unat_u32_less [of w] by (simp add: less_mult_imp_div_less)
  moreover have "unat w mod 65536 < 65536" by simp
  ultimately have "unat (drop_bit 16 w) + unat (w AND 0xffff) < 2 ^ 32"
    unfolding unat_drop16 unat_and_mask16 by simp
  then show ?thesis unfolding FOLD_U32T_def
    by (subst unat_add_no_wrap) (simp_all add: unat_drop16 unat_and_mask16)
qed

lemma fold_ones: "ones_eq (unat (FOLD_U32T w)) (unat w)"
  unfolding unat_fold by (rule ones_eq_fold)

lemma fold_small: "unat w \<le> 131070 \<Longrightarrow> unat (FOLD_U32T w) < 65536"
  unfolding unat_fold using div_mult_mod_eq [of "unat w" 65536] mod_less_divisor [of 65536 "unat w"]
  by (cases "unat w < 65536") linarith+

lemma fold_twice_small: "unat (FOLD_U32T (FOLD_U32T w)) < 65536"
proof (rule fold_small)
  have "unat w div 65536 < 65536" using unat_u32_less [of w] by (simp add: less_mult_imp_div_less)
  moreover have "unat w mod 65536 < 65536" by simp
  ultimately show "unat (FOLD_U32T w) \<le> 131070" unfolding unat_fold by linarith
qed

lemma fold_twice_ones: "ones_eq (unat (FOLD_U32T (FOLD_U32T w))) (unat w)"
  using fold_ones ones_eq_trans by blast

lemma u16_of_u8: "unat (ucast (x :: u8) :: u16) = unat x"
proof -
  have "unat x < 65536" using unat_u8_less [of x] by linarith
  then show ?thesis by (simp add: unsigned_ucast_eq take_bit_eq_mod)
qed

lemma unat_ucast_u32_u16: "unat (ucast (w :: u32) :: u16) = unat w mod 65536"
  by (simp add: unsigned_ucast_eq take_bit_eq_mod)

lemma swap_htons: "SWAP_BYTES_IN_WORD w = ucast (lwip_htons (ucast w))"
  unfolding SWAP_BYTES_IN_WORD_def u32_masks lwip_htons_def
  by (rule bit_word_eqI) (auto simp: bit_simps bit_PP_HTONS add.commute)

lemma htons_ones: "ones_eq (unat (lwip_htons x)) (256 * unat x)"
proof -
  let ?l = "unat x mod 256" and ?h = "unat x div 256"
  have "ones_eq (256 * ?l + ?h) (256 * ?l + 65536 * ?h)"
    by (intro ones_eq_add ones_eq_refl ones_eq_sym [OF ones_eq_shift])
  moreover have "256 * ?l + 65536 * ?h = 256 * unat x" using div_mult_mod_eq [of "unat x" 256] by linarith
  ultimately show ?thesis unfolding unat_lwip_htons by (simp add: mult.commute)
qed

lemma swap_ones:
  assumes "unat w < 65536"
  shows "ones_eq (unat (SWAP_BYTES_IN_WORD w)) (256 * unat w)" "unat (SWAP_BYTES_IN_WORD w) < 65536"
proof -
  have u: "unat (SWAP_BYTES_IN_WORD w) = unat (lwip_htons (ucast w))" by (simp add: swap_htons u32_of_u16)
  show "ones_eq (unat (SWAP_BYTES_IN_WORD w)) (256 * unat w)"
    unfolding u using htons_ones [of "ucast w"] assms by (simp add: unat_ucast_u32_u16)
  show "unat (SWAP_BYTES_IN_WORD w) < 65536" unfolding u by simp
qed

lemma unat_load16: "unat (load16 m a) = unat (m a) + 256 * unat (m (a + 1))"
proof -
  have "unat (m a) + 256 * unat (m (a + 1)) < 65536"
    using unat_u8_less [of "m a"] unat_u8_less [of "m (a + 1)"] by linarith
  then show ?thesis unfolding load16_def by (rule unat_of_nat_u16)
qed

lemma unat_load32: "unat (load32 m a) = unat (load16 m a) + 65536 * unat (load16 m (a + 2))"
proof -
  have "unat (load16 m a) + 65536 * unat (load16 m (a + 2)) < 4294967296"
    using unat_u16_less [of "load16 m a"] unat_u16_less [of "load16 m (a + 2)"] by linarith
  then show ?thesis unfolding load32_def by (rule unat_of_nat_u32)
qed

section \<open>The loops\<close>

definition mem_list :: "(nat \<Rightarrow> u8) \<Rightarrow> nat \<Rightarrow> nat \<Rightarrow> u8 list" where
  "mem_list m a n = map m [a..<a + n]"

lemma mem_list_0 [simp]: "mem_list m a 0 = []"
  by (simp add: mem_list_def)

lemma mem_list_Suc: "mem_list m a (Suc n) = m a # mem_list m (a + 1) n"
  by (simp add: mem_list_def upt_conv_Cons del: upt_Suc)

lemma mem_list_2: "1 < n \<Longrightarrow> mem_list m a n = m a # m (a + 1) # mem_list m (a + 2) (n - 2)"
  using mem_list_Suc [of m a "n - 1"] mem_list_Suc [of m "a + 1" "n - 2"] by (auto simp: numeral_2_eq_2 Suc_diff_Suc)

lemma length_mem_list [simp]: "length (mem_list m a n) = n"
  by (simp add: mem_list_def)

lemma mem_list_rd: "mem_list (bytes h) a n = rd h a n"
  by (simp add: mem_list_def rd_def)

lemma chksum2_loop_spec:
  assumes "unat s + wsum (mem_list m ps n) < 4294967296"
  shows "\<exists>ps' n' s'. chksum2_loop m ps n s = (ps', n', s') \<and> n' = n mod 2 \<and>
     unat s' + (if n' > 0 then unat (m ps') else 0) = unat s + wsum (mem_list m ps n)"
  using assms
proof (induction m ps n s rule: chksum2_loop.induct)
  case (1 m ps n s)
  show ?case
  proof (cases "n > 1")
    case True
    have w: "wsum (mem_list m ps n) = unat (load16 m ps) + wsum (mem_list m (ps + 2) (n - 2))"
      unfolding mem_list_2 [OF True] unat_load16 by simp
    have "unat (s + ucast (load16 m ps)) = unat s + unat (load16 m ps)"
      using 1(2) w by (subst unat_add_no_wrap) (simp_all add: u32_of_u16)
    moreover have "(n - 2) mod 2 = n mod 2" using True by (simp add: le_mod_geq)
    ultimately show ?thesis using 1(1) [OF True] 1(2) True w
      by (subst chksum2_loop.simps) (auto simp: add.assoc)
  next
    case False
    then consider "n = 0" | "n = 1" by linarith
    then show ?thesis using False
      by cases (simp_all add: chksum2_loop.simps [of m ps] mem_list_Suc [where n = 0, simplified])
  qed
qed

lemma chksum1_loop_spec:
  assumes "unat s + 65535 * ((n + 1) div 2) < 4294967296"
  shows "\<exists>p' n' s' k. chksum1_loop m p n s = (p', n', s') \<and> n' = n mod 2 \<and> unat s' = unat s + k \<and>
     k \<le> 65535 * (n div 2) \<and>
     ones_eq (256 * (k + (if n' > 0 then 256 * unat (m p') else 0))) (le_val (mem_list m p n))"
  using assms
proof (induction m p n s rule: chksum1_loop.induct)
  case (1 m p n s)
  show ?case
  proof (cases "n > 1")
    case True
    define src where "src = (push_bit 8 (ucast (m p)) OR ucast (m (p + 1)) :: u16)"
    have usrc: "unat src = 256 * unat (m p) + unat (m (p + 1))"
    proof -
      have "push_bit 8 (ucast (m p)) OR ucast (m (p + 1)) = (push_bit 8 (ucast (m p)) + ucast (m (p + 1)) :: u16)"
        by (rule disjunctive_add [symmetric]) (auto simp: bit_simps dest: bit_imp_le_length)
      moreover have "unat (m p) * 256 + unat (m (p + 1)) < 65536"
        using unat_u8_less [of "m p"] unat_u8_less [of "m (p + 1)"] by linarith
      ultimately show ?thesis unfolding src_def push_bit_eq_mult
        by (simp add: unat_word_ariths u16_of_u8 mult.commute)
    qed
    have half: "(n + 1) div 2 = (n - 2 + 1) div 2 + 1" "n div 2 = (n - 2) div 2 + 1" using True by linarith+
    have "unat s + unat src < 4294967296" using 1(2) half(1) unat_u16_less [of src] by linarith
    then have us: "unat (s + ucast src) = unat s + unat src" by (subst unat_add_no_wrap) (simp_all add: u32_of_u16)
    have fits: "unat (s + ucast src) + 65535 * ((n - 2 + 1) div 2) < 4294967296"
      unfolding us using 1(2) half(1) unat_u16_le [of src] by linarith
    obtain p' n' s' k where IH: "chksum1_loop m (p + 2) (n - 2) (s + ucast src) = (p', n', s')" "n' = (n - 2) mod 2"
        "unat s' = unat (s + ucast src) + k" "k \<le> 65535 * ((n - 2) div 2)"
        "ones_eq (256 * (k + (if n' > 0 then 256 * unat (m p') else 0))) (le_val (mem_list m (p + 2) (n - 2)))"
      using 1(1) [OF True src_def] fits by blast
    let ?r = "if n' > 0 then 256 * unat (m p') else 0"
    have "ones_eq (256 * unat src) (unat (m p) + 256 * unat (m (p + 1)))"
      unfolding usrc using ones_eq_add [OF ones_eq_shift [of "unat (m p)"] ones_eq_refl [of "256 * unat (m (p + 1))"]]
      by (simp add: algebra_simps)
    moreover have "ones_eq (256 * (k + ?r)) (65536 * le_val (mem_list m (p + 2) (n - 2)))"
      using IH(5) ones_eq_trans ones_eq_sym [OF ones_eq_shift] by blast
    ultimately have "ones_eq (256 * unat src + 256 * (k + ?r))
        (unat (m p) + 256 * unat (m (p + 1)) + 65536 * le_val (mem_list m (p + 2) (n - 2)))"
      by (rule ones_eq_add)
    then have "ones_eq (256 * (unat src + k + ?r)) (le_val (mem_list m p n))"
      unfolding mem_list_2 [OF True] by (simp only: le_val.simps distrib_left mult.assoc [symmetric] add.assoc) simp
    moreover have "chksum1_loop m p n s = (p', n', s')"
      using IH(1) True by (subst chksum1_loop.simps) (simp add: src_def)
    moreover have "n' = n mod 2" using IH(2) True by (simp add: le_mod_geq)
    moreover have "unat src + k \<le> 65535 * (n div 2)" unfolding half(2) using add_mono [OF unat_u16_le [of src] IH(4)] by (simp add: distrib_left)
    ultimately show ?thesis using IH(3) us
      by (intro exI [of _ p'] exI [of _ n'] exI [of _ s'] exI [of _ "unat src + k"]) simp
  next
    case False
    then consider "n = 0" | "n = 1" by linarith
    then show ?thesis
    proof cases
      case 2
      have "ones_eq (65536 * unat (m p)) (unat (m p))" by (rule ones_eq_shift)
      then show ?thesis using 2
        by (simp add: chksum1_loop.simps [of m p] mem_list_Suc [where n = 0, simplified])
    qed (simp add: chksum1_loop.simps [of m p])
  qed
qed

lemma add_carry_ones: "ones_eq (unat (add_carry a b)) (unat a + unat b)"
proof (cases "unat a + unat b < 4294967296")
  case True
  then have "unat (a + b) = unat a + unat b" by (intro unat_add_no_wrap) simp
  then show ?thesis by (simp add: add_carry_def Let_def word_less_nat_alt)
next
  case False
  have "unat a + unat b - 4294967296 < 4294967296" using unat_u32_less [of a] unat_u32_less [of b] by linarith
  then have "(unat a + unat b) mod 4294967296 = unat a + unat b - 4294967296" using False by (simp add: le_mod_geq)
  then have s: "unat (a + b) = unat a + unat b - 4294967296" by (simp add: unat_word_ariths)
  then have lt: "a + b < a" using False unat_u32_less [of b] by (simp add: word_less_nat_alt del: unat_u32_less)
  have "unat (a + b) < 4294967295" unfolding s using unat_u32_less [of a] unat_u32_less [of b] by linarith
  then have "unat (a + b) + unat (1 :: u32) < 2 ^ 32" by simp
  then have "unat (a + b + 1) = unat a + unat b - 4294967295"
    using s False by (subst unat_add_no_wrap) auto
  moreover have "ones_eq (unat a + unat b - 4294967295) (unat a + unat b)"
  proof -
    define d where "d = unat a + unat b - 4294967295"
    have "unat a + unat b = d + 65537 * 65535" "0 < d" using False by (simp_all add: d_def)
    then have "(unat a + unat b) mod 65535 = d mod 65535" "0 < unat a + unat b" by (simp_all only: mod_mult_self1)
    then show ?thesis unfolding d_def [symmetric] using \<open>0 < d\<close> by (intro ones_eqI) simp_all
  qed
  ultimately show ?thesis using lt by (simp add: add_carry_def Let_def)
qed

lemma le_val_load32:
  assumes "3 < n"
  shows "le_val (mem_list m a n) = unat (load32 m a) + 4294967296 * le_val (mem_list m (a + 4) (n - 4))"
proof -
  have four: "Suc (Suc (Suc (Suc a))) = a + 4" by simp
  show ?thesis
    using mem_list_2 [of n m a] mem_list_2 [of "n - 2" m "a + 2"] assms unfolding unat_load32 unat_load16
    by (simp add: algebra_simps four)
qed

lemma ones_eq_shift32: "ones_eq (4294967296 * a) a"
proof -
  have "ones_eq (65536 * (65536 * a)) (65536 * a)" by (rule ones_eq_shift)
  then show ?thesis using ones_eq_trans [OF _ ones_eq_shift] by simp
qed

lemma chksum3_loop_spec:
  "\<exists>p' n' s'. chksum3_loop m p n s = (p', n', s') \<and> n' = n mod 8 \<and>
     ones_eq (unat s' + le_val (mem_list m p' n')) (unat s + le_val (mem_list m p n))"
proof (induction m p n s rule: chksum3_loop.induct)
  case (1 m p n s)
  show ?case
  proof (cases "n > 7")
    case True
    define s1 where "s1 = add_carry (add_carry s (load32 m p)) (load32 m (p + 4))"
    obtain p' n' s' where IH: "chksum3_loop m (p + 8) (n - 8) s1 = (p', n', s')" "n' = (n - 8) mod 8"
        "ones_eq (unat s' + le_val (mem_list m p' n')) (unat s1 + le_val (mem_list m (p + 8) (n - 8)))"
      using 1 [OF True] s1_def by auto
    let ?rest = "le_val (mem_list m (p + 8) (n - 8))"
    have "ones_eq (unat s1) (unat (add_carry s (load32 m p)) + unat (load32 m (p + 4)))"
      unfolding s1_def by (rule add_carry_ones)
    moreover have "ones_eq (unat (add_carry s (load32 m p)) + unat (load32 m (p + 4)))
        (unat s + unat (load32 m p) + 4294967296 * unat (load32 m (p + 4)))"
      by (intro ones_eq_add add_carry_ones ones_eq_sym [OF ones_eq_shift32])
    ultimately have "ones_eq (unat s1) (unat s + unat (load32 m p) + 4294967296 * unat (load32 m (p + 4)))"
      by (rule ones_eq_trans)
    moreover have "ones_eq ?rest (4294967296 * (4294967296 * ?rest))"
      using ones_eq_sym [OF ones_eq_trans [OF ones_eq_shift32 ones_eq_shift32]] .
    ultimately have "ones_eq (unat s1 + ?rest)
        (unat s + unat (load32 m p) + 4294967296 * unat (load32 m (p + 4)) + 4294967296 * (4294967296 * ?rest))"
      by (rule ones_eq_add)
    moreover have "le_val (mem_list m p n) = unat (load32 m p) + 4294967296 * (unat (load32 m (p + 4)) + 4294967296 * ?rest)"
      using le_val_load32 [of n m p] le_val_load32 [of "n - 4" m "p + 4"] True by (simp add: add.assoc)
    ultimately have "ones_eq (unat s1 + ?rest) (unat s + le_val (mem_list m p n))" by (simp add: distrib_left add.assoc)
    then have "ones_eq (unat s' + le_val (mem_list m p' n')) (unat s + le_val (mem_list m p n))"
      using IH(3) ones_eq_trans by blast
    moreover have "chksum3_loop m p n s = (p', n', s')"
      using IH(1) True by (subst chksum3_loop.simps) (simp add: s1_def)
    moreover have "n' = n mod 8" using IH(2) True by (simp add: le_mod_geq)
    ultimately show ?thesis by blast
  next
    case False
    then show ?thesis by (simp add: chksum3_loop.simps [of m p])
  qed
qed

section \<open>The three versions compute the reference\<close>

text \<open>The common end of versions 2 and 3.\<close>

lemma chksum_finish:
  fixes t0 t1 :: u8
  assumes t: "unat t0 + 256 * unat t1 = k" and sum: "unat s + k < 4294967296"
    and eq: "ones_eq (unat s + k) (if is_odd then 256 * v else v)"
  shows "(let sm = s + ucast (word_of_nat (unat t0 + 256 * unat t1) :: u16);
              sm = FOLD_U32T sm; sm = FOLD_U32T sm;
              sm = (if is_odd then SWAP_BYTES_IN_WORD sm else sm)
          in ucast sm :: u16) = word_of_nat (ones_norm v)"
proof -
  have k: "k < 65536" using t unat_u8_less [of t0] unat_u8_less [of t1] by linarith
  define s1 where "s1 = FOLD_U32T (FOLD_U32T (s + ucast (word_of_nat k :: u16)))"
  have "unat (s + ucast (word_of_nat k :: u16)) = unat s + k"
    using sum k by (subst unat_add_no_wrap) (simp_all add: u32_of_u16)
  then have s1: "ones_eq (unat s1) (unat s + k)" "unat s1 < 65536"
    using fold_twice_ones [of "s + ucast (word_of_nat k :: u16)"] fold_twice_small by (simp_all add: s1_def)
  define s2 where "s2 = (if is_odd then SWAP_BYTES_IN_WORD s1 else s1)"
  have "ones_eq (unat s2) v \<and> unat s2 < 65536"
  proof (cases is_odd)
    case True
    have "ones_eq (unat s2) (256 * unat s1)" using swap_ones [OF s1(2)] True by (simp add: s2_def)
    also have "ones_eq \<dots> (256 * (256 * v))" using ones_eq_mult [OF ones_eq_trans [OF s1(1) eq], of 256] True by simp
    also have "256 * (256 * v) = 65536 * v" by simp
    also have "ones_eq \<dots> v" by (rule ones_eq_shift)
    finally show ?thesis using swap_ones(2) [OF s1(2)] True by (simp add: s2_def)
  next
    case False
    then show ?thesis using ones_eq_trans [OF s1(1) eq] s1(2) by (simp add: s2_def)
  qed
  then have "unat s2 = ones_norm v" by (metis ones_norm_unique)
  then have "(ucast s2 :: u16) = word_of_nat (ones_norm v)" by (metis of_nat_unat)
  then show ?thesis unfolding Let_def t s1_def [symmetric] s2_def [symmetric] .
qed

lemma wsum_mem_bound: "n \<le> 131072 \<Longrightarrow> wsum (mem_list m a n) < 4294967296 - 65535"
proof -
  assume "n \<le> 131072"
  then have "(n + 1) div 2 \<le> 65536" by simp
  then show ?thesis using wsum_bound [of "mem_list m a n"] by simp
qed

lemma odd_start:
  assumes "0 < n"
  shows "ones_eq (wsum (mem_list m (a + 1) (n - 1)) + 256 * unat (m a)) (256 * wsum (mem_list m a n))"
proof -
  let ?r = "mem_list m (a + 1) (n - 1)"
  have v: "le_val (mem_list m a n) = unat (m a) + 256 * le_val ?r"
    using mem_list_Suc [of m a "n - 1"] assms by simp
  have "ones_eq (wsum ?r + 256 * unat (m a)) (65536 * le_val ?r + 256 * unat (m a))"
    by (intro ones_eq_add ones_eq_refl ones_eq_trans [OF wsum_le_val ones_eq_sym [OF ones_eq_shift]])
  also have "65536 * le_val ?r + 256 * unat (m a) = 256 * le_val (mem_list m a n)" unfolding v by simp
  also have "ones_eq \<dots> (256 * wsum (mem_list m a n))" by (intro ones_eq_mult ones_eq_sym [OF wsum_le_val])
  finally show ?thesis .
qed

lemma lwip_standard_chksum_ref:
  assumes n: "n \<le> 131072"
  shows "lwip_standard_chksum m a n = word_of_nat (ones_norm (wsum (mem_list m a n)))"
proof -
  define st where "st = (a mod 2 = 1 \<and> n > 0)"
  define t1 where "t1 = (if st then m a else 0)"
  define a1 where "a1 = (if st then a + 1 else a)"
  define n1 where "n1 = (if st then n - 1 else n)"
  have n1: "n1 \<le> 131072" using n by (auto simp: n1_def)
  obtain ps n' s where run: "chksum2_loop m a1 n1 0 = (ps, n', s)" "n' = n1 mod 2"
      "unat s + (if n' > 0 then unat (m ps) else 0) = wsum (mem_list m a1 n1)"
    using chksum2_loop_spec [of 0 m a1 n1] wsum_mem_bound [OF n1, of m a1] by auto
  define t0 where "t0 = (if n' > 0 then m ps else 0)"
  have t0: "unat s + unat t0 = wsum (mem_list m a1 n1)" using run(3) by (simp add: t0_def split: if_splits)
  have k: "unat s + (unat t0 + 256 * unat t1) < 4294967296"
    using t0 wsum_mem_bound [OF n1, of m a1] unat_u8_less [of t1] by linarith
  have eq: "ones_eq (unat s + (unat t0 + 256 * unat t1))
      (if a mod 2 = 1 then 256 * wsum (mem_list m a n) else wsum (mem_list m a n))"
  proof (cases st)
    case True
    then show ?thesis using odd_start [of n m a] t0 by (simp add: st_def a1_def n1_def t1_def add.assoc [symmetric])
  next
    case False
    then show ?thesis using t0 by (auto simp: st_def a1_def n1_def t1_def)
  qed
  have "lwip_standard_chksum m a n =
      (let sm = s + ucast (word_of_nat (unat t0 + 256 * unat t1) :: u16);
           sm = FOLD_U32T sm; sm = FOLD_U32T sm;
           sm = (if a mod 2 = 1 then SWAP_BYTES_IN_WORD sm else sm)
       in ucast sm)"
  proof -
    have "(if a mod 2 = 1 \<and> n > 0 then (m a, a + 1, n - 1) else (0, a, n)) = (t1, a1, n1)"
      by (simp add: st_def t1_def a1_def n1_def)
    then show ?thesis using run(1) unfolding lwip_standard_chksum_def t0_def by (simp add: Let_def)
  qed
  then show ?thesis using chksum_finish [OF refl k eq] by simp
qed

lemma lwip_standard_chksum3_ref:
  assumes n: "n \<le> 131072"
  shows "lwip_standard_chksum3 m a n = word_of_nat (ones_norm (wsum (mem_list m a n)))"
proof -
  define st where "st = (a mod 2 = 1 \<and> n > 0)"
  define t1 where "t1 = (if st then m a else 0)"
  define a1 where "a1 = (if st then a + 1 else a)"
  define n1 where "n1 = (if st then n - 1 else n)"
  define al where "al = (a1 mod 4 \<noteq> 0 \<and> n1 > 1)"
  define a2 where "a2 = (if al then a1 + 2 else a1)"
  define n2 where "n2 = (if al then n1 - 2 else n1)"
  define s2 where "s2 = (if al then ucast (load16 m a1) else 0 :: u32)"
  have s2: "ones_eq (unat s2 + le_val (mem_list m a2 n2)) (le_val (mem_list m a1 n1))"
  proof (cases al)
    case True
    then have l: "le_val (mem_list m a1 n1) = unat (load16 m a1) + 65536 * le_val (mem_list m a2 n2)"
      using mem_list_2 [of n1 m a1] by (simp add: al_def a2_def n2_def unat_load16)
    show ?thesis unfolding l using True
      by (simp add: s2_def u32_of_u16) (intro ones_eq_add ones_eq_refl ones_eq_sym [OF ones_eq_shift])
  qed (simp add: s2_def a2_def n2_def)
  obtain pl n3 s3 where run3: "chksum3_loop m a2 n2 s2 = (pl, n3, s3)" "n3 = n2 mod 8"
      "ones_eq (unat s3 + le_val (mem_list m pl n3)) (unat s2 + le_val (mem_list m a2 n2))"
    using chksum3_loop_spec [of m a2 n2 s2] by blast
  have "unat (FOLD_U32T s3) \<le> 131070"
  proof -
    have "unat s3 div 65536 < 65536" using unat_u32_less [of s3] by (simp add: less_mult_imp_div_less)
    moreover have "unat s3 mod 65536 < 65536" by simp
    ultimately show ?thesis unfolding unat_fold by linarith
  qed
  moreover have w3: "wsum (mem_list m pl n3) \<le> 262140"
  proof -
    have "n3 \<le> 7" using run3(2) mod_less_divisor [of 8 n2] by simp
    then have "(n3 + 1) div 2 \<le> 4" by simp
    then show ?thesis using wsum_bound [of "mem_list m pl n3"] by simp
  qed
  ultimately have small: "unat (FOLD_U32T s3) + wsum (mem_list m pl n3) \<le> 393210" by linarith
  obtain ps n' s where run: "chksum2_loop m pl n3 (FOLD_U32T s3) = (ps, n', s)" "n' = n3 mod 2"
      "unat s + (if n' > 0 then unat (m ps) else 0) = unat (FOLD_U32T s3) + wsum (mem_list m pl n3)"
    using chksum2_loop_spec [of "FOLD_U32T s3" m pl n3] small by auto
  define t0 where "t0 = (if n' > 0 then m ps else 0)"
  have t0: "unat s + unat t0 = unat (FOLD_U32T s3) + wsum (mem_list m pl n3)" using run(3) by (simp add: t0_def split: if_splits)
  have k: "unat s + (unat t0 + 256 * unat t1) < 4294967296" using t0 small unat_u8_less [of t1] by linarith
  have "ones_eq (unat (FOLD_U32T s3) + wsum (mem_list m pl n3)) (unat s3 + le_val (mem_list m pl n3))"
    by (intro ones_eq_add fold_ones wsum_le_val)
  then have "ones_eq (unat s + unat t0) (le_val (mem_list m a1 n1))"
    unfolding t0 by (rule ones_eq_trans [OF _ ones_eq_trans [OF run3(3) s2]])
  then have base: "ones_eq (unat s + unat t0) (wsum (mem_list m a1 n1))"
    by (rule ones_eq_trans [OF _ ones_eq_sym [OF wsum_le_val]])
  have eq: "ones_eq (unat s + (unat t0 + 256 * unat t1))
      (if a mod 2 = 1 then 256 * wsum (mem_list m a n) else wsum (mem_list m a n))"
  proof (cases st)
    case True
    then have "ones_eq (unat s + unat t0 + 256 * unat t1) (256 * wsum (mem_list m a n))"
      using ones_eq_trans [OF ones_eq_add [OF base ones_eq_refl [of "256 * unat t1"]]] odd_start [of n m a]
      by (simp add: st_def a1_def n1_def t1_def)
    then show ?thesis using True by (simp add: st_def add.assoc)
  next
    case False
    then show ?thesis using base by (auto simp: st_def a1_def n1_def t1_def)
  qed
  have "lwip_standard_chksum3 m a n =
      (let sm = s + ucast (word_of_nat (unat t0 + 256 * unat t1) :: u16);
           sm = FOLD_U32T sm; sm = FOLD_U32T sm;
           sm = (if a mod 2 = 1 then SWAP_BYTES_IN_WORD sm else sm)
       in ucast sm)"
  proof -
    have "(if a mod 2 = 1 \<and> n > 0 then (m a, a + 1, n - 1) else (0, a, n)) = (t1, a1, n1)"
      "(if a1 mod 4 \<noteq> 0 \<and> n1 > 1 then (a1 + 2, n1 - 2, ucast (load16 m a1)) else (a1, n1, 0)) = (a2, n2, s2)"
      by (simp_all add: st_def t1_def a1_def n1_def al_def a2_def n2_def s2_def)
    then show ?thesis using run3(1) run(1) unfolding lwip_standard_chksum3_def t0_def by (simp add: Let_def)
  qed
  then show ?thesis using chksum_finish [OF refl k eq] by simp
qed

lemma lwip_standard_chksum1_ref:
  assumes n: "n \<le> 65536"
  shows "lwip_standard_chksum1 m a n = word_of_nat (ones_norm (wsum (mem_list m a n)))"
proof -
  have h: "(n + 1) div 2 \<le> 32768" "n div 2 \<le> 32768" using n by simp_all
  obtain p' n' s k where run: "chksum1_loop m a n 0 = (p', n', s)" "n' = n mod 2" "unat s = k" "k \<le> 65535 * (n div 2)"
      "ones_eq (256 * (k + (if n' > 0 then 256 * unat (m p') else 0))) (le_val (mem_list m a n))"
    using chksum1_loop_spec [of 0 n m a] h by auto
  define s1 where "s1 = (if n' > 0 then s + ucast (push_bit 8 (ucast (m p')) :: u16) else s)"
  have tail: "unat (push_bit 8 (ucast (m p')) :: u16) = 256 * unat (m p')"
  proof -
    have "256 * unat (m p') < 65536" using unat_u8_less [of "m p'"] by linarith
    then show ?thesis unfolding push_bit_eq_mult
      by (simp add: unat_word_ariths u16_of_u8 mult.commute)
  qed
  have s1: "unat s1 = k + (if n' > 0 then 256 * unat (m p') else 0)"
  proof (cases "n' > 0")
    case True
    have "unat s + 256 * unat (m p') < 4294967296" using run(3,4) h(2) unat_u8_less [of "m p'"] by linarith
    then show ?thesis using True run(3) tail by (simp add: s1_def unat_add_no_wrap u32_of_u16)
  qed (use run(3) in \<open>simp add: s1_def\<close>)
  define s2 where "s2 = FOLD_U32T s1"
  define s3 where "s3 = (if s2 AND 0xffff0000 \<noteq> 0 then FOLD_U32T s2 else s2)"
  have s3: "s3 = FOLD_U32T s2"
  proof (cases "s2 AND 0xffff0000 = 0")
    case True
    have m: "(0xffff0000 :: u32) = push_bit 16 (mask 16)" by (simp add: mask_eq_exp_minus_1 push_bit_eq_mult)
    have "\<not> bit (drop_bit 16 s2) n" for n
    proof -
      have "\<not> bit (s2 AND 0xffff0000) (16 + n)" using True by simp
      then show ?thesis unfolding m by (auto simp: bit_simps dest: bit_imp_le_length)
    qed
    then have "drop_bit 16 s2 = 0" by (intro bit_word_eqI) (simp add: bit_0_eq)
    then have "unat s2 div 65536 = 0" using unat_drop16 [of s2] by simp
    then have "unat (FOLD_U32T s2) = unat s2" unfolding unat_fold using div_mult_mod_eq [of "unat s2" 65536] by linarith
    then have "FOLD_U32T s2 = s2" by (auto intro: unsigned_word_eqI)
    then show ?thesis using True by (simp add: s3_def)
  qed (simp add: s3_def)
  have e: "ones_eq (unat s3) (unat s1)" "unat s3 < 65536"
    unfolding s3 s2_def by (rule fold_twice_ones, rule fold_twice_small)
  have "ones_eq (unat (lwip_htons (ucast s3))) (256 * unat s3)"
    using htons_ones [of "ucast s3"] e(2) by (simp add: unat_ucast_u32_u16)
  also have "ones_eq \<dots> (256 * unat s1)" by (rule ones_eq_mult [OF e(1)])
  also have "ones_eq \<dots> (le_val (mem_list m a n))" unfolding s1 by (rule run(5))
  also have "ones_eq \<dots> (wsum (mem_list m a n))" by (rule ones_eq_sym [OF wsum_le_val])
  finally have "unat (lwip_htons (ucast s3)) = ones_norm (wsum (mem_list m a n))" by (intro ones_norm_unique) simp_all
  moreover have "lwip_standard_chksum1 m a n = lwip_htons (ucast s3)"
    using run(1) by (simp add: lwip_standard_chksum1_def Let_def s1_def s2_def s3_def FOLD_U32T_def)
  ultimately show ?thesis by (metis of_nat_unat ucast_id)
qed

section \<open>Chains\<close>

text \<open>The sum a state of the loops over a chain stands for: the accumulator is swapped while an odd number of
  bytes has been summed.\<close>

definition unswap :: "u32 \<times> bool \<Rightarrow> nat" where
  "unswap st = (if snd st then 256 else 1) * unat (fst st)"

lemma ones_eq_256_256: "ones_eq (256 * (256 * a)) a"
  using ones_eq_shift [of a] by simp

lemma ones_eq_pow: "ones_eq (256 ^ k * a) ((if odd k then 256 else 1) * a)"
proof (induction k)
  case (Suc k)
  have "ones_eq (256 * (256 ^ k * a)) (256 * ((if odd k then 256 else 1) * a))" by (rule ones_eq_mult [OF Suc])
  also have "ones_eq \<dots> ((if odd (Suc k) then 256 else 1) * a)" using ones_eq_256_256 [of a] by simp
  finally show ?case by (simp add: mult.assoc)
qed simp

lemma chain_step_spec:
  fixes l :: u16
  assumes "unat (fst st) < 65536"
  shows "ones_eq (unswap (chain_step m pl n l st)) (unswap st + (if snd st then 256 else 1) * wsum (mem_list m pl (unat n)))"
    "unat (fst (chain_step m pl n l st)) < 65536" "snd (chain_step m pl n l st) = (snd st \<noteq> odd (unat l))"
proof -
  obtain acc sw where st: "st = (acc, sw)" by (cases st)
  let ?w = "wsum (mem_list m pl (unat n))"
  define c where "c = lwip_standard_chksum m pl (unat n)"
  have "unat n \<le> 131072" using unat_u16_less [of n] by linarith
  then have c: "unat c = ones_norm ?w" using ones_norm_less [of ?w] by (simp add: c_def lwip_standard_chksum_ref)
  have ca: "unat acc < 65536" using assms st by simp
  then have "unat acc + unat c < 4294967296" using unat_u16_less [of c] by linarith
  then have ac: "unat (acc + ucast c) = unat acc + unat c" by (simp add: unat_add_no_wrap u32_of_u16)
  define a1 where "a1 = FOLD_U32T (acc + ucast c)"
  have "unat acc + unat c \<le> 131070" using ca unat_u16_le [of c] by linarith
  then have a1: "unat a1 < 65536" unfolding a1_def by (intro fold_small) (simp add: ac)
  have "ones_eq (unat a1) (unat acc + unat c)" unfolding a1_def using fold_ones [of "acc + ucast c"] ac by simp
  then have e1: "ones_eq (unat a1) (unat acc + ?w)"
    using ones_eq_trans ones_eq_add [OF ones_eq_refl ones_norm_eq] unfolding c by blast
  have od: "(l mod 2 \<noteq> 0) = odd (unat l)"
  proof -
    have "unat (l mod 2) = unat l mod 2" by (simp add: unat_mod)
    then show ?thesis by (metis odd_iff_mod_2_eq_one even_iff_mod_2_eq_zero unat_eq_zero_word)
  qed
  have od1: "(l mod 2 = 1) = odd (unat l)" using od by simp
  have od2: "(l mod 2 = 0) = even (unat l)" using od by argo
  have run: "chain_step m pl n l st = (if odd (unat l) then (SWAP_BYTES_IN_WORD a1, \<not> sw) else (a1, sw))"
    unfolding st chain_step_def c_def [symmetric] by (simp add: Let_def a1_def [symmetric] od1 od2)
  show "unat (fst (chain_step m pl n l st)) < 65536" unfolding run using a1 swap_ones(2) [OF a1] by simp
  show "snd (chain_step m pl n l st) = (snd st \<noteq> odd (unat l))" using run unfolding st by auto
  have "ones_eq (unswap (chain_step m pl n l st)) ((if sw then 256 else 1) * unat a1)"
  proof (cases "odd (unat l)")
    case True
    have sws: "ones_eq (unat (SWAP_BYTES_IN_WORD a1)) (256 * unat a1)" by (rule swap_ones(1) [OF a1])
    have "ones_eq (256 * unat (SWAP_BYTES_IN_WORD a1)) (unat a1)"
      using ones_eq_trans [OF ones_eq_mult [OF sws, of 256] ones_eq_256_256] .
    then show ?thesis using True sws by (simp add: run unswap_def)
  qed (simp add: run unswap_def)
  also have "ones_eq \<dots> ((if sw then 256 else 1) * (unat acc + ?w))" by (rule ones_eq_mult [OF e1])
  also have "(if sw then 256 else 1) * (unat acc + ?w) = unswap st + (if snd st then 256 else 1) * ?w"
    by (simp add: st unswap_def)
  finally show "ones_eq (unswap (chain_step m pl n l st)) (unswap st + (if snd st then 256 else 1) * ?w)" .
qed

text \<open>A step that is taken after \<open>k\<close> bytes.\<close>

lemma chain_step_le_val:
  assumes "unat (fst st) < 65536" "snd st = odd k"
  shows "ones_eq (unswap (chain_step m pl n l st)) (unswap st + 256 ^ k * le_val (mem_list m pl (unat n)))"
proof -
  have "ones_eq ((if snd st then 256 else 1) * wsum (mem_list m pl (unat n))) (256 ^ k * wsum (mem_list m pl (unat n)))"
    unfolding assms(2) by (rule ones_eq_sym [OF ones_eq_pow])
  moreover have "ones_eq (256 ^ k * wsum (mem_list m pl (unat n))) (256 ^ k * le_val (mem_list m pl (unat n)))"
    by (rule ones_eq_mult [OF wsum_le_val])
  ultimately have "ones_eq ((if snd st then 256 else 1) * wsum (mem_list m pl (unat n))) (256 ^ k * le_val (mem_list m pl (unat n)))"
    by (rule ones_eq_trans)
  then show ?thesis using chain_step_spec(1) [OF assms(1)] ones_eq_add [OF ones_eq_refl] ones_eq_trans by blast
qed

lemma chksum_chain_loop_spec:
  assumes "pchain h q as" "unat (fst st) < 65536" "snd st = odd k"
  shows "\<exists>st'. chksum_chain_loop h q st = Some st' \<and> unat (fst st') < 65536 \<and>
     ones_eq (unswap st') (unswap st + 256 ^ k * le_val (pdata h as))"
  using assms
proof (induction as arbitrary: q st k)
  case Nil
  then show ?case by (subst chksum_chain_loop.simps) simp
next
  case (Cons a as)
  obtain b where b: "q = a" "a \<noteq> 0" "pbufs h a = Some b" "pchain h (pb_next b) as" using Cons.prems(1) by auto
  define st1 where "st1 = chain_step (bytes h) (payload b) (len b) (len b) st"
  have pb: "mem_list (bytes h) (payload b) (unat (len b)) = pbytes h a"
    using b(3) by (simp add: mem_list_rd pbytes_def plen_Some)
  have pl: "plen h a = unat (len b)" using b(3) by (simp add: plen_Some)
  have s1: "unat (fst st1) < 65536" "snd st1 = odd (k + plen h a)"
    using chain_step_spec(2,3) [OF Cons.prems(2)] Cons.prems(3) by (simp_all add: st1_def pl)
  have e1: "ones_eq (unswap st1) (unswap st + 256 ^ k * le_val (pbytes h a))"
    unfolding st1_def pb [symmetric] by (rule chain_step_le_val [OF Cons.prems(2,3)])
  obtain st' where IH: "chksum_chain_loop h (pb_next b) st1 = Some st'" "unat (fst st') < 65536"
      "ones_eq (unswap st') (unswap st1 + 256 ^ (k + plen h a) * le_val (pdata h as))"
    using Cons.IH [OF b(4) s1] by blast
  have "ones_eq (unswap st') (unswap st + 256 ^ k * le_val (pbytes h a) + 256 ^ (k + plen h a) * le_val (pdata h as))"
    using IH(3) ones_eq_add [OF e1 ones_eq_refl] ones_eq_trans by blast
  moreover have "le_val (pdata h (a # as)) = le_val (pbytes h a) + 256 ^ plen h a * le_val (pdata h as)"
    by (simp add: le_val_append)
  ultimately have "ones_eq (unswap st') (unswap st + 256 ^ k * le_val (pdata h (a # as)))"
    by (simp add: distrib_left power_add mult.assoc add.assoc del: pdata_Cons)
  moreover have "chksum_chain_loop h q st = Some st'"
    using b IH(1) by (subst chksum_chain_loop.simps) (simp add: st1_def)
  ultimately show ?case using IH(2) by blast
qed

lemma chksum_partial_loop_spec:
  assumes "pchain h q as" "unat (fst st) < 65536" "snd st = odd k" "unat n \<le> length (pdata h as)" "unat n < 0x7fff"
  shows "\<exists>st'. chksum_partial_loop h q n st = Some st' \<and> unat (fst st') < 65536 \<and>
     ones_eq (unswap st') (unswap st + 256 ^ k * le_val (take (unat n) (pdata h as)))"
  using assms
proof (induction as arbitrary: q st k n)
  case Nil
  then show ?case by (subst chksum_partial_loop.simps) simp
next
  case (Cons a as)
  obtain b where b: "q = a" "a \<noteq> 0" "pbufs h a = Some b" "pchain h (pb_next b) as" using Cons.prems(1) by auto
  have pl: "plen h a = unat (len b)" using b(3) by (simp add: plen_Some)
  show ?case
  proof (cases "n = 0")
    case True
    then show ?thesis using Cons.prems by (subst chksum_partial_loop.simps) simp
  next
    case False
    define c where "c = (if len b > n then n else len b)"
    have c: "unat c = min (unat n) (plen h a)" using pl by (auto simp: c_def word_less_nat_alt)
    have sub: "unat (n - c) = unat n - plen h a" using c by (simp add: unat_sub_no_wrap)
    define st1 where "st1 = chain_step (bytes h) (payload b) c (len b) st"
    have pb: "mem_list (bytes h) (payload b) (unat c) = take (unat n) (pbytes h a)"
      using b(3) c by (simp add: mem_list_rd pbytes_def take_rd)
    have s1: "unat (fst st1) < 65536" "snd st1 = odd (k + plen h a)"
      using chain_step_spec(2,3) [OF Cons.prems(2)] Cons.prems(3) by (simp_all add: st1_def pl)
    have e1: "ones_eq (unswap st1) (unswap st + 256 ^ k * le_val (take (unat n) (pbytes h a)))"
      unfolding st1_def pb [symmetric] by (rule chain_step_le_val [OF Cons.prems(2,3)])
    have le: "unat (n - c) \<le> length (pdata h as)" "unat (n - c) < 0x7fff" using Cons.prems(4,5) sub by simp_all
    obtain st' where IH: "chksum_partial_loop h (pb_next b) (n - c) st1 = Some st'" "unat (fst st') < 65536"
        "ones_eq (unswap st') (unswap st1 + 256 ^ (k + plen h a) * le_val (take (unat (n - c)) (pdata h as)))"
      using Cons.IH [OF b(4) s1 le] by blast
    have "n - c < 0x7fff" using le(2) by (simp add: word_less_nat_alt)
    then have run: "chksum_partial_loop h q n st = Some st'"
      using b IH(1) False by (subst chksum_partial_loop.simps) (simp add: st1_def c_def word_gt_0 Let_def)
    have "ones_eq (unswap st') (unswap st + 256 ^ k * le_val (take (unat n) (pbytes h a))
        + 256 ^ (k + plen h a) * le_val (take (unat n - plen h a) (pdata h as)))"
      using IH(3) ones_eq_add [OF e1 ones_eq_refl] ones_eq_trans unfolding sub by blast
    moreover have "256 ^ (k + plen h a) * le_val (take (unat n - plen h a) (pdata h as)) =
        256 ^ k * (256 ^ length (take (unat n) (pbytes h a)) * le_val (take (unat n - plen h a) (pdata h as)))"
      by (cases "plen h a \<le> unat n") (simp_all add: min_absorb1 power_add)
    ultimately have "ones_eq (unswap st') (unswap st + 256 ^ k * le_val (take (unat n) (pdata h (a # as))))"
      by (simp add: le_val_append distrib_left add.assoc)
    then show ?thesis using run IH(2) by blast
  qed
qed

text \<open>The value the functions return is the complement of the sum of everything added.\<close>

lemma not_low16: "unat acc < 65536 \<Longrightarrow> (ucast (NOT (acc AND 0xffff :: u32)) :: u16) = NOT (word_of_nat (unat acc))"
proof -
  have m: "(0xffff :: u32) = mask 16" by (simp add: mask_eq_exp_minus_1)
  have "(ucast (NOT (acc AND 0xffff)) :: u16) = NOT (ucast acc)"
    unfolding m by (rule bit_word_eqI) (auto simp: bit_simps)
  moreover have "(word_of_nat (unat acc) :: u16) = ucast acc" by (rule of_nat_unat)
  ultimately show ?thesis by simp
qed

lemma swapped_back:
  assumes "unat (fst st) < 65536"
  shows "ones_eq (unat (if snd st then SWAP_BYTES_IN_WORD (fst st) else fst st)) (unswap st)"
    "unat (if snd st then SWAP_BYTES_IN_WORD (fst st) else fst st) < 65536"
  using swap_ones [OF assms] assms by (simp_all add: unswap_def)

lemma inet_chksum_pbuf_ref:
  assumes "pchain h p as"
  shows "inet_chksum_pbuf h p = Some (NOT (word_of_nat (ones_norm (wsum (pdata h as)))))"
proof -
  obtain st where st: "chksum_chain_loop h p (0, False) = Some st" "unat (fst st) < 65536"
      "ones_eq (unswap st) (le_val (pdata h as))"
    using chksum_chain_loop_spec [OF assms, of "(0, False)" 0] by (auto simp: unswap_def)
  define acc where "acc = (if snd st then SWAP_BYTES_IN_WORD (fst st) else fst st)"
  have acc: "ones_eq (unat acc) (wsum (pdata h as))" "unat acc < 65536"
    using swapped_back [OF st(2)] ones_eq_trans [OF ones_eq_trans [OF _ st(3)] ones_eq_sym [OF wsum_le_val]]
    by (simp_all add: acc_def)
  have "inet_chksum_pbuf h p = Some (ucast (NOT (acc AND 0xffff)))"
    using st(1) by (simp add: inet_chksum_pbuf_def acc_def case_prod_beta Let_def)
  then show ?thesis using not_low16 [OF acc(2)] ones_norm_unique [OF acc] by simp
qed

text \<open>The pseudo header of RFC 793, in memory order.\<close>

definition pseudo_header :: "u32 \<Rightarrow> u32 \<Rightarrow> u8 \<Rightarrow> u16 \<Rightarrow> u8 list" where
  "pseudo_header src dest proto proto_len =
     addr_bytes src @ addr_bytes dest @ [0, proto, word_of_nat (unat proto_len div 256), word_of_nat (unat proto_len mod 256)]"

lemma le_val_addr_bytes: "le_val (addr_bytes a) = unat a"
proof -
  have b: "unat (ip4_addr_get_byte a i) = unat a div 256 ^ i mod 256" for i
    unfolding ip4_addr_get_byte_def
    by (simp add: unsigned_ucast_eq take_bit_eq_mod unat_drop_bit power_mult)
  have hi: "unat a div 16777216 < 256" using unat_u32_less [of a] by (simp add: less_mult_imp_div_less)
  moreover have "unat a div 65536 = unat a div 256 div 256" "unat a div 16777216 = unat a div 65536 div 256"
    by (simp_all add: div_mult2_eq [symmetric])
  ultimately have "unat a = unat a mod 256 + 256 * (unat a div 256 mod 256 + 256 * (unat a div 65536 mod 256 + 256 * (unat a div 16777216 mod 256)))"
    using div_mult_mod_eq [of "unat a" 256] div_mult_mod_eq [of "unat a div 256" 256] div_mult_mod_eq [of "unat a div 65536" 256]
    by simp
  then show ?thesis using hi by (simp add: addr_bytes_def b)
qed

lemma htons_bytes:
  "le_val [word_of_nat (unat n div 256), word_of_nat (unat n mod 256)] = unat (lwip_htons n)"
proof -
  have "unat n div 256 < 256" "unat n mod 256 < 256" using unat_u16_less [of n] by (simp_all add: less_mult_imp_div_less)
  then show ?thesis unfolding unat_lwip_htons by (simp add: mult.commute)
qed

lemma htons_proto: "le_val [0, proto] = unat (lwip_htons (ucast proto))"
  unfolding unat_lwip_htons u16_of_u8 using unat_u8_less [of proto] by simp

lemma pseudo_addresses_spec:
  "ones_eq (unat (pseudo_addresses src dest)) (unat src + unat dest)" "unat (pseudo_addresses src dest) < 65536"
proof -
  define acc where "acc = (src AND 0xffff) + (drop_bit 16 src AND 0xffff) + (dest AND 0xffff) + (drop_bit 16 dest AND 0xffff)"
  have parts: "unat (x AND 0xffff) = unat x mod 65536" "unat (drop_bit 16 x AND 0xffff) = unat x div 65536"
    "unat x div 65536 < 65536" for x :: u32
  proof -
    show "unat x div 65536 < 65536" using unat_u32_less [of x] by (simp add: less_mult_imp_div_less)
    then show "unat (drop_bit 16 x AND 0xffff) = unat x div 65536"
      unfolding unat_and_mask16 unat_drop16 by simp
  qed (rule unat_and_mask16)
  have bound: "unat src mod 65536 + unat src div 65536 + unat dest mod 65536 + unat dest div 65536 < 4294967296"
    using parts(3) [of src] parts(3) [of dest] mod_less_divisor [of 65536 "unat src"] mod_less_divisor [of 65536 "unat dest"]
    by linarith
  have "unat acc = unat src mod 65536 + unat src div 65536 + unat dest mod 65536 + unat dest div 65536"
    unfolding acc_def using bound by (simp add: unat_add_no_wrap parts(1,3) unat_drop16)
  moreover have "ones_eq (unat src div 65536 + unat src mod 65536 + (unat dest div 65536 + unat dest mod 65536)) (unat src + unat dest)"
    by (intro ones_eq_add ones_eq_fold)
  ultimately have "ones_eq (unat acc) (unat src + unat dest)" by (simp add: ac_simps)
  then show "ones_eq (unat (pseudo_addresses src dest)) (unat src + unat dest)" "unat (pseudo_addresses src dest) < 65536"
    using fold_twice_ones [of acc] fold_twice_small [of acc] ones_eq_trans
    unfolding pseudo_addresses_def Let_def acc_def by blast+
qed

lemma pseudo_finish_spec:
  assumes "unat (fst st) < 65536" "ones_eq (unswap st) (unat src + unat dest + le_val xs)"
  shows "pseudo_finish proto proto_len st = NOT (word_of_nat (ones_norm (wsum (pseudo_header src dest proto proto_len @ xs))))"
proof -
  define a0 where "a0 = (if snd st then SWAP_BYTES_IN_WORD (fst st) else fst st)"
  have a0: "ones_eq (unat a0) (unat src + unat dest + le_val xs)" "unat a0 < 65536"
    using swapped_back [OF assms(1)] ones_eq_trans [OF _ assms(2)] by (simp_all add: a0_def)
  let ?pr = "lwip_htons (ucast proto)" and ?le = "lwip_htons proto_len"
  define a1 where "a1 = a0 + ucast ?pr + ucast ?le"
  have "unat a0 + unat ?pr + unat ?le < 4294967296" using a0(2) unat_u16_less [of ?pr] unat_u16_less [of ?le] by linarith
  then have a1: "unat a1 = unat a0 + unat ?pr + unat ?le" by (simp add: a1_def unat_add_no_wrap u32_of_u16)
  define a2 where "a2 = FOLD_U32T (FOLD_U32T a1)"
  have "ones_eq (unat a2) (unat a0 + unat ?pr + unat ?le)" using fold_twice_ones [of a1] a1 by (simp add: a2_def)
  also have "ones_eq \<dots> (unat src + unat dest + le_val xs + unat ?pr + unat ?le)" by (intro ones_eq_add a0(1) ones_eq_refl)
  also have "ones_eq \<dots> (le_val (pseudo_header src dest proto proto_len @ xs))"
  proof -
    have v: "le_val (pseudo_header src dest proto proto_len @ xs) =
        unat src + 4294967296 * (unat dest + 4294967296 * (unat ?pr + 65536 * (unat ?le + 65536 * le_val xs)))"
    proof -
      let ?ls = "[word_of_nat (unat proto_len div 256), word_of_nat (unat proto_len mod 256)] :: u8 list"
      have l4: "length (addr_bytes a) = 4" for a by (simp add: addr_bytes_def)
      have "le_val (pseudo_header src dest proto proto_len @ xs) = le_val (addr_bytes src @ addr_bytes dest @ [0, proto] @ ?ls @ xs)"
        by (simp only: pseudo_header_def append.simps append.assoc)
      also have "\<dots> = unat src + 256 ^ 4 * (unat dest + 256 ^ 4 * (le_val [0, proto] + 256 ^ 2 * (le_val ?ls + 256 ^ 2 * le_val xs)))"
        by (simp only: le_val_append l4 le_val_addr_bytes list.size) simp
      also have "\<dots> = unat src + 4294967296 * (unat dest + 4294967296 * (unat ?pr + 65536 * (unat ?le + 65536 * le_val xs)))"
        unfolding htons_bytes htons_proto by simp
      finally show ?thesis .
    qed
    have e1: "ones_eq (65536 * (unat ?le + 65536 * le_val xs)) (unat ?le + le_val xs)"
      by (rule ones_eq_trans [OF ones_eq_shift ones_eq_add [OF ones_eq_refl ones_eq_shift]])
    have e2: "ones_eq (4294967296 * (unat ?pr + 65536 * (unat ?le + 65536 * le_val xs))) (unat ?pr + (unat ?le + le_val xs))"
      by (rule ones_eq_trans [OF ones_eq_shift32 ones_eq_add [OF ones_eq_refl e1]])
    have "ones_eq (4294967296 * (unat dest + 4294967296 * (unat ?pr + 65536 * (unat ?le + 65536 * le_val xs))))
        (unat dest + (unat ?pr + (unat ?le + le_val xs)))"
      by (rule ones_eq_trans [OF ones_eq_shift32 ones_eq_add [OF ones_eq_refl e2]])
    from ones_eq_add [OF ones_eq_refl this]
    have "ones_eq (unat src + 4294967296 * (unat dest + 4294967296 * (unat ?pr + 65536 * (unat ?le + 65536 * le_val xs))))
        (unat src + (unat dest + (unat ?pr + (unat ?le + le_val xs))))" .
    from ones_eq_sym [OF this] show ?thesis unfolding v by (simp add: ac_simps)
  qed
  also have "ones_eq \<dots> (wsum (pseudo_header src dest proto proto_len @ xs))" by (rule ones_eq_sym [OF wsum_le_val])
  finally have a2: "ones_eq (unat a2) (wsum (pseudo_header src dest proto proto_len @ xs))" .
  have small: "unat a2 < 65536" by (simp add: a2_def fold_twice_small)
  have "pseudo_finish proto proto_len st = ucast (NOT (a2 AND 0xffff))"
    by (cases st) (simp add: pseudo_finish_def Let_def a2_def a1_def a0_def)
  then show ?thesis using not_low16 [OF small] ones_norm_unique [OF a2 small] by simp
qed

lemma inet_chksum_pseudo_ref:
  assumes "pchain h p as"
  shows "inet_chksum_pseudo h p proto proto_len src dest =
     Some (NOT (word_of_nat (ones_norm (wsum (pseudo_header src dest proto proto_len @ pdata h as)))))"
proof -
  let ?a = "pseudo_addresses src dest"
  obtain st where st: "chksum_chain_loop h p (?a, False) = Some st" "unat (fst st) < 65536"
      "ones_eq (unswap st) (unat ?a + le_val (pdata h as))"
    using chksum_chain_loop_spec [OF assms, of "(?a, False)" 0] pseudo_addresses_spec(2) by (auto simp: unswap_def)
  have "ones_eq (unswap st) (unat src + unat dest + le_val (pdata h as))"
    using st(3) ones_eq_add [OF pseudo_addresses_spec(1) ones_eq_refl] ones_eq_trans by blast
  then show ?thesis using st(1) pseudo_finish_spec [OF st(2)]
    by (simp add: inet_chksum_pseudo_def inet_cksum_pseudo_base_def)
qed

lemma inet_chksum_pseudo_partial_ref:
  assumes "pchain h p as" "unat n \<le> length (pdata h as)" "unat n < 0x7fff"
  shows "inet_chksum_pseudo_partial h p proto proto_len n src dest =
     Some (NOT (word_of_nat (ones_norm (wsum (pseudo_header src dest proto proto_len @ take (unat n) (pdata h as))))))"
proof -
  let ?a = "pseudo_addresses src dest"
  obtain st where st: "chksum_partial_loop h p n (?a, False) = Some st" "unat (fst st) < 65536"
      "ones_eq (unswap st) (unat ?a + le_val (take (unat n) (pdata h as)))"
    using chksum_partial_loop_spec [OF assms(1), of "(?a, False)" 0 n] assms(2,3) pseudo_addresses_spec(2)
    by (auto simp: unswap_def)
  have "ones_eq (unswap st) (unat src + unat dest + le_val (take (unat n) (pdata h as)))"
    using st(3) ones_eq_add [OF pseudo_addresses_spec(1) ones_eq_refl] ones_eq_trans by blast
  then show ?thesis using st(1) pseudo_finish_spec [OF st(2)]
    by (simp add: inet_chksum_pseudo_partial_def inet_cksum_pseudo_partial_base_def)
qed

section \<open>Storing the checksum\<close>

lemma ones_complement: "ones_norm (n + (65535 - ones_norm n)) = 65535"
proof -
  have le: "ones_norm n \<le> 65535" using ones_norm_less [of n] by simp
  have "ones_eq (n + (65535 - ones_norm n)) (ones_norm n + (65535 - ones_norm n))"
    by (rule ones_eq_add [OF ones_eq_sym [OF ones_norm_eq] ones_eq_refl])
  then have "ones_norm (n + (65535 - ones_norm n)) = ones_norm 65535" using ones_norm_cong le by simp
  then show ?thesis by (simp add: ones_norm_def)
qed

lemma wsum_store:
  assumes "even k" "k + 2 \<le> length xs" "xs ! k = 0" "xs ! (k + 1) = 0"
  shows "wsum (xs[k := lo, k + 1 := hi]) = wsum xs + unat lo + 256 * unat hi"
proof -
  define pre where "pre = take k xs"
  define post where "post = drop (k + 2) xs"
  have "xs = pre @ [xs ! k, xs ! (k + 1)] @ post"
    unfolding pre_def post_def using assms(2)
    by (metis Cons_nth_drop_Suc Suc_eq_plus1 Suc_le_lessD add_2_eq_Suc' append_Cons append_Nil append_take_drop_id less_Suc_eq_le order_less_le)
  then have xs: "xs = pre @ [0, 0] @ post" using assms(3,4) by simp
  have l: "length pre = k" using assms(2) by (simp add: pre_def)
  have "xs[k := lo, k + 1 := hi] = pre @ [lo, hi] @ post"
    unfolding xs l [symmetric] by (simp add: list_update_append)
  moreover have "wsum (pre @ [lo, hi] @ post) = wsum pre + (unat lo + 256 * unat hi + wsum post)"
    using assms(1) l by (simp add: wsum_append_even)
  moreover have "wsum xs = wsum pre + wsum post" unfolding xs using assms(1) l by (simp add: wsum_append_even)
  ultimately show ?thesis by simp
qed

lemma mem_list_update:
  assumes "k < n"
  shows "mem_list (m(a + k := x)) a n = (mem_list m a n)[k := x]"
  using assms by (intro nth_equalityI) (auto simp: mem_list_def nth_list_update)

lemma unat_not_norm: "unat (NOT (word_of_nat (ones_norm n)) :: u16) = 65535 - ones_norm n"
proof -
  have "NOT w = (65535 :: u16) - w" for w by (simp add: not_eq_complement)
  moreover have "unat (65535 - word_of_nat (ones_norm n) :: u16) = 65535 - ones_norm n"
    using ones_norm_less [of n] by (subst unat_sub_no_wrap) simp_all
  ultimately show ?thesis by simp
qed

section \<open>Properties\<close>

text \<open>C19: the three implementations of \<^verbatim>\<open>lwip_standard_chksum\<close>, by bytes, by 16-bit words with the odd
  address and the odd tail handled apart, and by 32-bit words with end-around carry, agree: for any address and
  for the lengths their comments allow, each returns the ones' complement sum of the 16-bit words of the data.\<close>

theorem lwip_standard_chksum_versions:
  "\<forall>n \<le> 0x20000. lwip_standard_chksum m a n = word_of_nat (ones_norm (wsum (mem_list m a n))) \<and>
     lwip_standard_chksum3 m a n = lwip_standard_chksum m a n \<and>
     (n \<le> 0x10000 \<longrightarrow> lwip_standard_chksum1 m a n = lwip_standard_chksum m a n)"
  by (simp add: lwip_standard_chksum_ref lwip_standard_chksum3_ref lwip_standard_chksum1_ref)

theorem lwip_standard_chksum_versions_witness:
  "lwip_standard_chksum (bytes example_heap) 129 4 = word_of_nat (ones_norm (wsum [98, 99, 0, 0])) \<and>
   lwip_standard_chksum3 (bytes example_heap) 129 4 = lwip_standard_chksum (bytes example_heap) 129 4"
  using lwip_standard_chksum_versions [rule_format, of 4 "bytes example_heap" 129]
  by (simp add: mem_list_def upt_rec) (simp add: example_heap_def)

text \<open>C18: \<^verbatim>\<open>inet_chksum_pbuf\<close> depends only on the bytes of the packet, not on how they are split into buffers
  or on their addresses: it is the complement of the ones' complement sum of their 16-bit words.\<close>

theorem inet_chksum_pbuf_of_bytes:
  assumes "packet h p as"
  shows "inet_chksum_pbuf h p = Some (NOT (word_of_nat (ones_norm (wsum (pdata h as)))))"
  using inet_chksum_pbuf_ref assms by (simp add: packet_def)

theorem inet_chksum_pbuf_of_bytes_witness:
  "inet_chksum_pbuf example_heap 96 = Some (NOT (word_of_nat (ones_norm (wsum [97, 98, 99, 100, 101]))))"
  using inet_chksum_pbuf_of_bytes [OF example_packets(1)] by simp

text \<open>C33: the TCP and UDP checksum \<^verbatim>\<open>ip_chksum_pseudo\<close> is the complement of the ones' complement sum of the
  pseudo header (addresses, protocol and length in network byte order) followed by the bytes of the packet.\<close>

theorem ip_chksum_pseudo_of_bytes:
  assumes "packet h p as"
  shows "ip_chksum_pseudo h p proto proto_len src dest =
     Some (NOT (word_of_nat (ones_norm (wsum (pseudo_header src dest proto proto_len @ pdata h as)))))"
  using inet_chksum_pseudo_ref assms by (simp add: packet_def ip_chksum_pseudo_def)

theorem ip_chksum_pseudo_of_bytes_witness:
  "ip_chksum_pseudo example_heap 96 17 5 1 2 =
     Some (NOT (word_of_nat (ones_norm (wsum (pseudo_header 1 2 17 5 @ [97, 98, 99, 100, 101])))))"
  using ip_chksum_pseudo_of_bytes [OF example_packets(1)] by simp

text \<open>C34: a receiver accepts what a sender stores: if the checksum field, at an even offset, is zero while
  \<^verbatim>\<open>inet_chksum\<close> runs and its result is then written there (little endian, as the processor does), then
  \<^verbatim>\<open>inet_chksum\<close> over the same bytes returns 0.\<close>

theorem inet_chksum_verifies:
  assumes "even k" "k + 2 \<le> unat n" "m (a + k) = 0" "m (a + k + 1) = 0"
  shows "inet_chksum (m(a + k := word_of_nat (unat (inet_chksum m a n) mod 256),
                        a + k + 1 := word_of_nat (unat (inet_chksum m a n) div 256))) a n = 0"
proof -
  let ?c = "inet_chksum m a n" and ?xs = "mem_list m a (unat n)"
  have n: "unat n \<le> 131072" using unat_u16_less [of n] by linarith
  have c: "unat ?c = 65535 - ones_norm (wsum ?xs)"
    by (simp add: inet_chksum_def lwip_standard_chksum_ref [OF n] unat_not_norm)
  have parts: "unat ?c mod 256 < 256" "unat ?c div 256 < 256"
    using unat_u16_less [of ?c] by (simp_all add: less_mult_imp_div_less)
  let ?m = "m(a + k := word_of_nat (unat ?c mod 256), a + k + 1 := word_of_nat (unat ?c div 256))"
  have ml: "mem_list ?m a (unat n) = ?xs[k := word_of_nat (unat ?c mod 256), k + 1 := word_of_nat (unat ?c div 256)]"
    using mem_list_update [of "k + 1" "unat n"] mem_list_update [of k "unat n"] assms(2) by (simp add: add.assoc)
  have "?xs ! k = 0" "?xs ! (k + 1) = 0" using assms(2-4) by (simp_all add: mem_list_def)
  then have "wsum (mem_list ?m a (unat n)) = wsum ?xs + (unat ?c mod 256 + 256 * (unat ?c div 256))"
    unfolding ml using assms(1,2) parts by (subst wsum_store) simp_all
  then have "ones_norm (wsum (mem_list ?m a (unat n))) = 65535" using c ones_complement by simp
  then have "inet_chksum ?m a n = NOT (word_of_nat 65535)" unfolding inet_chksum_def lwip_standard_chksum_ref [OF n] by simp
  then show ?thesis by simp
qed

theorem inet_chksum_verifies_witness:
  "inet_chksum ((bytes example_heap)(128 + 4 := word_of_nat (unat (inet_chksum (bytes example_heap) 128 8) mod 256),
      128 + 4 + 1 := word_of_nat (unat (inet_chksum (bytes example_heap) 128 8) div 256))) 128 8 = 0"
  by (rule inet_chksum_verifies) (simp_all add: example_heap_def)

text \<open>\<^verbatim>\<open>ip_chksum_pseudo_partial\<close> covers the first \<^verbatim>\<open>chksum_len\<close> bytes of the packet while that is less
  than \<^verbatim>\<open>0x7fff\<close>; with more, unless the first buffer brings the rest below that, its assertion aborts.\<close>

lemma ip_chksum_pseudo_partial_range:
  assumes "packet h p as" "unat n \<le> length (pdata h as)"
  shows "(unat n < 0x7fff \<longrightarrow> ip_chksum_pseudo_partial h p proto proto_len n src dest =
       Some (NOT (word_of_nat (ones_norm (wsum (pseudo_header src dest proto proto_len @ take (unat n) (pdata h as))))))) \<and>
     (plen h p + 0x7fff \<le> unat n \<longrightarrow> ip_chksum_pseudo_partial h p proto proto_len n src dest = None)"
proof -
  obtain b as' where b: "pbufs h p = Some b" "p \<noteq> 0" using assms(1) by (rule packet_head)
  have "ip_chksum_pseudo_partial h p proto proto_len n src dest = None" if le: "plen h p + 0x7fff \<le> unat n"
  proof -
    have "\<not> len b > n" "n > 0" using le b(1) by (auto simp: word_less_nat_alt plen_Some)
    moreover have "unat (n - len b) \<ge> 0x7fff" using le b(1) by (subst unat_sub_no_wrap) (simp_all add: plen_Some)
    ultimately have "chksum_partial_loop h p n st = None" for st
      using b by (subst chksum_partial_loop.simps) (simp add: word_less_nat_alt)
    then show ?thesis
      by (simp add: ip_chksum_pseudo_partial_def inet_chksum_pseudo_partial_def inet_cksum_pseudo_partial_base_def)
  qed
  then show ?thesis using inet_chksum_pseudo_partial_ref [of h p as n] assms
    by (simp add: ip_chksum_pseudo_partial_def packet_def)
qed

end
