(* ===== verification/Ip_State.thy ===== *)
theory Ip_State
  imports Inet_Chksum
begin

text \<open>
  The state of the layers above the link layer: the reassembly queue of \<^verbatim>\<open>ip4_frag.c\<close>, the
  globals of \<^verbatim>\<open>ip.c\<close> and \<^verbatim>\<open>ip4.c\<close>, the group lists of \<^verbatim>\<open>igmp.c\<close>, the control blocks of
  \<^verbatim>\<open>udp.c\<close> and \<^verbatim>\<open>raw.c\<close>, the data of \<^verbatim>\<open>autoip.c\<close> and the listeners of \<^verbatim>\<open>netif.c\<close>. Structures that the code reaches through
  pointers are kept in maps from addresses; a null pointer is 0. The link layer only carries this
  state (the field \<open>ip_st\<close> of its own state).
\<close>

section \<open>IPv4\<close>

text \<open>The copy of an IP header in \<^verbatim>\<open>struct ip_reassdata\<close> is kept as its 20 bytes.\<close>

record ip_reassdata =
  rd_next :: nat
  rd_p :: nat
  rd_iphdr :: "u8 list"
  datagram_len :: u16
  rd_flags :: u8
  rd_timer :: u8

record ip_globals =
  current_netif :: nat
  current_input_netif :: nat
  current_ip4_header :: nat
  current_ip_header_tot_len :: u16
  current_iphdr_src :: u32
  current_iphdr_dest :: u32

section \<open>IGMP\<close>

datatype igmp_group_state =
  IGMP_GROUP_NON_MEMBER | IGMP_GROUP_DELAYING_MEMBER | IGMP_GROUP_IDLE_MEMBER

record igmp_group =
  ig_next :: nat
  group_address :: u32
  last_reporter_flag :: u8
  group_state :: igmp_group_state
  ig_timer :: u16
  ig_use :: u8

datatype netif_mac_filter_action = NETIF_DEL_MAC_FILTER | NETIF_ADD_MAC_FILTER

section \<open>Control blocks\<close>

text \<open>The common members \<^verbatim>\<open>IP_PCB\<close> of the control blocks, and the blocks of UDP and raw sockets.\<close>

record ip_pcb =
  local_ip :: u32
  remote_ip :: u32
  netif_idx :: u8
  so_options :: u8
  pcb_tos :: u8
  pcb_ttl :: u8

record udp_pcb = ip_pcb +
  udp_next :: nat
  udp_flags :: u8
  local_port :: u16
  remote_port :: u16
  mcast_ip4 :: u32
  mcast_ifindex :: u8
  mcast_ttl :: u8
  udp_recv_fn :: nat
  udp_recv_arg :: nat

record raw_pcb = ip_pcb +
  raw_next :: nat
  raw_protocol :: u8
  raw_flags :: u8
  raw_mcast_ifindex :: u8
  raw_mcast_ttl :: u8
  raw_recv_fn :: nat
  raw_recv_arg :: nat

section \<open>AutoIP\<close>

datatype autoip_state_enum_t =
  AUTOIP_STATE_OFF | AUTOIP_STATE_CHECKING | AUTOIP_STATE_BOUND

text \<open>\<^verbatim>\<open>struct acd\<close> inside \<^verbatim>\<open>struct autoip\<close> is represented by its address.\<close>

record autoip =
  llipaddr :: u32
  autoip_state :: autoip_state_enum_t
  tried_llipaddr :: u8
  autoip_acd :: nat

section \<open>Listeners of interface events\<close>

record netif_ext_callback_t =
  ext_next :: nat
  ext_fn :: nat

text \<open>What a listener is told besides the reason: the new link or administrative state, or the old values of
  the IPv4 settings that changed.\<close>

datatype netif_ext_callback_args_t =
  Args_None | Args_Link u8 | Args_Status u8 | Args_Ipv4 "u32 option" "u32 option" "u32 option"

section \<open>The state above the link layer\<close>

record ip_layer =
  ip_id :: u16
  ip_data :: ip_globals
  reassdatagrams :: nat
  reassdata :: "nat \<rightharpoonup> ip_reassdata"
  ip_reass_pbufcount :: u16
  igmp_list :: "nat \<Rightarrow> nat"
  igmp_groups :: "nat \<rightharpoonup> igmp_group"
  mac_filter_calls :: "(nat \<times> u32 \<times> netif_mac_filter_action) list"
  udp_pcbs :: nat
  udp_pcb_at :: "nat \<rightharpoonup> udp_pcb"
  udp_port :: u16
  raw_pcbs :: nat
  raw_pcb_at :: "nat \<rightharpoonup> raw_pcb"
  autoip_data :: "nat \<rightharpoonup> autoip"
  ext_callback :: nat
  ext_callbacks :: "nat \<rightharpoonup> netif_ext_callback_t"

end
