(* ===== verification/Ethernet.thy ===== *)
theory Ethernet
  imports Ip_State
begin

text \<open>
  The link layer's sending half: \<^verbatim>\<open>ethernet_output\<close> of \<^verbatim>\<open>src/netif/ethernet.c\<close> and the
  functions of \<^verbatim>\<open>src/lwip/ipv4/etharp.c\<close> that build and send ARP packets (\<^verbatim>\<open>etharp_raw\<close>,
  the requests, the probe and the announcement of address conflict detection), with the state
  that Ethernet, ARP and conflict detection share.

  The parameters (\<open>eth_env\<close>) are the driver's \<^verbatim>\<open>linkoutput\<close>, which gets the bytes of a frame
  and answers with an error code, the source of random numbers behind \<^verbatim>\<open>LWIP_RAND\<close>, the functions
  behind the \<^verbatim>\<open>acd_conflict_callback\<close> pointers, the IP layer's \<^verbatim>\<open>ip4_input\<close>, which
  \<open>Ip4_Input\<close> defines, \<^verbatim>\<open>tcp_input\<close>, the receive functions of UDP and raw control blocks, whether an
  interface has an \<^verbatim>\<open>igmp_mac_filter\<close>, the listeners of interface events and the functions of TCP and
  DHCP that \<^verbatim>\<open>netif.c\<close> calls. The frames handed to a driver are recorded in \<open>sent_frames\<close>. The
  state of the layers above is the field \<open>ip_st\<close>.
\<close>

section \<open>Data\<close>

datatype etharp_state =
    ETHARP_STATE_EMPTY | ETHARP_STATE_PENDING | ETHARP_STATE_STABLE
  | ETHARP_STATE_STABLE_REREQUESTING_1 | ETHARP_STATE_STABLE_REREQUESTING_2

type_synonym eth_addr = "u8 list"

record etharp_entry =
  arp_q :: nat
  arp_ipaddr :: u32
  arp_netif :: nat
  arp_ethaddr :: eth_addr
  arp_ctime :: u16
  arp_state :: etharp_state

datatype acd_state_enum_t =
    ACD_STATE_OFF | ACD_STATE_PROBE_WAIT | ACD_STATE_PROBING | ACD_STATE_ANNOUNCE_WAIT
  | ACD_STATE_ANNOUNCING | ACD_STATE_ONGOING | ACD_STATE_PASSIVE_ONGOING | ACD_STATE_RATE_LIMIT

datatype acd_callback_enum_t = ACD_IP_OK | ACD_RESTART_CLIENT | ACD_DECLINE

record acd =
  acd_next :: nat
  acd_ipaddr :: u32
  acd_state :: acd_state_enum_t
  sent_num :: u8
  ttw :: u16
  lastconflict :: u8
  num_conflicts :: u8
  acd_conflict_callback :: nat

record eth_state =
  eth_heap :: heap
  netifs :: "nat \<rightharpoonup> netif"
  netif_default :: nat
  arp_table :: "etharp_entry list"
  etharp_cached_entry :: nat
  acd_list :: "nat \<Rightarrow> nat"
  acds :: "nat \<rightharpoonup> acd"
  rand_calls :: nat
  sent_frames :: "(nat \<times> u8 list) list"
  ip_st :: ip_layer

record eth_env =
  pb_env :: pbuf_env
  linkoutput :: "nat \<Rightarrow> u8 list \<Rightarrow> err_t"
  lwip_rand :: "nat \<Rightarrow> u32"
  acd_callback :: "nat \<Rightarrow> nat \<Rightarrow> acd_callback_enum_t \<Rightarrow> eth_state \<Rightarrow> eth_state option"
  call_ip4_input :: "nat \<Rightarrow> nat \<Rightarrow> eth_state \<Rightarrow> eth_state option"
  call_tcp_input :: "nat \<Rightarrow> nat \<Rightarrow> eth_state \<Rightarrow> eth_state option"
  call_udp_recv :: "nat \<Rightarrow> nat \<Rightarrow> nat \<Rightarrow> nat \<Rightarrow> u32 \<Rightarrow> u16 \<Rightarrow> eth_state \<Rightarrow> eth_state option"
  call_raw_recv :: "nat \<Rightarrow> nat \<Rightarrow> nat \<Rightarrow> nat \<Rightarrow> u32 \<Rightarrow> eth_state \<Rightarrow> (bool \<times> eth_state) option"
  igmp_mac_filter :: "nat \<Rightarrow> bool"
  call_ext_fn :: "nat \<Rightarrow> nat \<Rightarrow> u16 \<Rightarrow> netif_ext_callback_args_t \<Rightarrow> eth_state \<Rightarrow> eth_state option"
  call_tcp_netif_ip_addr_changed :: "u32 \<Rightarrow> u32 option \<Rightarrow> eth_state \<Rightarrow> eth_state option"
  call_dhcp_network_changed_link_up :: "nat \<Rightarrow> eth_state \<Rightarrow> eth_state option"

abbreviation (input) ARP_TABLE_SIZE :: nat where "ARP_TABLE_SIZE \<equiv> 10"
abbreviation (input) ETH_HWADDR_LEN :: u8 where "ETH_HWADDR_LEN \<equiv> 6"
abbreviation (input) SIZEOF_ETH_HDR :: nat where "SIZEOF_ETH_HDR \<equiv> 14"
abbreviation (input) SIZEOF_ETHARP_HDR :: u16 where "SIZEOF_ETHARP_HDR \<equiv> 28"
abbreviation (input) ETHTYPE_IP :: u16 where "ETHTYPE_IP \<equiv> 0x0800"
abbreviation (input) ETHTYPE_ARP :: u16 where "ETHTYPE_ARP \<equiv> 0x0806"
abbreviation (input) ARP_REQUEST :: u16 where "ARP_REQUEST \<equiv> 1"
abbreviation (input) ARP_REPLY :: u16 where "ARP_REPLY \<equiv> 2"

text \<open>Independent updates of the state are brought into the order of the fields.\<close>

lemma eth_state_upd_order [simp]:
  "s\<lparr>arp_table := t, eth_heap := h\<rparr> = s\<lparr>eth_heap := h, arp_table := t\<rparr>"
  "s\<lparr>etharp_cached_entry := k, eth_heap := h\<rparr> = s\<lparr>eth_heap := h, etharp_cached_entry := k\<rparr>"
  "s\<lparr>acds := d, eth_heap := h\<rparr> = s\<lparr>eth_heap := h, acds := d\<rparr>"
  "s\<lparr>rand_calls := k, eth_heap := h\<rparr> = s\<lparr>eth_heap := h, rand_calls := k\<rparr>"
  "s\<lparr>sent_frames := f, eth_heap := h\<rparr> = s\<lparr>eth_heap := h, sent_frames := f\<rparr>"
  "s\<lparr>etharp_cached_entry := k, arp_table := t\<rparr> = s\<lparr>arp_table := t, etharp_cached_entry := k\<rparr>"
  "s\<lparr>sent_frames := f, arp_table := t\<rparr> = s\<lparr>arp_table := t, sent_frames := f\<rparr>"
  "s\<lparr>sent_frames := f, etharp_cached_entry := k\<rparr> = s\<lparr>etharp_cached_entry := k, sent_frames := f\<rparr>"
  "s\<lparr>rand_calls := k, acds := d\<rparr> = s\<lparr>acds := d, rand_calls := k\<rparr>"
  "s\<lparr>sent_frames := f, acds := d\<rparr> = s\<lparr>acds := d, sent_frames := f\<rparr>"
  "s\<lparr>sent_frames := f, rand_calls := k\<rparr> = s\<lparr>rand_calls := k, sent_frames := f\<rparr>"
  by (rule eth_state.equality; simp)+

definition ethbroadcast :: eth_addr where
  "ethbroadcast = [0xff, 0xff, 0xff, 0xff, 0xff, 0xff]"

definition ethzero :: eth_addr where
  "ethzero = [0, 0, 0, 0, 0, 0]"

text \<open>The two bytes of a 16-bit field in memory, on the little-endian host.\<close>

definition store16 :: "u16 \<Rightarrow> u8 list" where
  "store16 w = [ucast w, ucast (drop_bit 8 w)]"

section \<open>Sending a frame\<close>

text \<open>What a driver reads when it copies the packet \<open>p\<close> out: the payloads along the chain.\<close>

partial_function (option) chain_bytes :: "heap \<Rightarrow> nat \<Rightarrow> u8 list option" where
  "chain_bytes h p =
     (if p = 0 then Some []
      else do { b \<leftarrow> pbufs h p;
                xs \<leftarrow> chain_bytes h (pb_next b);
                Some (rd h (payload b) (unat (len b)) @ xs) })"

definition netif_linkoutput :: "eth_env \<Rightarrow> nat \<Rightarrow> nat \<Rightarrow> eth_state \<Rightarrow> (err_t \<times> eth_state) option" where
  "netif_linkoutput e n p s =
     do { frame \<leftarrow> chain_bytes (eth_heap s) p;
          Some (linkoutput e n frame, s\<lparr>sent_frames := sent_frames s @ [(n, frame)]\<rparr>) }"

definition ethernet_output ::
    "eth_env \<Rightarrow> nat \<Rightarrow> nat \<Rightarrow> eth_addr \<Rightarrow> eth_addr \<Rightarrow> u16 \<Rightarrow> eth_state \<Rightarrow> (err_t \<times> eth_state) option" where
  "ethernet_output e n p src dst eth_type s =
     (let eth_type_be = lwip_htons eth_type in
      do { (failed, h) \<leftarrow> pbuf_add_header p SIZEOF_ETH_HDR (eth_heap s);
           if failed then Some (ERR_BUF, s\<lparr>eth_heap := h\<rparr>)
           else
             do { b \<leftarrow> pbufs h p;
                  let h = write_bytes (payload b + 12) (store16 eth_type_be) h;
                      h = write_bytes (payload b) dst h;
                      h = write_bytes (payload b + 6) src h
                  in do { nif \<leftarrow> netifs s n;
                          lwip_assert (hwaddr_len nif = ETH_HWADDR_LEN);
                          netif_linkoutput e n p (s\<lparr>eth_heap := h\<rparr>) } } })"

section \<open>ARP packets\<close>

text \<open>The writes to the fields of \<^verbatim>\<open>struct etharp_hdr\<close> at \<open>a\<close>, in the order of the code.\<close>

definition write_arp_hdr ::
    "nat \<Rightarrow> u16 \<Rightarrow> eth_addr \<Rightarrow> eth_addr \<Rightarrow> u32 \<Rightarrow> u32 \<Rightarrow> heap \<Rightarrow> heap" where
  "write_arp_hdr a opcode hwsrc_addr hwdst_addr ipsrc_addr ipdst_addr h =
     (let h = write_bytes (a + 6) (store16 (lwip_htons opcode)) h;
          h = write_bytes (a + 8) hwsrc_addr h;
          h = write_bytes (a + 18) hwdst_addr h;
          h = write_bytes (a + 14) (addr_bytes ipsrc_addr) h;
          h = write_bytes (a + 24) (addr_bytes ipdst_addr) h;
          h = write_bytes a (store16 (PP_HTONS 1)) h;
          h = write_bytes (a + 2) (store16 (PP_HTONS ETHTYPE_IP)) h;
          h = write_bytes (a + 4) [ETH_HWADDR_LEN] h
      in write_bytes (a + 5) [4] h)"

definition etharp_raw ::
    "eth_env \<Rightarrow> nat \<Rightarrow> eth_addr \<Rightarrow> eth_addr \<Rightarrow> eth_addr \<Rightarrow> u32 \<Rightarrow> eth_addr \<Rightarrow> u32 \<Rightarrow> u16 \<Rightarrow>
     eth_state \<Rightarrow> (err_t \<times> eth_state) option" where
  "etharp_raw e n ethsrc_addr ethdst_addr hwsrc_addr ipsrc_addr hwdst_addr ipdst_addr opcode s =
     do { (p, h) \<leftarrow> pbuf_alloc (pb_env e) PBUF_LINK SIZEOF_ETHARP_HDR PBUF_RAM (eth_heap s);
          if p = 0 then Some (ERR_MEM, s\<lparr>eth_heap := h\<rparr>)
          else
            do { b \<leftarrow> pbufs h p;
                 lwip_assert (len b \<ge> SIZEOF_ETHARP_HDR);
                 nif \<leftarrow> netifs s n;
                 lwip_assert (hwaddr_len nif = ETH_HWADDR_LEN);
                 let h = write_arp_hdr (payload b) opcode hwsrc_addr hwdst_addr ipsrc_addr ipdst_addr h
                 in do { (_, s) \<leftarrow>
                           (if ip4_addr_islinklocal ipsrc_addr
                            then ethernet_output e n p ethsrc_addr ethbroadcast ETHTYPE_ARP (s\<lparr>eth_heap := h\<rparr>)
                            else ethernet_output e n p ethsrc_addr ethdst_addr ETHTYPE_ARP (s\<lparr>eth_heap := h\<rparr>));
                         (_, h) \<leftarrow> pbuf_free (pb_env e) p (eth_heap s);
                         Some (ERR_OK, s\<lparr>eth_heap := h\<rparr>) } } }"

definition etharp_request_dst ::
    "eth_env \<Rightarrow> nat \<Rightarrow> u32 \<Rightarrow> eth_addr \<Rightarrow> eth_state \<Rightarrow> (err_t \<times> eth_state) option" where
  "etharp_request_dst e n ipaddr hw_dst_addr s =
     do { nif \<leftarrow> netifs s n;
          etharp_raw e n (hwaddr nif) hw_dst_addr (hwaddr nif) (ip_addr nif) ethzero ipaddr ARP_REQUEST s }"

definition etharp_request :: "eth_env \<Rightarrow> nat \<Rightarrow> u32 \<Rightarrow> eth_state \<Rightarrow> (err_t \<times> eth_state) option" where
  "etharp_request e n ipaddr s = etharp_request_dst e n ipaddr ethbroadcast s"

definition etharp_acd_probe :: "eth_env \<Rightarrow> nat \<Rightarrow> u32 \<Rightarrow> eth_state \<Rightarrow> (err_t \<times> eth_state) option" where
  "etharp_acd_probe e n ipaddr s =
     do { nif \<leftarrow> netifs s n;
          etharp_raw e n (hwaddr nif) ethbroadcast (hwaddr nif) IPADDR_ANY ethzero ipaddr ARP_REQUEST s }"

definition etharp_acd_announce :: "eth_env \<Rightarrow> nat \<Rightarrow> u32 \<Rightarrow> eth_state \<Rightarrow> (err_t \<times> eth_state) option" where
  "etharp_acd_announce e n ipaddr s =
     do { nif \<leftarrow> netifs s n;
          etharp_raw e n (hwaddr nif) ethbroadcast (hwaddr nif) ipaddr ethzero ipaddr ARP_REQUEST s }"

section \<open>The bytes on the wire\<close>

text \<open>The frames of RFC 826 and RFC 894, with 16-bit fields in network order.\<close>

definition be16 :: "u16 \<Rightarrow> u8 list" where
  "be16 w = [ucast (drop_bit 8 w), ucast w]"

definition eth_frame :: "eth_addr \<Rightarrow> eth_addr \<Rightarrow> u16 \<Rightarrow> u8 list \<Rightarrow> u8 list" where
  "eth_frame dst src type body = dst @ src @ be16 type @ body"

definition arp_packet :: "u16 \<Rightarrow> eth_addr \<Rightarrow> u32 \<Rightarrow> eth_addr \<Rightarrow> u32 \<Rightarrow> u8 list" where
  "arp_packet opcode sha spa tha tpa =
     be16 1 @ be16 0x0800 @ [6, 4] @ be16 opcode @ sha @ addr_bytes spa @ tha @ addr_bytes tpa"

lemma store16_htons [simp]: "store16 (lwip_htons w) = be16 w" "store16 (PP_HTONS w) = be16 w"
proof -
  have "ucast (lwip_htons w) = (ucast (drop_bit 8 w) :: u8)" "ucast (drop_bit 8 (lwip_htons w)) = (ucast w :: u8)"
    by (rule bit_word_eqI; auto simp: lwip_htons_def bit_PP_HTONS bit_simps add.commute)+
  then show "store16 (lwip_htons w) = be16 w" "store16 (PP_HTONS w) = be16 w"
    by (simp_all add: store16_def be16_def lwip_htons_def)
qed

lemma length_be16 [simp]: "length (be16 w) = 2" "length (addr_bytes a) = 4"
  by (simp_all add: be16_def addr_bytes_def)

lemma length_ethconst [simp]: "length ethbroadcast = 6" "length ethzero = 6"
  by (simp_all add: ethbroadcast_def ethzero_def)

lemma length_arp_packet [simp]:
  "length sha = 6 \<Longrightarrow> length tha = 6 \<Longrightarrow> length (arp_packet opcode sha spa tha tpa) = 28"
  by (simp add: arp_packet_def)

subsection \<open>Adjacent writes\<close>

lemma write_bytes_after:
  "b = a + length xs \<Longrightarrow> write_bytes b ys (write_bytes a xs h) = write_bytes a (xs @ ys) h"
  by (rule heap.equality) (auto simp: write_bytes_def nth_append fun_eq_iff)

lemma write_bytes_before:
  "b = a + length xs \<Longrightarrow> write_bytes a xs (write_bytes b ys h) = write_bytes a (xs @ ys) h"
  by (rule heap.equality) (auto simp: write_bytes_def nth_append fun_eq_iff)

lemmas write_bytes_adjacent = write_bytes_after write_bytes_before

lemma write_bytes_fields [simp]:
  "pbufs (write_bytes a xs h) = pbufs h" "heap_blocks (write_bytes a xs h) = heap_blocks h"
  "pools (write_bytes a xs h) = pools h" "pbuf_free_ooseq_pending (write_bytes a xs h) = pbuf_free_ooseq_pending h"
  by (simp_all add: write_bytes_def)

lemma write_bytes_pbufs [simp]:
  "(write_bytes a xs h)\<lparr>pbufs := m\<rparr> = write_bytes a xs (h\<lparr>pbufs := m\<rparr>)"
  by (rule heap.equality) (auto simp: write_bytes_def)

lemma write_arp_hdr_packet:
  assumes "length sha = 6" "length tha = 6"
  shows "write_arp_hdr a opcode sha tha spa tpa h = write_bytes a (arp_packet opcode sha spa tha tpa) h"
  using assms by (simp add: write_arp_hdr_def arp_packet_def write_bytes_adjacent)

lemma chain_bytes_packet: "pchain h p as \<Longrightarrow> chain_bytes h p = Some (pdata h as)"
  by (induction as arbitrary: p) (auto simp: chain_bytes.simps [of h] pbytes_def plen_def)

section \<open>What the functions send\<close>

text \<open>The memory in use: the pool of packet buffers and the blocks of the allocator.\<close>

definition allocated :: "heap \<Rightarrow> nat set" where
  "allocated h = pool_memory (pools h MEMP_PBUF_POOL) \<union> {x. \<exists>a n. heap_blocks h a = Some n \<and> a \<le> x \<and> x < a + n}"

lemma allocated_cong:
  "heap_blocks h' = heap_blocks h \<Longrightarrow> pools h' = pools h \<Longrightarrow> allocated h' = allocated h"
  by (simp add: allocated_def)

lemma owned_region_allocated:
  assumes "heap_inv h" "owned h as"
  shows "packet_region h as \<subseteq> allocated h"
proof
  fix x assume "x \<in> packet_region h as"
  then obtain a where a: "a \<in> set as" "x \<in> payload_region h a" by (auto simp: packet_region_def)
  then obtain b where b: "pbufs h a = Some b" "pbuf_owner b = Own_pool \<or> pbuf_owner b = Own_heap"
    using assms(2) by (auto simp: owned_def)
  have l: "a + 16 \<le> payload b" "payload b + unat (len b) \<le> a + block_size h a b"
    using heap_inv_layout [OF assms(1) b(1)] b(2) by (auto simp: layout_ok_def)
  have x: "payload b \<le> x" "x < payload b + unat (len b)"
    using a(2) b(1) by (auto simp: payload_region_def plen_def)
  show "x \<in> allocated h"
  proof (cases "pbuf_owner b = Own_pool")
    case True
    then have "a \<in> live h Own_pool" using b(1) by (auto simp: live_def)
    then have "a \<in> pool_elems (pools h MEMP_PBUF_POOL)"
      using assms(1) by (auto simp: heap_inv_def pool.holds_def)
    then show ?thesis using l x True assms(1)
      by (auto simp: allocated_def pool_memory_def block_size_def heap_inv_def intro!: bexI [of _ a])
  next
    case False
    then have "a \<in> live h Own_heap" using b by (auto simp: live_def)
    then obtain n where "heap_blocks h a = Some n" using assms(1) by (auto simp: heap_inv_def)
    moreover from this have "a \<le> x" "x < a + n" using l x False by (auto simp: block_size_def)
    ultimately show ?thesis unfolding allocated_def by blast
  qed
qed

definition headed :: "pbuf \<Rightarrow> pbuf" where
  "headed b = b\<lparr>payload := payload b - 14, len := len b + 14, tot_len := tot_len b + 14\<rparr>"

text \<open>Whether \<^verbatim>\<open>pbuf_add_header\<close> finds room for the Ethernet header.\<close>

definition eth_room :: "heap \<Rightarrow> nat \<Rightarrow> bool" where
  "eth_room h p \<longleftrightarrow>
     (\<exists>b. pbufs h p = Some b \<and> unat (tot_len b) + 14 < 65536 \<and> p + SIZEOF_STRUCT_PBUF + 14 \<le> payload b \<and>
        type_internal b AND PBUF_TYPE_FLAG_STRUCT_DATA_CONTIGUOUS \<noteq> 0)"

lemma pbuf_add_eth_header:
  assumes "pbufs h p = Some b" "p \<noteq> 0"
  shows "pbuf_add_header p 14 h =
     (if eth_room h p then Some (False, h\<lparr>pbufs := (pbufs h)(p \<mapsto> headed b)\<rparr>) else Some (True, h))"
proof -
  have "(14 :: u16) + tot_len b < 14 \<longleftrightarrow> \<not> unat (tot_len b) + 14 < 65536"
  proof -
    have "unat (14 :: u16) = 14" by simp
    then show ?thesis using u16_add_overflows [of 14 "tot_len b"] by linarith
  qed
  then show ?thesis using assms
    by (auto simp: pbuf_add_header_def pbuf_add_header_impl_def eth_room_def headed_def Let_def)
qed

lemma eth_header_packet:
  assumes p: "packet h p (p # as)" and room: "eth_room h p" and b: "pbufs h p = Some b" and inv: "heap_inv h"
    and dis: "{payload b - 14..<payload b} \<inter> packet_region h as = {}" and hdr: "length hdr = 14"
    and h': "h' = write_bytes (payload b - 14) hdr (h\<lparr>pbufs := (pbufs h)(p \<mapsto> headed b)\<rparr>)"
  shows "packet h' p (p # as)" "pdata h' (p # as) = hdr @ pdata h (p # as)" "heap_inv h'"
proof -
  let ?h1 = "h\<lparr>pbufs := (pbufs h)(p \<mapsto> headed b)\<rparr>"
  have r: "unat (tot_len b) + 14 < 65536" "p + 30 \<le> payload b" using room b by (auto simp: eth_room_def)
  have tot: "unat (tot_len b) = unat (len b) + length (pdata h as)"
    using packet_tot_len [OF p b] b by (simp add: plen_Some)
  have u: "unat (len b + 14) = unat (len b) + 14" "unat (tot_len b + 14) = unat (tot_len b) + 14"
    using r(1) tot by (simp_all add: unat_word_ariths)
  have pk: "packet ?h1 p (p # as)" "pdata ?h1 (p # as) = rd h (payload b - 14) (unat (len b) + 14) @ pdata h as"
    using packet_upd_first [OF p refl b, of "headed b"] tot u by (auto simp: headed_def)
  have hi: "heap_inv ?h1"
    using u(1) r(2) by (intro heap_inv_upd [OF inv b]) (auto simp: headed_def pbuf_owner_def pbuf_get_allocsrc_def)
  have w: "writes_only {payload b - 14..<payload b} ?h1 h'"
    unfolding h' using hdr r(2) by (intro writes_only_write) auto
  show "packet h' p (p # as)" using writes_only_packet [OF w] pk(1) by simp
  show "heap_inv h'" using heap_inv_writes [OF w] hi by simp
  have pb: "pbufs h' p = Some (headed b)" by (simp add: h')
  have "p \<notin> set as" using packet_head_fresh [OF p] .
  obtain q where tl_chain: "pchain h q as" using p by (auto simp: packet_def)
  then have tl: "pdata h' as = pdata h as"
  proof -
    have "\<forall>a \<in> set as. same_payload h ?h1 a"
    proof
      fix a assume a: "a \<in> set as"
      then obtain x where "pbufs h a = Some x" using pchain_live [OF tl_chain] by blast
      then show "same_payload h ?h1 a" using a \<open>p \<notin> set as\<close> by (auto simp: same_payload_def)
    qed
    then have eq: "packet_region ?h1 as = packet_region h as" "pdata ?h1 as = pdata h as"
      using packet_region_cong pdata_cong [of ?h1 h] by auto
    show ?thesis using writes_only_pdata [OF w, of as] eq dis by auto
  qed
  have "pbytes h' p = hdr @ pbytes h p"
  proof (rule nth_equalityI)
    show "length (pbytes h' p) = length (hdr @ pbytes h p)"
      using pb b u hdr by (simp add: plen_Some headed_def)
    fix i assume "i < length (pbytes h' p)"
    then have "i < unat (len b) + 14" using pb u by (simp add: plen_Some headed_def)
    then show "pbytes h' p ! i = (hdr @ pbytes h p) ! i"
      using pb b u hdr r(2) by (auto simp: pbytes_def plen_Some headed_def nth_append h' write_bytes_def)
  qed
  then show "pdata h' (p # as) = hdr @ pdata h (p # as)" using tl by simp
qed

lemma ethernet_output_packet:
  assumes p: "packet (eth_heap s) p (p # as)" and b: "pbufs (eth_heap s) p = Some b" and inv: "heap_inv (eth_heap s)"
    and dis: "{payload b - 14..<payload b} \<inter> packet_region (eth_heap s) as = {}"
    and n: "netifs s n = Some nif" "hwaddr_len nif = 6" and len: "length src = 6" "length dst = 6"
    and frame: "frame = eth_frame dst src type (pdata (eth_heap s) (p # as))"
    and h': "h' = write_bytes (payload b - 14) (dst @ src @ be16 type)
               ((eth_heap s)\<lparr>pbufs := (pbufs (eth_heap s))(p \<mapsto> headed b)\<rparr>)"
  shows "ethernet_output e n p src dst type s =
     (if eth_room (eth_heap s) p
      then Some (linkoutput e n frame, s\<lparr>eth_heap := h', sent_frames := sent_frames s @ [(n, frame)]\<rparr>)
      else Some (ERR_BUF, s))"
proof (cases "eth_room (eth_heap s) p")
  case True
  have pay: "payload (headed b) = payload b - 14" by (simp add: headed_def)
  have w: "write_bytes (payload b - 14 + 6) src (write_bytes (payload b - 14) dst
      (write_bytes (payload b - 14 + 12) (be16 type) ((eth_heap s)\<lparr>pbufs := (pbufs (eth_heap s))(p \<mapsto> headed b)\<rparr>))) = h'"
    using len by (simp add: h' write_bytes_adjacent)
  have l14: "length (dst @ src @ be16 type) = 14" using len by simp
  note hp = eth_header_packet [OF p True b inv dis l14 h']
  have "chain_bytes h' p = Some frame"
    using chain_bytes_packet [of h' p "p # as"] hp(1,2) by (auto simp: packet_def frame eth_frame_def)
  then show ?thesis
    using True p n packet_first [OF p] pbuf_add_eth_header [OF b] w [simplified]
    by (simp add: ethernet_output_def netif_linkoutput_def pay Let_def)
next
  case False
  then show ?thesis using packet_first [OF p] pbuf_add_eth_header [OF b]
    by (simp add: ethernet_output_def Let_def)
qed

subsection \<open>Sending an ARP packet\<close>

text \<open>The buffer of an ARP packet, and the heap after its allocation at \<open>r\<close>.\<close>

definition arp_pbuf :: "nat \<Rightarrow> pbuf" where
  "arp_pbuf r =
     \<lparr>pb_next = 0, payload = r + 32, tot_len = 28, len = 28, type_internal = 0x80, pb_flags = 0, pb_ref = 1, if_idx = 0\<rparr>"

definition arp_heap :: "nat \<Rightarrow> heap \<Rightarrow> heap" where
  "arp_heap r h = h\<lparr>heap_blocks := (heap_blocks h)(r \<mapsto> 60), pbufs := (pbufs h)(r \<mapsto> arp_pbuf r)\<rparr>"

lemma arp_pbuf_fields [simp]:
  "pb_next (arp_pbuf r) = 0" "payload (arp_pbuf r) = r + 32" "tot_len (arp_pbuf r) = 28" "len (arp_pbuf r) = 28"
  "type_internal (arp_pbuf r) = 0x80" "pb_flags (arp_pbuf r) = 0" "pb_ref (arp_pbuf r) = 1"
  by (simp_all add: arp_pbuf_def)

lemma pbuf_alloc_arp:
  assumes inv: "heap_inv h" and m: "malloc_ok e" and r: "r = libc_malloc e h 60"
  shows "pbuf_alloc e PBUF_LINK 28 PBUF_RAM h = (if r = 0 then Some (0, h) else Some (r, arp_heap r h))"
proof -
  have al: "LWIP_MEM_ALIGN 14 = 16" "LWIP_MEM_ALIGN 28 = 28" "LWIP_MEM_ALIGN 16 = 16"
    by (simp_all add: LWIP_MEM_ALIGN_def)
  show ?thesis
  proof (cases "r = 0")
    case True
    then show ?thesis using r by (simp add: pbuf_alloc_def mem_malloc_def al Let_def)
  next
    case False
    have r4: "r mod 4 = 0" using m inv False r by (auto simp: malloc_ok_def heap_inv_def)
    then have "LWIP_MEM_ALIGN r = r" "LWIP_MEM_ALIGN (r + 30) = r + 32" "(r + 32) mod 4 = 0"
      by (simp_all add: LWIP_MEM_ALIGN_def) presburger+
    moreover have type: "(0x280 :: u8) = 0x80" by simp
    ultimately show ?thesis using False r
      by (simp add: type pbuf_alloc_def mem_malloc_def al Let_def pbuf_init_alloced_pbuf_def arp_heap_def arp_pbuf_def
          add.commute [of _ 30])
  qed
qed

lemma pbuf_free_ram:
  assumes "pbufs h p = Some b" "pb_ref b = 1" "pb_next b = 0" "pb_flags b = 0" "pbuf_get_allocsrc b = 0"
    "p \<in> dom (heap_blocks h)" "p \<noteq> 0" "p mod 4 = 0"
  shows "pbuf_free e p h = Some (1, h\<lparr>heap_blocks := (heap_blocks h)(p := None), pbufs := (pbufs h)(p := None)\<rparr>)"
proof -
  have "LWIP_MEM_ALIGN p = p" using assms(8) by (simp add: LWIP_MEM_ALIGN_def) presburger
  moreover have "pbuf_get_allocsrc (b\<lparr>pb_ref := 0\<rparr>) = 0" using assms(5) by (simp add: pbuf_get_allocsrc_def)
  ultimately show ?thesis using assms
    by (simp add: pbuf_free_def pbuf_free_loop.simps [of e p] pbuf_free_loop.simps [of e 0] pbuf_dealloc_def mem_free_def Let_def)
qed

lemma malloc_fresh:
  assumes "heap_inv h" "malloc_ok e" "r = libc_malloc e h n" "r \<noteq> 0"
  shows "r mod 4 = 0" "heap_blocks h r = None" "pbufs h r = None" "{r..<r + n} \<inter> allocated h = {}"
proof -
  show "r mod 4 = 0" "heap_blocks h r = None" "pbufs h r = None"
    using assms(1,2,4) unfolding malloc_ok_def heap_inv_def assms(3) by blast+
  have "{r..<r + n} \<inter> pool_memory (pools h MEMP_PBUF_POOL) = {}"
    "\<And>a m. heap_blocks h a = Some m \<Longrightarrow> {r..<r + n} \<inter> {a..<a + m} = {}"
    using assms(1,2,4) unfolding malloc_ok_def heap_inv_def assms(3) by blast+
  then show "{r..<r + n} \<inter> allocated h = {}" unfolding allocated_def by fastforce
qed

lemma arp_heap_packet:
  assumes "heap_inv h" "malloc_ok e" "r = libc_malloc e h 60" "r \<noteq> 0" "length pk = 28"
    and h2: "h2 = write_bytes (r + 32) pk (arp_heap r h)"
  shows "packet h2 r [r]" "pdata h2 [r] = pk" "heap_inv h2" "pbufs h2 r = Some (arp_pbuf r)" "eth_room h2 r"
proof -
  have inv1: "heap_inv (arp_heap r h)" and fp: "fresh_packet (pbufs h) (arp_heap r h) r [r] 28"
    using pbuf_alloc_ram_spec [OF assms(1,2), of PBUF_LINK 28] assms(4) pbuf_alloc_arp [OF assms(1-3)] by auto
  show b: "pbufs h2 r = Some (arp_pbuf r)" by (simp add: h2 arp_heap_def)
  have w: "writes_only {r + 32..<r + 60} (arp_heap r h) h2"
    unfolding h2 by (intro writes_only_write) (simp add: assms(5))
  show "heap_inv h2" using heap_inv_writes [OF w] inv1 by simp
  show "packet h2 r [r]" using writes_only_packet [OF w] fp by (simp add: fresh_packet_def)
  show "pdata h2 [r] = pk"
    using rd_write_same [of "r + 32" pk "arp_heap r h"] assms(5) b by (simp add: pbytes_def plen_def h2)
  show "eth_room h2 r" using b by (simp add: eth_room_def)
qed

lemma arp_heap_freed:
  assumes "heap_inv h" "malloc_ok e" "r = libc_malloc e h 60" "r \<noteq> 0" "length pk = 28" "length hdr = 14"
    and h3: "h3 = write_bytes (r + 18) hdr
               ((write_bytes (r + 32) pk (arp_heap r h))\<lparr>pbufs := (pbufs h)(r \<mapsto> headed (arp_pbuf r))\<rparr>)"
  shows "\<exists>h4. pbuf_free e r h3 = Some (1, h4) \<and> writes_only (- allocated h) h h4"
proof (intro exI conjI)
  note r = malloc_fresh [OF assms(1-4)]
  let ?h4 = "h3\<lparr>heap_blocks := (heap_blocks h3)(r := None), pbufs := (pbufs h3)(r := None)\<rparr>"
  show "pbuf_free e r h3 = Some (1, ?h4)"
    using assms(4) r(1)
    by (intro pbuf_free_ram [of _ _ "headed (arp_pbuf r)"])
      (simp_all add: h3 arp_heap_def headed_def pbuf_get_allocsrc_def)
  have "bytes h3 x = bytes h x" if "x \<in> allocated h" for x
  proof -
    have "x \<notin> {r..<r + 60}" using that r(4) by blast
    then show ?thesis using assms(5,6) by (auto simp: h3 arp_heap_def write_bytes_def)
  qed
  moreover have "pbufs ?h4 = pbufs h" "heap_blocks ?h4 = heap_blocks h" "pools ?h4 = pools h"
      "pbuf_free_ooseq_pending ?h4 = pbuf_free_ooseq_pending h"
    using r(2,3) by (auto simp: h3 arp_heap_def fun_eq_iff)
  ultimately show "writes_only (- allocated h) h ?h4"
    by (simp add: writes_only_def)
qed

definition arp_frame :: "eth_addr \<Rightarrow> eth_addr \<Rightarrow> eth_addr \<Rightarrow> u32 \<Rightarrow> eth_addr \<Rightarrow> u32 \<Rightarrow> u16 \<Rightarrow> u8 list" where
  "arp_frame ethsrc ethdst sha spa tha tpa opcode =
     eth_frame (if ip4_addr_islinklocal spa then ethbroadcast else ethdst) ethsrc ETHTYPE_ARP
       (arp_packet opcode sha spa tha tpa)"

lemma etharp_raw_spec:
  assumes inv: "heap_inv (eth_heap s)" and e: "malloc_ok (pb_env e)"
    and n: "netifs s n = Some nif" "hwaddr_len nif = 6"
    and len: "length ethsrc = 6" "length ethdst = 6" "length sha = 6" "length tha = 6"
  shows "\<exists>h'. writes_only (- allocated (eth_heap s)) (eth_heap s) h' \<and>
     etharp_raw e n ethsrc ethdst sha spa tha tpa opcode s =
       (if libc_malloc (pb_env e) (eth_heap s) 60 = 0 then Some (ERR_MEM, s)
        else Some (ERR_OK, s\<lparr>eth_heap := h',
               sent_frames := sent_frames s @ [(n, arp_frame ethsrc ethdst sha spa tha tpa opcode)]\<rparr>))"
proof -
  define h where "h = eth_heap s"
  define r where "r = libc_malloc (pb_env e) h 60"
  have inv: "heap_inv h" using inv by (simp add: h_def)
  note alloc = pbuf_alloc_arp [OF inv e r_def]
  show ?thesis
  proof (cases "r = 0")
    case True
    then show ?thesis using alloc r_def h_def by (intro exI [of _ h]) (simp add: etharp_raw_def)
  next
    case False
    define pk where "pk = arp_packet opcode sha spa tha tpa"
    define h2 where "h2 = write_bytes (r + 32) pk (arp_heap r h)"
    define dst where "dst = (if ip4_addr_islinklocal spa then ethbroadcast else ethdst)"
    define hdr where "hdr = dst @ ethsrc @ be16 ETHTYPE_ARP"
    define frame where "frame = eth_frame dst ethsrc ETHTYPE_ARP pk"
    define h3 where "h3 = write_bytes (r + 18) hdr (h2\<lparr>pbufs := (pbufs h)(r \<mapsto> headed (arp_pbuf r))\<rparr>)"
    have l: "length pk = 28" "length hdr = 14" "length dst = 6" using len by (simp_all add: pk_def hdr_def dst_def)
    note p2 = arp_heap_packet [OF inv e r_def False l(1) h2_def]
    have pb: "(pbufs h2)(r \<mapsto> headed (arp_pbuf r)) = (pbufs h)(r \<mapsto> headed (arp_pbuf r))"
      by (simp add: h2_def arp_heap_def)
    have out: "ethernet_output e n r ethsrc dst ETHTYPE_ARP (s\<lparr>eth_heap := h2\<rparr>) =
        Some (linkoutput e n frame, s\<lparr>eth_heap := h3, sent_frames := sent_frames s @ [(n, frame)]\<rparr>)"
      using ethernet_output_packet [of "s\<lparr>eth_heap := h2\<rparr>" r "[]" "arp_pbuf r" n nif ethsrc dst frame ETHTYPE_ARP h3 e]
        p2 n len(1) l(3) pb
      by (simp add: packet_region_def frame_def h3_def hdr_def add.commute [of 18])
    obtain h4 where h4: "pbuf_free (pb_env e) r h3 = Some (1, h4)" "writes_only (- allocated h) h h4"
      using arp_heap_freed [OF inv e r_def False l(1,2), of h3] h3_def h2_def by blast
    have "(if ip4_addr_islinklocal spa then ethernet_output e n r ethsrc ethbroadcast ETHTYPE_ARP (s\<lparr>eth_heap := h2\<rparr>)
          else ethernet_output e n r ethsrc ethdst ETHTYPE_ARP (s\<lparr>eth_heap := h2\<rparr>)) =
          Some (linkoutput e n frame, s\<lparr>eth_heap := h3, sent_frames := sent_frames s @ [(n, frame)]\<rparr>)"
      using out by (simp add: dst_def split: if_splits)
    moreover have "pbufs (arp_heap r h) r = Some (arp_pbuf r)" by (simp add: arp_heap_def)
    ultimately have "etharp_raw e n ethsrc ethdst sha spa tha tpa opcode s =
        Some (ERR_OK, s\<lparr>eth_heap := h4, sent_frames := sent_frames s @ [(n, frame)]\<rparr>)"
      using False alloc n h4(1) len(3,4)
      by (cases "ip4_addr_islinklocal spa")
        (simp_all add: etharp_raw_def write_arp_hdr_packet h_def [symmetric] h2_def [symmetric] pk_def [symmetric] Let_def)
    then show ?thesis
      using False h4(2)
      by (intro exI [of _ h4]) (simp add: arp_frame_def frame_def dst_def pk_def r_def h_def)
  qed
qed

text \<open>How every function that sends one ARP packet ends: the frame is handed to the driver and the
  packet's buffer is released again, or, without memory, nothing happens.\<close>

definition arp_sent :: "eth_env \<Rightarrow> nat \<Rightarrow> u8 list \<Rightarrow> eth_state \<Rightarrow> err_t \<Rightarrow> eth_state \<Rightarrow> bool" where
  "arp_sent e n frame s r s' \<longleftrightarrow>
     (\<exists>h'. writes_only (- allocated (eth_heap s)) (eth_heap s) h' \<and>
       (if libc_malloc (pb_env e) (eth_heap s) 60 = 0 then r = ERR_MEM \<and> s' = s
        else r = ERR_OK \<and> s' = s\<lparr>eth_heap := h', sent_frames := sent_frames s @ [(n, frame)]\<rparr>))"

definition link_ok :: "eth_state \<Rightarrow> nat \<Rightarrow> netif \<Rightarrow> bool" where
  "link_ok s n nif \<longleftrightarrow>
     heap_inv (eth_heap s) \<and> netifs s n = Some nif \<and> hwaddr_len nif = 6 \<and> length (hwaddr nif) = 6"

lemma etharp_raw_sent:
  assumes "heap_inv (eth_heap s)" "malloc_ok (pb_env e)" "netifs s n = Some nif" "hwaddr_len nif = 6"
    "length ethsrc = 6" "length ethdst = 6" "length sha = 6" "length tha = 6"
  shows "\<exists>r s'. etharp_raw e n ethsrc ethdst sha spa tha tpa opcode s = Some (r, s') \<and>
     arp_sent e n (arp_frame ethsrc ethdst sha spa tha tpa opcode) s r s'"
  using etharp_raw_spec [OF assms, of spa tpa opcode] by (auto simp: arp_sent_def)

lemma etharp_requests_sent:
  assumes "link_ok s n nif" "malloc_ok (pb_env e)"
  shows "length dst = 6 \<Longrightarrow> \<exists>r s'. etharp_request_dst e n ip dst s = Some (r, s') \<and>
      arp_sent e n (arp_frame (hwaddr nif) dst (hwaddr nif) (ip_addr nif) ethzero ip ARP_REQUEST) s r s'"
    "\<exists>r s'. etharp_request e n ip s = Some (r, s') \<and>
      arp_sent e n (arp_frame (hwaddr nif) ethbroadcast (hwaddr nif) (ip_addr nif) ethzero ip ARP_REQUEST) s r s'"
    "\<exists>r s'. etharp_acd_probe e n ip s = Some (r, s') \<and>
      arp_sent e n (arp_frame (hwaddr nif) ethbroadcast (hwaddr nif) IPADDR_ANY ethzero ip ARP_REQUEST) s r s'"
    "\<exists>r s'. etharp_acd_announce e n ip s = Some (r, s') \<and>
      arp_sent e n (arp_frame (hwaddr nif) ethbroadcast (hwaddr nif) ip ethzero ip ARP_REQUEST) s r s'"
  using assms etharp_raw_sent [of s e n nif]
  by (simp_all add: etharp_request_def etharp_request_dst_def etharp_acd_probe_def etharp_acd_announce_def link_ok_def)

lemma arp_sent_keeps:
  assumes "arp_sent e n frame s r s'"
  shows "writes_only (- allocated (eth_heap s)) (eth_heap s) (eth_heap s')" "netifs s' = netifs s"
    "netif_default s' = netif_default s" "arp_table s' = arp_table s" "etharp_cached_entry s' = etharp_cached_entry s"
    "acd_list s' = acd_list s" "acds s' = acds s" "rand_calls s' = rand_calls s"
    "heap_inv (eth_heap s') = heap_inv (eth_heap s)"
    "sent_frames s' = sent_frames s @ (if r = ERR_OK then [(n, frame)] else [])" "r = ERR_OK \<or> r = ERR_MEM"
  using assms heap_inv_writes by (auto simp: arp_sent_def split: if_splits)

lemma arp_sent_link_ok: "arp_sent e n frame s r s' \<Longrightarrow> link_ok s' m nif = link_ok s m nif"
  using arp_sent_keeps [of e n frame s r s'] by (simp add: link_ok_def)

end
