(* ===== verification/Acd.thy ===== *)
theory Acd
  imports Ethernet
begin

text \<open>
  Address conflict detection, \<^verbatim>\<open>src/lwip/ipv4/acd.c\<close> (RFC 5227): every function, over the list of
  modules of a network interface. A module is a \<^verbatim>\<open>struct acd\<close> at an address; its callback is
  a function pointer, and what it points to may change the whole state. \<^verbatim>\<open>NETIF_FOREACH\<close> visits
  \<^verbatim>\<open>netif_default\<close> only (\<^verbatim>\<open>LWIP_SINGLE_NETIF\<close>).
\<close>

section \<open>Operations\<close>

abbreviation (input) PROBE_NUM :: u8 where "PROBE_NUM \<equiv> 3"
abbreviation (input) ANNOUNCE_NUM :: u8 where "ANNOUNCE_NUM \<equiv> 2"
abbreviation (input) MAX_CONFLICTS :: u8 where "MAX_CONFLICTS \<equiv> 10"
abbreviation (input) ACD_TICKS_PER_SECOND :: u32 where "ACD_TICKS_PER_SECOND \<equiv> 10"

definition upd_acd :: "nat \<Rightarrow> (acd \<Rightarrow> acd) \<Rightarrow> eth_state \<Rightarrow> eth_state option" where
  "upd_acd a f s = (case acds s a of None \<Rightarrow> None | Some m \<Rightarrow> Some (s\<lparr>acds := (acds s)(a \<mapsto> f m)\<rparr>))"

definition LWIP_ACD_RAND :: "eth_env \<Rightarrow> eth_state \<Rightarrow> u32 \<times> eth_state" where
  "LWIP_ACD_RAND e s = (lwip_rand e (rand_calls s), s\<lparr>rand_calls := rand_calls s + 1\<rparr>)"

definition ACD_RANDOM_PROBE_WAIT :: "eth_env \<Rightarrow> eth_state \<Rightarrow> u32 \<times> eth_state" where
  "ACD_RANDOM_PROBE_WAIT e s = (let (r, s) = LWIP_ACD_RAND e s in (r mod (1 * ACD_TICKS_PER_SECOND), s))"

definition ACD_RANDOM_PROBE_INTERVAL :: "eth_env \<Rightarrow> eth_state \<Rightarrow> u32 \<times> eth_state" where
  "ACD_RANDOM_PROBE_INTERVAL e s =
     (let (r, s) = LWIP_ACD_RAND e s
      in (r mod ((2 - 1) * ACD_TICKS_PER_SECOND) + 1 * ACD_TICKS_PER_SECOND, s))"

definition call_acd_conflict_callback ::
    "eth_env \<Rightarrow> nat \<Rightarrow> nat \<Rightarrow> acd_callback_enum_t \<Rightarrow> eth_state \<Rightarrow> eth_state option" where
  "call_acd_conflict_callback e n a v s =
     do { m \<leftarrow> acds s a; acd_callback e (acd_conflict_callback m) n v s }"

partial_function (option) acd_on_list :: "eth_state \<Rightarrow> nat \<Rightarrow> nat \<Rightarrow> bool option" where
  "acd_on_list s acd2 a =
     (if acd2 \<noteq> 0 then
        if acd2 = a then Some True else do { m2 \<leftarrow> acds s acd2; acd_on_list s (acd_next m2) a }
      else Some False)"

definition acd_add :: "nat \<Rightarrow> nat \<Rightarrow> nat \<Rightarrow> eth_state \<Rightarrow> (err_t \<times> eth_state) option" where
  "acd_add n a callback s =
     do { lwip_assert (callback \<noteq> 0);
          s \<leftarrow> upd_acd a (\<lambda>m. m\<lparr>acd_conflict_callback := callback\<rparr>) s;
          found \<leftarrow> acd_on_list s (acd_list s n) a;
          if found then Some (ERR_OK, s)
          else do { s \<leftarrow> upd_acd a (\<lambda>m. m\<lparr>acd_next := acd_list s n\<rparr>) s;
                    Some (ERR_OK, s\<lparr>acd_list := (acd_list s)(n := a)\<rparr>) } }"

text \<open>The loop of \<^verbatim>\<open>acd_remove\<close>; the assertion after it fails.\<close>

partial_function (option) acd_remove_loop ::
    "nat \<Rightarrow> nat \<Rightarrow> nat \<Rightarrow> nat \<Rightarrow> eth_state \<Rightarrow> eth_state option" where
  "acd_remove_loop n a acd2 prev s =
     (if acd2 \<noteq> 0 then
        do { m2 \<leftarrow> acds s acd2;
             if acd2 = a then
               (if prev \<noteq> 0 then upd_acd prev (\<lambda>m. m\<lparr>acd_next := acd_next m2\<rparr>) s
                else Some (s\<lparr>acd_list := (acd_list s)(n := acd_next m2)\<rparr>))
             else acd_remove_loop n a (acd_next m2) acd2 s }
      else None)"

definition acd_remove :: "nat \<Rightarrow> nat \<Rightarrow> eth_state \<Rightarrow> eth_state option" where
  "acd_remove n a s = acd_remove_loop n a (acd_list s n) 0 s"

definition acd_start :: "eth_env \<Rightarrow> nat \<Rightarrow> nat \<Rightarrow> u32 \<Rightarrow> eth_state \<Rightarrow> (err_t \<times> eth_state) option" where
  "acd_start e n a ipaddr s =
     do { s \<leftarrow> upd_acd a (\<lambda>m. m\<lparr>sent_num := 0, lastconflict := 0, acd_ipaddr := ipaddr,
                             acd_state := ACD_STATE_PROBE_WAIT\<rparr>) s;
          let (r, s) = ACD_RANDOM_PROBE_WAIT e s
          in do { s \<leftarrow> upd_acd a (\<lambda>m. m\<lparr>ttw := ucast r\<rparr>) s; Some (ERR_OK, s) } }"

definition acd_stop :: "nat \<Rightarrow> eth_state \<Rightarrow> (err_t \<times> eth_state) option" where
  "acd_stop a s =
     (if a \<noteq> 0 then do { s \<leftarrow> upd_acd a (\<lambda>m. m\<lparr>acd_state := ACD_STATE_OFF\<rparr>) s; Some (ERR_OK, s) }
      else Some (ERR_OK, s))"

text \<open>\<^verbatim>\<open>ACD_FOREACH\<close> with a loop body: the link to the next module is read after the body has run.\<close>

partial_function (option) ACD_FOREACH :: "(nat \<Rightarrow> eth_state \<Rightarrow> eth_state option) \<Rightarrow> nat \<Rightarrow> eth_state \<Rightarrow> eth_state option"
where
  "ACD_FOREACH body a s =
     (if a \<noteq> 0 then do { s \<leftarrow> body a s; m \<leftarrow> acds s a; ACD_FOREACH body (acd_next m) s } else Some s)"

definition acd_network_changed_link_down :: "nat \<Rightarrow> eth_state \<Rightarrow> eth_state option" where
  "acd_network_changed_link_down n s =
     ACD_FOREACH (\<lambda>a s. do { (_, s) \<leftarrow> acd_stop a s; Some s }) (acd_list s n) s"

subsection \<open>The timer\<close>

definition acd_probe_tick :: "eth_env \<Rightarrow> nat \<Rightarrow> nat \<Rightarrow> eth_state \<Rightarrow> eth_state option" where
  "acd_probe_tick e n a s =
     do { m \<leftarrow> acds s a;
          if ttw m = 0 then
            do { s \<leftarrow> upd_acd a (\<lambda>m. m\<lparr>acd_state := ACD_STATE_PROBING\<rparr>) s;
                 (_, s) \<leftarrow> etharp_acd_probe e n (acd_ipaddr m) s;
                 s \<leftarrow> upd_acd a (\<lambda>m. m\<lparr>sent_num := sent_num m + 1\<rparr>) s;
                 m \<leftarrow> acds s a;
                 if sent_num m \<ge> PROBE_NUM then
                   upd_acd a (\<lambda>m. m\<lparr>acd_state := ACD_STATE_ANNOUNCE_WAIT, sent_num := 0, ttw := 20\<rparr>) s
                 else (let (r, s) = ACD_RANDOM_PROBE_INTERVAL e s in upd_acd a (\<lambda>m. m\<lparr>ttw := ucast r\<rparr>) s) }
          else Some s }"

definition acd_announce_tick :: "eth_env \<Rightarrow> nat \<Rightarrow> nat \<Rightarrow> eth_state \<Rightarrow> eth_state option" where
  "acd_announce_tick e n a s =
     do { m \<leftarrow> acds s a;
          if ttw m = 0 then
            do { s \<leftarrow> (if sent_num m = 0
                      then upd_acd a (\<lambda>m. m\<lparr>acd_state := ACD_STATE_ANNOUNCING, num_conflicts := 0\<rparr>) s
                      else Some s);
                 (_, s) \<leftarrow> etharp_acd_announce e n (acd_ipaddr m) s;
                 s \<leftarrow> upd_acd a (\<lambda>m. m\<lparr>ttw := 20, sent_num := sent_num m + 1\<rparr>) s;
                 m \<leftarrow> acds s a;
                 if sent_num m \<ge> ANNOUNCE_NUM then
                   do { s \<leftarrow> upd_acd a (\<lambda>m. m\<lparr>acd_state := ACD_STATE_ONGOING, sent_num := 0, ttw := 0\<rparr>) s;
                        call_acd_conflict_callback e n a ACD_IP_OK s }
                 else Some s }
          else Some s }"

definition acd_tmr_body :: "eth_env \<Rightarrow> nat \<Rightarrow> nat \<Rightarrow> eth_state \<Rightarrow> eth_state option" where
  "acd_tmr_body e n a s =
     do { s \<leftarrow> upd_acd a (\<lambda>m. if lastconflict m > 0 then m\<lparr>lastconflict := lastconflict m - 1\<rparr> else m) s;
          s \<leftarrow> upd_acd a (\<lambda>m. if ttw m > 0 then m\<lparr>ttw := ttw m - 1\<rparr> else m) s;
          m \<leftarrow> acds s a;
          case acd_state m of
            ACD_STATE_PROBE_WAIT \<Rightarrow> acd_probe_tick e n a s
          | ACD_STATE_PROBING \<Rightarrow> acd_probe_tick e n a s
          | ACD_STATE_ANNOUNCE_WAIT \<Rightarrow> acd_announce_tick e n a s
          | ACD_STATE_ANNOUNCING \<Rightarrow> acd_announce_tick e n a s
          | ACD_STATE_RATE_LIMIT \<Rightarrow>
              if ttw m = 0 then
                do { (_, s) \<leftarrow> acd_stop a s; call_acd_conflict_callback e n a ACD_RESTART_CLIENT s }
              else Some s
          | _ \<Rightarrow> Some s }"

definition acd_tmr :: "eth_env \<Rightarrow> eth_state \<Rightarrow> eth_state option" where
  "acd_tmr e s =
     (let n = netif_default s
      in if n \<noteq> 0 then ACD_FOREACH (acd_tmr_body e n) (acd_list s n) s else Some s)"

subsection \<open>Conflicts\<close>

definition acd_restart :: "eth_env \<Rightarrow> nat \<Rightarrow> nat \<Rightarrow> eth_state \<Rightarrow> eth_state option" where
  "acd_restart e n a s =
     do { s \<leftarrow> upd_acd a (\<lambda>m. m\<lparr>num_conflicts := num_conflicts m + 1\<rparr>) s;
          s \<leftarrow> call_acd_conflict_callback e n a ACD_DECLINE s;
          m \<leftarrow> acds s a;
          if num_conflicts m \<ge> MAX_CONFLICTS then
            upd_acd a (\<lambda>m. m\<lparr>acd_state := ACD_STATE_RATE_LIMIT, ttw := 600\<rparr>) s
          else do { (_, s) \<leftarrow> acd_stop a s; call_acd_conflict_callback e n a ACD_RESTART_CLIENT s } }"

definition acd_handle_arp_conflict :: "eth_env \<Rightarrow> nat \<Rightarrow> nat \<Rightarrow> eth_state \<Rightarrow> eth_state option" where
  "acd_handle_arp_conflict e n a s =
     do { m \<leftarrow> acds s a;
          if acd_state m = ACD_STATE_PASSIVE_ONGOING then
            do { (_, s) \<leftarrow> acd_stop a s; call_acd_conflict_callback e n a ACD_DECLINE s }
          else if lastconflict m > 0 then acd_restart e n a s
          else do { (_, s) \<leftarrow> etharp_acd_announce e n (acd_ipaddr m) s;
                    upd_acd a (\<lambda>m. m\<lparr>lastconflict := 100\<rparr>) s } }"

definition eth_addr_eq :: "eth_addr \<Rightarrow> eth_addr \<Rightarrow> bool" where
  "eth_addr_eq addr1 addr2 \<longleftrightarrow> take 6 addr1 = take 6 addr2"

text \<open>One iteration of \<^verbatim>\<open>acd_arp_reply\<close>; \<open>hdr\<close> is the address of the ARP header.\<close>

definition acd_arp_reply_body ::
    "eth_env \<Rightarrow> nat \<Rightarrow> nat \<Rightarrow> u32 \<Rightarrow> u32 \<Rightarrow> eth_addr \<Rightarrow> nat \<Rightarrow> eth_state \<Rightarrow> eth_state option" where
  "acd_arp_reply_body e n hdr sipaddr dipaddr netifaddr a s =
     (let shwaddr = rd (eth_heap s) (hdr + 8) 6 in
      do { m \<leftarrow> acds s a;
           if acd_state m \<in> {ACD_STATE_PROBE_WAIT, ACD_STATE_PROBING, ACD_STATE_ANNOUNCE_WAIT} then
             (if sipaddr = acd_ipaddr m \<or>
                 (ip4_addr_isany sipaddr \<and> dipaddr = acd_ipaddr m \<and> \<not> eth_addr_eq netifaddr shwaddr)
              then acd_restart e n a s else Some s)
           else if acd_state m \<in> {ACD_STATE_ANNOUNCING, ACD_STATE_ONGOING, ACD_STATE_PASSIVE_ONGOING} then
             (if sipaddr = acd_ipaddr m \<and> \<not> eth_addr_eq netifaddr shwaddr
              then acd_handle_arp_conflict e n a s else Some s)
           else Some s })"

definition acd_arp_reply :: "eth_env \<Rightarrow> nat \<Rightarrow> nat \<Rightarrow> eth_state \<Rightarrow> eth_state option" where
  "acd_arp_reply e n hdr s =
     do { nif \<leftarrow> netifs s n;
          let netifaddr = hwaddr nif;
              sipaddr = load32 (bytes (eth_heap s)) (hdr + 14);
              dipaddr = load32 (bytes (eth_heap s)) (hdr + 24)
          in ACD_FOREACH (acd_arp_reply_body e n hdr sipaddr dipaddr netifaddr) (acd_list s n) s }"

definition acd_put_in_passive_mode :: "eth_env \<Rightarrow> nat \<Rightarrow> nat \<Rightarrow> eth_state \<Rightarrow> eth_state option" where
  "acd_put_in_passive_mode e n a s =
     do { m \<leftarrow> acds s a;
          case acd_state m of
            ACD_STATE_OFF \<Rightarrow> Some s
          | ACD_STATE_PASSIVE_ONGOING \<Rightarrow> Some s
          | ACD_STATE_ANNOUNCING \<Rightarrow> upd_acd a (\<lambda>m. m\<lparr>acd_state := ACD_STATE_PASSIVE_ONGOING\<rparr>) s
          | ACD_STATE_ONGOING \<Rightarrow> upd_acd a (\<lambda>m. m\<lparr>acd_state := ACD_STATE_PASSIVE_ONGOING\<rparr>) s
          | _ \<Rightarrow> do { (_, s) \<leftarrow> acd_stop a s; call_acd_conflict_callback e n a ACD_DECLINE s } }"

definition acd_netif_ip_addr_changed ::
    "eth_env \<Rightarrow> nat \<Rightarrow> u32 \<Rightarrow> u32 \<Rightarrow> eth_state \<Rightarrow> eth_state option" where
  "acd_netif_ip_addr_changed e n old_addr new_addr s =
     (if ip4_addr_isany old_addr \<or> ip4_addr_isany new_addr then Some s
      else ACD_FOREACH
        (\<lambda>a s. do { m \<leftarrow> acds s a;
                    if acd_ipaddr m = old_addr then
                      (if ip4_addr_islinklocal old_addr \<and> \<not> ip4_addr_islinklocal new_addr
                       then acd_put_in_passive_mode e n a s else Some s)
                    else Some s })
        (acd_list s n) s)"

end
