(* ===== verification/Eth_Example.thy ===== *)
theory Eth_Example
  imports Ethernet
begin

text \<open>
  A concrete state of the link layer, at which the properties of ARP and of address conflict
  detection are instantiated: one Ethernet interface with the address 192.168.0.1, an empty ARP table, one
  conflict detection module, and the heap of the packet buffer examples.
\<close>

definition example_nif :: netif where
  "example_nif =
     \<lparr>ip_addr = 0x0100A8C0, netmask = 0x00FFFFFF, gw = 0, mtu = 1500, hwaddr = [2, 0, 0, 0, 0, 1], hwaddr_len = 6,
      netif_flags = 0x0F, netif_num = 0\<rparr>"

definition example_entry :: etharp_entry where
  "example_entry =
     \<lparr>arp_q = 0, arp_ipaddr = 0, arp_netif = 0, arp_ethaddr = [], arp_ctime = 0, arp_state = ETHARP_STATE_EMPTY\<rparr>"

definition example_acd :: acd where
  "example_acd =
     \<lparr>acd_next = 0, acd_ipaddr = 0x0200A8C0, acd_state = ACD_STATE_PROBE_WAIT, sent_num = 0, ttw = 3, lastconflict = 0,
      num_conflicts = 0, acd_conflict_callback = 500\<rparr>"

text \<open>Above the link layer: nothing is queued, joined or bound.\<close>

definition example_ip :: ip_layer where
  "example_ip =
     \<lparr>ip_id = 0,
      ip_data = \<lparr>current_netif = 0, current_input_netif = 0, current_ip4_header = 0, current_ip_header_tot_len = 0,
                 current_iphdr_src = 0, current_iphdr_dest = 0\<rparr>,
      reassdatagrams = 0, reassdata = Map.empty, ip_reass_pbufcount = 0, igmp_list = (\<lambda>_. 0), igmp_groups = Map.empty,
      mac_filter_calls = [], udp_pcbs = 0, udp_pcb_at = Map.empty, udp_port = 0xC000, raw_pcbs = 0,
      raw_pcb_at = Map.empty, autoip_data = Map.empty, ext_callback = 0, ext_callbacks = Map.empty\<rparr>"

definition example_eth :: eth_state where
  "example_eth =
     \<lparr>eth_heap = example_heap, netifs = [7 \<mapsto> example_nif], netif_default = 7, arp_table = replicate 10 example_entry,
      etharp_cached_entry = 0, acd_list = (\<lambda>_. 0)(7 := 8), acds = [8 \<mapsto> example_acd], rand_calls = 0, sent_frames = [],
      ip_st = example_ip\<rparr>"

definition example_eth_env :: eth_env where
  "example_eth_env =
     \<lparr>pb_env = example_env, linkoutput = (\<lambda>_ _. ERR_OK), lwip_rand = (\<lambda>k. word_of_nat k), acd_callback = (\<lambda>cb n v s. Some s),
      call_ip4_input = (\<lambda>p n s. Some s), call_tcp_input = (\<lambda>p n s. Some s), call_udp_recv = (\<lambda>f arg pcb p a port s. Some s),
      call_raw_recv = (\<lambda>f arg pcb p a s. Some (False, s)), igmp_mac_filter = (\<lambda>n. True),
      call_ext_fn = (\<lambda>f n r a s. Some s), call_tcp_netif_ip_addr_changed = (\<lambda>a b s. Some s),
      call_dhcp_network_changed_link_up = (\<lambda>n s. Some s)\<rparr>"

lemma example_eth_fields [simp]:
  "eth_heap example_eth = example_heap" "netifs example_eth 7 = Some example_nif" "netif_default example_eth = 7"
  "arp_table example_eth = replicate 10 example_entry" "etharp_cached_entry example_eth = 0"
  "acd_list example_eth 7 = 8" "acds example_eth 8 = Some example_acd" "sent_frames example_eth = []"
  "pb_env example_eth_env = example_env" "acd_callback example_eth_env cb n v s = Some s"
  by (simp_all add: example_eth_def example_eth_env_def)

lemma example_nif_fields [simp]:
  "hwaddr example_nif = [2, 0, 0, 0, 0, 1]" "hwaddr_len example_nif = 6" "ip_addr example_nif = 0x0100A8C0"
  "netmask example_nif = 0x00FFFFFF" "netif_flags example_nif = 0x0F"
  by (simp_all add: example_nif_def)

lemma example_entry_fields [simp]:
  "arp_q example_entry = 0" "arp_state example_entry = ETHARP_STATE_EMPTY"
  by (simp_all add: example_entry_def)

lemma example_link_ok: "link_ok example_eth 7 example_nif"
  using example_heap_inv by (simp add: link_ok_def)

lemma example_malloc: "libc_malloc example_env (example_heap\<lparr>bytes := B\<rparr>) 60 = 40000"
proof -
  have "pool_memory (example_pools MEMP_PBUF_POOL) \<subseteq> {10000..<13064}"
    by (auto simp: pool_memory_def example_pools_elems)
  moreover have "b = 96 \<or> b = 160 \<or> b = 224" "m = 64" if "heap_blocks example_heap b = Some m" for b m
    using that by (auto simp: example_heap_def split: if_splits)
  moreover have "40000 \<notin> dom (heap_blocks example_heap)" "pbufs example_heap 40000 = None" "pools example_heap = example_pools"
    by (auto simp: example_heap_def)
  ultimately have "malloc_fits (example_heap\<lparr>bytes := B\<rparr>) 60 40000"
    unfolding malloc_fits_def by (fastforce simp: example_pools_elems)
  then show ?thesis by (simp add: example_env_def)
qed

text \<open>The same with an ARP request of 192.168.0.5 for the interface's address, at 320.\<close>

definition example_request :: "u8 list" where
  "example_request = arp_packet ARP_REQUEST [2, 0, 0, 0, 0, 5] 0x0500A8C0 ethzero 0x0100A8C0"

definition example_arp_heap :: heap where
  "example_arp_heap =
     write_bytes 352 example_request
       (example_heap\<lparr>pbufs := (pbufs example_heap)(320 \<mapsto> example_pbuf 0 352 28 28),
                     heap_blocks := (heap_blocks example_heap)(320 \<mapsto> 64)\<rparr>)"

definition example_arp :: eth_state where
  "example_arp = example_eth\<lparr>eth_heap := example_arp_heap\<rparr>"

lemma example_arp_heap_inv: "heap_inv example_arp_heap"
proof -
  define h where "h = example_heap\<lparr>pbufs := (pbufs example_heap)(320 \<mapsto> example_pbuf 0 352 28 28),
                     heap_blocks := (heap_blocks example_heap)(320 \<mapsto> 64)\<rparr>"
  have lv: "live h k = (if k = Own_heap then {96, 160, 224, 320} else {})" for k
    by (auto simp: live_def example_heap_def h_def split: if_splits)
  have pm: "pool_memory (example_pools MEMP_PBUF_POOL) = {10000..<11532} \<union> {11532..<13064}"
    by (simp add: pool_memory_def example_pools_elems)
  have bl: "blocks_ok h" unfolding blocks_ok_def by (auto simp: example_heap_def h_def pm split: if_splits)
  have lay: "layout_ok h a b \<and> home_ok h a b" if "pbufs h a = Some b" for a b
    using that by (auto simp: layout_ok_def home_ok_def block_size_def example_heap_def h_def example_pools_elems split: if_splits)
  have "pools h = example_pools" "pbufs h 0 = None" "live h Own_heap \<subseteq> dom (heap_blocks h)"
    unfolding lv by (auto simp: example_heap_def h_def)
  then have "heap_inv h" using bl lay unfolding heap_inv_def lv by (simp add: example_pools_elems)
  moreover have "writes_only UNIV h example_arp_heap" unfolding example_arp_heap_def h_def by (rule writes_only_write) simp
  ultimately show ?thesis using heap_inv_writes by blast
qed

end
