(* ===== verification/Acd_Props.thy ===== *)
theory Acd_Props
  imports Acd Eth_Example
begin

text \<open>
  The state machine of address conflict detection. A module's own state (its phase, counters and
  timers) refines an abstract automaton, the one of RFC 5227: three probes, two announcements, then
  the address is in use, defended once in ten seconds.
\<close>

section \<open>The invariant of a module\<close>

definition acd_ok :: "acd \<Rightarrow> bool" where
  "acd_ok m \<longleftrightarrow>
     lastconflict m \<le> 100 \<and>
     (case acd_state m of
        ACD_STATE_PROBE_WAIT \<Rightarrow> sent_num m = 0 \<and> ttw m < 10
      | ACD_STATE_PROBING \<Rightarrow> (sent_num m = 1 \<or> sent_num m = 2) \<and> ttw m < 20
      | ACD_STATE_ANNOUNCE_WAIT \<Rightarrow> sent_num m = 0 \<and> ttw m \<le> 20
      | ACD_STATE_ANNOUNCING \<Rightarrow> sent_num m = 1 \<and> ttw m \<le> 20
      | ACD_STATE_RATE_LIMIT \<Rightarrow> ttw m \<le> 600
      | _ \<Rightarrow> True)"

definition ticked :: "acd \<Rightarrow> acd" where
  "ticked m =
     (let m = (if lastconflict m > 0 then m\<lparr>lastconflict := lastconflict m - 1\<rparr> else m)
      in if ttw m > 0 then m\<lparr>ttw := ttw m - 1\<rparr> else m)"

lemma ticked_fields [simp]:
  "acd_state (ticked m) = acd_state m" "acd_ipaddr (ticked m) = acd_ipaddr m" "sent_num (ticked m) = sent_num m"
  "acd_next (ticked m) = acd_next m" "acd_conflict_callback (ticked m) = acd_conflict_callback m"
  "num_conflicts (ticked m) = num_conflicts m"
  by (simp_all add: ticked_def Let_def)

lemma ticked_ttw: "unat (ttw (ticked m)) = unat (ttw m) - 1"
  by (auto simp: ticked_def Let_def unat_sub_no_wrap word_gt_0 word_le_nat_alt Suc_le_eq simp flip: unat_gt_0)

text \<open>What one call of the timer does with a module, by its state.\<close>

lemma acd_tmr_body_cases:
  assumes "acds s a = Some m"
  shows "acd_tmr_body e n a s =
     (let s1 = s\<lparr>acds := (acds s)(a \<mapsto> ticked m)\<rparr> in
      case acd_state m of
        ACD_STATE_PROBE_WAIT \<Rightarrow> acd_probe_tick e n a s1
      | ACD_STATE_PROBING \<Rightarrow> acd_probe_tick e n a s1
      | ACD_STATE_ANNOUNCE_WAIT \<Rightarrow> acd_announce_tick e n a s1
      | ACD_STATE_ANNOUNCING \<Rightarrow> acd_announce_tick e n a s1
      | ACD_STATE_RATE_LIMIT \<Rightarrow>
          if ttw (ticked m) = 0 then
            do { (_, s) \<leftarrow> acd_stop a s1; call_acd_conflict_callback e n a ACD_RESTART_CLIENT s }
          else Some s1
      | _ \<Rightarrow> Some s1)"
proof -
  have "acd_tmr_body e n a s =
      (let s1 = s\<lparr>acds := (acds s)(a \<mapsto> ticked m)\<rparr> in
       do { m \<leftarrow> acds s1 a;
            case acd_state m of
              ACD_STATE_PROBE_WAIT \<Rightarrow> acd_probe_tick e n a s1
            | ACD_STATE_PROBING \<Rightarrow> acd_probe_tick e n a s1
            | ACD_STATE_ANNOUNCE_WAIT \<Rightarrow> acd_announce_tick e n a s1
            | ACD_STATE_ANNOUNCING \<Rightarrow> acd_announce_tick e n a s1
            | ACD_STATE_RATE_LIMIT \<Rightarrow>
                if ttw m = 0 then
                  do { (_, s) \<leftarrow> acd_stop a s1; call_acd_conflict_callback e n a ACD_RESTART_CLIENT s }
                else Some s1
            | _ \<Rightarrow> Some s1 })"
    using assms by (simp add: acd_tmr_body_def upd_acd_def ticked_def Let_def cong: acd_state_enum_t.case_cong)
  then show ?thesis by (simp add: Let_def cong: acd_state_enum_t.case_cong)
qed

section \<open>Steps of a module\<close>

text \<open>\<open>acd_moves a fs s s' m\<close>: the module \<open>a\<close> becomes \<open>m\<close>, the frames \<open>fs\<close> are sent, and no buffer changes.\<close>

definition acd_moves :: "nat \<Rightarrow> (nat \<times> u8 list) list \<Rightarrow> eth_state \<Rightarrow> eth_state \<Rightarrow> acd \<Rightarrow> bool" where
  "acd_moves a fs s s' m \<longleftrightarrow>
     (\<exists>h' k. writes_only (- allocated (eth_heap s)) (eth_heap s) h' \<and>
       s' = s\<lparr>eth_heap := h', acds := (acds s)(a \<mapsto> m), rand_calls := k, sent_frames := sent_frames s @ fs\<rparr>)"

lemma acd_moves_trans:
  assumes "acd_moves a fs s s1 m1" "acd_moves a fs' s1 s2 m2"
  shows "acd_moves a (fs @ fs') s s2 m2"
proof -
  obtain h1 k1 where 1: "writes_only (- allocated (eth_heap s)) (eth_heap s) h1"
      "s1 = s\<lparr>eth_heap := h1, acds := (acds s)(a \<mapsto> m1), rand_calls := k1, sent_frames := sent_frames s @ fs\<rparr>"
    using assms(1) by (auto simp: acd_moves_def)
  obtain h2 k2 where 2: "writes_only (- allocated h1) h1 h2"
      "s2 = s1\<lparr>eth_heap := h2, acds := (acds s1)(a \<mapsto> m2), rand_calls := k2, sent_frames := sent_frames s1 @ fs'\<rparr>"
    using assms(2) 1(2) by (auto simp: acd_moves_def)
  have "allocated h1 = allocated (eth_heap s)"
    using allocated_cong writes_only_simps(6,7) [OF 1(1)] by blast
  then have "writes_only (- allocated (eth_heap s)) (eth_heap s) h2" using writes_only_trans [OF 1(1)] 2(1) by simp
  then show ?thesis unfolding acd_moves_def 2(2) 1(2) by (intro exI [of _ h2] exI [of _ k2]) simp
qed

lemma acd_moves_keeps:
  assumes "acd_moves a fs s s' m"
  shows "acds s' a = Some m" "link_ok s' n nif = link_ok s n nif" "acd_list s' = acd_list s" "netif_default s' = netif_default s"
    "sent_frames s' = sent_frames s @ fs"
  using assms heap_inv_writes by (auto simp: acd_moves_def link_ok_def)

lemma acd_moves_tick: "acd_moves a [] s (s\<lparr>acds := (acds s)(a \<mapsto> m)\<rparr>) m"
  unfolding acd_moves_def by (intro exI [of _ "eth_heap s"] exI [of _ "rand_calls s"]) simp

text \<open>The allocator can serve another ARP packet, whatever the contents of memory are.\<close>

definition has_memory :: "eth_env \<Rightarrow> heap \<Rightarrow> bool" where
  "has_memory e h \<longleftrightarrow> (\<forall>B. libc_malloc (pb_env e) (h\<lparr>bytes := B\<rparr>) 60 \<noteq> 0)"

lemma has_memory_moves:
  assumes "acd_moves a fs s s' m" "has_memory e (eth_heap s)"
  shows "has_memory e (eth_heap s')"
proof -
  have "(eth_heap s')\<lparr>bytes := B\<rparr> = (eth_heap s)\<lparr>bytes := B\<rparr>" for B
    using assms(1) by (auto simp: acd_moves_def writes_only_def intro!: heap.equality)
  then show ?thesis using assms(2) by (simp add: has_memory_def)
qed

lemma has_memory_now: "has_memory e h \<Longrightarrow> libc_malloc (pb_env e) h 60 \<noteq> 0"
  unfolding has_memory_def by (metis heap.surjective heap.update_convs(2))

abbreviation (input) probe_frame :: "netif \<Rightarrow> u32 \<Rightarrow> u8 list" where
  "probe_frame nif ip \<equiv> arp_frame (hwaddr nif) ethbroadcast (hwaddr nif) IPADDR_ANY ethzero ip ARP_REQUEST"

abbreviation (input) announce_frame :: "netif \<Rightarrow> u32 \<Rightarrow> u8 list" where
  "announce_frame nif ip \<equiv> arp_frame (hwaddr nif) ethbroadcast (hwaddr nif) ip ethzero ip ARP_REQUEST"

lemma probe_interval:
  "unat (ucast (r mod 10 + 10 :: u32) :: u16) = unat r mod 10 + 10" "unat (ucast (r mod 10 :: u32) :: u16) = unat r mod 10"
proof -
  have "unat (r mod 10) = unat r mod 10" by (simp add: unat_mod)
  moreover have "unat r mod 10 < 10" by simp
  ultimately show "unat (ucast (r mod 10 + 10 :: u32) :: u16) = unat r mod 10 + 10" "unat (ucast (r mod 10 :: u32) :: u16) = unat r mod 10"
    by (simp_all add: unsigned_ucast_eq take_bit_eq_mod unat_word_ariths)
qed

definition after_probe :: "acd \<Rightarrow> acd \<Rightarrow> bool" where
  "after_probe m m' \<longleftrightarrow>
     acd_ipaddr m' = acd_ipaddr m \<and> acd_next m' = acd_next m \<and> acd_conflict_callback m' = acd_conflict_callback m \<and>
     num_conflicts m' = num_conflicts m \<and> lastconflict m' = lastconflict m \<and>
     (if sent_num m + 1 \<ge> 3 then acd_state m' = ACD_STATE_ANNOUNCE_WAIT \<and> sent_num m' = 0 \<and> ttw m' = 20
      else acd_state m' = ACD_STATE_PROBING \<and> sent_num m' = sent_num m + 1 \<and> 10 \<le> unat (ttw m') \<and> unat (ttw m') < 20)"

lemma acd_probe_step:
  assumes a: "acds s a = Some m" "ttw m = 0" and l: "link_ok s n nif" and e: "malloc_ok (pb_env e)" "has_memory e (eth_heap s)"
  shows "\<exists>s' m'. acd_probe_tick e n a s = Some s' \<and> acd_moves a [(n, probe_frame nif (acd_ipaddr m))] s s' m' \<and> after_probe m m'"
proof -
  define s1 where "s1 = s\<lparr>acds := (acds s)(a \<mapsto> m\<lparr>acd_state := ACD_STATE_PROBING\<rparr>)\<rparr>"
  have l1: "link_ok s1 n nif" using l by (simp add: link_ok_def s1_def)
  obtain r s2 where p: "etharp_acd_probe e n (acd_ipaddr m) s1 = Some (r, s2)"
      "arp_sent e n (probe_frame nif (acd_ipaddr m)) s1 r s2"
    using etharp_requests_sent(3) [OF l1 e(1)] by blast
  obtain h2 where s2: "s2 = s1\<lparr>eth_heap := h2, sent_frames := sent_frames s @ [(n, probe_frame nif (acd_ipaddr m))]\<rparr>"
      "writes_only (- allocated (eth_heap s)) (eth_heap s) h2"
    using p(2) has_memory_now [OF e(2)] by (auto simp: arp_sent_def s1_def)
  define m2 where "m2 = m\<lparr>acd_state := ACD_STATE_PROBING, sent_num := sent_num m + 1\<rparr>"
  define s3 where "s3 = s2\<lparr>acds := (acds s)(a \<mapsto> m2)\<rparr>"
  have run: "acd_probe_tick e n a s =
      (if sent_num m + 1 \<ge> 3 then Some (s3\<lparr>acds := (acds s)(a \<mapsto> m2\<lparr>acd_state := ACD_STATE_ANNOUNCE_WAIT, sent_num := 0, ttw := 20\<rparr>)\<rparr>)
       else Some (s3\<lparr>acds := (acds s)(a \<mapsto> m2\<lparr>ttw := ucast (lwip_rand e (rand_calls s) mod 10 + 10)\<rparr>), rand_calls := rand_calls s + 1\<rparr>))"
    using a p(1) unfolding s2(1) s3_def s1_def
    by (simp add: acd_probe_tick_def upd_acd_def m2_def ACD_RANDOM_PROBE_INTERVAL_def LWIP_ACD_RAND_def Let_def)
  show ?thesis
  proof (cases "sent_num m + 1 \<ge> 3")
    case True
    then show ?thesis using run s2 unfolding acd_moves_def
      by (intro exI [of _ "s3\<lparr>acds := (acds s)(a \<mapsto> m2\<lparr>acd_state := ACD_STATE_ANNOUNCE_WAIT, sent_num := 0, ttw := 20\<rparr>)\<rparr>"]
          exI [of _ "m2\<lparr>acd_state := ACD_STATE_ANNOUNCE_WAIT, sent_num := 0, ttw := 20\<rparr>"] conjI exI [of _ h2] exI [of _ "rand_calls s"])
        (simp_all add: s3_def s1_def m2_def after_probe_def)
  next
    case False
    then show ?thesis using run s2 unfolding acd_moves_def
      by (intro exI [of _ "s3\<lparr>acds := (acds s)(a \<mapsto> m2\<lparr>ttw := ucast (lwip_rand e (rand_calls s) mod 10 + 10)\<rparr>), rand_calls := rand_calls s + 1\<rparr>"]
          exI [of _ "m2\<lparr>ttw := ucast (lwip_rand e (rand_calls s) mod 10 + 10)\<rparr>"] conjI exI [of _ h2] exI [of _ "rand_calls s + 1"])
        (simp_all add: s3_def s1_def m2_def after_probe_def probe_interval)
  qed
qed

definition announced :: "acd \<Rightarrow> acd" where
  "announced m =
     (if sent_num m = 0 then m\<lparr>acd_state := ACD_STATE_ANNOUNCING, num_conflicts := 0, ttw := 20, sent_num := 1\<rparr>
      else m\<lparr>ttw := 20, sent_num := sent_num m + 1\<rparr>)"

lemma acd_announce_step:
  assumes a: "acds s a = Some m" "ttw m = 0" and l: "link_ok s n nif" and e: "malloc_ok (pb_env e)" "has_memory e (eth_heap s)"
  shows "\<exists>s'. acd_moves a [(n, announce_frame nif (acd_ipaddr m))] s s'
       (if sent_num (announced m) \<ge> 2 then (announced m)\<lparr>acd_state := ACD_STATE_ONGOING, sent_num := 0, ttw := 0\<rparr> else announced m) \<and>
     acd_announce_tick e n a s =
       (if sent_num (announced m) \<ge> 2 then acd_callback e (acd_conflict_callback m) n ACD_IP_OK s' else Some s')"
proof -
  define m1 where "m1 = (if sent_num m = 0 then m\<lparr>acd_state := ACD_STATE_ANNOUNCING, num_conflicts := 0\<rparr> else m)"
  define s1 where "s1 = s\<lparr>acds := (acds s)(a \<mapsto> m1)\<rparr>"
  have l1: "link_ok s1 n nif" using l by (simp add: link_ok_def s1_def)
  obtain r s2 where p: "etharp_acd_announce e n (acd_ipaddr m) s1 = Some (r, s2)"
      "arp_sent e n (announce_frame nif (acd_ipaddr m)) s1 r s2"
    using etharp_requests_sent(4) [OF l1 e(1)] by blast
  obtain h2 where s2: "s2 = s1\<lparr>eth_heap := h2, sent_frames := sent_frames s @ [(n, announce_frame nif (acd_ipaddr m))]\<rparr>"
      "writes_only (- allocated (eth_heap s)) (eth_heap s) h2"
    using p(2) has_memory_now [OF e(2)] by (auto simp: arp_sent_def s1_def)
  have an: "m1\<lparr>ttw := 20, sent_num := sent_num m1 + 1\<rparr> = announced m" by (simp add: m1_def announced_def)
  define s' where "s' = s2\<lparr>acds := (acds s)(a \<mapsto>
      (if sent_num (announced m) \<ge> 2 then (announced m)\<lparr>acd_state := ACD_STATE_ONGOING, sent_num := 0, ttw := 0\<rparr> else announced m))\<rparr>"
  have cb: "acd_conflict_callback (announced m) = acd_conflict_callback m" by (simp add: announced_def)
  have first: "(if sent_num m = 0 then upd_acd a (\<lambda>m. m\<lparr>acd_state := ACD_STATE_ANNOUNCING, num_conflicts := 0\<rparr>) s else Some s) = Some s1"
    using a(1) by (auto simp: upd_acd_def s1_def m1_def map_upd_triv)
  have "acd_announce_tick e n a s =
      (if sent_num (announced m) \<ge> 2 then acd_callback e (acd_conflict_callback m) n ACD_IP_OK s' else Some s')"
    using a p(1) first
    by (simp add: acd_announce_tick_def s2(1) upd_acd_def call_acd_conflict_callback_def an cb s'_def s1_def Let_def cong: if_cong)
  moreover have "acd_moves a [(n, announce_frame nif (acd_ipaddr m))] s s'
       (if sent_num (announced m) \<ge> 2 then (announced m)\<lparr>acd_state := ACD_STATE_ONGOING, sent_num := 0, ttw := 0\<rparr> else announced m)"
    unfolding acd_moves_def by (intro exI [of _ h2] exI [of _ "rand_calls s"]) (simp add: s2 s'_def s1_def)
  ultimately show ?thesis by blast
qed

section \<open>From the first probe to the confirmation\<close>

fun acd_tmr_n :: "eth_env \<Rightarrow> nat \<Rightarrow> eth_state \<Rightarrow> eth_state option" where
  "acd_tmr_n e 0 s = Some s"
| "acd_tmr_n e (Suc k) s = Option.bind (acd_tmr_n e k s) (acd_tmr e)"

lemma acd_tmr_n_add: "acd_tmr_n e (j + k) s = Option.bind (acd_tmr_n e j s) (acd_tmr_n e k)"
  by (induction k) (simp_all add: Option.bind_assoc)

text \<open>The module \<open>a\<close> is the only one, on the default interface.\<close>

definition alone :: "eth_state \<Rightarrow> nat \<Rightarrow> nat \<Rightarrow> bool" where
  "alone s n a \<longleftrightarrow> netif_default s = n \<and> n \<noteq> 0 \<and> acd_list s n = a \<and> a \<noteq> 0"

lemma acd_tmr_alone:
  assumes "alone s n a"
  shows "acd_tmr e s = do { s \<leftarrow> acd_tmr_body e n a s; m \<leftarrow> acds s a; ACD_FOREACH (acd_tmr_body e n) (acd_next m) s }"
  using assms by (subst acd_tmr_def, subst ACD_FOREACH.simps) (simp add: alone_def)

lemma acd_tmr_alone_done:
  assumes "alone s n a" "acd_tmr_body e n a s = Some s'" "acds s' a = Some m" "acd_next m = 0"
  shows "acd_tmr e s = Some s'"
  unfolding acd_tmr_alone [OF assms(1)] using assms(2-4) by (simp add: ACD_FOREACH.simps)

lemma alone_moves: "acd_moves a fs s s' m \<Longrightarrow> alone s' n a = alone s n a"
  using acd_moves_keeps [of a fs s s' m] by (simp add: alone_def)

definition probing :: "acd \<Rightarrow> bool" where
  "probing m \<longleftrightarrow> acd_state m = ACD_STATE_PROBE_WAIT \<or> acd_state m = ACD_STATE_PROBING"

definition announcing :: "acd \<Rightarrow> bool" where
  "announcing m \<longleftrightarrow> acd_state m = ACD_STATE_ANNOUNCE_WAIT \<or> acd_state m = ACD_STATE_ANNOUNCING"

lemma ticked_n_fields [simp]:
  "acd_state ((ticked ^^ k) m) = acd_state m" "acd_ipaddr ((ticked ^^ k) m) = acd_ipaddr m"
  "sent_num ((ticked ^^ k) m) = sent_num m" "acd_next ((ticked ^^ k) m) = acd_next m"
  "acd_conflict_callback ((ticked ^^ k) m) = acd_conflict_callback m" "num_conflicts ((ticked ^^ k) m) = num_conflicts m"
  "unat (ttw ((ticked ^^ k) m)) = unat (ttw m) - k"
  by (induction k) (simp_all add: ticked_ttw)

lemma acd_tmr_body_waits:
  assumes "acds s a = Some m" "probing m \<or> announcing m" "1 < unat (ttw m)"
  shows "acd_tmr_body e n a s = Some (s\<lparr>acds := (acds s)(a \<mapsto> ticked m)\<rparr>)"
proof -
  have "ttw (ticked m) \<noteq> 0" using assms(3) ticked_ttw [of m] by (auto simp flip: unat_eq_zero_word)
  then show ?thesis using assms(2) unfolding acd_tmr_body_cases [OF assms(1)]
    by (auto simp: probing_def announcing_def acd_probe_tick_def acd_announce_tick_def Let_def)
qed

text \<open>Until the last tick of the wait, only the timers change.\<close>

lemma acd_tmr_waits:
  assumes m: "acds s a = Some m" "acd_next m = 0" "probing m \<or> announcing m" and al: "alone s n a" and k: "k < max 1 (unat (ttw m))"
  shows "\<exists>s'. acd_tmr_n e k s = Some s' \<and> acd_moves a [] s s' ((ticked ^^ k) m)"
  using k
proof (induction k)
  case 0
  have "s\<lparr>acds := (acds s)(a \<mapsto> m)\<rparr> = s" using m(1) by (simp add: map_upd_triv)
  then show ?case using acd_moves_tick [of a s m] by simp
next
  case (Suc k)
  then have "k < max 1 (unat (ttw m))" by linarith
  then obtain s1 where s1: "acd_tmr_n e k s = Some s1" "acd_moves a [] s s1 ((ticked ^^ k) m)" using Suc.IH by blast
  define m1 where "m1 = (ticked ^^ k) m"
  have a1: "acds s1 a = Some m1" "alone s1 n a" using acd_moves_keeps(1) [OF s1(2)] alone_moves [OF s1(2)] al by (simp_all add: m1_def)
  have t: "probing m1 \<or> announcing m1" "1 < unat (ttw m1)" "acd_next m1 = 0"
    using m(2,3) Suc.prems by (auto simp: m1_def probing_def announcing_def)
  define s2 where "s2 = s1\<lparr>acds := (acds s1)(a \<mapsto> ticked m1)\<rparr>"
  have "acd_tmr e s1 = Some s2"
    using acd_tmr_alone_done [OF a1(2) acd_tmr_body_waits [OF a1(1) t(1,2)]] t(3) by (simp add: s2_def)
  moreover have "acd_moves a [] s1 s2 (ticked m1)" unfolding s2_def by (rule acd_moves_tick)
  ultimately show ?case using s1 acd_moves_trans [OF s1(2)] by (fastforce simp: m1_def)
qed

text \<open>The wait and the packet at its end.\<close>

definition wait_ticks :: "acd \<Rightarrow> nat" where
  "wait_ticks m = max 1 (unat (ttw m))"

definition same_client :: "acd \<Rightarrow> acd \<Rightarrow> bool" where
  "same_client m m' \<longleftrightarrow>
     acd_ipaddr m' = acd_ipaddr m \<and> acd_next m' = acd_next m \<and> acd_conflict_callback m' = acd_conflict_callback m"

lemma acd_due:
  assumes m: "acds s a = Some m" "acd_next m = 0" "probing m \<or> announcing m" and al: "alone s n a"
    and mem: "has_memory e (eth_heap s)" and l: "link_ok s n nif"
  shows "\<exists>s1 m1. acd_tmr_n e (wait_ticks m - 1) s = Some s1 \<and> acd_moves a [] s (s1\<lparr>acds := (acds s1)(a \<mapsto> m1)\<rparr>) m1 \<and>
     acds s1 a = Some ((ticked ^^ (wait_ticks m - 1)) m) \<and> alone s1 n a \<and>
     m1 = (ticked ^^ wait_ticks m) m \<and> ttw m1 = 0 \<and>
     has_memory e (eth_heap (s1\<lparr>acds := (acds s1)(a \<mapsto> m1)\<rparr>)) \<and> link_ok (s1\<lparr>acds := (acds s1)(a \<mapsto> m1)\<rparr>) n nif"
proof -
  define k where "k = wait_ticks m - 1"
  have k: "k < max 1 (unat (ttw m))" "wait_ticks m = Suc k" by (simp_all add: k_def wait_ticks_def)
  obtain s1 where s1: "acd_tmr_n e k s = Some s1" "acd_moves a [] s s1 ((ticked ^^ k) m)"
    using acd_tmr_waits [OF m al k(1)] by blast
  define m1 where "m1 = (ticked ^^ wait_ticks m) m"
  have "unat (ttw m1) = 0" by (simp add: m1_def wait_ticks_def)
  then have t: "ttw m1 = 0" by simp
  have mv: "acd_moves a [] s (s1\<lparr>acds := (acds s1)(a \<mapsto> m1)\<rparr>) m1"
    using acd_moves_trans [OF s1(2) acd_moves_tick [of a s1 m1]] by simp
  show ?thesis
    using s1 mv t has_memory_moves [OF mv mem] acd_moves_keeps(1) [OF s1(2)] acd_moves_keeps(2) [OF mv] l alone_moves [OF s1(2)] al
    by (intro exI [of _ s1] exI [of _ m1]) (simp add: m1_def k_def)
qed

lemma acd_probe_phase:
  assumes m: "acds s a = Some m" "acd_next m = 0" "probing m" and al: "alone s n a"
    and e: "has_memory e (eth_heap s)" "malloc_ok (pb_env e)" and l: "link_ok s n nif"
  shows "\<exists>s' m'. acd_tmr_n e (wait_ticks m) s = Some s' \<and> acd_moves a [(n, probe_frame nif (acd_ipaddr m))] s s' m' \<and>
     same_client m m' \<and>
     (if sent_num m + 1 \<ge> 3 then acd_state m' = ACD_STATE_ANNOUNCE_WAIT \<and> sent_num m' = 0 \<and> wait_ticks m' = 20
      else acd_state m' = ACD_STATE_PROBING \<and> sent_num m' = sent_num m + 1 \<and> 10 \<le> wait_ticks m' \<and> wait_ticks m' < 20)"
proof -
  obtain s1 m1 where d: "acd_tmr_n e (wait_ticks m - 1) s = Some s1" "acd_moves a [] s (s1\<lparr>acds := (acds s1)(a \<mapsto> m1)\<rparr>) m1"
      "acds s1 a = Some ((ticked ^^ (wait_ticks m - 1)) m)" "alone s1 n a" "m1 = (ticked ^^ wait_ticks m) m" "ttw m1 = 0"
      "has_memory e (eth_heap (s1\<lparr>acds := (acds s1)(a \<mapsto> m1)\<rparr>))" "link_ok (s1\<lparr>acds := (acds s1)(a \<mapsto> m1)\<rparr>) n nif"
    using acd_due [OF m(1,2) disjI1 [OF m(3)] al e(1) l] by blast
  let ?s1 = "s1\<lparr>acds := (acds s1)(a \<mapsto> m1)\<rparr>"
  have w: "wait_ticks m = Suc (wait_ticks m - 1)" by (simp add: wait_ticks_def)
  have m1: "m1 = ticked ((ticked ^^ (wait_ticks m - 1)) m)" unfolding d(5) by (subst w) simp
  obtain s' m' where p: "acd_probe_tick e n a ?s1 = Some s'" "acd_moves a [(n, probe_frame nif (acd_ipaddr m1))] ?s1 s' m'" "after_probe m1 m'"
    using acd_probe_step [of ?s1 a m1 n nif e] d e(2) by auto
  have body: "acd_tmr_body e n a s1 = Some s'"
    using acd_tmr_body_cases [OF d(3), of e n] m(3) p(1) m1 by (auto simp: probing_def Let_def)
  have c: "same_client m m'" using p(3) d(5) by (simp add: after_probe_def same_client_def)
  then have "acd_tmr e s1 = Some s'"
    using acd_tmr_alone_done [OF d(4) body acd_moves_keeps(1) [OF p(2)]] m(2) by (simp add: same_client_def)
  then have "acd_tmr_n e (Suc (wait_ticks m - 1)) s = Some s'" using d(1) by (simp only: acd_tmr_n.simps bind.bind_lunit)
  then have "acd_tmr_n e (wait_ticks m) s = Some s'" using w by metis
  moreover have "acd_moves a [(n, probe_frame nif (acd_ipaddr m))] s s' m'"
    using acd_moves_trans [OF d(2) p(2)] d(5) by simp
  moreover have "if sent_num m + 1 \<ge> 3 then acd_state m' = ACD_STATE_ANNOUNCE_WAIT \<and> sent_num m' = 0 \<and> wait_ticks m' = 20
      else acd_state m' = ACD_STATE_PROBING \<and> sent_num m' = sent_num m + 1 \<and> 10 \<le> wait_ticks m' \<and> wait_ticks m' < 20"
    using p(3) d(5) by (auto simp: after_probe_def wait_ticks_def split: if_splits)
  ultimately show ?thesis using c by blast
qed

lemma acd_probe_more:
  assumes m: "acds s a = Some m" "acd_next m = 0" "probing m" and al: "alone s n a"
    and e: "has_memory e (eth_heap s)" "malloc_ok (pb_env e)" and l: "link_ok s n nif" and k: "sent_num m = 0 \<or> sent_num m = 1"
  shows "\<exists>s' m'. acd_tmr_n e (wait_ticks m) s = Some s' \<and> acd_moves a [(n, probe_frame nif (acd_ipaddr m))] s s' m' \<and>
     same_client m m' \<and> acd_state m' = ACD_STATE_PROBING \<and> sent_num m' = sent_num m + 1 \<and> 10 \<le> wait_ticks m' \<and> wait_ticks m' < 20"
proof -
  have "\<not> sent_num m + 1 \<ge> 3" using k by (auto simp: word_le_nat_alt)
  then show ?thesis using acd_probe_phase [OF m al e l] by (simp only: if_False)
qed

lemma acd_probe_last:
  assumes m: "acds s a = Some m" "acd_next m = 0" "probing m" and al: "alone s n a"
    and e: "has_memory e (eth_heap s)" "malloc_ok (pb_env e)" and l: "link_ok s n nif" and k: "sent_num m = 2"
  shows "\<exists>s' m'. acd_tmr_n e (wait_ticks m) s = Some s' \<and> acd_moves a [(n, probe_frame nif (acd_ipaddr m))] s s' m' \<and>
     same_client m m' \<and> acd_state m' = ACD_STATE_ANNOUNCE_WAIT \<and> sent_num m' = 0 \<and> wait_ticks m' = 20"
proof -
  have "sent_num m + 1 \<ge> 3" using k by simp
  then show ?thesis using acd_probe_phase [OF m al e l] by (simp only: if_True)
qed

lemma acd_announce_phase:
  assumes m: "acds s a = Some m" "acd_next m = 0" "announcing m" and al: "alone s n a"
    and e: "has_memory e (eth_heap s)" "malloc_ok (pb_env e)" and l: "link_ok s n nif"
  shows "\<exists>s1 s' m0 m'. acd_tmr_n e (wait_ticks m - 1) s = Some s1 \<and> alone s1 n a \<and>
     acd_moves a [(n, announce_frame nif (acd_ipaddr m))] s s' m' \<and> m0 = announced ((ticked ^^ wait_ticks m) m) \<and>
     m' = (if sent_num m0 \<ge> 2 then m0\<lparr>acd_state := ACD_STATE_ONGOING, sent_num := 0, ttw := 0\<rparr> else m0) \<and>
     acd_tmr_body e n a s1 = (if sent_num m0 \<ge> 2 then acd_callback e (acd_conflict_callback m) n ACD_IP_OK s' else Some s')"
proof -
  obtain s1 m1 where d: "acd_tmr_n e (wait_ticks m - 1) s = Some s1" "acd_moves a [] s (s1\<lparr>acds := (acds s1)(a \<mapsto> m1)\<rparr>) m1"
      "acds s1 a = Some ((ticked ^^ (wait_ticks m - 1)) m)" "alone s1 n a" "m1 = (ticked ^^ wait_ticks m) m" "ttw m1 = 0"
      "has_memory e (eth_heap (s1\<lparr>acds := (acds s1)(a \<mapsto> m1)\<rparr>))" "link_ok (s1\<lparr>acds := (acds s1)(a \<mapsto> m1)\<rparr>) n nif"
    using acd_due [OF m(1,2) disjI2 [OF m(3)] al e(1) l] by blast
  let ?s1 = "s1\<lparr>acds := (acds s1)(a \<mapsto> m1)\<rparr>"
  have w: "wait_ticks m = Suc (wait_ticks m - 1)" by (simp add: wait_ticks_def)
  have m1: "m1 = ticked ((ticked ^^ (wait_ticks m - 1)) m)" unfolding d(5) by (subst w) simp
  define m0 where "m0 = announced m1"
  define m' where "m' = (if sent_num m0 \<ge> 2 then m0\<lparr>acd_state := ACD_STATE_ONGOING, sent_num := 0, ttw := 0\<rparr> else m0)"
  obtain s' where p: "acd_moves a [(n, announce_frame nif (acd_ipaddr m1))] ?s1 s' m'"
      "acd_announce_tick e n a ?s1 =
        (if sent_num m0 \<ge> 2 then acd_callback e (acd_conflict_callback m1) n ACD_IP_OK s' else Some s')"
    using acd_announce_step [of ?s1 a m1 n nif e] d e(2) unfolding m'_def m0_def by auto
  have "acd_tmr_body e n a s1 = acd_announce_tick e n a ?s1"
    using acd_tmr_body_cases [OF d(3), of e n] m(3) m1 by (auto simp: announcing_def Let_def)
  then have "acd_tmr_body e n a s1 =
      (if sent_num m0 \<ge> 2 then acd_callback e (acd_conflict_callback m) n ACD_IP_OK s' else Some s')"
    using p(2) d(5) by (simp cong: if_cong)
  moreover have "acd_moves a [(n, announce_frame nif (acd_ipaddr m))] s s' m'" using acd_moves_trans [OF d(2) p(1)] d(5) by simp
  ultimately show ?thesis using d(1,4) unfolding m'_def m0_def d(5) by blast
qed

text \<open>A module that starts to probe and sees no conflict.\<close>

lemma acd_probes:
  assumes m: "acds s a = Some m" "acd_next m = 0" "acd_state m = ACD_STATE_PROBE_WAIT" "acd_ok m" and al: "alone s n a"
    and e: "has_memory e (eth_heap s)" "malloc_ok (pb_env e)" and l: "link_ok s n nif"
  shows "\<exists>k s' m'. acd_tmr_n e k s = Some s' \<and> 21 \<le> k \<and> k \<le> 47 \<and>
     acd_moves a (replicate 3 (n, probe_frame nif (acd_ipaddr m))) s s' m' \<and> same_client m m' \<and>
     acd_state m' = ACD_STATE_ANNOUNCE_WAIT \<and> sent_num m' = 0 \<and> wait_ticks m' = 20"
proof -
  have m0: "probing m" "sent_num m = 0" "wait_ticks m \<le> 9" "1 \<le> wait_ticks m"
    using m(3,4) by (auto simp: probing_def acd_ok_def wait_ticks_def word_less_nat_alt)
  let ?f = "(n, probe_frame nif (acd_ipaddr m))"
  obtain s1 m1 where 1: "acd_tmr_n e (wait_ticks m) s = Some s1" "acd_moves a [?f] s s1 m1" "same_client m m1"
      "acd_state m1 = ACD_STATE_PROBING" "sent_num m1 = 1" "10 \<le> wait_ticks m1" "wait_ticks m1 < 20"
    using acd_probe_more [OF m(1,2) m0(1) al e l] m0(2) by auto
  note k1 = acd_moves_keeps [OF 1(2)] alone_moves [OF 1(2)] has_memory_moves [OF 1(2) e(1)]
  obtain s2 m2 where 2: "acd_tmr_n e (wait_ticks m1) s1 = Some s2" "acd_moves a [?f] s1 s2 m2" "same_client m1 m2"
      "acd_state m2 = ACD_STATE_PROBING" "sent_num m2 = 2" "10 \<le> wait_ticks m2" "wait_ticks m2 < 20"
    using acd_probe_more [OF k1(1), of n e nif] 1 m(2) al e l k1 by (auto simp: same_client_def probing_def)
  note k2 = acd_moves_keeps [OF 2(2)] alone_moves [OF 2(2)] has_memory_moves [OF 2(2) k1(7)]
  obtain s3 m3 where 3: "acd_tmr_n e (wait_ticks m2) s2 = Some s3" "acd_moves a [?f] s2 s3 m3" "same_client m2 m3"
      "acd_state m3 = ACD_STATE_ANNOUNCE_WAIT" "sent_num m3 = 0" "wait_ticks m3 = 20"
    using acd_probe_last [OF k2(1), of n e nif] 1 2 m(2) al e l k1 k2 by (auto simp: same_client_def probing_def)
  have "acd_tmr_n e (wait_ticks m + (wait_ticks m1 + wait_ticks m2)) s = Some s3" using 1(1) 2(1) 3(1) by (simp add: acd_tmr_n_add)
  moreover have "acd_moves a (replicate 3 ?f) s s3 m3"
    using acd_moves_trans [OF acd_moves_trans [OF 1(2) 2(2)] 3(2)] by (simp add: numeral_3_eq_3)
  moreover have "same_client m m3" using 1(3) 2(3) 3(3) by (simp add: same_client_def)
  ultimately show ?thesis using 1(6,7) 2(6,7) 3(4-6) m0(3,4)
    by (intro exI [of _ "wait_ticks m + (wait_ticks m1 + wait_ticks m2)"] exI [of _ s3] exI [of _ m3]) simp
qed

lemma acd_announces:
  assumes m: "acds s a = Some m" "acd_next m = 0" "acd_state m = ACD_STATE_ANNOUNCE_WAIT" "sent_num m = 0" "wait_ticks m = 20"
    and al: "alone s n a" and e: "has_memory e (eth_heap s)" "malloc_ok (pb_env e)" and l: "link_ok s n nif"
  shows "\<exists>s1 s' m'. acd_tmr_n e 39 s = Some s1 \<and> alone s1 n a \<and>
     acd_tmr_body e n a s1 = acd_callback e (acd_conflict_callback m) n ACD_IP_OK s' \<and>
     acd_moves a (replicate 2 (n, announce_frame nif (acd_ipaddr m))) s s' m' \<and> acd_state m' = ACD_STATE_ONGOING"
proof -
  let ?f = "(n, announce_frame nif (acd_ipaddr m))"
  have an: "announcing m" using m(3) by (simp add: announcing_def)
  define m1 where "m1 = announced ((ticked ^^ 20) m)"
  have m1: "sent_num m1 = 1" "acd_state m1 = ACD_STATE_ANNOUNCING" "ttw m1 = 20" "acd_next m1 = 0"
      "acd_conflict_callback m1 = acd_conflict_callback m" "acd_ipaddr m1 = acd_ipaddr m"
    using m(2,4) by (simp_all add: m1_def announced_def)
  have n2: "\<not> sent_num m1 \<ge> 2" using m1(1) by (simp add: word_le_nat_alt)
  obtain s0 s1 where 1: "acd_tmr_n e 19 s = Some s0" "alone s0 n a" "acd_moves a [?f] s s1 m1" "acd_tmr_body e n a s0 = Some s1"
    using acd_announce_phase [OF m(1,2) an al e l] n2 unfolding m(5) m1_def [symmetric] by auto
  have t1: "acd_tmr_n e 20 s = Some s1"
    using 1(1) acd_tmr_alone_done [OF 1(2,4) acd_moves_keeps(1) [OF 1(3)]] m1(4) by (simp add: eval_nat_numeral)
  note k1 = acd_moves_keeps [OF 1(3)] alone_moves [OF 1(3)] has_memory_moves [OF 1(3) e(1)]
  have an1: "announcing m1" "wait_ticks m1 = 20" using m1 by (simp_all add: announcing_def wait_ticks_def)
  define m2 where "m2 = announced ((ticked ^^ 20) m1)"
  have "sent_num m2 \<ge> 2" using m1(1) by (simp add: m2_def announced_def)
  then obtain s2 s' m' where 2: "acd_tmr_n e 19 s1 = Some s2" "alone s2 n a" "acd_moves a [?f] s1 s' m'"
      "m' = m2\<lparr>acd_state := ACD_STATE_ONGOING, sent_num := 0, ttw := 0\<rparr>"
      "acd_tmr_body e n a s2 = acd_callback e (acd_conflict_callback m) n ACD_IP_OK s'"
    using acd_announce_phase [OF k1(1) m1(4) an1(1), of n e nif] k1 al e l m1(5,6) unfolding an1(2) m2_def [symmetric] by auto
  have "acd_tmr_n e 39 s = Some s2" using acd_tmr_n_add [of e 20 19 s] t1 2(1) by simp
  moreover have "acd_moves a (replicate 2 ?f) s s' m'" using acd_moves_trans [OF 1(3) 2(3)] by (simp add: numeral_2_eq_2)
  ultimately show ?thesis using 2(2,4,5) by (intro exI [of _ s2] exI [of _ s'] exI [of _ m'] conjI) simp_all
qed

text \<open>C16: A module that starts to probe an address and sees no conflict sends three probes and two
  announcements of it and then tells its client that the address is good, within 87 calls of the timer (8.7
  seconds) and not before 61, as long as there is memory for an ARP packet.\<close>

theorem acd_confirms_address:
  assumes "acds s a = Some m" "acd_next m = 0" "acd_state m = ACD_STATE_PROBE_WAIT" "acd_ok m" "alone s n a"
    "has_memory e (eth_heap s)" "malloc_ok (pb_env e)" "link_ok s n nif"
  shows "\<exists>k s1 s' m'. 60 \<le> k \<and> k \<le> 86 \<and> acd_tmr_n e k s = Some s1 \<and>
     acd_tmr e s1 = do { s \<leftarrow> acd_callback e (acd_conflict_callback m) n ACD_IP_OK s';
                         m \<leftarrow> acds s a; ACD_FOREACH (acd_tmr_body e n) (acd_next m) s } \<and>
     acds s' a = Some m' \<and> acd_state m' = ACD_STATE_ONGOING \<and>
     sent_frames s' = sent_frames s @ replicate 3 (n, probe_frame nif (acd_ipaddr m)) @
       replicate 2 (n, announce_frame nif (acd_ipaddr m))"
proof -
  obtain k s2 m2 where p: "acd_tmr_n e k s = Some s2" "21 \<le> k" "k \<le> 47"
      "acd_moves a (replicate 3 (n, probe_frame nif (acd_ipaddr m))) s s2 m2" "same_client m m2"
      "acd_state m2 = ACD_STATE_ANNOUNCE_WAIT" "sent_num m2 = 0" "wait_ticks m2 = 20"
    using acd_probes [OF assms(1-8)] by blast
  note k = acd_moves_keeps [OF p(4)] alone_moves [OF p(4)] has_memory_moves [OF p(4) assms(6)]
  have c: "acd_next m2 = 0" "acd_ipaddr m2 = acd_ipaddr m" "acd_conflict_callback m2 = acd_conflict_callback m"
    using p(5) assms(2) by (simp_all add: same_client_def)
  obtain s1 s' m' where a: "acd_tmr_n e 39 s2 = Some s1" "alone s1 n a"
      "acd_tmr_body e n a s1 = acd_callback e (acd_conflict_callback m) n ACD_IP_OK s'"
      "acd_moves a (replicate 2 (n, announce_frame nif (acd_ipaddr m))) s2 s' m'" "acd_state m' = ACD_STATE_ONGOING"
    using acd_announces [OF k(1) c(1) p(6-8), of n e nif] k assms(5,7,8) c by auto
  have "acd_tmr_n e (k + 39) s = Some s1" using p(1) a(1) by (simp add: acd_tmr_n_add)
  then show ?thesis
    using p(2,3) acd_tmr_alone [OF a(2), of e] a(3,5) acd_moves_keeps(1,5) [OF acd_moves_trans [OF p(4) a(4)]]
    by (intro exI [of _ "k + 39"] exI [of _ s1] exI [of _ s'] exI [of _ m']) simp
qed

theorem acd_confirms_address_witness:
  "\<exists>k s1 s' m'. 60 \<le> k \<and> k \<le> 86 \<and> acd_tmr_n example_eth_env k example_eth = Some s1 \<and>
     acd_tmr example_eth_env s1 = do { s \<leftarrow> acd_callback example_eth_env 500 7 ACD_IP_OK s';
                         m \<leftarrow> acds s 8; ACD_FOREACH (acd_tmr_body example_eth_env 7) (acd_next m) s } \<and>
     acds s' 8 = Some m' \<and> acd_state m' = ACD_STATE_ONGOING \<and>
     sent_frames s' = sent_frames example_eth @ replicate 3 (7, probe_frame example_nif 0x0200A8C0) @
       replicate 2 (7, announce_frame example_nif 0x0200A8C0)"
proof -
  have m: "acd_next example_acd = 0" "acd_state example_acd = ACD_STATE_PROBE_WAIT" "acd_ok example_acd"
      "acd_ipaddr example_acd = 0x0200A8C0" "acd_conflict_callback example_acd = 500"
    by (simp_all add: example_acd_def acd_ok_def)
  have "alone example_eth 7 8" by (simp add: alone_def)
  moreover have "has_memory example_eth_env (eth_heap example_eth)" by (simp add: has_memory_def example_malloc)
  ultimately show ?thesis
    using acd_confirms_address [of example_eth 8 example_acd 7 example_eth_env example_nif] m example_env_ok(1) example_link_ok
    by simp
qed

section \<open>Conflicts\<close>

lemma ticked_lastconflict: "unat (lastconflict ((ticked ^^ k) m)) = unat (lastconflict m) - k"
proof (induction k)
  case (Suc k)
  have "unat (lastconflict (ticked x)) = unat (lastconflict x) - 1" for x
    by (auto simp: ticked_def Let_def unat_sub_no_wrap word_gt_0 word_le_nat_alt Suc_le_eq simp flip: unat_gt_0)
  then show ?case using Suc by simp
qed simp

text \<open>A module whose state does not act on the timer, or waits for \<open>k\<close> more ticks, only ticks.\<close>

definition idle_for :: "nat \<Rightarrow> acd \<Rightarrow> bool" where
  "idle_for k m \<longleftrightarrow>
     acd_state m = ACD_STATE_ONGOING \<or> acd_state m = ACD_STATE_PASSIVE_ONGOING \<or> acd_state m = ACD_STATE_OFF \<or>
     (acd_state m = ACD_STATE_RATE_LIMIT \<and> k < unat (ttw m))"

lemma acd_tmr_idle:
  assumes m: "acds s a = Some m" "acd_next m = 0" "idle_for k m" and al: "alone s n a"
  shows "\<exists>s'. acd_tmr_n e k s = Some s' \<and> acd_moves a [] s s' ((ticked ^^ k) m)"
  using m(3)
proof (induction k)
  case 0
  have "s\<lparr>acds := (acds s)(a \<mapsto> m)\<rparr> = s" using m(1) by (simp add: map_upd_triv)
  then show ?case using acd_moves_tick [of a s m] by simp
next
  case (Suc k)
  then obtain s1 where s1: "acd_tmr_n e k s = Some s1" "acd_moves a [] s s1 ((ticked ^^ k) m)" by (auto simp: idle_for_def)
  define m1 where "m1 = (ticked ^^ k) m"
  have a1: "acds s1 a = Some m1" "alone s1 n a" using acd_moves_keeps(1) [OF s1(2)] alone_moves [OF s1(2)] al by (simp_all add: m1_def)
  have "unat (ttw (ticked m1)) = unat (ttw m) - Suc k" by (simp add: m1_def ticked_ttw)
  then have "acd_tmr_body e n a s1 = Some (s1\<lparr>acds := (acds s1)(a \<mapsto> ticked m1)\<rparr>)"
    using Suc.prems unfolding acd_tmr_body_cases [OF a1(1)] by (auto simp: idle_for_def m1_def Let_def)
  then have "acd_tmr e s1 = Some (s1\<lparr>acds := (acds s1)(a \<mapsto> ticked m1)\<rparr>)"
    using acd_tmr_alone_done [OF a1(2)] m(2) by (simp add: m1_def)
  then show ?case using s1 acd_moves_trans [OF s1(2) acd_moves_tick [of a s1 "ticked m1"]] by (simp add: m1_def)
qed

text \<open>C31: An address in use is defended against a conflict by one announcement, and not again for ten
  seconds (100 calls of the timer): a conflict that comes earlier gives the address up, and one that comes later
  is answered by another announcement.\<close>

theorem acd_defends_once:
  assumes "acds s a = Some m" "acd_next m = 0" "acd_state m = ACD_STATE_ONGOING" "lastconflict m = 0" "alone s n a"
    "has_memory e (eth_heap s)" "malloc_ok (pb_env e)" "link_ok s n nif"
  shows "\<exists>s1 s2. acd_handle_arp_conflict e n a s = Some s1 \<and> acd_tmr_n e k s1 = Some s2 \<and>
     sent_frames s2 = sent_frames s @ [(n, announce_frame nif (acd_ipaddr m))] \<and>
     (if k < 100 then acd_handle_arp_conflict e n a s2 = acd_restart e n a s2
      else \<exists>s3. acd_handle_arp_conflict e n a s2 = Some s3 \<and>
        sent_frames s3 = sent_frames s2 @ [(n, announce_frame nif (acd_ipaddr m))])"
proof -
  have defend: "\<exists>s'. acd_handle_arp_conflict e n a s = Some s' \<and>
      acd_moves a [(n, announce_frame nif (acd_ipaddr m))] s s' (m\<lparr>lastconflict := 100\<rparr>)"
    if m: "acds s a = Some m" "acd_state m = ACD_STATE_ONGOING" "lastconflict m = 0" and l: "link_ok s n nif"
      and mem: "has_memory e (eth_heap s)" for s m
  proof -
    obtain r s2 where p: "etharp_acd_announce e n (acd_ipaddr m) s = Some (r, s2)"
        "arp_sent e n (announce_frame nif (acd_ipaddr m)) s r s2"
      using etharp_requests_sent(4) [OF l assms(7)] by blast
    obtain h2 where s2: "s2 = s\<lparr>eth_heap := h2, sent_frames := sent_frames s @ [(n, announce_frame nif (acd_ipaddr m))]\<rparr>"
        "writes_only (- allocated (eth_heap s)) (eth_heap s) h2"
      using p(2) has_memory_now [OF mem] by (auto simp: arp_sent_def)
    have "acd_handle_arp_conflict e n a s = Some (s2\<lparr>acds := (acds s)(a \<mapsto> m\<lparr>lastconflict := 100\<rparr>)\<rparr>)"
      using m p(1) s2(1) by (simp add: acd_handle_arp_conflict_def upd_acd_def)
    moreover have "acd_moves a [(n, announce_frame nif (acd_ipaddr m))] s
        (s2\<lparr>acds := (acds s)(a \<mapsto> m\<lparr>lastconflict := 100\<rparr>)\<rparr>) (m\<lparr>lastconflict := 100\<rparr>)"
      unfolding acd_moves_def using s2 by (intro exI [of _ h2] exI [of _ "rand_calls s"]) simp
    ultimately show ?thesis by blast
  qed
  obtain s1 where s1: "acd_handle_arp_conflict e n a s = Some s1"
      "acd_moves a [(n, announce_frame nif (acd_ipaddr m))] s s1 (m\<lparr>lastconflict := 100\<rparr>)"
    using defend [OF assms(1,3,4,8,6)] by blast
  note k1 = acd_moves_keeps [OF s1(2)]
  define m2 where "m2 = (ticked ^^ k) (m\<lparr>lastconflict := 100\<rparr>)"
  obtain s2 where s2: "acd_tmr_n e k s1 = Some s2" "acd_moves a [] s1 s2 m2"
    using acd_tmr_idle [OF k1(1), of k n e] assms(2,3,5) alone_moves [OF s1(2)] by (auto simp: idle_for_def m2_def)
  note k2 = acd_moves_keeps [OF s2(2)] and mem2 = has_memory_moves [OF s2(2) has_memory_moves [OF s1(2) assms(6)]]
  have m2: "unat (lastconflict m2) = 100 - k" "acd_state m2 = ACD_STATE_ONGOING" "acd_ipaddr m2 = acd_ipaddr m"
    using assms(3) by (simp_all add: m2_def ticked_lastconflict)
  have "acd_handle_arp_conflict e n a s2 = acd_restart e n a s2" if "k < 100"
  proof -
    have "0 < lastconflict m2" using m2(1) that by (simp add: word_less_nat_alt)
    then show ?thesis using k2(1) m2(2) by (simp add: acd_handle_arp_conflict_def)
  qed
  moreover have "\<exists>s3. acd_handle_arp_conflict e n a s2 = Some s3 \<and>
        sent_frames s3 = sent_frames s2 @ [(n, announce_frame nif (acd_ipaddr m))]" if "\<not> k < 100"
  proof -
    have "lastconflict m2 = 0" using m2(1) that by simp
    then show ?thesis using defend [OF k2(1) m2(2) _ _ mem2] k1(2) k2(2) assms(8) m2(3) acd_moves_keeps(5) by fastforce
  qed
  ultimately show ?thesis using s1(1) s2(1) k1(5) k2(5) by auto
qed

definition example_defender :: eth_state where
  "example_defender =
     example_eth\<lparr>acds := [8 \<mapsto> example_acd\<lparr>acd_state := ACD_STATE_ONGOING, lastconflict := 0\<rparr>]\<rparr>"

theorem acd_defends_once_witness:
  "\<exists>s1 s2. acd_handle_arp_conflict example_eth_env 7 8 example_defender = Some s1 \<and> acd_tmr_n example_eth_env 50 s1 = Some s2 \<and>
     sent_frames s2 = [(7, announce_frame example_nif 0x0200A8C0)] \<and>
     acd_handle_arp_conflict example_eth_env 7 8 s2 = acd_restart example_eth_env 7 8 s2"
proof -
  have "alone example_defender 7 8" by (simp add: alone_def example_defender_def)
  moreover have "has_memory example_eth_env (eth_heap example_defender)" by (simp add: has_memory_def example_malloc example_defender_def)
  moreover have "link_ok example_defender 7 example_nif" using example_link_ok by (simp add: link_ok_def example_defender_def)
  ultimately show ?thesis
    using acd_defends_once [of example_defender 8 "example_acd\<lparr>acd_state := ACD_STATE_ONGOING, lastconflict := 0\<rparr>" 7 example_eth_env
        example_nif 50] example_env_ok(1)
    by (simp add: example_defender_def example_acd_def)
qed

text \<open>C32: The conflict counter limits the rate of new attempts, until it wraps. When the client's callback
  keeps the counter, the conflict that makes it ten or more (up to 255) sends the module into the rate limit: for
  the next 599 ticks it sends nothing and stays there, and then the client is restarted. The 256th conflict wraps
  the eight-bit counter to zero and restarts the client at once.\<close>

theorem acd_restart_rate_limit:
  assumes "acds s a = Some m" "9 \<le> unat (num_conflicts m)"
    and declined: "acd_callback e (acd_conflict_callback m) n ACD_DECLINE
        (s\<lparr>acds := (acds s)(a \<mapsto> m\<lparr>num_conflicts := num_conflicts m + 1\<rparr>)\<rparr>) = Some s0"
      "acds s0 a = Some m0" "num_conflicts m0 = num_conflicts m + 1" "acd_next m0 = 0" "alone s0 n a"
  shows "if unat (num_conflicts m) < 255
     then \<exists>s1 s2 m2. acd_restart e n a s = Some s1 \<and> acd_tmr_n e 599 s1 = Some s2 \<and> sent_frames s2 = sent_frames s0 \<and>
        acds s2 a = Some m2 \<and> acd_state m2 = ACD_STATE_RATE_LIMIT \<and>
        acd_tmr_body e n a s2 = acd_callback e (acd_conflict_callback m0) n ACD_RESTART_CLIENT
          (s2\<lparr>acds := (acds s2)(a \<mapsto> (ticked m2)\<lparr>acd_state := ACD_STATE_OFF\<rparr>)\<rparr>)
     else acd_restart e n a s = acd_callback e (acd_conflict_callback m0) n ACD_RESTART_CLIENT
          (s0\<lparr>acds := (acds s0)(a \<mapsto> m0\<lparr>num_conflicts := 0, acd_state := ACD_STATE_OFF\<rparr>)\<rparr>)"
proof (cases "unat (num_conflicts m) < 255")
  case True
  define m1 where "m1 = m0\<lparr>acd_state := ACD_STATE_RATE_LIMIT, ttw := 600\<rparr>"
  define s1 where "s1 = s0\<lparr>acds := (acds s0)(a \<mapsto> m1)\<rparr>"
  have "num_conflicts m0 \<ge> 10" using True assms(2) declined(3) by (simp add: word_le_nat_alt unat_word_ariths)
  then have run: "acd_restart e n a s = Some s1"
    using assms(1) declined by (simp add: acd_restart_def upd_acd_def call_acd_conflict_callback_def s1_def m1_def)
  have al: "alone s1 n a" "acds s1 a = Some m1" "acd_next m1 = 0" "idle_for 599 m1"
    using declined(4,5) by (simp_all add: alone_def s1_def m1_def idle_for_def)
  define m2 where "m2 = (ticked ^^ 599) m1"
  obtain s2 where s2: "acd_tmr_n e 599 s1 = Some s2" "acd_moves a [] s1 s2 m2"
    using acd_tmr_idle [OF al(2-4,1)] unfolding m2_def by blast
  note k2 = acd_moves_keeps [OF s2(2)]
  have "unat (ttw (ticked m2)) = 0" unfolding m2_def ticked_ttw ticked_n_fields by (simp add: m1_def)
  then have t: "ttw (ticked m2) = 0" by simp
  have m2: "acd_state m2 = ACD_STATE_RATE_LIMIT" "acd_conflict_callback m2 = acd_conflict_callback m0"
    unfolding m2_def by (simp_all add: m1_def)
  have a: "a \<noteq> 0" using declined(5) by (simp add: alone_def)
  have "acd_tmr_body e n a s2 = acd_callback e (acd_conflict_callback m0) n ACD_RESTART_CLIENT
          (s2\<lparr>acds := (acds s2)(a \<mapsto> (ticked m2)\<lparr>acd_state := ACD_STATE_OFF\<rparr>)\<rparr>)"
    unfolding acd_tmr_body_cases [OF k2(1)] using m2 t a
    by (simp add: acd_stop_def upd_acd_def call_acd_conflict_callback_def Let_def)
  moreover have "sent_frames s2 = sent_frames s0" using k2(5) by (simp add: s1_def)
  ultimately show ?thesis using True run s2(1) k2(1) m2(1) by auto
next
  case False
  moreover have "unat (num_conflicts m) < 256" using unsigned_less [of "num_conflicts m", where 'a = nat] by simp
  ultimately have "unat (num_conflicts m) = 255" by linarith
  then have "unat (num_conflicts m) = unat (255 :: u8)" by simp
  then have c: "num_conflicts m0 = 0" unfolding declined(3) by (simp add: unsigned_word_eqI [of "num_conflicts m" 255])
  then have "m0\<lparr>num_conflicts := 0, acd_state := ACD_STATE_OFF\<rparr> = m0\<lparr>acd_state := ACD_STATE_OFF\<rparr>" by simp
  then show ?thesis
    using assms(1) declined False c
    by (simp only: if_not_P [OF False]) (simp add: acd_restart_def upd_acd_def call_acd_conflict_callback_def acd_stop_def alone_def)
qed

definition example_conflicts :: "u8 \<Rightarrow> eth_state" where
  "example_conflicts c = example_eth\<lparr>acds := [8 \<mapsto> example_acd\<lparr>num_conflicts := c\<rparr>]\<rparr>"

theorem acd_restart_rate_limit_witness:
  "(\<exists>s1 s2 m2. acd_restart example_eth_env 7 8 (example_conflicts 9) = Some s1 \<and> acd_tmr_n example_eth_env 599 s1 = Some s2 \<and>
      sent_frames s2 = [] \<and> acds s2 8 = Some m2 \<and> acd_state m2 = ACD_STATE_RATE_LIMIT) \<and>
   acd_restart example_eth_env 7 8 (example_conflicts 255) =
     Some (example_eth\<lparr>acds := [8 \<mapsto> example_acd\<lparr>num_conflicts := 0, acd_state := ACD_STATE_OFF\<rparr>]\<rparr>)"
proof -
  have f: "alone (example_conflicts c) 7 8" "acds (example_conflicts c) 8 = Some (example_acd\<lparr>num_conflicts := c\<rparr>)"
      "acd_next (example_acd\<lparr>num_conflicts := c\<rparr>) = 0" "sent_frames (example_conflicts c) = []" for c
    by (simp_all add: alone_def example_conflicts_def example_acd_def)
  have k: "unat (num_conflicts (example_acd\<lparr>num_conflicts := c\<rparr>)) = unat c" "acd_conflict_callback (example_acd\<lparr>num_conflicts := c\<rparr>) = 500"
    "(example_conflicts c)\<lparr>acds := (acds (example_conflicts c))(8 \<mapsto> example_acd\<lparr>num_conflicts := c, num_conflicts := c + 1\<rparr>)\<rparr> = example_conflicts (c + 1)" for c
    by (simp_all add: example_conflicts_def example_acd_def)
  have "\<exists>s1 s2 m2. acd_restart example_eth_env 7 8 (example_conflicts 9) = Some s1 \<and> acd_tmr_n example_eth_env 599 s1 = Some s2 \<and>
      sent_frames s2 = [] \<and> acds s2 8 = Some m2 \<and> acd_state m2 = ACD_STATE_RATE_LIMIT"
    using acd_restart_rate_limit [OF f(2), of 9 example_eth_env 7, OF _ _ f(2) _ f(3,1), of 10] k(3) [of 9] f(4) [of 10]
    by (auto simp: k(1,2))
  moreover have wrap: "(256 :: u8) = 0" by simp
  have "acd_restart example_eth_env 7 8 (example_conflicts 255) =
      Some ((example_conflicts 0)\<lparr>acds := (acds (example_conflicts 0))(8 \<mapsto> example_acd\<lparr>num_conflicts := 0, num_conflicts := 0, acd_state := ACD_STATE_OFF\<rparr>)\<rparr>)"
    using acd_restart_rate_limit [OF f(2), of 255 example_eth_env 7, OF _ _ f(2) _ f(3,1), of 0] k(3) [of 255] wrap by (simp add: k(1,2))
  ultimately show ?thesis by (simp add: example_conflicts_def)
qed

end
