(* ===== verification/Etharp.thy ===== *)
theory Etharp
  imports Acd
begin

text \<open>
  The ARP cache of \<^verbatim>\<open>src/lwip/ipv4/etharp.c\<close> (RFC 826) and \<^verbatim>\<open>ethernet_input\<close> of
  \<^verbatim>\<open>src/netif/ethernet.c\<close>, for the configuration of \<^verbatim>\<open>lwipopts.h\<close>: \<^verbatim>\<open>ARP_QUEUEING\<close> 0 (one
  packet waits for each pending entry), no static entries, no VLAN, \<^verbatim>\<open>ETHARP_TABLE_MATCH_NETIF\<close> 0.
  An access to the table outside its bounds is \<open>None\<close>.
\<close>

section \<open>The table\<close>

text \<open>The states are compared with \<^verbatim>\<open>>=\<close>: they are ordered as the \<^verbatim>\<open>enum\<close> numbers them.\<close>

fun etharp_state_val :: "etharp_state \<Rightarrow> nat" where
  "etharp_state_val ETHARP_STATE_EMPTY = 0"
| "etharp_state_val ETHARP_STATE_PENDING = 1"
| "etharp_state_val ETHARP_STATE_STABLE = 2"
| "etharp_state_val ETHARP_STATE_STABLE_REREQUESTING_1 = 3"
| "etharp_state_val ETHARP_STATE_STABLE_REREQUESTING_2 = 4"

lemma etharp_state_val_inj: "etharp_state_val x = etharp_state_val y \<Longrightarrow> x = y"
  by (cases x; cases y) simp_all

instantiation etharp_state :: linorder
begin

definition less_eq_etharp_state :: "etharp_state \<Rightarrow> etharp_state \<Rightarrow> bool" where
  "x \<le> y \<longleftrightarrow> etharp_state_val x \<le> etharp_state_val y"

definition less_etharp_state :: "etharp_state \<Rightarrow> etharp_state \<Rightarrow> bool" where
  "x < y \<longleftrightarrow> etharp_state_val x < etharp_state_val y"

instance
  by standard (auto simp: less_eq_etharp_state_def less_etharp_state_def dest: etharp_state_val_inj)

end

abbreviation (input) ETHARP_FLAG_TRY_HARD :: u8 where "ETHARP_FLAG_TRY_HARD \<equiv> 1"
abbreviation (input) ETHARP_FLAG_FIND_ONLY :: u8 where "ETHARP_FLAG_FIND_ONLY \<equiv> 2"
abbreviation (input) ARP_MAXAGE :: u16 where "ARP_MAXAGE \<equiv> 300"
abbreviation (input) ARP_MAXPENDING :: u16 where "ARP_MAXPENDING \<equiv> 5"
abbreviation (input) ARP_AGE_REREQUEST_USED_UNICAST :: u16 where "ARP_AGE_REREQUEST_USED_UNICAST \<equiv> 270"
abbreviation (input) ARP_AGE_REREQUEST_USED_BROADCAST :: u16 where "ARP_AGE_REREQUEST_USED_BROADCAST \<equiv> 285"

definition arp_get :: "eth_state \<Rightarrow> nat \<Rightarrow> etharp_entry option" where
  "arp_get s i = (if i < length (arp_table s) then Some (arp_table s ! i) else None)"

definition arp_upd :: "nat \<Rightarrow> (etharp_entry \<Rightarrow> etharp_entry) \<Rightarrow> eth_state \<Rightarrow> eth_state option" where
  "arp_upd i f s =
     do { en \<leftarrow> arp_get s i; Some (s\<lparr>arp_table := (arp_table s)[i := f en]\<rparr>) }"

definition eth_pbuf_free :: "eth_env \<Rightarrow> nat \<Rightarrow> eth_state \<Rightarrow> eth_state option" where
  "eth_pbuf_free e p s = do { (_, h) \<leftarrow> pbuf_free (pb_env e) p (eth_heap s); Some (s\<lparr>eth_heap := h\<rparr>) }"

definition etharp_free_entry :: "eth_env \<Rightarrow> nat \<Rightarrow> eth_state \<Rightarrow> eth_state option" where
  "etharp_free_entry e i s =
     do { en \<leftarrow> arp_get s i;
          s \<leftarrow> (if arp_q en \<noteq> 0 then
                  do { s \<leftarrow> eth_pbuf_free e (arp_q en) s; arp_upd i (\<lambda>en. en\<lparr>arp_q := 0\<rparr>) s }
                else Some s);
          arp_upd i (\<lambda>en. en\<lparr>arp_state := ETHARP_STATE_EMPTY\<rparr>) s }"

section \<open>The timer\<close>

definition etharp_tmr_entry :: "eth_env \<Rightarrow> nat \<Rightarrow> eth_state \<Rightarrow> eth_state option" where
  "etharp_tmr_entry e i s =
     do { en \<leftarrow> arp_get s i;
          if arp_state en \<noteq> ETHARP_STATE_EMPTY then
            do { s \<leftarrow> arp_upd i (\<lambda>en. en\<lparr>arp_ctime := arp_ctime en + 1\<rparr>) s;
                 en \<leftarrow> arp_get s i;
                 if arp_ctime en \<ge> ARP_MAXAGE \<or>
                    (arp_state en = ETHARP_STATE_PENDING \<and> arp_ctime en \<ge> ARP_MAXPENDING) then
                   etharp_free_entry e i s
                 else if arp_state en = ETHARP_STATE_STABLE_REREQUESTING_1 then
                   arp_upd i (\<lambda>en. en\<lparr>arp_state := ETHARP_STATE_STABLE_REREQUESTING_2\<rparr>) s
                 else if arp_state en = ETHARP_STATE_STABLE_REREQUESTING_2 then
                   arp_upd i (\<lambda>en. en\<lparr>arp_state := ETHARP_STATE_STABLE\<rparr>) s
                 else if arp_state en = ETHARP_STATE_PENDING then
                   do { (_, s) \<leftarrow> etharp_request e (arp_netif en) (arp_ipaddr en) s; Some s }
                 else Some s }
          else Some s }"

text \<open>A \<^verbatim>\<open>for\<close> loop over the table, from \<open>i\<close> on.\<close>

function for_table :: "(nat \<Rightarrow> eth_state \<Rightarrow> eth_state option) \<Rightarrow> nat \<Rightarrow> eth_state \<Rightarrow> eth_state option" where
  "for_table body i s =
     (if i < ARP_TABLE_SIZE then (case body i s of None \<Rightarrow> None | Some s \<Rightarrow> for_table body (i + 1) s)
      else Some s)"
  by pat_completeness auto
termination
  by (relation "measure (\<lambda>(body, i, s). ARP_TABLE_SIZE - i)") auto

declare for_table.simps [simp del]

definition etharp_tmr :: "eth_env \<Rightarrow> eth_state \<Rightarrow> eth_state option" where
  "etharp_tmr e s = for_table (etharp_tmr_entry e) 0 s"

section \<open>Finding an entry\<close>

text \<open>The candidates that the search remembers; \<^verbatim>\<open>ARP_TABLE_SIZE\<close> stands for none.\<close>

record candidates =
  cand_empty :: nat
  old_pending :: nat
  old_stable :: nat
  old_queue :: nat
  age_queue :: u16
  age_pending :: u16
  age_stable :: u16

definition no_candidates :: candidates where
  "no_candidates =
     \<lparr>cand_empty = ARP_TABLE_SIZE, old_pending = ARP_TABLE_SIZE, old_stable = ARP_TABLE_SIZE, old_queue = ARP_TABLE_SIZE,
      age_queue = 0, age_pending = 0, age_stable = 0\<rparr>"

text \<open>One iteration for an entry that does not match.\<close>

definition note_candidate :: "nat \<Rightarrow> etharp_entry \<Rightarrow> candidates \<Rightarrow> candidates" where
  "note_candidate i en c =
     (if cand_empty c = ARP_TABLE_SIZE \<and> arp_state en = ETHARP_STATE_EMPTY then c\<lparr>cand_empty := i\<rparr>
      else if arp_state en \<noteq> ETHARP_STATE_EMPTY then
        (if arp_state en = ETHARP_STATE_PENDING then
           (if arp_q en \<noteq> 0 then
              (if arp_ctime en \<ge> age_queue c then c\<lparr>old_queue := i, age_queue := arp_ctime en\<rparr> else c)
            else
              (if arp_ctime en \<ge> age_pending c then c\<lparr>old_pending := i, age_pending := arp_ctime en\<rparr> else c))
         else if arp_state en \<ge> ETHARP_STATE_STABLE then
           (if arp_ctime en \<ge> age_stable c then c\<lparr>old_stable := i, age_stable := arp_ctime en\<rparr> else c)
         else c)
      else c)"

fun find_entry_loop :: "u32 option \<Rightarrow> etharp_entry list \<Rightarrow> nat \<Rightarrow> candidates \<Rightarrow> nat + candidates" where
  "find_entry_loop ipaddr [] i c = Inr c"
| "find_entry_loop ipaddr (en # ens) i c =
     (if arp_state en \<noteq> ETHARP_STATE_EMPTY \<and> ipaddr = Some (arp_ipaddr en) then Inl i
      else find_entry_loop ipaddr ens (i + 1) (note_candidate i en c))"

text \<open>The choice of the entry to recycle: 1) an empty one, 2) the oldest stable one, 3) the oldest
  pending one without and 4) with a queued packet.\<close>

definition choose_entry :: "eth_env \<Rightarrow> candidates \<Rightarrow> eth_state \<Rightarrow> ((err_t + nat) \<times> eth_state) option" where
  "choose_entry e c s =
     (if cand_empty c < ARP_TABLE_SIZE then Some (Inr (cand_empty c), s)
      else if old_stable c < ARP_TABLE_SIZE then
        do { en \<leftarrow> arp_get s (old_stable c);
             lwip_assert (arp_q en = 0);
             s \<leftarrow> etharp_free_entry e (old_stable c) s;
             Some (Inr (old_stable c), s) }
      else if old_pending c < ARP_TABLE_SIZE then
        do { s \<leftarrow> etharp_free_entry e (old_pending c) s; Some (Inr (old_pending c), s) }
      else if old_queue c < ARP_TABLE_SIZE then
        do { s \<leftarrow> etharp_free_entry e (old_queue c) s; Some (Inr (old_queue c), s) }
      else Some (Inl ERR_MEM, s))"

definition etharp_find_entry ::
    "eth_env \<Rightarrow> u32 option \<Rightarrow> u8 \<Rightarrow> eth_state \<Rightarrow> ((err_t + nat) \<times> eth_state) option" where
  "etharp_find_entry e ipaddr flags s =
     (case find_entry_loop ipaddr (arp_table s) 0 no_candidates of
        Inl i \<Rightarrow> Some (Inr i, s)
      | Inr c \<Rightarrow>
          if flags AND ETHARP_FLAG_FIND_ONLY \<noteq> 0 \<or>
             (cand_empty c = ARP_TABLE_SIZE \<and> flags AND ETHARP_FLAG_TRY_HARD = 0) then Some (Inl ERR_MEM, s)
          else
            do { (r, s) \<leftarrow> choose_entry e c s;
                 case r of
                   Inl err \<Rightarrow> Some (Inl err, s)
                 | Inr i \<Rightarrow>
                     do { en \<leftarrow> arp_get s i;
                          lwip_assert (arp_state en = ETHARP_STATE_EMPTY);
                          s \<leftarrow> (case ipaddr of None \<Rightarrow> Some s | Some ip \<Rightarrow> arp_upd i (\<lambda>en. en\<lparr>arp_ipaddr := ip\<rparr>) s);
                          s \<leftarrow> arp_upd i (\<lambda>en. en\<lparr>arp_ctime := 0\<rparr>) s;
                          Some (Inr i, s) } })"

section \<open>Updating the cache\<close>

definition not_unicast :: "u32 \<Rightarrow> netif \<Rightarrow> bool" where
  "not_unicast ipaddr nif \<longleftrightarrow>
     ip4_addr_isany ipaddr \<or> ip4_addr_isbroadcast_u32 ipaddr nif \<or> ip4_addr_ismulticast ipaddr"

text \<open>The part of \<^verbatim>\<open>etharp_update_arp_entry\<close> after the entry has been found: it becomes stable, and the packet
  that waits for it is sent.\<close>

definition resolve_entry ::
    "eth_env \<Rightarrow> nat \<Rightarrow> netif \<Rightarrow> nat \<Rightarrow> eth_addr \<Rightarrow> eth_state \<Rightarrow> (err_t \<times> eth_state) option" where
  "resolve_entry e n nif i ethaddr s =
     do { s \<leftarrow> arp_upd i (\<lambda>en. en\<lparr>arp_state := ETHARP_STATE_STABLE, arp_netif := n,
                               arp_ethaddr := ethaddr, arp_ctime := 0\<rparr>) s;
          en \<leftarrow> arp_get s i;
          if arp_q en \<noteq> 0 then
            do { s \<leftarrow> arp_upd i (\<lambda>en. en\<lparr>arp_q := 0\<rparr>) s;
                 (_, s) \<leftarrow> ethernet_output e n (arp_q en) (hwaddr nif) ethaddr ETHTYPE_IP s;
                 s \<leftarrow> eth_pbuf_free e (arp_q en) s;
                 Some (ERR_OK, s) }
          else Some (ERR_OK, s) }"

definition etharp_update_arp_entry ::
    "eth_env \<Rightarrow> nat \<Rightarrow> u32 \<Rightarrow> eth_addr \<Rightarrow> u8 \<Rightarrow> eth_state \<Rightarrow> (err_t \<times> eth_state) option" where
  "etharp_update_arp_entry e n ipaddr ethaddr flags s =
     do { nif \<leftarrow> netifs s n;
          lwip_assert (hwaddr_len nif = ETH_HWADDR_LEN);
          if not_unicast ipaddr nif then Some (ERR_ARG, s)
          else
            do { (r, s) \<leftarrow> etharp_find_entry e (Some ipaddr) flags s;
                 case r of
                   Inl err \<Rightarrow> Some (err, s)
                 | Inr i \<Rightarrow> resolve_entry e n nif i ethaddr s } }"

definition cleanup_entry :: "eth_env \<Rightarrow> nat \<Rightarrow> nat \<Rightarrow> eth_state \<Rightarrow> eth_state option" where
  "cleanup_entry e n i s =
     do { en \<leftarrow> arp_get s i;
          if arp_state en \<noteq> ETHARP_STATE_EMPTY \<and> arp_netif en = n then etharp_free_entry e i s else Some s }"

definition etharp_cleanup_netif :: "eth_env \<Rightarrow> nat \<Rightarrow> eth_state \<Rightarrow> eth_state option" where
  "etharp_cleanup_netif e n s = for_table (cleanup_entry e n) 0 s"

text \<open>The result is the index with the addresses found, \<open>None\<close> for \<^verbatim>\<open>-1\<close>.\<close>

definition etharp_find_addr ::
    "eth_env \<Rightarrow> u32 \<Rightarrow> eth_state \<Rightarrow> ((nat \<times> eth_addr \<times> u32) option \<times> eth_state) option" where
  "etharp_find_addr e ipaddr s =
     do { (r, s) \<leftarrow> etharp_find_entry e (Some ipaddr) ETHARP_FLAG_FIND_ONLY s;
          case r of
            Inl err \<Rightarrow> Some (None, s)
          | Inr i \<Rightarrow>
              do { en \<leftarrow> arp_get s i;
                   if arp_state en \<ge> ETHARP_STATE_STABLE then Some (Some (i, arp_ethaddr en, arp_ipaddr en), s)
                   else Some (None, s) } }"

definition etharp_get_entry :: "nat \<Rightarrow> eth_state \<Rightarrow> (u32 \<times> nat \<times> eth_addr) option option" where
  "etharp_get_entry i s =
     (if i < ARP_TABLE_SIZE then
        do { en \<leftarrow> arp_get s i;
             Some (if arp_state en \<ge> ETHARP_STATE_STABLE then Some (arp_ipaddr en, arp_netif en, arp_ethaddr en)
                   else None) }
      else Some None)"

section \<open>Input\<close>

definition etharp_input :: "eth_env \<Rightarrow> nat \<Rightarrow> nat \<Rightarrow> eth_state \<Rightarrow> eth_state option" where
  "etharp_input e p n s =
     (if n = 0 then Some s
      else
        do { b \<leftarrow> pbufs (eth_heap s) p;
             let hdr = payload b; m = bytes (eth_heap s)
             in if load16 m hdr \<noteq> PP_HTONS 1 \<or> m (hdr + 4) \<noteq> ETH_HWADDR_LEN \<or> m (hdr + 5) \<noteq> 4 \<or>
                   load16 m (hdr + 2) \<noteq> PP_HTONS ETHTYPE_IP then
                  eth_pbuf_free e p s
                else
                  do { s \<leftarrow> acd_arp_reply e n hdr s;
                       nif \<leftarrow> netifs s n;
                       let m = bytes (eth_heap s);
                           sipaddr = load32 m (hdr + 14); dipaddr = load32 m (hdr + 24);
                           for_us = (\<not> ip4_addr_isany (ip_addr nif) \<and> dipaddr = ip_addr nif);
                           from_us = (\<not> ip4_addr_isany (ip_addr nif) \<and> sipaddr = ip_addr nif)
                       in do { (_, s) \<leftarrow> etharp_update_arp_entry e n sipaddr (rd (eth_heap s) (hdr + 8) 6)
                                           (if for_us then ETHARP_FLAG_TRY_HARD else ETHARP_FLAG_FIND_ONLY) s;
                               let opcode = load16 (bytes (eth_heap s)) (hdr + 6)
                               in do { s \<leftarrow> (if opcode = PP_HTONS ARP_REQUEST \<and> for_us \<and> \<not> from_us then
                                               do { (_, s) \<leftarrow> etharp_raw e n (hwaddr nif) (rd (eth_heap s) (hdr + 8) 6)
                                                      (hwaddr nif) (ip_addr nif) (rd (eth_heap s) (hdr + 8) 6) sipaddr
                                                      ARP_REPLY s;
                                                    Some s }
                                             else Some s);
                                       eth_pbuf_free e p s } } } })"

section \<open>Output\<close>

definition etharp_output_to_arp_index ::
    "eth_env \<Rightarrow> nat \<Rightarrow> nat \<Rightarrow> nat \<Rightarrow> eth_state \<Rightarrow> (err_t \<times> eth_state) option" where
  "etharp_output_to_arp_index e n q arp_idx s =
     do { en \<leftarrow> arp_get s arp_idx;
          lwip_assert (arp_state en \<ge> ETHARP_STATE_STABLE);
          s \<leftarrow> (if arp_state en = ETHARP_STATE_STABLE then
                  (if arp_ctime en \<ge> ARP_AGE_REREQUEST_USED_BROADCAST then
                     do { (r, s) \<leftarrow> etharp_request e n (arp_ipaddr en) s;
                          if r = ERR_OK
                          then arp_upd arp_idx (\<lambda>en. en\<lparr>arp_state := ETHARP_STATE_STABLE_REREQUESTING_1\<rparr>) s
                          else Some s }
                   else if arp_ctime en \<ge> ARP_AGE_REREQUEST_USED_UNICAST then
                     do { (r, s) \<leftarrow> etharp_request_dst e n (arp_ipaddr en) (arp_ethaddr en) s;
                          if r = ERR_OK
                          then arp_upd arp_idx (\<lambda>en. en\<lparr>arp_state := ETHARP_STATE_STABLE_REREQUESTING_1\<rparr>) s
                          else Some s }
                   else Some s)
                else Some s);
          nif \<leftarrow> netifs s n;
          en \<leftarrow> arp_get s arp_idx;
          ethernet_output e n q (hwaddr nif) (arp_ethaddr en) ETHTYPE_IP s }"

text \<open>The test in \<^verbatim>\<open>etharp_query\<close> whether the queued packet has to be copied (\<^verbatim>\<open>PBUF_NEEDS_COPY\<close>).\<close>

partial_function (option) copy_needed_loop :: "heap \<Rightarrow> nat \<Rightarrow> bool option" where
  "copy_needed_loop h p =
     (if p \<noteq> 0 then
        do { b \<leftarrow> pbufs h p;
             lwip_assert (len b \<noteq> tot_len b \<or> pb_next b = 0);
             if type_internal b AND 0x40 \<noteq> 0 then Some True else copy_needed_loop h (pb_next b) }
      else Some False)"

text \<open>Taking over the packet \<open>q\<close> for the queue: a copy, or another reference to it.\<close>

definition take_over :: "eth_env \<Rightarrow> nat \<Rightarrow> eth_state \<Rightarrow> (nat \<times> eth_state) option" where
  "take_over e q s =
     do { copy_needed \<leftarrow> copy_needed_loop (eth_heap s) q;
          if copy_needed then
            do { (p, h) \<leftarrow> pbuf_clone (pb_env e) PBUF_LINK PBUF_RAM q (eth_heap s); Some (p, s\<lparr>eth_heap := h\<rparr>) }
          else do { h \<leftarrow> pbuf_ref q (eth_heap s); Some (q, s\<lparr>eth_heap := h\<rparr>) } }"

text \<open>\<^verbatim>\<open>etharp_query\<close> for a packet and the entry \<open>i\<close>, after the entry has been found.\<close>

definition query_packet :: "eth_env \<Rightarrow> nat \<Rightarrow> nat \<Rightarrow> nat \<Rightarrow> err_t \<Rightarrow> eth_state \<Rightarrow> (err_t \<times> eth_state) option" where
  "query_packet e n q i result s =
     do { lwip_assert (q \<noteq> 0);
          nif \<leftarrow> netifs s n;
          en \<leftarrow> arp_get s i;
          if arp_state en \<ge> ETHARP_STATE_STABLE then
            ethernet_output e n q (hwaddr nif) (arp_ethaddr en) ETHTYPE_IP (s\<lparr>etharp_cached_entry := i\<rparr>)
          else if arp_state en = ETHARP_STATE_PENDING then
            do { (p, s) \<leftarrow> take_over e q s;
                 if p \<noteq> 0 then
                   do { s \<leftarrow> (if arp_q en \<noteq> 0 then eth_pbuf_free e (arp_q en) s else Some s);
                        s \<leftarrow> arp_upd i (\<lambda>en. en\<lparr>arp_q := p\<rparr>) s;
                        Some (ERR_OK, s) }
                 else Some (ERR_MEM, s) }
          else Some (result, s) }"

definition etharp_query :: "eth_env \<Rightarrow> nat \<Rightarrow> u32 \<Rightarrow> nat \<Rightarrow> eth_state \<Rightarrow> (err_t \<times> eth_state) option" where
  "etharp_query e n ipaddr q s =
     do { nif \<leftarrow> netifs s n;
          if not_unicast ipaddr nif then Some (ERR_ARG, s)
          else
            do { (i_err, s) \<leftarrow> etharp_find_entry e (Some ipaddr) ETHARP_FLAG_TRY_HARD s;
                 case i_err of
                   Inl err \<Rightarrow> Some (err, s)
                 | Inr i \<Rightarrow>
                     do { lwip_assert (i < 0x7F);
                          en \<leftarrow> arp_get s i;
                          let is_new_entry = (arp_state en = ETHARP_STATE_EMPTY)
                          in do { s \<leftarrow> (if is_new_entry
                                        then arp_upd i (\<lambda>en. en\<lparr>arp_state := ETHARP_STATE_PENDING, arp_netif := n\<rparr>) s
                                        else Some s);
                                  if is_new_entry \<or> q = 0 then
                                    do { (result, s) \<leftarrow> etharp_request e n ipaddr s;
                                         s \<leftarrow> (if result = ERR_OK \<and> arp_state en = ETHARP_STATE_PENDING \<and> \<not> is_new_entry
                                               then arp_upd i (\<lambda>en. en\<lparr>arp_ctime := 0\<rparr>) s
                                               else Some s);
                                         if q = 0 then Some (result, s) else query_packet e n q i result s }
                                  else query_packet e n q i ERR_MEM s } } } }"

text \<open>The search for a stable entry in \<^verbatim>\<open>etharp_output\<close>.\<close>

fun stable_loop :: "u32 \<Rightarrow> etharp_entry list \<Rightarrow> nat \<Rightarrow> nat option" where
  "stable_loop dst_addr [] i = None"
| "stable_loop dst_addr (en # ens) i =
     (if arp_state en \<ge> ETHARP_STATE_STABLE \<and> dst_addr = arp_ipaddr en then Some i
      else stable_loop dst_addr ens (i + 1))"

text \<open>The next hop for a unicast destination; \<open>None\<close> is \<^verbatim>\<open>ERR_RTE\<close>. \<open>src\<close> is the source address in the
  IP header of the packet.\<close>

definition next_hop :: "u32 \<Rightarrow> netif \<Rightarrow> u32 \<Rightarrow> u32 option" where
  "next_hop ipaddr nif src =
     (if \<not> ip4_addr_net_eq ipaddr (ip_addr nif) (netmask nif) \<and> \<not> ip4_addr_islinklocal ipaddr then
        if \<not> ip4_addr_islinklocal src then
          if \<not> ip4_addr_isany (gw nif) then Some (gw nif) else None
        else Some ipaddr
      else Some ipaddr)"

definition multicast_addr :: "u32 \<Rightarrow> eth_addr" where
  "multicast_addr ipaddr =
     [0x01, 0x00, 0x5e, ip4_addr_get_byte ipaddr 1 AND 0x7f, ip4_addr_get_byte ipaddr 2, ip4_addr_get_byte ipaddr 3]"

definition etharp_output :: "eth_env \<Rightarrow> nat \<Rightarrow> nat \<Rightarrow> u32 \<Rightarrow> eth_state \<Rightarrow> (err_t \<times> eth_state) option" where
  "etharp_output e n q ipaddr s =
     do { lwip_assert (n \<noteq> 0);
          lwip_assert (q \<noteq> 0);
          nif \<leftarrow> netifs s n;
          if ip4_addr_isbroadcast_u32 ipaddr nif then
            ethernet_output e n q (hwaddr nif) ethbroadcast ETHTYPE_IP s
          else if ip4_addr_ismulticast ipaddr then
            ethernet_output e n q (hwaddr nif) (multicast_addr ipaddr) ETHTYPE_IP s
          else
            do { b \<leftarrow> pbufs (eth_heap s) q;
                 case next_hop ipaddr nif (load32 (bytes (eth_heap s)) (payload b + 12)) of
                   None \<Rightarrow> Some (ERR_RTE, s)
                 | Some dst_addr \<Rightarrow>
                     do { en \<leftarrow> arp_get s (etharp_cached_entry s);
                          if arp_state en \<ge> ETHARP_STATE_STABLE \<and> dst_addr = arp_ipaddr en then
                            etharp_output_to_arp_index e n q (etharp_cached_entry s) s
                          else
                            (case stable_loop dst_addr (arp_table s) 0 of
                               Some i \<Rightarrow> etharp_output_to_arp_index e n q i (s\<lparr>etharp_cached_entry := i\<rparr>)
                             | None \<Rightarrow> etharp_query e n dst_addr q s) } } }"

section \<open>Frames that arrive\<close>

text \<open>The flags that mark a packet received by link-layer multicast or broadcast.\<close>

definition ll_flags :: "u8 list \<Rightarrow> u8 \<Rightarrow> u8" where
  "ll_flags dest flags =
     (if dest ! 0 AND 1 \<noteq> 0 then
        if dest ! 0 = 0x01 then
          (if dest ! 1 = 0x00 \<and> dest ! 2 = 0x5e then flags OR PBUF_FLAG_LLMCAST else flags)
        else if eth_addr_eq dest ethbroadcast then flags OR PBUF_FLAG_LLBCAST
        else flags
      else flags)"

definition ethernet_input :: "eth_env \<Rightarrow> nat \<Rightarrow> nat \<Rightarrow> eth_state \<Rightarrow> (err_t \<times> eth_state) option" where
  "ethernet_input e p n s =
     (let free_and_return = (\<lambda>s. do { s \<leftarrow> eth_pbuf_free e p s; Some (ERR_OK, s) }) in
      do { b \<leftarrow> pbufs (eth_heap s) p;
           if unat (len b) \<le> SIZEOF_ETH_HDR then free_and_return s
           else
             do { nif \<leftarrow> netifs s n;
                  let type = load16 (bytes (eth_heap s)) (payload b + 12);
                      dest = rd (eth_heap s) (payload b) 6
                  in do { h \<leftarrow> upd_pbuf p (\<lambda>b. b\<lparr>if_idx := (if if_idx b = 0 then netif_num nif + 1 else if_idx b),
                                                 pb_flags := ll_flags dest (pb_flags b)\<rparr>) (eth_heap s);
                          let s = s\<lparr>eth_heap := h\<rparr>
                          in if type = PP_HTONS ETHTYPE_IP \<or> type = PP_HTONS ETHTYPE_ARP then
                               if netif_flags nif AND NETIF_FLAG_ETHARP = 0 then free_and_return s
                               else do { (failed, h) \<leftarrow> pbuf_remove_header p SIZEOF_ETH_HDR (eth_heap s);
                                         let s = s\<lparr>eth_heap := h\<rparr>
                                         in if failed then free_and_return s
                                            else if type = PP_HTONS ETHTYPE_IP
                                            then do { s \<leftarrow> call_ip4_input e p n s; Some (ERR_OK, s) }
                                            else do { s \<leftarrow> etharp_input e p n s; Some (ERR_OK, s) } }
                             else free_and_return s } } })"

end
