(* ===== verification/Etharp_Inv.thy ===== *)
theory Etharp_Inv
  imports Etharp
begin

text \<open>
  The search of the ARP table and the invariant of the ARP cache: what \<^verbatim>\<open>etharp_find_entry\<close> chooses,
  and that the packets waiting in the table are live, owned and apart from each other after every
  operation.
\<close>

section \<open>States and flags\<close>

lemma etharp_state_order [simp]:
  "(ETHARP_STATE_STABLE \<le> st) = (st \<noteq> ETHARP_STATE_EMPTY \<and> st \<noteq> ETHARP_STATE_PENDING)"
  by (cases st) (simp_all add: less_eq_etharp_state_def)

lemma flag_tests [simp]:
  "(1 :: u8) AND 2 = 0" "(2 :: u8) AND 2 = 2" "(2 :: u8) AND 1 = 0" "(1 :: u8) AND 1 = 1"
  by simp_all

section \<open>Searching the table\<close>

text \<open>How much is lost when an entry is recycled: nothing, an address, a request, a packet.\<close>

definition rank :: "etharp_entry \<Rightarrow> nat" where
  "rank en = (if arp_state en = ETHARP_STATE_EMPTY then 0
              else if arp_state en \<noteq> ETHARP_STATE_PENDING then 1
              else if arp_q en = 0 then 2 else 3)"

lemma rank_cases: "rank en = 0 \<or> rank en = 1 \<or> rank en = 2 \<or> rank en = 3"
  by (simp add: rank_def)

text \<open>The oldest entry of rank \<open>r\<close> among the first \<open>k\<close>.\<close>

definition oldest :: "nat \<Rightarrow> etharp_entry list \<Rightarrow> nat \<Rightarrow> nat \<Rightarrow> u16 \<Rightarrow> bool" where
  "oldest r tbl k i age \<longleftrightarrow>
     (if i = 10 then age = 0 \<and> (\<forall>j < k. rank (tbl ! j) \<noteq> r)
      else i < k \<and> rank (tbl ! i) = r \<and> age = arp_ctime (tbl ! i) \<and>
        (\<forall>j < k. rank (tbl ! j) = r \<longrightarrow> arp_ctime (tbl ! j) \<le> age))"

definition cands_ok :: "etharp_entry list \<Rightarrow> nat \<Rightarrow> candidates \<Rightarrow> bool" where
  "cands_ok tbl k c \<longleftrightarrow>
     (if cand_empty c = 10 then \<forall>j < k. rank (tbl ! j) \<noteq> 0
      else cand_empty c < k \<and> rank (tbl ! cand_empty c) = 0 \<and> (\<forall>j < cand_empty c. rank (tbl ! j) \<noteq> 0)) \<and>
     oldest 1 tbl k (old_stable c) (age_stable c) \<and> oldest 2 tbl k (old_pending c) (age_pending c) \<and>
     oldest 3 tbl k (old_queue c) (age_queue c)"

lemma oldest_Suc_other: "oldest r tbl k i age \<Longrightarrow> rank (tbl ! k) \<noteq> r \<Longrightarrow> oldest r tbl (Suc k) i age"
  by (auto simp: oldest_def less_Suc_eq)

lemma oldest_Suc_older:
  "oldest r tbl k i age \<Longrightarrow> \<not> age \<le> arp_ctime (tbl ! k) \<Longrightarrow> oldest r tbl (Suc k) i age"
  by (auto simp: oldest_def less_Suc_eq)

lemma oldest_Suc_new:
  "oldest r tbl k i age \<Longrightarrow> age \<le> arp_ctime (tbl ! k) \<Longrightarrow> rank (tbl ! k) = r \<Longrightarrow> k \<noteq> 10 \<Longrightarrow>
   oldest r tbl (Suc k) k (arp_ctime (tbl ! k))"
  by (auto simp: oldest_def less_Suc_eq split: if_splits)

lemma cands_ok_note:
  assumes "cands_ok tbl k c" "k < 10"
  shows "cands_ok tbl (Suc k) (note_candidate k (tbl ! k) c)"
proof -
  have e: "if cand_empty c = 10 then \<forall>j < k. rank (tbl ! j) \<noteq> 0
      else cand_empty c < k \<and> rank (tbl ! cand_empty c) = 0 \<and> (\<forall>j < cand_empty c. rank (tbl ! j) \<noteq> 0)"
    and o: "oldest 1 tbl k (old_stable c) (age_stable c)" "oldest 2 tbl k (old_pending c) (age_pending c)"
      "oldest 3 tbl k (old_queue c) (age_queue c)"
    using assms(1) by (auto simp: cands_ok_def)
  consider "rank (tbl ! k) = 0" | "rank (tbl ! k) = 1" | "rank (tbl ! k) = 2" | "rank (tbl ! k) = 3"
    using rank_cases [of "tbl ! k"] by metis
  then show ?thesis
  proof cases
    case 1
    then have "arp_state (tbl ! k) = ETHARP_STATE_EMPTY" by (auto simp: rank_def split: if_splits)
    then show ?thesis using 1 e o assms(2)
      by (auto simp: cands_ok_def note_candidate_def less_Suc_eq intro: oldest_Suc_other split: if_splits)
  next
    case 2
    then have "arp_state (tbl ! k) \<noteq> ETHARP_STATE_EMPTY" "arp_state (tbl ! k) \<noteq> ETHARP_STATE_PENDING"
      by (auto simp: rank_def split: if_splits)
    then show ?thesis using 2 e o assms(2)
      by (auto simp: cands_ok_def note_candidate_def less_Suc_eq
          intro: oldest_Suc_other oldest_Suc_older oldest_Suc_new split: if_splits)
  next
    case 3
    then have "arp_state (tbl ! k) = ETHARP_STATE_PENDING" "arp_q (tbl ! k) = 0"
      by (auto simp: rank_def split: if_splits)
    then show ?thesis using 3 e o assms(2)
      by (auto simp: cands_ok_def note_candidate_def less_Suc_eq
          intro: oldest_Suc_other oldest_Suc_older oldest_Suc_new split: if_splits)
  next
    case 4
    then have "arp_state (tbl ! k) = ETHARP_STATE_PENDING" "arp_q (tbl ! k) \<noteq> 0"
      by (auto simp: rank_def split: if_splits)
    then show ?thesis using 4 e o assms(2)
      by (auto simp: cands_ok_def note_candidate_def less_Suc_eq
          intro: oldest_Suc_other oldest_Suc_older oldest_Suc_new split: if_splits)
  qed
qed

definition matches :: "u32 option \<Rightarrow> etharp_entry \<Rightarrow> bool" where
  "matches ipaddr en \<longleftrightarrow> arp_state en \<noteq> ETHARP_STATE_EMPTY \<and> ipaddr = Some (arp_ipaddr en)"

lemma find_entry_loop_spec:
  assumes "cands_ok tbl k c" "length tbl = 10" "k \<le> 10" "\<forall>j < k. \<not> matches ip (tbl ! j)"
  shows "case find_entry_loop ip (drop k tbl) k c of
      Inl i \<Rightarrow> i < 10 \<and> matches ip (tbl ! i) \<and> (\<forall>j < i. \<not> matches ip (tbl ! j))
    | Inr c' \<Rightarrow> (\<forall>j < 10. \<not> matches ip (tbl ! j)) \<and> cands_ok tbl 10 c'"
  using assms
proof (induction "10 - k" arbitrary: k c)
  case 0
  then show ?case by simp
next
  case (Suc d)
  then have k: "k < 10" by simp
  then have d: "drop k tbl = tbl ! k # drop (Suc k) tbl" using Suc.prems(2) by (simp add: Cons_nth_drop_Suc)
  show ?case
  proof (cases "matches ip (tbl ! k)")
    case True
    then show ?thesis using d k Suc.prems(4) by (simp add: matches_def)
  next
    case False
    then have "find_entry_loop ip (drop k tbl) k c =
        find_entry_loop ip (drop (Suc k) tbl) (Suc k) (note_candidate k (tbl ! k) c)"
      using d by (auto simp: matches_def)
    moreover have "\<forall>j < Suc k. \<not> matches ip (tbl ! j)" using False Suc.prems(4) by (auto simp: less_Suc_eq)
    ultimately show ?thesis
      using Suc.hyps(1) [of "Suc k"] Suc.hyps(2) Suc.prems(2) cands_ok_note [OF Suc.prems(1) k] k by simp
  qed
qed

lemma find_entry_search:
  assumes "length tbl = 10"
  shows "case find_entry_loop ip tbl 0 no_candidates of
      Inl i \<Rightarrow> i < 10 \<and> matches ip (tbl ! i) \<and> (\<forall>j < i. \<not> matches ip (tbl ! j))
    | Inr c' \<Rightarrow> (\<forall>j < 10. \<not> matches ip (tbl ! j)) \<and> cands_ok tbl 10 c'"
  using find_entry_loop_spec [of tbl 0 no_candidates ip] assms
  by (simp add: cands_ok_def oldest_def no_candidates_def)

section \<open>The invariant\<close>

text \<open>\<open>waiting h en as\<close>: the chain \<open>as\<close> is the packet that waits for the entry, with a reference held
  on each of its buffers.\<close>

definition waiting :: "heap \<Rightarrow> etharp_entry \<Rightarrow> nat list \<Rightarrow> bool" where
  "waiting h en as \<longleftrightarrow>
     (if arp_q en = 0 then as = []
      else packet h (arp_q en) as \<and> owned h as \<and> (\<forall>a \<in> set as. 0 < pb_ref (the (pbufs h a))))"

definition queues_ok :: "heap \<Rightarrow> etharp_entry list \<Rightarrow> nat list list \<Rightarrow> bool" where
  "queues_ok h tbl ass \<longleftrightarrow>
     length ass = 10 \<and> (\<forall>i < 10. waiting h (tbl ! i) (ass ! i)) \<and>
     (\<forall>i < 10. \<forall>j < 10. i \<noteq> j \<longrightarrow> set (ass ! i) \<inter> set (ass ! j) = {})"

definition entry_ok :: "etharp_entry \<Rightarrow> bool" where
  "entry_ok en \<longleftrightarrow>
     (arp_q en \<noteq> 0 \<longrightarrow> arp_state en = ETHARP_STATE_PENDING) \<and>
     (arp_state en \<noteq> ETHARP_STATE_EMPTY \<longrightarrow> arp_ctime en < ARP_MAXAGE) \<and>
     (arp_state en = ETHARP_STATE_PENDING \<longrightarrow> arp_ctime en < ARP_MAXPENDING) \<and>
     (arp_state en \<ge> ETHARP_STATE_STABLE \<longrightarrow> length (arp_ethaddr en) = 6)"

definition netif_ok :: "eth_state \<Rightarrow> nat \<Rightarrow> bool" where
  "netif_ok s n \<longleftrightarrow> (\<exists>nif. netifs s n = Some nif \<and> hwaddr_len nif = 6 \<and> length (hwaddr nif) = 6)"

definition arp_inv_with :: "eth_state \<Rightarrow> nat list list \<Rightarrow> bool" where
  "arp_inv_with s ass \<longleftrightarrow>
     heap_inv (eth_heap s) \<and> length (arp_table s) = 10 \<and> etharp_cached_entry s < 10 \<and>
     (\<forall>i < 10. entry_ok (arp_table s ! i)) \<and>
     (\<forall>i < 10. arp_state (arp_table s ! i) \<noteq> ETHARP_STATE_EMPTY \<longrightarrow> netif_ok s (arp_netif (arp_table s ! i))) \<and>
     (\<forall>i < 10. \<forall>j < 10. i \<noteq> j \<and> arp_state (arp_table s ! i) \<noteq> ETHARP_STATE_EMPTY \<and>
        arp_state (arp_table s ! j) \<noteq> ETHARP_STATE_EMPTY \<longrightarrow> arp_ipaddr (arp_table s ! i) \<noteq> arp_ipaddr (arp_table s ! j)) \<and>
     queues_ok (eth_heap s) (arp_table s) ass"

definition arp_inv :: "eth_state \<Rightarrow> bool" where
  "arp_inv s \<longleftrightarrow> (\<exists>ass. arp_inv_with s ass)"

lemma packet_pbufs_frame:
  assumes "\<forall>a \<in> set as. pbufs h' a = pbufs h a"
  shows "pchain h' p as = pchain h p as" "length (pdata h' as) = length (pdata h as)"
    "totals_ok h' as = totals_ok h as" "packet h' p as = packet h p as" "owned h' as = owned h as"
proof -
  show c: "pchain h' p as = pchain h p as" using assms by (induction as arbitrary: p) auto
  have l: "length (pdata h' bs) = length (pdata h bs)" if "set bs \<subseteq> set as" for bs
    using that assms by (induction bs) (auto simp: plen_def)
  then show "length (pdata h' as) = length (pdata h as)" by blast
  have "totals_ok h' bs = totals_ok h bs" if "set bs \<subseteq> set as" for bs
    using that
  proof (induction bs)
    case (Cons b bs)
    have "length (pdata h' (b # bs)) = length (pdata h (b # bs))" using l Cons.prems by blast
    then show ?case using Cons assms by simp
  qed simp
  then show t: "totals_ok h' as = totals_ok h as" by blast
  show "packet h' p as = packet h p as" using c t by (simp add: packet_def)
  show "owned h' as = owned h as" using assms by (simp add: owned_def)
qed

lemma waiting_frame: "\<forall>a \<in> set as. pbufs h' a = pbufs h a \<Longrightarrow> waiting h' en as = waiting h en as"
  using packet_pbufs_frame [of as h' h] by (simp add: waiting_def)

lemma waiting_nonempty: "waiting h en as \<Longrightarrow> arp_q en \<noteq> 0 \<Longrightarrow> as \<noteq> [] \<and> arp_q en \<in> set as"
  using packet_first by (auto simp: waiting_def packet_def)

text \<open>One entry changes, and the heap changes within its old and new packet.\<close>

lemma arp_inv_entry:
  assumes inv: "arp_inv_with s ass" and i: "i < 10" and s': "arp_table s' = (arp_table s)[i := en']"
      "netifs s' = netifs s" "etharp_cached_entry s' < 10" "heap_inv (eth_heap s')"
    and en': "entry_ok en'" "waiting (eth_heap s') en' as'"
    and ip: "arp_state en' \<noteq> ETHARP_STATE_EMPTY \<Longrightarrow> netif_ok s (arp_netif en')"
      "\<And>j. arp_state en' \<noteq> ETHARP_STATE_EMPTY \<Longrightarrow> j < 10 \<Longrightarrow> j \<noteq> i \<Longrightarrow>
         arp_state (arp_table s ! j) \<noteq> ETHARP_STATE_EMPTY \<Longrightarrow> arp_ipaddr (arp_table s ! j) \<noteq> arp_ipaddr en'"
    and fr: "\<And>j a. j < 10 \<Longrightarrow> j \<noteq> i \<Longrightarrow> a \<in> set (ass ! j) \<Longrightarrow> pbufs (eth_heap s') a = pbufs (eth_heap s) a \<and> a \<notin> set as'"
  shows "arp_inv_with s' (ass[i := as'])"
proof -
  have l: "length (arp_table s) = 10" "length ass = 10" using inv by (auto simp: arp_inv_with_def queues_ok_def)
  have w: "waiting (eth_heap s') (arp_table s' ! j) (ass[i := as'] ! j)" if "j < 10" for j
  proof (cases "j = i")
    case True
    then show ?thesis using en'(2) i l s'(1) by simp
  next
    case False
    then have "waiting (eth_heap s) (arp_table s ! j) (ass ! j)"
      using inv that by (simp add: arp_inv_with_def queues_ok_def)
    then show ?thesis using waiting_frame [of "ass ! j"] fr [OF that False] False s'(1) by auto
  qed
  moreover have "set (ass[i := as'] ! j) \<inter> set (ass[i := as'] ! k) = {}" if "j < 10" "k < 10" "j \<noteq> k" for j k
  proof -
    have "set (ass ! j) \<inter> set (ass ! k) = {}" using inv that by (simp add: arp_inv_with_def queues_ok_def)
    then show ?thesis using that l i fr [of j] fr [of k] by (auto simp: nth_list_update)
  qed
  ultimately have q: "queues_ok (eth_heap s') (arp_table s') (ass[i := as'])" using l by (simp add: queues_ok_def)
  have eo: "entry_ok (arp_table s' ! j)" if "j < 10" for j
    using inv en'(1) that i l s'(1) by (auto simp: arp_inv_with_def nth_list_update)
  have no: "netif_ok s' (arp_netif (arp_table s' ! j))" if "j < 10" "arp_state (arp_table s' ! j) \<noteq> ETHARP_STATE_EMPTY" for j
    using inv ip(1) that i l s'(1,2) by (cases "j = i") (auto simp: arp_inv_with_def netif_ok_def)
  have un: "arp_ipaddr (arp_table s' ! j) \<noteq> arp_ipaddr (arp_table s' ! k)"
    if "j < 10" "k < 10" "j \<noteq> k" "arp_state (arp_table s' ! j) \<noteq> ETHARP_STATE_EMPTY"
      "arp_state (arp_table s' ! k) \<noteq> ETHARP_STATE_EMPTY" for j k
  proof -
    consider "j = i" | "k = i" | "j \<noteq> i" "k \<noteq> i" by blast
    then show ?thesis
    proof cases
      case 1
      then show ?thesis using ip(2) [of k] that i l s'(1) by auto
    next
      case 2
      then show ?thesis using ip(2) [of j] that i l s'(1) by auto
    next
      case 3
      then show ?thesis using inv that s'(1) by (auto simp: arp_inv_with_def)
    qed
  qed
  show ?thesis unfolding arp_inv_with_def using s' q eo no un l by simp
qed

section \<open>Releasing and finding entries\<close>

lemma arp_inv_get:
  assumes "arp_inv_with s ass" "i < 10"
  shows "arp_get s i = Some (arp_table s ! i)" "entry_ok (arp_table s ! i)"
    "waiting (eth_heap s) (arp_table s ! i) (ass ! i)"
    "\<And>j a. j < 10 \<Longrightarrow> j \<noteq> i \<Longrightarrow> a \<in> set (ass ! j) \<Longrightarrow> a \<notin> set (ass ! i)"
proof -
  show "arp_get s i = Some (arp_table s ! i)" "entry_ok (arp_table s ! i)"
    "waiting (eth_heap s) (arp_table s ! i) (ass ! i)"
    using assms by (auto simp: arp_inv_with_def arp_get_def queues_ok_def)
  show "a \<notin> set (ass ! i)" if "j < 10" "j \<noteq> i" "a \<in> set (ass ! j)" for j a
  proof -
    have "set (ass ! j) \<inter> set (ass ! i) = {}" using assms that by (simp add: arp_inv_with_def queues_ok_def)
    then show ?thesis using that by blast
  qed
qed

lemma arp_inv_heap: "arp_inv_with s ass \<Longrightarrow> heap_inv (eth_heap s)" "arp_inv_with s ass \<Longrightarrow> length (arp_table s) = 10"
  "arp_inv_with s ass \<Longrightarrow> etharp_cached_entry s < 10"
  by (simp_all add: arp_inv_with_def)

lemma free_waiting:
  assumes "waiting h en as" "arp_q en \<noteq> 0" "heap_inv h" "custom_free_ok e"
  shows "\<exists>c h'. pbuf_free e (arp_q en) h = Some (c, h') \<and> heap_inv h' \<and> bytes h' = bytes h \<and>
     pbufs h' = release_refs (pbufs h) as"
  using assms pbuf_free_chain [of h "arp_q en" as e] by (auto simp: waiting_def packet_def)

definition released :: "etharp_entry \<Rightarrow> etharp_entry" where
  "released en = en\<lparr>arp_q := 0, arp_state := ETHARP_STATE_EMPTY\<rparr>"

lemma waiting_Nil: "arp_q en = 0 \<Longrightarrow> waiting h en []"
  by (simp add: waiting_def)

lemma etharp_free_entry_any:
  assumes inv: "arp_inv_with s ass" and i: "i < 10" and e: "custom_free_ok (pb_env e)"
    and en: "arp_q en = arp_q (arp_table s ! i)"
  shows "\<exists>h'. let s' = s\<lparr>eth_heap := h', arp_table := (arp_table s)[i := released en]\<rparr> in
     etharp_free_entry e i (s\<lparr>arp_table := (arp_table s)[i := en]\<rparr>) = Some s' \<and> arp_inv_with s' (ass[i := []]) \<and>
     bytes h' = bytes (eth_heap s) \<and> pbufs h' = release_refs (pbufs (eth_heap s)) (ass ! i)"
proof -
  note g = arp_inv_get [OF inv i] and l = arp_inv_heap [OF inv]
  have w: "waiting (eth_heap s) en (ass ! i)" using g(3) en by (simp add: waiting_def)
  let ?s1 = "s\<lparr>arp_table := (arp_table s)[i := en]\<rparr>"
  obtain h' where h': "heap_inv h'" "bytes h' = bytes (eth_heap s)" "pbufs h' = release_refs (pbufs (eth_heap s)) (ass ! i)"
    and run: "etharp_free_entry e i ?s1 = Some (s\<lparr>eth_heap := h', arp_table := (arp_table s)[i := released en]\<rparr>)"
  proof (cases "arp_q en = 0")
    case True
    then have "ass ! i = []" using w by (simp add: waiting_def)
    moreover have "etharp_free_entry e i ?s1 = Some (s\<lparr>eth_heap := eth_heap s, arp_table := (arp_table s)[i := released en]\<rparr>)"
      using True i l(2) by (cases en) (simp add: etharp_free_entry_def arp_get_def arp_upd_def released_def)
    ultimately show ?thesis using that [of "eth_heap s"] l(1) by simp
  next
    case False
    then obtain c h' where f: "pbuf_free (pb_env e) (arp_q en) (eth_heap s) = Some (c, h')" "heap_inv h'"
        "bytes h' = bytes (eth_heap s)" "pbufs h' = release_refs (pbufs (eth_heap s)) (ass ! i)"
      using free_waiting [OF w False l(1) e] by blast
    have "etharp_free_entry e i ?s1 = Some (s\<lparr>eth_heap := h', arp_table := (arp_table s)[i := released en]\<rparr>)"
      using False f(1) i l(2) by (simp add: etharp_free_entry_def eth_pbuf_free_def arp_upd_def arp_get_def released_def)
    then show ?thesis using that f by blast
  qed
  have "arp_inv_with (s\<lparr>eth_heap := h', arp_table := (arp_table s)[i := released en]\<rparr>) (ass[i := []])"
    using h' g(4) l(3)
    by (intro arp_inv_entry [OF inv i, where en' = "released en"])
      (auto simp: released_def entry_ok_def waiting_def release_refs_other)
  then show ?thesis using h' run by (auto simp: Let_def)
qed

lemma etharp_free_entry_spec:
  assumes inv: "arp_inv_with s ass" and i: "i < 10" and e: "custom_free_ok (pb_env e)"
  shows "\<exists>h'. let s' = s\<lparr>eth_heap := h', arp_table := (arp_table s)[i := released (arp_table s ! i)]\<rparr> in
     etharp_free_entry e i s = Some s' \<and> arp_inv_with s' (ass[i := []]) \<and> bytes h' = bytes (eth_heap s) \<and>
     pbufs h' = release_refs (pbufs (eth_heap s)) (ass ! i)"
  using etharp_free_entry_any [OF inv i e refl] by simp

text \<open>Which entry is recycled: the first empty one, else the oldest of the least rank.\<close>

definition victim :: "etharp_entry list \<Rightarrow> nat \<Rightarrow> bool" where
  "victim tbl i \<longleftrightarrow>
     i < 10 \<and> (\<forall>j < 10. rank (tbl ! i) \<le> rank (tbl ! j) \<and>
       (rank (tbl ! j) = rank (tbl ! i) \<longrightarrow>
         (if rank (tbl ! i) = 0 then i \<le> j else arp_ctime (tbl ! j) \<le> arp_ctime (tbl ! i))))"

lemma choose_victim:
  assumes "cands_ok tbl 10 c" "length tbl = 10"
    and "i = (if cand_empty c < 10 then cand_empty c else if old_stable c < 10 then old_stable c
              else if old_pending c < 10 then old_pending c else old_queue c)"
  shows "victim tbl i"
proof -
  have o: "oldest 1 tbl 10 (old_stable c) (age_stable c)" "oldest 2 tbl 10 (old_pending c) (age_pending c)"
      "oldest 3 tbl 10 (old_queue c) (age_queue c)"
    and e: "if cand_empty c = 10 then \<forall>j < 10. rank (tbl ! j) \<noteq> 0
      else cand_empty c < 10 \<and> rank (tbl ! cand_empty c) = 0 \<and> (\<forall>j < cand_empty c. rank (tbl ! j) \<noteq> 0)"
    using assms(1) by (auto simp: cands_ok_def)
  have none: "k < 10 \<or> (\<forall>j < 10. rank (tbl ! j) \<noteq> r)" if "oldest r tbl 10 k age" for r k age
    using that by (auto simp: oldest_def split: if_splits)
  have some: "rank (tbl ! k) = r \<and> (\<forall>j < 10. rank (tbl ! j) = r \<longrightarrow> arp_ctime (tbl ! j) \<le> arp_ctime (tbl ! k))"
    if "oldest r tbl 10 k age" "k < 10" for r k age
    using that by (auto simp: oldest_def split: if_splits)
  have e0: "rank (tbl ! j) \<noteq> 0" if "\<not> cand_empty c < 10" "j < 10" for j using e that by (auto split: if_splits)
  have fin: "rank (tbl ! j) = 0 \<or> rank (tbl ! j) = 1 \<or> rank (tbl ! j) = 2 \<or> rank (tbl ! j) = 3" for j
    by (rule rank_cases)
  consider "cand_empty c < 10" | "\<not> cand_empty c < 10" "old_stable c < 10"
    | "\<not> cand_empty c < 10" "\<not> old_stable c < 10" "old_pending c < 10"
    | "\<not> cand_empty c < 10" "\<not> old_stable c < 10" "\<not> old_pending c < 10" by blast
  then show ?thesis
  proof cases
    case 1
    then have "rank (tbl ! cand_empty c) = 0" "\<forall>j < cand_empty c. rank (tbl ! j) \<noteq> 0" using e by (auto split: if_splits)
    then show ?thesis using 1 assms(3) by (auto simp: victim_def not_less [symmetric])
  next
    case 2
    then have i: "i = old_stable c" using assms(3) by simp
    have "1 \<le> rank (tbl ! j)" if "j < 10" for j using e0 [OF 2(1) that] by linarith
    then show ?thesis using some [OF o(1) 2(2)] 2(2) i by (simp add: victim_def)
  next
    case 3
    then have i: "i = old_pending c" using assms(3) by simp
    have "2 \<le> rank (tbl ! j)" if "j < 10" for j
    proof -
      have "rank (tbl ! j) \<noteq> 1" using none [OF o(1)] 3(2) that by blast
      then show ?thesis using e0 [OF 3(1) that] by linarith
    qed
    then show ?thesis using some [OF o(2) 3(3)] 3(3) i by (simp add: victim_def)
  next
    case 4
    then have i: "i = old_queue c" using assms(3) by simp
    have r3: "rank (tbl ! j) = 3" if "j < 10" for j
    proof -
      have "rank (tbl ! j) \<noteq> 1" "rank (tbl ! j) \<noteq> 2" using none [OF o(1)] none [OF o(2)] 4 that by blast+
      then show ?thesis using e0 [OF 4(1) that] fin [of j] by metis
    qed
    then have "old_queue c < 10" using none [OF o(3)] r3 [of 0] by (metis zero_less_numeral)
    then show ?thesis using some [OF o(3)] r3 i by (simp add: victim_def)
  qed
qed

definition recycled :: "u32 \<Rightarrow> etharp_entry \<Rightarrow> etharp_entry" where
  "recycled ip en = en\<lparr>arp_q := 0, arp_state := ETHARP_STATE_EMPTY, arp_ipaddr := ip, arp_ctime := 0\<rparr>"

lemma arp_inv_cong:
  assumes "arp_inv_with s ass" "arp_table s' = arp_table s" "netifs s' = netifs s" "etharp_cached_entry s' < 10"
    "heap_inv (eth_heap s')" "pbufs (eth_heap s') = pbufs (eth_heap s)"
  shows "arp_inv_with s' ass"
proof -
  have "waiting (eth_heap s') en as = waiting (eth_heap s) en as" for en as
    using waiting_frame [of as] assms(6) by simp
  then have "queues_ok (eth_heap s') (arp_table s') ass"
    using assms(1,2) by (simp add: arp_inv_with_def queues_ok_def)
  moreover have "netif_ok s' n = netif_ok s n" for n using assms(3) by (simp add: netif_ok_def)
  ultimately show ?thesis using assms by (simp add: arp_inv_with_def)
qed

lemma arp_inv_sent: "arp_sent e n frame s r s' \<Longrightarrow> arp_inv_with s ass \<Longrightarrow> arp_inv_with s' ass"
  using arp_sent_keeps [of e n frame s r s'] writes_only_simps(1)
  by (intro arp_inv_cong [of s ass s']) (auto simp: arp_inv_heap)

text \<open>Releasing the entry that was chosen.\<close>

lemma choose_entry_spec:
  assumes inv: "arp_inv_with s ass" and c: "cands_ok (arp_table s) 10 c" and e: "custom_free_ok (pb_env e)"
  shows "\<exists>i h'. let s' = s\<lparr>eth_heap := h', arp_table := (arp_table s)[i := released (arp_table s ! i)]\<rparr> in
     choose_entry e c s = Some (Inr i, s') \<and> victim (arp_table s) i \<and> arp_inv_with s' (ass[i := []]) \<and>
     bytes h' = bytes (eth_heap s) \<and> pbufs h' = release_refs (pbufs (eth_heap s)) (ass ! i)"
proof -
  define i where "i = (if cand_empty c < 10 then cand_empty c else if old_stable c < 10 then old_stable c
              else if old_pending c < 10 then old_pending c else old_queue c)"
  have v: "victim (arp_table s) i" using choose_victim [OF c arp_inv_heap(2) [OF inv] i_def] .
  then have i: "i < 10" by (simp add: victim_def)
  note g = arp_inv_get [OF inv i] and l = arp_inv_heap [OF inv]
  show ?thesis
  proof (cases "cand_empty c < 10")
    case True
    then have ic: "i = cand_empty c" by (simp add: i_def)
    then have "rank (arp_table s ! i) = 0" using c True by (auto simp: cands_ok_def split: if_splits)
    then have st: "arp_state (arp_table s ! i) = ETHARP_STATE_EMPTY" by (auto simp: rank_def split: if_splits)
    then have q: "arp_q (arp_table s ! i) = 0" using g(2) by (auto simp: entry_ok_def)
    then have "released (arp_table s ! i) = arp_table s ! i" using st by (cases "arp_table s ! i") (simp add: released_def)
    moreover have a: "ass ! i = []" using g(3) q by (simp add: waiting_def)
    moreover have "ass[i := []] = ass" using a by (metis list_update_id)
    ultimately show ?thesis using True inv v ic
      by (intro exI [of _ i] exI [of _ "eth_heap s"]) (simp add: choose_entry_def Let_def)
  next
    case False
    obtain h' where f: "let s' = s\<lparr>eth_heap := h', arp_table := (arp_table s)[i := released (arp_table s ! i)]\<rparr> in
        etharp_free_entry e i s = Some s' \<and> arp_inv_with s' (ass[i := []]) \<and> bytes h' = bytes (eth_heap s) \<and>
        pbufs h' = release_refs (pbufs (eth_heap s)) (ass ! i)"
      using etharp_free_entry_spec [OF inv i e] by blast
    have stable: "arp_q (arp_table s ! i) = 0" if "old_stable c < 10"
    proof -
      have "rank (arp_table s ! i) = 1" using c that False by (auto simp: cands_ok_def oldest_def i_def split: if_splits)
      then show ?thesis using g(2) by (auto simp: rank_def entry_ok_def split: if_splits)
    qed
    have "choose_entry e c s = do { s \<leftarrow> etharp_free_entry e i s; Some (Inr i, s) }"
      using False stable i g(1) by (auto simp: choose_entry_def i_def)
    then show ?thesis using f v by (intro exI [of _ i] exI [of _ h']) (simp add: Let_def)
  qed
qed

lemma etharp_find_entry_hard:
  assumes inv: "arp_inv_with s ass" and e: "custom_free_ok (pb_env e)"
  shows "\<exists>i s'. etharp_find_entry e (Some ip) ETHARP_FLAG_TRY_HARD s = Some (Inr i, s') \<and> i < 10 \<and>
     (if \<exists>j < 10. matches (Some ip) (arp_table s ! j) then s' = s \<and> matches (Some ip) (arp_table s ! i)
      else victim (arp_table s) i \<and> (\<exists>h'. s' = s\<lparr>eth_heap := h', arp_table := (arp_table s)[i := recycled ip (arp_table s ! i)]\<rparr> \<and>
        arp_inv_with s' (ass[i := []]) \<and> bytes h' = bytes (eth_heap s) \<and> pbufs h' = release_refs (pbufs (eth_heap s)) (ass ! i)))"
proof (cases "find_entry_loop (Some ip) (arp_table s) 0 no_candidates")
  case (Inl i)
  then have "i < 10" "matches (Some ip) (arp_table s ! i)"
    using find_entry_search [OF arp_inv_heap(2) [OF inv], of "Some ip"] by simp_all
  then show ?thesis using Inl by (intro exI [of _ i] exI [of _ s]) (auto simp: etharp_find_entry_def)
next
  case (Inr c)
  then have no: "\<forall>j < 10. \<not> matches (Some ip) (arp_table s ! j)" and c: "cands_ok (arp_table s) 10 c"
    using find_entry_search [OF arp_inv_heap(2) [OF inv], of "Some ip"] by simp_all
  obtain i h' where ch: "let s' = s\<lparr>eth_heap := h', arp_table := (arp_table s)[i := released (arp_table s ! i)]\<rparr> in
      choose_entry e c s = Some (Inr i, s') \<and> victim (arp_table s) i \<and> arp_inv_with s' (ass[i := []]) \<and>
      bytes h' = bytes (eth_heap s) \<and> pbufs h' = release_refs (pbufs (eth_heap s)) (ass ! i)"
    using choose_entry_spec [OF inv c e] by blast
  define s1 where "s1 = s\<lparr>eth_heap := h', arp_table := (arp_table s)[i := released (arp_table s ! i)]\<rparr>"
  define s' where "s' = s\<lparr>eth_heap := h', arp_table := (arp_table s)[i := recycled ip (arp_table s ! i)]\<rparr>"
  have ch: "choose_entry e c s = Some (Inr i, s1)" "victim (arp_table s) i" "arp_inv_with s1 (ass[i := []])"
      "bytes h' = bytes (eth_heap s)" "pbufs h' = release_refs (pbufs (eth_heap s)) (ass ! i)"
    using ch by (simp_all add: Let_def s1_def)
  have i: "i < 10" using ch(2) by (simp add: victim_def)
  note l = arp_inv_heap [OF inv]
  have "etharp_find_entry e (Some ip) ETHARP_FLAG_TRY_HARD s = Some (Inr i, s')"
    using Inr ch(1) i l(2)
    by (simp add: etharp_find_entry_def arp_get_def arp_upd_def s1_def s'_def released_def recycled_def)
  moreover have "arp_inv_with s' (ass[i := []])"
  proof -
    have "length (ass[i := []]) = 10" using ch(3) by (simp add: arp_inv_with_def queues_ok_def)
    then have "arp_inv_with s' (ass[i := [], i := []])"
      using i l arp_inv_heap [OF ch(3)]
      by (intro arp_inv_entry [OF ch(3) i, where en' = "recycled ip (arp_table s ! i)"])
        (auto simp: s1_def s'_def recycled_def entry_ok_def waiting_def)
    then show ?thesis by simp
  qed
  ultimately show ?thesis using no ch i
    by (intro exI [of _ i] exI [of _ s']) (auto simp: s'_def)
qed

lemma etharp_find_entry_only:
  assumes "length (arp_table s) = 10"
  shows "etharp_find_entry e (Some ip) ETHARP_FLAG_FIND_ONLY s =
     (case find (\<lambda>i. matches (Some ip) (arp_table s ! i)) [0..<10] of
        Some i \<Rightarrow> Some (Inr i, s) | None \<Rightarrow> Some (Inl ERR_MEM, s))"
proof (cases "find_entry_loop (Some ip) (arp_table s) 0 no_candidates")
  case (Inl i)
  then have i: "i < 10" "matches (Some ip) (arp_table s ! i)" "\<forall>j < i. \<not> matches (Some ip) (arp_table s ! j)"
    using find_entry_search [OF assms, of "Some ip"] by simp_all
  then have "find (\<lambda>i. matches (Some ip) (arp_table s ! i)) [0..<10] = Some i"
    by (auto simp: find_Some_iff)
  then show ?thesis using Inl by (simp add: etharp_find_entry_def)
next
  case (Inr c)
  then have "\<forall>j < 10. \<not> matches (Some ip) (arp_table s ! j)" using find_entry_search [OF assms, of "Some ip"] by simp
  then have "find (\<lambda>i. matches (Some ip) (arp_table s ! i)) [0..<10] = None" by (auto simp: find_None_iff)
  then show ?thesis using Inr by (simp add: etharp_find_entry_def)
qed

section \<open>Sending a packet\<close>

definition same_refs :: "heap \<Rightarrow> heap \<Rightarrow> nat \<Rightarrow> bool" where
  "same_refs h h' p \<longleftrightarrow>
     (\<forall>a. a \<noteq> p \<longrightarrow> pbufs h' a = pbufs h a) \<and>
     map_option (\<lambda>b. (pb_ref b, pbuf_owner b)) (pbufs h' p) = map_option (\<lambda>b. (pb_ref b, pbuf_owner b)) (pbufs h p)"

lemma same_refs_refl [simp]: "same_refs h h p"
  by (simp add: same_refs_def)

lemma owner_headed [simp]: "pbuf_owner (headed b) = pbuf_owner b" "pb_ref (headed b) = pb_ref b"
  by (simp_all add: headed_def pbuf_owner_def pbuf_get_allocsrc_def)

text \<open>The heap changes within the buffers \<open>S\<close> only: other buffers stay, and so do the bytes they own.\<close>

definition keeps_others :: "nat set \<Rightarrow> heap \<Rightarrow> heap \<Rightarrow> bool" where
  "keeps_others S h h' \<longleftrightarrow>
     (\<forall>a. a \<notin> S \<longrightarrow> pbufs h' a = pbufs h a \<and> (owned h [a] \<longrightarrow> pbytes h' a = pbytes h a))"

lemma keeps_others_refl [simp]: "keeps_others S h h"
  by (simp add: keeps_others_def)

lemma keeps_others_trans:
  "keeps_others S h h1 \<Longrightarrow> keeps_others T h1 h2 \<Longrightarrow> S \<subseteq> R \<Longrightarrow> T \<subseteq> R \<Longrightarrow> keeps_others R h h2"
  unfolding keeps_others_def owned_def by (metis in_mono list.set_intros(1) empty_iff set_ConsD set_empty)

lemma keeps_others_free:
  assumes "pbufs h' = release_refs (pbufs h) as" "bytes h' = bytes h"
  shows "keeps_others (set as) h h'"
  using assms by (simp add: keeps_others_def release_refs_other pbytes_def plen_def rd_def)

lemma keeps_others_writes:
  assumes "writes_only (- allocated h) h h'" "heap_inv h"
  shows "keeps_others S h h'"
proof -
  have "pbytes h' a = pbytes h a" if "owned h [a]" for a
  proof -
    have "payload_region h a \<subseteq> allocated h" using owned_region_allocated [OF assms(2) that] by (simp add: packet_region_def)
    then show ?thesis using writes_only_pbytes [OF assms(1), of a] by blast
  qed
  then show ?thesis using writes_only_simps(1) [OF assms(1)] by (simp add: keeps_others_def)
qed

lemma keeps_others_pdata:
  assumes "keeps_others S h h'" "owned h as" "set as \<inter> S = {}"
  shows "pdata h' as = pdata h as" "\<forall>a \<in> set as. pbufs h' a = pbufs h a"
proof -
  have "pbytes h' a = pbytes h a" if "a \<in> set as" for a
    using assms that by (auto simp: keeps_others_def owned_def)
  then show "pdata h' as = pdata h as" by (simp add: pdata_def cong: map_cong)
  show "\<forall>a \<in> set as. pbufs h' a = pbufs h a" using assms by (auto simp: keeps_others_def)
qed

lemma eth_header_apart:
  assumes p: "packet h p (p # as)" and own: "owned h [p]" and inv: "heap_inv h" and b: "pbufs h p = Some b"
    and room: "eth_room h p" and a: "owned h [a]" "a \<noteq> p"
  shows "{payload b - 14..<payload b} \<inter> payload_region h a = {}"
proof -
  let ?h1 = "h\<lparr>pbufs := (pbufs h)(p \<mapsto> headed b)\<rparr>"
  have r: "unat (tot_len b) + 14 < 65536" "p + 30 \<le> payload b" using room b by (auto simp: eth_room_def)
  have "unat (len b) \<le> unat (tot_len b)" using packet_tot_len [OF p b] b by (simp add: plen_Some)
  then have u: "unat (len b + 14) = unat (len b) + 14" using r(1) by (simp add: unat_word_ariths)
  have hi: "heap_inv ?h1"
    using u r(2) by (intro heap_inv_upd [OF inv b]) (auto simp: headed_def pbuf_owner_def pbuf_get_allocsrc_def)
  have ob: "pbuf_owner (headed b) = Own_pool \<or> pbuf_owner (headed b) = Own_heap" using own b by (auto simp: owned_def)
  obtain x where x: "pbufs h a = Some x" "pbuf_owner x = Own_pool \<or> pbuf_owner x = Own_heap"
    using a(1) by (auto simp: owned_def)
  have "payload_region ?h1 p \<inter> payload_region ?h1 a = {}"
    using owned_disjoint [OF hi, of p "headed b" a x] ob x a(2) by simp
  moreover have "{payload b - 14..<payload b} \<subseteq> payload_region ?h1 p"
    using u r(2) by (auto simp: payload_region_def plen_def headed_def)
  moreover have "payload_region ?h1 a = payload_region h a"
    using a(2) by (simp add: payload_region_def plen_def)
  ultimately show ?thesis by blast
qed

lemma ethernet_output_owned:
  assumes p: "packet (eth_heap s) p as" and own: "owned (eth_heap s) as" and inv: "heap_inv (eth_heap s)"
    and n: "netifs s n = Some nif" "hwaddr_len nif = 6" and len: "length src = 6" "length dst = 6"
    and frame: "frame = eth_frame dst src type (pdata (eth_heap s) as)"
  shows "\<exists>h'. ethernet_output e n p src dst type s =
       (if eth_room (eth_heap s) p
        then Some (linkoutput e n frame, s\<lparr>eth_heap := h', sent_frames := sent_frames s @ [(n, frame)]\<rparr>)
        else Some (ERR_BUF, s)) \<and>
     (eth_room (eth_heap s) p \<longrightarrow> heap_inv h' \<and> packet h' p as \<and> pdata h' as = frame \<and> same_refs (eth_heap s) h' p \<and>
        keeps_others {p} (eth_heap s) h')"
proof -
  obtain as' where as: "as = p # as'" using p by (cases as) (auto simp: packet_def)
  obtain b where b: "pbufs (eth_heap s) p = Some b" using p as by (auto simp: packet_def)
  define h' where "h' = write_bytes (payload b - 14) (dst @ src @ be16 type)
      ((eth_heap s)\<lparr>pbufs := (pbufs (eth_heap s))(p \<mapsto> headed b)\<rparr>)"
  show ?thesis
  proof (cases "eth_room (eth_heap s) p")
    case True
    have own1: "owned (eth_heap s) [p]" using own as by (simp add: owned_def)
    note apart = eth_header_apart [OF p [unfolded as] own1 inv b True]
    have dis: "{payload b - 14..<payload b} \<inter> packet_region (eth_heap s) as' = {}"
    proof -
      have "{payload b - 14..<payload b} \<inter> payload_region (eth_heap s) a = {}" if "a \<in> set as'" for a
        using apart [of a] that own as packet_head_fresh [OF p [unfolded as]] by (auto simp: owned_def)
      then show ?thesis by (auto simp: packet_region_def)
    qed
    have l14: "length (dst @ src @ be16 type) = 14" using len by simp
    note hp = eth_header_packet [OF p [unfolded as] True b inv dis l14 h'_def]
    have "same_refs (eth_heap s) h' p" using b by (simp add: same_refs_def h'_def)
    moreover have "keeps_others {p} (eth_heap s) h'"
    proof -
      have "14 \<le> payload b" using True b by (auto simp: eth_room_def)
      then have "pbytes h' a = pbytes (eth_heap s) a" if "owned (eth_heap s) [a]" "a \<noteq> p" for a
        using apart [OF that] that(2) l14
        by (auto simp: h'_def pbytes_def rd_def write_bytes_def payload_region_def plen_def)
      then show ?thesis by (simp add: keeps_others_def h'_def)
    qed
    ultimately show ?thesis
      using ethernet_output_packet [OF p [unfolded as] b inv dis n len frame [unfolded as] h'_def, of e] True hp as
      by (intro exI [of _ h']) (simp add: frame eth_frame_def)
  next
    case False
    then have "ethernet_output e n p src dst type s = Some (ERR_BUF, s)"
      using packet_first [OF p] pbuf_add_eth_header [OF b] by (simp add: ethernet_output_def Let_def)
    then show ?thesis using False by simp
  qed
qed

lemma same_refs_waiting:
  assumes w: "waiting h en as" "arp_q en = p" "p \<noteq> 0" and h': "packet h' p as" "same_refs h h' p"
  shows "waiting h' en as"
proof -
  have own: "owned h as" and ref: "\<forall>a \<in> set as. 0 < pb_ref (the (pbufs h a))" using w by (simp_all add: waiting_def)
  have same: "\<exists>b'. pbufs h' a = Some b' \<and> pb_ref b' = pb_ref b \<and> pbuf_owner b' = pbuf_owner b"
    if "pbufs h a = Some b" for a b
    using h'(2) that by (cases "a = p") (auto simp: same_refs_def)
  have "owned h' as" unfolding owned_def
  proof
    fix a assume "a \<in> set as"
    then obtain b where "pbufs h a = Some b" "pbuf_owner b = Own_pool \<or> pbuf_owner b = Own_heap"
      using own unfolding owned_def by blast
    then show "\<exists>b. pbufs h' a = Some b \<and> (pbuf_owner b = Own_pool \<or> pbuf_owner b = Own_heap)"
      using same by fastforce
  qed
  moreover have "\<forall>a \<in> set as. 0 < pb_ref (the (pbufs h' a))"
  proof
    fix a assume a: "a \<in> set as"
    then obtain b where "pbufs h a = Some b" using own unfolding owned_def by blast
    then show "0 < pb_ref (the (pbufs h' a))" using same [of a b] bspec [OF ref a] by auto
  qed
  ultimately show ?thesis using w(2,3) h'(1) unfolding waiting_def by simp
qed

section \<open>Resolving an entry\<close>

definition resolved :: "nat \<Rightarrow> eth_addr \<Rightarrow> etharp_entry \<Rightarrow> etharp_entry" where
  "resolved n mac en =
     en\<lparr>arp_state := ETHARP_STATE_STABLE, arp_netif := n, arp_ethaddr := mac, arp_ctime := 0, arp_q := 0\<rparr>"

text \<open>The frames that leave when the packet waiting for an entry is sent.\<close>

definition flushed :: "heap \<Rightarrow> nat \<Rightarrow> eth_addr \<Rightarrow> eth_addr \<Rightarrow> etharp_entry \<Rightarrow> nat list \<Rightarrow> (nat \<times> u8 list) list" where
  "flushed h n dst src en as =
     (if arp_q en \<noteq> 0 \<and> eth_room h (arp_q en) then [(n, eth_frame dst src ETHTYPE_IP (pdata h as))] else [])"

lemma flush_waiting:
  assumes w: "waiting (eth_heap s) en as" and q: "arp_q en \<noteq> 0" and inv: "heap_inv (eth_heap s)"
    and n: "netifs s n = Some nif" "hwaddr_len nif = 6" and len: "length src = 6" "length dst = 6"
    and e: "custom_free_ok (pb_env e)"
  shows "\<exists>r s1 h'. ethernet_output e n (arp_q en) src dst ETHTYPE_IP s = Some (r, s1) \<and>
     eth_pbuf_free e (arp_q en) s1 =
       Some (s\<lparr>eth_heap := h', sent_frames := sent_frames s @ flushed (eth_heap s) n dst src en as\<rparr>) \<and>
     heap_inv h' \<and> keeps_others (set as) (eth_heap s) h'"
proof -
  have p: "packet (eth_heap s) (arp_q en) as" "owned (eth_heap s) as" using w q by (simp_all add: waiting_def)
  define frame where "frame = eth_frame dst src ETHTYPE_IP (pdata (eth_heap s) as)"
  obtain h1 where h1: "ethernet_output e n (arp_q en) src dst ETHTYPE_IP s =
       (if eth_room (eth_heap s) (arp_q en)
        then Some (linkoutput e n frame, s\<lparr>eth_heap := h1, sent_frames := sent_frames s @ [(n, frame)]\<rparr>)
        else Some (ERR_BUF, s))"
     "eth_room (eth_heap s) (arp_q en) \<Longrightarrow>
        heap_inv h1 \<and> packet h1 (arp_q en) as \<and> pdata h1 as = frame \<and> same_refs (eth_heap s) h1 (arp_q en) \<and>
        keeps_others {arp_q en} (eth_heap s) h1"
    using ethernet_output_owned [OF p inv n len frame_def, of e] by blast
  define h2 where "h2 = (if eth_room (eth_heap s) (arp_q en) then h1 else eth_heap s)"
  have h2: "heap_inv h2" "waiting h2 en as" "keeps_others {arp_q en} (eth_heap s) h2"
    using h1(2) inv w same_refs_waiting [OF w refl q, of h1] by (auto simp: h2_def)
  obtain c h' where f: "pbuf_free (pb_env e) (arp_q en) h2 = Some (c, h')" "heap_inv h'"
      "bytes h' = bytes h2" "pbufs h' = release_refs (pbufs h2) as"
    using free_waiting [OF h2(2) q h2(1) e] by blast
  have "arp_q en \<in> set as" using waiting_nonempty [OF w q] by blast
  then have "keeps_others (set as) (eth_heap s) h'"
    using keeps_others_trans [OF h2(3) keeps_others_free [OF f(4,3)]] by blast
  then show ?thesis
    using h1(1) f(1,2) q
    by (cases "eth_room (eth_heap s) (arp_q en)")
      (auto simp: eth_pbuf_free_def h2_def flushed_def frame_def)
qed

lemma resolve_entry_spec:
  assumes inv: "arp_inv_with s ass" and i: "i < 10" and e: "custom_free_ok (pb_env e)"
    and n: "netifs s n = Some nif" "hwaddr_len nif = 6" and len: "length (hwaddr nif) = 6" "length mac = 6"
    and ip: "\<And>j. j < 10 \<Longrightarrow> j \<noteq> i \<Longrightarrow> arp_state (arp_table s ! j) \<noteq> ETHARP_STATE_EMPTY \<Longrightarrow>
               arp_ipaddr (arp_table s ! j) \<noteq> arp_ipaddr (arp_table s ! i)"
  shows "\<exists>h'. let s' = s\<lparr>eth_heap := h', arp_table := (arp_table s)[i := resolved n mac (arp_table s ! i)],
       sent_frames := sent_frames s @ flushed (eth_heap s) n mac (hwaddr nif) (arp_table s ! i) (ass ! i)\<rparr> in
     resolve_entry e n nif i mac s = Some (ERR_OK, s') \<and> arp_inv_with s' (ass[i := []]) \<and>
     keeps_others (set (ass ! i)) (eth_heap s) h'"
proof -
  let ?en = "arp_table s ! i"
  note g = arp_inv_get [OF inv i] and l = arp_inv_heap [OF inv]
  define s1 where "s1 = s\<lparr>arp_table := (arp_table s)[i := resolved n mac ?en]\<rparr>"
  define fl where "fl = flushed (eth_heap s) n mac (hwaddr nif) ?en (ass ! i)"
  obtain h' where h': "heap_inv h'" "keeps_others (set (ass ! i)) (eth_heap s) h'"
    and run: "resolve_entry e n nif i mac s = Some (ERR_OK, s1\<lparr>eth_heap := h', sent_frames := sent_frames s @ fl\<rparr>)"
  proof (cases "arp_q ?en = 0")
    case True
    then have "resolved n mac ?en = ?en\<lparr>arp_state := ETHARP_STATE_STABLE, arp_netif := n, arp_ethaddr := mac, arp_ctime := 0\<rparr>"
      by (cases ?en) (simp add: resolved_def)
    then have "resolve_entry e n nif i mac s = Some (ERR_OK, s1)"
      using True i l(2) by (simp add: resolve_entry_def arp_upd_def arp_get_def s1_def)
    moreover have "fl = []" using True by (simp add: fl_def flushed_def)
    ultimately show ?thesis using that [of "eth_heap s"] l(1) by (simp add: s1_def)
  next
    case False
    have s1: "eth_heap s1 = eth_heap s" "netifs s1 = netifs s" "sent_frames s1 = sent_frames s" by (simp_all add: s1_def)
    obtain r s2 h' where f: "ethernet_output e n (arp_q ?en) (hwaddr nif) mac ETHTYPE_IP s1 = Some (r, s2)"
        "eth_pbuf_free e (arp_q ?en) s2 = Some (s1\<lparr>eth_heap := h', sent_frames := sent_frames s @ fl\<rparr>)"
        "heap_inv h'" "keeps_others (set (ass ! i)) (eth_heap s) h'"
      using flush_waiting [of s1 ?en "ass ! i" n nif "hwaddr nif" mac e] g(3) False l(1) n len e s1 fl_def by auto
    have "arp_upd i (\<lambda>en. en\<lparr>arp_q := 0\<rparr>) (s\<lparr>arp_table := (arp_table s)[i := ?en\<lparr>arp_state := ETHARP_STATE_STABLE,
        arp_netif := n, arp_ethaddr := mac, arp_ctime := 0\<rparr>]\<rparr>) = Some s1"
      using i l(2) by (simp add: arp_upd_def arp_get_def s1_def resolved_def)
    then have "resolve_entry e n nif i mac s = Some (ERR_OK, s1\<lparr>eth_heap := h', sent_frames := sent_frames s @ fl\<rparr>)"
      using False f(1,2) i l(2) by (simp add: resolve_entry_def arp_upd_def arp_get_def)
    then show ?thesis using that f by blast
  qed
  have "arp_inv_with (s1\<lparr>eth_heap := h', sent_frames := sent_frames s @ fl\<rparr>) (ass[i := []])"
    using h' g(4) l(3) n len ip
    by (intro arp_inv_entry [OF inv i, where en' = "resolved n mac ?en"])
      (auto simp: resolved_def entry_ok_def waiting_def netif_ok_def s1_def keeps_others_def)
  then show ?thesis using run h'(2)
    by (intro exI [of _ h']) (simp add: Let_def s1_def fl_def)
qed

end
