(* ===== verification/Etharp_Cache.thy ===== *)
theory Etharp_Cache
  imports Etharp_Inv
begin

text \<open>
  The ARP cache as a bounded map from IP to Ethernet addresses: an abstract contract (a locale), what
  follows from it for every client, and its interpretation on \<^verbatim>\<open>etharp_update_arp_entry\<close>,
  \<^verbatim>\<open>etharp_find_addr\<close> and \<^verbatim>\<open>etharp_tmr\<close>.
\<close>

section \<open>Updating\<close>

definition new_mapping :: "nat \<Rightarrow> u32 \<Rightarrow> eth_addr \<Rightarrow> etharp_entry \<Rightarrow> etharp_entry" where
  "new_mapping n ip mac en = resolved n mac (en\<lparr>arp_ipaddr := ip\<rparr>)"

definition update_result ::
    "nat \<Rightarrow> u32 \<Rightarrow> eth_addr \<Rightarrow> eth_addr \<Rightarrow> eth_state \<Rightarrow> nat list list \<Rightarrow> nat \<Rightarrow> eth_state \<Rightarrow> bool" where
  "update_result n ip mac src s ass i s' \<longleftrightarrow>
     i < 10 \<and> arp_inv_with s' (ass[i := []]) \<and>
     (\<exists>h'. s' = s\<lparr>eth_heap := h', arp_table := (arp_table s)[i := new_mapping n ip mac (arp_table s ! i)],
        sent_frames := sent_frames s @
          (if matches (Some ip) (arp_table s ! i)
           then flushed (eth_heap s) n mac src (arp_table s ! i) (ass ! i) else [])\<rparr> \<and>
        keeps_others (set (ass ! i)) (eth_heap s) h')"

lemma update_matching:
  assumes inv: "arp_inv_with s ass" and i: "i < 10" "matches (Some ip) (arp_table s ! i)"
    and e: "custom_free_ok (pb_env e)"
    and n: "netifs s n = Some nif" "hwaddr_len nif = 6" "length (hwaddr nif) = 6" "length mac = 6"
  shows "\<exists>s'. resolve_entry e n nif i mac s = Some (ERR_OK, s') \<and> update_result n ip mac (hwaddr nif) s ass i s'"
proof -
  have un: "arp_ipaddr (arp_table s ! j) \<noteq> arp_ipaddr (arp_table s ! i)"
    if "j < 10" "j \<noteq> i" "arp_state (arp_table s ! j) \<noteq> ETHARP_STATE_EMPTY" for j
    using inv i that by (auto simp: arp_inv_with_def matches_def)
  have "new_mapping n ip mac (arp_table s ! i) = resolved n mac (arp_table s ! i)"
    using i(2) by (cases "arp_table s ! i") (simp add: new_mapping_def matches_def)
  then show ?thesis
    using resolve_entry_spec [OF inv i(1) e n un] i
    by (auto simp: update_result_def Let_def)
qed

lemma update_recycled:
  assumes inv: "arp_inv_with s ass" and no: "\<forall>j < 10. \<not> matches (Some ip) (arp_table s ! j)" and i: "i < 10"
    and s1: "s1 = s\<lparr>eth_heap := h1, arp_table := (arp_table s)[i := recycled ip (arp_table s ! i)]\<rparr>"
      "arp_inv_with s1 (ass[i := []])" "keeps_others (set (ass ! i)) (eth_heap s) h1"
    and e: "custom_free_ok (pb_env e)"
    and n: "netifs s n = Some nif" "hwaddr_len nif = 6" "length (hwaddr nif) = 6" "length mac = 6"
  shows "\<exists>s'. resolve_entry e n nif i mac s1 = Some (ERR_OK, s') \<and> update_result n ip mac (hwaddr nif) s ass i s'"
proof -
  note l = arp_inv_heap [OF inv]
  have en: "arp_table s1 ! i = recycled ip (arp_table s ! i)" using i l(2) by (simp add: s1(1))
  have un: "arp_ipaddr (arp_table s1 ! j) \<noteq> arp_ipaddr (arp_table s1 ! i)"
    if "j < 10" "j \<noteq> i" "arp_state (arp_table s1 ! j) \<noteq> ETHARP_STATE_EMPTY" for j
    using no that en by (auto simp: s1(1) matches_def recycled_def)
  have n1: "netifs s1 n = Some nif" using n(1) by (simp add: s1(1))
  have "new_mapping n ip mac (arp_table s ! i) = resolved n mac (recycled ip (arp_table s ! i))"
    by (cases "arp_table s ! i") (simp add: new_mapping_def resolved_def recycled_def)
  moreover have "flushed h n mac (hwaddr nif) (recycled ip en) as = []" for h en as
    by (simp add: flushed_def recycled_def)
  moreover have "\<not> matches (Some ip) (arp_table s ! i)" using no i by blast
  moreover have "keeps_others (set (ass ! i)) (eth_heap s) h'"
    if "keeps_others (set (ass[i := []] ! i)) (eth_heap s1) h'" for h'
    using keeps_others_trans [OF s1(3), of "set (ass[i := []] ! i)" h' "set (ass ! i)"] that i inv
    by (auto simp: s1(1) arp_inv_with_def queues_ok_def)
  ultimately show ?thesis
    using resolve_entry_spec [OF s1(2) i e n1 n(2-4) un] i en
    unfolding update_result_def Let_def by (fastforce simp: s1(1))
qed

lemma etharp_update_hard:
  assumes inv: "arp_inv_with s ass" and e: "custom_free_ok (pb_env e)"
    and n: "netifs s n = Some nif" "hwaddr_len nif = 6" "length (hwaddr nif) = 6" "length mac = 6"
    and ip: "\<not> not_unicast ip nif"
  shows "\<exists>i s'. etharp_update_arp_entry e n ip mac ETHARP_FLAG_TRY_HARD s = Some (ERR_OK, s') \<and>
     update_result n ip mac (hwaddr nif) s ass i s' \<and>
     (if \<exists>j < 10. matches (Some ip) (arp_table s ! j) then matches (Some ip) (arp_table s ! i) else victim (arp_table s) i)"
proof -
  obtain i s1 where f: "etharp_find_entry e (Some ip) ETHARP_FLAG_TRY_HARD s = Some (Inr i, s1)" "i < 10"
    and c: "if \<exists>j < 10. matches (Some ip) (arp_table s ! j) then s1 = s \<and> matches (Some ip) (arp_table s ! i)
      else victim (arp_table s) i \<and> (\<exists>h'. s1 = s\<lparr>eth_heap := h', arp_table := (arp_table s)[i := recycled ip (arp_table s ! i)]\<rparr> \<and>
        arp_inv_with s1 (ass[i := []]) \<and> bytes h' = bytes (eth_heap s) \<and> pbufs h' = release_refs (pbufs (eth_heap s)) (ass ! i))"
    using etharp_find_entry_hard [OF inv e, of ip] by blast
  have "etharp_update_arp_entry e n ip mac ETHARP_FLAG_TRY_HARD s = resolve_entry e n nif i mac s1"
    using f n ip by (simp add: etharp_update_arp_entry_def)
  moreover have "\<exists>s'. resolve_entry e n nif i mac s1 = Some (ERR_OK, s') \<and> update_result n ip mac (hwaddr nif) s ass i s'"
  proof (cases "\<exists>j < 10. matches (Some ip) (arp_table s ! j)")
    case True
    then show ?thesis using c update_matching [OF inv f(2) _ e n] by auto
  next
    case False
    then obtain h1 where "s1 = s\<lparr>eth_heap := h1, arp_table := (arp_table s)[i := recycled ip (arp_table s ! i)]\<rparr>"
        "arp_inv_with s1 (ass[i := []])" "keeps_others (set (ass ! i)) (eth_heap s) h1"
      using c keeps_others_free unfolding if_not_P [OF False] by blast
    then show ?thesis using update_recycled [OF inv _ f(2) _ _ _ e n] False by blast
  qed
  ultimately show ?thesis using c f(2) by (auto split: if_splits)
qed

lemma etharp_update_only:
  assumes inv: "arp_inv_with s ass" and e: "custom_free_ok (pb_env e)"
    and n: "netifs s n = Some nif" "hwaddr_len nif = 6" "length (hwaddr nif) = 6" "length mac = 6"
    and ip: "\<not> not_unicast ip nif"
  shows "if \<exists>j < 10. matches (Some ip) (arp_table s ! j)
     then \<exists>i s'. etharp_update_arp_entry e n ip mac ETHARP_FLAG_FIND_ONLY s = Some (ERR_OK, s') \<and>
            update_result n ip mac (hwaddr nif) s ass i s' \<and> matches (Some ip) (arp_table s ! i)
     else etharp_update_arp_entry e n ip mac ETHARP_FLAG_FIND_ONLY s = Some (ERR_MEM, s)"
proof (cases "find (\<lambda>i. matches (Some ip) (arp_table s ! i)) [0..<10]")
  case None
  then have "\<not> (\<exists>j < 10. matches (Some ip) (arp_table s ! j))" by (auto simp: find_None_iff)
  then show ?thesis
    using n ip None etharp_find_entry_only [OF arp_inv_heap(2) [OF inv], of e ip]
    by (simp add: etharp_update_arp_entry_def)
next
  case (Some i)
  then have i: "i < 10" "matches (Some ip) (arp_table s ! i)" by (auto simp: find_Some_iff)
  then have "etharp_update_arp_entry e n ip mac ETHARP_FLAG_FIND_ONLY s = resolve_entry e n nif i mac s"
    using n ip Some etharp_find_entry_only [OF arp_inv_heap(2) [OF inv], of e ip]
    by (simp add: etharp_update_arp_entry_def)
  then show ?thesis using i update_matching [OF inv i e n] by auto
qed

section \<open>The cache as a map\<close>

definition arp_map :: "eth_state \<Rightarrow> u32 \<rightharpoonup> eth_addr" where
  "arp_map s ip =
     map_option arp_ethaddr
       (find (\<lambda>en. arp_state en \<ge> ETHARP_STATE_STABLE \<and> arp_ipaddr en = ip) (arp_table s))"

lemma arp_map_iff:
  assumes "arp_inv_with s ass"
  shows "arp_map s ip = Some mac \<longleftrightarrow>
     (\<exists>i < 10. arp_state (arp_table s ! i) \<ge> ETHARP_STATE_STABLE \<and> arp_ipaddr (arp_table s ! i) = ip \<and>
        arp_ethaddr (arp_table s ! i) = mac)"
    (is "?l \<longleftrightarrow> ?r")
proof
  assume ?l
  then show ?r using arp_inv_heap(2) [OF assms] by (auto simp: arp_map_def find_Some_iff)
next
  assume ?r
  then obtain i where i: "i < 10" "arp_state (arp_table s ! i) \<ge> ETHARP_STATE_STABLE" "arp_ipaddr (arp_table s ! i) = ip"
      "arp_ethaddr (arp_table s ! i) = mac" by blast
  have "\<not> (arp_state (arp_table s ! j) \<ge> ETHARP_STATE_STABLE \<and> arp_ipaddr (arp_table s ! j) = ip)" if "j < i" for j
    using assms i that by (auto simp: arp_inv_with_def)
  then have "find (\<lambda>en. arp_state en \<ge> ETHARP_STATE_STABLE \<and> arp_ipaddr en = ip) (arp_table s) = Some (arp_table s ! i)"
    using i arp_inv_heap(2) [OF assms] unfolding find_Some_iff by (intro exI [of _ i]) auto
  then show ?l using i(4) by (simp add: arp_map_def)
qed

lemma etharp_find_addr_map:
  assumes inv: "arp_inv_with s ass"
  shows "\<exists>r. etharp_find_addr e ip s = Some (r, s) \<and> map_option (\<lambda>(i, mac, a). mac) r = arp_map s ip \<and>
     (\<forall>i mac a. r = Some (i, mac, a) \<longrightarrow> a = ip)"
proof (cases "find (\<lambda>i. matches (Some ip) (arp_table s ! i)) [0..<10]")
  case None
  then have no: "\<not> matches (Some ip) (arp_table s ! j)" if "j < 10" for j using that by (auto simp: find_None_iff)
  have "arp_map s ip \<noteq> Some mac" for mac using no arp_map_iff [OF inv, of ip mac] by (auto simp: matches_def)
  then have "arp_map s ip = None" by (cases "arp_map s ip") auto
  then show ?thesis using None etharp_find_entry_only [OF arp_inv_heap(2) [OF inv], of e ip]
    by (intro exI [of _ None]) (simp add: etharp_find_addr_def)
next
  case (Some i)
  then have i: "i < 10" "matches (Some ip) (arp_table s ! i)" by (auto simp: find_Some_iff)
  note g = arp_inv_get [OF inv i(1)]
  have ip: "arp_ipaddr (arp_table s ! i) = ip" "arp_state (arp_table s ! i) \<noteq> ETHARP_STATE_EMPTY"
    using i(2) by (auto simp: matches_def)
  show ?thesis
  proof (cases "arp_state (arp_table s ! i) \<ge> ETHARP_STATE_STABLE")
    case True
    then have "arp_map s ip = Some (arp_ethaddr (arp_table s ! i))" using arp_map_iff [OF inv] i(1) ip(1) by blast
    then show ?thesis using Some g(1) True ip(1) etharp_find_entry_only [OF arp_inv_heap(2) [OF inv], of e ip]
      by (intro exI [of _ "Some (i, arp_ethaddr (arp_table s ! i), ip)"]) (simp add: etharp_find_addr_def)
  next
    case False
    have "arp_map s ip \<noteq> Some mac" for mac
    proof
      assume "arp_map s ip = Some mac"
      then obtain j where "j < 10" "arp_state (arp_table s ! j) \<ge> ETHARP_STATE_STABLE" "arp_ipaddr (arp_table s ! j) = ip"
        using arp_map_iff [OF inv] by blast
      then show False using inv i(1) ip False by (cases "j = i") (auto simp: arp_inv_with_def)
    qed
    then have "arp_map s ip = None" by (cases "arp_map s ip") auto
    then show ?thesis using Some g(1) False etharp_find_entry_only [OF arp_inv_heap(2) [OF inv], of e ip]
      by (intro exI [of _ None]) (simp add: etharp_find_addr_def)
  qed
qed

text \<open>What the cache forgets when the entry \<open>en\<close> is recycled.\<close>

definition forgets :: "etharp_entry \<Rightarrow> u32 \<Rightarrow> bool" where
  "forgets en ip \<longleftrightarrow> arp_state en \<ge> ETHARP_STATE_STABLE \<and> arp_ipaddr en = ip"

lemma option_eqI: "(\<And>x. a = Some x \<longleftrightarrow> b = Some x) \<Longrightarrow> a = b"
  by (cases a; cases b) auto

lemma update_map:
  assumes inv: "arp_inv_with s ass" and u: "update_result n ip mac src s ass i s'"
  shows "arp_map s' = (\<lambda>ip'. if ip' = ip then Some mac else if forgets (arp_table s ! i) ip' then None else arp_map s ip')"
proof (intro ext option_eqI)
  fix ip' mac'
  have i: "i < 10" and inv': "arp_inv_with s' (ass[i := []])" using u by (auto simp: update_result_def)
  have t: "arp_table s' = (arp_table s)[i := new_mapping n ip mac (arp_table s ! i)]"
    using u by (auto simp: update_result_def)
  note l = arp_inv_heap(2) [OF inv]
  have other: "arp_table s' ! j = arp_table s ! j" if "j \<noteq> i" for j using that by (simp add: t)
  have self: "arp_table s' ! i = new_mapping n ip mac (arp_table s ! i)" using i l by (simp add: t)
  have st: "arp_state (arp_table s' ! i) = ETHARP_STATE_STABLE" "arp_ipaddr (arp_table s' ! i) = ip"
      "arp_ethaddr (arp_table s' ! i) = mac"
    unfolding self by (simp_all add: new_mapping_def resolved_def)
  show "arp_map s' ip' = Some mac' \<longleftrightarrow>
      (if ip' = ip then Some mac else if forgets (arp_table s ! i) ip' then None else arp_map s ip') = Some mac'"
  proof (cases "ip' = ip")
    case True
    have "arp_map s' ip = Some mac" using arp_map_iff [OF inv'] st i by auto
    then show ?thesis using True by simp
  next
    case False
    have un: "arp_ipaddr (arp_table s ! j) \<noteq> ip'" if "forgets (arp_table s ! i) ip'" "j < 10" "j \<noteq> i"
        "arp_state (arp_table s ! j) \<noteq> ETHARP_STATE_EMPTY" for j
      using inv that i by (auto simp: arp_inv_with_def forgets_def)
    have "arp_map s' ip' = Some mac' \<longleftrightarrow> (\<exists>j < 10. j \<noteq> i \<and> arp_state (arp_table s ! j) \<ge> ETHARP_STATE_STABLE \<and>
        arp_ipaddr (arp_table s ! j) = ip' \<and> arp_ethaddr (arp_table s ! j) = mac')"
      using arp_map_iff [OF inv', of ip' mac'] other st False i by metis
    also have "\<dots> \<longleftrightarrow> \<not> forgets (arp_table s ! i) ip' \<and> arp_map s ip' = Some mac'"
      using arp_map_iff [OF inv, of ip' mac'] un by (auto simp: forgets_def)
    finally show ?thesis using False by auto
  qed
qed

section \<open>Ageing\<close>

definition aged :: "etharp_entry \<Rightarrow> etharp_entry" where
  "aged en =
     (if arp_state en = ETHARP_STATE_EMPTY then en
      else let en = en\<lparr>arp_ctime := arp_ctime en + 1\<rparr> in
        if arp_ctime en \<ge> ARP_MAXAGE \<or> (arp_state en = ETHARP_STATE_PENDING \<and> arp_ctime en \<ge> ARP_MAXPENDING) then released en
        else if arp_state en = ETHARP_STATE_STABLE_REREQUESTING_1 then en\<lparr>arp_state := ETHARP_STATE_STABLE_REREQUESTING_2\<rparr>
        else if arp_state en = ETHARP_STATE_STABLE_REREQUESTING_2 then en\<lparr>arp_state := ETHARP_STATE_STABLE\<rparr>
        else en)"

lemma aged_entry_ok: "entry_ok en \<Longrightarrow> entry_ok (aged en)"
  by (auto simp: entry_ok_def aged_def released_def Let_def not_le)

lemma aged_facts:
  "arp_state (aged en) \<noteq> ETHARP_STATE_EMPTY \<Longrightarrow> arp_state en \<noteq> ETHARP_STATE_EMPTY \<and> arp_q (aged en) = arp_q en"
  "arp_ipaddr (aged en) = arp_ipaddr en" "arp_netif (aged en) = arp_netif en" "arp_ethaddr (aged en) = arp_ethaddr en"
  "arp_state (aged en) \<ge> ETHARP_STATE_STABLE \<Longrightarrow> arp_state en \<ge> ETHARP_STATE_STABLE"
  by (auto simp: aged_def released_def Let_def split: if_splits)

text \<open>One iteration of the timer: the entry ages, an expired one is released with its packet, and
  for a pending one a new request is sent if there is memory for it.\<close>

definition expires :: "etharp_entry \<Rightarrow> bool" where
  "expires en \<longleftrightarrow>
     arp_ctime en + 1 \<ge> ARP_MAXAGE \<or> (arp_state en = ETHARP_STATE_PENDING \<and> arp_ctime en + 1 \<ge> ARP_MAXPENDING)"

lemma etharp_tmr_entry_expired:
  assumes inv: "arp_inv_with s ass" and i: "i < 10" and e: "custom_free_ok (pb_env e)"
    and en: "arp_state (arp_table s ! i) \<noteq> ETHARP_STATE_EMPTY" "expires (arp_table s ! i)"
  shows "\<exists>s' ass'. etharp_tmr_entry e i s = Some s' \<and> arp_inv_with s' ass' \<and> netifs s' = netifs s \<and>
     etharp_cached_entry s' = etharp_cached_entry s \<and> arp_table s' = (arp_table s)[i := aged (arp_table s ! i)]"
proof -
  let ?en = "arp_table s ! i"
  define en1 where "en1 = ?en\<lparr>arp_ctime := arp_ctime ?en + 1\<rparr>"
  note l = arp_inv_heap [OF inv]
  have "etharp_tmr_entry e i s = etharp_free_entry e i (s\<lparr>arp_table := (arp_table s)[i := en1]\<rparr>)"
    using en i l(2) by (auto simp: etharp_tmr_entry_def arp_upd_def arp_get_def en1_def expires_def)
  moreover have "aged ?en = released en1" using en by (auto simp: aged_def expires_def en1_def Let_def)
  ultimately show ?thesis
    using etharp_free_entry_any [OF inv i e, of en1]
    by (auto simp: Let_def en1_def intro!: exI [of _ "ass[i := []]"])
qed

lemma etharp_tmr_entry_kept:
  assumes inv: "arp_inv_with s ass" and i: "i < 10" and e: "malloc_ok (pb_env e)"
    and en: "arp_state (arp_table s ! i) \<noteq> ETHARP_STATE_EMPTY" "\<not> expires (arp_table s ! i)"
  shows "\<exists>s'. etharp_tmr_entry e i s = Some s' \<and> arp_inv_with s' ass \<and> netifs s' = netifs s \<and>
     etharp_cached_entry s' = etharp_cached_entry s \<and> arp_table s' = (arp_table s)[i := aged (arp_table s ! i)]"
proof -
  let ?en = "arp_table s ! i"
  note g = arp_inv_get [OF inv i] and l = arp_inv_heap [OF inv]
  define s2 where "s2 = s\<lparr>arp_table := (arp_table s)[i := aged ?en]\<rparr>"
  have "entry_ok (aged ?en)" using aged_entry_ok [OF g(2)] .
  moreover have "arp_state (aged ?en) \<noteq> ETHARP_STATE_EMPTY" "arp_q (aged ?en) = arp_q ?en"
    using en by (auto simp: aged_def expires_def Let_def)
  ultimately have inv2: "arp_inv_with s2 (ass[i := ass ! i])"
    using g l i inv en(1)
    by (intro arp_inv_entry [OF inv i, where en' = "aged ?en"])
      (auto simp: s2_def waiting_def aged_facts arp_inv_with_def)
  then have inv2: "arp_inv_with s2 ass" by simp
  show ?thesis
  proof (cases "arp_state ?en = ETHARP_STATE_PENDING")
    case True
    have "netif_ok s (arp_netif ?en)" using inv i en(1) by (auto simp: arp_inv_with_def)
    then obtain nif where "link_ok s2 (arp_netif ?en) nif" using l(1) by (auto simp: netif_ok_def link_ok_def s2_def)
    then obtain r s' where rq: "etharp_request e (arp_netif ?en) (arp_ipaddr ?en) s2 = Some (r, s')"
        "arp_sent e (arp_netif ?en) (arp_frame (hwaddr nif) ethbroadcast (hwaddr nif) (ip_addr nif) ethzero (arp_ipaddr ?en) 1) s2 r s'"
      using etharp_requests_sent(2) [OF _ e] by blast
    have "aged ?en = ?en\<lparr>arp_ctime := arp_ctime ?en + 1\<rparr>" using True en by (auto simp: aged_def expires_def Let_def)
    then have "etharp_tmr_entry e i s = Some s'"
      using True en rq(1) i l(2) by (auto simp: etharp_tmr_entry_def arp_upd_def arp_get_def expires_def s2_def)
    then show ?thesis using arp_inv_sent [OF rq(2) inv2] arp_sent_keeps [OF rq(2)] by (auto simp: s2_def)
  next
    case False
    then have "etharp_tmr_entry e i s = Some s2"
      using en i l(2) by (auto simp: etharp_tmr_entry_def arp_upd_def arp_get_def expires_def s2_def aged_def Let_def)
    then show ?thesis using inv2 by (simp add: s2_def)
  qed
qed

lemma etharp_tmr_entry_spec:
  assumes inv: "arp_inv_with s ass" and i: "i < 10" and e: "custom_free_ok (pb_env e)" "malloc_ok (pb_env e)"
  shows "\<exists>s' ass'. etharp_tmr_entry e i s = Some s' \<and> arp_inv_with s' ass' \<and> netifs s' = netifs s \<and>
     etharp_cached_entry s' = etharp_cached_entry s \<and> arp_table s' = (arp_table s)[i := aged (arp_table s ! i)]"
proof (cases "arp_state (arp_table s ! i) = ETHARP_STATE_EMPTY")
  case True
  then have "etharp_tmr_entry e i s = Some s" "aged (arp_table s ! i) = arp_table s ! i"
    using arp_inv_get(1) [OF inv i] by (simp_all add: etharp_tmr_entry_def aged_def)
  then show ?thesis using inv by auto
next
  case False
  then show ?thesis
    using etharp_tmr_entry_expired [OF inv i e(1)] etharp_tmr_entry_kept [OF inv i e(2)] by blast
qed

text \<open>A loop over the table whose body replaces the entry it visits.\<close>

lemma for_table_spec:
  assumes body: "\<And>i s. i < 10 \<Longrightarrow> P s \<Longrightarrow> length (arp_table s) = 10 \<Longrightarrow>
      \<exists>s'. body i s = Some s' \<and> P s' \<and> arp_table s' = (arp_table s)[i := f (arp_table s ! i)]"
    and "k \<le> 10" "P s" "length (arp_table s) = 10"
  shows "\<exists>s'. for_table body k s = Some s' \<and> P s' \<and> arp_table s' = take k (arp_table s) @ map f (drop k (arp_table s))"
  using assms(2-)
proof (induction "10 - k" arbitrary: k s)
  case 0
  then show ?case by (simp add: for_table.simps [of body 10])
next
  case (Suc d)
  then have k: "k < 10" by simp
  obtain s1 where s1: "body k s = Some s1" "P s1" "arp_table s1 = (arp_table s)[k := f (arp_table s ! k)]"
    using body [OF k Suc.prems(2,3)] by blast
  have "d = 10 - Suc k" "Suc k \<le> 10" "length (arp_table s1) = 10" using Suc.hyps(2) k s1(3) Suc.prems(3) by simp_all
  then obtain s' where s': "for_table body (Suc k) s1 = Some s'" "P s'"
      "arp_table s' = take (Suc k) (arp_table s1) @ map f (drop (Suc k) (arp_table s1))"
    using Suc.hyps(1) s1(2) by blast
  have "take (Suc k) (arp_table s1) = take k (arp_table s) @ [f (arp_table s ! k)]"
    "drop (Suc k) (arp_table s1) = drop (Suc k) (arp_table s)"
    using s1(3) k Suc.prems(3) by (simp_all add: take_Suc_conv_app_nth)
  moreover have "drop k (arp_table s) = arp_table s ! k # drop (Suc k) (arp_table s)"
    using k Suc.prems(3) by (simp add: Cons_nth_drop_Suc)
  ultimately have "arp_table s' = take k (arp_table s) @ map f (drop k (arp_table s))" using s'(3) by simp
  then show ?case using k s1(1) s'(1,2) by (subst for_table.simps) simp
qed

lemma etharp_tmr_spec:
  assumes "arp_inv s" "custom_free_ok (pb_env e)" "malloc_ok (pb_env e)"
  shows "\<exists>s'. etharp_tmr e s = Some s' \<and> arp_inv s' \<and> netifs s' = netifs s \<and> arp_table s' = map aged (arp_table s)"
proof -
  have "length (arp_table s) = 10" using assms(1) arp_inv_heap(2) by (auto simp: arp_inv_def)
  moreover have "\<exists>s2. etharp_tmr_entry e i s1 = Some s2 \<and> (arp_inv s2 \<and> netifs s2 = netifs s) \<and>
      arp_table s2 = (arp_table s1)[i := aged (arp_table s1 ! i)]"
    if "i < 10" "arp_inv s1 \<and> netifs s1 = netifs s" for i s1
  proof -
    obtain ass where "arp_inv_with s1 ass" using \<open>arp_inv s1 \<and> _\<close> by (auto simp: arp_inv_def)
    from etharp_tmr_entry_spec [OF this \<open>i < 10\<close> assms(2,3)] that(2) show ?thesis unfolding arp_inv_def by metis
  qed
  ultimately show ?thesis
    using for_table_spec [of "\<lambda>s'. arp_inv s' \<and> netifs s' = netifs s" "etharp_tmr_entry e" aged 0 s] assms(1)
    by (simp add: etharp_tmr_def)
qed

section \<open>The life of an entry\<close>

fun etharp_tmr_n :: "eth_env \<Rightarrow> nat \<Rightarrow> eth_state \<Rightarrow> eth_state option" where
  "etharp_tmr_n e 0 s = Some s"
| "etharp_tmr_n e (Suc k) s = Option.bind (etharp_tmr_n e k s) (etharp_tmr e)"

lemma etharp_tmr_n_spec:
  assumes "arp_inv s" "custom_free_ok (pb_env e)" "malloc_ok (pb_env e)"
  shows "\<exists>s'. etharp_tmr_n e k s = Some s' \<and> arp_inv s' \<and> netifs s' = netifs s \<and> arp_table s' = map (aged ^^ k) (arp_table s)"
proof (induction k)
  case 0
  then show ?case using assms(1) by simp
next
  case (Suc k)
  then obtain s1 where s1: "etharp_tmr_n e k s = Some s1" "arp_inv s1" "netifs s1 = netifs s"
      "arp_table s1 = map (aged ^^ k) (arp_table s)" by blast
  then show ?case using etharp_tmr_spec [OF s1(2) assms(2,3)] by auto
qed

lemma unat_Suc_u16: "unat c + 1 < 65536 \<Longrightarrow> unat (c + 1 :: u16) = unat c + 1"
  by (simp add: unat_word_ariths)

lemma u16_le_300 [simp]: "(300 \<le> (c :: u16)) = (300 \<le> unat c)" "(5 \<le> (c :: u16)) = (5 \<le> unat c)"
  "((c :: u16) < 300) = (unat c < 300)" "((c :: u16) < 5) = (unat c < 5)"
  by (simp_all add: word_le_nat_alt word_less_nat_alt)

lemma aged_dead: "arp_state en = ETHARP_STATE_EMPTY \<Longrightarrow> (aged ^^ k) en = en"
  by (induction k) (simp_all add: aged_def)

lemma aged_stable:
  assumes "arp_state en \<ge> ETHARP_STATE_STABLE" "unat (arp_ctime en) < 300"
  shows "if unat (arp_ctime en) + k < 300
     then arp_state ((aged ^^ k) en) \<ge> ETHARP_STATE_STABLE \<and> unat (arp_ctime ((aged ^^ k) en)) = unat (arp_ctime en) + k
     else arp_state ((aged ^^ k) en) = ETHARP_STATE_EMPTY"
proof (induction k)
  case (Suc k)
  define x where "x = (aged ^^ k) en"
  have x: "if unat (arp_ctime en) + k < 300
      then arp_state x \<ge> ETHARP_STATE_STABLE \<and> unat (arp_ctime x) = unat (arp_ctime en) + k
      else arp_state x = ETHARP_STATE_EMPTY" using Suc unfolding x_def .
  have "arp_state x \<ge> ETHARP_STATE_STABLE \<Longrightarrow> unat (arp_ctime x) < 300 \<Longrightarrow>
      (if unat (arp_ctime x) + 1 < 300 then arp_state (aged x) \<ge> ETHARP_STATE_STABLE \<and> arp_ctime (aged x) = arp_ctime x + 1
       else arp_state (aged x) = ETHARP_STATE_EMPTY)"
    by (auto simp: aged_def Let_def unat_Suc_u16 released_def)
  then show ?case using x aged_dead [of x 1] by (auto simp: x_def [symmetric] unat_Suc_u16 split: if_splits)
qed (use assms in simp)

lemma aged_pending:
  assumes "arp_state en = ETHARP_STATE_PENDING" "unat (arp_ctime en) < 5"
  shows "if unat (arp_ctime en) + k < 5
     then arp_state ((aged ^^ k) en) = ETHARP_STATE_PENDING \<and> unat (arp_ctime ((aged ^^ k) en)) = unat (arp_ctime en) + k
     else arp_state ((aged ^^ k) en) = ETHARP_STATE_EMPTY"
proof (induction k)
  case (Suc k)
  define x where "x = (aged ^^ k) en"
  have x: "if unat (arp_ctime en) + k < 5
      then arp_state x = ETHARP_STATE_PENDING \<and> unat (arp_ctime x) = unat (arp_ctime en) + k
      else arp_state x = ETHARP_STATE_EMPTY" using Suc unfolding x_def .
  have "arp_state x = ETHARP_STATE_PENDING \<Longrightarrow> unat (arp_ctime x) < 5 \<Longrightarrow>
      (if unat (arp_ctime x) + 1 < 5 then arp_state (aged x) = ETHARP_STATE_PENDING \<and> arp_ctime (aged x) = arp_ctime x + 1
       else arp_state (aged x) = ETHARP_STATE_EMPTY)"
    by (auto simp: aged_def Let_def unat_Suc_u16 released_def)
  then show ?case using x aged_dead [of x 1] by (auto simp: x_def [symmetric] unat_Suc_u16 split: if_splits)
qed (use assms in simp)

section \<open>The contract of an address cache\<close>

datatype ('k, 'v) cache_event = Learn 'k 'v | Age

text \<open>The value learned last for a key.\<close>

fun latest :: "('k, 'v) cache_event list \<Rightarrow> 'k \<Rightarrow> 'v option" where
  "latest [] k = None"
| "latest (Learn k' v # es) k = (case latest es k of Some w \<Rightarrow> Some w | None \<Rightarrow> if k = k' then Some v else None)"
| "latest (Age # es) k = latest es k"

locale address_cache =
  fixes inv :: "'s \<Rightarrow> bool" and lookup :: "'s \<Rightarrow> 'k \<Rightarrow> 'v option" and accepts :: "'k \<Rightarrow> 'v \<Rightarrow> bool"
    and learn :: "'k \<Rightarrow> 'v \<Rightarrow> 's \<Rightarrow> 's option" and age :: "'s \<Rightarrow> 's option"
  assumes learn_ok: "inv s \<Longrightarrow> accepts k v \<Longrightarrow>
      \<exists>s'. learn k v s = Some s' \<and> inv s' \<and> lookup s' k = Some v \<and>
        (\<forall>k'. k' \<noteq> k \<longrightarrow> lookup s' k' = lookup s k' \<or> lookup s' k' = None)"
    and age_ok: "inv s \<Longrightarrow> \<exists>s'. age s = Some s' \<and> inv s' \<and> (\<forall>k. lookup s' k = lookup s k \<or> lookup s' k = None)"
begin

fun run :: "('k, 'v) cache_event list \<Rightarrow> 's \<Rightarrow> 's option" where
  "run [] s = Some s"
| "run (Learn k v # es) s = Option.bind (learn k v s) (run es)"
| "run (Age # es) s = Option.bind (age s) (run es)"

definition accepted :: "('k, 'v) cache_event list \<Rightarrow> bool" where
  "accepted es \<longleftrightarrow> (\<forall>k v. Learn k v \<in> set es \<longrightarrow> accepts k v)"

text \<open>Whatever the cache forgets, what it answers is what was learned last.\<close>

lemma run_sound:
  "inv s \<Longrightarrow> accepted es \<Longrightarrow>
   \<exists>s'. run es s = Some s' \<and> inv s' \<and>
     (\<forall>k v. lookup s' k = Some v \<longrightarrow> (case latest es k of Some w \<Rightarrow> v = w | None \<Rightarrow> lookup s k = Some v))"
proof (induction es arbitrary: s)
  case (Cons ev es)
  have acc: "accepted es" using Cons.prems(2) by (simp add: accepted_def)
  show ?case
  proof (cases ev)
    case (Learn k v)
    then have "accepts k v" using Cons.prems(2) by (simp add: accepted_def)
    then obtain s1 where s1: "learn k v s = Some s1" "inv s1" "lookup s1 k = Some v"
        "\<And>k'. k' \<noteq> k \<Longrightarrow> lookup s1 k' = lookup s k' \<or> lookup s1 k' = None"
      using learn_ok [OF Cons.prems(1)] by blast
    obtain s' where s': "run es s1 = Some s'" "inv s'"
        "\<And>k v. lookup s' k = Some v \<Longrightarrow> (case latest es k of Some w \<Rightarrow> v = w | None \<Rightarrow> lookup s1 k = Some v)"
      using Cons.IH [OF s1(2) acc] by blast
    have "case latest (ev # es) k' of Some w \<Rightarrow> v' = w | None \<Rightarrow> lookup s k' = Some v'" if "lookup s' k' = Some v'" for k' v'
      using s'(3) [OF that] s1(3) s1(4) [of k'] Learn by (auto split: option.splits)
    then show ?thesis using s'(1,2) s1(1) Learn by auto
  next
    case Age
    then obtain s1 where s1: "age s = Some s1" "inv s1" "\<And>k. lookup s1 k = lookup s k \<or> lookup s1 k = None"
      using age_ok [OF Cons.prems(1)] by blast
    obtain s' where s': "run es s1 = Some s'" "inv s'"
        "\<And>k v. lookup s' k = Some v \<Longrightarrow> (case latest es k of Some w \<Rightarrow> v = w | None \<Rightarrow> lookup s1 k = Some v)"
      using Cons.IH [OF s1(2) acc] by blast
    have "case latest (ev # es) k' of Some w \<Rightarrow> v' = w | None \<Rightarrow> lookup s k' = Some v'" if "lookup s' k' = Some v'" for k' v'
      using s'(3) [OF that] s1(3) [of k'] Age by (auto split: option.splits)
    then show ?thesis using s'(1,2) s1(1) Age by auto
  qed
qed simp

end

text \<open>The ARP cache of the stack keeps this contract.\<close>

definition arp_ready :: "eth_env \<Rightarrow> nat \<Rightarrow> netif \<Rightarrow> eth_state \<Rightarrow> bool" where
  "arp_ready e n nif s \<longleftrightarrow>
     arp_inv s \<and> custom_free_ok (pb_env e) \<and> malloc_ok (pb_env e) \<and>
     netifs s n = Some nif \<and> hwaddr_len nif = 6 \<and> length (hwaddr nif) = 6"

definition arp_accepts :: "netif \<Rightarrow> u32 \<Rightarrow> eth_addr \<Rightarrow> bool" where
  "arp_accepts nif ip mac \<longleftrightarrow> \<not> not_unicast ip nif \<and> length mac = 6"

definition arp_learn :: "eth_env \<Rightarrow> nat \<Rightarrow> u32 \<Rightarrow> eth_addr \<Rightarrow> eth_state \<Rightarrow> eth_state option" where
  "arp_learn e n ip mac s = map_option snd (etharp_update_arp_entry e n ip mac ETHARP_FLAG_TRY_HARD s)"

lemma arp_learn_ok:
  assumes "arp_ready e n nif s" "arp_accepts nif ip mac"
  shows "\<exists>s'. etharp_update_arp_entry e n ip mac ETHARP_FLAG_TRY_HARD s = Some (ERR_OK, s') \<and> arp_ready e n nif s' \<and>
     arp_map s' ip = Some mac \<and> (\<forall>ip'. ip' \<noteq> ip \<longrightarrow> arp_map s' ip' = arp_map s ip' \<or> arp_map s' ip' = None)"
proof -
  obtain ass where inv: "arp_inv_with s ass" using assms(1) by (auto simp: arp_ready_def arp_inv_def)
  obtain i s' where u: "etharp_update_arp_entry e n ip mac ETHARP_FLAG_TRY_HARD s = Some (ERR_OK, s')"
      "update_result n ip mac (hwaddr nif) s ass i s'"
    using etharp_update_hard [OF inv, of e n nif mac ip] assms by (auto simp: arp_ready_def arp_accepts_def)
  have "arp_inv s'" "netifs s' = netifs s" using u(2) by (auto simp: update_result_def arp_inv_def)
  then show ?thesis using u(1) update_map [OF inv u(2)] assms(1) by (auto simp: arp_ready_def)
qed

lemma aged_map:
  assumes "arp_inv_with s ass" "arp_inv_with s' ass'" "arp_table s' = map aged (arp_table s)"
  shows "arp_map s' ip = arp_map s ip \<or> arp_map s' ip = None"
proof (cases "arp_map s' ip")
  case (Some mac)
  then obtain i where "i < 10" "arp_state (arp_table s' ! i) \<ge> ETHARP_STATE_STABLE" "arp_ipaddr (arp_table s' ! i) = ip"
      "arp_ethaddr (arp_table s' ! i) = mac" using arp_map_iff [OF assms(2)] by blast
  moreover from this have "arp_table s' ! i = aged (arp_table s ! i)" using assms(3) arp_inv_heap(2) [OF assms(1)] by simp
  ultimately have "arp_map s ip = Some mac"
    using arp_map_iff [OF assms(1), of ip mac] aged_facts [of "arp_table s ! i"] by auto
  then show ?thesis using Some by simp
qed simp

interpretation arp: address_cache "arp_ready e n nif" arp_map "arp_accepts nif" "arp_learn e n" "etharp_tmr e"
  for e n nif
proof
  fix s ip mac
  assume "arp_ready e n nif s" "arp_accepts nif ip mac"
  then show "\<exists>s'. arp_learn e n ip mac s = Some s' \<and> arp_ready e n nif s' \<and> arp_map s' ip = Some mac \<and>
      (\<forall>ip'. ip' \<noteq> ip \<longrightarrow> arp_map s' ip' = arp_map s ip' \<or> arp_map s' ip' = None)"
    using arp_learn_ok by (fastforce simp: arp_learn_def)
next
  fix s
  assume r: "arp_ready e n nif s"
  then obtain s' where s': "etharp_tmr e s = Some s'" "arp_inv s'" "netifs s' = netifs s" "arp_table s' = map aged (arp_table s)"
    using etharp_tmr_spec by (auto simp: arp_ready_def)
  obtain ass ass' where "arp_inv_with s ass" "arp_inv_with s' ass'"
    using r s'(2) by (auto simp: arp_ready_def arp_inv_def)
  then have "arp_map s' ip = arp_map s ip \<or> arp_map s' ip = None" for ip
    using s'(4) by (rule aged_map)
  then show "\<exists>s'. etharp_tmr e s = Some s' \<and> arp_ready e n nif s' \<and> (\<forall>ip. arp_map s' ip = arp_map s ip \<or> arp_map s' ip = None)"
    using s' r by (auto simp: arp_ready_def)
qed

end
