(* ===== verification/Etharp_Flow.thy ===== *)
theory Etharp_Flow
  imports Etharp_Cache
begin

text \<open>
  The paths of packets through the ARP cache: a packet for an address that is not resolved waits in the
  table, and the arrival of the address sends it; an ARP request for the interface's address is
  answered; an address conflict module that sees no conflict does nothing.
\<close>

section \<open>Queueing a packet\<close>

text \<open>A packet that \<^verbatim>\<open>etharp_query\<close> can keep by taking another reference.\<close>

definition sendable :: "heap \<Rightarrow> nat \<Rightarrow> nat list \<Rightarrow> bool" where
  "sendable h q as \<longleftrightarrow>
     packet h q as \<and> owned h as \<and> no_empty_tail h as \<and>
     (\<forall>a \<in> set as. 0 < pb_ref (the (pbufs h a)) \<and> type_internal (the (pbufs h a)) AND 0x40 = 0) \<and>
     pb_ref (the (pbufs h q)) \<noteq> 255"

lemma copy_not_needed:
  assumes "pchain h p as" "totals_ok h as" "no_empty_tail h as"
    "\<forall>a \<in> set as. type_internal (the (pbufs h a)) AND 0x40 = 0"
  shows "copy_needed_loop h p = Some False"
  using assms
proof (induction as arbitrary: p)
  case Nil
  then show ?case by (simp add: copy_needed_loop.simps [of h 0])
next
  case (Cons a as)
  then obtain b where b: "p = a" "a \<noteq> 0" "pbufs h a = Some b" "pchain h (pb_next b) as" by auto
  have "len b \<noteq> tot_len b \<or> pb_next b = 0"
  proof (cases "as = []")
    case True
    then show ?thesis using b(4) by simp
  next
    case False
    then have "0 < length (pdata h as)"
      using Cons.prems(3) last_le_pdata [OF False, of h] by (auto simp: no_empty_tail_def)
    moreover have "unat (tot_len b) = unat (len b) + length (pdata h as)" using Cons.prems(2) b(3) by (simp add: plen_Some)
    ultimately show ?thesis by auto
  qed
  moreover have "copy_needed_loop h (pb_next b) = Some False"
    using Cons.IH [OF b(4)] Cons.prems no_empty_tail_tl by auto
  ultimately show ?case using b Cons.prems(4) by (subst copy_needed_loop.simps) simp
qed

lemma take_over_ref:
  assumes snd: "sendable (eth_heap s) q as" and inv: "heap_inv (eth_heap s)"
  shows "\<exists>h'. take_over e q s = Some (q, s\<lparr>eth_heap := h'\<rparr>) \<and> heap_inv h' \<and> packet h' q as \<and> owned h' as \<and>
     (\<forall>a \<in> set as. 0 < pb_ref (the (pbufs h' a))) \<and> pdata h' as = pdata (eth_heap s) as \<and>
     eth_room h' q = eth_room (eth_heap s) q \<and> keeps_others {q} (eth_heap s) h'"
proof -
  let ?h = "eth_heap s"
  have p: "packet ?h q as" "owned ?h as" "no_empty_tail ?h as" using snd by (simp_all add: sendable_def)
  obtain as' where as: "as = q # as'" using p(1) by (cases as) (auto simp: packet_def)
  obtain b where b: "pbufs ?h q = Some b" using p(1) as by (auto simp: packet_def)
  have q: "q \<noteq> 0" using packet_first [OF p(1)] by blast
  have cn: "copy_needed_loop ?h q = Some False"
    using copy_not_needed [of ?h q as] snd by (simp add: sendable_def packet_def)
  define b' where "b' = b\<lparr>pb_ref := pb_ref b + 1\<rparr>"
  define h' where "h' = ?h\<lparr>pbufs := (pbufs ?h)(q \<mapsto> b')\<rparr>"
  have r: "pb_ref b \<noteq> 255" "0 < pb_ref b" using snd b as by (auto simp: sendable_def)
  then have r': "0 < pb_ref b'"
    using pbuf_ref_incr [OF inv b r(1)] q b by (auto simp: b'_def pbuf_ref_def Let_def split: if_splits)
  have run: "take_over e q s = Some (q, s\<lparr>eth_heap := h'\<rparr>)" and inv': "heap_inv h'"
    using cn pbuf_ref_incr [OF inv b r(1)] by (auto simp: take_over_def h'_def b'_def)
  have pn: "q \<notin> set as'" using packet_head_fresh p(1) as by blast
  have t: "unat (tot_len b') = unat (len b') + length (pdata ?h as')"
    using packet_tot_len [OF p(1) b] b as by (simp add: b'_def plen_Some)
  have pk: "packet h' q as" "pdata h' as = pdata ?h as"
    using packet_upd_first [OF p(1) [unfolded as] h'_def b _ t] b by (simp_all add: as b'_def pbytes_def plen_Some)
  moreover have "owned h' as" using p(2) b by (auto simp: owned_def h'_def b'_def)
  moreover have "\<forall>a \<in> set as. 0 < pb_ref (the (pbufs h' a))" using snd r' by (auto simp: sendable_def h'_def)
  moreover have "eth_room h' q = eth_room ?h q" using b by (simp add: eth_room_def h'_def b'_def)
  moreover have "keeps_others {q} ?h h'" by (auto simp: keeps_others_def h'_def pbytes_def plen_def rd_def)
  ultimately show ?thesis using run inv' by blast
qed

definition apart :: "nat list list \<Rightarrow> nat list \<Rightarrow> bool" where
  "apart ass as \<longleftrightarrow> (\<forall>i < 10. set (ass ! i) \<inter> set as = {})"

lemma apartD: "apart ass as \<Longrightarrow> i < 10 \<Longrightarrow> a \<in> set (ass ! i) \<Longrightarrow> a \<notin> set as"
  unfolding apart_def by blast

text \<open>The new packet is taken over, and the packet that waited before is released.\<close>

lemma query_packet_run:
  assumes inv: "arp_inv_with s ass" and i: "i < 10" and st: "arp_state (arp_table s ! i) = ETHARP_STATE_PENDING"
    and ap: "apart ass as" and q: "q \<in> set as" "q \<noteq> 0"
    and e: "custom_free_ok (pb_env e)" and n: "netifs s n = Some nif"
    and h1: "take_over e q s = Some (q, s\<lparr>eth_heap := h1\<rparr>)" "heap_inv h1" "keeps_others {q} (eth_heap s) h1"
  shows "\<exists>h'. heap_inv h' \<and> bytes h' = bytes h1 \<and> pbufs h' = release_refs (pbufs h1) (ass ! i) \<and>
     query_packet e n q i r s =
       Some (ERR_OK, s\<lparr>eth_heap := h', arp_table := (arp_table s)[i := (arp_table s ! i)\<lparr>arp_q := q\<rparr>]\<rparr>)"
proof -
  let ?en = "arp_table s ! i"
  note g = arp_inv_get [OF inv i] and l = arp_inv_heap [OF inv]
  show ?thesis
  proof (cases "arp_q ?en = 0")
    case True
    then have "ass ! i = []" using g(3) by (simp add: waiting_def)
    moreover have "query_packet e n q i r s = Some (ERR_OK, s\<lparr>eth_heap := h1, arp_table := (arp_table s)[i := ?en\<lparr>arp_q := q\<rparr>]\<rparr>)"
      using True st g(1) h1(1) q(2) n i l(2) by (simp add: query_packet_def arp_upd_def arp_get_def)
    ultimately show ?thesis using h1(2) by (intro exI [of _ h1]) simp
  next
    case False
    have "\<forall>a \<in> set (ass ! i). pbufs h1 a = pbufs (eth_heap s) a"
    proof
      fix a assume "a \<in> set (ass ! i)"
      then have "a \<noteq> q" using apartD [OF ap i] q(1) by blast
      then show "pbufs h1 a = pbufs (eth_heap s) a" using h1(3) by (simp add: keeps_others_def)
    qed
    then have "waiting h1 ?en (ass ! i)" using g(3) waiting_frame by blast
    from free_waiting [OF this False h1(2) e] obtain c h' where
      f: "pbuf_free (pb_env e) (arp_q ?en) h1 = Some (c, h')" "heap_inv h'" "bytes h' = bytes h1"
      "pbufs h' = release_refs (pbufs h1) (ass ! i)" by blast
    then have "query_packet e n q i r s = Some (ERR_OK, s\<lparr>eth_heap := h', arp_table := (arp_table s)[i := ?en\<lparr>arp_q := q\<rparr>]\<rparr>)"
      using False st g(1) h1(1) q(2) n i l(2) by (simp add: query_packet_def eth_pbuf_free_def arp_upd_def arp_get_def)
    then show ?thesis using f by blast
  qed
qed

lemma query_packet_queues:
  assumes inv: "arp_inv_with s ass" and i: "i < 10" and st: "arp_state (arp_table s ! i) = ETHARP_STATE_PENDING"
    and snd: "sendable (eth_heap s) q as" and ap: "apart ass as"
    and e: "custom_free_ok (pb_env e)" and n: "netifs s n = Some nif"
  shows "\<exists>h'. let s' = s\<lparr>eth_heap := h', arp_table := (arp_table s)[i := (arp_table s ! i)\<lparr>arp_q := q\<rparr>]\<rparr> in
     query_packet e n q i r s = Some (ERR_OK, s') \<and> arp_inv_with s' (ass[i := as]) \<and>
     pdata h' as = pdata (eth_heap s) as \<and> eth_room h' q = eth_room (eth_heap s) q"
proof -
  let ?en = "arp_table s ! i"
  note g = arp_inv_get [OF inv i] and l = arp_inv_heap [OF inv]
  obtain h1 where h1: "take_over e q s = Some (q, s\<lparr>eth_heap := h1\<rparr>)" "heap_inv h1" "packet h1 q as" "owned h1 as"
      "\<forall>a \<in> set as. 0 < pb_ref (the (pbufs h1 a))" "pdata h1 as = pdata (eth_heap s) as"
      "eth_room h1 q = eth_room (eth_heap s) q" "keeps_others {q} (eth_heap s) h1"
    using take_over_ref [OF snd l(1)] by blast
  have qa: "q \<in> set as" "q \<noteq> 0" using packet_first [OF h1(3)] by blast+
  obtain h' where h': "heap_inv h'" "bytes h' = bytes h1" "pbufs h' = release_refs (pbufs h1) (ass ! i)"
    and run: "query_packet e n q i r s = Some (ERR_OK, s\<lparr>eth_heap := h', arp_table := (arp_table s)[i := ?en\<lparr>arp_q := q\<rparr>]\<rparr>)"
    using query_packet_run [OF inv i st ap qa e n h1(1,2,8)] by blast
  have same: "\<forall>a \<in> set as. pbufs h' a = pbufs h1 a"
    using h'(3) apartD [OF ap i] release_refs_other [of _ "ass ! i"] by metis
  have w: "waiting h' (?en\<lparr>arp_q := q\<rparr>) as"
    using packet_pbufs_frame [OF same] h1(3-5) same qa(2) by (simp add: waiting_def)
  have "pdata h' as = pdata (eth_heap s) as"
    using keeps_others_pdata(1) [OF keeps_others_free [OF h'(3,2)] h1(4)] h1(6) apartD [OF ap i] by auto
  moreover have "eth_room h' q = eth_room (eth_heap s) q" using h1(7) same qa(1) by (simp add: eth_room_def)
  moreover have "arp_inv_with (s\<lparr>eth_heap := h', arp_table := (arp_table s)[i := ?en\<lparr>arp_q := q\<rparr>]\<rparr>) (ass[i := as])"
  proof (rule arp_inv_entry [OF inv i])
    show "entry_ok (?en\<lparr>arp_q := q\<rparr>)" using g(2) st by (simp add: entry_ok_def)
    show "pbufs (eth_heap (s\<lparr>eth_heap := h', arp_table := (arp_table s)[i := ?en\<lparr>arp_q := q\<rparr>]\<rparr>)) a = pbufs (eth_heap s) a \<and> a \<notin> set as"
      if "j < 10" "j \<noteq> i" "a \<in> set (ass ! j)" for j a
    proof -
      have "a \<notin> set as" "a \<noteq> q" using apartD [OF ap that(1,3)] qa(1) by blast+
      then show ?thesis using h'(3) h1(8) g(4) [OF that] by (simp add: release_refs_other keeps_others_def)
    qed
  qed (use h' w l inv i st in \<open>auto simp: arp_inv_with_def\<close>)
  ultimately show ?thesis using run by (intro exI [of _ h']) (simp add: Let_def)
qed

section \<open>Queries\<close>

lemma arp_sent_frames:
  assumes "arp_sent e n frame s r s'"
  shows "\<exists>fs. s' = s\<lparr>eth_heap := eth_heap s', sent_frames := sent_frames s @ fs\<rparr> \<and> (fs = [] \<or> fs = [(n, frame)])"
proof (cases "libc_malloc (pb_env e) (eth_heap s) 60 = 0")
  case True
  then show ?thesis using assms by (intro exI [of _ "[]"]) (simp add: arp_sent_def)
next
  case False
  then show ?thesis using assms by (intro exI [of _ "[(n, frame)]"]) (auto simp: arp_sent_def)
qed

lemma sendable_frame:
  assumes "\<forall>a \<in> set as. pbufs h' a = pbufs h a" "sendable h q as"
  shows "sendable h' q as"
proof -
  have p: "packet h q as" using assms(2) by (simp add: sendable_def)
  then have "q \<in> set as" "last as \<in> set as" using packet_first [OF p] by (auto simp: packet_def)
  then have "no_empty_tail h' as = no_empty_tail h as" "pbufs h' q = pbufs h q"
    using assms(1) by (simp_all add: no_empty_tail_def plen_def)
  then show ?thesis using assms packet_pbufs_frame [OF assms(1)] by (simp add: sendable_def)
qed

lemma pending_inv:
  assumes inv: "arp_inv_with s ass" and i: "i < 10"
    and en: "arp_state (arp_table s ! i) = ETHARP_STATE_EMPTY" "arp_ctime (arp_table s ! i) = 0"
    and ip: "\<And>j. j < 10 \<Longrightarrow> j \<noteq> i \<Longrightarrow> arp_state (arp_table s ! j) \<noteq> ETHARP_STATE_EMPTY \<Longrightarrow>
         arp_ipaddr (arp_table s ! j) \<noteq> arp_ipaddr (arp_table s ! i)"
    and n: "netif_ok s n"
  shows "arp_inv_with (s\<lparr>arp_table := (arp_table s)[i := (arp_table s ! i)\<lparr>arp_state := ETHARP_STATE_PENDING, arp_netif := n\<rparr>]\<rparr>) ass"
proof -
  note g = arp_inv_get [OF inv i] and l = arp_inv_heap [OF inv]
  have "arp_q (arp_table s ! i) = 0" using g(2) en(1) by (auto simp: entry_ok_def)
  then have "arp_inv_with (s\<lparr>arp_table := (arp_table s)[i := (arp_table s ! i)\<lparr>arp_state := ETHARP_STATE_PENDING, arp_netif := n\<rparr>]\<rparr>)
      (ass[i := ass ! i])"
    using g l en n ip
    by (intro arp_inv_entry [OF inv i, where en' = "(arp_table s ! i)\<lparr>arp_state := ETHARP_STATE_PENDING, arp_netif := n\<rparr>"])
      (auto simp: entry_ok_def waiting_def)
  then show ?thesis by simp
qed

text \<open>A query for an address that is being resolved already: only the packet changes hands.\<close>

lemma etharp_query_pending:
  assumes inv: "arp_inv_with s ass" and i: "i < 10" "matches (Some ip) (arp_table s ! i)"
    and st: "arp_state (arp_table s ! i) = ETHARP_STATE_PENDING"
    and snd: "sendable (eth_heap s) q as" "apart ass as" and e: "custom_free_ok (pb_env e)"
    and n: "netifs s n = Some nif" and ip: "\<not> not_unicast ip nif"
  shows "\<exists>h'. let s' = s\<lparr>eth_heap := h', arp_table := (arp_table s)[i := (arp_table s ! i)\<lparr>arp_q := q\<rparr>]\<rparr> in
     etharp_query e n ip q s = Some (ERR_OK, s') \<and> arp_inv_with s' (ass[i := as]) \<and>
     pdata h' as = pdata (eth_heap s) as \<and> eth_room h' q = eth_room (eth_heap s) q"
proof -
  have q: "q \<noteq> 0" using snd packet_first by (auto simp: sendable_def)
  obtain k s1 where f: "etharp_find_entry e (Some ip) ETHARP_FLAG_TRY_HARD s = Some (Inr k, s1)" "k < 10"
    and c: "s1 = s" "matches (Some ip) (arp_table s ! k)"
    using etharp_find_entry_hard [OF inv e, of ip] i by (auto split: if_splits)
  have "k = i" using inv i f(2) c(2) by (auto simp: arp_inv_with_def matches_def)
  then have "etharp_query e n ip q s = query_packet e n q i ERR_MEM s"
    using f c(1) n ip st q i(1) arp_inv_get(1) [OF inv i(1)] by (simp add: etharp_query_def)
  then show ?thesis using query_packet_queues [OF inv i(1) st snd e n] by simp
qed

text \<open>A query for an address that is not in the table: an entry is recycled, a request is sent if there is
  memory for it, and the packet waits.\<close>

lemma etharp_query_new:
  assumes inv: "arp_inv_with s ass" and no: "\<forall>j < 10. \<not> matches (Some ip) (arp_table s ! j)"
    and snd: "sendable (eth_heap s) q as" "apart ass as" and e: "custom_free_ok (pb_env e)" "malloc_ok (pb_env e)"
    and n: "netifs s n = Some nif" "hwaddr_len nif = 6" "length (hwaddr nif) = 6" and ip: "\<not> not_unicast ip nif"
  shows "\<exists>i h' fs. let s' = s\<lparr>eth_heap := h', arp_table := (arp_table s)[i := (recycled ip (arp_table s ! i))\<lparr>
         arp_state := ETHARP_STATE_PENDING, arp_netif := n, arp_q := q\<rparr>], sent_frames := sent_frames s @ fs\<rparr> in
     etharp_query e n ip q s = Some (ERR_OK, s') \<and> victim (arp_table s) i \<and> arp_inv_with s' (ass[i := as]) \<and>
     pdata h' as = pdata (eth_heap s) as \<and> eth_room h' q = eth_room (eth_heap s) q \<and>
     (fs = [] \<or> fs = [(n, arp_frame (hwaddr nif) ethbroadcast (hwaddr nif) (ip_addr nif) ethzero ip ARP_REQUEST)])"
proof -
  have q: "q \<noteq> 0" "q \<in> set as" using snd(1) packet_first by (auto simp: sendable_def)
  obtain i h1 where f: "etharp_find_entry e (Some ip) ETHARP_FLAG_TRY_HARD s =
        Some (Inr i, s\<lparr>eth_heap := h1, arp_table := (arp_table s)[i := recycled ip (arp_table s ! i)]\<rparr>)"
      "i < 10" "victim (arp_table s) i"
      "arp_inv_with (s\<lparr>eth_heap := h1, arp_table := (arp_table s)[i := recycled ip (arp_table s ! i)]\<rparr>) (ass[i := []])"
      "bytes h1 = bytes (eth_heap s)" "pbufs h1 = release_refs (pbufs (eth_heap s)) (ass ! i)"
    using etharp_find_entry_hard [OF inv e(1), of ip] no by (auto split: if_splits)
  note l = arp_inv_heap [OF inv]
  define s1 where "s1 = s\<lparr>eth_heap := h1, arp_table := (arp_table s)[i := recycled ip (arp_table s ! i)]\<rparr>"
  define en where "en = (recycled ip (arp_table s ! i))\<lparr>arp_state := ETHARP_STATE_PENDING, arp_netif := n\<rparr>"
  define s2 where "s2 = s\<lparr>eth_heap := h1, arp_table := (arp_table s)[i := en]\<rparr>"
  have k1: "keeps_others (set (ass ! i)) (eth_heap s) h1" using keeps_others_free [OF f(6,5)] .
  have t1: "arp_table s1 ! i = recycled ip (arp_table s ! i)" "s1\<lparr>arp_table := (arp_table s1)[i := en]\<rparr> = s2"
    using f(2) l(2) by (simp_all add: s1_def s2_def)
  have "arp_ipaddr (arp_table s1 ! j) \<noteq> arp_ipaddr (arp_table s1 ! i)"
    if "j < 10" "j \<noteq> i" "arp_state (arp_table s1 ! j) \<noteq> ETHARP_STATE_EMPTY" for j
    using no that unfolding t1 by (auto simp: s1_def matches_def recycled_def)
  then have inv2: "arp_inv_with s2 (ass[i := []])"
    using pending_inv [OF f(4) [folded s1_def] f(2), of n] t1 n
    by (auto simp: recycled_def en_def netif_ok_def s1_def)
  have "link_ok s2 n nif" using arp_inv_heap(1) [OF inv2] n by (simp add: link_ok_def s2_def)
  then obtain r s3 where rq: "etharp_request e n ip s2 = Some (r, s3)"
      "arp_sent e n (arp_frame (hwaddr nif) ethbroadcast (hwaddr nif) (ip_addr nif) ethzero ip ARP_REQUEST) s2 r s3"
    using etharp_requests_sent(2) [OF _ e(2)] by blast
  note k = arp_sent_keeps [OF rq(2)]
  have inv3: "arp_inv_with s3 (ass[i := []])" using arp_inv_sent [OF rq(2) inv2] .
  have k3: "keeps_others (set (ass ! i)) (eth_heap s) (eth_heap s3)"
    using keeps_others_trans [OF k1, of "set (ass ! i)" "eth_heap s3"] keeps_others_writes [OF k(1)] arp_inv_heap(1) [OF inv2]
    by (simp add: s2_def)
  have ap: "set as \<inter> set (ass ! i) = {}" using snd(2) f(2) by (auto simp: apart_def)
  have kp: "pdata (eth_heap s3) as = pdata (eth_heap s) as" "\<forall>a \<in> set as. pbufs (eth_heap s3) a = pbufs (eth_heap s) a"
    using keeps_others_pdata [OF k3 _ ap] snd(1) by (auto simp: sendable_def)
  have snd3: "sendable (eth_heap s3) q as" using sendable_frame [OF kp(2) snd(1)] .
  have ap3: "apart (ass[i := []]) as" using snd(2) f(2) inv by (auto simp: apart_def nth_list_update arp_inv_with_def queues_ok_def)
  have t3: "arp_table s3 ! i = en" using k(4) f(2) l(2) by (simp add: s2_def)
  have "arp_state en = ETHARP_STATE_PENDING" by (simp add: en_def)
  then obtain h' where h': "query_packet e n q i r s3 = Some (ERR_OK, s3\<lparr>eth_heap := h', arp_table := (arp_table s3)[i := en\<lparr>arp_q := q\<rparr>]\<rparr>)"
      "arp_inv_with (s3\<lparr>eth_heap := h', arp_table := (arp_table s3)[i := en\<lparr>arp_q := q\<rparr>]\<rparr>) (ass[i := [], i := as])"
      "pdata h' as = pdata (eth_heap s) as" "eth_room h' q = eth_room (eth_heap s) q"
    using query_packet_queues [OF inv3 f(2) _ snd3 ap3 e(1), of n nif r] t3 n(1) k(2) kp q(2)
    by (auto simp: Let_def s2_def eth_room_def)
  have run: "etharp_query e n ip q s = query_packet e n q i r s3"
    using f(1,2) n ip q(1) rq(1) l(2) by (simp add: etharp_query_def arp_get_def arp_upd_def recycled_def s2_def en_def)
  obtain fs h3 where fs: "s3 = s2\<lparr>eth_heap := h3, sent_frames := sent_frames s @ fs\<rparr>"
      "fs = [] \<or> fs = [(n, arp_frame (hwaddr nif) ethbroadcast (hwaddr nif) (ip_addr nif) ethzero ip ARP_REQUEST)]"
    using arp_sent_frames [OF rq(2)] by (auto simp: s2_def)
  have "s3\<lparr>eth_heap := h', arp_table := (arp_table s3)[i := en\<lparr>arp_q := q\<rparr>]\<rparr> =
      s\<lparr>eth_heap := h', arp_table := (arp_table s)[i := en\<lparr>arp_q := q\<rparr>], sent_frames := sent_frames s @ fs\<rparr>"
    by (simp add: fs(1) s2_def)
  then show ?thesis using run h' f(3) fs(2)
    by (intro exI [of _ i] exI [of _ h'] exI [of _ fs]) (simp add: Let_def en_def)
qed

section \<open>Delivery\<close>

lemma etharp_query_waits:
  assumes inv: "arp_inv_with s ass" and un: "arp_map s ip = None"
    and snd: "sendable (eth_heap s) q as" "apart ass as" and e: "custom_free_ok (pb_env e)" "malloc_ok (pb_env e)"
    and n: "netifs s n = Some nif" "hwaddr_len nif = 6" "length (hwaddr nif) = 6" and ip: "\<not> not_unicast ip nif"
  shows "\<exists>i s' fs. etharp_query e n ip q s = Some (ERR_OK, s') \<and> i < 10 \<and> arp_inv_with s' (ass[i := as]) \<and>
     matches (Some ip) (arp_table s' ! i) \<and> arp_q (arp_table s' ! i) = q \<and> netifs s' = netifs s \<and>
     sent_frames s' = sent_frames s @ fs \<and>
     (fs = [] \<or> fs = [(n, arp_frame (hwaddr nif) ethbroadcast (hwaddr nif) (ip_addr nif) ethzero ip ARP_REQUEST)]) \<and>
     pdata (eth_heap s') as = pdata (eth_heap s) as \<and> eth_room (eth_heap s') q = eth_room (eth_heap s) q"
proof (cases "\<exists>j < 10. matches (Some ip) (arp_table s ! j)")
  case True
  then obtain i where i: "i < 10" "matches (Some ip) (arp_table s ! i)" by blast
  then have "arp_state (arp_table s ! i) = ETHARP_STATE_PENDING"
    using un arp_map_iff [OF inv, of ip] by (fastforce simp: matches_def)
  then obtain h' where "etharp_query e n ip q s =
        Some (ERR_OK, s\<lparr>eth_heap := h', arp_table := (arp_table s)[i := (arp_table s ! i)\<lparr>arp_q := q\<rparr>]\<rparr>)"
      "arp_inv_with (s\<lparr>eth_heap := h', arp_table := (arp_table s)[i := (arp_table s ! i)\<lparr>arp_q := q\<rparr>]\<rparr>) (ass[i := as])"
      "pdata h' as = pdata (eth_heap s) as" "eth_room h' q = eth_room (eth_heap s) q"
    using etharp_query_pending [OF inv i _ snd e(1) n(1) ip] by (auto simp: Let_def)
  then show ?thesis using i arp_inv_heap(2) [OF inv] by (auto simp: matches_def intro!: exI [of _ i])
next
  case False
  then obtain i h' fs where r: "etharp_query e n ip q s = Some (ERR_OK, s\<lparr>eth_heap := h', arp_table :=
          (arp_table s)[i := (recycled ip (arp_table s ! i))\<lparr>arp_state := ETHARP_STATE_PENDING, arp_netif := n, arp_q := q\<rparr>],
          sent_frames := sent_frames s @ fs\<rparr>)" "victim (arp_table s) i"
      "arp_inv_with (s\<lparr>eth_heap := h', arp_table :=
          (arp_table s)[i := (recycled ip (arp_table s ! i))\<lparr>arp_state := ETHARP_STATE_PENDING, arp_netif := n, arp_q := q\<rparr>],
          sent_frames := sent_frames s @ fs\<rparr>) (ass[i := as])"
      "pdata h' as = pdata (eth_heap s) as" "eth_room h' q = eth_room (eth_heap s) q"
      "fs = [] \<or> fs = [(n, arp_frame (hwaddr nif) ethbroadcast (hwaddr nif) (ip_addr nif) ethzero ip ARP_REQUEST)]"
    using etharp_query_new [OF inv _ snd e n ip] by (auto simp: Let_def)
  have "i < 10" using r(2) by (simp add: victim_def)
  then show ?thesis using r arp_inv_heap(2) [OF inv]
    by (intro exI [of _ i] exI [of _ "s\<lparr>eth_heap := h', arp_table :=
          (arp_table s)[i := (recycled ip (arp_table s ! i))\<lparr>arp_state := ETHARP_STATE_PENDING, arp_netif := n, arp_q := q\<rparr>],
          sent_frames := sent_frames s @ fs\<rparr>"] exI [of _ fs])
      (simp add: matches_def recycled_def)
qed

lemma etharp_update_known:
  assumes inv: "arp_inv_with s ass" and i: "i < 10" "matches (Some ip) (arp_table s ! i)" and e: "custom_free_ok (pb_env e)"
    and n: "netifs s n = Some nif" "hwaddr_len nif = 6" "length (hwaddr nif) = 6" "length mac = 6"
    and ip: "\<not> not_unicast ip nif" and flags: "flags = ETHARP_FLAG_TRY_HARD \<or> flags = ETHARP_FLAG_FIND_ONLY"
  shows "\<exists>s'. etharp_update_arp_entry e n ip mac flags s = Some (ERR_OK, s') \<and> update_result n ip mac (hwaddr nif) s ass i s'"
proof -
  have ex: "\<exists>j < 10. matches (Some ip) (arp_table s ! j)" using i by blast
  obtain k s' where u: "etharp_update_arp_entry e n ip mac flags s = Some (ERR_OK, s')"
      "update_result n ip mac (hwaddr nif) s ass k s'" "matches (Some ip) (arp_table s ! k)"
    using flags etharp_update_hard [OF inv e n ip] etharp_update_only [OF inv e n ip] unfolding if_P [OF ex] by auto
  then have "k < 10" by (simp add: update_result_def)
  then have "k = i" using inv i u(3) by (auto simp: arp_inv_with_def matches_def)
  then show ?thesis using u by blast
qed

section \<open>Conflict detection that finds nothing\<close>

text \<open>Whether the module \<open>m\<close> sees a conflict in an ARP packet: before the address is announced, when
  somebody uses or probes it, and after that, when somebody else uses it.\<close>

definition acd_conflict :: "acd \<Rightarrow> u32 \<Rightarrow> u32 \<Rightarrow> eth_addr \<Rightarrow> eth_addr \<Rightarrow> bool" where
  "acd_conflict m sip dip own sha \<longleftrightarrow>
     (case acd_state m of
        ACD_STATE_OFF \<Rightarrow> False
      | ACD_STATE_RATE_LIMIT \<Rightarrow> False
      | ACD_STATE_PROBE_WAIT \<Rightarrow> sip = acd_ipaddr m \<or> (sip = 0 \<and> dip = acd_ipaddr m \<and> own \<noteq> sha)
      | ACD_STATE_PROBING \<Rightarrow> sip = acd_ipaddr m \<or> (sip = 0 \<and> dip = acd_ipaddr m \<and> own \<noteq> sha)
      | ACD_STATE_ANNOUNCE_WAIT \<Rightarrow> sip = acd_ipaddr m \<or> (sip = 0 \<and> dip = acd_ipaddr m \<and> own \<noteq> sha)
      | _ \<Rightarrow> sip = acd_ipaddr m \<and> own \<noteq> sha)"

fun acd_chain :: "eth_state \<Rightarrow> nat \<Rightarrow> nat list \<Rightarrow> bool" where
  "acd_chain s a [] \<longleftrightarrow> a = 0"
| "acd_chain s a (b # bs) \<longleftrightarrow> a = b \<and> a \<noteq> 0 \<and> (\<exists>m. acds s a = Some m \<and> acd_chain s (acd_next m) bs)"

lemma acd_arp_reply_body_quiet:
  assumes "acds s a = Some m" "length own = 6" "\<not> acd_conflict m sip dip own (rd (eth_heap s) (hdr + 8) 6)"
  shows "acd_arp_reply_body e n hdr sip dip own a s = Some s"
  using assms by (cases "acd_state m") (auto simp: acd_arp_reply_body_def acd_conflict_def eth_addr_eq_def ip4_addr_isany_def Let_def)

definition acd_quiet :: "eth_state \<Rightarrow> nat \<Rightarrow> u32 \<Rightarrow> u32 \<Rightarrow> eth_addr \<Rightarrow> eth_addr \<Rightarrow> bool" where
  "acd_quiet s n sip dip own sha \<longleftrightarrow>
     (\<exists>bs. acd_chain s (acd_list s n) bs \<and> (\<forall>a \<in> set bs. \<not> acd_conflict (the (acds s a)) sip dip own sha))"

lemma acd_arp_reply_quiet:
  assumes n: "netifs s n = Some nif" "length (hwaddr nif) = 6"
    and q: "acd_quiet s n (load32 (bytes (eth_heap s)) (hdr + 14)) (load32 (bytes (eth_heap s)) (hdr + 24)) (hwaddr nif)
              (rd (eth_heap s) (hdr + 8) 6)"
  shows "acd_arp_reply e n hdr s = Some s"
proof -
  define sip where "sip = load32 (bytes (eth_heap s)) (hdr + 14)"
  define dip where "dip = load32 (bytes (eth_heap s)) (hdr + 24)"
  obtain bs where bs: "acd_chain s (acd_list s n) bs"
      "\<forall>a \<in> set bs. \<not> acd_conflict (the (acds s a)) sip dip (hwaddr nif) (rd (eth_heap s) (hdr + 8) 6)"
    using q by (auto simp: acd_quiet_def sip_def dip_def)
  have "ACD_FOREACH (acd_arp_reply_body e n hdr sip dip (hwaddr nif)) a s = Some s"
    if "acd_chain s a bs" "\<forall>a \<in> set bs. \<not> acd_conflict (the (acds s a)) sip dip (hwaddr nif) (rd (eth_heap s) (hdr + 8) 6)" for a bs
    using that
  proof (induction bs arbitrary: a)
    case Nil
    then show ?case by (simp add: ACD_FOREACH.simps)
  next
    case (Cons b bs)
    then obtain m where m: "a = b" "a \<noteq> 0" "acds s a = Some m" "acd_chain s (acd_next m) bs" by auto
    then show ?case
      using Cons acd_arp_reply_body_quiet [OF m(3) n(2), of sip dip hdr e n]
      by (subst ACD_FOREACH.simps) simp
  qed
  then show ?thesis using bs n by (simp add: acd_arp_reply_def Let_def sip_def dip_def)
qed

end
