(* ===== verification/Etharp_Input.thy ===== *)
theory Etharp_Input
  imports Etharp_Flow
begin

text \<open>
  \<^verbatim>\<open>etharp_input\<close> on a well-formed ARP packet: the sender's address is learned or refreshed, a request for
  the interface's address is answered, and the packet is released.
\<close>

section \<open>Reading the header\<close>

lemma rd_part: "k + m \<le> n \<Longrightarrow> rd h (a + k) m = take m (drop k (rd h a n))"
  by (simp add: drop_rd take_rd)

lemma load16_be16:
  assumes "rd h a 2 = be16 w"
  shows "load16 (bytes h) a = PP_HTONS w"
proof -
  have "bytes h a = ucast (drop_bit 8 w)" "bytes h (a + 1) = ucast w"
    using assms by (auto simp: rd_def be16_def numeral_2_eq_2)
  moreover have "unat w div 256 < 256" using unat_u16_less [of w] by linarith
  ultimately have "unat (load16 (bytes h) a) = unat (lwip_htons w)"
    unfolding unat_load16 unat_lwip_htons by (simp add: unsigned_ucast_eq take_bit_eq_mod unat_drop_bit)
  then show ?thesis by (auto simp: lwip_htons_def intro: unsigned_word_eqI)
qed

lemma load32_addr_bytes:
  assumes "rd h a 4 = addr_bytes x"
  shows "load32 (bytes h) a = x"
proof -
  have "le_val (rd h a 4) = unat (load32 (bytes h) a)"
    using le_val_load32 [of 4 "bytes h" a] by (simp add: mem_list_rd)
  then have "unat (load32 (bytes h) a) = unat x" using assms le_val_addr_bytes by simp
  then show ?thesis by (rule unsigned_word_eqI)
qed

lemma arp_packet_parts:
  assumes "length sha = 6" "length tha = 6" and pk: "pk = arp_packet opcode sha spa tha tpa"
  shows "take 2 pk = be16 1" "take 2 (drop 2 pk) = be16 0x0800" "pk ! 4 = 6" "pk ! 5 = 4" "take 2 (drop 6 pk) = be16 opcode"
    "take 6 (drop 8 pk) = sha" "take 4 (drop 14 pk) = addr_bytes spa" "take 4 (drop 24 pk) = addr_bytes tpa"
  using assms by (simp_all add: pk arp_packet_def nth_append)

text \<open>What the function reads from a heap that holds the packet at \<open>hdr\<close>.\<close>

lemma arp_header_fields:
  assumes l: "length sha = 6" "length tha = 6" and r: "rd h hdr 28 = arp_packet opcode sha spa tha tpa"
  shows "load16 (bytes h) hdr = PP_HTONS 1" "load16 (bytes h) (hdr + 2) = PP_HTONS 0x0800" "bytes h (hdr + 4) = 6"
    "bytes h (hdr + 5) = 4" "load16 (bytes h) (hdr + 6) = PP_HTONS opcode" "rd h (hdr + 8) 6 = sha"
    "load32 (bytes h) (hdr + 14) = spa" "load32 (bytes h) (hdr + 24) = tpa"
proof -
  note p = arp_packet_parts [OF l refl, of opcode spa tpa, folded r]
  have "rd h hdr 2 = be16 1" using rd_part [of 0 2 28 h hdr] p(1) by simp
  then show "load16 (bytes h) hdr = PP_HTONS 1" by (rule load16_be16)
  show "load16 (bytes h) (hdr + 2) = PP_HTONS 0x0800" "load16 (bytes h) (hdr + 6) = PP_HTONS opcode"
    using rd_part [of 2 2 28 h hdr] rd_part [of 6 2 28 h hdr] p(2,5) load16_be16 by simp_all
  show "bytes h (hdr + 4) = 6" "bytes h (hdr + 5) = 4" using p(3,4) by simp_all
  show "rd h (hdr + 8) 6 = sha" using rd_part [of 8 6 28 h hdr] p(6) by simp
  show "load32 (bytes h) (hdr + 14) = spa" "load32 (bytes h) (hdr + 24) = tpa"
    using rd_part [of 14 4 28 h hdr] rd_part [of 24 4 28 h hdr] p(7,8) load32_addr_bytes by simp_all
qed

section \<open>The update by any packet\<close>

lemma etharp_update_any:
  assumes inv: "arp_inv_with s ass" and e: "custom_free_ok (pb_env e)"
    and n: "netifs s n = Some nif" "hwaddr_len nif = 6" "length (hwaddr nif) = 6" "length mac = 6"
    and flags: "flags = ETHARP_FLAG_TRY_HARD \<or> flags = ETHARP_FLAG_FIND_ONLY"
  shows "\<exists>r s' ass' T. etharp_update_arp_entry e n ip mac flags s = Some (r, s') \<and> arp_inv_with s' ass' \<and>
     netifs s' = netifs s \<and> keeps_others T (eth_heap s) (eth_heap s') \<and>
     (\<forall>as. apart ass as \<longrightarrow> apart ass' as \<and> set as \<inter> T = {})"
proof -
  have same: "\<exists>r. etharp_update_arp_entry e n ip mac flags s = Some (r, s) \<Longrightarrow> ?thesis"
    using inv by (metis keeps_others_refl inf_bot_right)
  show ?thesis
  proof (cases "not_unicast ip nif")
    case True
    then show ?thesis using n by (intro same) (simp add: etharp_update_arp_entry_def)
  next
    case False
    have upd: ?thesis if u: "etharp_update_arp_entry e n ip mac flags s = Some (ERR_OK, s')"
        "update_result n ip mac (hwaddr nif) s ass i s'" for i s'
    proof -
      have i: "i < 10" "arp_inv_with s' (ass[i := []])" "netifs s' = netifs s" "keeps_others (set (ass ! i)) (eth_heap s) (eth_heap s')"
        using u(2) by (auto simp: update_result_def)
      have "length ass = 10" using inv by (simp add: arp_inv_with_def queues_ok_def)
      then have "apart (ass[i := []]) as \<and> set as \<inter> set (ass ! i) = {}" if "apart ass as" for as
        using that i(1) by (auto simp: apart_def nth_list_update)
      then show ?thesis using u(1) i by blast
    qed
    show ?thesis
    proof (cases "flags = ETHARP_FLAG_TRY_HARD")
      case True
      then show ?thesis using etharp_update_hard [OF inv e n False] upd by blast
    next
      case nh: False
      then have f: "flags = ETHARP_FLAG_FIND_ONLY" using flags by blast
      show ?thesis
      proof (cases "\<exists>j < 10. matches (Some ip) (arp_table s ! j)")
        case True
        then show ?thesis using etharp_update_only [OF inv e n False] upd f by auto
      next
        case no: False
        then show ?thesis using etharp_update_only [OF inv e n False] f by (intro same) auto
      qed
    qed
  qed
qed

lemma arp_inv_frame:
  assumes "arp_inv_with s ass" "arp_table s' = arp_table s" "netifs s' = netifs s" "etharp_cached_entry s' < 10"
    "heap_inv (eth_heap s')" "\<And>i a. i < 10 \<Longrightarrow> a \<in> set (ass ! i) \<Longrightarrow> pbufs (eth_heap s') a = pbufs (eth_heap s) a"
  shows "arp_inv_with s' ass"
proof -
  have "waiting (eth_heap s') (arp_table s ! i) (ass ! i) = waiting (eth_heap s) (arp_table s ! i) (ass ! i)" if "i < 10" for i
    using waiting_frame [of "ass ! i"] assms(6) [OF that] by blast
  then have "queues_ok (eth_heap s') (arp_table s') ass" using assms(1,2) by (simp add: arp_inv_with_def queues_ok_def)
  moreover have "netif_ok s' n = netif_ok s n" for n using assms(3) by (simp add: netif_ok_def)
  ultimately show ?thesis using assms by (simp add: arp_inv_with_def)
qed

section \<open>Input\<close>

text \<open>A received ARP packet: one that the caller owns, apart from the packets that wait in the table, whose
  first buffer holds the whole header.\<close>

definition received_arp ::
    "heap \<Rightarrow> nat list list \<Rightarrow> nat \<Rightarrow> nat list \<Rightarrow> u16 \<Rightarrow> eth_addr \<Rightarrow> u32 \<Rightarrow> eth_addr \<Rightarrow> u32 \<Rightarrow> bool" where
  "received_arp h ass p as opcode sha spa tha tpa \<longleftrightarrow>
     packet h p as \<and> owned h as \<and> (\<forall>a \<in> set as. 0 < pb_ref (the (pbufs h a))) \<and> apart ass as \<and>
     length sha = 6 \<and> length tha = 6 \<and> 28 \<le> plen h p \<and> take 28 (pbytes h p) = arp_packet opcode sha spa tha tpa"

lemma received_header:
  assumes "received_arp h ass p as opcode sha spa tha tpa" "pbufs h p = Some b"
  shows "rd h (payload b) 28 = arp_packet opcode sha spa tha tpa"
  using assms by (auto simp: received_arp_def pbytes_def take_rd min_def plen_def split: if_splits)

lemma received_kept:
  assumes r: "received_arp h ass p as opcode sha spa tha tpa" and k: "keeps_others T h h'"
    and t: "\<And>as. apart ass as \<Longrightarrow> apart ass' as \<and> set as \<inter> T = {}"
  shows "received_arp h' ass' p as opcode sha spa tha tpa" "pbufs h' p = pbufs h p"
proof -
  have ap: "apart ass' as" "set as \<inter> T = {}" using r t by (auto simp: received_arp_def)
  have own: "owned h as" "p \<in> set as" using r packet_first by (auto simp: received_arp_def)
  note kp = keeps_others_pdata [OF k own(1) ap(2)]
  have "owned h [p]" "p \<notin> T" using own ap(2) by (auto simp: owned_def)
  then have "pbytes h' p = pbytes h p" "pbufs h' p = pbufs h p" using k by (auto simp: keeps_others_def)
  then show "received_arp h' ass' p as opcode sha spa tha tpa" "pbufs h' p = pbufs h p"
    using r ap(1) packet_pbufs_frame [OF kp(2)] kp(2) by (simp_all add: received_arp_def plen_def)
qed

definition arp_for_us :: "netif \<Rightarrow> u32 \<Rightarrow> bool" where
  "arp_for_us nif ip \<longleftrightarrow> ip_addr nif \<noteq> 0 \<and> ip = ip_addr nif"

definition arp_reply :: "netif \<Rightarrow> eth_addr \<Rightarrow> u32 \<Rightarrow> u8 list" where
  "arp_reply nif sha spa = arp_frame (hwaddr nif) sha (hwaddr nif) (ip_addr nif) sha spa ARP_REPLY"

lemma PP_HTONS_inj: "PP_HTONS x = PP_HTONS y \<longleftrightarrow> x = y"
  by (metis lwip_htons_def lwip_htons_involutive)

text \<open>The reply, if one is due and there is memory for it.\<close>

lemma reply_step:
  assumes l: "link_ok s n nif" and e: "malloc_ok (pb_env e)" and sha: "length sha = 6"
  shows "\<exists>s'. (if due then do { (_, s) \<leftarrow> etharp_raw e n (hwaddr nif) sha (hwaddr nif) (ip_addr nif) sha spa ARP_REPLY s; Some s }
              else Some s) = Some s' \<and>
     writes_only (- allocated (eth_heap s)) (eth_heap s) (eth_heap s') \<and> arp_table s' = arp_table s \<and> netifs s' = netifs s \<and>
     etharp_cached_entry s' = etharp_cached_entry s \<and> heap_inv (eth_heap s') \<and>
     sent_frames s' = sent_frames s @
       (if due \<and> libc_malloc (pb_env e) (eth_heap s) 60 \<noteq> 0 then [(n, arp_reply nif sha spa)] else [])"
proof (cases due)
  case True
  obtain r s' where r: "etharp_raw e n (hwaddr nif) sha (hwaddr nif) (ip_addr nif) sha spa ARP_REPLY s = Some (r, s')"
      "arp_sent e n (arp_reply nif sha spa) s r s'"
    using etharp_raw_sent [of s e n nif "hwaddr nif" sha "hwaddr nif" sha "ip_addr nif" spa ARP_REPLY] l e sha
    unfolding link_ok_def arp_reply_def by blast
  have "r = ERR_OK \<longleftrightarrow> libc_malloc (pb_env e) (eth_heap s) 60 \<noteq> 0"
    using r(2) by (cases "libc_malloc (pb_env e) (eth_heap s) 60 = 0") (auto simp: arp_sent_def)
  then show ?thesis using True r(1) arp_sent_keeps [OF r(2)] l by (auto simp: link_ok_def)
next
  case False
  then show ?thesis using l by (simp add: link_ok_def)
qed

lemma etharp_input_run:
  assumes inv: "arp_inv_with s ass" and e: "custom_free_ok (pb_env e)" "malloc_ok (pb_env e)"
    and n: "n \<noteq> 0" "netifs s n = Some nif" "hwaddr_len nif = 6" "length (hwaddr nif) = 6"
    and p: "received_arp (eth_heap s) ass p as opcode sha spa tha tpa" and quiet: "acd_quiet s n spa tpa (hwaddr nif) sha"
  shows "\<exists>r s1 s'. etharp_update_arp_entry e n spa sha
        (if arp_for_us nif tpa then ETHARP_FLAG_TRY_HARD else ETHARP_FLAG_FIND_ONLY) s = Some (r, s1) \<and>
     etharp_input e p n s = Some s' \<and> arp_inv s' \<and> arp_table s' = arp_table s1 \<and>
     pbufs (eth_heap s') = release_refs (pbufs (eth_heap s1)) as \<and>
     sent_frames s' = sent_frames s1 @
       (if (opcode = ARP_REQUEST \<and> arp_for_us nif tpa \<and> \<not> arp_for_us nif spa) \<and>
           libc_malloc (pb_env e) (eth_heap s1) 60 \<noteq> 0 then [(n, arp_reply nif sha spa)] else [])"
proof -
  define fl where "fl = (if arp_for_us nif tpa then ETHARP_FLAG_TRY_HARD else ETHARP_FLAG_FIND_ONLY :: u8)"
  have pk: "packet (eth_heap s) p as" and len: "length sha = 6" "length tha = 6" using p by (auto simp: received_arp_def)
  obtain b where b: "pbufs (eth_heap s) p = Some b" using pchain_live packet_first [OF pk] pk unfolding packet_def by blast
  note f = arp_header_fields [OF len received_header [OF p b]]
  have quiet': "acd_arp_reply e n (payload b) s = Some s"
    using acd_arp_reply_quiet [OF n(2,4), of "payload b" e] quiet f(6-8) by simp
  obtain r s1 ass1 T where u: "etharp_update_arp_entry e n spa sha fl s = Some (r, s1)" "arp_inv_with s1 ass1"
      "netifs s1 = netifs s" "keeps_others T (eth_heap s) (eth_heap s1)"
      "\<And>as. apart ass as \<Longrightarrow> apart ass1 as \<and> set as \<inter> T = {}"
  proof -
    have "fl = ETHARP_FLAG_TRY_HARD \<or> fl = ETHARP_FLAG_FIND_ONLY" by (simp add: fl_def)
    then show ?thesis using etharp_update_any [OF inv e(1) n(2-4) len(1), of fl spa] that by blast
  qed
  note p1 = received_kept [OF p u(4,5)]
  have b1: "pbufs (eth_heap s1) p = Some b" using p1(2) b by simp
  note f1 = arp_header_fields [OF len received_header [OF p1(1) b1]]
  have l1: "link_ok s1 n nif" using arp_inv_heap(1) [OF u(2)] n u(3) by (simp add: link_ok_def)
  define due where "due \<longleftrightarrow> opcode = ARP_REQUEST \<and> arp_for_us nif tpa \<and> \<not> arp_for_us nif spa"
  obtain s2 where s2: "(if due then do { (_, s) \<leftarrow> etharp_raw e n (hwaddr nif) sha (hwaddr nif) (ip_addr nif) sha spa ARP_REPLY s1; Some s }
        else Some s1) = Some s2"
      "writes_only (- allocated (eth_heap s1)) (eth_heap s1) (eth_heap s2)" "arp_table s2 = arp_table s1" "netifs s2 = netifs s1"
      "etharp_cached_entry s2 = etharp_cached_entry s1" "heap_inv (eth_heap s2)"
      "sent_frames s2 = sent_frames s1 @ (if due \<and> libc_malloc (pb_env e) (eth_heap s1) 60 \<noteq> 0 then [(n, arp_reply nif sha spa)] else [])"
    using reply_step [OF l1 e(2) len(1), of due spa] by blast
  have pb2: "pbufs (eth_heap s2) = pbufs (eth_heap s1)" using writes_only_simps(1) [OF s2(2)] .
  have "pchain (eth_heap s2) p as" "as \<noteq> []" "\<forall>a \<in> set as. 0 < pb_ref (the (pbufs (eth_heap s2) a))"
    using p1(1) packet_pbufs_frame(1) [of as "eth_heap s2" "eth_heap s1"] pb2 by (auto simp: received_arp_def packet_def)
  then obtain c h' where h': "pbuf_free (pb_env e) p (eth_heap s2) = Some (c, h')" "heap_inv h'"
      "pbufs h' = release_refs (pbufs (eth_heap s2)) as"
    using pbuf_free_chain [OF _ _ s2(6) _ e(1), of p as] by blast
  have "etharp_input e p n s = Some (s2\<lparr>eth_heap := h'\<rparr>)"
    using n b quiet' f f1 u(1) s2(1) h'(1)
    by (simp add: etharp_input_def Let_def fl_def due_def arp_for_us_def ip4_addr_isany_def PP_HTONS_inj eth_pbuf_free_def
        conj_ac cong: if_cong)
  moreover have "arp_inv_with (s2\<lparr>eth_heap := h'\<rparr>) ass1"
  proof (rule arp_inv_frame [OF u(2)])
    show "pbufs (eth_heap (s2\<lparr>eth_heap := h'\<rparr>)) a = pbufs (eth_heap s1) a" if "i < 10" "a \<in> set (ass1 ! i)" for i a
      using apartD [OF _ that, of as] p1(1) h'(3) pb2 by (simp add: received_arp_def release_refs_other)
  qed (use s2 h'(2) arp_inv_heap [OF u(2)] in simp_all)
  ultimately show ?thesis
    using u(1) s2(3,7) h'(3) pb2
    by (intro exI [of _ r] exI [of _ s1] exI [of _ "s2\<lparr>eth_heap := h'\<rparr>"]) (auto simp: arp_inv_def fl_def due_def)
qed

end
