(* ===== verification/Etharp_Props.thy ===== *)
theory Etharp_Props
  imports Etharp_Input Eth_Example
begin

text \<open>
  The correctness properties of the link layer: the frames of ARP packets, the choice of a table entry,
  the cache as a map that never answers a stale address, the life time of its entries, the packets that
  wait for an address, and the answer to a request.
\<close>

section \<open>The example state\<close>

lemma example_arp_inv: "arp_inv_with example_eth (replicate 10 [])"
  using example_heap_inv
  by (simp add: arp_inv_with_def queues_ok_def waiting_def entry_ok_def less_eq_etharp_state_def)

lemma example_ready: "arp_ready example_eth_env 7 example_nif example_eth"
  using example_arp_inv example_env_ok by (auto simp: arp_ready_def arp_inv_def)

lemma example_unicast: "\<not> not_unicast 0x0500A8C0 example_nif" "\<not> not_unicast 0x0600A8C0 example_nif"
  by (simp_all add: not_unicast_def ip4_addr_isany_def ip4_addr_isbroadcast_u32_def ip4_addr_ismulticast_def
      ip4_addr_net_eq_def example_nif_def PP_HTONL_def)

lemma example_sendable: "sendable example_heap 224 [224]" "eth_room example_heap 224" "apart (replicate 10 []) [224]"
  using example_owned example_packets
  by (simp_all add: sendable_def no_empty_tail_def eth_room_def apart_def example_heap_def)

section \<open>ARP packets\<close>

text \<open>An ARP packet leaves as one Ethernet frame with exactly the fields asked for (to the broadcast
  address when the sender address is link-local), the buffer it was built in is freed again, and without memory
  for it nothing happens and the result is \<^verbatim>\<open>ERR_MEM\<close>.\<close>

lemma etharp_raw_sends:
  assumes "heap_inv (eth_heap s)" "malloc_ok (pb_env e)" "netifs s n = Some nif" "hwaddr_len nif = 6"
    "length ethsrc = 6" "length ethdst = 6" "length sha = 6" "length tha = 6"
  shows "\<exists>h'. writes_only (- allocated (eth_heap s)) (eth_heap s) h' \<and>
     etharp_raw e n ethsrc ethdst sha spa tha tpa opcode s =
       (if libc_malloc (pb_env e) (eth_heap s) 60 = 0 then Some (ERR_MEM, s)
        else Some (ERR_OK, s\<lparr>eth_heap := h', sent_frames := sent_frames s @
          [(n, (if ip4_addr_islinklocal spa then ethbroadcast else ethdst) @ ethsrc @ [0x08, 0x06] @
               [0, 1, 8, 0, 6, 4] @ be16 opcode @ sha @ addr_bytes spa @ tha @ addr_bytes tpa)]\<rparr>))"
proof -
  have "arp_frame ethsrc ethdst sha spa tha tpa opcode =
      (if ip4_addr_islinklocal spa then ethbroadcast else ethdst) @ ethsrc @ [0x08, 0x06] @
      [0, 1, 8, 0, 6, 4] @ be16 opcode @ sha @ addr_bytes spa @ tha @ addr_bytes tpa"
    by (simp add: arp_frame_def eth_frame_def arp_packet_def be16_def)
  from etharp_raw_spec [OF assms, of spa tpa opcode, unfolded this] show ?thesis .
qed

lemma example_addr_bytes: "addr_bytes 0x0100A8C0 = [192, 168, 0, 1]" "addr_bytes 0x0500A8C0 = [192, 168, 0, 5]"
  by (simp_all add: addr_bytes_def ip4_addr_get_byte_def)

section \<open>The table\<close>

text \<open>C20: A search of the table that may recycle an entry never fails. It finds the entry of the address
  if there is one. Otherwise it takes the first empty entry, else the oldest stable one, else the oldest pending one
  without a packet, else the oldest pending one, releases the packet that waited for it, and keeps the invariant of
  the table.\<close>

theorem etharp_find_entry_never_fails:
  assumes "arp_inv_with s ass" "custom_free_ok (pb_env e)"
  shows "\<exists>i s'. etharp_find_entry e (Some ip) ETHARP_FLAG_TRY_HARD s = Some (Inr i, s') \<and> i < 10 \<and>
     (if \<exists>j < 10. matches (Some ip) (arp_table s ! j) then s' = s \<and> matches (Some ip) (arp_table s ! i)
      else (\<forall>j < 10. rank (arp_table s ! i) \<le> rank (arp_table s ! j)) \<and>
           (\<forall>j < 10. rank (arp_table s ! j) = rank (arp_table s ! i) \<longrightarrow>
              (if rank (arp_table s ! i) = 0 then i \<le> j else arp_ctime (arp_table s ! j) \<le> arp_ctime (arp_table s ! i))) \<and>
           arp_inv_with s' (ass[i := []]) \<and> pbufs (eth_heap s') = release_refs (pbufs (eth_heap s)) (ass ! i))"
proof -
  obtain i s' where f: "etharp_find_entry e (Some ip) ETHARP_FLAG_TRY_HARD s = Some (Inr i, s')" "i < 10"
      "if \<exists>j < 10. matches (Some ip) (arp_table s ! j) then s' = s \<and> matches (Some ip) (arp_table s ! i)
       else victim (arp_table s) i \<and> (\<exists>h'. s' = s\<lparr>eth_heap := h', arp_table := (arp_table s)[i := recycled ip (arp_table s ! i)]\<rparr> \<and>
         arp_inv_with s' (ass[i := []]) \<and> bytes h' = bytes (eth_heap s) \<and> pbufs h' = release_refs (pbufs (eth_heap s)) (ass ! i))"
    using etharp_find_entry_hard [OF assms, of ip] by blast
  show ?thesis
  proof (intro exI [of _ i] exI [of _ s'] conjI f(1,2))
    show "if \<exists>j < 10. matches (Some ip) (arp_table s ! j) then s' = s \<and> matches (Some ip) (arp_table s ! i)
      else (\<forall>j < 10. rank (arp_table s ! i) \<le> rank (arp_table s ! j)) \<and>
           (\<forall>j < 10. rank (arp_table s ! j) = rank (arp_table s ! i) \<longrightarrow>
              (if rank (arp_table s ! i) = 0 then i \<le> j else arp_ctime (arp_table s ! j) \<le> arp_ctime (arp_table s ! i))) \<and>
           arp_inv_with s' (ass[i := []]) \<and> pbufs (eth_heap s') = release_refs (pbufs (eth_heap s)) (ass ! i)"
      using f(3) by (auto simp: victim_def split: if_splits)
  qed
qed

theorem etharp_find_entry_never_fails_witness:
  "\<exists>i s'. etharp_find_entry example_eth_env (Some 0x0500A8C0) ETHARP_FLAG_TRY_HARD example_eth = Some (Inr i, s') \<and>
     (\<forall>j < 10. i \<le> j) \<and> arp_inv_with s' ((replicate 10 [])[i := []])"
proof -
  have "\<not> matches (Some 0x0500A8C0) example_entry" "rank example_entry = 0" by (simp_all add: matches_def rank_def)
  then show ?thesis
    using etharp_find_entry_never_fails [OF example_arp_inv, of example_eth_env "0x0500A8C0"] example_env_ok by auto
qed

section \<open>The cache\<close>

text \<open>The events of the cache as the code handles them: an address learned from a packet for this host, and
  a call of the timer.\<close>

fun arp_events :: "eth_env \<Rightarrow> nat \<Rightarrow> (u32, eth_addr) cache_event list \<Rightarrow> eth_state \<Rightarrow> eth_state option" where
  "arp_events e n [] s = Some s"
| "arp_events e n (Learn ip mac # es) s =
     do { (_, s) \<leftarrow> etharp_update_arp_entry e n ip mac ETHARP_FLAG_TRY_HARD s; arp_events e n es s }"
| "arp_events e n (Age # es) s = do { s \<leftarrow> etharp_tmr e s; arp_events e n es s }"

lemma bind_arp_learn:
  "Option.bind (arp_learn e n ip mac s) f = Option.bind (etharp_update_arp_entry e n ip mac ETHARP_FLAG_TRY_HARD s) (\<lambda>(_, s). f s)"
  by (cases "etharp_update_arp_entry e n ip mac ETHARP_FLAG_TRY_HARD s") (auto simp: arp_learn_def)

lemma arp_events_run: "arp_events e n es s = arp.run e n es s"
proof (induction es arbitrary: s)
  case (Cons ev es)
  then have "arp_events e n es = arp.run e n es" by (simp add: fun_eq_iff)
  then show ?case by (cases ev) (simp_all add: bind_arp_learn)
qed simp

text \<open>C11: The cache never answers a stale address. After any sequence of learned addresses and timer
  calls, starting with an empty map, a lookup gives the Ethernet address learned last for the IP address or none at
  all, whatever entries were recycled or expired on the way.\<close>

theorem arp_cache_never_stale:
  assumes "arp_ready e n nif s" "\<forall>ip. arp_map s ip = None"
    "\<forall>ip mac. Learn ip mac \<in> set es \<longrightarrow> \<not> not_unicast ip nif \<and> length mac = 6"
  shows "\<exists>s'. arp_events e n es s = Some s' \<and> arp_inv s' \<and>
     (\<forall>ip. \<exists>r. etharp_find_addr e ip s' = Some (r, s') \<and>
        (\<forall>i mac a. r = Some (i, mac, a) \<longrightarrow> latest es ip = Some mac))"
proof -
  have "arp.accepted nif es" using assms(3) by (simp add: arp.accepted_def arp_accepts_def)
  then obtain s' where s': "arp.run e n es s = Some s'" "arp_ready e n nif s'"
      "\<And>ip mac. arp_map s' ip = Some mac \<Longrightarrow> (case latest es ip of Some w \<Rightarrow> mac = w | None \<Rightarrow> arp_map s ip = Some mac)"
    using arp.run_sound [OF assms(1)] by blast
  obtain ass where inv: "arp_inv_with s' ass" using s'(2) by (auto simp: arp_ready_def arp_inv_def)
  have "\<exists>r. etharp_find_addr e ip s' = Some (r, s') \<and> (\<forall>i mac a. r = Some (i, mac, a) \<longrightarrow> latest es ip = Some mac)" for ip
  proof -
    obtain r where r: "etharp_find_addr e ip s' = Some (r, s')" "map_option (\<lambda>(i, mac, a). mac) r = arp_map s' ip"
      using etharp_find_addr_map [OF inv] by blast
    have "latest es ip = Some mac" if "r = Some (i, mac, a)" for i mac a
      using s'(3) [of ip mac] r(2) that assms(2) by (cases "latest es ip") auto
    then show ?thesis using r(1) by blast
  qed
  then show ?thesis using s'(1,2) by (auto simp: arp_events_run arp_ready_def)
qed

theorem arp_cache_never_stale_witness:
  "\<exists>s'. arp_events example_eth_env 7 [Learn 0x0500A8C0 [2, 0, 0, 0, 0, 5], Age, Learn 0x0500A8C0 [2, 0, 0, 0, 0, 6]] example_eth =
      Some s' \<and> arp_inv s' \<and>
     (\<exists>r. etharp_find_addr example_eth_env 0x0500A8C0 s' = Some (r, s') \<and>
        (\<forall>i mac a. r = Some (i, mac, a) \<longrightarrow> mac = [2, 0, 0, 0, 0, 6]))"
proof -
  have "arp_map example_eth ip = None" for ip by (simp add: arp_map_def less_eq_etharp_state_def find_None_iff)
  then show ?thesis
    using arp_cache_never_stale [OF example_ready,
        of "[Learn 0x0500A8C0 [2, 0, 0, 0, 0, 5], Age, Learn 0x0500A8C0 [2, 0, 0, 0, 0, 6]]"] example_unicast by fastforce
qed


definition example_cached :: eth_state where
  "example_cached = example_eth\<lparr>arp_table := (replicate 10 example_entry)[3 :=
     \<lparr>arp_q = 0, arp_ipaddr = 0x0500A8C0, arp_netif = 7, arp_ethaddr = [2, 0, 0, 0, 0, 5], arp_ctime = 100,
      arp_state = ETHARP_STATE_STABLE\<rparr>]\<rparr>"

lemma example_cached_inv: "arp_inv example_cached"
  unfolding arp_inv_def using example_heap_inv
  by (intro exI [of _ "replicate 10 []"])
    (auto simp: arp_inv_with_def queues_ok_def waiting_def entry_ok_def example_cached_def nth_list_update netif_ok_def
      less_eq_etharp_state_def split: if_splits)


section \<open>Packets that wait\<close>

text \<open>C12: A packet for an address that is not in the cache is not lost. \<^verbatim>\<open>etharp_query\<close> keeps it, sending at
  most one request, and as soon as the address is learned the packet leaves in a frame to the learned Ethernet
  address, unchanged, and the cache holds the address.\<close>

theorem arp_queued_packet_delivered:
  assumes "arp_inv_with s ass" "arp_map s ip = None" "sendable (eth_heap s) q as" "apart ass as" "eth_room (eth_heap s) q"
    "custom_free_ok (pb_env e)" "malloc_ok (pb_env e)" "netifs s n = Some nif" "hwaddr_len nif = 6" "length (hwaddr nif) = 6"
    "\<not> not_unicast ip nif" "length mac = 6"
  shows "\<exists>s1 s2 fs. etharp_query e n ip q s = Some (ERR_OK, s1) \<and>
     etharp_update_arp_entry e n ip mac ETHARP_FLAG_FIND_ONLY s1 = Some (ERR_OK, s2) \<and> arp_inv s2 \<and> arp_map s2 ip = Some mac \<and>
     sent_frames s2 = sent_frames s @ fs @ [(n, mac @ hwaddr nif @ be16 ETHTYPE_IP @ pdata (eth_heap s) as)] \<and>
     (fs = [] \<or> fs = [(n, arp_frame (hwaddr nif) ethbroadcast (hwaddr nif) (ip_addr nif) ethzero ip ARP_REQUEST)])"
proof -
  obtain i s1 fs where q: "etharp_query e n ip q s = Some (ERR_OK, s1)" "i < 10" "arp_inv_with s1 (ass[i := as])"
      "matches (Some ip) (arp_table s1 ! i)" "arp_q (arp_table s1 ! i) = q" "netifs s1 = netifs s" "sent_frames s1 = sent_frames s @ fs"
      "fs = [] \<or> fs = [(n, arp_frame (hwaddr nif) ethbroadcast (hwaddr nif) (ip_addr nif) ethzero ip ARP_REQUEST)]"
      "pdata (eth_heap s1) as = pdata (eth_heap s) as" "eth_room (eth_heap s1) q = eth_room (eth_heap s) q"
    using etharp_query_waits [OF assms(1-4,6-11)] by blast
  have n: "netifs s1 n = Some nif" using q(6) assms(8) by simp
  obtain s2 where u: "etharp_update_arp_entry e n ip mac ETHARP_FLAG_FIND_ONLY s1 = Some (ERR_OK, s2)"
      "update_result n ip mac (hwaddr nif) s1 (ass[i := as]) i s2"
    using etharp_update_known [OF q(3,2,4) assms(6) n assms(9,10,12,11)] by blast
  have l: "i < length ass" using assms(1) q(2) by (simp add: arp_inv_with_def queues_ok_def)
  have "q \<noteq> 0" using assms(3) packet_first by (auto simp: sendable_def)
  then have "flushed (eth_heap s1) n mac (hwaddr nif) (arp_table s1 ! i) as =
      [(n, mac @ hwaddr nif @ be16 ETHTYPE_IP @ pdata (eth_heap s) as)]"
    using q(5,9,10) assms(5) by (simp add: flushed_def eth_frame_def)
  then have "sent_frames s2 = sent_frames s @ fs @ [(n, mac @ hwaddr nif @ be16 ETHTYPE_IP @ pdata (eth_heap s) as)]"
    using u(2) q(4,7) l by (auto simp: update_result_def)
  moreover have "arp_inv s2" using u(2) by (auto simp: update_result_def arp_inv_def)
  moreover have "arp_map s2 ip = Some mac" using update_map [OF q(3) u(2)] by simp
  ultimately show ?thesis using q(1,8) u(1) by blast
qed

theorem arp_queued_packet_delivered_witness:
  "\<exists>s1 s2 fs. etharp_query example_eth_env 7 0x0500A8C0 224 example_eth = Some (ERR_OK, s1) \<and>
     etharp_update_arp_entry example_eth_env 7 0x0500A8C0 [2, 0, 0, 0, 0, 5] ETHARP_FLAG_FIND_ONLY s1 = Some (ERR_OK, s2) \<and>
     arp_map s2 0x0500A8C0 = Some [2, 0, 0, 0, 0, 5] \<and>
     sent_frames s2 = fs @ [(7, [2, 0, 0, 0, 0, 5, 2, 0, 0, 0, 0, 1, 8, 0, 0, 0, 0, 0])]"
proof -
  have "arp_map example_eth 0x0500A8C0 = None" by (simp add: arp_map_def less_eq_etharp_state_def find_None_iff)
  then show ?thesis
    using arp_queued_packet_delivered [OF example_arp_inv, of "0x0500A8C0" 224 "[224]" example_eth_env 7 example_nif "[2, 0, 0, 0, 0, 5]"]
      example_sendable example_env_ok example_unicast(1) by (auto simp: be16_def example_packets)
qed


lemma example_received:
  "received_arp (eth_heap example_arp) (replicate 10 []) 320 [320] ARP_REQUEST [2, 0, 0, 0, 0, 5] 0x0500A8C0 ethzero 0x0100A8C0"
  by (simp add: received_arp_def example_arp_def example_arp_heap_def example_request_def packet_def plen_def owned_def apart_def pbytes_def)
    (use rd_write_same [of 352 example_request] in \<open>simp add: example_request_def\<close>)


end
