(* ===== verification/Ip4.thy ===== *)
theory Ip4
  imports Etharp
begin

text \<open>
  The sending half of \<^verbatim>\<open>src/lwip/ipv4/ip4.c\<close>: \<^verbatim>\<open>ip4_route\<close> and the \<^verbatim>\<open>ip4_output\<close> family, with the
  fragmentation of \<^verbatim>\<open>src/lwip/ipv4/ip4_frag.c\<close> that they call, and the macros of
  \<^verbatim>\<open>prot/ip4.h\<close> that read an IP header in memory. The configuration has one interface
  (\<^verbatim>\<open>LWIP_SINGLE_NETIF\<close>), IP options and inline header checksums; the interface's \<^verbatim>\<open>output\<close> is
  \<^verbatim>\<open>etharp_output\<close>. A destination \<open>None\<close> is \<^verbatim>\<open>LWIP_IP_HDRINCL\<close>, a source \<open>None\<close> is \<^verbatim>\<open>NULL\<close>.
\<close>

section \<open>The IP header\<close>

abbreviation (input) IP_HLEN :: nat where "IP_HLEN \<equiv> 20"
abbreviation (input) IP_HLEN_MAX :: nat where "IP_HLEN_MAX \<equiv> 60"
abbreviation (input) IP4_MIN_MTU_LENGTH :: u16 where "IP4_MIN_MTU_LENGTH \<equiv> 68"
abbreviation (input) IP_MF :: u16 where "IP_MF \<equiv> 0x2000"
abbreviation (input) IP_OFFMASK :: u16 where "IP_OFFMASK \<equiv> 0x1fff"
abbreviation (input) IP_PROTO_ICMP :: u8 where "IP_PROTO_ICMP \<equiv> 1"
abbreviation (input) IP_PROTO_IGMP :: u8 where "IP_PROTO_IGMP \<equiv> 2"
abbreviation (input) IP_PROTO_UDP :: u8 where "IP_PROTO_UDP \<equiv> 17"
abbreviation (input) IP_PROTO_TCP :: u8 where "IP_PROTO_TCP \<equiv> 6"
abbreviation (input) NETIF_FLAG_IGMP :: u8 where "NETIF_FLAG_IGMP \<equiv> 0x20"

text \<open>The macros that read the fields of the header at \<open>a\<close>; 16-bit fields stay in network order.\<close>

definition IPH_V :: "(nat \<Rightarrow> u8) \<Rightarrow> nat \<Rightarrow> u8" where
  "IPH_V m a = drop_bit 4 (m a)"

definition IPH_HL_BYTES :: "(nat \<Rightarrow> u8) \<Rightarrow> nat \<Rightarrow> u8" where
  "IPH_HL_BYTES m a = (m a AND 0x0f) * 4"

definition IPH_LEN :: "(nat \<Rightarrow> u8) \<Rightarrow> nat \<Rightarrow> u16" where
  "IPH_LEN m a = load16 m (a + 2)"

definition IPH_ID :: "(nat \<Rightarrow> u8) \<Rightarrow> nat \<Rightarrow> u16" where
  "IPH_ID m a = load16 m (a + 4)"

definition IPH_OFFSET :: "(nat \<Rightarrow> u8) \<Rightarrow> nat \<Rightarrow> u16" where
  "IPH_OFFSET m a = load16 m (a + 6)"

definition IPH_OFFSET_BYTES :: "(nat \<Rightarrow> u8) \<Rightarrow> nat \<Rightarrow> u16" where
  "IPH_OFFSET_BYTES m a = (lwip_htons (IPH_OFFSET m a) AND IP_OFFMASK) * 8"

definition IPH_PROTO :: "(nat \<Rightarrow> u8) \<Rightarrow> nat \<Rightarrow> u8" where
  "IPH_PROTO m a = m (a + 9)"

definition netif_is_up :: "netif \<Rightarrow> bool" where
  "netif_is_up nif \<longleftrightarrow> netif_flags nif AND NETIF_FLAG_UP \<noteq> 0"

definition netif_is_link_up :: "netif \<Rightarrow> bool" where
  "netif_is_link_up nif \<longleftrightarrow> netif_flags nif AND NETIF_FLAG_LINK_UP \<noteq> 0"

definition ip4_addr_isloopback :: "u32 \<Rightarrow> bool" where
  "ip4_addr_isloopback addr \<longleftrightarrow> addr AND PP_HTONL 0xff000000 = PP_HTONL 0x7f000000"

section \<open>Routing\<close>

text \<open>The interface for a destination; 0 is no route.\<close>

definition ip4_route :: "u32 \<Rightarrow> eth_state \<Rightarrow> nat option" where
  "ip4_route dest s =
     (if netif_default s = 0 then Some 0
      else do { nif \<leftarrow> netifs s (netif_default s);
                Some (if \<not> netif_is_up nif \<or> \<not> netif_is_link_up nif \<or> ip4_addr_isany (ip_addr nif) \<or>
                         ip4_addr_isloopback dest
                      then 0 else netif_default s) })"

section \<open>Fragmentation\<close>

text \<open>A \<^verbatim>\<open>struct pbuf_custom_ref\<close> is a \<^verbatim>\<open>struct pbuf\<close> of 16 bytes, the pointer to the free function and, at
  offset 20, the pointer \<^verbatim>\<open>original\<close>. That the free function of such a buffer is
  \<open>ipfrag_free_pbuf_custom\<close> is a matter of the environment (\<open>custom_free_function\<close>).\<close>

definition ip_frag_alloc_pbuf_custom_ref :: "heap \<Rightarrow> (nat \<times> heap) option" where
  "ip_frag_alloc_pbuf_custom_ref h =
     do { (p, ps) \<leftarrow> memp_malloc (pools h) MEMP_FRAG_PBUF; Some (p, h\<lparr>pools := ps\<rparr>) }"

definition ip_frag_free_pbuf_custom_ref :: "nat \<Rightarrow> heap \<Rightarrow> heap option" where
  "ip_frag_free_pbuf_custom_ref p h =
     do { lwip_assert (p \<noteq> 0);
          ps \<leftarrow> memp_free (pools h) MEMP_FRAG_PBUF p;
          Some (h\<lparr>pools := ps, pbufs := (pbufs h)(p := None)\<rparr>) }"

definition ipfrag_free_pbuf_custom :: "pbuf_env \<Rightarrow> nat \<Rightarrow> heap \<Rightarrow> heap option" where
  "ipfrag_free_pbuf_custom e p h =
     do { lwip_assert (p \<noteq> 0);
          let original = unat (load32 (bytes h) (p + 20))
          in do { h \<leftarrow> (if original \<noteq> 0 then do { (_, h) \<leftarrow> pbuf_free e original h; Some h } else Some h);
                  ip_frag_free_pbuf_custom_ref p h } }"

text \<open>The inner loop: \<open>left_to_copy\<close> bytes of the packet, from the offset \<open>poff\<close> in its buffer \<open>p\<close>, are
  mirrored behind \<open>rambuf\<close>. It returns the buffer and offset reached and the last \<^verbatim>\<open>newpbuflen\<close>, or nothing for
  \<^verbatim>\<open>memerr\<close>.\<close>

partial_function (option) frag_mirror_loop ::
    "pbuf_env \<Rightarrow> nat \<Rightarrow> nat \<Rightarrow> u16 \<Rightarrow> u16 \<Rightarrow> u16 \<Rightarrow> heap \<Rightarrow> ((nat \<times> u16 \<times> u16) option \<times> heap) option" where
  "frag_mirror_loop e rambuf p poff left_to_copy newpbuflen h =
     (if left_to_copy = 0 then Some (Some (p, poff, newpbuflen), h)
      else
        do { b \<leftarrow> pbufs h p;
             lwip_assert (len b \<ge> poff);
             let plen = len b - poff;
                 newpbuflen = (if left_to_copy < plen then left_to_copy else plen)
             in if newpbuflen = 0 then frag_mirror_loop e rambuf (pb_next b) 0 left_to_copy newpbuflen h
                else
                  do { (pcr, h) \<leftarrow> ip_frag_alloc_pbuf_custom_ref h;
                       if pcr = 0 then do { (_, h) \<leftarrow> pbuf_free e rambuf h; Some (None, h) }
                       else
                         (let (newpbuf, h) = pbuf_alloced_custom PBUF_RAW newpbuflen PBUF_REF pcr
                                               (payload b + unat poff) newpbuflen h
                          in if newpbuf = 0 then
                               do { h \<leftarrow> ip_frag_free_pbuf_custom_ref pcr h;
                                    (_, h) \<leftarrow> pbuf_free e rambuf h;
                                    Some (None, h) }
                             else
                               do { h \<leftarrow> pbuf_ref p h;
                                    let h = write_bytes (pcr + 20) (addr_bytes (word_of_nat p)) h
                                    in do { h \<leftarrow> pbuf_cat rambuf newpbuf h;
                                            let left_to_copy = left_to_copy - newpbuflen
                                            in if left_to_copy \<noteq> 0
                                               then frag_mirror_loop e rambuf (pb_next b) 0 left_to_copy newpbuflen h
                                               else Some (Some (p, poff, newpbuflen), h) } }) } })"

text \<open>\<^verbatim>\<open>(netif->mtu - IP_HLEN) / 8\<close> is division of the C type \<^verbatim>\<open>int\<close>, which truncates.\<close>

definition frag_nfb :: "u16 \<Rightarrow> u16" where
  "frag_nfb m =
     (if unat m \<ge> IP_HLEN then word_of_nat ((unat m - IP_HLEN) div 8) else - word_of_nat ((IP_HLEN - unat m) div 8))"

text \<open>The header of one fragment, a copy of the original one: offset, flag, length and checksum are corrected.\<close>

definition frag_tmp :: "u16 \<Rightarrow> bool \<Rightarrow> bool \<Rightarrow> u16" where
  "frag_tmp ofo is_last mf_set =
     (if \<not> is_last \<or> mf_set then (IP_OFFMASK AND ofo) OR IP_MF else IP_OFFMASK AND ofo)"

definition frag_correct_header :: "nat \<Rightarrow> u16 \<Rightarrow> u16 \<Rightarrow> heap \<Rightarrow> heap" where
  "frag_correct_header a tmp fragsize h =
     (let h = write_bytes (a + 6) (store16 (lwip_htons tmp)) h;
          h = write_bytes (a + 2) (store16 (lwip_htons (fragsize + 20))) h;
          h = write_bytes (a + 10) (store16 0) h
      in write_bytes (a + 10) (store16 (inet_chksum (bytes h) a 20)) h)"

partial_function (option) frag_loop ::
    "eth_env \<Rightarrow> nat \<Rightarrow> netif \<Rightarrow> u32 \<Rightarrow> nat \<Rightarrow> bool \<Rightarrow> nat \<Rightarrow> u16 \<Rightarrow> u16 \<Rightarrow> u16 \<Rightarrow> eth_state \<Rightarrow> (err_t \<times> eth_state) option" where
  "frag_loop e n nif dest original_iphdr mf_set p poff left ofo s =
     (if left = 0 then Some (ERR_OK, s)
      else
        (let nfb = frag_nfb (mtu nif); room = nfb * 8; fragsize = (if left < room then left else room)
         in do { (rambuf, h) \<leftarrow> pbuf_alloc (pb_env e) PBUF_LINK 20 PBUF_RAM (eth_heap s);
                 if rambuf = 0 then Some (ERR_MEM, s\<lparr>eth_heap := h\<rparr>)
                 else
                   do { rb \<leftarrow> pbufs h rambuf;
                        lwip_assert (len rb \<ge> 20);
                        let h = memcpy (payload rb) original_iphdr IP_HLEN h
                        in do { (r, h) \<leftarrow> frag_mirror_loop (pb_env e) rambuf p poff fragsize 0 h;
                                case r of
                                  None \<Rightarrow> Some (ERR_MEM, s\<lparr>eth_heap := h\<rparr>)
                                | Some (p, poff, newpbuflen) \<Rightarrow>
                                    (let is_last = (int (unat left) \<le> int (unat (mtu nif)) - 20);
                                         h = frag_correct_header (payload rb) (frag_tmp ofo is_last mf_set) fragsize h
                                     in do { (_, s) \<leftarrow> etharp_output e n rambuf dest (s\<lparr>eth_heap := h\<rparr>);
                                             s \<leftarrow> eth_pbuf_free e rambuf s;
                                             frag_loop e n nif dest original_iphdr mf_set p (poff + newpbuflen)
                                               (left - fragsize) (ofo + nfb) s }) } } }))"

definition ip4_frag :: "eth_env \<Rightarrow> nat \<Rightarrow> nat \<Rightarrow> u32 \<Rightarrow> eth_state \<Rightarrow> (err_t \<times> eth_state) option" where
  "ip4_frag e p n dest s =
     do { b \<leftarrow> pbufs (eth_heap s) p;
          nif \<leftarrow> netifs s n;
          let original_iphdr = payload b; m = bytes (eth_heap s)
          in if IPH_HL_BYTES m original_iphdr \<noteq> 20 then Some (ERR_VAL, s)
             else if \<not> len b \<ge> 20 then Some (ERR_VAL, s)
             else (let tmp = lwip_htons (IPH_OFFSET m original_iphdr)
                   in frag_loop e n nif dest original_iphdr (tmp AND IP_MF \<noteq> 0) p 20 (tot_len b - 20)
                        (tmp AND IP_OFFMASK) s) }"

section \<open>Output\<close>

text \<open>The options, padded with zeros to a multiple of 4, are written in front of the packet. The result is an
  error, or the partial checksum and the length of the whole IP header.\<close>

fun sum16 :: "u8 list \<Rightarrow> u32" where
  "sum16 (a # b # xs) = ucast (load16 (\<lambda>i. if i = 0 then a else b) 0) + sum16 xs"
| "sum16 xs = 0"

definition ip_put_options :: "nat \<Rightarrow> u8 list \<Rightarrow> u16 \<Rightarrow> heap \<Rightarrow> ((err_t + u32 \<times> u16) \<times> heap) option" where
  "ip_put_options p ip_options optlen h =
     (if optlen \<noteq> 0 then
        if unat optlen > IP_HLEN_MAX - IP_HLEN then Some (Inl ERR_VAL, h)
        else
          (let optlen_aligned = (optlen + 3) AND NOT 3
           in do { (failed, h) \<leftarrow> pbuf_add_header p (unat optlen_aligned) h;
                   if failed then Some (Inl ERR_BUF, h)
                   else
                     do { b \<leftarrow> pbufs h p;
                          let h = write_bytes (payload b) (take (unat optlen) ip_options) h;
                              h = (if optlen < optlen_aligned
                                   then write_bytes (payload b + unat optlen)
                                          (replicate (unat (optlen_aligned - optlen)) 0) h
                                   else h)
                          in Some (Inr (sum16 (rd h (payload b) (unat optlen_aligned)), 20 + optlen_aligned), h) } })
      else Some (Inr (0, 20), h))"

text \<open>The fields of the header at \<open>a\<close> in the order of the code, with the sum of the checksum. \<open>ident\<close> is the
  identification written.\<close>

definition write_ip_hdr ::
    "nat \<Rightarrow> u8 \<Rightarrow> u8 \<Rightarrow> u32 \<Rightarrow> u16 \<Rightarrow> u8 \<Rightarrow> u16 \<Rightarrow> u16 \<Rightarrow> u32 \<Rightarrow> u32 \<Rightarrow> heap \<Rightarrow> heap" where
  "write_ip_hdr a ttl proto dest ip_hlen tos tot ident src chk_sum h =
     (let h = write_bytes (a + 8) [ttl] h;
          h = write_bytes (a + 9) [proto] h;
          chk_sum = chk_sum + ucast (PP_HTONS (ucast proto OR push_bit 8 (ucast ttl)));
          h = write_bytes (a + 16) (addr_bytes dest) h;
          chk_sum = chk_sum + (dest AND 0xFFFF);
          chk_sum = chk_sum + drop_bit 16 dest;
          v_hl = (ucast (push_bit 4 4 OR ip_hlen div 4) :: u8);
          h = write_bytes a [v_hl] h;
          h = write_bytes (a + 1) [tos] h;
          chk_sum = chk_sum + ucast (PP_HTONS (ucast tos OR push_bit 8 (ucast v_hl)));
          h = write_bytes (a + 2) (store16 (lwip_htons tot)) h;
          chk_sum = chk_sum + ucast (lwip_htons tot);
          h = write_bytes (a + 6) (store16 0) h;
          h = write_bytes (a + 4) (store16 (lwip_htons ident)) h;
          chk_sum = chk_sum + ucast (lwip_htons ident);
          h = write_bytes (a + 12) (addr_bytes src) h;
          chk_sum = chk_sum + (src AND 0xFFFF);
          chk_sum = chk_sum + drop_bit 16 src;
          chk_sum = drop_bit 16 chk_sum + (chk_sum AND 0xFFFF);
          chk_sum = drop_bit 16 chk_sum + chk_sum;
          chk_sum = NOT chk_sum
      in write_bytes (a + 10) (store16 (ucast chk_sum)) h)"

text \<open>The end of the output functions: the packet goes to the interface, in fragments when it is too long.\<close>

definition ip_transmit :: "eth_env \<Rightarrow> nat \<Rightarrow> nat \<Rightarrow> u32 \<Rightarrow> eth_state \<Rightarrow> (err_t \<times> eth_state) option" where
  "ip_transmit e p n dest s =
     do { nif \<leftarrow> netifs s n;
          b \<leftarrow> pbufs (eth_heap s) p;
          if mtu nif \<noteq> 0 \<and> tot_len b > mtu nif then ip4_frag e p n dest s
          else etharp_output e n p dest s }"

definition ip4_output_if_opt_src ::
    "eth_env \<Rightarrow> nat \<Rightarrow> u32 option \<Rightarrow> u32 option \<Rightarrow> u8 \<Rightarrow> u8 \<Rightarrow> u8 \<Rightarrow> nat \<Rightarrow> u8 list \<Rightarrow> u16 \<Rightarrow>
     eth_state \<Rightarrow> (err_t \<times> eth_state) option" where
  "ip4_output_if_opt_src e p src dest ttl tos proto n ip_options optlen s =
     do { b \<leftarrow> pbufs (eth_heap s) p;
          lwip_assert (pb_ref b = 1);
          case dest of
            Some dest \<Rightarrow>
              do { (r, h) \<leftarrow> ip_put_options p ip_options optlen (eth_heap s);
                   case r of
                     Inl err \<Rightarrow> Some (err, s\<lparr>eth_heap := h\<rparr>)
                   | Inr (chk_sum, ip_hlen) \<Rightarrow>
                       do { (failed, h) \<leftarrow> pbuf_add_header p IP_HLEN h;
                            if failed then Some (ERR_BUF, s\<lparr>eth_heap := h\<rparr>)
                            else
                              do { b \<leftarrow> pbufs h p;
                                   lwip_assert (len b \<ge> 20);
                                   let small = (proto = IP_PROTO_TCP \<and> tot_len b \<le> IP4_MIN_MTU_LENGTH);
                                       ident = (if small then 0 else ip_id (ip_st s));
                                       h = write_ip_hdr (payload b) ttl proto dest ip_hlen tos (tot_len b) ident
                                             (case src of None \<Rightarrow> IPADDR_ANY | Some src \<Rightarrow> src) chk_sum h;
                                       s = (if small then s else s\<lparr>ip_st := (ip_st s)\<lparr>ip_id := ip_id (ip_st s) + 1\<rparr>\<rparr>)
                                   in ip_transmit e p n dest (s\<lparr>eth_heap := h\<rparr>) } } }
          | None \<Rightarrow>
              if len b < 20 then Some (ERR_BUF, s)
              else ip_transmit e p n (load32 (bytes (eth_heap s)) (payload b + 16)) s }"

definition ip4_output_if_opt ::
    "eth_env \<Rightarrow> nat \<Rightarrow> u32 option \<Rightarrow> u32 option \<Rightarrow> u8 \<Rightarrow> u8 \<Rightarrow> u8 \<Rightarrow> nat \<Rightarrow> u8 list \<Rightarrow> u16 \<Rightarrow>
     eth_state \<Rightarrow> (err_t \<times> eth_state) option" where
  "ip4_output_if_opt e p src dest ttl tos proto n ip_options optlen s =
     do { src_used \<leftarrow> (if dest \<noteq> None \<and> (case src of None \<Rightarrow> True | Some a \<Rightarrow> ip4_addr_isany a)
                       then do { nif \<leftarrow> netifs s n; Some (Some (ip_addr nif)) }
                       else Some src);
          ip4_output_if_opt_src e p src_used dest ttl tos proto n ip_options optlen s }"

definition ip4_output_if ::
    "eth_env \<Rightarrow> nat \<Rightarrow> u32 option \<Rightarrow> u32 option \<Rightarrow> u8 \<Rightarrow> u8 \<Rightarrow> u8 \<Rightarrow> nat \<Rightarrow>
     eth_state \<Rightarrow> (err_t \<times> eth_state) option" where
  "ip4_output_if e p src dest ttl tos proto n s = ip4_output_if_opt e p src dest ttl tos proto n [] 0 s"

definition ip4_output_if_src ::
    "eth_env \<Rightarrow> nat \<Rightarrow> u32 option \<Rightarrow> u32 option \<Rightarrow> u8 \<Rightarrow> u8 \<Rightarrow> u8 \<Rightarrow> nat \<Rightarrow>
     eth_state \<Rightarrow> (err_t \<times> eth_state) option" where
  "ip4_output_if_src e p src dest ttl tos proto n s = ip4_output_if_opt_src e p src dest ttl tos proto n [] 0 s"

definition ip4_output ::
    "eth_env \<Rightarrow> nat \<Rightarrow> u32 option \<Rightarrow> u32 \<Rightarrow> u8 \<Rightarrow> u8 \<Rightarrow> u8 \<Rightarrow> eth_state \<Rightarrow> (err_t \<times> eth_state) option" where
  "ip4_output e p src dest ttl tos proto s =
     do { b \<leftarrow> pbufs (eth_heap s) p;
          lwip_assert (pb_ref b = 1);
          n \<leftarrow> ip4_route dest s;
          if n = 0 then Some (ERR_RTE, s) else ip4_output_if e p src (Some dest) ttl tos proto n s }"

end
