(* ===== verification/Icmp.thy ===== *)
theory Icmp
  imports Ip4
begin

text \<open>
  \<^verbatim>\<open>src/lwip/ipv4/icmp.c\<close>: echo replies and the error messages destination unreachable and time
  exceeded, for the configuration with echo replies (\<^verbatim>\<open>QNETHERNET_ENABLE_PING_REPLY\<close>), without
  replies to broadcast and multicast pings.
\<close>

abbreviation (input) ICMP_ER :: u8 where "ICMP_ER \<equiv> 0"
abbreviation (input) ICMP_DUR :: u8 where "ICMP_DUR \<equiv> 3"
abbreviation (input) ICMP_ECHO :: u8 where "ICMP_ECHO \<equiv> 8"
abbreviation (input) ICMP_TE :: u8 where "ICMP_TE \<equiv> 11"
abbreviation (input) ICMP_TTL :: u8 where "ICMP_TTL \<equiv> 255"
abbreviation (input) SIZEOF_ICMP_HDR :: nat where "SIZEOF_ICMP_HDR \<equiv> 8"

datatype icmp_dur_type =
  ICMP_DUR_NET | ICMP_DUR_HOST | ICMP_DUR_PROTO | ICMP_DUR_PORT | ICMP_DUR_FRAG | ICMP_DUR_SR

fun icmp_dur_val :: "icmp_dur_type \<Rightarrow> u8" where
  "icmp_dur_val ICMP_DUR_NET = 0"
| "icmp_dur_val ICMP_DUR_HOST = 1"
| "icmp_dur_val ICMP_DUR_PROTO = 2"
| "icmp_dur_val ICMP_DUR_PORT = 3"
| "icmp_dur_val ICMP_DUR_FRAG = 4"
| "icmp_dur_val ICMP_DUR_SR = 5"

datatype icmp_te_type = ICMP_TE_TTL | ICMP_TE_FRAG

fun icmp_te_val :: "icmp_te_type \<Rightarrow> u8" where
  "icmp_te_val ICMP_TE_TTL = 0"
| "icmp_te_val ICMP_TE_FRAG = 1"

section \<open>Error messages\<close>

text \<open>\<^verbatim>\<open>p\<close> starts with the IP header of the packet that caused the message.\<close>

definition icmp_send_response :: "eth_env \<Rightarrow> nat \<Rightarrow> u8 \<Rightarrow> u8 \<Rightarrow> eth_state \<Rightarrow> eth_state option" where
  "icmp_send_response e p type code s =
     do { b \<leftarrow> pbufs (eth_heap s) p;
          let response_pkt_len = (if tot_len b < 28 then tot_len b else 28)
          in do { (q, h) \<leftarrow> pbuf_alloc (pb_env e) PBUF_IP (8 + response_pkt_len) PBUF_RAM (eth_heap s);
                  if q = 0 then Some (s\<lparr>eth_heap := h\<rparr>)
                  else
                    do { qb \<leftarrow> pbufs h q;
                         lwip_assert (unat (len qb) \<ge> SIZEOF_ICMP_HDR + unat response_pkt_len);
                         let icmphdr = payload qb;
                             h = write_bytes icmphdr [type] h;
                             h = write_bytes (icmphdr + 1) [code] h;
                             h = write_bytes (icmphdr + 4) [0, 0, 0, 0] h
                         in do { (_, h) \<leftarrow> pbuf_copy_partial_pbuf q p response_pkt_len 8 h;
                                 let iphdr_src = load32 (bytes h) (payload b + 12)
                                 in do { n \<leftarrow> ip4_route iphdr_src s;
                                         s \<leftarrow> (if n \<noteq> 0 then
                                                 (let h = write_bytes (icmphdr + 2) (store16 0) h;
                                                      h = write_bytes (icmphdr + 2)
                                                            (store16 (inet_chksum (bytes h) icmphdr (len qb))) h
                                                  in do { (_, s) \<leftarrow> ip4_output_if e q None (Some iphdr_src) ICMP_TTL 0
                                                                      IP_PROTO_ICMP n (s\<lparr>eth_heap := h\<rparr>);
                                                          Some s })
                                               else Some (s\<lparr>eth_heap := h\<rparr>));
                                         eth_pbuf_free e q s } } } } }"

definition icmp_dest_unreach :: "eth_env \<Rightarrow> nat \<Rightarrow> icmp_dur_type \<Rightarrow> eth_state \<Rightarrow> eth_state option" where
  "icmp_dest_unreach e p t s = icmp_send_response e p ICMP_DUR (icmp_dur_val t) s"

definition icmp_time_exceeded :: "eth_env \<Rightarrow> nat \<Rightarrow> icmp_te_type \<Rightarrow> eth_state \<Rightarrow> eth_state option" where
  "icmp_time_exceeded e p t s = icmp_send_response e p ICMP_TE (icmp_te_val t) s"

section \<open>Echo\<close>

text \<open>Room for the link header in front of the ICMP message \<open>p\<close>: the packet itself, or a copy of it in a new
  buffer with the IP header in front of it. \<open>None\<close> inside the result is \<^verbatim>\<open>goto icmperr\<close>.\<close>

definition echo_room :: "eth_env \<Rightarrow> nat \<Rightarrow> nat \<Rightarrow> u16 \<Rightarrow> heap \<Rightarrow> (nat option \<times> heap) option" where
  "echo_room e p iphdr_in hlen h =
     do { (failed, h) \<leftarrow> pbuf_add_header p (unat hlen + 14) h;
          if failed then
            do { b \<leftarrow> pbufs h p;
                 let alloc_len = tot_len b + hlen
                 in if alloc_len < tot_len b then Some (None, h)
                    else
                      do { (r, h) \<leftarrow> pbuf_alloc (pb_env e) PBUF_LINK alloc_len PBUF_RAM h;
                           if r = 0 then Some (None, h)
                           else
                             do { rb \<leftarrow> pbufs h r;
                                  if unat (len rb) < unat hlen + SIZEOF_ICMP_HDR then
                                    do { (_, h) \<leftarrow> pbuf_free (pb_env e) r h; Some (None, h) }
                                  else
                                    (let h = memcpy (payload rb) iphdr_in (unat hlen) h
                                     in do { (failed, h) \<leftarrow> pbuf_remove_header r (unat hlen) h;
                                             lwip_assert (\<not> failed);
                                             (err, h) \<leftarrow> pbuf_copy r p h;
                                             if err \<noteq> ERR_OK then
                                               do { (_, h) \<leftarrow> pbuf_free (pb_env e) r h; Some (None, h) }
                                             else do { (_, h) \<leftarrow> pbuf_free (pb_env e) p h; Some (Some r, h) } }) } } }
          else
            do { (failed, h) \<leftarrow> pbuf_remove_header p (unat hlen + 14) h;
                 lwip_assert (\<not> failed);
                 Some (Some p, h) } }"

text \<open>The checksum of the request becomes the one of the reply, whose type is 0 instead of 8.\<close>

definition echo_chksum :: "u16 \<Rightarrow> u16" where
  "echo_chksum c =
     (if c > PP_HTONS (0xffff - 0x0800) then c + PP_HTONS 0x0800 + 1 else c + PP_HTONS 0x0800)"

text \<open>The request \<open>p\<close>, an ICMP message, is turned into the reply in place and sent.\<close>

definition echo_reply :: "eth_env \<Rightarrow> nat \<Rightarrow> u16 \<Rightarrow> nat \<Rightarrow> eth_state \<Rightarrow> eth_state option" where
  "echo_reply e p hlen inp s =
     do { b \<leftarrow> pbufs (eth_heap s) p;
          let iecho = payload b; src = current_iphdr_dest (ip_data (ip_st s))
          in do { (failed, h) \<leftarrow> pbuf_add_header p (unat hlen) (eth_heap s);
                  if failed then Some (s\<lparr>eth_heap := h\<rparr>)
                  else
                    do { b \<leftarrow> pbufs h p;
                         let iphdr = payload b;
                             h = write_bytes (iphdr + 12) (addr_bytes src) h;
                             h = write_bytes (iphdr + 16) (addr_bytes (current_iphdr_src (ip_data (ip_st s)))) h;
                             h = write_bytes iecho [ICMP_ER] h
                         in do { h \<leftarrow> upd_pbuf p (\<lambda>b. b\<lparr>if_idx := 0\<rparr>) h;
                                 let h = write_bytes (iecho + 2) (store16 (echo_chksum (load16 (bytes h) (iecho + 2)))) h;
                                     h = write_bytes (iphdr + 8) [ICMP_TTL] h;
                                     h = write_bytes (iphdr + 10) (store16 0) h;
                                     h = write_bytes (iphdr + 10) (store16 (inet_chksum (bytes h) iphdr hlen)) h
                                 in do { (_, s) \<leftarrow> ip4_output_if e p (Some src) None ICMP_TTL 0 IP_PROTO_ICMP inp
                                                     (s\<lparr>eth_heap := h\<rparr>);
                                         Some s } } } } }"

definition icmp_input :: "eth_env \<Rightarrow> nat \<Rightarrow> nat \<Rightarrow> eth_state \<Rightarrow> eth_state option" where
  "icmp_input e p inp s =
     (let iphdr_in = current_ip4_header (ip_data (ip_st s));
          hlen = (ucast (IPH_HL_BYTES (bytes (eth_heap s)) iphdr_in) :: u16);
          dest = current_iphdr_dest (ip_data (ip_st s))
      in do { b \<leftarrow> pbufs (eth_heap s) p;
              if hlen < 20 \<or> len b < 4 then eth_pbuf_free e p s
              else if bytes (eth_heap s) (payload b) = ICMP_ECHO then
                do { nif \<leftarrow> netifs s (current_netif (ip_data (ip_st s)));
                     if ip4_addr_ismulticast dest \<or> ip4_addr_isbroadcast_u32 dest nif \<or> tot_len b < 8
                     then eth_pbuf_free e p s
                     else
                       do { c \<leftarrow> inet_chksum_pbuf (eth_heap s) p;
                            if c \<noteq> 0 then eth_pbuf_free e p s
                            else
                              do { (r, h) \<leftarrow> echo_room e p iphdr_in hlen (eth_heap s);
                                   let s = s\<lparr>eth_heap := h\<rparr>
                                   in case r of
                                        None \<Rightarrow> eth_pbuf_free e p s
                                      | Some p \<Rightarrow> do { s \<leftarrow> echo_reply e p hlen inp s; eth_pbuf_free e p s } } } }
              else eth_pbuf_free e p s })"

end
