(* ===== verification/Ip4_Reass.thy ===== *)
theory Ip4_Reass
  imports Icmp
begin

text \<open>
  The reassembly half of \<^verbatim>\<open>src/lwip/ipv4/ip4_frag.c\<close>. A datagram in reassembly is a
  \<^verbatim>\<open>struct ip_reassdata\<close> from its pool, on the list \<^verbatim>\<open>reassdatagrams\<close>. Its fragments are
  linked through a \<^verbatim>\<open>struct ip_reass_helper\<close> that overwrites the first eight bytes of their IP headers:
  the pointer to the next fragment, and the first byte and the end of the fragment in the datagram.
\<close>

abbreviation (input) IP_REASS_FLAG_LASTFRAG :: u8 where "IP_REASS_FLAG_LASTFRAG \<equiv> 1"
abbreviation (input) IP_REASS_MAXAGE :: u8 where "IP_REASS_MAXAGE \<equiv> 15"
abbreviation (input) IP_REASS_MAX_PBUFS :: nat where "IP_REASS_MAX_PBUFS \<equiv> 10"

datatype ip_reass_validate =
    IP_REASS_VALIDATE_TELEGRAM_FINISHED | IP_REASS_VALIDATE_PBUF_QUEUED | IP_REASS_VALIDATE_PBUF_DROPPED

section \<open>Memory\<close>

text \<open>The fields of the helper structure at \<open>a\<close>.\<close>

definition iprh_next :: "(nat \<Rightarrow> u8) \<Rightarrow> nat \<Rightarrow> nat" where
  "iprh_next m a = unat (load32 m a)"

definition iprh_start :: "(nat \<Rightarrow> u8) \<Rightarrow> nat \<Rightarrow> u16" where
  "iprh_start m a = load16 m (a + 4)"

definition iprh_end :: "(nat \<Rightarrow> u8) \<Rightarrow> nat \<Rightarrow> u16" where
  "iprh_end m a = load16 m (a + 6)"

definition set_next_pbuf :: "nat \<Rightarrow> nat \<Rightarrow> heap \<Rightarrow> heap" where
  "set_next_pbuf a q h = write_bytes a (addr_bytes (word_of_nat q)) h"

text \<open>Whether two IP headers, in the memories \<open>m\<close> and \<open>m'\<close>, belong to the same datagram.\<close>

definition IP_ADDRESSES_AND_ID_MATCH :: "(nat \<Rightarrow> u8) \<Rightarrow> nat \<Rightarrow> (nat \<Rightarrow> u8) \<Rightarrow> nat \<Rightarrow> bool" where
  "IP_ADDRESSES_AND_ID_MATCH m a m' b \<longleftrightarrow>
     load32 m (a + 12) = load32 m' (b + 12) \<and> load32 m (a + 16) = load32 m' (b + 16) \<and> IPH_ID m a = IPH_ID m' b"

text \<open>Access to the state of the component.\<close>

definition upd_reassdata :: "nat \<Rightarrow> (ip_reassdata \<Rightarrow> ip_reassdata) \<Rightarrow> eth_state \<Rightarrow> eth_state option" where
  "upd_reassdata r f s =
     do { d \<leftarrow> reassdata (ip_st s) r;
          Some (s\<lparr>ip_st := (ip_st s)\<lparr>reassdata := (reassdata (ip_st s))(r \<mapsto> f d)\<rparr>\<rparr>) }"

definition set_pbufcount :: "u16 \<Rightarrow> eth_state \<Rightarrow> eth_state" where
  "set_pbufcount c s = s\<lparr>ip_st := (ip_st s)\<lparr>ip_reass_pbufcount := c\<rparr>\<rparr>"

section \<open>Removing datagrams\<close>

definition ip_reass_dequeue_datagram :: "nat \<Rightarrow> nat \<Rightarrow> eth_state \<Rightarrow> eth_state option" where
  "ip_reass_dequeue_datagram ipr prev s =
     do { d \<leftarrow> reassdata (ip_st s) ipr;
          s \<leftarrow> (if reassdatagrams (ip_st s) = ipr
                then Some (s\<lparr>ip_st := (ip_st s)\<lparr>reassdatagrams := rd_next d\<rparr>\<rparr>)
                else do { lwip_assert (prev \<noteq> 0); upd_reassdata prev (\<lambda>r. r\<lparr>rd_next := rd_next d\<rparr>) s });
          ps \<leftarrow> memp_free (pools (eth_heap s)) MEMP_REASSDATA ipr;
          Some (s\<lparr>eth_heap := (eth_heap s)\<lparr>pools := ps\<rparr>,
                  ip_st := (ip_st s)\<lparr>reassdata := (reassdata (ip_st s))(ipr := None)\<rparr>\<rparr>) }"

text \<open>The loop that frees the fragments one by one; it returns the number of buffers freed.\<close>

partial_function (option) free_frags_loop :: "eth_env \<Rightarrow> nat \<Rightarrow> u16 \<Rightarrow> eth_state \<Rightarrow> (u16 \<times> eth_state) option" where
  "free_frags_loop e p pbufs_freed s =
     (if p = 0 then Some (pbufs_freed, s)
      else
        do { b \<leftarrow> pbufs (eth_heap s) p;
             let nxt = iprh_next (bytes (eth_heap s)) (payload b)
             in do { clen \<leftarrow> pbuf_clen (eth_heap s) p;
                     lwip_assert (unat pbufs_freed + unat clen \<le> 0xffff);
                     s \<leftarrow> eth_pbuf_free e p s;
                     free_frags_loop e nxt (pbufs_freed + clen) s } })"

text \<open>When the first fragment has arrived, its sender is told that the time is exceeded.\<close>

definition report_first_frag :: "eth_env \<Rightarrow> nat \<Rightarrow> eth_state \<Rightarrow> (u16 \<times> eth_state) option" where
  "report_first_frag e ipr s =
     do { d \<leftarrow> reassdata (ip_st s) ipr;
          if rd_p d \<noteq> 0 then
            do { b \<leftarrow> pbufs (eth_heap s) (rd_p d);
                 if iprh_start (bytes (eth_heap s)) (payload b) = 0 then
                   (let p = rd_p d; nxt = iprh_next (bytes (eth_heap s)) (payload b)
                    in do { s \<leftarrow> upd_reassdata ipr (\<lambda>d. d\<lparr>rd_p := nxt\<rparr>) s;
                            s \<leftarrow> icmp_time_exceeded e p ICMP_TE_FRAG
                                  (s\<lparr>eth_heap := write_bytes (payload b) (rd_iphdr d) (eth_heap s)\<rparr>);
                            clen \<leftarrow> pbuf_clen (eth_heap s) p;
                            s \<leftarrow> eth_pbuf_free e p s;
                            Some (clen, s) })
                 else Some (0, s) }
          else Some (0, s) }"

definition ip_reass_free_complete_datagram :: "eth_env \<Rightarrow> nat \<Rightarrow> nat \<Rightarrow> eth_state \<Rightarrow> (u16 \<times> eth_state) option" where
  "ip_reass_free_complete_datagram e ipr prev s =
     do { lwip_assert (prev \<noteq> ipr);
          (if prev \<noteq> 0 then do { pd \<leftarrow> reassdata (ip_st s) prev; lwip_assert (rd_next pd = ipr) } else Some ());
          (pbufs_freed, s) \<leftarrow> report_first_frag e ipr s;
          d \<leftarrow> reassdata (ip_st s) ipr;
          (pbufs_freed, s) \<leftarrow> free_frags_loop e (rd_p d) pbufs_freed s;
          s \<leftarrow> ip_reass_dequeue_datagram ipr prev s;
          lwip_assert (ip_reass_pbufcount (ip_st s) \<ge> pbufs_freed);
          Some (pbufs_freed, set_pbufcount (ip_reass_pbufcount (ip_st s) - pbufs_freed) s) }"

partial_function (option) reass_tmr_loop :: "eth_env \<Rightarrow> nat \<Rightarrow> nat \<Rightarrow> eth_state \<Rightarrow> eth_state option" where
  "reass_tmr_loop e r prev s =
     (if r = 0 then Some s
      else
        do { d \<leftarrow> reassdata (ip_st s) r;
             if rd_timer d > 0 then
               do { s \<leftarrow> upd_reassdata r (\<lambda>d. d\<lparr>rd_timer := rd_timer d - 1\<rparr>) s;
                    reass_tmr_loop e (rd_next d) r s }
             else
               do { (_, s) \<leftarrow> ip_reass_free_complete_datagram e r prev s;
                    reass_tmr_loop e (rd_next d) prev s } })"

definition ip_reass_tmr :: "eth_env \<Rightarrow> eth_state \<Rightarrow> eth_state option" where
  "ip_reass_tmr e s = reass_tmr_loop e (reassdatagrams (ip_st s)) 0 s"

text \<open>The search for the oldest datagram other than that of \<open>fraghdr\<close>: the datagram, its predecessor and the
  number of other datagrams.\<close>

partial_function (option) find_oldest_loop ::
    "nat \<Rightarrow> eth_state \<Rightarrow> nat \<Rightarrow> nat \<Rightarrow> nat \<Rightarrow> nat \<Rightarrow> nat \<Rightarrow> (nat \<times> nat \<times> nat) option" where
  "find_oldest_loop fraghdr s r prev oldest oldest_prev other_datagrams =
     (if r = 0 then Some (oldest, oldest_prev, other_datagrams)
      else
        do { d \<leftarrow> reassdata (ip_st s) r;
             (oldest, oldest_prev, other_datagrams) \<leftarrow>
               (if \<not> IP_ADDRESSES_AND_ID_MATCH (nth (rd_iphdr d)) 0 (bytes (eth_heap s)) fraghdr then
                  if oldest = 0 then Some (r, prev, other_datagrams + 1)
                  else do { o_d \<leftarrow> reassdata (ip_st s) oldest;
                            Some (if rd_timer d \<le> rd_timer o_d then (r, prev, other_datagrams + 1)
                                  else (oldest, oldest_prev, other_datagrams + 1)) }
                else Some (oldest, oldest_prev, other_datagrams));
             find_oldest_loop fraghdr s (rd_next d) (if rd_next d \<noteq> 0 then r else prev)
               oldest oldest_prev other_datagrams })"

partial_function (option) ip_reass_remove_oldest_datagram_loop ::
    "eth_env \<Rightarrow> nat \<Rightarrow> nat \<Rightarrow> nat \<Rightarrow> eth_state \<Rightarrow> (nat \<times> eth_state) option" where
  "ip_reass_remove_oldest_datagram_loop e fraghdr pbufs_needed pbufs_freed s =
     do { (oldest, oldest_prev, other_datagrams) \<leftarrow> find_oldest_loop fraghdr s (reassdatagrams (ip_st s)) 0 0 0 0;
          (pbufs_freed, s) \<leftarrow>
            (if oldest \<noteq> 0 then
               do { (c, s) \<leftarrow> ip_reass_free_complete_datagram e oldest oldest_prev s; Some (pbufs_freed + unat c, s) }
             else Some (pbufs_freed, s));
          if pbufs_freed < pbufs_needed \<and> other_datagrams > 1
          then ip_reass_remove_oldest_datagram_loop e fraghdr pbufs_needed pbufs_freed s
          else Some (pbufs_freed, s) }"

definition ip_reass_remove_oldest_datagram :: "eth_env \<Rightarrow> nat \<Rightarrow> nat \<Rightarrow> eth_state \<Rightarrow> (nat \<times> eth_state) option" where
  "ip_reass_remove_oldest_datagram e fraghdr pbufs_needed s =
     ip_reass_remove_oldest_datagram_loop e fraghdr pbufs_needed 0 s"

section \<open>A new datagram\<close>

definition reassdata_malloc :: "eth_state \<Rightarrow> (nat \<times> eth_state) option" where
  "reassdata_malloc s =
     do { (ipr, ps) \<leftarrow> memp_malloc (pools (eth_heap s)) MEMP_REASSDATA;
          Some (ipr, s\<lparr>eth_heap := (eth_heap s)\<lparr>pools := ps\<rparr>\<rparr>) }"

definition ip_reass_enqueue_new_datagram :: "eth_env \<Rightarrow> nat \<Rightarrow> nat \<Rightarrow> eth_state \<Rightarrow> (nat \<times> eth_state) option" where
  "ip_reass_enqueue_new_datagram e fraghdr clen s =
     do { (ipr, s) \<leftarrow> reassdata_malloc s;
          (ipr, s) \<leftarrow>
            (if ipr = 0 then
               do { (freed, s) \<leftarrow> ip_reass_remove_oldest_datagram e fraghdr clen s;
                    if freed \<ge> clen then reassdata_malloc s else Some (0, s) }
             else Some (ipr, s));
          if ipr = 0 then Some (0, s)
          else
            (let d = \<lparr>rd_next = reassdatagrams (ip_st s), rd_p = 0, rd_iphdr = rd (eth_heap s) fraghdr IP_HLEN,
                      datagram_len = 0, rd_flags = 0, rd_timer = IP_REASS_MAXAGE\<rparr>
             in Some (ipr, s\<lparr>ip_st := (ip_st s)\<lparr>reassdatagrams := ipr,
                                 reassdata := (reassdata (ip_st s))(ipr \<mapsto> d)\<rparr>\<rparr>)) }"

section \<open>A new fragment\<close>

text \<open>The outcome of the search for the place of the new fragment: it is dropped, or it goes in
  behind the fragment \<open>prev\<close> (a helper, 0 for none); \<open>valid\<close> says that there is no hole among the
  fragments passed. In both cases \<open>q\<close> is the fragment that the new one has been linked to, 0 for none.\<close>

datatype place = Drop nat | Place nat nat bool

partial_function (option) chain_place_loop ::
    "heap \<Rightarrow> u16 \<Rightarrow> u16 \<Rightarrow> nat \<Rightarrow> nat \<Rightarrow> bool \<Rightarrow> place option" where
  "chain_place_loop h start fin q iprh_prev valid =
     (if q = 0 then Some (Place iprh_prev 0 valid)
      else
        do { b \<leftarrow> pbufs h q;
             let iprh_tmp = payload b; m = bytes h
             in if start < iprh_start m iprh_tmp then
                  if iprh_prev \<noteq> 0 then
                    if start < iprh_end m iprh_prev \<or> fin > iprh_start m iprh_tmp then Some (Drop q)
                    else Some (Place iprh_prev q valid)
                  else if fin > iprh_start m iprh_tmp then Some (Drop q)
                  else Some (Place 0 q valid)
                else if start = iprh_start m iprh_tmp then Some (Drop 0)
                else if start < iprh_end m iprh_tmp then Some (Drop 0)
                else chain_place_loop h start fin (iprh_next m iprh_tmp) iprh_tmp
                       (valid \<and> (iprh_prev \<noteq> 0 \<longrightarrow> iprh_end m iprh_prev = iprh_start m iprh_tmp)) })"

text \<open>The loop that looks for holes behind the new fragment; it returns the last helper visited.\<close>

partial_function (option) no_holes_loop :: "heap \<Rightarrow> nat \<Rightarrow> nat \<Rightarrow> (bool \<times> nat) option" where
  "no_holes_loop h iprh q =
     (if q = 0 then Some (True, iprh)
      else
        do { b \<leftarrow> pbufs h q;
             if iprh_end (bytes h) iprh \<noteq> iprh_start (bytes h) (payload b) then Some (False, payload b)
             else no_holes_loop h (payload b) (iprh_next (bytes h) (payload b)) })"

text \<open>The validation at the end: whether all fragments of the datagram, whose first one is \<open>p\<close>, are present.\<close>

definition chain_validate :: "nat \<Rightarrow> nat \<Rightarrow> bool \<Rightarrow> heap \<Rightarrow> bool option" where
  "chain_validate p iprh valid h =
     (if \<not> valid then Some False
      else if p = 0 then Some False
      else
        do { b \<leftarrow> pbufs h p;
             if iprh_start (bytes h) (payload b) \<noteq> 0 then Some False
             else
               do { (valid, iprh) \<leftarrow> no_holes_loop h iprh (iprh_next (bytes h) iprh);
                    (if valid then
                       do { lwip_assert (payload b \<noteq> iprh); lwip_assert (iprh_next (bytes h) iprh = 0) }
                     else Some ());
                    Some valid } })"

definition ip_reass_chain_frag_into_datagram_and_validate ::
    "nat \<Rightarrow> nat \<Rightarrow> bool \<Rightarrow> eth_state \<Rightarrow> (ip_reass_validate \<times> eth_state) option" where
  "ip_reass_chain_frag_into_datagram_and_validate ipr new_p is_last s =
     do { nb \<leftarrow> pbufs (eth_heap s) new_p;
          d \<leftarrow> reassdata (ip_st s) ipr;
          let iprh = payload nb; m = bytes (eth_heap s);
              frag_len = lwip_htons (IPH_LEN m iprh); hlen = IPH_HL_BYTES m iprh
          in if ucast hlen > frag_len then Some (IP_REASS_VALIDATE_PBUF_DROPPED, s)
             else
               (let frag_len = frag_len - ucast hlen; offset = IPH_OFFSET_BYTES m iprh; fin = offset + frag_len;
                    h = set_next_pbuf iprh 0 (eth_heap s);
                    h = write_bytes (iprh + 4) (store16 offset) h;
                    h = write_bytes (iprh + 6) (store16 fin) h
                in if fin < offset then Some (IP_REASS_VALIDATE_PBUF_DROPPED, s\<lparr>eth_heap := h\<rparr>)
                   else
                     do { r \<leftarrow> chain_place_loop h offset fin (rd_p d) 0 True;
                          case r of
                            Drop q \<Rightarrow> Some (IP_REASS_VALIDATE_PBUF_DROPPED, s\<lparr>eth_heap := set_next_pbuf iprh q h\<rparr>)
                          | Place iprh_prev q valid \<Rightarrow>
                              (let h = set_next_pbuf iprh q h
                               in do { (valid, s) \<leftarrow>
                                         (if iprh_prev \<noteq> 0 then
                                            do { lwip_assert (q = 0 \<longrightarrow> iprh_end (bytes h) iprh_prev \<le> offset);
                                                 let h = set_next_pbuf iprh_prev new_p h
                                                 in Some (valid \<and> iprh_end (bytes h) iprh_prev = offset,
                                                          s\<lparr>eth_heap := h\<rparr>) }
                                          else
                                            do { lwip_assert (q = 0 \<longrightarrow> rd_p d = 0);
                                                 s \<leftarrow> upd_reassdata ipr (\<lambda>d. d\<lparr>rd_p := new_p\<rparr>) (s\<lparr>eth_heap := h\<rparr>);
                                                 Some (valid, s) });
                                       d \<leftarrow> reassdata (ip_st s) ipr;
                                       if is_last \<or> rd_flags d AND IP_REASS_FLAG_LASTFRAG \<noteq> 0 then
                                         do { valid \<leftarrow> chain_validate (rd_p d) iprh valid (eth_heap s);
                                              Some (if valid then IP_REASS_VALIDATE_TELEGRAM_FINISHED
                                                    else IP_REASS_VALIDATE_PBUF_QUEUED, s) }
                                       else Some (IP_REASS_VALIDATE_PBUF_QUEUED, s) }) }) }"

section \<open>Reassembly\<close>

text \<open>The search for the datagram of a fragment; 0 for none.\<close>

partial_function (option) find_datagram_loop :: "nat \<Rightarrow> eth_state \<Rightarrow> nat \<Rightarrow> nat option" where
  "find_datagram_loop fraghdr s ipr =
     (if ipr = 0 then Some 0
      else
        do { d \<leftarrow> reassdata (ip_st s) ipr;
             if IP_ADDRESSES_AND_ID_MATCH (nth (rd_iphdr d)) 0 (bytes (eth_heap s)) fraghdr then Some ipr
             else find_datagram_loop fraghdr s (rd_next d) })"

text \<open>The search for the predecessor of a datagram.\<close>

partial_function (option) find_prev_loop :: "nat \<Rightarrow> eth_state \<Rightarrow> nat \<Rightarrow> nat option" where
  "find_prev_loop ipr s prev =
     (if prev = 0 then Some 0
      else do { d \<leftarrow> reassdata (ip_st s) prev;
                if rd_next d = ipr then Some prev else find_prev_loop ipr s (rd_next d) })"

text \<open>The loop that chains the fragments from \<open>r\<close> on behind \<open>p\<close>.\<close>

partial_function (option) cat_frags_loop :: "nat \<Rightarrow> nat \<Rightarrow> heap \<Rightarrow> heap option" where
  "cat_frags_loop p r h =
     (if r = 0 then Some h
      else
        do { b \<leftarrow> pbufs h r;
             (_, h) \<leftarrow> pbuf_remove_header r IP_HLEN h;
             h \<leftarrow> pbuf_cat p r h;
             cat_frags_loop p (iprh_next (bytes h) (payload b)) h })"

text \<open>A complete datagram: its header is restored, its fragments are chained and its entry is released.\<close>

definition reass_restore_header :: "nat \<Rightarrow> u8 list \<Rightarrow> u16 \<Rightarrow> heap \<Rightarrow> heap" where
  "reass_restore_header fraghdr iphdr total_len h =
     (let h = write_bytes fraghdr iphdr h;
          h = write_bytes (fraghdr + 2) (store16 (lwip_htons total_len)) h;
          h = write_bytes (fraghdr + 6) (store16 0) h;
          h = write_bytes (fraghdr + 10) (store16 0) h
      in write_bytes (fraghdr + 10) (store16 (inet_chksum (bytes h) fraghdr 20)) h)"

definition reass_finish :: "nat \<Rightarrow> eth_state \<Rightarrow> (nat \<times> eth_state) option" where
  "reass_finish ipr s =
     do { d \<leftarrow> reassdata (ip_st s) ipr;
          b \<leftarrow> pbufs (eth_heap s) (rd_p d);
          let total_len = datagram_len d + 20;
              r = iprh_next (bytes (eth_heap s)) (payload b);
              h = reass_restore_header (payload b) (rd_iphdr d) total_len (eth_heap s)
          in do { h \<leftarrow> cat_frags_loop (rd_p d) r h;
                  let s = s\<lparr>eth_heap := h\<rparr>
                  in do { ipr_prev \<leftarrow> (if ipr = reassdatagrams (ip_st s) then Some 0
                                        else find_prev_loop ipr s (reassdatagrams (ip_st s)));
                          s \<leftarrow> ip_reass_dequeue_datagram ipr ipr_prev s;
                          clen \<leftarrow> pbuf_clen (eth_heap s) (rd_p d);
                          lwip_assert (ip_reass_pbufcount (ip_st s) \<ge> clen);
                          Some (rd_p d, set_pbufcount (ip_reass_pbufcount (ip_st s) - clen) s) } } }"

text \<open>The two error exits: \<^verbatim>\<open>nullreturn\<close> and \<^verbatim>\<open>nullreturn_ipr\<close>.\<close>

definition reass_nullreturn :: "eth_env \<Rightarrow> nat \<Rightarrow> eth_state \<Rightarrow> (nat \<times> eth_state) option" where
  "reass_nullreturn e p s = do { s \<leftarrow> eth_pbuf_free e p s; Some (0, s) }"

definition reass_nullreturn_ipr :: "eth_env \<Rightarrow> nat \<Rightarrow> nat \<Rightarrow> eth_state \<Rightarrow> (nat \<times> eth_state) option" where
  "reass_nullreturn_ipr e p ipr s =
     do { lwip_assert (ipr \<noteq> 0);
          d \<leftarrow> reassdata (ip_st s) ipr;
          s \<leftarrow> (if rd_p d = 0 then
                  do { lwip_assert (ipr = reassdatagrams (ip_st s)); ip_reass_dequeue_datagram ipr 0 s }
                else Some s);
          reass_nullreturn e p s }"

text \<open>From the datagram's entry \<open>ipr\<close> on.\<close>

definition reass_insert :: "eth_env \<Rightarrow> nat \<Rightarrow> nat \<Rightarrow> u16 \<Rightarrow> u16 \<Rightarrow> u16 \<Rightarrow> eth_state \<Rightarrow> (nat \<times> eth_state) option" where
  "reass_insert e p ipr offset frag_len clen s =
     do { b \<leftarrow> pbufs (eth_heap s) p;
          let is_last = (IPH_OFFSET (bytes (eth_heap s)) (payload b) AND PP_HTONS IP_MF = 0);
              total_len = offset + frag_len
          in if is_last \<and> (total_len < offset \<or> unat total_len > 0xFFFF - IP_HLEN) then reass_nullreturn_ipr e p ipr s
             else
               do { (valid, s) \<leftarrow> ip_reass_chain_frag_into_datagram_and_validate ipr p is_last s;
                    if valid = IP_REASS_VALIDATE_PBUF_DROPPED then reass_nullreturn_ipr e p ipr s
                    else
                      (let s = set_pbufcount (ip_reass_pbufcount (ip_st s) + clen) s
                       in do { s \<leftarrow> (if is_last then
                                       upd_reassdata ipr (\<lambda>d. d\<lparr>datagram_len := total_len,
                                         rd_flags := rd_flags d OR IP_REASS_FLAG_LASTFRAG\<rparr>) s
                                     else Some s);
                               if valid = IP_REASS_VALIDATE_TELEGRAM_FINISHED then reass_finish ipr s
                               else Some (0, s) }) } }"

definition ip4_reass :: "eth_env \<Rightarrow> nat \<Rightarrow> eth_state \<Rightarrow> (nat \<times> eth_state) option" where
  "ip4_reass e p s =
     do { b \<leftarrow> pbufs (eth_heap s) p;
          let fraghdr = payload b; m = bytes (eth_heap s); hlen = IPH_HL_BYTES m fraghdr;
              offset = IPH_OFFSET_BYTES m fraghdr; frag_len = lwip_htons (IPH_LEN m fraghdr)
          in if hlen \<noteq> 20 then reass_nullreturn e p s
             else if ucast hlen > frag_len then reass_nullreturn e p s
             else
               do { clen \<leftarrow> pbuf_clen (eth_heap s) p;
                    (overflow, s) \<leftarrow>
                      (if unat (ip_reass_pbufcount (ip_st s)) + unat clen > IP_REASS_MAX_PBUFS then
                         do { (freed, s) \<leftarrow> ip_reass_remove_oldest_datagram e fraghdr (unat clen) s;
                              Some (freed = 0 \<or> unat (ip_reass_pbufcount (ip_st s)) + unat clen > IP_REASS_MAX_PBUFS, s) }
                       else Some (False, s));
                    if overflow then reass_nullreturn e p s
                    else
                      do { ipr \<leftarrow> find_datagram_loop fraghdr s (reassdatagrams (ip_st s));
                           (ipr, s) \<leftarrow>
                             (if ipr = 0 then ip_reass_enqueue_new_datagram e fraghdr (unat clen) s
                              else
                                do { d \<leftarrow> reassdata (ip_st s) ipr;
                                     s \<leftarrow> (if lwip_htons (IPH_OFFSET (bytes (eth_heap s)) fraghdr) AND IP_OFFMASK = 0 \<and>
                                              lwip_htons (IPH_OFFSET (nth (rd_iphdr d)) 0) AND IP_OFFMASK \<noteq> 0
                                           then upd_reassdata ipr (\<lambda>d. d\<lparr>rd_iphdr := rd (eth_heap s) fraghdr IP_HLEN\<rparr>) s
                                           else Some s);
                                     Some (ipr, s) });
                           if ipr = 0 then reass_nullreturn e p s
                           else reass_insert e p ipr offset (frag_len - ucast hlen) clen s } } }"

end
