(* ===== verification/Ip4_Frags.thy ===== *)
theory Ip4_Frags
  imports Ip4_Reass Etharp_Input
begin

text \<open>
  The fragments of a datagram as a sorted list of intervals (\<open>frag\<close>), the memory that represents such
  a list (\<open>frags_of\<close>), and the insertion of a fragment:
  \<^verbatim>\<open>ip_reass_chain_frag_into_datagram_and_validate\<close> refines \<open>frag_insert\<close>.
\<close>

section \<open>Intervals\<close>

record frag =
  fr_as :: "nat list"
  fr_start :: u16
  fr_end :: u16

definition fr_p :: "frag \<Rightarrow> nat" where
  "fr_p f = hd (fr_as f)"

definition before :: "frag \<Rightarrow> frag \<Rightarrow> bool" where
  "before f g \<longleftrightarrow> fr_start f < fr_start g \<and> fr_end f \<le> fr_start g"

text \<open>Two fragments that cannot both be kept: they start at the same byte or overlap.\<close>

definition clash :: "frag \<Rightarrow> frag \<Rightarrow> bool" where
  "clash f g \<longleftrightarrow> fr_start f = fr_start g \<or> (fr_start f < fr_end g \<and> fr_start g < fr_end f)"

definition frag_insert :: "frag \<Rightarrow> frag list \<Rightarrow> frag list" where
  "frag_insert f fs = takeWhile (\<lambda>g. fr_start g < fr_start f) fs @ f # dropWhile (\<lambda>g. fr_start g < fr_start f) fs"

text \<open>No hole between consecutive fragments, the first of which continues \<open>eo\<close>.\<close>

fun linked :: "u16 option \<Rightarrow> frag list \<Rightarrow> bool" where
  "linked eo [] \<longleftrightarrow> True"
| "linked eo (f # fs) \<longleftrightarrow> (case eo of None \<Rightarrow> True | Some e \<Rightarrow> e = fr_start f) \<and> linked (Some (fr_end f)) fs"

definition complete :: "frag list \<Rightarrow> bool" where
  "complete fs \<longleftrightarrow> fs \<noteq> [] \<and> linked (Some 0) fs"

lemma linked_append:
  "linked eo (fs @ gs) \<longleftrightarrow> linked eo fs \<and> linked (if fs = [] then eo else Some (fr_end (last fs))) gs"
  by (induction eo fs rule: linked.induct) auto

lemma linked_start: "linked (Some e) fs \<longleftrightarrow> linked None fs \<and> (fs \<noteq> [] \<longrightarrow> fr_start (hd fs) = e)"
  by (cases fs) auto

lemma set_frag_insert [simp]: "set (frag_insert f fs) = insert f (set fs)"
proof -
  have "set (takeWhile P fs) \<union> set (dropWhile P fs) = set fs" for P
    by (metis set_append takeWhile_dropWhile_id)
  then show ?thesis by (auto simp: frag_insert_def)
qed

lemma frag_insert_neq_Nil [simp]: "frag_insert f fs \<noteq> []"
  by (simp add: frag_insert_def)

lemma sorted_before_last:
  assumes "sorted_wrt before fs" "g \<in> set fs"
  shows "g = last fs \<or> before g (last fs)"
proof -
  have "fs \<noteq> []" using assms(2) by auto
  then have "fs = butlast fs @ [last fs]" by simp
  then show ?thesis using assms by (metis in_set_butlastD sorted_wrt_append Un_iff empty_iff insert_iff list.set set_append)
qed

lemma takeWhile_starts:
  assumes "sorted_wrt before fs" "g \<in> set (dropWhile (\<lambda>g. fr_start g < st) fs)"
  shows "st \<le> fr_start g"
proof -
  let ?r = "dropWhile (\<lambda>g. fr_start g < st) fs"
  have ne: "?r \<noteq> []" using assms(2) by (metis empty_iff list.set(1))
  then have h: "st \<le> fr_start (hd ?r)" using hd_dropWhile [OF ne] by simp
  have "sorted_wrt before ?r" using assms(1) sorted_wrt_dropWhile by blast
  then have "g = hd ?r \<or> before (hd ?r) g" using assms(2) by (cases ?r) auto
  then show ?thesis using h by (auto simp: before_def)
qed

lemma frag_insert_sorted:
  assumes s: "sorted_wrt before fs" and new: "\<not> (\<exists>g \<in> set fs. clash f g)"
    and ok: "fr_start f \<le> fr_end f" "\<forall>g \<in> set fs. fr_start g \<le> fr_end g"
  shows "sorted_wrt before (frag_insert f fs)"
proof -
  let ?P = "\<lambda>g. fr_start g < fr_start f"
  have lo: "before g f" if g: "g \<in> set (takeWhile ?P fs)" for g
  proof -
    have "g \<in> set fs" "fr_start g < fr_start f" using g by (auto dest: set_takeWhileD)
    then have "\<not> clash f g" "fr_start g < fr_end f" using new ok by auto
    then show ?thesis using \<open>fr_start g < fr_start f\<close> by (auto simp: before_def clash_def not_less)
  qed
  have hi: "before f g" if g: "g \<in> set (dropWhile ?P fs)" for g
  proof -
    have m: "g \<in> set fs" using g by (meson set_dropWhileD)
    have "fr_start f \<le> fr_start g" using takeWhile_starts [OF s g] .
    moreover have "\<not> clash f g" "fr_start g \<le> fr_end g" using new ok m by auto
    ultimately show ?thesis by (auto simp: before_def clash_def not_less)
  qed
  have app: "sorted_wrt before (takeWhile ?P fs @ dropWhile ?P fs)" using s by simp
  show ?thesis
    unfolding frag_insert_def
    using app lo hi by (auto simp: sorted_wrt_append simp del: takeWhile_dropWhile_id)
qed

section \<open>Fragments in memory\<close>

definition frag_next :: "heap \<Rightarrow> nat \<Rightarrow> nat" where
  "frag_next h p = iprh_next (bytes h) (payload (the (pbufs h p)))"

definition frag_ok :: "heap \<Rightarrow> frag \<Rightarrow> bool" where
  "frag_ok h f \<longleftrightarrow>
     packet h (fr_p f) (fr_as f) \<and> 20 \<le> plen h (fr_p f) \<and> fr_p f < 4294967296 \<and>
     iprh_start (bytes h) (payload (the (pbufs h (fr_p f)))) = fr_start f \<and>
     iprh_end (bytes h) (payload (the (pbufs h (fr_p f)))) = fr_end f \<and> fr_start f \<le> fr_end f \<and>
     payload (the (pbufs h (fr_p f))) \<noteq> 0 \<and>
     length (pdata h (fr_as f)) = 20 + (unat (fr_end f) - unat (fr_start f))"

definition frags_of :: "heap \<Rightarrow> nat \<Rightarrow> frag list \<Rightarrow> bool" where
  "frags_of h q fs \<longleftrightarrow> lchain (frag_next h) q (map fr_p fs) \<and> (\<forall>f \<in> set fs. frag_ok h f)"

definition all_as :: "frag list \<Rightarrow> nat list" where
  "all_as fs = concat (map fr_as fs)"

lemma all_as_simps [simp]:
  "all_as [] = []" "all_as (f # fs) = fr_as f @ all_as fs" "all_as (fs @ gs) = all_as fs @ all_as gs"
  by (simp_all add: all_as_def)

lemma frag_ok_head:
  assumes "frag_ok h f"
  obtains b as where "fr_as f = fr_p f # as" "pbufs h (fr_p f) = Some b" "fr_p f \<noteq> 0" "20 \<le> unat (len b)"
  using assms by (auto simp: frag_ok_def plen_def elim!: packet_head)

lemma fr_p_in: "frag_ok h f \<Longrightarrow> fr_p f \<in> set (fr_as f)"
  by (erule frag_ok_head) simp

lemma frags_of_Cons:
  "frags_of h q (f # fs) \<longleftrightarrow> q = fr_p f \<and> q \<noteq> 0 \<and> frag_ok h f \<and> frags_of h (frag_next h q) fs"
  by (auto simp: frags_of_def)

lemma frags_of_Nil [simp]: "frags_of h q [] \<longleftrightarrow> q = 0"
  by (simp add: frags_of_def)

subsection \<open>The search for the place\<close>

lemma chain_place_loop_spec:
  assumes "frags_of h q fs" "sorted_wrt before fs" "st \<le> en"
    and "case po of None \<Rightarrow> prev = 0 | Some e \<Rightarrow> prev \<noteq> 0 \<and> iprh_end (bytes h) prev = e \<and> e \<le> st"
  shows "let pre = takeWhile (\<lambda>g. fr_start g < st) fs; post = dropWhile (\<lambda>g. fr_start g < st) fs in
     if \<exists>g \<in> set fs. clash \<lparr>fr_as = [], fr_start = st, fr_end = en\<rparr> g
     then \<exists>d. chain_place_loop h st en q prev valid = Some (Drop d) \<and> (d = 0 \<or> d \<in> fr_p ` set fs)
     else chain_place_loop h st en q prev valid =
       Some (Place (if pre = [] then prev else payload (the (pbufs h (fr_p (last pre)))))
              (if post = [] then 0 else fr_p (hd post)) (valid \<and> linked po pre))"
  using assms
proof (induction fs arbitrary: q prev valid po)
  case Nil
  then show ?case by (simp add: chain_place_loop.simps)
next
  case (Cons f fs)
  define new :: frag where "new = \<lparr>fr_as = [], fr_start = st, fr_end = en\<rparr>"
  have new: "fr_start new = st" "fr_end new = en" by (simp_all add: new_def)
  have q: "q = fr_p f" "q \<noteq> 0" "frag_ok h f" "frags_of h (frag_next h q) fs"
    using Cons.prems(1) by (auto simp: frags_of_Cons)
  obtain b where b: "pbufs h q = Some b" using q by (auto elim: frag_ok_head)
  have m: "iprh_start (bytes h) (payload b) = fr_start f" "iprh_end (bytes h) (payload b) = fr_end f"
    "payload b \<noteq> 0" "fr_start f \<le> fr_end f" "frag_next h q = iprh_next (bytes h) (payload b)"
    using q b by (auto simp: frag_ok_def frag_next_def)
  have later: "before f g" if "g \<in> set fs" for g using Cons.prems(2) that by simp
  have prev: "prev = 0 \<longrightarrow> po = None" "prev \<noteq> 0 \<longrightarrow> (\<exists>e. po = Some e \<and> iprh_end (bytes h) prev = e \<and> e \<le> st)"
    using Cons.prems(4) by (cases po; simp)+
  consider (lt) "st < fr_start f" | (eq) "st = fr_start f" | (over) "fr_start f < st" "st < fr_end f"
    | (pass) "fr_start f < st" "fr_end f \<le> st" by fastforce
  then show ?case
  proof cases
    case lt
    have later': "\<not> clash new g" if "g \<in> set fs" "en \<le> fr_start f" for g
    proof -
      have "st < fr_start g" "en \<le> fr_start g" using later [OF that(1)] lt that(2) m(4) by (auto simp: before_def)
      then show ?thesis using new by (auto simp: clash_def)
    qed
    have c: "clash new f \<longleftrightarrow> fr_start f < en" using lt m(4) new by (auto simp: clash_def)
    have "chain_place_loop h st en q prev valid =
       (if fr_start f < en then Some (Drop q) else Some (Place prev q valid))"
      using q(2) b m lt prev by (subst chain_place_loop.simps) (auto simp: Let_def not_less)
    moreover have "(\<exists>g \<in> set (f # fs). clash new g) \<longleftrightarrow> fr_start f < en" using c later' by (auto simp: not_less)
    ultimately show ?thesis using lt q(1) by (auto simp: new_def [symmetric])
  next
    case eq
    have "clash new f" using eq new by (simp add: clash_def)
    moreover have "chain_place_loop h st en q prev valid = Some (Drop 0)"
      using q(2) b m eq by (subst chain_place_loop.simps) (simp add: Let_def)
    ultimately show ?thesis by (auto simp: new_def [symmetric])
  next
    case over
    have "fr_start f < en" using over Cons.prems(3) by simp
    then have "clash new f" using over new by (simp add: clash_def)
    moreover have "chain_place_loop h st en q prev valid = Some (Drop 0)"
      using q(2) b m over by (subst chain_place_loop.simps) (auto simp: Let_def)
    ultimately show ?thesis by (auto simp: new_def [symmetric])
  next
    case pass
    have nc: "\<not> clash new f" using pass new by (auto simp: clash_def)
    define v where "v = (valid \<and> (prev \<noteq> 0 \<longrightarrow> iprh_end (bytes h) prev = fr_start f))"
    have step: "chain_place_loop h st en q prev valid = chain_place_loop h st en (frag_next h q) (payload b) v"
      using q(2) b m pass by (subst chain_place_loop.simps) (auto simp: Let_def v_def)
    have v: "v \<longleftrightarrow> valid \<and> (case po of None \<Rightarrow> True | Some e \<Rightarrow> e = fr_start f)"
      using prev by (cases "prev = 0") (auto simp: v_def)
    have "sorted_wrt before fs" using Cons.prems(2) by simp
    note IH = Cons.IH [OF q(4) this Cons.prems(3), where po = "Some (fr_end f)" and prev = "payload b" and valid = v]
    have pl: "payload (the (pbufs h (fr_p f))) = payload b" using b q(1) by simp
    have any: "(\<exists>g \<in> set (f # fs). clash new g) \<longleftrightarrow> (\<exists>g \<in> set fs. clash new g)" using nc by simp
    have pre: "(case Some (fr_end f) of None \<Rightarrow> payload b = 0
        | Some e \<Rightarrow> payload b \<noteq> 0 \<and> iprh_end (bytes h) (payload b) = e \<and> e \<le> st)" using m pass by simp
    note IH = IH [OF pre, folded new_def, unfolded Let_def]
    show ?thesis
    proof (cases "\<exists>g \<in> set fs. clash new g")
      case True
      then obtain d where "chain_place_loop h st en (frag_next h q) (payload b) v = Some (Drop d)" "d = 0 \<or> d \<in> fr_p ` set fs"
        using IH by auto
      then show ?thesis using True unfolding step new_def [symmetric] any Let_def by (simp only: if_True) auto
    next
      case False
      then show ?thesis using IH pass v pl unfolding step new_def [symmetric] any Let_def by (auto simp: last_conv_nth)
    qed
  qed
qed

subsection \<open>Reading and writing the helper\<close>

lemma load_write_outside:
  "a + 2 \<le> b \<or> b + length xs \<le> a \<Longrightarrow> load16 (bytes (write_bytes b xs h)) a = load16 (bytes h) a"
  "a + 4 \<le> b \<or> b + length xs \<le> a \<Longrightarrow> load32 (bytes (write_bytes b xs h)) a = load32 (bytes h) a"
  by (auto simp: load16_def load32_def bytes_write)

lemma load16_store16: "load16 (bytes (write_bytes a (store16 w) h)) a = w"
proof -
  have "rd (write_bytes a (store16 w) h) a (length (store16 w)) = store16 w" by (rule rd_write_same)
  moreover have "store16 w = be16 (lwip_htons w)" using store16_htons(1) [of "lwip_htons w"] by simp
  ultimately show ?thesis
    using load16_be16 [of _ a "lwip_htons w"] lwip_htons_involutive [of w] by (simp add: lwip_htons_def)
qed

lemma load32_addr_write: "load32 (bytes (write_bytes a (addr_bytes x) h)) a = x"
  using rd_write_same [of a "addr_bytes x" h] by (intro load32_addr_bytes) simp

lemma length_store16 [simp]: "length (store16 w) = 2"
  by (simp add: store16_def)

lemma set_next_pbuf_reads:
  "q < 4294967296 \<Longrightarrow> iprh_next (bytes (set_next_pbuf a q h)) a = q"
  "iprh_start (bytes (set_next_pbuf a q h)) a = iprh_start (bytes h) a"
  "iprh_end (bytes (set_next_pbuf a q h)) a = iprh_end (bytes h) a"
  by (simp_all add: set_next_pbuf_def iprh_next_def iprh_start_def iprh_end_def load32_addr_write load_write_outside
        unsigned_of_nat take_bit_nat_eq_self)

lemma set_next_pbuf_only: "{a..<a + 4} \<subseteq> R \<Longrightarrow> writes_only R h (set_next_pbuf a q h)"
  unfolding set_next_pbuf_def by (rule writes_only_write) simp

lemma iprh_frame:
  assumes "writes_only R h h'" "{a..<a + 8} \<inter> R = {}"
  shows "iprh_next (bytes h') a = iprh_next (bytes h) a" "iprh_start (bytes h') a = iprh_start (bytes h) a"
    "iprh_end (bytes h') a = iprh_end (bytes h) a"
proof -
  have b: "bytes h' x = bytes h x" if "a \<le> x" "x < a + 8" for x
    using assms that by (auto simp: writes_only_def disjoint_iff)
  show "iprh_next (bytes h') a = iprh_next (bytes h) a" "iprh_start (bytes h') a = iprh_start (bytes h) a"
    "iprh_end (bytes h') a = iprh_end (bytes h) a"
    by (simp_all add: iprh_next_def iprh_start_def iprh_end_def load16_def load32_def b)
qed

text \<open>The helper of the fragment whose first buffer is \<open>p\<close>.\<close>

definition hdr8 :: "heap \<Rightarrow> nat \<Rightarrow> nat set" where
  "hdr8 h p = {payload (the (pbufs h p))..<payload (the (pbufs h p)) + 8}"

lemma hdr8_region: "20 \<le> plen h p \<Longrightarrow> hdr8 h p \<subseteq> payload_region h p"
  by (auto simp: hdr8_def payload_region_def)

lemma hdr8_apart:
  assumes "heap_inv h" "owned h (x # as)" "20 \<le> plen h x" "x \<notin> set as"
  shows "packet_region h as \<inter> hdr8 h x = {}"
proof -
  have "payload_region h a \<inter> payload_region h x = {}" if a: "a \<in> set as" for a
  proof -
    obtain y where y: "pbufs h a = Some y" "pbuf_owner y = Own_pool \<or> pbuf_owner y = Own_heap"
      using assms(2) a by (auto simp: owned_def)
    obtain z where z: "pbufs h x = Some z" "pbuf_owner z = Own_pool \<or> pbuf_owner z = Own_heap"
      using assms(2) by (auto simp: owned_def)
    show ?thesis using owned_disjoint [OF assms(1) y z] assms(4) a by blast
  qed
  then show ?thesis using hdr8_region [OF assms(3)] by (auto simp: packet_region_def)
qed

text \<open>A write into one helper leaves the other fragments alone.\<close>

lemma frag_other:
  assumes f: "frag_ok h f" and inv: "heap_inv h" and own: "owned h (x # fr_as f)" and x: "20 \<le> plen h x" "x \<notin> set (fr_as f)"
    and w: "writes_only (hdr8 h x) h h'"
  shows "frag_ok h' f" "frag_next h' (fr_p f) = frag_next h (fr_p f)" "pdata h' (fr_as f) = pdata h (fr_as f)"
proof -
  let ?a = "payload (the (pbufs h (fr_p f)))"
  have ap: "packet_region h (fr_as f) \<inter> hdr8 h x = {}" using hdr8_apart [OF inv own x] .
  show pd: "pdata h' (fr_as f) = pdata h (fr_as f)" using writes_only_pdata [OF w ap] .
  have "20 \<le> plen h (fr_p f)" using f by (simp add: frag_ok_def)
  then have "{?a..<?a + 8} \<subseteq> packet_region h (fr_as f)"
    using hdr8_region [of h "fr_p f"] fr_p_in [OF f] by (auto simp: hdr8_def packet_region_def)
  then have "{?a..<?a + 8} \<inter> hdr8 h x = {}" using ap by blast
  note fr = iprh_frame [OF w this]
  show "frag_next h' (fr_p f) = frag_next h (fr_p f)"
    using fr by (simp add: frag_next_def writes_only_simps [OF w])
  show "frag_ok h' f"
    using f fr pd by (simp add: frag_ok_def writes_only_simps [OF w] writes_only_packet [OF w])
qed

lemma frag_data_keeps:
  assumes f: "packet h p (p # as)" and inv: "heap_inv h" and own: "owned h (p # as)" and l: "20 \<le> plen h p"
    and w: "writes_only (hdr8 h p) h h'"
  shows "drop 20 (pdata h' (p # as)) = drop 20 (pdata h (p # as))" "length (pdata h' (p # as)) = length (pdata h (p # as))"
proof -
  let ?a = "payload (the (pbufs h p))"
  have "packet_region h as \<inter> hdr8 h p = {}" using hdr8_apart [OF inv own l packet_head_fresh [OF f]] .
  then have tl: "pdata h' as = pdata h as" by (rule writes_only_pdata [OF w])
  have "rd h' (?a + 20) (plen h p - 20) = rd h (?a + 20) (plen h p - 20)"
    by (rule writes_only_rd [OF w]) (auto simp: hdr8_def)
  then have "drop 20 (pbytes h' p) = drop 20 (pbytes h p)"
    by (simp add: pbytes_def drop_rd writes_only_simps [OF w])
  then show "drop 20 (pdata h' (p # as)) = drop 20 (pdata h (p # as))" using l tl by (simp add: writes_only_simps [OF w])
  show "length (pdata h' (p # as)) = length (pdata h (p # as))"
    by (rule length_pdata_cong) (simp add: writes_only_simps [OF w])
qed

lemma frag_relinked:
  assumes f: "frag_ok h f" and inv: "heap_inv h" and own: "owned h (fr_as f)" and q: "q < 4294967296"
    and h': "h' = set_next_pbuf (payload (the (pbufs h (fr_p f)))) q h"
  shows "frag_ok h' f" "frag_next h' (fr_p f) = q" "drop 20 (pdata h' (fr_as f)) = drop 20 (pdata h (fr_as f))"
    "writes_only (hdr8 h (fr_p f)) h h'"
proof -
  show w: "writes_only (hdr8 h (fr_p f)) h h'" unfolding h' by (rule set_next_pbuf_only) (auto simp: hdr8_def)
  obtain as where as: "fr_as f = fr_p f # as" using f by (rule frag_ok_head)
  have "packet h (fr_p f) (fr_p f # as)" "20 \<le> plen h (fr_p f)" "owned h (fr_p f # as)"
    using f own by (simp_all add: frag_ok_def as)
  note k = frag_data_keeps [OF this(1) inv this(3,2) w]
  show "drop 20 (pdata h' (fr_as f)) = drop 20 (pdata h (fr_as f))" using k(1) by (simp add: as)
  show "frag_next h' (fr_p f) = q" using q by (simp add: frag_next_def writes_only_simps [OF w]) (simp add: h' set_next_pbuf_reads)
  show "frag_ok h' f"
    using f k(2) by (simp add: frag_ok_def writes_only_simps [OF w] writes_only_packet [OF w] as [symmetric])
      (simp add: h' set_next_pbuf_reads)
qed

end
