(* ===== verification/Ip4_Chain.thy ===== *)
theory Ip4_Chain
  imports Ip4_Frags
begin

text \<open>
  The queue of fragments of a datagram in memory (\<open>reass_queue\<close>) and what
  \<^verbatim>\<open>ip_reass_chain_frag_into_datagram_and_validate\<close> does with it: a fragment that clashes with a queued one is
  dropped, any other is inserted at its place, and the datagram is finished exactly when it has no hole.
\<close>

definition reass_queue :: "heap \<Rightarrow> nat \<Rightarrow> frag list \<Rightarrow> bool" where
  "reass_queue h q fs \<longleftrightarrow>
     frags_of h q fs \<and> sorted_wrt before fs \<and> distinct (all_as fs) \<and> owned h (all_as fs)"

section \<open>Links\<close>

lemma lchain_splice:
  assumes "lchain nx q (as @ bs)" "x \<noteq> 0" "x \<notin> set as" "x \<notin> set bs"
    and "nx' x = (if bs = [] then 0 else hd bs)" "as \<noteq> [] \<Longrightarrow> nx' (last as) = x"
    and "\<forall>a \<in> set as \<union> set bs. (as = [] \<or> a \<noteq> last as) \<longrightarrow> nx' a = nx a" "distinct (as @ bs)"
  shows "lchain nx' (if as = [] then x else q) (as @ x # bs)"
  using assms
proof (induction as arbitrary: q)
  case Nil
  have same: "lchain nx' p bs' = lchain nx p bs'" if "set bs' \<subseteq> set bs" for p bs'
    using that Nil.prems(7) by (induction bs' arbitrary: p) auto
  show ?case
  proof (cases bs)
    case Nil
    then show ?thesis using assms(2) Nil.prems(5) by simp
  next
    case (Cons b bs')
    have "lchain nx q bs" using Nil.prems(1) by simp
    then have "lchain nx' b bs" using same [of bs b] Cons by simp
    then show ?thesis using Nil.prems(2,5) Cons by simp
  qed
next
  case (Cons a as)
  show ?case
  proof (cases "as = []")
    case True
    have same: "lchain nx' p bs' = lchain nx p bs'" if "set bs' \<subseteq> set bs" for p bs'
      using that Cons.prems(7,8) True by (induction bs' arbitrary: p) auto
    have "lchain nx (nx a) bs" using Cons.prems(1) True by simp
    then have "lchain nx' (if bs = [] then 0 else hd bs) bs" using same [of bs] by (cases bs) auto
    then show ?thesis using Cons.prems True by simp
  next
    case False
    have "a \<noteq> last as" using Cons.prems(8) False by auto
    then have nx: "nx' a = nx a" using Cons.prems(7) False by auto
    have "lchain nx' (if as = [] then x else nx a) (as @ x # bs)"
      using Cons.prems False by (intro Cons.IH) auto
    then show ?thesis using Cons.prems(1) False nx by simp
  qed
qed

lemma frags_of_last: "frags_of h q fs \<Longrightarrow> fs \<noteq> [] \<Longrightarrow> frag_next h (fr_p (last fs)) = 0"
proof (induction fs arbitrary: q)
  case (Cons f fs)
  then show ?case by (cases fs) (auto simp: frags_of_Cons)
qed simp

lemma frags_of_append2: "frags_of h q (fs @ g # gs) \<Longrightarrow> frags_of h (fr_p g) (g # gs)"
  by (induction fs arbitrary: q) (auto simp: frags_of_Cons)

lemma frags_ok: "frags_of h q fs \<Longrightarrow> f \<in> set fs \<Longrightarrow> frag_ok h f"
  by (simp add: frags_of_def)

lemma before_irrefl [simp]: "\<not> before f f"
  by (simp add: before_def)

lemma all_as_disjoint:
  assumes "distinct (all_as fs)" "f \<in> set fs" "g \<in> set fs" "f \<noteq> g"
  shows "set (fr_as f) \<inter> set (fr_as g) = {}"
proof -
  obtain xs ys where fs: "fs = xs @ f # ys" using assms(2) by (meson split_list)
  have sub: "set (fr_as g) \<subseteq> set (all_as hs)" if "g \<in> set hs" for hs using that by (induction hs) auto
  have "g \<in> set xs \<or> g \<in> set ys" using assms(3,4) fs by auto
  then have "set (fr_as g) \<subseteq> set (all_as xs) \<union> set (all_as ys)" using sub by blast
  then show ?thesis using assms(1) unfolding fs by auto
qed

lemma fr_as_all: "f \<in> set fs \<Longrightarrow> set (fr_as f) \<subseteq> set (all_as fs)"
  by (induction fs) auto

lemma set_all_as: "set (all_as fs) = (\<Union>f \<in> set fs. set (fr_as f))"
  by (induction fs) auto

lemma owned_mono: "owned h as \<Longrightarrow> set bs \<subseteq> set as \<Longrightarrow> owned h bs"
  by (auto simp: owned_def)

lemma owned_frame: "pbufs h' = pbufs h \<Longrightarrow> owned h' as = owned h as"
  by (simp add: owned_def)

section \<open>The loops\<close>

lemma no_holes_loop_spec:
  "frags_of h q fs \<Longrightarrow> \<exists>a'. no_holes_loop h a q = Some (linked (Some (iprh_end (bytes h) a)) fs, a') \<and>
     (linked (Some (iprh_end (bytes h) a)) fs \<longrightarrow> a' = (if fs = [] then a else payload (the (pbufs h (fr_p (last fs))))))"
proof (induction fs arbitrary: q a)
  case Nil
  then show ?case by (simp add: no_holes_loop.simps)
next
  case (Cons f fs)
  have q: "q = fr_p f" "q \<noteq> 0" "frag_ok h f" "frags_of h (frag_next h q) fs"
    using Cons.prems by (auto simp: frags_of_Cons)
  obtain b where b: "pbufs h q = Some b" using q by (auto elim: frag_ok_head)
  have m: "iprh_start (bytes h) (payload b) = fr_start f" "iprh_end (bytes h) (payload b) = fr_end f"
    "frag_next h q = iprh_next (bytes h) (payload b)"
    using q b by (auto simp: frag_ok_def frag_next_def)
  show ?case
  proof (cases "iprh_end (bytes h) a = fr_start f")
    case True
    have "no_holes_loop h a q = no_holes_loop h (payload b) (frag_next h q)"
      using q(2) b m True by (subst no_holes_loop.simps) simp
    then show ?thesis using Cons.IH [OF q(4), of "payload b"] True m b q(1) by auto
  next
    case False
    then have "no_holes_loop h a q = Some (False, payload b)"
      using q(2) b m by (subst no_holes_loop.simps) simp
    then show ?thesis using False by simp
  qed
qed

section \<open>Insertion\<close>

lemma distinct_frag_insert:
  assumes "distinct (fr_as new @ all_as fs)"
  shows "distinct (all_as (frag_insert new fs))"
proof -
  let ?P = "\<lambda>g. fr_start g < fr_start new"
  have "all_as fs = all_as (takeWhile ?P fs) @ all_as (dropWhile ?P fs)"
    by (metis all_as_simps(3) takeWhile_dropWhile_id)
  then show ?thesis using assms by (auto simp: frag_insert_def)
qed

lemma fr_p_distinct:
  assumes "frags_of h q fs" "distinct (all_as fs)" "f \<in> set fs" "g \<in> set fs" "f \<noteq> g"
  shows "fr_p f \<noteq> fr_p g" "fr_p f \<notin> set (fr_as g)"
  using all_as_disjoint [OF assms(2-5)] fr_p_in [OF frags_ok [OF assms(1,3)]] fr_p_in [OF frags_ok [OF assms(1,4)]] by auto

text \<open>What the two stores that link the new fragment in make of the queue.\<close>

definition link_frag :: "frag \<Rightarrow> frag list \<Rightarrow> heap \<Rightarrow> heap" where
  "link_frag new fs h =
     (let pre = takeWhile (\<lambda>g. fr_start g < fr_start new) fs; post = dropWhile (\<lambda>g. fr_start g < fr_start new) fs;
          h1 = set_next_pbuf (payload (the (pbufs h (fr_p new)))) (if post = [] then 0 else fr_p (hd post)) h
      in if pre = [] then h1 else set_next_pbuf (payload (the (pbufs h (fr_p (last pre))))) (fr_p new) h1)"

definition insertable :: "heap \<Rightarrow> nat \<Rightarrow> frag list \<Rightarrow> frag \<Rightarrow> bool" where
  "insertable h q fs new \<longleftrightarrow>
     reass_queue h q fs \<and> heap_inv h \<and> frag_ok h new \<and> owned h (fr_as new) \<and> distinct (fr_as new @ all_as fs)"

lemma insertableD:
  assumes "insertable h q fs new"
  shows "reass_queue h q fs" "heap_inv h" "frag_ok h new" "owned h (fr_as new)" "distinct (fr_as new @ all_as fs)"
  using assms by (auto simp: insertable_def)

lemma new_apart:
  "insertable h q fs new \<Longrightarrow> f \<in> set fs \<Longrightarrow> fr_p new \<notin> set (fr_as f) \<and> fr_p f \<notin> set (fr_as new) \<and> fr_p f \<noteq> fr_p new"
  using fr_p_in [of h new] fr_p_in [of h f] fr_as_all [of f fs]
  by (auto simp: insertable_def reass_queue_def frags_of_def)

lemma link_new:
  fixes r :: nat
  assumes ins: "insertable h q fs new" and r: "r < 4294967296"
    and h1: "h1 = set_next_pbuf (payload (the (pbufs h (fr_p new)))) r h"
  shows "\<And>f. f \<in> set fs \<Longrightarrow> frag_ok h1 f \<and> frag_next h1 (fr_p f) = frag_next h (fr_p f) \<and> pdata h1 (fr_as f) = pdata h (fr_as f)"
    "frag_ok h1 new" "frag_next h1 (fr_p new) = r" "drop 20 (pdata h1 (fr_as new)) = drop 20 (pdata h (fr_as new))"
    "writes_only (hdr8 h (fr_p new)) h h1"
proof -
  note apart = new_apart [OF ins] and ins = insertableD [OF ins]
  note k = frag_relinked [OF ins(3,2,4) r h1]
  then show "frag_ok h1 new" "frag_next h1 (fr_p new) = r" "drop 20 (pdata h1 (fr_as new)) = drop 20 (pdata h (fr_as new))"
    "writes_only (hdr8 h (fr_p new)) h h1" by auto
  fix f assume f: "f \<in> set fs"
  have "owned h (fr_p new # fr_as f)"
    using ins(1,4) fr_p_in [OF ins(3)] fr_as_all [OF f] by (auto simp: owned_def reass_queue_def)
  moreover have "frag_ok h f" "20 \<le> plen h (fr_p new)" using ins(1,3) f by (auto simp: reass_queue_def frags_of_def frag_ok_def)
  ultimately show "frag_ok h1 f \<and> frag_next h1 (fr_p f) = frag_next h (fr_p f) \<and> pdata h1 (fr_as f) = pdata h (fr_as f)"
    using frag_other [OF _ ins(2) _ _ _ k(4), of f] apart [OF f] by auto
qed

lemma link_prev:
  assumes q1: "\<And>f. f \<in> set (new # fs) \<Longrightarrow> frag_ok h1 f" and inv: "heap_inv h1" and own: "owned h1 (fr_as new @ all_as fs)"
    and dist: "distinct (fr_as new @ all_as fs)" and g: "g \<in> set fs"
    and h2: "h2 = set_next_pbuf (payload (the (pbufs h1 (fr_p g)))) (fr_p new) h1"
  shows "\<And>f. f \<in> set (new # fs) \<Longrightarrow> frag_ok h2 f \<and> frag_next h2 (fr_p f) = (if f = g then fr_p new else frag_next h1 (fr_p f)) \<and>
       drop 20 (pdata h2 (fr_as f)) = drop 20 (pdata h1 (fr_as f))"
    "writes_only (hdr8 h1 (fr_p g)) h1 h2"
proof -
  have og: "owned h1 (fr_as g)" by (rule owned_mono [OF own]) (use fr_as_all [OF g] in auto)
  have r: "fr_p new < 4294967296" using q1 [of new] by (simp add: frag_ok_def)
  note k = frag_relinked [OF q1 inv og r h2]
  then show w: "writes_only (hdr8 h1 (fr_p g)) h1 h2" using g by simp
  fix f assume f: "f \<in> set (new # fs)"
  show "frag_ok h2 f \<and> frag_next h2 (fr_p f) = (if f = g then fr_p new else frag_next h1 (fr_p f)) \<and>
       drop 20 (pdata h2 (fr_as f)) = drop 20 (pdata h1 (fr_as f))"
  proof (cases "f = g")
    case True
    then show ?thesis using k g by simp
  next
    case False
    have "owned h1 (fr_p g # fr_as f)"
      using own fr_p_in [OF q1 [of g]] fr_as_all [OF g] f g by (intro owned_mono [OF own]) (auto dest: fr_as_all)
    moreover have "fr_p g \<notin> set (fr_as f)"
    proof -
      have "distinct (all_as (new # fs))" using dist by simp
      from all_as_disjoint [OF this, of g f] show ?thesis using f g False fr_p_in [OF q1 [of g]] by auto
    qed
    moreover have "20 \<le> plen h1 (fr_p g)" using q1 [of g] g by (simp add: frag_ok_def)
    ultimately show ?thesis using frag_other [OF q1 [OF f] inv _ _ _ w] False by simp
  qed
qed

text \<open>All bytes that link a queue.\<close>

definition helpers :: "heap \<Rightarrow> frag list \<Rightarrow> nat set" where
  "helpers h fs = (\<Union>f \<in> set fs. hdr8 h (fr_p f))"

text \<open>The fragments before and behind the place of the new one, and the successor of the new one.\<close>

abbreviation (input) lower :: "frag \<Rightarrow> frag list \<Rightarrow> frag list" where
  "lower new fs \<equiv> takeWhile (\<lambda>g. fr_start g < fr_start new) fs"

abbreviation (input) upper :: "frag \<Rightarrow> frag list \<Rightarrow> frag list" where
  "upper new fs \<equiv> dropWhile (\<lambda>g. fr_start g < fr_start new) fs"

definition succ_of :: "frag \<Rightarrow> frag list \<Rightarrow> nat" where
  "succ_of new fs = (if upper new fs = [] then 0 else fr_p (hd (upper new fs)))"

lemma succ_of_less:
  assumes "frags_of h q fs"
  shows "succ_of new fs < 4294967296"
proof (cases "upper new fs = []")
  case False
  then have "hd (upper new fs) \<in> set (upper new fs)" by (rule hd_in_set)
  then have "hd (upper new fs) \<in> set fs" by (meson set_dropWhileD)
  then show ?thesis using frags_ok [OF assms] False by (auto simp: succ_of_def frag_ok_def)
qed (simp add: succ_of_def)

lemma last_lower: "lower new fs \<noteq> [] \<Longrightarrow> last (lower new fs) \<in> set fs"
  by (metis last_in_set set_takeWhileD)

lemma link_frag_each:
  assumes ins: "insertable h q fs new" and h2: "h2 = link_frag new fs h" and f: "f \<in> set (new # fs)"
  shows "frag_ok h2 f \<and> drop 20 (pdata h2 (fr_as f)) = drop 20 (pdata h (fr_as f)) \<and>
      writes_only (helpers h (new # fs)) h h2 \<and> frag_next h2 (fr_p f) =
        (if f = new then succ_of new fs else if lower new fs \<noteq> [] \<and> f = last (lower new fs) then fr_p new else frag_next h (fr_p f))"
proof -
  let ?g = "last (lower new fs)"
  define h1 where "h1 = set_next_pbuf (payload (the (pbufs h (fr_p new)))) (succ_of new fs) h"
  have h2': "h2 = (if lower new fs = [] then h1 else set_next_pbuf (payload (the (pbufs h (fr_p ?g)))) (fr_p new) h1)"
    unfolding h2 link_frag_def Let_def h1_def succ_of_def by simp
  note d = insertableD [OF ins]
  have "succ_of new fs < 4294967296" using d(1) succ_of_less by (auto simp: reass_queue_def)
  note k1 = link_new [OF ins this h1_def]
  have pb1: "pbufs h1 = pbufs h" using writes_only_simps(1) [OF k1(5)] .
  have one: "frag_ok h1 f \<and> frag_next h1 (fr_p f) = (if f = new then succ_of new fs else frag_next h (fr_p f)) \<and>
      drop 20 (pdata h1 (fr_as f)) = drop 20 (pdata h (fr_as f))" if "f \<in> set (new # fs)" for f
    using that k1 new_apart [OF ins, of f] by auto
  show ?thesis
  proof (cases "lower new fs = []")
    case True
    then have "h2 = h1" by (simp add: h2')
    then show ?thesis using one [OF f] True writes_only_mono [OF k1(5)] by (auto simp: helpers_def)
  next
    case False
    have g: "?g \<in> set fs" using last_lower [OF False] .
    have h2'': "h2 = set_next_pbuf (payload (the (pbufs h1 (fr_p ?g)))) (fr_p new) h1" using False by (simp add: h2' pb1)
    have "owned h1 (fr_as new @ all_as fs)" using d(1,4) by (auto simp: owned_def pb1 reass_queue_def)
    note k2 = link_prev [OF _ _ this d(5) g h2'']
    have inv1: "heap_inv h1" using heap_inv_writes [OF k1(5)] d(2) by simp
    have ne: "?g \<noteq> new" using new_apart [OF ins g] by auto
    have sub: "hdr8 h (fr_p new) \<subseteq> helpers h (new # fs)" "hdr8 h (fr_p ?g) \<subseteq> helpers h (new # fs)"
      using g by (auto simp: helpers_def)
    have "writes_only (hdr8 h (fr_p ?g)) h1 h2" using k2(2) one inv1 by (auto simp: hdr8_def pb1)
    then have "writes_only (helpers h (new # fs)) h h2"
      using writes_only_trans [OF writes_only_mono [OF k1(5) sub(1)] writes_only_mono [OF _ sub(2)]] by blast
    then show ?thesis using k2(1) [OF _ inv1 f] one f False ne by auto
  qed
qed

lemma link_frag_chain:
  assumes ins: "insertable h q fs new" and h2: "h2 = link_frag new fs h"
  shows "lchain (frag_next h2) (if lower new fs = [] then fr_p new else q) (map fr_p (frag_insert new fs))"
proof -
  let ?pre = "lower new fs" and ?post = "upper new fs"
  have fo: "frags_of h q fs" using insertableD(1) [OF ins] by (simp add: reass_queue_def)
  have sub: "set ?pre \<union> set ?post = set fs" 
    using set_append [of ?pre ?post] by simp
  have "lchain (frag_next h2) (if map fr_p ?pre = [] then fr_p new else q) (map fr_p ?pre @ fr_p new # map fr_p ?post)"
  proof (rule lchain_splice [where nx = "frag_next h"])
    show "lchain (frag_next h) q (map fr_p ?pre @ map fr_p ?post)"
      using fo by (simp add: frags_of_def flip: map_append)
    show "fr_p new \<noteq> 0" using insertableD(3) [OF ins] by (rule frag_ok_head)
    have "fr_p new \<notin> fr_p ` set fs" using new_apart [OF ins] by (metis imageE)
    then show "fr_p new \<notin> set (map fr_p ?pre)" "fr_p new \<notin> set (map fr_p ?post)" using sub by auto
    show "frag_next h2 (fr_p new) = (if map fr_p ?post = [] then 0 else hd (map fr_p ?post))"
      using link_frag_each [OF ins h2, of new] by (simp add: succ_of_def hd_map del: dropWhile_eq_Nil_conv)
    show "frag_next h2 (last (map fr_p ?pre)) = fr_p new" if ne: "map fr_p ?pre \<noteq> []"
    proof -
      have "?pre \<noteq> []" using ne by simp
      then have l: "last ?pre \<in> set fs" by (rule last_lower)
      then have "last ?pre \<noteq> new" using new_apart [OF ins l] by auto
      then show ?thesis using link_frag_each [OF ins h2, of "last ?pre"] \<open>?pre \<noteq> []\<close> l by (simp add: last_map)
    qed
    show "\<forall>a \<in> set (map fr_p ?pre) \<union> set (map fr_p ?post). (map fr_p ?pre = [] \<or> a \<noteq> last (map fr_p ?pre)) \<longrightarrow>
        frag_next h2 a = frag_next h a"
    proof (intro ballI impI)
      fix a assume a: "a \<in> set (map fr_p ?pre) \<union> set (map fr_p ?post)" and l: "map fr_p ?pre = [] \<or> a \<noteq> last (map fr_p ?pre)"
      then obtain f where f: "f \<in> set fs" "a = fr_p f" using sub by auto
      have "?pre \<noteq> [] \<longrightarrow> f \<noteq> last ?pre" "f \<noteq> new" using l f new_apart [OF ins f(1)] by (auto simp: last_map)
      then show "frag_next h2 a = frag_next h a" using link_frag_each [OF ins h2, of f] f by auto
    qed
    have "distinct (map fr_p fs)" using fo lchain_distinct by (auto simp: frags_of_def)
    then show "distinct (map fr_p ?pre @ map fr_p ?post)" by (simp flip: map_append)
  qed
  then show ?thesis by (simp add: frag_insert_def)
qed

lemma link_frag_spec:
  assumes ins: "insertable h q fs new" and nc: "\<not> (\<exists>g \<in> set fs. clash new g)" and h2: "h2 = link_frag new fs h"
  shows "reass_queue h2 (if lower new fs = [] then fr_p new else q) (frag_insert new fs)" "heap_inv h2"
    "\<And>f. f \<in> set (new # fs) \<Longrightarrow> drop 20 (pdata h2 (fr_as f)) = drop 20 (pdata h (fr_as f))"
    "writes_only (helpers h (new # fs)) h h2"
proof -
  note d = insertableD [OF ins] and each = link_frag_each [OF ins h2]
  show w: "writes_only (helpers h (new # fs)) h h2" using each [of new] by simp
  then show "heap_inv h2" using heap_inv_writes d(2) by blast
  show "drop 20 (pdata h2 (fr_as f)) = drop 20 (pdata h (fr_as f))" if "f \<in> set (new # fs)" for f using each [OF that] by blast
  have "sorted_wrt before (frag_insert new fs)"
    using d(1,3) nc by (intro frag_insert_sorted) (auto simp: reass_queue_def frags_of_def frag_ok_def)
  moreover have "owned h2 (all_as (frag_insert new fs))"
    unfolding owned_frame [OF writes_only_simps(1) [OF w]]
    using d(1,4) by (auto simp: owned_def set_all_as reass_queue_def)
  ultimately show "reass_queue h2 (if lower new fs = [] then fr_p new else q) (frag_insert new fs)"
    using link_frag_chain [OF ins h2] each distinct_frag_insert [OF d(5)] by (auto simp: reass_queue_def frags_of_def)
qed

section \<open>Validation\<close>

lemma linked_complete: "complete (f # fs) \<longleftrightarrow> fr_start f = 0 \<and> linked (Some (fr_end f)) fs"
  by (auto simp: complete_def)

lemma payload_distinct:
  assumes q: "reass_queue h q fs" and inv: "heap_inv h" and f: "f \<in> set fs" "g \<in> set fs" "f \<noteq> g"
  shows "payload (the (pbufs h (fr_p f))) \<noteq> payload (the (pbufs h (fr_p g)))"
proof -
  have fo: "frags_of h q fs" "distinct (all_as fs)" "owned h (all_as fs)" using q by (auto simp: reass_queue_def)
  have o: "\<exists>b. pbufs h (fr_p f) = Some b \<and> (pbuf_owner b = Own_pool \<or> pbuf_owner b = Own_heap)" if "f \<in> set fs" for f
    using fo(3) fr_p_in [OF frags_ok [OF fo(1) that]] fr_as_all [OF that] by (auto simp: owned_def)
  obtain x y where "pbufs h (fr_p f) = Some x" "pbuf_owner x = Own_pool \<or> pbuf_owner x = Own_heap"
    "pbufs h (fr_p g) = Some y" "pbuf_owner y = Own_pool \<or> pbuf_owner y = Own_heap" using o f(1,2) by meson
  from owned_disjoint [OF inv this] have "payload_region h (fr_p f) \<inter> payload_region h (fr_p g) = {}"
    using fr_p_distinct(1) [OF fo(1,2) f] by blast
  moreover have "20 \<le> plen h (fr_p f)" "20 \<le> plen h (fr_p g)" using frags_ok [OF fo(1)] f by (auto simp: frag_ok_def)
  ultimately show ?thesis by (fastforce simp: payload_region_def)
qed

lemma chain_validate_spec:
  assumes q: "reass_queue h q (pre @ new # post)" and inv: "heap_inv h" and v: "v \<longleftrightarrow> linked None (pre @ [new])"
    and two: "pre \<noteq> [] \<or> post \<noteq> [] \<or> fr_start new \<noteq> 0"
  shows "chain_validate q (payload (the (pbufs h (fr_p new)))) v h = Some (complete (pre @ new # post))"
proof -
  let ?gs = "pre @ new # post" and ?a = "payload (the (pbufs h (fr_p new)))"
  define f where "f = hd ?gs"
  have f: "f \<in> set ?gs" unfolding f_def by (rule hd_in_set) simp
  have fo: "frags_of h q ?gs" using q by (simp add: reass_queue_def)
  have fok: "frag_ok h f" "frag_ok h new" using frags_ok [OF fo] f by auto
  have qf: "q = fr_p f" "q \<noteq> 0" using fo by (cases pre; auto simp: frags_of_Cons f_def)+
  obtain b where b: "pbufs h q = Some b" using fok(1) qf by (auto elim: frag_ok_head)
  have st: "iprh_start (bytes h) (payload b) = fr_start f" and en: "iprh_end (bytes h) ?a = fr_end new"
    using fok b qf by (auto simp: frag_ok_def)
  have nx: "frags_of h (iprh_next (bytes h) ?a) post"
    using frags_of_append2 [OF fo] by (simp add: frags_of_Cons frag_next_def)
  have all: "linked None ?gs \<longleftrightarrow> v \<and> linked (Some (fr_end new)) post" unfolding v by (auto simp: linked_append)
  have comp: "complete ?gs \<longleftrightarrow> linked None ?gs \<and> fr_start f = 0"
    unfolding complete_def linked_start [of 0] by (simp add: f_def)
  obtain a' where a': "no_holes_loop h ?a (iprh_next (bytes h) ?a) = Some (linked (Some (fr_end new)) post, a')"
    "linked (Some (fr_end new)) post \<longrightarrow> a' = payload (the (pbufs h (fr_p (last ?gs))))"
    using no_holes_loop_spec [OF nx, of ?a] en by (auto split: if_splits)
  have "payload b \<noteq> a' \<and> iprh_next (bytes h) a' = 0" if h: "linked (Some (fr_end new)) post" "fr_start f = 0"
  proof -
    have "sorted_wrt before ?gs" using q by (simp add: reass_queue_def)
    then have "f \<noteq> last ?gs" using two h(2) by (cases pre; cases post rule: rev_cases) (auto simp: f_def sorted_wrt_append)
    then have "payload b \<noteq> a'" using payload_distinct [OF q inv f, of "last ?gs"] b qf a'(2) h by simp
    then show ?thesis using frags_of_last [OF fo] a'(2) h by (auto simp: frag_next_def)
  qed
  then show ?thesis
    using qf(2) b st a'(1) all comp by (auto simp: chain_validate_def)
qed

section \<open>An incoming fragment\<close>

text \<open>A packet whose IP header, of 20 bytes, is that of a fragment that fits into the u16 offsets.\<close>

definition frag_of :: "heap \<Rightarrow> nat \<Rightarrow> nat list \<Rightarrow> frag" where
  "frag_of h p as =
     (let m = bytes h; a = payload (the (pbufs h p)); st = IPH_OFFSET_BYTES m a
      in \<lparr>fr_as = as, fr_start = st, fr_end = st + (lwip_htons (IPH_LEN m a) - 20)\<rparr>)"

definition fragment :: "heap \<Rightarrow> nat \<Rightarrow> nat list \<Rightarrow> bool" where
  "fragment h p as \<longleftrightarrow>
     (let m = bytes h; a = payload (the (pbufs h p))
      in packet h p as \<and> 20 \<le> plen h p \<and> p < 4294967296 \<and> a \<noteq> 0 \<and> IPH_HL_BYTES m a = 20 \<and>
         unat (lwip_htons (IPH_LEN m a)) = length (pdata h as) \<and>
         unat (IPH_OFFSET_BYTES m a) + (length (pdata h as) - 20) < 65536)"

lemma frag_of_simps [simp]: "fr_as (frag_of h p as) = as" "fragment h p as \<Longrightarrow> fr_p (frag_of h p as) = p"
  by (auto simp: frag_of_def fragment_def Let_def fr_p_def elim: packet_head)

lemma packet_plen: "packet h p as \<Longrightarrow> plen h p \<le> length (pdata h as)"
  by (erule packet_head) simp

lemma frag_of_end:
  assumes "fragment h p as"
  shows "unat (fr_end (frag_of h p as)) = unat (fr_start (frag_of h p as)) + (length (pdata h as) - 20)"
    "fr_start (frag_of h p as) \<le> fr_end (frag_of h p as)" "20 \<le> length (pdata h as)"
proof -
  let ?a = "payload (the (pbufs h p))"
  have f: "unat (lwip_htons (IPH_LEN (bytes h) ?a)) = length (pdata h as)" "20 \<le> plen h p" "packet h p as"
    "unat (IPH_OFFSET_BYTES (bytes h) ?a) + (length (pdata h as) - 20) < 65536"
    using assms by (auto simp: fragment_def Let_def)
  show l: "20 \<le> length (pdata h as)" using packet_plen [OF f(3)] f(2) by simp
  have n: "unat (lwip_htons (IPH_LEN (bytes h) ?a) - 20) = length (pdata h as) - 20"
    using f(1) l unat_sub [of 20 "lwip_htons (IPH_LEN (bytes h) ?a)"] by (simp add: word_le_nat_alt)
  have e: "unat (IPH_OFFSET_BYTES (bytes h) ?a + (lwip_htons (IPH_LEN (bytes h) ?a) - 20)) =
      unat (IPH_OFFSET_BYTES (bytes h) ?a) + (length (pdata h as) - 20)"
    using unat_add_no_wrap [of "IPH_OFFSET_BYTES (bytes h) ?a" "lwip_htons (IPH_LEN (bytes h) ?a) - 20"] f(4) n by simp
  then show "unat (fr_end (frag_of h p as)) = unat (fr_start (frag_of h p as)) + (length (pdata h as) - 20)"
    by (simp add: frag_of_def Let_def)
  then show "fr_start (frag_of h p as) \<le> fr_end (frag_of h p as)" by (simp add: word_le_nat_alt)
qed

text \<open>The heap after the helper has been written over the header.\<close>

definition put_helper :: "nat \<Rightarrow> u16 \<Rightarrow> u16 \<Rightarrow> heap \<Rightarrow> heap" where
  "put_helper a st en h = write_bytes (a + 6) (store16 en) (write_bytes (a + 4) (store16 st) (set_next_pbuf a 0 h))"

lemma put_helper_reads:
  "iprh_start (bytes (put_helper a st en h)) a = st" "iprh_end (bytes (put_helper a st en h)) a = en"
  by (simp_all add: put_helper_def iprh_start_def iprh_end_def load16_store16 load_write_outside)

lemma put_helper_only: "writes_only {a..<a + 8} h (put_helper a st en h)"
proof -
  have "writes_only {a..<a + 8} h (set_next_pbuf a 0 h)" by (rule set_next_pbuf_only) simp
  moreover have "writes_only {a..<a + 8} g (write_bytes (a + k) (store16 w) g)" if "k + 2 \<le> 8" for g k w
    using that by (intro writes_only_write) auto
  from this [of 4] this [of 6] have "writes_only {a..<a + 8} g (write_bytes (a + 4) (store16 w) g)"
    "writes_only {a..<a + 8} g (write_bytes (a + 6) (store16 w) g)" for g w by simp_all
  ultimately show ?thesis unfolding put_helper_def by (meson writes_only_trans)
qed

lemma put_helper_insertable:
  assumes q: "reass_queue h q fs" and inv: "heap_inv h" and p: "fragment h p as" and own: "owned h as"
    and dist: "set as \<inter> set (all_as fs) = {}"
    and h1: "h1 = put_helper (payload (the (pbufs h p))) (fr_start (frag_of h p as)) (fr_end (frag_of h p as)) h"
  shows "insertable h1 q fs (frag_of h p as)" "drop 20 (pdata h1 as) = drop 20 (pdata h as)"
    "\<And>f. f \<in> set fs \<Longrightarrow> pdata h1 (fr_as f) = pdata h (fr_as f)" "writes_only (hdr8 h p) h h1"
proof -
  let ?new = "frag_of h p as"
  show w: "writes_only (hdr8 h p) h h1" unfolding h1 hdr8_def by (rule put_helper_only)
  have pk: "packet h p as" "20 \<le> plen h p" "p < 4294967296" "payload (the (pbufs h p)) \<noteq> 0" using p by (auto simp: fragment_def Let_def)
  obtain as' where as: "as = p # as'" using pk(1) by (rule packet_head)
  note k = frag_data_keeps [OF pk(1) [unfolded as] inv own [unfolded as] pk(2) w, folded as]
  show "drop 20 (pdata h1 as) = drop 20 (pdata h as)" by (rule k(1))
  have new: "frag_ok h1 ?new"
    using pk k(2) frag_of_end [OF p] put_helper_reads [of "payload (the (pbufs h p))" "fr_start ?new" "fr_end ?new" h, folded h1]
    by (simp add: frag_ok_def frag_of_simps(2) [OF p] writes_only_simps [OF w] writes_only_packet [OF w])
  have other: "frag_ok h1 f \<and> frag_next h1 (fr_p f) = frag_next h (fr_p f) \<and> pdata h1 (fr_as f) = pdata h (fr_as f)"
    if f: "f \<in> set fs" for f
  proof -
    have "owned h (p # fr_as f)" using own q fr_as_all [OF f] as by (auto simp: owned_def reass_queue_def)
    moreover have "p \<notin> set (fr_as f)" using dist as fr_as_all [OF f] by auto
    moreover have "frag_ok h f" using q f by (auto simp: reass_queue_def frags_of_def)
    ultimately show ?thesis using frag_other [OF _ inv _ pk(2) _ w] by blast
  qed
  then show "\<And>f. f \<in> set fs \<Longrightarrow> pdata h1 (fr_as f) = pdata h (fr_as f)" by blast
  have same: "lchain (frag_next h1) r (map fr_p gs) = lchain (frag_next h) r (map fr_p gs)" if "set gs \<subseteq> set fs" for r gs
    using that other by (induction gs arbitrary: r) auto
  have "distinct as" using pk(1) pchain_distinct by (auto simp: packet_def)
  then show "insertable h1 q fs ?new"
    using q own dist new other same [of fs q] heap_inv_writes [OF w] inv
    by (auto simp: insertable_def reass_queue_def frags_of_def owned_frame [OF writes_only_simps(1) [OF w]] frag_of_simps(2) [OF p])
qed

section \<open>The function\<close>

definition with_queue :: "nat \<Rightarrow> ip_reassdata \<Rightarrow> nat \<Rightarrow> heap \<Rightarrow> eth_state \<Rightarrow> eth_state" where
  "with_queue ipr d q h s =
     s\<lparr>eth_heap := h, ip_st := (ip_st s)\<lparr>reassdata := (reassdata (ip_st s))(ipr \<mapsto> d\<lparr>rd_p := q\<rparr>)\<rparr>\<rparr>"

lemma with_queue_same:
  assumes "reassdata (ip_st s) ipr = Some d"
  shows "with_queue ipr d (rd_p d) h s = s\<lparr>eth_heap := h\<rparr>"
proof -
  have "(reassdata (ip_st s))(ipr \<mapsto> d\<lparr>rd_p := rd_p d\<rparr>) = reassdata (ip_st s)" using assms by (simp add: map_upd_triv)
  then show ?thesis by (simp add: with_queue_def)
qed

text \<open>The search on the heap with the new helper, in terms of the parts of the queue.\<close>

lemma place_found:
  assumes ins: "insertable h1 q fs new"
  shows "if \<exists>g \<in> set fs. clash new g then \<exists>d. chain_place_loop h1 (fr_start new) (fr_end new) q 0 True = Some (Drop d)
     else chain_place_loop h1 (fr_start new) (fr_end new) q 0 True =
       Some (Place (if lower new fs = [] then 0 else payload (the (pbufs h1 (fr_p (last (lower new fs)))))) (succ_of new fs)
              (linked None (lower new fs)))"
proof -
  have cl: "clash \<lparr>fr_as = [], fr_start = fr_start new, fr_end = fr_end new\<rparr> g = clash new g" for g by (simp add: clash_def)
  have "frags_of h1 q fs" "sorted_wrt before fs" "fr_start new \<le> fr_end new"
    using ins by (auto simp: insertable_def reass_queue_def frag_ok_def)
  from chain_place_loop_spec [OF this, where po = None and prev = 0 and valid = True] show ?thesis
    by (auto simp: cl succ_of_def Let_def split: if_splits)
qed

text \<open>What the function reads from the header of a fragment.\<close>

lemma fragment_header:
  assumes nb: "pbufs h p = Some nb" and p: "fragment h p as" and new: "new = frag_of h p as"
  shows "IPH_HL_BYTES (bytes h) (payload nb) = 20" "\<not> lwip_htons (IPH_LEN (bytes h) (payload nb)) < 20"
    "IPH_OFFSET_BYTES (bytes h) (payload nb) = fr_start new"
    "fr_start new + (lwip_htons (IPH_LEN (bytes h) (payload nb)) - 20) = fr_end new" "\<not> fr_end new < fr_start new"
proof -
  let ?a = "payload nb" and ?m = "bytes h"
  show "IPH_HL_BYTES ?m ?a = 20" using p nb by (auto simp: fragment_def Let_def)
  have "unat (lwip_htons (IPH_LEN ?m ?a)) = length (pdata h as)" using p nb by (auto simp: fragment_def Let_def)
  then show "\<not> lwip_htons (IPH_LEN ?m ?a) < 20" using frag_of_end(3) [OF p] by (simp add: word_less_nat_alt)
  show "IPH_OFFSET_BYTES ?m ?a = fr_start new" "fr_start new + (lwip_htons (IPH_LEN ?m ?a) - 20) = fr_end new"
    using nb by (simp_all add: new frag_of_def Let_def)
  show "\<not> fr_end new < fr_start new" using frag_of_end(2) [OF p] by (simp add: new)
qed

lemma chain_frag_dropped:
  assumes q: "reass_queue (eth_heap s) (rd_p d) fs" and inv: "heap_inv (eth_heap s)" and p: "fragment (eth_heap s) p as"
    and own: "owned (eth_heap s) as" and dist: "set as \<inter> set (all_as fs) = {}" and d: "reassdata (ip_st s) ipr = Some d"
    and clash: "\<exists>g \<in> set fs. clash (frag_of (eth_heap s) p as) g"
  shows "\<exists>h'. ip_reass_chain_frag_into_datagram_and_validate ipr p is_last s =
       Some (IP_REASS_VALIDATE_PBUF_DROPPED, s\<lparr>eth_heap := h'\<rparr>) \<and> writes_only (hdr8 (eth_heap s) p) (eth_heap s) h'"
proof -
  let ?h = "eth_heap s"
  define new where "new = frag_of ?h p as"
  obtain nb where nb: "pbufs ?h p = Some nb" using p by (auto simp: fragment_def Let_def elim: packet_head)
  define h1 where "h1 = put_helper (payload nb) (fr_start new) (fr_end new) ?h"
  have h1': "h1 = put_helper (payload (the (pbufs ?h p))) (fr_start (frag_of ?h p as)) (fr_end (frag_of ?h p as)) ?h"
    using nb by (simp add: h1_def new_def)
  note k = put_helper_insertable [OF q inv p own dist h1', folded new_def]
  obtain r where r: "chain_place_loop h1 (fr_start new) (fr_end new) (rd_p d) 0 True = Some (Drop r)"
    using place_found [OF k(1)] clash by (auto simp: new_def)
  have "ip_reass_chain_frag_into_datagram_and_validate ipr p is_last s =
      Some (IP_REASS_VALIDATE_PBUF_DROPPED, s\<lparr>eth_heap := set_next_pbuf (payload nb) r h1\<rparr>)"
    using fragment_header [OF nb p new_def] r
    by (simp add: ip_reass_chain_frag_into_datagram_and_validate_def nb d Let_def h1_def put_helper_def)
  moreover have "writes_only (hdr8 ?h p) ?h (set_next_pbuf (payload nb) r h1)"
    using writes_only_trans [OF k(4) set_next_pbuf_only] nb by (auto simp: hdr8_def)
  ultimately show ?thesis by blast
qed

text \<open>The stores that link the fragment in, on a heap with the helper written.\<close>

lemma chain_frag_linked:
  assumes nb: "pbufs (eth_heap s) p = Some nb" and d: "reassdata (ip_st s) ipr = Some d" and p: "fragment (eth_heap s) p as"
    and new: "new = frag_of (eth_heap s) p as" and h1: "h1 = put_helper (payload nb) (fr_start new) (fr_end new) (eth_heap s)"
    and ins: "insertable h1 (rd_p d) fs new" and nc: "\<not> (\<exists>g \<in> set fs. clash new g)"
    and q': "q' = (if lower new fs = [] then p else rd_p d)" and pb: "pbufs h1 = pbufs (eth_heap s)"
  shows "ip_reass_chain_frag_into_datagram_and_validate ipr p is_last s =
     (if is_last \<or> rd_flags d AND IP_REASS_FLAG_LASTFRAG \<noteq> 0 then
        do { valid \<leftarrow> chain_validate q' (payload nb) (linked None (lower new fs @ [new])) (link_frag new fs h1);
             Some (if valid then IP_REASS_VALIDATE_TELEGRAM_FINISHED else IP_REASS_VALIDATE_PBUF_QUEUED,
                   with_queue ipr d q' (link_frag new fs h1) s) }
      else Some (IP_REASS_VALIDATE_PBUF_QUEUED, with_queue ipr d q' (link_frag new fs h1) s))"
proof -
  let ?pre = "lower new fs"
  note fp = frag_of_simps(2) [OF p, folded new] and hdr = fragment_header [OF nb p new]
  note pl = place_found [OF ins] and each = link_frag_each [OF ins refl]
  show ?thesis
  proof (cases "?pre = []")
    case True
    have lf: "link_frag new fs h1 = set_next_pbuf (payload nb) (succ_of new fs) h1"
      using True nb pb fp by (simp add: link_frag_def Let_def succ_of_def)
    have ne: "succ_of new fs = 0 \<longrightarrow> rd_p d = 0"
    proof
      assume z: "succ_of new fs = 0"
      have "fs = upper new fs" using takeWhile_dropWhile_id [of "\<lambda>g. fr_start g < fr_start new" fs] True by simp
      moreover have "frags_of h1 (rd_p d) fs" using ins by (auto simp: insertable_def reass_queue_def)
      ultimately show "rd_p d = 0" using z by (cases fs) (auto simp: succ_of_def frags_of_Cons)
    qed
    show ?thesis
      using hdr pl nc True ne
      by (simp add: ip_reass_chain_frag_into_datagram_and_validate_def nb d Let_def h1 [unfolded put_helper_def, symmetric]
            upd_reassdata_def with_queue_def lf q')
  next
    case False
    let ?g = "last ?pre"
    have g: "?g \<in> set fs" using last_lower [OF False] .
    have gn: "payload (the (pbufs h1 (fr_p ?g))) \<noteq> 0" "fr_end ?g \<le> fr_start new" "?g \<noteq> new"
    proof -
      have "frag_ok h1 ?g" using ins g by (auto simp: insertable_def reass_queue_def frags_of_def)
      then show "payload (the (pbufs h1 (fr_p ?g))) \<noteq> 0" by (simp add: frag_ok_def)
      have "fr_start ?g < fr_start new" using last_in_set [OF False] by (auto dest: set_takeWhileD)
      then show "fr_end ?g \<le> fr_start new" using nc g hdr(5) by (fastforce simp: clash_def)
      show "?g \<noteq> new" using \<open>fr_start ?g < fr_start new\<close> by auto
    qed
    define h2 where "h2 = set_next_pbuf (payload nb) (succ_of new fs) h1"
    have lf: "link_frag new fs h1 = set_next_pbuf (payload (the (pbufs h1 (fr_p ?g)))) p h2"
      using False nb pb fp by (simp add: link_frag_def Let_def succ_of_def h2_def)
    have en: "iprh_end (bytes (link_frag new fs h1)) (payload (the (pbufs h1 (fr_p ?g)))) = fr_end ?g"
      using each [of ?g] g writes_only_simps(1) by (fastforce simp: frag_ok_def)
    then have en2: "iprh_end (bytes h2) (payload (the (pbufs h1 (fr_p ?g)))) = fr_end ?g"
      by (simp add: lf set_next_pbuf_reads)
    have v: "linked None (?pre @ [new]) \<longleftrightarrow> linked None ?pre \<and> fr_end ?g = fr_start new" using False by (simp add: linked_append)
    note run = ip_reass_chain_frag_into_datagram_and_validate_def nb d Let_def h1 [unfolded put_helper_def, symmetric] v q'
      with_queue_same [OF d]
    show ?thesis
    proof (cases "succ_of new fs = 0")
      case True
      have "set_next_pbuf (payload nb) 0 h1 = h2" using True by (simp add: h2_def)
      then show ?thesis using hdr pl nc False gn en2 en True by (simp add: run lf)
    next
      case succ: False
      then show ?thesis using hdr pl nc False gn en2 en by (simp add: run h2_def [symmetric] lf)
    qed
  qed
qed

lemma chain_frag_queued:
  assumes q: "reass_queue (eth_heap s) (rd_p d) fs" and inv: "heap_inv (eth_heap s)" and p: "fragment (eth_heap s) p as"
    and own: "owned (eth_heap s) as" and dist: "set as \<inter> set (all_as fs) = {}" and d: "reassdata (ip_st s) ipr = Some d"
    and nc: "\<not> (\<exists>g \<in> set fs. clash (frag_of (eth_heap s) p as) g)"
    and two: "fs = [] \<Longrightarrow> (is_last \<or> rd_flags d AND IP_REASS_FLAG_LASTFRAG \<noteq> 0) \<Longrightarrow> fr_start (frag_of (eth_heap s) p as) \<noteq> 0"
  shows "\<exists>q' h'. ip_reass_chain_frag_into_datagram_and_validate ipr p is_last s =
       Some (if (is_last \<or> rd_flags d AND IP_REASS_FLAG_LASTFRAG \<noteq> 0) \<and> complete (frag_insert (frag_of (eth_heap s) p as) fs)
             then IP_REASS_VALIDATE_TELEGRAM_FINISHED else IP_REASS_VALIDATE_PBUF_QUEUED, with_queue ipr d q' h' s) \<and>
     reass_queue h' q' (frag_insert (frag_of (eth_heap s) p as) fs) \<and> heap_inv h' \<and>
     (\<forall>f \<in> set (frag_insert (frag_of (eth_heap s) p as) fs). drop 20 (pdata h' (fr_as f)) = drop 20 (pdata (eth_heap s) (fr_as f))) \<and>
     writes_only (helpers (eth_heap s) (frag_of (eth_heap s) p as # fs)) (eth_heap s) h'"
proof -
  let ?h = "eth_heap s"
  define new where "new = frag_of ?h p as"
  obtain nb where nb: "pbufs ?h p = Some nb" using p by (auto simp: fragment_def Let_def elim: packet_head)
  define h1 where "h1 = put_helper (payload nb) (fr_start new) (fr_end new) ?h"
  have h1': "h1 = put_helper (payload (the (pbufs ?h p))) (fr_start (frag_of ?h p as)) (fr_end (frag_of ?h p as)) ?h"
    using nb by (simp add: h1_def new_def)
  note k = put_helper_insertable [OF q inv p own dist h1', folded new_def]
  have pb: "pbufs h1 = pbufs ?h" using writes_only_simps(1) [OF k(4)] .
  define q' where "q' = (if lower new fs = [] then p else rd_p d)"
  have nc': "\<not> (\<exists>g \<in> set fs. clash new g)" using nc by (simp add: new_def)
  note run = chain_frag_linked [OF nb d p new_def h1_def k(1) nc' q'_def pb]
  note fp = frag_of_simps(2) [OF p, folded new_def]
  note lk = link_frag_spec [OF k(1) nc' refl, unfolded fp, folded q'_def]
  have w: "writes_only (helpers ?h (new # fs)) ?h (link_frag new fs h1)"
  proof -
    have "helpers h1 (new # fs) = helpers ?h (new # fs)" by (simp add: helpers_def hdr8_def pb)
    moreover have "writes_only (helpers ?h (new # fs)) ?h h1" by (rule writes_only_mono [OF k(4)]) (simp add: helpers_def fp)
    ultimately show ?thesis using writes_only_trans lk(4) by metis
  qed
  have fi: "frag_insert new fs = lower new fs @ new # upper new fs" by (simp add: frag_insert_def)
  have ne: "lower new fs \<noteq> [] \<or> upper new fs \<noteq> [] \<or> fr_start new \<noteq> 0" if "is_last \<or> rd_flags d AND IP_REASS_FLAG_LASTFRAG \<noteq> 0"
    using two [OF _ that] takeWhile_dropWhile_id [of "\<lambda>g. fr_start g < fr_start new" fs] by (auto simp: new_def)
  have val: "chain_validate q' (payload nb) (linked None (lower new fs @ [new])) (link_frag new fs h1) = Some (complete (frag_insert new fs))"
    if "is_last \<or> rd_flags d AND IP_REASS_FLAG_LASTFRAG \<noteq> 0"
    using chain_validate_spec [OF lk(1,2) [unfolded fi] refl ne [OF that]] nb writes_only_simps(1) [OF w] by (simp add: fp fi)
  have dat: "drop 20 (pdata (link_frag new fs h1) (fr_as f)) = drop 20 (pdata ?h (fr_as f))" if "f \<in> set (new # fs)" for f
    using lk(3) [OF that] k(2,3) that by (auto simp: new_def)
  show ?thesis
    using run val lk(1,2) w dat unfolding new_def [symmetric]
    by (intro exI [of _ q'] exI [of _ "link_frag new fs h1"]) auto
qed

end
