(* ===== verification/Ip4_Datagram.thy ===== *)
theory Ip4_Datagram
  imports Ip4_Chain
begin

text \<open>
  The end of reassembly: \<^verbatim>\<open>ip4_reass\<close> restores the header of the first fragment, hides those of the others and
  chains all buffers into one packet.
\<close>

section \<open>Chaining the fragments\<close>

text \<open>What removing a header and chaining leave of a buffer: its references and its owner.\<close>

definition refs_kept :: "(nat \<rightharpoonup> pbuf) \<Rightarrow> (nat \<rightharpoonup> pbuf) \<Rightarrow> bool" where
  "refs_kept m m' \<longleftrightarrow>
     (\<forall>a. map_option (\<lambda>b. (pb_ref b, pbuf_owner b)) (m' a) = map_option (\<lambda>b. (pb_ref b, pbuf_owner b)) (m a))"

lemma refs_kept_refl [simp]: "refs_kept m m"
  by (simp add: refs_kept_def)

lemma refs_kept_trans: "refs_kept m1 m2 \<Longrightarrow> refs_kept m2 m3 \<Longrightarrow> refs_kept m1 m3"
  by (simp add: refs_kept_def)

lemma refs_keptD:
  assumes "refs_kept m m'" "m a = Some b"
  shows "\<exists>b'. m' a = Some b' \<and> pb_ref b' = pb_ref b \<and> pbuf_owner b' = pbuf_owner b"
proof -
  have "map_option (\<lambda>b. (pb_ref b, pbuf_owner b)) (m' a) = Some (pb_ref b, pbuf_owner b)"
    using assms by (simp add: refs_kept_def)
  then show ?thesis by auto
qed

lemma refs_kept_exclusive: "refs_kept (pbufs h) (pbufs h') \<Longrightarrow> exclusive h as \<Longrightarrow> exclusive h' as"
  by (fastforce simp: exclusive_def dest: refs_keptD)

lemma refs_kept_owned: "refs_kept (pbufs h) (pbufs h') \<Longrightarrow> owned h as \<Longrightarrow> owned h' as"
  by (fastforce simp: owned_def dest: refs_keptD)

lemma pbuf_remove_header_frame:
  "pbuf_remove_header p n h = Some (x, h') \<Longrightarrow> h' = h\<lparr>pbufs := pbufs h'\<rparr> \<and> refs_kept (pbufs h) (pbufs h')"
  by (auto simp: pbuf_remove_header_def refs_kept_def Let_def split: if_splits Option.bind_splits)

lemma joined_refs: "refs_kept m (joined m as t n)"
  by (auto simp: refs_kept_def joined_def option.map_comp comp_def)

lemma pbuf_cat_frame:
  assumes "packet h p as" "packet h t bs" "set as \<inter> set bs = {}" "length (pdata h as) + length (pdata h bs) < 65536" "heap_inv h"
  shows "\<exists>m. pbuf_cat p t h = Some (h\<lparr>pbufs := m\<rparr>) \<and> packet (h\<lparr>pbufs := m\<rparr>) p (as @ bs) \<and>
     pdata (h\<lparr>pbufs := m\<rparr>) (as @ bs) = pdata h as @ pdata h bs \<and> heap_inv (h\<lparr>pbufs := m\<rparr>) \<and> refs_kept (pbufs h) m \<and>
     (\<forall>a. a \<notin> set as \<longrightarrow> m a = pbufs h a)"
proof -
  obtain tb where tb: "pbufs h t = Some tb" "pbuf_cat p t h = Some (h\<lparr>pbufs := joined (pbufs h) as t (tot_len tb)\<rparr>)"
    using pbuf_cat_run [OF assms(1-3)] by blast
  note j = packet_joined [OF assms(1-3) tb(1) assms(4) refl]
  have "heap_inv (h\<lparr>pbufs := joined (pbufs h) as t (tot_len tb)\<rparr>)" 
    by (rule heap_inv_pbufs_cong [OF assms(5)]) (rule joined_shape)
  moreover have "\<forall>a. a \<notin> set as \<longrightarrow> joined (pbufs h) as t (tot_len tb) a = pbufs h a" by (simp add: joined_def)
  ultimately show ?thesis using tb(2) j joined_refs by blast
qed

lemma frag_ok_frame:
  assumes "\<forall>a \<in> set (fr_as f). pbufs h' a = pbufs h a" "bytes h' = bytes h" "frag_ok h f"
  shows "frag_ok h' f" "frag_next h' (fr_p f) = frag_next h (fr_p f)" "pdata h' (fr_as f) = pdata h (fr_as f)"
proof -
  note k = packet_frame [OF assms(1,2)]
  have p: "pbufs h' (fr_p f) = pbufs h (fr_p f)" using assms(1) fr_p_in [OF assms(3)] by blast
  then show "frag_ok h' f" "frag_next h' (fr_p f) = frag_next h (fr_p f)" "pdata h' (fr_as f) = pdata h (fr_as f)"
    using assms(3) k by (simp_all add: frag_ok_def frag_next_def assms(2) plen_def)
qed

lemma frags_of_frame:
  assumes "\<forall>a \<in> set (all_as fs). pbufs h' a = pbufs h a" "bytes h' = bytes h" "frags_of h q fs"
  shows "frags_of h' q fs"
  using assms
proof (induction fs arbitrary: q)
  case (Cons f fs)
  have "frag_ok h' f" "frag_next h' (fr_p f) = frag_next h (fr_p f)"
    using frag_ok_frame [of f h' h] Cons.prems by (auto simp: frags_of_Cons)
  then show ?case using Cons by (auto simp: frags_of_Cons)
qed simp

definition frag_data :: "heap \<Rightarrow> frag list \<Rightarrow> u8 list" where
  "frag_data h fs = concat (map (\<lambda>f. drop 20 (pdata h (fr_as f))) fs)"

lemma frag_data_simps [simp]: "frag_data h [] = []" "frag_data h (f # fs) = drop 20 (pdata h (fr_as f)) @ frag_data h fs"
  by (simp_all add: frag_data_def)

lemma frag_data_frame:
  "\<forall>a \<in> set (all_as fs). pbufs h' a = pbufs h a \<Longrightarrow> bytes h' = bytes h \<Longrightarrow> frag_data h' fs = frag_data h fs"
proof (induction fs)
  case (Cons f fs)
  then have "pdata h' (fr_as f) = pdata h (fr_as f)" using packet_frame(2) [of "fr_as f" h' h] by simp
  then show ?case using Cons by simp
qed simp

lemma cat_frags_loop_spec:
  assumes "packet h p as" "frags_of h r fs" "heap_inv h" "distinct (as @ all_as fs)"
    "length (pdata h as) + length (frag_data h fs) < 65536"
  shows "\<exists>m. cat_frags_loop p r h = Some (h\<lparr>pbufs := m\<rparr>) \<and> packet (h\<lparr>pbufs := m\<rparr>) p (as @ all_as fs) \<and>
     pdata (h\<lparr>pbufs := m\<rparr>) (as @ all_as fs) = pdata h as @ frag_data h fs \<and> heap_inv (h\<lparr>pbufs := m\<rparr>) \<and>
     refs_kept (pbufs h) m \<and> (\<forall>a. a \<notin> set (as @ all_as fs) \<longrightarrow> m a = pbufs h a)"
  using assms
proof (induction fs arbitrary: r as h)
  case Nil
  have "h\<lparr>pbufs := pbufs h\<rparr> = h" by simp
  moreover have "cat_frags_loop p r h = Some h" using Nil.prems(2) by (simp add: cat_frags_loop.simps)
  ultimately show ?case using Nil.prems by (intro exI [of _ "pbufs h"]) simp
next
  case (Cons f fs)
  have r: "r = fr_p f" "r \<noteq> 0" "frag_ok h f" "frags_of h (frag_next h r) fs" using Cons.prems(2) by (auto simp: frags_of_Cons)
  obtain b bs where b: "pbufs h r = Some b" "fr_as f = r # bs" using r by (auto elim: frag_ok_head)
  have pk: "packet h r (r # bs)" "20 \<le> plen h r" using r b(2) by (auto simp: frag_ok_def)
  obtain h1 where h1: "pbuf_remove_header r 20 h = Some (False, h1)" "packet h1 r (r # bs)"
    "pdata h1 (r # bs) = drop 20 (pdata h (r # bs))" "heap_inv h1" "\<forall>a. a \<noteq> r \<longrightarrow> pbufs h1 a = pbufs h a" "bytes h1 = bytes h"
    using pbuf_remove_header_packet [OF pk(1) Cons.prems(3), of 20] pk(2) by auto
  note f1 = pbuf_remove_header_frame [OF h1(1)]
  have rn: "r \<notin> set as" "r \<notin> set (all_as fs)" "set as \<inter> set (r # bs) = {}" "set (as @ r # bs) \<inter> set (all_as fs) = {}"
    using Cons.prems(4) b(2) by auto
  have "\<forall>a \<in> set as. pbufs h1 a = pbufs h a" using h1(5) rn(1) by auto
  then have as1: "packet h1 p as" "pdata h1 as = pdata h as" using packet_frame(1,2) [of as h1 h] h1(6) Cons.prems(1) by auto
  have fit: "length (pdata h1 as) + length (pdata h1 (r # bs)) < 65536" using Cons.prems(5) as1 h1(3) b(2) by simp
  obtain m2 where m2: "pbuf_cat p r h1 = Some (h1\<lparr>pbufs := m2\<rparr>)" "packet (h1\<lparr>pbufs := m2\<rparr>) p (as @ r # bs)"
    "pdata (h1\<lparr>pbufs := m2\<rparr>) (as @ r # bs) = pdata h1 as @ pdata h1 (r # bs)" "heap_inv (h1\<lparr>pbufs := m2\<rparr>)"
    "refs_kept (pbufs h1) m2" "\<forall>a. a \<notin> set as \<longrightarrow> m2 a = pbufs h1 a"
    using pbuf_cat_frame [OF as1(1) h1(2) rn(3) fit h1(4)] by blast
  define h2 where "h2 = h\<lparr>pbufs := m2\<rparr>"
  obtain m1 where "h1 = h\<lparr>pbufs := m1\<rparr>" using f1 by blast
  then have h2: "h1\<lparr>pbufs := m2\<rparr> = h2" by (simp add: h2_def)
  have "pbufs h2 a = pbufs h a" if "a \<in> set (all_as fs)" for a
  proof -
    have "a \<notin> set as" "a \<noteq> r" using that rn by auto
    then show ?thesis using h1(5) m2(6) by (simp add: h2_def)
  qed
  then have same: "\<forall>a \<in> set (all_as fs). pbufs h2 a = pbufs h a" "bytes h2 = bytes h" by (simp_all add: h2_def)
  have "length (pdata h2 (as @ r # bs)) + length (frag_data h2 fs) < 65536"
    using Cons.prems(5) m2(3) h2 as1 h1(3) b(2) frag_data_frame [OF same] by simp
  then obtain m where m: "cat_frags_loop p (frag_next h r) h2 = Some (h2\<lparr>pbufs := m\<rparr>)" "packet (h2\<lparr>pbufs := m\<rparr>) p ((as @ r # bs) @ all_as fs)"
    "pdata (h2\<lparr>pbufs := m\<rparr>) ((as @ r # bs) @ all_as fs) = pdata h2 (as @ r # bs) @ frag_data h2 fs" "heap_inv (h2\<lparr>pbufs := m\<rparr>)"
    "refs_kept (pbufs h2) m" "\<forall>a. a \<notin> set ((as @ r # bs) @ all_as fs) \<longrightarrow> m a = pbufs h2 a"
    using Cons.IH [of h2 "as @ r # bs" "frag_next h r"] m2(2,4) h2 frags_of_frame [OF same r(4)] Cons.prems(4) b(2) by auto
  have "cat_frags_loop p r h = cat_frags_loop p (frag_next h r) h2"
    using r(2) b(1) h1(1) m2(1) h2 same(2) by (subst cat_frags_loop.simps) (simp add: frag_next_def)
  moreover have "h2\<lparr>pbufs := m\<rparr> = h\<lparr>pbufs := m\<rparr>" by (simp add: h2_def)
  moreover have "refs_kept (pbufs h) m" using f1 m2(5) m(5) refs_kept_trans by (fastforce simp: h2_def)
  moreover have "\<forall>a. a \<notin> set (as @ all_as (f # fs)) \<longrightarrow> m a = pbufs h a" using m(6) m2(6) h1(5) b(2) by (auto simp: h2_def)
  ultimately show ?case using m(1-4) h2 m2(3) as1 h1(3) b(2) frag_data_frame [OF same]
    by (intro exI [of _ m]) simp
qed

section \<open>The restored header\<close>

lemma rd_write_inside: "k + length xs \<le> n \<Longrightarrow> rd (write_bytes (a + k) xs h) a n = overwrite (rd h a n) k xs"
  by (intro nth_equalityI) (auto simp: overwrite_def nth_append bytes_write)

text \<open>A header with its checksum field, at offset 10, filled in.\<close>

definition with_chksum :: "u8 list \<Rightarrow> u8 list" where
  "with_chksum xs = (let x = overwrite xs 10 [0, 0] in overwrite x 10 (store16 (NOT (word_of_nat (ones_norm (wsum x))))))"

text \<open>The header of a reassembled datagram of \<open>n\<close> bytes: that of its first fragment with the total length, no
  fragment offset and flags, and a new checksum.\<close>

definition datagram_header :: "u8 list \<Rightarrow> u16 \<Rightarrow> u8 list" where
  "datagram_header hdr n = with_chksum (overwrite (overwrite hdr 2 (be16 n)) 6 [0, 0])"

lemma length_with_chksum [simp]: "12 \<le> length xs \<Longrightarrow> length (with_chksum xs) = length xs"
  by (simp add: with_chksum_def Let_def)

lemma length_datagram_header [simp]: "length hdr = 20 \<Longrightarrow> length (datagram_header hdr n) = 20"
  by (simp add: datagram_header_def)

lemma overwrite_2: "k + 2 \<le> length xs \<Longrightarrow> overwrite xs k [a, b] = xs[k := a, k + 1 := b]"
proof (induction k arbitrary: xs)
  case 0
  then show ?case by (cases xs; cases "tl xs") (auto simp: overwrite_def)
next
  case (Suc k)
  then show ?case by (cases xs) (auto simp: overwrite_def)
qed

lemma with_chksum_valid:
  assumes "12 \<le> length xs"
  shows "ones_norm (wsum (with_chksum xs)) = 65535"
proof -
  define x where "x = overwrite xs 10 [0, 0]"
  define c where "c = (NOT (word_of_nat (ones_norm (wsum x))) :: u16)"
  have l: "length x = length xs" using assms by (simp add: x_def)
  have x0: "x ! 10 = 0" "x ! (10 + 1) = 0" using assms by (simp_all add: x_def overwrite_def nth_append)
  have c: "unat (ucast c :: u8) + 256 * unat (ucast (drop_bit 8 c) :: u8) = unat c"
  proof -
    have "unat c div 256 < 256" using unat_u16_less [of c] by linarith
    then show ?thesis by (simp add: unsigned_ucast_eq take_bit_eq_mod unat_drop_bit)
  qed
  have "with_chksum xs = x[10 := ucast c, 10 + 1 := ucast (drop_bit 8 c)]"
    using assms l by (simp add: with_chksum_def Let_def x_def [symmetric] c_def [symmetric] store16_def overwrite_2)
  then have "wsum (with_chksum xs) = wsum x + unat c" using wsum_store [OF _ _ x0] l assms c by simp
  then show ?thesis using ones_complement by (simp add: c_def unat_not_norm)
qed

lemma inet_chksum_bytes: "inet_chksum (bytes h) a n = NOT (word_of_nat (ones_norm (wsum (rd h a (unat n)))))"
proof -
  have "unat n \<le> 131072" using unat_u16_less [of n] by linarith
  then show ?thesis by (simp add: inet_chksum_def lwip_standard_chksum_ref mem_list_rd)
qed

lemma reass_restore_header_spec:
  assumes "length hdr = 20"
  shows "rd (reass_restore_header a hdr n h) a 20 = datagram_header hdr n" "writes_only {a..<a + 20} h (reass_restore_header a hdr n h)"
proof -
  let ?h1 = "write_bytes (a + 6) (store16 0) (write_bytes (a + 2) (store16 (lwip_htons n)) (write_bytes a hdr h))"
  have z: "store16 0 = [0, 0]" by (simp add: store16_def)
  have "rd (write_bytes a hdr h) a 20 = hdr" using rd_write_same [of a hdr h] assms by simp
  then have r: "rd (write_bytes (a + 10) (store16 0) ?h1) a 20 = overwrite (overwrite (overwrite hdr 2 (be16 n)) 6 [0, 0]) 10 [0, 0]"
    by (simp add: rd_write_inside z rd_write_inside [of 2, simplified])
  then show "rd (reass_restore_header a hdr n h) a 20 = datagram_header hdr n"
    by (simp add: reass_restore_header_def Let_def rd_write_inside inet_chksum_bytes datagram_header_def with_chksum_def)
  have w: "writes_only {a..<a + 20} g (write_bytes (a + k) xs g)" if "k + length xs \<le> 20" for g k xs
    using that by (intro writes_only_write) auto
  have "writes_only {a..<a + 20} h (write_bytes a hdr h)" using w [of 0 hdr h] assms by simp
  then show "writes_only {a..<a + 20} h (reass_restore_header a hdr n h)"
    unfolding reass_restore_header_def Let_def by (intro writes_only_trans [OF _ w]) simp_all
qed

end
