(* ===== verification/Ip4_Reass_Inv.thy ===== *)
theory Ip4_Reass_Inv
  imports Ip4_Datagram
begin

text \<open>
  The invariant of the list of datagrams in reassembly and the operations on that list: the search for the
  datagram of a fragment, a new entry, the removal of an entry.
\<close>

section \<open>Memory that does not change\<close>

definition untouched :: "heap \<Rightarrow> heap \<Rightarrow> nat list \<Rightarrow> bool" where
  "untouched h h' as \<longleftrightarrow> (\<forall>a \<in> set as. pbufs h' a = pbufs h a) \<and> (\<forall>x \<in> packet_region h as. bytes h' x = bytes h x)"

lemma untouched_refl [simp]: "untouched h h as"
  by (simp add: untouched_def)

lemma untouched_mono: "untouched h h' as \<Longrightarrow> set bs \<subseteq> set as \<Longrightarrow> untouched h h' bs"
  by (auto simp: untouched_def packet_region_def)

lemma untouched_trans:
  assumes "untouched h h1 as" "untouched h1 h2 as"
  shows "untouched h h2 as"
proof -
  have "payload_region h1 a = payload_region h a" if "a \<in> set as" for a
    using assms(1) that by (simp add: untouched_def payload_region_def plen_def)
  then have "packet_region h1 as = packet_region h as" by (simp add: packet_region_def)
  then show ?thesis using assms by (simp add: untouched_def)
qed

lemma untouched_writes: "writes_only R h h' \<Longrightarrow> packet_region h as \<inter> R = {} \<Longrightarrow> untouched h h' as"
  by (auto simp: untouched_def writes_only_def disjoint_iff)

lemma untouched_same: "bytes h' = bytes h \<Longrightarrow> \<forall>a \<in> set as. pbufs h' a = pbufs h a \<Longrightarrow> untouched h h' as"
  by (simp add: untouched_def)

lemma untouched_pchain: "\<forall>a \<in> set as. pbufs h' a = pbufs h a \<Longrightarrow> pchain h' p as = pchain h p as"
  by (induction as arbitrary: p) auto

lemma untouched_packet:
  assumes "untouched h h' as"
  shows "pdata h' as = pdata h as" "packet h' p as = packet h p as" "owned h' as = owned h as" "exclusive h' as = exclusive h as"
    "a \<in> set as \<Longrightarrow> plen h' a = plen h a"
proof -
  have pb: "\<forall>a \<in> set as. pbufs h' a = pbufs h a" using assms by (simp add: untouched_def)
  have pby: "pbytes h' a = pbytes h a" if "a \<in> set as" for a
  proof -
    have "\<forall>x \<in> payload_region h a. bytes h' x = bytes h x" using assms that by (auto simp: untouched_def packet_region_def)
    then show ?thesis using pb that by (auto simp: pbytes_def rd_def payload_region_def plen_def)
  qed
  then have pd: "pdata h' bs = pdata h bs" if "set bs \<subseteq> set as" for bs
    using that by (induction bs) simp_all
  then show "pdata h' as = pdata h as" by simp
  have "totals_ok h' bs = totals_ok h bs" if "set bs \<subseteq> set as" for bs
    using that
  proof (induction bs)
    case (Cons b bs)
    then show ?case using pd [of "b # bs"] pb by (simp del: pdata_Cons)
  qed simp
  then show "packet h' p as = packet h p as" using untouched_pchain [OF pb] by (auto simp: packet_def)
  show "owned h' as = owned h as" "exclusive h' as = exclusive h as" using pb by (auto simp: owned_def exclusive_def)
  show "a \<in> set as \<Longrightarrow> plen h' a = plen h a" using pb by (simp add: plen_def)
qed

lemma untouched_first:
  assumes "untouched h h' as" "packet h p as" "20 \<le> plen h p"
  shows "pbufs h' p = pbufs h p" "rd h' (payload (the (pbufs h p))) 20 = rd h (payload (the (pbufs h p))) 20"
proof -
  let ?a = "payload (the (pbufs h p))"
  have p: "p \<in> set as" using packet_first [OF assms(2)] by blast
  then show "pbufs h' p = pbufs h p" using assms(1) by (simp add: untouched_def)
  have "{?a..<?a + 20} \<subseteq> packet_region h as" using p assms(3) by (auto simp: packet_region_def payload_region_def)
  then show "rd h' ?a 20 = rd h ?a 20" using assms(1) by (auto simp: rd_def untouched_def subset_iff)
qed

text \<open>What the code reads from a header of 20 bytes depends on these only.\<close>

lemma header_reads:
  assumes "rd h' a 20 = rd h a 20"
  shows "IPH_HL_BYTES (bytes h') a = IPH_HL_BYTES (bytes h) a" "IPH_LEN (bytes h') a = IPH_LEN (bytes h) a"
    "IPH_ID (bytes h') a = IPH_ID (bytes h) a" "IPH_OFFSET (bytes h') a = IPH_OFFSET (bytes h) a"
    "IPH_OFFSET_BYTES (bytes h') a = IPH_OFFSET_BYTES (bytes h) a" "load32 (bytes h') (a + 12) = load32 (bytes h) (a + 12)"
    "load32 (bytes h') (a + 16) = load32 (bytes h) (a + 16)" "iprh_next (bytes h') a = iprh_next (bytes h) a"
    "iprh_start (bytes h') a = iprh_start (bytes h) a" "iprh_end (bytes h') a = iprh_end (bytes h) a"
proof -
  have b: "bytes h' x = bytes h x" if "a \<le> x" "x < a + 20" for x
  proof -
    have "rd h' a 20 ! (x - a) = rd h a 20 ! (x - a)" using assms by simp
    then show ?thesis using that by simp
  qed
  show "IPH_HL_BYTES (bytes h') a = IPH_HL_BYTES (bytes h) a" "IPH_LEN (bytes h') a = IPH_LEN (bytes h) a"
    "IPH_ID (bytes h') a = IPH_ID (bytes h) a" "IPH_OFFSET (bytes h') a = IPH_OFFSET (bytes h) a"
    "IPH_OFFSET_BYTES (bytes h') a = IPH_OFFSET_BYTES (bytes h) a" "load32 (bytes h') (a + 12) = load32 (bytes h) (a + 12)"
    "load32 (bytes h') (a + 16) = load32 (bytes h) (a + 16)" "iprh_next (bytes h') a = iprh_next (bytes h) a"
    "iprh_start (bytes h') a = iprh_start (bytes h) a" "iprh_end (bytes h') a = iprh_end (bytes h) a"
    by (simp_all add: IPH_HL_BYTES_def IPH_LEN_def IPH_ID_def IPH_OFFSET_def IPH_OFFSET_BYTES_def iprh_next_def iprh_start_def
          iprh_end_def load16_def load32_def b)
qed

lemma untouched_frag:
  assumes u: "untouched h h' (fr_as f)" and f: "frag_ok h f"
  shows "frag_ok h' f" "frag_next h' (fr_p f) = frag_next h (fr_p f)"
proof -
  have p: "packet h (fr_p f) (fr_as f)" "20 \<le> plen h (fr_p f)" using f by (auto simp: frag_ok_def)
  note k = untouched_first [OF u p] header_reads [OF untouched_first(2) [OF u p]] untouched_packet [OF u]
  show "frag_next h' (fr_p f) = frag_next h (fr_p f)" by (simp add: frag_next_def k)
  show "frag_ok h' f" using f fr_p_in [OF f] by (simp add: frag_ok_def k)
qed

lemma untouched_queue:
  assumes u: "untouched h h' (all_as fs)" and q: "reass_queue h q fs"
  shows "reass_queue h' q fs" "frag_data h' fs = frag_data h fs"
proof -
  have each: "frag_ok h' f \<and> frag_next h' (fr_p f) = frag_next h (fr_p f) \<and> pdata h' (fr_as f) = pdata h (fr_as f)" if "f \<in> set fs" for f
    using untouched_frag [of h h' f] untouched_packet(1) [of h h' "fr_as f"] untouched_mono [OF u fr_as_all [OF that]] q that
    by (auto simp: reass_queue_def frags_of_def)
  have "lchain (frag_next h') r (map fr_p gs) = lchain (frag_next h) r (map fr_p gs)" if "set gs \<subseteq> set fs" for r gs
    using that each by (induction gs arbitrary: r) auto
  then show "reass_queue h' q fs" using q each untouched_packet(3) [OF u] by (auto simp: reass_queue_def frags_of_def)
  show "frag_data h' fs = frag_data h fs" using each by (auto simp: frag_data_def intro: arg_cong [where f = concat])
qed

lemma untouched_fragment:
  assumes u: "untouched h h' as" and f: "fragment h p as"
  shows "fragment h' p as" "frag_of h' p as = frag_of h p as" "payload (the (pbufs h' p)) = payload (the (pbufs h p))"
    "rd h' (payload (the (pbufs h p))) 20 = rd h (payload (the (pbufs h p))) 20"
proof -
  have p: "packet h p as" "20 \<le> plen h p" using f by (auto simp: fragment_def Let_def)
  note k = untouched_first [OF u p] header_reads [OF untouched_first(2) [OF u p]] untouched_packet [OF u]
  have "p \<in> set as" using packet_first [OF p(1)] by blast
  then show "fragment h' p as" using f by (simp add: fragment_def Let_def k)
  show "frag_of h' p as = frag_of h p as" by (simp add: frag_of_def Let_def k)
  show "payload (the (pbufs h' p)) = payload (the (pbufs h p))"
    "rd h' (payload (the (pbufs h p))) 20 = rd h (payload (the (pbufs h p))) 20" by (simp_all add: k)
qed

lemma owned_regions:
  assumes "heap_inv h" "owned h as" "owned h bs" "set as \<inter> set bs = {}"
  shows "packet_region h as \<inter> packet_region h bs = {}"
proof (rule equals0I)
  fix x assume "x \<in> packet_region h as \<inter> packet_region h bs"
  then obtain a b where ab: "a \<in> set as" "b \<in> set bs" "x \<in> payload_region h a" "x \<in> payload_region h b"
    by (auto simp: packet_region_def)
  obtain y z where y: "pbufs h a = Some y" "pbuf_owner y = Own_pool \<or> pbuf_owner y = Own_heap"
    and z: "pbufs h b = Some z" "pbuf_owner z = Own_pool \<or> pbuf_owner z = Own_heap"
    using assms(2,3) ab(1,2) unfolding owned_def by meson
  have "a \<noteq> b" using assms(4) ab(1,2) by blast
  then show False using owned_disjoint [OF assms(1) y z] ab(3,4) by blast
qed

lemma helpers_region:
  assumes "\<forall>f \<in> set fs. fr_p f \<in> set (fr_as f) \<and> 20 \<le> plen h (fr_p f)"
  shows "helpers h fs \<subseteq> packet_region h (all_as fs)"
  unfolding helpers_def packet_region_def using hdr8_region assms fr_as_all by (fastforce simp: set_all_as)

section \<open>The list of datagrams\<close>

definition next_dg :: "ip_layer \<Rightarrow> nat \<Rightarrow> nat" where
  "next_dg l r = rd_next (the (reassdata l r))"

definition dg_list :: "eth_state \<Rightarrow> nat list \<Rightarrow> bool" where
  "dg_list s rs \<longleftrightarrow>
     lchain (next_dg (ip_st s)) (reassdatagrams (ip_st s)) rs \<and> set rs \<subseteq> dom (reassdata (ip_st s)) \<and>
     pool.holds (pools (eth_heap s) MEMP_REASSDATA) (set rs)"

lemma heap_inv_other_pool:
  assumes "type \<noteq> MEMP_PBUF_POOL" "type \<noteq> MEMP_PBUF"
  shows "heap_inv (h\<lparr>pools := (pools h)(type := d)\<rparr>) = heap_inv h"
  using assms by (simp add: heap_inv_def live_def blocks_ok_def layout_ok_def block_size_def home_ok_def)

text \<open>The datagram that a header at \<open>a\<close> belongs to, if any.\<close>

definition dg_match :: "eth_state \<Rightarrow> nat \<Rightarrow> nat \<Rightarrow> bool" where
  "dg_match s a r \<longleftrightarrow> IP_ADDRESSES_AND_ID_MATCH (nth (rd_iphdr (the (reassdata (ip_st s) r)))) 0 (bytes (eth_heap s)) a"

lemma next_dg_Some: "reassdata l r = Some d \<Longrightarrow> next_dg l r = rd_next d"
  by (simp add: next_dg_def)

lemma dg_match_Some:
  "reassdata (ip_st s) r = Some d \<Longrightarrow>
   dg_match s a r \<longleftrightarrow> IP_ADDRESSES_AND_ID_MATCH (nth (rd_iphdr d)) 0 (bytes (eth_heap s)) a"
  by (simp add: dg_match_def)

lemma find_datagram_loop_spec:
  assumes "lchain (next_dg (ip_st s)) q rs" "set rs \<subseteq> dom (reassdata (ip_st s))"
  shows "find_datagram_loop a s q = Some (case find (dg_match s a) rs of None \<Rightarrow> 0 | Some r \<Rightarrow> r)"
  using assms
proof (induction rs arbitrary: q)
  case Nil
  then show ?case by (simp add: find_datagram_loop.simps)
next
  case (Cons r rs)
  then obtain d where "reassdata (ip_st s) r = Some d" "q = r" "r \<noteq> 0" by auto
  then show ?case using Cons by (subst find_datagram_loop.simps) (auto simp: dg_match_Some next_dg_Some)
qed

lemma find_prev_loop_spec:
  assumes "lchain (next_dg (ip_st s)) q (xs @ r # ys)" "xs \<noteq> []" "set xs \<subseteq> dom (reassdata (ip_st s))"
  shows "find_prev_loop r s q = Some (last xs)"
  using assms
proof (induction xs arbitrary: q)
  case (Cons x xs)
  obtain d where d: "reassdata (ip_st s) x = Some d" "q = x" "x \<noteq> 0" using Cons.prems by auto
  have nx: "lchain (next_dg (ip_st s)) (rd_next d) (xs @ r # ys)" using Cons.prems(1) d by (simp add: next_dg_Some)
  show ?case
  proof (cases xs)
    case Nil
    then show ?thesis using nx d by (subst find_prev_loop.simps) simp
  next
    case (Cons y zs)
    then have "rd_next d \<noteq> r" using nx lchain_distinct [OF nx] by auto
    then show ?thesis using Cons.prems Cons.IH [OF nx] Cons d by (subst find_prev_loop.simps) simp
  qed
qed simp

text \<open>Removing an entry changes nothing in the others but a link.\<close>

definition same_dg :: "ip_layer \<Rightarrow> ip_layer \<Rightarrow> nat \<Rightarrow> bool" where
  "same_dg l l' r \<longleftrightarrow> map_option (rd_next_update (\<lambda>_. 0)) (reassdata l' r) = map_option (rd_next_update (\<lambda>_. 0)) (reassdata l r)"

lemma dequeue_spec:
  assumes l: "dg_list s (xs @ r # ys)" and inv: "heap_inv (eth_heap s)"
  shows "\<exists>desc rd' hd'. ip_reass_dequeue_datagram r (if xs = [] then 0 else last xs) s =
       Some (s\<lparr>eth_heap := (eth_heap s)\<lparr>pools := (pools (eth_heap s))(MEMP_REASSDATA := desc)\<rparr>,
               ip_st := (ip_st s)\<lparr>reassdatagrams := hd', reassdata := rd'\<rparr>\<rparr>) \<and>
     dg_list (s\<lparr>eth_heap := (eth_heap s)\<lparr>pools := (pools (eth_heap s))(MEMP_REASSDATA := desc)\<rparr>,
               ip_st := (ip_st s)\<lparr>reassdatagrams := hd', reassdata := rd'\<rparr>\<rparr>) (xs @ ys) \<and>
     (\<forall>a. a \<noteq> r \<longrightarrow> same_dg (ip_st s) ((ip_st s)\<lparr>reassdata := rd'\<rparr>) a)"
proof -
  let ?l = "ip_st s"
  have ch: "lchain (next_dg ?l) (reassdatagrams ?l) (xs @ r # ys)" and dm: "set (xs @ r # ys) \<subseteq> dom (reassdata ?l)"
    and pl: "pool.holds (pools (eth_heap s) MEMP_REASSDATA) (set (xs @ r # ys))" using l by (auto simp: dg_list_def)
  have dst: "distinct (xs @ r # ys)" using lchain_distinct [OF ch] .
  obtain d where d: "reassdata ?l r = Some d" using dm by auto
  obtain desc where desc: "memp_free (pools (eth_heap s)) MEMP_REASSDATA r = Some ((pools (eth_heap s))(MEMP_REASSDATA := desc))"
    "pool.holds desc (set (xs @ r # ys) - {r})" 
    using memp_free_holds [where ps = "pools (eth_heap s)" and type = MEMP_REASSDATA, OF pl, of r] by auto
  have rm: "set (xs @ r # ys) - {r} = set (xs @ ys)" using dst by auto
  show ?thesis
  proof (cases "xs = []")
    case True
    have h: "reassdatagrams ?l = r" using ch True by simp
    define rd' where "rd' = (reassdata ?l)(r := None)"
    have "next_dg (?l\<lparr>reassdatagrams := rd_next d, reassdata := rd'\<rparr>) a = next_dg ?l a" if "a \<in> set ys" for a
      using that dst True by (auto simp: next_dg_def rd'_def)
    from lchain_cong [OF this] have "lchain (next_dg (?l\<lparr>reassdatagrams := rd_next d, reassdata := rd'\<rparr>)) (rd_next d) ys"
      using ch True d by (simp add: next_dg_Some)
    then show ?thesis
      using True d h desc rm dm dst
      by (intro exI [of _ desc] exI [of _ rd'] exI [of _ "rd_next d"])
        (auto simp: ip_reass_dequeue_datagram_def dg_list_def rd'_def same_dg_def)
  next
    case False
    let ?g = "last xs"
    have g: "?g \<in> set xs" using False by simp
    have h: "reassdatagrams ?l \<noteq> r" using ch False dst by (cases xs) auto
    obtain dp where dp: "reassdata ?l ?g = Some dp" using dm g by auto
    have gn: "?g \<noteq> 0" "?g \<noteq> r" using lchain_nonzero [OF ch, of ?g] g dst by auto
    define rd' where "rd' = ((reassdata ?l)(?g \<mapsto> dp\<lparr>rd_next := rd_next d\<rparr>))(r := None)"
    have "lchain (next_dg (?l\<lparr>reassdata := rd'\<rparr>)) (if xs = [] then next_dg ?l r else reassdatagrams ?l) (xs @ ys)"
    proof (rule lchain_unlink [OF ch])
      show "next_dg (?l\<lparr>reassdata := rd'\<rparr>) a = next_dg ?l a" if "a \<in> set xs \<union> set ys" "xs = [] \<or> a \<noteq> ?g" for a
        using that dst False by (auto simp: next_dg_def rd'_def)
      show "next_dg (?l\<lparr>reassdata := rd'\<rparr>) ?g = next_dg ?l r" using gn d by (simp add: next_dg_def rd'_def)
    qed
    moreover have "next_dg (?l\<lparr>reassdatagrams := reassdatagrams ?l, reassdata := rd'\<rparr>) = next_dg (?l\<lparr>reassdata := rd'\<rparr>)"
      by (simp add: next_dg_def fun_eq_iff)
    ultimately show ?thesis
      using False d h desc rm dm dp gn dst
      by (intro exI [of _ desc] exI [of _ rd'] exI [of _ "reassdatagrams ?l"])
        (auto simp: ip_reass_dequeue_datagram_def dg_list_def rd'_def upd_reassdata_def same_dg_def)
  qed
qed

end
