(* ===== verification/Ip4_Reass_Step.thy ===== *)
theory Ip4_Reass_Step
  imports Ip4_Reass_Inv "HOL-Library.Multiset"
begin

text \<open>
  The invariant of reassembly (\<open>reass_inv\<close>) and what one call of \<^verbatim>\<open>ip4_reass\<close> does to it when no datagram has to be
  evicted: the fragment is freed because it clashes with a queued one, or it is queued, or it completes its datagram,
  which is returned as one packet.
\<close>

section \<open>The invariant\<close>

text \<open>\<open>F\<close> gives the queue of each datagram of the list \<open>rs\<close>.\<close>

definition all_frags :: "nat list \<Rightarrow> (nat \<Rightarrow> frag list) \<Rightarrow> nat list" where
  "all_frags rs F = concat (map (\<lambda>r. all_as (F r)) rs)"

definition dg_ok :: "eth_state \<Rightarrow> nat \<Rightarrow> frag list \<Rightarrow> bool" where
  "dg_ok s r fs \<longleftrightarrow>
     (\<exists>d. reassdata (ip_st s) r = Some d \<and> reass_queue (eth_heap s) (rd_p d) fs \<and> length (rd_iphdr d) = 20)"

definition reass_inv :: "eth_state \<Rightarrow> nat list \<Rightarrow> (nat \<Rightarrow> frag list) \<Rightarrow> bool" where
  "reass_inv s rs F \<longleftrightarrow>
     heap_inv (eth_heap s) \<and> dg_list s rs \<and> (\<forall>r \<in> set rs. dg_ok s r (F r)) \<and> distinct (all_frags rs F) \<and>
     exclusive (eth_heap s) (all_frags rs F) \<and> unat (ip_reass_pbufcount (ip_st s)) = length (all_frags rs F)"

lemma all_frags_simps [simp]:
  "all_frags [] F = []" "all_frags (r # rs) F = all_as (F r) @ all_frags rs F" "all_frags (rs @ rs') F = all_frags rs F @ all_frags rs' F"
  by (simp_all add: all_frags_def)

lemma set_all_frags: "set (all_frags rs F) = (\<Union>r \<in> set rs. set (all_as (F r)))"
  by (simp add: all_frags_def)

lemma reass_invD:
  assumes "reass_inv s rs F"
  shows "heap_inv (eth_heap s)" "dg_list s rs" "\<And>r. r \<in> set rs \<Longrightarrow> dg_ok s r (F r)" "distinct (all_frags rs F)"
    "exclusive (eth_heap s) (all_frags rs F)" "unat (ip_reass_pbufcount (ip_st s)) = length (all_frags rs F)" "distinct rs"
  using assms lchain_distinct by (auto simp: reass_inv_def dg_list_def)

lemma dg_queue:
  assumes "reass_inv s rs F" "r \<in> set rs" "reassdata (ip_st s) r = Some d"
  shows "reass_queue (eth_heap s) (rd_p d) (F r)" "length (rd_iphdr d) = 20"
  using reass_invD(3) [OF assms(1,2)] assms(3) by (auto simp: dg_ok_def)

lemma mset_frag_insert: "mset (all_as (frag_insert new fs)) = mset (fr_as new) + mset (all_as fs)"
proof -
  have "mset (all_as (takeWhile P fs)) + mset (all_as (dropWhile P fs)) = mset (all_as fs)" for P
    by (metis all_as_simps(3) mset_append takeWhile_dropWhile_id)
  then show ?thesis by (simp add: frag_insert_def ac_simps)
qed

lemma all_frags_cong: "(\<And>r. r \<in> set rs \<Longrightarrow> F' r = F r) \<Longrightarrow> all_frags rs F' = all_frags rs F"
  by (simp add: all_frags_def cong: map_cong)

lemma mset_all_frags_upd:
  assumes "distinct rs" "r \<in> set rs" "mset (all_as G) = mset as + mset (all_as (F r))"
  shows "mset (all_frags rs (F(r := G))) = mset as + mset (all_frags rs F)"
proof -
  obtain xs ys where rs: "rs = xs @ r # ys" using assms(2) by (meson split_list)
  have "r \<notin> set xs" "r \<notin> set ys" using assms(1) rs by auto
  then have "all_frags xs (F(r := G)) = all_frags xs F" "all_frags ys (F(r := G)) = all_frags ys F"
    by (auto intro!: all_frags_cong)
  moreover have "all_frags (xs @ r # ys) F = all_frags xs F @ all_as (F r) @ all_frags ys F" for F by (simp add: all_frags_def)
  ultimately show ?thesis using assms(3) by (simp add: rs)
qed

lemma all_frags_disjoint:
  assumes "distinct (all_frags rs F)" "distinct rs" "r \<in> set rs" "r' \<in> set rs" "r \<noteq> r'"
  shows "set (all_as (F r)) \<inter> set (all_as (F r')) = {}"
proof -
  obtain xs ys where rs: "rs = xs @ r # ys" using assms(3) by (meson split_list)
  have "r' \<in> set xs \<or> r' \<in> set ys" using assms(4,5) rs by auto
  then show ?thesis using assms(1) unfolding rs by (auto simp: all_frags_def)
qed

section \<open>Inserting into a datagram\<close>

lemma ip_layer_upd_order [simp]:
  "l\<lparr>ip_reass_pbufcount := c, reassdata := m\<rparr> = l\<lparr>reassdata := m, ip_reass_pbufcount := c\<rparr>"
  "l\<lparr>reassdata := m, reassdatagrams := q\<rparr> = l\<lparr>reassdatagrams := q, reassdata := m\<rparr>"
  "l\<lparr>ip_reass_pbufcount := c, reassdatagrams := q\<rparr> = l\<lparr>reassdatagrams := q, ip_reass_pbufcount := c\<rparr>"
  by (rule ip_layer.equality; simp)+

definition stored :: "nat \<Rightarrow> ip_reassdata \<Rightarrow> u16 \<Rightarrow> heap \<Rightarrow> eth_state \<Rightarrow> eth_state" where
  "stored r d c h s =
     s\<lparr>eth_heap := h, ip_st := (ip_st s)\<lparr>reassdata := (reassdata (ip_st s))(r \<mapsto> d), ip_reass_pbufcount := c\<rparr>\<rparr>"

definition last_frag :: "heap \<Rightarrow> nat \<Rightarrow> bool" where
  "last_frag h p \<longleftrightarrow> IPH_OFFSET (bytes h) (payload (the (pbufs h p))) AND PP_HTONS IP_MF = 0"

text \<open>The entry after a fragment has been queued.\<close>

definition noted :: "bool \<Rightarrow> u16 \<Rightarrow> nat \<Rightarrow> ip_reassdata \<Rightarrow> ip_reassdata" where
  "noted is_last total_len q d =
     (if is_last then d\<lparr>rd_p := q, datagram_len := total_len, rd_flags := rd_flags d OR IP_REASS_FLAG_LASTFRAG\<rparr> else d\<lparr>rd_p := q\<rparr>)"

text \<open>A fragment \<open>p\<close>, in the buffers \<open>as\<close>, that arrives for the datagram \<open>r\<close>.\<close>

definition arriving :: "eth_state \<Rightarrow> nat list \<Rightarrow> (nat \<Rightarrow> frag list) \<Rightarrow> nat \<Rightarrow> nat list \<Rightarrow> bool" where
  "arriving s rs F p as \<longleftrightarrow>
     fragment (eth_heap s) p as \<and> owned (eth_heap s) as \<and> exclusive (eth_heap s) as \<and> set as \<inter> set (all_frags rs F) = {} \<and>
     (last_frag (eth_heap s) p \<longrightarrow> unat (fr_end (frag_of (eth_heap s) p as)) \<le> 0xFFFF - IP_HLEN)"

lemma frag_set_disjoint: "r \<in> set rs \<Longrightarrow> set as \<inter> set (all_frags rs F) = {} \<Longrightarrow> set as \<inter> set (all_as (F r)) = {}"
  by (auto simp: set_all_frags)

lemma stored_fields [simp]:
  "eth_heap (stored r d c h s) = h" "reassdata (ip_st (stored r d c h s)) = (reassdata (ip_st s))(r \<mapsto> d)"
  "ip_reass_pbufcount (ip_st (stored r d c h s)) = c" "reassdatagrams (ip_st (stored r d c h s)) = reassdatagrams (ip_st s)"
  by (simp_all add: stored_def)

lemma noted_fields [simp]:
  "rd_p (noted b n q d) = q" "rd_iphdr (noted b n q d) = rd_iphdr d" "rd_next (noted b n q d) = rd_next d"
  "datagram_len (noted b n q d) = (if b then n else datagram_len d)"
  by (simp_all add: noted_def)

lemma stored_inv:
  assumes inv: "reass_inv s rs F" and r: "r \<in> set rs" and d: "reassdata (ip_st s) r = Some d" "rd_next d' = rd_next d" "length (rd_iphdr d') = 20"
    and q: "reass_queue h' (rd_p d') G" and hi: "heap_inv h'" and G: "mset (all_as G) = mset as + mset (all_as (F r))"
    and new: "distinct as" "set as \<inter> set (all_frags rs F) = {}" "exclusive h' (as @ all_frags rs F)"
    and c: "unat c = length as + length (all_frags rs F)" and pl: "pools h' = pools (eth_heap s)"
    and other: "\<And>r'. r' \<in> set rs \<Longrightarrow> r' \<noteq> r \<Longrightarrow> untouched (eth_heap s) h' (all_as (F r'))"
  shows "reass_inv (stored r d' c h' s) rs (F(r := G))"
proof -
  note i = reass_invD [OF inv]
  have m: "mset (all_frags rs (F(r := G))) = mset (as @ all_frags rs F)" using mset_all_frags_upd [where F = F, OF i(7) r G] by simp
  have "distinct (as @ all_frags rs F)" using new i(4) by simp
  then have dst: "distinct (all_frags rs (F(r := G)))" using mset_eq_imp_distinct_iff [OF m] by simp
  have ex: "exclusive h' (all_frags rs (F(r := G)))"
    using new(3) mset_eq_setD [OF m] by (simp add: exclusive_def)
  have len: "length (all_frags rs (F(r := G))) = length as + length (all_frags rs F)" using mset_eq_length [OF m] by simp
  have "next_dg (ip_st (stored r d' c h' s)) = next_dg (ip_st s)" using d by (auto simp: next_dg_def fun_eq_iff)
  then have l: "dg_list (stored r d' c h' s) rs" using i(2) pl by (auto simp: dg_list_def)
  have "dg_ok (stored r d' c h' s) r' ((F(r := G)) r')" if r': "r' \<in> set rs" for r'
  proof (cases "r' = r")
    case True
    then show ?thesis using q d(3) by (simp add: dg_ok_def)
  next
    case False
    then show ?thesis using i(3) [OF r'] untouched_queue(1) [OF other [OF r' False]] by (auto simp: dg_ok_def)
  qed
  then show ?thesis using hi l dst ex c len by (simp add: reass_inv_def)
qed

text \<open>What a call leaves alone: every buffer but those of the fragment and of its queue.\<close>

definition only_queue :: "heap \<Rightarrow> heap \<Rightarrow> nat list \<Rightarrow> frag list \<Rightarrow> bool" where
  "only_queue h h' as fs \<longleftrightarrow>
     (\<forall>bs. owned h bs \<and> set bs \<inter> (set as \<union> set (all_as fs)) = {} \<longrightarrow> untouched h h' bs)"

lemma only_queue_helpers:
  assumes inv: "heap_inv h" and q: "reass_queue h q fs" and own: "owned h as" and new: "frag_ok h new \<or> fragment h p as" "fr_as new = as"
    "fr_p new = p" and w: "writes_only (helpers h (new # fs)) h h'"
  shows "only_queue h h' as fs"
  unfolding only_queue_def
proof (intro allI impI)
  fix bs assume bs: "owned h bs \<and> set bs \<inter> (set as \<union> set (all_as fs)) = {}"
  have own': "owned h (as @ all_as fs)" using own q by (auto simp: owned_def reass_queue_def)
  have "packet h p as" "20 \<le> plen h p" using new by (auto simp: frag_ok_def fragment_def Let_def)
  then have "helpers h (new # fs) \<subseteq> packet_region h (all_as (new # fs))"
    using helpers_region [of "new # fs" h] q new(2,3) packet_first [of h p as] fr_p_in
    by (auto simp: reass_queue_def frags_of_def frag_ok_def)
  then have "packet_region h bs \<inter> helpers h (new # fs) = {}"
    using owned_regions [OF inv, of bs "as @ all_as fs"] own' bs new(2) by auto
  then show "untouched h h' bs" by (rule untouched_writes [OF w])
qed

lemma reass_insert_run:
  assumes inv: "reass_inv s rs F" and r: "r \<in> set rs" and d: "reassdata (ip_st s) r = Some d" and arr: "arriving s rs F p as"
    and new: "new = frag_of (eth_heap s) p as" and off: "off = fr_start new" "off + flen = fr_end new"
    and nc: "\<not> (\<exists>g \<in> set (F r). clash new g)"
    and two: "F r = [] \<Longrightarrow> last_frag (eth_heap s) p \<or> rd_flags d AND IP_REASS_FLAG_LASTFRAG \<noteq> 0 \<Longrightarrow> fr_start new \<noteq> 0"
    and clen: "unat clen = length as" and room: "length as + length (all_frags rs F) < 65536"
  shows "\<exists>q' h'. let d' = noted (last_frag (eth_heap s) p) (fr_end new) q' d;
         s' = stored r d' (ip_reass_pbufcount (ip_st s) + clen) h' s
     in reass_insert e p r off flen clen s =
       (if (last_frag (eth_heap s) p \<or> rd_flags d AND IP_REASS_FLAG_LASTFRAG \<noteq> 0) \<and> complete (frag_insert new (F r))
        then reass_finish r s' else Some (0, s')) \<and>
     reass_inv s' rs (F(r := frag_insert new (F r))) \<and> only_queue (eth_heap s) h' as (F r) \<and> pools h' = pools (eth_heap s) \<and>
     pbufs h' = pbufs (eth_heap s) \<and>
     (\<forall>f \<in> set (frag_insert new (F r)). drop 20 (pdata h' (fr_as f)) = drop 20 (pdata (eth_heap s) (fr_as f)))"
proof -
  let ?h = "eth_heap s" and ?l = "last_frag (eth_heap s) p"
  note i = reass_invD [OF inv]
  have ar: "fragment ?h p as" "owned ?h as" "exclusive ?h as" "set as \<inter> set (all_frags rs F) = {}"
    "?l \<Longrightarrow> unat (fr_end new) \<le> 0xFFFF - IP_HLEN" using arr by (auto simp: arriving_def new)
  note q = dg_queue [OF inv r d]
  note dis = frag_set_disjoint [OF r ar(4)]
  obtain q' h' where run: "ip_reass_chain_frag_into_datagram_and_validate r p ?l s =
       Some (if (?l \<or> rd_flags d AND IP_REASS_FLAG_LASTFRAG \<noteq> 0) \<and> complete (frag_insert new (F r))
             then IP_REASS_VALIDATE_TELEGRAM_FINISHED else IP_REASS_VALIDATE_PBUF_QUEUED, with_queue r d q' h' s)"
    and qq: "reass_queue h' q' (frag_insert new (F r))" "heap_inv h'"
    and dat: "\<forall>f \<in> set (frag_insert new (F r)). drop 20 (pdata h' (fr_as f)) = drop 20 (pdata ?h (fr_as f))"
    and w: "writes_only (helpers ?h (new # F r)) ?h h'"
    using chain_frag_queued [OF q(1) i(1) ar(1,2) dis d, of ?l, folded new, OF nc two] by blast
  have fp: "fr_as new = as" "fr_p new = p" using ar(1) by (simp_all add: new)
  have oq: "only_queue ?h h' as (F r)" using only_queue_helpers [OF i(1) q(1) ar(2) _ fp w] ar(1) by blast
  have pb: "pbufs h' = pbufs ?h" "pools h' = pools ?h" using writes_only_simps [OF w] by simp_all
  have c: "unat (ip_reass_pbufcount (ip_st s) + clen) = length as + length (all_frags rs F)"
    using i(6) clen room unat_add_no_wrap [of "ip_reass_pbufcount (ip_st s)" clen] by simp
  have "reass_inv (stored r (noted ?l (fr_end new) q' d) (ip_reass_pbufcount (ip_st s) + clen) h' s) rs (F(r := frag_insert new (F r)))"
  proof (rule stored_inv [OF inv r d, where as = as])
    show "distinct as" using ar(1) pchain_distinct by (auto simp: fragment_def Let_def packet_def)
    show "exclusive h' (as @ all_frags rs F)" using ar(3) i(5) by (auto simp: exclusive_def pb)
    show "untouched ?h h' (all_as (F r'))" if r': "r' \<in> set rs" "r' \<noteq> r" for r'
    proof -
      have "owned ?h (all_as (F r'))" using i(3) [OF r'(1)] by (auto simp: dg_ok_def reass_queue_def)
      moreover have "set (all_as (F r')) \<inter> (set as \<union> set (all_as (F r))) = {}"
        using all_frags_disjoint [OF i(4,7) r'(1) r r'(2)] frag_set_disjoint [OF r'(1) ar(4)] by auto
      ultimately show ?thesis using oq by (simp add: only_queue_def)
    qed
  qed (use q(2) qq c pb ar(4) mset_frag_insert [of new "F r"] fp in simp_all)
  moreover have "reass_insert e p r off flen clen s =
       (if (?l \<or> rd_flags d AND IP_REASS_FLAG_LASTFRAG \<noteq> 0) \<and> complete (frag_insert new (F r))
        then reass_finish r (stored r (noted ?l (fr_end new) q' d) (ip_reass_pbufcount (ip_st s) + clen) h' s)
        else Some (0, stored r (noted ?l (fr_end new) q' d) (ip_reass_pbufcount (ip_st s) + clen) h' s))"
  proof -
    obtain b where b: "pbufs ?h p = Some b" using ar(1) by (auto simp: fragment_def Let_def elim: packet_head)
    have il: "(IPH_OFFSET (bytes ?h) (payload b) AND PP_HTONS IP_MF = 0) = ?l" by (simp add: last_frag_def b)
    have "\<not> fr_end new < fr_start new" using frag_of_end(2) [OF ar(1)] by (simp add: new)
    then have ok: "\<not> (?l \<and> (fr_end new < off \<or> unat (fr_end new) > 0xFFFF - IP_HLEN))" using ar(5) off by auto
    have st: "stored r (noted ?l (fr_end new) q' d) c h' s =
        (if ?l then s\<lparr>eth_heap := h', ip_st := (ip_st s)\<lparr>reassdata := (reassdata (ip_st s))(r \<mapsto> d\<lparr>rd_p := q', datagram_len := fr_end new,
            rd_flags := rd_flags d OR IP_REASS_FLAG_LASTFRAG\<rparr>), ip_reass_pbufcount := c\<rparr>\<rparr>
         else s\<lparr>eth_heap := h', ip_st := (ip_st s)\<lparr>reassdata := (reassdata (ip_st s))(r \<mapsto> d\<lparr>rd_p := q'\<rparr>), ip_reass_pbufcount := c\<rparr>\<rparr>)" for c
      by (simp add: stored_def noted_def)
    show ?thesis
      unfolding reass_insert_def b bind.bind_lunit Let_def il off(2) st
      using ok run by (auto simp: with_queue_def set_pbufcount_def upd_reassdata_def)
  qed
  ultimately show ?thesis using oq pb dat unfolding Let_def by blast
qed

section \<open>A complete datagram\<close>

lemma first_frag_restored:
  assumes inv: "heap_inv h" and f: "frag_ok h f" and own: "owned h (fr_as f)" and hdr: "length hdr = 20"
    and h1: "h1 = reass_restore_header (payload (the (pbufs h (fr_p f)))) hdr n h"
  shows "packet h1 (fr_p f) (fr_as f)" "pdata h1 (fr_as f) = datagram_header hdr n @ drop 20 (pdata h (fr_as f))" "heap_inv h1"
    "pbufs h1 = pbufs h" "pools h1 = pools h"
    "\<And>bs. owned h bs \<Longrightarrow> set bs \<inter> set (fr_as f) = {} \<Longrightarrow> untouched h h1 bs"
proof -
  let ?p = "fr_p f" and ?a = "payload (the (pbufs h (fr_p f)))"
  note r = reass_restore_header_spec [OF hdr, where a = ?a and n = n and h = h, folded h1]
  have l: "20 \<le> plen h ?p" and pk: "packet h ?p (fr_as f)" using f by (auto simp: frag_ok_def)
  obtain bs where bs: "fr_as f = ?p # bs" using f by (rule frag_ok_head)
  show "packet h1 ?p (fr_as f)" using writes_only_packet [OF r(2)] pk by simp
  show "heap_inv h1" using heap_inv_writes [OF r(2)] inv by simp
  show pb: "pbufs h1 = pbufs h" "pools h1 = pools h" using writes_only_simps [OF r(2)] by simp_all
  have reg: "{?a..<?a + 20} \<subseteq> packet_region h (fr_as f)" using l by (auto simp: bs packet_region_def payload_region_def)
  show other: "untouched h h1 cs" if "owned h cs" "set cs \<inter> set (fr_as f) = {}" for cs
    using owned_regions [OF inv that(1) own that(2)] reg by (intro untouched_writes [OF r(2)]) auto
  have "\<not> ?p \<in> set bs" using packet_head_fresh [of h ?p bs] pk bs by simp
  then have "packet_region h bs \<inter> packet_region h [?p] = {}"
    using owned_regions [OF inv, of bs "[?p]"] own by (auto simp: bs owned_def)
  then have "untouched h h1 bs" using l by (intro untouched_writes [OF r(2)]) (auto simp: packet_region_def payload_region_def)
  then have tl: "pdata h1 bs = pdata h bs" using untouched_packet(1) by blast
  have "rd h1 (?a + 20) (plen h ?p - 20) = rd h (?a + 20) (plen h ?p - 20)"
    by (rule writes_only_rd [OF r(2)]) auto
  moreover have "pbytes h1 ?p = rd h1 ?a 20 @ rd h1 (?a + 20) (plen h ?p - 20)"
    using l by (simp add: pbytes_def pb plen_def flip: take_rd drop_rd) (metis append_take_drop_id drop_rd min.absorb1 take_rd)
  moreover have "drop 20 (pbytes h ?p) = rd h (?a + 20) (plen h ?p - 20)" by (simp add: pbytes_def drop_rd)
  ultimately show "pdata h1 (fr_as f) = datagram_header hdr n @ drop 20 (pdata h (fr_as f))"
    using l by (simp add: bs tl r(1))
qed

lemma frag_queue_joined:
  assumes inv: "heap_inv h" and q: "reass_queue h q (f # fs)" and hdr: "length hdr = 20"
    and fit: "20 + length (frag_data h (f # fs)) < 65536"
    and h1: "h1 = reass_restore_header (payload (the (pbufs h (fr_p f)))) hdr n h"
  shows "\<exists>m. cat_frags_loop (fr_p f) (frag_next h (fr_p f)) h1 = Some (h1\<lparr>pbufs := m\<rparr>) \<and>
     packet (h1\<lparr>pbufs := m\<rparr>) (fr_p f) (all_as (f # fs)) \<and>
     pdata (h1\<lparr>pbufs := m\<rparr>) (all_as (f # fs)) = datagram_header hdr n @ frag_data h (f # fs) \<and> heap_inv (h1\<lparr>pbufs := m\<rparr>) \<and>
     refs_kept (pbufs h) m \<and> pools h1 = pools h \<and>
     (\<forall>bs. owned h bs \<and> set bs \<inter> set (all_as (f # fs)) = {} \<longrightarrow> untouched h (h1\<lparr>pbufs := m\<rparr>) bs)"
proof -
  have fo: "frag_ok h f" "frags_of h (frag_next h (fr_p f)) fs" "distinct (fr_as f @ all_as fs)" "owned h (fr_as f)" "owned h (all_as fs)"
    using q by (auto simp: reass_queue_def frags_of_Cons owned_def)
  note k = first_frag_restored [OF inv fo(1,4) hdr h1]
  have "reass_queue h (frag_next h (fr_p f)) fs" using q fo by (auto simp: reass_queue_def)
  note tl = untouched_queue [OF k(6) [OF fo(5)] this]
  have dis: "set (all_as fs) \<inter> set (fr_as f) = {}" using fo(3) by auto
  have "length (pdata h1 (fr_as f)) + length (frag_data h1 fs) < 65536"
    using fit tl(2) [OF dis] k(2) hdr by (simp add: add.assoc)
  from cat_frags_loop_spec [OF k(1) _ k(3) fo(3) this]
  obtain m where m: "cat_frags_loop (fr_p f) (frag_next h (fr_p f)) h1 = Some (h1\<lparr>pbufs := m\<rparr>)"
    "packet (h1\<lparr>pbufs := m\<rparr>) (fr_p f) (fr_as f @ all_as fs)"
    "pdata (h1\<lparr>pbufs := m\<rparr>) (fr_as f @ all_as fs) = pdata h1 (fr_as f) @ frag_data h1 fs" "heap_inv (h1\<lparr>pbufs := m\<rparr>)"
    "refs_kept (pbufs h1) m" "\<forall>a. a \<notin> set (fr_as f @ all_as fs) \<longrightarrow> m a = pbufs h1 a"
    using tl(1) [OF dis] by (auto simp: reass_queue_def)
  have "untouched h (h1\<lparr>pbufs := m\<rparr>) bs" if "owned h bs" "set bs \<inter> set (all_as (f # fs)) = {}" for bs
  proof (rule untouched_trans [OF k(6)])
    show "owned h bs" "set bs \<inter> set (fr_as f) = {}" using that by auto
    show "untouched h1 (h1\<lparr>pbufs := m\<rparr>) bs" by (rule untouched_same) (use m(6) that(2) in auto)
  qed
  then show ?thesis using m k(2,4,5) tl(2) [OF dis] by (intro exI [of _ m]) simp
qed

lemma next_dg_count [simp]: "next_dg (l\<lparr>ip_reass_pbufcount := c\<rparr>) = next_dg l"
  by (simp add: next_dg_def fun_eq_iff)

lemma same_dgD:
  assumes "same_dg l l' a" "reassdata l a = Some d"
  shows "\<exists>n. reassdata l' a = Some (d\<lparr>rd_next := n\<rparr>)"
proof -
  have "map_option (rd_next_update (\<lambda>_. 0)) (reassdata l' a) = Some (d\<lparr>rd_next := 0\<rparr>)" using assms by (simp add: same_dg_def)
  then obtain d' where d': "reassdata l' a = Some d'" "d'\<lparr>rd_next := 0\<rparr> = d\<lparr>rd_next := 0\<rparr>" by auto
  have "d' = d'\<lparr>rd_next := 0\<rparr>\<lparr>rd_next := rd_next d'\<rparr>" by simp
  also have "\<dots> = d\<lparr>rd_next := rd_next d'\<rparr>" unfolding d'(2) by simp
  finally show ?thesis using d'(1) by metis
qed

lemma removed_inv:
  assumes inv: "reass_inv s (xs @ r # ys) F" and hi: "heap_inv (eth_heap s')" and l: "dg_list s' (xs @ ys)"
    and same: "\<forall>a. a \<noteq> r \<longrightarrow> same_dg (ip_st s) (ip_st s') a"
    and u: "\<forall>bs. owned (eth_heap s) bs \<and> set bs \<inter> set (all_as (F r)) = {} \<longrightarrow> untouched (eth_heap s) (eth_heap s') bs"
    and c: "ip_reass_pbufcount (ip_st s') = ip_reass_pbufcount (ip_st s) - word_of_nat (length (all_as (F r)))"
  shows "reass_inv s' (xs @ ys) F"
proof -
  note i = reass_invD [OF inv]
  have dis: "set (all_as (F r')) \<inter> set (all_as (F r)) = {}" if "r' \<in> set (xs @ ys)" for r'
    using all_frags_disjoint [OF i(4,7), of r' r] i(7) that by auto
  have ok: "dg_ok s' r' (F r') \<and> untouched (eth_heap s) (eth_heap s') (all_as (F r'))" if r': "r' \<in> set (xs @ ys)" for r'
  proof -
    obtain d where d: "reassdata (ip_st s) r' = Some d" "reass_queue (eth_heap s) (rd_p d) (F r')" "length (rd_iphdr d) = 20"
      using i(3) [of r'] r' by (auto simp: dg_ok_def)
    have "r' \<noteq> r" using r' i(7) by auto
    then obtain n where n: "reassdata (ip_st s') r' = Some (d\<lparr>rd_next := n\<rparr>)" using same same_dgD [OF _ d(1)] by blast
    have ut: "untouched (eth_heap s) (eth_heap s') (all_as (F r'))" using u d(2) dis [OF r'] by (auto simp: reass_queue_def)
    then show ?thesis using untouched_queue(1) [OF ut d(2)] n d(3) by (auto simp: dg_ok_def)
  qed
  have "exclusive (eth_heap s') (all_as (F r'))" if "r' \<in> set (xs @ ys)" for r'
  proof -
    have "exclusive (eth_heap s) (all_as (F r'))" using i(5) that by (auto simp: exclusive_def set_all_frags)
    then show ?thesis using ok [OF that] untouched_packet(4) by blast
  qed
  then have ex: "exclusive (eth_heap s') (all_frags (xs @ ys) F)" by (auto simp: exclusive_def set_all_frags)
  have le: "length (all_as (F r)) \<le> unat (ip_reass_pbufcount (ip_st s))" using i(6) by simp
  then have "length (all_as (F r)) < 65536" using unat_u16_less [of "ip_reass_pbufcount (ip_st s)"] by linarith
  then have "unat (ip_reass_pbufcount (ip_st s')) = length (all_frags (xs @ ys) F)"
    using le i(6) unfolding c by (subst unat_sub_no_wrap) simp_all
  then show ?thesis using hi l ok ex i(4) by (auto simp: reass_inv_def)
qed

text \<open>The links of the list around the datagram, and its removal.\<close>

lemma reass_unlink:
  assumes l: "dg_list s (xs @ r # ys)" and inv: "heap_inv (eth_heap s)"
  obtains prev desc rd' hd' where
    "(if r = reassdatagrams (ip_st s) then Some 0 else find_prev_loop r s (reassdatagrams (ip_st s))) = Some prev"
    "ip_reass_dequeue_datagram r prev s =
       Some (s\<lparr>eth_heap := (eth_heap s)\<lparr>pools := (pools (eth_heap s))(MEMP_REASSDATA := desc)\<rparr>,
               ip_st := (ip_st s)\<lparr>reassdatagrams := hd', reassdata := rd'\<rparr>\<rparr>)"
    "dg_list (s\<lparr>eth_heap := (eth_heap s)\<lparr>pools := (pools (eth_heap s))(MEMP_REASSDATA := desc)\<rparr>,
               ip_st := (ip_st s)\<lparr>reassdatagrams := hd', reassdata := rd'\<rparr>\<rparr>) (xs @ ys)"
    "\<forall>a. a \<noteq> r \<longrightarrow> same_dg (ip_st s) ((ip_st s)\<lparr>reassdata := rd'\<rparr>) a"
proof -
  have ch: "lchain (next_dg (ip_st s)) (reassdatagrams (ip_st s)) (xs @ r # ys)" "set (xs @ r # ys) \<subseteq> dom (reassdata (ip_st s))"
    using l by (simp_all add: dg_list_def)
  have "(if r = reassdatagrams (ip_st s) then Some 0 else find_prev_loop r s (reassdatagrams (ip_st s))) =
      Some (if xs = [] then 0 else last xs)"
  proof (cases "xs = []")
    case False
    then have "r \<noteq> reassdatagrams (ip_st s)" using ch(1) lchain_distinct [OF ch(1)] by (cases xs) auto
    then show ?thesis using find_prev_loop_spec [OF ch(1) False] ch(2) False by auto
  qed (use ch(1) in simp)
  then show ?thesis using dequeue_spec [OF l inv] that by blast
qed

lemma reass_finish_spec:
  assumes inv: "reass_inv s (xs @ r # ys) F" and d: "reassdata (ip_st s) r = Some d" and fs: "F r = f # fs"
    and fit: "20 + length (frag_data (eth_heap s) (F r)) < 65536"
  shows "\<exists>s'. reass_finish r s = Some (fr_p f, s') \<and> packet (eth_heap s') (fr_p f) (all_as (F r)) \<and>
     pdata (eth_heap s') (all_as (F r)) = datagram_header (rd_iphdr d) (datagram_len d + 20) @ frag_data (eth_heap s) (F r) \<and>
     owned (eth_heap s') (all_as (F r)) \<and> exclusive (eth_heap s') (all_as (F r)) \<and> reass_inv s' (xs @ ys) F \<and>
     (\<forall>a. a \<noteq> r \<longrightarrow> same_dg (ip_st s) (ip_st s') a) \<and>
     (\<forall>bs. owned (eth_heap s) bs \<and> set bs \<inter> set (all_as (F r)) = {} \<longrightarrow> untouched (eth_heap s) (eth_heap s') bs)"
proof -
  let ?h = "eth_heap s" and ?p = "fr_p f" and ?rs = "xs @ r # ys"
  note i = reass_invD [OF inv]
  have q: "reass_queue ?h (rd_p d) (f # fs)" "length (rd_iphdr d) = 20" using dg_queue [OF inv _ d] fs by auto
  have p: "rd_p d = ?p" "frag_ok ?h f" using q by (auto simp: reass_queue_def frags_of_Cons)
  obtain b where b: "pbufs ?h ?p = Some b" using p(2) by (auto elim: frag_ok_head)
  define h1 where "h1 = reass_restore_header (payload b) (rd_iphdr d) (datagram_len d + 20) ?h"
  obtain m where m: "cat_frags_loop ?p (frag_next ?h ?p) h1 = Some (h1\<lparr>pbufs := m\<rparr>)" "packet (h1\<lparr>pbufs := m\<rparr>) ?p (all_as (f # fs))"
    "pdata (h1\<lparr>pbufs := m\<rparr>) (all_as (f # fs)) = datagram_header (rd_iphdr d) (datagram_len d + 20) @ frag_data ?h (f # fs)"
    "heap_inv (h1\<lparr>pbufs := m\<rparr>)" "refs_kept (pbufs ?h) m" "pools h1 = pools ?h"
    "\<forall>bs. owned ?h bs \<and> set bs \<inter> set (all_as (f # fs)) = {} \<longrightarrow> untouched ?h (h1\<lparr>pbufs := m\<rparr>) bs"
    using frag_queue_joined [OF i(1) q, of h1 "datagram_len d + 20"] fit fs b by (auto simp: h1_def)
  define s2 where "s2 = s\<lparr>eth_heap := h1\<lparr>pbufs := m\<rparr>\<rparr>"
  have l2: "dg_list s2 ?rs" "heap_inv (eth_heap s2)" using i(2) m(4,6) by (simp_all add: dg_list_def s2_def)
  obtain prev desc rd' hd' where
    fp: "(if r = reassdatagrams (ip_st s2) then Some 0 else find_prev_loop r s2 (reassdatagrams (ip_st s2))) = Some prev"
    and dq: "ip_reass_dequeue_datagram r prev s2 =
       Some (s2\<lparr>eth_heap := (eth_heap s2)\<lparr>pools := (pools (eth_heap s2))(MEMP_REASSDATA := desc)\<rparr>,
               ip_st := (ip_st s2)\<lparr>reassdatagrams := hd', reassdata := rd'\<rparr>\<rparr>)"
    and l3: "dg_list (s2\<lparr>eth_heap := (eth_heap s2)\<lparr>pools := (pools (eth_heap s2))(MEMP_REASSDATA := desc)\<rparr>,
               ip_st := (ip_st s2)\<lparr>reassdatagrams := hd', reassdata := rd'\<rparr>\<rparr>) (xs @ ys)"
    and same: "\<forall>a. a \<noteq> r \<longrightarrow> same_dg (ip_st s2) ((ip_st s2)\<lparr>reassdata := rd'\<rparr>) a"
    using reass_unlink [OF l2] .
  define h3 where "h3 = h1\<lparr>pbufs := m, pools := (pools h1)(MEMP_REASSDATA := desc)\<rparr>"
  define c where "c = ip_reass_pbufcount (ip_st s) - word_of_nat (length (all_as (F r)))"
  define s3 where "s3 = s\<lparr>eth_heap := h3, ip_st := (ip_st s)\<lparr>reassdatagrams := hd', reassdata := rd', ip_reass_pbufcount := c\<rparr>\<rparr>"
  have heq: "h3 = (h1\<lparr>pbufs := m\<rparr>)\<lparr>pools := (pools (h1\<lparr>pbufs := m\<rparr>))(MEMP_REASSDATA := desc)\<rparr>" by (simp add: h3_def)
  have hi: "heap_inv h3" unfolding heq using m(4) by (subst heap_inv_other_pool) simp_all
  have keep: "untouched (h1\<lparr>pbufs := m\<rparr>) h3 bs" for bs by (rule untouched_same) (simp_all add: h3_def)
  have pk: "packet h3 ?p (all_as (F r))" "pdata h3 (all_as (F r)) = datagram_header (rd_iphdr d) (datagram_len d + 20) @ frag_data ?h (F r)"
    using untouched_packet(1,2) [OF keep] m(2,3) fs by auto
  have refs: "refs_kept (pbufs ?h) (pbufs h3)" using m(5) by (simp add: h3_def)
  have "exclusive ?h (all_as (F r))" "owned ?h (all_as (F r))" using i(5) q(1) by (simp_all add: reass_queue_def fs)
  then have own: "owned h3 (all_as (F r))" "exclusive h3 (all_as (F r))"
    using refs_kept_owned [OF refs] refs_kept_exclusive [OF refs] by auto
  have u: "\<forall>bs. owned ?h bs \<and> set bs \<inter> set (all_as (F r)) = {} \<longrightarrow> untouched ?h h3 bs" using m(7) fs untouched_trans [OF _ keep] by auto
  have cl: "pbuf_clen h3 ?p = Some (word_of_nat (length (all_as (F r))))"
    using pbuf_clen_loop_chain [of h3 ?p "all_as (F r)" 0] pk(1) by (simp add: pbuf_clen_def packet_def)
  have ge: "word_of_nat (length (all_as (F r))) \<le> ip_reass_pbufcount (ip_st s)"
    using i(6) unat_u16_less [of "ip_reass_pbufcount (ip_st s)"] by (simp add: word_le_nat_alt unsigned_of_nat take_bit_nat_eq_self)
  have run: "reass_finish r s = Some (?p, s3)"
  proof -
    have "cat_frags_loop ?p (iprh_next (bytes ?h) (payload b)) h1 = Some (h1\<lparr>pbufs := m\<rparr>)" using m(1) b by (simp add: frag_next_def)
    then have "reass_finish r s = do {
        s \<leftarrow> ip_reass_dequeue_datagram r prev s2;
        clen \<leftarrow> pbuf_clen (eth_heap s) ?p;
        lwip_assert (ip_reass_pbufcount (ip_st s) \<ge> clen);
        Some (?p, set_pbufcount (ip_reass_pbufcount (ip_st s) - clen) s) }"
      unfolding reass_finish_def d bind.bind_lunit b p(1) Let_def h1_def [symmetric]
      by (simp only: bind.bind_lunit s2_def [symmetric] fp)
    then show ?thesis using cl ge unfolding dq by (simp add: s2_def s3_def h3_def set_pbufcount_def c_def)
  qed
  have "reass_inv s3 (xs @ ys) F"
  proof (rule removed_inv [OF inv])
    show "dg_list s3 (xs @ ys)" using l3 by (simp add: dg_list_def s3_def s2_def h3_def)
    show "\<forall>a. a \<noteq> r \<longrightarrow> same_dg (ip_st s) (ip_st s3) a" using same by (simp add: same_dg_def s2_def s3_def)
  qed (use hi u in \<open>simp_all add: s3_def c_def\<close>)
  moreover have "\<forall>a. a \<noteq> r \<longrightarrow> same_dg (ip_st s) (ip_st s3) a" using same by (simp add: same_dg_def s2_def s3_def)
  ultimately show ?thesis using run pk own u by (intro exI [of _ s3]) (simp add: s3_def)
qed

end
