(* ===== verification/Ip_Example.thy ===== *)
theory Ip_Example
  imports Ip4_Reass_Step Eth_Example
begin

text \<open>
  A concrete state of the network layer: beside the buffers of the packet buffer examples, two fragments of a UDP
  datagram of eleven bytes from 192.168.0.2 to 192.168.0.1 lie in the heap, and no datagram is being put together.
\<close>

definition example_frag1 :: "u8 list" where
  "example_frag1 =
     [0x45, 0, 0, 28, 0x12, 0x34, 0x20, 0, 64, 17, 0x66, 0xE4, 192, 168, 0, 2, 192, 168, 0, 1] @ [1, 2, 3, 4, 5, 6, 7, 8]"

definition example_frag2 :: "u8 list" where
  "example_frag2 =
     [0x45, 0, 0, 23, 0x12, 0x34, 0, 1, 64, 17, 0x86, 0xE8, 192, 168, 0, 2, 192, 168, 0, 1] @ [9, 10, 11]"

definition example_frag_heap :: heap where
  "example_frag_heap =
     \<lparr>pbufs = [512 \<mapsto> example_pbuf 0 528 28 28, 576 \<mapsto> example_pbuf 0 592 23 23],
      bytes = (\<lambda>x. if 528 \<le> x \<and> x < 556 then example_frag1 ! (x - 528)
                   else if 592 \<le> x \<and> x < 615 then example_frag2 ! (x - 592) else 0),
      heap_blocks = [512 \<mapsto> 64, 576 \<mapsto> 64], pools = example_pools, pbuf_free_ooseq_pending = False\<rparr>"

definition example_frags :: eth_state where
  "example_frags = example_eth\<lparr>eth_heap := example_frag_heap\<rparr>"

lemma example_frag_heap_inv: "heap_inv example_frag_heap"
proof -
  have lv: "live example_frag_heap k = (if k = Own_heap then {512, 576} else {})" for k
    by (auto simp: live_def example_frag_heap_def split: if_splits)
  have pm: "pool_memory (example_pools MEMP_PBUF_POOL) = {10000..<11532} \<union> {11532..<13064}"
    by (simp add: pool_memory_def example_pools_elems)
  have bl: "blocks_ok example_frag_heap"
    unfolding blocks_ok_def by (auto simp: example_frag_heap_def pm split: if_splits)
  have lay: "layout_ok example_frag_heap a b \<and> home_ok example_frag_heap a b" if "pbufs example_frag_heap a = Some b" for a b
    using that by (auto simp: layout_ok_def home_ok_def block_size_def example_frag_heap_def example_pools_elems split: if_splits)
  have "pools example_frag_heap = example_pools" "pbufs example_frag_heap 0 = None"
    "live example_frag_heap Own_heap \<subseteq> dom (heap_blocks example_frag_heap)"
    unfolding lv by (auto simp: example_frag_heap_def)
  then show ?thesis using bl lay unfolding heap_inv_def lv by (simp add: example_pools_elems)
qed

lemma example_frag_fields [simp]:
  "eth_heap example_frags = example_frag_heap" "ip_st example_frags = example_ip"
  "pbufs example_frag_heap 512 = Some (example_pbuf 0 528 28 28)" "pbufs example_frag_heap 576 = Some (example_pbuf 0 592 23 23)"
  "plen example_frag_heap 512 = 28" "plen example_frag_heap 576 = 23" "pools example_frag_heap = example_pools"
  by (simp_all add: example_frags_def example_eth_def example_frag_heap_def plen_def)

lemma example_frag_length [simp]: "length example_frag1 = 28" "length example_frag2 = 23"
  by (simp_all add: example_frag1_def example_frag2_def)

lemma example_frag_rd:
  "rd example_frag_heap 528 28 = example_frag1" "rd example_frag_heap 592 23 = example_frag2"
  "rd example_frag_heap 528 20 = take 20 example_frag1"
  by (simp_all add: rd_def upt_rec example_frag_heap_def example_frag1_def example_frag2_def)

lemma example_frag_data [simp]:
  "pbytes example_frag_heap 512 = example_frag1" "pbytes example_frag_heap 576 = example_frag2"
  by (simp_all add: pbytes_def example_frag_rd)

lemma example_packets_held:
  "packet example_frag_heap 512 [512]" "packet example_frag_heap 576 [576]" "owned example_frag_heap [512]" "owned example_frag_heap [576]"
  "exclusive example_frag_heap [512]" "exclusive example_frag_heap [576]"
  by (simp_all add: packet_def owned_def)

end
