(* ===== verification/Ip4_Reass_Props.thy ===== *)
theory Ip4_Reass_Props
  imports Ip4_Reass_Step Ip_Example
begin

text \<open>
  \<^verbatim>\<open>ip4_reass\<close> puts a datagram together whatever the order in which its fragments arrive.
\<close>

section \<open>The entry of a fragment\<close>

text \<open>What tells datagrams apart.\<close>

definition hkey :: "(nat \<Rightarrow> u8) \<Rightarrow> nat \<Rightarrow> u32 \<times> u32 \<times> u16" where
  "hkey m a = (load32 m (a + 12), load32 m (a + 16), IPH_ID m a)"

lemma match_hkey: "IP_ADDRESSES_AND_ID_MATCH m a m' b \<longleftrightarrow> hkey m a = hkey m' b"
  by (simp add: IP_ADDRESSES_AND_ID_MATCH_def hkey_def)

lemma copied_header:
  "hkey (nth (rd h a 20)) 0 = hkey (bytes h) a" "IPH_OFFSET (nth (rd h a 20)) 0 = IPH_OFFSET (bytes h) a"
  by (simp_all add: hkey_def IPH_ID_def IPH_OFFSET_def load16_def load32_def add.commute [of a])

lemma hkey_frame: "rd h' a 20 = rd h a 20 \<Longrightarrow> hkey (bytes h') a = hkey (bytes h) a"
  using header_reads [of h' a h] by (simp add: hkey_def)

lemma offset_bytes_zero: "IPH_OFFSET_BYTES m a = 0 \<longleftrightarrow> lwip_htons (IPH_OFFSET m a) AND IP_OFFMASK = 0"
proof -
  let ?w = "lwip_htons (IPH_OFFSET m a) AND IP_OFFMASK"
  have "(0x1fff :: u16) = mask 13" by (simp add: mask_eq_exp_minus_1)
  then have "unat ?w < 8192" using unat_and_mask [of "lwip_htons (IPH_OFFSET m a)" 13] by simp
  then have "unat (?w * 8) = unat ?w * 8" by (simp add: unat_word_ariths)
  then show ?thesis unfolding IPH_OFFSET_BYTES_def by (metis mult_eq_0_iff unat_eq_zero zero_neq_numeral)
qed

text \<open>The header that an entry holds once the fragment at \<open>a\<close> has been seen.\<close>

definition kept_header :: "heap \<Rightarrow> nat \<Rightarrow> u8 list \<Rightarrow> u8 list" where
  "kept_header h a hdr =
     (if IPH_OFFSET_BYTES (bytes h) a = 0 \<and> lwip_htons (IPH_OFFSET (nth hdr) 0) AND IP_OFFMASK \<noteq> 0 then rd h a 20 else hdr)"

lemma ip4_reass_reads:
  assumes inv: "reass_inv s rs F" and arr: "arriving s rs F p as" and new: "new = frag_of (eth_heap s) p as"
    and a: "a = payload (the (pbufs (eth_heap s) p))" and room: "length as + length (all_frags rs F) \<le> IP_REASS_MAX_PBUFS"
  obtains b where "pbufs (eth_heap s) p = Some b" "payload b = a" "IPH_HL_BYTES (bytes (eth_heap s)) a = 20"
    "\<not> lwip_htons (IPH_LEN (bytes (eth_heap s)) a) < 20" "IPH_OFFSET_BYTES (bytes (eth_heap s)) a = fr_start new"
    "fr_start new + (lwip_htons (IPH_LEN (bytes (eth_heap s)) a) - 20) = fr_end new"
    "pbuf_clen (eth_heap s) p = Some (word_of_nat (length as))" "unat (word_of_nat (length as) :: u16) = length as"
    "\<not> unat (ip_reass_pbufcount (ip_st s)) + unat (word_of_nat (length as) :: u16) > IP_REASS_MAX_PBUFS"
proof -
  let ?h = "eth_heap s"
  have ar: "fragment ?h p as" using arr by (simp add: arriving_def)
  obtain b where b: "pbufs ?h p = Some b" using ar by (auto simp: fragment_def Let_def elim: packet_head)
  have a': "payload b = a" using a b by simp
  have cl: "pbuf_clen ?h p = Some (word_of_nat (length as))"
    using pbuf_clen_loop_chain [of ?h p as 0] ar by (simp add: pbuf_clen_def packet_def fragment_def Let_def)
  have ucl: "unat (word_of_nat (length as) :: u16) = length as" using room by (simp add: unsigned_of_nat take_bit_nat_eq_self)
  then have "\<not> unat (ip_reass_pbufcount (ip_st s)) + unat (word_of_nat (length as) :: u16) > IP_REASS_MAX_PBUFS"
    using reass_invD(6) [OF inv] room by simp
  then show thesis using that [OF b a'] fragment_header [OF b ar new, unfolded a'] cl ucl by blast
qed

lemma ip4_reass_existing:
  assumes inv: "reass_inv s rs F" and arr: "arriving s rs F p as" and new: "new = frag_of (eth_heap s) p as"
    and a: "a = payload (the (pbufs (eth_heap s) p))" and room: "length as + length (all_frags rs F) \<le> IP_REASS_MAX_PBUFS"
    and r: "find (dg_match s a) rs = Some r" and d: "reassdata (ip_st s) r = Some d"
  shows "\<exists>flen clen. ip4_reass e p s =
       reass_insert e p r (fr_start new) flen clen
         (stored r (d\<lparr>rd_iphdr := kept_header (eth_heap s) a (rd_iphdr d)\<rparr>) (ip_reass_pbufcount (ip_st s)) (eth_heap s) s) \<and>
     fr_start new + flen = fr_end new \<and> unat clen = length as"
proof -
  let ?h = "eth_heap s"
  note i = reass_invD [OF inv]
  obtain b where b: "pbufs ?h p = Some b" and a': "payload b = a" and hd: "IPH_HL_BYTES (bytes ?h) a = 20" "\<not> lwip_htons (IPH_LEN (bytes ?h) a) < 20"
      "IPH_OFFSET_BYTES (bytes ?h) a = fr_start new" "fr_start new + (lwip_htons (IPH_LEN (bytes ?h) a) - 20) = fr_end new"
    and cl: "pbuf_clen ?h p = Some (word_of_nat (length as))" "unat (word_of_nat (length as) :: u16) = length as"
      "\<not> unat (ip_reass_pbufcount (ip_st s)) + unat (word_of_nat (length as) :: u16) > IP_REASS_MAX_PBUFS"
    using ip4_reass_reads [OF inv arr new a room] .
  have rn: "r \<noteq> 0" using r i(2) lchain_nonzero by (auto simp: find_Some_iff dg_list_def)
  have fd: "find_datagram_loop a s (reassdatagrams (ip_st s)) = Some r"
    using find_datagram_loop_spec [of s _ rs a] i(2) r by (simp add: dg_list_def)
  have st: "stored r (d\<lparr>rd_iphdr := kept_header ?h a (rd_iphdr d)\<rparr>) (ip_reass_pbufcount (ip_st s)) ?h s =
      (if IPH_OFFSET_BYTES (bytes ?h) a = 0 \<and> lwip_htons (IPH_OFFSET (nth (rd_iphdr d)) 0) AND IP_OFFMASK \<noteq> 0
       then s\<lparr>ip_st := (ip_st s)\<lparr>reassdata := (reassdata (ip_st s))(r \<mapsto> d\<lparr>rd_iphdr := rd ?h a 20\<rparr>)\<rparr>\<rparr> else s)"
    using d by (auto simp: stored_def kept_header_def map_upd_triv)
  have "ip4_reass e p s = reass_insert e p r (fr_start new) (lwip_htons (IPH_LEN (bytes ?h) a) - 20) (word_of_nat (length as))
      (stored r (d\<lparr>rd_iphdr := kept_header ?h a (rd_iphdr d)\<rparr>) (ip_reass_pbufcount (ip_st s)) ?h s)"
    unfolding st offset_bytes_zero
    using hd(1-3) cl(3) rn fd by (simp add: ip4_reass_def b a' cl(1) Let_def d upd_reassdata_def del: not_less)
  then show ?thesis using hd(4) cl(2) by blast
qed

definition new_dg :: "nat \<Rightarrow> memp_desc \<Rightarrow> u8 list \<Rightarrow> eth_state \<Rightarrow> eth_state" where
  "new_dg r desc hdr s =
     s\<lparr>eth_heap := (eth_heap s)\<lparr>pools := (pools (eth_heap s))(MEMP_REASSDATA := desc)\<rparr>,
       ip_st := (ip_st s)\<lparr>reassdatagrams := r, reassdata := (reassdata (ip_st s))(r \<mapsto>
         \<lparr>rd_next = reassdatagrams (ip_st s), rd_p = 0, rd_iphdr = hdr, datagram_len = 0, rd_flags = 0, rd_timer = IP_REASS_MAXAGE\<rparr>)\<rparr>\<rparr>"

lemma ip4_reass_new:
  assumes inv: "reass_inv s rs F" and arr: "arriving s rs F p as" and new: "new = frag_of (eth_heap s) p as"
    and a: "a = payload (the (pbufs (eth_heap s) p))" and room: "length as + length (all_frags rs F) \<le> IP_REASS_MAX_PBUFS"
    and r: "find (dg_match s a) rs = None" and free: "set rs \<noteq> pool_elems (pools (eth_heap s) MEMP_REASSDATA)"
  shows "\<exists>r desc flen clen. ip4_reass e p s =
       reass_insert e p r (fr_start new) flen clen (new_dg r desc (rd (eth_heap s) a 20) s) \<and>
     fr_start new + flen = fr_end new \<and> unat clen = length as \<and> r \<notin> set rs \<and>
     reass_inv (new_dg r desc (rd (eth_heap s) a 20) s) (r # rs) (F(r := []))"
proof -
  let ?h = "eth_heap s"
  note i = reass_invD [OF inv]
  obtain b where b: "pbufs ?h p = Some b" and a': "payload b = a" and hd: "IPH_HL_BYTES (bytes ?h) a = 20" "\<not> lwip_htons (IPH_LEN (bytes ?h) a) < 20"
      "IPH_OFFSET_BYTES (bytes ?h) a = fr_start new" "fr_start new + (lwip_htons (IPH_LEN (bytes ?h) a) - 20) = fr_end new"
    and cl: "pbuf_clen ?h p = Some (word_of_nat (length as))" "unat (word_of_nat (length as) :: u16) = length as"
      "\<not> unat (ip_reass_pbufcount (ip_st s)) + unat (word_of_nat (length as) :: u16) > IP_REASS_MAX_PBUFS"
    using ip4_reass_reads [OF inv arr new a room] .
  have fd: "find_datagram_loop a s (reassdatagrams (ip_st s)) = Some 0"
    using find_datagram_loop_spec [of s _ rs a] i(2) r by (simp add: dg_list_def)
  have "pool.holds (pools ?h MEMP_REASSDATA) (set rs)" using i(2) by (simp add: dg_list_def)
  from memp_malloc_free [where ps = "pools ?h" and type = MEMP_REASSDATA, OF this free] obtain q desc where
    q: "memp_malloc (pools ?h) MEMP_REASSDATA = Some (q, (pools ?h)(MEMP_REASSDATA := desc))" "q \<noteq> 0" "q \<notin> set rs"
      "pool.holds desc (insert q (set rs))" by blast
  have run: "ip4_reass e p s = reass_insert e p q (fr_start new) (lwip_htons (IPH_LEN (bytes ?h) a) - 20) (word_of_nat (length as))
      (new_dg q desc (rd ?h a 20) s)"
  proof -
    have rdp: "rd (?h\<lparr>pools := ps\<rparr>) x n = rd ?h x n" for ps x n by (simp add: rd_def)
    show ?thesis
      using hd(1-3) cl(3) fd q(1,2)
      by (simp add: ip4_reass_def b a' cl(1) Let_def ip_reass_enqueue_new_datagram_def reassdata_malloc_def new_dg_def rdp del: not_less)
  qed
  have same: "untouched ?h (?h\<lparr>pools := (pools ?h)(MEMP_REASSDATA := desc)\<rparr>) bs" for bs by (rule untouched_same) simp_all
  have "reass_inv (new_dg q desc (rd ?h a 20) s) (q # rs) (F(q := []))"
  proof -
    have nx: "next_dg (ip_st (new_dg q desc (rd ?h a 20) s)) x = next_dg (ip_st s) x" if "x \<in> set rs" for x
      using that q(3) by (auto simp: next_dg_def new_dg_def)
    have "lchain (next_dg (ip_st (new_dg q desc (rd ?h a 20) s))) q (q # rs)"
      using i(2) q(2) lchain_cong [of rs "next_dg (ip_st (new_dg q desc (rd ?h a 20) s))" "next_dg (ip_st s)", OF nx]
      by (simp add: dg_list_def next_dg_def [of _ q]) (simp add: new_dg_def)
    then have l: "dg_list (new_dg q desc (rd ?h a 20) s) (q # rs)"
      using i(2) q(4) by (auto simp: dg_list_def new_dg_def)
    have "dg_ok (new_dg q desc (rd ?h a 20) s) x ((F(q := [])) x)" if "x \<in> set (q # rs)" for x
      using that i(3) [of x] q(3) untouched_queue(1) [OF same] by (auto simp: dg_ok_def new_dg_def reass_queue_def owned_def)
    moreover have "all_frags rs (F(q := [])) = all_frags rs F" using q(3) by (intro all_frags_cong) auto
    moreover have "exclusive (?h\<lparr>pools := (pools ?h)(MEMP_REASSDATA := desc)\<rparr>) (all_frags rs F)" using i(5) by (simp add: exclusive_def)
    ultimately show ?thesis using i l by (auto simp: reass_inv_def heap_inv_other_pool) (simp_all add: new_dg_def heap_inv_other_pool)
  qed
  then show ?thesis using run hd(4) cl(2) q(3) by blast
qed

section \<open>The pieces of a datagram\<close>

lemma pieces_all:
  assumes "sorted_wrt before gs" "linked (Some e) gs" "sorted_wrt before Q" "linked (Some e) Q" "set Q \<subseteq> set gs" "Q \<noteq> []" "last gs \<in> set Q"
  shows "Q = gs"
  using assms
proof (induction gs arbitrary: e Q)
  case (Cons g gs)
  obtain f Q' where Q: "Q = f # Q'" using Cons.prems(6) by (cases Q) auto
  have "f = g" using Cons.prems(1,2,4,5) Q by (auto simp: before_def)
  have "g \<notin> set Q'" using Cons.prems(3) Q \<open>f = g\<close> by auto
  then have sub: "set Q' \<subseteq> set gs" using Cons.prems(5) Q by auto
  show ?case
  proof (cases "gs = []")
    case True
    then show ?thesis using sub Q \<open>f = g\<close> by simp
  next
    case False
    have "before g (last gs)" using Cons.prems(1) False by simp
    then have "last gs \<noteq> g" by auto
    then have "last gs \<in> set Q'" using Cons.prems(7) False Q \<open>f = g\<close> by simp
    moreover from this have "Q' \<noteq> []" by auto
    ultimately have "Q' = gs" using Cons.IH [of "fr_end g" Q'] Cons.prems(1-4) Q \<open>f = g\<close> sub by simp
    then show ?thesis using Q \<open>f = g\<close> by simp
  qed
qed simp

lemma sorted_before_unique: "sorted_wrt before xs \<Longrightarrow> sorted_wrt before ys \<Longrightarrow> set xs = set ys \<Longrightarrow> xs = ys"
proof -
  have "distinct xs" if "sorted_wrt before xs" for xs using that by (induction xs) auto
  moreover have eq: "xs = ys" if "sorted_wrt before xs" "sorted_wrt before ys" "set xs = set ys" "distinct xs" "distinct ys" for xs ys
    using that
  proof (induction xs arbitrary: ys)
    case (Cons x xs)
    then obtain y zs where y: "ys = y # zs" by (cases ys) auto
    have "x = y"
    proof (rule ccontr)
      assume "x \<noteq> y"
      then have "before x y" "before y x" using Cons.prems y by auto
      then show False by (auto simp: before_def)
    qed
    moreover have "set xs = set zs" using Cons.prems(3-5) y \<open>x = y\<close> by (simp add: insert_ident)
    ultimately show ?case using Cons y by auto
  qed simp
  ultimately show "sorted_wrt before xs \<Longrightarrow> sorted_wrt before ys \<Longrightarrow> set xs = set ys \<Longrightarrow> xs = ys" by blast
qed

lemma sorted_no_clash:
  assumes "sorted_wrt before gs" "f \<in> set gs" "g \<in> set gs" "f \<noteq> g"
  shows "\<not> clash f g"
proof -
  have "before f g \<or> before g f" using assms by (induction gs) auto
  then show ?thesis by (auto simp: before_def clash_def)
qed

lemma length_frag_data:
  assumes "linked (Some e) fs" "\<forall>f \<in> set fs. length (drop 20 (pdata h (fr_as f))) = unat (fr_end f) - unat (fr_start f) \<and> fr_start f \<le> fr_end f"
    "fs \<noteq> []"
  shows "length (frag_data h fs) + unat e = unat (fr_end (last fs))"
  using assms
proof (induction fs arbitrary: e)
  case (Cons f fs)
  have le: "unat (fr_start f) \<le> unat (fr_end f)" using Cons.prems(2) by (simp add: word_le_nat_alt)
  have st: "fr_start f = e" "linked (Some (fr_end f)) fs" using Cons.prems(1) by auto
  have lf: "length (drop 20 (pdata h (fr_as f))) = unat (fr_end f) - unat (fr_start f)" using Cons.prems(2) by simp
  show ?case
  proof (cases "fs = []")
    case True
    then show ?thesis using le st lf by simp
  next
    case False
    then show ?thesis using Cons.IH [OF st(2)] Cons.prems(2) le st lf by simp
  qed
qed simp

text \<open>The fragments \<open>gs\<close> of one datagram, in the order of their offsets, as they lie in memory before the first of
  them is handed over: they follow one another without gap or overlap, have the addresses and identification \<open>k\<close>, and the
  last one alone has no more-fragments flag.\<close>

definition pieces :: "eth_state \<Rightarrow> nat list \<Rightarrow> (nat \<Rightarrow> frag list) \<Rightarrow> u32 \<times> u32 \<times> u16 \<Rightarrow> frag list \<Rightarrow> bool" where
  "pieces s rs F k gs \<longleftrightarrow>
     1 < length gs \<and> sorted_wrt before gs \<and> complete gs \<and> distinct (all_as gs) \<and>
     (\<forall>g \<in> set gs. arriving s rs F (fr_p g) (fr_as g) \<and> frag_of (eth_heap s) (fr_p g) (fr_as g) = g \<and>
        hkey (bytes (eth_heap s)) (payload (the (pbufs (eth_heap s) (fr_p g)))) = k \<and>
        (last_frag (eth_heap s) (fr_p g) \<longleftrightarrow> g = last gs))"

lemma piecesD:
  assumes "pieces s rs F k gs"
  shows "gs \<noteq> []" "sorted_wrt before gs" "complete gs" "distinct (all_as gs)" "fr_start (last gs) \<noteq> 0" "hd gs \<noteq> last gs"
    "\<And>g. g \<in> set gs \<Longrightarrow> fr_start g = 0 \<longleftrightarrow> g = hd gs"
proof -
  have p: "1 < length gs" "sorted_wrt before gs" "complete gs" "distinct (all_as gs)" using assms by (simp_all add: pieces_def)
  then show "gs \<noteq> []" "sorted_wrt before gs" "complete gs" "distinct (all_as gs)" by auto
  obtain f fs where gs: "gs = f # fs" "fs \<noteq> []" using p(1) by (cases gs; cases "tl gs") auto
  have b: "before f g" if "g \<in> set fs" for g using p(2) that gs by auto
  then have l: "before f (last fs)" using gs by simp
  then show "hd gs \<noteq> last gs" using gs by auto
  show "fr_start (last gs) \<noteq> 0" using l gs by (auto simp: before_def)
  have "fr_start f = 0" using p(3) gs(1) by (simp add: linked_complete)
  moreover have "fr_start g \<noteq> 0" if "g \<in> set fs" for g using b [OF that] by (auto simp: before_def)
  ultimately show "fr_start g = 0 \<longleftrightarrow> g = hd gs" if "g \<in> set gs" for g using that gs(1) by auto
qed

section \<open>One more piece\<close>

text \<open>The state while the pieces \<open>Q\<close> of the datagram \<open>gs\<close> are queued in the entry \<open>r\<close>; the pieces in \<open>A\<close> have been
  looked at.\<close>

definition collecting :: "eth_state \<Rightarrow> nat list \<Rightarrow> (nat \<Rightarrow> frag list) \<Rightarrow> u32 \<times> u32 \<times> u16 \<Rightarrow> frag list \<Rightarrow> frag set \<Rightarrow>
    eth_state \<Rightarrow> nat \<Rightarrow> ip_reassdata \<Rightarrow> frag list \<Rightarrow> bool" where
  "collecting s0 rs F k gs A s r d Q \<longleftrightarrow>
     reass_inv s (r # rs) (F(r := Q)) \<and> r \<notin> set rs \<and> reassdata (ip_st s) r = Some d \<and> set Q \<subseteq> set gs \<and>
     (\<forall>r' \<in> set rs. reassdata (ip_st s) r' = reassdata (ip_st s0) r') \<and> hkey (nth (rd_iphdr d)) 0 = k \<and>
     (rd_flags d AND IP_REASS_FLAG_LASTFRAG \<noteq> 0 \<longleftrightarrow> last gs \<in> set Q) \<and> (last gs \<in> set Q \<longrightarrow> datagram_len d = fr_end (last gs)) \<and>
     (if hd gs \<in> A then rd_iphdr d = rd (eth_heap s0) (payload (the (pbufs (eth_heap s0) (fr_p (hd gs))))) 20
      else lwip_htons (IPH_OFFSET (nth (rd_iphdr d)) 0) AND IP_OFFMASK \<noteq> 0) \<and>
     (\<forall>f \<in> set Q. drop 20 (pdata (eth_heap s) (fr_as f)) = drop 20 (pdata (eth_heap s0) (fr_as f))) \<and>
     (\<forall>f \<in> set gs - set Q. untouched (eth_heap s0) (eth_heap s) (fr_as f))"

lemma collectingD:
  assumes "collecting s0 rs F k gs A s r d Q"
  shows "reass_inv s (r # rs) (F(r := Q))" "r \<notin> set rs" "reassdata (ip_st s) r = Some d" "set Q \<subseteq> set gs"
    "\<forall>r' \<in> set rs. reassdata (ip_st s) r' = reassdata (ip_st s0) r'" "hkey (nth (rd_iphdr d)) 0 = k"
    "rd_flags d AND IP_REASS_FLAG_LASTFRAG \<noteq> 0 \<longleftrightarrow> last gs \<in> set Q" "last gs \<in> set Q \<Longrightarrow> datagram_len d = fr_end (last gs)"
    "hd gs \<in> A \<Longrightarrow> rd_iphdr d = rd (eth_heap s0) (payload (the (pbufs (eth_heap s0) (fr_p (hd gs))))) 20"
    "hd gs \<notin> A \<Longrightarrow> lwip_htons (IPH_OFFSET (nth (rd_iphdr d)) 0) AND IP_OFFMASK \<noteq> 0"
    "\<And>f. f \<in> set Q \<Longrightarrow> drop 20 (pdata (eth_heap s) (fr_as f)) = drop 20 (pdata (eth_heap s0) (fr_as f))"
    "\<And>f. f \<in> set gs \<Longrightarrow> f \<notin> set Q \<Longrightarrow> untouched (eth_heap s0) (eth_heap s) (fr_as f)"
  using assms unfolding collecting_def by (simp_all split: if_splits)

text \<open>A piece that has not arrived yet is as it was.\<close>

lemma piece_waiting:
  assumes ps: "pieces s0 rs F k gs" and f: "f \<in> set gs" and u: "untouched (eth_heap s0) (eth_heap s) (fr_as f)"
    and dis: "set (fr_as f) \<inter> set (all_frags rs' F') = {}"
  shows "arriving s rs' F' (fr_p f) (fr_as f)" "frag_of (eth_heap s) (fr_p f) (fr_as f) = f"
    "payload (the (pbufs (eth_heap s) (fr_p f))) = payload (the (pbufs (eth_heap s0) (fr_p f)))"
    "rd (eth_heap s) (payload (the (pbufs (eth_heap s0) (fr_p f)))) 20 = rd (eth_heap s0) (payload (the (pbufs (eth_heap s0) (fr_p f)))) 20"
    "last_frag (eth_heap s) (fr_p f) \<longleftrightarrow> f = last gs"
proof -
  have p: "arriving s0 rs F (fr_p f) (fr_as f)" "frag_of (eth_heap s0) (fr_p f) (fr_as f) = f" "last_frag (eth_heap s0) (fr_p f) \<longleftrightarrow> f = last gs"
    using ps f by (auto simp: pieces_def)
  have fr: "fragment (eth_heap s0) (fr_p f) (fr_as f)" using p(1) by (simp add: arriving_def)
  note k = untouched_fragment [OF u fr] untouched_packet(3,4) [OF u]
  then show "frag_of (eth_heap s) (fr_p f) (fr_as f) = f"
    "payload (the (pbufs (eth_heap s) (fr_p f))) = payload (the (pbufs (eth_heap s0) (fr_p f)))"
    "rd (eth_heap s) (payload (the (pbufs (eth_heap s0) (fr_p f)))) 20 = rd (eth_heap s0) (payload (the (pbufs (eth_heap s0) (fr_p f)))) 20"
    using p(2) by auto
  have l: "last_frag (eth_heap s) (fr_p f) = last_frag (eth_heap s0) (fr_p f)" using header_reads(4) [OF k(4)] k(3) by (simp add: last_frag_def)
  then show "last_frag (eth_heap s) (fr_p f) \<longleftrightarrow> f = last gs" using p(3) by simp
  show "arriving s rs' F' (fr_p f) (fr_as f)" using p(1,2) k l dis by (simp add: arriving_def)
qed

lemma queue_apart:
  assumes ps: "pieces s0 rs F k gs" and f: "f \<in> set gs" "f \<notin> set Q" and Q: "set Q \<subseteq> set gs" and r: "r \<notin> set rs"
  shows "set (fr_as f) \<inter> set (all_frags (r # rs) (F(r := Q))) = {}"
proof -
  have "set (fr_as f) \<inter> set (all_frags rs F) = {}" using ps f(1) by (auto simp: pieces_def arriving_def)
  moreover have "all_frags rs (F(r := Q)) = all_frags rs F" using r by (intro all_frags_cong) auto
  moreover have "set (fr_as f) \<inter> set (all_as Q) = {}"
    using all_as_disjoint [OF piecesD(4) [OF ps] f(1)] f(2) Q by (fastforce simp: set_all_as)
  ultimately show ?thesis by auto
qed

lemma all_arrived:
  assumes gs: "gs \<noteq> []" "sorted_wrt before gs" "complete gs" and Q: "sorted_wrt before Q" "set Q \<subseteq> set gs"
  shows "last gs \<in> set Q \<and> complete Q \<longleftrightarrow> set Q = set gs"
proof
  assume l: "last gs \<in> set Q \<and> complete Q"
  moreover have "linked (Some 0) Q" "linked (Some 0) gs" using l gs(3) by (simp_all add: complete_def)
  ultimately have "Q = gs" by (intro pieces_all [OF gs(2) _ Q(1) _ Q(2)]) (auto simp: complete_def)
  then show "set Q = set gs" by simp
next
  assume "set Q = set gs"
  then have "Q = gs" by (rule sorted_before_unique [OF Q(1) gs(2)])
  then show "last gs \<in> set Q \<and> complete Q" using gs by simp
qed

lemma insert_piece:
  assumes ps: "pieces s0 rs F k gs" and col: "collecting s0 rs F k gs A s r d Q" and f: "f \<in> set gs" "f \<notin> set Q"
    and off: "fr_start f + flen = fr_end f" and clen: "unat clen = length (fr_as f)"
    and room: "length (fr_as f) + length (all_frags (r # rs) (F(r := Q))) \<le> IP_REASS_MAX_PBUFS"
  shows "\<exists>d' s'. collecting s0 rs F k gs A s' r d' (frag_insert f Q) \<and>
     reass_insert e (fr_p f) r (fr_start f) flen clen s =
       (if set (frag_insert f Q) = set gs then reass_finish r s' else Some (0, s'))"
proof -
  note c = collectingD [OF col] and p = piecesD [OF ps]
  have ap: "set (fr_as f) \<inter> set (all_frags (r # rs) (F(r := Q))) = {}" using queue_apart [OF ps f c(4,2)] .
  note w = piece_waiting [OF ps f(1) c(12) [OF f] ap]
  have nc: "\<not> (\<exists>g \<in> set ((F(r := Q)) r). clash f g)" using sorted_no_clash [OF p(2) f(1)] f(2) c(4) by auto
  have two: "fr_start f \<noteq> 0"
    if "(F(r := Q)) r = []" "last_frag (eth_heap s) (fr_p f) \<or> rd_flags d AND IP_REASS_FLAG_LASTFRAG \<noteq> 0"
    using that c(7) w(5) p(5) by auto
  have rm: "length (fr_as f) + length (all_frags (r # rs) (F(r := Q))) < 65536" using room by simp
  obtain q' h' where out: "reass_insert e (fr_p f) r (fr_start f) flen clen s =
       (if (f = last gs \<or> rd_flags d AND IP_REASS_FLAG_LASTFRAG \<noteq> 0) \<and> complete (frag_insert f Q)
        then reass_finish r (stored r (noted (f = last gs) (fr_end f) q' d) (ip_reass_pbufcount (ip_st s) + clen) h' s)
        else Some (0, stored r (noted (f = last gs) (fr_end f) q' d) (ip_reass_pbufcount (ip_st s) + clen) h' s))"
    and inv': "reass_inv (stored r (noted (f = last gs) (fr_end f) q' d) (ip_reass_pbufcount (ip_st s) + clen) h' s) (r # rs) (F(r := frag_insert f Q))"
    and oq: "only_queue (eth_heap s) h' (fr_as f) Q"
    and dat: "\<forall>g \<in> set (frag_insert f Q). drop 20 (pdata h' (fr_as g)) = drop 20 (pdata (eth_heap s) (fr_as g))"
    using reass_insert_run [OF c(1) _ c(3) w(1) w(2) [symmetric] refl off nc two clen rm, unfolded Let_def w(5) fun_upd_same fun_upd_upd,
        OF list.set_intros(1)] by blast
  let ?Q = "frag_insert f Q" and ?d = "noted (f = last gs) (fr_end f) q' d"
  let ?s = "stored r ?d (ip_reass_pbufcount (ip_st s) + clen) h' s"
  have sub: "set ?Q \<subseteq> set gs" using c(4) f(1) by auto
  have sq: "sorted_wrt before ?Q" using reass_invD(3) [OF inv', of r] by (auto simp: dg_ok_def reass_queue_def)
  have fl: "rd_flags ?d AND IP_REASS_FLAG_LASTFRAG \<noteq> 0 \<longleftrightarrow> last gs \<in> set ?Q"
    using c(7) by (auto simp: noted_def bit.conj_disj_distrib2)
  have "(f = last gs \<or> rd_flags d AND IP_REASS_FLAG_LASTFRAG \<noteq> 0) \<longleftrightarrow> last gs \<in> set ?Q" using c(7) by auto
  then have fin: "(f = last gs \<or> rd_flags d AND IP_REASS_FLAG_LASTFRAG \<noteq> 0) \<and> complete ?Q \<longleftrightarrow> set ?Q = set gs"
    using all_arrived [OF p(1-3) sq sub] by simp
  have "collecting s0 rs F k gs A ?s r ?d ?Q"
    unfolding collecting_def
  proof (intro conjI ballI impI)
    show "hkey (nth (rd_iphdr ?d)) 0 = k" using c(6) by simp
    show "rd_flags ?d AND IP_REASS_FLAG_LASTFRAG \<noteq> 0 \<longleftrightarrow> last gs \<in> set ?Q" by (rule fl)
    show "datagram_len ?d = fr_end (last gs)" if "last gs \<in> set ?Q" using that c(8) by auto
    show "untouched (eth_heap s0) (eth_heap ?s) (fr_as g)" if g: "g \<in> set gs - set ?Q" for g
    proof -
      have u: "untouched (eth_heap s0) (eth_heap s) (fr_as g)" using c(12) [of g] g by auto
      have "owned (eth_heap s) (fr_as g)" using untouched_packet(3) [OF u] ps g by (auto simp: pieces_def arriving_def)
      moreover have "set (fr_as g) \<inter> (set (fr_as f) \<union> set (all_as Q)) = {}"
        using queue_apart [OF ps _ _ c(4,2), of g] all_as_disjoint [OF p(4), of g f] g f by auto
      ultimately show ?thesis using oq untouched_trans [OF u] by (simp add: only_queue_def)
    qed
    show "drop 20 (pdata (eth_heap ?s) (fr_as g)) = drop 20 (pdata (eth_heap s0) (fr_as g))" if g: "g \<in> set ?Q" for g
    proof (cases "g = f")
      case True
      then show ?thesis using dat untouched_packet(1) [OF c(12) [OF f]] by simp
    next
      case False
      then show ?thesis using dat c(11) [of g] g by simp
    qed
  qed (use inv' c sub in \<open>auto simp: noted_def\<close>)
  then show ?thesis using out fin by (intro exI [of _ ?d] exI [of _ ?s]) simp
qed

section \<open>The arrival of a piece\<close>

lemma pieces_room:
  assumes ps: "pieces s0 rs F k gs" and f: "f \<in> set gs" "f \<notin> set Q" and Q: "set Q \<subseteq> set gs" "distinct (all_as Q)" and r: "r \<notin> set rs"
    and room: "length (all_as gs) + length (all_frags rs F) \<le> n"
  shows "length (fr_as f) + length (all_frags (r # rs) (F(r := Q))) \<le> n"
proof -
  have dis: "set (fr_as f) \<inter> set (all_as Q) = {}" using queue_apart [OF ps f Q(1) r] by auto
  have "fragment (eth_heap s0) (fr_p f) (fr_as f)" using ps f(1) by (auto simp: pieces_def arriving_def)
  then have "distinct (fr_as f)" using pchain_distinct by (auto simp: fragment_def Let_def packet_def)
  then have "distinct (fr_as f @ all_as Q)" using Q(2) dis by simp
  moreover have "set (fr_as f @ all_as Q) \<subseteq> set (all_as gs)" using f(1) Q(1) by (auto simp: set_all_as)
  ultimately have "length (fr_as f @ all_as Q) \<le> length (all_as gs)"
    by (metis card_mono distinct_card finite_set piecesD(4) [OF ps])
  moreover have "all_frags rs (F(r := Q)) = all_frags rs F" using r by (intro all_frags_cong) auto
  ultimately show ?thesis using room by simp
qed

lemma piece_offset:
  assumes "frag_of h (fr_p f) (fr_as f) = f"
  shows "fr_start f = IPH_OFFSET_BYTES (bytes h) (payload (the (pbufs h (fr_p f))))"
proof -
  have "fr_start (frag_of h (fr_p f) (fr_as f)) = IPH_OFFSET_BYTES (bytes h) (payload (the (pbufs h (fr_p f))))"
    by (simp add: frag_of_def Let_def)
  then show ?thesis using assms by simp
qed

lemma first_piece:
  assumes inv: "reass_inv s rs F" and ps: "pieces s rs F k gs" and f: "f \<in> set gs"
    and none: "\<forall>r \<in> set rs. hkey (nth (rd_iphdr (the (reassdata (ip_st s) r)))) 0 \<noteq> k"
    and free: "set rs \<noteq> pool_elems (pools (eth_heap s) MEMP_REASSDATA)"
    and room: "length (all_as gs) + length (all_frags rs F) \<le> IP_REASS_MAX_PBUFS"
  shows "\<exists>s' r d. ip4_reass e (fr_p f) s = Some (0, s') \<and> collecting s rs F k gs {f} s' r d [f]"
proof -
  let ?h = "eth_heap s" and ?a = "payload (the (pbufs (eth_heap s) (fr_p f)))"
  have p: "arriving s rs F (fr_p f) (fr_as f)" "frag_of ?h (fr_p f) (fr_as f) = f" "hkey (bytes ?h) ?a = k" using ps f by (auto simp: pieces_def)
  note pd = piecesD [OF ps]
  have "length (fr_as f) \<le> length (all_as gs)" using f by (induction gs) auto
  then have rm: "length (fr_as f) + length (all_frags rs F) \<le> IP_REASS_MAX_PBUFS" using room by simp
  have nf: "find (dg_match s ?a) rs = None" using none p(3) by (auto simp: find_None_iff dg_match_def match_hkey)
  obtain r desc flen clen where run: "ip4_reass e (fr_p f) s = reass_insert e (fr_p f) r (fr_start f) flen clen (new_dg r desc (rd ?h ?a 20) s)"
      "fr_start f + flen = fr_end f" "unat clen = length (fr_as f)" "r \<notin> set rs"
      "reass_inv (new_dg r desc (rd ?h ?a 20) s) (r # rs) (F(r := []))"
    using ip4_reass_new [OF inv p(1) p(2) [symmetric] refl rm nf free] by blast
  define s1 where "s1 = new_dg r desc (rd ?h ?a 20) s"
  define d where "d = the (reassdata (ip_st s1) r)"
  have d: "reassdata (ip_st s1) r = Some d" "rd_iphdr d = rd ?h ?a 20" "rd_flags d = 0" by (simp_all add: d_def s1_def new_dg_def)
  have u: "untouched ?h (eth_heap s1) bs" for bs by (rule untouched_same) (simp_all add: s1_def new_dg_def)
  have "collecting s rs F k gs {f} s1 r d []"
    unfolding collecting_def
  proof (intro conjI ballI impI)
    show "hkey (nth (rd_iphdr d)) 0 = k" using p(3) by (simp add: d copied_header)
    show "if hd gs \<in> {f} then rd_iphdr d = rd ?h (payload (the (pbufs ?h (fr_p (hd gs))))) 20
        else lwip_htons (IPH_OFFSET (nth (rd_iphdr d)) 0) AND IP_OFFMASK \<noteq> 0"
      using pd(7) [OF f] piece_offset [OF p(2)] offset_bytes_zero [of "bytes ?h" ?a] by (auto simp: d copied_header)
    show "reassdata (ip_st s1) r' = reassdata (ip_st s) r'" if "r' \<in> set rs" for r' using that run(4) by (auto simp: s1_def new_dg_def)
  qed (use run(4,5) d u in \<open>auto simp: s1_def\<close>)
  from insert_piece [OF ps this f _ run(2,3)] pieces_room [OF ps f _ _ _ run(4) room, of "[]"]
  obtain d' s' where "collecting s rs F k gs {f} s' r d' (frag_insert f [])"
    "reass_insert e (fr_p f) r (fr_start f) flen clen s1 = (if set (frag_insert f []) = set gs then reass_finish r s' else Some (0, s'))"
    by (metis all_as_simps(1) distinct.simps(1) empty_iff empty_subsetI list.set(1))
  moreover have "set (frag_insert f []) \<noteq> set gs" using pd(1,6) by (metis hd_in_set last_in_set list.set(1) set_frag_insert singletonD)
  ultimately show ?thesis using run(1) by (auto simp: s1_def frag_insert_def)
qed

lemma stored_header_inv:
  assumes inv: "reass_inv s rs F" and r: "r \<in> set rs" and d: "reassdata (ip_st s) r = Some d" and l: "length hdr = 20"
  shows "reass_inv (stored r (d\<lparr>rd_iphdr := hdr\<rparr>) (ip_reass_pbufcount (ip_st s)) (eth_heap s) s) rs F"
proof -
  note i = reass_invD [OF inv]
  have "reass_inv (stored r (d\<lparr>rd_iphdr := hdr\<rparr>) (ip_reass_pbufcount (ip_st s)) (eth_heap s) s) rs (F(r := F r))"
    by (rule stored_inv [OF inv r d, where as = "[]"]) (use i l dg_queue [OF inv r d] in simp_all)
  then show ?thesis by simp
qed

lemma next_piece:
  assumes ps: "pieces s0 rs F k gs" and col: "collecting s0 rs F k gs (set Q) s r d Q" and f: "f \<in> set gs" "f \<notin> set Q"
    and room: "length (all_as gs) + length (all_frags rs F) \<le> IP_REASS_MAX_PBUFS"
  shows "\<exists>s' d'. collecting s0 rs F k gs (insert f (set Q)) s' r d' (frag_insert f Q) \<and>
     ip4_reass e (fr_p f) s = (if set (frag_insert f Q) = set gs then reass_finish r s' else Some (0, s'))"
proof -
  let ?h = "eth_heap s" and ?a = "payload (the (pbufs (eth_heap s) (fr_p f)))"
  note c = collectingD [OF col] and pd = piecesD [OF ps]
  have ap: "set (fr_as f) \<inter> set (all_frags (r # rs) (F(r := Q))) = {}" using queue_apart [OF ps f c(4,2)] .
  note w = piece_waiting [OF ps f(1) c(12) [OF f] ap]
  have q: "length (rd_iphdr d) = 20" "distinct (all_as Q)"
    using dg_queue [OF c(1) _ c(3)] by (auto simp: reass_queue_def)
  note rm = pieces_room [OF ps f c(4) q(2) c(2) room]
  have key: "hkey (bytes ?h) ?a = k" using hkey_frame [OF w(4)] w(3) ps f(1) by (simp add: pieces_def)
  have fd: "find (dg_match s ?a) (r # rs) = Some r" using c(6) key by (simp add: dg_match_Some [OF c(3)] match_hkey)
  obtain flen clen where run: "ip4_reass e (fr_p f) s =
       reass_insert e (fr_p f) r (fr_start f) flen clen
         (stored r (d\<lparr>rd_iphdr := kept_header ?h ?a (rd_iphdr d)\<rparr>) (ip_reass_pbufcount (ip_st s)) ?h s)"
      "fr_start f + flen = fr_end f" "unat clen = length (fr_as f)"
    using ip4_reass_existing [OF c(1) w(1) w(2) [symmetric] refl rm fd c(3)] by blast
  define d1 where "d1 = d\<lparr>rd_iphdr := kept_header ?h ?a (rd_iphdr d)\<rparr>"
  define s1 where "s1 = stored r d1 (ip_reass_pbufcount (ip_st s)) ?h s"
  have l1: "length (kept_header ?h ?a (rd_iphdr d)) = 20" using q(1) by (simp add: kept_header_def)
  have same: "rd_p d1 = rd_p d" "rd_flags d1 = rd_flags d" "datagram_len d1 = datagram_len d" "rd_iphdr d1 = kept_header ?h ?a (rd_iphdr d)"
    by (simp_all add: d1_def)
  have zero: "IPH_OFFSET_BYTES (bytes ?h) ?a = 0 \<longleftrightarrow> f = hd gs" using piece_offset [OF w(2)] pd(7) [OF f(1)] by simp
  have "collecting s0 rs F k gs (insert f (set Q)) s1 r d1 Q"
    unfolding collecting_def
  proof (intro conjI ballI impI)
    show "reass_inv s1 (r # rs) (F(r := Q))" unfolding s1_def d1_def by (rule stored_header_inv [OF c(1) _ c(3) l1]) simp
    show "hkey (nth (rd_iphdr d1)) 0 = k" using c(6) key by (simp add: same kept_header_def copied_header)
    show "if hd gs \<in> insert f (set Q) then rd_iphdr d1 = rd (eth_heap s0) (payload (the (pbufs (eth_heap s0) (fr_p (hd gs))))) 20
        else lwip_htons (IPH_OFFSET (nth (rd_iphdr d1)) 0) AND IP_OFFMASK \<noteq> 0"
    proof (cases "f = hd gs")
      case True
      then have "rd_iphdr d1 = rd ?h ?a 20" using c(10) f(2) zero by (simp add: same kept_header_def)
      then show ?thesis using True w(3,4) by simp
    next
      case False
      then have "rd_iphdr d1 = rd_iphdr d" using zero by (simp add: same kept_header_def)
      then show ?thesis using c(9,10) False by auto
    qed
    show "reassdata (ip_st s1) r' = reassdata (ip_st s0) r'" if "r' \<in> set rs" for r' using that c(2,5) by (auto simp: s1_def)
  qed (use c same in \<open>auto simp: s1_def\<close>)
  from insert_piece [OF ps this f run(2,3) rm] show ?thesis unfolding run(1) d1_def [symmetric] s1_def [symmetric] by blast
qed

section \<open>All pieces\<close>

text \<open>The fragments \<open>ps\<close> are handed over one after the other; the results are collected.\<close>

fun reass_all :: "eth_env \<Rightarrow> nat list \<Rightarrow> eth_state \<Rightarrow> (nat list \<times> eth_state) option" where
  "reass_all e [] s = Some ([], s)"
| "reass_all e (p # ps) s =
     do { (q, s) \<leftarrow> ip4_reass e p s; (qs, s) \<leftarrow> reass_all e ps s; Some (q # qs, s) }"

lemma last_piece:
  assumes ps: "pieces s0 rs F k gs" and col: "collecting s0 rs F k gs (set gs) s r d Q" and all: "set Q = set gs"
  shows "\<exists>s'. reass_finish r s = Some (fr_p (hd gs), s') \<and> packet (eth_heap s') (fr_p (hd gs)) (all_as gs) \<and>
     pdata (eth_heap s') (all_as gs) =
       datagram_header (rd (eth_heap s0) (payload (the (pbufs (eth_heap s0) (fr_p (hd gs))))) 20) (word_of_nat (20 + length (frag_data (eth_heap s0) gs))) @
       frag_data (eth_heap s0) gs \<and> owned (eth_heap s') (all_as gs) \<and> exclusive (eth_heap s') (all_as gs) \<and> reass_inv s' rs F"
proof -
  note c = collectingD [OF col] and pd = piecesD [OF ps]
  have "sorted_wrt before Q" using dg_queue [OF c(1) _ c(3)] by (auto simp: reass_queue_def)
  then have Q: "Q = gs" by (rule sorted_before_unique [OF _ pd(2) all])
  have dat: "frag_data (eth_heap s) gs = frag_data (eth_heap s0) gs"
    unfolding frag_data_def using c(11) Q by (metis (no_types, lifting) map_eq_conv)
  have pieces: "length (drop 20 (pdata (eth_heap s0) (fr_as g))) = unat (fr_end g) - unat (fr_start g) \<and> fr_start g \<le> fr_end g" if "g \<in> set gs" for g
    using ps that frag_of_end [of "eth_heap s0" "fr_p g" "fr_as g"] by (auto simp: pieces_def arriving_def)
  have len: "length (frag_data (eth_heap s0) gs) = unat (fr_end (last gs))"
    using length_frag_data [of 0 gs "eth_heap s0"] pieces pd(1,3) by (simp add: complete_def)
  have "arriving s0 rs F (fr_p (last gs)) (fr_as (last gs))" "last_frag (eth_heap s0) (fr_p (last gs))"
    "frag_of (eth_heap s0) (fr_p (last gs)) (fr_as (last gs)) = last gs" using ps pd(1) by (auto simp: pieces_def)
  then have fit: "20 + length (frag_data (eth_heap s) ((F(r := Q)) r)) < 65536" using len dat Q by (simp add: arriving_def)
  have n: "datagram_len d + 20 = word_of_nat (20 + length (frag_data (eth_heap s0) gs))"
    using c(8) Q pd(1) len by (simp add: add.commute)
  obtain f fs where fs: "(F(r := Q)) r = f # fs" "f = hd gs" using Q pd(1) by (cases gs) auto
  obtain s' where s': "reass_finish r s = Some (fr_p f, s')" "packet (eth_heap s') (fr_p f) (all_as gs)"
     "pdata (eth_heap s') (all_as gs) = datagram_header (rd_iphdr d) (datagram_len d + 20) @ frag_data (eth_heap s) gs"
     "owned (eth_heap s') (all_as gs)" "exclusive (eth_heap s') (all_as gs)" "reass_inv s' rs (F(r := Q))"
    using reass_finish_spec [of s "[]" r rs "F(r := Q)", OF _ c(3) fs(1) fit] c(1) Q by auto
  have "reass_inv s' rs F"
  proof -
    have "all_frags rs (F(r := Q)) = all_frags rs F" using c(2) by (intro all_frags_cong) auto
    moreover have "\<forall>r' \<in> set rs. (F(r := Q)) r' = F r'" using c(2) by auto
    ultimately show ?thesis using s'(6) unfolding reass_inv_def by auto
  qed
  then show ?thesis using s' fs(2) c(9) n dat pd(1) by (intro exI [of _ s']) simp
qed

text \<open>The datagram made of the pieces \<open>gs\<close> of the heap \<open>h0\<close>: the header of its first piece with the length of all, and the data.\<close>

definition whole :: "heap \<Rightarrow> frag list \<Rightarrow> u8 list" where
  "whole h0 gs =
     datagram_header (rd h0 (payload (the (pbufs h0 (fr_p (hd gs))))) 20) (word_of_nat (20 + length (frag_data h0 gs))) @ frag_data h0 gs"

lemma reass_rest:
  assumes ps: "pieces s0 rs F k gs" and room: "length (all_as gs) + length (all_frags rs F) \<le> IP_REASS_MAX_PBUFS"
    and col: "collecting s0 rs F k gs (set Q) s r d Q" and rest: "distinct fl" "set fl = set gs - set Q" "fl \<noteq> []"
  shows "\<exists>s'. reass_all e (map fr_p fl) s = Some (replicate (length fl - 1) 0 @ [fr_p (hd gs)], s') \<and>
     packet (eth_heap s') (fr_p (hd gs)) (all_as gs) \<and> pdata (eth_heap s') (all_as gs) = whole (eth_heap s0) gs \<and>
     owned (eth_heap s') (all_as gs) \<and> exclusive (eth_heap s') (all_as gs) \<and> reass_inv s' rs F"
  using col rest
proof (induction fl arbitrary: s d Q)
  case (Cons f fl)
  have f: "f \<in> set gs" "f \<notin> set Q" using Cons.prems(3) by auto
  obtain s1 d1 where st: "collecting s0 rs F k gs (insert f (set Q)) s1 r d1 (frag_insert f Q)"
    "ip4_reass e (fr_p f) s = (if set (frag_insert f Q) = set gs then reass_finish r s1 else Some (0, s1))"
    using next_piece [OF ps Cons.prems(1) f room] by blast
  have sub: "set Q \<subseteq> set gs" using collectingD(4) [OF Cons.prems(1)] .
  have more: "set fl = set gs - set (frag_insert f Q)" using Cons.prems(2,3) by auto
  show ?case
  proof (cases "fl = []")
    case True
    then have all: "set (frag_insert f Q) = set gs" using more f(1) sub by auto
    then have "collecting s0 rs F k gs (set gs) s1 r d1 (frag_insert f Q)" using st(1) by simp
    from last_piece [OF ps this all] show ?thesis using st(2) all True by (auto simp: whole_def)
  next
    case False
    then have "set (frag_insert f Q) \<noteq> set gs" using more by auto
    then have now: "ip4_reass e (fr_p f) s = Some (0, s1)" using st(2) by simp
    have "collecting s0 rs F k gs (set (frag_insert f Q)) s1 r d1 (frag_insert f Q)" using st(1) by simp
    from Cons.IH [OF this _ more False] Cons.prems(2) show ?thesis
      using now False by (auto simp: Cons_replicate_eq neq_Nil_conv)
  qed
qed simp

text \<open>C1: let \<open>gs\<close> be the fragments of one datagram, in the order of their offsets, and let the invariant of the
  reassembly hold, with no entry for this datagram yet, a free entry and room for the buffers. In whatever order the
  fragments are given to \<^verbatim>\<open>ip4_reass\<close>, every call but the last returns no packet, and the last returns the datagram: the
  chain of all buffers, owned by the caller alone, whose bytes are the header of the first fragment, with the total length,
  no fragment offset and a fresh checksum, and then the data of the fragments in order. The other datagrams that
  were being put together are as before.\<close>

theorem ip4_reass_any_order:
  assumes inv: "reass_inv s rs F" and ps: "pieces s rs F k gs" and fl: "mset fl = mset gs"
    and none: "\<forall>r \<in> set rs. hkey (nth (rd_iphdr (the (reassdata (ip_st s) r)))) 0 \<noteq> k"
    and free: "set rs \<noteq> pool_elems (pools (eth_heap s) MEMP_REASSDATA)"
    and room: "length (all_as gs) + length (all_frags rs F) \<le> IP_REASS_MAX_PBUFS"
  shows "\<exists>s'. reass_all e (map fr_p fl) s = Some (replicate (length fl - 1) 0 @ [fr_p (hd gs)], s') \<and>
     packet (eth_heap s') (fr_p (hd gs)) (all_as gs) \<and> pdata (eth_heap s') (all_as gs) = whole (eth_heap s) gs \<and>
     owned (eth_heap s') (all_as gs) \<and> exclusive (eth_heap s') (all_as gs) \<and> reass_inv s' rs F"
proof -
  note pd = piecesD [OF ps]
  have sg: "set fl = set gs" using fl by (metis set_mset_mset)
  have "distinct gs" using pd(2) by (induction gs) auto
  then have dl: "distinct fl" using fl by (metis mset_eq_imp_distinct_iff)
  obtain f fr where f: "fl = f # fr" using sg pd(1) by (cases fl) auto
  then have fg: "f \<in> set gs" using sg by auto
  have ne: "fr \<noteq> []"
  proof
    assume "fr = []"
    then have "set gs = {f}" using sg f by simp
    then show False using pd(1,6) by (metis hd_in_set last_in_set singletonD)
  qed
  obtain s1 r d where st: "ip4_reass e (fr_p f) s = Some (0, s1)" "collecting s rs F k gs (set [f]) s1 r d [f]"
    using first_piece [where e = e, OF inv ps fg none free room] by auto
  have rest: "distinct fr" "set fr = set gs - set [f]" using dl sg f by auto
  obtain n where n: "length fr = Suc n" using ne by (cases fr) auto
  show ?thesis using reass_rest [where e = e, OF ps room st(2) rest ne] st(1) f n by auto
qed

definition example_pieces :: "frag list" where
  "example_pieces = [\<lparr>fr_as = [512], fr_start = 0, fr_end = 8\<rparr>, \<lparr>fr_as = [576], fr_start = 8, fr_end = 11\<rparr>]"

lemma example_reads:
  "load32 (bytes example_frag_heap) 540 = 0x0200A8C0" "load32 (bytes example_frag_heap) 544 = 0x0100A8C0"
  "load32 (bytes example_frag_heap) 604 = 0x0200A8C0" "load32 (bytes example_frag_heap) 608 = 0x0100A8C0"
  "IPH_ID (bytes example_frag_heap) 528 = 0x3412" "IPH_ID (bytes example_frag_heap) 592 = 0x3412"
  "IPH_HL_BYTES (bytes example_frag_heap) 528 = 20" "IPH_HL_BYTES (bytes example_frag_heap) 592 = 20"
  "IPH_LEN (bytes example_frag_heap) 528 = 0x1C00" "IPH_LEN (bytes example_frag_heap) 592 = 0x1700"
  "IPH_OFFSET (bytes example_frag_heap) 528 = 0x0020" "IPH_OFFSET (bytes example_frag_heap) 592 = 0x0100"
  by (simp_all add: load32_def load16_def IPH_ID_def IPH_HL_BYTES_def IPH_LEN_def IPH_OFFSET_def example_frag_heap_def example_frag1_def example_frag2_def)

lemma example_pieces_ok: "pieces example_frags [] (\<lambda>_. []) (0x0200A8C0, 0x0100A8C0, 0x3412) example_pieces"
proof -
  have len: "lwip_htons 0x1C00 = 28" "lwip_htons 0x1700 = 23" by (simp_all add: lwip_htons_def PP_HTONS_def)
  have off: "IPH_OFFSET_BYTES (bytes example_frag_heap) 528 = 0" "IPH_OFFSET_BYTES (bytes example_frag_heap) 592 = 8"
    by (simp_all add: IPH_OFFSET_BYTES_def example_reads lwip_htons_def PP_HTONS_def)
  have fr: "fragment example_frag_heap 512 [512]" "fragment example_frag_heap 576 [576]"
    using example_packets_held by (simp_all add: fragment_def example_reads len off example_frag1_def example_frag2_def)
  have fo: "frag_of example_frag_heap 512 [512] = hd example_pieces" "frag_of example_frag_heap 576 [576] = last example_pieces"
    by (simp_all add: frag_of_def example_reads len off example_pieces_def)
  have lf: "\<not> last_frag example_frag_heap 512" "last_frag example_frag_heap 576"
    by (simp_all add: last_frag_def example_reads PP_HTONS_def)
  show ?thesis
    using fr fo lf example_packets_held
    by (simp add: pieces_def arriving_def example_pieces_def fr_p_def hkey_def example_reads before_def complete_def all_as_def)
qed

theorem ip4_reass_any_order_witness:
  "\<exists>s'. reass_all example_eth_env [576, 512] example_frags = Some ([0, 512], s') \<and> packet (eth_heap s') 512 [512, 576] \<and>
     pdata (eth_heap s') [512, 576] = whole example_frag_heap example_pieces \<and>
     drop 20 (whole example_frag_heap example_pieces) = [1, 2, 3, 4, 5, 6, 7, 8, 9, 10, 11]"
proof -
  have inv: "reass_inv example_frags [] (\<lambda>_. [])"
    using example_frag_heap_inv example_pools_elems(5)
    by (simp add: reass_inv_def dg_list_def example_ip_def example_pools_def)
  have free: "set [] \<noteq> pool_elems (pools (eth_heap example_frags) MEMP_REASSDATA)"
    using example_pools_elems(2) by (simp add: example_pools_def)
  have "drop 20 (whole example_frag_heap example_pieces) = [1, 2, 3, 4, 5, 6, 7, 8, 9, 10, 11]"
    by (simp add: whole_def datagram_header_def frag_data_def example_pieces_def) (simp add: example_frag1_def example_frag2_def)
  then show ?thesis
    using ip4_reass_any_order [OF inv example_pieces_ok, of "rev example_pieces" example_eth_env] free
    by (auto simp: example_pieces_def all_as_def fr_p_def)
qed

end
