(* ===== verification/Igmp.thy ===== *)
theory Igmp
  imports Ip4
begin

text \<open>
  \<^verbatim>\<open>src/lwip/ipv4/igmp.c\<close>: membership of multicast groups, version 2 of the protocol. The groups of
  an interface form a linked list whose first element is always the all systems group. The
  calls of the driver's \<^verbatim>\<open>igmp_mac_filter\<close> are recorded (\<open>mac_filter_calls\<close>); the environment says which
  interfaces have one.
\<close>

abbreviation (input) IGMP_MINLEN :: u16 where "IGMP_MINLEN \<equiv> 8"
abbreviation (input) IGMP_MEMB_QUERY :: u8 where "IGMP_MEMB_QUERY \<equiv> 0x11"
abbreviation (input) IGMP_V2_MEMB_REPORT :: u8 where "IGMP_V2_MEMB_REPORT \<equiv> 0x16"
abbreviation (input) IGMP_LEAVE_GROUP :: u8 where "IGMP_LEAVE_GROUP \<equiv> 0x17"
abbreviation (input) IGMP_TTL :: u8 where "IGMP_TTL \<equiv> 1"
abbreviation (input) IGMP_V1_DELAYING_MEMBER_TMR :: u8 where "IGMP_V1_DELAYING_MEMBER_TMR \<equiv> 10"
abbreviation (input) IGMP_JOIN_DELAYING_MEMBER_TMR :: u8 where "IGMP_JOIN_DELAYING_MEMBER_TMR \<equiv> 5"
abbreviation (input) allsystems :: u32 where "allsystems \<equiv> 0x010000E0"
abbreviation (input) allrouters :: u32 where "allrouters \<equiv> 0x020000E0"

section \<open>The list of groups\<close>

definition upd_igmp_group :: "nat \<Rightarrow> (igmp_group \<Rightarrow> igmp_group) \<Rightarrow> eth_state \<Rightarrow> eth_state option" where
  "upd_igmp_group g f s =
     do { gr \<leftarrow> igmp_groups (ip_st s) g;
          Some (s\<lparr>ip_st := (ip_st s)\<lparr>igmp_groups := (igmp_groups (ip_st s))(g \<mapsto> f gr)\<rparr>\<rparr>) }"

definition set_igmp_list :: "nat \<Rightarrow> nat \<Rightarrow> eth_state \<Rightarrow> eth_state" where
  "set_igmp_list n g s = s\<lparr>ip_st := (ip_st s)\<lparr>igmp_list := (igmp_list (ip_st s))(n := g)\<rparr>\<rparr>"

definition call_igmp_mac_filter ::
    "eth_env \<Rightarrow> nat \<Rightarrow> u32 \<Rightarrow> netif_mac_filter_action \<Rightarrow> eth_state \<Rightarrow> eth_state" where
  "call_igmp_mac_filter e n addr action s =
     (if igmp_mac_filter e n
      then s\<lparr>ip_st := (ip_st s)\<lparr>mac_filter_calls := mac_filter_calls (ip_st s) @ [(n, addr, action)]\<rparr>\<rparr>
      else s)"

partial_function (option) igmp_lookfor_loop :: "u32 \<Rightarrow> nat \<Rightarrow> eth_state \<Rightarrow> nat option" where
  "igmp_lookfor_loop addr g s =
     (if g = 0 then Some 0
      else do { gr \<leftarrow> igmp_groups (ip_st s) g;
                if group_address gr = addr then Some g else igmp_lookfor_loop addr (ig_next gr) s })"

definition igmp_lookfor_group :: "nat \<Rightarrow> u32 \<Rightarrow> eth_state \<Rightarrow> nat option" where
  "igmp_lookfor_group ifp addr s = igmp_lookfor_loop addr (igmp_list (ip_st s) ifp) s"

definition igmp_lookup_group :: "nat \<Rightarrow> u32 \<Rightarrow> eth_state \<Rightarrow> (nat \<times> eth_state) option" where
  "igmp_lookup_group ifp addr s =
     (let list_head = igmp_list (ip_st s) ifp
      in do { g \<leftarrow> igmp_lookfor_group ifp addr s;
              if g \<noteq> 0 then Some (g, s)
              else
                do { (g, ps) \<leftarrow> memp_malloc (pools (eth_heap s)) MEMP_IGMP_GROUP;
                     let s = s\<lparr>eth_heap := (eth_heap s)\<lparr>pools := ps\<rparr>\<rparr>
                     in if g = 0 then Some (0, s)
                        else
                          (let gr = \<lparr>ig_next = 0, group_address = addr, last_reporter_flag = 0,
                                     group_state = IGMP_GROUP_NON_MEMBER, ig_timer = 0, ig_use = 0\<rparr>
                           in if list_head = 0 then
                                do { lwip_assert (addr = allsystems);
                                     let s = s\<lparr>ip_st := (ip_st s)\<lparr>igmp_groups := (igmp_groups (ip_st s))(g \<mapsto> gr)\<rparr>\<rparr>
                                     in Some (g, set_igmp_list ifp g s) }
                              else
                                do { lwip_assert (addr \<noteq> allsystems);
                                     hd_gr \<leftarrow> igmp_groups (ip_st s) list_head;
                                     let s = s\<lparr>ip_st := (ip_st s)\<lparr>igmp_groups :=
                                               (igmp_groups (ip_st s))(g \<mapsto> gr\<lparr>ig_next := ig_next hd_gr\<rparr>)\<rparr>\<rparr>
                                     in do { s \<leftarrow> upd_igmp_group list_head (\<lambda>gr. gr\<lparr>ig_next := g\<rparr>) s;
                                             Some (g, s) } }) } })"

partial_function (option) igmp_remove_loop :: "nat \<Rightarrow> nat \<Rightarrow> nat \<Rightarrow> eth_state \<Rightarrow> (err_t \<times> eth_state) option" where
  "igmp_remove_loop g nxt tmp_group s =
     (if tmp_group = 0 then Some (ERR_ARG, s)
      else do { gr \<leftarrow> igmp_groups (ip_st s) tmp_group;
                if ig_next gr = g then
                  do { s \<leftarrow> upd_igmp_group tmp_group (\<lambda>gr. gr\<lparr>ig_next := nxt\<rparr>) s; Some (ERR_OK, s) }
                else igmp_remove_loop g nxt (ig_next gr) s })"

definition igmp_remove_group :: "nat \<Rightarrow> nat \<Rightarrow> eth_state \<Rightarrow> (err_t \<times> eth_state) option" where
  "igmp_remove_group n g s =
     do { gr \<leftarrow> igmp_groups (ip_st s) g; igmp_remove_loop g (ig_next gr) (igmp_list (ip_st s) n) s }"

definition igmp_free_group :: "nat \<Rightarrow> eth_state \<Rightarrow> eth_state option" where
  "igmp_free_group g s =
     do { ps \<leftarrow> memp_free (pools (eth_heap s)) MEMP_IGMP_GROUP g;
          Some (s\<lparr>eth_heap := (eth_heap s)\<lparr>pools := ps\<rparr>,
                  ip_st := (ip_st s)\<lparr>igmp_groups := (igmp_groups (ip_st s))(g := None)\<rparr>\<rparr>) }"

section \<open>Messages\<close>

definition igmp_ip_output_if :: "eth_env \<Rightarrow> nat \<Rightarrow> u32 \<Rightarrow> u32 \<Rightarrow> nat \<Rightarrow> eth_state \<Rightarrow> (err_t \<times> eth_state) option" where
  "igmp_ip_output_if e p src dest n s =
     ip4_output_if_opt e p (Some src) (Some dest) IGMP_TTL 0 IP_PROTO_IGMP n
       (store16 (PP_HTONS 0x9404) @ store16 0x0000) 4 s"

definition igmp_send :: "eth_env \<Rightarrow> nat \<Rightarrow> nat \<Rightarrow> u8 \<Rightarrow> eth_state \<Rightarrow> eth_state option" where
  "igmp_send e n g type s =
     do { (p, h) \<leftarrow> pbuf_alloc (pb_env e) PBUF_TRANSPORT IGMP_MINLEN PBUF_RAM (eth_heap s);
          let s = s\<lparr>eth_heap := h\<rparr>
          in if p = 0 then Some s
             else
               do { b \<leftarrow> pbufs h p;
                    lwip_assert (len b \<ge> 8);
                    nif \<leftarrow> netifs s n;
                    gr \<leftarrow> igmp_groups (ip_st s) g;
                    s \<leftarrow>
                      (if type = IGMP_V2_MEMB_REPORT \<or> type = IGMP_LEAVE_GROUP then
                         (let igmp = payload b;
                              dest = (if type = IGMP_V2_MEMB_REPORT then group_address gr else allrouters);
                              h = write_bytes (igmp + 4) (addr_bytes (group_address gr)) h
                          in do { s \<leftarrow> (if type = IGMP_V2_MEMB_REPORT
                                        then upd_igmp_group g (\<lambda>gr. gr\<lparr>last_reporter_flag := 1\<rparr>) s else Some s);
                                  let h = write_bytes igmp [type] h;
                                      h = write_bytes (igmp + 1) [0] h;
                                      h = write_bytes (igmp + 2) (store16 0) h;
                                      h = write_bytes (igmp + 2) (store16 (inet_chksum (bytes h) igmp IGMP_MINLEN)) h
                                  in do { (_, s) \<leftarrow> igmp_ip_output_if e p (ip_addr nif) dest n (s\<lparr>eth_heap := h\<rparr>);
                                          Some s } })
                       else Some s);
                    eth_pbuf_free e p s } }"

section \<open>Timers\<close>

definition igmp_start_timer :: "eth_env \<Rightarrow> nat \<Rightarrow> u8 \<Rightarrow> eth_state \<Rightarrow> eth_state option" where
  "igmp_start_timer e g max_time s =
     (let (t, s) = (if max_time > 2
                    then (ucast (lwip_rand e (rand_calls s) mod ucast max_time) :: u16, s\<lparr>rand_calls := rand_calls s + 1\<rparr>)
                    else (1, s))
      in upd_igmp_group g (\<lambda>gr. gr\<lparr>ig_timer := (if t = 0 then 1 else t)\<rparr>) s)"

definition igmp_delaying_member :: "eth_env \<Rightarrow> nat \<Rightarrow> u8 \<Rightarrow> eth_state \<Rightarrow> eth_state option" where
  "igmp_delaying_member e g maxresp s =
     do { gr \<leftarrow> igmp_groups (ip_st s) g;
          if group_state gr = IGMP_GROUP_IDLE_MEMBER \<or>
             (group_state gr = IGMP_GROUP_DELAYING_MEMBER \<and> (ig_timer gr = 0 \<or> ucast maxresp < ig_timer gr)) then
            do { s \<leftarrow> igmp_start_timer e g maxresp s;
                 upd_igmp_group g (\<lambda>gr. gr\<lparr>group_state := IGMP_GROUP_DELAYING_MEMBER\<rparr>) s }
          else Some s }"

partial_function (option) delaying_members_loop :: "eth_env \<Rightarrow> u8 \<Rightarrow> nat \<Rightarrow> eth_state \<Rightarrow> eth_state option" where
  "delaying_members_loop e maxresp g s =
     (if g = 0 then Some s
      else do { s \<leftarrow> igmp_delaying_member e g maxresp s;
                gr \<leftarrow> igmp_groups (ip_st s) g;
                delaying_members_loop e maxresp (ig_next gr) s })"

text \<open>All groups but the first one are made to report.\<close>

definition all_delaying :: "eth_env \<Rightarrow> nat \<Rightarrow> u8 \<Rightarrow> eth_state \<Rightarrow> eth_state option" where
  "all_delaying e n maxresp s =
     (let g = igmp_list (ip_st s) n
      in if g \<noteq> 0 then do { gr \<leftarrow> igmp_groups (ip_st s) g; delaying_members_loop e maxresp (ig_next gr) s }
         else Some s)"

definition igmp_report_groups :: "eth_env \<Rightarrow> nat \<Rightarrow> eth_state \<Rightarrow> eth_state option" where
  "igmp_report_groups e n s = all_delaying e n IGMP_JOIN_DELAYING_MEMBER_TMR s"

definition igmp_timeout :: "eth_env \<Rightarrow> nat \<Rightarrow> nat \<Rightarrow> eth_state \<Rightarrow> eth_state option" where
  "igmp_timeout e n g s =
     do { gr \<leftarrow> igmp_groups (ip_st s) g;
          if group_state gr = IGMP_GROUP_DELAYING_MEMBER \<and> group_address gr \<noteq> allsystems then
            do { s \<leftarrow> upd_igmp_group g (\<lambda>gr. gr\<lparr>group_state := IGMP_GROUP_IDLE_MEMBER\<rparr>) s;
                 igmp_send e n g IGMP_V2_MEMB_REPORT s }
          else Some s }"

partial_function (option) igmp_tmr_loop :: "eth_env \<Rightarrow> nat \<Rightarrow> nat \<Rightarrow> eth_state \<Rightarrow> eth_state option" where
  "igmp_tmr_loop e n g s =
     (if g = 0 then Some s
      else
        do { gr \<leftarrow> igmp_groups (ip_st s) g;
             s \<leftarrow> (if ig_timer gr > 0 then
                     do { s \<leftarrow> upd_igmp_group g (\<lambda>gr. gr\<lparr>ig_timer := ig_timer gr - 1\<rparr>) s;
                          if ig_timer gr - 1 = 0 then igmp_timeout e n g s else Some s }
                   else Some s);
             gr \<leftarrow> igmp_groups (ip_st s) g;
             igmp_tmr_loop e n (ig_next gr) s })"

definition igmp_tmr :: "eth_env \<Rightarrow> eth_state \<Rightarrow> eth_state option" where
  "igmp_tmr e s =
     (let n = netif_default s
      in if n \<noteq> 0 then igmp_tmr_loop e n (igmp_list (ip_st s) n) s else Some s)"

section \<open>Joining and leaving\<close>

definition igmp_start :: "eth_env \<Rightarrow> nat \<Rightarrow> eth_state \<Rightarrow> (err_t \<times> eth_state) option" where
  "igmp_start e n s =
     do { (g, s) \<leftarrow> igmp_lookup_group n allsystems s;
          if g \<noteq> 0 then
            do { s \<leftarrow> upd_igmp_group g (\<lambda>gr. gr\<lparr>group_state := IGMP_GROUP_IDLE_MEMBER, ig_use := ig_use gr + 1\<rparr>) s;
                 Some (ERR_OK, call_igmp_mac_filter e n allsystems NETIF_ADD_MAC_FILTER s) }
          else Some (ERR_MEM, s) }"

partial_function (option) igmp_stop_loop :: "eth_env \<Rightarrow> nat \<Rightarrow> nat \<Rightarrow> eth_state \<Rightarrow> eth_state option" where
  "igmp_stop_loop e n g s =
     (if g = 0 then Some s
      else do { gr \<leftarrow> igmp_groups (ip_st s) g;
                s \<leftarrow> igmp_free_group g (call_igmp_mac_filter e n (group_address gr) NETIF_DEL_MAC_FILTER s);
                igmp_stop_loop e n (ig_next gr) s })"

definition igmp_stop :: "eth_env \<Rightarrow> nat \<Rightarrow> eth_state \<Rightarrow> (err_t \<times> eth_state) option" where
  "igmp_stop e n s =
     do { s \<leftarrow> igmp_stop_loop e n (igmp_list (ip_st s) n) (set_igmp_list n 0 s); Some (ERR_OK, s) }"

definition igmp_joingroup_netif :: "eth_env \<Rightarrow> nat \<Rightarrow> u32 \<Rightarrow> eth_state \<Rightarrow> (err_t \<times> eth_state) option" where
  "igmp_joingroup_netif e n groupaddr s =
     do { nif \<leftarrow> netifs s n;
          if \<not> ip4_addr_ismulticast groupaddr \<or> groupaddr = allsystems \<or> netif_flags nif AND NETIF_FLAG_IGMP = 0
          then Some (ERR_VAL, s)
          else
            do { (g, s) \<leftarrow> igmp_lookup_group n groupaddr s;
                 if g \<noteq> 0 then
                   do { gr \<leftarrow> igmp_groups (ip_st s) g;
                        s \<leftarrow>
                          (if group_state gr \<noteq> IGMP_GROUP_NON_MEMBER then Some s
                           else
                             (let s = (if ig_use gr = 0 then call_igmp_mac_filter e n groupaddr NETIF_ADD_MAC_FILTER s else s)
                              in do { s \<leftarrow> igmp_send e n g IGMP_V2_MEMB_REPORT s;
                                      s \<leftarrow> igmp_start_timer e g IGMP_JOIN_DELAYING_MEMBER_TMR s;
                                      upd_igmp_group g (\<lambda>gr. gr\<lparr>group_state := IGMP_GROUP_DELAYING_MEMBER\<rparr>) s }));
                        s \<leftarrow> upd_igmp_group g (\<lambda>gr. gr\<lparr>ig_use := ig_use gr + 1\<rparr>) s;
                        Some (ERR_OK, s) }
                 else Some (ERR_MEM, s) } }"

definition igmp_leavegroup_netif :: "eth_env \<Rightarrow> nat \<Rightarrow> u32 \<Rightarrow> eth_state \<Rightarrow> (err_t \<times> eth_state) option" where
  "igmp_leavegroup_netif e n groupaddr s =
     do { nif \<leftarrow> netifs s n;
          if \<not> ip4_addr_ismulticast groupaddr \<or> groupaddr = allsystems \<or> netif_flags nif AND NETIF_FLAG_IGMP = 0
          then Some (ERR_VAL, s)
          else
            do { g \<leftarrow> igmp_lookfor_group n groupaddr s;
                 if g \<noteq> 0 then
                   do { gr \<leftarrow> igmp_groups (ip_st s) g;
                        s \<leftarrow>
                          (if ig_use gr \<le> 1 then
                             do { (_, s) \<leftarrow> igmp_remove_group n g s;
                                  s \<leftarrow> (if last_reporter_flag gr \<noteq> 0 then igmp_send e n g IGMP_LEAVE_GROUP s else Some s);
                                  igmp_free_group g (call_igmp_mac_filter e n groupaddr NETIF_DEL_MAC_FILTER s) }
                           else upd_igmp_group g (\<lambda>gr. gr\<lparr>ig_use := ig_use gr - 1\<rparr>) s);
                        Some (ERR_OK, s) }
                 else Some (ERR_VAL, s) } }"

text \<open>The functions that select the interface by its address; there is one interface.\<close>

definition igmp_selects :: "u32 \<Rightarrow> netif \<Rightarrow> bool" where
  "igmp_selects ifaddr nif \<longleftrightarrow>
     netif_flags nif AND NETIF_FLAG_IGMP \<noteq> 0 \<and> (ip4_addr_isany ifaddr \<or> ip_addr nif = ifaddr)"

definition igmp_joingroup :: "eth_env \<Rightarrow> u32 \<Rightarrow> u32 \<Rightarrow> eth_state \<Rightarrow> (err_t \<times> eth_state) option" where
  "igmp_joingroup e ifaddr groupaddr s =
     (let n = netif_default s
      in if \<not> ip4_addr_ismulticast groupaddr \<or> groupaddr = allsystems \<or> n = 0 then Some (ERR_VAL, s)
         else do { nif \<leftarrow> netifs s n;
                   if igmp_selects ifaddr nif then igmp_joingroup_netif e n groupaddr s else Some (ERR_VAL, s) })"

definition igmp_leavegroup :: "eth_env \<Rightarrow> u32 \<Rightarrow> u32 \<Rightarrow> eth_state \<Rightarrow> (err_t \<times> eth_state) option" where
  "igmp_leavegroup e ifaddr groupaddr s =
     (let n = netif_default s
      in if \<not> ip4_addr_ismulticast groupaddr \<or> groupaddr = allsystems \<or> n = 0 then Some (ERR_VAL, s)
         else do { nif \<leftarrow> netifs s n;
                   if igmp_selects ifaddr nif then igmp_leavegroup_netif e n groupaddr s else Some (ERR_VAL, s) })"

section \<open>Input\<close>

text \<open>A membership query with the maximal response time at \<open>igmp + 1\<close>; \<open>g\<close> is the group of the destination.\<close>

definition igmp_query :: "eth_env \<Rightarrow> nat \<Rightarrow> nat \<Rightarrow> u32 \<Rightarrow> nat \<Rightarrow> eth_state \<Rightarrow> eth_state option" where
  "igmp_query e inp igmp dest g s =
     (let groupaddr = load32 (bytes (eth_heap s)) (igmp + 4)
      in if dest = allsystems \<and> ip4_addr_isany groupaddr then
           (let s = (if bytes (eth_heap s) (igmp + 1) = 0
                     then s\<lparr>eth_heap := write_bytes (igmp + 1) [IGMP_V1_DELAYING_MEMBER_TMR] (eth_heap s)\<rparr> else s)
            in all_delaying e inp (bytes (eth_heap s) (igmp + 1)) s)
         else if \<not> ip4_addr_isany groupaddr then
           do { g \<leftarrow> (if dest = allsystems then igmp_lookfor_group inp groupaddr s else Some g);
                if g \<noteq> 0 then igmp_delaying_member e g (bytes (eth_heap s) (igmp + 1)) s else Some s }
         else Some s)"

definition igmp_input :: "eth_env \<Rightarrow> nat \<Rightarrow> nat \<Rightarrow> u32 \<Rightarrow> eth_state \<Rightarrow> eth_state option" where
  "igmp_input e p inp dest s =
     do { b \<leftarrow> pbufs (eth_heap s) p;
          if len b < IGMP_MINLEN then eth_pbuf_free e p s
          else if inet_chksum (bytes (eth_heap s)) (payload b) (len b) \<noteq> 0 then eth_pbuf_free e p s
          else
            do { g \<leftarrow> igmp_lookfor_group inp dest s;
                 if g = 0 then eth_pbuf_free e p s
                 else
                   do { gr \<leftarrow> igmp_groups (ip_st s) g;
                        s \<leftarrow>
                          (let type = bytes (eth_heap s) (payload b)
                           in if type = IGMP_MEMB_QUERY then igmp_query e inp (payload b) dest g s
                              else if type = IGMP_V2_MEMB_REPORT then
                                (if group_state gr = IGMP_GROUP_DELAYING_MEMBER then
                                   upd_igmp_group g (\<lambda>gr. gr\<lparr>ig_timer := 0, group_state := IGMP_GROUP_IDLE_MEMBER,
                                     last_reporter_flag := 0\<rparr>) s
                                 else Some s)
                              else Some s);
                        eth_pbuf_free e p s } } }"

end
