(* ===== verification/Udp.thy ===== *)
theory Udp
  imports Icmp
begin

text \<open>
  \<^verbatim>\<open>src/lwip/udp.c\<close>: control blocks on the list \<^verbatim>\<open>udp_pcbs\<close>, the selection of local ports, the
  demultiplexing of datagrams and their sending, for the configuration without UDP-Lite, with
  \<^verbatim>\<open>SO_REUSE\<close> and without delivery to all (\<^verbatim>\<open>SO_REUSE_RXTOALL\<close> 0). The functions behind the \<^verbatim>\<open>recv\<close> pointers
  are a parameter (\<open>call_udp_recv\<close>).
\<close>

abbreviation (input) UDP_LOCAL_PORT_RANGE_START :: u16 where "UDP_LOCAL_PORT_RANGE_START \<equiv> 0xc000"
abbreviation (input) UDP_LOCAL_PORT_RANGE_END :: u16 where "UDP_LOCAL_PORT_RANGE_END \<equiv> 0xffff"
abbreviation (input) UDP_HLEN :: nat where "UDP_HLEN \<equiv> 8"
abbreviation (input) UDP_TTL :: u8 where "UDP_TTL \<equiv> 255"
abbreviation (input) UDP_FLAGS_NOCHKSUM :: u8 where "UDP_FLAGS_NOCHKSUM \<equiv> 0x01"
abbreviation (input) UDP_FLAGS_CONNECTED :: u8 where "UDP_FLAGS_CONNECTED \<equiv> 0x04"
abbreviation (input) UDP_FLAGS_MULTICAST_LOOP :: u8 where "UDP_FLAGS_MULTICAST_LOOP \<equiv> 0x08"
abbreviation (input) SOF_REUSEADDR :: u8 where "SOF_REUSEADDR \<equiv> 0x04"
abbreviation (input) PBUF_FLAG_MCASTLOOP :: u8 where "PBUF_FLAG_MCASTLOOP \<equiv> 0x04"

section \<open>Control blocks\<close>

definition upd_udp_pcb :: "nat \<Rightarrow> (udp_pcb \<Rightarrow> udp_pcb) \<Rightarrow> eth_state \<Rightarrow> eth_state option" where
  "upd_udp_pcb c f s =
     do { pcb \<leftarrow> udp_pcb_at (ip_st s) c;
          Some (s\<lparr>ip_st := (ip_st s)\<lparr>udp_pcb_at := (udp_pcb_at (ip_st s))(c \<mapsto> f pcb)\<rparr>\<rparr>) }"

definition set_udp_pcbs :: "nat \<Rightarrow> eth_state \<Rightarrow> eth_state" where
  "set_udp_pcbs c s = s\<lparr>ip_st := (ip_st s)\<lparr>udp_pcbs := c\<rparr>\<rparr>"

definition netif_get_index :: "netif \<Rightarrow> u8" where
  "netif_get_index nif = netif_num nif + 1"

definition netif_get_by_index :: "u8 \<Rightarrow> eth_state \<Rightarrow> nat option" where
  "netif_get_by_index idx s =
     (if idx \<noteq> 0 \<and> netif_default s \<noteq> 0 then
        do { nif \<leftarrow> netifs s (netif_default s);
             Some (if idx = netif_get_index nif then netif_default s else 0) }
      else Some 0)"

definition udp_init :: "eth_env \<Rightarrow> eth_state \<Rightarrow> eth_state" where
  "udp_init e s =
     s\<lparr>ip_st := (ip_st s)\<lparr>udp_port :=
          (ucast (lwip_rand e (rand_calls s)) AND NOT UDP_LOCAL_PORT_RANGE_START) + UDP_LOCAL_PORT_RANGE_START\<rparr>,
       rand_calls := rand_calls s + 1\<rparr>"

definition udp_new :: "eth_state \<Rightarrow> (nat \<times> eth_state) option" where
  "udp_new s =
     do { (c, ps) \<leftarrow> memp_malloc (pools (eth_heap s)) MEMP_UDP_PCB;
          let s = s\<lparr>eth_heap := (eth_heap s)\<lparr>pools := ps\<rparr>\<rparr>
          in if c = 0 then Some (0, s)
             else Some (c, s\<lparr>ip_st := (ip_st s)\<lparr>udp_pcb_at := (udp_pcb_at (ip_st s))(c \<mapsto>
               \<lparr>local_ip = 0, remote_ip = 0, netif_idx = 0, so_options = 0, pcb_tos = 0, pcb_ttl = UDP_TTL,
                udp_next = 0, udp_flags = 0, local_port = 0, remote_port = 0, mcast_ip4 = 0, mcast_ifindex = 0,
                mcast_ttl = UDP_TTL, udp_recv_fn = 0, udp_recv_arg = 0\<rparr>)\<rparr>\<rparr>) }"

text \<open>Whether a control block is on the list.\<close>

partial_function (option) udp_on_list :: "nat \<Rightarrow> nat \<Rightarrow> eth_state \<Rightarrow> bool option" where
  "udp_on_list c ipcb s =
     (if ipcb = 0 then Some False
      else if c = ipcb then Some True
      else do { pcb \<leftarrow> udp_pcb_at (ip_st s) ipcb; udp_on_list c (udp_next pcb) s })"

definition udp_insert_pcb :: "nat \<Rightarrow> eth_state \<Rightarrow> eth_state option" where
  "udp_insert_pcb c s =
     do { s \<leftarrow> upd_udp_pcb c (\<lambda>pcb. pcb\<lparr>udp_next := udp_pcbs (ip_st s)\<rparr>) s; Some (set_udp_pcbs c s) }"

section \<open>Local ports\<close>

text \<open>Whether a block of the list is bound to the port \<^verbatim>\<open>udp_port\<close>.\<close>

partial_function (option) udp_port_used :: "u16 \<Rightarrow> nat \<Rightarrow> eth_state \<Rightarrow> bool option" where
  "udp_port_used port c s =
     (if c = 0 then Some False
      else do { pcb \<leftarrow> udp_pcb_at (ip_st s) c;
                if local_port pcb = port then Some True else udp_port_used port (udp_next pcb) s })"

partial_function (option) udp_new_port_loop :: "u16 \<Rightarrow> eth_state \<Rightarrow> (u16 \<times> eth_state) option" where
  "udp_new_port_loop n s =
     (let port = (if udp_port (ip_st s) = UDP_LOCAL_PORT_RANGE_END then UDP_LOCAL_PORT_RANGE_START
                  else udp_port (ip_st s) + 1);
          s = s\<lparr>ip_st := (ip_st s)\<lparr>udp_port := port\<rparr>\<rparr>
      in do { used \<leftarrow> udp_port_used port (udp_pcbs (ip_st s)) s;
              if used then
                (let n = n + 1
                 in if n > UDP_LOCAL_PORT_RANGE_END - UDP_LOCAL_PORT_RANGE_START then Some (0, s)
                    else udp_new_port_loop n s)
              else Some (port, s) })"

definition udp_new_port :: "eth_state \<Rightarrow> (u16 \<times> eth_state) option" where
  "udp_new_port s = udp_new_port_loop 0 s"

text \<open>The loop of \<^verbatim>\<open>udp_bind\<close> that rejects an address in use by another control block.\<close>

partial_function (option) udp_bind_conflict ::
    "nat \<Rightarrow> bool \<Rightarrow> u32 \<Rightarrow> u16 \<Rightarrow> nat \<Rightarrow> eth_state \<Rightarrow> bool option" where
  "udp_bind_conflict c reuse ipaddr port ipcb s =
     (if ipcb = 0 then Some False
      else
        do { pcb \<leftarrow> udp_pcb_at (ip_st s) ipcb;
             if c \<noteq> ipcb \<and> (\<not> reuse \<or> so_options pcb AND SOF_REUSEADDR = 0) \<and>
                local_port pcb = port \<and>
                (local_ip pcb = ipaddr \<or> ip4_addr_isany ipaddr \<or> ip4_addr_isany (local_ip pcb)) then Some True
             else udp_bind_conflict c reuse ipaddr port (udp_next pcb) s })"

text \<open>An address \<open>None\<close> is \<^verbatim>\<open>NULL\<close>.\<close>

definition udp_bind :: "nat \<Rightarrow> u32 option \<Rightarrow> u16 \<Rightarrow> eth_state \<Rightarrow> (err_t \<times> eth_state) option" where
  "udp_bind c ipaddr port s =
     (let ipaddr = (case ipaddr of None \<Rightarrow> IPADDR_ANY | Some a \<Rightarrow> a)
      in if c = 0 then Some (ERR_ARG, s)
         else
           do { rebind \<leftarrow> udp_on_list c (udp_pcbs (ip_st s)) s;
                pcb \<leftarrow> udp_pcb_at (ip_st s) c;
                (err, port, s) \<leftarrow>
                  (if port = 0 then
                     do { (port, s) \<leftarrow> udp_new_port s; Some (if port = 0 then ERR_USE else ERR_OK, port, s) }
                   else
                     do { conflict \<leftarrow> udp_bind_conflict c (so_options pcb AND SOF_REUSEADDR \<noteq> 0) ipaddr port
                                        (udp_pcbs (ip_st s)) s;
                          Some (if conflict then ERR_USE else ERR_OK, port, s) });
                if err \<noteq> ERR_OK then Some (err, s)
                else
                  do { s \<leftarrow> upd_udp_pcb c (\<lambda>pcb. pcb\<lparr>local_ip := ipaddr, local_port := port\<rparr>) s;
                       s \<leftarrow> (if \<not> rebind then udp_insert_pcb c s else Some s);
                       Some (ERR_OK, s) } })"

definition udp_bind_netif :: "nat \<Rightarrow> nat \<Rightarrow> eth_state \<Rightarrow> eth_state option" where
  "udp_bind_netif c n s =
     (if n \<noteq> 0 then
        do { nif \<leftarrow> netifs s n; upd_udp_pcb c (\<lambda>pcb. pcb\<lparr>netif_idx := netif_get_index nif\<rparr>) s }
      else upd_udp_pcb c (\<lambda>pcb. pcb\<lparr>netif_idx := 0\<rparr>) s)"

definition udp_connect :: "nat \<Rightarrow> u32 option \<Rightarrow> u16 \<Rightarrow> eth_state \<Rightarrow> (err_t \<times> eth_state) option" where
  "udp_connect c ipaddr port s =
     (if c = 0 then Some (ERR_ARG, s)
      else
        case ipaddr of
          None \<Rightarrow> Some (ERR_ARG, s)
        | Some ipaddr \<Rightarrow>
            do { pcb \<leftarrow> udp_pcb_at (ip_st s) c;
                 (err, s) \<leftarrow> (if local_port pcb = 0 then udp_bind c (Some (local_ip pcb)) (local_port pcb) s
                              else Some (ERR_OK, s));
                 if err \<noteq> ERR_OK then Some (err, s)
                 else
                   do { s \<leftarrow> upd_udp_pcb c (\<lambda>pcb. pcb\<lparr>remote_ip := ipaddr, remote_port := port,
                                udp_flags := udp_flags pcb OR UDP_FLAGS_CONNECTED\<rparr>) s;
                        on \<leftarrow> udp_on_list c (udp_pcbs (ip_st s)) s;
                        s \<leftarrow> (if on then Some s else udp_insert_pcb c s);
                        Some (ERR_OK, s) } })"

definition udp_disconnect :: "nat \<Rightarrow> eth_state \<Rightarrow> eth_state option" where
  "udp_disconnect c s =
     (if c = 0 then Some s
      else upd_udp_pcb c (\<lambda>pcb. pcb\<lparr>remote_ip := 0, remote_port := 0, netif_idx := 0,
             udp_flags := udp_flags pcb AND NOT UDP_FLAGS_CONNECTED\<rparr>) s)"

definition udp_recv :: "nat \<Rightarrow> nat \<Rightarrow> nat \<Rightarrow> eth_state \<Rightarrow> eth_state option" where
  "udp_recv c recv_fn recv_arg s =
     (if c = 0 then Some s
      else upd_udp_pcb c (\<lambda>pcb. pcb\<lparr>udp_recv_fn := recv_fn, udp_recv_arg := recv_arg\<rparr>) s)"

partial_function (option) udp_remove_loop :: "nat \<Rightarrow> nat \<Rightarrow> nat \<Rightarrow> eth_state \<Rightarrow> eth_state option" where
  "udp_remove_loop c nxt pcb2 s =
     (if pcb2 = 0 then Some s
      else do { p2 \<leftarrow> udp_pcb_at (ip_st s) pcb2;
                if udp_next p2 \<noteq> 0 \<and> udp_next p2 = c then upd_udp_pcb pcb2 (\<lambda>p2. p2\<lparr>udp_next := nxt\<rparr>) s
                else udp_remove_loop c nxt (udp_next p2) s })"

definition udp_remove :: "nat \<Rightarrow> eth_state \<Rightarrow> eth_state option" where
  "udp_remove c s =
     (if c = 0 then Some s
      else
        do { pcb \<leftarrow> udp_pcb_at (ip_st s) c;
             s \<leftarrow> (if udp_pcbs (ip_st s) = c then Some (set_udp_pcbs (udp_next pcb) s)
                   else udp_remove_loop c (udp_next pcb) (udp_pcbs (ip_st s)) s);
             ps \<leftarrow> memp_free (pools (eth_heap s)) MEMP_UDP_PCB c;
             Some (s\<lparr>eth_heap := (eth_heap s)\<lparr>pools := ps\<rparr>,
                     ip_st := (ip_st s)\<lparr>udp_pcb_at := (udp_pcb_at (ip_st s))(c := None)\<rparr>\<rparr>) })"

partial_function (option) udp_addr_changed_loop :: "u32 \<Rightarrow> u32 \<Rightarrow> nat \<Rightarrow> eth_state \<Rightarrow> eth_state option" where
  "udp_addr_changed_loop old_addr new_addr c s =
     (if c = 0 then Some s
      else
        do { pcb \<leftarrow> udp_pcb_at (ip_st s) c;
             s \<leftarrow> (if local_ip pcb = old_addr then upd_udp_pcb c (\<lambda>pcb. pcb\<lparr>local_ip := new_addr\<rparr>) s else Some s);
             udp_addr_changed_loop old_addr new_addr (udp_next pcb) s })"

definition udp_netif_ip_addr_changed :: "u32 \<Rightarrow> u32 \<Rightarrow> eth_state \<Rightarrow> eth_state option" where
  "udp_netif_ip_addr_changed old_addr new_addr s =
     (if \<not> ip4_addr_isany old_addr \<and> \<not> ip4_addr_isany new_addr
      then udp_addr_changed_loop old_addr new_addr (udp_pcbs (ip_st s)) s
      else Some s)"

section \<open>Input\<close>

text \<open>Whether the local address of a block accepts the current packet; \<open>in_idx\<close> is the index of the interface it
  arrived on.\<close>

definition udp_input_local_match :: "udp_pcb \<Rightarrow> netif \<Rightarrow> u8 \<Rightarrow> u32 \<Rightarrow> bool \<Rightarrow> bool" where
  "udp_input_local_match pcb inp in_idx dest_addr broadcast \<longleftrightarrow>
     \<not> (netif_idx pcb \<noteq> 0 \<and> netif_idx pcb \<noteq> in_idx) \<and>
     (if broadcast then
        ip4_addr_isany (local_ip pcb) \<or> dest_addr = IPADDR_BROADCAST \<or>
        ip4_addr_net_eq (local_ip pcb) dest_addr (netmask inp)
      else ip4_addr_isany (local_ip pcb) \<or> local_ip pcb = dest_addr)"

text \<open>The choice among the unconnected blocks that match: \<open>uncon\<close> is the best one so far with its address.\<close>

definition better_uncon :: "netif \<Rightarrow> u32 \<Rightarrow> bool \<Rightarrow> nat \<times> u32 \<Rightarrow> nat \<Rightarrow> u32 \<Rightarrow> nat \<times> u32" where
  "better_uncon inp dest_addr broadcast uncon c local_addr =
     (if fst uncon = 0 then (c, local_addr)
      else if broadcast \<and> dest_addr = IPADDR_BROADCAST then
        (if snd uncon \<noteq> ip_addr inp \<and> local_addr = ip_addr inp then (c, local_addr) else uncon)
      else if \<not> ip4_addr_isany local_addr then (c, local_addr)
      else uncon)"

text \<open>The packet as the search sees it.\<close>

record udp_key =
  key_netif :: netif
  key_in_idx :: u8
  key_src_addr :: u32
  key_dest_addr :: u32
  key_src :: u16
  key_dest :: u16
  key_broadcast :: bool

text \<open>The loop over the list: the block with a full match, 0 for none, its predecessor, and the best unconnected one.\<close>

partial_function (option) udp_match_loop ::
    "udp_key \<Rightarrow> nat \<Rightarrow> nat \<Rightarrow> nat \<times> u32 \<Rightarrow> eth_state \<Rightarrow> (nat \<times> nat \<times> nat) option" where
  "udp_match_loop k c prev uncon s =
     (if c = 0 then Some (0, prev, fst uncon)
      else
        do { pcb \<leftarrow> udp_pcb_at (ip_st s) c;
             let matches = (local_port pcb = key_dest k \<and>
                   udp_input_local_match pcb (key_netif k) (key_in_idx k) (key_dest_addr k) (key_broadcast k));
                 uncon = (if matches \<and> udp_flags pcb AND UDP_FLAGS_CONNECTED = 0
                          then better_uncon (key_netif k) (key_dest_addr k) (key_broadcast k) uncon c (local_ip pcb)
                          else uncon)
             in if matches \<and> remote_port pcb = key_src k \<and>
                   (ip4_addr_isany (remote_ip pcb) \<or> remote_ip pcb = key_src_addr k)
                then Some (c, prev, fst uncon)
                else udp_match_loop k (udp_next pcb) c uncon s })"

text \<open>The block that gets the packet. A full match is moved to the front of the list.\<close>

definition udp_select :: "udp_key \<Rightarrow> eth_state \<Rightarrow> (nat \<times> eth_state) option" where
  "udp_select k s =
     do { (c, prev, uncon) \<leftarrow> udp_match_loop k (udp_pcbs (ip_st s)) 0 (0, 0) s;
          if c \<noteq> 0 then
            if prev \<noteq> 0 then
              do { pcb \<leftarrow> udp_pcb_at (ip_st s) c;
                   s \<leftarrow> upd_udp_pcb prev (\<lambda>p2. p2\<lparr>udp_next := udp_next pcb\<rparr>) s;
                   s \<leftarrow> upd_udp_pcb c (\<lambda>pcb. pcb\<lparr>udp_next := udp_pcbs (ip_st s)\<rparr>) s;
                   Some (c, set_udp_pcbs c s) }
            else Some (c, s)
          else Some (uncon, s) }"

definition udp_input :: "eth_env \<Rightarrow> nat \<Rightarrow> nat \<Rightarrow> eth_state \<Rightarrow> eth_state option" where
  "udp_input e p inp s =
     do { lwip_assert (p \<noteq> 0);
          lwip_assert (inp \<noteq> 0);
          b \<leftarrow> pbufs (eth_heap s) p;
          if unat (len b) < UDP_HLEN then eth_pbuf_free e p s
          else
            do { nif \<leftarrow> netifs s inp;
                 cur \<leftarrow> netifs s (current_netif (ip_data (ip_st s)));
                 cur_in \<leftarrow> netifs s (current_input_netif (ip_data (ip_st s)));
                 let udphdr = payload b; m = bytes (eth_heap s);
                     src_addr = current_iphdr_src (ip_data (ip_st s));
                     dest_addr = current_iphdr_dest (ip_data (ip_st s));
                     broadcast = ip4_addr_isbroadcast_u32 dest_addr cur;
                     src = lwip_htons (load16 m udphdr);
                     k = \<lparr>key_netif = nif, key_in_idx = netif_get_index cur_in, key_src_addr = src_addr,
                          key_dest_addr = dest_addr, key_src = src, key_dest = lwip_htons (load16 m (udphdr + 2)),
                          key_broadcast = broadcast\<rparr>
                 in do { (c, s) \<leftarrow> udp_select k s;
                         if c \<noteq> 0 \<or> ip_addr nif = dest_addr then
                           do { chk \<leftarrow> (if load16 m (udphdr + 6) \<noteq> 0
                                         then ip_chksum_pseudo (eth_heap s) p IP_PROTO_UDP (tot_len b) src_addr dest_addr
                                         else Some 0);
                                if chk \<noteq> 0 then eth_pbuf_free e p s
                                else
                                  do { (failed, h) \<leftarrow> pbuf_remove_header p UDP_HLEN (eth_heap s);
                                       lwip_assert (\<not> failed);
                                       let s = s\<lparr>eth_heap := h\<rparr>
                                       in if c \<noteq> 0 then
                                            do { pcb \<leftarrow> udp_pcb_at (ip_st s) c;
                                                 if udp_recv_fn pcb \<noteq> 0
                                                 then call_udp_recv e (udp_recv_fn pcb) (udp_recv_arg pcb) c p src_addr src s
                                                 else eth_pbuf_free e p s }
                                          else
                                            do { s \<leftarrow>
                                                   (if \<not> broadcast \<and> \<not> ip4_addr_ismulticast dest_addr then
                                                      do { (_, h) \<leftarrow> pbuf_header_force p
                                                             (int (unat (current_ip_header_tot_len (ip_data (ip_st s)))) + 8)
                                                             (eth_heap s);
                                                           icmp_dest_unreach e p ICMP_DUR_PORT (s\<lparr>eth_heap := h\<rparr>) }
                                                    else Some s);
                                                 eth_pbuf_free e p s } } }
                         else eth_pbuf_free e p s } } }"

section \<open>Output\<close>

text \<open>Room for the header: in front of the packet \<open>p\<close>, or in a new buffer chained in front of it. The result is the
  packet to send, 0 without memory.\<close>

definition udp_add_header :: "eth_env \<Rightarrow> nat \<Rightarrow> heap \<Rightarrow> (nat \<times> heap) option" where
  "udp_add_header e p h =
     do { (failed, h) \<leftarrow> pbuf_add_header p UDP_HLEN h;
          if failed then
            do { (q, h) \<leftarrow> pbuf_alloc (pb_env e) PBUF_IP 8 PBUF_RAM h;
                 if q = 0 then Some (0, h)
                 else
                   do { b \<leftarrow> pbufs h p;
                        h \<leftarrow> (if tot_len b \<noteq> 0 then pbuf_chain q p h else Some h);
                        Some (q, h) } }
          else Some (p, h) }"

text \<open>The UDP header at the front of \<open>q\<close>, with its checksum.\<close>

definition udp_write_header :: "nat \<Rightarrow> u16 \<Rightarrow> u16 \<Rightarrow> bool \<Rightarrow> bool \<Rightarrow> u32 \<Rightarrow> u32 \<Rightarrow> heap \<Rightarrow> heap option" where
  "udp_write_header q src_port dst_port mcast_loop with_chksum src_ip dst_ip h =
     do { b \<leftarrow> pbufs h q;
          lwip_assert (unat (len b) \<ge> UDP_HLEN);
          let udphdr = payload b;
              h = write_bytes udphdr (store16 (lwip_htons src_port)) h;
              h = write_bytes (udphdr + 2) (store16 (lwip_htons dst_port)) h;
              h = write_bytes (udphdr + 6) (store16 0) h
          in do { h \<leftarrow> (if mcast_loop then upd_pbuf q (\<lambda>b. b\<lparr>pb_flags := pb_flags b OR PBUF_FLAG_MCASTLOOP\<rparr>) h
                        else Some h);
                  let h = write_bytes (udphdr + 4) (store16 (lwip_htons (tot_len b))) h
                  in if with_chksum then
                       do { c \<leftarrow> ip_chksum_pseudo h q IP_PROTO_UDP (tot_len b) src_ip dst_ip;
                            Some (write_bytes (udphdr + 6) (store16 (if c = 0 then 0xffff else c)) h) }
                     else Some h } }"

definition udp_sendto_if_src ::
    "eth_env \<Rightarrow> nat \<Rightarrow> nat \<Rightarrow> u32 \<Rightarrow> u16 \<Rightarrow> nat \<Rightarrow> u32 \<Rightarrow> eth_state \<Rightarrow> (err_t \<times> eth_state) option" where
  "udp_sendto_if_src e c p dst_ip dst_port n src_ip s =
     (if c = 0 \<or> p = 0 \<or> n = 0 then Some (ERR_ARG, s)
      else
        do { pcb \<leftarrow> udp_pcb_at (ip_st s) c;
             (err, s) \<leftarrow> (if local_port pcb = 0 then udp_bind c (Some (local_ip pcb)) (local_port pcb) s
                          else Some (ERR_OK, s));
             if err \<noteq> ERR_OK then Some (err, s)
             else
               do { pcb \<leftarrow> udp_pcb_at (ip_st s) c;
                    b \<leftarrow> pbufs (eth_heap s) p;
                    if tot_len b + 8 < tot_len b then Some (ERR_MEM, s)
                    else
                      do { (q, h) \<leftarrow> udp_add_header e p (eth_heap s);
                           if q = 0 then Some (ERR_MEM, s\<lparr>eth_heap := h\<rparr>)
                           else
                             do { h \<leftarrow> udp_write_header q (local_port pcb) dst_port
                                        (udp_flags pcb AND UDP_FLAGS_MULTICAST_LOOP \<noteq> 0 \<and> ip4_addr_ismulticast dst_ip)
                                        (udp_flags pcb AND UDP_FLAGS_NOCHKSUM = 0) src_ip dst_ip h;
                                  (err, s) \<leftarrow> ip4_output_if_src e q (Some src_ip) (Some dst_ip)
                                               (if ip4_addr_ismulticast dst_ip then mcast_ttl pcb else pcb_ttl pcb)
                                               (pcb_tos pcb) IP_PROTO_UDP n (s\<lparr>eth_heap := h\<rparr>);
                                  s \<leftarrow> (if q \<noteq> p then eth_pbuf_free e q s else Some s);
                                  Some (err, s) } } } })"

definition udp_sendto_if ::
    "eth_env \<Rightarrow> nat \<Rightarrow> nat \<Rightarrow> u32 \<Rightarrow> u16 \<Rightarrow> nat \<Rightarrow> eth_state \<Rightarrow> (err_t \<times> eth_state) option" where
  "udp_sendto_if e c p dst_ip dst_port n s =
     (if c = 0 \<or> p = 0 \<or> n = 0 then Some (ERR_ARG, s)
      else
        do { pcb \<leftarrow> udp_pcb_at (ip_st s) c;
             nif \<leftarrow> netifs s n;
             if ip4_addr_isany (local_ip pcb) \<or> ip4_addr_ismulticast (local_ip pcb)
             then udp_sendto_if_src e c p dst_ip dst_port n (ip_addr nif) s
             else if local_ip pcb \<noteq> ip_addr nif then Some (ERR_RTE, s)
             else udp_sendto_if_src e c p dst_ip dst_port n (local_ip pcb) s })"

text \<open>The interface for a destination: by index, for multicast by the options of the block, or by routing.\<close>

definition udp_route :: "udp_pcb \<Rightarrow> u32 \<Rightarrow> eth_state \<Rightarrow> nat option" where
  "udp_route pcb dst_ip s =
     (if netif_idx pcb \<noteq> 0 then netif_get_by_index (netif_idx pcb) s
      else
        do { n \<leftarrow> (if ip4_addr_ismulticast dst_ip then
                     if mcast_ifindex pcb \<noteq> 0 then netif_get_by_index (mcast_ifindex pcb) s
                     else if \<not> ip4_addr_isany (mcast_ip4 pcb) \<and> mcast_ip4 pcb \<noteq> IPADDR_BROADCAST
                     then ip4_route (mcast_ip4 pcb) s
                     else Some 0
                   else Some 0);
             if n = 0 then ip4_route dst_ip s else Some n })"

definition udp_sendto :: "eth_env \<Rightarrow> nat \<Rightarrow> nat \<Rightarrow> u32 \<Rightarrow> u16 \<Rightarrow> eth_state \<Rightarrow> (err_t \<times> eth_state) option" where
  "udp_sendto e c p dst_ip dst_port s =
     (if c = 0 \<or> p = 0 then Some (ERR_ARG, s)
      else
        do { pcb \<leftarrow> udp_pcb_at (ip_st s) c;
             n \<leftarrow> udp_route pcb dst_ip s;
             if n = 0 then Some (ERR_RTE, s) else udp_sendto_if e c p dst_ip dst_port n s })"

definition udp_send :: "eth_env \<Rightarrow> nat \<Rightarrow> nat \<Rightarrow> eth_state \<Rightarrow> (err_t \<times> eth_state) option" where
  "udp_send e c p s =
     (if c = 0 \<or> p = 0 then Some (ERR_ARG, s)
      else do { pcb \<leftarrow> udp_pcb_at (ip_st s) c; udp_sendto e c p (remote_ip pcb) (remote_port pcb) s })"

end
