(* ===== verification/Raw.thy ===== *)
theory Raw
  imports Udp
begin

text \<open>
  \<^verbatim>\<open>src/lwip/raw.c\<close>: control blocks that see the packets of one IP protocol. The functions behind the
  \<^verbatim>\<open>recv\<close> pointers are a parameter (\<open>call_raw_recv\<close>); they return whether they have eaten the
  packet.
\<close>

abbreviation (input) RAW_FLAGS_CONNECTED :: u8 where "RAW_FLAGS_CONNECTED \<equiv> 0x01"
abbreviation (input) RAW_FLAGS_HDRINCL :: u8 where "RAW_FLAGS_HDRINCL \<equiv> 0x02"
abbreviation (input) RAW_FLAGS_MULTICAST_LOOP :: u8 where "RAW_FLAGS_MULTICAST_LOOP \<equiv> 0x04"
abbreviation (input) RAW_TTL :: u8 where "RAW_TTL \<equiv> 255"

datatype raw_input_state_t = RAW_INPUT_NONE | RAW_INPUT_EATEN | RAW_INPUT_DELIVERED

section \<open>Control blocks\<close>

definition upd_raw_pcb :: "nat \<Rightarrow> (raw_pcb \<Rightarrow> raw_pcb) \<Rightarrow> eth_state \<Rightarrow> eth_state option" where
  "upd_raw_pcb c f s =
     do { pcb \<leftarrow> raw_pcb_at (ip_st s) c;
          Some (s\<lparr>ip_st := (ip_st s)\<lparr>raw_pcb_at := (raw_pcb_at (ip_st s))(c \<mapsto> f pcb)\<rparr>\<rparr>) }"

definition set_raw_pcbs :: "nat \<Rightarrow> eth_state \<Rightarrow> eth_state" where
  "set_raw_pcbs c s = s\<lparr>ip_st := (ip_st s)\<lparr>raw_pcbs := c\<rparr>\<rparr>"

definition raw_new :: "u8 \<Rightarrow> eth_state \<Rightarrow> (nat \<times> eth_state) option" where
  "raw_new proto s =
     do { (c, ps) \<leftarrow> memp_malloc (pools (eth_heap s)) MEMP_RAW_PCB;
          let s = s\<lparr>eth_heap := (eth_heap s)\<lparr>pools := ps\<rparr>\<rparr>
          in if c = 0 then Some (0, s)
             else Some (c, set_raw_pcbs c (s\<lparr>ip_st := (ip_st s)\<lparr>raw_pcb_at := (raw_pcb_at (ip_st s))(c \<mapsto>
               \<lparr>local_ip = 0, remote_ip = 0, netif_idx = 0, so_options = 0, pcb_tos = 0, pcb_ttl = RAW_TTL,
                raw_next = raw_pcbs (ip_st s), raw_protocol = proto, raw_flags = 0, raw_mcast_ifindex = 0,
                raw_mcast_ttl = RAW_TTL, raw_recv_fn = 0, raw_recv_arg = 0\<rparr>)\<rparr>\<rparr>)) }"

definition raw_bind :: "nat \<Rightarrow> u32 option \<Rightarrow> eth_state \<Rightarrow> (err_t \<times> eth_state) option" where
  "raw_bind c ipaddr s =
     (case ipaddr of
        None \<Rightarrow> Some (ERR_VAL, s)
      | Some a \<Rightarrow>
          if c = 0 then Some (ERR_VAL, s)
          else do { s \<leftarrow> upd_raw_pcb c (\<lambda>pcb. pcb\<lparr>local_ip := a\<rparr>) s; Some (ERR_OK, s) })"

definition raw_bind_netif :: "nat \<Rightarrow> nat \<Rightarrow> eth_state \<Rightarrow> eth_state option" where
  "raw_bind_netif c n s =
     (if n \<noteq> 0 then
        do { nif \<leftarrow> netifs s n; upd_raw_pcb c (\<lambda>pcb. pcb\<lparr>netif_idx := netif_get_index nif\<rparr>) s }
      else upd_raw_pcb c (\<lambda>pcb. pcb\<lparr>netif_idx := 0\<rparr>) s)"

definition raw_connect :: "nat \<Rightarrow> u32 option \<Rightarrow> eth_state \<Rightarrow> (err_t \<times> eth_state) option" where
  "raw_connect c ipaddr s =
     (case ipaddr of
        None \<Rightarrow> Some (ERR_VAL, s)
      | Some a \<Rightarrow>
          if c = 0 then Some (ERR_VAL, s)
          else do { s \<leftarrow> upd_raw_pcb c (\<lambda>pcb. pcb\<lparr>remote_ip := a, raw_flags := raw_flags pcb OR RAW_FLAGS_CONNECTED\<rparr>) s;
                    Some (ERR_OK, s) })"

definition raw_disconnect :: "nat \<Rightarrow> eth_state \<Rightarrow> eth_state option" where
  "raw_disconnect c s =
     upd_raw_pcb c (\<lambda>pcb. pcb\<lparr>remote_ip := 0, netif_idx := 0, raw_flags := raw_flags pcb AND NOT RAW_FLAGS_CONNECTED\<rparr>) s"

definition raw_recv :: "nat \<Rightarrow> nat \<Rightarrow> nat \<Rightarrow> eth_state \<Rightarrow> eth_state option" where
  "raw_recv c recv_fn recv_arg s =
     upd_raw_pcb c (\<lambda>pcb. pcb\<lparr>raw_recv_fn := recv_fn, raw_recv_arg := recv_arg\<rparr>) s"

partial_function (option) raw_remove_loop :: "nat \<Rightarrow> nat \<Rightarrow> nat \<Rightarrow> eth_state \<Rightarrow> eth_state option" where
  "raw_remove_loop c nxt pcb2 s =
     (if pcb2 = 0 then Some s
      else do { p2 \<leftarrow> raw_pcb_at (ip_st s) pcb2;
                if raw_next p2 \<noteq> 0 \<and> raw_next p2 = c then upd_raw_pcb pcb2 (\<lambda>p2. p2\<lparr>raw_next := nxt\<rparr>) s
                else raw_remove_loop c nxt (raw_next p2) s })"

definition raw_remove :: "nat \<Rightarrow> eth_state \<Rightarrow> eth_state option" where
  "raw_remove c s =
     do { pcb \<leftarrow> raw_pcb_at (ip_st s) c;
          s \<leftarrow> (if raw_pcbs (ip_st s) = c then Some (set_raw_pcbs (raw_next pcb) s)
                else raw_remove_loop c (raw_next pcb) (raw_pcbs (ip_st s)) s);
          ps \<leftarrow> memp_free (pools (eth_heap s)) MEMP_RAW_PCB c;
          Some (s\<lparr>eth_heap := (eth_heap s)\<lparr>pools := ps\<rparr>,
                  ip_st := (ip_st s)\<lparr>raw_pcb_at := (raw_pcb_at (ip_st s))(c := None)\<rparr>\<rparr>) }"

partial_function (option) raw_addr_changed_loop :: "u32 \<Rightarrow> u32 \<Rightarrow> nat \<Rightarrow> eth_state \<Rightarrow> eth_state option" where
  "raw_addr_changed_loop old_addr new_addr c s =
     (if c = 0 then Some s
      else
        do { pcb \<leftarrow> raw_pcb_at (ip_st s) c;
             s \<leftarrow> (if local_ip pcb = old_addr then upd_raw_pcb c (\<lambda>pcb. pcb\<lparr>local_ip := new_addr\<rparr>) s else Some s);
             raw_addr_changed_loop old_addr new_addr (raw_next pcb) s })"

definition raw_netif_ip_addr_changed :: "u32 \<Rightarrow> u32 \<Rightarrow> eth_state \<Rightarrow> eth_state option" where
  "raw_netif_ip_addr_changed old_addr new_addr s =
     (if \<not> ip4_addr_isany old_addr \<and> \<not> ip4_addr_isany new_addr
      then raw_addr_changed_loop old_addr new_addr (raw_pcbs (ip_st s)) s
      else Some s)"

section \<open>Input\<close>

definition raw_input_local_match :: "raw_pcb \<Rightarrow> u8 \<Rightarrow> u32 \<Rightarrow> bool \<Rightarrow> bool" where
  "raw_input_local_match pcb in_idx dest_addr broadcast \<longleftrightarrow>
     \<not> (netif_idx pcb \<noteq> 0 \<and> netif_idx pcb \<noteq> in_idx) \<and>
     (if broadcast then ip4_addr_isany (local_ip pcb)
      else ip4_addr_isany (local_ip pcb) \<or> local_ip pcb = dest_addr)"

text \<open>A block that ate the packet is moved to the front of the list.\<close>

definition raw_to_front :: "nat \<Rightarrow> nat \<Rightarrow> eth_state \<Rightarrow> eth_state option" where
  "raw_to_front c prev s =
     (if prev \<noteq> 0 then
        do { pcb \<leftarrow> raw_pcb_at (ip_st s) c;
             s \<leftarrow> upd_raw_pcb prev (\<lambda>p2. p2\<lparr>raw_next := raw_next pcb\<rparr>) s;
             s \<leftarrow> upd_raw_pcb c (\<lambda>pcb. pcb\<lparr>raw_next := raw_pcbs (ip_st s)\<rparr>) s;
             Some (set_raw_pcbs c s) }
      else Some s)"

partial_function (option) raw_input_loop ::
    "eth_env \<Rightarrow> nat \<Rightarrow> u8 \<Rightarrow> u8 \<Rightarrow> bool \<Rightarrow> nat \<Rightarrow> nat \<Rightarrow> raw_input_state_t \<Rightarrow> eth_state \<Rightarrow>
     (raw_input_state_t \<times> eth_state) option" where
  "raw_input_loop e p proto in_idx broadcast c prev ret s =
     (if c = 0 then Some (ret, s)
      else
        do { pcb \<leftarrow> raw_pcb_at (ip_st s) c;
             let src_addr = current_iphdr_src (ip_data (ip_st s)); dest_addr = current_iphdr_dest (ip_data (ip_st s))
             in if raw_protocol pcb = proto \<and> raw_input_local_match pcb in_idx dest_addr broadcast \<and>
                   (raw_flags pcb AND RAW_FLAGS_CONNECTED = 0 \<or> remote_ip pcb = src_addr) \<and> raw_recv_fn pcb \<noteq> 0 then
                  do { b \<leftarrow> pbufs (eth_heap s) p;
                       (eaten, s) \<leftarrow> call_raw_recv e (raw_recv_fn pcb) (raw_recv_arg pcb) c p src_addr s;
                       if eaten then do { s \<leftarrow> raw_to_front c prev s; Some (RAW_INPUT_EATEN, s) }
                       else
                         do { b' \<leftarrow> pbufs (eth_heap s) p;
                              lwip_assert (payload b' = payload b);
                              pcb \<leftarrow> raw_pcb_at (ip_st s) c;
                              raw_input_loop e p proto in_idx broadcast (raw_next pcb) c RAW_INPUT_DELIVERED s } }
                else raw_input_loop e p proto in_idx broadcast (raw_next pcb) c ret s })"

definition raw_input :: "eth_env \<Rightarrow> nat \<Rightarrow> nat \<Rightarrow> eth_state \<Rightarrow> (raw_input_state_t \<times> eth_state) option" where
  "raw_input e p inp s =
     do { cur \<leftarrow> netifs s (current_netif (ip_data (ip_st s)));
          cur_in \<leftarrow> netifs s (current_input_netif (ip_data (ip_st s)));
          b \<leftarrow> pbufs (eth_heap s) p;
          raw_input_loop e p (IPH_PROTO (bytes (eth_heap s)) (payload b)) (netif_get_index cur_in)
            (ip4_addr_isbroadcast_u32 (current_iphdr_dest (ip_data (ip_st s))) cur)
            (raw_pcbs (ip_st s)) 0 RAW_INPUT_NONE s }"

section \<open>Output\<close>

definition raw_sendto_if_src ::
    "eth_env \<Rightarrow> nat \<Rightarrow> nat \<Rightarrow> u32 \<Rightarrow> nat \<Rightarrow> u32 \<Rightarrow> eth_state \<Rightarrow> (err_t \<times> eth_state) option" where
  "raw_sendto_if_src e c p dst_ip n src_ip s =
     (if c = 0 \<or> n = 0 then Some (ERR_VAL, s)
      else
        do { pcb \<leftarrow> raw_pcb_at (ip_st s) c;
             b \<leftarrow> pbufs (eth_heap s) p;
             if raw_flags pcb AND RAW_FLAGS_HDRINCL \<noteq> 0 then
               if unat (len b) < IP_HLEN then Some (ERR_VAL, s)
               else ip4_output_if e p (Some src_ip) None 0 0 0 n s
             else if tot_len b + 20 < tot_len b then Some (ERR_MEM, s)
             else
               do { (failed, h) \<leftarrow> pbuf_add_header p IP_HLEN (eth_heap s);
                    (q, h) \<leftarrow>
                      (if failed then
                         do { (q, h) \<leftarrow> pbuf_alloc (pb_env e) PBUF_IP 0 PBUF_RAM h;
                              if q = 0 then Some (0, h)
                              else do { h \<leftarrow> (if tot_len b \<noteq> 0 then pbuf_chain q p h else Some h); Some (q, h) } }
                       else
                         do { (failed, h) \<leftarrow> pbuf_remove_header p IP_HLEN h; lwip_assert (\<not> failed); Some (p, h) });
                    if q = 0 then Some (ERR_MEM, s\<lparr>eth_heap := h\<rparr>)
                    else
                      do { h \<leftarrow> (if raw_flags pcb AND RAW_FLAGS_MULTICAST_LOOP \<noteq> 0 \<and> ip4_addr_ismulticast dst_ip
                                 then upd_pbuf q (\<lambda>b. b\<lparr>pb_flags := pb_flags b OR PBUF_FLAG_MCASTLOOP\<rparr>) h
                                 else Some h);
                           (err, s) \<leftarrow> ip4_output_if e q (Some src_ip) (Some dst_ip)
                                        (if ip4_addr_ismulticast dst_ip then raw_mcast_ttl pcb else pcb_ttl pcb)
                                        (pcb_tos pcb) (raw_protocol pcb) n (s\<lparr>eth_heap := h\<rparr>);
                           s \<leftarrow> (if q \<noteq> p then eth_pbuf_free e q s else Some s);
                           Some (err, s) } } })"

definition raw_sendto :: "eth_env \<Rightarrow> nat \<Rightarrow> nat \<Rightarrow> u32 \<Rightarrow> eth_state \<Rightarrow> (err_t \<times> eth_state) option" where
  "raw_sendto e c p ipaddr s =
     (if c = 0 then Some (ERR_VAL, s)
      else
        do { pcb \<leftarrow> raw_pcb_at (ip_st s) c;
             n \<leftarrow> (if netif_idx pcb \<noteq> 0 then netif_get_by_index (netif_idx pcb) s
                   else
                     do { n \<leftarrow> (if ip4_addr_ismulticast ipaddr then netif_get_by_index (raw_mcast_ifindex pcb) s else Some 0);
                          if n = 0 then ip4_route ipaddr s else Some n });
             if n = 0 then Some (ERR_RTE, s)
             else
               do { nif \<leftarrow> netifs s n;
                    raw_sendto_if_src e c p ipaddr n
                      (if ip4_addr_isany (local_ip pcb) \<or> ip4_addr_ismulticast (local_ip pcb) then ip_addr nif
                       else local_ip pcb) s } })"

definition raw_send :: "eth_env \<Rightarrow> nat \<Rightarrow> nat \<Rightarrow> eth_state \<Rightarrow> (err_t \<times> eth_state) option" where
  "raw_send e c p s = do { pcb \<leftarrow> raw_pcb_at (ip_st s) c; raw_sendto e c p (remote_ip pcb) s }"

end
