(* ===== verification/Netif.thy ===== *)
theory Netif
  imports Igmp Raw Acd
begin

text \<open>
  \<^verbatim>\<open>src/lwip/netif.c\<close> for one IPv4 interface, and \<^verbatim>\<open>src/lwip/ipv4/autoip.c\<close>, which calls it and is
  called by it: the addresses and flags of the interface, the reports and notifications that go with their
  changes, and the client of address conflict detection that chooses a link-local address.
  Status and link callbacks are configured out; the extended callbacks are modelled.
  \<^verbatim>\<open>tcp_netif_ip_addr_changed\<close> and \<^verbatim>\<open>dhcp_network_changed_link_up\<close> are parameters.
\<close>

abbreviation (input) LWIP_NSC_NETIF_ADDED :: u16 where "LWIP_NSC_NETIF_ADDED \<equiv> 0x0001"
abbreviation (input) LWIP_NSC_NETIF_REMOVED :: u16 where "LWIP_NSC_NETIF_REMOVED \<equiv> 0x0002"
abbreviation (input) LWIP_NSC_LINK_CHANGED :: u16 where "LWIP_NSC_LINK_CHANGED \<equiv> 0x0004"
abbreviation (input) LWIP_NSC_STATUS_CHANGED :: u16 where "LWIP_NSC_STATUS_CHANGED \<equiv> 0x0008"
abbreviation (input) LWIP_NSC_IPV4_ADDRESS_CHANGED :: u16 where "LWIP_NSC_IPV4_ADDRESS_CHANGED \<equiv> 0x0010"
abbreviation (input) LWIP_NSC_IPV4_GATEWAY_CHANGED :: u16 where "LWIP_NSC_IPV4_GATEWAY_CHANGED \<equiv> 0x0020"
abbreviation (input) LWIP_NSC_IPV4_NETMASK_CHANGED :: u16 where "LWIP_NSC_IPV4_NETMASK_CHANGED \<equiv> 0x0040"
abbreviation (input) LWIP_NSC_IPV4_SETTINGS_CHANGED :: u16 where "LWIP_NSC_IPV4_SETTINGS_CHANGED \<equiv> 0x0080"
abbreviation (input) LWIP_NSC_IPV4_ADDR_VALID :: u16 where "LWIP_NSC_IPV4_ADDR_VALID \<equiv> 0x0400"

definition upd_netif :: "nat \<Rightarrow> (netif \<Rightarrow> netif) \<Rightarrow> eth_state \<Rightarrow> eth_state option" where
  "upd_netif n f s = do { nif \<leftarrow> netifs s n; Some (s\<lparr>netifs := (netifs s)(n \<mapsto> f nif)\<rparr>) }"

section \<open>Listeners\<close>

definition netif_add_ext_callback :: "nat \<Rightarrow> nat \<Rightarrow> eth_state \<Rightarrow> eth_state option" where
  "netif_add_ext_callback callback fn s =
     do { lwip_assert (callback \<noteq> 0);
          lwip_assert (fn \<noteq> 0);
          Some (s\<lparr>ip_st := (ip_st s)\<lparr>ext_callback := callback,
                 ext_callbacks := (ext_callbacks (ip_st s))(callback \<mapsto>
                   \<lparr>ext_next = ext_callback (ip_st s), ext_fn = fn\<rparr>)\<rparr>\<rparr>) }"

definition set_ext_next :: "nat \<Rightarrow> nat \<Rightarrow> eth_state \<Rightarrow> eth_state option" where
  "set_ext_next c nxt s =
     do { cb \<leftarrow> ext_callbacks (ip_st s) c;
          Some (s\<lparr>ip_st := (ip_st s)\<lparr>ext_callbacks := (ext_callbacks (ip_st s))(c \<mapsto> cb\<lparr>ext_next := nxt\<rparr>)\<rparr>\<rparr>) }"

partial_function (option) remove_ext_loop :: "nat \<Rightarrow> nat \<Rightarrow> nat \<Rightarrow> eth_state \<Rightarrow> eth_state option" where
  "remove_ext_loop callback lst iter s =
     (if iter = 0 then Some s
      else
        do { it \<leftarrow> ext_callbacks (ip_st s) iter;
             if iter = callback then
               do { lwip_assert (lst \<noteq> 0);
                    cb \<leftarrow> ext_callbacks (ip_st s) callback;
                    set_ext_next lst (ext_next cb) s }
             else remove_ext_loop callback iter (ext_next it) s })"

definition netif_remove_ext_callback :: "nat \<Rightarrow> eth_state \<Rightarrow> eth_state option" where
  "netif_remove_ext_callback callback s =
     do { lwip_assert (callback \<noteq> 0);
          if ext_callback (ip_st s) = 0 then Some s
          else
            do { hd_cb \<leftarrow> ext_callbacks (ip_st s) (ext_callback (ip_st s));
                 s \<leftarrow> (if callback = ext_callback (ip_st s)
                       then Some (s\<lparr>ip_st := (ip_st s)\<lparr>ext_callback := ext_next hd_cb\<rparr>\<rparr>)
                       else remove_ext_loop callback (ext_callback (ip_st s)) (ext_next hd_cb) s);
                 set_ext_next callback 0 s } }"

partial_function (option) invoke_ext_loop ::
    "eth_env \<Rightarrow> nat \<Rightarrow> u16 \<Rightarrow> netif_ext_callback_args_t \<Rightarrow> nat \<Rightarrow> eth_state \<Rightarrow> eth_state option" where
  "invoke_ext_loop e n reason args callback s =
     (if callback = 0 then Some s
      else do { cb \<leftarrow> ext_callbacks (ip_st s) callback;
                s \<leftarrow> call_ext_fn e (ext_fn cb) n reason args s;
                invoke_ext_loop e n reason args (ext_next cb) s })"

definition netif_invoke_ext_callback ::
    "eth_env \<Rightarrow> nat \<Rightarrow> u16 \<Rightarrow> netif_ext_callback_args_t \<Rightarrow> eth_state \<Rightarrow> eth_state option" where
  "netif_invoke_ext_callback e n reason args s =
     do { lwip_assert (n \<noteq> 0); invoke_ext_loop e n reason args (ext_callback (ip_st s)) s }"

section \<open>Addresses\<close>

definition netif_issue_reports :: "eth_env \<Rightarrow> nat \<Rightarrow> eth_state \<Rightarrow> eth_state option" where
  "netif_issue_reports e n s =
     do { lwip_assert (n \<noteq> 0);
          nif \<leftarrow> netifs s n;
          if netif_flags nif AND NETIF_FLAG_LINK_UP = 0 \<or> netif_flags nif AND NETIF_FLAG_UP = 0 then Some s
          else if \<not> ip4_addr_isany (ip_addr nif) \<and> netif_flags nif AND NETIF_FLAG_IGMP \<noteq> 0
          then igmp_report_groups e n s
          else Some s }"

text \<open>A new address \<open>None\<close> is \<^verbatim>\<open>NULL\<close>, which counts as any address.\<close>

definition netif_do_ip_addr_changed :: "eth_env \<Rightarrow> u32 \<Rightarrow> u32 option \<Rightarrow> eth_state \<Rightarrow> eth_state option" where
  "netif_do_ip_addr_changed e old_addr new_addr s =
     (let new4 = (case new_addr of None \<Rightarrow> IPADDR_ANY | Some a \<Rightarrow> a)
      in do { s \<leftarrow> call_tcp_netif_ip_addr_changed e old_addr new_addr s;
              s \<leftarrow> udp_netif_ip_addr_changed old_addr new4 s;
              raw_netif_ip_addr_changed old_addr new4 s })"

text \<open>The three setters return the old value when it has changed.\<close>

definition netif_do_set_ipaddr :: "eth_env \<Rightarrow> nat \<Rightarrow> u32 \<Rightarrow> eth_state \<Rightarrow> (u32 option \<times> eth_state) option" where
  "netif_do_set_ipaddr e n ipaddr s =
     do { nif \<leftarrow> netifs s n;
          if ipaddr \<noteq> ip_addr nif then
            (let old_addr = ip_addr nif
             in do { s \<leftarrow> netif_do_ip_addr_changed e old_addr (Some ipaddr) s;
                     s \<leftarrow> acd_netif_ip_addr_changed e n old_addr ipaddr s;
                     s \<leftarrow> upd_netif n (\<lambda>nif. nif\<lparr>ip_addr := ipaddr\<rparr>) s;
                     s \<leftarrow> netif_issue_reports e n s;
                     Some (Some old_addr, s) })
          else Some (None, s) }"

definition netif_do_set_netmask :: "nat \<Rightarrow> u32 \<Rightarrow> eth_state \<Rightarrow> (u32 option \<times> eth_state) option" where
  "netif_do_set_netmask n nm s =
     do { nif \<leftarrow> netifs s n;
          if nm \<noteq> netmask nif then
            do { s \<leftarrow> upd_netif n (\<lambda>nif. nif\<lparr>netmask := nm\<rparr>) s; Some (Some (netmask nif), s) }
          else Some (None, s) }"

definition netif_do_set_gw :: "nat \<Rightarrow> u32 \<Rightarrow> eth_state \<Rightarrow> (u32 option \<times> eth_state) option" where
  "netif_do_set_gw n g s =
     do { nif \<leftarrow> netifs s n;
          if g \<noteq> gw nif then
            do { s \<leftarrow> upd_netif n (\<lambda>nif. nif\<lparr>gw := g\<rparr>) s; Some (Some (gw nif), s) }
          else Some (None, s) }"

definition netif_set_ipaddr :: "eth_env \<Rightarrow> nat \<Rightarrow> u32 \<Rightarrow> eth_state \<Rightarrow> eth_state option" where
  "netif_set_ipaddr e n ipaddr s =
     (if n = 0 then Some s
      else do { (old, s) \<leftarrow> netif_do_set_ipaddr e n ipaddr s;
                if old \<noteq> None
                then netif_invoke_ext_callback e n LWIP_NSC_IPV4_ADDRESS_CHANGED (Args_Ipv4 old None None) s
                else Some s })"

definition netif_set_netmask :: "eth_env \<Rightarrow> nat \<Rightarrow> u32 \<Rightarrow> eth_state \<Rightarrow> eth_state option" where
  "netif_set_netmask e n nm s =
     (if n = 0 then Some s
      else do { (old, s) \<leftarrow> netif_do_set_netmask n nm s;
                if old \<noteq> None
                then netif_invoke_ext_callback e n LWIP_NSC_IPV4_NETMASK_CHANGED (Args_Ipv4 None old None) s
                else Some s })"

definition netif_set_gw :: "eth_env \<Rightarrow> nat \<Rightarrow> u32 \<Rightarrow> eth_state \<Rightarrow> eth_state option" where
  "netif_set_gw e n g s =
     (if n = 0 then Some s
      else do { (old, s) \<leftarrow> netif_do_set_gw n g s;
                if old \<noteq> None
                then netif_invoke_ext_callback e n LWIP_NSC_IPV4_GATEWAY_CHANGED (Args_Ipv4 None None old) s
                else Some s })"

definition addr_change_reason :: "bool \<Rightarrow> u32 option \<Rightarrow> u32 option \<Rightarrow> u32 option \<Rightarrow> u16" where
  "addr_change_reason remove old_addr old_nm old_gw =
     (let r = (if old_addr \<noteq> None then LWIP_NSC_IPV4_ADDRESS_CHANGED else 0) OR
              (if old_nm \<noteq> None then LWIP_NSC_IPV4_NETMASK_CHANGED else 0) OR
              (if old_gw \<noteq> None then LWIP_NSC_IPV4_GATEWAY_CHANGED else 0);
          r = (if r \<noteq> 0 then r OR LWIP_NSC_IPV4_SETTINGS_CHANGED else r)
      in if \<not> remove then r OR LWIP_NSC_IPV4_ADDR_VALID else r)"

definition netif_set_addr :: "eth_env \<Rightarrow> nat \<Rightarrow> u32 \<Rightarrow> u32 \<Rightarrow> u32 \<Rightarrow> eth_state \<Rightarrow> eth_state option" where
  "netif_set_addr e n ipaddr nm g s =
     (let remove = ip4_addr_isany ipaddr
      in do { (old1, s) \<leftarrow> (if remove then netif_do_set_ipaddr e n ipaddr s else Some (None, s));
              (old_nm, s) \<leftarrow> netif_do_set_netmask n nm s;
              (old_gw, s) \<leftarrow> netif_do_set_gw n g s;
              (old2, s) \<leftarrow> (if \<not> remove then netif_do_set_ipaddr e n ipaddr s else Some (None, s));
              let old_addr = (if remove then old1 else old2);
                  change_reason = addr_change_reason remove old_addr old_nm old_gw
              in if change_reason \<noteq> 0
                 then netif_invoke_ext_callback e n change_reason (Args_Ipv4 old_addr old_nm old_gw) s
                 else Some s })"

section \<open>AutoIP\<close>

abbreviation (input) AUTOIP_NET :: u32 where "AUTOIP_NET \<equiv> 0xA9FE0000"
abbreviation (input) AUTOIP_RANGE_START :: u32 where "AUTOIP_RANGE_START \<equiv> 0xA9FE0100"
abbreviation (input) AUTOIP_RANGE_END :: u32 where "AUTOIP_RANGE_END \<equiv> 0xA9FEFEFF"

definition upd_autoip :: "nat \<Rightarrow> (autoip \<Rightarrow> autoip) \<Rightarrow> eth_state \<Rightarrow> eth_state option" where
  "upd_autoip n f s =
     do { a \<leftarrow> autoip_data (ip_st s) n;
          Some (s\<lparr>ip_st := (ip_st s)\<lparr>autoip_data := (autoip_data (ip_st s))(n \<mapsto> f a)\<rparr>\<rparr>) }"

definition LWIP_AUTOIP_CREATE_SEED_ADDR :: "netif \<Rightarrow> u32" where
  "LWIP_AUTOIP_CREATE_SEED_ADDR nif =
     lwip_htonl (AUTOIP_RANGE_START + (ucast (hwaddr nif ! 4) OR push_bit 8 (ucast (hwaddr nif ! 5))))"

definition autoip_create_addr :: "netif \<Rightarrow> u8 \<Rightarrow> u32 option" where
  "autoip_create_addr nif tried =
     (let addr = lwip_htonl (LWIP_AUTOIP_CREATE_SEED_ADDR nif);
          addr = addr + ucast tried;
          addr = AUTOIP_NET OR (addr AND 0xffff);
          addr = (if addr < AUTOIP_RANGE_START then addr + (AUTOIP_RANGE_END - AUTOIP_RANGE_START + 1) else addr);
          addr = (if addr > AUTOIP_RANGE_END then addr - (AUTOIP_RANGE_END - AUTOIP_RANGE_START + 1) else addr)
      in do { lwip_assert (addr \<ge> AUTOIP_RANGE_START \<and> addr \<le> AUTOIP_RANGE_END); Some (lwip_htonl addr) })"

definition zero_autoip :: "nat \<Rightarrow> autoip" where
  "zero_autoip a = \<lparr>llipaddr = 0, autoip_state = AUTOIP_STATE_OFF, tried_llipaddr = 0, autoip_acd = a\<rparr>"

definition zero_acd :: acd where
  "zero_acd = \<lparr>acd_next = 0, acd_ipaddr = 0, acd_state = ACD_STATE_OFF, sent_num = 0, ttw = 0, lastconflict = 0,
               num_conflicts = 0, acd_conflict_callback = 0\<rparr>"

text \<open>The structure at the address \<open>a\<close>, cleared, becomes the client of the interface \<open>n\<close>; its \<^verbatim>\<open>struct acd\<close> lies at offset
  8.\<close>

definition attach_autoip :: "nat \<Rightarrow> nat \<Rightarrow> eth_state \<Rightarrow> eth_state" where
  "attach_autoip n a s =
     s\<lparr>acds := (acds s)(a + 8 \<mapsto> zero_acd),
       ip_st := (ip_st s)\<lparr>autoip_data := (autoip_data (ip_st s))(n \<mapsto> zero_autoip (a + 8))\<rparr>\<rparr>"

definition autoip_set_struct :: "nat \<Rightarrow> nat \<Rightarrow> eth_state \<Rightarrow> eth_state option" where
  "autoip_set_struct n a s =
     do { lwip_assert (n \<noteq> 0);
          lwip_assert (a \<noteq> 0);
          lwip_assert (autoip_data (ip_st s) n = None);
          Some (attach_autoip n a s) }"

definition autoip_remove_struct :: "nat \<Rightarrow> eth_state \<Rightarrow> eth_state option" where
  "autoip_remove_struct n s =
     do { lwip_assert (n \<noteq> 0);
          lwip_assert (autoip_data (ip_st s) n \<noteq> None);
          Some (s\<lparr>ip_st := (ip_st s)\<lparr>autoip_data := (autoip_data (ip_st s))(n := None)\<rparr>\<rparr>) }"

text \<open>The address of the function \<^verbatim>\<open>autoip_conflict_callback\<close> is the parameter \<open>cb\<close>.\<close>

definition autoip_start :: "eth_env \<Rightarrow> nat \<Rightarrow> nat \<Rightarrow> eth_state \<Rightarrow> (err_t \<times> eth_state) option" where
  "autoip_start e cb n s =
     do { nif \<leftarrow> netifs s n;
          if \<not> netif_is_up nif then Some (ERR_ARG, s)
          else
            do { (err, s) \<leftarrow>
                   (if autoip_data (ip_st s) n = None then
                      do { (a, h) \<leftarrow> mem_malloc (pb_env e) 28 (eth_heap s);
                           let s = s\<lparr>eth_heap := h\<rparr>
                           in Some (if a = 0 then (ERR_MEM, s)
                                    else (ERR_OK, attach_autoip n a s)) }
                    else Some (ERR_OK, s));
                 if err \<noteq> ERR_OK then Some (err, s)
                 else
                   do { ai \<leftarrow> autoip_data (ip_st s) n;
                        if autoip_state ai = AUTOIP_STATE_OFF then
                          do { (_, s) \<leftarrow> acd_add n (autoip_acd ai) cb s;
                               addr \<leftarrow> (if \<not> ip4_addr_islinklocal (llipaddr ai)
                                        then autoip_create_addr nif (tried_llipaddr ai) else Some (llipaddr ai));
                               s \<leftarrow> upd_autoip n (\<lambda>ai. ai\<lparr>llipaddr := addr, autoip_state := AUTOIP_STATE_CHECKING\<rparr>) s;
                               (_, s) \<leftarrow> acd_start e n (autoip_acd ai) addr s;
                               Some (ERR_OK, s) }
                        else Some (ERR_OK, s) } } }"

definition autoip_restart :: "eth_env \<Rightarrow> nat \<Rightarrow> nat \<Rightarrow> eth_state \<Rightarrow> eth_state option" where
  "autoip_restart e cb n s =
     do { s \<leftarrow> upd_autoip n (\<lambda>ai. ai\<lparr>tried_llipaddr := tried_llipaddr ai + 1\<rparr>) s;
          (_, s) \<leftarrow> autoip_start e cb n s;
          Some s }"

definition autoip_bind :: "eth_env \<Rightarrow> nat \<Rightarrow> eth_state \<Rightarrow> (err_t \<times> eth_state) option" where
  "autoip_bind e n s =
     do { s \<leftarrow> upd_autoip n (\<lambda>ai. ai\<lparr>autoip_state := AUTOIP_STATE_BOUND\<rparr>) s;
          ai \<leftarrow> autoip_data (ip_st s) n;
          s \<leftarrow> netif_set_addr e n (llipaddr ai) 0x0000FFFF 0 s;
          Some (ERR_OK, s) }"

definition autoip_stop :: "eth_env \<Rightarrow> nat \<Rightarrow> eth_state \<Rightarrow> (err_t \<times> eth_state) option" where
  "autoip_stop e n s =
     (if autoip_data (ip_st s) n \<noteq> None then
        do { s \<leftarrow> upd_autoip n (\<lambda>ai. ai\<lparr>autoip_state := AUTOIP_STATE_OFF\<rparr>) s;
             nif \<leftarrow> netifs s n;
             s \<leftarrow> (if ip4_addr_islinklocal (ip_addr nif) then netif_set_addr e n 0 0 0 s else Some s);
             Some (ERR_OK, s) }
      else Some (ERR_OK, s))"

definition autoip_conflict_callback ::
    "eth_env \<Rightarrow> nat \<Rightarrow> nat \<Rightarrow> acd_callback_enum_t \<Rightarrow> eth_state \<Rightarrow> eth_state option" where
  "autoip_conflict_callback e cb n v s =
     (case v of
        ACD_IP_OK \<Rightarrow> do { (_, s) \<leftarrow> autoip_bind e n s; Some s }
      | ACD_RESTART_CLIENT \<Rightarrow> autoip_restart e cb n s
      | ACD_DECLINE \<Rightarrow>
          do { s \<leftarrow> upd_autoip n (\<lambda>ai. ai\<lparr>llipaddr := 0, tried_llipaddr := tried_llipaddr ai + 1\<rparr>) s;
               (_, s) \<leftarrow> autoip_stop e n s;
               Some s })"

text \<open>With \<^verbatim>\<open>LWIP_DHCP_AUTOIP_COOP\<close> the link coming up does nothing here.\<close>

definition autoip_network_changed_link_up :: "nat \<Rightarrow> eth_state \<Rightarrow> eth_state" where
  "autoip_network_changed_link_up n s = s"

definition autoip_network_changed_link_down :: "eth_env \<Rightarrow> nat \<Rightarrow> eth_state \<Rightarrow> eth_state option" where
  "autoip_network_changed_link_down e n s =
     (case autoip_data (ip_st s) n of
        None \<Rightarrow> Some s
      | Some ai \<Rightarrow>
          if autoip_state ai \<noteq> AUTOIP_STATE_OFF then do { (_, s) \<leftarrow> autoip_stop e n s; Some s } else Some s)"

definition autoip_supplied_address :: "nat \<Rightarrow> eth_state \<Rightarrow> bool option" where
  "autoip_supplied_address n s =
     (case autoip_data (ip_st s) n of
        None \<Rightarrow> Some False
      | Some ai \<Rightarrow> do { nif \<leftarrow> netifs s n; Some (ip_addr nif = llipaddr ai \<and> autoip_state ai = AUTOIP_STATE_BOUND) })"

definition autoip_accept_packet :: "nat \<Rightarrow> u32 \<Rightarrow> eth_state \<Rightarrow> bool" where
  "autoip_accept_packet n addr s \<longleftrightarrow>
     (case autoip_data (ip_st s) n of
        None \<Rightarrow> False
      | Some a \<Rightarrow> addr = llipaddr a \<and> autoip_state a = AUTOIP_STATE_BOUND)"

section \<open>Interface states\<close>

definition netif_set_default :: "nat \<Rightarrow> eth_state \<Rightarrow> eth_state" where
  "netif_set_default n s = s\<lparr>netif_default := n\<rparr>"

definition netif_set_up :: "eth_env \<Rightarrow> nat \<Rightarrow> eth_state \<Rightarrow> eth_state option" where
  "netif_set_up e n s =
     (if n = 0 then Some s
      else
        do { nif \<leftarrow> netifs s n;
             if netif_flags nif AND NETIF_FLAG_UP = 0 then
               do { s \<leftarrow> upd_netif n (\<lambda>nif. nif\<lparr>netif_flags := netif_flags nif OR NETIF_FLAG_UP\<rparr>) s;
                    s \<leftarrow> netif_invoke_ext_callback e n LWIP_NSC_STATUS_CHANGED (Args_Status 1) s;
                    netif_issue_reports e n s }
             else Some s })"

definition netif_set_down :: "eth_env \<Rightarrow> nat \<Rightarrow> eth_state \<Rightarrow> eth_state option" where
  "netif_set_down e n s =
     (if n = 0 then Some s
      else
        do { nif \<leftarrow> netifs s n;
             if netif_flags nif AND NETIF_FLAG_UP \<noteq> 0 then
               do { s \<leftarrow> netif_invoke_ext_callback e n LWIP_NSC_STATUS_CHANGED (Args_Status 0) s;
                    s \<leftarrow> upd_netif n (\<lambda>nif. nif\<lparr>netif_flags := netif_flags nif AND NOT NETIF_FLAG_UP\<rparr>) s;
                    nif \<leftarrow> netifs s n;
                    if netif_flags nif AND NETIF_FLAG_ETHARP \<noteq> 0 then etharp_cleanup_netif e n s else Some s }
             else Some s })"

definition netif_set_link_up :: "eth_env \<Rightarrow> nat \<Rightarrow> eth_state \<Rightarrow> eth_state option" where
  "netif_set_link_up e n s =
     (if n = 0 then Some s
      else
        do { nif \<leftarrow> netifs s n;
             if netif_flags nif AND NETIF_FLAG_LINK_UP = 0 then
               do { s \<leftarrow> upd_netif n (\<lambda>nif. nif\<lparr>netif_flags := netif_flags nif OR NETIF_FLAG_LINK_UP\<rparr>) s;
                    s \<leftarrow> call_dhcp_network_changed_link_up e n s;
                    s \<leftarrow> netif_issue_reports e n (autoip_network_changed_link_up n s);
                    netif_invoke_ext_callback e n LWIP_NSC_LINK_CHANGED (Args_Link 1) s }
             else Some s })"

definition netif_set_link_down :: "eth_env \<Rightarrow> nat \<Rightarrow> eth_state \<Rightarrow> eth_state option" where
  "netif_set_link_down e n s =
     (if n = 0 then Some s
      else
        do { nif \<leftarrow> netifs s n;
             if netif_flags nif AND NETIF_FLAG_LINK_UP \<noteq> 0 then
               do { s \<leftarrow> upd_netif n (\<lambda>nif. nif\<lparr>netif_flags := netif_flags nif AND NOT NETIF_FLAG_LINK_UP\<rparr>) s;
                    s \<leftarrow> autoip_network_changed_link_down e n s;
                    s \<leftarrow> acd_network_changed_link_down n s;
                    netif_invoke_ext_callback e n LWIP_NSC_LINK_CHANGED (Args_Link 0) s }
             else Some s })"

definition netif_remove :: "eth_env \<Rightarrow> nat \<Rightarrow> eth_state \<Rightarrow> eth_state option" where
  "netif_remove e n s =
     (if n = 0 then Some s
      else
        do { s \<leftarrow> netif_invoke_ext_callback e n LWIP_NSC_NETIF_REMOVED Args_None s;
             nif \<leftarrow> netifs s n;
             s \<leftarrow> (if \<not> ip4_addr_isany (ip_addr nif) then netif_do_ip_addr_changed e (ip_addr nif) None s else Some s);
             nif \<leftarrow> netifs s n;
             s \<leftarrow> (if netif_flags nif AND NETIF_FLAG_IGMP \<noteq> 0 then do { (_, s) \<leftarrow> igmp_stop e n s; Some s } else Some s);
             nif \<leftarrow> netifs s n;
             s \<leftarrow> (if netif_is_up nif then netif_set_down e n s else Some s);
             Some (if netif_default s = n then netif_set_default 0 s else s) })"

end
