(* ===== verification/Ip4_Input.thy ===== *)
theory Ip4_Input
  imports Ip4_Reass Netif
begin

text \<open>
  The receiving half of \<^verbatim>\<open>src/lwip/ipv4/ip4.c\<close>: a packet is checked, matched against the interface,
  reassembled and passed to the protocol above. With it the parameter \<open>call_ip4_input\<close> of the link layer is
  instantiated (\<open>stack\<close>), so that \<^verbatim>\<open>ethernet_input\<close> stands for the whole receiving path.
\<close>

abbreviation (input) LWIP_IANA_PORT_DHCP_CLIENT :: u16 where "LWIP_IANA_PORT_DHCP_CLIENT \<equiv> 68"

definition ip4_input_accept :: "nat \<Rightarrow> netif \<Rightarrow> u32 \<Rightarrow> eth_state \<Rightarrow> bool" where
  "ip4_input_accept n nif dest s \<longleftrightarrow>
     netif_is_up nif \<and> \<not> ip4_addr_isany (ip_addr nif) \<and>
     (dest = ip_addr nif \<or> ip4_addr_isbroadcast_u32 dest nif \<or> autoip_accept_packet n dest s)"

text \<open>The header checks: the packet is for an IPv4 header that lies in the first buffer and
  whose checksum is right.\<close>

definition ip4_header_ok :: "heap \<Rightarrow> pbuf \<Rightarrow> bool" where
  "ip4_header_ok h b \<longleftrightarrow>
     (let m = bytes h; iphdr = payload b; hlen = (ucast (IPH_HL_BYTES m iphdr) :: u16);
          iphdr_len = lwip_htons (IPH_LEN m iphdr)
      in \<not> (hlen > len b \<or> iphdr_len > tot_len b \<or> hlen < 20) \<and> inet_chksum m iphdr hlen = 0)"

text \<open>The interface that accepts the packet, 0 for none, and whether its source is to be checked.\<close>

definition ip4_match :: "nat \<Rightarrow> netif \<Rightarrow> u32 \<Rightarrow> u32 \<Rightarrow> nat \<Rightarrow> u16 \<Rightarrow> eth_state \<Rightarrow> (nat \<times> bool) option" where
  "ip4_match inp nif src dest iphdr hlen s =
     do { (n, check_ip_src) \<leftarrow>
            (if ip4_addr_ismulticast dest then
               do { g \<leftarrow> (if netif_flags nif AND NETIF_FLAG_IGMP \<noteq> 0 then igmp_lookfor_group inp dest s else Some 0);
                    Some (if g \<noteq> 0 then (inp, \<not> (dest = allsystems \<and> ip4_addr_isany src)) else (0, True)) }
             else Some (if ip4_input_accept inp nif dest s then inp else 0, True));
          let m = bytes (eth_heap s)
          in Some (if n = 0 \<and> IPH_PROTO m iphdr = IP_PROTO_UDP \<and>
                      load16 m (iphdr + unat hlen + 2) = PP_HTONS LWIP_IANA_PORT_DHCP_CLIENT
                   then (inp, False) else (n, check_ip_src)) }"

definition set_ip_data :: "ip_globals \<Rightarrow> eth_state \<Rightarrow> eth_state" where
  "set_ip_data g s = s\<lparr>ip_st := (ip_st s)\<lparr>ip_data := g\<rparr>\<rparr>"

definition no_packet :: ip_globals where
  "no_packet = \<lparr>current_netif = 0, current_input_netif = 0, current_ip4_header = 0, current_ip_header_tot_len = 0,
                current_iphdr_src = 0, current_iphdr_dest = 0\<rparr>"

text \<open>The packet goes to the raw control blocks and to its protocol.\<close>

definition ip4_deliver :: "eth_env \<Rightarrow> nat \<Rightarrow> nat \<Rightarrow> nat \<Rightarrow> u16 \<Rightarrow> eth_state \<Rightarrow> eth_state option" where
  "ip4_deliver e p inp iphdr iphdr_hlen s =
     do { (raw_status, s) \<leftarrow> raw_input e p inp s;
          if raw_status = RAW_INPUT_EATEN then Some s
          else
            do { (_, h) \<leftarrow> pbuf_remove_header p (unat iphdr_hlen) (eth_heap s);
                 let s = s\<lparr>eth_heap := h\<rparr>; proto = IPH_PROTO (bytes h) iphdr;
                     dest = current_iphdr_dest (ip_data (ip_st s))
                 in if proto = IP_PROTO_UDP then udp_input e p inp s
                    else if proto = IP_PROTO_TCP then call_tcp_input e p inp s
                    else if proto = IP_PROTO_ICMP then icmp_input e p inp s
                    else if proto = IP_PROTO_IGMP then igmp_input e p inp dest s
                    else
                      do { cur \<leftarrow> netifs s (current_netif (ip_data (ip_st s)));
                           s \<leftarrow>
                             (if raw_status \<noteq> RAW_INPUT_DELIVERED \<and> \<not> ip4_addr_isbroadcast_u32 dest cur \<and>
                                 \<not> ip4_addr_ismulticast dest then
                                do { (_, h) \<leftarrow> pbuf_header_force p (int (unat iphdr_hlen)) (eth_heap s);
                                     icmp_dest_unreach e p ICMP_DUR_PROTO (s\<lparr>eth_heap := h\<rparr>) }
                              else Some s);
                           eth_pbuf_free e p s } } }"

text \<open>From the end of the checks on: fragments are reassembled, and a complete packet is delivered.\<close>

definition ip4_accept :: "eth_env \<Rightarrow> nat \<Rightarrow> nat \<Rightarrow> nat \<Rightarrow> u16 \<Rightarrow> eth_state \<Rightarrow> eth_state option" where
  "ip4_accept e p n inp iphdr_hlen s =
     do { b \<leftarrow> pbufs (eth_heap s) p;
          (p, s) \<leftarrow> (if IPH_OFFSET (bytes (eth_heap s)) (payload b) AND PP_HTONS (IP_OFFMASK OR IP_MF) \<noteq> 0
                     then ip4_reass e p s else Some (p, s));
          if p = 0 then Some s
          else
            do { b \<leftarrow> pbufs (eth_heap s) p;
                 let iphdr = payload b;
                     s = set_ip_data ((ip_data (ip_st s))\<lparr>current_netif := n, current_input_netif := inp,
                           current_ip4_header := iphdr,
                           current_ip_header_tot_len := ucast (IPH_HL_BYTES (bytes (eth_heap s)) iphdr)\<rparr>) s
                 in do { s \<leftarrow> ip4_deliver e p inp iphdr iphdr_hlen s; Some (set_ip_data no_packet s) } } }"

definition ip4_input :: "eth_env \<Rightarrow> nat \<Rightarrow> nat \<Rightarrow> eth_state \<Rightarrow> eth_state option" where
  "ip4_input e p inp s =
     do { b \<leftarrow> pbufs (eth_heap s) p;
          let m = bytes (eth_heap s); iphdr = payload b;
              iphdr_hlen = (ucast (IPH_HL_BYTES m iphdr) :: u16); iphdr_len = lwip_htons (IPH_LEN m iphdr)
          in if IPH_V m iphdr \<noteq> 4 then eth_pbuf_free e p s
             else
               do { h \<leftarrow> (if iphdr_len < tot_len b then pbuf_realloc (pb_env e) p iphdr_len (eth_heap s)
                          else Some (eth_heap s));
                    b \<leftarrow> pbufs h p;
                    let s = s\<lparr>eth_heap := h\<rparr>
                    in if \<not> ip4_header_ok h b then eth_pbuf_free e p s
                       else
                         do { nif \<leftarrow> netifs s inp;
                              let dest = load32 (bytes h) (iphdr + 16); src = load32 (bytes h) (iphdr + 12);
                                  s = set_ip_data ((ip_data (ip_st s))\<lparr>current_iphdr_dest := dest,
                                        current_iphdr_src := src\<rparr>) s
                              in do { (n, check_ip_src) \<leftarrow> ip4_match inp nif src dest iphdr iphdr_hlen s;
                                      if check_ip_src \<and> \<not> ip4_addr_isany src \<and>
                                         (ip4_addr_isbroadcast_u32 src nif \<or> ip4_addr_ismulticast src) then
                                        eth_pbuf_free e p s
                                      else if n = 0 then eth_pbuf_free e p s
                                      else ip4_accept e p n inp iphdr_hlen s } } } }"

text \<open>The environment of the link layer with the IP layer of this development.\<close>

definition stack :: "eth_env \<Rightarrow> eth_env" where
  "stack e = e\<lparr>call_ip4_input := ip4_input e\<rparr>"

end
