(* ===== verification/Record_List.thy ===== *)
theory Record_List
  imports Lwip_Prelude
begin

text \<open>
  Linked lists of structures. The stack keeps its control blocks, groups and listeners in lists that run
  through a member \<^verbatim>\<open>next\<close> of the structures themselves. The locale fixes that member by its reader \<open>nxt\<close> and its
  writer \<open>with_nxt\<close>; a map gives the structures by address. Its lemmas say how a list changes when a structure is
  pushed to the front, taken out or written elsewhere.
\<close>

locale record_list =
  fixes nxt :: "'r \<Rightarrow> nat" and with_nxt :: "nat \<Rightarrow> 'r \<Rightarrow> 'r"
  assumes nxt_with [simp]: "nxt (with_nxt n r) = n"
begin

fun on :: "(nat \<rightharpoonup> 'r) \<Rightarrow> nat \<Rightarrow> nat list \<Rightarrow> bool" where
  "on m p [] \<longleftrightarrow> p = 0"
| "on m p (a # as) \<longleftrightarrow> p = a \<and> a \<noteq> 0 \<and> (\<exists>r. m a = Some r \<and> on m (nxt r) as)"

lemma on_lchain: "on m p as \<longleftrightarrow> lchain (\<lambda>a. nxt (the (m a))) p as \<and> set as \<subseteq> dom m"
  by (induction as arbitrary: p) auto

lemma on_null [simp]: "on m 0 as \<longleftrightarrow> as = []"
  by (cases as) auto

lemma on_distinct: "on m p as \<Longrightarrow> distinct as"
  using lchain_distinct by (auto simp: on_lchain)

lemma on_member: "on m p as \<Longrightarrow> a \<in> set as \<Longrightarrow> a \<noteq> 0 \<and> (\<exists>r. m a = Some r)"
  by (induction as arbitrary: p) auto

lemma on_functional: "on m p as \<Longrightarrow> on m p bs \<Longrightarrow> as = bs"
  using lchain_functional by (auto simp: on_lchain)

text \<open>Only the links of the members matter.\<close>

lemma on_cong:
  assumes "\<And>a. a \<in> set as \<Longrightarrow> map_option nxt (m' a) = map_option nxt (m a)"
  shows "on m' p as = on m p as"
  using assms
proof (induction as arbitrary: p)
  case (Cons a as)
  then have "map_option nxt (m' a) = map_option nxt (m a)" by simp
  moreover have "on m' q as = on m q as" for q using Cons by simp
  ultimately show ?case by (cases "m a"; cases "m' a") auto
qed simp

lemma on_other [simp]: "a \<notin> set as \<Longrightarrow> on (m(a := x)) p as = on m p as"
  by (rule on_cong) auto

lemma on_other_if [simp]: "a \<notin> set as \<Longrightarrow> on (\<lambda>b. if b = a then x else m b) p as = on m p as"
  by (rule on_cong) auto

lemma on_write: "m a = Some r \<Longrightarrow> nxt r' = nxt r \<Longrightarrow> on (m(a \<mapsto> r')) p as = on m p as"
  by (rule on_cong) auto

lemma on_push:
  assumes "on m p as" "a \<notin> set as" "a \<noteq> 0"
  shows "on (m(a \<mapsto> with_nxt p r)) a (a # as)"
  using assms by simp

lemma on_tail: "on m p (a # as) \<Longrightarrow> m a = Some r \<Longrightarrow> on (m(a := x)) (nxt r) as"
  using on_distinct [of m p "a # as"] by auto

lemma on_append: "on m p (as @ a # bs) \<Longrightarrow> on m a (a # bs)"
  by (induction as arbitrary: p) auto

text \<open>Taking out the successor \<open>a\<close> of \<open>b\<close>.\<close>

lemma on_unlink:
  assumes "on m p (as @ b # a # bs)" "m b = Some rb" "m a = Some ra"
  shows "on (m(b \<mapsto> with_nxt (nxt ra) rb)) p (as @ b # bs)"
  using assms
proof (induction as arbitrary: p)
  case Nil
  then show ?case using on_distinct [OF Nil.prems(1)] by auto
next
  case (Cons c as)
  have "c \<noteq> b" using on_distinct [OF Cons.prems(1)] by auto
  then show ?case using Cons by auto
qed

text \<open>Moving the successor \<open>a\<close> of \<open>b\<close> to the front.\<close>

lemma on_to_front:
  assumes "on m p (as @ b # a # bs)" "m b = Some rb" "m a = Some ra"
  shows "on (m(b \<mapsto> with_nxt (nxt ra) rb, a \<mapsto> with_nxt p ra)) a (a # as @ b # bs)"
proof (rule on_push)
  show "on (m(b \<mapsto> with_nxt (nxt ra) rb)) p (as @ b # bs)" by (rule on_unlink [OF assms])
  show "a \<notin> set (as @ b # bs)" using on_distinct [OF assms(1)] by auto
  show "a \<noteq> 0" using on_member [OF assms(1), of a] by simp
qed

end

end
