(* ===== verification/Udp_Props.thy ===== *)
theory Udp_Props
  imports Udp Record_List Eth_Example
begin

text \<open>
  The control blocks of UDP: the list they are kept in, the ports they are bound to, and which of them gets a
  datagram.
\<close>

interpretation pcbs: record_list udp_next "\<lambda>n r. r\<lparr>udp_next := n\<rparr>"
  by unfold_locales simp

section \<open>The loops over the list\<close>

abbreviation (input) pcb_of :: "eth_state \<Rightarrow> nat \<Rightarrow> udp_pcb" where
  "pcb_of s c \<equiv> the (udp_pcb_at (ip_st s) c)"

lemma udp_on_list_spec: "pcbs.on (udp_pcb_at (ip_st s)) p cs \<Longrightarrow> udp_on_list c p s = Some (c \<in> set cs)"
proof (induction cs arbitrary: p)
  case (Cons a cs)
  then show ?case by (subst udp_on_list.simps) auto
qed (simp add: udp_on_list.simps)

lemma udp_port_used_spec:
  "pcbs.on (udp_pcb_at (ip_st s)) p cs \<Longrightarrow> udp_port_used port p s = Some (\<exists>c \<in> set cs. local_port (pcb_of s c) = port)"
proof (induction cs arbitrary: p)
  case (Cons a cs)
  then show ?case by (subst udp_port_used.simps) auto
qed (simp add: udp_port_used.simps)

text \<open>Two blocks that may not both be bound, unless both allow it.\<close>

definition udp_conflict :: "bool \<Rightarrow> u32 \<Rightarrow> u16 \<Rightarrow> udp_pcb \<Rightarrow> bool" where
  "udp_conflict reuse ipaddr port pcb \<longleftrightarrow>
     (\<not> reuse \<or> so_options pcb AND SOF_REUSEADDR = 0) \<and> local_port pcb = port \<and>
     (local_ip pcb = ipaddr \<or> ip4_addr_isany ipaddr \<or> ip4_addr_isany (local_ip pcb))"

lemma udp_bind_conflict_spec:
  "pcbs.on (udp_pcb_at (ip_st s)) p cs \<Longrightarrow>
   udp_bind_conflict c reuse ipaddr port p s = Some (\<exists>b \<in> set cs - {c}. udp_conflict reuse ipaddr port (pcb_of s b))"
proof (induction cs arbitrary: p)
  case (Cons a cs)
  then obtain r where r: "p = a" "a \<noteq> 0" "udp_pcb_at (ip_st s) a = Some r" "pcbs.on (udp_pcb_at (ip_st s)) (udp_next r) cs" by auto
  then have "udp_bind_conflict c reuse ipaddr port p s =
      (if c \<noteq> a \<and> udp_conflict reuse ipaddr port r then Some True else udp_bind_conflict c reuse ipaddr port (udp_next r) s)"
    by (subst udp_bind_conflict.simps) (simp add: udp_conflict_def)
  also have "\<dots> = Some (\<exists>b \<in> set (a # cs) - {c}. udp_conflict reuse ipaddr port (pcb_of s b))" using Cons.IH [OF r(4)] r(3) by (cases "c = a") (auto intro: bexI [of _ a])
  finally show ?case .
qed (simp add: udp_bind_conflict.simps)

section \<open>The invariant\<close>

text \<open>The blocks are the allocated elements of their pool; those that have a port are on the list, and only those.\<close>

definition udp_wf :: "eth_state \<Rightarrow> nat list \<Rightarrow> bool" where
  "udp_wf s cs \<longleftrightarrow>
     pcbs.on (udp_pcb_at (ip_st s)) (udp_pcbs (ip_st s)) cs \<and>
     pool.holds (pools (eth_heap s) MEMP_UDP_PCB) (dom (udp_pcb_at (ip_st s))) \<and>
     UDP_LOCAL_PORT_RANGE_START \<le> udp_port (ip_st s) \<and>
     (\<forall>c pcb. udp_pcb_at (ip_st s) c = Some pcb \<longrightarrow> (local_port pcb \<noteq> 0 \<longleftrightarrow> c \<in> set cs))"

definition reuse_of :: "udp_pcb \<Rightarrow> bool" where
  "reuse_of pcb \<longleftrightarrow> so_options pcb AND SOF_REUSEADDR \<noteq> 0"

definition ports_exclusive :: "eth_state \<Rightarrow> nat list \<Rightarrow> bool" where
  "ports_exclusive s cs \<longleftrightarrow>
     (\<forall>b \<in> set cs. \<forall>c \<in> set cs. b \<noteq> c \<longrightarrow>
        \<not> udp_conflict (reuse_of (pcb_of s b)) (local_ip (pcb_of s b)) (local_port (pcb_of s b)) (pcb_of s c))"

lemma udp_wfD:
  assumes "udp_wf s cs"
  shows "pcbs.on (udp_pcb_at (ip_st s)) (udp_pcbs (ip_st s)) cs"
    "pool.holds (pools (eth_heap s) MEMP_UDP_PCB) (dom (udp_pcb_at (ip_st s)))" "UDP_LOCAL_PORT_RANGE_START \<le> udp_port (ip_st s)"
    "\<And>c pcb. udp_pcb_at (ip_st s) c = Some pcb \<Longrightarrow> local_port pcb \<noteq> 0 \<longleftrightarrow> c \<in> set cs"
    "udp_pcb_at (ip_st s) 0 = None" "distinct cs"
proof -
  show "pcbs.on (udp_pcb_at (ip_st s)) (udp_pcbs (ip_st s)) cs"
    "pool.holds (pools (eth_heap s) MEMP_UDP_PCB) (dom (udp_pcb_at (ip_st s)))" "UDP_LOCAL_PORT_RANGE_START \<le> udp_port (ip_st s)"
    "\<And>c pcb. udp_pcb_at (ip_st s) c = Some pcb \<Longrightarrow> local_port pcb \<noteq> 0 \<longleftrightarrow> c \<in> set cs"
    using assms by (auto simp: udp_wf_def)
  then have "dom (udp_pcb_at (ip_st s)) \<subseteq> pool_elems (pools (eth_heap s) MEMP_UDP_PCB)" "pool_inv (pools (eth_heap s) MEMP_UDP_PCB)"
    by (auto simp: pool.holds_def)
  then have "0 \<notin> dom (udp_pcb_at (ip_st s))" using pool.elems_nonnull by blast
  then show "udp_pcb_at (ip_st s) 0 = None" by auto
  show "distinct cs" by (rule pcbs.on_distinct) fact
qed

section \<open>Local ports\<close>

text \<open>The port that is tried after \<open>i\<close> steps from \<open>q\<close>.\<close>

definition rot :: "u16 \<Rightarrow> nat \<Rightarrow> u16" where
  "rot q i = word_of_nat (0xC000 + (unat q - 0xC000 + i) mod 0x4000)"

lemma unat_rot: "unat (rot q i) = 0xC000 + (unat q - 0xC000 + i) mod 0x4000"
proof -
  have "0xC000 + (unat q - 0xC000 + i) mod 0x4000 < 0x10000" using mod_less_divisor [of "0x4000" "unat q - 0xC000 + i"] by simp
  then show ?thesis unfolding rot_def by (simp add: unsigned_of_nat take_bit_nat_eq_self del: of_nat_add)
qed

lemma rot_rot: "rot (rot q i) j = rot q (i + j)"
  unfolding rot_def [of "rot q i"] rot_def [of q "i + j"] unat_rot by (simp add: mod_add_left_eq add.assoc)

lemma rot_range: "UDP_LOCAL_PORT_RANGE_START \<le> rot q i"
  by (simp add: word_le_nat_alt unat_rot)

lemma rot_next:
  assumes "UDP_LOCAL_PORT_RANGE_START \<le> q"
  shows "(if q = UDP_LOCAL_PORT_RANGE_END then UDP_LOCAL_PORT_RANGE_START else q + 1) = rot q 1"
proof -
  have lo: "0xC000 \<le> unat q" "unat q < 0x10000" using assms by (simp_all add: word_le_nat_alt)
  show ?thesis
  proof (cases "q = 0xffff")
    case True
    then show ?thesis by (simp add: rot_def)
  next
    case False
    then have "unat q \<noteq> unat (0xffff :: u16)" by (simp add: word_unat_eq_iff)
    then have "unat q < 0xffff" using lo(2) by (simp, linarith)
    then have "unat (q + 1) = unat q + 1" "unat q - 0xC000 + 1 < 0x4000" using lo(1) by (simp add: unat_word_ariths, linarith)
    then have "unat (q + 1) = unat (rot q 1)" using lo unfolding unat_rot by simp
    then show ?thesis using False by (simp add: word_unat_eq_iff)
  qed
qed

lemma rot_covers:
  assumes "UDP_LOCAL_PORT_RANGE_START \<le> p"
  shows "\<exists>i \<in> {1..0x4000}. rot q i = p"
proof -
  have lo: "0xC000 \<le> unat p" "unat p < 0x10000" using assms by (simp_all add: word_le_nat_alt)
  let ?d = "(unat q - 0xC000) mod 0x4000" and ?t = "unat p - 0xC000"
  define i where "i = (if ?d < ?t then ?t - ?d else ?t + 0x4000 - ?d)"
  have d: "?d < 0x4000" "?t < 0x4000" using lo by (simp, linarith)
  have "(unat q - 0xC000 + i) mod 0x4000 = (?d + i) mod 0x4000" by (simp add: mod_add_left_eq)
  also have "\<dots> = ?t" using d by (auto simp: i_def)
  finally have "unat (rot q i) = unat p" using lo by (simp add: unat_rot)
  moreover have "i \<in> {1..0x4000}" using d by (auto simp: i_def)
  ultimately show ?thesis by (metis word_unat_eq_iff)
qed

abbreviation (input) with_port :: "u16 \<Rightarrow> eth_state \<Rightarrow> eth_state" where
  "with_port q s \<equiv> s\<lparr>ip_st := (ip_st s)\<lparr>udp_port := q\<rparr>\<rparr>"

lemma udp_new_port_loop_step:
  assumes "pcbs.on (udp_pcb_at (ip_st s)) (udp_pcbs (ip_st s)) cs" "UDP_LOCAL_PORT_RANGE_START \<le> udp_port (ip_st s)"
  shows "udp_new_port_loop n s =
     (let q = rot (udp_port (ip_st s)) 1
      in if \<exists>c \<in> set cs. local_port (pcb_of s c) = q then
           (if n + 1 > 0x3FFF then Some (0, with_port q s) else udp_new_port_loop (n + 1) (with_port q s))
         else Some (q, with_port q s))"
proof -
  let ?q = "rot (udp_port (ip_st s)) 1"
  have "udp_port_used ?q (udp_pcbs (ip_st s)) (with_port ?q s) = Some (\<exists>c \<in> set cs. local_port (pcb_of s c) = ?q)"
    using udp_port_used_spec [of "with_port ?q s" "udp_pcbs (ip_st s)" cs ?q] assms(1) by simp
  then show ?thesis by (subst udp_new_port_loop.simps) (simp add: rot_next [OF assms(2)] Let_def)
qed

lemma udp_new_port_loop_spec:
  assumes "pcbs.on (udp_pcb_at (ip_st s)) (udp_pcbs (ip_st s)) cs" "UDP_LOCAL_PORT_RANGE_START \<le> udp_port (ip_st s)"
    "unat n + k = 0x4000" "0 < k"
  shows "\<exists>p u. udp_new_port_loop n s = Some (p, with_port u s) \<and> UDP_LOCAL_PORT_RANGE_START \<le> u \<and>
     (p = 0 \<longrightarrow> (\<forall>i \<in> {1..k}. \<exists>c \<in> set cs. local_port (pcb_of s c) = rot (udp_port (ip_st s)) i)) \<and>
     (p \<noteq> 0 \<longrightarrow> p = u \<and> (\<forall>c \<in> set cs. local_port (pcb_of s c) \<noteq> p))"
  using assms
proof (induction k arbitrary: n s)
  case (Suc k)
  define q where "q = rot (udp_port (ip_st s)) 1"
  have q: "UDP_LOCAL_PORT_RANGE_START \<le> q" "q \<noteq> 0" using rot_range [of "udp_port (ip_st s)" 1] by (auto simp: q_def)
  have n: "unat (n + 1) = unat n + 1" "n + 1 > 0x3FFF \<longleftrightarrow> k = 0" using Suc.prems(3) by (simp_all add: word_less_nat_alt unat_word_ariths, linarith)
  note st = udp_new_port_loop_step [OF Suc.prems(1,2), of n, folded q_def, unfolded Let_def n(2)]
  consider (free) "\<forall>c \<in> set cs. local_port (pcb_of s c) \<noteq> q" | (last_one) "\<exists>c \<in> set cs. local_port (pcb_of s c) = q" "k = 0"
    | (more) "\<exists>c \<in> set cs. local_port (pcb_of s c) = q" "k \<noteq> 0" by blast
  then show ?case
  proof cases
    case free
    then show ?thesis using st q by (intro exI [of _ q]) simp
  next
    case last_one
    then show ?thesis using st q by (intro exI [of _ 0] exI [of _ q]) (auto simp: q_def)
  next
    case more
    obtain p u where IH: "udp_new_port_loop (n + 1) (with_port q s) = Some (p, with_port u s)" "UDP_LOCAL_PORT_RANGE_START \<le> u"
      "p = 0 \<longrightarrow> (\<forall>i \<in> {1..k}. \<exists>c \<in> set cs. local_port (pcb_of s c) = rot q i)"
      "p \<noteq> 0 \<longrightarrow> p = u \<and> (\<forall>c \<in> set cs. local_port (pcb_of s c) \<noteq> p)"
      using Suc.IH [of "with_port q s" "n + 1"] Suc.prems(1,3) n(1) q(1) more(2) by (simp del: atLeastAtMost_iff) blast
    have "\<exists>c \<in> set cs. local_port (pcb_of s c) = rot (udp_port (ip_st s)) i" if "p = 0" "i \<in> {1..Suc k}" for i
    proof (cases "i = 1")
      case False
      then have "i - 1 \<in> {1..k}" "rot (udp_port (ip_st s)) i = rot q (i - 1)" using that(2) by (auto simp: q_def rot_rot)
      then show ?thesis using IH(3) that(1) by auto
    qed (use more(1) q_def in simp)
    then show ?thesis using st more IH(1,2,4) by (intro exI [of _ p] exI [of _ u]) simp
  qed
qed simp

definition ports_full :: "eth_state \<Rightarrow> nat list \<Rightarrow> bool" where
  "ports_full s cs \<longleftrightarrow> (\<forall>q \<ge> UDP_LOCAL_PORT_RANGE_START. \<exists>c \<in> set cs. local_port (pcb_of s c) = q)"

lemma udp_new_port_spec:
  assumes "udp_wf s cs"
  shows "\<exists>p u. udp_new_port s = Some (p, with_port u s) \<and> UDP_LOCAL_PORT_RANGE_START \<le> u \<and>
     (p = 0 \<longleftrightarrow> ports_full s cs) \<and>
     (p \<noteq> 0 \<longrightarrow> UDP_LOCAL_PORT_RANGE_START \<le> p \<and> (\<forall>c \<in> set cs. local_port (pcb_of s c) \<noteq> p))"
proof -
  obtain p u where r: "udp_new_port s = Some (p, with_port u s)" "UDP_LOCAL_PORT_RANGE_START \<le> u"
    "p = 0 \<longrightarrow> (\<forall>i \<in> {1..0x4000}. \<exists>c \<in> set cs. local_port (pcb_of s c) = rot (udp_port (ip_st s)) i)"
    "p \<noteq> 0 \<longrightarrow> p = u \<and> (\<forall>c \<in> set cs. local_port (pcb_of s c) \<noteq> p)"
    using udp_new_port_loop_spec [where n = 0 and k = "0x4000", OF udp_wfD(1,3) [OF assms]] unfolding udp_new_port_def by (simp del: atLeastAtMost_iff) blast
  have "\<exists>c \<in> set cs. local_port (pcb_of s c) = q" if "p = 0" "UDP_LOCAL_PORT_RANGE_START \<le> q" for q
    using rot_covers [OF that(2), of "udp_port (ip_st s)"] r(3) that(1) by metis
  then show ?thesis using r(1,2,4) unfolding ports_full_def by (intro exI [of _ p] exI [of _ u]) metis
qed

section \<open>Binding\<close>

abbreviation (input) with_pcb :: "nat \<Rightarrow> udp_pcb \<Rightarrow> eth_state \<Rightarrow> eth_state" where
  "with_pcb c pcb s \<equiv> s\<lparr>ip_st := (ip_st s)\<lparr>udp_pcb_at := (udp_pcb_at (ip_st s))(c \<mapsto> pcb)\<rparr>\<rparr>"

text \<open>The block \<open>c\<close>, put in front of the list.\<close>

abbreviation (input) with_front :: "nat \<Rightarrow> udp_pcb \<Rightarrow> eth_state \<Rightarrow> eth_state" where
  "with_front c pcb s \<equiv> s\<lparr>ip_st := (ip_st s)\<lparr>udp_pcb_at := (udp_pcb_at (ip_st s))(c \<mapsto> pcb\<lparr>udp_next := udp_pcbs (ip_st s)\<rparr>),
     udp_pcbs := c\<rparr>\<rparr>"

lemma udp_wf_with_port:
  "UDP_LOCAL_PORT_RANGE_START \<le> u \<Longrightarrow> udp_wf s cs \<Longrightarrow> udp_wf (with_port u s) cs"
  "ports_exclusive (with_port u s) cs = ports_exclusive s cs"
  by (simp_all add: udp_wf_def ports_exclusive_def)

lemma udp_wf_write:
  assumes wf: "udp_wf s cs" and c: "udp_pcb_at (ip_st s) c = Some pcb"
    and same: "udp_next pcb' = udp_next pcb" "local_port pcb' \<noteq> 0 \<longleftrightarrow> local_port pcb \<noteq> 0"
  shows "udp_wf (with_pcb c pcb' s) cs"
proof -
  note w = udp_wfD [OF wf]
  have "dom ((udp_pcb_at (ip_st s))(c \<mapsto> pcb')) = dom (udp_pcb_at (ip_st s))" using c by auto
  moreover have "(local_port p \<noteq> 0) = (a \<in> set cs)" if "((udp_pcb_at (ip_st s))(c \<mapsto> pcb')) a = Some p" for a p
    using w(4) [of a p] w(4) [OF c] that same(2) by (cases "a = c") auto
  ultimately show ?thesis unfolding udp_wf_def using w(1-3) pcbs.on_write [where m = "udp_pcb_at (ip_st s)", OF c same(1)] by simp
qed

lemma udp_wf_front:
  assumes wf: "udp_wf s cs" and c: "udp_pcb_at (ip_st s) c = Some pcb" "c \<notin> set cs" and p: "local_port pcb' \<noteq> 0"
  shows "udp_wf (with_front c pcb' s) (c # cs)"
proof -
  note w = udp_wfD [OF wf]
  have "c \<noteq> 0" using c(1) w(5) by (cases "c = 0") simp_all
  have "dom ((udp_pcb_at (ip_st s))(c \<mapsto> x)) = dom (udp_pcb_at (ip_st s))" for x using c by auto
  moreover have "(local_port p' \<noteq> 0) = (a \<in> set (c # cs))"
    if "((udp_pcb_at (ip_st s))(c \<mapsto> pcb'\<lparr>udp_next := udp_pcbs (ip_st s)\<rparr>)) a = Some p'" for a p'
    using w(4) [of a p'] that p by (cases "a = c") auto
  ultimately show ?thesis unfolding udp_wf_def using w(1-3) pcbs.on_push [OF w(1) c(2) \<open>c \<noteq> 0\<close>, of pcb'] by simp
qed

lemma udp_conflict_sym:
  "udp_conflict (reuse_of a) (local_ip a) (local_port a) b \<longleftrightarrow> udp_conflict (reuse_of b) (local_ip b) (local_port b) a"
  by (auto simp: udp_conflict_def reuse_of_def)

lemma ports_exclusive_one:
  assumes "ports_exclusive s cs" "\<And>b. b \<in> set cs' - {c} \<Longrightarrow> b \<in> set cs"
    "\<And>b. b \<in> set cs' - {c} \<Longrightarrow> reuse_of (pcb_of s' b) = reuse_of (pcb_of s b) \<and> local_ip (pcb_of s' b) = local_ip (pcb_of s b) \<and>
       local_port (pcb_of s' b) = local_port (pcb_of s b)"
    "\<And>b. b \<in> set cs' - {c} \<Longrightarrow> \<not> udp_conflict (reuse_of (pcb_of s' c)) (local_ip (pcb_of s' c)) (local_port (pcb_of s' c)) (pcb_of s b)"
  shows "ports_exclusive s' cs'"
proof -
  have eq: "udp_conflict x y z (pcb_of s' b) = udp_conflict x y z (pcb_of s b)" if "b \<in> set cs' - {c}" for x y z b
    using assms(3) [OF that] by (auto simp: udp_conflict_def reuse_of_def)
  have no: "\<not> udp_conflict (reuse_of (pcb_of s' c)) (local_ip (pcb_of s' c)) (local_port (pcb_of s' c)) (pcb_of s' b)"
    if "b \<in> set cs' - {c}" for b using assms(4) [OF that] eq [OF that] by simp
  show ?thesis
    unfolding ports_exclusive_def
  proof (intro ballI impI)
    fix a b assume ab: "a \<in> set cs'" "b \<in> set cs'" "a \<noteq> b"
    consider "a = c" | "b = c" | "a \<noteq> c" "b \<noteq> c" by blast
    then show "\<not> udp_conflict (reuse_of (pcb_of s' a)) (local_ip (pcb_of s' a)) (local_port (pcb_of s' a)) (pcb_of s' b)"
    proof cases
      case 1
      then show ?thesis using no [of b] ab by simp
    next
      case 2
      then show ?thesis using no [of a] ab udp_conflict_sym [of "pcb_of s' a" "pcb_of s' b"] by simp
    next
      case 3
      then have m: "a \<in> set cs' - {c}" "b \<in> set cs' - {c}" using ab by auto
      then show ?thesis using assms(1) assms(2) [OF m(1)] assms(2) [OF m(2)] assms(3) [OF m(1)] eq [OF m(2)] ab(3)
        by (simp add: ports_exclusive_def)
    qed
  qed
qed

text \<open>Once a free port has been chosen, the block gets it and is on the list.\<close>

lemma udp_bind_commit:
  assumes wf: "udp_wf s cs" and ex: "ports_exclusive s cs" and c: "udp_pcb_at (ip_st s) c = Some pcb" and p: "p \<noteq> 0"
    and free: "\<forall>b \<in> set cs - {c}. \<not> udp_conflict (reuse_of pcb) addr p (pcb_of s b)"
  shows "\<exists>s'. do { s \<leftarrow> upd_udp_pcb c (\<lambda>pcb. pcb\<lparr>local_ip := addr, local_port := p\<rparr>) s;
                  if c \<notin> set cs then udp_insert_pcb c s else Some s } = Some s' \<and>
     udp_wf s' (if c \<in> set cs then cs else c # cs) \<and> ports_exclusive s' (if c \<in> set cs then cs else c # cs) \<and>
     local_ip (pcb_of s' c) = addr \<and> local_port (pcb_of s' c) = p \<and> (\<forall>b. b \<noteq> c \<longrightarrow> udp_pcb_at (ip_st s') b = udp_pcb_at (ip_st s) b)"
proof -
  let ?pcb = "pcb\<lparr>local_ip := addr, local_port := p\<rparr>"
  show ?thesis
  proof (cases "c \<in> set cs")
    case True
    then have "local_port pcb \<noteq> 0" using udp_wfD(4) [OF wf c] by simp
    then have wf': "udp_wf (with_pcb c ?pcb s) cs" by (intro udp_wf_write [OF wf c]) (simp_all add: p)
    have "ports_exclusive (with_pcb c ?pcb s) cs"
      by (rule ports_exclusive_one [OF ex, where c = c]) (use free in \<open>auto simp: reuse_of_def\<close>)
    then show ?thesis using wf' True by (simp add: upd_udp_pcb_def c)
  next
    case False
    have wf': "udp_wf (with_front c ?pcb s) (c # cs)" by (rule udp_wf_front [OF wf c False]) (simp add: p)
    have "ports_exclusive (with_front c ?pcb s) (c # cs)"
      by (rule ports_exclusive_one [OF ex, where c = c]) (use free in \<open>auto simp: reuse_of_def\<close>)
    then show ?thesis using wf' False by (simp add: upd_udp_pcb_def udp_insert_pcb_def set_udp_pcbs_def c)
  qed
qed

abbreviation (input) addr_arg :: "u32 option \<Rightarrow> u32" where
  "addr_arg a \<equiv> case a of None \<Rightarrow> IPADDR_ANY | Some x \<Rightarrow> x"

text \<open>How the port is chosen: the error, the port and the last port tried.\<close>

definition bind_choice :: "eth_state \<Rightarrow> nat list \<Rightarrow> nat \<Rightarrow> udp_pcb \<Rightarrow> u32 \<Rightarrow> u16 \<Rightarrow> err_t \<Rightarrow> u16 \<Rightarrow> bool" where
  "bind_choice s cs c pcb addr port err p \<longleftrightarrow>
     (if port = 0 then
        if ports_full s cs then err = ERR_USE
        else err = ERR_OK \<and> UDP_LOCAL_PORT_RANGE_START \<le> p \<and> (\<forall>b \<in> set cs. local_port (pcb_of s b) \<noteq> p)
      else
        p = port \<and> err = (if \<exists>b \<in> set cs - {c}. udp_conflict (reuse_of pcb) addr port (pcb_of s b) then ERR_USE else ERR_OK))"

lemma bind_choice_ok:
  assumes "bind_choice s cs c pcb addr port err p" "err = ERR_OK"
  shows "p \<noteq> 0" "\<forall>b \<in> set cs - {c}. \<not> udp_conflict (reuse_of pcb) addr p (pcb_of s b)"
  using assms by (auto simp: bind_choice_def udp_conflict_def split: if_splits)

lemma udp_bind_run:
  assumes wf: "udp_wf s cs" and c: "udp_pcb_at (ip_st s) c = Some pcb"
  shows "\<exists>err p u. UDP_LOCAL_PORT_RANGE_START \<le> u \<and> bind_choice s cs c pcb (addr_arg a) port err p \<and>
     udp_bind c a port s =
       (if err \<noteq> ERR_OK then Some (err, with_port u s)
        else do { s \<leftarrow> do { s \<leftarrow> upd_udp_pcb c (\<lambda>pcb. pcb\<lparr>local_ip := addr_arg a, local_port := p\<rparr>) (with_port u s);
                           if c \<notin> set cs then udp_insert_pcb c s else Some s };
                  Some (ERR_OK, s) })"
proof -
  note w = udp_wfD [OF wf]
  have cn: "c \<noteq> 0" using c w(5) by (cases "c = 0") simp_all
  note on = udp_on_list_spec [OF w(1)]
  show ?thesis
  proof (cases "port = 0")
    case True
    obtain p u where n: "udp_new_port s = Some (p, with_port u s)" "UDP_LOCAL_PORT_RANGE_START \<le> u"
      "p = 0 \<longleftrightarrow> ports_full s cs"
      "p \<noteq> 0 \<longrightarrow> UDP_LOCAL_PORT_RANGE_START \<le> p \<and> (\<forall>b \<in> set cs. local_port (pcb_of s b) \<noteq> p)"
      using udp_new_port_spec [OF wf] by metis
    have ch: "bind_choice s cs c pcb (addr_arg a) port (if p = 0 then ERR_USE else ERR_OK) p"
      using True n(3,4) by (simp add: bind_choice_def)
    have run: "udp_bind c a port s = (if p = 0 then Some (ERR_USE, with_port u s)
        else do { s \<leftarrow> do { s \<leftarrow> upd_udp_pcb c (\<lambda>pcb. pcb\<lparr>local_ip := addr_arg a, local_port := p\<rparr>) (with_port u s);
                           if c \<notin> set cs then udp_insert_pcb c s else Some s };
                  Some (ERR_OK, s) })"
      unfolding udp_bind_def Let_def on c True using cn by (simp add: n(1))
    show ?thesis
    proof (cases "p = 0")
      case True
      then show ?thesis using ch run n(2) by (intro exI [of _ ERR_USE] exI [of _ p] exI [of _ u]) simp
    next
      case False
      then show ?thesis using ch run n(2) by (intro exI [of _ ERR_OK] exI [of _ p] exI [of _ u]) simp
    qed
  next
    case False
    let ?C = "\<exists>b \<in> set cs - {c}. udp_conflict (reuse_of pcb) (addr_arg a) port (pcb_of s b)"
    have con: "udp_bind_conflict c (so_options pcb AND SOF_REUSEADDR \<noteq> 0) (addr_arg a) port (udp_pcbs (ip_st s)) s = Some ?C"
      using udp_bind_conflict_spec [OF w(1), of c "reuse_of pcb" "addr_arg a" port] by (simp add: reuse_of_def)
    have ch: "bind_choice s cs c pcb (addr_arg a) port (if ?C then ERR_USE else ERR_OK) port" using False by (simp add: bind_choice_def)
    have run: "udp_bind c a port s = (if ?C then Some (ERR_USE, s)
        else do { s \<leftarrow> do { s \<leftarrow> upd_udp_pcb c (\<lambda>pcb. pcb\<lparr>local_ip := addr_arg a, local_port := port\<rparr>) s;
                           if c \<notin> set cs then udp_insert_pcb c s else Some s };
                  Some (ERR_OK, s) })"
      unfolding udp_bind_def Let_def on c using cn False by (simp add: con)
    show ?thesis
    proof (cases ?C)
      case True
      then have "bind_choice s cs c pcb (addr_arg a) port ERR_USE port" "udp_bind c a port s = Some (ERR_USE, s)"
        using ch run by (simp_all only: if_True)
      then show ?thesis using w(3) by (intro exI [of _ ERR_USE] exI [of _ port] exI [of _ "udp_port (ip_st s)"]) simp
    next
      case False
      then show ?thesis using w(3) ch run unfolding if_not_P [OF False]
        by (intro exI [of _ ERR_OK] exI [of _ port] exI [of _ "udp_port (ip_st s)"]) simp
    qed
  qed
qed

lemma udp_bind_spec:
  assumes wf: "udp_wf s cs" and ex: "ports_exclusive s cs" and c: "udp_pcb_at (ip_st s) c = Some pcb"
  shows "\<exists>err p s' cs'. udp_bind c a port s = Some (err, s') \<and> bind_choice s cs c pcb (addr_arg a) port err p \<and>
     udp_wf s' cs' \<and> ports_exclusive s' cs' \<and> (\<forall>b. b \<noteq> c \<longrightarrow> udp_pcb_at (ip_st s') b = udp_pcb_at (ip_st s) b) \<and>
     (if err = ERR_OK then set cs' = insert c (set cs) \<and> local_ip (pcb_of s' c) = addr_arg a \<and> local_port (pcb_of s' c) = p
      else cs' = cs \<and> udp_pcb_at (ip_st s') = udp_pcb_at (ip_st s))"
proof -
  obtain err p u where u: "UDP_LOCAL_PORT_RANGE_START \<le> u" and ch: "bind_choice s cs c pcb (addr_arg a) port err p"
    and run: "udp_bind c a port s =
       (if err \<noteq> ERR_OK then Some (err, with_port u s)
        else do { s \<leftarrow> do { s \<leftarrow> upd_udp_pcb c (\<lambda>pcb. pcb\<lparr>local_ip := addr_arg a, local_port := p\<rparr>) (with_port u s);
                           if c \<notin> set cs then udp_insert_pcb c s else Some s };
                  Some (ERR_OK, s) })"
    using udp_bind_run [where a = a and port = port, OF wf c] by (elim exE conjE) (rule that; assumption)
  have wf': "udp_wf (with_port u s) cs" "ports_exclusive (with_port u s) cs" using udp_wf_with_port(1) [OF u wf] ex by (simp_all only: udp_wf_with_port(2))
  show ?thesis
  proof (cases "err = ERR_OK")
    case True
    note ok = bind_choice_ok [OF ch True]
    let ?cs = "if c \<in> set cs then cs else c # cs"
    obtain s' where s': "do { s \<leftarrow> upd_udp_pcb c (\<lambda>pcb. pcb\<lparr>local_ip := addr_arg a, local_port := p\<rparr>) (with_port u s);
          if c \<notin> set cs then udp_insert_pcb c s else Some s } = Some s'"
        "udp_wf s' ?cs" "ports_exclusive s' ?cs" "local_ip (pcb_of s' c) = addr_arg a" "local_port (pcb_of s' c) = p"
        "\<forall>b. b \<noteq> c \<longrightarrow> udp_pcb_at (ip_st s') b = udp_pcb_at (ip_st s) b"
    proof -
      have k: "udp_pcb_at (ip_st (with_port u s)) c = Some pcb"
        "\<forall>b \<in> set cs - {c}. \<not> udp_conflict (reuse_of pcb) (addr_arg a) p (pcb_of (with_port u s) b)" using c ok(2) by simp_all
      have "udp_pcb_at (ip_st (with_port u s)) = udp_pcb_at (ip_st s)" by simp
      from udp_bind_commit [OF wf' k(1) ok(1) k(2), unfolded this] show thesis using that by blast
    qed
    have "set ?cs = insert c (set cs)" by auto
    moreover have "udp_bind c a port s = Some (ERR_OK, s')" using run True s'(1) by simp
    ultimately show ?thesis using s'(2-6) ch True by (intro exI [of _ ERR_OK] exI [of _ p] exI [of _ s'] exI [of _ ?cs]) simp
  next
    case False
    then show ?thesis using run ch wf' by (intro exI [of _ err] exI [of _ p] exI [of _ "with_port u s"] exI [of _ cs]) simp
  qed
qed

section \<open>The other operations\<close>

lemma udp_wf_same:
  assumes "udp_pcb_at (ip_st s') = udp_pcb_at (ip_st s)" "udp_pcbs (ip_st s') = udp_pcbs (ip_st s)" "udp_port (ip_st s') = udp_port (ip_st s)"
    "pools (eth_heap s') MEMP_UDP_PCB = pools (eth_heap s) MEMP_UDP_PCB"
  shows "udp_wf s' cs = udp_wf s cs" "ports_exclusive s' cs = ports_exclusive s cs"
  using assms by (simp_all add: udp_wf_def ports_exclusive_def)

text \<open>Members that do not matter for the list and the ports.\<close>

definition same_binding :: "udp_pcb \<Rightarrow> udp_pcb \<Rightarrow> bool" where
  "same_binding a b \<longleftrightarrow>
     udp_next a = udp_next b \<and> local_port a = local_port b \<and> local_ip a = local_ip b \<and> so_options a = so_options b"

lemma udp_write_kept:
  assumes wf: "udp_wf s cs" and ex: "ports_exclusive s cs" and f: "\<And>r. same_binding (f r) r" and run: "upd_udp_pcb c f s = Some s'"
  shows "udp_wf s' cs" "ports_exclusive s' cs"
proof -
  obtain pcb where c: "udp_pcb_at (ip_st s) c = Some pcb" "s' = with_pcb c (f pcb) s"
    using run by (cases "udp_pcb_at (ip_st s) c") (auto simp: upd_udp_pcb_def)
  have k: "udp_next (f pcb) = udp_next pcb" "local_port (f pcb) = local_port pcb" "local_ip (f pcb) = local_ip pcb" "so_options (f pcb) = so_options pcb"
    using f [of pcb] by (simp_all add: same_binding_def)
  show "udp_wf s' cs" unfolding c(2) by (rule udp_wf_write [OF wf c(1)]) (simp_all add: k)
  have "local_port (pcb_of s' b) = local_port (pcb_of s b) \<and> local_ip (pcb_of s' b) = local_ip (pcb_of s b) \<and>
      so_options (pcb_of s' b) = so_options (pcb_of s b)" for b
    using c k by (cases "b = c") auto
  then show "ports_exclusive s' cs" using ex by (simp add: ports_exclusive_def udp_conflict_def reuse_of_def)
qed

lemma udp_new_spec:
  assumes wf: "udp_wf s cs" and ex: "ports_exclusive s cs"
  shows "\<exists>c s'. udp_new s = Some (c, s') \<and> udp_wf s' cs \<and> ports_exclusive s' cs \<and>
     (if c = 0 then udp_pcb_at (ip_st s') = udp_pcb_at (ip_st s)
      else udp_pcb_at (ip_st s) c = None \<and> (\<exists>pcb. udp_pcb_at (ip_st s') = (udp_pcb_at (ip_st s))(c \<mapsto> pcb) \<and> local_port pcb = 0))"
proof -
  note w = udp_wfD [OF wf]
  from memp_malloc_holds [where ps = "pools (eth_heap s)" and type = MEMP_UDP_PCB, OF w(2)]
  consider (full) "memp_malloc (pools (eth_heap s)) MEMP_UDP_PCB = Some (0, pools (eth_heap s))"
    | (got) a d where "memp_malloc (pools (eth_heap s)) MEMP_UDP_PCB = Some (a, (pools (eth_heap s))(MEMP_UDP_PCB := d))" "a \<noteq> 0"
        "a \<notin> dom (udp_pcb_at (ip_st s))" "pool.holds d (insert a (dom (udp_pcb_at (ip_st s))))" by auto
  then show ?thesis
  proof cases
    case full
    then show ?thesis using wf ex by (simp add: udp_new_def)
  next
    case got
    define r where "r = \<lparr>local_ip = 0, remote_ip = 0, netif_idx = 0, so_options = 0, pcb_tos = 0, pcb_ttl = UDP_TTL,
                udp_next = 0, udp_flags = 0, local_port = 0, remote_port = 0, mcast_ip4 = 0, mcast_ifindex = 0,
                mcast_ttl = UDP_TTL, udp_recv_fn = 0, udp_recv_arg = 0\<rparr>"
    let ?s = "s\<lparr>eth_heap := (eth_heap s)\<lparr>pools := (pools (eth_heap s))(MEMP_UDP_PCB := d)\<rparr>,
       ip_st := (ip_st s)\<lparr>udp_pcb_at := (udp_pcb_at (ip_st s))(a \<mapsto> r)\<rparr>\<rparr>"
    have na: "a \<notin> set cs" using pcbs.on_member [OF w(1), of a] got(3) by auto
    have "(local_port p \<noteq> 0) = (b \<in> set cs)" if "((udp_pcb_at (ip_st s))(a \<mapsto> r)) b = Some p" for b p
      using w(4) [of b p] that na by (cases "b = a") (auto simp: r_def)
    then have "udp_wf ?s cs" using w(1,3) got(4) na unfolding udp_wf_def by simp
    moreover have "ports_exclusive ?s cs" using ex na by (auto simp: ports_exclusive_def)
    moreover have "udp_new s = Some (a, ?s)" using got(1,2) by (simp add: udp_new_def r_def)
    moreover have "local_port r = 0" by (simp add: r_def)
    ultimately show ?thesis using got(2,3) by (intro exI [of _ a] exI [of _ ?s]) auto
  qed
qed

lemma udp_remove_loop_spec:
  assumes "pcbs.on (udp_pcb_at (ip_st s)) p cs" "c \<noteq> 0"
  shows "c \<notin> set cs \<Longrightarrow> udp_remove_loop c nxt p s = Some s"
    "cs = as @ b # c # bs \<Longrightarrow> udp_remove_loop c nxt p s = upd_udp_pcb b (\<lambda>p2. p2\<lparr>udp_next := nxt\<rparr>) s"
proof -
  show "udp_remove_loop c nxt p s = Some s" if "c \<notin> set cs" using assms(1) that
  proof (induction cs arbitrary: p)
    case (Cons a cs)
    then obtain r where r: "p = a" "a \<noteq> 0" "udp_pcb_at (ip_st s) a = Some r" "pcbs.on (udp_pcb_at (ip_st s)) (udp_next r) cs" by auto
    have "udp_next r \<noteq> c" using r(4) Cons.prems(2) assms(2) by (cases cs) auto
    then show ?case using r Cons by (subst udp_remove_loop.simps) simp
  qed (simp add: udp_remove_loop.simps)
  show "udp_remove_loop c nxt p s = upd_udp_pcb b (\<lambda>p2. p2\<lparr>udp_next := nxt\<rparr>) s" if "cs = as @ b # c # bs" using assms(1) that
  proof (induction as arbitrary: p cs)
    case Nil
    then show ?case by (subst udp_remove_loop.simps) auto
  next
    case (Cons a as)
    then obtain r where r: "p = a" "a \<noteq> 0" "udp_pcb_at (ip_st s) a = Some r" "pcbs.on (udp_pcb_at (ip_st s)) (udp_next r) (as @ b # c # bs)" by auto
    have "udp_next r \<noteq> c" using r(4) pcbs.on_distinct [OF r(4)] by (cases as) auto
    then show ?case using r Cons.IH [OF r(4) refl] by (subst udp_remove_loop.simps) simp
  qed
qed

text \<open>Taking the block out of the list, before its memory is given back.\<close>

lemma udp_unlink:
  assumes on: "pcbs.on (udp_pcb_at (ip_st s)) (udp_pcbs (ip_st s)) cs" and c: "udp_pcb_at (ip_st s) c = Some pcb" "c \<noteq> 0"
  shows "\<exists>h m. (if udp_pcbs (ip_st s) = c then Some (set_udp_pcbs (udp_next pcb) s)
                else udp_remove_loop c (udp_next pcb) (udp_pcbs (ip_st s)) s) =
       Some (s\<lparr>ip_st := (ip_st s)\<lparr>udp_pcbs := h, udp_pcb_at := m\<rparr>\<rparr>) \<and>
     pcbs.on (m(c := None)) h (remove1 c cs) \<and> dom m = dom (udp_pcb_at (ip_st s)) \<and>
     (\<forall>b. b \<noteq> c \<longrightarrow> map_option (\<lambda>r. r\<lparr>udp_next := 0\<rparr>) (m b) = map_option (\<lambda>r. r\<lparr>udp_next := 0\<rparr>) (udp_pcb_at (ip_st s) b))"
proof -
  let ?m = "udp_pcb_at (ip_st s)" and ?p = "udp_pcbs (ip_st s)"
  consider (off) "c \<notin> set cs" | (first) bs where "cs = c # bs" | (inner) as b bs where "cs = as @ b # c # bs"
  proof (cases "c \<in> set cs")
    case True
    then obtain as bs where "cs = as @ c # bs" by (meson split_list)
    then show thesis using first inner by (cases as rule: rev_cases) auto
  qed (rule off)
  then show ?thesis
  proof cases
    case off
    moreover have "?p \<noteq> c" using off on c(2) by (cases cs) auto
    ultimately show ?thesis using on udp_remove_loop_spec(1) [OF on c(2) off]
      by (intro exI [of _ ?p] exI [of _ ?m]) (simp add: remove1_idem)
  next
    case first
    then have "?p = c" "pcbs.on (?m(c := None)) (udp_next pcb) bs" using on pcbs.on_tail [where m = ?m and a = c and r = pcb and as = bs] c(1) by auto
    then show ?thesis using first by (intro exI [of _ "udp_next pcb"] exI [of _ ?m]) (simp add: set_udp_pcbs_def)
  next
    case inner
    then have "?p \<noteq> c" using on pcbs.on_distinct [OF on] by (cases as) auto
    have on': "pcbs.on ?m ?p (as @ b # c # bs)" using on inner by simp
    obtain rb where b: "?m b = Some rb" using pcbs.on_member [OF on', of b] by auto
    let ?m' = "?m(b \<mapsto> rb\<lparr>udp_next := udp_next pcb\<rparr>)"
    have d: "c \<notin> set (as @ b # bs)" using pcbs.on_distinct [OF on'] by auto
    have "pcbs.on (?m'(c := None)) ?p (as @ b # bs)"
      using pcbs.on_unlink [where m = ?m, OF on' b c(1)] pcbs.on_other [OF d, of ?m' None ?p] by simp
    moreover have "remove1 c cs = as @ b # bs" using inner d by (simp add: remove1_append)
    moreover have "dom ?m' = dom ?m" using b by auto
    ultimately show ?thesis
      using \<open>?p \<noteq> c\<close> udp_remove_loop_spec(2) [OF on c(2) inner] b by (intro exI [of _ ?p] exI [of _ ?m']) (simp add: upd_udp_pcb_def)
  qed
qed

text \<open>Only the links of the blocks have changed.\<close>

lemma relinked_fields:
  assumes "map_option (\<lambda>r. r\<lparr>udp_next := 0\<rparr>) ro = map_option (\<lambda>r. r\<lparr>udp_next := 0\<rparr>) ro'"
  shows "local_port (the ro) = local_port (the ro') \<and> local_ip (the ro) = local_ip (the ro') \<and>
     so_options (the ro) = so_options (the ro')"
proof (cases ro')
  case None
  then show ?thesis using assms by simp
next
  case (Some r')
  then obtain r where r: "ro = Some r" "r\<lparr>udp_next := 0\<rparr> = r'\<lparr>udp_next := 0\<rparr>" using assms by auto
  have "local_port (r\<lparr>udp_next := 0\<rparr>) = local_port (r'\<lparr>udp_next := 0\<rparr>)" "local_ip (r\<lparr>udp_next := 0\<rparr>) = local_ip (r'\<lparr>udp_next := 0\<rparr>)"
    "so_options (r\<lparr>udp_next := 0\<rparr>) = so_options (r'\<lparr>udp_next := 0\<rparr>)" using r(2) by (simp_all only:)
  then show ?thesis using r(1) Some by simp
qed

lemma ports_exclusive_relinked:
  assumes "ports_exclusive s cs" "set cs' \<subseteq> set cs"
    "\<And>b. b \<in> set cs' \<Longrightarrow> map_option (\<lambda>r. r\<lparr>udp_next := 0\<rparr>) (udp_pcb_at (ip_st s') b) = map_option (\<lambda>r. r\<lparr>udp_next := 0\<rparr>) (udp_pcb_at (ip_st s) b)"
  shows "ports_exclusive s' cs'"
  using assms(1,2) relinked_fields [OF assms(3)] unfolding ports_exclusive_def udp_conflict_def reuse_of_def by (simp add: subset_iff)

lemma udp_remove_spec:
  assumes wf: "udp_wf s cs" and ex: "ports_exclusive s cs" and c: "udp_pcb_at (ip_st s) c = Some pcb"
  shows "\<exists>s'. udp_remove c s = Some s' \<and> udp_wf s' (remove1 c cs) \<and> ports_exclusive s' (remove1 c cs) \<and>
     dom (udp_pcb_at (ip_st s')) = dom (udp_pcb_at (ip_st s)) - {c}"
proof -
  note w = udp_wfD [OF wf]
  have cn: "c \<noteq> 0" using c w(5) by (cases "c = 0") simp_all
  from udp_unlink [OF w(1) c cn] obtain h m where
    m: "(if udp_pcbs (ip_st s) = c then Some (set_udp_pcbs (udp_next pcb) s) else udp_remove_loop c (udp_next pcb) (udp_pcbs (ip_st s)) s) =
          Some (s\<lparr>ip_st := (ip_st s)\<lparr>udp_pcbs := h, udp_pcb_at := m\<rparr>\<rparr>)"
      "pcbs.on (m(c := None)) h (remove1 c cs)" "dom m = dom (udp_pcb_at (ip_st s))"
      "\<And>b. b \<noteq> c \<Longrightarrow> map_option (\<lambda>r. r\<lparr>udp_next := 0\<rparr>) (m b) = map_option (\<lambda>r. r\<lparr>udp_next := 0\<rparr>) (udp_pcb_at (ip_st s) b)" by blast
  obtain d where d: "memp_free (pools (eth_heap s)) MEMP_UDP_PCB c = Some ((pools (eth_heap s))(MEMP_UDP_PCB := d))"
      "pool.holds d (dom (udp_pcb_at (ip_st s)) - {c})"
    using memp_free_holds [where ps = "pools (eth_heap s)" and type = MEMP_UDP_PCB and p = c, OF w(2)] c by blast
  let ?s = "s\<lparr>ip_st := (ip_st s)\<lparr>udp_pcbs := h, udp_pcb_at := m(c := None)\<rparr>,
     eth_heap := (eth_heap s)\<lparr>pools := (pools (eth_heap s))(MEMP_UDP_PCB := d)\<rparr>\<rparr>"
  have run: "udp_remove c s = Some ?s" using m(1) d(1) cn by (simp add: udp_remove_def c)
  have dm: "dom (m(c := None)) = dom (udp_pcb_at (ip_st s)) - {c}" using m(3) by auto
  have mem: "b \<in> set (remove1 c cs) \<longleftrightarrow> b \<in> set cs \<and> b \<noteq> c" for b using w(6) by auto
  have "(local_port p \<noteq> 0) = (b \<in> set (remove1 c cs))" if "(m(c := None)) b = Some p" for b p
  proof -
    have bc: "b \<noteq> c" "m b = Some p" using that by (auto split: if_splits)
    obtain r where "udp_pcb_at (ip_st s) b = Some r" "local_port r = local_port p" using relinked_fields [OF m(4) [OF bc(1)]] m(3) bc(2) by (metis domD domI option.sel)
    then show ?thesis using w(4) bc(1) mem by metis
  qed
  then have "udp_wf ?s (remove1 c cs)" unfolding udp_wf_def using m(2) d(2) dm w(3) by simp
  moreover have "ports_exclusive ?s (remove1 c cs)"
    by (rule ports_exclusive_relinked [OF ex]) (use mem m(4) in auto)
  moreover have "dom (udp_pcb_at (ip_st ?s)) = dom (udp_pcb_at (ip_st s)) - {c}" using dm by simp
  ultimately show ?thesis using run by blast
qed

section \<open>The selection of a block\<close>

abbreviation (input) relinked :: "(nat \<rightharpoonup> udp_pcb) \<Rightarrow> (nat \<rightharpoonup> udp_pcb) \<Rightarrow> bool" where
  "relinked m' m \<equiv> \<forall>b. map_option (\<lambda>r. r\<lparr>udp_next := 0\<rparr>) (m' b) = map_option (\<lambda>r. r\<lparr>udp_next := 0\<rparr>) (m b)"

definition udp_matches :: "udp_key \<Rightarrow> udp_pcb \<Rightarrow> bool" where
  "udp_matches k pcb \<longleftrightarrow>
     local_port pcb = key_dest k \<and> udp_input_local_match pcb (key_netif k) (key_in_idx k) (key_dest_addr k) (key_broadcast k)"

definition udp_full_match :: "udp_key \<Rightarrow> udp_pcb \<Rightarrow> bool" where
  "udp_full_match k pcb \<longleftrightarrow>
     udp_matches k pcb \<and> remote_port pcb = key_src k \<and> (ip4_addr_isany (remote_ip pcb) \<or> remote_ip pcb = key_src_addr k)"

definition udp_waiting :: "udp_key \<Rightarrow> udp_pcb \<Rightarrow> bool" where
  "udp_waiting k pcb \<longleftrightarrow> udp_matches k pcb \<and> udp_flags pcb AND UDP_FLAGS_CONNECTED = 0"

definition best_uncon :: "udp_key \<Rightarrow> eth_state \<Rightarrow> nat \<Rightarrow> nat \<times> u32 \<Rightarrow> nat \<times> u32" where
  "best_uncon k s c uncon =
     (if udp_waiting k (pcb_of s c) then better_uncon (key_netif k) (key_dest_addr k) (key_broadcast k) uncon c (local_ip (pcb_of s c))
      else uncon)"

lemma udp_match_loop_step:
  assumes "udp_pcb_at (ip_st s) c = Some pcb" "c \<noteq> 0"
  shows "udp_match_loop k c prev uncon s =
     (if udp_full_match k pcb then Some (c, prev, fst (best_uncon k s c uncon))
      else udp_match_loop k (udp_next pcb) c (best_uncon k s c uncon) s)"
  using assms by (subst udp_match_loop.simps) (auto simp: udp_full_match_def udp_matches_def udp_waiting_def best_uncon_def Let_def)

lemma udp_match_loop_none:
  assumes "pcbs.on (udp_pcb_at (ip_st s)) p cs" "\<forall>c \<in> set cs. \<not> udp_full_match k (pcb_of s c)"
  shows "udp_match_loop k p prev uncon s = Some (0, last (prev # cs), fst (fold (best_uncon k s) cs uncon))"
  using assms
proof (induction cs arbitrary: p prev uncon)
  case (Cons a cs)
  then obtain r where r: "p = a" "a \<noteq> 0" "udp_pcb_at (ip_st s) a = Some r" "pcbs.on (udp_pcb_at (ip_st s)) (udp_next r) cs" by auto
  then show ?case using Cons.IH [OF r(4), of a] Cons.prems(2) by (simp add: udp_match_loop_step [OF r(3,2)])
qed (simp add: udp_match_loop.simps)

lemma udp_match_loop_full:
  assumes "pcbs.on (udp_pcb_at (ip_st s)) p (as @ c # bs)" "\<forall>a \<in> set as. \<not> udp_full_match k (pcb_of s a)" "udp_full_match k (pcb_of s c)"
  shows "\<exists>u. udp_match_loop k p prev uncon s = Some (c, last (prev # as), u)"
  using assms
proof (induction as arbitrary: p prev uncon)
  case Nil
  then obtain r where "p = c" "c \<noteq> 0" "udp_pcb_at (ip_st s) c = Some r" by auto
  then show ?case using Nil.prems(3) by (simp add: udp_match_loop_step)
next
  case (Cons a as)
  then obtain r where r: "p = a" "a \<noteq> 0" "udp_pcb_at (ip_st s) a = Some r" "pcbs.on (udp_pcb_at (ip_st s)) (udp_next r) (as @ c # bs)" by auto
  then show ?case using Cons.IH [OF r(4) _ Cons.prems(3), of a] Cons.prems(2) by (simp add: udp_match_loop_step [OF r(3,2)])
qed

text \<open>A full match is moved to the front of the list.\<close>

lemma udp_select_full:
  assumes on: "pcbs.on (udp_pcb_at (ip_st s)) (udp_pcbs (ip_st s)) cs" and f: "find (\<lambda>c. udp_full_match k (pcb_of s c)) cs = Some c"
  shows "\<exists>m. udp_select k s = Some (c, s\<lparr>ip_st := (ip_st s)\<lparr>udp_pcb_at := m, udp_pcbs := c\<rparr>\<rparr>) \<and>
     pcbs.on m c (c # remove1 c cs) \<and> dom m = dom (udp_pcb_at (ip_st s)) \<and> relinked m (udp_pcb_at (ip_st s))"
proof -
  let ?m = "udp_pcb_at (ip_st s)"
  obtain i where i: "i < length cs" "udp_full_match k (pcb_of s (cs ! i))" "c = cs ! i" "\<forall>j<i. \<not> udp_full_match k (pcb_of s (cs ! j))"
    using f by (auto simp: find_Some_iff)
  define as bs where "as = take i cs" and "bs = drop (Suc i) cs"
  have cs: "cs = as @ c # bs" using i(1,3) by (simp add: as_def bs_def id_take_nth_drop)
  have no: "\<forall>a \<in> set as. \<not> udp_full_match k (pcb_of s a)" using i(1,4) by (auto simp: as_def in_set_conv_nth)
  have on': "pcbs.on ?m (udp_pcbs (ip_st s)) (as @ c # bs)" using on cs by simp
  have d: "distinct (as @ c # bs)" by (rule pcbs.on_distinct [OF on'])
  have rm: "remove1 c cs = as @ bs" using d cs by (simp add: remove1_append)
  obtain pcb where c: "?m c = Some pcb" "c \<noteq> 0" using pcbs.on_member [OF on', of c] by auto
  obtain u where lp: "udp_match_loop k (udp_pcbs (ip_st s)) 0 (0, 0) s = Some (c, last (0 # as), u)"
    using udp_match_loop_full [OF on' no, of 0 "(0, 0)"] i(2,3) by blast
  show ?thesis
  proof (cases as rule: rev_cases)
    case Nil
    then show ?thesis using lp c(2) on' rm by (intro exI [of _ ?m]) (simp add: udp_select_def)
  next
    case (snoc as' b)
    have on2: "pcbs.on ?m (udp_pcbs (ip_st s)) (as' @ b # c # bs)" using on' snoc by simp
    obtain rb where b: "?m b = Some rb" "b \<noteq> 0" using pcbs.on_member [OF on2, of b] by auto
    have "b \<noteq> c" using d snoc by auto
    let ?m' = "?m(b \<mapsto> rb\<lparr>udp_next := udp_next pcb\<rparr>, c \<mapsto> pcb\<lparr>udp_next := udp_pcbs (ip_st s)\<rparr>)"
    have "udp_select k s = Some (c, s\<lparr>ip_st := (ip_st s)\<lparr>udp_pcb_at := ?m', udp_pcbs := c\<rparr>\<rparr>)"
      using lp c b \<open>b \<noteq> c\<close> snoc by (simp add: udp_select_def upd_udp_pcb_def set_udp_pcbs_def)
    moreover have "pcbs.on ?m' c (c # as' @ b # bs)" by (rule pcbs.on_to_front [where m = ?m, OF on2 b(1) c(1)])
    moreover have "dom ?m' = dom ?m" using b(1) c(1) by auto
    ultimately show ?thesis using rm snoc b c by (intro exI [of _ ?m']) simp
  qed
qed

lemma udp_select_spec:
  assumes wf: "udp_wf s cs"
  shows "\<exists>c s' cs'. udp_select k s = Some (c, s') \<and> udp_wf s' cs' \<and> (ports_exclusive s cs \<longrightarrow> ports_exclusive s' cs') \<and>
     (case find (\<lambda>c. udp_full_match k (pcb_of s c)) cs of
        Some d \<Rightarrow> c = d \<and> cs' = d # remove1 d cs
      | None \<Rightarrow> c = fst (fold (best_uncon k s) cs (0, 0)) \<and> s' = s \<and> cs' = cs)"
proof (cases "find (\<lambda>c. udp_full_match k (pcb_of s c)) cs")
  case None
  then have "\<forall>c \<in> set cs. \<not> udp_full_match k (pcb_of s c)" by (simp add: find_None_iff)
  from udp_match_loop_none [OF udp_wfD(1) [OF wf] this] show ?thesis using None wf by (simp add: udp_select_def)
next
  case (Some c)
  obtain m where m: "udp_select k s = Some (c, s\<lparr>ip_st := (ip_st s)\<lparr>udp_pcb_at := m, udp_pcbs := c\<rparr>\<rparr>)"
     "pcbs.on m c (c # remove1 c cs)" "dom m = dom (udp_pcb_at (ip_st s))" "relinked m (udp_pcb_at (ip_st s))"
    using udp_select_full [OF udp_wfD(1) [OF wf] Some] by blast
  note w = udp_wfD [OF wf]
  have mem: "set (c # remove1 c cs) = set cs" using Some w(6) by (auto simp: find_Some_iff)
  have "(local_port p \<noteq> 0) = (b \<in> set cs)" if "m b = Some p" for b p
    using relinked_fields [OF m(4) [rule_format, of b]] that m(3) w(4) by (metis domD domI option.sel)
  then have "udp_wf (s\<lparr>ip_st := (ip_st s)\<lparr>udp_pcb_at := m, udp_pcbs := c\<rparr>\<rparr>) (c # remove1 c cs)"
    unfolding udp_wf_def mem using m(2,3) w(2,3) by simp
  moreover have "ports_exclusive s cs \<longrightarrow> ports_exclusive (s\<lparr>ip_st := (ip_st s)\<lparr>udp_pcb_at := m, udp_pcbs := c\<rparr>\<rparr>) (c # remove1 c cs)"
  proof
    assume ex: "ports_exclusive s cs"
    show "ports_exclusive (s\<lparr>ip_st := (ip_st s)\<lparr>udp_pcb_at := m, udp_pcbs := c\<rparr>\<rparr>) (c # remove1 c cs)"
      by (rule ports_exclusive_relinked [OF ex]) (use m(4) mem in auto)
  qed
  ultimately show ?thesis using m(1) Some by auto
qed

text \<open>Among the unconnected blocks, for a unicast packet: the last one bound to an address, else the first one.\<close>

definition unicast_choice :: "udp_key \<Rightarrow> eth_state \<Rightarrow> nat list \<Rightarrow> nat" where
  "unicast_choice k s cs =
     (let ws = filter (\<lambda>c. udp_waiting k (pcb_of s c)) cs
      in case find (\<lambda>c. \<not> ip4_addr_isany (local_ip (pcb_of s c))) (rev ws) of
           Some c \<Rightarrow> c
         | None \<Rightarrow> (case ws of [] \<Rightarrow> 0 | c # _ \<Rightarrow> c))"

lemma best_uncon_unicast:
  assumes "\<not> key_broadcast k" "0 \<notin> set cs"
  shows "fst (fold (best_uncon k s) cs (0, 0)) = unicast_choice k s cs \<and>
     (unicast_choice k s cs = 0 \<longleftrightarrow> filter (\<lambda>c. udp_waiting k (pcb_of s c)) cs = [])"
  using assms(2)
proof (induction cs rule: rev_induct)
  case (snoc c cs)
  let ?ws = "filter (\<lambda>c. udp_waiting k (pcb_of s c)) cs" and ?u = "fold (best_uncon k s) cs (0, 0)"
  have IH: "fst ?u = unicast_choice k s cs" "fst ?u = 0 \<longleftrightarrow> ?ws = []" using snoc by auto
  show ?case
  proof (cases "udp_waiting k (pcb_of s c)")
    case True
    then have b: "best_uncon k s c ?u = (if ?ws = [] \<or> \<not> ip4_addr_isany (local_ip (pcb_of s c)) then (c, local_ip (pcb_of s c)) else ?u)"
      using IH(2) assms(1) by (simp add: best_uncon_def better_uncon_def)
    have "unicast_choice k s (cs @ [c]) =
        (if ?ws = [] \<or> \<not> ip4_addr_isany (local_ip (pcb_of s c)) then c else unicast_choice k s cs)"
      using True by (cases ?ws) (auto simp: unicast_choice_def Let_def split: option.split)
    then show ?thesis using b IH True snoc.prems by (auto split: if_splits)
  next
    case False
    then have "best_uncon k s c ?u = ?u" "unicast_choice k s (cs @ [c]) = unicast_choice k s cs"
      by (simp_all add: best_uncon_def unicast_choice_def)
    then show ?thesis using IH False by simp
  qed
qed (simp add: unicast_choice_def)

section \<open>A new address of the interface\<close>

definition moved :: "u32 \<Rightarrow> u32 \<Rightarrow> udp_pcb \<Rightarrow> udp_pcb" where
  "moved old_addr new_addr pcb = (if local_ip pcb = old_addr then pcb\<lparr>local_ip := new_addr\<rparr> else pcb)"

lemma moved_fields [simp]:
  "udp_next (moved a b r) = udp_next r" "local_port (moved a b r) = local_port r" "so_options (moved a b r) = so_options r"
  "local_ip (moved a b r) = (if local_ip r = a then b else local_ip r)"
  by (simp_all add: moved_def)

lemma udp_addr_changed_loop_spec:
  assumes "pcbs.on (udp_pcb_at (ip_st s)) p cs"
  shows "udp_addr_changed_loop a b p s =
     Some (s\<lparr>ip_st := (ip_st s)\<lparr>udp_pcb_at := (\<lambda>c. if c \<in> set cs then map_option (moved a b) (udp_pcb_at (ip_st s) c)
                                                else udp_pcb_at (ip_st s) c)\<rparr>\<rparr>)"
  using assms
proof (induction cs arbitrary: p s)
  case Nil
  then show ?case by (simp add: udp_addr_changed_loop.simps)
next
  case (Cons c cs)
  then obtain r where r: "p = c" "c \<noteq> 0" "udp_pcb_at (ip_st s) c = Some r" "pcbs.on (udp_pcb_at (ip_st s)) (udp_next r) cs" by auto
  have nc: "c \<notin> set cs" using pcbs.on_distinct [OF Cons.prems] by simp
  let ?s = "with_pcb c (moved a b r) s"
  have "pcbs.on (udp_pcb_at (ip_st ?s)) (udp_next r) cs" using r(4) nc by simp
  from Cons.IH [OF this] have "udp_addr_changed_loop a b p s =
      Some (?s\<lparr>ip_st := (ip_st ?s)\<lparr>udp_pcb_at := (\<lambda>c. if c \<in> set cs then map_option (moved a b) (udp_pcb_at (ip_st ?s) c)
                                                else udp_pcb_at (ip_st ?s) c)\<rparr>\<rparr>)"
    using r by (subst udp_addr_changed_loop.simps) (auto simp: upd_udp_pcb_def moved_def map_upd_triv)
  moreover have "(\<lambda>d. if d \<in> set cs then map_option (moved a b) (udp_pcb_at (ip_st ?s) d) else udp_pcb_at (ip_st ?s) d) =
      (\<lambda>d. if d \<in> set (c # cs) then map_option (moved a b) (udp_pcb_at (ip_st s) d) else udp_pcb_at (ip_st s) d)"
    using r(3) nc by (intro ext) auto
  ultimately show ?case by simp
qed

lemma udp_netif_ip_addr_changed_spec:
  assumes wf: "udp_wf s cs" and ex: "ports_exclusive s cs" and new: "\<forall>c \<in> set cs. local_ip (pcb_of s c) \<noteq> new_addr"
  shows "\<exists>s'. udp_netif_ip_addr_changed old_addr new_addr s = Some s' \<and> udp_wf s' cs \<and> ports_exclusive s' cs"
proof (cases "\<not> ip4_addr_isany old_addr \<and> \<not> ip4_addr_isany new_addr")
  case True
  note w = udp_wfD [OF wf]
  let ?m = "\<lambda>c. if c \<in> set cs then map_option (moved old_addr new_addr) (udp_pcb_at (ip_st s) c) else udp_pcb_at (ip_st s) c"
  let ?s = "s\<lparr>ip_st := (ip_st s)\<lparr>udp_pcb_at := ?m\<rparr>\<rparr>"
  have run: "udp_netif_ip_addr_changed old_addr new_addr s = Some ?s"
    using udp_addr_changed_loop_spec [OF w(1)] True by (simp add: udp_netif_ip_addr_changed_def)
  have "pcbs.on ?m (udp_pcbs (ip_st s)) cs = pcbs.on (udp_pcb_at (ip_st s)) (udp_pcbs (ip_st s)) cs"
    by (rule pcbs.on_cong) (simp add: option.map_comp comp_def)
  moreover have "dom ?m = dom (udp_pcb_at (ip_st s))" by (auto split: if_splits)
  moreover have "(local_port p \<noteq> 0) = (c \<in> set cs)" if "?m c = Some p" for c p
    using that w(4) [of c] by (auto split: if_splits)
  ultimately have "udp_wf ?s cs" unfolding udp_wf_def using w(1-3) by simp
  moreover have "pcb_of ?s c = moved old_addr new_addr (pcb_of s c)" if "c \<in> set cs" for c
    using that pcbs.on_member [OF w(1) that] by auto
  then have "ports_exclusive ?s cs" using ex new True unfolding ports_exclusive_def udp_conflict_def reuse_of_def by auto
  ultimately show ?thesis using run by blast
next
  case False
  then show ?thesis using wf ex by (auto simp: udp_netif_ip_addr_changed_def)
qed

section \<open>Reachable states\<close>

lemma udp_connect_spec:
  assumes wf: "udp_wf s cs" and ex: "ports_exclusive s cs" and c: "udp_pcb_at (ip_st s) c = Some pcb"
  shows "\<exists>err s' cs'. udp_connect c a port s = Some (err, s') \<and> udp_wf s' cs' \<and> ports_exclusive s' cs'"
proof (cases a)
  case None
  then show ?thesis using wf ex by (simp add: udp_connect_def) blast
next
  case (Some addr)
  have cn: "c \<noteq> 0" using c udp_wfD(5) [OF wf] by (cases "c = 0") simp_all
  let ?f = "\<lambda>pcb. pcb\<lparr>remote_ip := addr, remote_port := port, udp_flags := udp_flags pcb OR UDP_FLAGS_CONNECTED\<rparr>"
  obtain err s1 cs1 where b: "(if local_port pcb = 0 then udp_bind c (Some (local_ip pcb)) (local_port pcb) s else Some (ERR_OK, s)) = Some (err, s1)"
    "udp_wf s1 cs1" "ports_exclusive s1 cs1" "err = ERR_OK \<Longrightarrow> c \<in> set cs1"
  proof (cases "local_port pcb = 0")
    case True
    from udp_bind_spec [where a = "Some (local_ip pcb)" and port = 0, OF wf ex c] show thesis
      by (elim exE conjE) (rule that, use True in \<open>auto split: if_splits\<close>)
  next
    case False
    then show thesis using that [of ERR_OK s cs] wf ex udp_wfD(4) [OF wf c] by simp
  qed
  show ?thesis
  proof (cases "err = ERR_OK")
    case True
    have on: "pcbs.on (udp_pcb_at (ip_st s1)) (udp_pcbs (ip_st s1)) cs1" using udp_wfD(1) [OF b(2)] .
    obtain pcb1 where p1: "udp_pcb_at (ip_st s1) c = Some pcb1" using pcbs.on_member [OF on] b(4) [OF True] by auto
    have up: "upd_udp_pcb c ?f s1 = Some (with_pcb c (?f pcb1) s1)" by (simp add: upd_udp_pcb_def p1)
    have k: "udp_wf (with_pcb c (?f pcb1) s1) cs1" "ports_exclusive (with_pcb c (?f pcb1) s1) cs1"
      using udp_write_kept [OF b(2,3) _ up] by (simp_all add: same_binding_def)
    have "udp_on_list c (udp_pcbs (ip_st s1)) (with_pcb c (?f pcb1) s1) = Some True"
      using udp_on_list_spec [OF udp_wfD(1) [OF k(1)], of c] b(4) [OF True] by simp
    then have "udp_connect c a port s = Some (ERR_OK, with_pcb c (?f pcb1) s1)"
      using Some cn b(1) True up by (simp add: udp_connect_def c)
    then show ?thesis using k by blast
  next
    case False
    then show ?thesis using Some cn b(1-3) by (simp add: udp_connect_def c) blast
  qed
qed

text \<open>The states the operations can reach from start-up. Clients set the option to share an address before they bind a
  block; the interface gets an address no block is bound to; everything else in the state is free to change.\<close>

inductive udp_reach :: "eth_env \<Rightarrow> eth_state \<Rightarrow> bool" for e where
  init: "udp_pcbs (ip_st s) = 0 \<Longrightarrow> udp_pcb_at (ip_st s) = Map.empty \<Longrightarrow> pool.holds (pools (eth_heap s) MEMP_UDP_PCB) {} \<Longrightarrow>
     udp_reach e (udp_init e s)"
| new: "udp_reach e s \<Longrightarrow> udp_new s = Some (c, s') \<Longrightarrow> udp_reach e s'"
| bind: "udp_reach e s \<Longrightarrow> c \<in> dom (udp_pcb_at (ip_st s)) \<Longrightarrow> udp_bind c a port s = Some (err, s') \<Longrightarrow> udp_reach e s'"
| bind_netif: "udp_reach e s \<Longrightarrow> udp_bind_netif c n s = Some s' \<Longrightarrow> udp_reach e s'"
| connect: "udp_reach e s \<Longrightarrow> c \<in> dom (udp_pcb_at (ip_st s)) \<Longrightarrow> udp_connect c a port s = Some (err, s') \<Longrightarrow> udp_reach e s'"
| disconnect: "udp_reach e s \<Longrightarrow> udp_disconnect c s = Some s' \<Longrightarrow> udp_reach e s'"
| recv: "udp_reach e s \<Longrightarrow> udp_recv c f arg s = Some s' \<Longrightarrow> udp_reach e s'"
| remove: "udp_reach e s \<Longrightarrow> c \<in> dom (udp_pcb_at (ip_st s)) \<Longrightarrow> udp_remove c s = Some s' \<Longrightarrow> udp_reach e s'"
| select: "udp_reach e s \<Longrightarrow> udp_select k s = Some (c, s') \<Longrightarrow> udp_reach e s'"
| options: "udp_reach e s \<Longrightarrow> udp_pcb_at (ip_st s) c = Some pcb \<Longrightarrow> local_port pcb = 0 \<Longrightarrow>
     upd_udp_pcb c (\<lambda>pcb. pcb\<lparr>so_options := v\<rparr>) s = Some s' \<Longrightarrow> udp_reach e s'"
| address: "udp_reach e s \<Longrightarrow> (\<forall>pcb \<in> ran (udp_pcb_at (ip_st s)). local_ip pcb \<noteq> new_addr) \<Longrightarrow>
     udp_netif_ip_addr_changed old_addr new_addr s = Some s' \<Longrightarrow> udp_reach e s'"
| other: "udp_reach e s \<Longrightarrow> udp_pcb_at (ip_st s') = udp_pcb_at (ip_st s) \<Longrightarrow> udp_pcbs (ip_st s') = udp_pcbs (ip_st s) \<Longrightarrow>
     udp_port (ip_st s') = udp_port (ip_st s) \<Longrightarrow> pools (eth_heap s') MEMP_UDP_PCB = pools (eth_heap s) MEMP_UDP_PCB \<Longrightarrow> udp_reach e s'"

lemma udp_init_wf:
  assumes "udp_pcbs (ip_st s) = 0" "udp_pcb_at (ip_st s) = Map.empty" "pool.holds (pools (eth_heap s) MEMP_UDP_PCB) {}"
  shows "udp_wf (udp_init e s) [] \<and> ports_exclusive (udp_init e s) []"
proof -
  let ?r = "ucast (lwip_rand e (rand_calls s)) AND NOT UDP_LOCAL_PORT_RANGE_START :: u16"
  have "NOT 0xC000 = (mask 14 :: u16)" by (simp add: mask_eq_exp_minus_1)
  then have "unat ?r < 0x4000" using unat_and_mask [of "ucast (lwip_rand e (rand_calls s)) :: u16" 14] by simp
  then have "0xC000 \<le> unat (?r + 0xC000)" by (simp add: unat_word_ariths)
  then have "UDP_LOCAL_PORT_RANGE_START \<le> ?r + UDP_LOCAL_PORT_RANGE_START" by (simp add: word_le_nat_alt)
  then show ?thesis using assms by (simp add: udp_wf_def ports_exclusive_def udp_init_def)
qed

lemma udp_reach_inv: "udp_reach e s \<Longrightarrow> \<exists>cs. udp_wf s cs \<and> ports_exclusive s cs"
proof (induction rule: udp_reach.induct)
  case (init s)
  then show ?case using udp_init_wf by blast
next
  case (new s c s')
  then show ?case using udp_new_spec by fastforce
next
  case (bind s c a port err s')
  then obtain cs pcb where "udp_wf s cs" "ports_exclusive s cs" "udp_pcb_at (ip_st s) c = Some pcb" by blast
  from udp_bind_spec [where a = a and port = port, OF this] show ?case using bind.hyps(3) by auto
next
  case (bind_netif s c n s')
  then obtain cs where cs: "udp_wf s cs" "ports_exclusive s cs" by blast
  obtain v where v: "upd_udp_pcb c (\<lambda>pcb. pcb\<lparr>netif_idx := v\<rparr>) s = Some s'"
    using bind_netif.hyps(2) by (auto simp: udp_bind_netif_def bind_eq_Some_conv split: if_splits)
  have "same_binding (r\<lparr>netif_idx := v\<rparr>) r" for r by (simp add: same_binding_def)
  from udp_write_kept [OF cs this v] show ?case by blast
next
  case (connect s c a port err s')
  then obtain cs pcb where "udp_wf s cs" "ports_exclusive s cs" "udp_pcb_at (ip_st s) c = Some pcb" by blast
  from udp_connect_spec [where a = a and port = port, OF this] show ?case using connect.hyps(3) by auto
next
  case (disconnect s c s')
  then obtain cs where cs: "udp_wf s cs" "ports_exclusive s cs" by blast
  show ?case
  proof (cases "c = 0")
    case False
    let ?f = "\<lambda>pcb. pcb\<lparr>remote_ip := 0, remote_port := 0, netif_idx := 0, udp_flags := udp_flags pcb AND NOT UDP_FLAGS_CONNECTED\<rparr>"
    have sb: "same_binding (?f r) r" for r by (simp add: same_binding_def)
    have up: "upd_udp_pcb c ?f s = Some s'" using disconnect.hyps(2) False by (simp add: udp_disconnect_def)
    from udp_write_kept [OF cs sb up] show ?thesis by blast
  qed (use disconnect.hyps(2) cs in \<open>auto simp: udp_disconnect_def\<close>)
next
  case (recv s c f arg s')
  then obtain cs where cs: "udp_wf s cs" "ports_exclusive s cs" by blast
  show ?case
  proof (cases "c = 0")
    case False
    let ?f = "\<lambda>pcb. pcb\<lparr>udp_recv_fn := f, udp_recv_arg := arg\<rparr>"
    have sb: "same_binding (?f r) r" for r by (simp add: same_binding_def)
    have up: "upd_udp_pcb c ?f s = Some s'" using recv.hyps(2) False by (simp add: udp_recv_def)
    from udp_write_kept [OF cs sb up] show ?thesis by blast
  qed (use recv.hyps(2) cs in \<open>auto simp: udp_recv_def\<close>)
next
  case (remove s c s')
  then show ?case using udp_remove_spec by (metis domD option.inject)
next
  case (select s k c s')
  then obtain cs where cs: "udp_wf s cs" "ports_exclusive s cs" by blast
  from udp_select_spec [where k = k, OF cs(1)] show ?case using select.hyps(2) cs(2) by auto
next
  case (options s c pcb v s')
  then obtain cs where cs: "udp_wf s cs" "ports_exclusive s cs" by blast
  have s': "s' = with_pcb c (pcb\<lparr>so_options := v\<rparr>) s" using options.hyps by (simp add: upd_udp_pcb_def)
  have "c \<notin> set cs" using udp_wfD(4) [OF cs(1) options.hyps(2)] options.hyps(3) by simp
  then have "ports_exclusive s' cs" unfolding s' using cs(2) by (auto simp: ports_exclusive_def)
  moreover have "udp_wf s' cs" unfolding s' by (rule udp_wf_write [OF cs(1) options.hyps(2)]) simp_all
  ultimately show ?case by blast
next
  case (address s new_addr old_addr s')
  then obtain cs where cs: "udp_wf s cs" "ports_exclusive s cs" by blast
  have "\<forall>c \<in> set cs. local_ip (pcb_of s c) \<noteq> new_addr" using pcbs.on_member [OF udp_wfD(1) [OF cs(1)]] address.hyps(2) by (fastforce simp: ran_def)
  from udp_netif_ip_addr_changed_spec [where old_addr = old_addr, OF cs this] show ?case using address.hyps(3) by auto
next
  case (other s s')
  then show ?case using udp_wf_same [of s' s] by metis
qed

section \<open>Properties\<close>


text \<open>C9: \<^verbatim>\<open>udp_bind\<close> returns; it succeeds if and only if no other block is in the way (for port 0: if and only if a port of the
  local range is free), and then the block has the address and the port asked for, or a free port of the range. No other block
  changes, and the ports stay exclusive. If it fails no block changes.\<close>

theorem udp_bind_exclusive:
  assumes "udp_wf s cs" and "ports_exclusive s cs" and "udp_pcb_at (ip_st s) c = Some pcb"
  shows "\<exists>err p s' cs'. udp_bind c (Some addr) port s = Some (err, s') \<and> bind_choice s cs c pcb addr port err p \<and>
     udp_wf s' cs' \<and> ports_exclusive s' cs' \<and> (\<forall>b. b \<noteq> c \<longrightarrow> udp_pcb_at (ip_st s') b = udp_pcb_at (ip_st s) b) \<and>
     (if err = ERR_OK then set cs' = insert c (set cs) \<and> local_ip (pcb_of s' c) = addr \<and> local_port (pcb_of s' c) = p
      else cs' = cs \<and> udp_pcb_at (ip_st s') = udp_pcb_at (ip_st s))"
  using udp_bind_spec [where a = "Some addr" and port = port, OF assms] unfolding option.case .

text \<open>C35: \<^verbatim>\<open>udp_new_port\<close> ends, and gives 0 if and only if all 16384 local ports are taken; otherwise the port it gives is in
  the range and free.\<close>

theorem udp_new_port_free:
  assumes "udp_wf s cs"
  shows "\<exists>p u. udp_new_port s = Some (p, s\<lparr>ip_st := (ip_st s)\<lparr>udp_port := u\<rparr>\<rparr>) \<and> (p = 0 \<longleftrightarrow> ports_full s cs) \<and>
     (p \<noteq> 0 \<longrightarrow> UDP_LOCAL_PORT_RANGE_START \<le> p \<and> (\<forall>c \<in> set cs. local_port (pcb_of s c) \<noteq> p))"
  using udp_new_port_spec [OF assms] by (elim exE conjE) (intro exI conjI)

text \<open>C10: a unicast datagram goes to the first block that matches local and remote address and port, which moves to the front of
  the list; without one, to the unconnected block that is bound to the destination address and comes last on the list; without
  one, to the first unconnected block that is bound to any address; without one, to none (0). The list stays well formed.\<close>

theorem udp_select_unicast:
  assumes "udp_wf s cs" "\<not> key_broadcast k"
  shows "\<exists>c s' cs'. udp_select k s = Some (c, s') \<and> udp_wf s' cs' \<and> set cs' = set cs \<and>
     (case find (\<lambda>c. udp_full_match k (pcb_of s c)) cs of
        Some d \<Rightarrow> c = d \<and> hd cs' = d
      | None \<Rightarrow> c = unicast_choice k s cs \<and> s' = s)"
proof -
  obtain c s' cs' where r: "udp_select k s = Some (c, s')" "udp_wf s' cs'"
     "case find (\<lambda>c. udp_full_match k (pcb_of s c)) cs of
        Some d \<Rightarrow> c = d \<and> cs' = d # remove1 d cs
      | None \<Rightarrow> c = fst (fold (best_uncon k s) cs (0, 0)) \<and> s' = s \<and> cs' = cs"
    using udp_select_spec [where k = k, OF assms(1)] by blast
  have "0 \<notin> set cs" using pcbs.on_member [OF udp_wfD(1) [OF assms(1)]] by blast
  then have "fst (fold (best_uncon k s) cs (0, 0)) = unicast_choice k s cs" using best_uncon_unicast [OF assms(2)] by blast
  moreover have "set cs' = set cs" using r(3) udp_wfD(6) [OF assms(1)] by (auto simp: find_Some_iff split: option.splits)
  ultimately show ?thesis using r by (intro exI [of _ c] exI [of _ s'] exI [of _ cs']) (auto split: option.split)
qed

section \<open>Examples\<close>

definition example_pcb :: udp_pcb where
  "example_pcb =
     \<lparr>local_ip = 0, remote_ip = 0, netif_idx = 0, so_options = 0, pcb_tos = 0, pcb_ttl = 255, udp_next = 0, udp_flags = 0,
      local_port = 0, remote_port = 0, mcast_ip4 = 0, mcast_ifindex = 0, mcast_ttl = 255, udp_recv_fn = 0, udp_recv_arg = 0\<rparr>"

text \<open>Three blocks: one bound to port 53 of 192.168.0.1, one to port 7 of any address, one that is not bound.\<close>

definition example_udp :: eth_state where
  "example_udp = example_eth
     \<lparr>eth_heap := example_heap\<lparr>pools := example_pools(MEMP_UDP_PCB :=
         \<lparr>desc_size = 16, desc_num = 3, desc_base = 20000, tab = 0, link = \<lambda>_. 0\<rparr>)\<rparr>,
      ip_st := example_ip\<lparr>udp_pcbs := 20000,
         udp_pcb_at := [20000 \<mapsto> example_pcb\<lparr>local_ip := 0x0100A8C0, local_port := 53, udp_next := 20016\<rparr>,
                        20016 \<mapsto> example_pcb\<lparr>local_port := 7\<rparr>, 20032 \<mapsto> example_pcb]\<rparr>\<rparr>"

lemma example_udp_fields [simp]:
  "udp_pcbs (ip_st example_udp) = 20000" "udp_port (ip_st example_udp) = 0xC000"
  "udp_pcb_at (ip_st example_udp) = [20000 \<mapsto> example_pcb\<lparr>local_ip := 0x0100A8C0, local_port := 53, udp_next := 20016\<rparr>,
                        20016 \<mapsto> example_pcb\<lparr>local_port := 7\<rparr>, 20032 \<mapsto> example_pcb]"
  "pools (eth_heap example_udp) MEMP_UDP_PCB = \<lparr>desc_size = 16, desc_num = 3, desc_base = 20000, tab = 0, link = \<lambda>_. 0\<rparr>"
  by (simp_all add: example_udp_def example_ip_def)

lemma example_pcb_fields [simp]:
  "local_port example_pcb = 0" "udp_next example_pcb = 0" "local_ip example_pcb = 0" "so_options example_pcb = 0"
  "udp_flags example_pcb = 0" "netif_idx example_pcb = 0" "remote_port example_pcb = 0" "remote_ip example_pcb = 0"
  by (simp_all add: example_pcb_def)

lemma example_udp_wf: "udp_wf example_udp [20000, 20016]" "ports_exclusive example_udp [20000, 20016]"
proof -
  let ?d = "\<lparr>desc_size = 16, desc_num = 3, desc_base = 20000, tab = 0, link = \<lambda>_. 0\<rparr>"
  have el: "pool_elems ?d = {20000, 20016, 20032}"
    by (simp add: pool_elems_def LWIP_MEM_ALIGN_def lessThan_nat_numeral lessThan_Suc insert_commute)
  have fl: "free_list ?d []" by (simp add: free_list_def)
  have "pool.holds ?d {20000, 20016, 20032}"
    using free_list_avail [OF fl] fl el by (auto simp: pool.holds_def pool_inv_def desc_ok_def)
  moreover have "dom (udp_pcb_at (ip_st example_udp)) = {20000, 20016, 20032}" by auto
  ultimately show "udp_wf example_udp [20000, 20016]" unfolding udp_wf_def by (auto split: if_splits)
  show "ports_exclusive example_udp [20000, 20016]" by (simp add: ports_exclusive_def udp_conflict_def)
qed


theorem udp_bind_exclusive_witness:
  "\<exists>s' cs'. udp_bind 20032 (Some 0) 67 example_udp = Some (ERR_OK, s') \<and> udp_wf s' cs' \<and> set cs' = {20000, 20016, 20032} \<and>
     local_port (pcb_of s' 20032) = 67"
proof -
  have c: "udp_pcb_at (ip_st example_udp) 20032 = Some example_pcb" by simp
  obtain err p s' cs' where r: "udp_bind 20032 (Some 0) 67 example_udp = Some (err, s')"
    "bind_choice example_udp [20000, 20016] 20032 example_pcb 0 67 err p" "udp_wf s' cs'"
    "if err = ERR_OK then set cs' = insert 20032 (set [20000, 20016]) \<and> local_ip (pcb_of s' 20032) = 0 \<and> local_port (pcb_of s' 20032) = p
      else cs' = [20000, 20016] \<and> udp_pcb_at (ip_st s') = udp_pcb_at (ip_st example_udp)"
    using udp_bind_exclusive [where addr = 0 and port = 67, OF example_udp_wf c] by (elim exE conjE)
  have "err = ERR_OK" "p = 67" using r(2) by (simp_all add: bind_choice_def udp_conflict_def)
  then show ?thesis using r by (intro exI [of _ s'] exI [of _ cs']) auto
qed

theorem udp_new_port_free_witness:
  "\<exists>p s'. udp_new_port example_udp = Some (p, s') \<and> (p \<noteq> 0 \<longrightarrow> 0xC000 \<le> p \<and> p \<noteq> 53 \<and> p \<noteq> 7)"
  using udp_new_port_free [OF example_udp_wf(1)] by (elim exE conjE) auto

text \<open>A datagram for port 53 of 192.168.0.1.\<close>

definition example_key :: udp_key where
  "example_key = \<lparr>key_netif = example_nif, key_in_idx = 1, key_src_addr = 0x0200A8C0, key_dest_addr = 0x0100A8C0, key_src = 1000,
     key_dest = 53, key_broadcast = False\<rparr>"

theorem udp_select_unicast_witness: "udp_select example_key example_udp = Some (20000, example_udp)"
proof -
  have "find (\<lambda>c. udp_full_match example_key (pcb_of example_udp c)) [20000, 20016] = None"
    by (simp add: udp_full_match_def example_key_def)
  moreover have "unicast_choice example_key example_udp [20000, 20016] = 20000"
    by (simp add: unicast_choice_def udp_waiting_def udp_matches_def udp_input_local_match_def example_key_def)
  moreover have "\<not> key_broadcast example_key" by (simp add: example_key_def)
  ultimately show ?thesis using udp_select_unicast [OF example_udp_wf(1), of example_key] by auto
qed

end
