(* ===== verification/Dns.thy ===== *)
theory Dns
  imports Udp
begin

text \<open>
  \<^verbatim>\<open>src/lwip/dns.c\<close>: the DNS client, for the configuration with random transaction identifiers, random
  source ports and one outstanding query per name (\<^verbatim>\<open>LWIP_DNS_SECURE\<close> has all three flags), queries for \<^verbatim>\<open>.local\<close> names by
  multicast, and no local host list. The callbacks of clients are a parameter (\<open>call_found\<close>).

  Local variables that the code hands to the packet buffer functions by address live at \<open>dns_stack\<close>; the
  character arrays of the table are copied there before a part of them is written into a packet.
\<close>

abbreviation (input) DNS_TABLE_SIZE :: nat where "DNS_TABLE_SIZE \<equiv> 4"
abbreviation (input) DNS_MAX_REQUESTS :: nat where "DNS_MAX_REQUESTS \<equiv> 4"
abbreviation (input) DNS_MAX_SOURCE_PORTS :: u8 where "DNS_MAX_SOURCE_PORTS \<equiv> 4"
abbreviation (input) DNS_MAX_SERVERS :: u8 where "DNS_MAX_SERVERS \<equiv> 2"
abbreviation (input) DNS_MAX_NAME_LENGTH :: nat where "DNS_MAX_NAME_LENGTH \<equiv> 256"
abbreviation (input) DNS_MAX_RETRIES :: u8 where "DNS_MAX_RETRIES \<equiv> 4"
abbreviation (input) DNS_MAX_TTL :: u32 where "DNS_MAX_TTL \<equiv> 604800"
abbreviation (input) SIZEOF_DNS_HDR :: nat where "SIZEOF_DNS_HDR \<equiv> 12"
abbreviation (input) SIZEOF_DNS_QUERY :: nat where "SIZEOF_DNS_QUERY \<equiv> 4"
abbreviation (input) SIZEOF_DNS_ANSWER :: nat where "SIZEOF_DNS_ANSWER \<equiv> 10"
abbreviation (input) DNS_SERVER_PORT :: u16 where "DNS_SERVER_PORT \<equiv> 53"
abbreviation (input) DNS_MQUERY_PORT :: u16 where "DNS_MQUERY_PORT \<equiv> 5353"
abbreviation (input) DNS_RRTYPE_A :: u16 where "DNS_RRTYPE_A \<equiv> 1"
abbreviation (input) DNS_RRCLASS_IN :: u16 where "DNS_RRCLASS_IN \<equiv> 1"
abbreviation (input) DNS_FLAG1_RESPONSE :: u8 where "DNS_FLAG1_RESPONSE \<equiv> 0x80"
abbreviation (input) DNS_FLAG1_RD :: u8 where "DNS_FLAG1_RD \<equiv> 0x01"
abbreviation (input) DNS_FLAG2_ERR_MASK :: u8 where "DNS_FLAG2_ERR_MASK \<equiv> 0x0f"

definition dns_mquery_v4group :: u32 where
  "dns_mquery_v4group = 0xFB0000E0"

section \<open>State\<close>

datatype dns_state_enum_t = DNS_STATE_UNUSED | DNS_STATE_NEW | DNS_STATE_ASKING | DNS_STATE_DONE

text \<open>The name is the whole character array.\<close>

record dns_table_entry =
  te_ttl :: u32
  te_ipaddr :: u32
  te_txid :: u16
  te_state :: dns_state_enum_t
  te_server_idx :: u8
  te_tmr :: u8
  te_retries :: u8
  te_seqno :: u8
  te_pcb_idx :: u8
  te_name :: "u8 list"
  te_is_mdns :: bool

record dns_req_entry =
  rq_found :: nat
  rq_arg :: nat
  rq_table_idx :: nat

text \<open>The variables of the module beside the rest of the stack.\<close>

record dns_state =
  dns_net :: eth_state
  dns_pcbs :: "nat list"
  dns_last_pcb_idx :: u8
  dns_seqno :: u8
  dns_table :: "dns_table_entry list"
  dns_requests :: "dns_req_entry list"
  dns_servers :: "u32 list"

text \<open>\<open>call_found\<close> calls a function of type \<^verbatim>\<open>dns_found_callback\<close> with the name, the address (\<open>None\<close> is \<^verbatim>\<open>NULL\<close>) and its
  argument; \<open>dns_recv_ptr\<close> is the address of \<^verbatim>\<open>dns_recv\<close>.\<close>

record dns_env =
  dns_eth :: eth_env
  dns_stack :: nat
  dns_recv_ptr :: nat
  call_found :: "nat \<Rightarrow> u8 list \<Rightarrow> u32 option \<Rightarrow> nat \<Rightarrow> dns_state \<Rightarrow> dns_state option"

definition arr_at :: "'a list \<Rightarrow> nat \<Rightarrow> 'a option" where
  "arr_at xs i = (if i < length xs then Some (xs ! i) else None)"

definition upd_entry :: "nat \<Rightarrow> (dns_table_entry \<Rightarrow> dns_table_entry) \<Rightarrow> dns_state \<Rightarrow> dns_state option" where
  "upd_entry i f s = do { en \<leftarrow> arr_at (dns_table s) i; Some (s\<lparr>dns_table := (dns_table s)[i := f en]\<rparr>) }"

definition upd_request :: "nat \<Rightarrow> (dns_req_entry \<Rightarrow> dns_req_entry) \<Rightarrow> dns_state \<Rightarrow> dns_state option" where
  "upd_request i f s = do { rq \<leftarrow> arr_at (dns_requests s) i; Some (s\<lparr>dns_requests := (dns_requests s)[i := f rq]\<rparr>) }"

definition dns_heap :: "dns_state \<Rightarrow> heap" where
  "dns_heap s = eth_heap (dns_net s)"

definition with_net :: "eth_state \<Rightarrow> dns_state \<Rightarrow> dns_state" where
  "with_net n s = s\<lparr>dns_net := n\<rparr>"

definition dns_pbuf_free :: "dns_env \<Rightarrow> nat \<Rightarrow> dns_state \<Rightarrow> dns_state option" where
  "dns_pbuf_free e p s = do { n \<leftarrow> eth_pbuf_free (dns_eth e) p (dns_net s); Some (with_net n s) }"

text \<open>A random number, \<^verbatim>\<open>DNS_RAND_TXID\<close>.\<close>

definition dns_rand :: "dns_env \<Rightarrow> dns_state \<Rightarrow> u16 \<times> dns_state" where
  "dns_rand e s =
     (let n = dns_net s in (ucast (lwip_rand (dns_eth e) (rand_calls n)), with_net (n\<lparr>rand_calls := rand_calls n + 1\<rparr>) s))"

section \<open>Servers and lookup\<close>

definition dns_setserver :: "u8 \<Rightarrow> u32 option \<Rightarrow> dns_state \<Rightarrow> dns_state" where
  "dns_setserver numdns dnsserver s =
     (if numdns < DNS_MAX_SERVERS
      then s\<lparr>dns_servers := (dns_servers s)[unat numdns := (case dnsserver of Some a \<Rightarrow> a | None \<Rightarrow> IPADDR_ANY)]\<rparr>
      else s)"

definition dns_getserver :: "u8 \<Rightarrow> dns_state \<Rightarrow> u32" where
  "dns_getserver numdns s = (if numdns < DNS_MAX_SERVERS then dns_servers s ! unat numdns else IPADDR_ANY)"

text \<open>Whether the name of an entry is the first \<open>namelen\<close> characters of \<open>name\<close>.\<close>

definition dns_name_is :: "u8 list \<Rightarrow> nat \<Rightarrow> dns_table_entry \<Rightarrow> bool option" where
  "dns_name_is name namelen en =
     do { r \<leftarrow> lwip_strnicmp name (te_name en) (word_of_nat namelen);
          if r = 0 then do { c \<leftarrow> arr_at (te_name en) namelen; Some (c = 0) } else Some False }"

fun dns_lookup_loop :: "u8 list \<Rightarrow> nat \<Rightarrow> dns_table_entry list \<Rightarrow> (err_t \<times> u32 option) option" where
  "dns_lookup_loop name namelen [] = Some (ERR_ARG, None)"
| "dns_lookup_loop name namelen (en # ens) =
     do { found \<leftarrow> (if te_state en = DNS_STATE_DONE then dns_name_is name namelen en else Some False);
          if found then Some (ERR_OK, Some (te_ipaddr en)) else dns_lookup_loop name namelen ens }"

definition dns_lookup :: "u8 list \<Rightarrow> nat \<Rightarrow> dns_state \<Rightarrow> (err_t \<times> u32 option) option" where
  "dns_lookup name hostnamelen s =
     dns_lookup_loop name (min hostnamelen (DNS_MAX_NAME_LENGTH - 1)) (dns_table s)"

section \<open>Names in packets\<close>

text \<open>The inner loop of \<^verbatim>\<open>dns_compare_name\<close>: \<open>n\<close> characters of the label at \<open>off\<close> against those of \<open>query\<close> at \<open>qi\<close>. The
  result is the new position, \<open>Some None\<close> for a difference.\<close>

partial_function (option) dns_compare_label ::
    "u8 list \<Rightarrow> heap \<Rightarrow> nat \<Rightarrow> nat \<Rightarrow> u16 \<Rightarrow> int \<Rightarrow> (nat \<times> u16) option option" where
  "dns_compare_label query h p qi off n =
     (if n > 0 then
        do { c \<leftarrow> pbuf_try_get_at h p off;
             if c < 0 then Some None
             else
               do { q \<leftarrow> arr_at query qi;
                    if lwip_tolower q \<noteq> lwip_tolower (word_of_int c) then Some None
                    else if off = 0xFFFF then Some None
                    else dns_compare_label query h p (qi + 1) (off + 1) (n - 1) } }
      else Some (Some (qi, off)))"

partial_function (option) dns_compare_loop :: "u8 list \<Rightarrow> heap \<Rightarrow> nat \<Rightarrow> nat \<Rightarrow> u16 \<Rightarrow> u16 option" where
  "dns_compare_loop query h p qi off =
     do { n \<leftarrow> pbuf_try_get_at h p off;
          if n < 0 \<or> off = 0xFFFF then Some 0xFFFF
          else if n AND 0xc0 = 0xc0 then Some 0xFFFF
          else
            do { r \<leftarrow> dns_compare_label query h p qi (off + 1) n;
                 case r of
                   None \<Rightarrow> Some 0xFFFF
                 | Some (qi, off) \<Rightarrow>
                     do { n \<leftarrow> pbuf_try_get_at h p off;
                          if n < 0 then Some 0xFFFF
                          else if n \<noteq> 0 then dns_compare_loop query h p (qi + 1) off
                          else if off = 0xFFFF then Some 0xFFFF
                          else Some (off + 1) } } }"

definition dns_compare_name :: "u8 list \<Rightarrow> heap \<Rightarrow> nat \<Rightarrow> u16 \<Rightarrow> u16 option" where
  "dns_compare_name query h p start_offset = dns_compare_loop query h p 0 start_offset"

partial_function (option) dns_skip_name :: "heap \<Rightarrow> nat \<Rightarrow> u16 \<Rightarrow> u16 option" where
  "dns_skip_name h p off =
     do { n \<leftarrow> pbuf_try_get_at h p off;
          let off = off + 1
          in if n < 0 \<or> off = 0 then Some 0xFFFF
             else if n AND 0xc0 = 0xc0 then Some (if off = 0xFFFF then 0xFFFF else off + 1)
             else
               do { b \<leftarrow> pbufs h p;
                    if int (unat off) + n \<ge> int (unat (tot_len b)) then Some 0xFFFF
                    else
                      (let off = off + word_of_int n
                       in do { n \<leftarrow> pbuf_try_get_at h p off;
                               if n < 0 then Some 0xFFFF
                               else if n \<noteq> 0 then dns_skip_name h p off
                               else Some (if off = 0xFFFF then 0xFFFF else off + 1) }) } }"

section \<open>Ending a query\<close>

text \<open>\<open>ok\<close> says whether the callbacks get the address of the entry or \<^verbatim>\<open>NULL\<close>; they may change the tables.\<close>

fun dns_found_loop :: "dns_env \<Rightarrow> nat \<Rightarrow> bool \<Rightarrow> nat list \<Rightarrow> dns_state \<Rightarrow> dns_state option" where
  "dns_found_loop e idx ok [] s = Some s"
| "dns_found_loop e idx ok (i # is) s =
     do { rq \<leftarrow> arr_at (dns_requests s) i;
          s \<leftarrow> (if rq_found rq \<noteq> 0 \<and> rq_table_idx rq = idx then
                  do { en \<leftarrow> arr_at (dns_table s) idx;
                       s \<leftarrow> call_found e (rq_found rq) (te_name en) (if ok then Some (te_ipaddr en) else None) (rq_arg rq) s;
                       upd_request i (\<lambda>rq. rq\<lparr>rq_found := 0\<rparr>) s }
                else Some s);
          dns_found_loop e idx ok is s }"

text \<open>Whether another query uses the same control block.\<close>

definition dns_pcb_shared :: "nat \<Rightarrow> dns_state \<Rightarrow> bool" where
  "dns_pcb_shared idx s \<longleftrightarrow>
     list_ex (\<lambda>i. i \<noteq> idx \<and> te_state (dns_table s ! i) = DNS_STATE_ASKING \<and>
                  te_pcb_idx (dns_table s ! i) = te_pcb_idx (dns_table s ! idx)) [0..<DNS_MAX_REQUESTS]"

definition dns_call_found :: "dns_env \<Rightarrow> nat \<Rightarrow> bool \<Rightarrow> dns_state \<Rightarrow> dns_state option" where
  "dns_call_found e idx ok s =
     do { s \<leftarrow> dns_found_loop e idx ok [0..<DNS_MAX_REQUESTS] s;
          s \<leftarrow> (if dns_pcb_shared idx s then upd_entry idx (\<lambda>en. en\<lparr>te_pcb_idx := DNS_MAX_SOURCE_PORTS\<rparr>) s else Some s);
          en \<leftarrow> arr_at (dns_table s) idx;
          if te_pcb_idx en < DNS_MAX_SOURCE_PORTS then
            do { c \<leftarrow> arr_at (dns_pcbs s) (unat (te_pcb_idx en));
                 n \<leftarrow> udp_remove c (dns_net s);
                 upd_entry idx (\<lambda>en. en\<lparr>te_pcb_idx := DNS_MAX_SOURCE_PORTS\<rparr>)
                   ((with_net n s)\<lparr>dns_pcbs := (dns_pcbs s)[unat (te_pcb_idx en) := 0]\<rparr>) }
          else Some s }"

section \<open>Queries\<close>

text \<open>The loop that writes the name label by label; \<open>pos\<close> is \<^verbatim>\<open>hostname\<close> before its increment. The result is the position
  behind the last label, \<open>Inl\<close> for the overflow of \<^verbatim>\<open>query_idx\<close>.\<close>

partial_function (option) dns_encode_loop :: "nat \<Rightarrow> u8 list \<Rightarrow> nat \<Rightarrow> nat \<Rightarrow> u16 \<Rightarrow> heap \<Rightarrow> (heap + u16 \<times> heap) option" where
  "dns_encode_loop stk name p pos query_idx h =
     (let part = takeWhile (\<lambda>c. c \<noteq> 46 \<and> c \<noteq> 0) (drop pos name); n = word_of_nat (length part) :: u8
      in do { stop \<leftarrow> arr_at name (pos + length part);
              if unat query_idx + unat n + 1 > 0xFFFF then Some (Inl h)
              else
                do { h \<leftarrow> pbuf_put_at p query_idx n h;
                     (_, h) \<leftarrow> pbuf_take_at p stk (word_of_nat (length part)) (query_idx + 1) (write_bytes stk part h);
                     let query_idx = query_idx + ucast n + 1
                     in if stop \<noteq> 0 then dns_encode_loop stk name p (pos + length part + 1) query_idx h
                        else Some (Inr (query_idx, h)) } })"

definition dns_query_header :: "u16 \<Rightarrow> u8 list" where
  "dns_query_header txid = store16 (lwip_htons txid) @ [DNS_FLAG1_RD, 0] @ store16 (PP_HTONS 1) @ replicate 6 0"

definition dns_query_tail :: "u8 list" where
  "dns_query_tail = store16 (PP_HTONS DNS_RRTYPE_A) @ store16 (PP_HTONS DNS_RRCLASS_IN)"

text \<open>The packet for an entry, in the buffer \<open>p\<close>; \<open>Inl\<close> for an overflow.\<close>

definition dns_write_query :: "nat \<Rightarrow> dns_table_entry \<Rightarrow> nat \<Rightarrow> heap \<Rightarrow> (heap + heap) option" where
  "dns_write_query stk en p h =
     do { (_, h) \<leftarrow> pbuf_take p stk 12 (write_bytes stk (dns_query_header (te_txid en)) h);
          r \<leftarrow> dns_encode_loop stk (te_name en) p 0 12 h;
          case r of
            Inl h \<Rightarrow> Some (Inl h)
          | Inr (query_idx, h) \<Rightarrow>
              do { h \<leftarrow> pbuf_put_at p query_idx 0 h;
                   (_, h) \<leftarrow> pbuf_take_at p stk 4 (query_idx + 1) (write_bytes stk dns_query_tail h);
                   Some (Inr h) } }"

definition dns_send :: "dns_env \<Rightarrow> nat \<Rightarrow> dns_state \<Rightarrow> (err_t \<times> dns_state) option" where
  "dns_send e idx s =
     do { en \<leftarrow> arr_at (dns_table s) idx;
          lwip_assert (te_server_idx en < DNS_MAX_SERVERS);
          server \<leftarrow> arr_at (dns_servers s) (unat (te_server_idx en));
          if ip4_addr_isany server \<and> \<not> te_is_mdns en then
            do { s \<leftarrow> dns_call_found e idx False s;
                 s \<leftarrow> upd_entry idx (\<lambda>en. en\<lparr>te_state := DNS_STATE_UNUSED\<rparr>) s;
                 Some (ERR_OK, s) }
          else
            do { (p, h) \<leftarrow> pbuf_alloc (pb_env (dns_eth e)) PBUF_TRANSPORT
                            (word_of_nat (SIZEOF_DNS_HDR + length (c_string (te_name en)) + 2 + SIZEOF_DNS_QUERY)) PBUF_RAM (dns_heap s);
                 if p = 0 then Some (ERR_MEM, with_net ((dns_net s)\<lparr>eth_heap := h\<rparr>) s)
                 else
                   do { r \<leftarrow> dns_write_query (dns_stack e) en p h;
                        case r of
                          Inl h \<Rightarrow> do { s \<leftarrow> dns_pbuf_free e p (with_net ((dns_net s)\<lparr>eth_heap := h\<rparr>) s); Some (ERR_VAL, s) }
                        | Inr h \<Rightarrow>
                            do { c \<leftarrow> arr_at (dns_pcbs s) (unat (te_pcb_idx en));
                                 (err, n) \<leftarrow> udp_sendto (dns_eth e) c p (if te_is_mdns en then dns_mquery_v4group else server)
                                              (if te_is_mdns en then DNS_MQUERY_PORT else DNS_SERVER_PORT)
                                              ((dns_net s)\<lparr>eth_heap := h\<rparr>);
                                 s \<leftarrow> dns_pbuf_free e p (with_net n s);
                                 Some (err, s) } } } }"

text \<open>The loop that binds a new control block to a random port; it goes on while the port is not allowed or in use.\<close>

partial_function (option) dns_bind_random :: "dns_env \<Rightarrow> nat \<Rightarrow> dns_state \<Rightarrow> (err_t \<times> dns_state) option" where
  "dns_bind_random e c s =
     (let (port, s) = dns_rand e s
      in do { (err, s) \<leftarrow> (if port \<ge> 1024
                            then do { (err, n) \<leftarrow> udp_bind c (Some IPADDR_ANY) port (dns_net s); Some (err, with_net n s) }
                            else Some (ERR_USE, s));
              if err = ERR_USE then dns_bind_random e c s else Some (err, s) })"

definition dns_alloc_random_port :: "dns_env \<Rightarrow> dns_state \<Rightarrow> (nat \<times> dns_state) option" where
  "dns_alloc_random_port e s =
     do { (c, n) \<leftarrow> udp_new (dns_net s);
          let s = with_net n s
          in if c = 0 then Some (0, s)
             else
               do { (err, s) \<leftarrow> dns_bind_random e c s;
                    if err \<noteq> ERR_OK then do { n \<leftarrow> udp_remove c (dns_net s); Some (0, with_net n s) }
                    else do { n \<leftarrow> udp_recv c (dns_recv_ptr e) 0 (dns_net s); Some (c, with_net n s) } } }"

text \<open>The second loop of \<^verbatim>\<open>dns_alloc_pcb\<close>: the next control block in use after the last one; \<open>i\<close> counts down.\<close>

fun dns_reuse_pcb :: "nat \<Rightarrow> u8 \<Rightarrow> dns_state \<Rightarrow> (u8 \<times> dns_state) option" where
  "dns_reuse_pcb 0 idx s = Some (DNS_MAX_SOURCE_PORTS, s)"
| "dns_reuse_pcb (Suc i) idx s =
     (let idx = (if idx \<ge> DNS_MAX_SOURCE_PORTS then 0 else idx)
      in do { c \<leftarrow> arr_at (dns_pcbs s) (unat idx);
              if c \<noteq> 0 then Some (idx, s\<lparr>dns_last_pcb_idx := idx\<rparr>) else dns_reuse_pcb i (idx + 1) s })"

definition dns_alloc_pcb :: "dns_env \<Rightarrow> dns_state \<Rightarrow> (u8 \<times> dns_state) option" where
  "dns_alloc_pcb e s =
     (let i = length (takeWhile (\<lambda>c. c \<noteq> 0) (dns_pcbs s))
      in do { (c, s) \<leftarrow> (if i < unat DNS_MAX_SOURCE_PORTS then
                            do { (c, s) \<leftarrow> dns_alloc_random_port e s; Some (c, s\<lparr>dns_pcbs := (dns_pcbs s)[i := c]\<rparr>) }
                          else Some (0, s));
              if c \<noteq> 0 then Some (word_of_nat i, s\<lparr>dns_last_pcb_idx := word_of_nat i\<rparr>)
              else dns_reuse_pcb (unat DNS_MAX_SOURCE_PORTS) (dns_last_pcb_idx s + 1) s })"

partial_function (option) dns_create_txid :: "dns_env \<Rightarrow> dns_state \<Rightarrow> (u16 \<times> dns_state) option" where
  "dns_create_txid e s =
     (let (txid, s) = dns_rand e s
      in if list_ex (\<lambda>en. te_state en = DNS_STATE_ASKING \<and> te_txid en = txid) (dns_table s)
         then dns_create_txid e s else Some (txid, s))"

definition dns_backupserver_available :: "dns_table_entry \<Rightarrow> dns_state \<Rightarrow> bool" where
  "dns_backupserver_available en s \<longleftrightarrow>
     unat (te_server_idx en) + 1 < unat DNS_MAX_SERVERS \<and> \<not> ip4_addr_isany (dns_servers s ! (unat (te_server_idx en) + 1))"

section \<open>The timer\<close>

definition dns_check_asking :: "dns_env \<Rightarrow> nat \<Rightarrow> dns_state \<Rightarrow> dns_state option" where
  "dns_check_asking e i s =
     do { s \<leftarrow> upd_entry i (\<lambda>en. en\<lparr>te_tmr := te_tmr en - 1\<rparr>) s;
          en \<leftarrow> arr_at (dns_table s) i;
          if te_tmr en = 0 then
            do { s \<leftarrow> upd_entry i (\<lambda>en. en\<lparr>te_retries := te_retries en + 1\<rparr>) s;
                 en \<leftarrow> arr_at (dns_table s) i;
                 if te_retries en = DNS_MAX_RETRIES then
                   if dns_backupserver_available en s \<and> \<not> te_is_mdns en then
                     do { s \<leftarrow> upd_entry i (\<lambda>en. en\<lparr>te_server_idx := te_server_idx en + 1, te_tmr := 1, te_retries := 0\<rparr>) s;
                          (_, s) \<leftarrow> dns_send e i s;
                          Some s }
                   else
                     do { s \<leftarrow> dns_call_found e i False s;
                          upd_entry i (\<lambda>en. en\<lparr>te_state := DNS_STATE_UNUSED\<rparr>) s }
                 else
                   do { s \<leftarrow> upd_entry i (\<lambda>en. en\<lparr>te_tmr := te_retries en\<rparr>) s;
                        (_, s) \<leftarrow> dns_send e i s;
                        Some s } }
          else Some s }"

definition dns_check_entry :: "dns_env \<Rightarrow> nat \<Rightarrow> dns_state \<Rightarrow> dns_state option" where
  "dns_check_entry e i s =
     do { lwip_assert (i < DNS_TABLE_SIZE);
          en \<leftarrow> arr_at (dns_table s) i;
          case te_state en of
            DNS_STATE_NEW \<Rightarrow>
              do { (txid, s) \<leftarrow> dns_create_txid e s;
                   s \<leftarrow> upd_entry i (\<lambda>en. en\<lparr>te_txid := txid, te_state := DNS_STATE_ASKING, te_server_idx := 0,
                          te_tmr := 1, te_retries := 0\<rparr>) s;
                   (_, s) \<leftarrow> dns_send e i s;
                   Some s }
          | DNS_STATE_ASKING \<Rightarrow> dns_check_asking e i s
          | DNS_STATE_DONE \<Rightarrow>
              if te_ttl en = 0 then upd_entry i (\<lambda>en. en\<lparr>te_state := DNS_STATE_UNUSED\<rparr>) s
              else upd_entry i (\<lambda>en. en\<lparr>te_ttl := te_ttl en - 1,
                     te_state := (if te_ttl en - 1 = 0 then DNS_STATE_UNUSED else DNS_STATE_DONE)\<rparr>) s
          | DNS_STATE_UNUSED \<Rightarrow> Some s }"

fun dns_check_entries_from :: "dns_env \<Rightarrow> nat list \<Rightarrow> dns_state \<Rightarrow> dns_state option" where
  "dns_check_entries_from e [] s = Some s"
| "dns_check_entries_from e (i # is) s = do { s \<leftarrow> dns_check_entry e i s; dns_check_entries_from e is s }"

definition dns_check_entries :: "dns_env \<Rightarrow> dns_state \<Rightarrow> dns_state option" where
  "dns_check_entries e s = dns_check_entries_from e [0..<DNS_TABLE_SIZE] s"

definition dns_tmr :: "dns_env \<Rightarrow> dns_state \<Rightarrow> dns_state option" where
  "dns_tmr e s = dns_check_entries e s"

section \<open>Answers\<close>

text \<open>\<^verbatim>\<open>pbuf_copy_partial\<close> into a local variable at \<open>stk\<close>: the number of bytes copied, and the memory in which the variable is read.\<close>

definition read_local :: "nat \<Rightarrow> heap \<Rightarrow> nat \<Rightarrow> u16 \<Rightarrow> u16 \<Rightarrow> (u16 \<times> (nat \<Rightarrow> u8)) option" where
  "read_local stk h p n off = do { (k, h) \<leftarrow> pbuf_copy_partial p stk n off h; Some (k, bytes h) }"

text \<open>What the answers of a packet say: the packet is to be ignored, it has an address with a time to live, or it has none.\<close>

datatype dns_result = Dns_Ignore | Dns_Answer u32 u32 | Dns_None

fun dns_answers :: "nat \<Rightarrow> heap \<Rightarrow> nat \<Rightarrow> nat \<Rightarrow> u16 \<Rightarrow> dns_result option" where
  "dns_answers stk h p 0 res_idx = Some Dns_None"
| "dns_answers stk h p (Suc nanswers) res_idx =
     do { b \<leftarrow> pbufs h p;
          if \<not> res_idx < tot_len b then Some Dns_None
          else
            do { res_idx \<leftarrow> dns_skip_name h p res_idx;
                 if res_idx = 0xFFFF then Some Dns_Ignore
                 else
                   do { (k, m) \<leftarrow> read_local stk h p 10 res_idx;
                        if k \<noteq> 10 then Some Dns_Ignore
                        else if unat res_idx + SIZEOF_DNS_ANSWER > 0xFFFF then Some Dns_Ignore
                        else
                          (let res_idx = res_idx + 10; type = load16 m stk; cls = load16 m (stk + 2); ttl = load32 m (stk + 4);
                               ln = load16 m (stk + 8)
                           in if cls = PP_HTONS DNS_RRCLASS_IN \<and> type = PP_HTONS DNS_RRTYPE_A \<and> ln = PP_HTONS 4 then
                                do { (k, m) \<leftarrow> read_local stk h p 4 res_idx;
                                     if k \<noteq> 4 then Some Dns_Ignore else Some (Dns_Answer (load32 m stk) (lwip_htonl ttl)) }
                              else if unat res_idx + unat (lwip_htons ln) > 0xFFFF then Some Dns_Ignore
                              else dns_answers stk h p nanswers (res_idx + lwip_htons ln)) } } }"

definition dns_correct_response :: "dns_env \<Rightarrow> nat \<Rightarrow> u32 \<Rightarrow> dns_state \<Rightarrow> dns_state option" where
  "dns_correct_response e idx ttl s =
     do { s \<leftarrow> upd_entry idx (\<lambda>en. en\<lparr>te_state := DNS_STATE_DONE, te_ttl := min ttl DNS_MAX_TTL\<rparr>) s;
          s \<leftarrow> dns_call_found e idx True s;
          en \<leftarrow> arr_at (dns_table s) idx;
          if te_ttl en = 0 \<and> te_state en = DNS_STATE_DONE
          then upd_entry idx (\<lambda>en. en\<lparr>te_state := DNS_STATE_UNUSED\<rparr>) s
          else Some s }"

text \<open>The header of a message as it lies in memory.\<close>

record dns_hdr =
  hdr_id :: u16
  hdr_flags1 :: u8
  hdr_flags2 :: u8
  hdr_numquestions :: u16
  hdr_numanswers :: u16

definition load_dns_hdr :: "(nat \<Rightarrow> u8) \<Rightarrow> nat \<Rightarrow> dns_hdr" where
  "load_dns_hdr m a =
     \<lparr>hdr_id = load16 m a, hdr_flags1 = m (a + 2), hdr_flags2 = m (a + 3), hdr_numquestions = load16 m (a + 4),
      hdr_numanswers = load16 m (a + 6)\<rparr>"

text \<open>Whether the question of the packet is the one the entry asks: the position behind it, \<open>None\<close> otherwise.\<close>

definition dns_question :: "nat \<Rightarrow> heap \<Rightarrow> nat \<Rightarrow> dns_table_entry \<Rightarrow> u16 option option" where
  "dns_question stk h p en =
     do { res_idx \<leftarrow> dns_compare_name (te_name en) h p 12;
          if res_idx = 0xFFFF then Some None
          else
            do { (k, m) \<leftarrow> read_local stk h p 4 res_idx;
                 if k \<noteq> 4 then Some None
                 else if load16 m (stk + 2) \<noteq> PP_HTONS DNS_RRCLASS_IN \<or> load16 m stk \<noteq> PP_HTONS DNS_RRTYPE_A then Some None
                 else if unat res_idx + SIZEOF_DNS_QUERY > 0xFFFF then Some None
                 else Some (Some (res_idx + 4)) } }"

text \<open>The packet \<open>p\<close> from \<open>addr\<close> has the identifier of the entry \<open>i\<close>.\<close>

definition dns_response :: "dns_env \<Rightarrow> nat \<Rightarrow> u32 \<Rightarrow> nat \<Rightarrow> dns_hdr \<Rightarrow> dns_state \<Rightarrow> dns_state option" where
  "dns_response e p addr i hdr s =
     do { en \<leftarrow> arr_at (dns_table s) i;
          if hdr_flags1 hdr AND DNS_FLAG1_RESPONSE = 0 then dns_pbuf_free e p s
          else if lwip_htons (hdr_numquestions hdr) \<noteq> 1 then dns_pbuf_free e p s
          else
            do { server \<leftarrow> (if te_is_mdns en then Some addr else arr_at (dns_servers s) (unat (te_server_idx en)));
                 if addr \<noteq> server then dns_pbuf_free e p s
                 else
                   do { q \<leftarrow> dns_question (dns_stack e) (dns_heap s) p en;
                        case q of
                          None \<Rightarrow> dns_pbuf_free e p s
                        | Some res_idx \<Rightarrow>
                            if hdr_flags2 hdr AND DNS_FLAG2_ERR_MASK \<noteq> 0 then
                              if dns_backupserver_available en s then
                                do { s \<leftarrow> upd_entry i (\<lambda>en. en\<lparr>te_retries := DNS_MAX_RETRIES - 1, te_tmr := 1\<rparr>) s;
                                     s \<leftarrow> dns_check_entry e i s;
                                     dns_pbuf_free e p s }
                              else
                                do { s \<leftarrow> dns_pbuf_free e p s;
                                     s \<leftarrow> dns_call_found e i False s;
                                     upd_entry i (\<lambda>en. en\<lparr>te_state := DNS_STATE_UNUSED\<rparr>) s }
                            else
                              do { r \<leftarrow> dns_answers (dns_stack e) (dns_heap s) p (unat (lwip_htons (hdr_numanswers hdr))) res_idx;
                                   case r of
                                     Dns_Ignore \<Rightarrow> dns_pbuf_free e p s
                                   | Dns_Answer a ttl \<Rightarrow>
                                       do { s \<leftarrow> upd_entry i (\<lambda>en. en\<lparr>te_ipaddr := a\<rparr>) s;
                                            s \<leftarrow> dns_pbuf_free e p s;
                                            dns_correct_response e i ttl s }
                                   | Dns_None \<Rightarrow>
                                       do { s \<leftarrow> dns_pbuf_free e p s;
                                            s \<leftarrow> dns_call_found e i False s;
                                            upd_entry i (\<lambda>en. en\<lparr>te_state := DNS_STATE_UNUSED\<rparr>) s } } } } }"

definition dns_asked :: "u16 \<Rightarrow> dns_state \<Rightarrow> nat option" where
  "dns_asked txid s =
     find (\<lambda>i. te_state (dns_table s ! i) = DNS_STATE_ASKING \<and> te_txid (dns_table s ! i) = txid) [0..<length (dns_table s)]"

definition dns_recv :: "dns_env \<Rightarrow> nat \<Rightarrow> u32 \<Rightarrow> dns_state \<Rightarrow> dns_state option" where
  "dns_recv e p addr s =
     do { b \<leftarrow> pbufs (dns_heap s) p;
          if unat (tot_len b) < SIZEOF_DNS_HDR + SIZEOF_DNS_QUERY then dns_pbuf_free e p s
          else
            do { (k, m) \<leftarrow> read_local (dns_stack e) (dns_heap s) p 12 0;
                 if k \<noteq> 12 then dns_pbuf_free e p s
                 else
                   (let hdr = load_dns_hdr m (dns_stack e)
                    in case dns_asked (lwip_htons (hdr_id hdr)) s of
                         None \<Rightarrow> dns_pbuf_free e p s
                       | Some i \<Rightarrow> dns_response e p addr i hdr s) } }"

section \<open>Requests\<close>

definition dns_free_request :: "dns_state \<Rightarrow> nat option" where
  "dns_free_request s = find (\<lambda>r. rq_found (dns_requests s ! r) = 0) [0..<length (dns_requests s)]"

text \<open>The entry that already asks for the name, if a request can be attached to it.\<close>

fun dns_duplicate :: "u8 list \<Rightarrow> nat \<Rightarrow> nat list \<Rightarrow> dns_state \<Rightarrow> (nat \<times> nat) option option" where
  "dns_duplicate name namelen [] s = Some None"
| "dns_duplicate name namelen (i # is) s =
     do { en \<leftarrow> arr_at (dns_table s) i;
          same \<leftarrow> (if te_state en = DNS_STATE_ASKING then dns_name_is name namelen en else Some False);
          case (if same then dns_free_request s else None) of
            Some r \<Rightarrow> Some (Some (i, r))
          | None \<Rightarrow> dns_duplicate name namelen is s }"

text \<open>The first unused entry, or the completed one with the greatest age \<open>lseq\<close>, at \<open>lseqi\<close>.\<close>

fun dns_choose_entry :: "u8 \<Rightarrow> u8 \<Rightarrow> nat option \<Rightarrow> nat \<Rightarrow> dns_table_entry list \<Rightarrow> nat option" where
  "dns_choose_entry seq lseq lseqi i [] = lseqi"
| "dns_choose_entry seq lseq lseqi i (en # ens) =
     (if te_state en = DNS_STATE_UNUSED then Some i
      else if te_state en = DNS_STATE_DONE \<and> seq - te_seqno en > lseq
      then dns_choose_entry seq (seq - te_seqno en) (Some i) (i + 1) ens
      else dns_choose_entry seq lseq lseqi (i + 1) ens)"

definition dns_enqueue :: "dns_env \<Rightarrow> u8 list \<Rightarrow> nat \<Rightarrow> nat \<Rightarrow> nat \<Rightarrow> bool \<Rightarrow> dns_state \<Rightarrow> (err_t \<times> dns_state) option" where
  "dns_enqueue e name hostnamelen found arg is_mdns s =
     (let namelen = min hostnamelen (DNS_MAX_NAME_LENGTH - 1)
      in do { dup \<leftarrow> dns_duplicate name namelen [0..<DNS_TABLE_SIZE] s;
              case dup of
                Some (i, r) \<Rightarrow>
                  do { s \<leftarrow> upd_request r (\<lambda>rq. rq\<lparr>rq_found := found, rq_arg := arg, rq_table_idx := i\<rparr>) s;
                       Some (ERR_INPROGRESS, s) }
              | None \<Rightarrow>
                  (case dns_choose_entry (dns_seqno s) 0 None 0 (dns_table s) of
                     None \<Rightarrow> Some (ERR_MEM, s)
                   | Some i \<Rightarrow>
                       (case dns_free_request s of
                          None \<Rightarrow> Some (ERR_MEM, s)
                        | Some r \<Rightarrow>
                            do { s \<leftarrow> upd_request r (\<lambda>rq. rq\<lparr>rq_table_idx := i, rq_found := found, rq_arg := arg\<rparr>) s;
                                 s \<leftarrow> upd_entry i (\<lambda>en. en\<lparr>te_state := DNS_STATE_NEW, te_seqno := dns_seqno s,
                                        te_name := take namelen name @ [0] @ drop (namelen + 1) (te_name en)\<rparr>) s;
                                 (idx, s) \<leftarrow> dns_alloc_pcb e s;
                                 s \<leftarrow> upd_entry i (\<lambda>en. en\<lparr>te_pcb_idx := idx\<rparr>) s;
                                 if idx \<ge> DNS_MAX_SOURCE_PORTS then
                                   do { s \<leftarrow> upd_entry i (\<lambda>en. en\<lparr>te_state := DNS_STATE_UNUSED\<rparr>) s;
                                        s \<leftarrow> upd_request r (\<lambda>rq. rq\<lparr>rq_found := 0\<rparr>) s;
                                        Some (ERR_MEM, s) }
                                 else
                                   do { s \<leftarrow> upd_entry i (\<lambda>en. en\<lparr>te_is_mdns := is_mdns\<rparr>) s;
                                        s \<leftarrow> dns_check_entry e i (s\<lparr>dns_seqno := dns_seqno s + 1\<rparr>);
                                        Some (ERR_INPROGRESS, s) } })) })"

text \<open>\<^verbatim>\<open>".local"\<close>, and whether its first occurrence in the name is at the end.\<close>

definition dot_local :: "u8 list" where
  "dot_local = [46, 108, 111, 99, 97, 108]"

definition dns_is_local :: "u8 list \<Rightarrow> nat \<Rightarrow> bool" where
  "dns_is_local name hostnamelen \<longleftrightarrow>
     (case find (\<lambda>i. take 6 (drop i name) = dot_local) [0..<length name] of
        Some i \<Rightarrow> i + 6 = hostnamelen
      | None \<Rightarrow> False)"

text \<open>The name is a character array with its terminator, \<open>None\<close> for \<^verbatim>\<open>NULL\<close>; \<open>addr_ok\<close> says that the pointer for the address is
  not \<^verbatim>\<open>NULL\<close>. The result has the address that is stored there, if any.\<close>

definition dns_gethostbyname ::
    "dns_env \<Rightarrow> u8 list option \<Rightarrow> bool \<Rightarrow> nat \<Rightarrow> nat \<Rightarrow> dns_state \<Rightarrow> (err_t \<times> u32 option \<times> dns_state) option" where
  "dns_gethostbyname e hostname addr_ok found arg s =
     (case hostname of
        None \<Rightarrow> Some (ERR_ARG, None, s)
      | Some hostname \<Rightarrow>
          if \<not> addr_ok \<or> c_string hostname = [] then Some (ERR_ARG, None, s)
          else
            (let name = c_string hostname; hostnamelen = (if last name = 46 then length name - 1 else length name)
             in if hostnamelen \<ge> DNS_MAX_NAME_LENGTH then Some (ERR_ARG, None, s)
                else
                  do { a \<leftarrow> ip4addr_aton hostname;
                       case a of
                         Some a \<Rightarrow> Some (ERR_OK, Some a, s)
                       | None \<Rightarrow>
                           do { (err, a) \<leftarrow> dns_lookup hostname hostnamelen s;
                                if err = ERR_OK then Some (ERR_OK, a, s)
                                else
                                  (let is_mdns = dns_is_local name hostnamelen
                                   in do { server \<leftarrow> arr_at (dns_servers s) 0;
                                           if \<not> is_mdns \<and> ip4_addr_isany server then Some (ERR_VAL, None, s)
                                           else
                                             do { (err, s) \<leftarrow> dns_enqueue e hostname hostnamelen found arg is_mdns s;
                                                  Some (err, None, s) } }) } }))"

end
