(* ===== verification/Dns_Name.thy ===== *)
theory Dns_Name
  imports Dns
begin

text \<open>
  Names in DNS messages: how they are compared and skipped, and the query that is written for a name.
\<close>

lemma unat_u16_of_nat: "k < 65536 \<Longrightarrow> unat (word_of_nat k :: u16) = k"
  by (simp add: unsigned_of_nat take_bit_nat_eq_self)

lemma packet_small: "packet h p as \<Longrightarrow> length (pdata h as) < 65536"
  by (auto elim!: packet_head) (metis unat_u16_less)

section \<open>Names as labels\<close>

text \<open>A name is a list of labels; a message holds each with its length in front.\<close>

fun dns_enc :: "u8 list list \<Rightarrow> u8 list" where
  "dns_enc [] = []"
| "dns_enc (l # ls) = word_of_nat (length l) # l @ dns_enc ls"

definition label_ok :: "u8 list \<Rightarrow> bool" where
  "label_ok l \<longleftrightarrow> l \<noteq> [] \<and> length l < 64"

text \<open>What the comparison looks at in the array \<open>q\<close>: the characters of the labels from \<open>pos\<close> on, without regard to case. The characters
  between the labels and behind the last one do not matter.\<close>

fun labels_at :: "u8 list \<Rightarrow> nat \<Rightarrow> u8 list list \<Rightarrow> bool" where
  "labels_at q pos [] \<longleftrightarrow> True"
| "labels_at q pos (l # ls) \<longleftrightarrow>
     map lwip_tolower (take (length l) (drop pos q)) = map lwip_tolower l \<and> labels_at q (pos + length l + 1) ls"

lemma length_dns_enc: "length (dns_enc ls) = (\<Sum>l \<leftarrow> ls. length l + 1)"
  by (induction ls) auto

lemma label_length:
  assumes "label_ok l"
  shows "uint (word_of_nat (length l) :: u8) = int (length l)" "uint (word_of_nat (length l) :: u8) AND 0xc0 \<noteq> 0xc0"
    "word_of_nat (length l) \<noteq> (0 :: u8)"
proof -
  have l: "length l < 64" "0 < length l" using assms by (auto simp: label_ok_def)
  then have u: "unat (word_of_nat (length l) :: u8) = length l" by (simp add: unsigned_of_nat take_bit_nat_eq_self)
  then show v: "uint (word_of_nat (length l) :: u8) = int (length l)" by (metis uint_nat)
  show "word_of_nat (length l) \<noteq> (0 :: u8)" using u l(2) by (metis less_numeral_extra(3) unat_0)
  show "uint (word_of_nat (length l) :: u8) AND 0xc0 \<noteq> 0xc0"
  proof
    assume "uint (word_of_nat (length l) :: u8) AND 0xc0 = 0xc0"
    then have "0xc0 \<le> int (length l)" using AND_upper1 [of "int (length l)" "0xc0"] unfolding v by simp
    then show False using l(1) by simp
  qed
qed

section \<open>Comparing a name\<close>

lemma dns_compare_label_spec:
  assumes ch: "pchain h p as" and l: "take (length l) (drop (unat off) (pdata h as)) = l" "unat off + length l < length (pdata h as)"
    and b: "length (pdata h as) < 65536" "pos + length l \<le> length q"
  shows "dns_compare_label q h p pos off (int (length l)) =
     Some (if map lwip_tolower (take (length l) (drop pos q)) = map lwip_tolower l then Some (pos + length l, off + word_of_nat (length l)) else None)"
  using l b(2)
proof (induction l arbitrary: pos off)
  case Nil
  then show ?case by (simp add: dns_compare_label.simps)
next
  case (Cons c l)
  let ?bs = "pdata h as"
  have o: "unat off < length ?bs" "off \<noteq> 0xFFFF" using Cons.prems(2) b(1) by (auto simp: word_unat_eq_iff)
  have o1: "unat (off + 1) = unat off + 1" using Cons.prems(2) b(1) by (simp add: unat_word_ariths)
  have c: "?bs ! unat off = c" "take (length l) (drop (unat off + 1) ?bs) = l"
    using Cons.prems(1) o(1) by (simp_all add: Cons_nth_drop_Suc [symmetric])
  have q: "pos < length q" using Cons.prems(3) by simp
  have dq: "take (Suc (length l)) (drop pos q) = q ! pos # take (length l) (drop (pos + 1) q)"
    using q by (simp add: Cons_nth_drop_Suc [symmetric])
  have step: "dns_compare_label q h p pos off (int (length (c # l))) =
      (if lwip_tolower (q ! pos) \<noteq> lwip_tolower c then Some None else dns_compare_label q h p (pos + 1) (off + 1) (int (length l)))"
    using o c(1) q by (subst dns_compare_label.simps) (simp add: pbuf_try_get_at_chain [OF ch] arr_at_def)
  have "dns_compare_label q h p (pos + 1) (off + 1) (int (length l)) =
      Some (if map lwip_tolower (take (length l) (drop (pos + 1) q)) = map lwip_tolower l
            then Some (pos + 1 + length l, off + 1 + word_of_nat (length l)) else None)"
    by (rule Cons.IH) (use Cons.prems o1 c(2) in simp_all)
  then show ?case unfolding step using dq by (auto simp: ac_simps)
qed

text \<open>One label, and the byte \<open>x\<close> behind it.\<close>

lemma dns_compare_step:
  assumes ch: "pchain h p as" and bs: "pdata h as = pre @ word_of_nat (length l) # l @ x # rest" "length (pdata h as) < 65536"
    and ok: "label_ok l" and q: "pos + length l \<le> length q" and off: "off = word_of_nat (length pre)"
  shows "dns_compare_loop q h p pos off =
     (if map lwip_tolower (take (length l) (drop pos q)) \<noteq> map lwip_tolower l then Some 0xFFFF
      else if x \<noteq> 0 then dns_compare_loop q h p (pos + length l + 1) (word_of_nat (length pre + length l + 1))
      else Some (word_of_nat (length pre + length l + 2)))"
proof -
  note g = pbuf_try_get_at_chain [OF ch]
  have u: "unat (word_of_nat k :: u16) = k" if "k < length (pdata h as)" for k
    using that bs(2) by (intro unat_u16_of_nat) simp
  have ln: "length pre + length l + 1 < length (pdata h as)" unfolding bs(1) by simp
  have n0: "unat off = length pre" "unat (off + 1) = length pre + 1" "off + 1 + word_of_nat (length l) = word_of_nat (length pre + length l + 1)"
    using u [of "length pre"] u [of "length pre + 1"] ln by (simp_all add: off add.commute)
  have ne: "off \<noteq> 0xFFFF" "word_of_nat (length pre + length l + 1) \<noteq> (0xFFFF :: u16)"
    using n0(1) u [OF ln] ln bs(2) by (auto simp: word_unat_eq_iff simp del: of_nat_add)
  have first: "pbuf_try_get_at h p off = Some (int (length l))" using label_length(1) [OF ok] n0(1) ln by (simp add: g bs(1) nth_append)
  have nxt: "pbuf_try_get_at h p (word_of_nat (length pre + length l + 1)) = Some (uint x)"
    using u [OF ln] ln by (simp add: g del: of_nat_add) (simp add: bs(1) nth_append)
  have lab: "take (length l) (drop (unat (off + 1)) (pdata h as)) = l" "unat (off + 1) + length l < length (pdata h as)"
    unfolding n0(2) using ln by (simp_all add: bs(1))
  have cmp: "dns_compare_label q h p pos (off + 1) (int (length l)) =
     Some (if map lwip_tolower (take (length l) (drop pos q)) = map lwip_tolower l
           then Some (pos + length l, word_of_nat (length pre + length l + 1)) else None)"
    using dns_compare_label_spec [OF ch lab bs(2) q] unfolding n0(3) .
  have "int (length l) AND 0xc0 \<noteq> 0xc0" using label_length(1,2) [OF ok] by simp
  moreover have "word_of_nat (length pre + length l + 1) + 1 = (word_of_nat (length pre + length l + 2) :: u16)" by simp
  ultimately show ?thesis using first cmp nxt ne by (subst dns_compare_loop.simps) (simp add: uint_0_iff del: of_nat_add)
qed

lemma dns_compare_loop_spec:
  assumes ch: "pchain h p as" and bs: "pdata h as = pre @ dns_enc (l # ls) @ 0 # rest" "length (pdata h as) < 65536"
    and ok: "\<forall>l \<in> set (l # ls). label_ok l" and q: "pos + length (dns_enc (l # ls)) \<le> length q" and off: "off = word_of_nat (length pre)"
  shows "dns_compare_loop q h p pos off =
     Some (if labels_at q pos (l # ls) then word_of_nat (length pre + length (dns_enc (l # ls)) + 1) else 0xFFFF)"
  using bs(1) ok q off
proof (induction ls arbitrary: pre l pos off)
  case Nil
  then show ?case using dns_compare_step [OF ch _ bs(2), of pre l 0 rest pos q off] by (simp add: add.commute)
next
  case (Cons l' ls)
  have ok: "label_ok l" "label_ok l'" using Cons.prems(2) by auto
  let ?pre = "pre @ word_of_nat (length l) # l"
  have step: "dns_compare_loop q h p pos off =
     (if map lwip_tolower (take (length l) (drop pos q)) \<noteq> map lwip_tolower l then Some 0xFFFF
      else dns_compare_loop q h p (pos + length l + 1) (word_of_nat (length pre + length l + 1)))"
    using dns_compare_step [OF ch _ bs(2) ok(1), of pre "word_of_nat (length l')" "l' @ dns_enc ls @ 0 # rest" pos q off]
      label_length(3) [OF ok(2)] Cons.prems(1,3,4) by simp
  have "dns_compare_loop q h p (pos + length l + 1) (word_of_nat (length pre + length l + 1)) =
     Some (if labels_at q (pos + length l + 1) (l' # ls) then word_of_nat (length ?pre + length (dns_enc (l' # ls)) + 1) else 0xFFFF)"
    by (rule Cons.IH) (use Cons.prems in \<open>simp_all add: ac_simps\<close>)
  then show ?case unfolding step by (auto simp: ac_simps)
qed

section \<open>Skipping a name\<close>

lemma dns_skip_step:
  assumes pk: "packet h p as" and off: "unat off < length (pdata h as)"
  shows "dns_skip_name h p off =
     (let bs = pdata h as; n = bs ! unat off; k = unat off + 1 + unat n
      in if uint n AND 0xc0 = 0xc0 then Some (if off + 1 = 0xFFFF then 0xFFFF else off + 2)
         else if length bs \<le> k then Some 0xFFFF
         else if bs ! k \<noteq> 0 then dns_skip_name h p (word_of_nat k)
         else Some (word_of_nat (k + 1)))"
proof -
  let ?bs = "pdata h as"
  define n where "n = ?bs ! unat off"
  have ch: "pchain h p as" using pk by (simp add: packet_def)
  obtain b where b: "pbufs h p = Some b" "unat (tot_len b) = length ?bs" using pk by (auto elim: packet_head)
  have lb: "length ?bs < 65536" by (rule packet_small [OF pk])
  note g = pbuf_try_get_at_chain [OF ch]
  have o1: "unat (off + 1) = unat off + 1" using off lb by (simp add: unat_word_ariths)
  then have nz: "off + 1 \<noteq> 0" by (metis add_is_0 one_neq_zero unat_0)
  have first: "pbuf_try_get_at h p off = Some (uint n)" using off by (simp add: g n_def)
  have un: "uint n = int (unat n)" by simp
  have ge: "int (unat (off + 1)) + uint n \<ge> int (unat (tot_len b)) \<longleftrightarrow> length ?bs \<le> unat off + 1 + unat n"
    unfolding o1 b(2) un by linarith
  have two: "off + 1 + 1 = off + 2" by simp
  have head: "dns_skip_name h p off =
      (if uint n AND 0xc0 = 0xc0 then Some (if off + 1 = 0xFFFF then 0xFFFF else off + 2)
       else if length ?bs \<le> unat off + 1 + unat n then Some 0xFFFF
       else do { m \<leftarrow> pbuf_try_get_at h p (off + 1 + ucast n);
                 if m < 0 then Some 0xFFFF else if m \<noteq> 0 then dns_skip_name h p (off + 1 + ucast n)
                 else Some (if off + 1 + ucast n = 0xFFFF then 0xFFFF else off + 1 + ucast n + 1) })"
    using nz two by (subst dns_skip_name.simps) (simp add: first b(1) ge [simplified] Let_def)
  show ?thesis
  proof (cases "length ?bs \<le> unat off + 1 + unat n")
    case True
    then show ?thesis unfolding head by (simp add: n_def)
  next
    case False
    let ?k = "unat off + 1 + unat n"
    have k: "off + 1 + ucast n = word_of_nat ?k" by (simp add: add.commute)
    have uk: "unat (word_of_nat ?k :: u16) = ?k" using False lb by (intro unat_u16_of_nat) linarith
    have ne: "word_of_nat ?k \<noteq> (0xFFFF :: u16)" using uk False lb by (auto simp: word_unat_eq_iff simp del: of_nat_add)
    have nx: "pbuf_try_get_at h p (word_of_nat ?k) = Some (uint (?bs ! ?k))" using False by (simp only: g uk) simp
    show ?thesis unfolding head k using False nx ne by (simp add: n_def [symmetric] Let_def add.commute uint_0_iff)
  qed
qed

text \<open>The walk over a name ends for every packet, whatever its bytes: every round moves on.\<close>

lemma dns_skip_name_total:
  assumes pk: "packet h p as"
  shows "\<exists>r. dns_skip_name h p off = Some r \<and> (r = 0xFFFF \<or> unat off + 2 \<le> unat r \<and> unat r \<le> length (pdata h as) + 1)"
proof (induction "65536 - unat off" arbitrary: off rule: less_induct)
  case less
  let ?bs = "pdata h as"
  have ch: "pchain h p as" using pk by (simp add: packet_def)
  have lb: "length ?bs < 65536" by (rule packet_small [OF pk])
  show ?case
  proof (cases "unat off < length ?bs")
    case False
    then show ?thesis by (subst dns_skip_name.simps) (simp add: pbuf_try_get_at_chain [OF ch] Let_def)
  next
    case True
    let ?k = "unat off + 1 + unat (?bs ! unat off)"
    note st = dns_skip_step [OF pk True, unfolded Let_def]
    consider (ptr) "uint (?bs ! unat off) AND 0xc0 = 0xc0" | (out) "uint (?bs ! unat off) AND 0xc0 \<noteq> 0xc0" "length ?bs \<le> ?k"
      | (go) "uint (?bs ! unat off) AND 0xc0 \<noteq> 0xc0" "?k < length ?bs" "?bs ! ?k \<noteq> 0"
      | (fin) "uint (?bs ! unat off) AND 0xc0 \<noteq> 0xc0" "?k < length ?bs" "?bs ! ?k = 0" by linarith
    then show ?thesis
    proof cases
      case ptr
      have "unat (off + 2) = unat off + 2" if ne: "off + 1 \<noteq> 0xFFFF"
      proof -
        have "unat (off + 1) = unat off + 1" using True lb by (simp add: unat_word_ariths)
        then have "unat off + 1 \<noteq> 65535" using ne by (auto simp: word_unat_eq_iff)
        then show ?thesis using True lb by (simp add: unat_word_ariths)
      qed
      then show ?thesis using st ptr True by auto
    next
      case out
      then show ?thesis using st by simp
    next
      case go
      have uk: "unat (word_of_nat ?k :: u16) = ?k" using go(2) lb by (intro unat_u16_of_nat) linarith
      obtain r where r: "dns_skip_name h p (word_of_nat ?k) = Some r" "r = 0xFFFF \<or> unat (word_of_nat ?k :: u16) + 2 \<le> unat r \<and> unat r \<le> length ?bs + 1"
      proof -
        have "65536 - unat (word_of_nat ?k :: u16) < 65536 - unat off" using go(2) lb unfolding uk by linarith
        from less [OF this] show thesis using that by blast
      qed
      have "dns_skip_name h p off = Some r" using st go r(1) by simp
      then show ?thesis using r(2) unfolding uk by auto
    next
      case fin
      have "unat (word_of_nat (?k + 1) :: u16) = ?k + 1" using fin(2) lb by (intro unat_u16_of_nat) linarith
      moreover have "dns_skip_name h p off = Some (word_of_nat (?k + 1))" using st fin by simp
      ultimately show ?thesis using fin(2) by (intro exI conjI) (assumption, simp only:, simp)
    qed
  qed
qed

section \<open>Writing a query\<close>

text \<open>A packet beside the memory of the local variables.\<close>

definition beside_stack :: "nat \<Rightarrow> heap \<Rightarrow> nat \<Rightarrow> nat list \<Rightarrow> bool" where
  "beside_stack stk h p as \<longleftrightarrow>
     packet h p as \<and> disjoint_payloads h as \<and> stk \<noteq> 0 \<and> packet_region h as \<inter> {stk..<stk + 256} = {}"

lemma beside_stack_writes: "writes_only R h h' \<Longrightarrow> beside_stack stk h' p as = beside_stack stk h p as"
  by (simp add: beside_stack_def writes_only_packet disjoint_payloads_def writes_only_simps)

text \<open>What has been written when \<open>h'\<close> is reached: the bytes of the packet, and nothing outside it and the local variables.\<close>

definition wrote :: "nat \<Rightarrow> nat list \<Rightarrow> heap \<Rightarrow> u8 list \<Rightarrow> heap \<Rightarrow> bool" where
  "wrote stk as h bs h' \<longleftrightarrow> pdata h' as = bs \<and> writes_only (packet_region h as \<union> {stk..<stk + 256}) h h'"

lemma wrote_beside: "wrote stk as h bs h' \<Longrightarrow> beside_stack stk h p as \<Longrightarrow> beside_stack stk h' p as"
  using beside_stack_writes by (auto simp: wrote_def)

lemma wrote_trans:
  assumes "wrote stk as h bs h1" "wrote stk as h1 bs' h2"
  shows "wrote stk as h bs' h2"
proof -
  have w: "writes_only (packet_region h as \<union> {stk..<stk + 256}) h h1" using assms(1) by (simp add: wrote_def)
  moreover have "writes_only (packet_region h as \<union> {stk..<stk + 256}) h1 h2"
    using assms(2) writes_only_simps(4) [OF w] by (simp add: wrote_def)
  ultimately show ?thesis using assms(2) writes_only_trans by (simp add: wrote_def)
qed

lemma local_written:
  assumes bs: "beside_stack stk h p as" and xs: "length xs \<le> 256"
  shows "beside_stack stk (write_bytes stk xs h) p as" "pdata (write_bytes stk xs h) as = pdata h as"
    "packet_region (write_bytes stk xs h) as = packet_region h as" "writes_only {stk..<stk + 256} h (write_bytes stk xs h)"
    "rd (write_bytes stk xs h) stk (length xs) = xs"
proof -
  show w: "writes_only {stk..<stk + 256} h (write_bytes stk xs h)" using xs by (intro writes_only_write) auto
  show "beside_stack stk (write_bytes stk xs h) p as" using beside_stack_writes [OF w] bs by simp
  show "packet_region (write_bytes stk xs h) as = packet_region h as" using writes_only_simps(4) [OF w] by simp
  show "pdata (write_bytes stk xs h) as = pdata h as" using writes_only_pdata [OF w] bs by (simp add: beside_stack_def)
  show "rd (write_bytes stk xs h) stk (length xs) = xs" by (rule rd_write_same)
qed

lemma put_local:
  assumes bs: "beside_stack stk h p as" and xs: "length xs \<le> 256" and off: "unat off < length (pdata h as)" "unat off + length xs \<le> length (pdata h as)"
  shows "\<exists>h'. pbuf_take_at p stk (word_of_nat (length xs)) off (write_bytes stk xs h) = Some (ERR_OK, h') \<and>
     wrote stk as h (overwrite (pdata h as) (unat off) xs) h'"
proof -
  note l = local_written [OF bs xs]
  have n: "unat (word_of_nat (length xs) :: u16) = length xs" using xs by (intro unat_u16_of_nat) simp
  have "packet_region (write_bytes stk xs h) as \<inter> {stk..<stk + length xs} = {}" using bs xs unfolding l(3) beside_stack_def by fastforce
  then obtain h' where h': "pbuf_take_at p stk (word_of_nat (length xs)) off (write_bytes stk xs h) = Some (ERR_OK, h')"
      "pdata h' as = overwrite (pdata h as) (unat off) xs" "writes_only (packet_region h as) (write_bytes stk xs h) h'"
    using pbuf_take_at_data [of "write_bytes stk xs h" p as stk "word_of_nat (length xs)" off] l off n by (auto simp: beside_stack_def)
  have "writes_only (packet_region h as \<union> {stk..<stk + 256}) h h'"
    by (rule writes_only_trans [OF writes_only_mono [OF l(4)] writes_only_mono [OF h'(3)]]) auto
  then show ?thesis using h' by (auto simp: wrote_def)
qed

lemma take_local:
  assumes bs: "beside_stack stk h p as" and xs: "length xs \<le> 256" "length xs \<le> length (pdata h as)"
  shows "\<exists>h'. pbuf_take p stk (word_of_nat (length xs)) (write_bytes stk xs h) = Some (ERR_OK, h') \<and>
     wrote stk as h (overwrite (pdata h as) 0 xs) h'"
proof -
  note l = local_written [OF bs xs(1)]
  have n: "unat (word_of_nat (length xs) :: u16) = length xs" using xs by (intro unat_u16_of_nat) simp
  have "packet_region (write_bytes stk xs h) as \<inter> {stk..<stk + length xs} = {}" using bs xs unfolding l(3) beside_stack_def by fastforce
  then obtain h' where h': "pbuf_take p stk (word_of_nat (length xs)) (write_bytes stk xs h) = Some (ERR_OK, h')"
      "pdata h' as = overwrite (pdata h as) 0 xs" "writes_only (packet_region h as) (write_bytes stk xs h) h'"
    using pbuf_take_data [of "write_bytes stk xs h" p as stk "word_of_nat (length xs)"] l xs(2) n by (auto simp: beside_stack_def)
  have "writes_only (packet_region h as \<union> {stk..<stk + 256}) h h'"
    by (rule writes_only_trans [OF writes_only_mono [OF l(4)] writes_only_mono [OF h'(3)]]) auto
  then show ?thesis using h' by (auto simp: wrote_def)
qed

lemma put_byte:
  assumes bs: "beside_stack stk h p as" and off: "unat off < length (pdata h as)"
  shows "\<exists>h'. pbuf_put_at p off x h = Some h' \<and> wrote stk as h ((pdata h as)[unat off := x]) h'"
  using pbuf_put_at_data [of h p as off x] bs off writes_only_mono by (fastforce simp: wrote_def beside_stack_def)

text \<open>A name as the client writes it, with dots between the labels.\<close>

fun dotted :: "u8 list list \<Rightarrow> u8 list" where
  "dotted [] = []"
| "dotted [l] = l"
| "dotted (l # l' # ls) = l @ 46 # dotted (l' # ls)"

lemma dns_encode_step:
  assumes bs: "beside_stack stk h p as" and nm: "drop pos name = l @ x # rest" "x = 46 \<or> x = 0" "46 \<notin> set l" "0 \<notin> set l" "length l < 256"
    and d: "pdata h as = pre @ junk" "qi = word_of_nat (length pre)" "length l + 1 < length junk"
  shows "\<exists>h'. wrote stk as h (pre @ word_of_nat (length l) # l @ drop (length l + 1) junk) h' \<and>
     dns_encode_loop stk name p pos qi h =
       (if x \<noteq> 0 then dns_encode_loop stk name p (pos + length l + 1) (word_of_nat (length pre + length l + 1)) h'
        else Some (Inr (word_of_nat (length pre + length l + 1), h')))"
proof -
  let ?n = "word_of_nat (length l) :: u8"
  have part: "takeWhile (\<lambda>c. c \<noteq> 46 \<and> c \<noteq> 0) (drop pos name) = l" unfolding nm(1) using nm(2-4) by (subst takeWhile_append2) auto
  have "length (drop pos name) = length l + 1 + length rest" unfolding nm(1) by simp
  then have ps: "pos + length l < length name" by simp
  then have "name ! (pos + length l) = drop pos name ! length l" by (simp add: add.commute)
  then have stop: "arr_at name (pos + length l) = Some x" unfolding nm(1) using ps by (simp add: arr_at_def)
  have lb: "length (pdata h as) < 65536" using bs packet_small by (auto simp: beside_stack_def)
  have un: "unat ?n = length l" using nm(5) by (simp add: unsigned_of_nat take_bit_nat_eq_self)
  have uq: "unat qi = length pre" "unat (qi + 1) = length pre + 1"
    using unat_u16_of_nat [of "length pre"] unat_u16_of_nat [of "length pre + 1"] lb d by (simp_all add: add.commute)
  obtain y junk' where j: "junk = y # junk'" using d(3) by (cases junk) auto
  have jn: "junk' \<noteq> []" "length l < length junk'" using d(3) j by auto
  have pre1: "(pdata h as)[length pre := ?n] = (pre @ [?n]) @ junk'" unfolding d(1) j by (simp add: list_update_append)
  obtain h1 where h1: "pbuf_put_at p qi ?n h = Some h1" "wrote stk as h ((pre @ [?n]) @ junk') h1"
    using put_byte [OF bs, of qi ?n] uq(1) d(1) j pre1 by auto
  have bs1: "beside_stack stk h1 p as" by (rule wrote_beside [OF h1(2) bs])
  have pd1: "pdata h1 as = (pre @ [?n]) @ junk'" using h1(2) by (simp add: wrote_def)
  have ov: "overwrite (pdata h1 as) (length pre + 1) l = pre @ ?n # l @ drop (length l + 1) junk"
    unfolding pd1 using overwrite_append2 [of "pre @ [?n]" junk' 0 l] by (simp add: overwrite_def j)
  obtain h' where h': "pbuf_take_at p stk (word_of_nat (length l)) (qi + 1) (write_bytes stk l h1) = Some (ERR_OK, h')"
      "wrote stk as h1 (pre @ ?n # l @ drop (length l + 1) junk) h'"
    using put_local [OF bs1, of l "qi + 1"] nm(5) uq(2) jn pd1 ov by auto
  have nq: "qi + ucast ?n + 1 = word_of_nat (length pre + length l + 1)"
  proof -
    have "word_of_nat (unat ?n) = (ucast ?n :: u16)" by simp
    then have "ucast ?n = (word_of_nat (length l) :: u16)" unfolding un by simp
    then show ?thesis by (simp add: d(2))
  qed
  have "\<not> unat qi + unat ?n + 1 > 0xFFFF" using un uq(1) d(1,3) lb by simp
  then have "dns_encode_loop stk name p pos qi h =
       (if x \<noteq> 0 then dns_encode_loop stk name p (pos + length l + 1) (qi + ucast ?n + 1) h' else Some (Inr (qi + ucast ?n + 1, h')))"
    using stop h1(1) h'(1) by (subst dns_encode_loop.simps) (simp add: part Let_def)
  then show ?thesis using wrote_trans [OF h1(2) h'(2)] unfolding nq by blast
qed

lemma dns_encode_loop_spec:
  assumes "beside_stack stk h p as" "drop pos name = dotted ls @ 0 # rest" "ls \<noteq> []" "\<forall>l \<in> set ls. 46 \<notin> set l \<and> 0 \<notin> set l \<and> length l < 256"
    "pdata h as = pre @ junk" "qi = word_of_nat (length pre)" "length (dns_enc ls) < length junk"
  shows "\<exists>h'. wrote stk as h (pre @ dns_enc ls @ drop (length (dns_enc ls)) junk) h' \<and>
     dns_encode_loop stk name p pos qi h = Some (Inr (word_of_nat (length pre + length (dns_enc ls)), h'))"
  using assms
proof (induction ls arbitrary: h pos pre junk qi rule: dotted.induct)
  case (2 l)
  then show ?case using dns_encode_step [of stk h p as pos name l 0 rest pre junk qi] by auto
next
  case (3 l l' ls)
  have nm: "drop pos name = l @ 46 # dotted (l' # ls) @ 0 # rest" using "3.prems"(2) by simp
  obtain h1 where h1: "wrote stk as h (pre @ word_of_nat (length l) # l @ drop (length l + 1) junk) h1"
     "dns_encode_loop stk name p pos qi h = dns_encode_loop stk name p (pos + length l + 1) (word_of_nat (length pre + length l + 1)) h1"
    using dns_encode_step [OF "3.prems"(1) nm _ _ _ _ "3.prems"(5,6)] "3.prems"(4,7) by auto
  let ?pre = "pre @ word_of_nat (length l) # l" and ?junk = "drop (length l + 1) junk"
  have "drop (length l + 1) (drop pos name) = dotted (l' # ls) @ 0 # rest" unfolding nm by simp
  then have dr: "drop (pos + length l + 1) name = dotted (l' # ls) @ 0 # rest" by (simp add: ac_simps)
  have "\<exists>h'. wrote stk as h1 (?pre @ dns_enc (l' # ls) @ drop (length (dns_enc (l' # ls))) ?junk) h' \<and>
     dns_encode_loop stk name p (pos + length l + 1) (word_of_nat (length pre + length l + 1)) h1 =
       Some (Inr (word_of_nat (length ?pre + length (dns_enc (l' # ls))), h'))"
    by (rule "3.IH" [OF wrote_beside [OF h1(1) "3.prems"(1)] dr])
      (use "3.prems"(4,7) h1(1) in \<open>auto simp: wrote_def\<close>)
  then obtain h' where h': "wrote stk as h1 (?pre @ dns_enc (l' # ls) @ drop (length (dns_enc (l' # ls))) ?junk) h'"
     "dns_encode_loop stk name p (pos + length l + 1) (word_of_nat (length pre + length l + 1)) h1 =
       Some (Inr (word_of_nat (length ?pre + length (dns_enc (l' # ls))), h'))" by blast
  have "?pre @ dns_enc (l' # ls) @ drop (length (dns_enc (l' # ls))) ?junk =
      pre @ dns_enc (l # l' # ls) @ drop (length (dns_enc (l # l' # ls))) junk" by (simp add: ac_simps)
  then have "wrote stk as h (pre @ dns_enc (l # l' # ls) @ drop (length (dns_enc (l # l' # ls))) junk) h'"
    using wrote_trans [OF h1(1) h'(1)] by simp
  then show ?case using h1(2) h'(2) by (auto simp: ac_simps)
qed simp

lemma dotted_length: "ls \<noteq> [] \<Longrightarrow> length (dns_enc ls) = length (dotted ls) + 1"
  by (induction ls rule: dotted.induct) auto

lemma dotted_no_zero: "\<forall>l \<in> set ls. 0 \<notin> set l \<Longrightarrow> 0 \<notin> set (dotted ls)"
  by (induction ls rule: dotted.induct) auto

text \<open>A name that can be asked for: labels of 1 to 63 characters, at most 255 characters in all.\<close>

definition host_name :: "u8 list list \<Rightarrow> bool" where
  "host_name ls \<longleftrightarrow> ls \<noteq> [] \<and> (\<forall>l \<in> set ls. label_ok l \<and> 46 \<notin> set l \<and> 0 \<notin> set l) \<and> length (dotted ls) < 256"

definition name_array :: "u8 list list \<Rightarrow> u8 list \<Rightarrow> bool" where
  "name_array ls arr \<longleftrightarrow> length arr = 256 \<and> (\<exists>rest. arr = dotted ls @ 0 # rest)"

lemma labels_at_dotted: "labels_at (xs @ dotted ls @ ys) (length xs) ls"
proof (induction ls arbitrary: xs rule: dotted.induct)
  case (3 l l' ls)
  show ?case using "3.IH" [of "xs @ l @ [46]"] by (simp add: ac_simps)
qed simp_all

lemma dns_write_query_spec:
  assumes bs: "beside_stack stk h p as" and ls: "host_name ls" "name_array ls (te_name en)"
    and n: "length (pdata h as) = 12 + length (c_string (te_name en)) + 2 + 4"
  shows "\<exists>h'. dns_write_query stk en p h = Some (Inr h') \<and>
     wrote stk as h (dns_query_header (te_txid en) @ dns_enc ls @ 0 # dns_query_tail) h'"
proof -
  obtain rest where nm: "te_name en = dotted ls @ 0 # rest" using ls(2) by (auto simp: name_array_def)
  have lok: "ls \<noteq> []" "\<forall>l \<in> set ls. 46 \<notin> set l \<and> 0 \<notin> set l \<and> length l < 256" using ls(1) by (auto simp: host_name_def label_ok_def)
  let ?hdr = "dns_query_header (te_txid en)" and ?n = "length (dns_enc ls)"
  have hl: "length ?hdr = 12" "length dns_query_tail = 4" by (simp_all add: dns_query_header_def dns_query_tail_def store16_def)
  have tot: "length (pdata h as) = 12 + (?n + 5)"
    using n dotted_length [OF lok(1)] dotted_no_zero [of ls] lok(2) nm by simp
  have sm: "?n \<le> 256" using dotted_length [OF lok(1)] ls(1) by (simp add: host_name_def)
  define junk where "junk = drop 12 (pdata h as)"
  have jl: "length junk = ?n + 5" using tot by (simp add: junk_def)
  have "overwrite (pdata h as) 0 ?hdr = ?hdr @ junk" using hl(1) by (simp add: overwrite_def junk_def)
  then obtain h1 where h1: "pbuf_take p stk 12 (write_bytes stk ?hdr h) = Some (ERR_OK, h1)" "wrote stk as h (?hdr @ junk) h1"
    using take_local [OF bs, of ?hdr] hl(1) tot by auto
  have b1: "beside_stack stk h1 p as" by (rule wrote_beside [OF h1(2) bs])
  obtain h2 where h2: "wrote stk as h1 (?hdr @ dns_enc ls @ drop ?n junk) h2"
      "dns_encode_loop stk (te_name en) p 0 12 h1 = Some (Inr (word_of_nat (12 + ?n), h2))"
    using dns_encode_loop_spec [OF b1 _ lok, of 0 "te_name en" rest ?hdr junk 12] h1(2) nm hl(1) jl by (auto simp: wrote_def)
  have b2: "beside_stack stk h2 p as" by (rule wrote_beside [OF h2(1) b1])
  have uq: "unat (word_of_nat (12 + ?n) :: u16) = 12 + ?n" "unat (word_of_nat (12 + ?n) + 1 :: u16) = 13 + ?n"
    using unat_u16_of_nat [of "12 + ?n"] unat_u16_of_nat [of "13 + ?n"] sm by (simp_all add: add.commute)
  have jd: "length (drop ?n junk) = 5" using jl by simp
  obtain y ys where j: "drop ?n junk = y # ys" "length ys = 4"
  proof (cases "drop ?n junk")
    case Nil
    then show thesis using jd by simp
  next
    case (Cons y ys)
    then show thesis using that [of y ys] jd by simp
  qed
  have pd2: "pdata h2 as = (?hdr @ dns_enc ls) @ y # ys" using h2(1) j by (simp add: wrote_def)
  have "(pdata h2 as)[12 + ?n := 0] = (?hdr @ dns_enc ls) @ 0 # ys"
    unfolding pd2 using list_update_length [of "?hdr @ dns_enc ls" y ys 0] hl(1) by simp
  then obtain h3 where h3: "pbuf_put_at p (word_of_nat (12 + ?n)) 0 h2 = Some h3" "wrote stk as h2 ((?hdr @ dns_enc ls) @ 0 # ys) h3"
    using put_byte [OF b2, of "word_of_nat (12 + ?n)" 0] pd2 hl(1) unfolding uq(1) by auto
  have b3: "beside_stack stk h3 p as" by (rule wrote_beside [OF h3(2) b2])
  have pd3: "pdata h3 as = (?hdr @ dns_enc ls @ [0]) @ ys" using h3(2) by (simp add: wrote_def)
  have "overwrite (pdata h3 as) (13 + ?n) dns_query_tail = ?hdr @ dns_enc ls @ 0 # dns_query_tail"
    unfolding pd3 using overwrite_append2 [of "?hdr @ dns_enc ls @ [0]" ys 0 dns_query_tail] hl j(2) by (simp add: overwrite_def)
  then obtain h4 where h4: "pbuf_take_at p stk 4 (word_of_nat (12 + ?n) + 1) (write_bytes stk dns_query_tail h3) = Some (ERR_OK, h4)"
      "wrote stk as h3 (?hdr @ dns_enc ls @ 0 # dns_query_tail) h4"
    using put_local [OF b3, of dns_query_tail "word_of_nat (12 + ?n) + 1"] pd3 hl j(2) unfolding uq(2) by auto
  have "dns_write_query stk en p h = Some (Inr h4)"
    unfolding dns_write_query_def using h1(1) h2(2) h3(1) h4(1) by simp
  moreover have "wrote stk as h (?hdr @ dns_enc ls @ 0 # dns_query_tail) h4"
    by (rule wrote_trans [OF wrote_trans [OF wrote_trans [OF h1(2) h2(1)] h3(2)] h4(2)])
  ultimately show ?thesis by blast
qed

end
