(* ===== verification/Dns_Props.thy ===== *)
theory Dns_Props
  imports Dns_Name Udp_Props Ip4_Frags
begin

text \<open>
  Which answers the DNS client takes, and the properties of the client.
\<close>

section \<open>The question\<close>

text \<open>The comparison with the name of an entry accepts a question about that name.\<close>

lemma dns_compare_name_asked:
  assumes ch: "pchain h p as" and d: "pdata h as = pre @ dns_enc ls @ 0 # rest" "length (pdata h as) < 65536"
    and ls: "host_name ls" "name_array ls arr" and off: "off = word_of_nat (length pre)"
  shows "dns_compare_name arr h p off = Some (word_of_nat (length pre + length (dns_enc ls) + 1))"
proof -
  obtain l ls' where l: "ls = l # ls'" using ls(1) by (cases ls) (auto simp: host_name_def)
  obtain rest' where a: "arr = dotted ls @ 0 # rest'" "length arr = 256" using ls(2) by (auto simp: name_array_def)
  have "length (dns_enc ls) \<le> length arr" using a(2) dotted_length [of ls] ls(1) by (simp add: host_name_def)
  moreover have "labels_at arr 0 ls" using labels_at_dotted [of "[]" ls "0 # rest'"] a(1) by simp
  ultimately show ?thesis
    using dns_compare_loop_spec [OF ch d(1) [unfolded l] d(2), of 0 arr off] ls(1) off l by (simp add: dns_compare_name_def host_name_def)
qed

section \<open>Receiving\<close>

text \<open>Reading a field of a message given by its bytes.\<close>

definition le16 :: "u8 list \<Rightarrow> nat \<Rightarrow> u16" where
  "le16 bs i = word_of_nat (unat (bs ! i) + 256 * unat (bs ! (i + 1)))"

definition dns_hdr_of :: "u8 list \<Rightarrow> dns_hdr" where
  "dns_hdr_of bs =
     \<lparr>hdr_id = le16 bs 0, hdr_flags1 = bs ! 2, hdr_flags2 = bs ! 3, hdr_numquestions = le16 bs 4, hdr_numanswers = le16 bs 6\<rparr>"

lemma read_local_spec:
  assumes "beside_stack stk h p as" "unat n \<le> 256"
  shows "read_local stk h p n off =
     (let xs = take (unat n) (drop (unat off) (pdata h as)) in Some (word_of_nat (length xs), bytes (write_bytes stk xs h)))"
proof -
  have "packet_region h as \<inter> {stk..<stk + unat n} = {}" using assms unfolding beside_stack_def by fastforce
  then show ?thesis
    using pbuf_copy_partial_data [of h p as stk n off] assms(1) by (simp add: read_local_def beside_stack_def packet_def Let_def)
qed

lemma read_local_all:
  assumes "beside_stack stk h p as" "take (unat n) (drop (unat off) (pdata h as)) = xs" "length xs = unat n" "unat n \<le> 256"
  shows "read_local stk h p n off = Some (n, bytes (write_bytes stk xs h))"
  using read_local_spec [OF assms(1,4), of off] unfolding Let_def assms(2,3) by simp

lemma rd_local: "take n (drop i xs) = ys \<Longrightarrow> length ys = n \<Longrightarrow> rd (write_bytes stk xs h) (stk + i) n = ys"
  by (intro nth_equalityI) (auto simp: bytes_write)

lemma load_local: "i + 1 < length xs \<Longrightarrow> load16 (bytes (write_bytes stk xs h)) (stk + i) = le16 xs i"
  by (simp add: load16_def le16_def bytes_write)

lemma load_dns_hdr_local:
  assumes "length xs = 12"
  shows "load_dns_hdr (bytes (write_bytes stk xs h)) stk = dns_hdr_of xs"
  using load_local [of 0 xs stk h] load_local [of 4 xs stk h] load_local [of 6 xs stk h] assms
  by (simp add: load_dns_hdr_def dns_hdr_of_def bytes_write)

lemma dns_hdr_of_take: "dns_hdr_of (take 12 bs) = dns_hdr_of bs"
  by (simp add: dns_hdr_of_def le16_def)

lemma dns_recv_run:
  assumes bs: "beside_stack (dns_stack e) (dns_heap s) p as"
  shows "dns_recv e p addr s =
     (let bs = pdata (dns_heap s) as
      in if length bs < 16 then dns_pbuf_free e p s
         else case dns_asked (lwip_htons (le16 bs 0)) s of
                None \<Rightarrow> dns_pbuf_free e p s
              | Some i \<Rightarrow> dns_response e p addr i (dns_hdr_of bs) s)"
proof -
  let ?bs = "pdata (dns_heap s) as"
  obtain b where b: "pbufs (dns_heap s) p = Some b" "unat (tot_len b) = length ?bs" using bs by (auto simp: beside_stack_def elim: packet_head)
  show ?thesis
  proof (cases "length ?bs < 16")
    case True
    then show ?thesis using b by (simp add: dns_recv_def)
  next
    case False
    let ?xs = "take 12 ?bs"
    have xl: "length ?xs = 12" using False by simp
    have rl: "read_local (dns_stack e) (dns_heap s) p 12 0 = Some (12, bytes (write_bytes (dns_stack e) ?xs (dns_heap s)))"
      using xl by (intro read_local_all [OF bs]) simp_all
    have id: "hdr_id (dns_hdr_of ?bs) = le16 ?bs 0" by (simp add: dns_hdr_of_def)
    have hd: "load_dns_hdr (bytes (write_bytes (dns_stack e) ?xs (dns_heap s))) (dns_stack e) = dns_hdr_of ?bs"
      using load_dns_hdr_local [OF xl] dns_hdr_of_take by metis
    have "dns_recv e p addr s =
       (case dns_asked (lwip_htons (hdr_id (dns_hdr_of ?bs))) s of
          None \<Rightarrow> dns_pbuf_free e p s
        | Some i \<Rightarrow> dns_response e p addr i (dns_hdr_of ?bs) s)"
      using False b by (simp add: dns_recv_def rl hd Let_def split: option.split)
    then show ?thesis using False by (simp add: id Let_def)
  qed
qed

text \<open>What an answer to the query of an entry must have: the identifier, the flag of a response, one question, which is about the name
  of the entry, and the address of the server that was asked (RFC 5452).\<close>

definition dns_plausible :: "dns_state \<Rightarrow> nat \<Rightarrow> u8 list \<Rightarrow> u32 \<Rightarrow> dns_table_entry \<Rightarrow> bool" where
  "dns_plausible s p bs addr en \<longleftrightarrow>
     te_state en = DNS_STATE_ASKING \<and> te_txid en = lwip_htons (le16 bs 0) \<and> bs ! 2 AND DNS_FLAG1_RESPONSE \<noteq> 0 \<and>
     lwip_htons (le16 bs 4) = 1 \<and> (te_is_mdns en \<or> addr = dns_servers s ! unat (te_server_idx en)) \<and>
     dns_compare_name (te_name en) (dns_heap s) p 12 \<noteq> Some 0xFFFF"

definition servers_ok :: "dns_state \<Rightarrow> bool" where
  "servers_ok s \<longleftrightarrow> length (dns_servers s) = 2 \<and> (\<forall>en \<in> set (dns_table s). te_server_idx en < DNS_MAX_SERVERS)"

lemma dns_server_there:
  assumes "servers_ok s" "i < length (dns_table s)"
  shows "arr_at (dns_servers s) (unat (te_server_idx (dns_table s ! i))) = Some (dns_servers s ! unat (te_server_idx (dns_table s ! i)))"
proof -
  have "dns_table s ! i \<in> set (dns_table s)" using assms(2) by simp
  then have "te_server_idx (dns_table s ! i) < 2" using assms(1) unfolding servers_ok_def by blast
  then have "unat (te_server_idx (dns_table s ! i)) < 2" by (simp add: word_less_nat_alt)
  then show ?thesis using assms(1) by (simp add: arr_at_def servers_ok_def)
qed

lemma dns_response_rejects:
  assumes i: "i < length (dns_table s)" and ok: "servers_ok s"
    and asking: "te_state (dns_table s ! i) = DNS_STATE_ASKING" "te_txid (dns_table s ! i) = lwip_htons (le16 bs 0)"
    and no: "\<not> dns_plausible s p bs addr (dns_table s ! i)"
  shows "dns_response e p addr i (dns_hdr_of bs) s = dns_pbuf_free e p s"
proof -
  let ?en = "dns_table s ! i"
  note sv = dns_server_there [OF ok i]
  have en: "arr_at (dns_table s) i = Some ?en" using i by (simp add: arr_at_def)
  have fl: "hdr_flags1 (dns_hdr_of bs) = bs ! 2" "hdr_numquestions (dns_hdr_of bs) = le16 bs 4" by (simp_all add: dns_hdr_of_def)
  from no asking consider "bs ! 2 AND 0x80 = 0" | "lwip_htons (le16 bs 4) \<noteq> 1"
    | "\<not> te_is_mdns ?en" "addr \<noteq> dns_servers s ! unat (te_server_idx ?en)"
    | "dns_compare_name (te_name ?en) (dns_heap s) p 12 = Some 0xFFFF" unfolding dns_plausible_def by blast
  then show ?thesis
  proof cases
    case 4
    then have "dns_question (dns_stack e) (dns_heap s) p ?en = Some None" by (simp add: dns_question_def)
    then show ?thesis using sv by (simp add: dns_response_def en fl)
  qed (use sv in \<open>simp_all add: dns_response_def en fl\<close>)
qed

lemma dns_recv_implausible:
  assumes bs: "beside_stack (dns_stack e) (dns_heap s) p as" and ok: "servers_ok s"
    and no: "\<forall>en \<in> set (dns_table s). \<not> dns_plausible s p (pdata (dns_heap s) as) addr en"
  shows "dns_recv e p addr s = dns_pbuf_free e p s"
proof (cases "dns_asked (lwip_htons (le16 (pdata (dns_heap s) as) 0)) s")
  case None
  then show ?thesis using dns_recv_run [OF bs] by (simp add: Let_def)
next
  case (Some i)
  then have i: "i < length (dns_table s)" "te_state (dns_table s ! i) = DNS_STATE_ASKING"
      "te_txid (dns_table s ! i) = lwip_htons (le16 (pdata (dns_heap s) as) 0)"
    by (auto simp: dns_asked_def find_Some_iff)
  then have "\<not> dns_plausible s p (pdata (dns_heap s) as) addr (dns_table s ! i)" using no by simp
  from dns_response_rejects [OF i(1) ok i(2,3) this] show ?thesis using dns_recv_run [OF bs] Some by (simp add: Let_def)
qed

section \<open>Taking an answer\<close>

lemma load16_local: "take 2 (drop i xs) = be16 w \<Longrightarrow> load16 (bytes (write_bytes stk xs h)) (stk + i) = PP_HTONS w"
  by (intro load16_be16 rd_local) (simp_all add: be16_def)

lemma load32_local: "take 4 (drop i xs) = addr_bytes w \<Longrightarrow> load32 (bytes (write_bytes stk xs h)) (stk + i) = w"
  by (intro load32_addr_bytes rd_local) (simp_all add: addr_bytes_def)

lemma le16_be16:
  assumes "take 2 (drop i xs) = be16 w"
  shows "le16 xs i = PP_HTONS w"
proof -
  have "length (take 2 (drop i xs)) = 2" unfolding assms by (simp add: be16_def)
  then have "i + 1 < length xs" by simp
  then show ?thesis using load_local [of i xs 0 undefined] load16_local [OF assms, of 0 undefined] by simp
qed

text \<open>A reply to the query for \<open>ls\<close> with the identifier \<open>txid\<close>: the question repeated, and a first answer whose name is a pointer, with
  the address \<open>a\<close> and the time to live \<open>ttl\<close>.\<close>

definition dns_record :: "u8 \<Rightarrow> u32 \<Rightarrow> u32 \<Rightarrow> u8 list" where
  "dns_record ptr ttl a = [0xC0, ptr] @ be16 1 @ be16 1 @ addr_bytes (lwip_htonl ttl) @ be16 4 @ addr_bytes a"

definition dns_reply_for :: "u16 \<Rightarrow> u8 list list \<Rightarrow> u32 \<Rightarrow> u32 \<Rightarrow> u8 list \<Rightarrow> bool" where
  "dns_reply_for txid ls ttl a bs \<longleftrightarrow>
     (\<exists>f1 f2 n counts ptr rest. f1 AND DNS_FLAG1_RESPONSE \<noteq> 0 \<and> f2 AND DNS_FLAG2_ERR_MASK = 0 \<and> n \<noteq> 0 \<and> length counts = 4 \<and>
        bs = (be16 txid @ [f1, f2] @ be16 1 @ be16 n @ counts) @ dns_enc ls @ 0 # dns_query_tail @ dns_record ptr ttl a @ rest)"

lemma dns_question_reply:
  assumes bs: "beside_stack stk h p as" and ls: "host_name ls" "name_array ls (te_name en)"
    and d: "pdata h as = hdr @ dns_enc ls @ 0 # dns_query_tail @ rest" "length hdr = 12"
  shows "dns_question stk h p en = Some (Some (word_of_nat (17 + length (dns_enc ls))))"
proof -
  let ?n = "length (dns_enc ls)"
  have pk: "packet h p as" using bs by (simp add: beside_stack_def)
  then have ch: "pchain h p as" and lb: "length (pdata h as) < 65536" using packet_small by (auto simp: packet_def)
  have sm: "?n \<le> 256" using dotted_length ls(1) by (simp add: host_name_def)
  have u: "unat (word_of_nat (13 + ?n) :: u16) = 13 + ?n" using sm by (intro unat_u16_of_nat) simp
  have cmp: "dns_compare_name (te_name en) h p 12 = Some (word_of_nat (13 + ?n))"
    using dns_compare_name_asked [OF ch d(1) lb ls] d(2) by simp
  have "take 4 (drop (13 + ?n) (pdata h as)) = dns_query_tail" unfolding d(1) using d(2) by (simp add: dns_query_tail_def be16_def)
  then have rl: "read_local stk h p 4 (word_of_nat (13 + ?n)) = Some (4, bytes (write_bytes stk dns_query_tail h))"
    by (intro read_local_all [OF bs]) (simp_all add: u [simplified] dns_query_tail_def be16_def)
  have ld: "load16 (bytes (write_bytes stk dns_query_tail h)) stk = PP_HTONS 1"
      "load16 (bytes (write_bytes stk dns_query_tail h)) (stk + 2) = PP_HTONS 1"
    using load16_local [of 0 dns_query_tail 1 stk h] load16_local [of 2 dns_query_tail 1 stk h] by (simp_all add: dns_query_tail_def be16_def)
  have "word_of_nat (13 + ?n) \<noteq> (0xFFFF :: u16)" using u sm by (auto simp: word_unat_eq_iff simp del: of_nat_add)
  moreover have "word_of_nat (13 + ?n) + 4 = (word_of_nat (17 + ?n) :: u16)" by simp
  ultimately show ?thesis using cmp rl ld u sm by (simp add: dns_question_def del: of_nat_add)
qed

lemma dns_answers_record:
  assumes bs: "beside_stack stk h p as" and d: "pdata h as = pre @ dns_record ptr ttl a @ rest" "i = word_of_nat (length pre)"
    and l: "length pre < 1000" and n: "n \<noteq> 0"
  shows "dns_answers stk h p n i = Some (Dns_Answer a ttl)"
proof -
  have pk: "packet h p as" using bs by (simp add: beside_stack_def)
  obtain b where b: "pbufs h p = Some b" "unat (tot_len b) = length (pdata h as)" using pk by (auto elim: packet_head)
  obtain m where m: "n = Suc m" using n by (cases n) auto
  have ln: "length (dns_record ptr ttl a) = 16" by (simp add: dns_record_def be16_def addr_bytes_def)
  have ui: "unat i = length pre" unfolding d(2) using l by (intro unat_u16_of_nat) simp
  have i2: "i + 2 = word_of_nat (length pre + 2)" "i + 2 + 10 = word_of_nat (length pre + 12)" by (simp_all add: d(2))
  have u2: "unat (i + 2) = length pre + 2" "unat (12 + i) = length pre + 12"
    using i2 unat_u16_of_nat [of "length pre + 2"] unat_u16_of_nat [of "length pre + 12"] l by (simp_all add: ac_simps)
  have lt: "i < tot_len b" using ln by (simp add: word_less_nat_alt b(2) ui d(1))
  have "pdata h as ! unat i = 0xC0" unfolding ui d(1) by (simp add: dns_record_def)
  moreover have "i + 1 \<noteq> 0xFFFF" using i2 u2 l by (auto simp: word_unat_eq_iff unat_word_ariths ui)
  ultimately have sk: "dns_skip_name h p i = Some (i + 2)" using dns_skip_step [OF pk, of i] ui ln by (simp add: d(1) Let_def)
  let ?xs = "be16 1 @ be16 1 @ addr_bytes (lwip_htonl ttl) @ be16 4"
  have "take 10 (drop (length pre + 2) (pdata h as)) = ?xs" "take 4 (drop (length pre + 12) (pdata h as)) = addr_bytes a"
    by (simp_all add: d(1) dns_record_def be16_def addr_bytes_def)
  then have rl: "read_local stk h p 10 (i + 2) = Some (10, bytes (write_bytes stk ?xs h))"
      "read_local stk h p 4 (12 + i) = Some (4, bytes (write_bytes stk (addr_bytes a) h))"
    using u2 by (intro read_local_all [OF bs]; simp add: be16_def addr_bytes_def)+
  have ld: "load16 (bytes (write_bytes stk ?xs h)) stk = PP_HTONS 1" "load16 (bytes (write_bytes stk ?xs h)) (stk + 2) = PP_HTONS 1"
      "load32 (bytes (write_bytes stk ?xs h)) (stk + 4) = lwip_htonl ttl" "load16 (bytes (write_bytes stk ?xs h)) (stk + 8) = PP_HTONS 4"
    using load16_local [of 0 ?xs 1 stk h] load16_local [of 2 ?xs 1 stk h] load32_local [of 4 ?xs "lwip_htonl ttl" stk h]
      load16_local [of 8 ?xs 4 stk h] by (simp_all add: be16_def addr_bytes_def)
  have la: "load32 (bytes (write_bytes stk (addr_bytes a) h)) stk = a" by (rule load32_addr_write)
  have "i + 2 \<noteq> 0xFFFF" using u2(1) l by (auto simp: word_unat_eq_iff)
  then show ?thesis using b(1) lt sk rl ld la u2 l by (simp add: m Let_def)
qed

text \<open>A reply from the server that was asked is taken: the address goes into the entry, the packet is freed, and the query ends with
  the time to live of the answer.\<close>

lemma dns_recv_reply:
  assumes bs: "beside_stack (dns_stack e) (dns_heap s) p as" and ok: "servers_ok s" and i: "dns_asked txid s = Some i"
    and en: "dns_table s ! i = en" and sv: "te_is_mdns en \<or> addr = dns_servers s ! unat (te_server_idx en)"
    and ls: "host_name ls" "name_array ls (te_name en)" and re: "dns_reply_for txid ls ttl a (pdata (dns_heap s) as)"
  shows "dns_recv e p addr s =
     do { s \<leftarrow> upd_entry i (\<lambda>en. en\<lparr>te_ipaddr := a\<rparr>) s; s \<leftarrow> dns_pbuf_free e p s; dns_correct_response e i ttl s }"
proof -
  let ?bs = "pdata (dns_heap s) as"
  obtain f1 f2 n counts ptr rest where f: "f1 AND DNS_FLAG1_RESPONSE \<noteq> 0" "f2 AND DNS_FLAG2_ERR_MASK = 0" "n \<noteq> 0" "length counts = 4"
      and d: "?bs = (be16 txid @ [f1, f2] @ be16 1 @ be16 n @ counts) @ dns_enc ls @ 0 # dns_query_tail @ dns_record ptr ttl a @ rest"
    using re unfolding dns_reply_for_def by blast
  let ?rest = "dns_enc ls @ 0 # dns_query_tail @ dns_record ptr ttl a @ rest"
  have sm: "length (dns_enc ls) \<le> 256" using dotted_length ls(1) by (simp add: host_name_def)
  have l16: "16 \<le> length ?bs" unfolding d by (simp add: be16_def f(4) dns_query_tail_def)
  have hdr: "dns_hdr_of ?bs = \<lparr>hdr_id = PP_HTONS txid, hdr_flags1 = f1, hdr_flags2 = f2, hdr_numquestions = PP_HTONS 1, hdr_numanswers = PP_HTONS n\<rparr>"
    using le16_be16 [of 0 ?bs txid] le16_be16 [of 4 ?bs 1] le16_be16 [of 6 ?bs n] by (simp add: dns_hdr_of_def d be16_def)
  have q: "dns_question (dns_stack e) (dns_heap s) p en = Some (Some (word_of_nat (17 + length (dns_enc ls))))"
    by (rule dns_question_reply [OF bs ls d]) (simp add: be16_def f(4))
  have an: "dns_answers (dns_stack e) (dns_heap s) p (unat n) (word_of_nat (17 + length (dns_enc ls))) = Some (Dns_Answer a ttl)"
    by (rule dns_answers_record [OF bs, of "(be16 txid @ [f1, f2] @ be16 1 @ be16 n @ counts) @ dns_enc ls @ 0 # dns_query_tail"])
      (use d sm f(3,4) in \<open>simp_all add: be16_def dns_query_tail_def unat_eq_zero\<close>)
  have il: "i < length (dns_table s)" using i by (auto simp: dns_asked_def find_Some_iff)
  obtain server where "arr_at (dns_servers s) (unat (te_server_idx en)) = Some server" "te_is_mdns en \<or> addr = server"
    using dns_server_there [OF ok il] sv en by auto
  then have "dns_response e p addr i (dns_hdr_of ?bs) s =
     do { s \<leftarrow> upd_entry i (\<lambda>en. en\<lparr>te_ipaddr := a\<rparr>) s; s \<leftarrow> dns_pbuf_free e p s; dns_correct_response e i ttl s }"
    using il en q an f by (auto simp: dns_response_def arr_at_def hdr lwip_htons_def [symmetric])
  moreover have "lwip_htons (le16 ?bs 0) = txid" using hdr by (simp add: dns_hdr_of_def lwip_htons_def [symmetric])
  ultimately show ?thesis using dns_recv_run [OF bs] l16 i by (simp add: Let_def)
qed

section \<open>The end of a query\<close>

text \<open>Callbacks that return and leave the module alone.\<close>

definition quiet_callbacks :: "dns_env \<Rightarrow> bool" where
  "quiet_callbacks e \<longleftrightarrow> (\<forall>f nm a arg s. call_found e f nm a arg s = Some s)"

text \<open>The requests of the entry \<open>i\<close> are gone.\<close>

definition answered :: "nat \<Rightarrow> dns_req_entry \<Rightarrow> dns_req_entry" where
  "answered i rq = (if rq_found rq \<noteq> 0 \<and> rq_table_idx rq = i then rq\<lparr>rq_found := 0\<rparr> else rq)"

lemma dns_found_loop_spec:
  assumes "quiet_callbacks e" "i < length (dns_table s)" "j \<le> k" "k = length (dns_requests s)"
  shows "dns_found_loop e i ok [j..<k] s = Some (s\<lparr>dns_requests := take j (dns_requests s) @ map (answered i) (drop j (dns_requests s))\<rparr>)"
  using assms(2-4)
proof (induction "k - j" arbitrary: j s)
  case 0
  then show ?case by simp
next
  case (Suc n)
  then have j: "j < k" "[j..<k] = j # [j + 1..<k]" by (simp_all add: upt_rec)
  let ?rq = "dns_requests s ! j"
  let ?s = "s\<lparr>dns_requests := (dns_requests s)[j := answered i ?rq]\<rparr>"
  have rq: "arr_at (dns_requests s) j = Some ?rq" using j(1) Suc.prems(3) by (simp add: arr_at_def)
  have "dns_found_loop e i ok [j..<k] s = dns_found_loop e i ok [j + 1..<k] ?s"
    using assms(1) rq Suc.prems(1)
    by (auto simp: j(2) quiet_callbacks_def answered_def upd_request_def arr_at_def)
  also have "\<dots> = Some (?s\<lparr>dns_requests := take (j + 1) (dns_requests ?s) @ map (answered i) (drop (j + 1) (dns_requests ?s))\<rparr>)"
    using Suc.hyps(2) j(1) Suc.prems by (intro Suc.hyps(1)) simp_all
  also have "take (j + 1) (dns_requests ?s) @ map (answered i) (drop (j + 1) (dns_requests ?s)) =
      take j (dns_requests s) @ map (answered i) (drop j (dns_requests s))"
    using j(1) Suc.prems(3) by (simp add: take_Suc_conv_app_nth Cons_nth_drop_Suc [symmetric])
  finally show ?case by simp
qed

text \<open>The tables of the module and its control blocks: each is a block of UDP and used at one place.\<close>

definition used_once :: "nat list \<Rightarrow> bool" where
  "used_once xs \<longleftrightarrow> (\<forall>i < length xs. \<forall>j < length xs. i \<noteq> j \<longrightarrow> xs ! i \<noteq> 0 \<longrightarrow> xs ! i \<noteq> xs ! j)"

lemma used_once_clear:
  assumes "used_once xs" "k < length xs"
  shows "used_once (xs[k := 0])" "x \<in> set (xs[k := 0]) \<Longrightarrow> x \<noteq> 0 \<Longrightarrow> x \<in> set xs \<and> x \<noteq> xs ! k"
proof -
  show "used_once (xs[k := 0])" using assms unfolding used_once_def by (auto simp: nth_list_update)
  assume x: "x \<in> set (xs[k := 0])" "x \<noteq> 0"
  then obtain j where "j < length xs" "xs[k := 0] ! j = x" by (auto simp: in_set_conv_nth simp del: set_update_memI)
  then have "j < length xs" "j \<noteq> k" "x = xs ! j" using x(2) by (cases "j = k"; simp)+
  then show "x \<in> set xs \<and> x \<noteq> xs ! k" using assms x(2) unfolding used_once_def by auto
qed

definition dns_wf :: "dns_state \<Rightarrow> nat list \<Rightarrow> bool" where
  "dns_wf s cs \<longleftrightarrow>
     length (dns_table s) = 4 \<and> length (dns_requests s) = 4 \<and> length (dns_pcbs s) = 4 \<and>
     udp_wf (dns_net s) cs \<and> ports_exclusive (dns_net s) cs \<and>
     (\<forall>c \<in> set (dns_pcbs s). c \<noteq> 0 \<longrightarrow> c \<in> dom (udp_pcb_at (ip_st (dns_net s)))) \<and> used_once (dns_pcbs s)"

lemma dns_close_pcb:
  assumes wf: "dns_wf s cs" and k: "k < 4"
  shows "\<exists>n cs'. udp_remove (dns_pcbs s ! k) (dns_net s) = Some n \<and> dns_wf ((with_net n s)\<lparr>dns_pcbs := (dns_pcbs s)[k := 0]\<rparr>) cs'"
proof (cases "dns_pcbs s ! k = 0")
  case True
  then have "(dns_pcbs s)[k := 0] = dns_pcbs s" by (metis list_update_id)
  then show ?thesis using True wf by (auto simp: udp_remove_def with_net_def)
next
  case False
  let ?c = "dns_pcbs s ! k"
  have w: "length (dns_table s) = 4" "length (dns_requests s) = 4" "length (dns_pcbs s) = 4"
      "udp_wf (dns_net s) cs" "ports_exclusive (dns_net s) cs"
      "\<And>c. c \<in> set (dns_pcbs s) \<Longrightarrow> c \<noteq> 0 \<Longrightarrow> c \<in> dom (udp_pcb_at (ip_st (dns_net s)))"
      "used_once (dns_pcbs s)"
    using wf by (simp_all add: dns_wf_def)
  obtain pcb where "udp_pcb_at (ip_st (dns_net s)) ?c = Some pcb" using w(3) w(6) [of ?c] False k by auto
  from udp_remove_spec [OF w(4,5) this] obtain n where n: "udp_remove ?c (dns_net s) = Some n" "udp_wf n (remove1 ?c cs)"
      "ports_exclusive n (remove1 ?c cs)" "dom (udp_pcb_at (ip_st n)) = dom (udp_pcb_at (ip_st (dns_net s))) - {?c}" by blast
  have u: "used_once ((dns_pcbs s)[k := 0])" "\<forall>c \<in> set ((dns_pcbs s)[k := 0]). c \<noteq> 0 \<longrightarrow> c \<in> dom (udp_pcb_at (ip_st n))"
    using used_once_clear [OF w(7), of k] k w(3,6) unfolding n(4) by auto
  then have "dns_wf ((with_net n s)\<lparr>dns_pcbs := (dns_pcbs s)[k := 0]\<rparr>) (remove1 ?c cs)"
    using n(2,3) w(1-3) by (simp add: dns_wf_def with_net_def)
  then show ?thesis using n(1) by blast
qed

text \<open>The end of a query: its requests are gone, and its control block, unless another query uses it.\<close>

lemma dns_call_found_spec:
  assumes wf: "dns_wf s cs" and q: "quiet_callbacks e" and i: "i < 4"
  shows "\<exists>s' cs'. dns_call_found e i ok s = Some s' \<and> dns_wf s' cs' \<and> dns_requests s' = map (answered i) (dns_requests s) \<and>
     dns_table s' = (dns_table s)[i := (dns_table s ! i)\<lparr>te_pcb_idx := (if te_pcb_idx (dns_table s ! i) < 4 \<or> dns_pcb_shared i s
        then 4 else te_pcb_idx (dns_table s ! i))\<rparr>] \<and> dns_servers s' = dns_servers s"
proof -
  have l: "length (dns_table s) = 4" "length (dns_requests s) = 4" "length (dns_pcbs s) = 4" using wf by (simp_all add: dns_wf_def)
  let ?s1 = "s\<lparr>dns_requests := map (answered i) (dns_requests s)\<rparr>"
  have run: "dns_found_loop e i ok [0..<4] s = Some ?s1" 
    using dns_found_loop_spec [OF q _ _ l(2) [symmetric], of i 0 ok] l(1) i by (simp only: take0 drop0 append_Nil)
  have wf1: "dns_wf ?s1 cs" using wf by (simp add: dns_wf_def)
  have en: "arr_at (dns_table ?s1) i = Some (dns_table s ! i)" using l i by (simp add: arr_at_def)
  have sh: "dns_pcb_shared i ?s1 = dns_pcb_shared i s" by (simp add: dns_pcb_shared_def)
  consider (shared) "dns_pcb_shared i s" | (none) "\<not> dns_pcb_shared i s" "\<not> te_pcb_idx (dns_table s ! i) < 4"
    | (close) "\<not> dns_pcb_shared i s" "te_pcb_idx (dns_table s ! i) < 4" by blast
  then show ?thesis
  proof cases
    case shared
    let ?s2 = "?s1\<lparr>dns_table := (dns_table s)[i := (dns_table s ! i)\<lparr>te_pcb_idx := 4\<rparr>]\<rparr>"
    have "dns_call_found e i ok s = Some ?s2"
      unfolding dns_call_found_def using run sh shared l i by (simp add: upd_entry_def arr_at_def del: dns_found_loop.simps)
    moreover have "dns_wf ?s2 cs" using wf1 by (simp add: dns_wf_def)
    ultimately show ?thesis using shared by (intro exI conjI) (assumption, assumption, simp_all)
  next
    case none
    then have "dns_call_found e i ok s = Some ?s1" unfolding dns_call_found_def using run sh en by (simp del: dns_found_loop.simps)
    then show ?thesis using none wf1 by (intro exI conjI) (assumption, assumption, simp_all)
  next
    case close
    let ?k = "unat (te_pcb_idx (dns_table s ! i))"
    have k: "?k < 4" using close(2) by (simp add: word_less_nat_alt)
    obtain n cs' where n: "udp_remove (dns_pcbs s ! ?k) (dns_net s) = Some n"
        "dns_wf ((with_net n ?s1)\<lparr>dns_pcbs := (dns_pcbs s)[?k := 0]\<rparr>) cs'"
      using dns_close_pcb [OF wf1 k] by auto
    let ?s2 = "(with_net n ?s1)\<lparr>dns_pcbs := (dns_pcbs s)[?k := 0], dns_table := (dns_table s)[i := (dns_table s ! i)\<lparr>te_pcb_idx := 4\<rparr>]\<rparr>"
    have "dns_call_found e i ok s = Some ?s2"
      unfolding dns_call_found_def using run sh close l i k n(1)
      by (simp add: upd_entry_def arr_at_def with_net_def del: dns_found_loop.simps)
    moreover have "dns_wf ?s2 cs'" using n(2) by (simp add: dns_wf_def with_net_def)
    ultimately show ?thesis using close by (intro exI conjI) (assumption, assumption, simp_all add: with_net_def)
  qed
qed

lemma dns_correct_response_spec:
  assumes wf: "dns_wf s cs" and q: "quiet_callbacks e" and i: "i < 4"
  shows "\<exists>s' cs' k. dns_correct_response e i ttl s = Some s' \<and> dns_wf s' cs' \<and> dns_requests s' = map (answered i) (dns_requests s) \<and>
     dns_table s' = (dns_table s)[i := (dns_table s ! i)
       \<lparr>te_state := (if ttl = 0 then DNS_STATE_UNUSED else DNS_STATE_DONE), te_ttl := min ttl DNS_MAX_TTL, te_pcb_idx := k\<rparr>] \<and>
     4 \<le> k \<and> dns_servers s' = dns_servers s"
proof -
  let ?en = "(dns_table s ! i)\<lparr>te_state := DNS_STATE_DONE, te_ttl := min ttl DNS_MAX_TTL\<rparr>"
  let ?s1 = "s\<lparr>dns_table := (dns_table s)[i := ?en]\<rparr>"
  have l: "length (dns_table s) = 4" using wf by (simp add: dns_wf_def)
  have wf1: "dns_wf ?s1 cs" using wf by (simp add: dns_wf_def)
  define k where "k = (if te_pcb_idx ?en < 4 \<or> dns_pcb_shared i ?s1 then 4 else te_pcb_idx ?en)"
  have k: "4 \<le> k" by (auto simp: k_def not_less)
  obtain s2 cs' where s2: "dns_call_found e i True ?s1 = Some s2" "dns_wf s2 cs'" "dns_requests s2 = map (answered i) (dns_requests s)"
      "dns_table s2 = (dns_table s)[i := ?en\<lparr>te_pcb_idx := k\<rparr>]" "dns_servers s2 = dns_servers s"
    using dns_call_found_spec [OF wf1 q i, of True] i l by (auto simp: k_def)
  have z: "min ttl DNS_MAX_TTL = 0 \<longleftrightarrow> ttl = 0" by (auto simp: min_def word_le_nat_alt split: if_splits)
  show ?thesis
  proof (cases "ttl = 0")
    case True
    define en3 where "en3 = (dns_table s ! i)\<lparr>te_state := DNS_STATE_UNUSED, te_ttl := min ttl DNS_MAX_TTL, te_pcb_idx := k\<rparr>"
    have e: "?en\<lparr>te_pcb_idx := k, te_state := DNS_STATE_UNUSED\<rparr> = en3" by (simp add: en3_def)
    let ?s3 = "s2\<lparr>dns_table := (dns_table s)[i := en3]\<rparr>"
    have "dns_correct_response e i ttl s = Some ?s3"
      using s2(1,4) l i z True by (simp add: dns_correct_response_def upd_entry_def arr_at_def e [symmetric])
    moreover have "dns_wf ?s3 cs'" using s2(2) l by (simp add: dns_wf_def)
    ultimately show ?thesis using s2(3,5) True k by (intro exI [of _ ?s3] exI [of _ cs'] exI [of _ k] conjI) (simp_all add: en3_def)
  next
    case False
    have "dns_correct_response e i ttl s = Some s2"
      using s2(1,4) l i z False by (simp add: dns_correct_response_def upd_entry_def arr_at_def)
    then show ?thesis using s2 False k by (intro exI conjI) (assumption, assumption, simp_all)
  qed
qed

section \<open>Looking up a name\<close>

definition names_end :: "dns_state \<Rightarrow> bool" where
  "names_end s \<longleftrightarrow> (\<forall>en \<in> set (dns_table s). 0 \<in> set (te_name en))"

definition same_name :: "u8 list \<Rightarrow> dns_table_entry \<Rightarrow> bool" where
  "same_name nm en \<longleftrightarrow> map lwip_tolower (c_string (te_name en)) = map lwip_tolower nm"

lemma arr_at_terminated: "k \<le> length t \<Longrightarrow> arr_at (t @ 0 # r) k = Some ((t @ [0]) ! k)"
  by (auto simp: arr_at_def nth_append)

lemma dns_name_is_spec:
  assumes nm: "0 \<notin> set nm" "0 < k" "k \<le> length nm" "k < 256" and en: "0 \<in> set (te_name en)"
  shows "dns_name_is (nm @ 0 # r) k en = Some (same_name (take k nm) en)"
proof -
  let ?t = "c_string (te_name en)"
  obtain r' where t: "te_name en = ?t @ 0 # r'" "0 \<notin> set ?t"
    using split_list_first [OF en] c_string_terminated by metis
  have cmp: "lwip_strnicmp (nm @ 0 # r) (te_name en) (word_of_nat k) =
     Some (if map lwip_tolower (take k nm) = map lwip_tolower (take k ?t) then 0 else 1)"
    using strnicmp_tolower [OF nm(1) t(2) nm(2), of r r'] nm(4) t(1) by simp
  show ?thesis
  proof (cases "map lwip_tolower (take k nm) = map lwip_tolower (take k ?t)")
    case True
    then have kt: "k \<le> length ?t" using nm(3) map_eq_imp_length_eq [OF True] by simp
    have at: "arr_at (te_name en) k = Some ((?t @ [0]) ! k)" using arr_at_terminated [OF kt, of r'] unfolding t(1) [symmetric] .
    have "(?t @ [0]) ! k = 0 \<longleftrightarrow> length ?t = k"
      using kt t(2) by (cases "length ?t = k") (auto simp: nth_append in_set_conv_nth)
    moreover have "same_name (take k nm) en \<longleftrightarrow> length ?t = k"
      unfolding same_name_def True using kt by (metis length_map length_take min.absorb2 order_refl take_all)
    ultimately show ?thesis using cmp True at by (simp add: dns_name_is_def)
  next
    case False
    then have "\<not> same_name (take k nm) en"
      using nm(3) unfolding same_name_def by (metis length_map length_take min.absorb2 order_refl take_all)
    then show ?thesis using cmp False by (simp add: dns_name_is_def)
  qed
qed

lemma dns_lookup_loop_spec:
  assumes nm: "0 \<notin> set nm" "0 < k" "k \<le> length nm" "k < 256" and ens: "\<forall>en \<in> set ens. 0 \<in> set (te_name en)"
  shows "dns_lookup_loop (nm @ 0 # r) k ens =
     Some (case find (\<lambda>en. te_state en = DNS_STATE_DONE \<and> same_name (take k nm) en) ens of
             Some en \<Rightarrow> (ERR_OK, Some (te_ipaddr en))
           | None \<Rightarrow> (ERR_ARG, None))"
  using ens dns_name_is_spec [OF nm, where r = r] by (induction ens) auto

section \<open>Properties\<close>

text \<open>C6: The query that \<^verbatim>\<open>dns_send\<close> writes for an entry with a proper host name is the header with the identifier of the entry, the
  labels of the name with their lengths, and the type and class of the question; nothing outside the packet and the local variables
  is written. A message that repeats this question is recognised: \<^verbatim>\<open>dns_compare_name\<close> accepts it and \<^verbatim>\<open>dns_recv\<close> finds the
  answers right behind it.\<close>

theorem dns_query_roundtrip:
  assumes "beside_stack stk h p as" "host_name ls" "name_array ls (te_name en)"
    "length (pdata h as) = 12 + length (c_string (te_name en)) + 2 + 4"
  shows "\<exists>h'. dns_write_query stk en p h = Some (Inr h') \<and>
     pdata h' as = dns_query_header (te_txid en) @ dns_enc ls @ 0 # dns_query_tail \<and>
     writes_only (packet_region h as \<union> {stk..<stk + 256}) h h' \<and>
     dns_compare_name (te_name en) h' p 12 = Some (word_of_nat (13 + length (dns_enc ls))) \<and>
     dns_question stk h' p en = Some (Some (word_of_nat (17 + length (dns_enc ls))))"
proof -
  obtain h' where h': "dns_write_query stk en p h = Some (Inr h')"
      "wrote stk as h (dns_query_header (te_txid en) @ dns_enc ls @ 0 # dns_query_tail) h'"
    using dns_write_query_spec [OF assms] by blast
  have d: "pdata h' as = dns_query_header (te_txid en) @ dns_enc ls @ 0 # dns_query_tail @ []" using h'(2) by (simp add: wrote_def)
  have hl: "length (dns_query_header (te_txid en)) = 12" by (simp add: dns_query_header_def be16_def)
  have b: "beside_stack stk h' p as" by (rule wrote_beside [OF h'(2) assms(1)])
  then have ch: "pchain h' p as" "length (pdata h' as) < 65536" using packet_small by (auto simp: beside_stack_def packet_def)
  have "dns_compare_name (te_name en) h' p 12 = Some (word_of_nat (13 + length (dns_enc ls)))"
    using dns_compare_name_asked [OF ch(1) d ch(2) assms(2,3)] hl by simp
  then show ?thesis using h' dns_question_reply [OF b assms(2,3) d hl] by (auto simp: wrote_def)
qed

text \<open>C36: What \<^verbatim>\<open>dns_compare_name\<close> decides for a well-formed name in a packet: whether the characters of its labels are those of the
  string at their places, without regard to case. The characters of the string between the labels and behind the last one do not
  matter, so the string need not be the same name.\<close>

theorem dns_compare_name_decides:
  assumes "packet h p as" "pdata h as = pre @ dns_enc ls @ 0 # rest" "ls \<noteq> []" "\<forall>l \<in> set ls. label_ok l" "length (dns_enc ls) \<le> length q"
  shows "dns_compare_name q h p (word_of_nat (length pre)) =
     Some (if labels_at q 0 ls then word_of_nat (length pre + length (dns_enc ls) + 1) else 0xFFFF)"
proof -
  obtain l ls' where l: "ls = l # ls'" using assms(3) by (cases ls) auto
  have ch: "pchain h p as" "length (pdata h as) < 65536" using assms(1) packet_small by (auto simp: packet_def)
  show ?thesis
    using dns_compare_loop_spec [OF ch(1) assms(2) [unfolded l] ch(2), of 0 q "word_of_nat (length pre)"] assms(4,5)
    unfolding l by (simp add: dns_compare_name_def)
qed

text \<open>C37: \<^verbatim>\<open>dns_skip_name\<close> returns for every packet and every offset, whatever the bytes are. The result is the error value or
  lies at least two bytes behind the offset and not behind the end of the packet by more than one byte.\<close>

theorem dns_skip_name_ends:
  assumes "packet h p as"
  shows "\<exists>r. dns_skip_name h p off = Some r \<and> (r = 0xFFFF \<or> unat off + 2 \<le> unat r \<and> unat r \<le> length (pdata h as) + 1)"
  by (rule dns_skip_name_total [OF assms])


text \<open>C4: A reply to an outstanding query from the server that was asked, with the question repeated and an address as its first
  answer, is taken: the address is stored in the entry, the packet is freed and the query ends with the time to live of the answer.\<close>

theorem dns_recv_takes_reply:
  assumes "beside_stack (dns_stack e) (dns_heap s) p as" "servers_ok s" "dns_asked txid s = Some i" "dns_table s ! i = en"
    "te_is_mdns en \<or> addr = dns_servers s ! unat (te_server_idx en)" "host_name ls" "name_array ls (te_name en)"
    "dns_reply_for txid ls ttl a (pdata (dns_heap s) as)"
  shows "dns_recv e p addr s =
     do { s \<leftarrow> upd_entry i (\<lambda>en. en\<lparr>te_ipaddr := a\<rparr>) s; s \<leftarrow> dns_pbuf_free e p s; dns_correct_response e i ttl s }"
  by (rule dns_recv_reply [OF assms])


text \<open>\<^verbatim>\<open>dns_lookup\<close> gives the address of the first completed entry whose name is the name asked for, without regard to case and
  cut to its length, and fails if there is none.\<close>

lemma dns_lookup_first_match:
  assumes "names_end s" "0 \<notin> set nm" "0 < k" "k \<le> length nm" "k < 256"
  shows "dns_lookup (nm @ 0 # r) k s =
     Some (case find (\<lambda>en. te_state en = DNS_STATE_DONE \<and> same_name (take k nm) en) (dns_table s) of
             Some en \<Rightarrow> (ERR_OK, Some (te_ipaddr en))
           | None \<Rightarrow> (ERR_ARG, None))"
  using dns_lookup_loop_spec [OF assms(2-5), of "dns_table s" r] assms(1,5) by (simp add: dns_lookup_def names_end_def)

section \<open>Examples\<close>

text \<open>A module with one query for \<^verbatim>\<open>a\<close> under way, sent from the block at 20016 to 192.168.0.3, with one request; the local
  variables are at 5000.\<close>

definition example_query :: dns_table_entry where
  "example_query =
     \<lparr>te_ttl = 0, te_ipaddr = 0, te_txid = 1, te_state = DNS_STATE_ASKING, te_server_idx = 0, te_tmr = 1, te_retries = 0, te_seqno = 0,
      te_pcb_idx = 0, te_name = 97 # replicate 255 0, te_is_mdns = False\<rparr>"

definition example_dns :: "heap \<Rightarrow> dns_state" where
  "example_dns h =
     \<lparr>dns_net = example_udp\<lparr>eth_heap := h\<rparr>, dns_pcbs = [20016, 0, 0, 0], dns_last_pcb_idx = 0, dns_seqno = 1,
      dns_table = [example_query, example_query\<lparr>te_state := DNS_STATE_DONE, te_ttl := 60, te_ipaddr := 0x0900A8C0, te_pcb_idx := 4,
        te_name := 98 # replicate 255 0\<rparr>, example_query\<lparr>te_state := DNS_STATE_UNUSED\<rparr>, example_query\<lparr>te_state := DNS_STATE_UNUSED\<rparr>],
      dns_requests = [\<lparr>rq_found = 700, rq_arg = 0, rq_table_idx = 0\<rparr>, \<lparr>rq_found = 0, rq_arg = 0, rq_table_idx = 0\<rparr>,
        \<lparr>rq_found = 0, rq_arg = 0, rq_table_idx = 0\<rparr>, \<lparr>rq_found = 0, rq_arg = 0, rq_table_idx = 0\<rparr>],
      dns_servers = [0x0300A8C0, 0]\<rparr>"

definition example_dns_env :: dns_env where
  "example_dns_env =
     \<lparr>dns_eth = example_eth_env, dns_stack = 5000, dns_recv_ptr = 600, call_found = (\<lambda>f nm a arg s. Some s)\<rparr>"

text \<open>The reply to this query, at 352: the address is 192.168.0.7 and the time to live a minute.\<close>

definition example_reply :: "u8 list" where
  "example_reply =
     (be16 1 @ [0x81, 0x80] @ be16 1 @ be16 1 @ [0, 0, 0, 0]) @ dns_enc [[97]] @ 0 # dns_query_tail @ dns_record 12 60 0x0700A8C0 @ []"

definition example_dns_heap :: heap where
  "example_dns_heap =
     write_bytes 352 example_reply (example_heap\<lparr>pbufs := (pbufs example_heap)(320 \<mapsto> example_pbuf 0 352 35 35),
                                                 heap_blocks := (heap_blocks example_heap)(320 \<mapsto> 96)\<rparr>)"

lemma example_reply_length: "length example_reply = 35"
  by (simp add: example_reply_def be16_def dns_query_tail_def dns_record_def addr_bytes_def)

lemma example_dns_packet:
  "packet example_dns_heap 320 [320]" "pdata example_dns_heap [320] = example_reply" "beside_stack 5000 example_dns_heap 320 [320]"
  "packet example_arp_heap 320 [320]" "pdata example_arp_heap [320] = example_request" "beside_stack 5000 example_arp_heap 320 [320]"
  "exclusive example_arp_heap [320]"
proof -
  have w: "pbufs (write_bytes a xs h) = pbufs h" for a xs h by (simp add: write_bytes_def)
  have b: "pbufs example_dns_heap 320 = Some (example_pbuf 0 352 35 35)" "pbufs example_arp_heap 320 = Some (example_pbuf 0 352 28 28)"
    by (simp_all add: example_dns_heap_def example_arp_heap_def w)
  have rd: "pbytes example_dns_heap 320 = example_reply" "pbytes example_arp_heap 320 = example_request"
    using rd_write_same [of 352 example_reply] rd_write_same [of 352 example_request] b example_reply_length
    by (simp_all add: pbytes_def plen_def example_dns_heap_def example_arp_heap_def example_request_def)
  show p: "packet example_dns_heap 320 [320]" "packet example_arp_heap 320 [320]"
    using b rd example_reply_length by (simp_all add: packet_def plen_def example_request_def)
  show "pdata example_dns_heap [320] = example_reply" "pdata example_arp_heap [320] = example_request" using rd by simp_all
  show "exclusive example_arp_heap [320]" using b by (simp add: exclusive_def)
  show "beside_stack 5000 example_dns_heap 320 [320]" "beside_stack 5000 example_arp_heap 320 [320]"
    using p b by (auto simp: beside_stack_def disjoint_payloads_def packet_region_def payload_region_def plen_def)
qed

lemma example_dns_fields [simp]:
  "dns_stack example_dns_env = 5000" "dns_eth example_dns_env = example_eth_env" "dns_heap (example_dns h) = h"
  "dns_servers (example_dns h) = [0x0300A8C0, 0]"
  by (simp_all add: example_dns_env_def example_dns_def dns_heap_def)

lemma example_servers_ok: "servers_ok (example_dns h)"
  by (simp add: servers_ok_def example_dns_def example_query_def)

lemma example_name: "host_name [[97]]" "name_array [[97]] (te_name example_query)"
proof -
  show "host_name [[97]]" by (simp add: host_name_def label_ok_def)
  have "replicate 255 0 = (0 :: u8) # replicate 254 0" by (simp add: replicate_Suc [symmetric] del: replicate_Suc)
  then show "name_array [[97]] (te_name example_query)" by (simp add: name_array_def example_query_def)
qed

theorem dns_query_roundtrip_witness:
  "\<exists>h'. dns_write_query 5000 (example_query\<lparr>te_name := dotted [[97, 98, 99], [100, 101, 102, 103, 104, 105]] @ replicate 246 0\<rparr>) 320 example_arp_heap = Some (Inr h') \<and>
     pdata h' [320] = [0, 1, 1, 0, 0, 1, 0, 0, 0, 0, 0, 0] @ [3, 97, 98, 99, 6, 100, 101, 102, 103, 104, 105, 0] @ [0, 1, 0, 1]"
proof -
  let ?ls = "[[97, 98, 99], [100, 101, 102, 103, 104, 105]] :: u8 list list"
  let ?en = "example_query\<lparr>te_name := dotted ?ls @ replicate 246 0\<rparr>"
  have r: "replicate 246 0 = (0 :: u8) # replicate 245 0" by (simp add: replicate_Suc [symmetric] del: replicate_Suc)
  have "host_name ?ls" by (simp add: host_name_def label_ok_def)
  moreover have "name_array ?ls (te_name ?en)" by (simp add: name_array_def r)
  moreover have "length (pdata example_arp_heap [320]) = 12 + length (c_string (te_name ?en)) + 2 + 4"
    unfolding example_dns_packet(5) by (simp add: r c_string_def example_request_def)
  ultimately obtain h' where "dns_write_query 5000 ?en 320 example_arp_heap = Some (Inr h')"
      "pdata h' [320] = dns_query_header (te_txid ?en) @ dns_enc ?ls @ 0 # dns_query_tail"
    using dns_query_roundtrip [OF example_dns_packet(6)] by blast
  moreover have "replicate 6 0 = [0, 0, 0, 0, 0, 0 :: u8]" by (simp add: numeral_eq_Suc)
  ultimately show ?thesis by (auto simp: dns_query_header_def dns_query_tail_def be16_def example_query_def)
qed

text \<open>The string \<^verbatim>\<open>ab\<close> is accepted for the name \<^verbatim>\<open>a\<close>, \<^verbatim>\<open>bb\<close> is not.\<close>

theorem dns_compare_name_decides_witness:
  "dns_compare_name [97, 98, 0] example_dns_heap 320 12 = Some 15 \<and> dns_compare_name [98, 98, 0] example_dns_heap 320 12 = Some 0xFFFF"
proof -
  let ?pre = "be16 1 @ [0x81, 0x80] @ be16 1 @ be16 1 @ [0, 0, 0, 0]"
  have "pdata example_dns_heap [320] = ?pre @ dns_enc [[97]] @ 0 # dns_query_tail @ dns_record 12 60 0x0700A8C0 @ []"
    unfolding example_dns_packet(2) by (simp add: example_reply_def)
  from dns_compare_name_decides [OF example_dns_packet(1) this, of "[97, 98, 0]"]
    dns_compare_name_decides [OF example_dns_packet(1) this, of "[98, 98, 0]"]
  show ?thesis by (simp add: label_ok_def be16_def lwip_tolower_def lwip_isupper_def lwip_in_range_def)
qed

theorem dns_skip_name_ends_witness: "\<exists>r. dns_skip_name example_dns_heap 320 29 = Some r"
  using dns_skip_name_ends [OF example_dns_packet(1), of 29] by blast


theorem dns_recv_takes_reply_witness:
  "dns_recv example_dns_env 320 0x0300A8C0 (example_dns example_dns_heap) =
     do { s \<leftarrow> upd_entry 0 (\<lambda>en. en\<lparr>te_ipaddr := 0x0700A8C0\<rparr>) (example_dns example_dns_heap);
          s \<leftarrow> dns_pbuf_free example_dns_env 320 s; dns_correct_response example_dns_env 0 60 s }"
proof (rule dns_recv_takes_reply [OF _ example_servers_ok])
  show "beside_stack (dns_stack example_dns_env) (dns_heap (example_dns example_dns_heap)) 320 [320]" using example_dns_packet(3) by simp
  show "dns_asked 1 (example_dns example_dns_heap) = Some 0" by (simp add: dns_asked_def example_dns_def example_query_def upt_rec)
  show "dns_table (example_dns example_dns_heap) ! 0 = example_query" by (simp add: example_dns_def)
  show "te_is_mdns example_query \<or> 0x0300A8C0 = dns_servers (example_dns example_dns_heap) ! unat (te_server_idx example_query)"
    by (simp add: example_query_def)
  show "host_name [[97]]" "name_array [[97]] (te_name example_query)" by (rule example_name)+
  have "dns_reply_for 1 [[97]] 60 0x0700A8C0 example_reply" unfolding dns_reply_for_def example_reply_def
    by (rule exI [of _ "0x81"], rule exI [of _ "0x80"], rule exI [of _ 1], rule exI [of _ "[0, 0, 0, 0]"], rule exI [of _ 12], rule exI [of _ "[]"]) simp
  then show "dns_reply_for 1 [[97]] 60 0x0700A8C0 (pdata (dns_heap (example_dns example_dns_heap)) [320])"
    using example_dns_packet(2) by simp
qed


end
