(* ===== verification/Dhcp.thy ===== *)
theory Dhcp
  imports Dns Netif "HOL-Library.Signed_Division"
begin

text \<open>
  \<^verbatim>\<open>src/lwip/ipv4/dhcp.c\<close>: the DHCP client, for the configuration with AutoIP cooperation, a host name, two
  DNS servers, random transaction identifiers and no address conflict detection of its own. The function \<^verbatim>\<open>dhcp_recv\<close> and the
  conflict callback of AutoIP are known by their addresses; the host name of an interface is a parameter. Listeners of interface
  events and other callbacks do not call into this module.
\<close>

abbreviation (input) DHCP_OPTIONS_LEN :: nat where "DHCP_OPTIONS_LEN \<equiv> 68"
abbreviation (input) DHCP_MIN_OPTIONS_LEN :: nat where "DHCP_MIN_OPTIONS_LEN \<equiv> 68"
abbreviation (input) SIZEOF_DHCP_MSG :: u16 where "SIZEOF_DHCP_MSG \<equiv> 308"
abbreviation (input) SIZEOF_STRUCT_DHCP :: nat where "SIZEOF_STRUCT_DHCP \<equiv> 52"
abbreviation (input) DHCP_SNAME_OFS :: u16 where "DHCP_SNAME_OFS \<equiv> 44"
abbreviation (input) DHCP_FILE_OFS :: u16 where "DHCP_FILE_OFS \<equiv> 108"
abbreviation (input) DHCP_OPTIONS_OFS :: u16 where "DHCP_OPTIONS_OFS \<equiv> 240"
abbreviation (input) DHCP_MIN_REPLY_LEN :: u16 where "DHCP_MIN_REPLY_LEN \<equiv> 44"
abbreviation (input) DHCP_MAX_MSG_LEN_MIN_REQUIRED :: u16 where "DHCP_MAX_MSG_LEN_MIN_REQUIRED \<equiv> 576"
abbreviation (input) REBOOT_TRIES :: u8 where "REBOOT_TRIES \<equiv> 2"
abbreviation (input) LWIP_DHCP_AUTOIP_COOP_TRIES :: u8 where "LWIP_DHCP_AUTOIP_COOP_TRIES \<equiv> 9"
abbreviation (input) DHCP_FLAG_SUBNET_MASK_GIVEN :: u8 where "DHCP_FLAG_SUBNET_MASK_GIVEN \<equiv> 0x01"
abbreviation (input) DHCP_FLAG_EXTERNAL_MEM :: u8 where "DHCP_FLAG_EXTERNAL_MEM \<equiv> 0x02"
abbreviation (input) LWIP_IANA_PORT_DHCP_SERVER :: u16 where "LWIP_IANA_PORT_DHCP_SERVER \<equiv> 67"
abbreviation (input) LWIP_IANA_PORT_DHCP_CLIENT :: u16 where "LWIP_IANA_PORT_DHCP_CLIENT \<equiv> 68"
abbreviation (input) SOF_BROADCAST :: u8 where "SOF_BROADCAST \<equiv> 0x20"
abbreviation (input) DHCP_MAGIC_COOKIE :: u32 where "DHCP_MAGIC_COOKIE \<equiv> 0x63825363"
abbreviation (input) DHCP_BOOTREQUEST :: u8 where "DHCP_BOOTREQUEST \<equiv> 1"
abbreviation (input) DHCP_BOOTREPLY :: u8 where "DHCP_BOOTREPLY \<equiv> 2"

text \<open>Message types.\<close>

abbreviation (input) DHCP_DISCOVER :: u8 where "DHCP_DISCOVER \<equiv> 1"
abbreviation (input) DHCP_OFFER :: u8 where "DHCP_OFFER \<equiv> 2"
abbreviation (input) DHCP_REQUEST :: u8 where "DHCP_REQUEST \<equiv> 3"
abbreviation (input) DHCP_DECLINE :: u8 where "DHCP_DECLINE \<equiv> 4"
abbreviation (input) DHCP_ACK :: u8 where "DHCP_ACK \<equiv> 5"
abbreviation (input) DHCP_NAK :: u8 where "DHCP_NAK \<equiv> 6"
abbreviation (input) DHCP_RELEASE :: u8 where "DHCP_RELEASE \<equiv> 7"
abbreviation (input) DHCP_INFORM :: u8 where "DHCP_INFORM \<equiv> 8"

text \<open>Options.\<close>

abbreviation (input) DHCP_OPTION_PAD :: u8 where "DHCP_OPTION_PAD \<equiv> 0"
abbreviation (input) DHCP_OPTION_SUBNET_MASK :: u8 where "DHCP_OPTION_SUBNET_MASK \<equiv> 1"
abbreviation (input) DHCP_OPTION_ROUTER :: u8 where "DHCP_OPTION_ROUTER \<equiv> 3"
abbreviation (input) DHCP_OPTION_DNS_SERVER :: u8 where "DHCP_OPTION_DNS_SERVER \<equiv> 6"
abbreviation (input) DHCP_OPTION_HOSTNAME :: u8 where "DHCP_OPTION_HOSTNAME \<equiv> 12"
abbreviation (input) DHCP_OPTION_BROADCAST :: u8 where "DHCP_OPTION_BROADCAST \<equiv> 28"
abbreviation (input) DHCP_OPTION_REQUESTED_IP :: u8 where "DHCP_OPTION_REQUESTED_IP \<equiv> 50"
abbreviation (input) DHCP_OPTION_LEASE_TIME :: u8 where "DHCP_OPTION_LEASE_TIME \<equiv> 51"
abbreviation (input) DHCP_OPTION_OVERLOAD :: u8 where "DHCP_OPTION_OVERLOAD \<equiv> 52"
abbreviation (input) DHCP_OPTION_MESSAGE_TYPE :: u8 where "DHCP_OPTION_MESSAGE_TYPE \<equiv> 53"
abbreviation (input) DHCP_OPTION_SERVER_ID :: u8 where "DHCP_OPTION_SERVER_ID \<equiv> 54"
abbreviation (input) DHCP_OPTION_PARAMETER_REQUEST_LIST :: u8 where "DHCP_OPTION_PARAMETER_REQUEST_LIST \<equiv> 55"
abbreviation (input) DHCP_OPTION_MAX_MSG_SIZE :: u8 where "DHCP_OPTION_MAX_MSG_SIZE \<equiv> 57"
abbreviation (input) DHCP_OPTION_T1 :: u8 where "DHCP_OPTION_T1 \<equiv> 58"
abbreviation (input) DHCP_OPTION_T2 :: u8 where "DHCP_OPTION_T2 \<equiv> 59"
abbreviation (input) DHCP_OPTION_END :: u8 where "DHCP_OPTION_END \<equiv> 255"

text \<open>\<^verbatim>\<open>enum dhcp_option_idx\<close>, with two DNS servers at the indices 8 and 9.\<close>

abbreviation (input) DHCP_OPTION_IDX_OVERLOAD :: nat where "DHCP_OPTION_IDX_OVERLOAD \<equiv> 0"
abbreviation (input) DHCP_OPTION_IDX_MSG_TYPE :: nat where "DHCP_OPTION_IDX_MSG_TYPE \<equiv> 1"
abbreviation (input) DHCP_OPTION_IDX_SERVER_ID :: nat where "DHCP_OPTION_IDX_SERVER_ID \<equiv> 2"
abbreviation (input) DHCP_OPTION_IDX_LEASE_TIME :: nat where "DHCP_OPTION_IDX_LEASE_TIME \<equiv> 3"
abbreviation (input) DHCP_OPTION_IDX_T1 :: nat where "DHCP_OPTION_IDX_T1 \<equiv> 4"
abbreviation (input) DHCP_OPTION_IDX_T2 :: nat where "DHCP_OPTION_IDX_T2 \<equiv> 5"
abbreviation (input) DHCP_OPTION_IDX_SUBNET_MASK :: nat where "DHCP_OPTION_IDX_SUBNET_MASK \<equiv> 6"
abbreviation (input) DHCP_OPTION_IDX_ROUTER :: nat where "DHCP_OPTION_IDX_ROUTER \<equiv> 7"
abbreviation (input) DHCP_OPTION_IDX_DNS_SERVER :: nat where "DHCP_OPTION_IDX_DNS_SERVER \<equiv> 8"
abbreviation (input) DHCP_OPTION_IDX_MAX :: nat where "DHCP_OPTION_IDX_MAX \<equiv> 10"

section \<open>State\<close>

datatype dhcp_state_enum_t =
    DHCP_STATE_OFF | DHCP_STATE_REQUESTING | DHCP_STATE_INIT | DHCP_STATE_REBOOTING | DHCP_STATE_REBINDING
  | DHCP_STATE_RENEWING | DHCP_STATE_SELECTING | DHCP_STATE_INFORMING | DHCP_STATE_CHECKING | DHCP_STATE_PERMANENT
  | DHCP_STATE_BOUND | DHCP_STATE_RELEASING | DHCP_STATE_BACKING_OFF

record dhcp =
  dc_xid :: u32
  dc_pcb_allocated :: u8
  dc_state :: dhcp_state_enum_t
  dc_tries :: u8
  dc_flags :: u8
  dc_request_timeout :: u16
  dc_t1_timeout :: u16
  dc_t2_timeout :: u16
  dc_t1_renew_time :: u16
  dc_t2_rebind_time :: u16
  dc_lease_used :: u16
  dc_t0_timeout :: u16
  dc_server_ip_addr :: u32
  dc_offered_ip_addr :: u32
  dc_offered_sn_mask :: u32
  dc_offered_gw_addr :: u32
  dc_offered_t0_lease :: u32
  dc_offered_t1_renew :: u32
  dc_offered_t2_rebind :: u32

definition zero_dhcp :: dhcp where
  "zero_dhcp =
     \<lparr>dc_xid = 0, dc_pcb_allocated = 0, dc_state = DHCP_STATE_OFF, dc_tries = 0, dc_flags = 0, dc_request_timeout = 0,
      dc_t1_timeout = 0, dc_t2_timeout = 0, dc_t1_renew_time = 0, dc_t2_rebind_time = 0, dc_lease_used = 0, dc_t0_timeout = 0,
      dc_server_ip_addr = 0, dc_offered_ip_addr = 0, dc_offered_sn_mask = 0, dc_offered_gw_addr = 0, dc_offered_t0_lease = 0,
      dc_offered_t1_renew = 0, dc_offered_t2_rebind = 0\<rparr>"

text \<open>The options of the message being handled: which were given, and their values.\<close>

record rx_options =
  rx_given :: "bool list"
  rx_val :: "u32 list"

text \<open>The variables of the module beside the DNS client and the rest of the stack. \<open>dhcp_data\<close> is the structure of an interface
  (\<^verbatim>\<open>netif_dhcp_data\<close>), 0 if it has none; \<open>dhcp_xid\<close> the static variable of \<^verbatim>\<open>dhcp_create_msg\<close>.\<close>

record dhcp_module =
  dh_dns :: dns_state
  dhcp_pcb :: nat
  dhcp_pcb_refcount :: u8
  dhcp_data :: "nat \<Rightarrow> nat"
  dhcps :: "nat \<rightharpoonup> dhcp"
  dhcp_rx :: rx_options
  dhcp_xid :: u32

record dhcp_env =
  dh_eth :: eth_env
  dh_stack :: nat
  dh_recv_ptr :: nat
  dh_autoip_cb :: nat
  netif_hostname :: "nat \<Rightarrow> u8 list option"

definition dh_net :: "dhcp_module \<Rightarrow> eth_state" where
  "dh_net s = dns_net (dh_dns s)"

definition dh_heap :: "dhcp_module \<Rightarrow> heap" where
  "dh_heap s = eth_heap (dh_net s)"

definition set_dh_net :: "eth_state \<Rightarrow> dhcp_module \<Rightarrow> dhcp_module" where
  "set_dh_net n s = s\<lparr>dh_dns := with_net n (dh_dns s)\<rparr>"

definition set_dh_heap :: "heap \<Rightarrow> dhcp_module \<Rightarrow> dhcp_module" where
  "set_dh_heap h s = set_dh_net ((dh_net s)\<lparr>eth_heap := h\<rparr>) s"

definition upd_dhcp :: "nat \<Rightarrow> (dhcp \<Rightarrow> dhcp) \<Rightarrow> dhcp_module \<Rightarrow> dhcp_module option" where
  "upd_dhcp d f s = do { dh \<leftarrow> dhcps s d; Some (s\<lparr>dhcps := (dhcps s)(d \<mapsto> f dh)\<rparr>) }"

definition dh_pbuf_free :: "dhcp_env \<Rightarrow> nat \<Rightarrow> dhcp_module \<Rightarrow> dhcp_module option" where
  "dh_pbuf_free e p s = do { n \<leftarrow> eth_pbuf_free (dh_eth e) p (dh_net s); Some (set_dh_net n s) }"

definition dh_set_addr :: "dhcp_env \<Rightarrow> nat \<Rightarrow> u32 \<Rightarrow> u32 \<Rightarrow> u32 \<Rightarrow> dhcp_module \<Rightarrow> dhcp_module option" where
  "dh_set_addr e n ipaddr nm g s = do { net \<leftarrow> netif_set_addr (dh_eth e) n ipaddr nm g (dh_net s); Some (set_dh_net net s) }"

definition dhcp_set_state :: "dhcp_state_enum_t \<Rightarrow> dhcp \<Rightarrow> dhcp" where
  "dhcp_set_state new_state dh =
     (if new_state \<noteq> dc_state dh then dh\<lparr>dc_state := new_state, dc_tries := 0, dc_request_timeout := 0\<rparr> else dh)"

section \<open>The control block\<close>

definition dhcp_inc_pcb_refcount :: "dhcp_env \<Rightarrow> dhcp_module \<Rightarrow> (err_t \<times> dhcp_module) option" where
  "dhcp_inc_pcb_refcount e s =
     do { (err, s) \<leftarrow>
            (if dhcp_pcb_refcount s = 0 then
               do { lwip_assert (dhcp_pcb s = 0);
                    (c, n) \<leftarrow> udp_new (dh_net s);
                    let s = (set_dh_net n s)\<lparr>dhcp_pcb := c\<rparr>
                    in if c = 0 then Some (ERR_MEM, s)
                       else
                         do { n \<leftarrow> upd_udp_pcb c (\<lambda>pcb. pcb\<lparr>so_options := so_options pcb OR SOF_BROADCAST\<rparr>) n;
                              (_, n) \<leftarrow> udp_bind c (Some IPADDR_ANY) LWIP_IANA_PORT_DHCP_CLIENT n;
                              (_, n) \<leftarrow> udp_connect c (Some IPADDR_ANY) LWIP_IANA_PORT_DHCP_SERVER n;
                              n \<leftarrow> udp_recv c (dh_recv_ptr e) 0 n;
                              Some (ERR_OK, set_dh_net n s) } }
             else Some (ERR_OK, s));
          Some (if err = ERR_OK then (ERR_OK, s\<lparr>dhcp_pcb_refcount := dhcp_pcb_refcount s + 1\<rparr>) else (err, s)) }"

definition dhcp_dec_pcb_refcount :: "dhcp_module \<Rightarrow> dhcp_module option" where
  "dhcp_dec_pcb_refcount s =
     do { lwip_assert (dhcp_pcb_refcount s > 0);
          let s = s\<lparr>dhcp_pcb_refcount := dhcp_pcb_refcount s - 1\<rparr>
          in if dhcp_pcb_refcount s = 0
             then do { n \<leftarrow> udp_remove (dhcp_pcb s) (dh_net s); Some ((set_dh_net n s)\<lparr>dhcp_pcb := 0\<rparr>) }
             else Some s }"

section \<open>Writing options\<close>

text \<open>\<^verbatim>\<open>options[options_out_len++] = ...\<close> for the bytes \<open>xs\<close>.\<close>

definition put_bytes :: "nat \<Rightarrow> u8 list \<Rightarrow> u16 \<times> heap \<Rightarrow> u16 \<times> heap" where
  "put_bytes options xs = (\<lambda>(n, h). (n + word_of_nat (length xs), write_bytes (options + unat n) xs h))"

definition dhcp_option :: "nat \<Rightarrow> u8 \<Rightarrow> u8 \<Rightarrow> u16 \<times> heap \<Rightarrow> (u16 \<times> heap) option" where
  "dhcp_option options option_type option_len w =
     do { lwip_assert (unat (fst w) + 2 + unat option_len \<le> DHCP_OPTIONS_LEN);
          Some (put_bytes options [option_type, option_len] w) }"

definition dhcp_option_byte :: "nat \<Rightarrow> u8 \<Rightarrow> u16 \<times> heap \<Rightarrow> (u16 \<times> heap) option" where
  "dhcp_option_byte options v w =
     do { lwip_assert (unat (fst w) < DHCP_OPTIONS_LEN); Some (put_bytes options [v] w) }"

definition dhcp_option_short :: "nat \<Rightarrow> u16 \<Rightarrow> u16 \<times> heap \<Rightarrow> (u16 \<times> heap) option" where
  "dhcp_option_short options v w =
     do { lwip_assert (unat (fst w) + 2 \<le> DHCP_OPTIONS_LEN);
          Some (put_bytes options [ucast (drop_bit 8 (v AND 0xff00)), ucast (v AND 0x00ff)] w) }"

definition dhcp_option_long :: "nat \<Rightarrow> u32 \<Rightarrow> u16 \<times> heap \<Rightarrow> (u16 \<times> heap) option" where
  "dhcp_option_long options v w =
     do { lwip_assert (unat (fst w) + 4 \<le> DHCP_OPTIONS_LEN);
          Some (put_bytes options [ucast (drop_bit 24 (v AND 0xff000000)), ucast (drop_bit 16 (v AND 0x00ff0000)),
                                   ucast (drop_bit 8 (v AND 0x0000ff00)), ucast (v AND 0x000000ff)] w) }"

fun dhcp_option_bytes :: "nat \<Rightarrow> u8 list \<Rightarrow> u16 \<times> heap \<Rightarrow> (u16 \<times> heap) option" where
  "dhcp_option_bytes options [] w = Some w"
| "dhcp_option_bytes options (c # cs) w = do { w \<leftarrow> dhcp_option_byte options c w; dhcp_option_bytes options cs w }"

definition dhcp_option_hostname :: "nat \<Rightarrow> u8 list option \<Rightarrow> u16 \<times> heap \<Rightarrow> (u16 \<times> heap) option" where
  "dhcp_option_hostname options hostname w =
     (case hostname of
        None \<Rightarrow> Some w
      | Some name \<Rightarrow>
          let namelen = length (c_string name)
          in if namelen > 0 then
               do { lwip_assert (int namelen \<le> (int DHCP_OPTIONS_LEN - int (unat (fst w)) - 3) mod 2 ^ 32);
                    lwip_assert (namelen \<le> 0xFF);
                    w \<leftarrow> dhcp_option options DHCP_OPTION_HOSTNAME (word_of_nat namelen) w;
                    dhcp_option_bytes options (c_string name) w }
             else Some w)"

text \<open>The padding loop of \<^verbatim>\<open>dhcp_option_trailer\<close>.\<close>

partial_function (option) dhcp_pad_loop :: "nat \<Rightarrow> u16 \<times> heap \<Rightarrow> (u16 \<times> heap) option" where
  "dhcp_pad_loop options w =
     (if (unat (fst w) < DHCP_MIN_OPTIONS_LEN \<or> fst w AND 3 \<noteq> 0) \<and> unat (fst w) < DHCP_OPTIONS_LEN
      then dhcp_pad_loop options (put_bytes options [0] w) else Some w)"

definition dhcp_option_trailer :: "dhcp_env \<Rightarrow> nat \<Rightarrow> nat \<Rightarrow> u16 \<times> heap \<Rightarrow> heap option" where
  "dhcp_option_trailer e options p_out w =
     do { (n, h) \<leftarrow> dhcp_pad_loop options (put_bytes options [DHCP_OPTION_END] w);
          pbuf_realloc (pb_env (dh_eth e)) p_out (SIZEOF_DHCP_MSG - word_of_nat DHCP_OPTIONS_LEN + n) h }"

section \<open>Messages\<close>

definition dhcp_discover_request_options :: "u8 list" where
  "dhcp_discover_request_options = [DHCP_OPTION_SUBNET_MASK, DHCP_OPTION_ROUTER, DHCP_OPTION_BROADCAST, DHCP_OPTION_DNS_SERVER]"

text \<open>The bytes of \<^verbatim>\<open>struct dhcp_msg\<close> before the options.\<close>

definition dhcp_msg_bytes :: "netif \<Rightarrow> u32 \<Rightarrow> u32 \<Rightarrow> u8 list" where
  "dhcp_msg_bytes nif xid ciaddr =
     [DHCP_BOOTREQUEST, 1, hwaddr_len nif, 0] @ addr_bytes (lwip_htonl xid) @ replicate 4 0 @ addr_bytes ciaddr @ replicate 12 0 @
     take 6 (hwaddr nif) @ replicate 10 0 @ replicate 64 0 @ replicate 128 0 @ addr_bytes (PP_HTONL DHCP_MAGIC_COOKIE)"

text \<open>The message in a new buffer (0 if there is no memory) with the length of its options so far, and the client with its new
  identifier. The client is passed by value, since \<^verbatim>\<open>dhcp_inform\<close> has one of its own.\<close>

definition dhcp_create_msg :: "dhcp_env \<Rightarrow> nat \<Rightarrow> dhcp \<Rightarrow> u8 \<Rightarrow> dhcp_module \<Rightarrow> (nat \<times> u16 \<times> dhcp \<times> dhcp_module) option" where
  "dhcp_create_msg e n dh message_type s =
     do { (p, h) \<leftarrow> pbuf_alloc (pb_env (dh_eth e)) PBUF_TRANSPORT SIZEOF_DHCP_MSG PBUF_RAM (dh_heap s);
          let s = set_dh_heap h s
          in if p = 0 then Some (0, 0, dh, s)
             else
               do { b \<leftarrow> pbufs h p;
                    lwip_assert (len b \<ge> SIZEOF_DHCP_MSG);
                    let (dh, s) =
                          (if message_type \<noteq> DHCP_REQUEST \<or> dc_state dh = DHCP_STATE_REBOOTING then
                             (let s = (if dc_tries dh = 0 then
                                         (let net = dh_net s
                                          in (set_dh_net (net\<lparr>rand_calls := rand_calls net + 1\<rparr>) s)
                                               \<lparr>dhcp_xid := lwip_rand (dh_eth e) (rand_calls net)\<rparr>)
                                       else s)
                              in (dh\<lparr>dc_xid := dhcp_xid s\<rparr>, s))
                           else (dh, s))
                    in do { nif \<leftarrow> netifs (dh_net s) n;
                            let ciaddr = (if message_type \<in> {DHCP_INFORM, DHCP_DECLINE, DHCP_RELEASE} \<or>
                                             message_type = DHCP_REQUEST \<and> dc_state dh \<in> {DHCP_STATE_RENEWING, DHCP_STATE_REBINDING}
                                          then ip_addr nif else 0);
                                msg = payload b;
                                h = write_bytes msg (dhcp_msg_bytes nif (dc_xid dh) ciaddr @ replicate DHCP_OPTIONS_LEN 0) (dh_heap s)
                            in do { w \<leftarrow> dhcp_option (msg + 240) DHCP_OPTION_MESSAGE_TYPE 1 (0, h);
                                    (k, h) \<leftarrow> dhcp_option_byte (msg + 240) message_type w;
                                    Some (p, k, dh, set_dh_heap h s) } } } }"

text \<open>The common part of the functions that send a message for the client at \<open>d\<close>: it is created, the options are added, and it
  is sent and freed.\<close>

definition dhcp_send_msg :: "dhcp_env \<Rightarrow> nat \<Rightarrow> nat \<Rightarrow> u8 \<Rightarrow> (nat \<Rightarrow> u16 \<times> heap \<Rightarrow> (u16 \<times> heap) option) \<Rightarrow>
    (nat \<Rightarrow> eth_state \<Rightarrow> (err_t \<times> eth_state) option) \<Rightarrow> dhcp_module \<Rightarrow> (err_t \<times> dhcp_module) option" where
  "dhcp_send_msg e n d message_type add_options send s =
     do { dh \<leftarrow> dhcps s d;
          (p, k, dh, s) \<leftarrow> dhcp_create_msg e n dh message_type s;
          s \<leftarrow> upd_dhcp d (\<lambda>_. dh) s;
          if p = 0 then Some (ERR_MEM, s)
          else
            do { b \<leftarrow> pbufs (dh_heap s) p;
                 w \<leftarrow> add_options (payload b + 240) (k, dh_heap s);
                 h \<leftarrow> dhcp_option_trailer e (payload b + 240) p w;
                 (err, net) \<leftarrow> send p (dh_net (set_dh_heap h s));
                 s \<leftarrow> dh_pbuf_free e p (set_dh_net net s);
                 Some (err, s) } }"

definition opt_max_msg_size :: "u16 \<Rightarrow> nat \<Rightarrow> u16 \<times> heap \<Rightarrow> (u16 \<times> heap) option" where
  "opt_max_msg_size sz options w = do { w \<leftarrow> dhcp_option options DHCP_OPTION_MAX_MSG_SIZE 2 w; dhcp_option_short options sz w }"

definition opt_address :: "u8 \<Rightarrow> u32 \<Rightarrow> nat \<Rightarrow> u16 \<times> heap \<Rightarrow> (u16 \<times> heap) option" where
  "opt_address op a options w = do { w \<leftarrow> dhcp_option options op 4 w; dhcp_option_long options (lwip_htonl a) w }"

definition opt_request_list :: "nat \<Rightarrow> u16 \<times> heap \<Rightarrow> (u16 \<times> heap) option" where
  "opt_request_list options w =
     do { w \<leftarrow> dhcp_option options DHCP_OPTION_PARAMETER_REQUEST_LIST (word_of_nat (length dhcp_discover_request_options)) w;
          dhcp_option_bytes options dhcp_discover_request_options w }"

text \<open>The end of these functions: one try more, and the time until the next one; \<open>msecs\<close> gives it from the number of tries.\<close>

definition dhcp_retry :: "(u8 \<Rightarrow> u16) \<Rightarrow> dhcp \<Rightarrow> dhcp" where
  "dhcp_retry msecs dh =
     (let dh = (if dc_tries dh < 255 then dh\<lparr>dc_tries := dc_tries dh + 1\<rparr> else dh)
      in dh\<lparr>dc_request_timeout := word_of_nat ((unat (msecs (dc_tries dh)) + 500 - 1) div 500)\<rparr>)"

definition DHCP_REQUEST_BACKOFF_SEQUENCE :: "u8 \<Rightarrow> u16" where
  "DHCP_REQUEST_BACKOFF_SEQUENCE tries = (if tries < 6 then push_bit (unat tries) 1 else 60) * 1000"

definition dhcp_discover_options :: "u16 \<Rightarrow> u8 list option \<Rightarrow> nat \<Rightarrow> u16 \<times> heap \<Rightarrow> (u16 \<times> heap) option" where
  "dhcp_discover_options m hostname options w =
     do { w \<leftarrow> opt_max_msg_size m options w;
          w \<leftarrow> dhcp_option_hostname options hostname w;
          opt_request_list options w }"

definition dhcp_discover :: "dhcp_env \<Rightarrow> nat \<Rightarrow> dhcp_module \<Rightarrow> (err_t \<times> dhcp_module) option" where
  "dhcp_discover e n s =
     (let d = dhcp_data s n
      in do { dh \<leftarrow> dhcps s d;
              s \<leftarrow> (if dc_tries dh \<ge> LWIP_DHCP_AUTOIP_COOP_TRIES
                    then do { (_, net) \<leftarrow> autoip_start (dh_eth e) (dh_autoip_cb e) n (dh_net s); Some (set_dh_net net s) }
                    else Some s);
              s \<leftarrow> upd_dhcp d (\<lambda>dh. dhcp_set_state DHCP_STATE_SELECTING (dh\<lparr>dc_offered_ip_addr := 0\<rparr>)) s;
              nif \<leftarrow> netifs (dh_net s) n;
              (_, s) \<leftarrow> dhcp_send_msg e n d DHCP_DISCOVER (dhcp_discover_options (mtu nif) (netif_hostname e n))
                         (\<lambda>p. udp_sendto_if_src (dh_eth e) (dhcp_pcb s) p IPADDR_BROADCAST LWIP_IANA_PORT_DHCP_SERVER n IPADDR_ANY) s;
              s \<leftarrow> upd_dhcp d (dhcp_retry DHCP_REQUEST_BACKOFF_SEQUENCE) s;
              Some (ERR_OK, s) })"

definition dhcp_select_options :: "u16 \<Rightarrow> dhcp \<Rightarrow> u8 list option \<Rightarrow> nat \<Rightarrow> u16 \<times> heap \<Rightarrow> (u16 \<times> heap) option" where
  "dhcp_select_options m dh hostname options w =
     do { w \<leftarrow> opt_max_msg_size m options w;
          w \<leftarrow> opt_address DHCP_OPTION_REQUESTED_IP (dc_offered_ip_addr dh) options w;
          w \<leftarrow> opt_address DHCP_OPTION_SERVER_ID (dc_server_ip_addr dh) options w;
          w \<leftarrow> opt_request_list options w;
          dhcp_option_hostname options hostname w }"

definition dhcp_select :: "dhcp_env \<Rightarrow> nat \<Rightarrow> dhcp_module \<Rightarrow> (err_t \<times> dhcp_module) option" where
  "dhcp_select e n s =
     (if n = 0 then Some (ERR_ARG, s)
      else if dhcp_data s n = 0 then Some (ERR_VAL, s)
      else
        (let d = dhcp_data s n
         in do { s \<leftarrow> upd_dhcp d (dhcp_set_state DHCP_STATE_REQUESTING) s;
                 dh \<leftarrow> dhcps s d;
                 nif \<leftarrow> netifs (dh_net s) n;
                 (result, s) \<leftarrow> dhcp_send_msg e n d DHCP_REQUEST (dhcp_select_options (mtu nif) dh (netif_hostname e n))
                    (\<lambda>p. udp_sendto_if_src (dh_eth e) (dhcp_pcb s) p IPADDR_BROADCAST LWIP_IANA_PORT_DHCP_SERVER n IPADDR_ANY) s;
                 s \<leftarrow> upd_dhcp d (dhcp_retry DHCP_REQUEST_BACKOFF_SEQUENCE) s;
                 Some (result, s) }))"

definition dhcp_renew_options :: "u16 \<Rightarrow> u8 list option \<Rightarrow> nat \<Rightarrow> u16 \<times> heap \<Rightarrow> (u16 \<times> heap) option" where
  "dhcp_renew_options m hostname options w =
     do { w \<leftarrow> opt_max_msg_size m options w;
          w \<leftarrow> opt_request_list options w;
          dhcp_option_hostname options hostname w }"

definition dhcp_renew :: "dhcp_env \<Rightarrow> nat \<Rightarrow> dhcp_module \<Rightarrow> (err_t \<times> dhcp_module) option" where
  "dhcp_renew e n s =
     (let d = dhcp_data s n
      in do { s \<leftarrow> upd_dhcp d (dhcp_set_state DHCP_STATE_RENEWING) s;
              dh \<leftarrow> dhcps s d;
              nif \<leftarrow> netifs (dh_net s) n;
              (result, s) \<leftarrow> dhcp_send_msg e n d DHCP_REQUEST (dhcp_renew_options (mtu nif) (netif_hostname e n))
                 (\<lambda>p. udp_sendto_if (dh_eth e) (dhcp_pcb s) p (dc_server_ip_addr dh) LWIP_IANA_PORT_DHCP_SERVER n) s;
              s \<leftarrow> upd_dhcp d (dhcp_retry (\<lambda>t. if t < 10 then ucast t * 2000 else 20 * 1000)) s;
              Some (result, s) })"

definition dhcp_rebind :: "dhcp_env \<Rightarrow> nat \<Rightarrow> dhcp_module \<Rightarrow> (err_t \<times> dhcp_module) option" where
  "dhcp_rebind e n s =
     (let d = dhcp_data s n
      in do { s \<leftarrow> upd_dhcp d (dhcp_set_state DHCP_STATE_REBINDING) s;
              nif \<leftarrow> netifs (dh_net s) n;
              (result, s) \<leftarrow> dhcp_send_msg e n d DHCP_REQUEST (dhcp_renew_options (mtu nif) (netif_hostname e n))
                 (\<lambda>p. udp_sendto_if (dh_eth e) (dhcp_pcb s) p IPADDR_BROADCAST LWIP_IANA_PORT_DHCP_SERVER n) s;
              s \<leftarrow> upd_dhcp d (dhcp_retry (\<lambda>t. if t < 10 then ucast t * 1000 else 10 * 1000)) s;
              Some (result, s) })"

definition dhcp_reboot_options :: "dhcp \<Rightarrow> u8 list option \<Rightarrow> nat \<Rightarrow> u16 \<times> heap \<Rightarrow> (u16 \<times> heap) option" where
  "dhcp_reboot_options dh hostname options w =
     do { w \<leftarrow> opt_max_msg_size DHCP_MAX_MSG_LEN_MIN_REQUIRED options w;
          w \<leftarrow> opt_address DHCP_OPTION_REQUESTED_IP (dc_offered_ip_addr dh) options w;
          w \<leftarrow> opt_request_list options w;
          dhcp_option_hostname options hostname w }"

definition dhcp_reboot :: "dhcp_env \<Rightarrow> nat \<Rightarrow> dhcp_module \<Rightarrow> (err_t \<times> dhcp_module) option" where
  "dhcp_reboot e n s =
     (let d = dhcp_data s n
      in do { s \<leftarrow> upd_dhcp d (dhcp_set_state DHCP_STATE_REBOOTING) s;
              dh \<leftarrow> dhcps s d;
              (result, s) \<leftarrow> dhcp_send_msg e n d DHCP_REQUEST (dhcp_reboot_options dh (netif_hostname e n))
                 (\<lambda>p. udp_sendto_if (dh_eth e) (dhcp_pcb s) p IPADDR_BROADCAST LWIP_IANA_PORT_DHCP_SERVER n) s;
              s \<leftarrow> upd_dhcp d (dhcp_retry (\<lambda>t. if t < 10 then ucast t * 1000 else 10 * 1000)) s;
              Some (result, s) })"

section \<open>Starting and stopping\<close>

definition dhcp_supplied_address :: "nat \<Rightarrow> dhcp_module \<Rightarrow> bool option" where
  "dhcp_supplied_address n s =
     (if n \<noteq> 0 \<and> dhcp_data s n \<noteq> 0
      then do { dh \<leftarrow> dhcps s (dhcp_data s n);
                Some (dc_state dh \<in> {DHCP_STATE_BOUND, DHCP_STATE_RENEWING, DHCP_STATE_REBINDING}) }
      else Some False)"

definition dhcp_forget_offer :: "dhcp \<Rightarrow> dhcp" where
  "dhcp_forget_offer dh =
     dh\<lparr>dc_server_ip_addr := 0, dc_offered_ip_addr := 0, dc_offered_sn_mask := 0, dc_offered_gw_addr := 0,
        dc_offered_t0_lease := 0, dc_offered_t1_renew := 0, dc_offered_t2_rebind := 0,
        dc_t1_renew_time := 0, dc_t2_rebind_time := 0, dc_lease_used := 0, dc_t0_timeout := 0\<rparr>"

definition dhcp_release_and_stop :: "dhcp_env \<Rightarrow> nat \<Rightarrow> dhcp_module \<Rightarrow> dhcp_module option" where
  "dhcp_release_and_stop e n s =
     (let d = dhcp_data s n
      in if d = 0 then Some s
         else
           do { dh \<leftarrow> dhcps s d;
                if dc_state dh = DHCP_STATE_OFF then Some s
                else
                  (let server_ip_addr = dc_server_ip_addr dh
                   in do { s \<leftarrow> upd_dhcp d dhcp_forget_offer s;
                           supplied \<leftarrow> dhcp_supplied_address n s;
                           s \<leftarrow> upd_dhcp d (dhcp_set_state DHCP_STATE_OFF) s;
                           s \<leftarrow> (if supplied then
                                   do { (_, s) \<leftarrow> dhcp_send_msg e n d DHCP_RELEASE (opt_address DHCP_OPTION_SERVER_ID server_ip_addr)
                                          (\<lambda>p. udp_sendto_if (dh_eth e) (dhcp_pcb s) p server_ip_addr LWIP_IANA_PORT_DHCP_SERVER n) s;
                                        dh_set_addr e n 0 0 0 s }
                                 else Some s);
                           dh \<leftarrow> dhcps s d;
                           if dc_pcb_allocated dh \<noteq> 0
                           then do { s \<leftarrow> dhcp_dec_pcb_refcount s; upd_dhcp d (\<lambda>dh. dh\<lparr>dc_pcb_allocated := 0\<rparr>) s }
                           else Some s }) })"

definition dhcp_release :: "dhcp_env \<Rightarrow> nat \<Rightarrow> dhcp_module \<Rightarrow> (err_t \<times> dhcp_module) option" where
  "dhcp_release e n s = do { s \<leftarrow> dhcp_release_and_stop e n s; Some (ERR_OK, s) }"

definition dhcp_stop :: "dhcp_env \<Rightarrow> nat \<Rightarrow> dhcp_module \<Rightarrow> dhcp_module option" where
  "dhcp_stop e n s = dhcp_release_and_stop e n s"

definition dhcp_set_struct :: "nat \<Rightarrow> nat \<Rightarrow> dhcp_module \<Rightarrow> dhcp_module option" where
  "dhcp_set_struct n d s =
     do { lwip_assert (n \<noteq> 0);
          lwip_assert (d \<noteq> 0);
          lwip_assert (dhcp_data s n = 0);
          Some (s\<lparr>dhcps := (dhcps s)(d \<mapsto> zero_dhcp\<lparr>dc_flags := DHCP_FLAG_EXTERNAL_MEM\<rparr>), dhcp_data := (dhcp_data s)(n := d)\<rparr>) }"

definition dhcp_cleanup :: "nat \<Rightarrow> dhcp_module \<Rightarrow> dhcp_module option" where
  "dhcp_cleanup n s =
     do { lwip_assert (n \<noteq> 0);
          let d = dhcp_data s n
          in if d \<noteq> 0 then
               do { dh \<leftarrow> dhcps s d;
                    s \<leftarrow> (if dc_flags dh AND DHCP_FLAG_EXTERNAL_MEM = 0
                          then do { h \<leftarrow> mem_free d (dh_heap s); Some ((set_dh_heap h s)\<lparr>dhcps := (dhcps s)(d := None)\<rparr>) }
                          else Some s);
                    Some (s\<lparr>dhcp_data := (dhcp_data s)(n := 0)\<rparr>) }
             else Some s }"

text \<open>The first part of \<^verbatim>\<open>dhcp_start\<close>: the structure, new or given back its control block, is cleared. The address is 0 if there is no
  memory.\<close>

definition dhcp_attach :: "dhcp_env \<Rightarrow> nat \<Rightarrow> dhcp_module \<Rightarrow> (nat \<times> dhcp_module) option" where
  "dhcp_attach e n s =
     (if dhcp_data s n = 0 then
        do { (d, h) \<leftarrow> mem_malloc (pb_env (dh_eth e)) SIZEOF_STRUCT_DHCP (dh_heap s);
             let s = set_dh_heap h s
             in Some (if d = 0 then (0, s) else (d, s\<lparr>dhcps := (dhcps s)(d \<mapsto> zero_dhcp), dhcp_data := (dhcp_data s)(n := d)\<rparr>)) }
      else
        (let d = dhcp_data s n
         in do { dh \<leftarrow> dhcps s d;
                 s \<leftarrow> (if dc_pcb_allocated dh \<noteq> 0 then dhcp_dec_pcb_refcount s else Some s);
                 s \<leftarrow> upd_dhcp d (\<lambda>dh. zero_dhcp\<lparr>dc_flags := dc_flags dh AND DHCP_FLAG_EXTERNAL_MEM\<rparr>) s;
                 Some (d, s) }))"

definition dhcp_start :: "dhcp_env \<Rightarrow> nat \<Rightarrow> dhcp_module \<Rightarrow> (err_t \<times> dhcp_module) option" where
  "dhcp_start e n s =
     (if n = 0 then Some (ERR_ARG, s)
      else
        do { nif \<leftarrow> netifs (dh_net s) n;
             if \<not> netif_is_up nif then Some (ERR_ARG, s)
             else if mtu nif < DHCP_MAX_MSG_LEN_MIN_REQUIRED then Some (ERR_MEM, s)
             else
               do { (d, s) \<leftarrow> dhcp_attach e n s;
                    if d = 0 then Some (ERR_MEM, s)
                    else
                      do { (err, s) \<leftarrow> dhcp_inc_pcb_refcount e s;
                           if err \<noteq> ERR_OK then Some (ERR_MEM, s)
                           else
                             do { s \<leftarrow> upd_dhcp d (\<lambda>dh. dh\<lparr>dc_pcb_allocated := 1\<rparr>) s;
                                  if \<not> netif_is_link_up nif
                                  then do { s \<leftarrow> upd_dhcp d (dhcp_set_state DHCP_STATE_INIT) s; Some (ERR_OK, s) }
                                  else
                                    do { (result, s) \<leftarrow> dhcp_discover e n s;
                                         if result \<noteq> ERR_OK
                                         then do { s \<leftarrow> dhcp_release_and_stop e n s; Some (ERR_MEM, s) }
                                         else Some (result, s) } } } } })"

text \<open>The client of \<^verbatim>\<open>dhcp_inform\<close> is a local variable.\<close>

definition dhcp_inform :: "dhcp_env \<Rightarrow> nat \<Rightarrow> dhcp_module \<Rightarrow> dhcp_module option" where
  "dhcp_inform e n s =
     (if n = 0 then Some s
      else
        do { (err, s) \<leftarrow> dhcp_inc_pcb_refcount e s;
             if err \<noteq> ERR_OK then Some s
             else
               do { (p, k, _, s) \<leftarrow> dhcp_create_msg e n (dhcp_set_state DHCP_STATE_INFORMING zero_dhcp) DHCP_INFORM s;
                    s \<leftarrow> (if p = 0 then Some s
                          else
                            do { b \<leftarrow> pbufs (dh_heap s) p;
                                 nif \<leftarrow> netifs (dh_net s) n;
                                 w \<leftarrow> opt_max_msg_size (mtu nif) (payload b + 240) (k, dh_heap s);
                                 h \<leftarrow> dhcp_option_trailer e (payload b + 240) p w;
                                 (_, net) \<leftarrow> udp_sendto_if (dh_eth e) (dhcp_pcb s) p IPADDR_BROADCAST LWIP_IANA_PORT_DHCP_SERVER n
                                              (dh_net (set_dh_heap h s));
                                 dh_pbuf_free e p (set_dh_net net s) });
                    dhcp_dec_pcb_refcount s } })"

definition dhcp_network_changed_link_up :: "dhcp_env \<Rightarrow> nat \<Rightarrow> dhcp_module \<Rightarrow> dhcp_module option" where
  "dhcp_network_changed_link_up e n s =
     (let d = dhcp_data s n
      in if d = 0 then Some s
         else
           do { dh \<leftarrow> dhcps s d;
                if dc_state dh \<in> {DHCP_STATE_REBINDING, DHCP_STATE_RENEWING, DHCP_STATE_BOUND, DHCP_STATE_REBOOTING} then
                  do { s \<leftarrow> upd_dhcp d (\<lambda>dh. dh\<lparr>dc_tries := 0\<rparr>) s; (_, s) \<leftarrow> dhcp_reboot e n s; Some s }
                else if dc_state dh = DHCP_STATE_OFF then Some s
                else do { s \<leftarrow> upd_dhcp d (\<lambda>dh. dh\<lparr>dc_tries := 0\<rparr>) s; (_, s) \<leftarrow> dhcp_discover e n s; Some s } })"

section \<open>Timers\<close>

text \<open>\<^verbatim>\<open>SET_TIMEOUT_FROM_OFFERED\<close> with the minimum 0 and the maximum \<^verbatim>\<open>0xffff\<close>: seconds to minutes.\<close>

definition SET_TIMEOUT_FROM_OFFERED :: "u32 \<Rightarrow> u16" where
  "SET_TIMEOUT_FROM_OFFERED offered =
     (let timeout = (offered + 30) div 60;
          timeout = (if timeout > 0xffff then 0xffff else timeout);
          timeout = (if timeout = 0 then 1 else timeout)
      in ucast timeout)"

text \<open>The timers that \<^verbatim>\<open>dhcp_bind\<close> sets.\<close>

definition dhcp_bind_timers :: "dhcp \<Rightarrow> dhcp" where
  "dhcp_bind_timers dh =
     (let dh = dh\<lparr>dc_lease_used := 0\<rparr>;
          dh = (if dc_offered_t0_lease dh \<noteq> 0xffffffff
                then dh\<lparr>dc_t0_timeout := SET_TIMEOUT_FROM_OFFERED (dc_offered_t0_lease dh)\<rparr> else dh);
          dh = (if dc_offered_t1_renew dh \<noteq> 0xffffffff
                then (let t = SET_TIMEOUT_FROM_OFFERED (dc_offered_t1_renew dh) in dh\<lparr>dc_t1_timeout := t, dc_t1_renew_time := t\<rparr>) else dh);
          dh = (if dc_offered_t2_rebind dh \<noteq> 0xffffffff
                then (let t = SET_TIMEOUT_FROM_OFFERED (dc_offered_t2_rebind dh) in dh\<lparr>dc_t2_timeout := t, dc_t2_rebind_time := t\<rparr>) else dh)
      in if dc_t1_timeout dh \<ge> dc_t2_timeout dh \<and> dc_t2_timeout dh > 0 then dh\<lparr>dc_t1_timeout := 0\<rparr> else dh)"

definition dhcp_subnet_mask :: "dhcp \<Rightarrow> u32" where
  "dhcp_subnet_mask dh =
     (if dc_flags dh AND DHCP_FLAG_SUBNET_MASK_GIVEN \<noteq> 0 then dc_offered_sn_mask dh
      else
        (let first_octet = ip4_addr_get_byte (dc_offered_ip_addr dh) 0
         in if first_octet \<le> 127 then PP_HTONL 0xff000000
            else if first_octet \<ge> 192 then PP_HTONL 0xffffff00
            else PP_HTONL 0xffff0000))"

definition dhcp_bind :: "dhcp_env \<Rightarrow> nat \<Rightarrow> dhcp_module \<Rightarrow> dhcp_module option" where
  "dhcp_bind e n s =
     (let d = dhcp_data s n
      in if n = 0 \<or> d = 0 then Some s
         else
           do { s \<leftarrow> upd_dhcp d (\<lambda>dh. dhcp_set_state DHCP_STATE_BOUND (dhcp_bind_timers dh)) s;
                dh \<leftarrow> dhcps s d;
                dh_set_addr e n (dc_offered_ip_addr dh) (dhcp_subnet_mask dh) (dc_offered_gw_addr dh) s })"

text \<open>The time of the next try at \<^verbatim>\<open>T1\<close> and \<^verbatim>\<open>T2\<close>: half of what is left, in the arithmetic of \<^verbatim>\<open>int\<close>.\<close>

definition half_of_rest :: "u16 \<Rightarrow> u16 \<Rightarrow> int" where
  "half_of_rest limit used = (uint limit - uint used) sdiv 2"

definition dhcp_t1_timeout :: "dhcp_env \<Rightarrow> nat \<Rightarrow> dhcp_module \<Rightarrow> dhcp_module option" where
  "dhcp_t1_timeout e n s =
     (let d = dhcp_data s n
      in do { dh \<leftarrow> dhcps s d;
              if dc_state dh \<in> {DHCP_STATE_REQUESTING, DHCP_STATE_BOUND, DHCP_STATE_RENEWING} then
                do { (_, s) \<leftarrow> dhcp_renew e n s;
                     upd_dhcp d (\<lambda>dh. let t = half_of_rest (dc_t2_timeout dh) (dc_lease_used dh)
                                      in if t \<ge> 1 then dh\<lparr>dc_t1_renew_time := word_of_int t\<rparr> else dh) s }
              else Some s })"

definition dhcp_t2_timeout :: "dhcp_env \<Rightarrow> nat \<Rightarrow> dhcp_module \<Rightarrow> dhcp_module option" where
  "dhcp_t2_timeout e n s =
     (let d = dhcp_data s n
      in do { dh \<leftarrow> dhcps s d;
              if dc_state dh \<in> {DHCP_STATE_REQUESTING, DHCP_STATE_BOUND, DHCP_STATE_RENEWING, DHCP_STATE_REBINDING} then
                do { (_, s) \<leftarrow> dhcp_rebind e n s;
                     upd_dhcp d (\<lambda>dh. let t = half_of_rest (dc_t0_timeout dh) (dc_lease_used dh)
                                      in if t \<ge> 1 then dh\<lparr>dc_t2_rebind_time := word_of_int t\<rparr> else dh) s }
              else Some s })"

text \<open>What a tick of the coarse timer does to the counters of a client, and which of the three events it causes.\<close>

datatype dhcp_event = Lease_Expired | Rebind_Due | Renew_Due

definition dhcp_coarse_tick :: "dhcp \<Rightarrow> dhcp \<times> dhcp_event option" where
  "dhcp_coarse_tick dh =
     (let dh = (if dc_t0_timeout dh \<noteq> 0 then dh\<lparr>dc_lease_used := dc_lease_used dh + 1\<rparr> else dh)
      in if dc_t0_timeout dh \<noteq> 0 \<and> dc_lease_used dh = dc_t0_timeout dh then (dh, Some Lease_Expired)
         else
           (let t2 = dc_t2_rebind_time dh; dh = (if t2 \<noteq> 0 then dh\<lparr>dc_t2_rebind_time := t2 - 1\<rparr> else dh)
            in if t2 = 1 then (dh, Some Rebind_Due)
               else
                 (let t1 = dc_t1_renew_time dh; dh = (if t1 \<noteq> 0 then dh\<lparr>dc_t1_renew_time := t1 - 1\<rparr> else dh)
                  in (dh, if t1 = 1 then Some Renew_Due else None))))"

definition dhcp_coarse_tmr :: "dhcp_env \<Rightarrow> dhcp_module \<Rightarrow> dhcp_module option" where
  "dhcp_coarse_tmr e s =
     (let n = netif_default (dh_net s); d = dhcp_data s n
      in if n = 0 \<or> d = 0 then Some s
         else
           do { dh \<leftarrow> dhcps s d;
                if dc_state dh = DHCP_STATE_OFF then Some s
                else
                  (let (dh, event) = dhcp_coarse_tick dh
                   in do { s \<leftarrow> upd_dhcp d (\<lambda>_. dh) s;
                           case event of
                             Some Lease_Expired \<Rightarrow>
                               do { s \<leftarrow> dhcp_release_and_stop e n s; (_, s) \<leftarrow> dhcp_start e n s; Some s }
                           | Some Rebind_Due \<Rightarrow> dhcp_t2_timeout e n s
                           | Some Renew_Due \<Rightarrow> dhcp_t1_timeout e n s
                           | None \<Rightarrow> Some s }) })"

definition dhcp_timeout :: "dhcp_env \<Rightarrow> nat \<Rightarrow> dhcp_module \<Rightarrow> dhcp_module option" where
  "dhcp_timeout e n s =
     do { dh \<leftarrow> dhcps s (dhcp_data s n);
          if dc_state dh \<in> {DHCP_STATE_BACKING_OFF, DHCP_STATE_SELECTING} then do { (_, s) \<leftarrow> dhcp_discover e n s; Some s }
          else if dc_state dh = DHCP_STATE_REQUESTING then
            if dc_tries dh \<le> 5 then do { (_, s) \<leftarrow> dhcp_select e n s; Some s }
            else do { s \<leftarrow> dhcp_release_and_stop e n s; (_, s) \<leftarrow> dhcp_start e n s; Some s }
          else if dc_state dh = DHCP_STATE_REBOOTING then
            if dc_tries dh < REBOOT_TRIES then do { (_, s) \<leftarrow> dhcp_reboot e n s; Some s }
            else do { (_, s) \<leftarrow> dhcp_discover e n s; Some s }
          else Some s }"

definition dhcp_fine_tmr :: "dhcp_env \<Rightarrow> dhcp_module \<Rightarrow> dhcp_module option" where
  "dhcp_fine_tmr e s =
     (let n = netif_default (dh_net s); d = dhcp_data s n
      in if n = 0 \<or> d = 0 then Some s
         else
           do { dh \<leftarrow> dhcps s d;
                if dc_request_timeout dh > 1 then upd_dhcp d (\<lambda>dh. dh\<lparr>dc_request_timeout := dc_request_timeout dh - 1\<rparr>) s
                else if dc_request_timeout dh = 1 then
                  do { s \<leftarrow> upd_dhcp d (\<lambda>dh. dh\<lparr>dc_request_timeout := dc_request_timeout dh - 1\<rparr>) s; dhcp_timeout e n s }
                else Some s })"

section \<open>Reading options\<close>

definition got_option :: "nat \<Rightarrow> u32 \<Rightarrow> rx_options \<Rightarrow> rx_options" where
  "got_option i v rx = rx\<lparr>rx_given := (rx_given rx)[i := True], rx_val := (rx_val rx)[i := v]\<rparr>"

definition clear_options :: "rx_options \<Rightarrow> rx_options" where
  "clear_options rx = rx\<lparr>rx_given := replicate DHCP_OPTION_IDX_MAX False\<rparr>"

text \<open>The \<^verbatim>\<open>switch\<close> over the code of an option: its length, how much of it is decoded and at which index it is stored; \<open>None\<close> if the
  message is invalid.\<close>

definition dhcp_option_kind :: "u8 \<Rightarrow> u8 \<Rightarrow> u16 \<Rightarrow> (u8 \<times> u8 \<times> int) option" where
  "dhcp_option_kind op n options_offset =
     (if op = DHCP_OPTION_PAD then Some (0, 0, -1)
      else if op = DHCP_OPTION_SUBNET_MASK then (if n = 4 then Some (n, n, int DHCP_OPTION_IDX_SUBNET_MASK) else None)
      else if op = DHCP_OPTION_ROUTER then (if n \<ge> 4 then Some (n, 4, int DHCP_OPTION_IDX_ROUTER) else None)
      else if op = DHCP_OPTION_DNS_SERVER then (if n mod 4 = 0 then Some (n, min n 8, int DHCP_OPTION_IDX_DNS_SERVER) else None)
      else if op = DHCP_OPTION_LEASE_TIME then (if n = 4 then Some (n, n, int DHCP_OPTION_IDX_LEASE_TIME) else None)
      else if op = DHCP_OPTION_OVERLOAD then
        (if n = 1 \<and> options_offset = DHCP_OPTIONS_OFS then Some (n, n, int DHCP_OPTION_IDX_OVERLOAD) else None)
      else if op = DHCP_OPTION_MESSAGE_TYPE then (if n = 1 then Some (n, n, int DHCP_OPTION_IDX_MSG_TYPE) else None)
      else if op = DHCP_OPTION_SERVER_ID then (if n = 4 then Some (n, n, int DHCP_OPTION_IDX_SERVER_ID) else None)
      else if op = DHCP_OPTION_T1 then (if n = 4 then Some (n, n, int DHCP_OPTION_IDX_T1) else None)
      else if op = DHCP_OPTION_T2 then (if n = 4 then Some (n, n, int DHCP_OPTION_IDX_T2) else None)
      else Some (n, 0, -1))"

text \<open>From \<^verbatim>\<open>decode_next\<close> on: values of four bytes, or of one.\<close>

partial_function (option) dhcp_decode ::
    "nat \<Rightarrow> heap \<Rightarrow> nat \<Rightarrow> int \<Rightarrow> u8 \<Rightarrow> u16 \<Rightarrow> rx_options \<Rightarrow> (err_t \<times> rx_options) option" where
  "dhcp_decode stk h q decode_idx decode_len val_offset rx =
     do { lwip_assert (0 \<le> decode_idx \<and> decode_idx < int DHCP_OPTION_IDX_MAX);
          let i = nat decode_idx; copy_len = (ucast (min decode_len 4) :: u16)
          in if rx_given rx ! i then Some (ERR_OK, rx)
             else
               do { (k, m) \<leftarrow> read_local stk h q copy_len val_offset;
                    if k \<noteq> copy_len then Some (ERR_BUF, rx)
                    else if decode_len > 4 then
                      if decode_len mod 4 \<noteq> 0 then Some (ERR_VAL, rx)
                      else
                        (let rx = got_option i (lwip_htonl (load32 m stk)) rx
                         in if val_offset + 4 < val_offset then Some (ERR_BUF, rx)
                            else dhcp_decode stk h q (decode_idx + 1) (decode_len - 4) (val_offset + 4) rx)
                    else if decode_len = 4 then Some (ERR_OK, got_option i (lwip_htonl (load32 m stk)) rx)
                    else if decode_len \<noteq> 1 then Some (ERR_VAL, rx)
                    else Some (ERR_OK, got_option i (ucast (m stk)) rx) } }"

text \<open>The length byte of the option at \<open>offset\<close>, which may be in the next buffer.\<close>

definition dhcp_option_length :: "heap \<Rightarrow> pbuf \<Rightarrow> u16 \<Rightarrow> u8 option" where
  "dhcp_option_length h b offset =
     (if unat offset + 1 < unat (len b) then Some (bytes h (payload b + unat offset + 1))
      else if pb_next b \<noteq> 0 then do { nb \<leftarrow> pbufs h (pb_next b); Some (bytes h (payload nb)) }
      else Some 0)"

text \<open>The loop over the options; the new offset after an option may lie in the next buffer.\<close>

partial_function (option) dhcp_options_loop ::
    "nat \<Rightarrow> heap \<Rightarrow> u16 \<Rightarrow> nat \<Rightarrow> u16 \<Rightarrow> u16 \<Rightarrow> rx_options \<Rightarrow> (err_t \<times> rx_options) option" where
  "dhcp_options_loop stk h options_offset q offset offset_max rx =
     (if q = 0 \<or> \<not> offset < offset_max then Some (ERR_OK, rx)
      else
        do { b \<leftarrow> pbufs h q;
             let op = bytes h (payload b + unat offset)
             in if op = DHCP_OPTION_END then Some (ERR_OK, rx)
                else if offset + 2 < offset then Some (ERR_BUF, rx)
                else
                  do { n \<leftarrow> dhcp_option_length h b offset;
                       case dhcp_option_kind op n options_offset of
                         None \<Rightarrow> Some (ERR_VAL, rx)
                       | Some (n, decode_len, decode_idx) \<Rightarrow>
                           if op \<noteq> DHCP_OPTION_PAD \<and> unat offset + unat n + 2 > 0xFFFF then Some (ERR_BUF, rx)
                           else
                             do { (err, rx) \<leftarrow> (if op \<noteq> DHCP_OPTION_PAD \<and> decode_len > 0
                                               then dhcp_decode stk h q decode_idx decode_len (offset + 2) rx else Some (ERR_OK, rx));
                                  if err \<noteq> ERR_OK then Some (err, rx)
                                  else
                                    (let offset = (if op = DHCP_OPTION_PAD then offset + 1 else offset + ucast n + 2)
                                     in if offset \<ge> len b then
                                          (let offset = offset - len b; offset_max = offset_max - len b
                                           in if offset < offset_max then
                                                if pb_next b = 0 then Some (ERR_VAL, rx)
                                                else dhcp_options_loop stk h options_offset (pb_next b) offset offset_max rx
                                              else Some (ERR_BUF, rx))
                                        else dhcp_options_loop stk h options_offset q offset offset_max rx) } } })"

text \<open>The buffer in which the options begin.\<close>

partial_function (option) dhcp_seek :: "heap \<Rightarrow> nat \<Rightarrow> u16 \<Rightarrow> u16 \<Rightarrow> (nat \<times> u16 \<times> u16) option" where
  "dhcp_seek h q options_idx options_idx_max =
     (if q = 0 then Some (0, options_idx, options_idx_max)
      else
        do { b \<leftarrow> pbufs h q;
             if options_idx \<ge> len b then dhcp_seek h (pb_next b) (options_idx - len b) (options_idx_max - len b)
             else Some (q, options_idx, options_idx_max) })"

text \<open>From \<^verbatim>\<open>again\<close> on: \<open>file\<close> and \<open>sname\<close> say which of the fields are still to be read as options.\<close>

definition dhcp_overload :: "rx_options \<Rightarrow> bool \<Rightarrow> bool \<Rightarrow> rx_options \<times> bool \<times> bool" where
  "dhcp_overload rx file sname =
     (if rx_given rx ! DHCP_OPTION_IDX_OVERLOAD then
        (let v = rx_val rx ! DHCP_OPTION_IDX_OVERLOAD
         in (rx\<lparr>rx_given := (rx_given rx)[DHCP_OPTION_IDX_OVERLOAD := False]\<rparr>, file \<or> v = 1 \<or> v = 3, sname \<or> v = 2 \<or> v = 3))
      else (rx, file, sname))"

partial_function (option) dhcp_parse_from ::
    "nat \<Rightarrow> heap \<Rightarrow> nat \<Rightarrow> u16 \<Rightarrow> u16 \<Rightarrow> bool \<Rightarrow> bool \<Rightarrow> rx_options \<Rightarrow> (err_t \<times> rx_options) option" where
  "dhcp_parse_from stk h p options_idx options_idx_max file sname rx =
     do { (q, offset, offset_max) \<leftarrow> dhcp_seek h p options_idx options_idx_max;
          if q = 0 then Some (ERR_BUF, rx)
          else
            do { (err, rx) \<leftarrow> dhcp_options_loop stk h options_idx q offset offset_max rx;
                 if err \<noteq> ERR_OK then Some (err, rx)
                 else
                   (let (rx, file, sname) = dhcp_overload rx file sname
                    in if file then dhcp_parse_from stk h p DHCP_FILE_OFS (DHCP_FILE_OFS + 128) False sname rx
                       else if sname then dhcp_parse_from stk h p DHCP_SNAME_OFS (DHCP_SNAME_OFS + 64) file False rx
                       else Some (ERR_OK, rx)) } }"

definition dhcp_parse_reply :: "nat \<Rightarrow> heap \<Rightarrow> nat \<Rightarrow> rx_options \<Rightarrow> (err_t \<times> rx_options) option" where
  "dhcp_parse_reply stk h p rx =
     (let rx = clear_options rx
      in do { b \<leftarrow> pbufs h p;
              if len b < DHCP_SNAME_OFS then Some (ERR_BUF, rx)
              else dhcp_parse_from stk h p DHCP_OPTIONS_OFS (tot_len b) False False rx })"

section \<open>Receiving\<close>

definition opt_given :: "nat \<Rightarrow> dhcp_module \<Rightarrow> bool" where
  "opt_given i s = rx_given (dhcp_rx s) ! i"

definition opt_value :: "nat \<Rightarrow> dhcp_module \<Rightarrow> u32" where
  "opt_value i s = rx_val (dhcp_rx s) ! i"

definition dhcp_handle_offer :: "dhcp_env \<Rightarrow> nat \<Rightarrow> u32 \<Rightarrow> dhcp_module \<Rightarrow> dhcp_module option" where
  "dhcp_handle_offer e n yiaddr s =
     (if opt_given DHCP_OPTION_IDX_SERVER_ID s then
        do { s \<leftarrow> upd_dhcp (dhcp_data s n) (\<lambda>dh. dh\<lparr>dc_request_timeout := 0,
                   dc_server_ip_addr := lwip_htonl (opt_value DHCP_OPTION_IDX_SERVER_ID s), dc_offered_ip_addr := yiaddr\<rparr>) s;
             (_, s) \<leftarrow> dhcp_select e n s;
             Some s }
      else Some s)"

definition dhcp_handle_nak :: "dhcp_env \<Rightarrow> nat \<Rightarrow> dhcp_module \<Rightarrow> dhcp_module option" where
  "dhcp_handle_nak e n s =
     do { s \<leftarrow> upd_dhcp (dhcp_data s n) (dhcp_set_state DHCP_STATE_BACKING_OFF) s;
          s \<leftarrow> dh_set_addr e n 0 0 0 s;
          (_, s) \<leftarrow> dhcp_discover e n s;
          Some s }"

text \<open>The part of \<^verbatim>\<open>dhcp_handle_ack\<close> that concerns the client, and the loop over the DNS servers.\<close>

definition dhcp_accept_ack :: "rx_options \<Rightarrow> u32 \<Rightarrow> dhcp \<Rightarrow> dhcp" where
  "dhcp_accept_ack rx yiaddr dh =
     (let given = (\<lambda>i. rx_given rx ! i); v = (\<lambda>i. rx_val rx ! i);
          dh = dh\<lparr>dc_offered_sn_mask := 0, dc_offered_gw_addr := 0\<rparr>;
          dh = (if given DHCP_OPTION_IDX_LEASE_TIME then dh\<lparr>dc_offered_t0_lease := v DHCP_OPTION_IDX_LEASE_TIME\<rparr> else dh);
          dh = dh\<lparr>dc_offered_t1_renew := (if given DHCP_OPTION_IDX_T1 then v DHCP_OPTION_IDX_T1 else dc_offered_t0_lease dh div 2)\<rparr>;
          dh = dh\<lparr>dc_offered_t2_rebind := (if given DHCP_OPTION_IDX_T2 then v DHCP_OPTION_IDX_T2 else dc_offered_t0_lease dh * 7 div 8)\<rparr>;
          dh = dh\<lparr>dc_offered_ip_addr := yiaddr\<rparr>;
          dh = (if given DHCP_OPTION_IDX_SUBNET_MASK
                then dh\<lparr>dc_offered_sn_mask := lwip_htonl (v DHCP_OPTION_IDX_SUBNET_MASK), dc_flags := dc_flags dh OR DHCP_FLAG_SUBNET_MASK_GIVEN\<rparr>
                else dh\<lparr>dc_flags := dc_flags dh AND NOT DHCP_FLAG_SUBNET_MASK_GIVEN\<rparr>)
      in if given DHCP_OPTION_IDX_ROUTER then dh\<lparr>dc_offered_gw_addr := lwip_htonl (v DHCP_OPTION_IDX_ROUTER)\<rparr> else dh)"

fun dhcp_dns_loop :: "nat \<Rightarrow> nat \<Rightarrow> rx_options \<Rightarrow> dns_state \<Rightarrow> dns_state" where
  "dhcp_dns_loop 0 n rx s = s"
| "dhcp_dns_loop (Suc k) n rx s =
     (if rx_given rx ! (DHCP_OPTION_IDX_DNS_SERVER + n)
      then dhcp_dns_loop k (n + 1) rx (dns_setserver (word_of_nat n) (Some (lwip_htonl (rx_val rx ! (DHCP_OPTION_IDX_DNS_SERVER + n)))) s)
      else s)"

definition dhcp_handle_ack :: "nat \<Rightarrow> u32 \<Rightarrow> dhcp_module \<Rightarrow> dhcp_module option" where
  "dhcp_handle_ack n yiaddr s =
     do { s \<leftarrow> upd_dhcp (dhcp_data s n) (dhcp_accept_ack (dhcp_rx s) yiaddr) s;
          Some (s\<lparr>dh_dns := dhcp_dns_loop 2 0 (dhcp_rx s) (dh_dns s)\<rparr>) }"

text \<open>The checks before the options are read: a reply for this client.\<close>

definition dhcp_for_us :: "netif \<Rightarrow> dhcp \<Rightarrow> heap \<Rightarrow> pbuf \<Rightarrow> bool" where
  "dhcp_for_us nif dh h b \<longleftrightarrow>
     len b \<ge> DHCP_MIN_REPLY_LEN \<and> bytes h (payload b) = DHCP_BOOTREPLY \<and>
     list_all (\<lambda>i. hwaddr nif ! i = bytes h (payload b + 28 + i)) [0..<min (unat (hwaddr_len nif)) 6] \<and>
     lwip_htonl (load32 (bytes h) (payload b + 4)) = dc_xid dh"

text \<open>The actions of the message types in the states of the client.\<close>

definition dhcp_dispatch :: "dhcp_env \<Rightarrow> nat \<Rightarrow> u8 \<Rightarrow> u32 \<Rightarrow> dhcp_module \<Rightarrow> dhcp_module option" where
  "dhcp_dispatch e n msg_type yiaddr s =
     do { dh \<leftarrow> dhcps s (dhcp_data s n);
          if msg_type = DHCP_ACK then
            if dc_state dh \<in> {DHCP_STATE_REQUESTING, DHCP_STATE_REBOOTING, DHCP_STATE_REBINDING, DHCP_STATE_RENEWING}
            then do { s \<leftarrow> dhcp_handle_ack n yiaddr s; dhcp_bind e n s }
            else Some s
          else if msg_type = DHCP_NAK \<and>
                  dc_state dh \<in> {DHCP_STATE_REBOOTING, DHCP_STATE_REQUESTING, DHCP_STATE_REBINDING, DHCP_STATE_RENEWING}
          then dhcp_handle_nak e n s
          else if msg_type = DHCP_OFFER \<and> dc_state dh = DHCP_STATE_SELECTING then dhcp_handle_offer e n yiaddr s
          else Some s }"

definition dhcp_recv :: "dhcp_env \<Rightarrow> nat \<Rightarrow> dhcp_module \<Rightarrow> dhcp_module option" where
  "dhcp_recv e p s =
     (let n = current_input_netif (ip_data (ip_st (dh_net s))); d = dhcp_data s n
      in if d = 0 then dh_pbuf_free e p s
         else
           do { dh \<leftarrow> dhcps s d;
                if dc_pcb_allocated dh = 0 then dh_pbuf_free e p s
                else
                  do { b \<leftarrow> pbufs (dh_heap s) p;
                       nif \<leftarrow> netifs (dh_net s) n;
                       if \<not> dhcp_for_us nif dh (dh_heap s) b then dh_pbuf_free e p s
                       else
                         do { (err, rx) \<leftarrow> dhcp_parse_reply (dh_stack e) (dh_heap s) p (dhcp_rx s);
                              let s = s\<lparr>dhcp_rx := rx\<rparr>
                              in if err \<noteq> ERR_OK \<or> \<not> opt_given DHCP_OPTION_IDX_MSG_TYPE s then dh_pbuf_free e p s
                                 else
                                   do { s \<leftarrow> dhcp_dispatch e n (ucast (opt_value DHCP_OPTION_IDX_MSG_TYPE s))
                                               (load32 (bytes (dh_heap s)) (payload b + 16)) s;
                                        dh_pbuf_free e p s } } } })"

end
