(* ===== verification/Dhcp_Options.thy ===== *)
theory Dhcp_Options
  imports Dhcp Dns_Props
begin

text \<open>
  The options of DHCP messages: that reading them always ends, what is read from a message, and what is written into one.
\<close>

section \<open>Reading ends\<close>

definition rx_ok :: "rx_options \<Rightarrow> bool" where
  "rx_ok rx \<longleftrightarrow> length (rx_given rx) = 10 \<and> length (rx_val rx) = 10"

lemma rx_ok_simps [simp]:
  "rx_ok (got_option i v rx) = rx_ok rx" "rx_ok (rx\<lparr>rx_given := (rx_given rx)[i := x]\<rparr>) = rx_ok rx"
  "rx_ok (clear_options rx) \<longleftrightarrow> length (rx_val rx) = 10"
  by (simp_all add: rx_ok_def got_option_def clear_options_def)

lemma got_option_first [simp]: "i \<noteq> 0 \<Longrightarrow> rx_given (got_option i v rx) ! 0 = rx_given rx ! 0"
  by (simp add: got_option_def)

lemma beside_stack_tail:
  assumes "beside_stack stk h p as" "pbufs h p = Some b" "pb_next b \<noteq> 0"
  shows "beside_stack stk h (pb_next b) (tl as)"
proof -
  have pk: "packet h p as" using assms(1) by (simp add: beside_stack_def)
  then obtain as' where as: "as = p # as'" "pchain h (pb_next b) as'" "totals_ok h as'"
    using assms(2) by (auto elim!: packet_head)
  then have "packet h (pb_next b) as'" using assms(3) by (cases as') (auto simp: packet_def)
  then show ?thesis using assms(1) as(1) by (auto simp: beside_stack_def disjoint_payloads_def packet_region_def)
qed

lemma read_local_returns: "beside_stack stk h p as \<Longrightarrow> unat n \<le> 256 \<Longrightarrow> \<exists>k m. read_local stk h p n off = Some (k, m)"
  using read_local_spec by (simp add: Let_def)

lemma ucast_u8_small: "unat (ucast (x :: u8) :: u16) \<le> 256"
  using unat_u8_less [of x] by (simp add: u16_of_u8 del: unat_u8_less)

lemma dhcp_decode_short:
  assumes bs: "beside_stack stk h q as" and idx: "0 \<le> idx" "idx < 10" and dl: "dl \<le> 4"
  shows "\<exists>err rx'. dhcp_decode stk h q idx dl off rx = Some (err, rx') \<and> rx_ok rx' = rx_ok rx \<and>
     (idx \<noteq> 0 \<longrightarrow> rx_given rx' ! 0 = rx_given rx ! 0)"
proof -
  obtain k m where rl: "read_local stk h q (ucast (min dl 4)) off = Some (k, m)" using read_local_returns [OF bs ucast_u8_small] by blast
  have "\<not> dl > 4" using dl by simp
  then show ?thesis using rl idx by (subst dhcp_decode.simps) (simp add: Let_def)
qed

lemma dhcp_decode_ends:
  assumes bs: "beside_stack stk h q as" and idx: "0 \<le> idx" "idx < 10" and dl: "dl \<le> 4 \<or> idx = 8 \<and> dl \<le> 8"
  shows "\<exists>err rx'. dhcp_decode stk h q idx dl off rx = Some (err, rx') \<and> rx_ok rx' = rx_ok rx \<and>
     (idx \<noteq> 0 \<longrightarrow> rx_given rx' ! 0 = rx_given rx ! 0)"
proof (cases "dl \<le> 4")
  case True
  then show ?thesis by (rule dhcp_decode_short [OF bs idx])
next
  case False
  then have d: "idx = 8" "dl > 4" "dl \<le> 8" using dl by auto
  then have d4: "dl - 4 \<le> 4" by (simp add: word_le_nat_alt word_less_nat_alt unat_sub_no_wrap)
  obtain k m where rl: "read_local stk h q (ucast (min dl 4)) off = Some (k, m)" using read_local_returns [OF bs ucast_u8_small] by blast
  obtain err rx' where "dhcp_decode stk h q 9 (dl - 4) (off + 4) (got_option 8 (lwip_htonl (load32 m stk)) rx) = Some (err, rx')"
      "rx_ok rx' = rx_ok rx" "rx_given rx' ! 0 = rx_given rx ! 0"
    using dhcp_decode_short [OF bs _ _ d4, of 9] by fastforce
  then show ?thesis using rl d by (subst dhcp_decode.simps) (simp add: Let_def)
qed

lemma dhcp_option_kind_index:
  assumes "dhcp_option_kind op n oo = Some (n', dl, idx)" "dl > 0"
  shows "0 \<le> idx \<and> idx < 10 \<and> (dl \<le> 4 \<or> idx = 8 \<and> dl \<le> 8) \<and> (oo \<noteq> 240 \<longrightarrow> idx \<noteq> 0)"
  using assms by (auto simp: dhcp_option_kind_def split: if_splits)

text \<open>What reading options keeps; only in the options field may the option that announces further fields be taken.\<close>

definition rx_kept :: "u16 \<Rightarrow> rx_options \<Rightarrow> rx_options \<Rightarrow> bool" where
  "rx_kept oo rx rx' \<longleftrightarrow> rx_ok rx' = rx_ok rx \<and> (oo \<noteq> DHCP_OPTIONS_OFS \<longrightarrow> rx_given rx' ! 0 = rx_given rx ! 0)"

lemma rx_kept_refl [simp]: "rx_kept oo rx rx"
  by (simp add: rx_kept_def)

lemma rx_kept_trans: "rx_kept oo rx rx1 \<Longrightarrow> rx_kept oo rx1 rx2 \<Longrightarrow> rx_kept oo rx rx2"
  by (simp add: rx_kept_def)

text \<open>Every round moves on in the buffer or to the next one.\<close>

lemma dhcp_options_loop_ends:
  assumes "beside_stack stk h q as"
  shows "\<exists>err rx'. dhcp_options_loop stk h oo q off mx rx = Some (err, rx') \<and> rx_kept oo rx rx'"
  using assms
proof (induction as arbitrary: q off mx rx)
  case Nil
  then show ?case by (simp add: beside_stack_def packet_def)
next
  case (Cons a as)
  note bs = Cons.prems
  show ?case
  proof (induction "65536 - unat off" arbitrary: off rx rule: less_induct)
    case less
    obtain b where b: "pbufs h q = Some b" "q \<noteq> 0" using bs by (auto simp: beside_stack_def elim!: packet_head)
    let ?op = "bytes h (payload b + unat off)"
    have nx: "pb_next b \<noteq> 0 \<Longrightarrow> beside_stack stk h (pb_next b) as" using beside_stack_tail [OF bs b(1)] by simp
    obtain n where n: "dhcp_option_length h b off = Some n"
    proof (cases "pb_next b = 0")
      case False
      then obtain nb where "pbufs h (pb_next b) = Some nb" using nx by (auto simp: beside_stack_def elim!: packet_head)
      then show thesis using that False by (cases "unat off + 1 < unat (len b)") (simp_all add: dhcp_option_length_def)
    qed (use that in \<open>cases "unat off + 1 < unat (len b)"; simp add: dhcp_option_length_def\<close>)
    show ?case
    proof (cases "off < mx \<and> ?op \<noteq> 255 \<and> \<not> off + 2 < off")
      case False
      then show ?thesis using b by (subst dhcp_options_loop.simps) (auto simp: Let_def)
    next
      case go: True
      show ?thesis
      proof (cases "dhcp_option_kind ?op n oo")
        case None
        then show ?thesis using b go n by (subst dhcp_options_loop.simps) (simp add: Let_def)
      next
        case (Some r)
        obtain n' dl idx where r: "r = (n', dl, idx)" by (cases r) auto
        obtain err rx1 where dec: "(if ?op \<noteq> 0 \<and> dl > 0 then dhcp_decode stk h q idx dl (off + 2) rx else Some (ERR_OK, rx)) = Some (err, rx1)"
            "rx_kept oo rx rx1"
        proof (cases "?op \<noteq> 0 \<and> dl > 0")
          case True
          then show thesis
            using dhcp_decode_ends [OF bs, of idx dl "off + 2" rx] dhcp_option_kind_index [OF Some [unfolded r]] that
            by (fastforce simp: rx_kept_def)
        next
          case False
          then show thesis using that [of ERR_OK rx] by (simp only: if_False rx_kept_refl simp_thms)
        qed
        let ?o = "if ?op = 0 then off + 1 else off + ucast n' + 2"
        have step: "dhcp_options_loop stk h oo q off mx rx =
           (if ?op \<noteq> 0 \<and> unat off + unat n' + 2 > 0xFFFF then Some (ERR_BUF, rx)
            else if err \<noteq> ERR_OK then Some (err, rx1)
            else if ?o \<ge> len b then
              (if ?o - len b < mx - len b then
                 if pb_next b = 0 then Some (ERR_VAL, rx1)
                 else dhcp_options_loop stk h oo (pb_next b) (?o - len b) (mx - len b) rx1
               else Some (ERR_BUF, rx1))
            else dhcp_options_loop stk h oo q ?o mx rx1)"
          using b go n Some r
          by (subst dhcp_options_loop.simps) (simp add: Let_def split del: if_split, simp add: dec(1) Let_def cong: if_cong split del: if_split)
        have mv: "65536 - unat ?o < 65536 - unat off" if "\<not> (?op \<noteq> 0 \<and> unat off + unat n' + 2 > 0xFFFF)"
        proof -
          have "off < mx" using go by simp
          then have "unat off + 1 < 65536" using unat_u16_less [of mx] by (simp add: word_less_nat_alt del: unat_u16_less)
          then have "unat ?o > unat off" using that by (cases "?op = 0") (simp_all add: unat_word_ariths u16_of_u8)
          then show ?thesis using unat_u16_less [of off] by linarith
        qed
        consider err' rx' where "dhcp_options_loop stk h oo q off mx rx = Some (err', rx')" "rx' = rx \<or> rx' = rx1"
          | (same) "dhcp_options_loop stk h oo q off mx rx = dhcp_options_loop stk h oo q ?o mx rx1" "\<not> (?op \<noteq> 0 \<and> unat off + unat n' + 2 > 0xFFFF)"
          | (nxt) "dhcp_options_loop stk h oo q off mx rx = dhcp_options_loop stk h oo (pb_next b) (?o - len b) (mx - len b) rx1" "pb_next b \<noteq> 0"
          using step by (auto split del: if_split split: if_split_asm)
        then show ?thesis
        proof cases
          case same
          then show ?thesis using less [OF mv [OF same(2)], of rx1] rx_kept_trans [OF dec(2)] by auto
        next
          case nxt
          then show ?thesis using Cons.IH [OF nx [OF nxt(2)], of "?o - len b" "mx - len b" rx1] rx_kept_trans [OF dec(2)] by auto
        qed (use dec(2) in auto)
      qed
    qed
  qed
qed

lemma dhcp_seek_ends:
  assumes "beside_stack stk h p as"
  shows "\<exists>q i m as'. dhcp_seek h p idx mx = Some (q, i, m) \<and> (q \<noteq> 0 \<longrightarrow> beside_stack stk h q as')"
  using assms
proof (induction as arbitrary: p idx mx)
  case Nil
  then show ?case by (simp add: beside_stack_def packet_def)
next
  case (Cons a as)
  obtain b where b: "pbufs h p = Some b" "p \<noteq> 0" using Cons.prems by (auto simp: beside_stack_def elim!: packet_head)
  show ?case
  proof (cases "idx \<ge> len b \<and> pb_next b \<noteq> 0")
    case True
    then show ?thesis using Cons.IH [OF beside_stack_tail [OF Cons.prems b(1), simplified], of "idx - len b" "mx - len b"] b
      by (subst dhcp_seek.simps) simp
  next
    case False
    then show ?thesis using b Cons.prems by (cases "idx \<ge> len b") (auto simp: dhcp_seek.simps)
  qed
qed

text \<open>At most the options, the file and the server name are read.\<close>

lemma dhcp_parse_step:
  assumes "beside_stack stk h p as"
  shows "\<exists>err rx'. rx_kept idx rx rx' \<and> (dhcp_parse_from stk h p idx mx ff sname rx = Some (err, rx') \<or>
     dhcp_parse_from stk h p idx mx ff sname rx =
       (let (rx, ff, sname) = dhcp_overload rx' ff sname
        in if ff then dhcp_parse_from stk h p 108 236 False sname rx
           else if sname then dhcp_parse_from stk h p 44 108 ff False rx else Some (ERR_OK, rx)))"
proof -
  obtain q i m as' where q: "dhcp_seek h p idx mx = Some (q, i, m)" "q \<noteq> 0 \<Longrightarrow> beside_stack stk h q as'"
    using dhcp_seek_ends [OF assms] by blast
  show ?thesis
  proof (cases "q = 0")
    case True
    then show ?thesis using q by (subst dhcp_parse_from.simps) (auto intro!: exI [of _ rx])
  next
    case False
    obtain err rx' where l: "dhcp_options_loop stk h idx q i m rx = Some (err, rx')" "rx_kept idx rx rx'"
      using dhcp_options_loop_ends [OF q(2) [OF False]] by blast
    have m: "(108 + 128 :: u16) = 236" "(44 + 64 :: u16) = 108" by simp_all
    have "dhcp_parse_from stk h p idx mx ff sname rx =
       (if err \<noteq> ERR_OK then Some (err, rx')
        else (let (rx, ff, sname) = dhcp_overload rx' ff sname
              in if ff then dhcp_parse_from stk h p 108 236 False sname rx
                 else if sname then dhcp_parse_from stk h p 44 108 ff False rx else Some (ERR_OK, rx)))"
      using q(1) False l(1) by (subst dhcp_parse_from.simps) (simp add: m cong: if_cong)
    then show ?thesis using l(2) by (intro exI [of _ err] exI [of _ rx']) auto
  qed
qed

lemma dhcp_parse_from_ends:
  assumes bs: "beside_stack stk h p as" and ok: "rx_ok rx"
  shows "\<exists>err rx'. dhcp_parse_from stk h p idx mx ff sname rx = Some (err, rx') \<and> rx_ok rx'"
proof -
  let ?ends = "\<lambda>i m f n rx. \<exists>err rx'. dhcp_parse_from stk h p i m f n rx = Some (err, rx') \<and> rx_ok rx'"
  have noload: "dhcp_overload rx f n = (rx, f, n)" if "\<not> rx_given rx ! 0" for rx f n using that by (simp add: dhcp_overload_def)
  have last: "?ends 44 108 False False rx" if "\<not> rx_given rx ! 0" "rx_ok rx" for rx
    using dhcp_parse_step [OF bs, of 44 rx 108 False False] that noload by (fastforce simp: rx_kept_def)
  have mid: "?ends 108 236 False n rx" if "\<not> rx_given rx ! 0" "rx_ok rx" for n rx
    using dhcp_parse_step [OF bs, of 108 rx 236 False n] that noload last by (fastforce simp: rx_kept_def)
  obtain err rx' where k: "rx_kept idx rx rx'" "dhcp_parse_from stk h p idx mx ff sname rx = Some (err, rx') \<or>
     dhcp_parse_from stk h p idx mx ff sname rx =
       (let (rx, ff, sname) = dhcp_overload rx' ff sname
        in if ff then dhcp_parse_from stk h p 108 236 False sname rx
           else if sname then dhcp_parse_from stk h p 44 108 ff False rx else Some (ERR_OK, rx))"
    using dhcp_parse_step [OF bs, of idx rx mx ff sname] by blast
  obtain rx2 f n where o: "dhcp_overload rx' ff sname = (rx2, f, n)" by (cases "dhcp_overload rx' ff sname") auto
  have "rx_ok rx'" using k(1) ok by (simp add: rx_kept_def)
  then have "\<not> rx_given rx2 ! 0" "rx_ok rx2" using o by (auto simp: dhcp_overload_def Let_def rx_ok_def split: if_splits)
  from mid [OF this, of n] last [OF this] show ?thesis
    using k(2) \<open>rx_ok rx'\<close> \<open>rx_ok rx2\<close> unfolding o by (cases f; cases n) auto
qed

lemma dhcp_parse_reply_total:
  assumes bs: "beside_stack stk h p as" and ok: "rx_ok rx"
  shows "\<exists>err rx'. dhcp_parse_reply stk h p rx = Some (err, rx') \<and> rx_ok rx'"
proof -
  obtain b where b: "pbufs h p = Some b" using bs by (auto simp: beside_stack_def elim!: packet_head)
  have "rx_ok (clear_options rx)" using ok by (simp add: rx_ok_def clear_options_def)
  from dhcp_parse_from_ends [OF bs this, of 240 "tot_len b" False False] this show ?thesis
    using b by (auto simp: dhcp_parse_reply_def Let_def)
qed

section \<open>What is read\<close>

text \<open>An option is its code and its data, padding its code only; a number of four bytes has the most significant one first.\<close>

definition be32 :: "u8 list \<Rightarrow> u32" where
  "be32 xs = lwip_htonl (word_of_nat (le_val xs))"

definition opt_enc :: "u8 \<times> u8 list \<Rightarrow> u8 list" where
  "opt_enc = (\<lambda>(op, d). if op = DHCP_OPTION_PAD then [op] else op # word_of_nat (length d) # d)"

text \<open>The values at consecutive indices; the first value of an option counts.\<close>

fun store_values :: "nat \<Rightarrow> u8 list list \<Rightarrow> rx_options \<Rightarrow> rx_options" where
  "store_values i [] rx = rx"
| "store_values i (v # vs) rx =
     (if rx_given rx ! i then rx
      else store_values (i + 1) vs (got_option i (if length v = 1 then ucast (hd v) else be32 v) rx))"

text \<open>The values that an option has, and the index of the first one. A list of DNS servers is cut to two.\<close>

definition opt_values :: "u8 \<times> u8 list \<Rightarrow> nat \<times> u8 list list" where
  "opt_values = (\<lambda>(op, d).
     if op = DHCP_OPTION_SUBNET_MASK then (6, [d])
     else if op = DHCP_OPTION_ROUTER then (7, [take 4 d])
     else if op = DHCP_OPTION_DNS_SERVER then (8, if d = [] then [] else if length d = 4 then [d] else [take 4 d, take 4 (drop 4 d)])
     else if op = DHCP_OPTION_LEASE_TIME then (3, [d])
     else if op = DHCP_OPTION_MESSAGE_TYPE then (1, [d])
     else if op = DHCP_OPTION_SERVER_ID then (2, [d])
     else if op = DHCP_OPTION_T1 then (4, [d])
     else if op = DHCP_OPTION_T2 then (5, [d])
     else (0, []))"

definition opt_ok :: "u8 \<times> u8 list \<Rightarrow> bool" where
  "opt_ok = (\<lambda>(op, d). op \<notin> {DHCP_OPTION_END, DHCP_OPTION_OVERLOAD} \<and> length d < 256 \<and>
     (op \<in> {DHCP_OPTION_SUBNET_MASK, DHCP_OPTION_LEASE_TIME, DHCP_OPTION_SERVER_ID, DHCP_OPTION_T1, DHCP_OPTION_T2} \<longrightarrow> length d = 4) \<and>
     (op = DHCP_OPTION_ROUTER \<longrightarrow> 4 \<le> length d) \<and> (op = DHCP_OPTION_DNS_SERVER \<longrightarrow> length d mod 4 = 0) \<and>
     (op = DHCP_OPTION_MESSAGE_TYPE \<longrightarrow> length d = 1))"

definition opt_store :: "u8 \<times> u8 list \<Rightarrow> rx_options \<Rightarrow> rx_options" where
  "opt_store op rx = store_values (fst (opt_values op)) (snd (opt_values op)) rx"

lemma read_word:
  assumes bs: "beside_stack stk h q as" and d: "take 4 (drop (unat off) (pdata h as)) = xs" "length xs = 4"
  shows "\<exists>m. read_local stk h q 4 off = Some (4, m) \<and> lwip_htonl (load32 m stk) = be32 xs"
proof -
  have r: "read_local stk h q 4 off = Some (4, bytes (write_bytes stk xs h))" using d by (intro read_local_all [OF bs]) simp_all
  have "le_val (rd (write_bytes stk xs h) stk 4) = unat (load32 (bytes (write_bytes stk xs h)) stk)"
    using le_val_load32 [of 4 "bytes (write_bytes stk xs h)" stk] by (simp add: mem_list_rd)
  moreover have "rd (write_bytes stk xs h) stk 4 = xs" using rd_write_same [of stk xs h] d(2) by simp
  ultimately have "load32 (bytes (write_bytes stk xs h)) stk = word_of_nat (le_val xs)" by simp
  then show ?thesis using r by (simp add: be32_def)
qed

lemma dhcp_decode_word:
  assumes bs: "beside_stack stk h q as" and d: "take 4 (drop (unat off) (pdata h as)) = xs" "length xs = 4" and i: "i < 10"
  shows "dhcp_decode stk h q (int i) 4 off rx = Some (ERR_OK, store_values i [xs] rx)"
proof -
  obtain m where "read_local stk h q 4 off = Some (4, m)" "lwip_htonl (load32 m stk) = be32 xs" using read_word [OF bs d] by blast
  then show ?thesis using i d(2) by (subst dhcp_decode.simps) (simp add: Let_def)
qed

lemma dhcp_decode_byte:
  assumes bs: "beside_stack stk h q as" and d: "take 1 (drop (unat off) (pdata h as)) = [x]" and i: "i < 10"
  shows "dhcp_decode stk h q (int i) 1 off rx = Some (ERR_OK, store_values i [[x]] rx)"
proof -
  have "read_local stk h q 1 off = Some (1, bytes (write_bytes stk [x] h))" using d by (intro read_local_all [OF bs]) simp_all
  moreover have "bytes (write_bytes stk [x] h) stk = x" by (simp add: bytes_write)
  moreover have "min 1 4 = (1 :: u8)" by simp
  ultimately show ?thesis using i by (subst dhcp_decode.simps) (simp add: Let_def)
qed

lemma dhcp_decode_two:
  assumes bs: "beside_stack stk h q as" and d: "take 8 (drop (unat off) (pdata h as)) = xs @ ys" "length xs = 4" "length ys = 4"
    and r: "unat off + 4 < 65536"
  shows "dhcp_decode stk h q 8 8 off rx = Some (ERR_OK, store_values 8 [xs, ys] rx)"
proof -
  have o: "unat (off + 4) = unat off + 4" using r by (simp add: unat_word_ariths)
  have x: "take 4 (drop (unat off) (pdata h as)) = xs"
    using arg_cong [OF d(1), of "take 4"] d(2) by simp
  have y: "take 4 (drop (unat (off + 4)) (pdata h as)) = ys"
    using arg_cong [OF d(1), of "drop 4"] d(2) by (simp add: o drop_take add.commute)
  obtain m where m: "read_local stk h q 4 off = Some (4, m)" "lwip_htonl (load32 m stk) = be32 xs" using read_word [OF bs x d(2)] by blast
  have nw: "\<not> off + 4 < off" using o by (simp add: word_less_nat_alt)
  have "(min 8 4 :: u8) = 4" by simp
  then show ?thesis using m nw d(2) dhcp_decode_word [OF bs y d(3), of 9 "got_option 8 (be32 xs) rx"]
    by (subst dhcp_decode.simps) (simp add: Let_def)
qed

text \<open>One option: how it is classified, and that its values are stored.\<close>

lemma dhcp_decode_prefix:
  assumes bs: "beside_stack stk h q as" and d: "drop (unat off) (pdata h as) = d @ rest" "4 \<le> length d" and i: "i < 10"
  shows "dhcp_decode stk h q (int i) 4 off rx = Some (ERR_OK, store_values i [take 4 d] rx)"
  using d by (intro dhcp_decode_word [OF bs _ _ i]) simp_all

lemma mult4_cases: "n mod 4 = 0 \<Longrightarrow> n = 0 \<or> n = 4 \<or> 8 \<le> (n :: nat)"
  by presburger

lemma dhcp_option_kind_dns:
  assumes "length d < 256" "length d mod 4 = 0"
  shows "dhcp_option_kind 6 (word_of_nat (length d)) oo =
    Some (word_of_nat (length d), if d = [] then 0 else if length d = 4 then 4 else 8, 8)"
proof -
  let ?n = "word_of_nat (length d) :: u8"
  have u: "unat ?n = length d" using assms(1) by (simp add: unsigned_of_nat take_bit_nat_eq_self)
  have "unat (?n mod 4) = 0" using assms(2) u by (simp add: unat_mod)
  then have m: "?n mod 4 = 0" by (simp add: unat_eq_zero)
  consider "d = []" | "length d = 4" "d \<noteq> []" | "8 \<le> length d" "d \<noteq> []"
    using mult4_cases [OF assms(2)] by fastforce
  then show ?thesis
  proof cases
    case 3
    then have "min ?n 8 = 8" using u by (simp add: min_def word_le_nat_alt)
    then show ?thesis using m 3 by (auto simp: dhcp_option_kind_def)
  qed (use m in \<open>simp_all add: dhcp_option_kind_def\<close>)
qed

lemma dhcp_decode_dns:
  assumes bs: "beside_stack stk h q as" and d: "drop (unat off) (pdata h as) = d @ rest"
    and l: "length d mod 4 = 0" "d \<noteq> []" and r: "unat off + length d < 65536"
  shows "dhcp_decode stk h q 8 (if length d = 4 then 4 else 8) off rx = Some (ERR_OK, opt_store (6, d) rx)"
proof (cases "length d = 4")
  case True
  then show ?thesis using dhcp_decode_prefix [OF bs d, of 8 rx] l(2) by (auto simp: opt_store_def opt_values_def)
next
  case False
  then have "8 \<le> length d" using mult4_cases [OF l(1)] l(2) by simp
  moreover have "take 8 d = take 4 d @ take 4 (drop 4 d)" using take_add [of 4 4 d] by simp
  ultimately show ?thesis using dhcp_decode_two [OF bs, of off "take 4 d" "take 4 (drop 4 d)" rx] d r False l(2)
    by (simp add: opt_store_def opt_values_def)
qed

lemma dhcp_option_read:
  assumes bs: "beside_stack stk h q as" and d: "drop (unat off) (pdata h as) = d @ rest" and ok: "opt_ok (op, d)" and op: "op \<noteq> 0"
    and r: "unat off + length d < 65536"
  shows "\<exists>dl idx. dhcp_option_kind op (word_of_nat (length d)) oo = Some (word_of_nat (length d), dl, idx) \<and>
    (if op \<noteq> 0 \<and> dl > 0 then dhcp_decode stk h q idx dl off rx else Some (ERR_OK, rx)) = Some (ERR_OK, opt_store (op, d) rx)"
proof -
  have len: "length d < 256" using ok by (simp add: opt_ok_def)
  note dw = dhcp_decode_prefix [OF bs d]
  have word: ?thesis if "op \<in> {1, 51, 54, 58, 59}" "length d = 4"
    using that dw [of 6 rx] dw [of 3 rx] dw [of 2 rx] dw [of 4 rx] dw [of 5 rx]
    by (auto simp: dhcp_option_kind_def opt_store_def opt_values_def)
  consider "op \<in> {1, 51, 54, 58, 59}" "length d = 4" | (router) "op = 3" | (dns) "op = 6" | (type) "op = 53"
    | (none) "op \<notin> {1, 3, 6, 51, 52, 53, 54, 58, 59}"
    using ok by (auto simp: opt_ok_def)
  then show ?thesis
  proof cases
    case router
    then have "4 \<le> length d" using ok by (simp add: opt_ok_def)
    moreover have "4 \<le> (word_of_nat (length d) :: u8)"
      using len calculation by (simp add: word_le_nat_alt unsigned_of_nat take_bit_nat_eq_self)
    ultimately show ?thesis using router dw [of 7 rx] by (simp add: dhcp_option_kind_def opt_store_def opt_values_def)
  next
    case dns
    then have m: "length d mod 4 = 0" using ok by (simp add: opt_ok_def)
    show ?thesis
    proof (cases "d = []")
      case True
      then show ?thesis using dhcp_option_kind_dns [OF len m] dns by (simp add: opt_store_def opt_values_def)
    next
      case False
      then show ?thesis using dhcp_option_kind_dns [OF len m, of oo] dhcp_decode_dns [OF bs d m False r, of rx] dns by auto
    qed
  next
    case type
    then obtain x where x: "d = [x]" using ok by (auto simp: opt_ok_def length_Suc_conv)
    then have "take 1 (drop (unat off) (pdata h as)) = [x]" using d by simp
    from dhcp_decode_byte [OF bs this, of 1 rx] show ?thesis
      using type x by (simp add: dhcp_option_kind_def opt_store_def opt_values_def)
  next
    case none
    then show ?thesis using op by (auto simp: dhcp_option_kind_def opt_store_def opt_values_def)
  qed (rule word)
qed

text \<open>The options of a message in one buffer.\<close>

lemma one_buffer:
  assumes "packet h p [p]"
  obtains b where "pbufs h p = Some b" "p \<noteq> 0" "pb_next b = 0" "tot_len b = len b" "unat (len b) = length (pdata h [p])"
    "\<And>i. i < length (pdata h [p]) \<Longrightarrow> bytes h (payload b + i) = pdata h [p] ! i"
proof -
  obtain b where b: "pbufs h p = Some b" "p \<noteq> 0" "pchain h (pb_next b) []" "unat (tot_len b) = length (pdata h [p])"
    using assms by (auto elim: packet_head)
  have l: "unat (len b) = length (pdata h [p])" using b(1) by (simp add: plen_def)
  show thesis
  proof (rule that [OF b(1,2) _ _ l])
    show "tot_len b = len b" using b(4) l by (simp add: word_unat_eq_iff)
    show "bytes h (payload b + i) = pdata h [p] ! i" if "i < length (pdata h [p])" for i
      using that b(1) by (simp add: pbytes_def plen_def)
  qed (use b(3) in auto)
qed

lemma opt_enc_length: "opt_ok (op, d) \<Longrightarrow> op \<noteq> 0 \<Longrightarrow> opt_enc (op, d) = op # word_of_nat (length d) # d \<and> length d < 256"
  by (simp add: opt_enc_def opt_ok_def)

lemma dhcp_options_loop_option:
  assumes bs: "beside_stack stk h p [p]" and mx: "unat mx = length (pdata h [p])"
    and d: "drop (unat off) (pdata h [p]) = opt_enc (op, d) @ rest" "rest \<noteq> []" and ok: "opt_ok (op, d)"
  shows "dhcp_options_loop stk h oo p off mx rx =
    dhcp_options_loop stk h oo p (off + word_of_nat (length (opt_enc (op, d)))) mx (opt_store (op, d) rx)"
proof -
  let ?D = "pdata h [p]" and ?e = "opt_enc (op, d)"
  have pk: "packet h p [p]" using bs by (simp add: beside_stack_def)
  obtain b where b: "pbufs h p = Some b" "p \<noteq> 0" "len b = mx" "\<And>i. i < length ?D \<Longrightarrow> bytes h (payload b + i) = ?D ! i"
    using one_buffer [OF pk] mx by (metis word_unat_eq_iff)
  have l: "length ?D < 65536" by (rule length_pdata_packet [OF pk])
  have len: "unat off + length ?e < length ?D"
    using arg_cong [OF d(1), of length] d(2) by (cases rest) (auto simp: opt_enc_def split: if_splits)
  have at: "?D ! (unat off + i) = (?e @ rest) ! i" for i using d(1) len by (simp flip: nth_drop)
  have e0: "0 < length ?e" "?e ! 0 = op" by (simp_all add: opt_enc_def)
  have op: "bytes h (payload b + unat off) = op" using b(4) [of "unat off"] at [of 0] e0 len by (simp add: nth_append)
  have ne: "op \<noteq> 255" using ok by (simp add: opt_ok_def)
  have lt: "off < mx" using len mx e0 by (simp add: word_less_nat_alt)
  have r: "unat off + length ?e < 65536" using len l by linarith
  then have off': "unat (off + word_of_nat (length ?e)) = unat off + length ?e"
    by (simp add: unat_word_ariths unsigned_of_nat take_bit_nat_eq_self)
  have in_b: "\<not> len b \<le> off + word_of_nat (length ?e)" using off' len b(3) mx by (simp add: word_le_nat_alt)
  have r2: "unat off + 2 < 65536" using len l e0(1) by linarith
  then have nw: "\<not> off + 2 < off" by (simp add: word_less_nat_alt unat_word_ariths)
  have in1: "unat off + 1 < length ?D" using len e0(1) by linarith
  then have n: "dhcp_option_length h b off = Some ((?e @ rest) ! 1)"
    using b(3) mx b(4) [of "unat off + 1"] at [of 1] by (simp add: dhcp_option_length_def add.assoc)
  show ?thesis
  proof (cases "op = 0")
    case True
    then have "opt_store (op, d) rx = rx" "length ?e = 1" by (simp_all add: opt_store_def opt_values_def opt_enc_def)
    then show ?thesis using True b(1,2) lt op in_b n nw by (subst dhcp_options_loop.simps) (simp add: Let_def dhcp_option_kind_def)
  next
    case False
    then have e: "?e = op # word_of_nat (length d) # d" "length d < 256" using ok by (simp_all add: opt_enc_def opt_ok_def)
    have "unat (ucast (word_of_nat (length d) :: u8) :: u16) = length d"
      using e(2) by (simp add: u16_of_u8 unsigned_of_nat take_bit_nat_eq_self)
    from arg_cong [OF this, of "word_of_nat :: nat \<Rightarrow> u16"]
    have "ucast (word_of_nat (length d) :: u8) = (word_of_nat (length d) :: u16)" by simp
    then have u: "(word_of_nat (length ?e) :: u16) = ucast (word_of_nat (length d) :: u8) + 2" by (simp add: e(1))
    have o2: "unat (off + 2) = unat off + 2" using r2 by (simp add: unat_word_ariths)
    have "drop (unat (off + 2)) ?D = drop 2 (drop (unat off) ?D)" unfolding o2 drop_drop by (simp only: add.commute)
    then have "drop (unat (off + 2)) ?D = d @ rest" unfolding d(1) e(1) by simp
    moreover have "unat (off + 2) + length d < 65536" using r unfolding o2 e(1) by simp
    ultimately obtain dl idx where o: "dhcp_option_kind op (word_of_nat (length d)) oo = Some (word_of_nat (length d), dl, idx)"
        "(if op \<noteq> 0 \<and> dl > 0 then dhcp_decode stk h p idx dl (off + 2) rx else Some (ERR_OK, rx)) = Some (ERR_OK, opt_store (op, d) rx)"
      using dhcp_option_read [OF bs _ ok False] by blast
    have "\<not> unat off + unat (word_of_nat (length d) :: u8) + 2 > 65535" using r e by (simp add: unsigned_of_nat take_bit_nat_eq_self)
    moreover have "dhcp_option_length h b off = Some (word_of_nat (length d))" using n by (simp add: e(1))
    moreover have "\<not> len b \<le> off + ucast (word_of_nat (length d) :: u8) + 2" using in_b unfolding u by (simp add: add.assoc)
    moreover have o': "off + word_of_nat (length ?e) = off + ucast (word_of_nat (length d) :: u8) + 2" unfolding u by (simp add: add.assoc)
    ultimately show ?thesis unfolding o' using b(1,2) lt op nw ne o False
      by (subst dhcp_options_loop.simps, cases "dl > 0") (simp_all add: Let_def)
  qed
qed

lemma dhcp_options_loop_stores:
  assumes bs: "beside_stack stk h p [p]" and mx: "unat mx = length (pdata h [p])"
    and d: "drop (unat off) (pdata h [p]) = concat (map opt_enc opts) @ 255 # rest" and ok: "list_all opt_ok opts"
  shows "dhcp_options_loop stk h oo p off mx rx = Some (ERR_OK, fold opt_store opts rx)"
  using d ok
proof (induction opts arbitrary: off rx)
  case Nil
  have pk: "packet h p [p]" using bs by (simp add: beside_stack_def)
  have len: "unat off < length (pdata h [p])" using arg_cong [OF Nil(1), of length] by (simp del: pdata_Cons)
  have "pdata h [p] ! unat off = 255" using Nil len nth_drop [of "unat off" "pdata h [p]" 0] by (simp del: pdata_Cons)
  moreover obtain b where "pbufs h p = Some b" "p \<noteq> 0" "\<And>i. i < length (pdata h [p]) \<Longrightarrow> bytes h (payload b + i) = pdata h [p] ! i"
    using one_buffer [OF pk] by blast
  moreover have "off < mx" using len mx by (simp add: word_less_nat_alt)
  ultimately show ?case using len by (subst dhcp_options_loop.simps) (simp add: Let_def del: pdata_Cons)
next
  case (Cons od opts)
  obtain op v where od: "od = (op, v)" by (cases od)
  let ?o = "off + word_of_nat (length (opt_enc (op, v)))"
  have d: "drop (unat off) (pdata h [p]) = opt_enc (op, v) @ concat (map opt_enc opts) @ 255 # rest" using Cons.prems od by simp
  have len: "unat off + length (opt_enc (op, v)) < length (pdata h [p])" using arg_cong [OF d, of length] by (simp del: pdata_Cons)
  then have "unat off + length (opt_enc (op, v)) < 65536"
    using length_pdata_packet [of h p "[p]"] bs unfolding beside_stack_def by linarith
  then have "unat ?o = unat off + length (opt_enc (op, v))"
    by (simp add: unat_word_ariths unsigned_of_nat take_bit_nat_eq_self)
  then have "drop (unat ?o) (pdata h [p]) = concat (map opt_enc opts) @ 255 # rest"
    using arg_cong [OF d, of "drop (length (opt_enc (op, v)))"] by (simp add: add.commute del: pdata_Cons)
  then show ?case using dhcp_options_loop_option [OF bs mx d] Cons.IH Cons.prems(2) od by simp
qed

lemma opt_store_first: "opt_ok od \<Longrightarrow> rx_given rx ! 0 = g \<Longrightarrow> rx_given (opt_store od rx) ! 0 = g"
  by (cases od) (auto simp: opt_store_def opt_values_def)

lemma fold_opt_store_first: "list_all opt_ok opts \<Longrightarrow> rx_given (fold opt_store opts rx) ! 0 = rx_given rx ! 0"
  by (induction opts arbitrary: rx) (simp_all add: opt_store_first)

lemma dhcp_parse_reply_stores:
  assumes bs: "beside_stack stk h p [p]" and d: "pdata h [p] = hdr @ concat (map opt_enc opts) @ 255 # rest" "length hdr = 240"
    and ok: "list_all opt_ok opts"
  shows "dhcp_parse_reply stk h p rx = Some (ERR_OK, fold opt_store opts (clear_options rx))"
proof -
  have pk: "packet h p [p]" using bs by (simp add: beside_stack_def)
  obtain b where b: "pbufs h p = Some b" "p \<noteq> 0" "tot_len b = len b" "unat (len b) = length (pdata h [p])" by (rule one_buffer [OF pk])
  have big: "240 < unat (len b)" using arg_cong [OF d(1), of length] d(2) b(4) by (simp del: pdata_Cons)
  let ?rx = "fold opt_store opts (clear_options rx)"
  have l: "dhcp_options_loop stk h 240 p 240 (len b) (clear_options rx) = Some (ERR_OK, ?rx)"
    using d by (intro dhcp_options_loop_stores [OF bs b(4) _ ok]) (simp del: pdata_Cons)
  have "\<not> rx_given ?rx ! 0" using fold_opt_store_first [OF ok, of "clear_options rx"] by (simp add: clear_options_def)
  then have o: "dhcp_overload ?rx False False = (?rx, False, False)" by (simp add: dhcp_overload_def)
  have sk: "dhcp_seek h p 240 (len b) = Some (p, 240, len b)"
    using b(1,2) big by (subst dhcp_seek.simps) (simp add: word_le_nat_alt)
  have "dhcp_parse_from stk h p 240 (len b) False False (clear_options rx) = Some (ERR_OK, ?rx)"
    using sk b(2) l o by (subst dhcp_parse_from.simps) simp
  then show ?thesis using b big by (simp add: dhcp_parse_reply_def Let_def word_less_nat_alt)
qed

section \<open>What is written\<close>

text \<open>Writing bytes if they end within the first \<open>m\<close> bytes of the options; the writers of options are of this form.\<close>

definition put_fits :: "nat \<Rightarrow> nat \<Rightarrow> u8 list \<Rightarrow> u16 \<times> heap \<Rightarrow> (u16 \<times> heap) option" where
  "put_fits options m xs w = (if unat (fst w) + length xs \<le> m then Some (put_bytes options xs w) else None)"

lemma put_bytes_fst: "unat (fst w) + length xs < 65536 \<Longrightarrow> unat (fst (put_bytes options xs w)) = unat (fst w) + length xs"
  by (cases w) (simp add: put_bytes_def unat_word_ariths unsigned_of_nat take_bit_nat_eq_self)

lemma put_bytes_append:
  assumes "unat (fst w) + length xs < 65536"
  shows "put_bytes options ys (put_bytes options xs w) = put_bytes options (xs @ ys) w"
proof -
  obtain n h where w: "w = (n, h)" by (cases w)
  have u: "unat (n + word_of_nat (length xs)) = unat n + length xs" using put_bytes_fst [OF assms, of options] by (simp add: w put_bytes_def)
  show ?thesis unfolding w put_bytes_def by (simp add: u write_bytes_after add.assoc)
qed

lemma put_fits_bind:
  assumes "m \<le> 68" "m' \<le> 68" "length ys + m \<ge> m'"
  shows "(put_fits options m xs w \<bind> put_fits options m' ys) = put_fits options m' (xs @ ys) w"
proof (cases "unat (fst w) + length xs \<le> m")
  case True
  then have "unat (fst w) + length xs < 65536" using assms(1) by simp
  then show ?thesis using True put_bytes_append [of w xs options ys] put_bytes_fst [of w xs options] by (simp add: put_fits_def add.assoc)
next
  case False
  then show ?thesis using assms(3) by (simp add: put_fits_def)
qed

lemma dhcp_option_bytes_fit: "unat (fst w) \<le> 68 \<Longrightarrow> dhcp_option_bytes options xs w = put_fits options 68 xs w"
proof (induction xs arbitrary: w)
  case Nil
  then show ?case by (cases w) (simp add: put_fits_def put_bytes_def)
next
  case (Cons x xs)
  show ?case
  proof (cases "unat (fst w) < 68")
    case True
    then have u: "unat (fst (put_bytes options [x] w)) = unat (fst w) + 1" using put_bytes_fst [of w "[x]" options] by simp
    have "dhcp_option_bytes options (x # xs) w = put_fits options 68 xs (put_bytes options [x] w)"
      using True Cons.IH [of "put_bytes options [x] w"] u by (simp add: dhcp_option_byte_def lwip_assert_def)
    then show ?thesis using u True put_bytes_append [of w "[x]" options xs] by (simp add: put_fits_def)
  next
    case False
    then show ?thesis by (simp add: dhcp_option_byte_def lwip_assert_def put_fits_def)
  qed
qed

text \<open>The header of an option and what follows it.\<close>

lemma dhcp_option_bind:
  assumes "unat n = length xs" "\<And>w. unat (fst w) + length xs \<le> 68 \<Longrightarrow> f w = put_fits options 68 xs w"
  shows "(dhcp_option options op n w \<bind> f) = put_fits options 68 (op # n # xs) w"
proof (cases "unat (fst w) + 2 + length xs \<le> 68")
  case True
  then have u: "unat (fst (put_bytes options [op, n] w)) = unat (fst w) + 2" using put_bytes_fst [of w "[op, n]" options] by simp
  then show ?thesis using True assms put_bytes_append [of w "[op, n]" options xs]
    by (simp add: dhcp_option_def lwip_assert_def put_fits_def)
next
  case False
  then show ?thesis using assms(1) by (simp add: dhcp_option_def lwip_assert_def put_fits_def)
qed

lemma htonl_bytes:
  "[ucast (drop_bit 24 (lwip_htonl a AND 0xff000000)), ucast (drop_bit 16 (lwip_htonl a AND 0x00ff0000)),
    ucast (drop_bit 8 (lwip_htonl a AND 0x0000ff00)), ucast (lwip_htonl a AND 0x000000ff)] = addr_bytes a"
proof -
  have m: "ucast (drop_bit k (x AND push_bit k (mask 8))) = (ucast (drop_bit k x) :: u8)" for k and x :: u32
    by (rule bit_word_eqI) (auto simp: bit_simps dest: bit_imp_le_length)
  have b: "(ucast (drop_bit 24 (PP_HTONL a)) :: u8) = ucast a" "(ucast (drop_bit 16 (PP_HTONL a)) :: u8) = ucast (drop_bit 8 a)"
    "(ucast (drop_bit 8 (PP_HTONL a)) :: u8) = ucast (drop_bit 16 a)" "(ucast (PP_HTONL a) :: u8) = ucast (drop_bit 24 a)"
    by (rule bit_word_eqI; auto simp: bit_PP_HTONL bit_simps add.commute)+
  show ?thesis unfolding u32_masks lwip_htonl_def using m [of 24 "PP_HTONL a"] m [of 16 "PP_HTONL a"] m [of 8 "PP_HTONL a"] m [of 0 "PP_HTONL a"] b
    by (simp add: addr_bytes_def ip4_addr_get_byte_def)
qed

lemma short_bytes: "[ucast (drop_bit 8 (w AND 0xff00)), ucast (w AND 0x00ff)] = be16 (w :: u16)"
proof -
  have m: "(0xff00 :: u16) = push_bit 8 (mask 8)" "(0xff :: u16) = mask 8" by (simp_all add: mask_eq_exp_minus_1 push_bit_eq_mult)
  have "ucast (drop_bit 8 (w AND push_bit 8 (mask 8))) = (ucast (drop_bit 8 w) :: u8)" "ucast (w AND mask 8) = (ucast w :: u8)"
    by (rule bit_word_eqI; auto simp: bit_simps dest: bit_imp_le_length)+
  then show ?thesis unfolding be16_def m by simp
qed

lemma opt_address_fits: "opt_address op a options w = put_fits options 68 (opt_enc (op, addr_bytes a)) w" if "op \<noteq> 0"
  unfolding opt_address_def using that
  by (subst dhcp_option_bind [where xs = "addr_bytes a"])
    (auto simp: dhcp_option_long_def lwip_assert_def put_fits_def opt_enc_def simp flip: htonl_bytes)

lemma opt_max_msg_size_fits: "opt_max_msg_size m options w = put_fits options 68 (opt_enc (57, be16 m)) w"
  unfolding opt_max_msg_size_def
  by (subst dhcp_option_bind [where xs = "be16 m"])
    (auto simp: dhcp_option_short_def lwip_assert_def put_fits_def opt_enc_def simp flip: short_bytes)

lemma opt_request_list_fits:
  "opt_request_list options w = put_fits options 68 (opt_enc (55, [1, 3, 28, 6])) w"
  unfolding opt_request_list_def
  by (subst dhcp_option_bind [where xs = "[1, 3, 28, 6]"])
    (auto simp: dhcp_option_bytes_fit opt_enc_def dhcp_discover_request_options_def simp del: dhcp_option_bytes.simps)

text \<open>The host name of an interface; \<^verbatim>\<open>NULL\<close> and the empty name are not sent.\<close>

definition sent_name :: "u8 list option \<Rightarrow> u8 list" where
  "sent_name hostname = (case hostname of None \<Rightarrow> [] | Some name \<Rightarrow> c_string name)"

definition host_option :: "u8 list \<Rightarrow> (u8 \<times> u8 list) list" where
  "host_option name = (if name = [] then [] else [(12, name)])"

lemma room_no_wrap: "k \<le> 65 \<Longrightarrow> (68 - int k - 3) mod 2 ^ 32 = 65 - int k"
  by (subst mod_pos_pos_trivial) simp_all

lemma dhcp_option_hostname_fits:
  assumes "unat (fst w) \<le> 65"
  shows "dhcp_option_hostname options hostname w =
     (if sent_name hostname = [] then Some w else put_fits options 67 (opt_enc (12, sent_name hostname)) w)"
proof (cases "sent_name hostname = []")
  case True
  then show ?thesis by (cases hostname) (simp_all add: dhcp_option_hostname_def sent_name_def)
next
  case False
  then obtain nm where nm: "hostname = Some nm" "c_string nm \<noteq> []" by (cases hostname) (auto simp: sent_name_def)
  let ?n = "length (c_string nm)"
  have a: "int ?n \<le> (68 - int (unat (fst w)) - 3) mod 2 ^ 32 \<longleftrightarrow> unat (fst w) + 3 + ?n \<le> 68"
  proof -
    have "(68 - int (unat (fst w)) - 3) mod 2 ^ 32 = 65 - int (unat (fst w))" by (rule room_no_wrap [OF assms])
    then show ?thesis by linarith
  qed
  show ?thesis
  proof (cases "unat (fst w) + 3 + ?n \<le> 68")
    case True
    then have "unat (word_of_nat ?n :: u8) = ?n" by (simp add: unsigned_of_nat take_bit_nat_eq_self)
    then have "(dhcp_option options 12 (word_of_nat ?n) w \<bind> dhcp_option_bytes options (c_string nm)) =
        put_fits options 68 (12 # word_of_nat ?n # c_string nm) w"
      by (intro dhcp_option_bind) (simp_all add: dhcp_option_bytes_fit)
    then show ?thesis using nm True a
      by (simp add: dhcp_option_hostname_def sent_name_def opt_enc_def Let_def lwip_assert_def put_fits_def)
  next
    case False
    then show ?thesis using nm a
      by (simp add: dhcp_option_hostname_def sent_name_def opt_enc_def Let_def lwip_assert_def put_fits_def)
  qed
qed

text \<open>The options of a request and of a discovery after the message type, which takes the first three bytes.\<close>

definition select_opts :: "u16 \<Rightarrow> dhcp \<Rightarrow> u8 list \<Rightarrow> (u8 \<times> u8 list) list" where
  "select_opts m dh name =
     [(DHCP_OPTION_MAX_MSG_SIZE, be16 m), (DHCP_OPTION_REQUESTED_IP, addr_bytes (dc_offered_ip_addr dh)),
      (DHCP_OPTION_SERVER_ID, addr_bytes (dc_server_ip_addr dh)), (DHCP_OPTION_PARAMETER_REQUEST_LIST, [1, 3, 28, 6])] @ host_option name"

definition discover_opts :: "u16 \<Rightarrow> u8 list \<Rightarrow> (u8 \<times> u8 list) list" where
  "discover_opts m name =
     (DHCP_OPTION_MAX_MSG_SIZE, be16 m) # host_option name @ [(DHCP_OPTION_PARAMETER_REQUEST_LIST, [1, 3, 28, 6])]"

lemma length_opt_enc: "op \<noteq> 0 \<Longrightarrow> length (opt_enc (op, d)) = 2 + length d"
  by (simp add: opt_enc_def)

lemma dhcp_select_options_room:
  "dhcp_select_options m dh hostname options (3, h) =
     (if length (sent_name hostname) \<le> 40
      then Some (put_bytes options (concat (map opt_enc (select_opts m dh (sent_name hostname)))) (3, h)) else None)"
proof -
  let ?f = "opt_enc (57, be16 m) @ opt_enc (50, addr_bytes (dc_offered_ip_addr dh)) @ opt_enc (54, addr_bytes (dc_server_ip_addr dh)) @
    opt_enc (55, [1, 3, 28, 6])" and ?n = "sent_name hostname"
  have l: "length ?f = 22" by (simp add: length_opt_enc)
  have "dhcp_select_options m dh hostname options (3, h) = put_fits options 68 ?f (3, h) \<bind> dhcp_option_hostname options hostname"
    by (simp add: dhcp_select_options_def opt_max_msg_size_fits opt_address_fits opt_request_list_fits put_fits_bind flip: bind_assoc)
  also have "\<dots> = dhcp_option_hostname options hostname (put_bytes options ?f (3, h))" using l by (simp add: put_fits_def)
  also have "\<dots> = (if ?n = [] then Some (put_bytes options ?f (3, h)) else put_fits options 67 (opt_enc (12, ?n)) (put_bytes options ?f (3, h)))"
    using put_bytes_fst [of "(3, h)" ?f options] l by (intro dhcp_option_hostname_fits) simp
  also have "\<dots> = (if length ?n \<le> 40 then Some (put_bytes options (concat (map opt_enc (select_opts m dh ?n))) (3, h)) else None)"
    using put_bytes_fst [of "(3, h)" ?f options] l put_bytes_append [of "(3, h)" ?f options "opt_enc (12, ?n)"]
    by (simp add: put_fits_def length_opt_enc select_opts_def host_option_def)
  finally show ?thesis .
qed

lemma dhcp_discover_options_room:
  "dhcp_discover_options m hostname options (3, h) =
     (if length (sent_name hostname) \<le> 53
      then Some (put_bytes options (concat (map opt_enc (discover_opts m (sent_name hostname)))) (3, h)) else None)"
proof -
  let ?f = "opt_enc (57, be16 m)" and ?n = "sent_name hostname" and ?r = "opt_enc (55, [1, 3, 28, 6])"
  let ?w = "put_bytes options ?f (3, h)"
  have l: "length ?f = 4" "length ?r = 6" by (simp_all add: length_opt_enc)
  have u: "unat (fst ?w) = 7" using put_bytes_fst [of "(3, h)" ?f options] l by simp
  have "dhcp_discover_options m hostname options (3, h) = dhcp_option_hostname options hostname ?w \<bind> put_fits options 68 ?r"
    using l by (simp add: dhcp_discover_options_def opt_max_msg_size_fits opt_request_list_fits put_fits_def [of _ _ ?f])
  also have "\<dots> = (if ?n = [] then put_fits options 68 ?r ?w else put_fits options 67 (opt_enc (12, ?n)) ?w \<bind> put_fits options 68 ?r)"
    using dhcp_option_hostname_fits [of ?w options hostname] u by simp
  also have "\<dots> = (if ?n = [] then put_fits options 68 ?r ?w else put_fits options 68 (opt_enc (12, ?n) @ ?r) ?w)"
    using l by (simp add: put_fits_bind)
  also have "\<dots> = (if length ?n \<le> 53 then Some (put_bytes options (concat (map opt_enc (discover_opts m ?n))) (3, h)) else None)"
    using u l put_bytes_append [of "(3, h)" ?f options]
    by (simp add: put_fits_def length_opt_enc discover_opts_def host_option_def)
  finally show ?thesis .
qed

text \<open>With a host name of 53 characters a discovery fills all options, and the end of the options is written behind them.\<close>

lemma dhcp_discover_options_full:
  assumes "length (sent_name hostname) = 53"
  shows "\<exists>w. dhcp_discover_options m hostname options (3, h) = Some w \<and> unat (fst w) = DHCP_OPTIONS_LEN"
  using assms put_bytes_fst [of "(3, h)" "concat (map opt_enc (discover_opts m (sent_name hostname)))" options]
  by (auto simp: dhcp_discover_options_room discover_opts_def host_option_def length_opt_enc)

end
