(* ===== verification/Dhcp_Props.thy ===== *)
theory Dhcp_Props
  imports Dhcp_Options
begin

text \<open>
  The DHCP client: the timers of a lease, the options of the messages it sends and receives, and which messages it takes.
\<close>

section \<open>Timers\<close>

text \<open>Minutes from seconds, rounded, at least one and at most \<^verbatim>\<open>0xffff\<close>; the addition wraps for the greatest values.\<close>

lemma SET_TIMEOUT_FROM_OFFERED_spec:
  "unat (SET_TIMEOUT_FROM_OFFERED offered) = (if 2 ^ 32 - 30 \<le> unat offered then 1 else max 1 (min 0xffff ((unat offered + 30) div 60)))"
proof -
  define t where "t = (offered + 30) div 60"
  have off: "unat offered < 4294967296" by (rule unat_u32_less)
  have ut: "unat t = unat (offered + 30) div 60" by (simp add: t_def unat_div)
  have big: "t > 0xffff \<longleftrightarrow> unat t > 0xffff" by (simp add: word_less_nat_alt)
  have z: "t = 0 \<longleftrightarrow> unat t = 0" by (simp add: unat_eq_zero)
  have small: "unat (ucast t :: u16) = unat t" if "unat t \<le> 0xffff" using that by (simp add: unsigned_ucast_eq take_bit_nat_eq_self)
  have d: "unat (SET_TIMEOUT_FROM_OFFERED offered) = (if unat t > 0xffff then 0xffff else if unat t = 0 then 1 else unat t)"
    unfolding SET_TIMEOUT_FROM_OFFERED_def Let_def t_def [symmetric] using big z small by auto
  show ?thesis
  proof (cases "4294967266 \<le> unat offered")
    case True
    then obtain j where j: "unat offered = 4294967266 + j" using le_Suc_ex by blast
    then have "j < 30" using off by simp
    then have "unat (offered + 30) = j" using j by (simp add: unat_word_ariths)
    then have "unat t = 0" using ut \<open>j < 30\<close> by simp
    then show ?thesis using d True by simp
  next
    case False
    then have "unat t = (unat offered + 30) div 60" using ut by (simp add: unat_word_ariths)
    then show ?thesis using d False by (simp add: max_def min_def)
  qed
qed

text \<open>A run of the coarse timer after the lease was given: \<open>k\<close> ticks without its end, and between them any change that leaves the
  lease alone.\<close>

inductive lease_run :: "dhcp \<Rightarrow> nat \<Rightarrow> dhcp \<Rightarrow> bool" for dh0 where
  start: "lease_run dh0 0 dh0"
| tick: "lease_run dh0 k dh \<Longrightarrow> dhcp_coarse_tick dh = (dh', event) \<Longrightarrow> event \<noteq> Some Lease_Expired \<Longrightarrow> lease_run dh0 (Suc k) dh'"
| other: "lease_run dh0 k dh \<Longrightarrow> dc_lease_used dh' = dc_lease_used dh \<Longrightarrow> dc_t0_timeout dh' = dc_t0_timeout dh \<Longrightarrow> lease_run dh0 k dh'"

lemma dhcp_coarse_tick_lease:
  "dc_t0_timeout (fst (dhcp_coarse_tick dh)) = dc_t0_timeout dh"
  "dc_lease_used (fst (dhcp_coarse_tick dh)) = (if dc_t0_timeout dh \<noteq> 0 then dc_lease_used dh + 1 else dc_lease_used dh)"
  "snd (dhcp_coarse_tick dh) = Some Lease_Expired \<longleftrightarrow> dc_t0_timeout dh \<noteq> 0 \<and> dc_lease_used dh + 1 = dc_t0_timeout dh"
  by (auto simp: dhcp_coarse_tick_def Let_def)

lemma lease_run_used:
  assumes "lease_run dh0 k dh" "dc_lease_used dh0 = 0" "dc_t0_timeout dh0 = T" "T \<noteq> 0"
  shows "k < unat T \<and> unat (dc_lease_used dh) = k \<and> dc_t0_timeout dh = T"
  using assms
proof (induction rule: lease_run.induct)
  case start
  then show ?case using unat_gt_0 [of T] by simp
next
  case (tick k dh dh' event)
  then have IH: "k < unat T" "unat (dc_lease_used dh) = k" "dc_t0_timeout dh = T" by auto
  have s: "dc_t0_timeout dh' = T" "dc_lease_used dh' = dc_lease_used dh + 1" "dc_lease_used dh + 1 \<noteq> T"
    using dhcp_coarse_tick_lease [of dh] tick.hyps(2,3) IH(3) tick.prems(3) by auto
  have "k + 1 < 65536" using IH(1) unat_u16_less [of T] by linarith
  then have "unat (dc_lease_used dh + 1) = k + 1" using IH(2) by (simp add: unat_word_ariths)
  moreover have "k + 1 \<noteq> unat T" using s(3) calculation by (auto simp: word_unat_eq_iff)
  ultimately show ?case using IH(1) s by simp
qed auto

lemma dhcp_bind_timers_lease:
  "dc_lease_used (dhcp_bind_timers dh) = 0"
  "dc_t0_timeout (dhcp_bind_timers dh) =
     (if dc_offered_t0_lease dh \<noteq> 0xffffffff then SET_TIMEOUT_FROM_OFFERED (dc_offered_t0_lease dh) else dc_t0_timeout dh)"
  by (auto simp: dhcp_bind_timers_def Let_def)

text \<open>The changes that the client makes to itself between two ticks, as long as it keeps the lease.\<close>

lemma dhcp_keeps_lease:
  "dc_lease_used (dhcp_set_state st dh) = dc_lease_used dh" "dc_t0_timeout (dhcp_set_state st dh) = dc_t0_timeout dh"
  "dc_lease_used (dhcp_retry f dh) = dc_lease_used dh" "dc_t0_timeout (dhcp_retry f dh) = dc_t0_timeout dh"
  by (auto simp: dhcp_set_state_def dhcp_retry_def Let_def)

section \<open>Messages that are received\<close>

text \<open>The first option with the type of the message decides.\<close>

lemma store_values_below: "k < i \<Longrightarrow> rx_given (store_values i vs rx) ! k = rx_given rx ! k \<and> rx_val (store_values i vs rx) ! k = rx_val rx ! k"
  by (induction i vs rx rule: store_values.induct) (auto simp: got_option_def)

lemma opt_store_rx_ok [simp]: "rx_ok (opt_store od rx) = rx_ok rx"
proof -
  have "rx_ok (store_values i vs rx) = rx_ok rx" for i vs by (induction i vs rx rule: store_values.induct) auto
  then show ?thesis by (simp add: opt_store_def)
qed

lemma opt_store_type:
  "op \<noteq> 53 \<Longrightarrow> rx_given (opt_store (op, d) rx) ! 1 = rx_given rx ! 1 \<and> rx_val (opt_store (op, d) rx) ! 1 = rx_val rx ! 1"
  "rx_given rx ! 1 \<Longrightarrow> opt_store (53, d) rx = rx"
  "\<not> rx_given rx ! 1 \<Longrightarrow> opt_store (53, [t]) rx = got_option 1 (ucast t) rx"
proof -
  assume "op \<noteq> 53"
  then have "snd (opt_values (op, d)) = [] \<or> 1 < fst (opt_values (op, d))" by (simp add: opt_values_def)
  then show "rx_given (opt_store (op, d) rx) ! 1 = rx_given rx ! 1 \<and> rx_val (opt_store (op, d) rx) ! 1 = rx_val rx ! 1"
    unfolding opt_store_def using store_values_below by (metis store_values.simps(1))
next
  have v: "opt_values (53, d) = (1, [d])" for d by (simp add: opt_values_def)
  show "rx_given rx ! 1 \<Longrightarrow> opt_store (53, d) rx = rx" "\<not> rx_given rx ! 1 \<Longrightarrow> opt_store (53, [t]) rx = got_option 1 (ucast t) rx"
    by (simp_all add: opt_store_def v)
qed

lemma fold_opt_store_keeps_type:
  "rx_given rx ! 1 \<Longrightarrow> rx_given (fold opt_store opts rx) ! 1 \<and> rx_val (fold opt_store opts rx) ! 1 = rx_val rx ! 1"
proof (induction opts arbitrary: rx)
  case (Cons od opts)
  obtain op d where od: "od = (op, d)" by (cases od)
  show ?case
  proof (cases "op = 53")
    case True
    then show ?thesis using Cons od opt_store_type(2) [of rx d] by simp
  next
    case False
    then show ?thesis using Cons.IH [of "opt_store od rx"] Cons.prems opt_store_type(1) [OF False, of d rx] od by simp
  qed
qed simp

lemma fold_opt_store_type:
  "rx_ok rx \<Longrightarrow> \<not> rx_given rx ! 1 \<Longrightarrow> map_of opts 53 = Some [t] \<Longrightarrow>
   rx_given (fold opt_store opts rx) ! 1 \<and> rx_val (fold opt_store opts rx) ! 1 = ucast t"
proof (induction opts arbitrary: rx)
  case (Cons od opts)
  obtain op d where od: "od = (op, d)" by (cases od)
  show ?case
  proof (cases "op = 53")
    case True
    then have "opt_store od rx = got_option 1 (ucast t) rx" using opt_store_type(3) [OF Cons.prems(2), of t] Cons.prems(3) od by simp
    then show ?thesis using fold_opt_store_keeps_type [of "got_option 1 (ucast t) rx" opts] Cons.prems(1)
      by (simp add: got_option_def rx_ok_def)
  next
    case False
    then show ?thesis using Cons.IH [of "opt_store od rx"] Cons.prems opt_store_type(1) [OF False, of d rx] od by simp
  qed
qed simp

text \<open>The fixed part of a reply to the client, which offers the address \<open>yiaddr\<close>.\<close>

definition dhcp_reply_hdr :: "netif \<Rightarrow> dhcp \<Rightarrow> u32 \<Rightarrow> u8 list \<Rightarrow> bool" where
  "dhcp_reply_hdr nif dh yiaddr hdr \<longleftrightarrow>
     length hdr = 240 \<and> hdr ! 0 = DHCP_BOOTREPLY \<and> take 4 (drop 4 hdr) = addr_bytes (lwip_htonl (dc_xid dh)) \<and>
     take 4 (drop 16 hdr) = addr_bytes yiaddr \<and> length (hwaddr nif) = 6 \<and> take 6 (drop 28 hdr) = hwaddr nif"

lemma dhcp_reply_hdr_read:
  assumes pk: "packet h p [p]" and d: "pdata h [p] = hdr @ rest" and r: "dhcp_reply_hdr nif dh yiaddr hdr" and b: "pbufs h p = Some b"
  shows "dhcp_for_us nif dh h b" "load32 (bytes h) (payload b + 16) = yiaddr"
proof -
  have hl: "length hdr = 240" using r by (simp add: dhcp_reply_hdr_def)
  obtain b' where b': "pbufs h p = Some b'" "unat (len b') = length (pdata h [p])"
      "\<And>i. i < length (pdata h [p]) \<Longrightarrow> bytes h (payload b' + i) = pdata h [p] ! i"
    using one_buffer [OF pk] by blast
  have [simp]: "b' = b" using b b'(1) by simp
  have at: "bytes h (payload b + i) = hdr ! i" if "i < 240" for i
    using b'(3) [of i] that hl unfolding d by (simp add: nth_append)
  have len: "unat (len b) \<ge> 240" using b'(2) hl unfolding d by simp
  have rd: "rd h (payload b + i) n = take n (drop i hdr)" if "i + n \<le> 240" for i n
    using that at r by (intro nth_equalityI) (auto simp: dhcp_reply_hdr_def add.assoc)
  show "load32 (bytes h) (payload b + 16) = yiaddr" using rd [of 16 4] r by (intro load32_addr_bytes) (simp add: dhcp_reply_hdr_def)
  have x: "load32 (bytes h) (payload b + 4) = lwip_htonl (dc_xid dh)"
    using rd [of 4 4] r by (intro load32_addr_bytes) (simp add: dhcp_reply_hdr_def)
  have hw: "hwaddr nif ! i = hdr ! (28 + i)" if "i < 6" for i
  proof -
    have "hwaddr nif = take 6 (drop 28 hdr)" using r by (simp add: dhcp_reply_hdr_def)
    then show ?thesis using that hl by (simp only: nth_take nth_drop)
  qed
  show "dhcp_for_us nif dh h b" using len x at [of 0] hw at r
    by (auto simp: dhcp_for_us_def list_all_iff word_le_nat_alt dhcp_reply_hdr_def add.assoc)
qed

lemma dh_pbuf_free_exclusive:
  assumes "packet (dh_heap s) p as" "heap_inv (dh_heap s)" "exclusive (dh_heap s) as" "custom_free_ok (pb_env (dh_eth e))"
  shows "\<exists>h'. dh_pbuf_free e p s = Some (set_dh_heap h' s) \<and> heap_inv h' \<and> bytes h' = bytes (dh_heap s) \<and>
     pbufs h' = (\<lambda>a. if a \<in> set as then None else pbufs (dh_heap s) a)"
proof -
  have "pchain (dh_heap s) p as" "as \<noteq> []" using assms(1) by (auto simp: packet_def)
  from pbuf_free_exclusive [OF this assms(2-4)] show ?thesis
    by (auto simp: dh_pbuf_free_def eth_pbuf_free_def dh_heap_def set_dh_heap_def)
qed

section \<open>Properties\<close>

text \<open>C3: A lease of finite length ends at the tick of the coarse timer (once a minute) whose number is the length in minutes,
  rounded, at least one and at most \<^verbatim>\<open>0xffff\<close>, and not before, whatever the client does in between as long as it keeps the lease; so
  no more than this many ticks pass. Only lengths that are at most 30 seconds below \<^verbatim>\<open>0x100000000\<close> are taken for a minute.\<close>

theorem dhcp_lease_expires:
  assumes "dc_offered_t0_lease dh \<noteq> 0xffffffff" "lease_run (dhcp_bind_timers dh) k dh'"
    "T = (if 2 ^ 32 - 30 \<le> unat (dc_offered_t0_lease dh) then 1 else max 1 (min 0xffff ((unat (dc_offered_t0_lease dh) + 30) div 60)))"
  shows "k < T \<and> (snd (dhcp_coarse_tick dh') = Some Lease_Expired \<longleftrightarrow> k + 1 = T)"
proof -
  let ?t = "SET_TIMEOUT_FROM_OFFERED (dc_offered_t0_lease dh)"
  have T: "unat ?t = T" "0 < T" "T < 65536" using SET_TIMEOUT_FROM_OFFERED_spec [of "dc_offered_t0_lease dh"] assms(3) by (auto split: if_splits)
  then have "?t \<noteq> 0" by (auto simp: unat_eq_zero)
  then have run: "k < T" "unat (dc_lease_used dh') = k" "dc_t0_timeout dh' = ?t"
    using lease_run_used [OF assms(2), of ?t] dhcp_bind_timers_lease [of dh] assms(1) T(1) by auto
  then have "unat (dc_lease_used dh' + 1) = k + 1" using T(3) by (simp add: unat_word_ariths)
  then show ?thesis using dhcp_coarse_tick_lease(3) [of dh'] run \<open>?t \<noteq> 0\<close> T(1) by (auto simp: word_unat_eq_iff)
qed

text \<open>C38: Reading the options of a message returns for every packet, whatever its bytes are and however it is divided into buffers:
  every option moves on, and the fields for the file and the server name are read at most once each.\<close>

theorem dhcp_parse_reply_ends:
  assumes "beside_stack stk h p as" "rx_ok rx"
  shows "\<exists>err rx'. dhcp_parse_reply stk h p rx = Some (err, rx') \<and> rx_ok rx'"
  by (rule dhcp_parse_reply_total [OF assms])


text \<open>C2: A reply to the client in one buffer is handled by its type (the first option of this kind) and with the address it offers,
  after exactly the values of its options were stored, for every option the first one given; then the packet is freed.\<close>

theorem dhcp_recv_takes_message:
  assumes "beside_stack (dh_stack e) (dh_heap s) p [p]" "n = current_input_netif (ip_data (ip_st (dh_net s)))" "dhcp_data s n \<noteq> 0"
    "dhcps s (dhcp_data s n) = Some dh" "dc_pcb_allocated dh \<noteq> 0" "netifs (dh_net s) n = Some nif" "rx_ok (dhcp_rx s)"
    "dhcp_reply_hdr nif dh yiaddr hdr" "list_all opt_ok opts" "map_of opts DHCP_OPTION_MESSAGE_TYPE = Some [t]"
    "pdata (dh_heap s) [p] = hdr @ concat (map opt_enc opts) @ DHCP_OPTION_END # rest"
  shows "dhcp_recv e p s =
     do { s \<leftarrow> dhcp_dispatch e n t yiaddr (s\<lparr>dhcp_rx := fold opt_store opts (clear_options (dhcp_rx s))\<rparr>); dh_pbuf_free e p s }"
proof -
  let ?rx = "fold opt_store opts (clear_options (dhcp_rx s))"
  have pk: "packet (dh_heap s) p [p]" using assms(1) by (simp add: beside_stack_def)
  obtain b where b: "pbufs (dh_heap s) p = Some b" using one_buffer [OF pk] by blast
  note hdr = dhcp_reply_hdr_read [OF pk assms(11,8) b]
  have parse: "dhcp_parse_reply (dh_stack e) (dh_heap s) p (dhcp_rx s) = Some (ERR_OK, ?rx)"
    using assms(8) by (intro dhcp_parse_reply_stores [OF assms(1,11) _ assms(9)]) (simp add: dhcp_reply_hdr_def)
  have "rx_given ?rx ! 1 \<and> rx_val ?rx ! 1 = ucast t"
    using assms(7) by (intro fold_opt_store_type [OF _ _ assms(10)]) (simp_all add: rx_ok_def clear_options_def)
  moreover have "(ucast (ucast t :: u32) :: u8) = t" by (rule bit_word_eqI) (simp add: bit_simps)
  moreover have "dh_heap (s\<lparr>dhcp_rx := r\<rparr>) = dh_heap s" for r by (simp add: dh_heap_def dh_net_def)
  ultimately show ?thesis using assms(2-6) b hdr parse by (simp add: dhcp_recv_def Let_def opt_given_def opt_value_def)
qed

text \<open>C40: The options of a request and of a discovery: with a host name of at most 40 and 53 characters, respectively, they are written
  one after the other behind the message type; with a longer one an assertion fails before anything is sent.\<close>

theorem dhcp_options_room:
  "dhcp_select_options m dh hostname options (3, h) =
     (if length (sent_name hostname) \<le> 40
      then Some (put_bytes options (concat (map opt_enc (select_opts m dh (sent_name hostname)))) (3, h)) else None) \<and>
   dhcp_discover_options m hostname options (3, h) =
     (if length (sent_name hostname) \<le> 53
      then Some (put_bytes options (concat (map opt_enc (discover_opts m (sent_name hostname)))) (3, h)) else None)"
  using dhcp_select_options_room dhcp_discover_options_room by blast

section \<open>Examples\<close>

text \<open>A client that waits for the acknowledgement of its request, and the acknowledgement at 352: the address 192.168.0.5 for two minutes.\<close>

definition example_dhcp :: dhcp where
  "example_dhcp = zero_dhcp\<lparr>dc_xid := 0x12345678, dc_pcb_allocated := 1, dc_state := DHCP_STATE_REQUESTING, dc_offered_t0_lease := 120\<rparr>"

definition example_dhcp_net :: "heap \<Rightarrow> eth_state" where
  "example_dhcp_net h =
     example_udp\<lparr>eth_heap := h, ip_st := (ip_st example_udp)\<lparr>ip_data := (ip_data (ip_st example_udp))\<lparr>current_input_netif := 7\<rparr>\<rparr>\<rparr>"

definition example_dhcp_module :: "heap \<Rightarrow> dhcp_module" where
  "example_dhcp_module h =
     \<lparr>dh_dns = with_net (example_dhcp_net h) (example_dns h), dhcp_pcb = 20032, dhcp_pcb_refcount = 1, dhcp_data = (\<lambda>_. 0)(7 := 9), dhcps = [9 \<mapsto> example_dhcp],
      dhcp_rx = \<lparr>rx_given = replicate 10 False, rx_val = replicate 10 0\<rparr>, dhcp_xid = 0x12345678\<rparr>"

definition example_dhcp_env :: dhcp_env where
  "example_dhcp_env =
     \<lparr>dh_eth = example_eth_env, dh_stack = 5000, dh_recv_ptr = 610, dh_autoip_cb = 620, netif_hostname = (\<lambda>_. None)\<rparr>"

definition example_ack_hdr :: "u8 list" where
  "example_ack_hdr =
     [2, 1, 6, 0] @ addr_bytes (lwip_htonl 0x12345678) @ replicate 8 0 @ addr_bytes 0x0500A8C0 @ replicate 8 0 @ [2, 0, 0, 0, 0, 1] @
     replicate 206 0"

definition example_ack_opts :: "(u8 \<times> u8 list) list" where
  "example_ack_opts = [(53, [5]), (51, [0, 0, 0, 120]), (0, []), (1, [255, 255, 255, 0])]"

definition example_ack :: "u8 list" where
  "example_ack = example_ack_hdr @ concat (map opt_enc example_ack_opts) @ 255 # []"

definition example_ack_heap :: heap where
  "example_ack_heap =
     write_bytes 352 example_ack (example_heap\<lparr>pbufs := (pbufs example_heap)(320 \<mapsto> example_pbuf 0 352 257 257)\<rparr>)"

lemma example_ack_length: "length example_ack_hdr = 240" "length example_ack = 257"
  by (simp_all add: example_ack_def example_ack_hdr_def example_ack_opts_def opt_enc_def)

lemma example_ack_packet: "beside_stack 5000 example_ack_heap 320 [320]" "pdata example_ack_heap [320] = example_ack"
proof -
  have b: "pbufs example_ack_heap 320 = Some (example_pbuf 0 352 257 257)" by (simp add: example_ack_heap_def)
  show p: "pdata example_ack_heap [320] = example_ack"
    using b rd_write_same [of 352 example_ack] example_ack_length(2) by (simp add: pbytes_def plen_def example_ack_heap_def)
  then have "packet example_ack_heap 320 [320]" using b example_ack_length(2) by (simp add: packet_def plen_def)
  then show "beside_stack 5000 example_ack_heap 320 [320]"
    using b by (auto simp: beside_stack_def disjoint_payloads_def packet_region_def payload_region_def plen_def)
qed

lemma example_dhcp_fields [simp]:
  "dh_heap (example_dhcp_module h) = h" "dhcps (example_dhcp_module h) 9 = Some example_dhcp" "dhcp_data (example_dhcp_module h) 7 = 9"
  "current_input_netif (ip_data (ip_st (dh_net (example_dhcp_module h)))) = 7" "rx_ok (dhcp_rx (example_dhcp_module h))"
  "netifs (dh_net (example_dhcp_module h)) 7 = Some example_nif" "dh_stack example_dhcp_env = 5000" "dh_eth example_dhcp_env = example_eth_env"
  by (simp_all add: example_dhcp_module_def example_dhcp_env_def dh_heap_def dh_net_def example_dhcp_net_def example_udp_def example_eth_def
      with_net_def rx_ok_def)

theorem dhcp_lease_expires_witness:
  "snd (dhcp_coarse_tick (dhcp_bind_timers example_dhcp)) \<noteq> Some Lease_Expired \<and>
   snd (dhcp_coarse_tick (fst (dhcp_coarse_tick (dhcp_bind_timers example_dhcp)))) = Some Lease_Expired"
proof -
  let ?dh = "dhcp_bind_timers example_dhcp"
  have o: "dc_offered_t0_lease example_dhcp = 120" by (simp add: example_dhcp_def)
  have a: "lease_run ?dh 0 ?dh" by (rule lease_run.start)
  have first: "snd (dhcp_coarse_tick ?dh) \<noteq> Some Lease_Expired" using dhcp_lease_expires [OF _ a, of 2] by (simp add: o)
  then have "lease_run ?dh 1 (fst (dhcp_coarse_tick ?dh))" using lease_run.tick [OF a, of "fst (dhcp_coarse_tick ?dh)" "snd (dhcp_coarse_tick ?dh)"] by simp
  then show ?thesis using first dhcp_lease_expires [of example_dhcp 1 _ 2] by (simp add: o)
qed

theorem dhcp_parse_reply_ends_witness:
  "\<exists>err rx'. dhcp_parse_reply 5000 example_dns_heap 320 \<lparr>rx_given = replicate 10 True, rx_val = replicate 10 7\<rparr> = Some (err, rx') \<and> rx_ok rx'"
  by (rule dhcp_parse_reply_ends [OF example_dns_packet(3)]) (simp add: rx_ok_def)


theorem dhcp_recv_takes_message_witness:
  "dhcp_recv example_dhcp_env 320 (example_dhcp_module example_ack_heap) =
     do { s \<leftarrow> dhcp_dispatch example_dhcp_env 7 DHCP_ACK 0x0500A8C0 ((example_dhcp_module example_ack_heap)
            \<lparr>dhcp_rx := \<lparr>rx_given = [False, True, False, True, False, False, True, False, False, False],
                        rx_val = [0, 5, 0, 120, 0, 0, 0xFFFFFF00, 0, 0, 0]\<rparr>\<rparr>);
          dh_pbuf_free example_dhcp_env 320 s }"
proof -
  let ?s = "example_dhcp_module example_ack_heap"
  have rx: "fold opt_store example_ack_opts (clear_options (dhcp_rx ?s)) =
      \<lparr>rx_given = [False, True, False, True, False, False, True, False, False, False],
       rx_val = [0, 5, 0, 120, 0, 0, 0xFFFFFF00, 0, 0, 0]\<rparr>"
  proof -
    have r: "replicate 10 x = [x, x, x, x, x, x, x, x, x, x]" for x :: 'a by (simp add: numeral_eq_Suc)
    have v: "be32 [0, 0, 0, 120] = 120" "be32 [255, 255, 255, 0] = 0xFFFFFF00" by (simp_all add: be32_def lwip_htonl_def PP_HTONL_def)
    show ?thesis by (simp add: example_dhcp_module_def example_ack_opts_def opt_store_def opt_values_def clear_options_def got_option_def r v)
  qed
  have hdr: "dhcp_reply_hdr example_nif example_dhcp 0x0500A8C0 example_ack_hdr"
    unfolding dhcp_reply_hdr_def using example_ack_length(1)
    by (simp add: example_ack_hdr_def example_nif_def example_dhcp_def addr_bytes_def)
  have opts: "list_all opt_ok example_ack_opts" "map_of example_ack_opts 53 = Some [5]"
    by (simp_all add: example_ack_opts_def opt_ok_def)
  show ?thesis
    using dhcp_recv_takes_message [of example_dhcp_env ?s 320 7 example_dhcp example_nif, OF _ _ _ _ _ _ _ hdr opts, of "[]"]
      example_ack_packet rx
    by (simp add: example_ack_def example_dhcp_def)
qed

end
