(* ===== verification/Spec2Isabelle.thy ===== *)
theory Spec2Isabelle
  imports Lwip_Def Ip4_Addr Memp Timeouts Pbuf_Props Inet_Chksum Acd_Props Etharp_Props
    Ip4_Reass_Props Ip4_Input Udp_Props Dns_Props Dhcp_Props
begin

text \<open>
  \<^bold>\<open>The program.\<close> QNEthernet is an Ethernet library for the Teensy 4.1 and related boards. Its protocol logic is
  the lwIP stack under \<^verbatim>\<open>src/src/lwip\<close> and \<^verbatim>\<open>src/src/netif\<close>, written in C and configured by
  \<^verbatim>\<open>lwipopts.h\<close>: no operating system (\<^verbatim>\<open>NO_SYS\<close>), IPv4 only, one network interface, little-endian. This
  development models that stack from the bottom up, function by function, and proves what each layer promises to
  the one above.

  \<^bold>\<open>Machine and C.\<close> Fixed-width integers are words and wrap as in C. Memory is a function from addresses to bytes
  with a map of the live \<^verbatim>\<open>struct pbuf\<close>s over it. A result \<open>None\<close> stands for a failed \<^verbatim>\<open>LWIP_ASSERT\<close>, a
  dereference of a dangling or null pointer, or a loop that does not end; a theorem that an operation
  is \<open>Some\<close> therefore says that none of these happens. Loops over linked structures are \<open>partial_function (option)\<close>,
  so they need no fuel, and their termination on well-formed structures is part of the theorems. Code
  outside the stack is a parameter: the C library allocator, the driver's \<^verbatim>\<open>linkoutput\<close>, the entropy source, the
  clock, the callbacks of clients.

  \<^bold>\<open>Theories and source files.\<close>
  \<^item> \<open>Lwip_Prelude\<close>: word types, \<open>lwip_assert\<close>, byte and list lemmas, the collections of simplification rules.
  \<^item> \<open>Lwip_Def\<close>, \<^verbatim>\<open>def.c\<close>: byte order, string comparison and search, \<^verbatim>\<open>lwip_itoa\<close>. Each routine equals a
    specification on lists.
  \<^item> \<open>Ip4_Addr\<close>, \<^verbatim>\<open>ipv4/ip4_addr.c\<close>: address tests, parsing and printing. Parsing reads back what printing
    writes; a netmask is accepted if and only if it is a prefix.
  \<^item> \<open>Memp\<close>, \<^verbatim>\<open>memp.c\<close>: the fixed-size pools as linked free lists in memory. No element is handed out twice, none is
    lost.
  \<^item> \<open>Timeouts\<close>, \<^verbatim>\<open>timeouts.c\<close>: the sorted list of timeouts under a 32-bit clock that wraps. Insertion keeps the
    order by deadline; a check runs exactly what is due, in order, and ends unless a handler re-arms itself with
    no delay.
  \<^item> \<open>Pbuf\<close> (operations), \<open>Pbuf_Read\<close>, \<open>Pbuf_Write\<close>, \<open>Pbuf_Own\<close>, \<open>Pbuf_Chain\<close> (lemmas), \<open>Pbuf_Props\<close>
    (properties), \<^verbatim>\<open>pbuf.c\<close> and \<^verbatim>\<open>mem.c\<close>: packet buffers with reference counts. The ownership invariant \<open>heap_inv\<close> ties
    every live buffer to its block or pool element; each operation refines an operation on the
    byte sequence that a chain stands for (\<open>pdata\<close>) and keeps the invariant.
  \<^item> \<open>Inet_Chksum\<close>, \<^verbatim>\<open>inet_chksum.c\<close>: the three versions of the ones complement sum equal the sum of RFC 1071; the
    checksum of a chain depends on its bytes only.
  \<^item> \<open>Ethernet\<close>, \<^verbatim>\<open>netif/ethernet.c\<close> and the senders of \<^verbatim>\<open>etharp.c\<close>: frames and ARP packets. The state of the link layer
    (\<open>eth_state\<close>) holds the heap, the interfaces, the ARP table, the conflict detection modules and the trace of frames
    handed to the driver.
  \<^item> \<open>Acd\<close>, \<open>Acd_Props\<close>, \<^verbatim>\<open>ipv4/acd.c\<close>: the automaton of RFC 5227; how long it takes, what it sends, how it
    defends an address.
  \<^item> \<open>Etharp\<close> (operations), \<open>Etharp_Inv\<close>, \<open>Etharp_Cache\<close>, \<open>Etharp_Flow\<close>, \<open>Etharp_Input\<close> (lemmas), \<open>Etharp_Props\<close>
    (properties), \<^verbatim>\<open>ipv4/etharp.c\<close>: the ARP cache. The invariant \<open>arp_inv\<close> says that entries are unique, that their
    ages are in range and that the packets that wait are owned by the table and disjoint. The cache implements
    the contract \<open>address_cache\<close> (a locale): lookups never give a stale address.
  \<^item> \<open>Ip_State\<close>: the state of the layers above the link (\<open>ip_layer\<close>): the data of the packet being handled, the
    datagrams being put together, the multicast groups, the lists of UDP and raw control blocks.
  \<^item> \<open>Ip4\<close>, \<^verbatim>\<open>ipv4/ip4.c\<close> and the sending half of \<^verbatim>\<open>ipv4/ip4_frag.c\<close>: routing, the header that is written
    before a packet, options, fragmentation.
  \<^item> \<open>Ip4_Reass\<close> (operations), \<open>Ip4_Frags\<close>, \<open>Ip4_Chain\<close>, \<open>Ip4_Datagram\<close>, \<open>Ip4_Reass_Inv\<close>, \<open>Ip4_Reass_Step\<close> (lemmas),
    \<open>Ip4_Reass_Props\<close> (properties), the receiving half of \<^verbatim>\<open>ipv4/ip4_frag.c\<close>: the reassembly of fragments. The code
    overwrites the first eight bytes of a fragment's header with a link and the range of bytes it covers; the
    invariant \<open>reass_inv\<close> says that the chains made by these links are sorted, disjoint and owned, and that
    the counter of buffers is their number.
  \<^item> \<open>Icmp\<close>, \<open>Igmp\<close>, \<open>Udp\<close>, \<open>Raw\<close>, \<^verbatim>\<open>ipv4/icmp.c\<close>, \<^verbatim>\<open>ipv4/igmp.c\<close>, \<^verbatim>\<open>udp.c\<close>, \<^verbatim>\<open>raw.c\<close>: the protocols over IP.
  \<^item> \<open>Record_List\<close>: linked lists of structures, as a locale. \<open>Udp_Props\<close>: in the states reachable from start-up
    (\<open>udp_reach\<close>) the list of control blocks is well formed and ports are exclusive; how ports are chosen, which block gets a
    datagram.
  \<^item> \<open>Netif\<close>, \<^verbatim>\<open>netif.c\<close> and \<^verbatim>\<open>ipv4/autoip.c\<close>: the interface's addresses and flags, who is told when
    they change, link-local addresses.
  \<^item> \<open>Ip4_Input\<close>, \<^verbatim>\<open>ip4_input\<close>: which packets are taken, and to which protocol they go.
  \<^item> \<open>Dns\<close> (operations), \<open>Dns_Name\<close> (lemmas), \<open>Dns_Props\<close> (properties), \<^verbatim>\<open>dns.c\<close>: the DNS client. A name is a list of labels
    (\<open>dns_enc\<close> in a message, \<open>dotted\<close> as a string); what is written for a name, what the comparison of a name decides, which
    packets are dropped (\<open>dns_plausible\<close>) and which are taken, and that the end of a query keeps the tables and the control blocks of
    UDP consistent (\<open>dns_wf\<close>).
  \<^item> \<open>Dhcp\<close> (operations), \<open>Dhcp_Options\<close> (lemmas), \<open>Dhcp_Props\<close> (properties), \<^verbatim>\<open>ipv4/dhcp.c\<close>: the DHCP client with its
    automaton, its messages and its timers. An option is a code with data (\<open>opt_enc\<close>); that reading the options of a message ends and
    what is stored (\<open>opt_store\<close>), what is written and when it fits, which messages are dropped and which are handled, and that a
    lease ends in time (\<open>lease_run\<close> are the steps between two ends).
  \<^item> \<open>Eth_Example\<close>, \<open>Ip_Example\<close>: the concrete states at which the properties are instantiated.

  \<^bold>\<open>How the parts interact.\<close> The buffers live in pool elements and heap blocks (\<open>Memp\<close>, \<open>Pbuf\<close>); ARP packets are
  built in buffers and sent through \<^verbatim>\<open>ethernet_output\<close>; the ARP table keeps references to the packets that wait; an ARP
  packet that arrives is first shown to the conflict detection modules, then updates the table, then is answered.
  An IP packet that arrives goes through \<^verbatim>\<open>ip4_input\<close> to the reassembly if it is a fragment, then to the raw
  control blocks and to its protocol; what a protocol sends goes through \<^verbatim>\<open>ip4_output_if\<close>, the fragmentation and the ARP
  cache to the driver. Calls that go up the stack and would make the theories depend on each other (\<^verbatim>\<open>ip4_input\<close> from
  the link layer, the callbacks of clients, TCP, DHCP) are fields \<open>call_...\<close> of the environment \<open>eth_env\<close>; \<open>stack\<close> of
  \<open>Ip4_Input\<close> sets the first of them to the model of \<^verbatim>\<open>ip4_input\<close>. The properties of the upper layers are stated over
  the same heap, so that they include that no buffer leaks and none is freed twice.

  \<^bold>\<open>Interfaces as locales.\<close> \<open>object_pool\<close> (in \<open>Memp\<close>) is the contract of an allocator of equal elements, interpreted as
  \<open>pool\<close> on \<^verbatim>\<open>do_memp_malloc_pool\<close> and \<^verbatim>\<open>do_memp_free_pool\<close>; the ownership invariants of the buffers and of the
  reassembly entries rest on it. \<open>header_stack\<close> (in \<open>Pbuf_Props\<close>) is the contract of adding and removing headers,
  interpreted as \<open>headers\<close> on \<^verbatim>\<open>pbuf_add_header\<close> and \<^verbatim>\<open>pbuf_remove_header\<close>. \<open>address_cache\<close> (in \<open>Etharp_Cache\<close>) is the
  contract of a cache of addresses, interpreted as \<open>arp\<close> on the ARP table. \<open>record_list\<close> is the contract of a structure with a
  link member, interpreted as \<open>pcbs\<close> on the control blocks of UDP.

  \<^bold>\<open>Bounds and fuel.\<close> No operation takes fuel. The bounds that appear in the properties are those of the configuration:
  ten ARP entries, ten buffers held by the reassembly (\<^verbatim>\<open>IP_REASS_MAX_PBUFS\<close>), the widths of the counters.

  \<^bold>\<open>Not modelled.\<close> IPv6, PPP and VLAN code, which the configuration leaves out; statistics and debug output; the
  C++ classes, drivers and firmware images. TCP and the multicast DNS application are left out; the calls into TCP are parameters, as
  is the call of \<^verbatim>\<open>dhcp_network_changed_link_up\<close> from \<open>Netif\<close>, which the theory \<open>Dhcp\<close> defines above it.
\<close>

end
